(* ===== verification/Prelude.thy ===== *)
theory Prelude
  imports Main "HOL-Library.Word" "HOL-Library.Char_ord" "HOL-Library.List_Lexorder"
    "HOL-Library.Sublist" "HOL-Library.Multiset"
begin

text \<open>
  Shared vocabulary of the development: the types that stand for Go's machine values, the
  result type in which every Go \<open>(value, error)\<close> pair is written, the few functions of
  Go's \<open>strings\<close> and \<open>sort\<close> packages the modelled code calls, and the generic
  lemmas on lists, options and words that the component theories use.

  A Go string or byte slice is a \<open>string\<close>: a list of HOL characters, which are bytes, so
  \<open>length\<close> is Go's \<open>len\<close> and the order of \<open>List_Lexorder\<close> over \<open>Char_ord\<close> is Go's
  byte-wise string order. A \<open>uint64\<close> is a \<open>64 word\<close> and wraps around as in Go. A fallible
  function returns \<open>'e + 'a\<close> with \<open>Inl\<close> for the error.
\<close>

section \<open>Types\<close>

type_synonym u8 = "8 word"
type_synonym u64 = "64 word"
type_synonym bytes = string

named_theorems result_simps "unfolding rules of the result combinators"

section \<open>Results\<close>

definition bindR :: "'e + 'a \<Rightarrow> ('a \<Rightarrow> 'e + 'b) \<Rightarrow> 'e + 'b" where
  "bindR r f = (case r of Inl e \<Rightarrow> Inl e | Inr x \<Rightarrow> f x)"

definition guardR :: "bool \<Rightarrow> 'e \<Rightarrow> 'e + unit" where
  "guardR ok e = (if ok then Inr () else Inl e)"

definition mapErr :: "('e \<Rightarrow> 'f) \<Rightarrow> 'e + 'a \<Rightarrow> 'f + 'a" where
  "mapErr g r = (case r of Inl e \<Rightarrow> Inl (g e) | Inr x \<Rightarrow> Inr x)"

definition ofOption :: "'e \<Rightarrow> 'a option \<Rightarrow> 'e + 'a" where
  "ofOption e x = (case x of None \<Rightarrow> Inl e | Some v \<Rightarrow> Inr v)"

definition isOk :: "'e + 'a \<Rightarrow> bool" where
  "isOk r = (case r of Inl _ \<Rightarrow> False | Inr _ \<Rightarrow> True)"

fun mapR :: "('a \<Rightarrow> 'e + 'b) \<Rightarrow> 'a list \<Rightarrow> 'e + 'b list" where
  "mapR f [] = Inr []"
| "mapR f (x # xs) = bindR (f x) (\<lambda>y. bindR (mapR f xs) (\<lambda>ys. Inr (y # ys)))"

fun foldR :: "('a \<Rightarrow> 's \<Rightarrow> 'e + 's) \<Rightarrow> 'a list \<Rightarrow> 's \<Rightarrow> 'e + 's" where
  "foldR f [] acc = Inr acc"
| "foldR f (x # xs) acc = bindR (f x acc) (foldR f xs)"

lemma bindR_simps [simp, result_simps]:
  "bindR (Inl e) f = Inl e" "bindR (Inr x) f = f x"
  by (simp_all add: bindR_def)

lemma guardR_simps [simp, result_simps]:
  "guardR True e = Inr ()" "guardR False e = Inl e"
  by (simp_all add: guardR_def)

lemma mapErr_simps [simp, result_simps]:
  "mapErr g (Inl e) = Inl (g e)" "mapErr g (Inr x) = Inr x"
  by (simp_all add: mapErr_def)

lemma ofOption_simps [simp, result_simps]:
  "ofOption e None = Inl e" "ofOption e (Some v) = Inr v"
  by (simp_all add: ofOption_def)

lemma isOk_simps [simp, result_simps]: "isOk (Inl e) = False" "isOk (Inr x) = True"
  by (simp_all add: isOk_def)

lemma bindR_eq_Inr: "bindR r f = Inr y \<longleftrightarrow> (\<exists>x. r = Inr x \<and> f x = Inr y)"
  by (cases r) auto

lemma guardR_eq_Inr [simp]: "guardR ok e = Inr u \<longleftrightarrow> ok"
  by (cases ok) auto

lemma mapErr_eq_Inr [simp]: "mapErr g r = Inr y \<longleftrightarrow> r = Inr y"
  by (cases r) auto

lemma ofOption_eq_Inr [simp]: "ofOption e x = Inr y \<longleftrightarrow> x = Some y"
  by (cases x) auto

lemma mapR_all_Inr: "(\<And>x. x \<in> set xs \<Longrightarrow> f x = Inr (g x)) \<Longrightarrow> mapR f xs = Inr (map g xs)"
  by (induction xs) auto

lemma mapR_Inr_length: "mapR f xs = Inr ys \<Longrightarrow> length ys = length xs"
  by (induction xs arbitrary: ys) (auto simp: bindR_eq_Inr)

lemma mapR_Inr_all2: "mapR f xs = Inr ys \<Longrightarrow> list_all2 (\<lambda>x y. f x = Inr y) xs ys"
  by (induction xs arbitrary: ys) (auto simp: bindR_eq_Inr)

text \<open>An invariant of a loop that always succeeds.\<close>

lemma foldR_invariant:
  assumes "I [] acc" "\<And>past x todo s. xs = past @ x # todo \<Longrightarrow> I past s \<Longrightarrow> \<exists>s'. f x s = Inr s' \<and> I (past @ [x]) s'"
  shows "\<exists>s. foldR f xs acc = Inr s \<and> I xs s"
proof -
  have "\<exists>s'. foldR f ys s = Inr s' \<and> I xs s'" if "xs = past @ ys" "I past s" for past ys s
    using that
  proof (induction ys arbitrary: past s)
    case (Cons y ys)
    obtain s1 where "f y s = Inr s1" "I (past @ [y]) s1" using assms(2) Cons.prems by blast
    then show ?case using Cons.IH [of "past @ [y]" s1] Cons.prems(1) by simp
  qed simp
  then show ?thesis using assms(1) by fastforce
qed

section \<open>Go's string functions\<close>

definition HasPrefix :: "bytes \<Rightarrow> bytes \<Rightarrow> bool" where
  "HasPrefix s p = (take (length p) s = p)"

definition HasSuffix :: "bytes \<Rightarrow> bytes \<Rightarrow> bool" where
  "HasSuffix s p = (length p \<le> length s \<and> drop (length s - length p) s = p)"

definition TrimSuffix :: "bytes \<Rightarrow> bytes \<Rightarrow> bytes" where
  "TrimSuffix s p = (if HasSuffix s p then take (length s - length p) s else s)"

definition CutSuffix :: "bytes \<Rightarrow> bytes \<Rightarrow> bytes option" where
  "CutSuffix s p = (if HasSuffix s p then Some (take (length s - length p) s) else None)"

fun SplitOn :: "char \<Rightarrow> bytes \<Rightarrow> bytes list" where
  "SplitOn c [] = [[]]"
| "SplitOn c (x # xs) =
     (if x = c then [] # SplitOn c xs
      else case SplitOn c xs of [] \<Rightarrow> [[x]] | seg # segs \<Rightarrow> (x # seg) # segs)"

text \<open>\<open>CutAt\<close> is \<open>strings.Cut\<close> with a one-byte separator: the parts around its first occurrence.\<close>

fun CutAt :: "char \<Rightarrow> bytes \<Rightarrow> (bytes \<times> bytes) option" where
  "CutAt c [] = None"
| "CutAt c (x # xs) =
     (if x = c then Some ([], xs) else map_option (\<lambda>(a, b). (x # a, b)) (CutAt c xs))"

lemma SplitOn_not_Nil [simp]: "SplitOn c s \<noteq> []"
  by (cases s) (auto split: list.splits)

lemma SplitOn_append:
  "c \<notin> set a \<Longrightarrow> SplitOn c (a @ c # b) = a # SplitOn c b"
  by (induction a) auto

lemma SplitOn_single: "c \<notin> set a \<Longrightarrow> SplitOn c a = [a]"
  by (induction a) auto

lemma SplitOn_segments: "seg \<in> set (SplitOn c s) \<Longrightarrow> c \<notin> set seg"
  by (induction s arbitrary: seg) (fastforce split: if_splits list.splits)+

fun JoinOn :: "char \<Rightarrow> bytes list \<Rightarrow> bytes" where
  "JoinOn c [] = []"
| "JoinOn c [s] = s"
| "JoinOn c (s # t # ts) = s @ c # JoinOn c (t # ts)"

lemma JoinOn_Cons: "ts \<noteq> [] \<Longrightarrow> JoinOn c (s # ts) = s @ c # JoinOn c ts"
  by (cases ts) auto

lemma SplitOn_join: "JoinOn c (SplitOn c s) = s"
proof (induction s)
  case (Cons x s)
  obtain seg segs where split: "SplitOn c s = seg # segs" by (cases "SplitOn c s") auto
  then show ?case using Cons by (cases segs) (auto simp: JoinOn_Cons)
qed simp

lemma SplitOn_last: "SplitOn c (s @ [c]) = SplitOn c s @ [[]]"
  by (induction s) (auto split: list.splits simp: Cons_eq_append_conv)

lemma CutAt_append: "c \<notin> set a \<Longrightarrow> CutAt c (a @ c # b) = Some (a, b)"
  by (induction a) auto

lemma CutAt_Some: "CutAt c s = Some (a, b) \<Longrightarrow> s = a @ c # b \<and> c \<notin> set a"
  by (induction s arbitrary: a b) (auto split: if_splits)

lemma HasPrefix_iff: "HasPrefix s p \<longleftrightarrow> prefix p s"
proof
  assume "HasPrefix s p"
  then have "s = p @ drop (length p) s"
    by (metis HasPrefix_def append_take_drop_id)
  then show "prefix p s" by (metis prefixI)
next
  assume "prefix p s"
  then show "HasPrefix s p" by (auto simp: HasPrefix_def prefix_def)
qed

lemma HasSuffix_iff: "HasSuffix s p \<longleftrightarrow> suffix p s"
proof
  assume "HasSuffix s p"
  then have "s = take (length s - length p) s @ p"
    by (metis HasSuffix_def append_take_drop_id)
  then show "suffix p s" by (metis suffixI)
next
  assume "suffix p s"
  then show "HasSuffix s p" by (auto simp: HasSuffix_def suffix_def)
qed

lemma CutSuffix_append [simp]: "CutSuffix (a @ p) p = Some a"
  by (simp add: CutSuffix_def HasSuffix_def)

lemma CutSuffix_Some: "CutSuffix s p = Some a \<Longrightarrow> s = a @ p"
  by (metis CutSuffix_def HasSuffix_def append_take_drop_id option.distinct(1) option.inject)

section \<open>Decimal text of unsigned 64-bit integers\<close>

text \<open>
  \<open>FormatNat\<close> is \<open>strconv.FormatUint(n, 10)\<close> and \<open>\%d\<close>; \<open>ParseUint\<close> is
  \<open>strconv.ParseUint(s, 10, 64)\<close>: empty text, a byte outside \<open>0..9\<close> and a value past the
  uint64 range are errors. With an explicit base Go accepts neither a sign nor underscores.
\<close>

definition digit_char :: "nat \<Rightarrow> char" where
  "digit_char d = char_of (48 + d)"

fun FormatNat :: "nat \<Rightarrow> bytes" where
  "FormatNat n = (if n < 10 then [digit_char n] else FormatNat (n div 10) @ [digit_char (n mod 10)])"

declare FormatNat.simps [simp del]

definition FormatUint :: "u64 \<Rightarrow> bytes" where
  "FormatUint w = FormatNat (unat w)"

definition is_digit :: "char \<Rightarrow> bool" where
  "is_digit c = (48 \<le> (of_char c :: nat) \<and> (of_char c :: nat) \<le> 57)"

fun digits_value :: "nat \<Rightarrow> bytes \<Rightarrow> nat" where
  "digits_value acc [] = acc"
| "digits_value acc (c # cs) = digits_value (10 * acc + (of_char c - 48)) cs"

definition ParseUint :: "bytes \<Rightarrow> u64 option" where
  "ParseUint s =
     (if s = [] \<or> \<not> list_all is_digit s then None
      else let n = digits_value 0 s in if n < 2 ^ 64 then Some (of_nat n) else None)"

lemma of_char_digit [simp]: "d < 10 \<Longrightarrow> of_char (digit_char d) = 48 + d"
  by (simp add: digit_char_def)

lemma is_digit_digit_char [simp]: "d < 10 \<Longrightarrow> is_digit (digit_char d)"
  by (simp add: is_digit_def)

lemma digits_value_append:
  "digits_value acc (s @ [c]) = 10 * digits_value acc s + (of_char c - 48)"
  by (induction s arbitrary: acc) auto

lemma FormatNat_digits: "list_all is_digit (FormatNat n)"
proof (induction n rule: FormatNat.induct)
  case (1 n)
  then show ?case by (cases "n < 10") (simp_all add: FormatNat.simps [of n])
qed

lemma FormatNat_nonempty [simp]: "FormatNat n \<noteq> []"
  by (subst FormatNat.simps) simp

lemma digits_value_FormatNat: "digits_value 0 (FormatNat n) = n"
proof (induction n rule: FormatNat.induct)
  case (1 n)
  then show ?case
    by (cases "n < 10") (simp_all add: FormatNat.simps [of n] digits_value_append)
qed

lemma unat_u64_less: "unat (w :: u64) < 2 ^ 64"
  using unsigned_less [of w] by simp

lemma ParseUint_FormatUint [simp]: "ParseUint (FormatUint w) = Some w"
  using unat_u64_less [of w]
  by (simp add: ParseUint_def FormatUint_def FormatNat_digits digits_value_FormatNat Let_def)

lemma FormatUint_digits: "list_all is_digit (FormatUint w)"
  by (simp add: FormatUint_def FormatNat_digits)

lemma FormatUint_inject [simp]: "FormatUint v = FormatUint w \<longleftrightarrow> v = w"
  by (metis ParseUint_FormatUint option.inject)

lemma FormatUint_chars: "c \<in> set (FormatUint w) \<Longrightarrow> is_digit c"
  using FormatUint_digits by (auto simp: list_all_iff)

section \<open>ASCII text\<close>

definition ascii :: "bytes \<Rightarrow> bool" where
  "ascii s = list_all (\<lambda>c. of_char c < (0x80 :: nat)) s"

lemma ascii_simps [simp]:
  "ascii []" "ascii (c # s) \<longleftrightarrow> of_char c < (0x80 :: nat) \<and> ascii s" "ascii (s @ t) \<longleftrightarrow> ascii s \<and> ascii t"
  by (simp_all add: ascii_def)

lemma ascii_subset: "set s \<subseteq> set t \<Longrightarrow> ascii t \<Longrightarrow> ascii s"
  by (auto simp: ascii_def list_all_iff)

lemma ascii_FormatUint [simp]: "ascii (FormatUint w)"
  using FormatUint_chars [of _ w] by (fastforce simp: ascii_def list_all_iff is_digit_def)

section \<open>Sorting and association lists\<close>

text \<open>
  \<open>sort.Strings\<close> is \<open>sort\<close>; \<open>sort.Slice\<close> over a path or name is \<open>sort_key\<close>. Go leaves the
  order of equal keys open there; \<open>sort_key\<close> is one of the results Go allows.
\<close>

lemma set_sort_key_filter: "set (sort_key f (filter P xs)) = {x \<in> set xs. P x}"
  by auto

lemma last_map_or: "xs \<noteq> [] \<Longrightarrow> last (map f xs) = f (last xs)"
  by (rule last_map)

section \<open>Maps filled by a loop\<close>

lemma foldl_upd: "foldl (\<lambda>m x. m(k x \<mapsto> v x)) m xs = m ++ map_of (rev (map (\<lambda>x. (k x, v x)) xs))"
  by (induction xs arbitrary: m) simp_all

lemma map_of_rev: "distinct (map fst xs) \<Longrightarrow> map_of (rev xs) = map_of xs"
proof (induction xs)
  case (Cons x xs)
  then have "map_of xs (fst x) = None" by (simp add: map_of_eq_None_iff)
  then show ?case using Cons by (auto simp: map_add_def fun_eq_iff split: option.splits)
qed simp

section \<open>Sorting by a key\<close>

lemma sort_key_unique:
  assumes "distinct (map f xs)" "mset xs = mset ys"
  shows "sort_key f xs = sort_key f ys"
proof (rule map_sorted_distinct_set_unique [where f = f])
  have d: "distinct (map f ys)" and eq: "set xs = set ys"
    using assms by (metis mset_eq_imp_distinct_iff mset_map, metis mset_eq_setD)
  show "set (sort_key f xs) = set (sort_key f ys)" using eq by simp
  show "inj_on f (set (sort_key f xs) \<union> set (sort_key f ys))"
    using assms(1) eq by (simp add: distinct_map)
  show "distinct (map f (sort_key f xs))" "distinct (map f (sort_key f ys))"
    using assms(1) d by (metis mset_eq_imp_distinct_iff mset_map mset_sort)+
qed simp_all

end
