(* ===== verification/StrictJson.thy ===== *)
theory StrictJson
  imports Prelude
begin

text \<open>
  The strict JSON value tree of \<open>internal/strictjson/json.go\<close>. The bytes of a document are
  represented by the token stream that \<open>encoding/json\<close>'s \<open>Decoder.Token\<close> produces for them: the
  tokens read before the stream ends, and whether it ends at the end of the input or at a
  lexical or grammatical error. \<open>Parse\<close>, \<open>valueFromToken\<close>, \<open>parseObject\<close> and \<open>parseArray\<close> follow the
  Go functions call by call; \<open>encode_value\<close> is the token stream of the compact text that
  \<open>json.Encoder\<close> writes for a tree.

  The three parsing functions call one another and hand the unread tokens on, so they take
  fuel. Every second call reads at least one token, hence fuel of twice the number of tokens is
  never exhausted (\<open>parse_fuel_enough\<close>) and \<open>Parse\<close> starts with that much.
\<close>

section \<open>Values and tokens\<close>

datatype jvalue =
    JObject "(bytes \<times> jvalue) list"
  | JArray "jvalue list"
  | JString bytes
  | JNumber u64
  | JBool bool

datatype jkind = KObject | KArray | KString | KNumber | KBool

fun Kind :: "jvalue \<Rightarrow> jkind" where
  "Kind (JObject _) = KObject"
| "Kind (JArray _) = KArray"
| "Kind (JString _) = KString"
| "Kind (JNumber _) = KNumber"
| "Kind (JBool _) = KBool"

datatype jtoken = Delim char | Str bytes | Num bytes | Bool bool | Null

datatype stream_end = AtEOF | AtError

record jstream =
  js_tokens :: "jtoken list"
  js_end :: stream_end

datatype json_error =
    JSyntax
  | JTrailing
  | JUnexpectedDelim
  | JNotUnsigned
  | JExplicitNull
  | JFieldNameNotString
  | JDuplicateField bytes
  | JExpectedDelim
  | JUnknownField bytes
  | JOutOfFuel

section \<open>Parsing\<close>

definition parseUint64 :: "bytes \<Rightarrow> json_error + u64" where
  "parseUint64 s =
     (if s = [] \<or> hd s = CHR ''-'' \<or> list_ex (\<lambda>c. c \<in> set ''.eE'') s then Inl JNotUnsigned
      else ofOption JNotUnsigned (ParseUint s))"

text \<open>\<open>More\<close>: another element follows in the current object or array.\<close>

definition More :: "jtoken list \<Rightarrow> bool" where
  "More toks = (case toks of [] \<Rightarrow> False | t # _ \<Rightarrow> t \<noteq> Delim (CHR ''}'') \<and> t \<noteq> Delim (CHR '']''))"

definition expectDelim :: "char \<Rightarrow> jtoken list \<Rightarrow> json_error + jtoken list" where
  "expectDelim want toks =
     (case toks of [] \<Rightarrow> Inl JSyntax
      | t # rest \<Rightarrow> if t = Delim want then Inr rest else Inl JExpectedDelim)"

fun valueFromToken :: "nat \<Rightarrow> jtoken \<Rightarrow> jtoken list \<Rightarrow> json_error + jvalue \<times> jtoken list"
  and parseObject :: "nat \<Rightarrow> (bytes \<times> jvalue) list \<Rightarrow> jtoken list \<Rightarrow> json_error + jvalue \<times> jtoken list"
  and parseArray :: "nat \<Rightarrow> jvalue list \<Rightarrow> jtoken list \<Rightarrow> json_error + jvalue \<times> jtoken list"
where
  "valueFromToken 0 tok rest = Inl JOutOfFuel"
| "valueFromToken (Suc fuel) tok rest =
     (case tok of
        Delim d \<Rightarrow>
          if d = CHR ''{'' then parseObject fuel [] rest
          else if d = CHR ''['' then parseArray fuel [] rest
          else Inl JUnexpectedDelim
      | Str s \<Rightarrow> Inr (JString s, rest)
      | Num s \<Rightarrow> bindR (parseUint64 s) (\<lambda>n. Inr (JNumber n, rest))
      | Bool b \<Rightarrow> Inr (JBool b, rest)
      | Null \<Rightarrow> Inl JExplicitNull)"
| "parseObject 0 flds toks = Inl JOutOfFuel"
| "parseObject (Suc fuel) flds toks =
     (if More toks then
        (case hd toks of
           Str name \<Rightarrow>
             if name \<in> fst ` set flds then Inl (JDuplicateField name)
             else (case tl toks of
                     [] \<Rightarrow> Inl JSyntax
                   | vtok # rest \<Rightarrow>
                       bindR (valueFromToken fuel vtok rest)
                         (\<lambda>(v, rest'). parseObject fuel (flds @ [(name, v)]) rest'))
         | _ \<Rightarrow> Inl JFieldNameNotString)
      else bindR (expectDelim (CHR ''}'') toks) (\<lambda>rest. Inr (JObject flds, rest)))"
| "parseArray 0 arr toks = Inl JOutOfFuel"
| "parseArray (Suc fuel) arr toks =
     (if More toks then
        bindR (valueFromToken fuel (hd toks) (tl toks))
          (\<lambda>(v, rest). parseArray fuel (arr @ [v]) rest)
      else bindR (expectDelim (CHR '']'') toks) (\<lambda>rest. Inr (JArray arr, rest)))"

definition Parse :: "jstream \<Rightarrow> json_error + jvalue" where
  "Parse data =
     (case js_tokens data of
        [] \<Rightarrow> Inl JSyntax
      | tok # rest \<Rightarrow>
          bindR (valueFromToken (2 * length (js_tokens data)) tok rest)
            (\<lambda>(root, rest').
               if rest' \<noteq> [] then Inl JTrailing
               else if js_end data = AtError then Inl JSyntax
               else Inr root))"

section \<open>Field access\<close>

definition Value_Field :: "jvalue \<Rightarrow> bytes \<Rightarrow> jvalue option" where
  "Value_Field v name = (case v of JObject fs \<Rightarrow> map_of fs name | _ \<Rightarrow> None)"

definition RejectUnknown :: "jvalue \<Rightarrow> bytes list \<Rightarrow> json_error + unit" where
  "RejectUnknown v allowed =
     (case v of
        JObject fs \<Rightarrow>
          (case find (\<lambda>f. fst f \<notin> set allowed) fs of
             None \<Rightarrow> Inr ()
           | Some f \<Rightarrow> Inl (JUnknownField (fst f)))
      | _ \<Rightarrow> Inr ())"

section \<open>Encoding\<close>

fun encode_value :: "jvalue \<Rightarrow> jtoken list" where
  "encode_value (JObject fs) =
     Delim (CHR ''{'') # concat (map (\<lambda>(name, v). Str name # encode_value v) fs) @ [Delim (CHR ''}'')]"
| "encode_value (JArray vs) =
     Delim (CHR ''['') # concat (map encode_value vs) @ [Delim (CHR '']'')]"
| "encode_value (JString s) = [Str s]"
| "encode_value (JNumber n) = [Num (FormatUint n)]"
| "encode_value (JBool b) = [Bool b]"

definition Encode :: "jvalue \<Rightarrow> jstream" where
  "Encode v = \<lparr>js_tokens = encode_value v, js_end = AtEOF\<rparr>"

text \<open>The strings of a tree, field names included, are ASCII.\<close>

definition ascii_texts :: "jvalue \<Rightarrow> bool" where
  "ascii_texts v = list_all (\<lambda>t. case t of Str s \<Rightarrow> ascii s | _ \<Rightarrow> True) (encode_value v)"

lemma ascii_texts_simps [simp]:
  "ascii_texts (JObject fs) \<longleftrightarrow> list_all (\<lambda>(name, v). ascii name \<and> ascii_texts v) fs"
  "ascii_texts (JArray vs) \<longleftrightarrow> list_all ascii_texts vs"
  "ascii_texts (JString s) \<longleftrightarrow> ascii s" "ascii_texts (JNumber n)" "ascii_texts (JBool b)"
  by (auto simp: ascii_texts_def list_all_iff)

text \<open>A tree as the parser builds it: the field names of every object are distinct.\<close>

fun unique_names :: "jvalue \<Rightarrow> bool" where
  "unique_names (JObject fs) \<longleftrightarrow> distinct (map fst fs) \<and> (\<forall>f \<in> set fs. unique_names (snd f))"
| "unique_names (JArray vs) \<longleftrightarrow> (\<forall>v \<in> set vs. unique_names v)"
| "unique_names _ \<longleftrightarrow> True"

section \<open>Lemmas\<close>

lemma expectDelim_Inr: "expectDelim d toks = Inr rest \<longleftrightarrow> toks = Delim d # rest"
  by (auto simp: expectDelim_def split: list.splits)

lemma More_nonempty: "More toks \<Longrightarrow> \<exists>t ts. toks = t # ts"
  by (auto simp: More_def split: list.splits)

text \<open>
  One round of each loop, as facts about a successful call: the tokens it read and the calls it
  made. They replace unfolding the mutually recursive equations.
\<close>

lemma parseObject_round:
  assumes "parseObject (Suc fuel) fs toks = Inr (v, r)" "More toks"
  obtains name vtok rest v' r' where "toks = Str name # vtok # rest" "name \<notin> fst ` set fs"
    "valueFromToken fuel vtok rest = Inr (v', r')" "parseObject fuel (fs @ [(name, v')]) r' = Inr (v, r)"
  using assms More_nonempty [OF assms(2)]
  by (auto simp: bindR_eq_Inr split: jtoken.splits if_splits list.splits)

lemma parseArray_round:
  assumes "parseArray (Suc fuel) arr toks = Inr (v, r)" "More toks"
  obtains t rest v' r' where "toks = t # rest"
    "valueFromToken fuel t rest = Inr (v', r')" "parseArray fuel (arr @ [v']) r' = Inr (v, r)"
  using assms More_nonempty [OF assms(2)] by (auto simp: bindR_eq_Inr)

lemma parseObject_last:
  "parseObject (Suc fuel) fs toks = Inr (v, r) \<Longrightarrow> \<not> More toks \<Longrightarrow>
   toks = Delim (CHR ''}'') # r \<and> v = JObject fs"
  by (auto simp: bindR_eq_Inr expectDelim_Inr)

lemma parseArray_last:
  "parseArray (Suc fuel) arr toks = Inr (v, r) \<Longrightarrow> \<not> More toks \<Longrightarrow>
   toks = Delim (CHR '']'') # r \<and> v = JArray arr"
  by (auto simp: bindR_eq_Inr expectDelim_Inr)

lemma valueFromToken_cases:
  assumes "valueFromToken (Suc fuel) tok rest = Inr (v, r)"
  obtains (obj) "tok = Delim (CHR ''{'')" "parseObject fuel [] rest = Inr (v, r)"
    | (arr) "tok = Delim (CHR ''['')" "parseArray fuel [] rest = Inr (v, r)"
    | (leaf) "r = rest" "Kind v \<noteq> KObject" "Kind v \<noteq> KArray"
  using assms by (auto simp: bindR_eq_Inr split: jtoken.splits if_splits)

text \<open>No call returns more tokens than it was given; the loops read at least the closing one.\<close>

lemma parse_consumes:
  "(\<forall>tok rest v r. valueFromToken fuel tok rest = Inr (v, r) \<longrightarrow> length r \<le> length rest) \<and>
   (\<forall>fs toks v r. parseObject fuel fs toks = Inr (v, r) \<longrightarrow> length r < length toks) \<and>
   (\<forall>arr toks v r. parseArray fuel arr toks = Inr (v, r) \<longrightarrow> length r < length toks)"
proof (induction fuel)
  case 0
  show ?case by simp
next
  case (Suc fuel)
  note val = Suc.IH [THEN conjunct1, rule_format]
    and obj = Suc.IH [THEN conjunct2, THEN conjunct1, rule_format]
    and arr = Suc.IH [THEN conjunct2, THEN conjunct2, rule_format]
  have "length r \<le> length rest" if "valueFromToken (Suc fuel) tok rest = Inr (v, r)" for tok rest v r
    using that by (cases rule: valueFromToken_cases) (simp_all add: obj arr less_imp_le)
  moreover have "length r < length toks" if "parseObject (Suc fuel) fs toks = Inr (v, r)" for fs toks v r
  proof (cases "More toks")
    case True
    from parseObject_round [OF that True] obtain name vtok rest v' r' where
      "toks = Str name # vtok # rest" "valueFromToken fuel vtok rest = Inr (v', r')"
      "parseObject fuel (fs @ [(name, v')]) r' = Inr (v, r)" by metis
    moreover from this have "length r' \<le> length rest" "length r < length r'" by (simp_all add: val obj)
    ultimately show ?thesis by simp
  next
    case False
    from parseObject_last [OF that False] show ?thesis by simp
  qed
  moreover have "length r < length toks" if "parseArray (Suc fuel) arr toks = Inr (v, r)" for arr toks v r
  proof (cases "More toks")
    case True
    from parseArray_round [OF that True] obtain t rest v' r' where
      "toks = t # rest" "valueFromToken fuel t rest = Inr (v', r')"
      "parseArray fuel (arr @ [v']) r' = Inr (v, r)" by metis
    moreover from this have "length r' \<le> length rest" "length r < length r'" by (simp_all add: val arr)
    ultimately show ?thesis by simp
  next
    case False
    from parseArray_last [OF that False] show ?thesis by simp
  qed
  ultimately show ?case by blast
qed

text \<open>Fuel of twice the tokens left is never exhausted.\<close>

lemma parse_fuel_enough:
  "(\<forall>tok rest. 2 * length rest + 2 \<le> fuel \<longrightarrow> valueFromToken fuel tok rest \<noteq> Inl JOutOfFuel) \<and>
   (\<forall>fs toks. 2 * length toks + 1 \<le> fuel \<longrightarrow> parseObject fuel fs toks \<noteq> Inl JOutOfFuel) \<and>
   (\<forall>arr toks. 2 * length toks + 1 \<le> fuel \<longrightarrow> parseArray fuel arr toks \<noteq> Inl JOutOfFuel)"
proof (induction fuel)
  case 0
  show ?case by simp
next
  case (Suc fuel)
  note val = Suc.IH [THEN conjunct1, rule_format]
    and obj = Suc.IH [THEN conjunct2, THEN conjunct1, rule_format]
    and arr = Suc.IH [THEN conjunct2, THEN conjunct2, rule_format]
    and consumes = parse_consumes [of fuel, THEN conjunct1, rule_format]
  have "valueFromToken (Suc fuel) tok rest \<noteq> Inl JOutOfFuel" if "2 * length rest + 2 \<le> Suc fuel"
    for tok rest
    using that obj [of rest] arr [of rest]
    by (cases tok) (auto simp: parseUint64_def ofOption_def bindR_def split: sum.splits option.splits)
  moreover have "parseObject (Suc fuel) fs toks \<noteq> Inl JOutOfFuel" if "2 * length toks + 1 \<le> Suc fuel"
    for fs toks
  proof (cases "\<exists>name vtok rest. toks = Str name # vtok # rest \<and> name \<notin> fst ` set fs")
    case True
    then obtain name vtok rest where toks: "toks = Str name # vtok # rest" "name \<notin> fst ` set fs"
      by blast
    then have step: "parseObject (Suc fuel) fs toks =
        bindR (valueFromToken fuel vtok rest) (\<lambda>(v, rest'). parseObject fuel (fs @ [(name, v)]) rest')"
      by (simp add: More_def)
    have "2 * length rest + 2 \<le> fuel" using that toks by simp
    then show ?thesis
      using val [of rest vtok] consumes [of vtok rest] obj that toks unfolding step
      by (cases "valueFromToken fuel vtok rest") (auto simp: order_trans)
  next
    case False
    then show ?thesis
      by (cases toks; cases "hd toks"; cases "tl toks")
        (auto simp: More_def expectDelim_def)
  qed
  moreover have "parseArray (Suc fuel) arr toks \<noteq> Inl JOutOfFuel" if "2 * length toks + 1 \<le> Suc fuel"
    for arr toks
  proof (cases "More toks")
    case True
    then obtain t ts where toks: "toks = t # ts" using More_nonempty by blast
    with that have "2 * length ts + 2 \<le> fuel" by simp
    then show ?thesis
      using val [of ts t] consumes [of t ts] arr True that toks
      by (cases "valueFromToken fuel t ts") (auto simp: order_trans)
  next
    case False
    then show ?thesis by (cases toks) (auto simp: expectDelim_def)
  qed
  ultimately show ?case by blast
qed

lemma Parse_total: "Parse data \<noteq> Inl JOutOfFuel"
proof (cases "js_tokens data")
  case (Cons tok rest)
  have "valueFromToken (2 * length (js_tokens data)) tok rest \<noteq> Inl JOutOfFuel"
    using parse_fuel_enough [of "2 * length (js_tokens data)"] Cons by simp
  with Cons show ?thesis
    by (auto simp: Parse_def bindR_def split: sum.splits)
qed (simp add: Parse_def)

section \<open>A parsed tree has unique field names\<close>

lemma parse_unique:
  "(\<forall>tok rest v r. valueFromToken fuel tok rest = Inr (v, r) \<longrightarrow> unique_names v) \<and>
   (\<forall>fs toks v r. parseObject fuel fs toks = Inr (v, r) \<longrightarrow> unique_names (JObject fs) \<longrightarrow> unique_names v) \<and>
   (\<forall>arr toks v r. parseArray fuel arr toks = Inr (v, r) \<longrightarrow> unique_names (JArray arr) \<longrightarrow> unique_names v)"
proof (induction fuel)
  case 0
  show ?case by simp
next
  case (Suc fuel)
  note val = Suc.IH [THEN conjunct1, rule_format]
    and obj = Suc.IH [THEN conjunct2, THEN conjunct1, rule_format]
    and arr = Suc.IH [THEN conjunct2, THEN conjunct2, rule_format]
  have "unique_names v" if "valueFromToken (Suc fuel) tok rest = Inr (v, r)" for tok rest v r
    using that
  proof (cases rule: valueFromToken_cases)
    case obj
    from Suc.IH [THEN conjunct2, THEN conjunct1, rule_format, OF this(2)] show ?thesis by simp
  next
    case arr
    from Suc.IH [THEN conjunct2, THEN conjunct2, rule_format, OF this(2)] show ?thesis by simp
  next
    case leaf
    then show ?thesis by (cases v) auto
  qed
  moreover have "unique_names v"
    if run: "parseObject (Suc fuel) fs toks = Inr (v, r)" and uniq: "unique_names (JObject fs)" for fs toks v r
  proof (cases "More toks")
    case True
    obtain name vtok rest v' r' where name: "name \<notin> fst ` set fs"
      and v': "valueFromToken fuel vtok rest = Inr (v', r')"
      and o: "parseObject fuel (fs @ [(name, v')]) r' = Inr (v, r)"
      using parseObject_round [OF run True] by metis
    have "unique_names (JObject (fs @ [(name, v')]))" using name uniq val [OF v'] by auto
    then show ?thesis by (rule obj [OF o])
  next
    case False
    with parseObject_last [OF run] uniq show ?thesis by simp
  qed
  moreover have "unique_names v"
    if run: "parseArray (Suc fuel) arr toks = Inr (v, r)" and uniq: "unique_names (JArray arr)" for arr toks v r
  proof (cases "More toks")
    case True
    obtain t rest v' r' where v': "valueFromToken fuel t rest = Inr (v', r')"
      and a: "parseArray fuel (arr @ [v']) r' = Inr (v, r)"
      using parseArray_round [OF run True] by metis
    have "unique_names (JArray (arr @ [v']))" using uniq val [OF v'] by auto
    then show ?thesis by (rule arr [OF a])
  next
    case False
    with parseArray_last [OF run] uniq show ?thesis by simp
  qed
  ultimately show ?case by blast
qed

lemma Parse_unique: "Parse data = Inr v \<Longrightarrow> unique_names v"
  using parse_unique [THEN conjunct1, rule_format]
  by (auto simp: Parse_def bindR_eq_Inr simp del: valueFromToken.simps split: list.splits if_splits)

section \<open>Parsing inverts encoding\<close>

lemma encode_value_nonempty [simp]: "encode_value v \<noteq> []"
  by (cases v) auto

lemma More_encode: "More (encode_value v @ toks)"
  by (cases v) (auto simp: More_def)

lemma parseUint64_FormatUint [simp]: "parseUint64 (FormatUint n) = Inr n"
proof -
  have "FormatUint n \<noteq> []" by (simp add: FormatUint_def)
  moreover have "c \<notin> set ''-.eE''" if "c \<in> set (FormatUint n)" for c
    using FormatUint_chars [OF that] by (auto simp: is_digit_def)
  ultimately show ?thesis
    by (auto simp: parseUint64_def list_ex_iff dest: hd_in_set)
qed

definition parses_back :: "jvalue \<Rightarrow> bool" where
  "parses_back v \<longleftrightarrow> (\<forall>fuel rest. 2 * length (encode_value v) \<le> fuel \<longrightarrow>
     valueFromToken fuel (hd (encode_value v)) (tl (encode_value v) @ rest) = Inr (v, rest))"

lemma parseObject_encode:
  assumes "\<And>f. f \<in> set gs \<Longrightarrow> parses_back (snd f)" "distinct (map fst (fs @ gs))"
    "2 * length (concat (map (\<lambda>(n, v). Str n # encode_value v) gs)) + 1 \<le> fuel"
  shows "parseObject fuel fs (concat (map (\<lambda>(n, v). Str n # encode_value v) gs) @ Delim (CHR ''}'') # rest)
    = Inr (JObject (fs @ gs), rest)"
  using assms
proof (induction gs arbitrary: fs fuel)
  case Nil
  then obtain f where "fuel = Suc f" by (cases fuel) auto
  then show ?case by (simp add: More_def expectDelim_def)
next
  case (Cons g gs)
  obtain n v where g: "g = (n, v)" by (cases g)
  from Cons.prems(3) obtain f where f: "fuel = Suc f" by (cases fuel) auto
  let ?tail = "concat (map (\<lambda>(n, v). Str n # encode_value v) gs) @ Delim (CHR ''}'') # rest"
  obtain t ts where ev: "encode_value v = t # ts" by (cases "encode_value v") auto
  have "parses_back v" using Cons.prems(1) [of g] g by simp
  then have v: "valueFromToken f t (ts @ ?tail) = Inr (v, ?tail)"
    using Cons.prems(3) f g ev by (simp add: parses_back_def)
  have "parseObject f (fs @ [(n, v)]) ?tail = Inr (JObject ((fs @ [(n, v)]) @ gs), rest)"
    using Cons.prems f g by (intro Cons.IH) auto
  moreover have "n \<notin> fst ` set fs" using Cons.prems(2) g by auto
  ultimately show ?case using v f g ev by (simp add: More_def)
qed

lemma parseArray_encode:
  assumes "\<And>v. v \<in> set vs \<Longrightarrow> parses_back v"
    "2 * length (concat (map encode_value vs)) + 1 \<le> fuel"
  shows "parseArray fuel arr (concat (map encode_value vs) @ Delim (CHR '']'') # rest)
    = Inr (JArray (arr @ vs), rest)"
  using assms
proof (induction vs arbitrary: arr fuel)
  case Nil
  then obtain f where "fuel = Suc f" by (cases fuel) auto
  then show ?case by (simp add: More_def expectDelim_def)
next
  case (Cons v vs)
  from Cons.prems(2) obtain f where f: "fuel = Suc f" by (cases fuel) auto
  let ?tail = "concat (map encode_value vs) @ Delim (CHR '']'') # rest"
  obtain t ts where ev: "encode_value v = t # ts" by (cases "encode_value v") auto
  have "parses_back v" using Cons.prems(1) by simp
  then have v: "valueFromToken f t (ts @ ?tail) = Inr (v, ?tail)"
    using Cons.prems(2) f ev by (simp add: parses_back_def)
  have "parseArray f (arr @ [v]) ?tail = Inr (JArray ((arr @ [v]) @ vs), rest)"
    using Cons.prems f ev by (intro Cons.IH) auto
  then show ?case using v f ev More_encode [of v ?tail] by simp
qed

lemma unique_names_parses_back: "unique_names v \<Longrightarrow> parses_back v"
proof (induction v)
  case (JObject fs)
  have sub: "parses_back (snd f)" if "f \<in> set fs" for f
    using JObject that by (cases f) (auto simp: snds.intros)
  have dist: "distinct (map fst fs)" using JObject.prems by simp
  show ?case
    unfolding parses_back_def
  proof (intro allI impI)
    fix fuel rest assume len: "2 * length (encode_value (JObject fs)) \<le> fuel"
    then obtain f where f: "fuel = Suc f" by (cases fuel) auto
    show "valueFromToken fuel (hd (encode_value (JObject fs))) (tl (encode_value (JObject fs)) @ rest) =
        Inr (JObject fs, rest)"
      using parseObject_encode [OF sub, of fs "[]" f rest] dist len f by simp
  qed
next
  case (JArray vs)
  have sub: "parses_back v" if "v \<in> set vs" for v using JArray that by simp
  show ?case
    unfolding parses_back_def
  proof (intro allI impI)
    fix fuel rest assume len: "2 * length (encode_value (JArray vs)) \<le> fuel"
    then obtain f where f: "fuel = Suc f" by (cases fuel) auto
    show "valueFromToken fuel (hd (encode_value (JArray vs))) (tl (encode_value (JArray vs)) @ rest) =
        Inr (JArray vs, rest)"
      using parseArray_encode [OF sub, of vs f "[]" rest] len f by simp
  qed
next
  case (JString s)
  show ?case unfolding parses_back_def by (auto simp: numeral_2_eq_2 dest!: Suc_le_D)
next
  case (JNumber n)
  show ?case unfolding parses_back_def by (auto simp: numeral_2_eq_2 dest!: Suc_le_D)
next
  case (JBool b)
  show ?case unfolding parses_back_def by (auto simp: numeral_2_eq_2 dest!: Suc_le_D)
qed

lemma Parse_Encode: "unique_names v \<Longrightarrow> Parse (Encode v) = Inr v"
proof -
  assume "unique_names v"
  then have inv: "parses_back v" by (rule unique_names_parses_back)
  obtain t ts where ev: "encode_value v = t # ts" by (cases "encode_value v") auto
  have "valueFromToken (2 * length (encode_value v)) t ts = Inr (v, [])"
    using inv [unfolded parses_back_def, rule_format, of "2 * length (encode_value v)" "[]"] ev by simp
  then show ?thesis by (simp add: Parse_def Encode_def ev)
qed

section \<open>Properties\<close>

text \<open>The strict parser reads back every value tree whose objects have distinct field names from
  its encoding.\<close>

theorem strict_json_roundtrip:
  assumes "unique_names v"
  shows "Parse (Encode v) = Inr v"
  using assms by (rule Parse_Encode)

theorem strict_json_roundtrip_witness:
  "unique_names (JObject [(''a'', JArray [JNumber 1, JBool True]), (''b'', JString ''x'')]) \<and>
   Parse (Encode (JObject [(''a'', JArray [JNumber 1, JBool True]), (''b'', JString ''x'')])) =
   Inr (JObject [(''a'', JArray [JNumber 1, JBool True]), (''b'', JString ''x'')])"
  using strict_json_roundtrip [of "JObject [(''a'', JArray [JNumber 1, JBool True]), (''b'', JString ''x'')]"] by simp

text \<open>C35: the parser always ends with a result or a syntax error, and no tree it returns has an object
  with a duplicated field name, at any depth.\<close>

theorem strict_json_no_duplicates:
  "Parse data \<noteq> Inl JOutOfFuel \<and> (case Parse data of Inr v \<Rightarrow> unique_names v | Inl _ \<Rightarrow> True)"
  using Parse_total Parse_unique by (simp split: sum.splits)

end
