(* ===== verification/Identifiers.thy ===== *)
theory Identifiers
  imports Prelude
begin

text \<open>
  The three fixed-width identifiers of the storage protocol: Git object IDs (20 bytes,
  \<open>internal/git/oid.go\<close> and \<open>OID.String\<close> of \<open>internal/git/engine.go\<close>), pack digests (32 bytes,
  \<open>internal/storage/sha256.go\<close>) and UUIDs (16 bytes, \<open>internal/storage/uuid.go\<close>).
  A Go array \<open>[n]byte\<close> is a list of \<open>n\<close> bytes.

  The text form of a UUID is the work of the package \<open>github.com/google/uuid\<close>, which is not
  part of the repository: its four functions the code calls are a record \<open>uuid_lib\<close> passed to
  every definition that uses them, and the locale \<open>uuid_text\<close> states what the code relies on.
\<close>

unbundle bit_operations_syntax

type_synonym oid = "u8 list"
type_synonym sha256 = "u8 list"
type_synonym uuid = "u8 list"

section \<open>Lowercase hexadecimal text\<close>

definition hex_nibble :: "char \<Rightarrow> u8 option" where
  "hex_nibble c =
     (let n = (of_char c :: nat) in
      if 48 \<le> n \<and> n \<le> 57 then Some (of_nat (n - 48))
      else if 97 \<le> n \<and> n \<le> 102 then Some (of_nat (n - 97 + 10))
      else None)"

text \<open>
  The body of the decoding loop shared by \<open>ParseOID\<close> and \<open>ParseSHA256\<close>:
  \<open>oid[i/2] |= nibble << (4 * (1 - i\%2))\<close>, with \<open>None\<close> for the early return on a byte outside
  \<open>0..9\<close> and \<open>a..f\<close>.
\<close>

fun hex_loop :: "nat \<Rightarrow> bytes \<Rightarrow> u8 list \<Rightarrow> u8 list option" where
  "hex_loop i [] acc = Some acc"
| "hex_loop i (c # cs) acc =
     (case hex_nibble c of
        None \<Rightarrow> None
      | Some nibble \<Rightarrow>
          hex_loop (Suc i) cs
            (acc[i div 2 := (acc ! (i div 2)) OR push_bit (4 * (1 - i mod 2)) nibble]))"

definition hex_char :: "u8 \<Rightarrow> char" where
  "hex_char n = ''0123456789abcdef'' ! unat n"

definition hex_text :: "u8 list \<Rightarrow> bytes" where
  "hex_text bs = concat (map (\<lambda>b. [hex_char (drop_bit 4 b), hex_char (b AND 15)]) bs)"

section \<open>Git object IDs\<close>

datatype oid_error = ErrInvalidOID

definition ParseOID :: "bytes \<Rightarrow> oid_error + oid" where
  "ParseOID s =
     (if length s \<noteq> 40 then Inl ErrInvalidOID
      else ofOption ErrInvalidOID (hex_loop 0 s (replicate 20 0)))"

definition OID_String :: "oid \<Rightarrow> bytes" where
  "OID_String oid = hex_text oid"

definition zeroOID :: oid where
  "zeroOID = replicate 20 0"

definition OID_IsZero :: "oid \<Rightarrow> bool" where
  "OID_IsZero oid \<longleftrightarrow> oid = zeroOID"

section \<open>Pack digests\<close>

datatype sha_error = ErrInvalidSHA256

definition ParseSHA256 :: "bytes \<Rightarrow> sha_error + sha256" where
  "ParseSHA256 s =
     (if length s \<noteq> 64 then Inl ErrInvalidSHA256
      else ofOption ErrInvalidSHA256 (hex_loop 0 s (replicate 32 0)))"

definition SHA256_String :: "sha256 \<Rightarrow> bytes" where
  "SHA256_String h = hex_text h"

section \<open>UUIDs\<close>

datatype uuid_error = ErrInvalidUUID

record uuid_lib =
  uuid_Parse :: "bytes \<Rightarrow> uuid option"
  uuid_Version :: "uuid \<Rightarrow> nat"
  uuid_RFC4122 :: "uuid \<Rightarrow> bool"
  uuid_String :: "uuid \<Rightarrow> bytes"

definition ParseUUIDv7 :: "uuid_lib \<Rightarrow> bytes \<Rightarrow> uuid_error + uuid" where
  "ParseUUIDv7 lib s =
     (case uuid_Parse lib s of
        None \<Rightarrow> Inl ErrInvalidUUID
      | Some u \<Rightarrow>
          if uuid_Version lib u \<noteq> 7 then Inl ErrInvalidUUID
          else if \<not> uuid_RFC4122 lib u then Inl ErrInvalidUUID
          else if uuid_String lib u \<noteq> s then Inl ErrInvalidUUID
          else Inr u)"

definition zeroUUID :: uuid where
  "zeroUUID = replicate 16 0"

definition UUID_IsZero :: "uuid \<Rightarrow> bool" where
  "UUID_IsZero u \<longleftrightarrow> u = zeroUUID"

text \<open>A protocol ID is a version-7 UUID of the RFC 4122 variant.\<close>

definition uuid7 :: "uuid_lib \<Rightarrow> uuid \<Rightarrow> bool" where
  "uuid7 lib u \<longleftrightarrow> length u = 16 \<and> uuid_Version lib u = 7 \<and> uuid_RFC4122 lib u"

section \<open>Decoding inverts encoding\<close>

text \<open>The sixteen digits, by enumeration.\<close>

lemma hex_nibble_digits:
  "x \<in> {48..<58} \<or> x \<in> {97..<103} \<Longrightarrow>
   n = of_nat (if x \<le> 57 then x - 48 else x - 97 + 10) \<Longrightarrow>
   unat (n :: u8) < 16 \<and> of_char (hex_char n) = x"
  unfolding set_upt [symmetric]
  by (simp add: upt_conv_Cons hex_char_def del: set_upt) (elim disjE; simp)

lemma hex_nibble_table: "case hex_nibble c of None \<Rightarrow> True | Some n \<Rightarrow> unat n < 16 \<and> hex_char n = c"
proof (cases "hex_nibble c")
  case (Some n)
  let ?x = "of_char c :: nat"
  have "?x \<in> {48..<58} \<or> ?x \<in> {97..<103}"
      "n = of_nat (if ?x \<le> 57 then ?x - 48 else ?x - 97 + 10)"
    using Some by (auto simp: hex_nibble_def Let_def split: if_splits)
  then have "unat n < 16 \<and> of_char (hex_char n) = ?x"
    by (rule hex_nibble_digits)
  with Some show ?thesis by simp
qed simp

lemma hex_nibble_bound: "hex_nibble c = Some n \<Longrightarrow> unat n < 16"
  and hex_char_hex_nibble: "hex_nibble c = Some n \<Longrightarrow> hex_char n = c"
  using hex_nibble_table [of c] by simp_all

lemma hex_char_digits:
  "x \<in> {0..<16} \<Longrightarrow>
   hex_nibble (hex_char (of_nat x)) = Some (of_nat x) \<and>
   hex_char (of_nat x) \<in> set ''0123456789abcdef''"
  unfolding set_upt [symmetric]
  by (simp add: upt_conv_Cons hex_char_def hex_nibble_def Let_def del: set_upt) (elim disjE; simp)

lemma hex_char_table: "unat n < 16 \<Longrightarrow>
    hex_nibble (hex_char n) = Some n \<and> hex_char n \<in> set ''0123456789abcdef''"
  using hex_char_digits [of "unat n"] by simp

lemma hex_nibble_hex_char: "unat n < 16 \<Longrightarrow> hex_nibble (hex_char n) = Some n"
  by (simp add: hex_char_table)

lemma u8_fifteen: "(15 :: u8) = mask 4"
  by (simp add: mask_eq_exp_minus_1)

lemma unat_low_half: "unat ((b :: u8) AND 15) < 16"
proof -
  have "unat (b AND 15) = take_bit 4 (unat b)"
    unfolding u8_fifteen by (simp add: take_bit_eq_mask [symmetric] unsigned_take_bit_eq)
  also have "\<dots> < 2 ^ 4" by (rule take_bit_nat_less_exp)
  finally show ?thesis by simp
qed

lemma unat_high_half: "unat (drop_bit 4 (b :: u8)) < 16"
proof -
  have "unat (drop_bit 4 b) = unat b div 16" by (simp add: drop_bit_eq_div unat_div)
  moreover have "unat b < 256" using unsigned_less [where 'a = nat, of b] by simp
  ultimately show ?thesis by (simp add: less_mult_imp_div_less)
qed

lemma u8_halves: "push_bit 4 (drop_bit 4 (b :: u8)) OR (b AND 15) = b"
  unfolding u8_fifteen by (rule bit_word_eqI) (auto simp: bit_simps)

lemma nibble_bits:
  assumes "unat (l :: u8) < 16" shows "bit l n \<Longrightarrow> n < 4"
proof -
  have "unat (take_bit 4 l) = unat l"
    using assms by (simp add: unsigned_take_bit_eq take_bit_nat_eq_self)
  then have "take_bit 4 l = l" by (simp only: word_unat_eq_iff)
  then show "bit l n \<Longrightarrow> n < 4" by (metis bit_take_bit_iff)
qed

lemma u8_join:
  assumes "unat (h :: u8) < 16" "unat (l :: u8) < 16"
  shows "drop_bit 4 (push_bit 4 h OR l) = h" "(push_bit 4 h OR l) AND 15 = l"
  unfolding u8_fifteen using nibble_bits [OF assms(1)] nibble_bits [OF assms(2)]
  by (auto intro!: bit_word_eqI simp: bit_simps) force

lemma hex_text_Cons: "hex_text (b # bs) = hex_char (drop_bit 4 b) # hex_char (b AND 15) # hex_text bs"
  by (simp add: hex_text_def)

lemma hex_text_Nil [simp]: "hex_text [] = []"
  by (simp add: hex_text_def)

lemma length_hex_text [simp]: "length (hex_text bs) = 2 * length bs"
  by (induction bs) (simp_all add: hex_text_Cons)

text \<open>Two rounds of the loop, at an even position, write one byte.\<close>

lemma hex_loop_pair:
  assumes "length ys = k" "hex_nibble c = Some h" "hex_nibble d = Some l"
  shows "hex_loop (2 * k) (c # d # cs) (ys @ replicate (Suc n) 0) =
    hex_loop (2 * Suc k) cs ((ys @ [push_bit 4 h OR l]) @ replicate n 0)"
  using assms by (simp add: nth_append list_update_append)

lemma hex_loop_text:
  "length ys = k \<Longrightarrow>
   hex_loop (2 * k) (hex_text bs) (ys @ replicate (length bs) 0) = Some (ys @ bs)"
proof (induction bs arbitrary: k ys)
  case Nil
  then show ?case by simp
next
  case (Cons b bs)
  note halves = u8_halves [of b] unat_low_half [of b] unat_high_half [of b]
  have "hex_loop (2 * k) (hex_text (b # bs)) (ys @ replicate (length (b # bs)) 0) =
      hex_loop (2 * Suc k) (hex_text bs) ((ys @ [b]) @ replicate (length bs) 0)"
    using hex_loop_pair [OF Cons.prems hex_nibble_hex_char hex_nibble_hex_char,
        of "drop_bit 4 b" "b AND 15" "hex_text bs" "length bs"] halves
    by (simp add: hex_text_Cons)
  also have "\<dots> = Some ((ys @ [b]) @ bs)"
    using Cons.prems by (intro Cons.IH) simp
  finally show ?case by simp
qed

lemma hex_loop_Some:
  "length ys = k \<Longrightarrow> length s = 2 * n \<Longrightarrow>
   hex_loop (2 * k) s (ys @ replicate n 0) = Some r \<Longrightarrow>
   \<exists>bs. r = ys @ bs \<and> length bs = n \<and> s = hex_text bs"
proof (induction n arbitrary: k ys s)
  case 0
  then show ?case by simp
next
  case (Suc n)
  then obtain c d cs where s: "s = c # d # cs" "length cs = 2 * n"
    by (cases s; cases "tl s") auto
  from Suc.prems(3) obtain h where h: "hex_nibble c = Some h"
    by (cases "hex_nibble c") (simp_all add: s)
  from Suc.prems(3) h obtain l where l: "hex_nibble d = Some l"
    by (cases "hex_nibble d") (simp_all add: s)
  have "hex_loop (2 * Suc k) cs ((ys @ [push_bit 4 h OR l]) @ replicate n 0) = Some r"
    using Suc.prems(3) unfolding s hex_loop_pair [OF Suc.prems(1) h l] .
  from Suc.IH [OF _ s(2) this] obtain bs where bs:
    "r = (ys @ [push_bit 4 h OR l]) @ bs" "length bs = n" "cs = hex_text bs"
    using Suc.prems(1) by auto
  have "s = hex_text ((push_bit 4 h OR l) # bs)"
    using u8_join [OF hex_nibble_bound [OF h] hex_nibble_bound [OF l]]
      hex_char_hex_nibble [OF h] hex_char_hex_nibble [OF l]
    by (simp add: hex_text_Cons s bs)
  with bs show ?case by force
qed

lemma hex_loop_iff:
  "length s = 2 * n \<Longrightarrow>
   hex_loop 0 s (replicate n 0) = Some bs \<longleftrightarrow> length bs = n \<and> s = hex_text bs"
  using hex_loop_text [of "[]" 0 bs] hex_loop_Some [of "[]" 0 s n bs] by auto

lemma ParseOID_iff: "ParseOID s = Inr oid \<longleftrightarrow> length oid = 20 \<and> s = OID_String oid"
  using hex_loop_iff [of s 20 oid] by (auto simp: ParseOID_def OID_String_def)

lemma ParseSHA256_iff: "ParseSHA256 s = Inr h \<longleftrightarrow> length h = 32 \<and> s = SHA256_String h"
  using hex_loop_iff [of s 32 h] by (auto simp: ParseSHA256_def SHA256_String_def)

lemma ParseOID_String [simp]: "length oid = 20 \<Longrightarrow> ParseOID (OID_String oid) = Inr oid"
  by (simp add: ParseOID_iff)

lemma ParseSHA256_String [simp]: "length h = 32 \<Longrightarrow> ParseSHA256 (SHA256_String h) = Inr h"
  by (simp add: ParseSHA256_iff)

section \<open>The UUID interface\<close>

text \<open>
  What the code relies on of the UUID package: parsing the text of a 16-byte value gives the
  value back, a parsed value has 16 bytes, and the text is a nonempty string without the
  separators of the key grammar other than the hyphen.
\<close>

locale uuid_text =
  fixes lib :: uuid_lib
  assumes parse_text: "length u = 16 \<Longrightarrow> uuid_Parse lib (uuid_String lib u) = Some u"
    and parse_length: "uuid_Parse lib s = Some u \<Longrightarrow> length u = 16"
    and text_nonempty: "length u = 16 \<Longrightarrow> uuid_String lib u \<noteq> []"
    and text_no_slash: "length u = 16 \<Longrightarrow> CHR 0x2F \<notin> set (uuid_String lib u)"
    and text_ascii: "length u = 16 \<Longrightarrow> ascii (uuid_String lib u)"
begin

lemma ParseUUIDv7_iff: "ParseUUIDv7 lib s = Inr u \<longleftrightarrow> uuid7 lib u \<and> s = uuid_String lib u"
  using parse_text parse_length
  by (auto simp: ParseUUIDv7_def uuid7_def split: option.splits if_splits)

lemma ParseUUIDv7_String: "uuid7 lib u \<Longrightarrow> ParseUUIDv7 lib (uuid_String lib u) = Inr u"
  by (simp add: ParseUUIDv7_iff)

lemma uuid_String_inject:
  "uuid7 lib u \<Longrightarrow> uuid7 lib v \<Longrightarrow> uuid_String lib u = uuid_String lib v \<longleftrightarrow> u = v"
  by (metis ParseUUIDv7_String sum.inject(2))

end

text \<open>
  A concrete instance with the canonical 8-4-4-4-12 text form: the version is the high half of
  byte 6 and the RFC 4122 variant is the bit pattern 10 at the top of byte 8 (RFC 9562).
\<close>

definition canonical_uuid_text :: "uuid \<Rightarrow> bytes" where
  "canonical_uuid_text u =
     hex_text (take 4 u) @ ''-'' @ hex_text (take 2 (drop 4 u)) @ ''-'' @
     hex_text (take 2 (drop 6 u)) @ ''-'' @ hex_text (take 2 (drop 8 u)) @ ''-'' @
     hex_text (drop 10 u)"

definition canonical_uuid_parse :: "bytes \<Rightarrow> uuid option" where
  "canonical_uuid_parse s =
     (case hex_loop 0 (filter (\<lambda>c. c \<noteq> CHR ''-'') s) (replicate 16 0) of
        None \<Rightarrow> None
      | Some u \<Rightarrow> if length u = 16 \<and> canonical_uuid_text u = s then Some u else None)"

definition canonical_uuid :: uuid_lib where
  "canonical_uuid =
     \<lparr>uuid_Parse = canonical_uuid_parse,
      uuid_Version = (\<lambda>u. unat (drop_bit 4 (u ! 6))),
      uuid_RFC4122 = (\<lambda>u. drop_bit 6 (u ! 8) = 2),
      uuid_String = canonical_uuid_text\<rparr>"

lemma set_hex_text: "set (hex_text bs) \<subseteq> set ''0123456789abcdef''"
proof (induction bs)
  case (Cons b bs)
  then show ?case
    using unat_low_half [of b] unat_high_half [of b] hex_char_table [of "drop_bit 4 b"] hex_char_table [of "b AND 15"]
    by (simp only: hex_text_Cons list.set insert_subset)
qed simp

lemma ascii_hex [simp]: "ascii (hex_text bs)" "ascii (OID_String bs)" "ascii (SHA256_String bs)"
  using ascii_subset [OF set_hex_text] by (simp_all add: OID_String_def SHA256_String_def)

lemma hex_text_append: "hex_text (xs @ ys) = hex_text xs @ hex_text ys"
  by (simp add: hex_text_def)

lemma filter_hyphen_hex: "filter (\<lambda>c. c \<noteq> CHR ''-'') (hex_text bs) = hex_text bs"
  using set_hex_text [of bs] by (intro filter_True) auto

lemma filter_canonical_uuid_text:
  "filter (\<lambda>c. c \<noteq> CHR ''-'') (canonical_uuid_text u) = hex_text u"
proof -
  have "u = take 4 u @ take 2 (drop 4 u) @ take 2 (drop 6 u) @ take 2 (drop 8 u) @ drop 10 u"
    using append_take_drop_id [of 4 u] append_take_drop_id [of 2 "drop 4 u"]
      append_take_drop_id [of 2 "drop 6 u"] append_take_drop_id [of 2 "drop 8 u"]
    by simp
  then show ?thesis
    by (simp add: canonical_uuid_text_def filter_hyphen_hex flip: hex_text_append)
qed

interpretation cuuid: uuid_text canonical_uuid
proof
  fix u :: uuid assume u: "length u = 16"
  have "hex_loop 0 (hex_text u) (replicate 16 0) = Some u"
    using hex_loop_text [of "[]" 0 u] u by simp
  then show "uuid_Parse canonical_uuid (uuid_String canonical_uuid u) = Some u"
    using u by (simp add: canonical_uuid_def canonical_uuid_parse_def filter_canonical_uuid_text)
  show "uuid_String canonical_uuid u \<noteq> []"
    by (simp add: canonical_uuid_def canonical_uuid_text_def)
  show "CHR 0x2F \<notin> set (uuid_String canonical_uuid u)"
    using set_hex_text by (auto simp: canonical_uuid_def canonical_uuid_text_def)
  show "ascii (uuid_String canonical_uuid u)" by (simp add: canonical_uuid_def canonical_uuid_text_def)
next
  fix s u assume "uuid_Parse canonical_uuid s = Some u"
  then show "length u = 16"
    by (simp add: canonical_uuid_def canonical_uuid_parse_def split: option.splits if_splits)
qed

end
