(* ===== verification/PackKey.thy ===== *)
theory PackKey
  imports Identifiers
begin

text \<open>
  The object-key grammar of the storage protocol (\<open>internal/storage/key.go\<close>), the names a new
  space may have (\<open>internal/storage/name.go\<close>) and the metadata written with every pack upload
  (\<open>internal/storage/metadata.go\<close>). The main facts are that parsing and printing keys and
  metadata are inverse to each other, so a pack key determines its kind, generation and ID.
\<close>

section \<open>Keys\<close>

definition KindCheckpoint :: bytes where "KindCheckpoint = ''checkpoint''"
definition KindIncrement :: bytes where "KindIncrement = ''increment''"

definition PackKind_Valid :: "bytes \<Rightarrow> bool" where
  "PackKind_Valid k \<longleftrightarrow> k = KindCheckpoint \<or> k = KindIncrement"

record Key =
  key_Kind :: bytes
  key_Generation :: u64
  key_ID :: uuid

datatype key_error = ErrInvalidKey

definition key_text :: "uuid_lib \<Rightarrow> bytes \<Rightarrow> Key \<Rightarrow> bytes" where
  "key_text lib namespace k =
     ''packs/'' @ namespace @ ''/'' @ FormatUint (key_Generation k) @ ''-'' @
     uuid_String lib (key_ID k) @ ''.pack''"

definition Key_String :: "uuid_lib \<Rightarrow> Key \<Rightarrow> bytes" where
  "Key_String lib k =
     (if key_Kind k = KindCheckpoint then key_text lib ''checkpoints'' k
      else if key_Kind k = KindIncrement then key_text lib ''increments'' k
      else '''')"

definition Key_string :: "uuid_lib \<Rightarrow> Key \<Rightarrow> key_error + bytes" where
  "Key_string lib k =
     (if key_Kind k = KindCheckpoint then Inr (key_text lib ''checkpoints'' k)
      else if key_Kind k = KindIncrement then Inr (key_text lib ''increments'' k)
      else Inl ErrInvalidKey)"

definition kind_of_namespace :: "bytes \<Rightarrow> bytes option" where
  "kind_of_namespace ns =
     (if ns = ''checkpoints'' then Some KindCheckpoint
      else if ns = ''increments'' then Some KindIncrement else None)"

definition ParseKey :: "uuid_lib \<Rightarrow> bytes \<Rightarrow> key_error + Key" where
  "ParseKey lib s =
     (case SplitOn (CHR ''/'') s of
        [seg0, seg1, seg2] \<Rightarrow>
          if seg0 \<noteq> ''packs'' then Inl ErrInvalidKey
          else bindR (ofOption ErrInvalidKey (kind_of_namespace seg1)) (\<lambda>kind.
               bindR (ofOption ErrInvalidKey (CutSuffix seg2 ''.pack'')) (\<lambda>body.
               if body = [] then Inl ErrInvalidKey
               else bindR (ofOption ErrInvalidKey (CutAt (CHR ''-'') body)) (\<lambda>(genStr, idStr).
               if genStr = [] \<or> idStr = [] then Inl ErrInvalidKey
               else if \<not> list_all is_digit genStr then Inl ErrInvalidKey
               else bindR (ofOption ErrInvalidKey (ParseUint genStr)) (\<lambda>gen.
               if genStr \<noteq> FormatUint gen then Inl ErrInvalidKey
               else bindR (mapErr (\<lambda>_. ErrInvalidKey) (ParseUUIDv7 lib idStr)) (\<lambda>id.
               Inr \<lparr>key_Kind = kind, key_Generation = gen, key_ID = id\<rparr>)))))
      | _ \<Rightarrow> Inl ErrInvalidKey)"

datatype prefix_error = LeadingSlash | TrailingSlash | EmptySegment | DotSegment | Backslash

definition prefix_segment_error :: "bytes \<Rightarrow> prefix_error option" where
  "prefix_segment_error seg =
     (if seg = [] then Some EmptySegment
      else if seg = ''.'' \<or> seg = ''..'' then Some DotSegment
      else if CHR 0x5C \<in> set seg then Some Backslash
      else None)"

fun first_error :: "('a \<Rightarrow> 'e option) \<Rightarrow> 'a list \<Rightarrow> 'e + unit" where
  "first_error f [] = Inr ()"
| "first_error f (x # xs) = (case f x of Some e \<Rightarrow> Inl e | None \<Rightarrow> first_error f xs)"

definition ValidatePrefix :: "bytes \<Rightarrow> prefix_error + unit" where
  "ValidatePrefix p =
     (if p = [] then Inr ()
      else if HasPrefix p ''/'' then Inl LeadingSlash
      else if HasSuffix p ''/'' then Inl TrailingSlash
      else first_error prefix_segment_error (SplitOn (CHR ''/'') p))"

definition JoinKey :: "bytes \<Rightarrow> bytes \<Rightarrow> bytes" where
  "JoinKey p key = (if p = [] then key else p @ ''/'' @ key)"

section \<open>New space names\<close>

datatype name_error = NameShape | NameReservedPrefix bytes | NameReservedSuffix bytes

definition name_alnum :: "char \<Rightarrow> bool" where
  "name_alnum c = (let n = (of_char c :: nat) in 97 \<le> n \<and> n \<le> 122 \<or> 48 \<le> n \<and> n \<le> 57)"

definition newSpaceNameChars :: "bytes \<Rightarrow> bool" where
  "newSpaceNameChars name \<longleftrightarrow>
     list_all (\<lambda>i. let c = name ! i in
        if i = 0 \<or> i = length name - 1 then name_alnum c else name_alnum c \<or> c = CHR ''-'')
       [0..<length name]"

definition reservedNamePrefixes :: "bytes list" where
  "reservedNamePrefixes = [''xn--'', ''sthree-'']"

definition reservedNameSuffixes :: "bytes list" where
  "reservedNameSuffixes = [''-s3alias'', ''--ol-s3'', ''--x-s3'', ''--table-s3'']"

definition ValidateNewSpaceName :: "bytes \<Rightarrow> name_error + unit" where
  "ValidateNewSpaceName name =
     (if length name < 3 \<or> length name > 63 \<or> \<not> newSpaceNameChars name then Inl NameShape
      else case find (HasPrefix name) reservedNamePrefixes of
        Some p \<Rightarrow> Inl (NameReservedPrefix p)
      | None \<Rightarrow>
          (case find (HasSuffix name) reservedNameSuffixes of
             Some p \<Rightarrow> Inl (NameReservedSuffix p)
           | None \<Rightarrow> Inr ()))"

section \<open>Upload metadata\<close>

record Metadata =
  md_SHA256 :: sha256
  md_Size :: u64
  md_Kind :: bytes
  md_Generation :: u64

definition MetaSHA256 :: bytes where "MetaSHA256 = ''slivingdoc-sha256''"
definition MetaSize :: bytes where "MetaSize = ''slivingdoc-size''"
definition MetaKind :: bytes where "MetaKind = ''slivingdoc-kind''"
definition MetaGeneration :: bytes where "MetaGeneration = ''slivingdoc-generation''"

datatype metadata_error = BadMetaSHA256 | BadMetaSize | BadMetaKind | BadMetaGeneration

definition zeroMetadata :: Metadata where
  "zeroMetadata = \<lparr>md_SHA256 = replicate 32 0, md_Size = 0, md_Kind = [], md_Generation = 0\<rparr>"

definition Metadata_Fields :: "Metadata \<Rightarrow> (bytes \<rightharpoonup> bytes)" where
  "Metadata_Fields m =
     [MetaSHA256 \<mapsto> SHA256_String (md_SHA256 m),
      MetaSize \<mapsto> FormatUint (md_Size m),
      MetaKind \<mapsto> md_Kind m,
      MetaGeneration \<mapsto> FormatUint (md_Generation m)]"

text \<open>An absent field keeps its zero value; a present one must parse.\<close>

definition optional_field ::
  "(bytes \<rightharpoonup> bytes) \<Rightarrow> bytes \<Rightarrow> (bytes \<Rightarrow> 'e + 'a) \<Rightarrow> 'a \<Rightarrow> 'e + 'a" where
  "optional_field fs name parse zero = (case fs name of None \<Rightarrow> Inr zero | Some v \<Rightarrow> parse v)"

definition ParseMetadata :: "(bytes \<rightharpoonup> bytes) \<Rightarrow> metadata_error + Metadata" where
  "ParseMetadata fs =
     bindR (optional_field fs MetaSHA256 (\<lambda>v. mapErr (\<lambda>_. BadMetaSHA256) (ParseSHA256 v)) (md_SHA256 zeroMetadata))
       (\<lambda>h.
     bindR (optional_field fs MetaSize (\<lambda>v. ofOption BadMetaSize (ParseUint v)) 0) (\<lambda>n.
     bindR (optional_field fs MetaKind (\<lambda>v. if PackKind_Valid v then Inr v else Inl BadMetaKind) []) (\<lambda>k.
     bindR (optional_field fs MetaGeneration (\<lambda>v. ofOption BadMetaGeneration (ParseUint v)) 0) (\<lambda>g.
     Inr \<lparr>md_SHA256 = h, md_Size = n, md_Kind = k, md_Generation = g\<rparr>))))"

section \<open>Key lemmas\<close>

lemma kinds_differ [simp]: "KindCheckpoint \<noteq> KindIncrement" "KindIncrement \<noteq> KindCheckpoint"
  by (simp_all add: KindCheckpoint_def KindIncrement_def)

definition wf_key :: "uuid_lib \<Rightarrow> Key \<Rightarrow> bool" where
  "wf_key lib k \<longleftrightarrow> PackKind_Valid (key_Kind k) \<and> uuid7 lib (key_ID k)"

lemma Key_string_Inr: "Key_string lib k = Inr s \<longleftrightarrow> PackKind_Valid (key_Kind k) \<and> s = Key_String lib k"
  by (auto simp: Key_string_def Key_String_def PackKind_Valid_def)

definition namespace_of :: "bytes \<Rightarrow> bytes" where
  "namespace_of kind = (if kind = KindCheckpoint then ''checkpoints'' else ''increments'')"

lemma Key_String_text:
  "PackKind_Valid (key_Kind k) \<Longrightarrow> Key_String lib k = key_text lib (namespace_of (key_Kind k)) k"
  by (auto simp: Key_String_def PackKind_Valid_def namespace_of_def)

lemma kind_of_namespace_of: "PackKind_Valid kind \<Longrightarrow> kind_of_namespace (namespace_of kind) = Some kind"
  by (auto simp: kind_of_namespace_def namespace_of_def PackKind_Valid_def)

lemma kind_of_namespace_Some:
  "kind_of_namespace ns = Some kind \<Longrightarrow> PackKind_Valid kind \<and> ns = namespace_of kind"
  by (auto simp: kind_of_namespace_def namespace_of_def PackKind_Valid_def split: if_splits)

lemma FormatUint_no_sep: "CHR ''-'' \<notin> set (FormatUint w)" "CHR ''/'' \<notin> set (FormatUint w)"
  using FormatUint_chars [of "CHR ''-''" w] FormatUint_chars [of "CHR ''/''" w]
  by (auto simp: is_digit_def)

lemma FormatUint_nonempty [simp]: "FormatUint w \<noteq> []"
  by (simp add: FormatUint_def)

context uuid_text
begin

lemma SplitOn_key_text:
  assumes "uuid7 lib (key_ID k)" "CHR ''/'' \<notin> set ns"
  shows "SplitOn (CHR ''/'') (key_text lib ns k) =
    [''packs'', ns, FormatUint (key_Generation k) @ ''-'' @ uuid_String lib (key_ID k) @ ''.pack'']"
proof -
  have "CHR ''/'' \<notin> set (FormatUint (key_Generation k) @ ''-'' @ uuid_String lib (key_ID k) @ ''.pack'')"
    using assms(1) text_no_slash [of "key_ID k"] FormatUint_no_sep by (auto simp: uuid7_def)
  then have tail: "SplitOn (CHR ''/'') (FormatUint (key_Generation k) @ ''-'' @ uuid_String lib (key_ID k) @ ''.pack'')
      = [FormatUint (key_Generation k) @ ''-'' @ uuid_String lib (key_ID k) @ ''.pack'']"
    by (rule SplitOn_single)
  have "key_text lib ns k = ''packs'' @ CHR ''/'' # (ns @ CHR ''/'' #
      (FormatUint (key_Generation k) @ ''-'' @ uuid_String lib (key_ID k) @ ''.pack''))"
    by (simp add: key_text_def)
  then show ?thesis
    using assms(2) tail by (simp only: SplitOn_append) (simp add: SplitOn_append)
qed

lemma ParseKey_String: "wf_key lib k \<Longrightarrow> ParseKey lib (Key_String lib k) = Inr k"
proof -
  assume wf: "wf_key lib k"
  then have kind: "PackKind_Valid (key_Kind k)" and id: "uuid7 lib (key_ID k)"
    by (simp_all add: wf_key_def)
  have "CHR ''/'' \<notin> set (namespace_of (key_Kind k))" by (simp add: namespace_of_def)
  note split = SplitOn_key_text [OF id this]
  have body: "CutSuffix (FormatUint (key_Generation k) @ ''-'' @ uuid_String lib (key_ID k) @ ''.pack'') ''.pack''
      = Some (FormatUint (key_Generation k) @ CHR ''-'' # uuid_String lib (key_ID k))"
    using CutSuffix_append [of "FormatUint (key_Generation k) @ ''-'' @ uuid_String lib (key_ID k)" "''.pack''"]
    by simp
  have ne: "uuid_String lib (key_ID k) \<noteq> []" using id text_nonempty by (simp add: uuid7_def)
  show ?thesis
    unfolding Key_String_text [OF kind]
    using kind id ne body FormatUint_no_sep FormatUint_digits
    by (simp add: ParseKey_def split kind_of_namespace_of CutAt_append ParseUUIDv7_String)
qed

lemma ParseKey_Inr:
  assumes "ParseKey lib s = Inr k" shows "wf_key lib k \<and> s = Key_String lib k"
proof -
  from assms obtain seg1 seg2 kind body genStr idStr gen id where
    segs: "SplitOn (CHR ''/'') s = [''packs'', seg1, seg2]"
    and kind: "kind_of_namespace seg1 = Some kind"
    and body: "CutSuffix seg2 ''.pack'' = Some body"
    and cut: "CutAt (CHR ''-'') body = Some (genStr, idStr)"
    and gen: "genStr = FormatUint gen"
    and id: "ParseUUIDv7 lib idStr = Inr id"
    and k: "k = \<lparr>key_Kind = kind, key_Generation = gen, key_ID = id\<rparr>"
    by (auto simp: ParseKey_def bindR_eq_Inr split: list.splits if_splits)
  note ns = kind_of_namespace_Some [OF kind] and u = id [unfolded ParseUUIDv7_iff]
  have "seg2 = genStr @ ''-'' @ idStr @ ''.pack''"
    using CutSuffix_Some [OF body] CutAt_Some [OF cut] by simp
  moreover have "s = ''packs/'' @ seg1 @ ''/'' @ seg2"
    using SplitOn_join [of "CHR ''/''" s] segs by simp
  ultimately show ?thesis
    using ns u gen k by (simp add: wf_key_def Key_String_text key_text_def)
qed

lemma ParseKey_iff: "ParseKey lib s = Inr k \<longleftrightarrow> wf_key lib k \<and> s = Key_String lib k"
  using ParseKey_String ParseKey_Inr by blast

lemma Key_String_inject: "wf_key lib k \<Longrightarrow> wf_key lib k' \<Longrightarrow> Key_String lib k = Key_String lib k' \<longleftrightarrow> k = k'"
  by (metis ParseKey_String sum.inject(2))

end

section \<open>Prefix, name and metadata lemmas\<close>

lemma first_error_Inr: "first_error f xs = Inr u \<longleftrightarrow> (\<forall>x \<in> set xs. f x = None)"
  by (induction xs) (auto split: option.splits)

definition safe_segment :: "bytes \<Rightarrow> bool" where
  "safe_segment seg \<longleftrightarrow> seg \<noteq> [] \<and> seg \<noteq> ''.'' \<and> seg \<noteq> ''..'' \<and> CHR 0x5C \<notin> set seg"

lemma prefix_segment_error_None: "prefix_segment_error seg = None \<longleftrightarrow> safe_segment seg"
  by (auto simp: prefix_segment_error_def safe_segment_def)

lemma SplitOn_leading: "SplitOn c s = [] # segs \<Longrightarrow> s = [] \<or> (\<exists>t. s = c # t)"
  by (cases s) (auto split: if_splits list.splits)

lemma ValidatePrefix_iff:
  "ValidatePrefix p = Inr u \<longleftrightarrow> p = [] \<or> (\<forall>seg \<in> set (SplitOn (CHR ''/'') p). safe_segment seg)"
proof (cases "p = []")
  case False
  have "\<not> safe_segment []" by (simp add: safe_segment_def)
  moreover have "[] \<in> set (SplitOn (CHR ''/'') p)" if "HasPrefix p ''/''"
    using that by (cases p) (auto simp: HasPrefix_def)
  moreover have "[] \<in> set (SplitOn (CHR ''/'') p)" if "HasSuffix p ''/''"
  proof -
    from that obtain q where "p = q @ ''/''" by (auto simp: HasSuffix_iff suffix_def)
    then show ?thesis using SplitOn_last [of "CHR ''/''" q] by simp
  qed
  ultimately show ?thesis
    using False by (auto simp: ValidatePrefix_def first_error_Inr prefix_segment_error_None)
qed (simp add: ValidatePrefix_def)

lemma ParseMetadata_Fields:
  assumes "length (md_SHA256 m) = 32" "PackKind_Valid (md_Kind m)"
  shows "ParseMetadata (Metadata_Fields m) = Inr m"
  using assms
  by (simp add: ParseMetadata_def Metadata_Fields_def optional_field_def MetaSHA256_def MetaSize_def
      MetaKind_def MetaGeneration_def)

section \<open>Properties\<close>

text \<open>A string parses as a pack key exactly when it is the text of that key, and the key then has
  a known kind and a version 7 identifier.\<close>

theorem pack_key_grammar:
  assumes "uuid_text lib"
  shows "ParseKey lib s = Inr k \<longleftrightarrow> wf_key lib k \<and> s = Key_String lib k"
  using assms by (rule uuid_text.ParseKey_iff)

theorem pack_key_grammar_witness:
  "\<exists>k. wf_key canonical_uuid k \<and> ParseKey canonical_uuid (Key_String canonical_uuid k) = Inr k"
proof
  let ?k = "\<lparr>key_Kind = KindIncrement, key_Generation = 7, key_ID = [1, 2, 3, 4, 5, 6, 0x70, 8, 0x80, 10, 11, 12, 13, 14, 15, 16]\<rparr>"
  have "wf_key canonical_uuid ?k" by code_simp
  then show "wf_key canonical_uuid ?k \<and> ParseKey canonical_uuid (Key_String canonical_uuid ?k) = Inr ?k"
    using pack_key_grammar [OF cuuid.uuid_text_axioms, of "Key_String canonical_uuid ?k" ?k] by simp
qed

text \<open>The metadata fields written with a pack upload read back as the same metadata.\<close>

theorem pack_metadata_roundtrip:
  assumes "length (md_SHA256 m) = 32" "PackKind_Valid (md_Kind m)"
  shows "ParseMetadata (Metadata_Fields m) = Inr m"
  using assms by (rule ParseMetadata_Fields)

theorem pack_metadata_roundtrip_witness:
  "ParseMetadata (Metadata_Fields \<lparr>md_SHA256 = replicate 32 5, md_Size = 9, md_Kind = KindCheckpoint, md_Generation = 3\<rparr>) =
   Inr \<lparr>md_SHA256 = replicate 32 5, md_Size = 9, md_Kind = KindCheckpoint, md_Generation = 3\<rparr>"
  by (rule pack_metadata_roundtrip) (simp_all add: PackKind_Valid_def)

end
