(* ===== verification/Manifest.thy ===== *)
theory Manifest
  imports StrictJson PackKey
begin

text \<open>
  The versioned manifest of \<open>internal/storage/manifest.go\<close>: the records, the strict decoder on
  the JSON value tree, the encoder in the normative field order, the cross-field validator
  \<open>validateManifest\<close> and the rollback check. The validator threads the three Go maps through its
  loops; \<open>valid_manifest\<close> is the declarative contract it decides (\<open>validateManifest_iff\<close>), and
  decoding inverts encoding on valid manifests (\<open>DecodeManifest_EncodeManifest\<close>).

  A nil Go slice and an empty one are the same list here, so the replacement of nil tails by
  empty ones before encoding (\<open>withEmptyRetainedTails\<close>) is the identity.
\<close>

section \<open>Records\<close>

record Checkpoint =
  cp_ID :: uuid
  cp_Publication :: uuid
  cp_ThroughGeneration :: u64
  cp_Head :: oid
  cp_Key :: Key
  cp_SHA256 :: sha256
  cp_Size :: u64

record Increment =
  inc_Generation :: u64
  inc_Publication :: uuid
  inc_Parent :: oid
  inc_Head :: oid
  inc_Key :: Key
  inc_SHA256 :: sha256
  inc_Size :: u64

record Retained =
  ret_RetiredAtGeneration :: u64
  ret_Head :: oid
  ret_Checkpoint :: Checkpoint
  ret_Increments :: "Increment list"

record Manifest =
  mf_Version :: nat
  mf_Generation :: u64
  mf_Head :: oid
  mf_Checkpoint :: Checkpoint
  mf_Increments :: "Increment list"
  mf_Retained :: "Retained list"

definition ManifestVersion :: nat where "ManifestVersion = 1"

datatype manifest_error =
    MJson json_error
  | MRootNotObject
  | MUnsupportedVersion
  | MMissingField bytes
  | MWrongKind bytes
  | MBadValue bytes
  | MItemNotObject
  | MGenerationZero
  | MCheckpointSize
  | MIncrementSize
  | MGenerationNotAbove
  | MGenerationNotConsecutive
  | MParentMismatch
  | MKeyKind
  | MKeyGeneration
  | MKeyID
  | MKeyDuplicated
  | MCheckpointIDDuplicated
  | MPublicationHeads
  | MHeadMismatch
  | MCutoffExceedsGeneration
  | MRetainedNotDecreasing
  | MRetainedTooOld
  | MRetainedHeadMismatch

datatype decode_error = UpgradeRequired u64 | Integrity manifest_error

section \<open>Validation\<close>

record vstate =
  vs_keys :: "bytes \<Rightarrow> bool"
  vs_cpids :: "uuid \<Rightarrow> bool"
  vs_pubs :: "uuid \<rightharpoonup> oid"

definition checkDescriptorKey :: "Key \<Rightarrow> bytes \<Rightarrow> u64 \<Rightarrow> uuid \<Rightarrow> manifest_error + unit" where
  "checkDescriptorKey k kind generation ident =
     (if key_Kind k \<noteq> kind then Inl MKeyKind
      else if key_Generation k \<noteq> generation then Inl MKeyGeneration
      else if key_ID k \<noteq> ident then Inl MKeyID
      else Inr ())"

definition pub_clash :: "vstate \<Rightarrow> uuid \<Rightarrow> oid \<Rightarrow> bool" where
  "pub_clash vs p h = (case vs_pubs vs p of None \<Rightarrow> False | Some h' \<Rightarrow> h' \<noteq> h)"

fun checkIncrements ::
  "uuid_lib \<Rightarrow> vstate \<Rightarrow> oid \<Rightarrow> u64 \<Rightarrow> Increment list \<Rightarrow> manifest_error + oid \<times> vstate" where
  "checkIncrements lib vs prevHead prevGen [] = Inr (prevHead, vs)"
| "checkIncrements lib vs prevHead prevGen (inc # incs) =
     (if inc_Size inc = 0 then Inl MIncrementSize
      else if inc_Generation inc \<le> prevGen then Inl MGenerationNotAbove
      else if inc_Generation inc \<noteq> prevGen + 1 then Inl MGenerationNotConsecutive
      else if inc_Parent inc \<noteq> prevHead then Inl MParentMismatch
      else bindR (checkDescriptorKey (inc_Key inc) KindIncrement (inc_Generation inc) (inc_Publication inc))
        (\<lambda>_.
         let key = Key_String lib (inc_Key inc) in
         if vs_keys vs key then Inl MKeyDuplicated
         else if pub_clash vs (inc_Publication inc) (inc_Head inc) then Inl MPublicationHeads
         else checkIncrements lib
                (vs\<lparr>vs_keys := (vs_keys vs)(key := True),
                    vs_pubs := (vs_pubs vs)(inc_Publication inc \<mapsto> inc_Head inc)\<rparr>)
                (inc_Head inc) (inc_Generation inc) incs))"

definition checkChain ::
  "uuid_lib \<Rightarrow> vstate \<Rightarrow> Checkpoint \<Rightarrow> Increment list \<Rightarrow> manifest_error + oid \<times> vstate" where
  "checkChain lib vs cp incs =
     (if cp_Size cp = 0 then Inl MCheckpointSize
      else bindR (checkDescriptorKey (cp_Key cp) KindCheckpoint (cp_ThroughGeneration cp) (cp_ID cp))
        (\<lambda>_.
         let key = Key_String lib (cp_Key cp) in
         if vs_keys vs key then Inl MKeyDuplicated
         else if vs_cpids vs (cp_ID cp) then Inl MCheckpointIDDuplicated
         else if pub_clash vs (cp_Publication cp) (cp_Head cp) then Inl MPublicationHeads
         else checkIncrements lib
                (vs\<lparr>vs_keys := (vs_keys vs)(key := True),
                    vs_cpids := (vs_cpids vs)(cp_ID cp := True),
                    vs_pubs := (vs_pubs vs)(cp_Publication cp \<mapsto> cp_Head cp)\<rparr>)
                (cp_Head cp) (cp_ThroughGeneration cp) incs))"

definition final_generation :: "Checkpoint \<Rightarrow> Increment list \<Rightarrow> u64" where
  "final_generation cp incs =
     (if incs = [] then cp_ThroughGeneration cp else inc_Generation (last incs))"

fun checkRetained :: "uuid_lib \<Rightarrow> vstate \<Rightarrow> u64 \<Rightarrow> Retained list \<Rightarrow> manifest_error + unit" where
  "checkRetained lib vs lastRetired [] = Inr ()"
| "checkRetained lib vs lastRetired (r # rs) =
     (if ret_RetiredAtGeneration r \<ge> lastRetired then Inl MRetainedNotDecreasing
      else if ret_RetiredAtGeneration r \<le> final_generation (ret_Checkpoint r) (ret_Increments r)
      then Inl MRetainedTooOld
      else bindR (checkChain lib vs (ret_Checkpoint r) (ret_Increments r))
        (\<lambda>(finalHead, vs').
         if ret_Head r \<noteq> finalHead then Inl MRetainedHeadMismatch
         else checkRetained lib vs' (ret_RetiredAtGeneration r) rs))"

definition emptyVState :: vstate where
  "emptyVState = \<lparr>vs_keys = (\<lambda>_. False), vs_cpids = (\<lambda>_. False), vs_pubs = Map.empty\<rparr>"

definition validateManifest :: "uuid_lib \<Rightarrow> Manifest \<Rightarrow> manifest_error + unit" where
  "validateManifest lib m =
     (if mf_Generation m = 0 then Inl MGenerationZero
      else bindR (checkChain lib emptyVState (mf_Checkpoint m) (mf_Increments m))
        (\<lambda>(finalHead, vs).
         if mf_Head m \<noteq> finalHead then Inl MHeadMismatch
         else if cp_ThroughGeneration (mf_Checkpoint m) > mf_Generation m then Inl MCutoffExceedsGeneration
         else checkRetained lib vs (mf_Generation m + 1) (mf_Retained m)))"

section \<open>Decoding\<close>

definition requiredValue :: "jvalue \<Rightarrow> bytes \<Rightarrow> jkind \<Rightarrow> manifest_error + jvalue" where
  "requiredValue v name kind =
     (case Value_Field v name of
        None \<Rightarrow> Inl (MMissingField name)
      | Some f \<Rightarrow> if Kind f \<noteq> kind then Inl (MWrongKind name) else Inr f)"

definition requiredUint :: "jvalue \<Rightarrow> bytes \<Rightarrow> manifest_error + u64" where
  "requiredUint v name =
     bindR (requiredValue v name KNumber) (\<lambda>f. case f of JNumber n \<Rightarrow> Inr n | _ \<Rightarrow> Inr 0)"

definition requiredString :: "jvalue \<Rightarrow> bytes \<Rightarrow> manifest_error + bytes" where
  "requiredString v name =
     bindR (requiredValue v name KString) (\<lambda>f. case f of JString s \<Rightarrow> Inr s | _ \<Rightarrow> Inr [])"

definition requiredObject :: "jvalue \<Rightarrow> bytes \<Rightarrow> manifest_error + jvalue" where
  "requiredObject v name = requiredValue v name KObject"

definition requiredArray :: "jvalue \<Rightarrow> bytes \<Rightarrow> manifest_error + jvalue list" where
  "requiredArray v name =
     bindR (requiredValue v name KArray) (\<lambda>f. case f of JArray vs \<Rightarrow> Inr vs | _ \<Rightarrow> Inr [])"

definition requiredUUID :: "uuid_lib \<Rightarrow> jvalue \<Rightarrow> bytes \<Rightarrow> manifest_error + uuid" where
  "requiredUUID lib v name =
     bindR (requiredString v name) (\<lambda>s. mapErr (\<lambda>_. MBadValue name) (ParseUUIDv7 lib s))"

definition requiredOID :: "jvalue \<Rightarrow> bytes \<Rightarrow> manifest_error + oid" where
  "requiredOID v name =
     bindR (requiredString v name) (\<lambda>s. mapErr (\<lambda>_. MBadValue name) (ParseOID s))"

definition requiredKey :: "uuid_lib \<Rightarrow> jvalue \<Rightarrow> bytes \<Rightarrow> manifest_error + Key" where
  "requiredKey lib v name =
     bindR (requiredString v name) (\<lambda>s. mapErr (\<lambda>_. MBadValue name) (ParseKey lib s))"

definition requiredSHA256 :: "jvalue \<Rightarrow> bytes \<Rightarrow> manifest_error + sha256" where
  "requiredSHA256 v name =
     bindR (requiredString v name) (\<lambda>s. mapErr (\<lambda>_. MBadValue name) (ParseSHA256 s))"

definition decodeCheckpoint :: "uuid_lib \<Rightarrow> jvalue \<Rightarrow> manifest_error + Checkpoint" where
  "decodeCheckpoint lib v =
     bindR (mapErr MJson (RejectUnknown v
       [''id'', ''publication'', ''throughGeneration'', ''head'', ''key'', ''sha256'', ''size''])) (\<lambda>_.
     bindR (requiredUUID lib v ''id'') (\<lambda>ident.
     bindR (requiredUUID lib v ''publication'') (\<lambda>pub.
     bindR (requiredUint v ''throughGeneration'') (\<lambda>through.
     bindR (requiredOID v ''head'') (\<lambda>head.
     bindR (requiredKey lib v ''key'') (\<lambda>key.
     bindR (requiredSHA256 v ''sha256'') (\<lambda>sha.
     bindR (requiredUint v ''size'') (\<lambda>size.
     Inr \<lparr>cp_ID = ident, cp_Publication = pub, cp_ThroughGeneration = through, cp_Head = head,
          cp_Key = key, cp_SHA256 = sha, cp_Size = size\<rparr>))))))))"

definition decodeIncrement :: "uuid_lib \<Rightarrow> jvalue \<Rightarrow> manifest_error + Increment" where
  "decodeIncrement lib item =
     (if Kind item \<noteq> KObject then Inl MItemNotObject
      else
     bindR (mapErr MJson (RejectUnknown item
       [''generation'', ''publication'', ''parent'', ''head'', ''key'', ''sha256'', ''size''])) (\<lambda>_.
     bindR (requiredUint item ''generation'') (\<lambda>gen.
     bindR (requiredUUID lib item ''publication'') (\<lambda>pub.
     bindR (requiredOID item ''parent'') (\<lambda>parent.
     bindR (requiredOID item ''head'') (\<lambda>head.
     bindR (requiredKey lib item ''key'') (\<lambda>key.
     bindR (requiredSHA256 item ''sha256'') (\<lambda>sha.
     bindR (requiredUint item ''size'') (\<lambda>size.
     Inr \<lparr>inc_Generation = gen, inc_Publication = pub, inc_Parent = parent, inc_Head = head,
          inc_Key = key, inc_SHA256 = sha, inc_Size = size\<rparr>)))))))))"

definition decodeIncrements :: "uuid_lib \<Rightarrow> jvalue list \<Rightarrow> manifest_error + Increment list" where
  "decodeIncrements lib arr = mapR (decodeIncrement lib) arr"

definition decodeRetainedItem :: "uuid_lib \<Rightarrow> jvalue \<Rightarrow> manifest_error + Retained" where
  "decodeRetainedItem lib item =
     (if Kind item \<noteq> KObject then Inl MItemNotObject
      else
     bindR (mapErr MJson (RejectUnknown item
       [''retiredAtGeneration'', ''head'', ''checkpoint'', ''increments''])) (\<lambda>_.
     bindR (requiredUint item ''retiredAtGeneration'') (\<lambda>at.
     bindR (requiredOID item ''head'') (\<lambda>head.
     bindR (requiredObject item ''checkpoint'') (\<lambda>cpVal.
     bindR (decodeCheckpoint lib cpVal) (\<lambda>cp.
     bindR (requiredArray item ''increments'') (\<lambda>incsVal.
     bindR (decodeIncrements lib incsVal) (\<lambda>incs.
     Inr \<lparr>ret_RetiredAtGeneration = at, ret_Head = head, ret_Checkpoint = cp,
          ret_Increments = incs\<rparr>))))))))"

definition decodeRetained :: "uuid_lib \<Rightarrow> jvalue list \<Rightarrow> manifest_error + Retained list" where
  "decodeRetained lib arr = mapR (decodeRetainedItem lib) arr"

definition decodeManifest :: "uuid_lib \<Rightarrow> jvalue \<Rightarrow> manifest_error + Manifest" where
  "decodeManifest lib root =
     bindR (mapErr MJson (RejectUnknown root
       [''version'', ''generation'', ''head'', ''checkpoint'', ''increments'', ''retained''])) (\<lambda>_.
     bindR (requiredUint root ''generation'') (\<lambda>gen.
     bindR (requiredOID root ''head'') (\<lambda>head.
     bindR (requiredObject root ''checkpoint'') (\<lambda>cpVal.
     bindR (decodeCheckpoint lib cpVal) (\<lambda>cp.
     bindR (requiredArray root ''increments'') (\<lambda>incsVal.
     bindR (decodeIncrements lib incsVal) (\<lambda>incs.
     bindR (requiredArray root ''retained'') (\<lambda>retVal.
     bindR (decodeRetained lib retVal) (\<lambda>ret.
     Inr \<lparr>mf_Version = ManifestVersion, mf_Generation = gen, mf_Head = head, mf_Checkpoint = cp,
          mf_Increments = incs, mf_Retained = ret\<rparr>)))))))))"

definition DecodeManifest :: "uuid_lib \<Rightarrow> jstream \<Rightarrow> decode_error + Manifest" where
  "DecodeManifest lib data =
     bindR (mapErr (\<lambda>e. Integrity (MJson e)) (Parse data)) (\<lambda>root.
     if Kind root \<noteq> KObject then Inl (Integrity MRootNotObject)
     else bindR (mapErr Integrity (requiredUint root ''version'')) (\<lambda>ver.
     if ver > of_nat ManifestVersion then Inl (UpgradeRequired ver)
     else if ver \<noteq> of_nat ManifestVersion then Inl (Integrity MUnsupportedVersion)
     else bindR (mapErr Integrity (decodeManifest lib root)) (\<lambda>m.
     bindR (mapErr Integrity (validateManifest lib m)) (\<lambda>_. Inr m))))"

section \<open>Encoding\<close>

definition encodeCheckpoint :: "uuid_lib \<Rightarrow> Checkpoint \<Rightarrow> jvalue" where
  "encodeCheckpoint lib cp = JObject
     [(''id'', JString (uuid_String lib (cp_ID cp))),
      (''publication'', JString (uuid_String lib (cp_Publication cp))),
      (''throughGeneration'', JNumber (cp_ThroughGeneration cp)),
      (''head'', JString (OID_String (cp_Head cp))),
      (''key'', JString (Key_String lib (cp_Key cp))),
      (''sha256'', JString (SHA256_String (cp_SHA256 cp))),
      (''size'', JNumber (cp_Size cp))]"

definition encodeIncrement :: "uuid_lib \<Rightarrow> Increment \<Rightarrow> jvalue" where
  "encodeIncrement lib inc = JObject
     [(''generation'', JNumber (inc_Generation inc)),
      (''publication'', JString (uuid_String lib (inc_Publication inc))),
      (''parent'', JString (OID_String (inc_Parent inc))),
      (''head'', JString (OID_String (inc_Head inc))),
      (''key'', JString (Key_String lib (inc_Key inc))),
      (''sha256'', JString (SHA256_String (inc_SHA256 inc))),
      (''size'', JNumber (inc_Size inc))]"

definition encodeRetained :: "uuid_lib \<Rightarrow> Retained \<Rightarrow> jvalue" where
  "encodeRetained lib r = JObject
     [(''retiredAtGeneration'', JNumber (ret_RetiredAtGeneration r)),
      (''head'', JString (OID_String (ret_Head r))),
      (''checkpoint'', encodeCheckpoint lib (ret_Checkpoint r)),
      (''increments'', JArray (map (encodeIncrement lib) (ret_Increments r)))]"

definition encodeManifestValue :: "uuid_lib \<Rightarrow> Manifest \<Rightarrow> jvalue" where
  "encodeManifestValue lib m = JObject
     [(''version'', JNumber (of_nat (mf_Version m))),
      (''generation'', JNumber (mf_Generation m)),
      (''head'', JString (OID_String (mf_Head m))),
      (''checkpoint'', encodeCheckpoint lib (mf_Checkpoint m)),
      (''increments'', JArray (map (encodeIncrement lib) (mf_Increments m))),
      (''retained'', JArray (map (encodeRetained lib) (mf_Retained m)))]"

definition EncodeManifest :: "uuid_lib \<Rightarrow> Manifest \<Rightarrow> decode_error + jstream" where
  "EncodeManifest lib m =
     bindR (mapErr Integrity (validateManifest lib m)) (\<lambda>_. Inr (Encode (encodeManifestValue lib m)))"

section \<open>Rollback\<close>

datatype rollback_error = RolledBack

definition CheckManifestRollback :: "Manifest \<Rightarrow> u64 \<Rightarrow> rollback_error + unit" where
  "CheckManifestRollback m baselineGeneration =
     (if mf_Generation m \<ge> baselineGeneration then Inr () else Inl RolledBack)"

section \<open>The contract of the validator\<close>

fun inc_chain :: "oid \<Rightarrow> u64 \<Rightarrow> Increment list \<Rightarrow> bool" where
  "inc_chain h g [] = True"
| "inc_chain h g (inc # incs) \<longleftrightarrow>
     0 < inc_Size inc \<and> g < inc_Generation inc \<and> inc_Generation inc = g + 1 \<and> inc_Parent inc = h \<and>
     inc_Key inc = \<lparr>key_Kind = KindIncrement, key_Generation = inc_Generation inc,
                    key_ID = inc_Publication inc\<rparr> \<and>
     inc_chain (inc_Head inc) (inc_Generation inc) incs"

definition tail_head :: "oid \<Rightarrow> Increment list \<Rightarrow> oid" where
  "tail_head h incs = (if incs = [] then h else inc_Head (last incs))"

definition chain_ok :: "Checkpoint \<Rightarrow> Increment list \<Rightarrow> bool" where
  "chain_ok cp incs \<longleftrightarrow>
     0 < cp_Size cp \<and>
     cp_Key cp = \<lparr>key_Kind = KindCheckpoint, key_Generation = cp_ThroughGeneration cp,
                  key_ID = cp_ID cp\<rparr> \<and>
     inc_chain (cp_Head cp) (cp_ThroughGeneration cp) incs"

fun retained_ok :: "u64 \<Rightarrow> Retained list \<Rightarrow> bool" where
  "retained_ok g [] = True"
| "retained_ok g (r # rs) \<longleftrightarrow>
     ret_RetiredAtGeneration r < g \<and>
     final_generation (ret_Checkpoint r) (ret_Increments r) < ret_RetiredAtGeneration r \<and>
     chain_ok (ret_Checkpoint r) (ret_Increments r) \<and>
     ret_Head r = tail_head (cp_Head (ret_Checkpoint r)) (ret_Increments r) \<and>
     retained_ok (ret_RetiredAtGeneration r) rs"

definition chain_keys :: "uuid_lib \<Rightarrow> Checkpoint \<Rightarrow> Increment list \<Rightarrow> bytes list" where
  "chain_keys lib cp incs =
     Key_String lib (cp_Key cp) # map (\<lambda>inc. Key_String lib (inc_Key inc)) incs"

definition chain_pubs :: "Checkpoint \<Rightarrow> Increment list \<Rightarrow> (uuid \<times> oid) list" where
  "chain_pubs cp incs =
     (cp_Publication cp, cp_Head cp) # map (\<lambda>inc. (inc_Publication inc, inc_Head inc)) incs"

definition retained_keys :: "uuid_lib \<Rightarrow> Retained list \<Rightarrow> bytes list" where
  "retained_keys lib rs = concat (map (\<lambda>r. chain_keys lib (ret_Checkpoint r) (ret_Increments r)) rs)"

definition retained_ids :: "Retained list \<Rightarrow> uuid list" where
  "retained_ids rs = map (\<lambda>r. cp_ID (ret_Checkpoint r)) rs"

definition retained_pubs :: "Retained list \<Rightarrow> (uuid \<times> oid) list" where
  "retained_pubs rs = concat (map (\<lambda>r. chain_pubs (ret_Checkpoint r) (ret_Increments r)) rs)"

definition manifest_keys :: "uuid_lib \<Rightarrow> Manifest \<Rightarrow> bytes list" where
  "manifest_keys lib m = chain_keys lib (mf_Checkpoint m) (mf_Increments m) @ retained_keys lib (mf_Retained m)"

definition manifest_pubs :: "Manifest \<Rightarrow> (uuid \<times> oid) list" where
  "manifest_pubs m = chain_pubs (mf_Checkpoint m) (mf_Increments m) @ retained_pubs (mf_Retained m)"

definition consistent :: "('a \<times> 'b) list \<Rightarrow> bool" where
  "consistent ps \<longleftrightarrow> single_valued (set ps)"

text \<open>
  What a valid manifest promises: every chain, active or retained, is a checkpoint followed by
  increments of consecutive generations, each built on its predecessor's head and stored under the
  key that names its own kind, generation and ID; the recorded heads are the chain's last heads;
  retired generations decrease; no key and no checkpoint ID occurs twice; no publication ID names
  two heads.
\<close>

definition valid_manifest :: "uuid_lib \<Rightarrow> Manifest \<Rightarrow> bool" where
  "valid_manifest lib m \<longleftrightarrow>
     mf_Generation m \<noteq> 0 \<and>
     chain_ok (mf_Checkpoint m) (mf_Increments m) \<and>
     mf_Head m = tail_head (cp_Head (mf_Checkpoint m)) (mf_Increments m) \<and>
     cp_ThroughGeneration (mf_Checkpoint m) \<le> mf_Generation m \<and>
     retained_ok (mf_Generation m + 1) (mf_Retained m) \<and>
     distinct (manifest_keys lib m) \<and>
     distinct (cp_ID (mf_Checkpoint m) # retained_ids (mf_Retained m)) \<and>
     consistent (manifest_pubs m)"

section \<open>The validator decides the contract\<close>

text \<open>\<open>seen\<close> is the state of the three Go maps after the listed keys, IDs and publications.\<close>

definition seen :: "bytes list \<Rightarrow> uuid list \<Rightarrow> (uuid \<times> oid) list \<Rightarrow> vstate" where
  "seen ks ids ps = \<lparr>vs_keys = (\<lambda>k. k \<in> set ks), vs_cpids = (\<lambda>i. i \<in> set ids), vs_pubs = map_of ps\<rparr>"

lemma seen_add [simp]:
  "(seen ks ids ps)\<lparr>vs_keys := (vs_keys (seen ks ids ps))(key := True),
      vs_pubs := (map_of ps)(p \<mapsto> h)\<rparr> = seen (key # ks) ids ((p, h) # ps)"
  "(seen ks ids ps)\<lparr>vs_keys := (vs_keys (seen ks ids ps))(key := True),
      vs_cpids := (vs_cpids (seen ks ids ps))(i := True),
      vs_pubs := (map_of ps)(p \<mapsto> h)\<rparr> = seen (key # ks) (i # ids) ((p, h) # ps)"
  by (auto simp: seen_def fun_eq_iff)

lemma seen_sel [simp]:
  "vs_keys (seen ks ids ps) k \<longleftrightarrow> k \<in> set ks" "vs_cpids (seen ks ids ps) i \<longleftrightarrow> i \<in> set ids"
  "vs_pubs (seen ks ids ps) = map_of ps"
  by (simp_all add: seen_def)

lemma consistent_append: "consistent (xs @ ps) \<Longrightarrow> consistent ps"
  by (auto simp: consistent_def single_valued_def)

lemma consistent_cong: "set xs = set ys \<Longrightarrow> consistent xs = consistent ys"
  by (simp add: consistent_def)

lemma consistent_Cons:
  "consistent ((p, h) # ps) \<longleftrightarrow> (\<forall>k. (p, k) \<in> set ps \<longrightarrow> k = h) \<and> consistent ps"
  unfolding consistent_def single_valued_def by auto

lemma pub_clash_seen:
  assumes "consistent ps"
  shows "\<not> pub_clash (seen ks ids ps) p h \<longleftrightarrow> consistent ((p, h) # ps)"
proof (cases "map_of ps p")
  case None
  then have "(p, k) \<notin> set ps" for k by (metis weak_map_of_SomeI option.distinct(1))
  then show ?thesis using assms None by (simp add: pub_clash_def consistent_Cons)
next
  case (Some k)
  have mem: "(p, k) \<in> set ps" using map_of_SomeD [OF Some] .
  then have "consistent ((p, h) # ps) \<longleftrightarrow> h = k"
    using assms unfolding consistent_Cons unfolding consistent_def single_valued_def by blast
  then show ?thesis using Some by (auto simp: pub_clash_def)
qed

lemma checkDescriptorKey_Inr [simp]:
  "checkDescriptorKey k kind gen i = Inr u \<longleftrightarrow> k = \<lparr>key_Kind = kind, key_Generation = gen, key_ID = i\<rparr>"
  by (cases k) (auto simp: checkDescriptorKey_def)

lemma checkIncrements_Inr:
  assumes "distinct ks" "consistent ps"
  shows "checkIncrements lib (seen ks ids ps) h g incs = Inr (h', vs) \<longleftrightarrow>
    inc_chain h g incs \<and> h' = tail_head h incs \<and>
    distinct (rev (map (\<lambda>inc. Key_String lib (inc_Key inc)) incs) @ ks) \<and>
    consistent (rev (map (\<lambda>inc. (inc_Publication inc, inc_Head inc)) incs) @ ps) \<and>
    vs = seen (rev (map (\<lambda>inc. Key_String lib (inc_Key inc)) incs) @ ks) ids
           (rev (map (\<lambda>inc. (inc_Publication inc, inc_Head inc)) incs) @ ps)"
  using assms
proof (induction incs arbitrary: ks ps h g)
  case (Cons inc incs)
  let ?k = "Key_String lib (inc_Key inc)" and ?p = "(inc_Publication inc, inc_Head inc)"
  have tail: "tail_head h (inc # incs) = tail_head (inc_Head inc) incs" by (simp add: tail_head_def)
  show ?case
  proof (cases "?k \<notin> set ks \<and> consistent (?p # ps)")
    case True
    then have "distinct (?k # ks)" "consistent (?p # ps)" using Cons.prems by auto
    note IH = Cons.IH [OF this, of "inc_Head inc" "inc_Generation inc"]
    have nc: "\<not> pub_clash (seen ks ids ps) (inc_Publication inc) (inc_Head inc)"
      using pub_clash_seen [OF Cons.prems(2)] True by blast
    show ?thesis
      using IH True nc
      by (auto simp: tail bindR_eq_Inr Let_def word_neq_0_conv not_le)
  next
    case False
    have nk: "\<not> distinct (rev (map (\<lambda>inc. Key_String lib (inc_Key inc)) incs) @ ?k # ks)" if "?k \<in> set ks"
      using that by auto
    have np: "\<not> consistent (rev (map (\<lambda>inc. (inc_Publication inc, inc_Head inc)) incs) @ ?p # ps)"
      if "\<not> consistent (?p # ps)" using that consistent_append by blast
    have nc: "pub_clash (seen ks ids ps) (inc_Publication inc) (inc_Head inc) = (\<not> consistent (?p # ps))"
      using pub_clash_seen [OF Cons.prems(2)] by blast
    show ?thesis
      using False nk np by (auto simp: bindR_eq_Inr Let_def nc split: if_splits)
  qed
qed (auto simp: tail_head_def)

lemma checkChain_Inr:
  assumes "distinct ks" "distinct ids" "consistent ps"
  shows "checkChain lib (seen ks ids ps) cp incs = Inr (h', vs) \<longleftrightarrow>
    chain_ok cp incs \<and> h' = tail_head (cp_Head cp) incs \<and>
    distinct (rev (chain_keys lib cp incs) @ ks) \<and> distinct (cp_ID cp # ids) \<and>
    consistent (rev (chain_pubs cp incs) @ ps) \<and>
    vs = seen (rev (chain_keys lib cp incs) @ ks) (cp_ID cp # ids) (rev (chain_pubs cp incs) @ ps)"
proof (cases "Key_String lib (cp_Key cp) \<notin> set ks \<and> consistent ((cp_Publication cp, cp_Head cp) # ps)")
  case True
  then have d: "distinct (Key_String lib (cp_Key cp) # ks)" "consistent ((cp_Publication cp, cp_Head cp) # ps)"
    using assms by auto
  have nc: "\<not> pub_clash (seen ks ids ps) (cp_Publication cp) (cp_Head cp)"
    using pub_clash_seen [OF assms(3)] True by blast
  have step: "checkChain lib (seen ks ids ps) cp incs = Inr (h', vs) \<longleftrightarrow>
      0 < cp_Size cp \<and> cp_Key cp = \<lparr>key_Kind = KindCheckpoint, key_Generation = cp_ThroughGeneration cp,
        key_ID = cp_ID cp\<rparr> \<and> cp_ID cp \<notin> set ids \<and>
      checkIncrements lib (seen (Key_String lib (cp_Key cp) # ks) (cp_ID cp # ids)
        ((cp_Publication cp, cp_Head cp) # ps)) (cp_Head cp) (cp_ThroughGeneration cp) incs = Inr (h', vs)"
    using True nc by (auto simp: checkChain_def bindR_eq_Inr Let_def word_neq_0_conv simp del: checkIncrements.simps)
  show ?thesis
    unfolding step checkIncrements_Inr [OF d] chain_ok_def chain_keys_def chain_pubs_def
    using assms(2) by (simp del: distinct_append cong: conj_cong) blast
next
  case False
  have np: "\<not> consistent (rev (chain_pubs cp incs) @ ps)"
    if "\<not> consistent ((cp_Publication cp, cp_Head cp) # ps)"
    using that consistent_append by (fastforce simp: chain_pubs_def)
  have nc: "pub_clash (seen ks ids ps) (cp_Publication cp) (cp_Head cp) =
      (\<not> consistent ((cp_Publication cp, cp_Head cp) # ps))"
    using pub_clash_seen [OF assms(3)] by blast
  show ?thesis
    using False np
    by (auto simp: checkChain_def chain_keys_def bindR_eq_Inr Let_def nc split: if_splits)
qed

lemma checkRetained_Inr:
  assumes "distinct ks" "distinct ids" "consistent ps"
  shows "checkRetained lib (seen ks ids ps) g rs = Inr u \<longleftrightarrow>
    retained_ok g rs \<and> distinct (rev (retained_keys lib rs) @ ks) \<and>
    distinct (rev (retained_ids rs) @ ids) \<and> consistent (rev (retained_pubs rs) @ ps)"
  using assms
proof (induction rs arbitrary: ks ids ps g)
  case Nil
  then show ?case by (simp add: retained_keys_def retained_ids_def retained_pubs_def)
next
  case (Cons r rs)
  let ?ks = "rev (chain_keys lib (ret_Checkpoint r) (ret_Increments r)) @ ks"
  let ?ids = "cp_ID (ret_Checkpoint r) # ids"
  let ?ps = "rev (chain_pubs (ret_Checkpoint r) (ret_Increments r)) @ ps"
  have keys: "rev (retained_keys lib (r # rs)) @ ks = rev (retained_keys lib rs) @ ?ks"
    and ids: "rev (retained_ids (r # rs)) @ ids = rev (retained_ids rs) @ ?ids"
    and pubs: "rev (retained_pubs (r # rs)) @ ps = rev (retained_pubs rs) @ ?ps"
    by (simp_all add: retained_keys_def retained_ids_def retained_pubs_def)
  note chain = checkChain_Inr [OF Cons.prems, of lib "ret_Checkpoint r" "ret_Increments r"]
  have sub: "distinct ?ks" "distinct ?ids" "consistent ?ps"
    if "distinct (rev (retained_keys lib rs) @ ?ks)" "distinct (rev (retained_ids rs) @ ?ids)"
      "consistent (rev (retained_pubs rs) @ ?ps)"
    using that consistent_append by (auto simp del: distinct.simps simp add: distinct_append [of "rev _"])
  show ?case
    unfolding keys ids pubs
    using Cons.IH [of ?ks ?ids ?ps "ret_RetiredAtGeneration r"] sub
    by (auto simp: bindR_eq_Inr chain not_le simp del: distinct_append distinct.simps rev_append append_assoc)
qed

theorem validateManifest_iff: "validateManifest lib m = Inr u \<longleftrightarrow> valid_manifest lib m"
proof -
  have start: "emptyVState = seen [] [] []" by (simp add: emptyVState_def seen_def)
  let ?cp = "mf_Checkpoint m" and ?incs = "mf_Increments m"
  have sub: "distinct (rev (chain_keys lib ?cp ?incs)) \<and> consistent (rev (chain_pubs ?cp ?incs))"
    if "distinct (manifest_keys lib m)" "consistent (manifest_pubs m)"
    using that by (auto simp: manifest_keys_def manifest_pubs_def consistent_def single_valued_def)
  have perm: "distinct (rev (retained_keys lib (mf_Retained m)) @ rev (chain_keys lib ?cp ?incs)) = distinct (manifest_keys lib m)"
    "consistent (rev (retained_pubs (mf_Retained m)) @ rev (chain_pubs ?cp ?incs)) = consistent (manifest_pubs m)"
    "distinct (rev (retained_ids (mf_Retained m)) @ [cp_ID ?cp]) = distinct (cp_ID ?cp # retained_ids (mf_Retained m))"
    by (auto simp: manifest_keys_def manifest_pubs_def consistent_def Un_commute)
  have chain: "checkChain lib (seen [] [] []) ?cp ?incs = Inr (h, vs) \<longleftrightarrow>
      chain_ok ?cp ?incs \<and> h = tail_head (cp_Head ?cp) ?incs \<and> distinct (rev (chain_keys lib ?cp ?incs)) \<and>
      consistent (rev (chain_pubs ?cp ?incs)) \<and>
      vs = seen (rev (chain_keys lib ?cp ?incs)) [cp_ID ?cp] (rev (chain_pubs ?cp ?incs))" for h vs
    using checkChain_Inr [of "[]" "[]" "[]" lib ?cp ?incs] by (simp add: consistent_def)
  have ret: "checkRetained lib (seen (rev (chain_keys lib ?cp ?incs)) [cp_ID ?cp] (rev (chain_pubs ?cp ?incs)))
      (mf_Generation m + 1) (mf_Retained m) = Inr u \<longleftrightarrow>
      retained_ok (mf_Generation m + 1) (mf_Retained m) \<and> distinct (manifest_keys lib m) \<and>
      distinct (cp_ID ?cp # retained_ids (mf_Retained m)) \<and> consistent (manifest_pubs m)"
    if "distinct (rev (chain_keys lib ?cp ?incs))" "consistent (rev (chain_pubs ?cp ?incs))"
    using checkRetained_Inr [of "rev (chain_keys lib ?cp ?incs)" "[cp_ID ?cp]"] that perm by (simp del: distinct.simps distinct_append distinct_rev add: distinct_singleton)
  have "validateManifest lib m = Inr u \<longleftrightarrow>
      mf_Generation m \<noteq> 0 \<and> chain_ok ?cp ?incs \<and> distinct (rev (chain_keys lib ?cp ?incs)) \<and>
      consistent (rev (chain_pubs ?cp ?incs)) \<and> mf_Head m = tail_head (cp_Head ?cp) ?incs \<and>
      cp_ThroughGeneration ?cp \<le> mf_Generation m \<and>
      checkRetained lib (seen (rev (chain_keys lib ?cp ?incs)) [cp_ID ?cp] (rev (chain_pubs ?cp ?incs)))
        (mf_Generation m + 1) (mf_Retained m) = Inr u"
    unfolding validateManifest_def start by (auto simp: bindR_eq_Inr chain not_less)
  then show ?thesis using ret sub unfolding valid_manifest_def by blast
qed

section \<open>Decoding inverts encoding\<close>

definition typed_checkpoint :: "uuid_lib \<Rightarrow> Checkpoint \<Rightarrow> bool" where
  "typed_checkpoint lib cp \<longleftrightarrow>
     uuid7 lib (cp_ID cp) \<and> uuid7 lib (cp_Publication cp) \<and> length (cp_Head cp) = 20 \<and>
     wf_key lib (cp_Key cp) \<and> length (cp_SHA256 cp) = 32"

definition typed_increment :: "uuid_lib \<Rightarrow> Increment \<Rightarrow> bool" where
  "typed_increment lib inc \<longleftrightarrow>
     uuid7 lib (inc_Publication inc) \<and> length (inc_Parent inc) = 20 \<and> length (inc_Head inc) = 20 \<and>
     wf_key lib (inc_Key inc) \<and> length (inc_SHA256 inc) = 32"

definition typed_retained :: "uuid_lib \<Rightarrow> Retained \<Rightarrow> bool" where
  "typed_retained lib r \<longleftrightarrow>
     length (ret_Head r) = 20 \<and> typed_checkpoint lib (ret_Checkpoint r) \<and>
     list_all (typed_increment lib) (ret_Increments r)"

definition typed_manifest :: "uuid_lib \<Rightarrow> Manifest \<Rightarrow> bool" where
  "typed_manifest lib m \<longleftrightarrow>
     mf_Version m = ManifestVersion \<and> length (mf_Head m) = 20 \<and> typed_checkpoint lib (mf_Checkpoint m) \<and>
     list_all (typed_increment lib) (mf_Increments m) \<and> list_all (typed_retained lib) (mf_Retained m)"

lemmas required_defs = requiredValue_def requiredUint_def requiredString_def requiredObject_def
  requiredArray_def requiredUUID_def requiredOID_def requiredKey_def requiredSHA256_def
  Value_Field_def RejectUnknown_def

lemma mapR_map: "(\<And>x. x \<in> set xs \<Longrightarrow> f (g x) = Inr x) \<Longrightarrow> mapR f (map g xs) = Inr xs"
  by (induction xs) auto

lemma mapR_Inr_list_all:
  "mapR f xs = Inr ys \<Longrightarrow> (\<And>x y. f x = Inr y \<Longrightarrow> P y) \<Longrightarrow> list_all P ys"
  by (induction xs arbitrary: ys) (auto simp: bindR_eq_Inr)

context uuid_text
begin

lemma decodeCheckpoint_encode:
  "typed_checkpoint lib cp \<Longrightarrow> decodeCheckpoint lib (encodeCheckpoint lib cp) = Inr cp"
  by (simp add: typed_checkpoint_def decodeCheckpoint_def encodeCheckpoint_def required_defs
      ParseUUIDv7_String ParseKey_String)

lemma decodeIncrement_encode:
  "typed_increment lib inc \<Longrightarrow> decodeIncrement lib (encodeIncrement lib inc) = Inr inc"
  by (simp add: typed_increment_def decodeIncrement_def encodeIncrement_def required_defs
      ParseUUIDv7_String ParseKey_String)

lemma decodeIncrements_encode:
  "list_all (typed_increment lib) incs \<Longrightarrow> decodeIncrements lib (map (encodeIncrement lib) incs) = Inr incs"
  unfolding decodeIncrements_def by (rule mapR_map) (simp add: decodeIncrement_encode list_all_iff)

lemma decodeRetained_encode:
  "list_all (typed_retained lib) rs \<Longrightarrow> decodeRetained lib (map (encodeRetained lib) rs) = Inr rs"
  unfolding decodeRetained_def
proof (rule mapR_map)
  fix r assume "list_all (typed_retained lib) rs" "r \<in> set rs"
  then have "typed_retained lib r" by (simp add: list_all_iff)
  then have t: "length (ret_Head r) = 20"
    and cp: "decodeCheckpoint lib (encodeCheckpoint lib (ret_Checkpoint r)) = Inr (ret_Checkpoint r)"
    and incs: "decodeIncrements lib (map (encodeIncrement lib) (ret_Increments r)) = Inr (ret_Increments r)"
    by (simp_all add: typed_retained_def decodeCheckpoint_encode decodeIncrements_encode)
  have "Kind (encodeCheckpoint lib (ret_Checkpoint r)) = KObject" by (simp add: encodeCheckpoint_def)
  then show "decodeRetainedItem lib (encodeRetained lib r) = Inr r"
    using t cp incs by (simp add: decodeRetainedItem_def encodeRetained_def required_defs)
qed

lemma decodeManifest_encode:
  assumes "typed_manifest lib m"
  shows "decodeManifest lib (encodeManifestValue lib m) = Inr m"
proof -
  have "Kind (encodeCheckpoint lib (mf_Checkpoint m)) = KObject" by (simp add: encodeCheckpoint_def)
  then show ?thesis
    using assms
    by (simp add: typed_manifest_def decodeManifest_def encodeManifestValue_def required_defs
        decodeCheckpoint_encode decodeIncrements_encode decodeRetained_encode)
qed

lemma decodeCheckpoint_typed: "decodeCheckpoint lib v = Inr cp \<Longrightarrow> typed_checkpoint lib cp"
  by (auto simp: decodeCheckpoint_def typed_checkpoint_def requiredUUID_def requiredOID_def
      requiredKey_def requiredSHA256_def bindR_eq_Inr ParseUUIDv7_iff ParseOID_iff ParseKey_iff ParseSHA256_iff)

lemma decodeIncrement_typed: "decodeIncrement lib v = Inr inc \<Longrightarrow> typed_increment lib inc"
  by (auto simp: decodeIncrement_def typed_increment_def requiredUUID_def requiredOID_def
      requiredKey_def requiredSHA256_def bindR_eq_Inr ParseUUIDv7_iff ParseOID_iff ParseKey_iff ParseSHA256_iff
      split: if_splits)

lemma decodeIncrements_typed: "decodeIncrements lib arr = Inr incs \<Longrightarrow> list_all (typed_increment lib) incs"
  unfolding decodeIncrements_def by (erule mapR_Inr_list_all) (rule decodeIncrement_typed)

lemma decodeRetained_typed: "decodeRetained lib arr = Inr rs \<Longrightarrow> list_all (typed_retained lib) rs"
  unfolding decodeRetained_def
proof (erule mapR_Inr_list_all)
  fix v r assume "decodeRetainedItem lib v = Inr r"
  then show "typed_retained lib r"
    using decodeCheckpoint_typed decodeIncrements_typed
    by (auto simp: decodeRetainedItem_def typed_retained_def requiredOID_def ParseOID_iff bindR_eq_Inr split: if_splits)
qed

lemma decodeManifest_typed: "decodeManifest lib v = Inr m \<Longrightarrow> typed_manifest lib m"
  using decodeCheckpoint_typed decodeIncrements_typed decodeRetained_typed
  by (auto simp: decodeManifest_def typed_manifest_def requiredOID_def ParseOID_iff bindR_eq_Inr)

lemma DecodeManifest_Inr: "DecodeManifest lib data = Inr m \<Longrightarrow> typed_manifest lib m \<and> valid_manifest lib m"
  using decodeManifest_typed
  by (auto simp: DecodeManifest_def bindR_eq_Inr validateManifest_iff split: if_splits)

end

text \<open>The texts of a manifest are identifiers and keys, all of them ASCII.\<close>

lemma ascii_manifest:
  assumes "uuid_text lib" "typed_manifest lib m"
  shows "ascii_texts (encodeManifestValue lib m)"
proof -
  note u = uuid_text.text_ascii [OF assms(1)]
  have key: "ascii (Key_String lib k)" if "uuid7 lib (key_ID k)" for k
    using that u by (simp add: Key_String_def key_text_def uuid7_def)
  have cp: "ascii_texts (encodeCheckpoint lib cp)" if "typed_checkpoint lib cp" for cp
    using that u key by (auto simp: encodeCheckpoint_def typed_checkpoint_def uuid7_def wf_key_def)
  have inc: "ascii_texts (encodeIncrement lib i)" if "typed_increment lib i" for i
    using that u key by (auto simp: encodeIncrement_def typed_increment_def uuid7_def wf_key_def)
  have ret: "ascii_texts (encodeRetained lib r)" if "typed_retained lib r" for r
    using that cp inc by (auto simp: encodeRetained_def typed_retained_def list_all_iff)
  show ?thesis using assms(2) cp inc ret by (auto simp: encodeManifestValue_def typed_manifest_def list_all_iff)
qed

lemma unique_names_encode: "unique_names (encodeManifestValue lib m)"
  by (auto simp: encodeManifestValue_def encodeCheckpoint_def encodeIncrement_def encodeRetained_def)

lemma EncodeManifest_Inr:
  "EncodeManifest lib m = Inr data \<longleftrightarrow> valid_manifest lib m \<and> data = Encode (encodeManifestValue lib m)"
  by (auto simp: EncodeManifest_def bindR_eq_Inr validateManifest_iff)

context uuid_text
begin

lemma DecodeManifest_Encode:
  assumes "typed_manifest lib m" "valid_manifest lib m"
  shows "DecodeManifest lib (Encode (encodeManifestValue lib m)) = Inr m"
proof -
  have ok: "validateManifest lib m = Inr ()" using assms(2) by (simp add: validateManifest_iff)
  have ver: "requiredUint (encodeManifestValue lib m) ''version'' = Inr (of_nat (mf_Version m))"
    by (simp add: encodeManifestValue_def required_defs)
  have kind: "Kind (encodeManifestValue lib m) = KObject" by (simp add: encodeManifestValue_def)
  show ?thesis
    using assms(1) decodeManifest_encode [OF assms(1)] ok ver kind
    by (simp add: DecodeManifest_def Parse_Encode unique_names_encode typed_manifest_def)
qed

end

section \<open>Properties\<close>

text \<open>C26: the validator accepts exactly the manifests of the contract: chains of consecutive
  generations on matching parents, keys that bind their own descriptor, unique keys and checkpoint
  IDs, one head per publication, and decreasing retired generations.\<close>

theorem manifest_validator: "validateManifest lib m = Inr () \<longleftrightarrow> valid_manifest lib m"
  by (rule validateManifest_iff)

text \<open>A two-generation manifest with a retained chain, for concrete inputs.\<close>

definition sample_uuid :: "u8 \<Rightarrow> uuid" where
  "sample_uuid n = [1, 2, 3, 4, 5, 6, 0x70, 8, 0x80, 10, 11, 12, 13, 14, 15, n]"

definition sample_oid :: "u8 \<Rightarrow> oid" where
  "sample_oid n = replicate 19 0 @ [n]"

definition sample_checkpoint :: "u8 \<Rightarrow> u64 \<Rightarrow> u8 \<Rightarrow> Checkpoint" where
  "sample_checkpoint n g h = \<lparr>cp_ID = sample_uuid n, cp_Publication = sample_uuid h, cp_ThroughGeneration = g,
     cp_Head = sample_oid h, cp_Key = \<lparr>key_Kind = KindCheckpoint, key_Generation = g, key_ID = sample_uuid n\<rparr>,
     cp_SHA256 = replicate 32 n, cp_Size = 10\<rparr>"

definition sample_increment :: "u64 \<Rightarrow> u8 \<Rightarrow> u8 \<Rightarrow> Increment" where
  "sample_increment g p h = \<lparr>inc_Generation = g, inc_Publication = sample_uuid h, inc_Parent = sample_oid p,
     inc_Head = sample_oid h, inc_Key = \<lparr>key_Kind = KindIncrement, key_Generation = g, key_ID = sample_uuid h\<rparr>,
     inc_SHA256 = replicate 32 h, inc_Size = 5\<rparr>"

definition sample_manifest :: Manifest where
  "sample_manifest = \<lparr>mf_Version = 1, mf_Generation = 4, mf_Head = sample_oid 22,
     mf_Checkpoint = sample_checkpoint 1 2 21, mf_Increments = [sample_increment 3 21 22],
     mf_Retained = [\<lparr>ret_RetiredAtGeneration = 3, ret_Head = sample_oid 21, ret_Checkpoint = sample_checkpoint 2 1 20,
        ret_Increments = [sample_increment 2 20 21]\<rparr>]\<rparr>"

lemma sample_manifest_ok: "typed_manifest canonical_uuid sample_manifest" "valid_manifest canonical_uuid sample_manifest"
proof -
  show "typed_manifest canonical_uuid sample_manifest" by code_simp
  have "validateManifest canonical_uuid sample_manifest = Inr ()" by code_simp
  then show "valid_manifest canonical_uuid sample_manifest" by (simp add: validateManifest_iff)
qed

text \<open>Every well-typed valid manifest encodes, and its encoding decodes to the same manifest.\<close>

theorem manifest_roundtrip:
  assumes "uuid_text lib" "typed_manifest lib m" "valid_manifest lib m"
  shows "\<exists>data. EncodeManifest lib m = Inr data \<and> DecodeManifest lib data = Inr m"
  using uuid_text.DecodeManifest_Encode [OF assms] assms(3) by (auto simp: EncodeManifest_Inr)

theorem manifest_roundtrip_witness:
  "\<exists>data. EncodeManifest canonical_uuid sample_manifest = Inr data \<and> DecodeManifest canonical_uuid data = Inr sample_manifest"
  by (rule manifest_roundtrip [OF cuuid.uuid_text_axioms sample_manifest_ok])

text \<open>C27: whatever bytes are stored, a manifest that decodes has well-typed fields, satisfies every
  cross-field rule, and can be written back unchanged.\<close>

theorem manifest_decode_sound:
  assumes "uuid_text lib" "DecodeManifest lib data = Inr m"
  shows "typed_manifest lib m \<and> valid_manifest lib m \<and>
    (\<exists>out. EncodeManifest lib m = Inr out \<and> DecodeManifest lib out = Inr m)"
  using uuid_text.DecodeManifest_Inr [OF assms] uuid_text.DecodeManifest_Encode [OF assms(1)]
  by (auto simp: EncodeManifest_Inr)

theorem manifest_decode_sound_witness:
  "valid_manifest canonical_uuid sample_manifest \<and>
   DecodeManifest canonical_uuid (Encode (encodeManifestValue canonical_uuid sample_manifest)) = Inr sample_manifest"
proof -
  have d: "DecodeManifest canonical_uuid (Encode (encodeManifestValue canonical_uuid sample_manifest)) = Inr sample_manifest"
    using cuuid.DecodeManifest_Encode sample_manifest_ok by blast
  then show ?thesis using manifest_decode_sound [OF cuuid.uuid_text_axioms d] by blast
qed

text \<open>A stored object whose version is above this build's is refused as needing an upgrade before any
  other field is looked at.\<close>

theorem manifest_version_gate:
  assumes "Parse data = Inr root" "Value_Field root ''version'' = Some (JNumber v)" "v > 1"
  shows "DecodeManifest lib data = Inl (UpgradeRequired v)"
proof -
  have "Kind root = KObject" using assms(2) by (cases root) (simp_all add: Value_Field_def)
  then show ?thesis
    using assms by (simp add: DecodeManifest_def requiredUint_def requiredValue_def ManifestVersion_def)
qed

theorem manifest_version_gate_witness:
  "DecodeManifest canonical_uuid (Encode (JObject [(''version'', JNumber 9), (''x'', JBool True)])) = Inl (UpgradeRequired 9)"
proof -
  have p: "Parse (Encode (JObject [(''version'', JNumber 9), (''x'', JBool True)])) =
      Inr (JObject [(''version'', JNumber 9), (''x'', JBool True)])"
    by (rule Parse_Encode) simp
  show ?thesis by (rule manifest_version_gate [OF p]) (simp_all add: Value_Field_def)
qed

end
