(* ===== verification/PathRules.thy ===== *)
theory PathRules
  imports Prelude
begin

text \<open>
  The path, content and snapshot rules of \<open>internal/git/path.go\<close>. Unicode normalization
  (\<open>norm.NFC\<close>) and case folding (\<open>cases.Fold\<close>) come from packages outside the repository and are
  the fields of \<open>text_lib\<close>; the UTF-8 decoder of Go's standard library is written out.

  \<open>strings.EqualFold(seg, ".git")\<close> and \<open>strings.ToUpper\<close> in the device-name test are written as
  ASCII case mappings: the only non-ASCII runes whose simple case mapping is an ASCII letter map to
  i, k and s (dotless i to I, the Kelvin sign to k, long s to S), none of the letters in question
  but the i of \<open>.git\<close>, whose folding orbit is \<open>i\<close>, \<open>I\<close> alone.
\<close>

section \<open>UTF-8\<close>

definition byteAt :: "bytes \<Rightarrow> nat \<Rightarrow> nat" where
  "byteAt s i = (if i < length s then of_char (s ! i) else 0)"

definition cont_byte :: "nat \<Rightarrow> bool" where
  "cont_byte b \<longleftrightarrow> 0x80 \<le> b \<and> b \<le> 0xBF"

text \<open>One step of Go's decoder: the rune and its width; an invalid byte is \<open>(0xFFFD, 1)\<close>.\<close>

definition DecodeRune :: "bytes \<Rightarrow> nat \<times> nat" where
  "DecodeRune s =
     (let b0 = byteAt s 0; b1 = byteAt s 1; b2 = byteAt s 2; b3 = byteAt s 3 in
      if b0 < 0x80 then (b0, 1)
      else if 0xC2 \<le> b0 \<and> b0 \<le> 0xDF \<and> cont_byte b1
      then ((b0 - 0xC0) * 64 + (b1 - 0x80), 2)
      else if 0xE0 \<le> b0 \<and> b0 \<le> 0xEF \<and> cont_byte b1 \<and> cont_byte b2 \<and>
        (b0 = 0xE0 \<longrightarrow> 0xA0 \<le> b1) \<and> (b0 = 0xED \<longrightarrow> b1 \<le> 0x9F)
      then ((b0 - 0xE0) * 4096 + (b1 - 0x80) * 64 + (b2 - 0x80), 3)
      else if 0xF0 \<le> b0 \<and> b0 \<le> 0xF4 \<and> cont_byte b1 \<and> cont_byte b2 \<and> cont_byte b3 \<and>
        (b0 = 0xF0 \<longrightarrow> 0x90 \<le> b1) \<and> (b0 = 0xF4 \<longrightarrow> b1 \<le> 0x8F)
      then ((b0 - 0xF0) * 262144 + (b1 - 0x80) * 4096 + (b2 - 0x80) * 64 + (b3 - 0x80), 4)
      else (0xFFFD, 1))"

lemma DecodeRune_width: "0 < snd (DecodeRune s)"
  by (simp add: DecodeRune_def Let_def)

function Runes :: "bytes \<Rightarrow> (nat \<times> nat) list" where
  "Runes s = (if s = [] then [] else DecodeRune s # Runes (drop (snd (DecodeRune s)) s))"
  by pat_completeness auto
termination
proof (relation "measure length")
  fix s :: bytes assume "s \<noteq> []"
  then show "(drop (snd (DecodeRune s)) s, s) \<in> measure length"
    using DecodeRune_width [of s] by (cases s) auto
qed simp

declare Runes.simps [simp del, code del]

text \<open>\<open>unicode.IsSpace\<close>: the Unicode property White Space.\<close>

definition IsSpace :: "nat \<Rightarrow> bool" where
  "IsSpace r \<longleftrightarrow> 0x09 \<le> r \<and> r \<le> 0x0D \<or> r \<in> {0x20, 0x85, 0xA0, 0x1680, 0x2028, 0x2029, 0x202F, 0x205F, 0x3000} \<or>
     0x2000 \<le> r \<and> r \<le> 0x200A"

lemma Runes_Nil [code]: "Runes [] = []"
  by (subst Runes.simps) simp

lemma Runes_Cons [code]:
  "Runes (c # s) = (case DecodeRune (c # s) of (r, w) \<Rightarrow> (r, w) # Runes (drop w (c # s)))"
  by (subst Runes.simps) (simp split: prod.splits)

definition utf8_Valid :: "bytes \<Rightarrow> bool" where
  "utf8_Valid s \<longleftrightarrow> list_all (\<lambda>rw. rw \<noteq> (0xFFFD, 1)) (Runes s)"

lemma Runes_ascii_Cons: "(of_char c :: nat) < 0x80 \<Longrightarrow> Runes (c # s) = (of_char c, 1) # Runes s"
  by (simp add: Runes_Cons DecodeRune_def byteAt_def Let_def)

lemma utf8_Valid_ascii: "ascii s \<Longrightarrow> utf8_Valid s"
  by (induction s) (auto simp: utf8_Valid_def Runes_ascii_Cons Runes_Nil)

definition IsControl :: "nat \<Rightarrow> bool" where
  "IsControl r \<longleftrightarrow> r \<le> 0x1F \<or> 0x7F \<le> r \<and> r \<le> 0x9F"

section \<open>Paths\<close>

record text_lib =
  nfc_IsNormal :: "bytes \<Rightarrow> bool"
  case_Fold :: "bytes \<Rightarrow> bytes"

definition maxPathBytes :: nat where "maxPathBytes = 4096"
definition maxSegmentBytes :: nat where "maxSegmentBytes = 255"

definition invalidSegmentChars :: bytes where
  "invalidSegmentChars = [CHR 0x5C, CHR 0x3A, CHR 0x2A, CHR 0x3F, CHR 0x22, CHR 0x3C, CHR 0x3E, CHR 0x7C]"

datatype path_error =
    PathEmpty | PathTooLong | PathNotUTF8 | PathNotNFC | PathSlashEnd
  | SegEmpty | SegDot | SegGit | SegTooLong | SegTrailing | SegDevice | SegControl | SegReserved

definition ascii_lower :: "char \<Rightarrow> char" where
  "ascii_lower c = (let n = (of_char c :: nat) in if 65 \<le> n \<and> n \<le> 90 then char_of (n + 32) else c)"

definition ascii_upper :: "char \<Rightarrow> char" where
  "ascii_upper c = (let n = (of_char c :: nat) in if 97 \<le> n \<and> n \<le> 122 then char_of (n - 32) else c)"

definition isWindowsDeviceName :: "bytes \<Rightarrow> bool" where
  "isWindowsDeviceName seg =
     (let base = takeWhile (\<lambda>c. c \<noteq> CHR ''.'') seg;
          upper = map ascii_upper base in
      upper \<in> set [''CON'', ''PRN'', ''AUX'', ''NUL''] \<or>
      length upper = 4 \<and> (HasPrefix upper ''COM'' \<or> HasPrefix upper ''LPT'') \<and>
      CHR ''1'' \<le> upper ! 3 \<and> upper ! 3 \<le> CHR ''9'')"

fun segment_runes :: "(nat \<times> nat) list \<Rightarrow> path_error + unit" where
  "segment_runes [] = Inr ()"
| "segment_runes ((r, w) # rs) =
     (if IsControl r then Inl SegControl
      else if r \<in> set (map of_char invalidSegmentChars) then Inl SegReserved
      else segment_runes rs)"

definition validateSegment :: "bytes \<Rightarrow> path_error + unit" where
  "validateSegment seg =
     (if seg = [] then Inl SegEmpty
      else if seg = ''.'' \<or> seg = ''..'' then Inl SegDot
      else if map ascii_lower seg = ''.git'' then Inl SegGit
      else if length seg > maxSegmentBytes then Inl SegTooLong
      else if HasSuffix seg '' '' \<or> HasSuffix seg ''.'' then Inl SegTrailing
      else if isWindowsDeviceName seg then Inl SegDevice
      else segment_runes (Runes seg))"

fun validateSegments :: "bytes list \<Rightarrow> path_error + unit" where
  "validateSegments [] = Inr ()"
| "validateSegments (seg # segs) = bindR (validateSegment seg) (\<lambda>_. validateSegments segs)"

definition ValidatePath :: "text_lib \<Rightarrow> bytes \<Rightarrow> path_error + unit" where
  "ValidatePath tx path =
     (if path = [] then Inl PathEmpty
      else if length path > maxPathBytes then Inl PathTooLong
      else if \<not> utf8_Valid path then Inl PathNotUTF8
      else if \<not> nfc_IsNormal tx path then Inl PathNotNFC
      else if HasPrefix path ''/'' \<or> HasSuffix path ''/'' then Inl PathSlashEnd
      else validateSegments (SplitOn (CHR ''/'') path))"

section \<open>Content and snapshots\<close>

datatype content_error = ContentNotUTF8 | ContentNUL

definition ValidateContent :: "bytes \<Rightarrow> content_error + unit" where
  "ValidateContent data =
     (if \<not> utf8_Valid data then Inl ContentNotUTF8
      else if CHR 0x00 \<in> set data then Inl ContentNUL
      else Inr ())"

record File =
  f_Path :: bytes
  f_Data :: bytes

type_synonym Snapshot = "File list"

record PathCollisionError =
  pce_First :: bytes
  pce_Path :: bytes
  pce_Fold :: bool
  pce_Dir :: bool

datatype snapshot_error =
    BadPath path_error
  | BadContent bytes content_error
  | PathCollision PathCollisionError

text \<open>The prefixes \<open>f.Path[:i]\<close> at the slashes of a path, shortest first.\<close>

definition dir_prefixes :: "bytes \<Rightarrow> bytes list" where
  "dir_prefixes p = map (\<lambda>i. take i p) (filter (\<lambda>i. p ! i = CHR ''/'') [0..<length p])"

definition dir_collision :: "bytes \<Rightarrow> bytes \<Rightarrow> bytes \<Rightarrow> PathCollisionError" where
  "dir_collision first path dir =
     \<lparr>pce_First = first, pce_Path = path, pce_Fold = (first \<noteq> dir), pce_Dir = True\<rparr>"

fun collision_below :: "(bytes \<Rightarrow> bytes option) \<Rightarrow> bytes \<Rightarrow> bytes list \<Rightarrow> snapshot_error + unit" where
  "collision_below lookup path [] = Inr ()"
| "collision_below lookup path (dir # dirs) =
     (case lookup dir of
        Some first \<Rightarrow> Inl (PathCollision (dir_collision first path dir))
      | None \<Rightarrow> collision_below lookup path dirs)"

fun fileDirectoryCollision :: "(bytes \<Rightarrow> bytes option) \<Rightarrow> Snapshot \<Rightarrow> snapshot_error + unit" where
  "fileDirectoryCollision lookup [] = Inr ()"
| "fileDirectoryCollision lookup (f # fs) =
     bindR (collision_below lookup (f_Path f) (dir_prefixes (f_Path f)))
       (\<lambda>_. fileDirectoryCollision lookup fs)"

fun validateFiles :: "text_lib \<Rightarrow> (bytes \<rightharpoonup> bytes) \<Rightarrow> Snapshot \<Rightarrow> snapshot_error + unit" where
  "validateFiles tx fseen [] = Inr ()"
| "validateFiles tx fseen (f # fs) =
     bindR (mapErr BadPath (ValidatePath tx (f_Path f))) (\<lambda>_.
     bindR (mapErr (BadContent (f_Path f)) (ValidateContent (f_Data f))) (\<lambda>_.
     case fseen (case_Fold tx (f_Path f)) of
       Some first \<Rightarrow>
         Inl (PathCollision \<lparr>pce_First = first, pce_Path = f_Path f, pce_Fold = (first \<noteq> f_Path f), pce_Dir = False\<rparr>)
     | None \<Rightarrow> validateFiles tx (fseen(case_Fold tx (f_Path f) \<mapsto> f_Path f)) fs))"

definition ValidateSnapshot :: "text_lib \<Rightarrow> Snapshot \<Rightarrow> snapshot_error + unit" where
  "ValidateSnapshot tx snap =
     bindR (validateFiles tx Map.empty snap) (\<lambda>_.
     fileDirectoryCollision
       (\<lambda>dir. if list_ex (\<lambda>f. f_Path f = dir) snap then Some dir else None) snap)"

definition folded_paths :: "text_lib \<Rightarrow> Snapshot \<Rightarrow> (bytes \<rightharpoonup> bytes)" where
  "folded_paths tx snap = foldl (\<lambda>m f. m(case_Fold tx (f_Path f) \<mapsto> f_Path f)) Map.empty snap"

definition FoldedDirectoryPairs :: "text_lib \<Rightarrow> Snapshot \<Rightarrow> PathCollisionError list" where
  "FoldedDirectoryPairs tx snap =
     concat (map (\<lambda>f.
       concat (map (\<lambda>dir. case folded_paths tx snap (case_Fold tx dir) of
           Some first \<Rightarrow> [dir_collision first (f_Path f) dir]
         | None \<Rightarrow> []) (dir_prefixes (f_Path f)))) snap)"

definition ValidateFoldedDirectories :: "text_lib \<Rightarrow> Snapshot \<Rightarrow> snapshot_error + unit" where
  "ValidateFoldedDirectories tx snap =
     (case FoldedDirectoryPairs tx snap of [] \<Rightarrow> Inr () | p # _ \<Rightarrow> Inl (PathCollision p))"

section \<open>What a valid path is\<close>

text \<open>
  No byte below 0x80 hides inside a multi-byte rune, so the rune tests of a segment exclude the
  bytes themselves.
\<close>

lemma DecodeRune_ascii:
  assumes "s \<noteq> []" "c \<in> set (take (snd (DecodeRune s)) s)" "(of_char c :: nat) < 0x80"
  shows "fst (DecodeRune s) = of_char c"
proof -
  have cont: "\<not> cont_byte (of_char c)" using assms(3) by (simp add: cont_byte_def)
  obtain i where i: "i < snd (DecodeRune s)" "i < length s" "s ! i = c"
    using assms(2) by (auto simp: in_set_conv_nth)
  then have at: "byteAt s i = of_char c" by (simp add: byteAt_def)
  consider "i = 0" | "i = 1" | "i = 2" | "i = 3"
    using i(1) by (fastforce simp: DecodeRune_def Let_def split: if_splits)
  then show ?thesis
    using i(1) at cont assms(3)
    by cases (auto simp: DecodeRune_def Let_def split: if_splits)
qed

lemma Runes_ascii:
  "c \<in> set s \<Longrightarrow> (of_char c :: nat) < 0x80 \<Longrightarrow> of_char c \<in> fst ` set (Runes s)"
proof (induction s rule: Runes.induct)
  case (1 s)
  have ne: "s \<noteq> []" using 1(2) by auto
  then have unf: "Runes s = DecodeRune s # Runes (drop (snd (DecodeRune s)) s)"
    by (subst Runes.simps) simp
  have "set s = set (take (snd (DecodeRune s)) s) \<union> set (drop (snd (DecodeRune s)) s)"
    by (metis append_take_drop_id set_append)
  then consider "c \<in> set (take (snd (DecodeRune s)) s)" | "c \<in> set (drop (snd (DecodeRune s)) s)"
    using 1(2) by blast
  then show ?case
  proof cases
    case 1
    then show ?thesis using DecodeRune_ascii [OF ne 1] \<open>of_char c < 0x80\<close> by (simp add: unf)
  next
    case 2
    then show ?thesis using 1(1) [OF ne 2 1(3)] by (simp add: unf)
  qed
qed

lemma segment_runes_Inr:
  "segment_runes rs = Inr u \<longleftrightarrow>
   (\<forall>r \<in> fst ` set rs. \<not> IsControl r \<and> r \<notin> of_char ` set invalidSegmentChars)"
  by (induction rs rule: segment_runes.induct) auto

lemma validateSegments_Inr: "validateSegments segs = Inr u \<longleftrightarrow> (\<forall>seg \<in> set segs. validateSegment seg = Inr ())"
  by (induction segs) (auto simp: bindR_eq_Inr)

text \<open>
  \<open>portable_segment\<close>: what a caller may rely on for one segment of a valid path, on its bytes.
\<close>

definition portable_byte :: "char \<Rightarrow> bool" where
  "portable_byte c \<longleftrightarrow> 0x20 \<le> (of_char c :: nat) \<and> of_char c \<noteq> (0x7F :: nat) \<and>
     c \<notin> set invalidSegmentChars \<and> c \<noteq> CHR ''/''"

definition portable_segment :: "bytes \<Rightarrow> bool" where
  "portable_segment seg \<longleftrightarrow>
     seg \<noteq> [] \<and> seg \<noteq> ''.'' \<and> seg \<noteq> ''..'' \<and> map ascii_lower seg \<noteq> ''.git'' \<and>
     length seg \<le> maxSegmentBytes \<and> last seg \<noteq> CHR '' '' \<and> last seg \<noteq> CHR ''.'' \<and>
     \<not> isWindowsDeviceName seg \<and> list_all portable_byte seg"

lemma HasSuffix_last: "seg \<noteq> [] \<Longrightarrow> HasSuffix seg [c] \<longleftrightarrow> last seg = c"
  by (auto simp: HasSuffix_iff suffix_def) (metis append_butlast_last_id)

lemma validateSegment_portable:
  assumes "validateSegment seg = Inr u" "CHR ''/'' \<notin> set seg"
  shows "portable_segment seg"
proof -
  from assms(1) have ne: "seg \<noteq> []" and runes: "segment_runes (Runes seg) = Inr u"
    by (auto simp: validateSegment_def split: if_splits)
  have "portable_byte c" if c: "c \<in> set seg" for c
  proof (cases "(of_char c :: nat) < 0x80")
    case True
    then have "\<not> IsControl (of_char c)" "of_char c \<notin> (of_char :: char \<Rightarrow> nat) ` set invalidSegmentChars"
      using runes Runes_ascii [OF c True] unfolding segment_runes_Inr by blast+
    then show ?thesis using c assms(2) by (auto simp: portable_byte_def IsControl_def)
  next
    case False
    moreover have "of_char d < (0x80 :: nat)" if "d \<in> set invalidSegmentChars" for d
      using that by (auto simp: invalidSegmentChars_def)
    ultimately show ?thesis using c assms(2) by (auto simp: portable_byte_def)
  qed
  then show ?thesis
    using assms(1) ne by (auto simp: validateSegment_def portable_segment_def list_all_iff HasSuffix_last
        split: if_splits)
qed

lemma ValidatePath_segments:
  assumes "ValidatePath tx path = Inr u"
  shows "path \<noteq> []" "length path \<le> maxPathBytes" "utf8_Valid path" "nfc_IsNormal tx path"
    "\<forall>seg \<in> set (SplitOn (CHR ''/'') path). portable_segment seg"
  using assms validateSegment_portable SplitOn_segments
  by (auto simp: ValidatePath_def validateSegments_Inr split: if_splits)

section \<open>What a valid snapshot is\<close>

definition valid_file :: "text_lib \<Rightarrow> File \<Rightarrow> bool" where
  "valid_file tx f \<longleftrightarrow> ValidatePath tx (f_Path f) = Inr () \<and> ValidateContent (f_Data f) = Inr ()"

definition valid_snapshot :: "text_lib \<Rightarrow> Snapshot \<Rightarrow> bool" where
  "valid_snapshot tx snap \<longleftrightarrow>
     (\<forall>f \<in> set snap. valid_file tx f) \<and>
     distinct (map (\<lambda>f. case_Fold tx (f_Path f)) snap) \<and>
     (\<forall>f \<in> set snap. \<forall>g \<in> set snap. \<not> prefix (f_Path f @ ''/'') (f_Path g))"

lemma validateFiles_Inr:
  "validateFiles tx fseen snap = Inr u \<longleftrightarrow>
   (\<forall>f \<in> set snap. valid_file tx f) \<and> distinct (map (\<lambda>f. case_Fold tx (f_Path f)) snap) \<and>
   (\<lambda>f. case_Fold tx (f_Path f)) ` set snap \<inter> dom fseen = {}"
proof (induction snap arbitrary: fseen)
  case (Cons f fs)
  show ?case
  proof (cases "fseen (case_Fold tx (f_Path f))")
    case None
    then have "validateFiles tx fseen (f # fs) = Inr u \<longleftrightarrow>
        valid_file tx f \<and> validateFiles tx (fseen(case_Fold tx (f_Path f) \<mapsto> f_Path f)) fs = Inr u"
      by (simp add: bindR_eq_Inr valid_file_def)
    moreover have "dom (fseen(case_Fold tx (f_Path f) \<mapsto> f_Path f)) = insert (case_Fold tx (f_Path f)) (dom fseen)"
      by simp
    ultimately show ?thesis using None unfolding Cons by (simp del: dom_fun_upd) blast
  next
    case (Some first)
    then show ?thesis by (auto simp: bindR_eq_Inr)
  qed
qed simp

lemma dir_prefixes_iff: "d \<in> set (dir_prefixes p) \<longleftrightarrow> prefix (d @ ''/'') p"
proof
  assume "d \<in> set (dir_prefixes p)"
  then obtain i where i: "i < length p" "p ! i = CHR ''/''" "d = take i p"
    by (auto simp: dir_prefixes_def)
  then have "p = d @ CHR ''/'' # drop (Suc i) p" using id_take_nth_drop [of i p] by simp
  then have "p = (d @ ''/'') @ drop (Suc i) p" by simp
  then show "prefix (d @ ''/'') p" by (rule prefixI)
next
  assume "prefix (d @ ''/'') p"
  then obtain q where "p = d @ CHR ''/'' # q" by (auto simp: prefix_def)
  then show "d \<in> set (dir_prefixes p)"
    by (auto simp: dir_prefixes_def image_iff intro!: exI [of _ "length d"])
qed

lemma set_dir_prefixes: "set (dir_prefixes p) = {d. prefix (d @ ''/'') p}"
  using dir_prefixes_iff by blast

lemma collision_below_Inr: "collision_below lookup path dirs = Inr u \<longleftrightarrow> (\<forall>d \<in> set dirs. lookup d = None)"
  by (induction dirs) (auto split: option.splits)

lemma fileDirectoryCollision_Inr:
  "fileDirectoryCollision lookup snap = Inr u \<longleftrightarrow>
   (\<forall>f \<in> set snap. \<forall>d \<in> set (dir_prefixes (f_Path f)). lookup d = None)"
  by (induction snap) (auto simp: bindR_eq_Inr collision_below_Inr)

lemma ValidateSnapshot_iff: "ValidateSnapshot tx snap = Inr u \<longleftrightarrow> valid_snapshot tx snap"
  unfolding ValidateSnapshot_def valid_snapshot_def bindR_eq_Inr validateFiles_Inr
    fileDirectoryCollision_Inr list_ex_iff set_dir_prefixes
  by (auto split: if_splits)

lemma valid_snapshot_distinct_paths: "valid_snapshot tx snap \<Longrightarrow> distinct (map f_Path snap)"
  unfolding valid_snapshot_def distinct_map by (auto simp: inj_on_def)

lemma valid_snapshot_mset:
  assumes "mset snap = mset snap'"
  shows "valid_snapshot tx snap = valid_snapshot tx snap'"
proof -
  have "set snap = set snap'" using assms by (metis set_mset_mset)
  moreover have "distinct (map (\<lambda>f. case_Fold tx (f_Path f)) snap) = distinct (map (\<lambda>f. case_Fold tx (f_Path f)) snap')"
    using assms by (metis mset_eq_imp_distinct_iff mset_map)
  ultimately show ?thesis by (simp add: valid_snapshot_def)
qed

lemma sort_files_mset [simp]: "mset (sort_key f_Path snap) = mset snap"
  by simp

lemma valid_snapshot_sort [simp]: "valid_snapshot tx (sort_key f_Path snap) = valid_snapshot tx snap"
  by (rule valid_snapshot_mset) simp

lemma valid_snapshot_subset:
  assumes "valid_snapshot tx snap" "set sub \<subseteq> set snap" "distinct (map f_Path sub)"
    "\<And>f g. f \<in> set sub \<Longrightarrow> g \<in> set sub \<Longrightarrow> case_Fold tx (f_Path f) = case_Fold tx (f_Path g) \<Longrightarrow> f_Path f = f_Path g"
  shows "valid_snapshot tx sub"
  using assms unfolding valid_snapshot_def distinct_map by (auto simp: inj_on_def) blast+

section \<open>Properties\<close>

text \<open>An ASCII instance of the text library, and rules that evaluate the path checks on it.\<close>

definition ascii_text :: text_lib where
  "ascii_text = \<lparr>nfc_IsNormal = (\<lambda>_. True), case_Fold = map ascii_lower\<rparr>"

lemma Runes_byte: "(of_char c :: nat) < 128 \<Longrightarrow> Runes (c # s) = (of_char c, 1) # Runes s"
  by (simp add: Runes_Cons DecodeRune_def byteAt_def Let_def)

lemmas path_eval = ValidatePath_def utf8_Valid_def Runes_Nil Runes_byte maxPathBytes_def maxSegmentBytes_def
  validateSegment_def HasPrefix_def HasSuffix_def TrimSuffix_def ascii_text_def ascii_lower_def IsControl_def
  invalidSegmentChars_def ValidateContent_def

lemma sample_segments:
  "\<not> isWindowsDeviceName ''notes''" "\<not> isWindowsDeviceName ''a.md''" "\<not> isWindowsDeviceName ''c.md''"
  "\<not> isWindowsDeviceName ''docs''" "\<not> isWindowsDeviceName ''a''" "\<not> isWindowsDeviceName ''b''"
  "\<not> isWindowsDeviceName ''x''"
  by code_simp+

text \<open>\<open>ValidateSnapshot\<close> accepts exactly the snapshots whose paths and contents are valid, whose
  paths differ under case folding, and in which no file's path is a directory of another path.\<close>

theorem snapshot_contract: "ValidateSnapshot tx snap = Inr () \<longleftrightarrow> valid_snapshot tx snap"
  by (rule ValidateSnapshot_iff)

text \<open>Every segment of a valid path is safe to create on every host: it is non-empty, is not a dot
  segment, \<open>.git\<close> or a device name, has at most 255 bytes, ends in neither a space nor a dot, and
  contains no control byte, separator or reserved character.\<close>

theorem valid_path_portable:
  assumes "ValidatePath tx path = Inr ()"
  shows "path \<noteq> [] \<and> length path \<le> 4096 \<and>
    (\<forall>seg \<in> set (SplitOn (CHR ''/'') path). portable_segment seg)"
  using ValidatePath_segments [OF assms] by (simp add: maxPathBytes_def)

theorem valid_path_portable_witness:
  "ValidatePath ascii_text ''notes/a.md'' = Inr () \<and> portable_segment ''a.md''"
proof -
  have ok: "ValidatePath ascii_text ''notes/a.md'' = Inr ()" by (simp add: path_eval sample_segments)
  have "SplitOn (CHR ''/'') ''notes/a.md'' = [''notes'', ''a.md'']" by simp
  then show ?thesis using ok valid_path_portable [OF ok] by simp
qed

end
