(* ===== verification/GitTree.thy ===== *)
theory GitTree
  imports PathRules Identifiers
begin

text \<open>
  Trees and snapshots of \<open>internal/git/tree.go\<close> and commits of \<open>internal/git/commit.go\<close>.

  \<open>git.Repository\<close> is an interface whose only production implementation calls libgit2, so its
  operations are the fields of the record \<open>Repository\<close> over an abstract object-store state \<open>'r\<close>;
  every function below takes the record as an argument. What the code relies on is the locale
  \<open>object_db\<close>: what was written is read back, and a write never changes what could be read before.

  A Go walk over a stored tree recurses once per directory level; here it takes that depth as
  fuel, and \<open>walkTree_built\<close> shows which fuel is enough for a tree that was built.
\<close>

section \<open>Objects and the repository interface\<close>

definition ModeBlob :: nat where "ModeBlob = 0x81A4"
definition ModeTree :: nat where "ModeTree = 0x4000"

record TreeEntry =
  te_Name :: bytes
  te_Mode :: nat
  te_ID :: oid

record Commit =
  c_Tree :: oid
  c_Parents :: "oid list"
  c_Message :: bytes

record CommitSpec =
  cs_Message :: bytes
  cs_Tree :: oid
  cs_Parents :: "oid list"
  cs_Time :: int

record IndexEntry =
  ie_Path :: bytes
  ie_Mode :: nat
  ie_ID :: oid
  ie_Stage :: nat

record MergeIndex =
  mi_Tree :: oid
  mi_Entries :: "IndexEntry list"

record MergeFileResult =
  mfr_Content :: bytes
  mfr_Automergeable :: bool

datatype git_error =
    NativeError
  | ErrObjectMissing
  | ErrNoNewObjects
  | ErrEmptyPack
  | ErrHeadRequired
  | UnsupportedModeError bytes nat
  | SnapshotInvalid snapshot_error
  | DuplicateEntry bytes
  | CommitMessageInvalid
  | TreeRequired
  | WalkTooDeep
  | ConflictInvalid
  | HistoryInvalid

record 'r Repository =
  WriteBlob :: "'r \<Rightarrow> bytes \<Rightarrow> git_error + oid \<times> 'r"
  ReadBlob :: "'r \<Rightarrow> oid \<Rightarrow> git_error + bytes"
  HasObject :: "'r \<Rightarrow> oid \<Rightarrow> git_error + bool"
  ReadCommit :: "'r \<Rightarrow> oid \<Rightarrow> git_error + Commit"
  ReadTree :: "'r \<Rightarrow> oid \<Rightarrow> git_error + TreeEntry list"
  WriteTree :: "'r \<Rightarrow> TreeEntry list \<Rightarrow> git_error + oid \<times> 'r"
  repo_CreateCommit :: "'r \<Rightarrow> CommitSpec \<Rightarrow> git_error + oid \<times> 'r"
  MergeTrees :: "'r \<Rightarrow> oid \<Rightarrow> oid \<Rightarrow> oid \<Rightarrow> git_error + MergeIndex \<times> 'r"
  MergeFile :: "bytes \<Rightarrow> bytes \<Rightarrow> bytes \<Rightarrow> git_error + MergeFileResult"
  WritePack :: "'r \<Rightarrow> oid list \<Rightarrow> git_error + bytes \<times> nat"
  repo_ImportPack :: "'r \<Rightarrow> bytes \<Rightarrow> git_error + 'r"
  MarkShallow :: "'r \<Rightarrow> oid \<Rightarrow> git_error + 'r"

section \<open>Tree order\<close>

definition name_byte :: "TreeEntry \<Rightarrow> nat \<Rightarrow> char" where
  "name_byte e n =
     (if length (te_Name e) > n then te_Name e ! n
      else if te_Mode e = ModeTree then CHR ''/'' else CHR 0x00)"

definition treeEntryLess :: "TreeEntry \<Rightarrow> TreeEntry \<Rightarrow> bool" where
  "treeEntryLess a b =
     (let n = min (length (te_Name a)) (length (te_Name b));
          x = take n (te_Name a); y = take n (te_Name b) in
      if x \<noteq> y then x < y else name_byte a n < name_byte b n)"

text \<open>Go's stable sort, as insertion after every element that is not greater.\<close>

fun insert_stable :: "('a \<Rightarrow> 'a \<Rightarrow> bool) \<Rightarrow> 'a \<Rightarrow> 'a list \<Rightarrow> 'a list" where
  "insert_stable lt x [] = [x]"
| "insert_stable lt x (y # ys) = (if lt y x then y # insert_stable lt x ys else x # y # ys)"

definition SortTreeEntries :: "TreeEntry list \<Rightarrow> TreeEntry list" where
  "SortTreeEntries entries = foldr (insert_stable treeEntryLess) entries []"

fun check_names :: "bytes list \<Rightarrow> TreeEntry list \<Rightarrow> git_error + unit" where
  "check_names names_seen [] = Inr ()"
| "check_names names_seen (e # es) =
     (if te_Name e \<in> set names_seen then Inl (DuplicateEntry (te_Name e))
      else check_names (te_Name e # names_seen) es)"

definition CheckUniqueNames :: "TreeEntry list \<Rightarrow> git_error + unit" where
  "CheckUniqueNames entries = check_names [] entries"

section \<open>Building and reading trees\<close>

definition dir_segment :: "bytes \<Rightarrow> bytes" where
  "dir_segment path = takeWhile (\<lambda>c. c \<noteq> CHR ''/'') path"

definition files_weight :: "Snapshot \<Rightarrow> nat" where
  "files_weight files = sum_list (map (\<lambda>f. length (f_Path f) + 1) files)"

definition strip_files :: "bytes \<Rightarrow> Snapshot \<Rightarrow> Snapshot" where
  "strip_files pre files = map (\<lambda>f. \<lparr>f_Path = drop (length pre) (f_Path f), f_Data = f_Data f\<rparr>) files"

definition dir_members :: "bytes \<Rightarrow> Snapshot \<Rightarrow> Snapshot" where
  "dir_members pre files = takeWhile (\<lambda>f. HasPrefix (f_Path f) pre) files"

lemma dir_segment_prefix:
  "CHR ''/'' \<in> set path \<Longrightarrow> HasPrefix path (dir_segment path @ ''/'')"
proof -
  assume "CHR ''/'' \<in> set path"
  then have ne: "dropWhile (\<lambda>c. c \<noteq> CHR ''/'') path \<noteq> []" by (auto simp: dropWhile_eq_Nil_conv)
  then obtain c t where ct: "dropWhile (\<lambda>c. c \<noteq> CHR ''/'') path = c # t" by (cases "dropWhile (\<lambda>c. c \<noteq> CHR ''/'') path") blast+
  then have "c = CHR ''/''" using hd_dropWhile [OF ne] by simp
  then have t: "dropWhile (\<lambda>c. c \<noteq> CHR ''/'') path = CHR ''/'' # t" using ct by simp
  have "path = dir_segment path @ CHR ''/'' # t"
    unfolding dir_segment_def t [symmetric] by simp
  then have "path = (dir_segment path @ ''/'') @ t" by simp
  then show ?thesis unfolding HasPrefix_iff by (rule prefixI)
qed

lemma files_weight_strip:
  "pre \<noteq> [] \<Longrightarrow> (\<And>f. f \<in> set files \<Longrightarrow> HasPrefix (f_Path f) pre) \<Longrightarrow>
   files_weight (strip_files pre files) + length files \<le> files_weight files"
proof (induction files)
  case (Cons f fs)
  have "length pre \<le> length (f_Path f)"
    using Cons.prems(2) [of f] by (simp add: HasPrefix_def) (metis length_take min.cobounded1)
  moreover obtain k where "length pre = Suc k" using Cons.prems(1) by (cases pre) auto
  moreover have "files_weight (strip_files pre fs) + length fs \<le> files_weight fs"
    using Cons by simp
  ultimately show ?case by (simp add: files_weight_def strip_files_def)
qed (simp add: files_weight_def strip_files_def)

lemma files_weight_append: "files_weight (a @ b) = files_weight a + files_weight b"
  by (simp add: files_weight_def)

function (sequential) buildTree :: "'r Repository \<Rightarrow> 'r \<Rightarrow> Snapshot \<Rightarrow> git_error + oid \<times> 'r"
  and buildEntries :: "'r Repository \<Rightarrow> 'r \<Rightarrow> Snapshot \<Rightarrow> git_error + TreeEntry list \<times> 'r"
where
  "buildTree R r files =
     bindR (buildEntries R r files) (\<lambda>(entries, r').
     WriteTree R r' (SortTreeEntries entries))"
| "buildEntries R r [] = Inr ([], r)"
| "buildEntries R r (f # fs) =
     (if CHR ''/'' \<notin> set (f_Path f) then
        bindR (WriteBlob R r (f_Data f)) (\<lambda>(i, r').
        bindR (buildEntries R r' fs) (\<lambda>(es, r'').
        Inr (\<lparr>te_Name = f_Path f, te_Mode = ModeBlob, te_ID = i\<rparr> # es, r'')))
      else
        let seg = dir_segment (f_Path f); pre = seg @ ''/'';
            members = dir_members pre (f # fs) in
        bindR (buildTree R r (strip_files pre members)) (\<lambda>(i, r').
        bindR (buildEntries R r' (drop (length members) (f # fs))) (\<lambda>(es, r'').
        Inr (\<lparr>te_Name = seg, te_Mode = ModeTree, te_ID = i\<rparr> # es, r''))))"
  by pat_completeness auto
termination
proof (relation "measure (case_sum (\<lambda>(R, r, fs). 2 * files_weight fs + 1) (\<lambda>(R, r, fs). 2 * files_weight fs))")
  fix R :: "'r Repository" and r f fs seg pre members
  assume slash: "\<not> CHR ''/'' \<notin> set (f_Path f)"
    and def: "seg = dir_segment (f_Path f)" "pre = seg @ ''/''" "members = dir_members pre (f # fs)"
  have has: "HasPrefix (f_Path f) pre" using dir_segment_prefix slash by (simp add: def)
  then have ne: "members \<noteq> []" by (simp add: def dir_members_def)
  have split: "f # fs = members @ drop (length members) (f # fs)"
    unfolding def(3) dir_members_def by (metis append_eq_conv_conj takeWhile_dropWhile_id)
  have w: "files_weight (f # fs) = files_weight members + files_weight (drop (length members) (f # fs))"
    by (subst split) (rule files_weight_append)
  have "\<And>g. g \<in> set members \<Longrightarrow> HasPrefix (f_Path g) pre"
    unfolding def(3) dir_members_def by (meson set_takeWhileD)
  then have le: "files_weight (strip_files pre members) + length members \<le> files_weight members"
    by (intro files_weight_strip) (simp_all add: def)
  have "files_weight (strip_files pre members) < files_weight members"
    using le ne by (cases members) auto
  then show "(Inl (R, r, strip_files pre members), Inr (R, r, f # fs))
      \<in> measure (case_sum (\<lambda>(R, r, fs). 2 * files_weight fs + 1) (\<lambda>(R, r, fs). 2 * files_weight fs))"
    using w by simp
next
  fix R :: "'r Repository" and r f fs seg pre members x i r'
  assume slash: "\<not> CHR ''/'' \<notin> set (f_Path f)"
    and def: "seg = dir_segment (f_Path f)" "pre = seg @ ''/''" "members = dir_members pre (f # fs)"
  have has: "HasPrefix (f_Path f) pre" using dir_segment_prefix slash by (simp add: def)
  then obtain ms where ms: "members = f # ms" by (simp add: def dir_members_def)
  have split: "f # fs = members @ drop (length members) (f # fs)"
    unfolding def(3) dir_members_def by (metis append_eq_conv_conj takeWhile_dropWhile_id)
  have "files_weight (f # fs) = files_weight members + files_weight (drop (length members) (f # fs))"
    by (subst split) (rule files_weight_append)
  moreover have "0 < files_weight members" by (simp add: ms files_weight_def)
  ultimately show "(Inr (R, r', drop (length members) (f # fs)), Inr (R, r, f # fs))
      \<in> measure (case_sum (\<lambda>(R, r, fs). 2 * files_weight fs + 1) (\<lambda>(R, r, fs). 2 * files_weight fs))"
    by simp
qed (auto simp: files_weight_def)

declare buildTree.simps [simp del] buildEntries.simps(2) [simp del]

definition BuildTree :: "text_lib \<Rightarrow> 'r Repository \<Rightarrow> 'r \<Rightarrow> Snapshot \<Rightarrow> git_error + oid \<times> 'r" where
  "BuildTree tx R r snap =
     bindR (mapErr SnapshotInvalid (ValidateSnapshot tx snap)) (\<lambda>_.
     buildTree R r (sort_key f_Path snap))"

text \<open>A failed object read is marked \<open>ErrObjectMissing\<close> whatever the engine reported.\<close>

definition unreadable :: "git_error + 'a \<Rightarrow> git_error + 'a" where
  "unreadable res = mapErr (\<lambda>_. ErrObjectMissing) res"

definition walkEntry ::
  "(oid \<Rightarrow> bytes \<Rightarrow> git_error + Snapshot) \<Rightarrow> 'r Repository \<Rightarrow> 'r \<Rightarrow> bytes \<Rightarrow> TreeEntry \<Rightarrow> git_error + Snapshot" where
  "walkEntry walk R r pre e =
     (let path = pre @ te_Name e in
      if te_Mode e = ModeTree then walk (te_ID e) (path @ ''/'')
      else if te_Mode e = ModeBlob then
        bindR (unreadable (ReadBlob R r (te_ID e))) (\<lambda>d. Inr [\<lparr>f_Path = path, f_Data = d\<rparr>])
      else Inl (UnsupportedModeError path (te_Mode e)))"

fun walkTree :: "'r Repository \<Rightarrow> 'r \<Rightarrow> nat \<Rightarrow> oid \<Rightarrow> bytes \<Rightarrow> git_error + Snapshot" where
  "walkTree R r 0 tree pre = Inl WalkTooDeep"
| "walkTree R r (Suc n) tree pre =
     bindR (unreadable (ReadTree R r tree)) (\<lambda>es.
     bindR (mapR (walkEntry (\<lambda>t p. walkTree R r n t p) R r pre) es) (\<lambda>fss.
     Inr (concat fss)))"

definition ReadSnapshot :: "text_lib \<Rightarrow> 'r Repository \<Rightarrow> 'r \<Rightarrow> nat \<Rightarrow> oid \<Rightarrow> git_error + Snapshot" where
  "ReadSnapshot tx R r depth tree =
     bindR (walkTree R r depth tree []) (\<lambda>files.
     let snap = sort_key f_Path files in
     bindR (mapErr SnapshotInvalid (ValidateSnapshot tx snap)) (\<lambda>_. Inr snap))"

definition EmptyTree :: "'r Repository \<Rightarrow> 'r \<Rightarrow> git_error + oid \<times> 'r" where
  "EmptyTree R r = WriteTree R r []"

section \<open>Commits\<close>

definition ValidateCommitMessage :: "bytes \<Rightarrow> git_error + unit" where
  "ValidateCommitMessage message =
     (if \<not> utf8_Valid message then Inl CommitMessageInvalid
      else if CHR 0x00 \<in> set message then Inl CommitMessageInvalid
      else Inr ())"

definition CreateCommit :: "'r Repository \<Rightarrow> 'r \<Rightarrow> CommitSpec \<Rightarrow> git_error + oid \<times> 'r" where
  "CreateCommit R r spec =
     bindR (ValidateCommitMessage (cs_Message spec)) (\<lambda>_.
     if OID_IsZero (cs_Tree spec) then Inl TreeRequired
     else repo_CreateCommit R r spec)"

section \<open>The object database contract\<close>

definition keeps :: "'r Repository \<Rightarrow> 'r \<Rightarrow> 'r \<Rightarrow> bool" where
  "keeps R r r' \<longleftrightarrow>
     (\<forall>i d. ReadBlob R r i = Inr d \<longrightarrow> ReadBlob R r' i = Inr d) \<and>
     (\<forall>i es. ReadTree R r i = Inr es \<longrightarrow> ReadTree R r' i = Inr es) \<and>
     (\<forall>i c. ReadCommit R r i = Inr c \<longrightarrow> ReadCommit R r' i = Inr c) \<and>
     (\<forall>i. HasObject R r i = Inr True \<longrightarrow> HasObject R r' i = Inr True)"

lemma keeps_refl [simp]: "keeps R r r"
  by (simp add: keeps_def)

lemma keeps_trans: "keeps R a b \<Longrightarrow> keeps R b c \<Longrightarrow> keeps R a c"
  by (simp add: keeps_def)

locale object_db =
  fixes R :: "'r Repository"
  assumes write_blob: "WriteBlob R r d = Inr (i, r') \<Longrightarrow> ReadBlob R r' i = Inr d \<and> keeps R r r'"
    and write_tree: "WriteTree R r es = Inr (i, r') \<Longrightarrow>
      ReadTree R r' i = Inr (SortTreeEntries es) \<and> keeps R r r'"
    and write_commit: "repo_CreateCommit R r spec = Inr (i, r') \<Longrightarrow>
      ReadCommit R r' i = Inr \<lparr>c_Tree = cs_Tree spec, c_Parents = cs_Parents spec, c_Message = cs_Message spec\<rparr> \<and>
      keeps R r r'"
    and import_keeps: "repo_ImportPack R r data = Inr r' \<Longrightarrow> keeps R r r'"
    and shallow_keeps: "MarkShallow R r i = Inr r' \<Longrightarrow> keeps R r r'"
    and merge_keeps: "MergeTrees R r base local remote = Inr (mi, r') \<Longrightarrow> keeps R r r'"

lemma mset_insert_stable [simp]: "mset (insert_stable lt x xs) = add_mset x (mset xs)"
  by (induction xs) auto

lemma mset_SortTreeEntries [simp]: "mset (SortTreeEntries es) = mset es"
  unfolding SortTreeEntries_def by (induction es) simp_all

lemma mapR_mset:
  assumes "mapR f xs = Inr ys" "mset xs = mset xs'"
  shows "\<exists>ys'. mapR f xs' = Inr ys' \<and> mset ys' = mset ys"
proof -
  have all: "\<And>x. x \<in> set xs \<Longrightarrow> f x = Inr (projr (f x))"
    using mapR_Inr_all2 [OF assms(1)] by (auto simp: list_all2_conv_all_nth in_set_conv_nth)
  then have "ys = map (projr \<circ> f) xs" using mapR_all_Inr [of xs f "projr \<circ> f"] assms(1) by simp
  moreover have "mapR f xs' = Inr (map (projr \<circ> f) xs')"
    using all mset_eq_setD [OF assms(2)] by (intro mapR_all_Inr) simp
  ultimately show ?thesis using assms(2) by (metis mset_map)
qed

lemma mset_concat_eq: "mset xss = mset yss \<Longrightarrow> mset (concat xss) = mset (concat yss)"
  by (metis mset_concat mset_map sum_mset_sum_list)

definition place :: "bytes \<Rightarrow> File \<Rightarrow> File" where
  "place pre f = \<lparr>f_Path = pre @ f_Path f, f_Data = f_Data f\<rparr>"

definition slashes :: "File \<Rightarrow> nat" where
  "slashes f = count_list (f_Path f) (CHR ''/'')"

lemma strip_place:
  assumes "\<And>f. f \<in> set ms \<Longrightarrow> HasPrefix (f_Path f) pre"
  shows "map (place p) ms = map (place (p @ pre)) (strip_files pre ms)"
  using assms by (auto simp: strip_files_def place_def HasPrefix_def) (metis append_take_drop_id)

lemma strip_slashes:
  assumes "\<And>f. f \<in> set ms \<Longrightarrow> HasPrefix (f_Path f) (seg @ ''/'')" "\<And>f. f \<in> set ms \<Longrightarrow> slashes f \<le> n"
    "g \<in> set (strip_files (seg @ ''/'') ms)"
  shows "slashes g < n"
proof -
  obtain f where f: "f \<in> set ms" "f_Path g = drop (length (seg @ ''/'')) (f_Path f)"
    using assms(3) by (auto simp: strip_files_def)
  then have "f_Path f = (seg @ ''/'') @ f_Path g"
    using assms(1) [OF f(1)] by (auto simp: HasPrefix_iff prefix_def)
  then have "slashes f \<ge> Suc (slashes g)" by (simp add: slashes_def)
  then show ?thesis using assms(2) [OF f(1)] by simp
qed

lemma dir_members_HasPrefix: "g \<in> set (dir_members pre fs) \<Longrightarrow> HasPrefix (f_Path g) pre"
  unfolding dir_members_def by (meson set_takeWhileD)

lemma dir_members_split: "dir_members pre fs @ drop (length (dir_members pre fs)) fs = fs"
  unfolding dir_members_def by (metis append_eq_conv_conj takeWhile_dropWhile_id)

definition reads_as :: "'r Repository \<Rightarrow> 'r \<Rightarrow> oid \<Rightarrow> Snapshot \<Rightarrow> bool" where
  "reads_as R r i fs \<longleftrightarrow>
     (\<forall>r' n pre. keeps R r r' \<longrightarrow> (\<forall>f \<in> set fs. slashes f < n) \<longrightarrow> 0 < n \<longrightarrow>
        (\<exists>out. walkTree R r' n i pre = Inr out \<and> mset out = mset (map (place pre) fs)))"

definition entries_read_as :: "'r Repository \<Rightarrow> 'r \<Rightarrow> TreeEntry list \<Rightarrow> Snapshot \<Rightarrow> bool" where
  "entries_read_as R r es fs \<longleftrightarrow>
     (\<forall>r' n pre. keeps R r r' \<longrightarrow> (\<forall>f \<in> set fs. slashes f \<le> n) \<longrightarrow>
        (\<exists>fss. mapR (walkEntry (walkTree R r' n) R r' pre) es = Inr fss \<and>
           mset (concat fss) = mset (map (place pre) fs)))"

lemma entries_read_asE:
  assumes "entries_read_as R r es fs" "keeps R r r'" "\<And>f. f \<in> set fs \<Longrightarrow> slashes f \<le> n"
  obtains fss where "mapR (walkEntry (walkTree R r' n) R r' pre) es = Inr fss"
    "mset (concat fss) = mset (map (place pre) fs)"
  using assms unfolding entries_read_as_def by blast

lemma modes_differ [simp]: "ModeBlob \<noteq> ModeTree" "ModeTree \<noteq> ModeBlob"
  by (simp_all add: ModeBlob_def ModeTree_def)

context object_db
begin

lemma entries_file:
  assumes "ReadBlob R r i = Inr (f_Data f)" "CHR ''/'' \<notin> set (f_Path f)" "keeps R r r''" "entries_read_as R r'' es fs"
  shows "entries_read_as R r'' (\<lparr>te_Name = f_Path f, te_Mode = ModeBlob, te_ID = i\<rparr> # es) (f # fs)"
  unfolding entries_read_as_def
proof (intro allI impI)
  fix r' n pre assume k: "keeps R r'' r'" and d: "\<forall>g \<in> set (f # fs). slashes g \<le> n"
  then obtain fss where fss: "mapR (walkEntry (walkTree R r' n) R r' pre) es = Inr fss"
    "mset (concat fss) = mset (map (place pre) fs)"
    using entries_read_asE [OF assms(4) k, of n pre] by auto
  have "ReadBlob R r' i = Inr (f_Data f)" using assms(1) keeps_trans [OF assms(3) k] by (simp add: keeps_def)
  then show "\<exists>fss. mapR (walkEntry (walkTree R r' n) R r' pre)
      (\<lparr>te_Name = f_Path f, te_Mode = ModeBlob, te_ID = i\<rparr> # es) = Inr fss \<and>
      mset (concat fss) = mset (map (place pre) (f # fs))"
    using fss by (simp add: walkEntry_def unreadable_def place_def)
qed

lemma entries_dir:
  assumes "reads_as R r i (strip_files (seg @ ''/'') ms)" "keeps R r r''" "entries_read_as R r'' es fs"
    "\<And>g. g \<in> set ms \<Longrightarrow> HasPrefix (f_Path g) (seg @ ''/'')" "ms \<noteq> []"
  shows "entries_read_as R r'' (\<lparr>te_Name = seg, te_Mode = ModeTree, te_ID = i\<rparr> # es) (ms @ fs)"
  unfolding entries_read_as_def
proof (intro allI impI)
  fix r' n pre assume k: "keeps R r'' r'" and d: "\<forall>g \<in> set (ms @ fs). slashes g \<le> n"
  then obtain fss where fss: "mapR (walkEntry (walkTree R r' n) R r' pre) es = Inr fss"
    "mset (concat fss) = mset (map (place pre) fs)"
    using entries_read_asE [OF assms(3) k, of n pre] by auto
  have less: "\<forall>g \<in> set (strip_files (seg @ ''/'') ms). slashes g < n"
    using strip_slashes [OF assms(4)] d by simp
  moreover have "0 < n" using less assms(5) by (cases ms) (auto simp: strip_files_def)
  ultimately obtain out where out: "walkTree R r' n i (pre @ seg @ ''/'') = Inr out"
    "mset out = mset (map (place (pre @ seg @ ''/'')) (strip_files (seg @ ''/'') ms))"
    using assms(1) keeps_trans [OF assms(2) k] unfolding reads_as_def by blast
  then show "\<exists>fss. mapR (walkEntry (walkTree R r' n) R r' pre)
      (\<lparr>te_Name = seg, te_Mode = ModeTree, te_ID = i\<rparr> # es) = Inr fss \<and>
      mset (concat fss) = mset (map (place pre) (ms @ fs))"
    using fss strip_place [of ms "seg @ ''/''" pre] assms(4) by (simp add: walkEntry_def)
qed

lemma tree_of_entries:
  assumes "entries_read_as R r es fs" "WriteTree R r (SortTreeEntries es) = Inr (i, r')"
  shows "reads_as R r' i fs"
  unfolding reads_as_def
proof (intro allI impI)
  fix r'' n pre assume k: "keeps R r' r''" and d: "\<forall>f \<in> set fs. slashes f < n" and "0 < n"
  then obtain m where n: "n = Suc m" by (cases n) auto
  have w: "ReadTree R r' i = Inr (SortTreeEntries (SortTreeEntries es))" "keeps R r r'"
    using write_tree [OF assms(2)] by simp_all
  have rd: "ReadTree R r'' i = Inr (SortTreeEntries (SortTreeEntries es))"
    using w(1) k by (simp add: keeps_def)
  obtain fss where fss: "mapR (walkEntry (walkTree R r'' m) R r'' pre) es = Inr fss"
    "mset (concat fss) = mset (map (place pre) fs)"
    using assms(1) keeps_trans [OF w(2) k] d unfolding entries_read_as_def n by (metis less_Suc_eq_le)
  obtain gss where gss: "mapR (walkEntry (walkTree R r'' m) R r'' pre) (SortTreeEntries (SortTreeEntries es)) = Inr gss"
    "mset gss = mset fss"
    using mapR_mset [OF fss(1), of "SortTreeEntries (SortTreeEntries es)"] by auto
  have "mset (concat gss) = mset (map (place pre) fs)" using mset_concat_eq [OF gss(2)] fss(2) by simp
  then show "\<exists>out. walkTree R r'' n i pre = Inr out \<and> mset out = mset (map (place pre) fs)"
    using gss(1) rd by (simp add: n unreadable_def)
qed

lemma build_reads:
  "buildTree R' r files = Inr (i, r') \<Longrightarrow> R' = R \<Longrightarrow> keeps R r r' \<and> reads_as R r' i files"
  "buildEntries R' r files = Inr (es, r') \<Longrightarrow> R' = R \<Longrightarrow> keeps R r r' \<and> entries_read_as R r' es files"
proof (induction R' r files and R' r files arbitrary: i r' and es r' rule: buildTree_buildEntries.induct)
  case (1 R' r files)
  from 1(2) obtain es r1 where e: "buildEntries R' r files = Inr (es, r1)"
    and w: "WriteTree R' r1 (SortTreeEntries es) = Inr (i, r')"
    by (auto simp: buildTree.simps bindR_eq_Inr)
  have k: "keeps R r r1" and rd: "entries_read_as R r1 es files" using 1(1) [OF e 1(3)] by simp_all
  have w': "WriteTree R r1 (SortTreeEntries es) = Inr (i, r')" using w 1(3) by simp
  show ?case
    using tree_of_entries [OF rd w'] keeps_trans [OF k] write_tree [OF w'] by blast
next
  case (2 R' r)
  then show ?case by (simp add: buildEntries.simps entries_read_as_def)
next
  case (3 R' r f fs)
  note R = 3(5)
  show ?case
  proof (cases "CHR ''/'' \<in> set (f_Path f)")
    case False
    from 3(4) False obtain i r1 es1 where b: "WriteBlob R r (f_Data f) = Inr (i, r1)"
      and e: "buildEntries R r1 fs = Inr (es1, r')"
      and es: "es = \<lparr>te_Name = f_Path f, te_Mode = ModeBlob, te_ID = i\<rparr> # es1"
      by (auto simp: buildEntries.simps(2) bindR_eq_Inr R)
    have "keeps R r1 r' \<and> entries_read_as R r' es1 fs" using 3(1) False e R by simp
    then show ?thesis
      using write_blob [OF b] entries_file [of r1 i f r' es1 fs] False keeps_trans [of R r r1 r'] by (simp add: es)
  next
    case True
    define seg where "seg = dir_segment (f_Path f)"
    define ms where "ms = dir_members (seg @ ''/'') (f # fs)"
    have ne: "ms \<noteq> []"
      using dir_segment_prefix [OF True] by (simp add: ms_def seg_def dir_members_def)
    from 3(4) True obtain i r1 es1 where b: "buildTree R r (strip_files (seg @ ''/'') ms) = Inr (i, r1)"
      and e: "buildEntries R r1 (drop (length ms) (f # fs)) = Inr (es1, r')"
      and es: "es = \<lparr>te_Name = seg, te_Mode = ModeTree, te_ID = i\<rparr> # es1"
      by (auto simp: buildEntries.simps(2) bindR_eq_Inr Let_def R seg_def ms_def)
    have t: "keeps R r r1 \<and> reads_as R r1 i (strip_files (seg @ ''/'') ms)"
      using 3(2) [OF _ seg_def refl ms_def] True b R by simp
    have "keeps R r1 r' \<and> entries_read_as R r' es1 (drop (length ms) (f # fs))"
      using 3(3) [OF _ seg_def refl ms_def] True e R by simp
    then show ?thesis
      using t keeps_trans [of R r r1 r'] ne dir_members_split [of "seg @ ''/''" "f # fs"]
        entries_dir [of r1 i seg ms r' es1 "drop (length ms) (f # fs)"] dir_members_HasPrefix
      by (simp add: es ms_def [symmetric]) (metis ms_def)
  qed
qed

text \<open>A built tree reads back as the snapshot it was built from, sorted by path.\<close>

lemma ReadSnapshot_BuildTree:
  assumes "BuildTree tx R r snap = Inr (tree, r')" "keeps R r' r''"
    "\<And>f. f \<in> set snap \<Longrightarrow> slashes f < depth" "0 < depth"
  shows "ReadSnapshot tx R r'' depth tree = Inr (sort_key f_Path snap)"
proof -
  from assms(1) have valid: "valid_snapshot tx snap"
    and b: "buildTree R r (sort_key f_Path snap) = Inr (tree, r')"
    by (auto simp: BuildTree_def bindR_eq_Inr ValidateSnapshot_iff)
  have "reads_as R r' tree (sort_key f_Path snap)" using build_reads(1) [OF b] by simp
  then obtain out where out: "walkTree R r'' depth tree [] = Inr out"
    "mset out = mset (map (place []) (sort_key f_Path snap))"
    using assms(2-4) unfolding reads_as_def by (metis set_sort)
  have "map (place []) fs = fs" for fs :: Snapshot by (simp add: place_def map_idI)
  with out(2) have m: "mset out = mset snap" by simp
  then have "distinct (map f_Path out)"
    using valid_snapshot_distinct_paths [OF valid] by (metis mset_eq_imp_distinct_iff mset_map)
  then have eq: "sort_key f_Path out = sort_key f_Path snap"
    using m by (rule sort_key_unique)
  have "ValidateSnapshot tx (sort_key f_Path snap) = Inr ()" using valid by (simp add: ValidateSnapshot_iff)
  then show ?thesis using out(1) by (simp add: ReadSnapshot_def Let_def eq)
qed

end

section \<open>An in-memory object database\<close>

datatype gobject = GBlob bytes | GTree "TreeEntry list" | GCommit Commit

text \<open>
  A deduplicating in-memory store: an object's ID is its position, in unary. It satisfies the
  contract, so the contract can hold.
\<close>

definition mem_get :: "gobject list \<Rightarrow> oid \<Rightarrow> gobject option" where
  "mem_get st i = (if length i < length st then Some (st ! length i) else None)"

fun mem_index :: "gobject \<Rightarrow> gobject list \<Rightarrow> nat" where
  "mem_index x [] = 0"
| "mem_index x (y # ys) = (if x = y then 0 else Suc (mem_index x ys))"

definition mem_put :: "gobject list \<Rightarrow> gobject \<Rightarrow> oid \<times> gobject list" where
  "mem_put st x = (replicate (mem_index x st) 1, if x \<in> set st then st else st @ [x])"

definition mem_repository :: "gobject list Repository" where
  "mem_repository = \<lparr>
     WriteBlob = (\<lambda>st d. Inr (mem_put st (GBlob d))),
     ReadBlob = (\<lambda>st i. case mem_get st i of Some (GBlob d) \<Rightarrow> Inr d | _ \<Rightarrow> Inl ErrObjectMissing),
     HasObject = (\<lambda>st i. Inr (mem_get st i \<noteq> None)),
     ReadCommit = (\<lambda>st i. case mem_get st i of Some (GCommit c) \<Rightarrow> Inr c | _ \<Rightarrow> Inl ErrObjectMissing),
     ReadTree = (\<lambda>st i. case mem_get st i of Some (GTree es) \<Rightarrow> Inr es | _ \<Rightarrow> Inl ErrObjectMissing),
     WriteTree = (\<lambda>st es. bindR (CheckUniqueNames es) (\<lambda>_. Inr (mem_put st (GTree (SortTreeEntries es))))),
     repo_CreateCommit = (\<lambda>st spec. Inr (mem_put st
       (GCommit \<lparr>c_Tree = cs_Tree spec, c_Parents = cs_Parents spec, c_Message = cs_Message spec\<rparr>))),
     MergeTrees = (\<lambda>st base local remote. Inl NativeError),
     MergeFile = (\<lambda>base local remote. Inl NativeError),
     WritePack = (\<lambda>st ids. Inr (concat (map OID_String ids), length ids)),
     repo_ImportPack = (\<lambda>st data. Inr st),
     MarkShallow = (\<lambda>st i. Inr st)\<rparr>"

lemma mem_index_nth: "x \<in> set st \<Longrightarrow> mem_index x st < length st \<and> st ! mem_index x st = x"
  by (induction st) auto

lemma mem_index_fresh: "x \<notin> set st \<Longrightarrow> mem_index x st = length st"
  by (induction st) auto

lemma mem_put_get: "mem_put st x = (i, st') \<Longrightarrow> mem_get st' i = Some x"
  using mem_index_nth [of x st] mem_index_fresh [of x st]
  by (auto simp: mem_put_def mem_get_def split: if_splits)

lemma mem_put_keeps_get: "mem_put st x = (i, st') \<Longrightarrow> mem_get st j = Some y \<Longrightarrow> mem_get st' j = Some y"
  by (auto simp: mem_put_def mem_get_def nth_append split: if_splits)

lemma mem_put_keeps: "mem_put st x = (i, st') \<Longrightarrow> keeps mem_repository st st'"
  using mem_put_keeps_get [of st x i st']
  by (fastforce simp: keeps_def mem_repository_def split: option.splits gobject.splits)

interpretation memdb: object_db mem_repository
proof
  show "ReadBlob mem_repository r' i = Inr d \<and> keeps mem_repository r r'"
    if "WriteBlob mem_repository r d = Inr (i, r')" for r d i r'
    using that mem_put_get [of r "GBlob d" i r'] mem_put_keeps [of r "GBlob d" i r'] by (simp add: mem_repository_def)
  show "ReadTree mem_repository r' i = Inr (SortTreeEntries es) \<and> keeps mem_repository r r'"
    if "WriteTree mem_repository r es = Inr (i, r')" for r es i r'
  proof -
    have "mem_put r (GTree (SortTreeEntries es)) = (i, r')"
      using that by (auto simp: mem_repository_def bindR_eq_Inr)
    then show ?thesis using mem_put_get mem_put_keeps by (simp add: mem_repository_def)
  qed
  show "ReadCommit mem_repository r' i =
      Inr \<lparr>c_Tree = cs_Tree spec, c_Parents = cs_Parents spec, c_Message = cs_Message spec\<rparr> \<and>
      keeps mem_repository r r'" if "repo_CreateCommit mem_repository r spec = Inr (i, r')" for r spec i r'
  proof -
    have "mem_put r (GCommit \<lparr>c_Tree = cs_Tree spec, c_Parents = cs_Parents spec, c_Message = cs_Message spec\<rparr>) = (i, r')"
      using that by (simp add: mem_repository_def)
    then show ?thesis using mem_put_get mem_put_keeps by (simp add: mem_repository_def)
  qed
qed (simp_all add: mem_repository_def)

section \<open>Tree order\<close>

text \<open>
  On names a valid path can have, Git tree order is the byte order of the names with a slash
  appended to directories.
\<close>

definition tree_key :: "TreeEntry \<Rightarrow> bytes" where
  "tree_key e = te_Name e @ (if te_Mode e = ModeTree then ''/'' else [])"

definition plain_name :: "bytes \<Rightarrow> bool" where
  "plain_name n \<longleftrightarrow> CHR ''/'' \<notin> set n \<and> CHR 0x00 \<notin> set n"

lemma lex_append: "(p @ x < p @ y) \<longleftrightarrow> x < (y :: bytes)"
  by (induction p) auto

lemma char_nul_least: "\<not> c < CHR 0x00" "CHR 0x00 < c \<longleftrightarrow> c \<noteq> CHR 0x00"
proof -
  have z: "(of_char c :: nat) = 0 \<longleftrightarrow> c = CHR 0x00"
    using of_char_eq_iff [of c "CHR 0x00", where ?'a = nat] by simp
  show "\<not> c < CHR 0x00" "CHR 0x00 < c \<longleftrightarrow> c \<noteq> CHR 0x00"
    using z by (auto simp: less_char_def)
qed

lemma lex_append_differ: "length x = length y \<Longrightarrow> x \<noteq> y \<Longrightarrow> x @ u < y @ v \<longleftrightarrow> x < (y :: bytes)"
  by (induction x y rule: list_induct2) auto

lemma treeEntryLess_key:
  assumes "plain_name (te_Name a)" "plain_name (te_Name b)" "te_Name a \<noteq> te_Name b"
  shows "treeEntryLess a b \<longleftrightarrow> tree_key a < tree_key b"
proof -
  define n where "n = min (length (te_Name a)) (length (te_Name b))"
  define x where "x = take n (te_Name a)" define y where "y = take n (te_Name b)"
  have ka: "tree_key a = x @ drop n (te_Name a) @ (if te_Mode a = ModeTree then ''/'' else [])"
    and kb: "tree_key b = y @ drop n (te_Name b) @ (if te_Mode b = ModeTree then ''/'' else [])"
    by (simp_all add: tree_key_def x_def y_def)
  have len: "length x = length y" by (simp add: x_def y_def n_def)
  show ?thesis
  proof (cases "x = y")
    case False
    then have "x @ u < y @ v \<longleftrightarrow> x < y" for u v
      using len by (rule lex_append_differ [rotated])
    then show ?thesis using False unfolding treeEntryLess_def Let_def n_def [symmetric] x_def [symmetric] y_def [symmetric] ka kb
      by simp
  next
    case True
    have tail: "\<exists>c rest. drop n (te_Name e) = c # rest \<and> name_byte e n = c \<and> c \<noteq> CHR ''/'' \<and> c \<noteq> CHR 0x00"
      if "n < length (te_Name e)" "plain_name (te_Name e)" for e
      using that Cons_nth_drop_Suc [OF that(1)] nth_mem [OF that(1)] by (metis name_byte_def plain_name_def)
    have last: "drop n (te_Name e) = [] \<and> name_byte e n = (if te_Mode e = ModeTree then CHR ''/'' else CHR 0x00)"
      if "n = length (te_Name e)" for e using that by (simp add: name_byte_def)
    have low: "\<not> c < CHR 0x00" "CHR 0x00 < c \<longleftrightarrow> c \<noteq> CHR 0x00" for c :: char
      by (simp_all add: char_nul_least)
    have "length (te_Name a) \<noteq> length (te_Name b)"
      using assms(3) True by (auto simp: x_def y_def n_def)
    then have "length (te_Name a) < length (te_Name b) \<or> length (te_Name b) < length (te_Name a)" by linarith
    then consider "n = length (te_Name b)" "n < length (te_Name a)" | "n = length (te_Name a)" "n < length (te_Name b)"
      by (auto simp: n_def)
    then show ?thesis
    proof cases
      case 1
      obtain c rest where "drop n (te_Name a) = c # rest" "name_byte a n = c" "c \<noteq> CHR ''/''" "c \<noteq> CHR 0x00"
        using tail [OF 1(2) assms(1)] by blast
      then show ?thesis using True last [OF 1(1)] low
        unfolding treeEntryLess_def Let_def n_def [symmetric] x_def [symmetric] y_def [symmetric] ka kb
        by (simp add: lex_append)
    next
      case 2
      obtain c rest where "drop n (te_Name b) = c # rest" "name_byte b n = c" "c \<noteq> CHR ''/''" "c \<noteq> CHR 0x00"
        using tail [OF 2(2) assms(2)] by blast
      then show ?thesis using True last [OF 2(1)] low
        unfolding treeEntryLess_def Let_def n_def [symmetric] x_def [symmetric] y_def [symmetric] ka kb
        by (simp add: lex_append)
    qed
  qed
qed

section \<open>Properties\<close>

text \<open>C29: a tree built from a snapshot reads back, now and after any later writes, as that snapshot
  sorted by path; the directory depth of its longest path is enough for the walk.\<close>

theorem snapshot_tree_roundtrip:
  assumes "object_db R" "BuildTree tx R r snap = Inr (tree, r')" "keeps R r' r''"
    "\<forall>f \<in> set snap. slashes f < depth" "0 < depth"
  shows "ReadSnapshot tx R r'' depth tree = Inr (sort_key f_Path snap)"
  using object_db.ReadSnapshot_BuildTree [OF assms(1-3)] assms(4,5) by blast

theorem snapshot_tree_roundtrip_witness:
  "\<exists>tree st. BuildTree ascii_text mem_repository []
       [\<lparr>f_Path = ''b/c.md'', f_Data = ''two''\<rparr>, \<lparr>f_Path = ''a.md'', f_Data = ''one''\<rparr>] = Inr (tree, st) \<and>
     ReadSnapshot ascii_text mem_repository st 2 tree =
       Inr [\<lparr>f_Path = ''a.md'', f_Data = ''one''\<rparr>, \<lparr>f_Path = ''b/c.md'', f_Data = ''two''\<rparr>]"
proof -
  let ?snap = "[\<lparr>f_Path = ''b/c.md'', f_Data = ''two''\<rparr>, \<lparr>f_Path = ''a.md'', f_Data = ''one''\<rparr>]"
  have valid: "ValidateSnapshot ascii_text ?snap = Inr ()"
    unfolding ValidateSnapshot_iff valid_snapshot_def valid_file_def by (simp add: path_eval sample_segments)
  have sorted: "sort_key f_Path ?snap = [\<lparr>f_Path = ''a.md'', f_Data = ''one''\<rparr>, \<lparr>f_Path = ''b/c.md'', f_Data = ''two''\<rparr>]"
    by code_simp
  have "isOk (BuildTree ascii_text mem_repository [] ?snap)"
    unfolding BuildTree_def valid sorted
    by (simp add: buildTree.simps buildEntries.simps mem_repository_def mem_put_def dir_segment_def dir_members_def
        strip_files_def HasPrefix_def SortTreeEntries_def treeEntryLess_def name_byte_def CheckUniqueNames_def Let_def)
  then obtain tree st where b: "BuildTree ascii_text mem_repository [] ?snap = Inr (tree, st)"
    by (cases "BuildTree ascii_text mem_repository [] ?snap") auto
  have "ReadSnapshot ascii_text mem_repository st 2 tree = Inr (sort_key f_Path ?snap)"
    using snapshot_tree_roundtrip [OF memdb.object_db_axioms b keeps_refl, of 2] by (simp add: slashes_def)
  then show ?thesis using b sorted by auto
qed

text \<open>Git tree order is the byte order of entry names in which a directory's name carries a
  trailing slash.\<close>

theorem tree_order:
  assumes "plain_name (te_Name a)" "plain_name (te_Name b)" "te_Name a \<noteq> te_Name b"
  shows "treeEntryLess a b \<longleftrightarrow> tree_key a < tree_key b"
  using assms by (rule treeEntryLess_key)

theorem tree_order_witness:
  "treeEntryLess \<lparr>te_Name = ''a.b'', te_Mode = ModeBlob, te_ID = []\<rparr> \<lparr>te_Name = ''a'', te_Mode = ModeTree, te_ID = []\<rparr>"
proof -
  have "tree_key \<lparr>te_Name = ''a.b'', te_Mode = ModeBlob, te_ID = []\<rparr> < tree_key \<lparr>te_Name = ''a'', te_Mode = ModeTree, te_ID = []\<rparr>"
    by (simp add: tree_key_def)
  then show ?thesis
    using tree_order [of "\<lparr>te_Name = ''a.b'', te_Mode = ModeBlob, te_ID = []\<rparr>" "\<lparr>te_Name = ''a'', te_Mode = ModeTree, te_ID = []\<rparr>"]
    by (simp add: plain_name_def)
qed

end
