(* ===== verification/PackClosure.thy ===== *)
theory PackClosure
  imports GitTree
begin

text \<open>
  Object closures and packs of \<open>internal/git/pack.go\<close>. The walks are breadth-first loops over a queue
  with a seen set; a set of object IDs is a list without duplicates. Each loop takes fuel, one unit per
  dequeued ID, because a repository could name infinitely many objects; \<open>closure_fuel\<close> bounds the fuel
  for a finite one.
\<close>

section \<open>Closures\<close>

record Pack =
  pk_Data :: bytes
  pk_SHA256 :: sha256
  pk_ObjectCount :: nat

text \<open>One entry of a tree: a subtree joins the queue, a blob joins the set.\<close>

definition closure_entry :: "TreeEntry \<Rightarrow> oid list \<times> oid list \<Rightarrow> git_error + oid list \<times> oid list" where
  "closure_entry e = (\<lambda>(queue, acc).
     if te_Mode e = ModeTree then Inr (queue @ [te_ID e], acc)
     else if te_Mode e = ModeBlob then Inr (queue, List.insert (te_ID e) acc)
     else Inl (UnsupportedModeError (te_Name e) (te_Mode e)))"

fun closure_loop :: "'r Repository \<Rightarrow> 'r \<Rightarrow> nat \<Rightarrow> oid list \<Rightarrow> oid list \<Rightarrow> oid list \<Rightarrow> git_error + oid list" where
  "closure_loop R r fuel [] visited acc = Inr acc"
| "closure_loop R r 0 (i # queue) visited acc = Inl WalkTooDeep"
| "closure_loop R r (Suc fuel) (i # queue) visited acc =
     (if i \<in> set visited then closure_loop R r fuel queue visited acc
      else bindR (unreadable (ReadTree R r i)) (\<lambda>entries.
        bindR (foldR closure_entry entries (queue, List.insert i acc)) (\<lambda>(queue', acc').
        closure_loop R r fuel queue' (i # visited) acc')))"

definition treeClosure :: "'r Repository \<Rightarrow> 'r \<Rightarrow> nat \<Rightarrow> oid \<Rightarrow> oid list \<Rightarrow> git_error + oid list" where
  "treeClosure R r fuel tree acc = closure_loop R r fuel [tree] [] acc"

fun reach_loop ::
  "'r Repository \<Rightarrow> 'r \<Rightarrow> nat \<Rightarrow> bool \<Rightarrow> nat \<Rightarrow> oid list \<Rightarrow> oid list \<Rightarrow> oid list \<Rightarrow> git_error + oid list" where
  "reach_loop R r tf includeParents fuel [] visited acc = Inr acc"
| "reach_loop R r tf includeParents 0 (i # queue) visited acc = Inl WalkTooDeep"
| "reach_loop R r tf includeParents (Suc fuel) (i # queue) visited acc =
     (if i \<in> set visited then reach_loop R r tf includeParents fuel queue visited acc
      else bindR (unreadable (ReadCommit R r i)) (\<lambda>commit.
        bindR (treeClosure R r tf (c_Tree commit) (List.insert i acc)) (\<lambda>acc'.
        reach_loop R r tf includeParents fuel
          (if includeParents then queue @ c_Parents commit else queue) (i # visited) acc')))"

definition reachableFromCommit :: "'r Repository \<Rightarrow> 'r \<Rightarrow> nat \<Rightarrow> oid \<Rightarrow> bool \<Rightarrow> git_error + oid list" where
  "reachableFromCommit R r fuel head includeParents = reach_loop R r fuel includeParents fuel [head] [] []"

definition sortedSet :: "oid list \<Rightarrow> oid list" where
  "sortedSet xs = sort xs"

section \<open>Packs\<close>

definition writePack :: "(bytes \<Rightarrow> sha256) \<Rightarrow> 'r Repository \<Rightarrow> 'r \<Rightarrow> oid list \<Rightarrow> git_error + Pack" where
  "writePack sha R r objects =
     bindR (WritePack R r (sort objects)) (\<lambda>(data, count).
     Inr \<lparr>pk_Data = data, pk_SHA256 = sha data, pk_ObjectCount = count\<rparr>)"

definition ExportIncrement :: "(bytes \<Rightarrow> sha256) \<Rightarrow> 'r Repository \<Rightarrow> 'r \<Rightarrow> nat \<Rightarrow> oid \<Rightarrow> oid \<Rightarrow> git_error + Pack" where
  "ExportIncrement sha R r fuel head base =
     bindR (reachableFromCommit R r fuel head True) (\<lambda>headSet.
     bindR (reachableFromCommit R r fuel base True) (\<lambda>baseSet.
     let objects = filter (\<lambda>i. i \<notin> set baseSet) headSet in
     if objects = [] then Inl ErrNoNewObjects else writePack sha R r objects))"

definition ExportCheckpoint :: "(bytes \<Rightarrow> sha256) \<Rightarrow> 'r Repository \<Rightarrow> 'r \<Rightarrow> nat \<Rightarrow> oid \<Rightarrow> git_error + Pack" where
  "ExportCheckpoint sha R r fuel head =
     bindR (unreadable (ReadCommit R r head)) (\<lambda>commit.
     bindR (treeClosure R r fuel (c_Tree commit) [head]) (\<lambda>objects.
     writePack sha R r (sortedSet objects)))"

definition ImportPack :: "'r Repository \<Rightarrow> 'r \<Rightarrow> bytes \<Rightarrow> git_error + 'r" where
  "ImportPack R r data = (if data = [] then Inl ErrEmptyPack else repo_ImportPack R r data)"

definition git_MarkShallow :: "'r Repository \<Rightarrow> 'r \<Rightarrow> oid \<Rightarrow> git_error + 'r" where
  "git_MarkShallow R r head = (if OID_IsZero head then Inl ErrHeadRequired else MarkShallow R r head)"

section \<open>Validating a history\<close>

text \<open>One entry of a validated tree: a subtree joins the queue; a blob not yet proven must be present.\<close>

definition validate_entry ::
  "'r Repository \<Rightarrow> 'r \<Rightarrow> TreeEntry \<Rightarrow> oid list \<times> oid list \<Rightarrow> git_error + oid list \<times> oid list" where
  "validate_entry R r e = (\<lambda>(queue, visited).
     if te_Mode e = ModeTree then Inr (queue @ [te_ID e], visited)
     else if te_Mode e = ModeBlob then
       (if te_ID e \<in> set visited then Inr (queue, visited)
        else bindR (unreadable (HasObject R r (te_ID e))) (\<lambda>present.
          if present then Inr (queue, te_ID e # visited) else Inl ErrObjectMissing))
     else Inl (UnsupportedModeError (te_Name e) (te_Mode e)))"

fun validate_loop :: "'r Repository \<Rightarrow> 'r \<Rightarrow> nat \<Rightarrow> oid list \<Rightarrow> oid list \<Rightarrow> git_error + oid list" where
  "validate_loop R r fuel [] visited = Inr visited"
| "validate_loop R r 0 (i # queue) visited = Inl WalkTooDeep"
| "validate_loop R r (Suc fuel) (i # queue) visited =
     (if i \<in> set visited then validate_loop R r fuel queue visited
      else bindR (unreadable (ReadTree R r i)) (\<lambda>entries.
        bindR (foldR (validate_entry R r) entries (queue, i # visited)) (\<lambda>(queue', visited').
        validate_loop R r fuel queue' visited')))"

definition treeClosureValidate :: "'r Repository \<Rightarrow> 'r \<Rightarrow> nat \<Rightarrow> oid \<Rightarrow> oid list \<Rightarrow> git_error + oid list" where
  "treeClosureValidate R r fuel tree visited = validate_loop R r fuel [tree] visited"

definition history_parent ::
  "'r Repository \<Rightarrow> 'r \<Rightarrow> oid \<Rightarrow> oid \<Rightarrow> oid \<Rightarrow> oid list \<Rightarrow> git_error + oid list" where
  "history_parent R r shallow i parent queue =
     (case ReadCommit R r parent of
        Inl _ \<Rightarrow> if i = shallow then Inr queue else Inl ErrObjectMissing
      | Inr _ \<Rightarrow> Inr (queue @ [parent]))"

fun history_loop :: "'r Repository \<Rightarrow> 'r \<Rightarrow> nat \<Rightarrow> oid \<Rightarrow> nat \<Rightarrow> oid list \<Rightarrow> oid list \<Rightarrow> git_error + oid list" where
  "history_loop R r tf shallow fuel [] visited = Inr visited"
| "history_loop R r tf shallow 0 (i # queue) visited = Inl WalkTooDeep"
| "history_loop R r tf shallow (Suc fuel) (i # queue) visited =
     (if i \<in> set visited then history_loop R r tf shallow fuel queue visited
      else bindR (unreadable (ReadCommit R r i)) (\<lambda>commit.
        bindR (treeClosureValidate R r tf (c_Tree commit) (i # visited)) (\<lambda>visited'.
        bindR (foldR (history_parent R r shallow i) (c_Parents commit) queue) (\<lambda>queue'.
        history_loop R r tf shallow fuel queue' visited'))))"

definition ValidateHistory :: "'r Repository \<Rightarrow> 'r \<Rightarrow> nat \<Rightarrow> oid \<Rightarrow> oid \<Rightarrow> git_error + unit" where
  "ValidateHistory R r fuel head shallow =
     bindR (history_loop R r fuel shallow fuel [head] []) (\<lambda>_. Inr ())"

section \<open>What the closures contain\<close>

inductive tree_reach :: "'r Repository \<Rightarrow> 'r \<Rightarrow> oid \<Rightarrow> oid \<Rightarrow> bool" for R r t where
  tree_root: "tree_reach R r t t"
| tree_sub: "tree_reach R r t a \<Longrightarrow> ReadTree R r a = Inr es \<Longrightarrow> e \<in> set es \<Longrightarrow> te_Mode e = ModeTree \<Longrightarrow> tree_reach R r t (te_ID e)"

definition entry_ids :: "nat \<Rightarrow> TreeEntry list \<Rightarrow> oid set" where
  "entry_ids mode es = te_ID ` {e \<in> set es. te_Mode e = mode}"

definition tree_blobs :: "'r Repository \<Rightarrow> 'r \<Rightarrow> oid \<Rightarrow> oid set" where
  "tree_blobs R r t = (case ReadTree R r t of Inl _ \<Rightarrow> {} | Inr es \<Rightarrow> entry_ids ModeBlob es)"

definition tree_subs :: "'r Repository \<Rightarrow> 'r \<Rightarrow> oid \<Rightarrow> oid set" where
  "tree_subs R r t = (case ReadTree R r t of Inl _ \<Rightarrow> {} | Inr es \<Rightarrow> entry_ids ModeTree es)"

definition tree_objects :: "'r Repository \<Rightarrow> 'r \<Rightarrow> oid \<Rightarrow> oid set" where
  "tree_objects R r t = {x. tree_reach R r t x} \<union> (\<Union>a \<in> {a. tree_reach R r t a}. tree_blobs R r a)"

lemma unreadable_Inr [simp]: "unreadable res = Inr x \<longleftrightarrow> res = Inr x"
  by (simp add: unreadable_def)

lemma entry_ids_simps [simp]: "entry_ids m [] = {}"
  "entry_ids m (e # es) = (if te_Mode e = m then {te_ID e} else {}) \<union> entry_ids m es"
  by (auto simp: entry_ids_def)

lemma closure_entries:
  "foldR closure_entry es (q, A) = Inr (q', A') \<Longrightarrow> set q' = set q \<union> entry_ids ModeTree es \<and> set A' = set A \<union> entry_ids ModeBlob es"
proof (induction es arbitrary: q A)
  case (Cons e es)
  obtain q1 A1 where c: "closure_entry e (q, A) = Inr (q1, A1)" and f: "foldR closure_entry es (q1, A1) = Inr (q', A')"
    using Cons.prems by (auto simp: bindR_eq_Inr)
  show ?case using Cons.IH [OF f] c by (auto simp: closure_entry_def split: if_splits)
qed simp

lemma tree_reach_sub: "tree_reach R r t a \<Longrightarrow> x \<in> tree_subs R r a \<Longrightarrow> tree_reach R r t x"
  by (auto simp: tree_subs_def entry_ids_def split: sum.splits intro: tree_sub)

lemma closure_step:
  assumes "closure_loop R r (Suc n) (i # q) V A = Inr out" "i \<notin> set V"
  obtains es q' A' where "foldR closure_entry es (q, List.insert i A) = Inr (q', A')"
    "set q' = set q \<union> tree_subs R r i" "set A' = insert i (set A) \<union> tree_blobs R r i"
    "closure_loop R r n q' (i # V) A' = Inr out"
proof -
  from assms obtain es q' A' where rd: "ReadTree R r i = Inr es"
    and f: "foldR closure_entry es (q, List.insert i A) = Inr (q', A')" and l: "closure_loop R r n q' (i # V) A' = Inr out"
    by (auto simp: bindR_eq_Inr)
  show ?thesis using that [OF f _ _ l] closure_entries [OF f] rd by (simp add: tree_subs_def tree_blobs_def)
qed

lemma closure_sound:
  "closure_loop R r n q V A = Inr out \<Longrightarrow> (\<And>i. i \<in> set q \<Longrightarrow> tree_reach R r t i) \<Longrightarrow> set out \<subseteq> set A \<union> tree_objects R r t"
proof (induction n arbitrary: q V A)
  case 0
  then show ?case by (cases q) auto
next
  case (Suc n)
  show ?case
  proof (cases q)
    case (Cons i q1)
    show ?thesis
    proof (cases "i \<in> set V")
      case True
      then show ?thesis using Suc Cons by simp
    next
      case False
      have l: "closure_loop R r (Suc n) (i # q1) V A = Inr out" using Suc.prems(1) Cons by simp
      obtain es q' A' where f: "foldR closure_entry es (q1, List.insert i A) = Inr (q', A')"
        and st: "set q' = set q1 \<union> tree_subs R r i" "set A' = insert i (set A) \<union> tree_blobs R r i"
        "closure_loop R r n q' (i # V) A' = Inr out" by (rule closure_step [OF l False])
      have i: "tree_reach R r t i" using Suc.prems(2) Cons by simp
      have "tree_reach R r t x" if "x \<in> set q'" for x
        using that st(1) Suc.prems(2) Cons tree_reach_sub [OF i] by auto
      then have "set out \<subseteq> set A' \<union> tree_objects R r t" using Suc.IH [OF st(3)] by blast
      then show ?thesis using st(2) i by (auto simp: tree_objects_def)
    qed
  qed (use Suc in simp)
qed

text \<open>Every visited tree is recorded with its blobs, and its subtrees are visited or queued.\<close>

definition closed :: "'r Repository \<Rightarrow> 'r \<Rightarrow> oid set \<Rightarrow> oid set \<Rightarrow> oid set \<Rightarrow> bool" where
  "closed R r V Q A \<longleftrightarrow> V \<subseteq> A \<and> (\<forall>v \<in> V. tree_subs R r v \<subseteq> V \<union> Q \<and> tree_blobs R r v \<subseteq> A)"

lemma closed_visit:
  assumes "closed R r (set V) (set (i # q)) (set A)" "set q' = set q \<union> tree_subs R r i" "set A' = insert i (set A) \<union> tree_blobs R r i"
  shows "closed R r (set (i # V)) (set q') (set A')"
  unfolding closed_def
proof (intro conjI ballI)
  show "set (i # V) \<subseteq> set A'" using assms(1,3) by (auto simp: closed_def)
  fix v assume "v \<in> set (i # V)"
  then consider "v = i" | "v \<in> set V" by auto
  then have "tree_subs R r v \<subseteq> set (i # V) \<union> set q' \<and> tree_blobs R r v \<subseteq> set A'"
  proof cases
    case 2
    then have "tree_subs R r v \<subseteq> set V \<union> set (i # q)" "tree_blobs R r v \<subseteq> set A" using assms(1) by (auto simp: closed_def)
    then show ?thesis using assms(2,3) by auto
  qed (use assms(2,3) in auto)
  then show "tree_subs R r v \<subseteq> set (i # V) \<union> set q'" "tree_blobs R r v \<subseteq> set A'" by auto
qed

lemma closure_complete:
  "closure_loop R r n q V A = Inr out \<Longrightarrow> closed R r (set V) (set q) (set A) \<Longrightarrow>
   \<exists>W. set V \<union> set q \<subseteq> W \<and> closed R r W {} (set out) \<and> set A \<subseteq> set out"
proof (induction n arbitrary: q V A)
  case 0
  then show ?case by (cases q) (auto intro: exI [of _ "set V"])
next
  case (Suc n)
  show ?case
  proof (cases q)
    case Nil
    then show ?thesis using Suc.prems by (auto intro: exI [of _ "set V"])
  next
    case (Cons i q1)
    show ?thesis
    proof (cases "i \<in> set V")
      case True
      then have cl: "closed R r (set V) (set q1) (set A)" using Suc.prems(2) Cons by (auto simp: closed_def)
      have "closure_loop R r n q1 V A = Inr out" using Suc.prems(1) True Cons by simp
      from Suc.IH [OF this cl] obtain W where "set V \<union> set q1 \<subseteq> W" "closed R r W {} (set out)" "set A \<subseteq> set out" by blast
      then show ?thesis using True Cons by (intro exI [of _ W]) auto
    next
      case False
      have l: "closure_loop R r (Suc n) (i # q1) V A = Inr out" using Suc.prems(1) Cons by simp
      obtain es q' A' where f: "foldR closure_entry es (q1, List.insert i A) = Inr (q', A')"
        and st: "set q' = set q1 \<union> tree_subs R r i" "set A' = insert i (set A) \<union> tree_blobs R r i"
        "closure_loop R r n q' (i # V) A' = Inr out" by (rule closure_step [OF l False])
      have "closed R r (set (i # V)) (set q') (set A')" using closed_visit [OF _ st(1,2)] Suc.prems(2) Cons by simp
      from Suc.IH [OF st(3) this] obtain W where "set (i # V) \<union> set q' \<subseteq> W" "closed R r W {} (set out)" "set A' \<subseteq> set out" by blast
      then show ?thesis using st(1,2) Cons by (intro exI [of _ W]) auto
    qed
  qed
qed

lemma closed_reach: "tree_reach R r t x \<Longrightarrow> closed R r W {} A \<Longrightarrow> t \<in> W \<Longrightarrow> x \<in> W"
proof (induction rule: tree_reach.induct)
  case (tree_sub a es e)
  then have "te_ID e \<in> tree_subs R r a" by (auto simp: tree_subs_def entry_ids_def)
  then show ?case using tree_sub by (auto simp: closed_def)
qed

lemma treeClosure_exact:
  assumes "treeClosure R r n t A = Inr out" shows "set out = set A \<union> tree_objects R r t"
proof -
  have l: "closure_loop R r n [t] [] A = Inr out" using assms by (simp add: treeClosure_def)
  have "set out \<subseteq> set A \<union> tree_objects R r t" using closure_sound [OF l] by (simp add: tree_root)
  moreover obtain W where W: "t \<in> W" "closed R r W {} (set out)" "set A \<subseteq> set out"
    using closure_complete [OF l] by (auto simp: closed_def)
  have "tree_objects R r t \<subseteq> set out"
    using closed_reach [OF _ W(2,1)] W(2) by (fastforce simp: tree_objects_def closed_def)
  ultimately show ?thesis using W(3) by blast
qed

section \<open>History\<close>

inductive commit_reach :: "'r Repository \<Rightarrow> 'r \<Rightarrow> oid \<Rightarrow> oid \<Rightarrow> bool" for R r h where
  commit_root: "commit_reach R r h h"
| commit_parent: "commit_reach R r h a \<Longrightarrow> ReadCommit R r a = Inr c \<Longrightarrow> p \<in> set (c_Parents c) \<Longrightarrow> commit_reach R r h p"

definition commit_objects :: "'r Repository \<Rightarrow> 'r \<Rightarrow> oid \<Rightarrow> oid set" where
  "commit_objects R r i = insert i (case ReadCommit R r i of Inl _ \<Rightarrow> {} | Inr c \<Rightarrow> tree_objects R r (c_Tree c))"

definition history_objects :: "'r Repository \<Rightarrow> 'r \<Rightarrow> oid \<Rightarrow> oid set" where
  "history_objects R r h = (\<Union>a \<in> {a. commit_reach R r h a}. commit_objects R r a)"

definition commit_parents :: "'r Repository \<Rightarrow> 'r \<Rightarrow> oid \<Rightarrow> oid set" where
  "commit_parents R r i = (case ReadCommit R r i of Inl _ \<Rightarrow> {} | Inr c \<Rightarrow> set (c_Parents c))"

definition hclosed :: "'r Repository \<Rightarrow> 'r \<Rightarrow> oid set \<Rightarrow> oid set \<Rightarrow> oid set \<Rightarrow> bool" where
  "hclosed R r V Q A \<longleftrightarrow> (\<forall>v \<in> V. commit_parents R r v \<subseteq> V \<union> Q \<and> commit_objects R r v \<subseteq> A)"

lemma reach_step:
  assumes "reach_loop R r tf True (Suc n) (i # q) V A = Inr out" "i \<notin> set V"
  obtains c A' where "ReadCommit R r i = Inr c" "treeClosure R r tf (c_Tree c) (List.insert i A) = Inr A'"
    "set A' = set A \<union> commit_objects R r i" "reach_loop R r tf True n (q @ c_Parents c) (i # V) A' = Inr out"
proof -
  from assms obtain c A' where c: "ReadCommit R r i = Inr c" and t: "treeClosure R r tf (c_Tree c) (List.insert i A) = Inr A'"
    and l: "reach_loop R r tf True n (q @ c_Parents c) (i # V) A' = Inr out"
    by (auto simp: bindR_eq_Inr)
  show ?thesis using that [OF c t _ l] treeClosure_exact [OF t] c by (simp add: commit_objects_def)
qed

lemma reach_sound:
  "reach_loop R r tf True n q V A = Inr out \<Longrightarrow> (\<And>i. i \<in> set q \<Longrightarrow> commit_reach R r h i) \<Longrightarrow>
   set out \<subseteq> set A \<union> history_objects R r h"
proof (induction n arbitrary: q V A)
  case 0
  then show ?case by (cases q) auto
next
  case (Suc n)
  show ?case
  proof (cases q)
    case (Cons i q1)
    show ?thesis
    proof (cases "i \<in> set V")
      case True
      then show ?thesis using Suc Cons by simp
    next
      case False
      have l: "reach_loop R r tf True (Suc n) (i # q1) V A = Inr out" using Suc.prems(1) Cons by simp
      obtain c A' where c: "ReadCommit R r i = Inr c" "set A' = set A \<union> commit_objects R r i"
        "reach_loop R r tf True n (q1 @ c_Parents c) (i # V) A' = Inr out"
        using reach_step [OF l False] by blast
      have i: "commit_reach R r h i" using Suc.prems(2) Cons by simp
      have "commit_reach R r h x" if "x \<in> set (q1 @ c_Parents c)" for x
        using that Suc.prems(2) Cons commit_parent [OF i c(1)] by auto
      then have "set out \<subseteq> set A' \<union> history_objects R r h" using Suc.IH [OF c(3)] by blast
      then show ?thesis using c(2) i by (auto simp: history_objects_def)
    qed
  qed (use Suc in simp)
qed

lemma reach_complete:
  "reach_loop R r tf True n q V A = Inr out \<Longrightarrow> hclosed R r (set V) (set q) (set A) \<Longrightarrow>
   \<exists>W. set V \<union> set q \<subseteq> W \<and> hclosed R r W {} (set out) \<and> set A \<subseteq> set out"
proof (induction n arbitrary: q V A)
  case 0
  then show ?case by (cases q) (auto intro: exI [of _ "set V"])
next
  case (Suc n)
  show ?case
  proof (cases q)
    case Nil
    then show ?thesis using Suc.prems by (auto intro: exI [of _ "set V"])
  next
    case (Cons i q1)
    show ?thesis
    proof (cases "i \<in> set V")
      case True
      then have cl: "hclosed R r (set V) (set q1) (set A)" using Suc.prems(2) Cons by (auto simp: hclosed_def)
      have "reach_loop R r tf True n q1 V A = Inr out" using Suc.prems(1) True Cons by simp
      from Suc.IH [OF this cl] obtain W where "set V \<union> set q1 \<subseteq> W" "hclosed R r W {} (set out)" "set A \<subseteq> set out" by blast
      then show ?thesis using True Cons by (intro exI [of _ W]) auto
    next
      case False
      have l: "reach_loop R r tf True (Suc n) (i # q1) V A = Inr out" using Suc.prems(1) Cons by simp
      obtain c A' where c: "ReadCommit R r i = Inr c" "set A' = set A \<union> commit_objects R r i"
        "reach_loop R r tf True n (q1 @ c_Parents c) (i # V) A' = Inr out"
        using reach_step [OF l False] by blast
      have "hclosed R r (set (i # V)) (set (q1 @ c_Parents c)) (set A')"
        unfolding hclosed_def
      proof (intro ballI)
        fix v assume "v \<in> set (i # V)"
        then consider "v = i" | "v \<in> set V" by auto
        then show "commit_parents R r v \<subseteq> set (i # V) \<union> set (q1 @ c_Parents c) \<and> commit_objects R r v \<subseteq> set A'"
        proof cases
          case 2
          then have "commit_parents R r v \<subseteq> set V \<union> set q" "commit_objects R r v \<subseteq> set A"
            using Suc.prems(2) by (auto simp: hclosed_def)
          then show ?thesis using Cons c(2) by auto
        qed (use c(1,2) in \<open>auto simp: commit_parents_def\<close>)
      qed
      then obtain W where "set (i # V) \<union> set (q1 @ c_Parents c) \<subseteq> W" "hclosed R r W {} (set out)" "set A' \<subseteq> set out"
        using Suc.IH [OF c(3)] by blast
      then show ?thesis using c(2) Cons by (intro exI [of _ W]) auto
    qed
  qed
qed

lemma reachableFromCommit_exact:
  assumes "reachableFromCommit R r n h True = Inr out" shows "set out = history_objects R r h"
proof -
  have l: "reach_loop R r n True n [h] [] [] = Inr out" using assms by (simp add: reachableFromCommit_def)
  have "set out \<subseteq> history_objects R r h" using reach_sound [OF l] by (simp add: commit_root)
  moreover obtain W where W: "h \<in> W" "hclosed R r W {} (set out)"
    using reach_complete [OF l] by (auto simp: hclosed_def)
  have "a \<in> W" if "commit_reach R r h a" for a
    using that
  proof induction
    case (commit_parent a c p)
    have "p \<in> commit_parents R r a" using commit_parent.hyps(2,3) by (simp add: commit_parents_def)
    then show ?case using W(2) commit_parent.IH unfolding hclosed_def by blast
  qed (rule W(1))
  then have "history_objects R r h \<subseteq> set out" using W(2) by (fastforce simp: history_objects_def hclosed_def)
  ultimately show ?thesis by blast
qed

section \<open>The walks end\<close>

definition tree_weight :: "'r Repository \<Rightarrow> 'r \<Rightarrow> oid \<Rightarrow> nat" where
  "tree_weight R r a = (case ReadTree R r a of Inl _ \<Rightarrow> 0 | Inr es \<Rightarrow> length es)"

text \<open>A finite set of readable trees of the two supported modes, closed under subtrees.\<close>

definition tree_space :: "'r Repository \<Rightarrow> 'r \<Rightarrow> oid set \<Rightarrow> bool" where
  "tree_space R r F \<longleftrightarrow> finite F \<and>
     (\<forall>a \<in> F. \<exists>es. ReadTree R r a = Inr es \<and> (\<forall>e \<in> set es. te_Mode e = ModeTree \<or> te_Mode e = ModeBlob) \<and> entry_ids ModeTree es \<subseteq> F)"

lemma closure_entries_ok:
  "(\<And>e. e \<in> set es \<Longrightarrow> te_Mode e = ModeTree \<or> te_Mode e = ModeBlob) \<Longrightarrow>
   \<exists>q' A'. foldR closure_entry es (q, A) = Inr (q', A') \<and> length q' \<le> length q + length es"
proof (induction es arbitrary: q A)
  case (Cons e es)
  obtain q1 A1 where c: "closure_entry e (q, A) = Inr (q1, A1)" "length q1 \<le> Suc (length q)"
    using Cons.prems [of e] by (auto simp: closure_entry_def)
  have "\<exists>q' A'. foldR closure_entry es (q1, A1) = Inr (q', A') \<and> length q' \<le> length q1 + length es"
    by (rule Cons.IH) (simp add: Cons.prems)
  then obtain q' A' where "foldR closure_entry es (q1, A1) = Inr (q', A')" "length q' \<le> length q1 + length es" by blast
  then show ?case using c by (intro exI [of _ q'] exI [of _ A']) simp
qed simp

lemma weight_drop:
  fixes w :: "'a \<Rightarrow> nat" assumes "finite F" "i \<in> F" "i \<notin> set V"
  shows "sum w (F - set V) = w i + sum w (F - set (i # V))"
proof -
  have "sum w (F - set V) = sum w (insert i (F - set (i # V)))" using assms(2,3) by (intro sum.cong) auto
  also have "\<dots> = w i + sum w (F - set (i # V))" using assms(1) by (intro sum.insert) auto
  finally show ?thesis .
qed

lemma closure_enough:
  assumes "tree_space R r F"
  shows "set q \<subseteq> F \<Longrightarrow> length q + sum (tree_weight R r) (F - set V) \<le> n \<Longrightarrow> \<exists>out. closure_loop R r n q V A = Inr out"
proof (induction n arbitrary: q V A)
  case (Suc n)
  show ?case
  proof (cases q)
    case (Cons i q1)
    show ?thesis
    proof (cases "i \<in> set V")
      case True
      then show ?thesis using Suc Cons by auto
    next
      case False
      obtain es where es: "ReadTree R r i = Inr es" "\<And>e. e \<in> set es \<Longrightarrow> te_Mode e = ModeTree \<or> te_Mode e = ModeBlob"
        "entry_ids ModeTree es \<subseteq> F" and fin: "finite F"
        using assms Suc.prems(1) Cons by (auto simp: tree_space_def)
      obtain q' A' where f: "foldR closure_entry es (q1, List.insert i A) = Inr (q', A')" "length q' \<le> length q1 + length es"
        using closure_entries_ok [of es q1 "List.insert i A"] es(2) by blast
      have "set q' \<subseteq> F" using closure_entries [OF f(1)] es(3) Suc.prems(1) Cons by auto
      moreover have "length q' + sum (tree_weight R r) (F - set (i # V)) \<le> n"
        using Suc.prems Cons f(2) es(1) weight_drop [OF fin, of i V "tree_weight R r"] False by (simp add: tree_weight_def)
      ultimately obtain out where "closure_loop R r n q' (i # V) A' = Inr out" using Suc.IH by blast
      then show ?thesis using Cons False es(1) f(1) by (simp add: unreadable_def)
    qed
  qed simp
qed simp

definition commit_weight :: "'r Repository \<Rightarrow> 'r \<Rightarrow> oid \<Rightarrow> nat" where
  "commit_weight R r a = (case ReadCommit R r a of Inl _ \<Rightarrow> 0 | Inr c \<Rightarrow> length (c_Parents c))"

definition commit_space :: "'r Repository \<Rightarrow> 'r \<Rightarrow> oid set \<Rightarrow> oid set \<Rightarrow> bool" where
  "commit_space R r C F \<longleftrightarrow> finite C \<and> tree_space R r F \<and>
     (\<forall>a \<in> C. \<exists>c. ReadCommit R r a = Inr c \<and> c_Tree c \<in> F \<and> set (c_Parents c) \<subseteq> C)"

lemma reach_enough:
  assumes "commit_space R r C F" "Suc (sum (tree_weight R r) F) \<le> tf"
  shows "set q \<subseteq> C \<Longrightarrow> length q + sum (commit_weight R r) (C - set V) \<le> n \<Longrightarrow> \<exists>out. reach_loop R r tf True n q V A = Inr out"
proof (induction n arbitrary: q V A)
  case (Suc n)
  show ?case
  proof (cases q)
    case (Cons i q1)
    show ?thesis
    proof (cases "i \<in> set V")
      case True
      then show ?thesis using Suc Cons by auto
    next
      case False
      obtain c where c: "ReadCommit R r i = Inr c" "c_Tree c \<in> F" "set (c_Parents c) \<subseteq> C" and fin: "finite C" "tree_space R r F"
        using assms(1) Suc.prems(1) Cons by (auto simp: commit_space_def)
      obtain A' where t: "treeClosure R r tf (c_Tree c) (List.insert i A) = Inr A'"
        using closure_enough [OF fin(2), of "[c_Tree c]" "[]" tf "List.insert i A"] c(2) assms(2) by (auto simp: treeClosure_def)
      have "set (q1 @ c_Parents c) \<subseteq> C" using c(3) Suc.prems(1) Cons by auto
      moreover have "length (q1 @ c_Parents c) + sum (commit_weight R r) (C - set (i # V)) \<le> n"
        using Suc.prems Cons c(1) weight_drop [OF fin(1), of i V "commit_weight R r"] False by (simp add: commit_weight_def)
      ultimately obtain out where "reach_loop R r tf True n (q1 @ c_Parents c) (i # V) A' = Inr out" using Suc.IH by blast
      then show ?thesis using Cons False c(1) t by (simp add: unreadable_def)
    qed
  qed simp
qed simp

definition closure_fuel :: "'r Repository \<Rightarrow> 'r \<Rightarrow> oid set \<Rightarrow> oid set \<Rightarrow> nat" where
  "closure_fuel R r C F = Suc (sum (commit_weight R r) C + sum (tree_weight R r) F)"

lemma reachable_returns:
  assumes "commit_space R r C F" "h \<in> C" "closure_fuel R r C F \<le> n"
  shows "\<exists>out. reachableFromCommit R r n h True = Inr out"
  using reach_enough [OF assms(1), of n "[h]" "[]" n "[]"] assms(2,3) by (simp add: reachableFromCommit_def closure_fuel_def)

section \<open>No object is packed twice\<close>

lemma closure_entries_distinct: "foldR closure_entry es (q, A) = Inr (q', A') \<Longrightarrow> distinct A \<Longrightarrow> distinct A'"
proof (induction es arbitrary: q A)
  case (Cons e es)
  obtain q1 A1 where c: "closure_entry e (q, A) = Inr (q1, A1)" and f: "foldR closure_entry es (q1, A1) = Inr (q', A')"
    using Cons.prems by (auto simp: bindR_eq_Inr)
  show ?case using Cons.IH [OF f] c Cons.prems(2) by (auto simp: closure_entry_def split: if_splits)
qed simp

lemma closure_distinct: "closure_loop R r n q V A = Inr out \<Longrightarrow> distinct A \<Longrightarrow> distinct out"
proof (induction n arbitrary: q V A)
  case 0
  then show ?case by (cases q) auto
next
  case (Suc n)
  show ?case
  proof (cases q)
    case (Cons i q1)
    show ?thesis
    proof (cases "i \<in> set V")
      case False
      have l: "closure_loop R r (Suc n) (i # q1) V A = Inr out" using Suc.prems(1) Cons by simp
      obtain es q' A' where f: "foldR closure_entry es (q1, List.insert i A) = Inr (q', A')"
        and st: "set q' = set q1 \<union> tree_subs R r i" "set A' = insert i (set A) \<union> tree_blobs R r i"
        "closure_loop R r n q' (i # V) A' = Inr out" by (rule closure_step [OF l False])
      show ?thesis using Suc.IH [OF st(3)] closure_entries_distinct [OF f] Suc.prems(2) by simp
    qed (use Suc Cons in simp)
  qed (use Suc in simp)
qed

lemma reach_distinct: "reach_loop R r tf True n q V A = Inr out \<Longrightarrow> distinct A \<Longrightarrow> distinct out"
proof (induction n arbitrary: q V A)
  case 0
  then show ?case by (cases q) auto
next
  case (Suc n)
  show ?case
  proof (cases q)
    case (Cons i q1)
    show ?thesis
    proof (cases "i \<in> set V")
      case False
      have l: "reach_loop R r tf True (Suc n) (i # q1) V A = Inr out" using Suc.prems(1) Cons by simp
      obtain c A' where "ReadCommit R r i = Inr c" and t: "treeClosure R r tf (c_Tree c) (List.insert i A) = Inr A'"
        and "set A' = set A \<union> commit_objects R r i" and c: "reach_loop R r tf True n (q1 @ c_Parents c) (i # V) A' = Inr out"
        by (rule reach_step [OF l False])
      show ?thesis using Suc.IH [OF c] closure_distinct [OF t [unfolded treeClosure_def]] Suc.prems(2) by simp
    qed (use Suc Cons in simp)
  qed (use Suc in simp)
qed

section \<open>A validated history is complete\<close>

datatype okind = OCommit | OTree | OBlob

text \<open>An ID names one object: tree entries, commits and parents agree about its kind.\<close>

definition kinds_agree :: "'r Repository \<Rightarrow> 'r \<Rightarrow> (oid \<Rightarrow> okind) \<Rightarrow> bool" where
  "kinds_agree R r k \<longleftrightarrow>
     (\<forall>a es. ReadTree R r a = Inr es \<longrightarrow> (\<forall>x \<in> entry_ids ModeTree es. k x = OTree) \<and> (\<forall>x \<in> entry_ids ModeBlob es. k x = OBlob)) \<and>
     (\<forall>a c. ReadCommit R r a = Inr c \<longrightarrow> k (c_Tree c) = OTree \<and> (\<forall>p \<in> set (c_Parents c). k p = OCommit))"

definition parents_ok :: "'r Repository \<Rightarrow> 'r \<Rightarrow> oid \<Rightarrow> oid \<Rightarrow> oid list \<Rightarrow> oid set \<Rightarrow> bool" where
  "parents_ok R r shallow v ps S \<longleftrightarrow>
     (\<forall>p \<in> set ps. case ReadCommit R r p of Inl _ \<Rightarrow> v = shallow | Inr _ \<Rightarrow> p \<in> S)"

definition proven :: "'r Repository \<Rightarrow> 'r \<Rightarrow> (oid \<Rightarrow> okind) \<Rightarrow> oid \<Rightarrow> oid set \<Rightarrow> oid set \<Rightarrow> oid \<Rightarrow> bool" where
  "proven R r k shallow TS CS v =
     (case k v of
        OBlob \<Rightarrow> HasObject R r v = Inr True
      | OTree \<Rightarrow> (\<exists>es. ReadTree R r v = Inr es \<and> entry_ids ModeTree es \<subseteq> TS \<and> entry_ids ModeBlob es \<subseteq> TS)
      | OCommit \<Rightarrow> (\<exists>c. ReadCommit R r v = Inr c \<and> c_Tree c \<in> TS \<and> parents_ok R r shallow v (c_Parents c) CS))"

lemma proven_mono: "proven R r k sh T C v \<Longrightarrow> T \<subseteq> T' \<Longrightarrow> C \<subseteq> C' \<Longrightarrow> proven R r k sh T' C' v"
  by (fastforce simp: proven_def parents_ok_def split: okind.splits sum.splits)

lemma validate_entries:
  "foldR (validate_entry R r) es (q, V) = Inr (q', V') \<Longrightarrow>
   set q' = set q \<union> entry_ids ModeTree es \<and> set V' = set V \<union> entry_ids ModeBlob es \<and>
   (\<forall>x \<in> entry_ids ModeBlob es. x \<in> set V \<or> HasObject R r x = Inr True)"
proof (induction es arbitrary: q V)
  case (Cons e es)
  obtain q1 V1 where c: "validate_entry R r e (q, V) = Inr (q1, V1)" and f: "foldR (validate_entry R r) es (q1, V1) = Inr (q', V')"
    using Cons.prems by (auto simp: bindR_eq_Inr)
  show ?case using Cons.IH [OF f] c
    by (auto simp: validate_entry_def bindR_eq_Inr split: if_splits)
qed simp

lemma validate_loop_proven:
  assumes agree: "kinds_agree R r k"
  shows "validate_loop R r n q V = Inr out \<Longrightarrow> (\<And>i. i \<in> set q \<Longrightarrow> k i = OTree) \<Longrightarrow>
    (\<And>v. v \<in> set V \<Longrightarrow> proven R r k sh (set V \<union> set q) C v) \<Longrightarrow>
    set V \<union> set q \<subseteq> set out \<and> (\<forall>v \<in> set out. proven R r k sh (set out) C v)"
proof (induction n arbitrary: q V)
  case 0
  then show ?case by (cases q) auto
next
  case (Suc n)
  show ?case
  proof (cases q)
    case (Cons i q1)
    show ?thesis
    proof (cases "i \<in> set V")
      case True
      then have "set V \<union> set (i # q1) = set V \<union> set q1" by auto
      then show ?thesis using Suc.IH [of q1 V] Suc.prems True Cons by auto
    next
      case False
      from Suc.prems(1) Cons False obtain es q' V' where es: "ReadTree R r i = Inr es"
        and f: "foldR (validate_entry R r) es (q1, i # V) = Inr (q', V')" and l: "validate_loop R r n q' V' = Inr out"
        by (auto simp: bindR_eq_Inr)
      note sets = validate_entries [OF f]
      have i: "k i = OTree" using Suc.prems(2) Cons by simp
      have kt: "\<And>x. x \<in> entry_ids ModeTree es \<Longrightarrow> k x = OTree" and kb: "\<And>x. x \<in> entry_ids ModeBlob es \<Longrightarrow> k x = OBlob"
        using agree es by (auto simp: kinds_agree_def)
      have cover: "set V \<union> set q \<subseteq> set V' \<union> set q'" using sets Cons by auto
      have "proven R r k sh (set V' \<union> set q') C v" if v: "v \<in> set V'" for v
      proof -
        consider "v \<in> set V" | "v = i" | "v \<in> entry_ids ModeBlob es" "v \<notin> set (i # V)" using v sets by auto
        then show ?thesis
        proof cases
          case 1
          then show ?thesis using proven_mono [OF Suc.prems(3) [OF 1] cover] by blast
        next
          case 2
          then show ?thesis using i es sets by (auto simp: proven_def)
        next
          case 3
          then show ?thesis using kb [OF 3(1)] sets by (auto simp: proven_def)
        qed
      qed
      moreover have "\<And>x. x \<in> set q' \<Longrightarrow> k x = OTree" using sets kt Suc.prems(2) Cons by auto
      ultimately have "set V' \<union> set q' \<subseteq> set out \<and> (\<forall>v \<in> set out. proven R r k sh (set out) C v)"
        using Suc.IH [OF l] by blast
      then show ?thesis using cover by blast
    qed
  qed (use Suc.prems in auto)
qed

lemma history_parents:
  "foldR (history_parent R r shallow i) ps q = Inr q' \<Longrightarrow> set q \<subseteq> set q' \<and> set q' \<subseteq> set q \<union> set ps \<and> parents_ok R r shallow i ps (set q')"
proof (induction ps arbitrary: q)
  case (Cons p ps)
  obtain q1 where h: "history_parent R r shallow i p q = Inr q1" and f: "foldR (history_parent R r shallow i) ps q1 = Inr q'"
    using Cons.prems by (auto simp: bindR_eq_Inr)
  show ?case using Cons.IH [OF f] h
    by (auto simp: history_parent_def parents_ok_def split: sum.splits if_splits)
qed (simp add: parents_ok_def)

lemma history_loop_proven:
  assumes agree: "kinds_agree R r k"
  shows "history_loop R r tf sh n q V = Inr out \<Longrightarrow> (\<And>i. i \<in> set q \<Longrightarrow> k i = OCommit) \<Longrightarrow>
    (\<And>v. v \<in> set V \<Longrightarrow> proven R r k sh (set V) (set V \<union> set q) v) \<Longrightarrow>
    set V \<union> set q \<subseteq> set out \<and> (\<forall>v \<in> set out. proven R r k sh (set out) (set out) v)"
proof (induction n arbitrary: q V)
  case 0
  then show ?case by (cases q) auto
next
  case (Suc n)
  show ?case
  proof (cases q)
    case (Cons i q1)
    show ?thesis
    proof (cases "i \<in> set V")
      case True
      then have "set V \<union> set (i # q1) = set V \<union> set q1" by auto
      then show ?thesis using Suc.IH [of q1 V] Suc.prems True Cons by auto
    next
      case False
      from Suc.prems(1) Cons False obtain c V' q' where c: "ReadCommit R r i = Inr c"
        and t: "treeClosureValidate R r tf (c_Tree c) (i # V) = Inr V'"
        and f: "foldR (history_parent R r sh i) (c_Parents c) q1 = Inr q'" and l: "history_loop R r tf sh n q' V' = Inr out"
        by (auto simp: bindR_eq_Inr)
      note ps = history_parents [OF f]
      have kc: "k i = OCommit" "k (c_Tree c) = OTree" "\<And>p. p \<in> set (c_Parents c) \<Longrightarrow> k p = OCommit"
        using agree c Suc.prems(2) Cons by (auto simp: kinds_agree_def)
      let ?C = "set V \<union> set q \<union> set q'"
      have "proven R r k sh (set (i # V) \<union> set [c_Tree c]) ?C v" if v: "v \<in> set (i # V)" for v
      proof (cases "v = i")
        case True
        then show ?thesis using kc(1) c ps by (auto simp: proven_def parents_ok_def split: sum.splits)
      next
        case False
        then have "v \<in> set V" using v by simp
        then have "proven R r k sh (set V) (set V \<union> set q) v" by (rule Suc.prems(3))
        then show ?thesis by (rule proven_mono) auto
      qed
      then have out: "set (i # V) \<union> set [c_Tree c] \<subseteq> set V'" "\<And>v. v \<in> set V' \<Longrightarrow> proven R r k sh (set V') ?C v"
        using validate_loop_proven [OF agree, of tf "[c_Tree c]" "i # V" V' sh ?C] t kc(2) by (auto simp: treeClosureValidate_def)
      have cover: "?C \<subseteq> set V' \<union> set q'" using out(1) ps Cons by auto
      have "proven R r k sh (set V') (set V' \<union> set q') v" if "v \<in> set V'" for v
        using proven_mono [OF out(2) [OF that] order_refl cover] .
      moreover have "\<And>x. x \<in> set q' \<Longrightarrow> k x = OCommit" using ps kc(3) Suc.prems(2) Cons by auto
      ultimately have "set V' \<union> set q' \<subseteq> set out \<and> (\<forall>v \<in> set out. proven R r k sh (set out) (set out) v)"
        using Suc.IH [OF l] by blast
      then show ?thesis using cover by blast
    qed
  qed (use Suc.prems in auto)
qed

text \<open>The commits a reader of the history can meet: parents that the shallow boundary hides are not among them.\<close>

inductive hist_reach :: "'r Repository \<Rightarrow> 'r \<Rightarrow> oid \<Rightarrow> oid \<Rightarrow> bool" for R r h where
  hist_root: "hist_reach R r h h"
| hist_parent: "hist_reach R r h a \<Longrightarrow> ReadCommit R r a = Inr c \<Longrightarrow> p \<in> set (c_Parents c) \<Longrightarrow> ReadCommit R r p = Inr c' \<Longrightarrow> hist_reach R r h p"

definition commit_complete :: "'r Repository \<Rightarrow> 'r \<Rightarrow> oid \<Rightarrow> oid \<Rightarrow> bool" where
  "commit_complete R r shallow a \<longleftrightarrow>
     (\<exists>c. ReadCommit R r a = Inr c \<and>
       (\<forall>t. tree_reach R r (c_Tree c) t \<longrightarrow> isOk (ReadTree R r t) \<and> (\<forall>b \<in> tree_blobs R r t. HasObject R r b = Inr True)) \<and>
       (a \<noteq> shallow \<longrightarrow> (\<forall>p \<in> set (c_Parents c). isOk (ReadCommit R r p))))"

lemma proven_trees:
  assumes "tree_reach R r t x" "kinds_agree R r k" "\<And>v. v \<in> W \<Longrightarrow> proven R r k sh W W v" "t \<in> W" "k t = OTree"
  shows "x \<in> W \<and> k x = OTree"
  using assms
proof (induction rule: tree_reach.induct)
  case (tree_sub a es e)
  then have a: "a \<in> W" "k a = OTree" by auto
  have e: "te_ID e \<in> entry_ids ModeTree es" using tree_sub.hyps(3,4) by (auto simp: entry_ids_def)
  have "entry_ids ModeTree es \<subseteq> W" using tree_sub.prems(2) [OF a(1)] a(2) tree_sub.hyps(2) by (auto simp: proven_def)
  then show ?case using e tree_sub.prems(1) tree_sub.hyps(2) by (auto simp: kinds_agree_def)
qed simp

lemma proven_complete:
  assumes agree: "kinds_agree R r k" and W: "\<And>v. v \<in> W \<Longrightarrow> proven R r k sh W W v" and a: "a \<in> W" "k a = OCommit"
  shows "commit_complete R r sh a"
proof -
  obtain c where c: "ReadCommit R r a = Inr c" "c_Tree c \<in> W" "parents_ok R r sh a (c_Parents c) W"
    using W [OF a(1)] a(2) by (auto simp: proven_def)
  have kt: "k (c_Tree c) = OTree" using agree c(1) by (auto simp: kinds_agree_def)
  have "isOk (ReadTree R r t) \<and> (\<forall>b \<in> tree_blobs R r t. HasObject R r b = Inr True)" if t: "tree_reach R r (c_Tree c) t" for t
  proof -
    have m: "t \<in> W" "k t = OTree" using proven_trees [OF t agree W c(2) kt] by auto
    obtain es where es: "ReadTree R r t = Inr es" "entry_ids ModeBlob es \<subseteq> W"
      using W [OF m(1)] m(2) by (auto simp: proven_def)
    have "HasObject R r b = Inr True" if b: "b \<in> entry_ids ModeBlob es" for b
    proof -
      have "b \<in> W" using es(2) b by blast
      moreover have "k b = OBlob" using agree es(1) b by (auto simp: kinds_agree_def)
      ultimately show ?thesis using W [of b] by (auto simp: proven_def)
    qed
    then show ?thesis using es(1) by (simp add: tree_blobs_def)
  qed
  moreover have "\<forall>p \<in> set (c_Parents c). isOk (ReadCommit R r p)" if "a \<noteq> sh"
    using c(3) that by (auto simp: parents_ok_def isOk_def split: sum.splits)
  ultimately show ?thesis using c(1) by (auto simp: commit_complete_def)
qed

lemma ValidateHistory_complete:
  assumes "ValidateHistory R r n head sh = Inr ()" "kinds_agree R r k" "k head = OCommit" "hist_reach R r head a"
  shows "commit_complete R r sh a"
proof -
  obtain out where l: "history_loop R r n sh n [head] [] = Inr out"
    using assms(1) by (auto simp: ValidateHistory_def bindR_eq_Inr)
  have W: "head \<in> set out" "\<And>v. v \<in> set out \<Longrightarrow> proven R r k sh (set out) (set out) v"
    using history_loop_proven [OF assms(2) l] assms(3) by auto
  have "a \<in> set out \<and> k a = OCommit"
    using assms(4)
  proof induction
    case (hist_parent a c p c')
    then have "parents_ok R r sh a (c_Parents c) (set out)" using W(2) [of a] by (auto simp: proven_def)
    then have "p \<in> set out" using hist_parent.hyps(3,4) by (auto simp: parents_ok_def)
    moreover have "k p = OCommit" using assms(2) hist_parent.hyps(2,3) by (auto simp: kinds_agree_def)
    ultimately show ?case by blast
  qed (use W(1) assms(3) in simp)
  then show ?thesis using proven_complete [OF assms(2) W(2)] by blast
qed

section \<open>Exported packs\<close>

lemma ExportIncrement_packs:
  assumes "commit_space R r C F" "head \<in> C" "base \<in> C" "closure_fuel R r C F \<le> n"
  shows "\<exists>objs. distinct objs \<and> set objs = history_objects R r head - history_objects R r base \<and>
    ExportIncrement sha R r n head base = (if objs = [] then Inl ErrNoNewObjects else writePack sha R r objs)"
proof -
  obtain hs bs where h: "reachableFromCommit R r n head True = Inr hs" and b: "reachableFromCommit R r n base True = Inr bs"
    using reachable_returns [OF assms(1,2,4)] reachable_returns [OF assms(1,3,4)] by blast
  have d: "distinct hs" using reach_distinct [OF h [unfolded reachableFromCommit_def]] by simp
  show ?thesis
    using d reachableFromCommit_exact [OF h] reachableFromCommit_exact [OF b] h b
    by (intro exI [of _ "filter (\<lambda>i. i \<notin> set bs) hs"]) (auto simp: ExportIncrement_def Let_def)
qed

lemma ExportCheckpoint_packs:
  assumes "ReadCommit R r head = Inr c" "tree_space R r F" "c_Tree c \<in> F" "Suc (sum (tree_weight R r) F) \<le> n"
  shows "\<exists>objs. distinct objs \<and> set objs = insert head (tree_objects R r (c_Tree c)) \<and>
    ExportCheckpoint sha R r n head = writePack sha R r objs"
proof -
  obtain objs where t: "treeClosure R r n (c_Tree c) [head] = Inr objs"
    using closure_enough [OF assms(2), of "[c_Tree c]" "[]" n "[head]"] assms(3,4) by (auto simp: treeClosure_def)
  have "distinct objs" using closure_distinct [OF t [unfolded treeClosure_def]] by simp
  then show ?thesis using treeClosure_exact [OF t] t assms(1)
    by (intro exI [of _ "sort objs"]) (auto simp: ExportCheckpoint_def sortedSet_def unreadable_def)
qed

section \<open>A stored history\<close>

text \<open>Two commits over trees of one file each, for concrete inputs.\<close>

definition hist_store :: "gobject list" where
  "hist_store = [GBlob ''old'', GBlob ''new'',
     GTree [\<lparr>te_Name = ''x'', te_Mode = ModeBlob, te_ID = []\<rparr>],
     GTree [\<lparr>te_Name = ''x'', te_Mode = ModeBlob, te_ID = [1]\<rparr>],
     GCommit \<lparr>c_Tree = [1, 1], c_Parents = [], c_Message = ''one''\<rparr>,
     GCommit \<lparr>c_Tree = [1, 1, 1], c_Parents = [[1, 1, 1, 1]], c_Message = ''two''\<rparr>]"

abbreviation hist_base :: oid where "hist_base \<equiv> [1, 1, 1, 1]"
abbreviation hist_head :: oid where "hist_head \<equiv> [1, 1, 1, 1, 1]"

lemma hist_reads:
  "ReadTree mem_repository hist_store [1, 1] = Inr [\<lparr>te_Name = ''x'', te_Mode = ModeBlob, te_ID = []\<rparr>]"
  "ReadTree mem_repository hist_store [1, 1, 1] = Inr [\<lparr>te_Name = ''x'', te_Mode = ModeBlob, te_ID = [1]\<rparr>]"
  "ReadCommit mem_repository hist_store hist_base = Inr \<lparr>c_Tree = [1, 1], c_Parents = [], c_Message = ''one''\<rparr>"
  "ReadCommit mem_repository hist_store hist_head = Inr \<lparr>c_Tree = [1, 1, 1], c_Parents = [hist_base], c_Message = ''two''\<rparr>"
  "HasObject mem_repository hist_store [] = Inr True" "HasObject mem_repository hist_store [1] = Inr True"
  by (simp_all add: mem_repository_def mem_get_def hist_store_def)

lemma hist_space: "commit_space mem_repository hist_store {hist_base, hist_head} {[1, 1], [1, 1, 1]}"
  by (simp add: commit_space_def tree_space_def hist_reads)

lemma hist_fuel: "closure_fuel mem_repository hist_store {hist_base, hist_head} {[1, 1], [1, 1, 1]} = 4"
  by (simp add: closure_fuel_def commit_weight_def tree_weight_def hist_reads)

definition hist_kind :: "oid \<Rightarrow> okind" where
  "hist_kind i = (if length i < 2 then OBlob else if length i < 4 then OTree else OCommit)"

lemma mem_read_member:
  "ReadTree mem_repository st i = Inr es \<Longrightarrow> GTree es \<in> set st"
  "ReadCommit mem_repository st i = Inr c \<Longrightarrow> GCommit c \<in> set st"
  by (auto simp: mem_repository_def mem_get_def split: if_splits gobject.splits option.splits) (metis nth_mem)+

lemma hist_agree: "kinds_agree mem_repository hist_store hist_kind"
  unfolding kinds_agree_def by (auto dest!: mem_read_member simp: hist_store_def hist_kind_def)

lemma hist_validates: "ValidateHistory mem_repository hist_store (Suc (Suc 0)) hist_head hist_base = Inr ()"
  by (simp add: ValidateHistory_def treeClosureValidate_def hist_reads validate_entry_def history_parent_def unreadable_def)

section \<open>Properties\<close>

text \<open>C30: with fuel for the finite part of the repository the two commits reach, an incremental export returns,
  and packs, each once, exactly the objects of the head's history that the base's history lacks; it refuses
  an empty pack.\<close>

theorem increment_pack_exact:
  assumes "commit_space R r C F" "head \<in> C" "base \<in> C" "closure_fuel R r C F \<le> n"
  shows "\<exists>objs. distinct objs \<and> set objs = history_objects R r head - history_objects R r base \<and>
    ExportIncrement sha R r n head base = (if objs = [] then Inl ErrNoNewObjects else writePack sha R r objs)"
  by (rule ExportIncrement_packs [OF assms])

theorem increment_pack_exact_witness:
  "\<exists>objs. distinct objs \<and>
     set objs = history_objects mem_repository hist_store hist_head - history_objects mem_repository hist_store hist_base \<and>
     ExportIncrement (\<lambda>_. []) mem_repository hist_store 4 hist_head hist_base =
       (if objs = [] then Inl ErrNoNewObjects else writePack (\<lambda>_. []) mem_repository hist_store objs)"
  by (rule increment_pack_exact [OF hist_space]) (simp_all add: hist_fuel)

text \<open>A checkpoint export returns and packs, each once, exactly the checkpoint commit, its trees and its
  blobs: the pack is complete without any earlier history.\<close>

theorem checkpoint_pack_exact:
  assumes "ReadCommit R r head = Inr c" "tree_space R r F" "c_Tree c \<in> F" "Suc (sum (tree_weight R r) F) \<le> n"
  shows "\<exists>objs. distinct objs \<and> set objs = insert head (tree_objects R r (c_Tree c)) \<and>
    ExportCheckpoint sha R r n head = writePack sha R r objs"
  by (rule ExportCheckpoint_packs [OF assms])

theorem checkpoint_pack_exact_witness:
  "\<exists>objs. distinct objs \<and> set objs = insert hist_head (tree_objects mem_repository hist_store [1, 1, 1]) \<and>
     ExportCheckpoint (\<lambda>_. []) mem_repository hist_store 2 hist_head = writePack (\<lambda>_. []) mem_repository hist_store objs"
  using checkpoint_pack_exact [OF hist_reads(4), of "{[1, 1, 1]}" 2 "\<lambda>_. []"]
  by (simp add: tree_space_def hist_reads tree_weight_def)

text \<open>C31: where every ID names one object of one kind, a history that passes validation is complete: each commit
  a reader can meet is readable, every tree below it is readable, every blob is present, and only the
  declared boundary may have missing parents.\<close>

theorem validated_history_complete:
  assumes "ValidateHistory R r n head shallow = Inr ()" "kinds_agree R r k" "k head = OCommit" "hist_reach R r head a"
  shows "commit_complete R r shallow a"
  by (rule ValidateHistory_complete [OF assms])

theorem validated_history_complete_witness:
  "commit_complete mem_repository hist_store hist_base hist_base"
proof -
  have "hist_reach mem_repository hist_store hist_head hist_base"
    by (rule hist_parent [OF hist_root hist_reads(4) _ hist_reads(3)]) simp
  then show ?thesis
    using validated_history_complete [OF hist_validates hist_agree] by (simp add: hist_kind_def)
qed

text \<open>
  Without agreement about kinds the shared seen set proves too much: a tree that an earlier entry named
  as a blob is only checked for presence and never walked, so a history with a missing subtree passes.
\<close>

definition confused_store :: "gobject list" where
  "confused_store = [GTree [\<lparr>te_Name = ''z'', te_Mode = ModeTree, te_ID = [9, 9, 9, 9]\<rparr>],
     GTree [\<lparr>te_Name = ''a'', te_Mode = ModeBlob, te_ID = []\<rparr>, \<lparr>te_Name = ''b'', te_Mode = ModeTree, te_ID = []\<rparr>],
     GCommit \<lparr>c_Tree = [1], c_Parents = [], c_Message = ''one''\<rparr>]"

lemma confused_history_passes:
  "ValidateHistory mem_repository confused_store (Suc (Suc 0)) [1, 1] [1, 1] = Inr ()"
  "tree_reach mem_repository confused_store [1] [9, 9, 9, 9]" "HasObject mem_repository confused_store [9, 9, 9, 9] = Inr False"
proof -
  have rd: "ReadTree mem_repository confused_store [1] =
      Inr [\<lparr>te_Name = ''a'', te_Mode = ModeBlob, te_ID = []\<rparr>, \<lparr>te_Name = ''b'', te_Mode = ModeTree, te_ID = []\<rparr>]"
    "ReadTree mem_repository confused_store [] = Inr [\<lparr>te_Name = ''z'', te_Mode = ModeTree, te_ID = [9, 9, 9, 9]\<rparr>]"
    "ReadCommit mem_repository confused_store [1, 1] = Inr \<lparr>c_Tree = [1], c_Parents = [], c_Message = ''one''\<rparr>"
    "HasObject mem_repository confused_store [] = Inr True"
    by (simp_all add: mem_repository_def mem_get_def confused_store_def)
  show "ValidateHistory mem_repository confused_store (Suc (Suc 0)) [1, 1] [1, 1] = Inr ()"
    by (simp add: ValidateHistory_def treeClosureValidate_def rd validate_entry_def unreadable_def)
  have "tree_reach mem_repository confused_store [1] []"
    using tree_sub [OF tree_root rd(1), of "\<lparr>te_Name = ''b'', te_Mode = ModeTree, te_ID = []\<rparr>"] by simp
  from tree_sub [OF this rd(2), of "\<lparr>te_Name = ''z'', te_Mode = ModeTree, te_ID = [9, 9, 9, 9]\<rparr>"]
  show "tree_reach mem_repository confused_store [1] [9, 9, 9, 9]" by simp
  show "HasObject mem_repository confused_store [9, 9, 9, 9] = Inr False"
    by (simp add: mem_repository_def mem_get_def confused_store_def)
qed

end
