(* ===== verification/Publication.thy ===== *)
theory Publication
  imports Manifest PackClosure
begin

text \<open>
  The manifests the notebook proposes: the first publication, an increment, an increment turned into a
  compacting checkpoint when the space is full (\<open>internal/notebook/commit.go\<close>), and the replacement of
  a prefix of the tail by a checkpoint (\<open>internal/notebook/checkpoint.go\<close>), with the key sets cleanup
  and recovery read off a manifest.

  The handlers that create the commit and the pack are in \<open>Notebook\<close>; here is what they put into the
  manifest. A manifest is \<open>grounded\<close> when it is valid and its chain has not run ahead of its generation
  counter, which is what the code's own manifests satisfy: every proposal built from a grounded manifest
  with fresh IDs is grounded again.
\<close>

section \<open>Proposals\<close>

record Baseline =
  bl_RemoteGeneration :: u64
  bl_Head :: oid
  bl_Tree :: oid

record proposal =
  pr_publicationID :: uuid
  pr_checkpointID :: uuid
  pr_key :: Key
  pr_pack :: Pack
  pr_manifest :: Manifest
  pr_baseline :: Baseline
  pr_compacting :: bool

definition pack_size :: "Pack \<Rightarrow> u64" where
  "pack_size pack = of_nat (length (pk_Data pack))"

definition first_proposal :: "oid \<Rightarrow> oid \<Rightarrow> Pack \<Rightarrow> uuid \<Rightarrow> uuid \<Rightarrow> proposal" where
  "first_proposal head tree pack pubID cpID =
     (let key = \<lparr>key_Kind = KindCheckpoint, key_Generation = 1, key_ID = cpID\<rparr> in
      \<lparr>pr_publicationID = pubID, pr_checkpointID = cpID, pr_key = key, pr_pack = pack,
       pr_manifest = \<lparr>mf_Version = 1, mf_Generation = 1, mf_Head = head,
         mf_Checkpoint = \<lparr>cp_ID = cpID, cp_Publication = pubID, cp_ThroughGeneration = 1, cp_Head = head, cp_Key = key,
           cp_SHA256 = pk_SHA256 pack, cp_Size = pack_size pack\<rparr>,
         mf_Increments = [], mf_Retained = []\<rparr>,
       pr_baseline = \<lparr>bl_RemoteGeneration = 1, bl_Head = head, bl_Tree = tree\<rparr>,
       pr_compacting = False\<rparr>)"

definition inc_generation :: "Manifest \<Rightarrow> u64" where
  "inc_generation m = cp_ThroughGeneration (mf_Checkpoint m) + of_nat (length (mf_Increments m)) + 1"

definition increment_proposal :: "Manifest \<Rightarrow> u64 \<Rightarrow> oid \<Rightarrow> oid \<Rightarrow> oid \<Rightarrow> Pack \<Rightarrow> uuid \<Rightarrow> proposal" where
  "increment_proposal m generation parent head tree pack pubID =
     (let gen = inc_generation m; key = \<lparr>key_Kind = KindIncrement, key_Generation = gen, key_ID = pubID\<rparr> in
      \<lparr>pr_publicationID = pubID, pr_checkpointID = zeroUUID, pr_key = key, pr_pack = pack,
       pr_manifest = m\<lparr>mf_Generation := generation + 1, mf_Head := head,
         mf_Increments := mf_Increments m @ [\<lparr>inc_Generation = gen, inc_Publication = pubID, inc_Parent = parent, inc_Head = head,
           inc_Key = key, inc_SHA256 = pk_SHA256 pack, inc_Size = pack_size pack\<rparr>]\<rparr>,
       pr_baseline = \<lparr>bl_RemoteGeneration = generation + 1, bl_Head = head, bl_Tree = tree\<rparr>,
       pr_compacting = False\<rparr>)"

definition chainSize :: "Checkpoint \<Rightarrow> Increment list \<Rightarrow> u64" where
  "chainSize cp incs = foldl (\<lambda>n i. n + inc_Size i) (cp_Size cp) incs"

definition referenced_size :: "Manifest \<Rightarrow> u64" where
  "referenced_size m =
     foldl (\<lambda>n r. n + chainSize (ret_Checkpoint r) (ret_Increments r)) (chainSize (mf_Checkpoint m) (mf_Increments m)) (mf_Retained m)"

definition compacting_proposal :: "proposal \<Rightarrow> Pack \<Rightarrow> uuid \<Rightarrow> proposal" where
  "compacting_proposal inc pack cpID =
     (let key = \<lparr>key_Kind = KindCheckpoint, key_Generation = key_Generation (pr_key inc), key_ID = cpID\<rparr> in
      \<lparr>pr_publicationID = pr_publicationID inc, pr_checkpointID = cpID, pr_key = key, pr_pack = pack,
       pr_manifest = (pr_manifest inc)\<lparr>
         mf_Checkpoint := \<lparr>cp_ID = cpID, cp_Publication = pr_publicationID inc,
           cp_ThroughGeneration = key_Generation (pr_key inc), cp_Head = mf_Head (pr_manifest inc), cp_Key = key,
           cp_SHA256 = pk_SHA256 pack, cp_Size = pack_size pack\<rparr>,
         mf_Increments := [], mf_Retained := []\<rparr>,
       pr_baseline = pr_baseline inc,
       pr_compacting = True\<rparr>)"

section \<open>Checkpoints\<close>

record checkpointPlan =
  pl_manifest :: Manifest
  pl_count :: nat
  pl_cutoff :: u64
  pl_head :: oid
  pl_publication :: uuid

text \<open>\<open>planCheckpoint\<close> is called only when the tail has at least \<open>threshold\<close> increments and \<open>threshold\<close> is positive.\<close>

definition planCheckpoint :: "Manifest \<Rightarrow> nat \<Rightarrow> checkpointPlan" where
  "planCheckpoint observed threshold =
     (let l = mf_Increments observed ! (threshold - 1) in
      \<lparr>pl_manifest = observed, pl_count = threshold, pl_cutoff = inc_Generation l, pl_head = inc_Head l,
       pl_publication = inc_Publication l\<rparr>)"

definition prefixPresent :: "checkpointPlan \<Rightarrow> Manifest \<Rightarrow> bool" where
  "prefixPresent p m \<longleftrightarrow>
     pl_count p \<le> length (mf_Increments m) \<and>
     list_all (\<lambda>i. mf_Increments m ! i = mf_Increments (pl_manifest p) ! i) [0..<pl_count p]"

definition compactManifest :: "nat \<Rightarrow> Manifest \<Rightarrow> checkpointPlan \<Rightarrow> uuid \<Rightarrow> Key \<Rightarrow> Pack \<Rightarrow> Manifest" where
  "compactManifest retainedCheckpoints latest plan cpID key pack =
     (let gen = mf_Generation latest + 1;
          incs = drop (pl_count plan) (mf_Increments latest);
          retained = \<lparr>ret_RetiredAtGeneration = gen, ret_Head = pl_head plan, ret_Checkpoint = mf_Checkpoint latest,
            ret_Increments = take (pl_count plan) (mf_Increments latest)\<rparr> in
      latest\<lparr>mf_Generation := gen,
        mf_Checkpoint := \<lparr>cp_ID = cpID, cp_Publication = pl_publication plan, cp_ThroughGeneration = pl_cutoff plan,
          cp_Head = pl_head plan, cp_Key = key, cp_SHA256 = pk_SHA256 pack, cp_Size = pack_size pack\<rparr>,
        mf_Increments := incs,
        mf_Head := (if incs = [] then pl_head plan else inc_Head (last incs)),
        mf_Retained := take retainedCheckpoints (retained # mf_Retained latest)\<rparr>)"

definition manifestRoots :: "uuid_lib \<Rightarrow> Manifest \<Rightarrow> bytes list" where
  "manifestRoots lib m =
     Key_String lib (cp_Key (mf_Checkpoint m)) # map (\<lambda>inc. Key_String lib (inc_Key inc)) (mf_Increments m) @
     concat (map (\<lambda>r. Key_String lib (cp_Key (ret_Checkpoint r)) # map (\<lambda>inc. Key_String lib (inc_Key inc)) (ret_Increments r))
       (mf_Retained m))"

definition publicationIn :: "Manifest \<Rightarrow> uuid \<Rightarrow> bool" where
  "publicationIn m ident \<longleftrightarrow>
     cp_Publication (mf_Checkpoint m) = ident \<or>
     list_ex (\<lambda>inc. inc_Publication inc = ident) (mf_Increments m) \<or>
     list_ex (\<lambda>r. cp_Publication (ret_Checkpoint r) = ident \<or> list_ex (\<lambda>inc. inc_Publication inc = ident) (ret_Increments r)) (mf_Retained m)"

definition checkpointIn :: "Manifest \<Rightarrow> uuid \<Rightarrow> bool" where
  "checkpointIn m cpID \<longleftrightarrow> cp_ID (mf_Checkpoint m) = cpID \<or> list_ex (\<lambda>r. cp_ID (ret_Checkpoint r) = cpID) (mf_Retained m)"

section \<open>Chains\<close>

lemma manifestRoots_keys: "manifestRoots lib m = manifest_keys lib m"
  by (simp add: manifestRoots_def manifest_keys_def chain_keys_def retained_keys_def)

lemma publicationIn_pubs: "publicationIn m p \<longleftrightarrow> p \<in> fst ` set (manifest_pubs m)"
  by (auto simp: publicationIn_def manifest_pubs_def chain_pubs_def retained_pubs_def list_ex_iff image_iff) force+

lemma checkpointIn_ids: "checkpointIn m p \<longleftrightarrow> p \<in> set (cp_ID (mf_Checkpoint m) # retained_ids (mf_Retained m))"
  by (auto simp: checkpointIn_def retained_ids_def list_ex_iff)

lemma inc_chain_append:
  "inc_chain h g (xs @ ys) \<longleftrightarrow> inc_chain h g xs \<and>
   inc_chain (tail_head h xs) (if xs = [] then g else inc_Generation (last xs)) ys"
  by (induction xs arbitrary: h g) (auto simp: tail_head_def)

lemma inc_chain_nth:
  "inc_chain h g incs \<Longrightarrow> i < length incs \<Longrightarrow> inc_Generation (incs ! i) = g + of_nat (Suc i)"
proof (induction incs arbitrary: h g i)
  case (Cons x xs)
  then show ?case by (cases i) (auto simp: algebra_simps)
qed simp

lemma inc_chain_last: "inc_chain h g incs \<Longrightarrow> incs \<noteq> [] \<Longrightarrow> inc_Generation (last incs) = g + of_nat (length incs)"
  using inc_chain_nth [of h g incs "length incs - 1"] by (simp add: last_conv_nth)

lemma inc_chain_above: "inc_chain h g incs \<Longrightarrow> inc \<in> set incs \<Longrightarrow> g < inc_Generation inc"
  by (induction incs arbitrary: h g) (auto intro: order.strict_trans)

lemma inc_chain_below_last: "inc_chain h g incs \<Longrightarrow> inc \<in> set incs \<Longrightarrow> inc_Generation inc \<le> inc_Generation (last incs)"
proof (induction incs arbitrary: h g)
  case (Cons x xs)
  then show ?case using inc_chain_above [of "inc_Head x" "inc_Generation x" xs "last xs"] by (auto dest: order.strict_implies_order)
qed simp

lemma inc_generation_final: "chain_ok (mf_Checkpoint m) (mf_Increments m) \<Longrightarrow>
    inc_generation m = final_generation (mf_Checkpoint m) (mf_Increments m) + 1"
  using inc_chain_last by (auto simp: inc_generation_def final_generation_def chain_ok_def)

lemma retained_ok_mono: "retained_ok g rs \<Longrightarrow> g \<le> g' \<Longrightarrow> retained_ok g' rs"
  by (cases rs) auto

lemma retained_ok_take: "retained_ok g rs \<Longrightarrow> retained_ok g (take n rs)"
proof (induction rs arbitrary: g n)
  case (Cons x xs)
  then show ?case by (cases n) auto
qed simp

section \<open>Grounded manifests\<close>

definition grounded :: "uuid_lib \<Rightarrow> Manifest \<Rightarrow> bool" where
  "grounded lib m \<longleftrightarrow> valid_manifest lib m \<and> typed_manifest lib m \<and>
     final_generation (mf_Checkpoint m) (mf_Increments m) \<le> mf_Generation m"

text \<open>The generation counter is two steps from wrapping around.\<close>

definition room :: "Manifest \<Rightarrow> bool" where
  "room m \<longleftrightarrow> unat (mf_Generation m) + 2 < 2 ^ 64"

lemma room_steps:
  assumes "room m"
  shows "mf_Generation m < mf_Generation m + 1" "mf_Generation m + 1 < mf_Generation m + 1 + 1" "mf_Generation m + 1 \<noteq> 0"
proof -
  have u1: "unat (mf_Generation m + 1) = unat (mf_Generation m) + 1"
    using assms by (simp add: room_def unat_word_ariths)
  have u2: "unat (mf_Generation m + 1 + 1) = unat (mf_Generation m) + 2"
    using assms by (simp add: room_def unat_word_ariths u1)
  show "mf_Generation m < mf_Generation m + 1" "mf_Generation m + 1 < mf_Generation m + 1 + 1"
    unfolding word_less_nat_alt u1 u2 by simp_all
  show "mf_Generation m + 1 \<noteq> 0" using u1 by (metis add_is_0 one_neq_zero unat_0)
qed

lemma succ_above: fixes f g :: u64 assumes "f \<le> g" "g < g + 1" shows "f < f + 1" "f + 1 \<le> g + 1"
proof -
  have "1 + g \<noteq> 0" using assms(2) by (auto simp: add.commute)
  then have g: "unat (g + 1) = unat g + 1" using unatSuc [of g] by (simp add: add.commute)
  have le: "unat f \<le> unat g" using assms(1) by (simp add: word_le_nat_alt)
  have "unat g + 1 < 2 ^ 64" using unat_u64_less [of "g + 1"] g by simp
  then have f: "unat (f + 1) = unat f + 1" using le by (simp add: unat_word_ariths)
  show "f < f + 1" "f + 1 \<le> g + 1" using f g le by (simp_all add: word_less_nat_alt word_le_nat_alt)
qed

definition fresh_pub :: "uuid_lib \<Rightarrow> Manifest \<Rightarrow> uuid \<Rightarrow> bool" where
  "fresh_pub lib m p \<longleftrightarrow> uuid7 lib p \<and> \<not> publicationIn m p"

definition fresh_cp :: "uuid_lib \<Rightarrow> Manifest \<Rightarrow> uuid \<Rightarrow> bool" where
  "fresh_cp lib m p \<longleftrightarrow> uuid7 lib p \<and> \<not> checkpointIn m p"

definition real_pack :: "Pack \<Rightarrow> bool" where
  "real_pack pack \<longleftrightarrow> length (pk_SHA256 pack) = 32 \<and> pack_size pack \<noteq> 0"

lemma consistent_fresh: "p \<notin> fst ` set ps \<Longrightarrow> consistent ((p, h) # ps) \<longleftrightarrow> consistent ps"
  by (force simp: consistent_Cons image_iff)

lemma consistent_subset: "consistent ps \<Longrightarrow> set qs \<subseteq> set ps \<Longrightarrow> consistent qs"
  by (auto simp: consistent_def single_valued_def)

lemma chain_key_records:
  assumes "chain_ok cp incs" "typed_checkpoint lib cp" "list_all (typed_increment lib) incs" "s \<in> set (chain_keys lib cp incs)"
  shows "\<exists>k. wf_key lib k \<and> s = Key_String lib k \<and>
    (key_Kind k = KindCheckpoint \<and> key_ID k = cp_ID cp \<or> key_Kind k = KindIncrement \<and> key_ID k \<in> fst ` set (chain_pubs cp incs))"
proof -
  have incs: "inc_chain h g xs \<Longrightarrow> list_all (typed_increment lib) xs \<Longrightarrow> inc \<in> set xs \<Longrightarrow>
      wf_key lib (inc_Key inc) \<and> key_Kind (inc_Key inc) = KindIncrement \<and> key_ID (inc_Key inc) = inc_Publication inc" for h g xs inc
    by (induction xs arbitrary: h g) (auto simp: typed_increment_def)
  from assms(4) consider "s = Key_String lib (cp_Key cp)" | inc where "inc \<in> set incs" "s = Key_String lib (inc_Key inc)"
    by (auto simp: chain_keys_def)
  then show ?thesis
  proof cases
    case 1
    then show ?thesis using assms(1,2) by (intro exI [of _ "cp_Key cp"]) (auto simp: chain_ok_def typed_checkpoint_def)
  next
    case 2
    then show ?thesis using incs [of "cp_Head cp" "cp_ThroughGeneration cp" incs inc] assms(1,3)
      by (intro exI [of _ "inc_Key inc"]) (auto simp: chain_ok_def chain_pubs_def image_iff)
  qed
qed

lemma retained_ok_member: "retained_ok g rs \<Longrightarrow> r \<in> set rs \<Longrightarrow> chain_ok (ret_Checkpoint r) (ret_Increments r)"
  by (induction rs arbitrary: g) auto

lemma manifest_key_records:
  assumes "valid_manifest lib m" "typed_manifest lib m" "s \<in> set (manifest_keys lib m)"
  shows "\<exists>k. wf_key lib k \<and> s = Key_String lib k \<and>
    (key_Kind k = KindCheckpoint \<and> checkpointIn m (key_ID k) \<or> key_Kind k = KindIncrement \<and> publicationIn m (key_ID k))"
proof -
  from assms(3) consider "s \<in> set (chain_keys lib (mf_Checkpoint m) (mf_Increments m))"
    | r where "r \<in> set (mf_Retained m)" "s \<in> set (chain_keys lib (ret_Checkpoint r) (ret_Increments r))"
    by (auto simp: manifest_keys_def retained_keys_def)
  then show ?thesis
  proof cases
    case 1
    then obtain k where "wf_key lib k" "s = Key_String lib k"
      "key_Kind k = KindCheckpoint \<and> key_ID k = cp_ID (mf_Checkpoint m) \<or>
       key_Kind k = KindIncrement \<and> key_ID k \<in> fst ` set (chain_pubs (mf_Checkpoint m) (mf_Increments m))"
      using chain_key_records [of "mf_Checkpoint m" "mf_Increments m" lib s] assms(1,2) by (auto simp: valid_manifest_def typed_manifest_def)
    then show ?thesis by (intro exI [of _ k]) (auto simp: checkpointIn_ids publicationIn_pubs manifest_pubs_def)
  next
    case 2
    have "chain_ok (ret_Checkpoint r) (ret_Increments r)" "typed_retained lib r"
      using retained_ok_member 2(1) assms(1,2) by (auto simp: valid_manifest_def typed_manifest_def list_all_iff)
    then obtain k where k: "wf_key lib k" "s = Key_String lib k"
      "key_Kind k = KindCheckpoint \<and> key_ID k = cp_ID (ret_Checkpoint r) \<or>
       key_Kind k = KindIncrement \<and> key_ID k \<in> fst ` set (chain_pubs (ret_Checkpoint r) (ret_Increments r))"
      using chain_key_records 2(2) by (fastforce simp: typed_retained_def)
    have "fst ` set (chain_pubs (ret_Checkpoint r) (ret_Increments r)) \<subseteq> fst ` set (manifest_pubs m)"
      using 2(1) by (intro image_mono) (auto simp: manifest_pubs_def retained_pubs_def)
    then show ?thesis using k 2(1) by (intro exI [of _ k]) (auto simp: checkpointIn_ids publicationIn_pubs retained_ids_def)
  qed
qed

context uuid_text
begin

lemma fresh_increment_key:
  assumes "grounded lib m" "fresh_pub lib m p"
  shows "Key_String lib \<lparr>key_Kind = KindIncrement, key_Generation = g, key_ID = p\<rparr> \<notin> set (manifest_keys lib m)"
proof
  let ?k = "\<lparr>key_Kind = KindIncrement, key_Generation = g, key_ID = p\<rparr>"
  assume "Key_String lib ?k \<in> set (manifest_keys lib m)"
  then obtain k where k: "wf_key lib k" "Key_String lib ?k = Key_String lib k" "key_Kind k = KindIncrement \<longrightarrow> publicationIn m (key_ID k)"
    using manifest_key_records assms(1) unfolding grounded_def by (metis kinds_differ(1))
  have "wf_key lib ?k" using assms(2) by (simp add: wf_key_def fresh_pub_def PackKind_Valid_def)
  then have "k = ?k" using Key_String_inject k(1,2) by blast
  then show False using k(3) assms(2) by (simp add: fresh_pub_def)
qed

lemma fresh_checkpoint_key:
  assumes "grounded lib m" "fresh_cp lib m p"
  shows "Key_String lib \<lparr>key_Kind = KindCheckpoint, key_Generation = g, key_ID = p\<rparr> \<notin> set (manifest_keys lib m)"
proof
  let ?k = "\<lparr>key_Kind = KindCheckpoint, key_Generation = g, key_ID = p\<rparr>"
  assume "Key_String lib ?k \<in> set (manifest_keys lib m)"
  then obtain k where k: "wf_key lib k" "Key_String lib ?k = Key_String lib k" "key_Kind k = KindCheckpoint \<longrightarrow> checkpointIn m (key_ID k)"
    using manifest_key_records assms(1) unfolding grounded_def by (metis kinds_differ(2))
  have "wf_key lib ?k" using assms(2) by (simp add: wf_key_def fresh_cp_def PackKind_Valid_def)
  then have "k = ?k" using Key_String_inject k(1,2) by blast
  then show False using k(3) assms(2) by (simp add: fresh_cp_def)
qed

lemma first_grounded:
  assumes "uuid7 lib pubID" "uuid7 lib cpID" "length head = 20" "real_pack pack"
  shows "grounded lib (pr_manifest (first_proposal head tree pack pubID cpID))"
  using assms
  by (simp add: grounded_def valid_manifest_def typed_manifest_def first_proposal_def Let_def chain_ok_def tail_head_def
      manifest_keys_def chain_keys_def retained_keys_def retained_ids_def manifest_pubs_def chain_pubs_def retained_pubs_def
      consistent_def single_valued_def final_generation_def typed_checkpoint_def wf_key_def PackKind_Valid_def real_pack_def
      ManifestVersion_def word_gt_0)

lemma increment_grounded:
  assumes "grounded lib m" "room m" "fresh_pub lib m pubID" "length head = 20" "real_pack pack"
  shows "grounded lib (pr_manifest (increment_proposal m (mf_Generation m) (mf_Head m) head tree pack pubID))"
proof -
  let ?g = "inc_generation m" let ?k = "\<lparr>key_Kind = KindIncrement, key_Generation = ?g, key_ID = pubID\<rparr>"
  let ?inc = "\<lparr>inc_Generation = ?g, inc_Publication = pubID, inc_Parent = mf_Head m, inc_Head = head, inc_Key = ?k,
    inc_SHA256 = pk_SHA256 pack, inc_Size = pack_size pack\<rparr>"
  let ?m = "m\<lparr>mf_Generation := mf_Generation m + 1, mf_Head := head, mf_Increments := mf_Increments m @ [?inc]\<rparr>"
  have v: "valid_manifest lib m" "typed_manifest lib m" "final_generation (mf_Checkpoint m) (mf_Increments m) \<le> mf_Generation m"
    using assms(1) by (auto simp: grounded_def)
  have c: "chain_ok (mf_Checkpoint m) (mf_Increments m)" and h: "mf_Head m = tail_head (cp_Head (mf_Checkpoint m)) (mf_Increments m)"
    and th: "cp_ThroughGeneration (mf_Checkpoint m) \<le> mf_Generation m"
    using v(1) by (auto simp: valid_manifest_def)
  note up = room_steps [OF assms(2)]
  have g: "?g = final_generation (mf_Checkpoint m) (mf_Increments m) + 1" by (rule inc_generation_final [OF c])
  note step = succ_above [OF v(3) up(1)]
  have chain: "chain_ok (mf_Checkpoint m) (mf_Increments m @ [?inc])"
    using c step(1) assms(5) by (auto simp: chain_ok_def inc_chain_append h g final_generation_def real_pack_def word_gt_0)
  have keys: "distinct (manifest_keys lib ?m)"
    using fresh_increment_key [OF assms(1,3), of ?g] v(1) by (auto simp: valid_manifest_def manifest_keys_def chain_keys_def)
  have pubs: "consistent (manifest_pubs ?m)"
  proof -
    have "consistent ((pubID, head) # manifest_pubs m)"
      using assms(3) v(1) by (simp add: consistent_fresh fresh_pub_def publicationIn_pubs valid_manifest_def)
    moreover have "set (manifest_pubs ?m) \<subseteq> set ((pubID, head) # manifest_pubs m)" by (auto simp: manifest_pubs_def chain_pubs_def)
    ultimately show ?thesis by (rule consistent_subset)
  qed
  have ret: "retained_ok (mf_Generation m + 1 + 1) (mf_Retained m)"
    using v(1) retained_ok_mono up(2) by (auto simp: valid_manifest_def dest: order.strict_implies_order)
  have "valid_manifest lib ?m"
    using chain keys pubs ret up(3) th up(1) v(1) by (auto simp: valid_manifest_def tail_head_def)
  moreover have "typed_manifest lib ?m"
    using v(2) assms(3,4,5) by (auto simp: typed_manifest_def typed_increment_def fresh_pub_def wf_key_def PackKind_Valid_def real_pack_def)
  ultimately show ?thesis
    using step(2) by (simp add: grounded_def increment_proposal_def Let_def) (simp add: final_generation_def g)
qed

lemma compacting_grounded:
  assumes "grounded lib m" "room m" "fresh_pub lib m pubID" "length head = 20" "real_pack pack" "uuid7 lib cpID"
    "inc = increment_proposal m (mf_Generation m) (mf_Head m) head tree ipack pubID"
  shows "grounded lib (pr_manifest (compacting_proposal inc pack cpID))"
proof -
  have v: "valid_manifest lib m" "typed_manifest lib m" "final_generation (mf_Checkpoint m) (mf_Increments m) \<le> mf_Generation m"
    using assms(1) by (auto simp: grounded_def)
  have g: "inc_generation m = final_generation (mf_Checkpoint m) (mf_Increments m) + 1"
    using v(1) by (intro inc_generation_final) (simp add: valid_manifest_def)
  note step = succ_above [OF v(3) room_steps(1) [OF assms(2)]]
  show ?thesis
    using step(2) room_steps(3) [OF assms(2)] v(2) assms(3-6)
    by (simp add: assms(7) g grounded_def valid_manifest_def typed_manifest_def increment_proposal_def compacting_proposal_def Let_def
        chain_ok_def tail_head_def manifest_keys_def chain_keys_def retained_keys_def retained_ids_def manifest_pubs_def chain_pubs_def
        retained_pubs_def consistent_def single_valued_def final_generation_def typed_checkpoint_def wf_key_def PackKind_Valid_def
        real_pack_def fresh_pub_def word_gt_0)
qed

end

section \<open>Replacing a prefix of the tail\<close>

lemma retained_parts:
  "retained_keys lib (r # rs) = chain_keys lib (ret_Checkpoint r) (ret_Increments r) @ retained_keys lib rs"
  "retained_ids (r # rs) = cp_ID (ret_Checkpoint r) # retained_ids rs"
  "retained_pubs (r # rs) = chain_pubs (ret_Checkpoint r) (ret_Increments r) @ retained_pubs rs"
  by (simp_all add: retained_keys_def retained_ids_def retained_pubs_def)

lemma retained_take:
  "\<exists>ks. retained_keys lib rs = retained_keys lib (take n rs) @ ks"
  "set (retained_pubs (take n rs)) \<subseteq> set (retained_pubs rs)" "retained_ids (take n rs) = take n (retained_ids rs)"
proof -
  have "retained_keys lib (take n rs @ drop n rs) = retained_keys lib (take n rs) @ retained_keys lib (drop n rs)"
    by (simp only: retained_keys_def map_append concat_append)
  then show "\<exists>ks. retained_keys lib rs = retained_keys lib (take n rs) @ ks" by (metis append_take_drop_id)
  show "set (retained_pubs (take n rs)) \<subseteq> set (retained_pubs rs)"
    by (auto simp: retained_pubs_def dest!: in_set_takeD)
  show "retained_ids (take n rs) = take n (retained_ids rs)" by (simp add: retained_ids_def take_map)
qed

lemma prefixPresent_take:
  "prefixPresent p m \<Longrightarrow> pl_count p \<le> length (mf_Increments (pl_manifest p)) \<Longrightarrow>
   pl_count p \<le> length (mf_Increments m) \<and> take (pl_count p) (mf_Increments m) = take (pl_count p) (mf_Increments (pl_manifest p))"
  by (auto simp: prefixPresent_def list_all_iff intro: nth_equalityI)

lemma plan_last:
  assumes "plan = planCheckpoint observed threshold" "0 < threshold" "threshold \<le> length (mf_Increments observed)"
    "prefixPresent plan m"
  obtains l where "take threshold (mf_Increments m) \<noteq> []" "last (take threshold (mf_Increments m)) = l" "l \<in> set (mf_Increments m)"
    "pl_count plan = threshold" "pl_cutoff plan = inc_Generation l" "pl_head plan = inc_Head l" "pl_publication plan = inc_Publication l"
    "threshold \<le> length (mf_Increments m)"
proof -
  have p: "pl_count plan = threshold" "pl_manifest plan = observed" using assms(1) by (simp_all add: planCheckpoint_def Let_def)
  have t: "threshold \<le> length (mf_Increments m)" "take threshold (mf_Increments m) = take threshold (mf_Increments observed)"
    using prefixPresent_take [OF assms(4)] p assms(3) by auto
  have ne: "take threshold (mf_Increments m) \<noteq> []" using t(1) assms(2) by (cases "mf_Increments m") auto
  have "last (take threshold (mf_Increments observed)) = mf_Increments observed ! (threshold - 1)"
    using ne assms(2,3) unfolding t(2) by (simp add: last_conv_nth min_absorb2)
  moreover have "last (take threshold (mf_Increments m)) \<in> set (mf_Increments m)" using last_in_set [OF ne] by (rule in_set_takeD)
  ultimately show ?thesis
    using that [of "last (take threshold (mf_Increments m))"] ne t p(1) assms(1) by (simp add: planCheckpoint_def Let_def)
qed

context uuid_text
begin

lemma compact_valid:
  assumes "grounded lib m" "room m" "plan = planCheckpoint observed threshold" "0 < threshold"
    "threshold \<le> length (mf_Increments observed)" "prefixPresent plan m" "fresh_cp lib m cpID" "real_pack pack"
    "key = \<lparr>key_Kind = KindCheckpoint, key_Generation = pl_cutoff plan, key_ID = cpID\<rparr>"
  shows "grounded lib (compactManifest rc m plan cpID key pack)"
proof -
  obtain l where l: "take threshold (mf_Increments m) \<noteq> []" "last (take threshold (mf_Increments m)) = l" "l \<in> set (mf_Increments m)"
    "pl_count plan = threshold" "pl_cutoff plan = inc_Generation l" "pl_head plan = inc_Head l" "pl_publication plan = inc_Publication l"
    "threshold \<le> length (mf_Increments m)" by (rule plan_last [OF assms(3-6)])
  have v: "valid_manifest lib m" "typed_manifest lib m" "final_generation (mf_Checkpoint m) (mf_Increments m) \<le> mf_Generation m"
    using assms(1) by (auto simp: grounded_def)
  note up = room_steps [OF assms(2)]
  let ?t = "take threshold (mf_Increments m)" let ?d = "drop threshold (mf_Increments m)"
  let ?cp = "\<lparr>cp_ID = cpID, cp_Publication = inc_Publication l, cp_ThroughGeneration = inc_Generation l, cp_Head = inc_Head l,
    cp_Key = key, cp_SHA256 = pk_SHA256 pack, cp_Size = pack_size pack\<rparr>"
  let ?r = "\<lparr>ret_RetiredAtGeneration = mf_Generation m + 1, ret_Head = inc_Head l, ret_Checkpoint = mf_Checkpoint m, ret_Increments = ?t\<rparr>"
  let ?rs = "?r # mf_Retained m"
  define n where "n = compactManifest rc m plan cpID key pack"
  have nf: "mf_Version n = mf_Version m" "mf_Generation n = mf_Generation m + 1" "mf_Checkpoint n = ?cp" "mf_Increments n = ?d"
    "mf_Head n = tail_head (inc_Head l) ?d" "mf_Retained n = take rc ?rs"
    by (simp_all add: n_def compactManifest_def Let_def l tail_head_def)
  have ch: "inc_chain (cp_Head (mf_Checkpoint m)) (cp_ThroughGeneration (mf_Checkpoint m)) (?t @ ?d)" "chain_ok (mf_Checkpoint m) (mf_Increments m)"
    using v(1) by (auto simp: valid_manifest_def chain_ok_def)
  have ct: "inc_chain (cp_Head (mf_Checkpoint m)) (cp_ThroughGeneration (mf_Checkpoint m)) ?t" "inc_chain (inc_Head l) (inc_Generation l) ?d"
    using ch(1) l(1,2) by (simp_all only: inc_chain_append if_False tail_head_def)
  have cut: "inc_Generation l \<le> mf_Generation m"
  proof -
    have "inc_Generation l \<le> inc_Generation (last (mf_Increments m))"
      using inc_chain_below_last [OF _ l(3)] ch(2) by (auto simp: chain_ok_def)
    moreover have "mf_Increments m \<noteq> []" using l(3) by auto
    ultimately show ?thesis using v(3) by (simp add: final_generation_def)
  qed
  have key: "Key_String lib key \<notin> set (manifest_keys lib m)"
    unfolding assms(9) by (rule fresh_checkpoint_key [OF assms(1,7)])
  have chain: "chain_ok ?cp ?d" using ct(2) assms(8,9) l(5) by (auto simp: chain_ok_def real_pack_def word_gt_0)
  have "retained_ok (mf_Generation m + 1 + 1) ?rs"
    using up ct(1) ch(2) cut l(1,2) v(1) by (auto simp: chain_ok_def final_generation_def tail_head_def valid_manifest_def)
  then have ret: "retained_ok (mf_Generation m + 1 + 1) (take rc ?rs)" by (rule retained_ok_take)
  have keys: "distinct (manifest_keys lib n)"
  proof -
    let ?ks = "chain_keys lib ?cp ?d @ retained_keys lib ?rs"
    have split: "map f (mf_Increments m) = map f ?t @ map f ?d" for f :: "Increment \<Rightarrow> bytes" by (metis append_take_drop_id map_append)
    have "mset ?ks = add_mset (Key_String lib key) (mset (manifest_keys lib m))"
      by (simp add: manifest_keys_def chain_keys_def retained_parts split)
    then have "distinct ?ks" using key v(1) by (metis distinct.simps(2) mset.simps(2) mset_eq_imp_distinct_iff valid_manifest_def)
    then show ?thesis using retained_take(1) [of lib ?rs rc] by (auto simp: manifest_keys_def nf)
  qed
  have ids: "distinct (cpID # retained_ids (take rc ?rs))"
    using v(1) assms(7) by (auto simp: retained_take(3) retained_parts(2) valid_manifest_def fresh_cp_def checkpointIn_ids dest: in_set_takeD)
  have "set (manifest_pubs n) \<subseteq> set (manifest_pubs m)"
  proof -
    let ?f = "\<lambda>inc. (inc_Publication inc, inc_Head inc)"
    have old: "?f ` set (mf_Increments m) \<subseteq> set (manifest_pubs m)"
      by (simp add: manifest_pubs_def chain_pubs_def image_Un subset_iff)
    have "?f ` set ?d \<subseteq> ?f ` set (mf_Increments m)" "?f ` set ?t \<subseteq> ?f ` set (mf_Increments m)"
      by (intro image_mono set_drop_subset set_take_subset)+
    moreover have "?f l \<in> ?f ` set (mf_Increments m)" using l(3) by (rule imageI)
    ultimately have "set (chain_pubs ?cp ?d) \<subseteq> set (manifest_pubs m)" "set (chain_pubs (mf_Checkpoint m) ?t) \<subseteq> set (manifest_pubs m)"
      using old by (simp_all add: chain_pubs_def) (auto simp: manifest_pubs_def chain_pubs_def)
    moreover have "set (retained_pubs (mf_Retained m)) \<subseteq> set (manifest_pubs m)" by (simp add: manifest_pubs_def)
    moreover have "set (retained_pubs (take rc ?rs)) \<subseteq> set (chain_pubs (mf_Checkpoint m) ?t) \<union> set (retained_pubs (mf_Retained m))"
      using retained_take(2) [of rc ?rs] by (simp only: retained_parts(3) set_append Retained.select_convs)
    ultimately show ?thesis unfolding manifest_pubs_def [of n] nf set_append by blast
  qed
  then have pubs: "consistent (manifest_pubs n)" using v(1) consistent_subset by (auto simp: valid_manifest_def)
  have "valid_manifest lib n"
    using chain ret keys ids pubs up(1,3) cut unfolding valid_manifest_def nf by (auto simp: nf)
  moreover have "typed_manifest lib n"
  proof -
    have ti: "\<And>inc. inc \<in> set (mf_Increments m) \<Longrightarrow> typed_increment lib inc" using v(2) by (simp add: typed_manifest_def list_all_iff)
    have td: "\<And>inc. inc \<in> set ?d \<Longrightarrow> typed_increment lib inc" "\<And>inc. inc \<in> set ?t \<Longrightarrow> typed_increment lib inc"
      using ti in_set_dropD in_set_takeD by fast+
    have tl: "uuid7 lib (inc_Publication l)" "length (inc_Head l) = 20" using ti [OF l(3)] by (simp_all add: typed_increment_def)
    have "typed_checkpoint lib ?cp"
      using tl assms(7-9) by (simp add: typed_checkpoint_def fresh_cp_def wf_key_def PackKind_Valid_def real_pack_def)
    moreover have "length (tail_head (inc_Head l) ?d) = 20"
      using tl(2) td(1) [OF last_in_set] by (simp add: tail_head_def typed_increment_def)
    moreover have "typed_retained lib ?r" using tl(2) td(2) v(2) by (simp add: typed_retained_def typed_manifest_def list_all_iff)
    then have "list_all (typed_retained lib) ?rs" using v(2) by (simp add: typed_manifest_def)
    then have "list_all (typed_retained lib) (take rc ?rs)" using in_set_takeD by (fastforce simp: list_all_iff)
    ultimately show ?thesis using v(2) td(1) unfolding typed_manifest_def nf by (simp add: list_all_iff)
  qed
  moreover have "final_generation ?cp ?d \<le> mf_Generation m + 1"
    using cut v(3) up(1) l(8) by (auto simp: final_generation_def split: if_splits)
  ultimately show ?thesis by (simp add: grounded_def nf flip: n_def)
qed

end

section \<open>Which packs a successor references\<close>

definition chain_key_set :: "Checkpoint \<Rightarrow> Increment list \<Rightarrow> Key set" where
  "chain_key_set cp incs = insert (cp_Key cp) (inc_Key ` set incs)"

definition mkeys :: "Manifest \<Rightarrow> Key set" where
  "mkeys m = chain_key_set (mf_Checkpoint m) (mf_Increments m) \<union> (\<Union>r \<in> set (mf_Retained m). chain_key_set (ret_Checkpoint r) (ret_Increments r))"

lemma mkeys_roots: "set (manifestRoots lib m) = Key_String lib ` mkeys m"
  by (simp add: manifestRoots_def mkeys_def chain_key_set_def image_Un image_UN image_image)

text \<open>
  What every accepted successor of a manifest satisfies: it is grounded, it references nothing new but the pack of
  its own proposal, whose generation lies past the active checkpoint, the cutoff never moves back, and the
  generation counter grows.
\<close>

definition advance :: "uuid_lib \<Rightarrow> Manifest \<Rightarrow> Key \<Rightarrow> Manifest \<Rightarrow> bool" where
  "advance lib m key m' \<longleftrightarrow> grounded lib m' \<and> mkeys m' \<subseteq> insert key (mkeys m) \<and>
     cp_ThroughGeneration (mf_Checkpoint m) < key_Generation key \<and>
     cp_ThroughGeneration (mf_Checkpoint m) \<le> cp_ThroughGeneration (mf_Checkpoint m') \<and>
     mf_Generation m < mf_Generation m'"

lemma through_final: "chain_ok cp incs \<Longrightarrow> cp_ThroughGeneration cp \<le> final_generation cp incs"
  using inc_chain_above [of "cp_Head cp" "cp_ThroughGeneration cp" incs "last incs"]
  by (auto simp: final_generation_def chain_ok_def)

lemma next_past_checkpoint:
  assumes "grounded lib m" "room m"
  shows "cp_ThroughGeneration (mf_Checkpoint m) < inc_generation m"
proof -
  have c: "chain_ok (mf_Checkpoint m) (mf_Increments m)" and f: "final_generation (mf_Checkpoint m) (mf_Increments m) \<le> mf_Generation m"
    using assms(1) by (auto simp: grounded_def valid_manifest_def)
  show ?thesis
    using through_final [OF c] succ_above(1) [OF f room_steps(1) [OF assms(2)]] inc_generation_final [OF c] by simp
qed

context uuid_text
begin

lemma increment_advance:
  assumes "grounded lib m" "room m" "fresh_pub lib m pubID" "length head = 20" "real_pack pack"
    "p = increment_proposal m (mf_Generation m) (mf_Head m) head tree pack pubID"
  shows "advance lib m (pr_key p) (pr_manifest p)"
  using increment_grounded [OF assms(1-5), of tree] next_past_checkpoint [OF assms(1,2)] room_steps(1) [OF assms(2)]
  by (auto simp: advance_def assms(6)) (auto simp: increment_proposal_def Let_def mkeys_def chain_key_set_def)

lemma compacting_advance:
  assumes "grounded lib m" "room m" "fresh_pub lib m pubID" "length head = 20" "real_pack pack" "uuid7 lib cpID"
    "inc = increment_proposal m (mf_Generation m) (mf_Head m) head tree ipack pubID" "p = compacting_proposal inc pack cpID"
  shows "advance lib m (pr_key p) (pr_manifest p)"
  using compacting_grounded [OF assms(1-7)] next_past_checkpoint [OF assms(1,2)] room_steps(1) [OF assms(2)]
  by (auto simp: advance_def assms(8))
    (auto simp: assms(7) increment_proposal_def compacting_proposal_def Let_def mkeys_def chain_key_set_def)

lemma compact_advance:
  assumes "grounded lib m" "room m" "plan = planCheckpoint observed threshold" "0 < threshold"
    "threshold \<le> length (mf_Increments observed)" "prefixPresent plan m" "fresh_cp lib m cpID" "real_pack pack"
    "key = \<lparr>key_Kind = KindCheckpoint, key_Generation = pl_cutoff plan, key_ID = cpID\<rparr>"
  shows "advance lib m key (compactManifest rc m plan cpID key pack)" (is "advance lib m key ?n")
proof -
  obtain l where l: "take threshold (mf_Increments m) \<noteq> []" "last (take threshold (mf_Increments m)) = l" "l \<in> set (mf_Increments m)"
    "pl_count plan = threshold" "pl_cutoff plan = inc_Generation l" "pl_head plan = inc_Head l" "pl_publication plan = inc_Publication l"
    "threshold \<le> length (mf_Increments m)" by (rule plan_last [OF assms(3-6)])
  have "cp_ThroughGeneration (mf_Checkpoint m) < inc_Generation l"
    using inc_chain_above [OF _ l(3)] assms(1) by (auto simp: grounded_def valid_manifest_def chain_ok_def)
  moreover have "mkeys ?n \<subseteq> insert key (mkeys m)"
    using set_take_subset [of threshold "mf_Increments m"] set_drop_subset [of threshold "mf_Increments m"]
      set_take_subset [of "rc - 1" "mf_Retained m"]
    by (cases rc) (auto simp: compactManifest_def Let_def l mkeys_def chain_key_set_def)
  ultimately show ?thesis
    using compact_valid [OF assms, of rc] room_steps(1) [OF assms(2)]
    by (simp add: advance_def assms(9) l) (simp add: compactManifest_def Let_def l)
qed

lemma compact_head:
  assumes "grounded lib m" "plan = planCheckpoint observed threshold" "0 < threshold"
    "threshold \<le> length (mf_Increments observed)" "prefixPresent plan m"
  shows "mf_Head (compactManifest rc m plan cpID key pack) = mf_Head m"
proof -
  obtain l where l: "take threshold (mf_Increments m) \<noteq> []" "last (take threshold (mf_Increments m)) = l" "l \<in> set (mf_Increments m)"
    "pl_count plan = threshold" "pl_cutoff plan = inc_Generation l" "pl_head plan = inc_Head l" "pl_publication plan = inc_Publication l"
    "threshold \<le> length (mf_Increments m)" by (rule plan_last [OF assms(2-5)])
  have h: "mf_Head m = tail_head (cp_Head (mf_Checkpoint m)) (mf_Increments m)" using assms(1) by (simp add: grounded_def valid_manifest_def)
  show ?thesis
  proof (cases "drop threshold (mf_Increments m) = []")
    case True
    then have "take threshold (mf_Increments m) = mf_Increments m" by simp
    then show ?thesis using l(1,2) True by (simp add: compactManifest_def Let_def l(4,6) h tail_head_def)
  next
    case False
    then have "last (drop threshold (mf_Increments m)) = last (mf_Increments m)" by (simp add: last_drop)
    then show ?thesis using False by (auto simp: compactManifest_def Let_def l(4,6) h tail_head_def)
  qed
qed

end

definition sample_pack :: Pack where
  "sample_pack = \<lparr>pk_Data = ''pack'', pk_SHA256 = replicate 32 0, pk_ObjectCount = 3\<rparr>"

lemma sample_pack_real: "real_pack sample_pack"
  by (simp add: real_pack_def sample_pack_def pack_size_def)

lemma sample_grounded: "grounded canonical_uuid sample_manifest" "room sample_manifest"
  using sample_manifest_ok
  by (simp_all add: grounded_def room_def) (simp_all add: sample_manifest_def final_generation_def sample_increment_def)

lemma sample_fresh: "fresh_pub canonical_uuid sample_manifest (sample_uuid 30)" "fresh_cp canonical_uuid sample_manifest (sample_uuid 31)"
  by code_simp+

section \<open>Properties\<close>

text \<open>A proposal for an increment, built from a grounded manifest with a fresh publication ID, is a valid manifest
  again: its increment continues the chain on the observed head, records the publication, and references one new
  pack past the active checkpoint.\<close>

theorem increment_manifest_valid:
  assumes "uuid_text lib" "grounded lib m" "room m" "fresh_pub lib m pubID" "length head = 20" "real_pack pack"
    "p = increment_proposal m (mf_Generation m) (mf_Head m) head tree pack pubID"
  shows "advance lib m (pr_key p) (pr_manifest p) \<and> publicationIn (pr_manifest p) pubID \<and>
    inc_Parent (last (mf_Increments (pr_manifest p))) = mf_Head m \<and>
    inc_Generation (last (mf_Increments (pr_manifest p))) = final_generation (mf_Checkpoint m) (mf_Increments m) + 1"
  using uuid_text.increment_advance [OF assms] inc_generation_final [of m] assms(2)
  by (simp add: assms(7) increment_proposal_def Let_def publicationIn_def grounded_def valid_manifest_def)

theorem increment_manifest_valid_witness:
  "let p = increment_proposal sample_manifest 4 (sample_oid 22) (sample_oid 23) (sample_oid 7) sample_pack (sample_uuid 30) in
   advance canonical_uuid sample_manifest (pr_key p) (pr_manifest p) \<and> publicationIn (pr_manifest p) (sample_uuid 30)"
proof -
  have g: "mf_Generation sample_manifest = 4" "mf_Head sample_manifest = sample_oid 22" by (simp_all add: sample_manifest_def)
  show ?thesis
    using increment_manifest_valid [OF cuuid.uuid_text_axioms sample_grounded sample_fresh(1) _ sample_pack_real refl, of "sample_oid 23" "sample_oid 7"]
    by (simp add: g Let_def sample_oid_def)
qed

text \<open>The manifest that replaces a prefix of the tail by a checkpoint is valid, keeps the accepted head and every
  later increment, records the checkpoint, and references one new pack past the old checkpoint, whatever was
  appended after the prefix was selected.\<close>

theorem compaction_manifest_valid:
  assumes "uuid_text lib" "grounded lib m" "room m" "plan = planCheckpoint observed threshold" "0 < threshold"
    "threshold \<le> length (mf_Increments observed)" "prefixPresent plan m" "fresh_cp lib m cpID" "real_pack pack"
    "key = \<lparr>key_Kind = KindCheckpoint, key_Generation = pl_cutoff plan, key_ID = cpID\<rparr>"
    "n = compactManifest rc m plan cpID key pack"
  shows "advance lib m key n \<and> mf_Head n = mf_Head m \<and> checkpointIn n cpID \<and>
    mf_Increments n = drop threshold (mf_Increments m) \<and> length (mf_Retained n) \<le> rc"
  using uuid_text.compact_advance [OF assms(1-10), of rc] uuid_text.compact_head [OF assms(1,2,4-7), of rc cpID key pack]
  by (simp add: assms(11)) (simp add: compactManifest_def Let_def checkpointIn_def assms(4) planCheckpoint_def)

theorem compaction_manifest_valid_witness:
  "let plan = planCheckpoint sample_manifest 1;
       key = \<lparr>key_Kind = KindCheckpoint, key_Generation = pl_cutoff plan, key_ID = sample_uuid 31\<rparr>;
       n = compactManifest 1 sample_manifest plan (sample_uuid 31) key sample_pack in
   advance canonical_uuid sample_manifest key n \<and> mf_Head n = mf_Head sample_manifest"
proof -
  have t: "1 \<le> length (mf_Increments sample_manifest)" "prefixPresent (planCheckpoint sample_manifest 1) sample_manifest"
    by (simp_all add: sample_manifest_def prefixPresent_def planCheckpoint_def Let_def)
  show ?thesis
    using compaction_manifest_valid [OF cuuid.uuid_text_axioms sample_grounded refl zero_less_one t sample_fresh(2) sample_pack_real refl refl, of 1]
    by (simp add: Let_def)
qed

text \<open>The first publication and a commit published as a compacting checkpoint are valid manifests too.\<close>

theorem checkpoint_proposals_valid:
  assumes "uuid_text lib" "uuid7 lib pubID" "uuid7 lib cpID" "length head = 20" "real_pack pack"
  shows "grounded lib (pr_manifest (first_proposal head tree pack pubID cpID)) \<and>
    (\<forall>m ipack. grounded lib m \<longrightarrow> room m \<longrightarrow> fresh_pub lib m pubID \<longrightarrow>
      (let p = compacting_proposal (increment_proposal m (mf_Generation m) (mf_Head m) head tree ipack pubID) pack cpID in
       advance lib m (pr_key p) (pr_manifest p) \<and> mkeys (pr_manifest p) = {pr_key p}))"
proof (intro conjI allI impI)
  show "grounded lib (pr_manifest (first_proposal head tree pack pubID cpID))"
    by (rule uuid_text.first_grounded [OF assms])
  fix m ipack assume "grounded lib m" "room m" "fresh_pub lib m pubID"
  then show "let p = compacting_proposal (increment_proposal m (mf_Generation m) (mf_Head m) head tree ipack pubID) pack cpID in
       advance lib m (pr_key p) (pr_manifest p) \<and> mkeys (pr_manifest p) = {pr_key p}"
    using uuid_text.compacting_advance [OF assms(1) _ _ _ assms(4,5,3) refl refl, of m pubID tree ipack]
    by (simp add: Let_def) (simp add: compacting_proposal_def mkeys_def chain_key_set_def Let_def)
qed

theorem checkpoint_proposals_valid_witness:
  "grounded canonical_uuid (pr_manifest (first_proposal (sample_oid 1) (sample_oid 2) sample_pack (sample_uuid 30) (sample_uuid 31)))"
proof -
  have "uuid7 canonical_uuid (sample_uuid 30)" "uuid7 canonical_uuid (sample_uuid 31)" "length (sample_oid 1) = 20"
    using sample_fresh by (simp_all add: fresh_pub_def fresh_cp_def sample_oid_def)
  then show ?thesis using checkpoint_proposals_valid [OF cuuid.uuid_text_axioms _ _ _ sample_pack_real] by blast
qed

end
