(* ===== verification/Protocol.thy ===== *)
theory Protocol
  imports Publication
begin

text \<open>
  The storage protocol under concurrency: any number of writers, checkpoint workers and cleaners of
  \<open>internal/notebook\<close> interleave over one store, and each may stop at any point. One step is one call on the
  store (or the local decision between two calls):

    \<^item> \<open>observe\<close>: the manifest read of \<open>readCurrent\<close>;
    \<^item> \<open>offer_first\<close>, \<open>offer_increment\<close>, \<open>offer_compacting\<close>: \<open>buildProposal\<close> and \<open>uploadProposal\<close>;
    \<^item> \<open>accept\<close>, \<open>lose\<close>: the conditional write of \<open>publish\<close>, won or lost; a lost compaction deletes its own pack
      (\<open>discardCompaction\<close>);
    \<^item> \<open>plan\<close>, \<open>reread\<close>, \<open>accept_checkpoint\<close>, \<open>lose_checkpoint\<close>: the upload, the re-read and the conditional write
      in the retry loop of \<open>runCheckpoint\<close>;
    \<^item> \<open>sweep\<close>, \<open>roots\<close>, \<open>delete\<close>: \<open>cleanupPacks\<close> after an accepted checkpoint, its roots re-read before a batch, and the
      deletion of any part of the batch;
    \<^item> \<open>stop\<close>: the process crashes, gives up, or never learns the outcome of its write.

  The manifests offered are the ones of \<open>Publication\<close>. Versions stand for ETags, IDs are drawn fresh, and a proposal
  is only made while the generation counter has room.
\<close>

section \<open>The world\<close>

datatype proc =
    Idle
  | Seen "(Manifest \<times> nat) option"
  | Offered "nat option" Key Manifest bool
  | Accepted Manifest
  | Planned checkpointPlan uuid Key Pack
  | CpOffered checkpointPlan uuid Key Pack nat Manifest
  | Sweeping u64
  | Doomed u64 "Key set"

record world =
  w_cur :: "(Manifest \<times> nat) option"
  w_next :: nat
  w_packs :: "Key set"
  w_used :: "uuid set"
  w_procs :: "nat \<Rightarrow> proc"

definition initial :: world where
  "initial = \<lparr>w_cur = None, w_next = 0, w_packs = {}, w_used = {}, w_procs = (\<lambda>_. Idle)\<rparr>"

definition set_proc :: "nat \<Rightarrow> proc \<Rightarrow> world \<Rightarrow> world" where
  "set_proc i p w = w\<lparr>w_procs := (w_procs w)(i := p)\<rparr>"

definition store_pack :: "Key \<Rightarrow> uuid set \<Rightarrow> world \<Rightarrow> world" where
  "store_pack key ids w = w\<lparr>w_packs := insert key (w_packs w), w_used := ids \<union> w_used w\<rparr>"

definition drop_packs :: "Key set \<Rightarrow> world \<Rightarrow> world" where
  "drop_packs D w = w\<lparr>w_packs := w_packs w - D\<rparr>"

definition set_current :: "Manifest \<Rightarrow> world \<Rightarrow> world" where
  "set_current m w = w\<lparr>w_cur := Some (m, w_next w), w_next := w_next w + 1\<rparr>"

definition fresh_ids :: "uuid_lib \<Rightarrow> uuid set \<Rightarrow> world \<Rightarrow> bool" where
  "fresh_ids lib ids w \<longleftrightarrow> (\<forall>i \<in> ids. uuid7 lib i) \<and> ids \<inter> w_used w = {}"

abbreviation through :: "Manifest \<Rightarrow> u64" where
  "through m \<equiv> cp_ThroughGeneration (mf_Checkpoint m)"

section \<open>Steps\<close>

inductive step :: "uuid_lib \<Rightarrow> nat \<Rightarrow> nat \<Rightarrow> world \<Rightarrow> world \<Rightarrow> bool" for lib rc th where
  observe: "w_procs w i = Idle \<Longrightarrow> step lib rc th w (set_proc i (Seen (w_cur w)) w)"
| offer_first:
    "w_procs w i = Seen None \<Longrightarrow> fresh_ids lib {pubID, cpID} w \<Longrightarrow> length head = 20 \<Longrightarrow> real_pack pack \<Longrightarrow>
     p = first_proposal head tree pack pubID cpID \<Longrightarrow>
     step lib rc th w (set_proc i (Offered None (pr_key p) (pr_manifest p) False) (store_pack (pr_key p) {pubID, cpID} w))"
| offer_increment:
    "w_procs w i = Seen (Some (m, v)) \<Longrightarrow> room m \<Longrightarrow> fresh_ids lib {pubID} w \<Longrightarrow> length head = 20 \<Longrightarrow> real_pack pack \<Longrightarrow>
     p = increment_proposal m (mf_Generation m) (mf_Head m) head tree pack pubID \<Longrightarrow>
     step lib rc th w (set_proc i (Offered (Some v) (pr_key p) (pr_manifest p) False) (store_pack (pr_key p) {pubID} w))"
| offer_compacting:
    "w_procs w i = Seen (Some (m, v)) \<Longrightarrow> room m \<Longrightarrow> fresh_ids lib {pubID, cpID} w \<Longrightarrow> length head = 20 \<Longrightarrow> real_pack pack \<Longrightarrow>
     p = compacting_proposal (increment_proposal m (mf_Generation m) (mf_Head m) head tree ipack pubID) pack cpID \<Longrightarrow>
     step lib rc th w (set_proc i (Offered (Some v) (pr_key p) (pr_manifest p) True) (store_pack (pr_key p) {pubID, cpID} w))"
| accept:
    "w_procs w i = Offered obs key m' compacting \<Longrightarrow> obs = map_option snd (w_cur w) \<Longrightarrow>
     step lib rc th w (set_proc i (Accepted m') (set_current m' w))"
| lose:
    "w_procs w i = Offered obs key m' compacting \<Longrightarrow> obs \<noteq> map_option snd (w_cur w) \<Longrightarrow>
     step lib rc th w (set_proc i Idle (if compacting then drop_packs {key} w else w))"
| plan:
    "w_procs w i = Accepted m \<Longrightarrow> 0 < th \<Longrightarrow> th \<le> length (mf_Increments m) \<Longrightarrow> pl = planCheckpoint m th \<Longrightarrow> fresh_ids lib {cpID} w \<Longrightarrow>
     real_pack pack \<Longrightarrow> key = \<lparr>key_Kind = KindCheckpoint, key_Generation = pl_cutoff pl, key_ID = cpID\<rparr> \<Longrightarrow>
     step lib rc th w (set_proc i (Planned pl cpID key pack) (store_pack key {cpID} w))"
| reread:
    "w_procs w i = Planned pl cpID key pack \<Longrightarrow> w_cur w = Some (m, v) \<Longrightarrow> prefixPresent pl m \<Longrightarrow> room m \<Longrightarrow>
     step lib rc th w (set_proc i (CpOffered pl cpID key pack v (compactManifest rc m pl cpID key pack)) w)"
| accept_checkpoint:
    "w_procs w i = CpOffered pl cpID key pack v n \<Longrightarrow> map_option snd (w_cur w) = Some v \<Longrightarrow>
     step lib rc th w (set_proc i (Accepted n) (set_current n w))"
| lose_checkpoint:
    "w_procs w i = CpOffered pl cpID key pack v n \<Longrightarrow> map_option snd (w_cur w) \<noteq> Some v \<Longrightarrow>
     step lib rc th w (set_proc i (Planned pl cpID key pack) w)"
| sweep: "w_procs w i = Accepted m \<Longrightarrow> step lib rc th w (set_proc i (Sweeping (through m)) w)"
| roots:
    "w_procs w i = Sweeping c \<Longrightarrow> w_cur w = Some (m, v) \<Longrightarrow> (\<And>k. k \<in> D \<Longrightarrow> key_Generation k \<le> c \<and> k \<notin> mkeys m) \<Longrightarrow>
     step lib rc th w (set_proc i (Doomed c D) w)"
| delete: "w_procs w i = Doomed c D \<Longrightarrow> D' \<subseteq> D \<Longrightarrow> step lib rc th w (set_proc i (Sweeping c) (drop_packs D' w))"
| stop: "step lib rc th w (set_proc i Idle w)"

inductive_cases step_E: "step lib rc th w w'"

inductive reachable :: "uuid_lib \<Rightarrow> nat \<Rightarrow> nat \<Rightarrow> world \<Rightarrow> bool" for lib rc th where
  start: "reachable lib rc th initial"
| more: "reachable lib rc th w \<Longrightarrow> step lib rc th w w' \<Longrightarrow> reachable lib rc th w'"

section \<open>IDs\<close>

definition mids :: "Manifest \<Rightarrow> uuid set" where
  "mids m = {i. publicationIn m i} \<union> {i. checkpointIn m i}"

definition newest_pub :: "Manifest \<Rightarrow> uuid" where
  "newest_pub m = (if mf_Increments m = [] then cp_Publication (mf_Checkpoint m) else inc_Publication (last (mf_Increments m)))"

text \<open>The IDs a process has drawn and that no accepted manifest names yet.\<close>

definition own :: "proc \<Rightarrow> uuid set" where
  "own p = (case p of Offered obs key m' b \<Rightarrow> {key_ID key, newest_pub m'} | Planned pl cpID key pack \<Rightarrow> {cpID}
     | CpOffered pl cpID key pack v n \<Rightarrow> {cpID} | _ \<Rightarrow> {})"

lemma own_simps [simp]: "own Idle = {}" "own (Seen ob) = {}" "own (Offered obs key m' b) = {key_ID key, newest_pub m'}"
  "own (Accepted m) = {}" "own (Planned pl cpID key pack) = {cpID}" "own (CpOffered pl cpID key pack v n) = {cpID}"
  "own (Sweeping c) = {}" "own (Doomed c D) = {}"
  by (simp_all add: own_def)

lemma world_simps [simp]:
  "w_cur (set_proc i p w) = w_cur w" "w_next (set_proc i p w) = w_next w" "w_packs (set_proc i p w) = w_packs w"
  "w_used (set_proc i p w) = w_used w" "w_procs (set_proc i p w) = (w_procs w)(i := p)"
  "w_cur (store_pack k ids w) = w_cur w" "w_next (store_pack k ids w) = w_next w" "w_packs (store_pack k ids w) = insert k (w_packs w)"
  "w_used (store_pack k ids w) = ids \<union> w_used w" "w_procs (store_pack k ids w) = w_procs w"
  "w_cur (drop_packs D w) = w_cur w" "w_next (drop_packs D w) = w_next w" "w_packs (drop_packs D w) = w_packs w - D"
  "w_used (drop_packs D w) = w_used w" "w_procs (drop_packs D w) = w_procs w"
  "w_cur (set_current m w) = Some (m, w_next w)" "w_next (set_current m w) = Suc (w_next w)" "w_packs (set_current m w) = w_packs w"
  "w_used (set_current m w) = w_used w" "w_procs (set_current m w) = w_procs w"
  by (simp_all add: set_proc_def store_pack_def drop_packs_def set_current_def)

lemma mids_iff: "i \<in> mids m \<longleftrightarrow> publicationIn m i \<or> checkpointIn m i"
  by (simp add: mids_def)

definition chain_ids :: "Checkpoint \<Rightarrow> Increment list \<Rightarrow> uuid set" where
  "chain_ids cp incs = {cp_ID cp, cp_Publication cp} \<union> inc_Publication ` set incs"

lemma mids_chains: "mids m = chain_ids (mf_Checkpoint m) (mf_Increments m) \<union> (\<Union>r \<in> set (mf_Retained m). chain_ids (ret_Checkpoint r) (ret_Increments r))"
  by (rule set_eqI) (simp add: mids_iff publicationIn_def checkpointIn_def chain_ids_def list_ex_iff image_iff, blast)

lemma chain_ids_mono: "set xs \<subseteq> set ys \<Longrightarrow> chain_ids cp xs \<subseteq> chain_ids cp ys"
  by (auto simp: chain_ids_def)

lemma chain_key_ids:
  assumes "chain_ok cp incs" "k \<in> chain_key_set cp incs" shows "key_ID k \<in> chain_ids cp incs"
proof -
  have "inc_chain h g xs \<Longrightarrow> inc \<in> set xs \<Longrightarrow> key_ID (inc_Key inc) = inc_Publication inc" for h g xs inc
    by (induction xs arbitrary: h g) auto
  then show ?thesis using assms by (auto simp: chain_ok_def chain_key_set_def chain_ids_def)
qed

lemma mkeys_ids:
  assumes "grounded lib m" "k \<in> mkeys m" shows "key_ID k \<in> mids m"
proof -
  have v: "chain_ok (mf_Checkpoint m) (mf_Increments m)" "retained_ok (mf_Generation m + 1) (mf_Retained m)"
    using assms(1) by (auto simp: grounded_def valid_manifest_def)
  from assms(2) consider "k \<in> chain_key_set (mf_Checkpoint m) (mf_Increments m)"
    | r where "r \<in> set (mf_Retained m)" "k \<in> chain_key_set (ret_Checkpoint r) (ret_Increments r)" by (auto simp: mkeys_def)
  then show ?thesis
  proof cases
    case 1
    then show ?thesis using chain_key_ids [OF v(1) 1] by (simp add: mids_chains)
  next
    case 2
    then show ?thesis using chain_key_ids [OF retained_ok_member [OF v(2) 2(1)] 2(2)] by (auto simp: mids_chains)
  qed
qed

lemma increment_ids:
  "mids (pr_manifest (increment_proposal m g h head tree pack pubID)) \<subseteq> insert pubID (mids m)"
  "key_ID (pr_key (increment_proposal m g h head tree pack pubID)) = pubID"
  "newest_pub (pr_manifest (increment_proposal m g h head tree pack pubID)) = pubID"
  by (auto simp: increment_proposal_def Let_def mids_iff publicationIn_def checkpointIn_def newest_pub_def)

lemma compacting_ids:
  "mids (pr_manifest (compacting_proposal inc pack cpID)) = {pr_publicationID inc, cpID}"
  "key_ID (pr_key (compacting_proposal inc pack cpID)) = cpID"
  "newest_pub (pr_manifest (compacting_proposal inc pack cpID)) = pr_publicationID inc"
  by (auto simp: compacting_proposal_def Let_def mids_iff publicationIn_def checkpointIn_def newest_pub_def)

lemma first_ids:
  "mids (pr_manifest (first_proposal head tree pack pubID cpID)) = {pubID, cpID}"
  "key_ID (pr_key (first_proposal head tree pack pubID cpID)) = cpID"
  "newest_pub (pr_manifest (first_proposal head tree pack pubID cpID)) = pubID"
  "mkeys (pr_manifest (first_proposal head tree pack pubID cpID)) = {pr_key (first_proposal head tree pack pubID cpID)}"
  by (auto simp: first_proposal_def Let_def mids_iff publicationIn_def checkpointIn_def newest_pub_def mkeys_def chain_key_set_def)

lemma compact_ids:
  assumes "pl = planCheckpoint observed th" "0 < th" "th \<le> length (mf_Increments observed)" "prefixPresent pl m"
  shows "mids (compactManifest rc m pl cpID key pack) \<subseteq> insert cpID (mids m)"
proof -
  obtain l where l: "take th (mf_Increments m) \<noteq> []" "last (take th (mf_Increments m)) = l" "l \<in> set (mf_Increments m)"
    "pl_count pl = th" "pl_cutoff pl = inc_Generation l" "pl_head pl = inc_Head l" "pl_publication pl = inc_Publication l"
    "th \<le> length (mf_Increments m)" by (rule plan_last [OF assms])
  let ?n = "compactManifest rc m pl cpID key pack" let ?C = "chain_ids (mf_Checkpoint m) (mf_Increments m)"
  let ?r = "\<lparr>ret_RetiredAtGeneration = mf_Generation m + 1, ret_Head = pl_head pl, ret_Checkpoint = mf_Checkpoint m,
    ret_Increments = take th (mf_Increments m)\<rparr>"
  have "chain_ids (mf_Checkpoint ?n) (mf_Increments ?n) \<subseteq> insert cpID ?C"
    using l(3) set_drop_subset [of th "mf_Increments m"] by (auto simp: compactManifest_def Let_def l(4,7) chain_ids_def)
  moreover have "mf_Retained ?n = take rc (?r # mf_Retained m)" by (simp add: compactManifest_def Let_def l(4))
  then have "set (mf_Retained ?n) \<subseteq> insert ?r (set (mf_Retained m))" using set_take_subset [of rc "?r # mf_Retained m"] by simp
  moreover have "chain_ids (mf_Checkpoint m) (take th (mf_Increments m)) \<subseteq> ?C" by (rule chain_ids_mono [OF set_take_subset])
  ultimately show ?thesis unfolding mids_chains [of ?n] mids_chains [of m] by fastforce
qed

section \<open>The invariant\<close>

definition needs_pack :: "world \<Rightarrow> Key \<Rightarrow> bool" where
  "needs_pack w key \<longleftrightarrow>
     (case w_cur w of None \<Rightarrow> key \<in> w_packs w | Some (m, v) \<Rightarrow> through m < key_Generation key \<longrightarrow> key \<in> w_packs w)"

definition good_plan :: "checkpointPlan \<Rightarrow> uuid \<Rightarrow> Key \<Rightarrow> Pack \<Rightarrow> nat \<Rightarrow> uuid_lib \<Rightarrow> bool" where
  "good_plan pl cpID key pack th lib \<longleftrightarrow> real_pack pack \<and> uuid7 lib cpID \<and> 0 < th \<and>
     key = \<lparr>key_Kind = KindCheckpoint, key_Generation = pl_cutoff pl, key_ID = cpID\<rparr> \<and>
     (\<exists>observed. pl = planCheckpoint observed th \<and> th \<le> length (mf_Increments observed))"

definition successor_ok :: "uuid_lib \<Rightarrow> world \<Rightarrow> uuid set \<Rightarrow> nat \<Rightarrow> Key \<Rightarrow> Manifest \<Rightarrow> bool" where
  "successor_ok lib w ids v key m' \<longleftrightarrow> v < w_next w \<and>
     (\<forall>m. w_cur w = Some (m, v) \<longrightarrow> advance lib m key m' \<and> mids m' \<subseteq> mids m \<union> ids)"

definition past_through :: "world \<Rightarrow> u64 \<Rightarrow> bool" where
  "past_through w c \<longleftrightarrow> (\<exists>m v. w_cur w = Some (m, v) \<and> c \<le> through m)"

definition proc_ok :: "uuid_lib \<Rightarrow> nat \<Rightarrow> world \<Rightarrow> proc \<Rightarrow> bool" where
  "proc_ok lib th w p =
     (case p of
        Idle \<Rightarrow> True
      | Seen ob \<Rightarrow> (case ob of None \<Rightarrow> True | Some (m, v) \<Rightarrow>
          v < w_next w \<and> grounded lib m \<and> mids m \<subseteq> w_used w \<and> (\<forall>m'. w_cur w = Some (m', v) \<longrightarrow> m' = m))
      | Offered obs key m' b \<Rightarrow> needs_pack w key \<and>
          (case obs of
             None \<Rightarrow> w_cur w = None \<longrightarrow> grounded lib m' \<and> mkeys m' = {key} \<and> mids m' \<subseteq> own p
           | Some v \<Rightarrow> successor_ok lib w (own p) v key m')
      | Accepted m \<Rightarrow> past_through w (through m)
      | Planned pl cpID key pack \<Rightarrow> good_plan pl cpID key pack th lib \<and> needs_pack w key \<and> w_cur w \<noteq> None
      | CpOffered pl cpID key pack v n \<Rightarrow>
          good_plan pl cpID key pack th lib \<and> needs_pack w key \<and> successor_ok lib w (own p) v key n \<and> w_cur w \<noteq> None
      | Sweeping c \<Rightarrow> past_through w c
      | Doomed c D \<Rightarrow> past_through w c \<and> (\<forall>m v. w_cur w = Some (m, v) \<longrightarrow> (\<forall>k \<in> D. key_Generation k \<le> c \<and> k \<notin> mkeys m)))"

definition cur_ok :: "uuid_lib \<Rightarrow> world \<Rightarrow> bool" where
  "cur_ok lib w \<longleftrightarrow>
     (\<forall>m v. w_cur w = Some (m, v) \<longrightarrow> grounded lib m \<and> mkeys m \<subseteq> w_packs w \<and> v < w_next w \<and> mids m \<subseteq> w_used w)"

definition owners_ok :: "world \<Rightarrow> bool" where
  "owners_ok w \<longleftrightarrow> (\<forall>i. own (w_procs w i) \<subseteq> w_used w) \<and>
     (\<forall>i j. i \<noteq> j \<longrightarrow> own (w_procs w i) \<inter> own (w_procs w j) = {}) \<and>
     (\<forall>i m v. w_cur w = Some (m, v) \<longrightarrow> own (w_procs w i) \<inter> mids m = {})"

definition inv :: "uuid_lib \<Rightarrow> nat \<Rightarrow> world \<Rightarrow> bool" where
  "inv lib th w \<longleftrightarrow> cur_ok lib w \<and> owners_ok w \<and> (\<forall>i. proc_ok lib th w (w_procs w i))"

lemma inv_initial: "inv lib th initial"
  by (simp add: inv_def cur_ok_def owners_ok_def proc_ok_def initial_def)

definition held :: "proc \<Rightarrow> Key set" where
  "held p = (case p of Offered obs key m' b \<Rightarrow> {key} | Planned pl cpID key pack \<Rightarrow> {key} | CpOffered pl cpID key pack v n \<Rightarrow> {key} | _ \<Rightarrow> {})"

lemma held_own: "proc_ok lib th w p \<Longrightarrow> k \<in> held p \<Longrightarrow> key_ID k \<in> own p"
  by (cases p) (auto simp: held_def proc_ok_def good_plan_def)

lemmas proc_defs = proc_ok_def needs_pack_def successor_ok_def past_through_def

lemma proc_ok_set_proc [simp]: "proc_ok lib th (set_proc i q w) p = proc_ok lib th w p"
  by (cases p) (simp_all add: proc_defs split: option.splits)

lemma proc_ok_store: "proc_ok lib th w p \<Longrightarrow> proc_ok lib th (store_pack key ids w) p"
  by (cases p) (auto simp: proc_defs split: option.splits)

lemma proc_ok_drop:
  assumes "proc_ok lib th w p" "\<And>k. k \<in> held p \<Longrightarrow> k \<in> D \<Longrightarrow> past_through w (key_Generation k)"
  shows "proc_ok lib th (drop_packs D w) p"
proof -
  have "needs_pack w k \<Longrightarrow> k \<in> held p \<Longrightarrow> needs_pack (drop_packs D w) k" for k
    using assms(2) [of k] by (auto simp: needs_pack_def past_through_def split: option.splits)
  then show ?thesis
    using assms(1) by (cases p) (auto simp: proc_ok_def held_def successor_ok_def past_through_def split: option.splits)
qed

text \<open>An accepted successor keeps every other process in order.\<close>

definition follows :: "uuid_lib \<Rightarrow> world \<Rightarrow> Manifest \<Rightarrow> bool" where
  "follows lib w m' \<longleftrightarrow> (\<forall>m v. w_cur w = Some (m, v) \<longrightarrow> (\<exists>key. advance lib m key m'))"

lemma past_through_current:
  assumes "follows lib w m'" "past_through w c" shows "c \<le> through m'"
  using assms by (fastforce simp: follows_def past_through_def advance_def)

lemma needs_pack_current:
  assumes "follows lib w m'" "needs_pack w k" shows "needs_pack (set_current m' w) k"
  using assms by (fastforce simp: follows_def needs_pack_def advance_def split: option.splits)

lemma proc_ok_current:
  assumes p: "proc_ok lib th w p" and f: "follows lib w m'"
  shows "proc_ok lib th (set_current m' w) p"
proof (cases p)
  case (Doomed c D)
  then obtain m v where m: "w_cur w = Some (m, v)" "c \<le> through m" "\<And>k. k \<in> D \<Longrightarrow> key_Generation k \<le> c \<and> k \<notin> mkeys m"
    using p by (auto simp: proc_ok_def past_through_def)
  obtain key where a: "mkeys m' \<subseteq> insert key (mkeys m)" "through m < key_Generation key" "through m \<le> through m'"
    using f m(1) by (auto simp: follows_def advance_def)
  have "k \<notin> mkeys m'" if "k \<in> D" for k
  proof -
    have "key_Generation k < key_Generation key" using m(2) m(3) [OF that] a(2) by auto
    then show ?thesis using m(3) [OF that] a(1) by auto
  qed
  then show ?thesis using m a(3) Doomed by (auto simp: proc_ok_def past_through_def)
next
  case (Seen ob)
  then show ?thesis using p by (cases ob) (auto simp: proc_ok_def)
next
  case (Offered obs key n b)
  then show ?thesis using p needs_pack_current [OF f] by (cases obs) (auto simp: proc_ok_def successor_ok_def)
qed (use p f past_through_current [OF f] needs_pack_current [OF f] in \<open>auto simp: proc_ok_def successor_ok_def past_through_def\<close>)

section \<open>Preservation\<close>

lemma inv_quiet:
  assumes "inv lib th w" "proc_ok lib th w p" "own p \<subseteq> own (w_procs w i)"
  shows "inv lib th (set_proc i p w)"
proof -
  have "owners_ok (set_proc i p w)" using assms(1,3) unfolding inv_def owners_ok_def by (fastforce split: if_splits)
  then show ?thesis using assms(1,2) by (simp add: inv_def cur_ok_def)
qed

lemma inv_offer:
  assumes "inv lib th w" "proc_ok lib th (store_pack key ids w) p" "own p \<subseteq> ids" "ids \<inter> w_used w = {}"
  shows "inv lib th (set_proc i p (store_pack key ids w))"
proof -
  have used: "own (w_procs w j) \<subseteq> w_used w" "w_cur w = Some (m, v) \<Longrightarrow> mids m \<subseteq> w_used w" for j m v
    using assms(1) by (auto simp: inv_def owners_ok_def cur_ok_def)
  have "own p \<inter> own (w_procs w j) = {}" "w_cur w = Some (m, v) \<Longrightarrow> own p \<inter> mids m = {}" for j m v
    using used assms(3,4) by blast+
  then have "owners_ok (set_proc i p (store_pack key ids w))"
    using assms(1,3) unfolding inv_def owners_ok_def by (auto split: if_splits)
  moreover have "cur_ok lib (set_proc i p (store_pack key ids w))" using assms(1) by (auto simp: inv_def cur_ok_def)
  ultimately show ?thesis using assms(1,2) proc_ok_store by (simp add: inv_def)
qed

lemma inv_drop:
  assumes "inv lib th w" "\<And>m v. w_cur w = Some (m, v) \<Longrightarrow> D \<inter> mkeys m = {}"
    "\<And>j k. j \<noteq> i \<Longrightarrow> k \<in> held (w_procs w j) \<Longrightarrow> k \<in> D \<Longrightarrow> past_through w (key_Generation k)"
    "proc_ok lib th (drop_packs D w) p" "own p = {}"
  shows "inv lib th (set_proc i p (drop_packs D w))"
proof -
  have "cur_ok lib (set_proc i p (drop_packs D w))" using assms(1,2) by (fastforce simp: inv_def cur_ok_def)
  moreover have "owners_ok (set_proc i p (drop_packs D w))" using assms(1,5) by (auto simp: inv_def owners_ok_def)
  moreover have "proc_ok lib th (drop_packs D w) (w_procs w j)" if "j \<noteq> i" for j
    using proc_ok_drop [of lib th w "w_procs w j" D] assms(1,3) that by (auto simp: inv_def)
  ultimately show ?thesis using assms(4) by (simp add: inv_def)
qed

lemma inv_accept:
  assumes "inv lib th w" "grounded lib m'" "follows lib w m'" "mkeys m' \<subseteq> w_packs w"
    "\<And>m v. w_cur w = Some (m, v) \<Longrightarrow> mids m' \<subseteq> mids m \<union> own (w_procs w i)"
    "w_cur w = None \<Longrightarrow> mids m' \<subseteq> own (w_procs w i)"
  shows "inv lib th (set_proc i (Accepted m') (set_current m' w))"
proof -
  have o: "owners_ok w" and c: "cur_ok lib w" and p: "\<And>j. proc_ok lib th w (w_procs w j)" using assms(1) by (auto simp: inv_def)
  have oi: "own (w_procs w i) \<subseteq> w_used w" and oj: "\<And>j. j \<noteq> i \<Longrightarrow> own (w_procs w j) \<inter> own (w_procs w i) = {}"
    using o by (auto simp: owners_ok_def)
  have sub: "mids m' \<subseteq> w_used w \<and> (\<forall>j. j \<noteq> i \<longrightarrow> own (w_procs w j) \<inter> mids m' = {})"
  proof (cases "w_cur w")
    case None
    then show ?thesis using assms(6) oi oj by blast
  next
    case (Some mv)
    obtain m v where mv: "mv = (m, v)" by fastforce
    have "mids m \<subseteq> w_used w" "\<And>j. own (w_procs w j) \<inter> mids m = {}" using c o Some mv by (auto simp: cur_ok_def owners_ok_def)
    then show ?thesis using assms(5) [of m v] Some mv oi oj by blast
  qed
  have "cur_ok lib (set_proc i (Accepted m') (set_current m' w))" using assms(2,4) sub by (simp add: cur_ok_def)
  moreover have "owners_ok (set_proc i (Accepted m') (set_current m' w))" using o sub by (auto simp: owners_ok_def)
  moreover have "proc_ok lib th (set_current m' w) (Accepted m')" by (auto simp: proc_ok_def past_through_def)
  ultimately show ?thesis using proc_ok_current [OF p assms(3)] by (simp add: inv_def)
qed

lemma needs_pack_stored: "needs_pack (store_pack key ids w) key"
  by (auto simp: needs_pack_def split: option.splits)

lemma fresh_for:
  assumes "fresh_ids lib ids w" "mids m \<subseteq> w_used w" "i \<in> ids"
  shows "fresh_pub lib m i" "fresh_cp lib m i"
proof -
  have "uuid7 lib i" "i \<notin> mids m" using assms by (auto simp: fresh_ids_def)
  then show "fresh_pub lib m i" "fresh_cp lib m i" by (auto simp: fresh_pub_def fresh_cp_def mids_iff)
qed

lemma successor_stored:
  assumes "v < w_next w" "\<And>m'. w_cur w = Some (m', v) \<Longrightarrow> m' = m" "advance lib m key n" "mids n \<subseteq> mids m \<union> ids"
  shows "successor_ok lib (store_pack key ids' w) ids v key n"
  using assms by (auto simp: successor_ok_def)

lemma offered_accept:
  assumes i: "inv lib th w" and p: "proc_ok lib th w (w_procs w i)"
    and n: "needs_pack w key" and s: "successor_ok lib w (own (w_procs w i)) v key m'" and c: "w_cur w = Some (m, v)"
  shows "inv lib th (set_proc i (Accepted m') (set_current m' w))"
proof -
  have a: "advance lib m key m'" "mids m' \<subseteq> mids m \<union> own (w_procs w i)" using s c by (auto simp: successor_ok_def)
  have "mkeys m \<subseteq> w_packs w" using i c by (auto simp: inv_def cur_ok_def)
  moreover have "key \<in> w_packs w" using n c a(1) by (auto simp: needs_pack_def advance_def)
  ultimately have "mkeys m' \<subseteq> w_packs w" using a(1) by (auto simp: advance_def)
  then show ?thesis using a c by (intro inv_accept [OF i]) (auto simp: follows_def advance_def)
qed

lemma inv_proc: "inv lib th w \<Longrightarrow> w_procs w i = p \<Longrightarrow> proc_ok lib th w p"
  by (auto simp: inv_def)

lemma seen_facts:
  assumes "inv lib th w" "w_procs w i = Seen (Some (m, v))"
  shows "v < w_next w" "grounded lib m" "mids m \<subseteq> w_used w" "w_cur w = Some (m', v) \<Longrightarrow> m' = m"
  using inv_proc [OF assms] by (auto simp: proc_ok_def)

lemma inv_offer_successor:
  assumes "inv lib th w" "w_procs w i = Seen (Some (m, v))" "advance lib m key n" "fresh_ids lib ids w"
    "key_ID key \<in> ids" "newest_pub n \<in> ids" "mids n \<subseteq> mids m \<union> {key_ID key, newest_pub n}"
  shows "inv lib th (set_proc i (Offered (Some v) key n b) (store_pack key ids w))"
proof -
  note seen = seen_facts [OF assms(1,2)]
  have "successor_ok lib (store_pack key ids w) {key_ID key, newest_pub n} v key n"
    by (rule successor_stored [OF seen(1,4) assms(3,7)])
  then show ?thesis using assms(4-6) needs_pack_stored
    by (intro inv_offer [OF assms(1)]) (auto simp: proc_ok_def fresh_ids_def)
qed

lemma inv_lose:
  assumes i: "inv lib th w" and p: "w_procs w i = Offered obs key m' b"
  shows "inv lib th (set_proc i Idle (if b then drop_packs {key} w else w))"
proof (cases b)
  case False
  then show ?thesis using inv_quiet [OF i, of Idle i] by (simp add: proc_ok_def)
next
  case True
  have mine: "key_ID key \<in> own (w_procs w i)" by (simp add: p)
  have "{key} \<inter> mkeys m = {}" if c: "w_cur w = Some (m, v)" for m v
  proof -
    have "grounded lib m" "own (w_procs w i) \<inter> mids m = {}" using i c by (auto simp: inv_def cur_ok_def owners_ok_def)
    then show ?thesis using mine mkeys_ids by blast
  qed
  moreover have "k \<notin> held (w_procs w j)" if "j \<noteq> i" "k \<in> {key}" for j k
  proof
    assume "k \<in> held (w_procs w j)"
    then have "key_ID key \<in> own (w_procs w j)" using held_own inv_proc [OF i refl] that(2) by blast
    moreover have "own (w_procs w j) \<inter> own (w_procs w i) = {}" using i that(1) unfolding inv_def owners_ok_def by blast
    ultimately show False using mine by blast
  qed
  ultimately have "inv lib th (set_proc i Idle (drop_packs {key} w))"
    by (intro inv_drop [OF i]) (auto simp: proc_ok_def)
  then show ?thesis using True by simp
qed

lemma inv_delete:
  assumes i: "inv lib th w" and p: "w_procs w i = Doomed c D" and sub: "D' \<subseteq> D"
  shows "inv lib th (set_proc i (Sweeping c) (drop_packs D' w))"
proof -
  obtain m v where c: "w_cur w = Some (m, v)" "c \<le> through m" "\<And>k. k \<in> D \<Longrightarrow> key_Generation k \<le> c \<and> k \<notin> mkeys m"
    using inv_proc [OF i p] by (auto simp: proc_ok_def past_through_def)
  have "past_through w (key_Generation k)" if "k \<in> D'" for k
    using c(1,2) c(3) [of k] subsetD [OF sub that] by (auto simp: past_through_def)
  then show ?thesis using c sub
    by (intro inv_drop [OF i]) (auto simp: proc_ok_def past_through_def)
qed

context uuid_text
begin

lemma inv_reread:
  assumes i: "inv lib th w" and p: "w_procs w i = Planned pl cpID key pack" and c: "w_cur w = Some (m, v)"
    and pre: "prefixPresent pl m" "room m"
  shows "inv lib th (set_proc i (CpOffered pl cpID key pack v (compactManifest rc m pl cpID key pack)) w)"
proof -
  have g: "good_plan pl cpID key pack th lib" "needs_pack w key" using inv_proc [OF i p] by (auto simp: proc_ok_def)
  obtain observed where o: "pl = planCheckpoint observed th" "0 < th" "th \<le> length (mf_Increments observed)"
    "key = \<lparr>key_Kind = KindCheckpoint, key_Generation = pl_cutoff pl, key_ID = cpID\<rparr>" "real_pack pack" "uuid7 lib cpID"
    using g(1) by (auto simp: good_plan_def)
  have cur: "grounded lib m" "v < w_next w" "cpID \<notin> mids m"
    using i c p unfolding inv_def cur_ok_def owners_ok_def by (auto, metis insert_disjoint(1) own_simps(5))
  have "fresh_cp lib m cpID" using cur(3) o(6) by (simp add: fresh_cp_def mids_iff)
  then have "advance lib m key (compactManifest rc m pl cpID key pack)"
    by (rule compact_advance [OF cur(1) pre(2) o(1-3) pre(1) _ o(5,4)])
  moreover have "mids (compactManifest rc m pl cpID key pack) \<subseteq> mids m \<union> {cpID}" using compact_ids [OF o(1-3) pre(1), of rc cpID key pack] by blast
  ultimately have "proc_ok lib th w (CpOffered pl cpID key pack v (compactManifest rc m pl cpID key pack))"
    using g c cur(2) by (auto simp: proc_ok_def successor_ok_def)
  then show ?thesis using p by (intro inv_quiet [OF i]) auto
qed

lemma step_inv:
  assumes "step lib rc th w w'" "inv lib th w" shows "inv lib th w'"
  using assms
proof (induction rule: step.induct)
  case (observe w i)
  then show ?case by (intro inv_quiet) (auto simp: proc_ok_def inv_def cur_ok_def split: option.splits)
next
  case (offer_first w i pubID cpID head pack p tree)
  have "grounded lib (pr_manifest p)" using first_grounded offer_first by (auto simp: fresh_ids_def)
  then have "proc_ok lib th (store_pack (pr_key p) {pubID, cpID} w) (Offered None (pr_key p) (pr_manifest p) False)"
    using needs_pack_stored by (simp add: proc_ok_def offer_first.hyps(5) first_ids)
  then show ?case using offer_first.hyps(2) by (intro inv_offer [OF offer_first.prems]) (auto simp: offer_first.hyps(5) first_ids fresh_ids_def)
next
  case (offer_increment w i m v pubID head pack p tree)
  note seen = seen_facts [OF offer_increment.prems offer_increment.hyps(1)]
  have "advance lib m (pr_key p) (pr_manifest p)"
    using increment_advance [OF seen(2) offer_increment.hyps(2) fresh_for(1) [OF offer_increment.hyps(3) seen(3)]] offer_increment.hyps by simp
  then show ?case
    using increment_ids(1) [of m] by (intro inv_offer_successor [OF offer_increment.prems offer_increment.hyps(1) _ offer_increment.hyps(3)])
      (auto simp: offer_increment.hyps(6) increment_ids)
next
  case (offer_compacting w i m v pubID cpID head pack p tree ipack)
  note seen = seen_facts [OF offer_compacting.prems offer_compacting.hyps(1)]
  have "fresh_pub lib m pubID" "uuid7 lib cpID"
    using fresh_for(1) [OF offer_compacting.hyps(3) seen(3)] offer_compacting.hyps(3) by (auto simp: fresh_ids_def)
  then have "advance lib m (pr_key p) (pr_manifest p)"
    using compacting_advance [OF seen(2) offer_compacting.hyps(2) _ offer_compacting.hyps(4,5) _ refl offer_compacting.hyps(6)] by blast
  moreover have "pr_publicationID (increment_proposal m g h head tree ipack pubID) = pubID" for g h
    by (simp add: increment_proposal_def Let_def)
  ultimately show ?case
    by (intro inv_offer_successor [OF offer_compacting.prems offer_compacting.hyps(1) _ offer_compacting.hyps(3)])
      (auto simp: offer_compacting.hyps(6) compacting_ids)
next
  case (accept w i obs key m' b)
  have ok: "proc_ok lib th w (w_procs w i)" "proc_ok lib th w (Offered obs key m' b)"
    using inv_proc [OF accept.prems refl, of i] inv_proc [OF accept.prems accept.hyps(1)] by blast+
  show ?case
  proof (cases "w_cur w")
    case None
    then show ?thesis using ok(2) accept.hyps
      by (intro inv_accept [OF accept.prems]) (auto simp: proc_ok_def follows_def needs_pack_def)
  next
    case (Some mv)
    then obtain m v where c: "w_cur w = Some (m, v)" "obs = Some v" using accept.hyps(2) by (cases mv) auto
    then show ?thesis using ok accept.hyps(1) by (intro offered_accept [OF accept.prems ok(1) _ _ c(1)]) (auto simp: proc_ok_def)
  qed
next
  case (lose w i obs key m' b)
  then show ?case by (intro inv_lose)
next
  case (plan w i m pl cpID pack key)
  have "w_cur w \<noteq> None" using inv_proc [OF plan.prems plan.hyps(1)] by (auto simp: proc_ok_def past_through_def)
  then have "proc_ok lib th (store_pack key {cpID} w) (Planned pl cpID key pack)"
    using plan.hyps needs_pack_stored by (auto simp: proc_ok_def good_plan_def fresh_ids_def)
  then show ?case using plan.hyps(5) by (intro inv_offer [OF plan.prems]) (auto simp: fresh_ids_def)
next
  case (reread w i pl cpID key pack m v)
  then show ?case by (intro inv_reread)
next
  case (accept_checkpoint w i pl cpID key pack v n)
  have ok: "proc_ok lib th w (w_procs w i)" "proc_ok lib th w (CpOffered pl cpID key pack v n)"
    using inv_proc [OF accept_checkpoint.prems refl, of i] inv_proc [OF accept_checkpoint.prems accept_checkpoint.hyps(1)] by blast+
  obtain m where c: "w_cur w = Some (m, v)" using accept_checkpoint.hyps(2) by auto
  then show ?case using ok(2) accept_checkpoint.hyps(1)
    by (intro offered_accept [OF accept_checkpoint.prems ok(1) _ _ c]) (auto simp: proc_ok_def)
next
  case (lose_checkpoint w i pl cpID key pack v n)
  have "proc_ok lib th w (Planned pl cpID key pack)"
    using inv_proc [OF lose_checkpoint.prems lose_checkpoint.hyps(1)] by (auto simp: proc_ok_def)
  then show ?case using lose_checkpoint.hyps(1) by (intro inv_quiet [OF lose_checkpoint.prems]) auto
next
  case (sweep w i m)
  have "proc_ok lib th w (Sweeping (through m))" using inv_proc [OF sweep.prems sweep.hyps] by (simp add: proc_ok_def)
  then show ?case by (intro inv_quiet [OF sweep.prems]) auto
next
  case (roots w i c m v D)
  have "proc_ok lib th w (Doomed c D)" using inv_proc [OF roots.prems roots.hyps(1)] roots.hyps(2,3) by (auto simp: proc_ok_def)
  then show ?case by (intro inv_quiet [OF roots.prems]) auto
next
  case (delete w i c D D')
  then show ?case by (intro inv_delete)
next
  case (stop w i)
  then show ?case by (intro inv_quiet) (auto simp: proc_ok_def)
qed

lemma reachable_inv: "reachable lib rc th w \<Longrightarrow> inv lib th w"
  by (induction rule: reachable.induct) (auto intro: inv_initial step_inv)

lemma step_current:
  assumes "step lib rc th w w'" "inv lib th w" "w_cur w = Some (m, v)"
  shows "w_cur w' = Some (m, v) \<or> (\<exists>key m'. w_cur w' = Some (m', w_next w) \<and> advance lib m key m')"
  using assms
proof (induction rule: step.induct)
  case (accept w i obs key m' b)
  have "obs = Some v" using accept.hyps(2) accept.prems(2) by simp
  then show ?case using inv_proc [OF accept.prems(1) accept.hyps(1)] accept.prems(2) by (auto simp: proc_ok_def successor_ok_def)
next
  case (accept_checkpoint w i pl cpID key pack v' n)
  then show ?case using inv_proc [OF accept_checkpoint.prems(1) accept_checkpoint.hyps(1)] by (auto simp: proc_ok_def successor_ok_def)
qed auto

end

section \<open>A run\<close>

definition first_world :: world where
  "first_world =
     (let p = first_proposal (sample_oid 1) (sample_oid 2) sample_pack (sample_uuid 30) (sample_uuid 31) in
      set_proc 0 (Accepted (pr_manifest p)) (set_current (pr_manifest p)
        (set_proc 0 (Offered None (pr_key p) (pr_manifest p) False) (store_pack (pr_key p) {sample_uuid 30, sample_uuid 31}
          (set_proc 0 (Seen None) initial)))))"

lemma first_reachable: "reachable canonical_uuid rc th first_world"
proof -
  let ?p = "first_proposal (sample_oid 1) (sample_oid 2) sample_pack (sample_uuid 30) (sample_uuid 31)"
  let ?w1 = "set_proc 0 (Seen None) initial"
  let ?w2 = "set_proc 0 (Offered None (pr_key ?p) (pr_manifest ?p) False) (store_pack (pr_key ?p) {sample_uuid 30, sample_uuid 31} ?w1)"
  have "step canonical_uuid rc th initial (set_proc 0 (Seen (w_cur initial)) initial)" by (rule observe) (simp add: initial_def)
  then have r1: "reachable canonical_uuid rc th ?w1" using more [OF start] by (simp add: initial_def)
  have u: "uuid7 canonical_uuid (sample_uuid 30)" "uuid7 canonical_uuid (sample_uuid 31)"
    using sample_fresh by (simp_all add: fresh_pub_def fresh_cp_def)
  have "step canonical_uuid rc th ?w1 ?w2"
    by (rule offer_first) (use u sample_pack_real in \<open>simp_all add: fresh_ids_def initial_def sample_oid_def\<close>)
  then have r2: "reachable canonical_uuid rc th ?w2" by (rule more [OF r1])
  have "step canonical_uuid rc th ?w2 (set_proc 0 (Accepted (pr_manifest ?p)) (set_current (pr_manifest ?p) ?w2))"
    by (rule accept [where obs = None and key = "pr_key ?p" and compacting = False]) (simp_all add: initial_def)
  then show ?thesis using more [OF r2] by (simp add: first_world_def Let_def)
qed

section \<open>Properties\<close>

text \<open>C1: under every interleaving of writers, checkpoint workers, cleaners and crashes, the current manifest is valid
  and every pack it references is stored: cleanup and discarded compactions never delete a referenced pack, and no
  manifest is accepted before its pack.\<close>

theorem protocol_packs_present:
  assumes "uuid_text lib" "reachable lib rc th w" "w_cur w = Some (m, v)"
  shows "grounded lib m \<and> mkeys m \<subseteq> w_packs w"
  using uuid_text.reachable_inv [OF assms(1,2)] assms(3) by (auto simp: inv_def cur_ok_def)

theorem protocol_packs_present_witness:
  "\<exists>m v. w_cur first_world = Some (m, v) \<and> mkeys m \<subseteq> w_packs first_world \<and> mkeys m \<noteq> {}"
proof -
  obtain m v where c: "w_cur first_world = Some (m, v)" by (simp add: first_world_def Let_def)
  have "mkeys m \<noteq> {}" by (simp add: mkeys_def chain_key_set_def)
  then show ?thesis using protocol_packs_present [OF cuuid.uuid_text_axioms first_reachable c] c by blast
qed

text \<open>C2: the accepted state only moves forward: a step leaves the current manifest alone or replaces it by a successor
  built on exactly that manifest, with a larger generation and no smaller cutoff, so that a reader who has seen the
  old state never meets a rollback.\<close>

theorem protocol_moves_forward:
  assumes "uuid_text lib" "reachable lib rc th w" "step lib rc th w w'" "w_cur w = Some (m, v)"
  shows "\<exists>m' v'. w_cur w' = Some (m', v') \<and> (m' = m \<and> v' = v \<or> (\<exists>key. advance lib m key m') \<and> v < v') \<and>
    CheckManifestRollback m' (mf_Generation m) = Inr ()"
proof -
  have i: "inv lib th w" by (rule uuid_text.reachable_inv [OF assms(1,2)])
  have "v < w_next w" using i assms(4) by (auto simp: inv_def cur_ok_def)
  moreover have "CheckManifestRollback m (mf_Generation m) = Inr ()" by (simp add: CheckManifestRollback_def)
  moreover have "CheckManifestRollback m' (mf_Generation m) = Inr ()" if "advance lib m key m'" for key m'
    using that by (auto simp: CheckManifestRollback_def advance_def)
  ultimately show ?thesis using uuid_text.step_current [OF assms(1,3) i assms(4)] by blast
qed

theorem protocol_moves_forward_witness:
  "\<exists>m v m' v'. w_cur first_world = Some (m, v) \<and> w_cur (set_proc 0 (Sweeping (through m)) first_world) = Some (m', v') \<and>
     CheckManifestRollback m' (mf_Generation m) = Inr ()"
proof -
  obtain m v where c: "w_cur first_world = Some (m, v)" "w_procs first_world 0 = Accepted m" by (simp add: first_world_def Let_def)
  have "step canonical_uuid 1 1 first_world (set_proc 0 (Sweeping (through m)) first_world)" by (rule sweep) (rule c(2))
  then show ?thesis using protocol_moves_forward [OF cuuid.uuid_text_axioms first_reachable _ c(1)] c(1) by blast
qed

end
