(* ===== verification/WorkspaceState.thy ===== *)
theory WorkspaceState
  imports Manifest Publication
begin

text \<open>
  The durable private record of a workspace (\<open>internal/workspace/state.go\<close>): the record, its strict
  decoding and validation, the accepted baseline it holds, and the errors of the package that
  \<open>internal/notebook\<close> classifies. As for the manifest, the bytes of the file are the token stream
  that \<open>encoding/json\<close> reads from them.

  A record that validates encodes and decodes back (\<open>state_roundtrip\<close>), and whatever the file
  holds, a decoded record gives a baseline (\<open>state_decode_sound\<close>): \<open>Workspace.Baseline\<close> drops the
  error of \<open>baseline\<close> on that ground.
\<close>

section \<open>The record\<close>

record state =
  st_Version :: int
  st_Identity :: bytes
  st_RemoteGeneration :: u64
  st_BaselineHead :: bytes
  st_BaselineTree :: bytes
  st_RecoveryRequired :: bool

datatype state_error =
    StJson json_error
  | StNotObject
  | StMissingField bytes
  | StWrongKind bytes
  | StUnsupportedVersion
  | StIdentityInvalid
  | StTreeInvalid
  | StHeadInvalid
  | StHeadAtZero
  | StHeadEmpty

text \<open>\<open>4b825dc642cb6eb9a060e54bf8d69288fbee4904\<close>, the object ID of the empty tree.\<close>

definition EmptyTreeID :: oid where
  "EmptyTreeID = [0x4b, 0x82, 0x5d, 0xc6, 0x42, 0xcb, 0x6e, 0xb9, 0xa0, 0x60, 0xe5, 0x4b, 0xf8, 0xd6, 0x92, 0x88, 0xfb, 0xee, 0x49, 0x04]"

definition newWorkspaceState :: "bytes \<Rightarrow> state" where
  "newWorkspaceState derivedKey = \<lparr>st_Version = 1, st_Identity = derivedKey, st_RemoteGeneration = 0, st_BaselineHead = [],
     st_BaselineTree = OID_String EmptyTreeID, st_RecoveryRequired = False\<rparr>"

text \<open>The zero value of the Go struct, which a workspace without a readable record starts from.\<close>

definition zero_state :: state where
  "zero_state = \<lparr>st_Version = 0, st_Identity = [], st_RemoteGeneration = 0, st_BaselineHead = [], st_BaselineTree = [],
     st_RecoveryRequired = False\<rparr>"

definition state_baseline :: "state \<Rightarrow> state_error + Baseline" where
  "state_baseline s =
     bindR (mapErr (\<lambda>_. StTreeInvalid) (ParseOID (st_BaselineTree s))) (\<lambda>tree.
     bindR (if st_BaselineHead s \<noteq> [] then mapErr (\<lambda>_. StHeadInvalid) (ParseOID (st_BaselineHead s)) else Inr zeroOID) (\<lambda>head.
     Inr \<lparr>bl_RemoteGeneration = st_RemoteGeneration s, bl_Head = head, bl_Tree = tree\<rparr>))"

definition validHex64 :: "bytes \<Rightarrow> bool" where
  "validHex64 s \<longleftrightarrow> length s = 64 \<and>
     list_all (\<lambda>c. CHR ''0'' \<le> c \<and> c \<le> CHR ''9'' \<or> CHR ''a'' \<le> c \<and> c \<le> CHR ''f'') s"

definition validateState :: "state \<Rightarrow> state_error + unit" where
  "validateState st =
     (if st_Version st \<noteq> 1 then Inl StUnsupportedVersion
      else if \<not> validHex64 (st_Identity st) then Inl StIdentityInvalid
      else bindR (mapErr (\<lambda>_. StTreeInvalid) (ParseOID (st_BaselineTree st))) (\<lambda>_.
        if st_RemoteGeneration st = 0 \<and> st_BaselineHead st \<noteq> [] then Inl StHeadAtZero
        else if st_RemoteGeneration st > 0 \<and> st_BaselineHead st = [] then Inl StHeadEmpty
        else if st_BaselineHead st \<noteq> [] then mapErr (\<lambda>_. StHeadInvalid) (bindR (ParseOID (st_BaselineHead st)) (\<lambda>_. Inr ()))
        else Inr ()))"

section \<open>Decoding and encoding\<close>

definition stateField :: "jvalue \<Rightarrow> bytes \<Rightarrow> state_error + jvalue" where
  "stateField root name = ofOption (StMissingField name) (Value_Field root name)"

text \<open>A field read by \<open>stateField\<close> and the check of its kind, which follow each other for every field.\<close>

definition state_number :: "jvalue \<Rightarrow> bytes \<Rightarrow> state_error + u64" where
  "state_number root name = bindR (stateField root name) (\<lambda>f. case f of JNumber n \<Rightarrow> Inr n | _ \<Rightarrow> Inl (StWrongKind name))"

definition state_string :: "jvalue \<Rightarrow> bytes \<Rightarrow> state_error + bytes" where
  "state_string root name = bindR (stateField root name) (\<lambda>f. case f of JString s \<Rightarrow> Inr s | _ \<Rightarrow> Inl (StWrongKind name))"

definition state_bool :: "jvalue \<Rightarrow> bytes \<Rightarrow> state_error + bool" where
  "state_bool root name = bindR (stateField root name) (\<lambda>f. case f of JBool b \<Rightarrow> Inr b | _ \<Rightarrow> Inl (StWrongKind name))"

definition decodeState :: "jstream \<Rightarrow> state_error + state" where
  "decodeState data =
     bindR (mapErr StJson (Parse data)) (\<lambda>root.
     if Kind root \<noteq> KObject then Inl StNotObject
     else bindR (mapErr StJson (RejectUnknown root
       [''version'', ''identity'', ''remoteGeneration'', ''baselineHead'', ''baselineTree'', ''recoveryRequired''])) (\<lambda>_.
     bindR (state_number root ''version'') (\<lambda>ver.
     if ver \<noteq> 1 then Inl StUnsupportedVersion
     else bindR (state_string root ''identity'') (\<lambda>ident.
     if \<not> validHex64 ident then Inl StIdentityInvalid
     else bindR (state_number root ''remoteGeneration'') (\<lambda>gen.
     bindR (state_string root ''baselineHead'') (\<lambda>head.
     bindR (state_string root ''baselineTree'') (\<lambda>tree.
     bindR (state_bool root ''recoveryRequired'') (\<lambda>rec.
     let st = \<lparr>st_Version = 1, st_Identity = ident, st_RemoteGeneration = gen, st_BaselineHead = head,
       st_BaselineTree = tree, st_RecoveryRequired = rec\<rparr> in
     bindR (validateState st) (\<lambda>_. Inr st)))))))))"

definition state_value :: "state \<Rightarrow> jvalue" where
  "state_value st = JObject
     [(''version'', JNumber (of_int (st_Version st))),
      (''identity'', JString (st_Identity st)),
      (''remoteGeneration'', JNumber (st_RemoteGeneration st)),
      (''baselineHead'', JString (st_BaselineHead st)),
      (''baselineTree'', JString (st_BaselineTree st)),
      (''recoveryRequired'', JBool (st_RecoveryRequired st))]"

definition encodeState :: "state \<Rightarrow> state_error + jstream" where
  "encodeState st = bindR (validateState st) (\<lambda>_. Inr (Encode (state_value st)))"

section \<open>Errors of the package\<close>

text \<open>
  The sentinels \<open>internal/notebook\<close> tells apart. A scan rejection names a path and, for a collision, the
  other one (\<open>ScanError\<close>; no path is the empty string); every other failure is one of the host, of the
  record, of the repository, of the lock or an injected one.
\<close>

datatype scan_kind = ErrInvalidPath | ErrSymlink | ErrUnsupportedFile | ErrInvalidContent | ErrPathCollision | ScanIO

datatype ws_error =
    ScanError bytes bytes scan_kind
  | SnapshotRejected snapshot_error
  | IgnoredConflictError bytes
  | ErrRecoveryRequired
  | ErrPartial
  | WsHost
  | WsState state_error
  | WsGit git_error
  | WsInjected
  | WsClosed

section \<open>Lemmas\<close>

lemma state_fields [simp]:
  "state_number (state_value st) ''version'' = Inr (of_int (st_Version st))"
  "state_string (state_value st) ''identity'' = Inr (st_Identity st)"
  "state_number (state_value st) ''remoteGeneration'' = Inr (st_RemoteGeneration st)"
  "state_string (state_value st) ''baselineHead'' = Inr (st_BaselineHead st)"
  "state_string (state_value st) ''baselineTree'' = Inr (st_BaselineTree st)"
  "state_bool (state_value st) ''recoveryRequired'' = Inr (st_RecoveryRequired st)"
  by (simp_all add: state_number_def state_string_def state_bool_def stateField_def Value_Field_def state_value_def)

lemma validateState_identity: "validateState st = Inr u \<Longrightarrow> validHex64 (st_Identity st) \<and> st_Version st = 1"
  by (auto simp: validateState_def split: if_splits)

lemma decodeState_Encode:
  assumes "validateState st = Inr ()" shows "decodeState (Encode (state_value st)) = Inr st"
proof -
  have v: "st_Version st = 1" "validHex64 (st_Identity st)" using validateState_identity [OF assms] by auto
  have st: "\<lparr>st_Version = 1, st_Identity = st_Identity st, st_RemoteGeneration = st_RemoteGeneration st,
      st_BaselineHead = st_BaselineHead st, st_BaselineTree = st_BaselineTree st, st_RecoveryRequired = st_RecoveryRequired st\<rparr> = st"
    using v(1) by simp
  have "Parse (Encode (state_value st)) = Inr (state_value st)" by (rule Parse_Encode) (simp add: state_value_def)
  moreover have "Kind (state_value st) = KObject" by (simp add: state_value_def)
  moreover have "RejectUnknown (state_value st)
      [''version'', ''identity'', ''remoteGeneration'', ''baselineHead'', ''baselineTree'', ''recoveryRequired''] = Inr ()"
    by (simp add: RejectUnknown_def state_value_def)
  ultimately show ?thesis using v assms by (simp add: decodeState_def st Let_def)
qed

lemma decodeState_valid: "decodeState data = Inr st \<Longrightarrow> validateState st = Inr ()"
  by (auto simp: decodeState_def bindR_eq_Inr Let_def split: if_splits)

lemma validateState_parts:
  assumes "validateState st = Inr ()"
  obtains tree where "ParseOID (st_BaselineTree st) = Inr tree" "st_RemoteGeneration st = 0" "st_BaselineHead st = []"
  | tree head where "ParseOID (st_BaselineTree st) = Inr tree" "st_RemoteGeneration st \<noteq> 0" "st_BaselineHead st \<noteq> []"
      "ParseOID (st_BaselineHead st) = Inr head"
  using assms by (auto simp: validateState_def bindR_eq_Inr word_gt_0 split: if_splits)

lemma validateState_baseline:
  assumes "validateState st = Inr ()"
  shows "\<exists>b. state_baseline st = Inr b \<and> bl_RemoteGeneration b = st_RemoteGeneration st \<and> length (bl_Tree b) = 20 \<and>
    (st_RemoteGeneration st = 0 \<longleftrightarrow> st_BaselineHead st = []) \<and> (st_BaselineHead st = [] \<longrightarrow> bl_Head b = zeroOID) \<and>
    length (bl_Head b) = 20"
  by (rule validateState_parts [OF assms]) (auto simp: state_baseline_def ParseOID_iff zeroOID_def)

section \<open>Properties\<close>

text \<open>A record that validates is written and read back unchanged.\<close>

theorem state_roundtrip:
  assumes "validateState st = Inr ()"
  shows "\<exists>data. encodeState st = Inr data \<and> decodeState data = Inr st"
  using decodeState_Encode [OF assms] assms by (simp add: encodeState_def)

theorem state_roundtrip_witness:
  "\<exists>data. encodeState (newWorkspaceState (replicate 64 (CHR ''a''))) = Inr data \<and>
     decodeState data = Inr (newWorkspaceState (replicate 64 (CHR ''a'')))"
  by (rule state_roundtrip) (simp add: newWorkspaceState_def validateState_def validHex64_def EmptyTreeID_def list_all_iff
      less_eq_char_def)

text \<open>Whatever bytes the file holds, a decoded record validates, is re-encodable, and holds a baseline whose head is
  absent exactly at generation 0.\<close>

theorem state_decode_sound:
  assumes "decodeState data = Inr st"
  shows "(\<exists>out. encodeState st = Inr out \<and> decodeState out = Inr st) \<and>
    (\<exists>b. state_baseline st = Inr b \<and> bl_RemoteGeneration b = st_RemoteGeneration st \<and> length (bl_Tree b) = 20 \<and>
       (bl_RemoteGeneration b = 0 \<longrightarrow> bl_Head b = zeroOID))"
  using validateState_baseline [OF decodeState_valid [OF assms]] decodeState_Encode [OF decodeState_valid [OF assms]]
    decodeState_valid [OF assms] by (auto simp: encodeState_def)

theorem state_decode_sound_witness:
  "\<exists>b. state_baseline (newWorkspaceState (replicate 64 (CHR ''a''))) = Inr b \<and> bl_Head b = zeroOID"
proof -
  have v: "validateState (newWorkspaceState (replicate 64 (CHR ''a''))) = Inr ()"
    by (simp add: newWorkspaceState_def validateState_def validHex64_def EmptyTreeID_def list_all_iff less_eq_char_def)
  show ?thesis using state_decode_sound [OF decodeState_Encode [OF v]] by (auto simp: newWorkspaceState_def)
qed

end
