(* ===== verification/ObjectStore.thy ===== *)
theory ObjectStore
  imports PackKey "HOL-Library.Product_Lexorder"
begin

text \<open>
  The object-store boundary of \<open>internal/storage/store.go\<close>, the immutable upload and its read-back
  proof (\<open>upload.go\<close>), the startup probe (\<open>probe.go\<close>) and the in-memory store with injected faults
  (\<open>fake/fake.go\<close>, \<open>fake/inject.go\<close>).

  \<open>ObjectStore\<close> is a Go interface, so it is a record of operations over a store state \<open>'s\<close>. A call
  returns its result and the state it leaves, also when it fails: a lost response is an error of
  a write that landed. What the protocol relies on is the locale \<open>conditional_store\<close>; the
  in-memory store satisfies it whatever faults are injected (\<open>fake_contract\<close>). Barriers, which only
  delay a call, and locking are not modelled: one operation is one atomic step.

  A reader is \<open>Some\<close> bytes, or \<open>None\<close> when the stream fails before its end. SHA-256 and MD5 are the
  standard library's and stay parameters.
\<close>

section \<open>Calls that return a result and a state\<close>

type_synonym ('e, 'a, 's) act = "'s \<Rightarrow> ('e + 'a) \<times> 's"

definition retS :: "'a \<Rightarrow> ('e, 'a, 's) act" where "retS x = (\<lambda>s. (Inr x, s))"
definition failS :: "'e \<Rightarrow> ('e, 'a, 's) act" where "failS e = (\<lambda>s. (Inl e, s))"
definition liftS :: "'e + 'a \<Rightarrow> ('e, 'a, 's) act" where "liftS r = (\<lambda>s. (r, s))"

definition tryS :: "('e, 'a, 's) act \<Rightarrow> ('e + 'a \<Rightarrow> ('f, 'b, 's) act) \<Rightarrow> ('f, 'b, 's) act" where
  "tryS m f = (\<lambda>s. case m s of (r, s') \<Rightarrow> f r s')"

definition bindS :: "('e, 'a, 's) act \<Rightarrow> ('a \<Rightarrow> ('e, 'b, 's) act) \<Rightarrow> ('e, 'b, 's) act" where
  "bindS m f = tryS m (\<lambda>r. case r of Inl e \<Rightarrow> failS e | Inr x \<Rightarrow> f x)"

definition mapErrS :: "('e \<Rightarrow> 'f) \<Rightarrow> ('e, 'a, 's) act \<Rightarrow> ('f, 'a, 's) act" where
  "mapErrS g m = tryS m (\<lambda>r. liftS (mapErr g r))"

named_theorems act_simps "unfolding rules of the call combinators"

lemma retS_apply [simp, act_simps]: "retS x s = (Inr x, s)" by (simp add: retS_def)
lemma failS_apply [simp, act_simps]: "failS e s = (Inl e, s)" by (simp add: failS_def)
lemma liftS_apply [simp, act_simps]: "liftS r s = (r, s)" by (simp add: liftS_def)

lemma tryS_apply [act_simps]: "tryS m f s = f (fst (m s)) (snd (m s))"
  by (simp add: tryS_def split: prod.splits)

lemma bindS_apply [act_simps]:
  "bindS m f s = (case m s of (Inl e, s') \<Rightarrow> (Inl e, s') | (Inr x, s') \<Rightarrow> f x s')"
  by (simp add: bindS_def tryS_def failS_def split: prod.splits sum.splits)

lemma mapErrS_apply [act_simps]: "mapErrS g m s = (mapErr g (fst (m s)), snd (m s))"
  by (simp add: mapErrS_def tryS_apply)

lemma bindS_liftS: "bindS (liftS (Inr x)) f = f x"
  by (rule ext) (simp add: bindS_apply)

lemma bindS_Inr:
  "bindS m f s = (Inr y, s') \<longleftrightarrow> (\<exists>x s1. m s = (Inr x, s1) \<and> f x s1 = (Inr y, s'))"
  by (auto simp: bindS_apply split: prod.splits sum.splits)

lemma bindS_Inl:
  "bindS m f s = (Inl e, s') \<longleftrightarrow> m s = (Inl e, s') \<or> (\<exists>x s1. m s = (Inr x, s1) \<and> f x s1 = (Inl e, s'))"
  by (auto simp: bindS_apply split: prod.splits sum.splits)

lemma mapErrS_Inr: "mapErrS g m s = (Inr y, s') \<longleftrightarrow> m s = (Inr y, s')"
  by (cases "m s") (auto simp: mapErrS_apply)

section \<open>The store interface\<close>

datatype store_error =
    ErrNotFound
  | ErrPreconditionFailed
  | ErrTransport
  | ErrIncompatible "store_error option"
  | ErrQuotaExceeded
  | ErrRequestLimit
  | ErrRateLimited
  | ErrAccessDenied
  | ErrTooLarge
  | ErrCredentialRenewed
  | ErrIntegrity
  | ErrUpgradeRequired
  | ErrKeyMaterial bool
  | ErrOther

type_synonym etag = bytes
type_synonym reader = "bytes option"

record ObjectInfo =
  oi_Size :: nat
  oi_ETag :: etag
  oi_Meta :: Metadata

record 's ObjectStore =
  ReadObject :: "bytes \<Rightarrow> (store_error, reader \<times> ObjectInfo, 's) act"
  PutObject :: "bytes \<Rightarrow> reader \<Rightarrow> Metadata \<Rightarrow> (store_error, unit, 's) act"
  CreateObject :: "bytes \<Rightarrow> bytes \<Rightarrow> (store_error, etag, 's) act"
  ReplaceObject :: "bytes \<Rightarrow> etag \<Rightarrow> bytes \<Rightarrow> (store_error, etag, 's) act"
  ListObjects :: "bytes \<Rightarrow> (store_error, bytes list, 's) act"
  DeleteObjects :: "bytes list \<Rightarrow> (store_error, unit, 's) act"

section \<open>Uploads\<close>

type_synonym hash_lib = "bytes \<Rightarrow> sha256"

definition VerifyObject :: "hash_lib \<Rightarrow> 's ObjectStore \<Rightarrow> bytes \<Rightarrow> sha256 \<Rightarrow> u64 \<Rightarrow> (store_error, unit, 's) act" where
  "VerifyObject sha S key want wantSize =
     bindS (ReadObject S key) (\<lambda>(rc, _).
     case rc of
       None \<Rightarrow> failS ErrTransport
     | Some d \<Rightarrow>
         if of_nat (length d) \<noteq> wantSize \<or> sha d \<noteq> want then failS ErrIntegrity else retS ())"

definition UploadUnique ::
  "hash_lib \<Rightarrow> uuid_lib \<Rightarrow> 's ObjectStore \<Rightarrow> Key \<Rightarrow> reader \<Rightarrow> Metadata \<Rightarrow> (store_error, unit, 's) act" where
  "UploadUnique sha lib S key r meta =
     (if \<not> PackKind_Valid (key_Kind key) then failS ErrIntegrity
      else tryS (PutObject S (Key_String lib key) r meta) (\<lambda>res.
        case res of
          Inr _ \<Rightarrow> retS ()
        | Inl err \<Rightarrow>
            if err \<noteq> ErrTransport then failS err
            else tryS (VerifyObject sha S (Key_String lib key) (md_SHA256 meta) (md_Size meta)) (\<lambda>v.
              case v of
                Inr _ \<Rightarrow> retS ()
              | Inl e \<Rightarrow> if e = ErrIntegrity then failS ErrIntegrity else failS ErrTransport)))"

section \<open>The startup probe\<close>

definition probe_first :: bytes where "probe_first = ''slivingdoc probe: conditional create''"
definition probe_second :: bytes where "probe_second = ''slivingdoc probe: conditional replace''"

definition incompatible :: "store_error + 'a \<Rightarrow> store_error + 'a" where
  "incompatible r = mapErr (\<lambda>e. ErrIncompatible (Some e)) r"

definition probe_read :: "'s ObjectStore \<Rightarrow> bytes \<Rightarrow> bytes \<Rightarrow> (store_error, ObjectInfo, 's) act" where
  "probe_read S key want =
     tryS (ReadObject S key) (\<lambda>r.
     case r of
       Inl e \<Rightarrow> failS (ErrIncompatible (Some e))
     | Inr (rc, info) \<Rightarrow> if rc \<noteq> Some want then failS (ErrIncompatible None) else retS info)"

definition expect_refused :: "(store_error, etag, 's) act \<Rightarrow> (store_error, unit, 's) act" where
  "expect_refused m =
     tryS m (\<lambda>r. if r = Inl ErrPreconditionFailed then retS () else failS (ErrIncompatible None))"

definition probe_steps :: "'s ObjectStore \<Rightarrow> bytes \<Rightarrow> (store_error, unit, 's) act" where
  "probe_steps S key =
     bindS (tryS (CreateObject S key probe_first) (\<lambda>r. liftS (incompatible r))) (\<lambda>_.
     bindS (expect_refused (CreateObject S key probe_second)) (\<lambda>_.
     bindS (probe_read S key probe_first) (\<lambda>info.
     if oi_ETag info = [] then failS (ErrIncompatible None)
     else
     bindS (expect_refused (ReplaceObject S key ''wrong-etag'' probe_second)) (\<lambda>_.
     bindS (probe_read S key probe_first) (\<lambda>_.
     bindS (tryS (ReplaceObject S key (oi_ETag info) probe_second) (\<lambda>r. liftS (incompatible r))) (\<lambda>newETag.
     if newETag = [] \<or> newETag = oi_ETag info then failS (ErrIncompatible None)
     else bindS (probe_read S key probe_second) (\<lambda>_. retS ())))))))"

text \<open>The deferred delete runs last whatever the steps returned, and its own result is dropped.\<close>

definition Probe :: "uuid_lib \<Rightarrow> 's ObjectStore \<Rightarrow> store_error + uuid \<Rightarrow> (store_error, unit, 's) act" where
  "Probe lib S newID =
     bindS (liftS newID) (\<lambda>ident.
     let key = ''probe/'' @ uuid_String lib ident in
     tryS (probe_steps S key) (\<lambda>r. tryS (DeleteObjects S [key]) (\<lambda>_. liftS r)))"

section \<open>Fault injection\<close>

type_synonym Op = bytes
type_synonym opKey = "Op \<times> bytes"

definition OpPut :: Op where "OpPut = ''put''"
definition OpGet :: Op where "OpGet = ''get''"
definition OpCreate :: Op where "OpCreate = ''create''"
definition OpReplace :: Op where "OpReplace = ''replace''"
definition OpList :: Op where "OpList = ''list''"
definition OpDelete :: Op where "OpDelete = ''delete''"

text \<open>The fault maps are association lists with one entry per key.\<close>

record Injector =
  in_failNext :: "(opKey \<times> store_error) list"
  in_failNextPrefix :: "(opKey \<times> store_error) list"
  in_failAlways :: "(opKey \<times> store_error) list"
  in_failAlwaysPrefix :: "(opKey \<times> store_error) list"
  in_ambiguous :: "opKey \<Rightarrow> nat"
  in_ambiguousOp :: "Op \<Rightarrow> nat"

definition NewInjector :: Injector where
  "NewInjector = \<lparr>in_failNext = [], in_failNextPrefix = [], in_failAlways = [], in_failAlwaysPrefix = [],
     in_ambiguous = (\<lambda>_. 0), in_ambiguousOp = (\<lambda>_. 0)\<rparr>"

definition alist_set :: "'k \<Rightarrow> 'v \<Rightarrow> ('k \<times> 'v) list \<Rightarrow> ('k \<times> 'v) list" where
  "alist_set k v xs = (k, v) # filter (\<lambda>x. fst x \<noteq> k) xs"

definition alist_del :: "'k \<Rightarrow> ('k \<times> 'v) list \<Rightarrow> ('k \<times> 'v) list" where
  "alist_del k xs = filter (\<lambda>x. fst x \<noteq> k) xs"

definition FailNext :: "Op \<Rightarrow> bytes \<Rightarrow> store_error \<Rightarrow> Injector \<Rightarrow> Injector" where
  "FailNext op key err i = i\<lparr>in_failNext := alist_set (op, key) err (in_failNext i)\<rparr>"

definition FailNextPrefix :: "Op \<Rightarrow> bytes \<Rightarrow> store_error \<Rightarrow> Injector \<Rightarrow> Injector" where
  "FailNextPrefix op pre err i = i\<lparr>in_failNextPrefix := alist_set (op, pre) err (in_failNextPrefix i)\<rparr>"

definition FailAlways :: "Op \<Rightarrow> bytes \<Rightarrow> store_error \<Rightarrow> Injector \<Rightarrow> Injector" where
  "FailAlways op key err i = i\<lparr>in_failAlways := alist_set (op, key) err (in_failAlways i)\<rparr>"

definition FailAlwaysPrefix :: "Op \<Rightarrow> bytes \<Rightarrow> store_error \<Rightarrow> Injector \<Rightarrow> Injector" where
  "FailAlwaysPrefix op pre err i = i\<lparr>in_failAlwaysPrefix := alist_set (op, pre) err (in_failAlwaysPrefix i)\<rparr>"

definition ClearFailures :: "Injector \<Rightarrow> Injector" where
  "ClearFailures i = NewInjector"

definition AmbiguousNext :: "Op \<Rightarrow> bytes \<Rightarrow> Injector \<Rightarrow> Injector" where
  "AmbiguousNext op key i = i\<lparr>in_ambiguous := (in_ambiguous i)((op, key) := in_ambiguous i (op, key) + 1)\<rparr>"

definition AmbiguousNextOp :: "Op \<Rightarrow> Injector \<Rightarrow> Injector" where
  "AmbiguousNextOp op i = i\<lparr>in_ambiguousOp := (in_ambiguousOp i)(op := in_ambiguousOp i op + 1)\<rparr>"

definition sortedOpKeys :: "(opKey \<times> store_error) list \<Rightarrow> opKey list" where
  "sortedOpKeys xs = sort (map fst xs)"

definition prefix_fault :: "Op \<Rightarrow> bytes \<Rightarrow> (opKey \<times> store_error) list \<Rightarrow> (opKey \<times> store_error) option" where
  "prefix_fault op key xs =
     (case find (\<lambda>pk. fst pk = op \<and> HasPrefix key (snd pk)) (sortedOpKeys xs) of
        None \<Rightarrow> None
      | Some pk \<Rightarrow> map_option (\<lambda>e. (pk, e)) (map_of xs pk))"

definition ConsumeFail :: "Op \<Rightarrow> bytes \<Rightarrow> Injector \<Rightarrow> store_error option \<times> Injector" where
  "ConsumeFail op key i =
     (case map_of (in_failNext i) (op, key) of
        Some err \<Rightarrow> (Some err, i\<lparr>in_failNext := alist_del (op, key) (in_failNext i)\<rparr>)
      | None \<Rightarrow>
     (case prefix_fault op key (in_failNextPrefix i) of
        Some (pk, err) \<Rightarrow> (Some err, i\<lparr>in_failNextPrefix := alist_del pk (in_failNextPrefix i)\<rparr>)
      | None \<Rightarrow>
     (case map_of (in_failAlways i) (op, key) of
        Some err \<Rightarrow> (Some err, i)
      | None \<Rightarrow>
     (case prefix_fault op key (in_failAlwaysPrefix i) of
        Some (pk, err) \<Rightarrow> (Some err, i)
      | None \<Rightarrow> (None, i)))))"

definition ConsumeAmbiguous :: "Op \<Rightarrow> bytes \<Rightarrow> Injector \<Rightarrow> bool \<times> Injector" where
  "ConsumeAmbiguous op key i =
     (if in_ambiguous i (op, key) > 0 then
        (True, i\<lparr>in_ambiguous := (in_ambiguous i)((op, key) := in_ambiguous i (op, key) - 1)\<rparr>)
      else if in_ambiguousOp i op > 0 then
        (True, i\<lparr>in_ambiguousOp := (in_ambiguousOp i)(op := in_ambiguousOp i op - 1)\<rparr>)
      else (False, i))"

section \<open>The in-memory store\<close>

record stored_object =
  so_data :: bytes
  so_etag :: etag
  so_meta :: Metadata

record Store =
  st_faults :: Injector
  st_prefix :: bytes
  st_objects :: "(bytes \<times> stored_object) list"
  st_seq :: u64
  st_calls :: "Op \<Rightarrow> nat"

definition fake_New :: "bytes \<Rightarrow> Store" where
  "fake_New pre = \<lparr>st_faults = NewInjector, st_prefix = pre, st_objects = [], st_seq = 0, st_calls = (\<lambda>_. 0)\<rparr>"

definition fake_full :: "Store \<Rightarrow> bytes \<Rightarrow> bytes" where
  "fake_full s key = JoinKey (st_prefix s) key"

type_synonym md5_lib = "bytes \<Rightarrow> u8 list"

definition etagFor :: "md5_lib \<Rightarrow> bytes \<Rightarrow> etag" where
  "etagFor md5 d = ''\"'' @ hex_text (md5 d) @ ''\"''"

definition ObjectCount :: "Store \<Rightarrow> nat" where
  "ObjectCount s = length (st_objects s)"

definition Calls :: "Op \<Rightarrow> Store \<Rightarrow> nat" where
  "Calls op s = st_calls s op"

definition Bump :: "bytes \<Rightarrow> Store \<Rightarrow> Store" where
  "Bump key s =
     (case map_of (st_objects s) (fake_full s key) of
        None \<Rightarrow> s
      | Some ob \<Rightarrow> let n = st_seq s + 1 in
          s\<lparr>st_seq := n,
            st_objects := alist_set (fake_full s key) (ob\<lparr>so_etag := ''\"bump-'' @ FormatUint n @ ''\"''\<rparr>) (st_objects s)\<rparr>)"

text \<open>The prologue every operation shares: count the call, then take an injected failure.\<close>

definition fake_enter :: "Op \<Rightarrow> bytes \<Rightarrow> (store_error, 'a, Store) act \<Rightarrow> (store_error, 'a, Store) act" where
  "fake_enter op key body = (\<lambda>s.
     let s1 = s\<lparr>st_calls := (st_calls s)(op := st_calls s op + 1)\<rparr> in
     case ConsumeFail op key (st_faults s1) of
       (Some err, i) \<Rightarrow> (Inl err, s1\<lparr>st_faults := i\<rparr>)
     | (None, i) \<Rightarrow> body (s1\<lparr>st_faults := i\<rparr>))"

text \<open>The epilogue of a write that landed: the response may be lost.\<close>

definition fake_landed :: "Op \<Rightarrow> bytes \<Rightarrow> 'a \<Rightarrow> (store_error, 'a, Store) act" where
  "fake_landed op key x = (\<lambda>s.
     case ConsumeAmbiguous op key (st_faults s) of
       (lost, i) \<Rightarrow> (if lost then Inl ErrTransport else Inr x, s\<lparr>st_faults := i\<rparr>))"

definition put_object :: "bytes \<Rightarrow> stored_object \<Rightarrow> Store \<Rightarrow> Store" where
  "put_object key ob s = s\<lparr>st_objects := alist_set (fake_full s key) ob (st_objects s)\<rparr>"

definition fake_ReadObject :: "bytes \<Rightarrow> (store_error, reader \<times> ObjectInfo, Store) act" where
  "fake_ReadObject key = fake_enter OpGet key (\<lambda>s.
     case map_of (st_objects s) (fake_full s key) of
       None \<Rightarrow> (Inl ErrNotFound, s)
     | Some ob \<Rightarrow> (Inr (Some (so_data ob),
         \<lparr>oi_Size = length (so_data ob), oi_ETag = so_etag ob, oi_Meta = so_meta ob\<rparr>), s))"

definition fake_PutObject :: "md5_lib \<Rightarrow> bytes \<Rightarrow> reader \<Rightarrow> Metadata \<Rightarrow> (store_error, unit, Store) act" where
  "fake_PutObject md5 key r meta = fake_enter OpPut key (\<lambda>s.
     case r of
       None \<Rightarrow> (Inl ErrTransport, s)
     | Some d \<Rightarrow>
         fake_landed OpPut key () (put_object key \<lparr>so_data = d, so_etag = etagFor md5 d, so_meta = meta\<rparr> s))"

definition fake_CreateObject :: "md5_lib \<Rightarrow> bytes \<Rightarrow> bytes \<Rightarrow> (store_error, etag, Store) act" where
  "fake_CreateObject md5 key d = fake_enter OpCreate key (\<lambda>s.
     if map_of (st_objects s) (fake_full s key) \<noteq> None then (Inl ErrPreconditionFailed, s)
     else fake_landed OpCreate key (etagFor md5 d)
            (put_object key \<lparr>so_data = d, so_etag = etagFor md5 d, so_meta = zeroMetadata\<rparr> s))"

definition fake_ReplaceObject :: "md5_lib \<Rightarrow> bytes \<Rightarrow> etag \<Rightarrow> bytes \<Rightarrow> (store_error, etag, Store) act" where
  "fake_ReplaceObject md5 key etag d = fake_enter OpReplace key (\<lambda>s.
     case map_of (st_objects s) (fake_full s key) of
       None \<Rightarrow> (Inl ErrPreconditionFailed, s)
     | Some ob \<Rightarrow>
         if so_etag ob \<noteq> etag then (Inl ErrPreconditionFailed, s)
         else fake_landed OpReplace key (etagFor md5 d)
                (put_object key (ob\<lparr>so_data := d, so_etag := etagFor md5 d\<rparr>) s))"

definition fake_ListObjects :: "bytes \<Rightarrow> (store_error, bytes list, Store) act" where
  "fake_ListObjects pre = fake_enter OpList pre (\<lambda>s.
     let keys = sort (filter (\<lambda>k. HasPrefix k (fake_full s pre)) (map fst (st_objects s))) in
     (Inr (map (\<lambda>k. if st_prefix s \<noteq> [] then drop (length (st_prefix s) + 1) k else k) keys), s))"

definition fake_DeleteObjects :: "bytes list \<Rightarrow> (store_error, unit, Store) act" where
  "fake_DeleteObjects keys = fake_enter OpDelete [] (\<lambda>s.
     (Inr (), s\<lparr>st_objects := foldl (\<lambda>obs k. alist_del (fake_full s k) obs) (st_objects s) keys\<rparr>))"

definition fake_store :: "md5_lib \<Rightarrow> Store ObjectStore" where
  "fake_store md5 = \<lparr>ReadObject = fake_ReadObject, PutObject = fake_PutObject md5, CreateObject = fake_CreateObject md5,
     ReplaceObject = fake_ReplaceObject md5, ListObjects = fake_ListObjects, DeleteObjects = fake_DeleteObjects\<rparr>"

section \<open>The contract of a conditional store\<close>

type_synonym view = "bytes \<rightharpoonup> bytes \<times> etag"

text \<open>
  \<open>look s key\<close> is what the store holds. A write that returns ok landed; one that fails changed
  nothing, except that a transport error may hide a write that landed with its precondition met.
  A failed delete may have removed some of its keys and nothing else.
\<close>

definition landed :: "view \<Rightarrow> bytes \<Rightarrow> bytes \<Rightarrow> view \<Rightarrow> bool" where
  "landed v key d v' \<longleftrightarrow> (\<exists>t. v' = v(key \<mapsto> (d, t)))"

locale conditional_store =
  fixes S :: "'s ObjectStore" and look :: "'s \<Rightarrow> view"
  assumes read_view: "ReadObject S key s = (r, s') \<Longrightarrow> look s' = look s"
    and read_ok: "ReadObject S key s = (Inr (Some d, info), s') \<Longrightarrow> look s key = Some (d, oi_ETag info)"
    and put_ok: "PutObject S key rd meta s = (Inr (), s') \<Longrightarrow> \<exists>d. rd = Some d \<and> landed (look s) key d (look s')"
    and put_err: "PutObject S key rd meta s = (Inl e, s') \<Longrightarrow>
      look s' = look s \<or> e = ErrTransport \<and> (\<exists>d. rd = Some d \<and> landed (look s) key d (look s'))"
    and create_ok: "CreateObject S key d s = (Inr t, s') \<Longrightarrow> look s key = None \<and> look s' = (look s)(key \<mapsto> (d, t))"
    and create_err: "CreateObject S key d s = (Inl e, s') \<Longrightarrow>
      look s' = look s \<or> e = ErrTransport \<and> look s key = None \<and> landed (look s) key d (look s')"
    and replace_ok: "ReplaceObject S key t d s = (Inr t', s') \<Longrightarrow>
      (\<exists>d0. look s key = Some (d0, t)) \<and> look s' = (look s)(key \<mapsto> (d, t'))"
    and replace_err: "ReplaceObject S key t d s = (Inl e, s') \<Longrightarrow>
      look s' = look s \<or> e = ErrTransport \<and> (\<exists>d0. look s key = Some (d0, t)) \<and> landed (look s) key d (look s')"
    and list_view: "ListObjects S pre s = (ks, s') \<Longrightarrow> look s' = look s"
    and delete_ok: "DeleteObjects S keys s = (Inr (), s') \<Longrightarrow> look s' = look s |` (- set keys)"
    and delete_err: "DeleteObjects S keys s = (Inl e, s') \<Longrightarrow>
      \<exists>gone \<subseteq> set keys. look s' = look s |` (- gone)"
begin

lemma VerifyObject_ok:
  assumes "VerifyObject sha S key want n s = (Inr u, s')"
  shows "look s' = look s" "\<exists>d t. look s key = Some (d, t) \<and> of_nat (length d) = n \<and> sha d = want"
proof -
  from assms obtain rc info where rd: "ReadObject S key s = (Inr (rc, info), s')"
    and ok: "\<exists>d. rc = Some d \<and> of_nat (length d) = n \<and> sha d = want"
    by (auto simp: VerifyObject_def bindS_Inr split: option.splits if_splits)
  show "look s' = look s" by (rule read_view [OF rd])
  show "\<exists>d t. look s key = Some (d, t) \<and> of_nat (length d) = n \<and> sha d = want"
    using ok read_ok [of key s] rd by blast
qed

lemma VerifyObject_view: "VerifyObject sha S key want n s = (r, s') \<Longrightarrow> look s' = look s"
  by (auto simp: VerifyObject_def bindS_apply split: prod.splits sum.splits option.splits if_splits dest: read_view)

text \<open>An upload that reports success left bytes of the declared size and digest at its key and touched no other key.\<close>

lemma UploadUnique_ok:
  assumes "UploadUnique sha lib S key (Some body) meta s = (Inr u, s')"
    "of_nat (length body) = md_Size meta" "sha body = md_SHA256 meta"
  shows "\<exists>d t. look s' (Key_String lib key) = Some (d, t) \<and> of_nat (length d) = md_Size meta \<and> sha d = md_SHA256 meta"
    "k \<noteq> Key_String lib key \<Longrightarrow> look s' k = look s k"
proof -
  let ?k = "Key_String lib key"
  obtain r s1 where put: "PutObject S ?k (Some body) meta s = (r, s1)" by fastforce
  have other: "look s1 k = look s k" if "k \<noteq> ?k" for k
    using put put_ok [of ?k "Some body" meta s s1] put_err [of ?k "Some body" meta s _ s1] that
    by (cases r) (auto simp: landed_def)
  consider "r = Inr ()" "s' = s1"
    | "r = Inl ErrTransport" "VerifyObject sha S ?k (md_SHA256 meta) (md_Size meta) s1 = (Inr (), s')"
    using assms(1) put by (auto simp: UploadUnique_def tryS_apply prod_eq_iff split: if_splits sum.splits)
  then have "(\<exists>d t. look s' ?k = Some (d, t) \<and> of_nat (length d) = md_Size meta \<and> sha d = md_SHA256 meta) \<and> look s' = look s1"
  proof cases
    case 1
    then show ?thesis using put_ok [of ?k "Some body" meta s s1] put assms(2,3) by (auto simp: landed_def)
  next
    case 2
    then show ?thesis using VerifyObject_ok [OF 2(2)] by simp
  qed
  then show "\<exists>d t. look s' ?k = Some (d, t) \<and> of_nat (length d) = md_Size meta \<and> sha d = md_SHA256 meta"
    "k \<noteq> ?k \<Longrightarrow> look s' k = look s k" using other by auto
qed

definition only :: "bytes \<Rightarrow> ('e, 'a, 's) act \<Rightarrow> bool" where
  "only key m \<longleftrightarrow> (\<forall>s r s' k. m s = (r, s') \<longrightarrow> k \<noteq> key \<longrightarrow> look s' k = look s k)"

lemma only_pure [simp]: "only key (retS x)" "only key (failS e)" "only key (liftS r)"
  by (simp_all add: only_def)

lemma only_try: "only key m \<Longrightarrow> (\<And>r. only key (f r)) \<Longrightarrow> only key (tryS m f)"
  by (simp add: only_def tryS_apply) (metis prod.collapse)

lemma only_bind: "only key m \<Longrightarrow> (\<And>x. only key (f x)) \<Longrightarrow> only key (bindS m f)"
  by (simp add: bindS_def only_try split: sum.splits)

lemma only_create: "only key (CreateObject S key d)"
  unfolding only_def
proof (intro allI impI)
  fix s r s' k assume c: "CreateObject S key d s = (r, s')" and "k \<noteq> key"
  then show "look s' k = look s k" using create_ok [of key d s _ s'] create_err [of key d s _ s'] by (cases r) (auto simp: landed_def)
qed

lemma only_replace: "only key (ReplaceObject S key t d)"
  unfolding only_def
proof (intro allI impI)
  fix s r s' k assume c: "ReplaceObject S key t d s = (r, s')" and "k \<noteq> key"
  then show "look s' k = look s k" using replace_ok [of key t d s _ s'] replace_err [of key t d s _ s'] by (cases r) (auto simp: landed_def)
qed

lemma only_read: "only key (ReadObject S k)"
  by (simp add: only_def) (metis read_view)

lemma only_delete: "only key (DeleteObjects S [key])"
  unfolding only_def
proof (intro allI impI)
  fix s r s' k assume d: "DeleteObjects S [key] s = (r, s')" and k: "k \<noteq> key"
  show "look s' k = look s k"
  proof (cases r)
    case (Inl e)
    then obtain gone where "gone \<subseteq> {key}" "look s' = look s |` (- gone)" using delete_err [of "[key]" s e s'] d by auto
    then show ?thesis using k by (auto simp: restrict_map_def)
  next
    case (Inr u)
    then show ?thesis using delete_ok [of "[key]" s s'] d k by (simp add: restrict_map_def)
  qed
qed

text \<open>The probe reads and writes its own disposable key only, whatever it concludes.\<close>

lemma probe_steps_only: "only key (probe_steps S key)"
  unfolding probe_steps_def probe_read_def expect_refused_def
  by (auto intro!: only_bind only_try only_create only_replace only_read split: sum.splits prod.splits)

lemma Probe_only: "only (''probe/'' @ uuid_String lib ident) (Probe lib S (Inr ident))"
  unfolding Probe_def Let_def bindS_liftS
  by (intro only_try probe_steps_only only_delete only_pure)

end

section \<open>The in-memory store keeps the contract\<close>

definition fake_look :: "Store \<Rightarrow> view" where
  "fake_look s key = map_option (\<lambda>ob. (so_data ob, so_etag ob)) (map_of (st_objects s) (fake_full s key))"

lemma map_of_filter_key: "map_of (filter (\<lambda>x. P (fst x)) xs) k = (if P k then map_of xs k else None)"
  by (induction xs) auto

lemma alist_set_map_of [simp]: "map_of (alist_set k v xs) = (map_of xs)(k \<mapsto> v)"
  by (rule ext) (auto simp: alist_set_def map_of_filter_key [where P = "\<lambda>x. x \<noteq> k"])

lemma alist_del_map_of [simp]: "map_of (alist_del k xs) = (map_of xs)(k := None)"
  by (rule ext) (auto simp: alist_del_def map_of_filter_key [where P = "\<lambda>x. x \<noteq> k"])

lemma JoinKey_inject [simp]: "JoinKey p a = JoinKey p b \<longleftrightarrow> a = b"
  by (simp add: JoinKey_def)

lemma fake_enter_cases:
  assumes "fake_enter op key body s = (r, s')"
  obtains (fault) e where "r = Inl e" "fake_look s' = fake_look s"
  | (run) s1 where "body s1 = (r, s')" "fake_look s1 = fake_look s" "st_prefix s1 = st_prefix s" "st_objects s1 = st_objects s"
proof -
  let ?s1 = "s\<lparr>st_calls := (st_calls s)(op := st_calls s op + 1)\<rparr>"
  obtain f i where c: "ConsumeFail op key (st_faults ?s1) = (f, i)" by fastforce
  have v: "fake_look (?s1\<lparr>st_faults := i\<rparr>) = fake_look s" by (simp add: fake_look_def fake_full_def fun_eq_iff)
  show ?thesis
  proof (cases f)
    case None
    then show ?thesis using assms c v by (intro run [of "?s1\<lparr>st_faults := i\<rparr>"]) (simp_all add: fake_enter_def Let_def)
  next
    case (Some e)
    then show ?thesis using assms c v by (intro fault) (auto simp: fake_enter_def Let_def)
  qed
qed

lemma fake_landed_result:
  assumes "fake_landed op key x s = (r, s')"
  shows "fake_look s' = fake_look s \<and> (r = Inr x \<or> r = Inl ErrTransport)"
  using assms by (auto simp: fake_landed_def fake_look_def fake_full_def fun_eq_iff split: prod.splits if_splits)

lemma fake_look_same: "st_prefix s1 = st_prefix s \<Longrightarrow> st_objects s1 = st_objects s \<Longrightarrow>
    map_of (st_objects s) (fake_full s1 key) = ob \<Longrightarrow> fake_look s key = map_option (\<lambda>ob. (so_data ob, so_etag ob)) ob"
  by (simp add: fake_look_def fake_full_def)

lemma fake_look_put: "fake_look (put_object key ob s) = (fake_look s)(key \<mapsto> (so_data ob, so_etag ob))"
  by (auto simp: fake_look_def put_object_def fake_full_def fun_eq_iff)

lemma fake_look_delete:
  assumes "st_objects s = obs"
  shows "fake_look (s\<lparr>st_objects := foldl (\<lambda>obs k. alist_del (fake_full s k) obs) obs keys\<rparr>) = fake_look s |` (- set keys)"
proof -
  have del: "map_of (foldl (\<lambda>obs k. alist_del (JoinKey p k) obs) obs keys) (JoinKey p q) =
      (if q \<in> set keys then None else map_of obs (JoinKey p q))" for p q obs
    by (induction keys arbitrary: obs) auto
  show ?thesis by (rule ext) (simp add: fake_look_def fake_full_def restrict_map_def del assms)
qed

lemma fake_Read:
  assumes "fake_ReadObject key s = (r, s')"
  shows "fake_look s' = fake_look s" "r = Inr (Some d, info) \<Longrightarrow> fake_look s key = Some (d, oi_ETag info)"
  using assms by (auto simp: fake_ReadObject_def elim!: fake_enter_cases split: option.splits)
    (auto simp: fake_look_def fun_eq_iff fake_full_def)

lemma fake_Put:
  assumes "fake_PutObject md5 key rd meta s = (r, s')"
  shows "fake_look s' = fake_look s \<and> isOk r = False \<or>
    (\<exists>d. rd = Some d \<and> landed (fake_look s) key d (fake_look s') \<and> (r = Inr () \<or> r = Inl ErrTransport))"
  using assms
  by (auto simp: fake_PutObject_def landed_def elim!: fake_enter_cases split: option.splits dest!: fake_landed_result simp: fake_look_put)

lemma fake_Create:
  assumes "fake_CreateObject md5 key d s = (r, s')"
  shows "fake_look s' = fake_look s \<and> isOk r = False \<or>
    fake_look s key = None \<and> fake_look s' = (fake_look s)(key \<mapsto> (d, etagFor md5 d)) \<and>
      (r = Inr (etagFor md5 d) \<or> r = Inl ErrTransport)"
  using assms [unfolded fake_CreateObject_def]
proof (cases rule: fake_enter_cases)
  case (run s1)
  then show ?thesis
    by (auto split: if_splits dest!: fake_landed_result dest: fake_look_same simp: fake_look_put)
qed auto

lemma fake_Replace:
  assumes "fake_ReplaceObject md5 key t d s = (r, s')"
  shows "fake_look s' = fake_look s \<and> isOk r = False \<or>
    (\<exists>d0. fake_look s key = Some (d0, t)) \<and> fake_look s' = (fake_look s)(key \<mapsto> (d, etagFor md5 d)) \<and>
      (r = Inr (etagFor md5 d) \<or> r = Inl ErrTransport)"
  using assms [unfolded fake_ReplaceObject_def]
proof (cases rule: fake_enter_cases)
  case (run s1)
  then show ?thesis
    by (auto split: if_splits option.splits dest!: fake_landed_result dest: fake_look_same simp: fake_look_put)
qed auto

interpretation fake: conditional_store "fake_store md5" fake_look for md5
proof
  show "fake_look s' = fake_look s" if "ReadObject (fake_store md5) key s = (r, s')" for key s r s'
    using fake_Read(1) that by (simp add: fake_store_def)
  show "fake_look s key = Some (d, oi_ETag info)" if "ReadObject (fake_store md5) key s = (Inr (Some d, info), s')" for key s d info s'
    using fake_Read(2) that by (simp add: fake_store_def)
  show "\<exists>d. rd = Some d \<and> landed (fake_look s) key d (fake_look s')"
    if "PutObject (fake_store md5) key rd meta s = (Inr (), s')" for key rd meta s s'
    using fake_Put [of md5 key rd meta s] that by (fastforce simp: fake_store_def)
  show "fake_look s' = fake_look s \<or> e = ErrTransport \<and> (\<exists>d. rd = Some d \<and> landed (fake_look s) key d (fake_look s'))"
    if "PutObject (fake_store md5) key rd meta s = (Inl e, s')" for key rd meta s e s'
    using fake_Put [of md5 key rd meta s] that by (fastforce simp: fake_store_def)
  show "fake_look s key = None \<and> fake_look s' = (fake_look s)(key \<mapsto> (d, t))"
    if "CreateObject (fake_store md5) key d s = (Inr t, s')" for key d s t s'
    using fake_Create [of md5 key d s] that by (fastforce simp: fake_store_def)
  show "fake_look s' = fake_look s \<or> e = ErrTransport \<and> fake_look s key = None \<and> landed (fake_look s) key d (fake_look s')"
    if "CreateObject (fake_store md5) key d s = (Inl e, s')" for key d s e s'
    using fake_Create [of md5 key d s] that by (fastforce simp: fake_store_def landed_def)
  show "(\<exists>d0. fake_look s key = Some (d0, t)) \<and> fake_look s' = (fake_look s)(key \<mapsto> (d, t'))"
    if "ReplaceObject (fake_store md5) key t d s = (Inr t', s')" for key t d s t' s'
    using fake_Replace [of md5 key t d s] that by (fastforce simp: fake_store_def)
  show "fake_look s' = fake_look s \<or> e = ErrTransport \<and> (\<exists>d0. fake_look s key = Some (d0, t)) \<and> landed (fake_look s) key d (fake_look s')"
    if "ReplaceObject (fake_store md5) key t d s = (Inl e, s')" for key t d s e s'
    using fake_Replace [of md5 key t d s] that by (fastforce simp: fake_store_def landed_def)
  show "fake_look s' = fake_look s" if "ListObjects (fake_store md5) pre s = (r, s')" for pre s r s'
    using that by (auto simp: fake_store_def fake_ListObjects_def Let_def elim!: fake_enter_cases)
  show "fake_look s' = fake_look s |` (- set keys)" if "DeleteObjects (fake_store md5) keys s = (Inr (), s')" for keys s s'
    using that by (auto simp: fake_store_def fake_DeleteObjects_def fake_look_delete elim!: fake_enter_cases)
  show "\<exists>gone \<subseteq> set keys. fake_look s' = fake_look s |` (- gone)" if "DeleteObjects (fake_store md5) keys s = (Inl e, s')" for keys s e s'
    using that by (auto simp: fake_store_def fake_DeleteObjects_def elim!: fake_enter_cases intro!: exI [of _ "{}"])
qed

section \<open>Properties\<close>

text \<open>The in-memory store implements the conditional-write contract under every combination of injected
  failures and lost responses.\<close>

theorem fake_store_contract: "conditional_store (fake_store md5) fake_look"
  by (rule fake.conditional_store_axioms)

text \<open>C32: on every store that keeps the contract, an upload that reports success, a lost response included,
  left bytes of the declared size and digest at its own key and changed no other key.\<close>

theorem upload_proved:
  assumes "conditional_store S look" "UploadUnique sha lib S key (Some body) meta s = (Inr u, s')"
    "of_nat (length body) = md_Size meta" "sha body = md_SHA256 meta"
  shows "(\<exists>d t. look s' (Key_String lib key) = Some (d, t) \<and> of_nat (length d) = md_Size meta \<and> sha d = md_SHA256 meta) \<and>
    (\<forall>k. k \<noteq> Key_String lib key \<longrightarrow> look s' k = look s k)"
  using conditional_store.UploadUnique_ok [OF assms] by blast

text \<open>The witness loses the response of the upload, so success rests on the read-back.\<close>

theorem upload_proved_witness:
  "\<exists>s' d t. UploadUnique (\<lambda>d. [of_nat (length d)]) canonical_uuid (fake_store (\<lambda>_. []))
      \<lparr>key_Kind = KindIncrement, key_Generation = 2, key_ID = zeroUUID\<rparr> (Some ''pack'')
      \<lparr>md_SHA256 = [4], md_Size = 4, md_Kind = KindIncrement, md_Generation = 2\<rparr>
      ((fake_New [])\<lparr>st_faults := AmbiguousNextOp OpPut NewInjector\<rparr>) = (Inr (), s') \<and>
    fake_look s' (Key_String canonical_uuid \<lparr>key_Kind = KindIncrement, key_Generation = 2, key_ID = zeroUUID\<rparr>) = Some (d, t) \<and>
    (\<lambda>d. [of_nat (length d)]) d = [4 :: u8]"
proof -
  let ?key = "\<lparr>key_Kind = KindIncrement, key_Generation = 2, key_ID = zeroUUID\<rparr>"
  let ?meta = "\<lparr>md_SHA256 = [4], md_Size = 4, md_Kind = KindIncrement, md_Generation = 2\<rparr>"
  let ?sha = "\<lambda>d :: bytes. [of_nat (length d) :: u8]"
  let ?s = "(fake_New [])\<lparr>st_faults := AmbiguousNextOp OpPut NewInjector\<rparr>"
  have "fst (UploadUnique ?sha canonical_uuid (fake_store (\<lambda>_. [])) ?key (Some ''pack'') ?meta ?s) = Inr ()"
    by (simp add: UploadUnique_def PackKind_Valid_def tryS_apply fake_store_def fake_PutObject_def fake_enter_def ConsumeFail_def
        AmbiguousNextOp_def NewInjector_def fake_New_def prefix_fault_def sortedOpKeys_def fake_landed_def ConsumeAmbiguous_def
        VerifyObject_def bindS_apply fake_ReadObject_def put_object_def fake_full_def Let_def OpPut_def OpGet_def)
  then obtain s' where up: "UploadUnique ?sha canonical_uuid (fake_store (\<lambda>_. [])) ?key (Some ''pack'') ?meta ?s = (Inr (), s')"
    by (metis prod.collapse)
  have "\<exists>d t. fake_look s' (Key_String canonical_uuid ?key) = Some (d, t) \<and> of_nat (length d) = md_Size ?meta \<and> ?sha d = md_SHA256 ?meta"
    using upload_proved [OF fake.conditional_store_axioms up] by simp
  then show ?thesis using up by auto
qed

text \<open>Whatever the probe concludes, on a store that keeps the contract it leaves every key but its own
  disposable one as it was.\<close>

theorem probe_isolated:
  assumes "conditional_store S look" "Probe lib S (Inr ident) s = (r, s')" "k \<noteq> ''probe/'' @ uuid_String lib ident"
  shows "look s' k = look s k"
  using conditional_store.Probe_only [OF assms(1), of lib ident] assms(2,3)
  by (auto simp: conditional_store.only_def [OF assms(1)])

theorem probe_isolated_witness:
  "fake_look (snd (Probe canonical_uuid (fake_store (\<lambda>_. [])) (Inr zeroUUID) (fake_New []))) ''current'' =
   fake_look (fake_New []) ''current''"
  by (rule probe_isolated [OF fake.conditional_store_axioms surjective_pairing]) simp

end
