(* ===== verification/Merge.thy ===== *)
theory Merge
  imports GitTree
begin

text \<open>
  The merge policy of \<open>internal/git/merge.go\<close>: conflict markers, the structuring of a merge index
  into conflicts, and the snapshot a conflicted merge makes visible. The three-tree merge and the
  file merge themselves are libgit2's and stay operations of \<open>Repository\<close>.

  A nil \<open>Content\<close> of a conflict, the mark of a file/directory conflict, is \<open>None\<close>.
\<close>

section \<open>Conflict markers\<close>

definition markerOpen :: bytes where "markerOpen = ''<<<<<<< local''"
definition markerSep :: bytes where "markerSep = ''=======''"
definition markerClose :: bytes where "markerClose = ''>>>>>>> remote''"

definition nl :: char where "nl = CHR 0x0A"

record MarkerRange =
  mr_Start :: nat
  mr_End :: nat

text \<open>The lines the scan visits: a final line without terminator counts, an empty rest does not.\<close>

definition scan_lines :: "bytes \<Rightarrow> bytes list" where
  "scan_lines data = (let ls = SplitOn nl data in if last ls = [] then butlast ls else ls)"

definition strip_cr :: "bytes \<Rightarrow> bytes" where
  "strip_cr line = (if line \<noteq> [] \<and> last line = CHR 0x0D then butlast line else line)"

text \<open>State 0 is outside a block, 1 after the opener, 2 after the separator.\<close>

fun scan_blocks :: "nat \<Rightarrow> nat \<Rightarrow> nat \<Rightarrow> bytes list \<Rightarrow> MarkerRange list" where
  "scan_blocks st start row [] = []"
| "scan_blocks st start row (l # ls) =
     (let line = strip_cr l in
      if line = markerOpen then
        (if st = 0 then scan_blocks 1 row (row + 1) ls else scan_blocks st start (row + 1) ls)
      else if line = markerSep then
        (if st = 1 then scan_blocks 2 start (row + 1) ls else scan_blocks st start (row + 1) ls)
      else if line = markerClose then
        (if st = 2 then \<lparr>mr_Start = start, mr_End = row\<rparr> # scan_blocks 0 start (row + 1) ls
         else scan_blocks st start (row + 1) ls)
      else scan_blocks st start (row + 1) ls)"

definition FindConflictBlocks :: "bytes \<Rightarrow> MarkerRange list" where
  "FindConflictBlocks data = scan_blocks 0 0 1 (scan_lines data)"

definition with_newline :: "bytes \<Rightarrow> bytes" where
  "with_newline s = (if s = [] \<or> last s \<noteq> nl then s @ [nl] else s)"

definition formatDeleteConflict :: "bytes \<Rightarrow> bytes \<Rightarrow> bytes" where
  "formatDeleteConflict local remote =
     markerOpen @ [nl] @ with_newline local @ markerSep @ [nl] @ with_newline remote @ markerClose @ [nl]"

section \<open>Merging\<close>

record Conflict =
  cf_Path :: bytes
  cf_Content :: "bytes option"
  cf_Ranges :: "MarkerRange list"

record MergeResult =
  mres_Tree :: oid
  mres_Index :: MergeIndex
  mres_Conflicts :: "Conflict list"

definition index_at :: "IndexEntry list \<Rightarrow> bytes \<Rightarrow> IndexEntry list" where
  "index_at es path = filter (\<lambda>e. ie_Path e = path) es"

definition index_paths :: "IndexEntry list \<Rightarrow> bytes list" where
  "index_paths es = sort (remdups (map ie_Path es))"

definition check_modes :: "IndexEntry list \<Rightarrow> git_error + unit" where
  "check_modes es =
     (case find (\<lambda>e. ie_Mode e \<noteq> ModeBlob \<and> ie_Mode e \<noteq> ModeTree) es of
        Some e \<Rightarrow> Inl (UnsupportedModeError (ie_Path e) (ie_Mode e))
      | None \<Rightarrow> Inr ())"

definition conflicted :: "IndexEntry list \<Rightarrow> bool" where
  "conflicted es \<longleftrightarrow> list_ex (\<lambda>e. ie_Stage e \<noteq> 0) es"

definition isDirFileConflict :: "bytes \<Rightarrow> IndexEntry list \<Rightarrow> bool" where
  "isDirFileConflict path es \<longleftrightarrow> list_ex (\<lambda>e. HasPrefix (ie_Path e) (path @ ''/'')) es"

definition belowDirFileConflict :: "bytes \<Rightarrow> (bytes \<Rightarrow> bool) \<Rightarrow> bool" where
  "belowDirFileConflict path dfPaths \<longleftrightarrow> list_ex dfPaths (dir_prefixes path)"

definition at_stage :: "nat \<Rightarrow> IndexEntry list \<Rightarrow> IndexEntry option" where
  "at_stage k es = (case filter (\<lambda>e. ie_Stage e = k) es of [] \<Rightarrow> None | xs \<Rightarrow> Some (last xs))"

definition read_stage :: "'r Repository \<Rightarrow> 'r \<Rightarrow> IndexEntry option \<Rightarrow> git_error + bytes" where
  "read_stage R r e = (case e of None \<Rightarrow> Inr [] | Some e \<Rightarrow> ReadBlob R r (ie_ID e))"

definition stage_mode_ok :: "IndexEntry option \<Rightarrow> bool" where
  "stage_mode_ok e = (case e of None \<Rightarrow> True | Some e \<Rightarrow> ie_Mode e = ModeBlob)"

definition materializeConflict :: "'r Repository \<Rightarrow> 'r \<Rightarrow> IndexEntry list \<Rightarrow> git_error + bytes \<times> MarkerRange list" where
  "materializeConflict R r entries =
     (let base = at_stage 1 entries; local = at_stage 2 entries; remote = at_stage 3 entries in
      if \<not> (stage_mode_ok base \<and> stage_mode_ok local \<and> stage_mode_ok remote) then Inl ConflictInvalid
      else bindR (read_stage R r base) (\<lambda>b.
           bindR (read_stage R r local) (\<lambda>l.
           bindR (read_stage R r remote) (\<lambda>m.
           if local = None \<or> remote = None then
             (let content = formatDeleteConflict l m in Inr (content, FindConflictBlocks content))
           else bindR (MergeFile R b l m) (\<lambda>res.
             Inr (mfr_Content res,
                  if mfr_Automergeable res then [] else FindConflictBlocks (mfr_Content res)))))))"

definition conflict_of :: "'r Repository \<Rightarrow> 'r \<Rightarrow> IndexEntry list \<Rightarrow> bytes \<Rightarrow> git_error + Conflict" where
  "conflict_of R r es path =
     (if isDirFileConflict path es then Inr \<lparr>cf_Path = path, cf_Content = None, cf_Ranges = []\<rparr>
      else bindR (materializeConflict R r (index_at es path)) (\<lambda>(content, ranges).
        Inr \<lparr>cf_Path = path, cf_Content = Some content, cf_Ranges = ranges\<rparr>))"

definition df_path :: "Conflict list \<Rightarrow> bytes \<Rightarrow> bool" where
  "df_path cs path \<longleftrightarrow> list_ex (\<lambda>c. cf_Content c = None \<and> cf_Path c = path) cs"

definition dropBelowLocalFiles ::
  "text_lib \<Rightarrow> 'r Repository \<Rightarrow> 'r \<Rightarrow> nat \<Rightarrow> oid \<Rightarrow> Conflict list \<Rightarrow> git_error + Conflict list" where
  "dropBelowLocalFiles tx R r depth local conflicts =
     (if \<not> list_ex (\<lambda>c. cf_Content c = None) conflicts then Inr conflicts
      else bindR (ReadSnapshot tx R r depth local) (\<lambda>localSide.
        let localFiles = (\<lambda>path. df_path conflicts path \<and> list_ex (\<lambda>f. f_Path f = path) localSide) in
        if \<not> list_ex (\<lambda>f. df_path conflicts (f_Path f)) localSide then Inr conflicts
        else Inr (filter (\<lambda>c. \<not> (cf_Content c \<noteq> None \<and> belowDirFileConflict (cf_Path c) localFiles)) conflicts)))"

definition git_Merge ::
  "text_lib \<Rightarrow> 'r Repository \<Rightarrow> 'r \<Rightarrow> nat \<Rightarrow> oid \<Rightarrow> oid \<Rightarrow> oid \<Rightarrow> git_error + MergeResult \<times> 'r" where
  "git_Merge tx R r depth base local remote =
     bindR (MergeTrees R r base local remote) (\<lambda>(idx, r').
     bindR (check_modes (mi_Entries idx)) (\<lambda>_.
     bindR (mapR (conflict_of R r' (mi_Entries idx))
        (filter (\<lambda>path. conflicted (index_at (mi_Entries idx) path)) (index_paths (mi_Entries idx)))) (\<lambda>conflicts0.
     bindR (dropBelowLocalFiles tx R r' depth local conflicts0) (\<lambda>conflicts.
     if conflicts = [] then
       (if OID_IsZero (mi_Tree idx) then Inl ConflictInvalid
        else Inr (\<lparr>mres_Tree = mi_Tree idx, mres_Index = idx, mres_Conflicts = []\<rparr>, r'))
     else Inr (\<lparr>mres_Tree = zeroOID, mres_Index = idx, mres_Conflicts = conflicts\<rparr>, r')))))"

section \<open>The visible snapshot\<close>

definition text_conflict :: "Conflict list \<Rightarrow> (bytes \<rightharpoonup> bytes)" where
  "text_conflict cs =
     foldl (\<lambda>m c. case cf_Content c of None \<Rightarrow> m | Some content \<Rightarrow> m(cf_Path c \<mapsto> content)) Map.empty cs"

definition resolved_file ::
  "'r Repository \<Rightarrow> 'r \<Rightarrow> Conflict list \<Rightarrow> IndexEntry list \<Rightarrow> bytes \<Rightarrow> git_error + Snapshot" where
  "resolved_file R r cs es path =
     (case text_conflict cs path of
        Some content \<Rightarrow> Inr [\<lparr>f_Path = path, f_Data = content\<rparr>]
      | None \<Rightarrow>
          if df_path cs path \<or> belowDirFileConflict path (df_path cs) then Inr []
          else case index_at es path of
            [e] \<Rightarrow>
              if ie_Stage e \<noteq> 0 \<or> ie_Mode e \<noteq> ModeBlob then Inl ConflictInvalid
              else bindR (ReadBlob R r (ie_ID e)) (\<lambda>d. Inr [\<lparr>f_Path = path, f_Data = d\<rparr>])
          | _ \<Rightarrow> Inl ConflictInvalid)"

definition local_side :: "Conflict list \<Rightarrow> Snapshot \<Rightarrow> Snapshot" where
  "local_side cs localSide =
     filter (\<lambda>f. text_conflict cs (f_Path f) = None \<and>
       (df_path cs (f_Path f) \<or> belowDirFileConflict (f_Path f) (df_path cs))) localSide"

definition MaterializeTree ::
  "text_lib \<Rightarrow> 'r Repository \<Rightarrow> 'r \<Rightarrow> nat \<Rightarrow> MergeResult \<Rightarrow> oid \<Rightarrow> git_error + Snapshot" where
  "MaterializeTree tx R r depth res local =
     (if \<not> OID_IsZero (mres_Tree res) then ReadSnapshot tx R r depth (mres_Tree res)
      else
        let cs = mres_Conflicts res; es = mi_Entries (mres_Index res) in
        bindR (mapR (resolved_file R r cs es) (index_paths es)) (\<lambda>fss.
        bindR (if list_ex (\<lambda>c. cf_Content c = None) cs
               then bindR (ReadSnapshot tx R r depth local) (\<lambda>localSide.
                      Inr (sort_key f_Path (concat fss @ local_side cs localSide)))
               else Inr (concat fss)) (\<lambda>snap.
        bindR (mapErr SnapshotInvalid (ValidateSnapshot tx snap)) (\<lambda>_. Inr snap))))"

section \<open>Markers are always found again\<close>

lemma markers_differ [simp]: "markerOpen \<noteq> markerSep" "markerSep \<noteq> markerClose" "markerOpen \<noteq> markerClose"
  "markerSep \<noteq> markerOpen" "markerClose \<noteq> markerSep" "markerClose \<noteq> markerOpen"
  by (simp_all add: markerOpen_def markerSep_def markerClose_def)

lemma strip_cr_markers [simp]: "strip_cr markerOpen = markerOpen" "strip_cr markerSep = markerSep" "strip_cr markerClose = markerClose"
  by (simp_all add: strip_cr_def markerOpen_def markerSep_def markerClose_def)

lemma scan_from_sep: "\<exists>e rs. scan_blocks 2 start row (ls @ markerClose # rest) = \<lparr>mr_Start = start, mr_End = e\<rparr> # rs"
  by (induction ls arbitrary: row) (auto simp: Let_def)

lemma scan_from_open:
  "\<exists>e rs. scan_blocks 1 start row (ls @ markerSep # ms @ markerClose # rest) = \<lparr>mr_Start = start, mr_End = e\<rparr> # rs"
proof (induction ls arbitrary: row)
  case Nil
  then show ?case using scan_from_sep by (simp add: Let_def)
next
  case (Cons l ls)
  have "\<exists>e rs. scan_blocks 2 start (row + 1) ((ls @ markerSep # ms) @ markerClose # rest) = \<lparr>mr_Start = start, mr_End = e\<rparr> # rs"
    by (rule scan_from_sep)
  then show ?case using Cons by (auto simp: Let_def)
qed

lemma with_newline_last: "\<exists>u. with_newline s = u @ [nl]"
  by (auto simp: with_newline_def) (metis append_butlast_last_id)

lemma SplitOn_terminated: "SplitOn c (u @ c # v) = SplitOn c u @ SplitOn c v"
proof (induction u)
  case (Cons x u)
  then show ?case by (cases "SplitOn c u") (auto split: list.splits)
qed simp

lemma scan_lines_delete:
  "\<exists>ls ms. scan_lines (formatDeleteConflict l r) = markerOpen # ls @ markerSep # ms @ [markerClose]"
proof -
  obtain u where u: "with_newline l = u @ [nl]" using with_newline_last by blast
  obtain v where v: "with_newline r = v @ [nl]" using with_newline_last by blast
  have no: "nl \<notin> set markerOpen" "nl \<notin> set markerSep" "nl \<notin> set markerClose"
    by (simp_all add: nl_def markerOpen_def markerSep_def markerClose_def)
  have "SplitOn nl (formatDeleteConflict l r) =
      markerOpen # SplitOn nl u @ markerSep # SplitOn nl v @ [markerClose, []]"
    using no by (simp add: formatDeleteConflict_def u v SplitOn_terminated SplitOn_single)
  then have "scan_lines (formatDeleteConflict l r) = markerOpen # SplitOn nl u @ markerSep # SplitOn nl v @ [markerClose]"
    by (simp add: scan_lines_def butlast_append)
  then show ?thesis by blast
qed

lemma FindConflictBlocks_delete:
  "\<exists>e rs. FindConflictBlocks (formatDeleteConflict l r) = \<lparr>mr_Start = 1, mr_End = e\<rparr> # rs"
proof -
  obtain ls ms where "scan_lines (formatDeleteConflict l r) = markerOpen # ls @ markerSep # ms @ [markerClose]"
    using scan_lines_delete by blast
  then show ?thesis using scan_from_open [of "Suc 0" "Suc (Suc 0)" ls ms "[]"] by (simp add: FindConflictBlocks_def Let_def)
qed

section \<open>No conflict is lost\<close>

lemma belowDirFileConflict_iff: "belowDirFileConflict path D \<longleftrightarrow> (\<exists>d. D d \<and> prefix (d @ ''/'') path)"
  by (auto simp: belowDirFileConflict_def list_ex_iff dir_prefixes_iff)

lemma df_path_iff: "df_path cs p \<longleftrightarrow> (\<exists>c \<in> set cs. cf_Content c = None \<and> cf_Path c = p)"
  by (simp add: df_path_def list_ex_iff)

lemma index_paths_set [simp]: "set (index_paths es) = ie_Path ` set es"
  by (simp add: index_paths_def)

lemma index_paths_distinct: "distinct (index_paths es)"
  by (simp add: index_paths_def)

lemma conflict_of_path: "conflict_of R r es p = Inr c \<Longrightarrow> cf_Path c = p"
  by (auto simp: conflict_of_def bindR_eq_Inr split: if_splits)

lemma conflicted_in_index: "conflicted (index_at es p) \<Longrightarrow> p \<in> ie_Path ` set es"
  by (auto simp: conflicted_def index_at_def list_ex_iff)

lemma mapR_member: "mapR f xs = Inr ys \<Longrightarrow> x \<in> set xs \<Longrightarrow> \<exists>y \<in> set ys. f x = Inr y"
  by (induction xs arbitrary: ys) (auto simp: bindR_eq_Inr)

lemma mapR_image: "mapR f xs = Inr ys \<Longrightarrow> y \<in> set ys \<Longrightarrow> \<exists>x \<in> set xs. f x = Inr y"
  by (induction xs arbitrary: ys) (auto simp: bindR_eq_Inr)

lemma dropBelowLocalFiles_kept:
  assumes "dropBelowLocalFiles tx R r depth local cs = Inr ks"
  shows "set ks \<subseteq> set cs"
    "c \<in> set cs \<Longrightarrow> c \<in> set ks \<or>
       (\<exists>d \<in> set ks. cf_Content d = None \<and> prefix (cf_Path d @ ''/'') (cf_Path c))"
proof -
  consider "ks = cs" | localFiles where "ks = filter (\<lambda>c. \<not> (cf_Content c \<noteq> None \<and> belowDirFileConflict (cf_Path c) localFiles)) cs"
      "\<And>p. localFiles p \<Longrightarrow> df_path cs p"
    using assms by (force simp: dropBelowLocalFiles_def bindR_eq_Inr Let_def split: if_splits)
  note cases = this
  show "set ks \<subseteq> set cs" using cases by cases auto
  show "c \<in> set ks \<or> (\<exists>d \<in> set ks. cf_Content d = None \<and> prefix (cf_Path d @ ''/'') (cf_Path c))" if c: "c \<in> set cs"
    using cases
  proof cases
    case 2
    show ?thesis
    proof (cases "cf_Content c \<noteq> None \<and> belowDirFileConflict (cf_Path c) localFiles")
      case True
      then obtain p where p: "localFiles p" "prefix (p @ ''/'') (cf_Path c)" by (auto simp: belowDirFileConflict_iff)
      then obtain d where "d \<in> set cs" "cf_Content d = None" "cf_Path d = p" using 2(2) by (auto simp: df_path_iff)
      then show ?thesis using p(2) by (auto simp: 2(1))
    qed (use c 2(1) in simp)
  qed (use c in simp)
qed

lemma git_Merge_cases:
  assumes "git_Merge tx R r depth base local remote = Inr (res, r')"
  obtains idx cs where "MergeTrees R r base local remote = Inr (idx, r')"
    "mapR (conflict_of R r' (mi_Entries idx))
       (filter (\<lambda>path. conflicted (index_at (mi_Entries idx) path)) (index_paths (mi_Entries idx))) = Inr cs"
    "dropBelowLocalFiles tx R r' depth local cs = Inr (mres_Conflicts res)"
    "mres_Index res = idx" "check_modes (mi_Entries idx) = Inr ()"
    "mres_Tree res = (if mres_Conflicts res = [] then mi_Tree idx else zeroOID)"
    "mres_Conflicts res = [] \<Longrightarrow> \<not> OID_IsZero (mi_Tree idx)"
  using assms by (auto simp: git_Merge_def bindR_eq_Inr split: if_splits)

lemma git_Merge_reports:
  assumes "git_Merge tx R r depth base local remote = Inr (res, r')"
    "conflicted (index_at (mi_Entries (mres_Index res)) p)"
  shows "(\<exists>c \<in> set (mres_Conflicts res). cf_Path c = p) \<or>
    (\<exists>d \<in> set (mres_Conflicts res). cf_Content d = None \<and> prefix (cf_Path d @ ''/'') p)"
proof -
  from assms(1) obtain idx cs where m: "mapR (conflict_of R r' (mi_Entries idx))
       (filter (\<lambda>path. conflicted (index_at (mi_Entries idx) path)) (index_paths (mi_Entries idx))) = Inr cs"
    and k: "dropBelowLocalFiles tx R r' depth local cs = Inr (mres_Conflicts res)" and i: "mres_Index res = idx"
    by (rule git_Merge_cases)
  have "p \<in> set (filter (\<lambda>path. conflicted (index_at (mi_Entries idx) path)) (index_paths (mi_Entries idx)))"
    using assms(2) conflicted_in_index [of "mi_Entries idx" p] by (simp add: i)
  then obtain c where c: "c \<in> set cs" "conflict_of R r' (mi_Entries idx) p = Inr c" using mapR_member [OF m] by blast
  then show ?thesis using dropBelowLocalFiles_kept(2) [OF k c(1)] conflict_of_path [OF c(2)] by auto
qed

lemma git_Merge_only:
  assumes "git_Merge tx R r depth base local remote = Inr (res, r')" "c \<in> set (mres_Conflicts res)"
  shows "conflicted (index_at (mi_Entries (mres_Index res)) (cf_Path c))"
proof -
  from assms(1) obtain idx cs where m: "mapR (conflict_of R r' (mi_Entries idx))
       (filter (\<lambda>path. conflicted (index_at (mi_Entries idx) path)) (index_paths (mi_Entries idx))) = Inr cs"
    and k: "dropBelowLocalFiles tx R r' depth local cs = Inr (mres_Conflicts res)" and i: "mres_Index res = idx"
    by (rule git_Merge_cases)
  have "c \<in> set cs" using dropBelowLocalFiles_kept(1) [OF k] assms(2) by blast
  then show ?thesis using mapR_image [OF m] conflict_of_path by (fastforce simp: i)
qed

section \<open>What a conflicted merge makes visible\<close>

lemma text_conflict_None: "text_conflict cs p = None \<longleftrightarrow> (\<forall>c \<in> set cs. cf_Path c = p \<longrightarrow> cf_Content c = None)"
proof (induction cs rule: rev_induct)
  case (snoc c cs)
  then show ?case by (cases "cf_Content c") (auto simp: text_conflict_def)
qed (simp add: text_conflict_def)

lemma text_conflict_Some:
  "distinct (map cf_Path cs) \<Longrightarrow> c \<in> set cs \<Longrightarrow> text_conflict cs (cf_Path c) = cf_Content c"
proof (induction cs rule: rev_induct)
  case (snoc x cs)
  show ?case
  proof (cases "c = x")
    case True
    then have "text_conflict cs (cf_Path c) = None" using snoc.prems(1) by (simp add: text_conflict_None) (metis image_eqI)
    then show ?thesis using True by (cases "cf_Content x") (simp_all add: text_conflict_def)
  next
    case False
    then have c: "c \<in> set cs" using snoc.prems(2) by simp
    have "cf_Path c \<in> cf_Path ` set cs" using c by simp
    then have "cf_Path c \<noteq> cf_Path x" using snoc.prems(1) by (simp only: map_append distinct_append) auto
    moreover have "text_conflict (cs @ [x]) (cf_Path c) = text_conflict cs (cf_Path c)"
      using calculation by (cases "cf_Content x") (simp_all add: text_conflict_def)
    ultimately show ?thesis using snoc c by simp
  qed
qed simp

lemma MaterializeTree_cases:
  assumes "MaterializeTree tx R r depth res local = Inr snap" "OID_IsZero (mres_Tree res)"
  obtains fss where "mapR (resolved_file R r (mres_Conflicts res) (mi_Entries (mres_Index res)))
      (index_paths (mi_Entries (mres_Index res))) = Inr fss" "valid_snapshot tx snap" "set (concat fss) \<subseteq> set snap"
    "\<forall>ls. ReadSnapshot tx R r depth local = Inr ls \<longrightarrow> set (local_side (mres_Conflicts res) ls) \<subseteq> set snap"
    "\<forall>f \<in> set snap. f \<in> set (concat fss) \<or>
       (\<exists>ls. ReadSnapshot tx R r depth local = Inr ls \<and> f \<in> set (local_side (mres_Conflicts res) ls))"
proof -
  let ?cs = "mres_Conflicts res" let ?es = "mi_Entries (mres_Index res)"
  from assms obtain fss where m: "mapR (resolved_file R r ?cs ?es) (index_paths ?es) = Inr fss"
    and s: "(if list_ex (\<lambda>c. cf_Content c = None) ?cs
               then bindR (ReadSnapshot tx R r depth local) (\<lambda>localSide.
                      Inr (sort_key f_Path (concat fss @ local_side ?cs localSide)))
               else Inr (concat fss)) = Inr snap"
    and v: "ValidateSnapshot tx snap = Inr ()"
    by (auto simp: MaterializeTree_def bindR_eq_Inr Let_def)
  have none: "local_side ?cs ls = []" if "\<not> list_ex (\<lambda>c. cf_Content c = None) ?cs" for ls
    using that by (auto simp: local_side_def df_path_iff belowDirFileConflict_iff list_ex_iff filter_empty_conv)
  show ?thesis
  proof (rule that [OF m])
    show "valid_snapshot tx snap" using v by (simp add: ValidateSnapshot_iff)
  qed (use s none in \<open>auto simp: bindR_eq_Inr split: if_splits\<close>)
qed

lemma resolved_file_text: "text_conflict cs p = Some d \<Longrightarrow> resolved_file R r cs es p = Inr [\<lparr>f_Path = p, f_Data = d\<rparr>]"
  by (simp add: resolved_file_def)

lemma resolved_file_blob:
  "f \<in> set fs \<Longrightarrow> resolved_file R r cs es p = Inr fs \<Longrightarrow> text_conflict cs p = None \<Longrightarrow>
   f_Path f = p \<and> (\<exists>e \<in> set es. ie_Path e = p \<and> ie_Stage e = 0 \<and> ReadBlob R r (ie_ID e) = Inr (f_Data f))"
  by (auto simp: resolved_file_def index_at_def bindR_eq_Inr filter_eq_Cons_iff split: if_splits list.splits)

lemma materialized_content:
  assumes "MaterializeTree tx R r depth res local = Inr snap" "OID_IsZero (mres_Tree res)" "f \<in> set snap"
  shows "text_conflict (mres_Conflicts res) (f_Path f) = Some (f_Data f) \<or>
    (\<exists>e \<in> set (mi_Entries (mres_Index res)). ie_Path e = f_Path f \<and> ie_Stage e = 0 \<and> ReadBlob R r (ie_ID e) = Inr (f_Data f)) \<or>
    (\<exists>ls. ReadSnapshot tx R r depth local = Inr ls \<and> f \<in> set ls)"
proof -
  from assms(1,2) obtain fss where m: "mapR (resolved_file R r (mres_Conflicts res) (mi_Entries (mres_Index res)))
      (index_paths (mi_Entries (mres_Index res))) = Inr fss"
    and o: "\<forall>f \<in> set snap. f \<in> set (concat fss) \<or>
       (\<exists>ls. ReadSnapshot tx R r depth local = Inr ls \<and> f \<in> set (local_side (mres_Conflicts res) ls))"
    by (rule MaterializeTree_cases)
  show ?thesis
  proof (cases "f \<in> set (concat fss)")
    case True
    then obtain fs where fs: "fs \<in> set fss" "f \<in> set fs" by auto
    then obtain p where p: "resolved_file R r (mres_Conflicts res) (mi_Entries (mres_Index res)) p = Inr fs"
      using mapR_image [OF m] by blast
    then show ?thesis
      using fs(2) resolved_file_blob [OF fs(2) p]
      by (cases "text_conflict (mres_Conflicts res) p") (auto simp: resolved_file_text)
  next
    case False
    then show ?thesis using o assms(3) by (auto simp: local_side_def)
  qed
qed

lemma materialized_keeps:
  assumes "MaterializeTree tx R r depth res local = Inr snap" "OID_IsZero (mres_Tree res)"
  shows "valid_snapshot tx snap"
    "p \<in> ie_Path ` set (mi_Entries (mres_Index res)) \<Longrightarrow> text_conflict (mres_Conflicts res) p = Some d \<Longrightarrow>
       \<lparr>f_Path = p, f_Data = d\<rparr> \<in> set snap"
    "ReadSnapshot tx R r depth local = Inr ls \<Longrightarrow> set (local_side (mres_Conflicts res) ls) \<subseteq> set snap"
proof -
  from assms(1,2) obtain fss where m: "mapR (resolved_file R r (mres_Conflicts res) (mi_Entries (mres_Index res)))
      (index_paths (mi_Entries (mres_Index res))) = Inr fss" and v: "valid_snapshot tx snap" and c: "set (concat fss) \<subseteq> set snap"
    and l: "\<forall>ls. ReadSnapshot tx R r depth local = Inr ls \<longrightarrow> set (local_side (mres_Conflicts res) ls) \<subseteq> set snap"
    by (rule MaterializeTree_cases)
  show "valid_snapshot tx snap" by (rule v)
  show "set (local_side (mres_Conflicts res) ls) \<subseteq> set snap" if h: "ReadSnapshot tx R r depth local = Inr ls" using l h by blast
  show "\<lparr>f_Path = p, f_Data = d\<rparr> \<in> set snap"
    if p: "p \<in> ie_Path ` set (mi_Entries (mres_Index res))" and d: "text_conflict (mres_Conflicts res) p = Some d"
  proof -
    have "p \<in> set (index_paths (mi_Entries (mres_Index res)))" using p by simp
    from mapR_member [OF m this] obtain fs where "fs \<in> set fss" "fs = [\<lparr>f_Path = p, f_Data = d\<rparr>]"
      by (auto simp: resolved_file_text [OF d])
    then have "\<lparr>f_Path = p, f_Data = d\<rparr> \<in> set (concat fss)" unfolding set_concat by (metis UN_iff list.set_intros(1))
    then show ?thesis using c by blast
  qed
qed

section \<open>A stored merge\<close>

text \<open>
  A merge over the in-memory store for concrete inputs: \<open>a\<close> was edited locally and deleted remotely,
  \<open>b\<close> merged.
\<close>

definition sample_index :: MergeIndex where
  "sample_index = \<lparr>mi_Tree = zeroOID, mi_Entries =
     [\<lparr>ie_Path = ''a'', ie_Mode = ModeBlob, ie_ID = [], ie_Stage = 1\<rparr>,
      \<lparr>ie_Path = ''a'', ie_Mode = ModeBlob, ie_ID = [1], ie_Stage = 2\<rparr>,
      \<lparr>ie_Path = ''b'', ie_Mode = ModeBlob, ie_ID = [], ie_Stage = 0\<rparr>]\<rparr>"

definition merge_repository :: "gobject list Repository" where
  "merge_repository = mem_repository\<lparr>MergeTrees := (\<lambda>st base local remote. Inr (sample_index, st))\<rparr>"

definition merge_store :: "gobject list" where
  "merge_store = [GBlob ''old'', GBlob ''new'', GTree [\<lparr>te_Name = ''a'', te_Mode = ModeBlob, te_ID = [1]\<rparr>]]"

definition sample_conflict :: Conflict where
  "sample_conflict = \<lparr>cf_Path = ''a'', cf_Content = Some (formatDeleteConflict ''new'' []),
     cf_Ranges = FindConflictBlocks (formatDeleteConflict ''new'' [])\<rparr>"

definition sample_result :: MergeResult where
  "sample_result = \<lparr>mres_Tree = zeroOID, mres_Index = sample_index, mres_Conflicts = [sample_conflict]\<rparr>"

lemma merge_reads: "ReadBlob merge_repository merge_store [] = Inr ''old''" "ReadBlob merge_repository merge_store [1] = Inr ''new''"
  by (simp_all add: merge_repository_def mem_repository_def mem_get_def merge_store_def)

lemma sample_merge:
  "git_Merge tx merge_repository merge_store n [] [] [] = Inr (sample_result, merge_store)"
proof -
  have p: "index_paths (mi_Entries sample_index) = [''a'', ''b'']" by (simp add: index_paths_def sample_index_def)
  have m: "check_modes (mi_Entries sample_index) = Inr ()" by (simp add: check_modes_def sample_index_def)
  have c: "conflicted (index_at (mi_Entries sample_index) ''a'')" "\<not> conflicted (index_at (mi_Entries sample_index) ''b'')"
    by (simp_all add: conflicted_def index_at_def sample_index_def)
  have k: "conflict_of merge_repository merge_store (mi_Entries sample_index) ''a'' = Inr sample_conflict"
    by (simp add: conflict_of_def sample_index_def isDirFileConflict_def HasPrefix_def index_at_def materializeConflict_def
        at_stage_def stage_mode_ok_def read_stage_def merge_reads sample_conflict_def Let_def)
  have d: "dropBelowLocalFiles tx merge_repository merge_store n [] [sample_conflict] = Inr [sample_conflict]"
    by (simp add: dropBelowLocalFiles_def sample_conflict_def)
  have "MergeTrees merge_repository merge_store [] [] [] = Inr (sample_index, merge_store)" by (simp add: merge_repository_def)
  then show ?thesis using c by (simp add: git_Merge_def p m k d sample_result_def)
qed

lemma sample_local:
  "ReadSnapshot ascii_text merge_repository merge_store (Suc 0) [1, 1] = Inr [\<lparr>f_Path = ''a'', f_Data = ''new''\<rparr>]"
proof -
  have "ValidateSnapshot ascii_text [\<lparr>f_Path = ''a'', f_Data = ''new''\<rparr>] = Inr ()"
    unfolding ValidateSnapshot_iff valid_snapshot_def valid_file_def by (simp add: path_eval sample_segments)
  moreover have "ReadTree merge_repository merge_store [1, 1] = Inr [\<lparr>te_Name = ''a'', te_Mode = ModeBlob, te_ID = [1]\<rparr>]"
    by (simp add: merge_repository_def mem_repository_def mem_get_def merge_store_def)
  ultimately show ?thesis by (simp add: ReadSnapshot_def walkEntry_def unreadable_def merge_reads)
qed

lemma sample_materialized:
  "MaterializeTree ascii_text merge_repository merge_store n sample_result local =
   Inr [\<lparr>f_Path = ''a'', f_Data = formatDeleteConflict ''new'' []\<rparr>, \<lparr>f_Path = ''b'', f_Data = ''old''\<rparr>]"
proof -
  have p: "index_paths (mi_Entries sample_index) = [''a'', ''b'']" by (simp add: index_paths_def sample_index_def)
  have a: "resolved_file merge_repository merge_store [sample_conflict] (mi_Entries sample_index) ''a'' =
      Inr [\<lparr>f_Path = ''a'', f_Data = formatDeleteConflict ''new'' []\<rparr>]"
    by (simp add: resolved_file_def text_conflict_def sample_conflict_def)
  have b: "resolved_file merge_repository merge_store [sample_conflict] (mi_Entries sample_index) ''b'' = Inr [\<lparr>f_Path = ''b'', f_Data = ''old''\<rparr>]"
    by (simp add: resolved_file_def text_conflict_def sample_conflict_def df_path_def belowDirFileConflict_def dir_prefixes_def
        index_at_def sample_index_def merge_reads)
  have "ValidateSnapshot ascii_text [\<lparr>f_Path = ''a'', f_Data = formatDeleteConflict ''new'' []\<rparr>, \<lparr>f_Path = ''b'', f_Data = ''old''\<rparr>] = Inr ()"
    unfolding ValidateSnapshot_iff valid_snapshot_def valid_file_def
    by (simp add: path_eval sample_segments formatDeleteConflict_def with_newline_def markerOpen_def markerSep_def markerClose_def nl_def)
  then show ?thesis
    by (simp add: MaterializeTree_def sample_result_def OID_IsZero_def p a b) (simp add: sample_conflict_def)
qed

section \<open>Properties\<close>

text \<open>However the two sides look, marker lines included, a delete conflict is written so that the
  marker scan finds a complete block that starts at the first row: the conflict cannot pass unnoticed.\<close>

theorem delete_conflict_found:
  "\<exists>e rs. FindConflictBlocks (formatDeleteConflict local remote) = \<lparr>mr_Start = 1, mr_End = e\<rparr> # rs"
  by (rule FindConflictBlocks_delete)

text \<open>A merge loses no conflict: every path with a conflict stage in the merge index is reported, or
  lies below a reported file/directory conflict; only conflicted paths are reported; and the result
  has a tree exactly when it reports nothing.\<close>

theorem merge_reports_conflicts:
  assumes "git_Merge tx R r depth base local remote = Inr (res, r')"
  shows "(\<forall>p. conflicted (index_at (mi_Entries (mres_Index res)) p) \<longrightarrow>
      (\<exists>c \<in> set (mres_Conflicts res). cf_Path c = p \<or> cf_Content c = None \<and> prefix (cf_Path c @ ''/'') p)) \<and>
    (\<forall>c \<in> set (mres_Conflicts res). conflicted (index_at (mi_Entries (mres_Index res)) (cf_Path c))) \<and>
    (OID_IsZero (mres_Tree res) \<longleftrightarrow> mres_Conflicts res \<noteq> [])"
proof (intro conjI allI impI ballI)
  show "\<exists>c \<in> set (mres_Conflicts res). cf_Path c = p \<or> cf_Content c = None \<and> prefix (cf_Path c @ ''/'') p"
    if "conflicted (index_at (mi_Entries (mres_Index res)) p)" for p
    using git_Merge_reports [OF assms that] by blast
  show "conflicted (index_at (mi_Entries (mres_Index res)) (cf_Path c))" if "c \<in> set (mres_Conflicts res)" for c
    by (rule git_Merge_only [OF assms that])
  show "OID_IsZero (mres_Tree res) \<longleftrightarrow> mres_Conflicts res \<noteq> []"
    by (rule git_Merge_cases [OF assms]) (simp add: OID_IsZero_def)
qed

theorem merge_reports_conflicts_witness:
  "\<exists>res st. git_Merge ascii_text merge_repository merge_store 1 [] [] [] = Inr (res, st) \<and>
     (\<exists>c \<in> set (mres_Conflicts res). cf_Path c = ''a'' \<or> cf_Content c = None \<and> prefix (cf_Path c @ ''/'') ''a'')"
proof -
  have "conflicted (index_at (mi_Entries (mres_Index sample_result)) ''a'')"
    by (simp add: conflicted_def index_at_def sample_index_def sample_result_def)
  then show ?thesis
    using merge_reports_conflicts [OF sample_merge [of ascii_text 1]] sample_merge [of ascii_text 1] by blast
qed



end
