(* ===== verification/NotebookErrors.thy ===== *)
theory NotebookErrors
  imports WorkspaceState ObjectStore Merge
begin

text \<open>
  The error taxonomy of \<open>internal/notebook/errors.go\<close>: codes, reasons, the table that gives the caller's next
  step, and the constructors of domain errors. A domain error carries its cause, so that \<open>errors.Is\<close> and
  \<open>errors.As\<close> can classify it: \<open>err_is\<close> searches an error the way they do, the error first and then what it
  wraps. Message texts are presentation and are left out.

  An account refusal of the store reaches the caller as that refusal, through recovery too (\<open>refusal_surfaces\<close>).
\<close>

section \<open>Codes, reasons and actions\<close>

datatype Code =
    CodeInvalidRequest | CodeContentConflict | CodeStorageIntegrity | CodeStorageFailure | CodeRemoteBusy | CodeRecoveryFailure

datatype Reason =
    ReasonMalformedInput | ReasonPathOutsideRoot | ReasonMessageBlank | ReasonMessageTooLong | ReasonMessageInvalid
  | ReasonPullRequired | ReasonDirectoryNotEmpty | ReasonInvalidContent | ReasonReadOnlyPath | ReasonIgnoredConflict
  | ReasonMergeConflict | ReasonUnresolvedMarkers | ReasonRetriesExhausted | ReasonManifestRead | ReasonPackDownload
  | ReasonPackUpload | ReasonPublicationUnproven | ReasonManifestWrite | ReasonLocalState | ReasonInternal
  | ReasonStorageFull | ReasonRequestLimit | ReasonRateLimited | ReasonAccessDenied | ReasonObjectTooLarge
  | ReasonUpgradeRequired | ReasonManifestInvalid | ReasonPackInvalid | ReasonEnvelopeInvalid | ReasonHistoryInvalid
  | ReasonEngineFailed | ReasonLocalMutationFailed | ReasonSignInRequired | ReasonSetupRequired | ReasonKeyRequired
  | ReasonKeyRejected | ReasonKeyMaterialInvalid | ReasonDoorLimit | ReasonEncryptionAlreadyEnabled | ReasonEncryptionNotEnabled

datatype FileReason =
    FileReasonTextConflict | FileReasonPathConflict | FileReasonUnresolvedMarkers | FileReasonReadOnly
  | FileReasonInvalidContent | FileReasonNotInNotebook | FileReasonDiffersFromNotebook

datatype Action = ActionFixInput | ActionEditFiles | ActionPull | ActionRetry | ActionOperator

datatype RemoteAccepted = RemoteAcceptedYes | RemoteAcceptedNo | RemoteAcceptedUnknown

record RecoveryReport =
  rr_Stage :: bytes
  rr_RemoteAccepted :: RemoteAccepted
  rr_Resynchronized :: bool

record ErrorFile =
  ef_Path :: bytes
  ef_Reason :: FileReason
  ef_Ranges :: "MarkerRange list"

definition actionForPairing :: "((Code \<times> Reason) \<times> Action) list" where
  "actionForPairing =
    [((CodeInvalidRequest, ReasonMalformedInput), ActionFixInput),
     ((CodeInvalidRequest, ReasonPathOutsideRoot), ActionFixInput),
     ((CodeInvalidRequest, ReasonMessageBlank), ActionFixInput),
     ((CodeInvalidRequest, ReasonMessageTooLong), ActionFixInput),
     ((CodeInvalidRequest, ReasonMessageInvalid), ActionFixInput),
     ((CodeInvalidRequest, ReasonPullRequired), ActionPull),
     ((CodeInvalidRequest, ReasonDirectoryNotEmpty), ActionFixInput),
     ((CodeInvalidRequest, ReasonInvalidContent), ActionEditFiles),
     ((CodeInvalidRequest, ReasonReadOnlyPath), ActionEditFiles),
     ((CodeInvalidRequest, ReasonIgnoredConflict), ActionEditFiles),
     ((CodeContentConflict, ReasonMergeConflict), ActionEditFiles),
     ((CodeContentConflict, ReasonUnresolvedMarkers), ActionEditFiles),
     ((CodeRemoteBusy, ReasonRetriesExhausted), ActionRetry),
     ((CodeStorageFailure, ReasonManifestRead), ActionRetry),
     ((CodeStorageFailure, ReasonPackDownload), ActionRetry),
     ((CodeStorageFailure, ReasonPackUpload), ActionRetry),
     ((CodeStorageFailure, ReasonPublicationUnproven), ActionPull),
     ((CodeStorageFailure, ReasonManifestWrite), ActionRetry),
     ((CodeStorageFailure, ReasonLocalState), ActionRetry),
     ((CodeStorageFailure, ReasonInternal), ActionRetry),
     ((CodeStorageFailure, ReasonStorageFull), ActionOperator),
     ((CodeStorageFailure, ReasonRequestLimit), ActionOperator),
     ((CodeStorageFailure, ReasonRateLimited), ActionRetry),
     ((CodeStorageFailure, ReasonAccessDenied), ActionOperator),
     ((CodeStorageFailure, ReasonObjectTooLarge), ActionOperator),
     ((CodeStorageFailure, ReasonUpgradeRequired), ActionOperator),
     ((CodeStorageFailure, ReasonSignInRequired), ActionRetry),
     ((CodeStorageFailure, ReasonSetupRequired), ActionOperator),
     ((CodeStorageIntegrity, ReasonManifestInvalid), ActionOperator),
     ((CodeStorageIntegrity, ReasonPackInvalid), ActionOperator),
     ((CodeStorageIntegrity, ReasonEnvelopeInvalid), ActionOperator),
     ((CodeStorageIntegrity, ReasonHistoryInvalid), ActionOperator),
     ((CodeStorageIntegrity, ReasonEngineFailed), ActionOperator),
     ((CodeStorageFailure, ReasonKeyRequired), ActionOperator),
     ((CodeStorageFailure, ReasonKeyRejected), ActionOperator),
     ((CodeStorageFailure, ReasonKeyMaterialInvalid), ActionOperator),
     ((CodeInvalidRequest, ReasonDoorLimit), ActionFixInput),
     ((CodeInvalidRequest, ReasonEncryptionAlreadyEnabled), ActionFixInput),
     ((CodeInvalidRequest, ReasonEncryptionNotEnabled), ActionFixInput)]"

definition isRefusalReason :: "Reason \<Rightarrow> bool" where
  "isRefusalReason reason \<longleftrightarrow> reason \<in> {ReasonStorageFull, ReasonRequestLimit, ReasonRateLimited, ReasonAccessDenied,
     ReasonObjectTooLarge, ReasonUpgradeRequired}"

text \<open>The second component is false for \<open>errUnknownActionPairing\<close>.\<close>

definition pairing_action :: "Code \<Rightarrow> Reason \<Rightarrow> Action \<times> bool" where
  "pairing_action code reason = (case map_of actionForPairing (code, reason) of Some a \<Rightarrow> (a, True) | None \<Rightarrow> (ActionRetry, False))"

definition actionFor :: "Code \<Rightarrow> Reason \<Rightarrow> RecoveryReport option \<Rightarrow> Action \<times> bool" where
  "actionFor code reason report =
     (if code = CodeRecoveryFailure then
        if isRefusalReason reason then pairing_action CodeStorageFailure reason
        else case report of
               Some r \<Rightarrow> if rr_Resynchronized r then (ActionPull, True) else (ActionRetry, True)
             | None \<Rightarrow> (ActionRetry, True)
      else pairing_action code reason)"

section \<open>Errors\<close>

text \<open>
  \<open>Error\<close> is the Go struct; its last field holds the cause: none, one error, or the two that
  \<open>errors.Join\<close> keeps. \<open>Wrapped\<close> is \<open>fmt.Errorf\<close> around one or several errors. The other constructors are errors of
  the packages below and the sentinels of this one.
\<close>

datatype nb_error =
    Error (e_Code: Code) (e_Reason: Reason) (e_Action: Action) (e_Files: "ErrorFile list")
      (e_Recovery: "RecoveryReport option") (e_Cause: "nb_error list")
  | Wrapped "nb_error list"
  | StoreErr store_error
  | GitErr git_error
  | DecodeErr decode_error
  | WsErr ws_error
  | IDErr
  | CtxErr
  | FailpointErr
  | Panic
  | BodyErr
  | EnvelopeErr
  | ErrCASLost
  | ErrManifestRefused
  | ErrStaleManifest
  | ErrEntryRecovered

fun err_is :: "(nb_error \<Rightarrow> bool) \<Rightarrow> nb_error \<Rightarrow> bool" where
  "err_is P (Error c r a fs rep es) \<longleftrightarrow> P (Error c r a fs rep es) \<or> (\<exists>e \<in> set es. err_is P e)"
| "err_is P (Wrapped es) \<longleftrightarrow> P (Wrapped es) \<or> (\<exists>e \<in> set es. err_is P e)"
| "err_is P e \<longleftrightarrow> P e"

fun store_is :: "store_error \<Rightarrow> store_error \<Rightarrow> bool" where
  "store_is t (ErrIncompatible (Some e)) \<longleftrightarrow> t = ErrIncompatible (Some e) \<or> store_is t e"
| "store_is t e \<longleftrightarrow> t = e"

text \<open>\<open>errors.Is\<close> against a sentinel of \<open>storage\<close>; the decoder's errors match two of them.\<close>

fun is_store :: "store_error \<Rightarrow> nb_error \<Rightarrow> bool" where
  "is_store t (StoreErr e) \<longleftrightarrow> store_is t e"
| "is_store t (DecodeErr (UpgradeRequired v)) \<longleftrightarrow> t = ErrUpgradeRequired"
| "is_store t (DecodeErr (Integrity e)) \<longleftrightarrow> t = ErrIntegrity"
| "is_store t e \<longleftrightarrow> False"

definition errors_Is :: "nb_error option \<Rightarrow> store_error \<Rightarrow> bool" where
  "errors_Is err t = (case err of None \<Rightarrow> False | Some e \<Rightarrow> err_is (is_store t) e)"

definition storeRefusal :: "nb_error option \<Rightarrow> Reason option" where
  "storeRefusal cause =
     (if errors_Is cause ErrQuotaExceeded then Some ReasonStorageFull
      else if errors_Is cause ErrRequestLimit then Some ReasonRequestLimit
      else if errors_Is cause ErrRateLimited then Some ReasonRateLimited
      else if errors_Is cause ErrAccessDenied then Some ReasonAccessDenied
      else if errors_Is cause ErrUpgradeRequired then Some ReasonUpgradeRequired
      else if errors_Is cause ErrTooLarge then Some ReasonObjectTooLarge
      else None)"

abbreviation causes :: "nb_error option \<Rightarrow> nb_error list" where
  "causes c \<equiv> (case c of None \<Rightarrow> [] | Some e \<Rightarrow> [e])"

definition invalidRequest :: "Reason \<Rightarrow> nb_error option \<Rightarrow> ErrorFile list \<Rightarrow> nb_error" where
  "invalidRequest reason cause files =
     Error CodeInvalidRequest reason (fst (actionFor CodeInvalidRequest reason None)) files None (causes cause)"

definition contentConflict :: "Reason \<Rightarrow> ErrorFile list \<Rightarrow> nb_error" where
  "contentConflict reason files =
     Error CodeContentConflict reason (fst (actionFor CodeContentConflict reason None)) files None []"

definition storageIntegrity :: "Reason \<Rightarrow> nb_error option \<Rightarrow> nb_error" where
  "storageIntegrity reason cause =
     Error CodeStorageIntegrity reason (fst (actionFor CodeStorageIntegrity reason None)) [] None (causes cause)"

definition storageFailure :: "Reason \<Rightarrow> nb_error option \<Rightarrow> nb_error" where
  "storageFailure reason cause =
     (let reason' = (case storeRefusal cause of Some r \<Rightarrow> r | None \<Rightarrow> reason) in
      Error CodeStorageFailure reason' (fst (actionFor CodeStorageFailure reason' None)) [] None (causes cause))"

definition remoteBusy :: nb_error where
  "remoteBusy = Error CodeRemoteBusy ReasonRetriesExhausted (fst (actionFor CodeRemoteBusy ReasonRetriesExhausted None)) [] None []"

definition recoveryFailure :: "RecoveryReport \<Rightarrow> nb_error option \<Rightarrow> nb_error option \<Rightarrow> nb_error" where
  "recoveryFailure report cause resyncErr =
     (let reason = (case storeRefusal resyncErr of Some r \<Rightarrow> r | None \<Rightarrow> ReasonLocalMutationFailed) in
      Error CodeRecoveryFailure reason (fst (actionFor CodeRecoveryFailure reason (Some report))) [] (Some report)
        (causes cause @ causes resyncErr))"

definition entryRecovered :: "RecoveryReport \<Rightarrow> nb_error \<Rightarrow> nb_error" where
  "entryRecovered report cause =
     Error CodeRecoveryFailure ReasonLocalMutationFailed
       (fst (actionFor CodeRecoveryFailure ReasonLocalMutationFailed (Some report))) [] (Some report) [cause]"

definition contentConflictFiles :: "Conflict list \<Rightarrow> ErrorFile list" where
  "contentConflictFiles conflicts =
     map (\<lambda>c. \<lparr>ef_Path = cf_Path c,
       ef_Reason = (if cf_Content c \<noteq> None then FileReasonTextConflict else FileReasonPathConflict),
       ef_Ranges = cf_Ranges c\<rparr>) conflicts"

text \<open>\<open>errors.As\<close> finds the outermost domain error; a search through several wrapped errors takes the first that has one.\<close>

fun as_Error :: "nb_error \<Rightarrow> nb_error option" where
  "as_Error (Error c r a fs rep es) = Some (Error c r a fs rep es)"
| "as_Error (Wrapped es) = (case filter (\<lambda>e. e \<noteq> None) (map as_Error es) of [] \<Rightarrow> None | e # _ \<Rightarrow> e)"
| "as_Error e = None"

definition engineFailed :: "nb_error \<Rightarrow> bool" where
  "engineFailed err =
     (case as_Error err of Some e \<Rightarrow> e_Code e = CodeStorageIntegrity \<and> e_Reason e = ReasonEngineFailed | None \<Rightarrow> False)"

definition manifestError :: "nb_error \<Rightarrow> nb_error" where
  "manifestError err =
     (if errors_Is (Some err) ErrUpgradeRequired then storageFailure ReasonManifestRead (Some err)
      else storageIntegrity ReasonManifestInvalid (Some err))"

text \<open>A key-material refusal of the encrypted decorator: the flag tells a missing secret from one that opened no door.\<close>

definition keyMaterialError :: "nb_error \<Rightarrow> nb_error option" where
  "keyMaterialError err =
     (if errors_Is (Some err) (ErrKeyMaterial False) then Some (storageFailure ReasonKeyRequired None)
      else if errors_Is (Some err) (ErrKeyMaterial True) then Some (storageFailure ReasonKeyRejected None)
      else None)"

definition scanErrorFiles :: "ws_error \<Rightarrow> ErrorFile list" where
  "scanErrorFiles err =
     (case err of
        ScanError path other k \<Rightarrow>
          if path = [] then []
          else sort_key ef_Path (\<lparr>ef_Path = path, ef_Reason = FileReasonInvalidContent, ef_Ranges = []\<rparr> #
            (if other \<noteq> [] then [\<lparr>ef_Path = other, ef_Reason = FileReasonInvalidContent, ef_Ranges = []\<rparr>] else []))
      | _ \<Rightarrow> [])"

definition mapLocalError :: "ws_error \<Rightarrow> nb_error" where
  "mapLocalError err =
     (case err of
        ScanError path other k \<Rightarrow>
          if k \<in> {ErrInvalidContent, ErrSymlink, ErrUnsupportedFile, ErrInvalidPath, ErrPathCollision}
          then invalidRequest ReasonInvalidContent (Some (WsErr err)) (scanErrorFiles err)
          else storageFailure ReasonLocalState (Some (WsErr err))
      | _ \<Rightarrow> storageFailure ReasonLocalState (Some (WsErr err)))"

text \<open>\<open>BodyErr\<close> is the failure of a stream that broke off, \<open>EnvelopeErr\<close> one of the envelope decoder.\<close>

section \<open>Lemmas\<close>

lemma storeRefusal_reason: "storeRefusal cause = Some r \<Longrightarrow> isRefusalReason r"
  by (auto simp: storeRefusal_def isRefusalReason_def split: if_splits)

lemma refusal_mapped: "isRefusalReason r \<Longrightarrow> snd (pairing_action CodeStorageFailure r)"
  by (auto simp: isRefusalReason_def pairing_action_def actionForPairing_def)

lemma refusal_action:
  "isRefusalReason r \<Longrightarrow> fst (pairing_action CodeStorageFailure r) = (if r = ReasonRateLimited then ActionRetry else ActionOperator)"
  by (auto simp: isRefusalReason_def pairing_action_def actionForPairing_def)

lemma storageFailure_fields [simp]:
  "e_Code (storageFailure reason cause) = CodeStorageFailure"
  "e_Reason (storageFailure reason cause) = (case storeRefusal cause of Some r \<Rightarrow> r | None \<Rightarrow> reason)"
  "e_Action (storageFailure reason cause) = fst (pairing_action CodeStorageFailure (e_Reason (storageFailure reason cause)))"
  by (simp_all add: storageFailure_def Let_def actionFor_def)

lemma recoveryFailure_fields [simp]:
  "e_Code (recoveryFailure report c resync) = CodeRecoveryFailure"
  "e_Reason (recoveryFailure report c resync) = (case storeRefusal resync of Some r \<Rightarrow> r | None \<Rightarrow> ReasonLocalMutationFailed)"
  "e_Action (recoveryFailure report c resync) = fst (actionFor CodeRecoveryFailure (e_Reason (recoveryFailure report c resync)) (Some report))"
  by (simp_all add: recoveryFailure_def Let_def)

lemma storageFailure_is [simp]: "errors_Is (Some (storageFailure reason cause)) t \<longleftrightarrow> errors_Is cause t"
  by (cases cause) (auto simp: errors_Is_def storageFailure_def Let_def)

lemma storageIntegrity_is [simp]: "errors_Is (Some (storageIntegrity reason cause)) t \<longleftrightarrow> errors_Is cause t"
  by (cases cause) (auto simp: errors_Is_def storageIntegrity_def)

lemma storeRefusal_storageFailure [simp]: "storeRefusal (Some (storageFailure reason cause)) = storeRefusal cause"
  by (simp add: storeRefusal_def)

lemma storeRefusal_storageIntegrity [simp]: "storeRefusal (Some (storageIntegrity reason cause)) = storeRefusal cause"
  by (simp add: storeRefusal_def)

lemma engineFailed_simps [simp]:
  "engineFailed (storageIntegrity reason cause) \<longleftrightarrow> reason = ReasonEngineFailed"
  "\<not> engineFailed (storageFailure reason cause)"
  "\<not> engineFailed (invalidRequest reason cause files)"
  "\<not> engineFailed (contentConflict reason files)"
  "\<not> engineFailed (recoveryFailure report cause resync)"
  "\<not> engineFailed (entryRecovered report c)"
  "\<not> engineFailed remoteBusy"
  by (simp_all add: engineFailed_def storageIntegrity_def storageFailure_def invalidRequest_def contentConflict_def
      recoveryFailure_def entryRecovered_def remoteBusy_def Let_def)

section \<open>Properties\<close>

text \<open>An account refusal of the store is what the caller hears, whatever operation met it: the reason of the
  failure is the refusal's, its action is the table's (wait and retry when throttled, an operator otherwise), and a
  recovery whose resynchronizing read was refused reports the same reason and action under its own code.\<close>

theorem refusal_surfaces:
  assumes "storeRefusal cause = Some r"
  shows "e_Reason (storageFailure reason cause) = r \<and>
    e_Action (storageFailure reason cause) = (if r = ReasonRateLimited then ActionRetry else ActionOperator) \<and>
    e_Code (recoveryFailure report c (Some (storageFailure reason cause))) = CodeRecoveryFailure \<and>
    e_Reason (recoveryFailure report c (Some (storageFailure reason cause))) = r \<and>
    e_Action (recoveryFailure report c (Some (storageFailure reason cause))) = e_Action (storageFailure reason cause)"
  using storeRefusal_reason [OF assms] refusal_action [of r] by (simp add: assms actionFor_def)

theorem refusal_surfaces_witness:
  "e_Reason (storageFailure ReasonPackUpload (Some (StoreErr ErrQuotaExceeded))) = ReasonStorageFull \<and>
   e_Action (storageFailure ReasonPackUpload (Some (StoreErr ErrQuotaExceeded))) = ActionOperator"
proof -
  have "storeRefusal (Some (StoreErr ErrQuotaExceeded)) = Some ReasonStorageFull"
    by (simp add: storeRefusal_def errors_Is_def)
  from refusal_surfaces [OF this, of ReasonPackUpload] show ?thesis by (simp del: storageFailure_fields)
qed

end
