(* ===== verification/CurrentWrapper.thy ===== *)
theory CurrentWrapper
  imports Manifest
begin

text \<open>
  The version-two wrapper around an encrypted \<open>current\<close> object (\<open>internal/storage/manifest.go\<close>): a strict JSON
  object that holds the binary envelope in Base64. \<open>encoding/base64\<close>'s standard encoding is written out: the
  padded alphabet, a decoder that skips line breaks, refuses a wrong pad and data after it, and ignores
  the unused low bits of a last quantum.

  A wrapped envelope is classified as encrypted and gives the envelope back and refused by a reader of plain
  manifests (\<open>wrapper_roundtrip\<close>); a manifest that decodes is never taken for a wrapper (\<open>DecodeManifest_plaintext\<close>).
\<close>

section \<open>Base64\<close>

definition b64_alphabet :: bytes where
  "b64_alphabet = ''ABCDEFGHIJKLMNOPQRSTUVWXYZabcdefghijklmnopqrstuvwxyz0123456789+/''"

definition b64_char :: "nat \<Rightarrow> char" where "b64_char n = b64_alphabet ! n"

fun index_of :: "char \<Rightarrow> nat \<Rightarrow> bytes \<Rightarrow> nat option" where
  "index_of c i [] = None"
| "index_of c i (d # ds) = (if c = d then Some i else index_of c (Suc i) ds)"

definition b64_value :: "char \<Rightarrow> nat option" where "b64_value c = index_of c 0 b64_alphabet"

abbreviation pad :: char where "pad \<equiv> CHR ''=''"
abbreviation code :: "char \<Rightarrow> nat" where "code \<equiv> of_char"

fun EncodeToString :: "bytes \<Rightarrow> bytes" where
  "EncodeToString [] = []"
| "EncodeToString [a] = [b64_char (code a div 4), b64_char (code a mod 4 * 16), pad, pad]"
| "EncodeToString [a, b] =
     [b64_char (code a div 4), b64_char (code a mod 4 * 16 + code b div 16), b64_char (code b mod 16 * 4), pad]"
| "EncodeToString (a # b # c # rest) =
     [b64_char (code a div 4), b64_char (code a mod 4 * 16 + code b div 16),
      b64_char (code b mod 16 * 4 + code c div 64), b64_char (code c mod 64)] @ EncodeToString rest"

definition EncodedLen :: "nat \<Rightarrow> nat" where "EncodedLen n = (n + 2) div 3 * 4"

fun b64_decode :: "bytes \<Rightarrow> bytes option" where
  "b64_decode [] = Some []"
| "b64_decode (a # b # c # d # rest) =
     (case (b64_value a, b64_value b) of
        (Some x, Some y) \<Rightarrow>
          if c = pad then if d = pad \<and> rest = [] then Some [char_of (x * 4 + y div 16)] else None
          else (case b64_value c of
                  None \<Rightarrow> None
                | Some z \<Rightarrow>
                    if d = pad then
                      if rest = [] then Some [char_of (x * 4 + y div 16), char_of (y mod 16 * 16 + z div 4)] else None
                    else (case b64_value d of
                            None \<Rightarrow> None
                          | Some w \<Rightarrow> map_option (\<lambda>ds. [char_of (x * 4 + y div 16), char_of (y mod 16 * 16 + z div 4),
                              char_of (z mod 4 * 64 + w)] @ ds) (b64_decode rest)))
      | _ \<Rightarrow> None)"
| "b64_decode _ = None"

definition DecodeString :: "bytes \<Rightarrow> bytes option" where
  "DecodeString s = b64_decode (filter (\<lambda>c. c \<noteq> CHR 0x0A \<and> c \<noteq> CHR 0x0D) s)"

section \<open>The wrapper\<close>

definition CurrentKey :: bytes where "CurrentKey = ''current''"

datatype CurrentEncoding = CurrentPlaintext | CurrentEncrypted

definition ManifestWrapperVersion :: u64 where "ManifestWrapperVersion = 2"

definition CurrentEnvelopeLimit :: nat where "CurrentEnvelopeLimit = 1048576"

definition currentWrapperOverhead :: nat where
  "currentWrapperOverhead = length ''{\"version\":2,\"envelope\":\"\"}''"

definition WrappedCurrentSize :: "nat \<Rightarrow> nat" where
  "WrappedCurrentSize n = currentWrapperOverhead + EncodedLen n"

definition currentWrapper :: "bytes \<Rightarrow> jvalue" where
  "currentWrapper envelope =
     JObject [(''version'', JNumber ManifestWrapperVersion), (''envelope'', JString (EncodeToString envelope))]"

definition WrapCurrentEnvelope :: "bytes \<Rightarrow> decode_error + jstream" where
  "WrapCurrentEnvelope envelope =
     (if WrappedCurrentSize (length envelope) > CurrentEnvelopeLimit then Inl (Integrity (MBadValue ''envelope''))
      else Inr (Encode (currentWrapper envelope)))"

definition ClassifyCurrent :: "jstream \<Rightarrow> decode_error + CurrentEncoding \<times> bytes" where
  "ClassifyCurrent data =
     (case Parse data of
        Inl _ \<Rightarrow> Inr (CurrentPlaintext, [])
      | Inr root \<Rightarrow>
          if Kind root \<noteq> KObject then Inr (CurrentPlaintext, [])
          else case Value_Field root ''version'' of
            Some (JNumber n) \<Rightarrow>
              if n < ManifestWrapperVersion then Inr (CurrentPlaintext, [])
              else if n > ManifestWrapperVersion then Inl (UpgradeRequired n)
              else bindR (mapErr (\<lambda>e. Integrity (MJson e)) (RejectUnknown root [''version'', ''envelope''])) (\<lambda>_.
                case Value_Field root ''envelope'' of
                  Some (JString s) \<Rightarrow>
                    (case DecodeString s of None \<Rightarrow> Inl (Integrity (MBadValue ''envelope'')) | Some envelope \<Rightarrow> Inr (CurrentEncrypted, envelope))
                | _ \<Rightarrow> Inl (Integrity (MMissingField ''envelope'')))
          | _ \<Rightarrow> Inr (CurrentPlaintext, []))"

section \<open>Lemmas\<close>

lemma b64_table: "map b64_value b64_alphabet = map Some [0..<64]" by code_simp

lemma length_alphabet: "length b64_alphabet = 64" by code_simp

lemma b64_value_char: assumes "n < 64" shows "b64_value (b64_char n) = Some n"
proof -
  have "map b64_value b64_alphabet ! n = map Some [0..<64] ! n" by (simp only: b64_table)
  then show ?thesis using assms by (simp add: length_alphabet b64_char_def)
qed

lemma b64_char_plain: assumes "n < 64" shows "b64_char n \<noteq> pad" "b64_char n \<noteq> CHR 0x0A" "b64_char n \<noteq> CHR 0x0D"
proof -
  have m: "b64_char n \<in> set b64_alphabet" using assms by (simp add: b64_char_def length_alphabet)
  have "list_all (\<lambda>c. c \<noteq> pad \<and> c \<noteq> CHR 0x0A \<and> c \<noteq> CHR 0x0D) b64_alphabet" by code_simp
  then show "b64_char n \<noteq> pad" "b64_char n \<noteq> CHR 0x0A" "b64_char n \<noteq> CHR 0x0D" using m by (auto simp: list_all_iff)
qed

lemma code_bound: "code c < 256"
proof -
  have "code c = code c mod 256" by simp
  also have "\<dots> < 256" by (rule mod_less_divisor) simp
  finally show ?thesis .
qed

text \<open>Every six-bit group of the encoding is below 64, and the decoder's sums rebuild the three bytes.\<close>

lemma high_parts: "code a div 4 < 64" "code b div 16 < 16" "code c div 64 < 4"
  using code_bound [of a] code_bound [of b] code_bound [of c] by (simp_all add: less_mult_imp_div_less)

lemma sextets:
  "code a mod 4 * 16 < 64" "code a mod 4 * 16 + code b div 16 < 64" "code b mod 16 * 4 < 64"
  "code b mod 16 * 4 + code c div 64 < 64" "code c mod 64 < 64"
proof -
  have m: "code a mod 4 < 4" "code b mod 16 < 16" by simp_all
  then show "code a mod 4 * 16 < 64" "code b mod 16 * 4 < 64" by linarith+
  show "code a mod 4 * 16 + code b div 16 < 64" using m high_parts(2) [of b] by linarith
  show "code b mod 16 * 4 + code c div 64 < 64" using m high_parts(3) [of c] by linarith
  show "code c mod 64 < 64" by simp
qed

lemma rejoin:
  "code b div 16 div 16 = 0" "code b div 16 mod 16 = code b div 16" "code c div 64 div 4 = 0" "code c div 64 mod 4 = code c div 64"
  using high_parts by simp_all

lemma b64_decode_encode: "b64_decode (EncodeToString xs) = Some xs"
  by (induction xs rule: EncodeToString.induct)
    (simp_all add: b64_value_char high_parts sextets b64_char_plain rejoin)

lemma EncodeToString_chars: "filter (\<lambda>c. c \<noteq> CHR 0x0A \<and> c \<noteq> CHR 0x0D) (EncodeToString xs) = EncodeToString xs"
  by (induction xs rule: EncodeToString.induct) (simp_all add: high_parts sextets b64_char_plain)

lemma ascii_b64: "n < 64 \<Longrightarrow> of_char (b64_char n) < (0x80 :: nat)"
proof -
  have "list_all (\<lambda>c. of_char c < (0x80 :: nat)) b64_alphabet" by code_simp
  then show "n < 64 \<Longrightarrow> ?thesis" by (simp add: b64_char_def list_all_length length_alphabet)
qed

lemma ascii_EncodeToString: "ascii (EncodeToString xs)"
  by (induction xs rule: EncodeToString.induct) (simp_all add: high_parts sextets ascii_b64)

lemma DecodeString_EncodeToString: "DecodeString (EncodeToString xs) = Some xs"
  by (simp add: DecodeString_def EncodeToString_chars b64_decode_encode)

lemma length_EncodeToString: "length (EncodeToString xs) = EncodedLen (length xs)"
proof (induction xs rule: EncodeToString.induct)
  case (4 a b c rest)
  have "(length (a # b # c # rest) + 2) div 3 = (length rest + 2) div 3 + 1" by simp
  then show ?case using 4 by (simp add: EncodedLen_def)
qed (simp_all add: EncodedLen_def)

text \<open>A manifest that decodes is classified as plaintext, so the two encodings never overlap.\<close>

lemma DecodeManifest_plaintext:
  assumes "DecodeManifest lib data = Inr m" shows "ClassifyCurrent data = Inr (CurrentPlaintext, [])"
proof -
  from assms obtain root where p: "Parse data = Inr root" "Kind root = KObject" and v: "requiredUint root ''version'' = Inr 1"
    by (auto simp: DecodeManifest_def bindR_eq_Inr ManifestVersion_def split: if_splits)
  have "Value_Field root ''version'' = Some (JNumber 1)"
    using v by (auto simp: requiredUint_def requiredValue_def bindR_eq_Inr split: option.splits if_splits jvalue.splits elim: Kind.elims)
  then show ?thesis unfolding ClassifyCurrent_def p(1) by (simp add: p(2) ManifestWrapperVersion_def)
qed

lemma Parse_wrapper: "Parse (Encode (currentWrapper envelope)) = Inr (currentWrapper envelope)"
  by (rule Parse_Encode) (simp add: currentWrapper_def)

lemma ClassifyCurrent_wrapper: "ClassifyCurrent (Encode (currentWrapper envelope)) = Inr (CurrentEncrypted, envelope)"
  unfolding ClassifyCurrent_def Parse_wrapper
  by (simp add: currentWrapper_def Value_Field_def RejectUnknown_def ManifestWrapperVersion_def DecodeString_EncodeToString)

section \<open>Properties\<close>

text \<open>An envelope that fits the stored bound is wrapped, classified as encrypted, and given back byte for byte; a
  reader of plain manifests refuses the same object as one of a newer build.\<close>

theorem wrapper_roundtrip:
  assumes "WrappedCurrentSize (length envelope) \<le> CurrentEnvelopeLimit"
  shows "\<exists>data. WrapCurrentEnvelope envelope = Inr data \<and> ClassifyCurrent data = Inr (CurrentEncrypted, envelope) \<and>
    DecodeManifest lib data = Inl (UpgradeRequired ManifestWrapperVersion)"
proof (intro exI conjI)
  let ?v = "currentWrapper envelope"
  show "WrapCurrentEnvelope envelope = Inr (Encode ?v)" using assms by (simp add: WrapCurrentEnvelope_def)
  show "ClassifyCurrent (Encode ?v) = Inr (CurrentEncrypted, envelope)"
    by (rule ClassifyCurrent_wrapper)
  show "DecodeManifest lib (Encode ?v) = Inl (UpgradeRequired ManifestWrapperVersion)"
    unfolding DecodeManifest_def Parse_wrapper
    by (simp add: currentWrapper_def requiredUint_def requiredValue_def Value_Field_def ManifestWrapperVersion_def ManifestVersion_def)
qed

theorem wrapper_roundtrip_witness:
  "\<exists>data. WrapCurrentEnvelope ''sealed'' = Inr data \<and> ClassifyCurrent data = Inr (CurrentEncrypted, ''sealed'')"
  using wrapper_roundtrip [of "''sealed''" canonical_uuid]
  by (auto simp: WrappedCurrentSize_def currentWrapperOverhead_def EncodedLen_def CurrentEnvelopeLimit_def)

end
