(* ===== verification/JsonText.thy ===== *)
theory JsonText
  imports StrictJson PathRules "HOL-Library.Countable"
begin

text \<open>
  \<open>encoding/json\<close> between bytes and tokens. \<open>StrictJson\<close> starts from the tokens; where the code stores and reads
  bytes, the library is the parameter \<open>json_lib\<close>: the token stream of a text, and the text the encoder
  writes for a value. What is relied on is that the decoder reads the encoder's text back, with every byte of a string that is
  not part of valid UTF-8 replaced by U+FFFD, as the package documents (\<open>json_text\<close>); a value whose texts are
  valid UTF-8 is therefore read back as it was (\<open>read_back\<close>).

  The instance numbers the token streams, which are countable, so the law can be met.
\<close>

record json_lib =
  jl_tokens :: "bytes \<Rightarrow> jstream"
  jl_text :: "jstream \<Rightarrow> bytes"

fun valid_runes :: "bytes \<Rightarrow> (nat \<times> nat) list \<Rightarrow> bytes" where
  "valid_runes s [] = []"
| "valid_runes s ((r, w) # rs) =
     (if (r, w) = (0xFFFD, 1) then [CHR 0xEF, CHR 0xBF, CHR 0xBD] else take w s) @ valid_runes (drop w s) rs"

definition coerced_text :: "bytes \<Rightarrow> bytes" where
  "coerced_text s = valid_runes s (Runes s)"

fun coerced_token :: "jtoken \<Rightarrow> jtoken" where
  "coerced_token (Str s) = Str (coerced_text s)"
| "coerced_token t = t"

definition coerced :: "jstream \<Rightarrow> jstream" where
  "coerced d = d\<lparr>js_tokens := map coerced_token (js_tokens d)\<rparr>"

fun valid_token :: "jtoken \<Rightarrow> bool" where
  "valid_token (Str s) = utf8_Valid s"
| "valid_token t = True"

definition valid_texts :: "jvalue \<Rightarrow> bool" where
  "valid_texts v = list_all valid_token (encode_value v)"

lemma coerced_text_valid: "utf8_Valid s \<Longrightarrow> coerced_text s = s"
proof (induction s rule: Runes.induct)
  case (1 s)
  show ?case
  proof (cases "s = []")
    case False
    obtain r w where d: "DecodeRune s = (r, w)" by fastforce
    then have u: "Runes s = (r, w) # Runes (drop w s)" using False by (subst Runes.simps) simp
    then have "utf8_Valid (drop w s)" "(r, w) \<noteq> (0xFFFD, 1)" using "1.prems" by (simp_all add: utf8_Valid_def)
    then show ?thesis using "1.IH" [OF False] d by (auto simp: coerced_text_def u)
  qed (simp add: coerced_text_def Runes_Nil)
qed

lemma valid_texts_simps [simp]:
  "valid_texts (JObject fs) \<longleftrightarrow> list_all (\<lambda>(name, v). utf8_Valid name \<and> valid_texts v) fs"
  "valid_texts (JArray vs) \<longleftrightarrow> list_all valid_texts vs"
  "valid_texts (JString s) \<longleftrightarrow> utf8_Valid s" "valid_texts (JNumber n)" "valid_texts (JBool b)"
  by (auto simp: valid_texts_def list_all_iff)

lemma valid_texts_ascii: "ascii_texts v \<Longrightarrow> valid_texts v"
proof -
  have "valid_token t" if "case t of Str s \<Rightarrow> ascii s | _ \<Rightarrow> True" for t
    using that by (cases t) (simp_all add: utf8_Valid_ascii)
  then show "ascii_texts v \<Longrightarrow> ?thesis" by (auto simp: valid_texts_def ascii_texts_def list_all_iff)
qed

lemma coerced_valid: "valid_texts v \<Longrightarrow> coerced (Encode v) = Encode v"
proof -
  have "coerced_token t = t" if "valid_token t" for t using that coerced_text_valid by (cases t) simp_all
  then show "valid_texts v \<Longrightarrow> ?thesis" by (simp add: coerced_def Encode_def valid_texts_def list_all_iff map_idI)
qed

locale json_text =
  fixes J :: json_lib
  assumes read_coerced: "jl_tokens J (jl_text J (Encode v)) = coerced (Encode v)"
begin

lemma read_back: "valid_texts v \<Longrightarrow> jl_tokens J (jl_text J (Encode v)) = Encode v"
  by (simp add: read_coerced coerced_valid)

end

instance jtoken :: countable by countable_datatype

instance stream_end :: countable by countable_datatype

definition stream_number :: "jstream \<Rightarrow> nat" where
  "stream_number s = to_nat (js_tokens s, js_end s)"

definition numbered_stream :: "nat \<Rightarrow> jstream" where
  "numbered_stream n = (case from_nat n of (toks, e) \<Rightarrow> \<lparr>js_tokens = toks, js_end = e\<rparr>)"

definition numbering_json :: json_lib where
  "numbering_json =
     \<lparr>jl_tokens = (\<lambda>text. numbered_stream (length text)), jl_text = (\<lambda>s. replicate (stream_number (coerced s)) (CHR ''1''))\<rparr>"

interpretation numbering: json_text numbering_json
  by unfold_locales (simp add: numbering_json_def numbered_stream_def stream_number_def)

end
