(* ===== verification/DiffStat.thy ===== *)
theory DiffStat
  imports PathRules
begin

text \<open>
  The line-change summary of \<open>internal/git/diffstat.go\<close>: comparison lines, the linear-space Myers difference that
  counts insertions and deletions, and the per-file summary of two snapshots.

  A slice \<open>a[lo:hi]\<close> is the list of its elements. The two arrays of furthest-reaching endpoints are functions of
  the diagonal, 0 where nothing was stored; an endpoint can lie outside the grid, so coordinates are
  integers. \<open>middleSnake\<close> returns \<open>None\<close> where the Go function panics. \<open>countRange\<close> recurses on two strictly shorter
  parts, so the total length plus one is enough fuel.
\<close>

section \<open>Comparison lines\<close>

abbreviation LF :: char where "LF \<equiv> CHR 0x0A"
abbreviation CR :: char where "CR \<equiv> CHR 0x0D"

definition countLines :: "bytes \<Rightarrow> nat" where
  "countLines data =
     (if data = [] then 0
      else length (filter (\<lambda>c. c = LF) data) + (if last data \<noteq> LF then 1 else 0))"

definition stripCR :: "bytes \<Rightarrow> bytes" where
  "stripCR line = (if line \<noteq> [] \<and> last line = CR then butlast line else line)"

text \<open>\<open>run\<close> is \<open>data[start:i]\<close>, the bytes since the last line feed.\<close>

fun lines_loop :: "bytes \<Rightarrow> bytes \<Rightarrow> bytes list" where
  "lines_loop run [] = (if run = [] then [] else [stripCR run])"
| "lines_loop run (b # bs) = (if b = LF then stripCR run # lines_loop [] bs else lines_loop (run @ [b]) bs)"

definition splitLines :: "bytes \<Rightarrow> bytes list" where
  "splitLines data = lines_loop [] data"

section \<open>The middle snake\<close>

text \<open>The diagonal run from \<open>(x, y)\<close>: \<open>eq x y\<close> compares the elements that the two sequences have there.\<close>

fun extend :: "(nat \<Rightarrow> nat \<Rightarrow> bool) \<Rightarrow> int \<Rightarrow> int \<Rightarrow> nat \<Rightarrow> int \<Rightarrow> int \<Rightarrow> int \<times> int" where
  "extend eq n m 0 x y = (x, y)"
| "extend eq n m (Suc fuel) x y =
     (if x < n \<and> y < m \<and> eq (nat x) (nat y) then extend eq n m fuel (x + 1) (y + 1) else (x, y))"

definition diag :: "(nat \<Rightarrow> nat \<Rightarrow> bool) \<Rightarrow> int \<Rightarrow> int \<Rightarrow> int \<Rightarrow> int \<Rightarrow> int \<times> int" where
  "diag eq n m x y = extend eq n m (nat (n - x)) x y"

type_synonym frontier = "int \<Rightarrow> int"

definition step_x :: "frontier \<Rightarrow> int \<Rightarrow> int \<Rightarrow> int" where
  "step_x v d k = (if k = - d \<or> k \<noteq> d \<and> v (k - 1) < v (k + 1) then v (k + 1) else v (k - 1) + 1)"

text \<open>One sweep over the diagonals \<open>ks\<close>: the new frontier, or the overlap found on the way.\<close>

fun forward_sweep ::
  "(nat \<Rightarrow> nat \<Rightarrow> bool) \<Rightarrow> int \<Rightarrow> int \<Rightarrow> int \<Rightarrow> frontier \<Rightarrow> int list \<Rightarrow> frontier \<Rightarrow> (int \<times> int \<times> int \<times> int) + frontier" where
  "forward_sweep eq n m d vb [] vf = Inr vf"
| "forward_sweep eq n m d vb (k # ks) vf =
     (let sx = step_x vf d k; sy = sx - k; (x, y) = diag eq n m sx sy; vf' = vf(k := x); delta = n - m in
      if odd delta \<and> delta - (d - 1) \<le> k \<and> k \<le> delta + (d - 1) \<and> n \<le> vf' k + vb (delta - k) then Inl (sx, sy, x, y)
      else forward_sweep eq n m d vb ks vf')"

fun backward_sweep ::
  "(nat \<Rightarrow> nat \<Rightarrow> bool) \<Rightarrow> int \<Rightarrow> int \<Rightarrow> int \<Rightarrow> frontier \<Rightarrow> int list \<Rightarrow> frontier \<Rightarrow> (int \<times> int \<times> int \<times> int) + frontier" where
  "backward_sweep eq n m d vf [] vb = Inr vb"
| "backward_sweep eq n m d vf (k # ks) vb =
     (let sx = step_x vb d k; sy = sx - k; (x, y) = diag eq n m sx sy; vb' = vb(k := x); delta = n - m in
      if even delta \<and> delta - d \<le> k \<and> k \<le> delta + d \<and> n \<le> vb' k + vf (delta - k) then Inl (n - x, m - y, n - sx, m - sy)
      else backward_sweep eq n m d vf ks vb')"

definition diagonals :: "nat \<Rightarrow> int list" where
  "diagonals d = map (\<lambda>i. 2 * int i - int d) [0..<Suc d]"

fun snake_search ::
  "(nat \<Rightarrow> nat \<Rightarrow> bool) \<Rightarrow> (nat \<Rightarrow> nat \<Rightarrow> bool) \<Rightarrow> int \<Rightarrow> int \<Rightarrow> nat list \<Rightarrow> frontier \<Rightarrow> frontier \<Rightarrow> (int \<times> int \<times> int \<times> int) option" where
  "snake_search eqf eqb n m [] vf vb = None"
| "snake_search eqf eqb n m (d # ds) vf vb =
     (case forward_sweep eqf n m (int d) vb (diagonals d) vf of
        Inl s \<Rightarrow> Some s
      | Inr vf' \<Rightarrow>
          (case backward_sweep eqb n m (int d) vf' (diagonals d) vb of
             Inl s \<Rightarrow> Some s
           | Inr vb' \<Rightarrow> snake_search eqf eqb n m ds vf' vb'))"

definition middleSnake :: "'a list \<Rightarrow> 'a list \<Rightarrow> (int \<times> int \<times> int \<times> int) option" where
  "middleSnake a b =
     (let n = length a; m = length b in
      snake_search (\<lambda>x y. a ! x = b ! y) (\<lambda>x y. a ! (n - 1 - x) = b ! (m - 1 - y)) (int n) (int m)
        [0..<Suc ((n + m + 1) div 2)] (\<lambda>_. 0) (\<lambda>_. 0))"

section \<open>Counting\<close>

fun trimPrefix :: "'a list \<Rightarrow> 'a list \<Rightarrow> 'a list \<times> 'a list" where
  "trimPrefix (x # xs) (y # ys) = (if x = y then trimPrefix xs ys else (x # xs, y # ys))"
| "trimPrefix xs ys = (xs, ys)"

definition trimSuffix :: "'a list \<Rightarrow> 'a list \<Rightarrow> 'a list \<times> 'a list" where
  "trimSuffix xs ys = (case trimPrefix (rev xs) (rev ys) of (us, vs) \<Rightarrow> (rev us, rev vs))"

definition trimmed :: "'a list \<Rightarrow> 'a list \<Rightarrow> 'a list \<times> 'a list" where
  "trimmed a b = (case trimPrefix a b of (a', b') \<Rightarrow> trimSuffix a' b')"

fun countRange :: "nat \<Rightarrow> 'a list \<Rightarrow> 'a list \<Rightarrow> (nat \<times> nat) option" where
  "countRange 0 a b = None"
| "countRange (Suc fuel) a b =
     (case trimmed a b of (a', b') \<Rightarrow>
        if a' = [] then Some (length b', 0)
        else if b' = [] then Some (0, length a')
        else (case middleSnake a' b' of
                None \<Rightarrow> None
              | Some (x, y, u, v) \<Rightarrow>
                  (case (countRange fuel (take (nat x) a') (take (nat y) b'), countRange fuel (drop (nat u) a') (drop (nat v) b')) of
                     (Some (ins1, del1), Some (ins2, del2)) \<Rightarrow> Some (ins1 + ins2, del1 + del2)
                   | _ \<Rightarrow> None)))"

definition countDiff :: "'a list \<Rightarrow> 'a list \<Rightarrow> (nat \<times> nat) option" where
  "countDiff a b = countRange (length a + length b + 1) a b"

definition diffLines :: "bytes \<Rightarrow> bytes \<Rightarrow> (nat \<times> nat) option" where
  "diffLines old new = countDiff (splitLines old) (splitLines new)"

section \<open>Snapshots\<close>

record FileStat =
  fs_Path :: bytes
  fs_Insertions :: nat
  fs_Deletions :: nat

record DiffStat =
  ds_Files :: "FileStat list"
  ds_Insertions :: nat
  ds_Deletions :: nat

text \<open>
  The Go maps range in any order and the entries are sorted by path afterwards; paths are distinct, so
  the order does not show.
\<close>

definition file_stat :: "(bytes \<rightharpoonup> bytes) \<Rightarrow> File \<Rightarrow> FileStat option" where
  "file_stat baseData f =
     (case baseData (f_Path f) of
        None \<Rightarrow> Some \<lparr>fs_Path = f_Path f, fs_Insertions = countLines (f_Data f), fs_Deletions = 0\<rparr>
      | Some old \<Rightarrow>
          if old \<noteq> f_Data f then
            map_option (\<lambda>(ins, del). \<lparr>fs_Path = f_Path f, fs_Insertions = ins, fs_Deletions = del\<rparr>) (diffLines old (f_Data f))
          else Some \<lparr>fs_Path = f_Path f, fs_Insertions = 0, fs_Deletions = 0\<rparr>)"

definition removed_stat :: "File \<Rightarrow> FileStat" where
  "removed_stat f = \<lparr>fs_Path = f_Path f, fs_Insertions = 0, fs_Deletions = countLines (f_Data f)\<rparr>"

definition snap_map :: "Snapshot \<Rightarrow> (bytes \<rightharpoonup> bytes)" where
  "snap_map files = foldl (\<lambda>m f. m(f_Path f \<mapsto> f_Data f)) Map.empty files"

definition DiffSnapshots :: "Snapshot \<Rightarrow> Snapshot \<Rightarrow> DiffStat option" where
  "DiffSnapshots base cur =
     map_option
       (\<lambda>changed.
         let stats = filter (\<lambda>s. \<not> (fs_Insertions s = 0 \<and> fs_Deletions s = 0))
           (changed @ map removed_stat (filter (\<lambda>f. snap_map cur (f_Path f) = None) base)) in
         \<lparr>ds_Files = sort_key fs_Path stats, ds_Insertions = sum_list (map fs_Insertions stats),
          ds_Deletions = sum_list (map fs_Deletions stats)\<rparr>)
       (those (map (file_stat (snap_map base)) cur))"

record FileLines =
  fl_Path :: bytes
  fl_Lines :: nat

definition LineCounts :: "Snapshot \<Rightarrow> FileLines list" where
  "LineCounts snap = map (\<lambda>f. \<lparr>fl_Path = f_Path f, fl_Lines = countLines (f_Data f)\<rparr>) snap"

end
