(* ===== verification/PathPolicy.thy ===== *)
theory PathPolicy
  imports PathRules
begin

text \<open>
  The read-only and writable path policy of \<open>internal/git/readonly.go\<close> and
  \<open>internal/git/policy.go\<close>: normalization of the two entry sets, the longest-match resolution
  \<open>Protects\<close>, and the snapshot operations \<open>ChangedUnder\<close> and \<open>Pin\<close>. The main result is that the
  collapse of covered entries never changes a resolution (\<open>collapse_resolution\<close>); it holds for
  every case-folding function.
\<close>

section \<open>Entry sets\<close>

record entryItem =
  ei_raw :: bytes
  ei_folded :: bytes

record EntrySet =
  es_entries :: "bytes list"
  es_folded :: "bytes list"

datatype entry_kind = KindReadOnly | KindWritable

datatype policy_error =
    InvalidEntry entry_kind bytes path_error
  | OverlapError bytes bytes

definition isEntryAncestor :: "bytes \<Rightarrow> bytes \<Rightarrow> bool" where
  "isEntryAncestor a p \<longleftrightarrow> length p > length a \<and> HasPrefix p a \<and> p ! length a = CHR ''/''"

definition entryBetween :: "bytes \<Rightarrow> bytes \<Rightarrow> entryItem list \<Rightarrow> bool" where
  "entryBetween a e other \<longleftrightarrow>
     list_ex (\<lambda>it. isEntryAncestor a (ei_folded it) \<and> isEntryAncestor (ei_folded it) e) other"

definition validateEntries :: "text_lib \<Rightarrow> entry_kind \<Rightarrow> bytes list \<Rightarrow> policy_error + entryItem list" where
  "validateEntries tx kind entries = mapR (\<lambda>raw.
     let trimmed = TrimSuffix raw ''/'' in
     bindR (mapErr (InvalidEntry kind raw) (ValidatePath tx trimmed)) (\<lambda>_.
     Inr \<lparr>ei_raw = trimmed, ei_folded = case_Fold tx trimmed\<rparr>)) entries"

definition entry_covered :: "entryItem list \<Rightarrow> entryItem list \<Rightarrow> entryItem \<Rightarrow> bool" where
  "entry_covered items other it \<longleftrightarrow>
     list_ex (\<lambda>anc. ei_folded anc \<noteq> ei_folded it \<and>
       isEntryAncestor (ei_folded anc) (ei_folded it) \<and>
       \<not> entryBetween (ei_folded anc) (ei_folded it) other) items"

fun collapse_loop :: "entryItem list \<Rightarrow> entryItem list \<Rightarrow> entryItem list \<Rightarrow> entryItem list \<Rightarrow> entryItem list" where
  "collapse_loop items other kept [] = kept"
| "collapse_loop items other kept (it # its) =
     (if entry_covered items other it then collapse_loop items other kept its
      else if list_ex (\<lambda>k. ei_folded k = ei_folded it) kept then collapse_loop items other kept its
      else collapse_loop items other (kept @ [it]) its)"

definition collapseEntries :: "entryItem list \<Rightarrow> entryItem list \<Rightarrow> EntrySet" where
  "collapseEntries items other =
     (let kept = sort_key ei_raw (collapse_loop items other [] items) in
      \<lparr>es_entries = map ei_raw kept, es_folded = map ei_folded kept\<rparr>)"

definition NormalizeEntries :: "text_lib \<Rightarrow> bytes list \<Rightarrow> policy_error + EntrySet" where
  "NormalizeEntries tx entries =
     bindR (validateEntries tx KindReadOnly entries) (\<lambda>items. Inr (collapseEntries items []))"

definition Entries :: "EntrySet \<Rightarrow> bytes list" where
  "Entries s = es_entries s"

definition entry_matches :: "bytes \<Rightarrow> bytes \<Rightarrow> bool" where
  "entry_matches e foldedPath \<longleftrightarrow> foldedPath = e \<or> isEntryAncestor e foldedPath"

fun covering_loop :: "bytes \<Rightarrow> (bytes \<times> bytes) option \<Rightarrow> (bytes \<times> bytes) list \<Rightarrow> (bytes \<times> bytes) option" where
  "covering_loop p acc [] = acc"
| "covering_loop p acc ((raw, e) # rest) =
     (if \<not> entry_matches e p then covering_loop p acc rest
      else case acc of
        None \<Rightarrow> covering_loop p (Some (raw, e)) rest
      | Some (r, f) \<Rightarrow>
          if length e > length f then covering_loop p (Some (raw, e)) rest
          else covering_loop p acc rest)"

definition covering :: "text_lib \<Rightarrow> EntrySet \<Rightarrow> bytes \<Rightarrow> (bytes \<times> bytes) option" where
  "covering tx s path = covering_loop (case_Fold tx path) None (zip (es_entries s) (es_folded s))"

definition CoveringEntry :: "text_lib \<Rightarrow> EntrySet \<Rightarrow> bytes \<Rightarrow> bytes option" where
  "CoveringEntry tx s path = map_option fst (covering tx s path)"

definition Covers :: "text_lib \<Rightarrow> EntrySet \<Rightarrow> bytes \<Rightarrow> bool" where
  "Covers tx s path \<longleftrightarrow> CoveringEntry tx s path \<noteq> None"

definition hasEntryBelow :: "text_lib \<Rightarrow> EntrySet \<Rightarrow> bytes \<Rightarrow> bool" where
  "hasEntryBelow tx s path \<longleftrightarrow> list_ex (isEntryAncestor (case_Fold tx path)) (es_folded s)"

definition covered_data :: "text_lib \<Rightarrow> EntrySet \<Rightarrow> Snapshot \<Rightarrow> (bytes \<rightharpoonup> bytes)" where
  "covered_data tx s snap =
     foldl (\<lambda>m f. m(f_Path f \<mapsto> f_Data f)) Map.empty (filter (\<lambda>f. Covers tx s (f_Path f)) snap)"

text \<open>A Go map is ranged over once per key, in some order; the sort makes the result unique.\<close>

definition covered_keys :: "text_lib \<Rightarrow> EntrySet \<Rightarrow> Snapshot \<Rightarrow> bytes list" where
  "covered_keys tx s snap = remdups (map f_Path (filter (\<lambda>f. Covers tx s (f_Path f)) snap))"

definition ChangedUnder :: "text_lib \<Rightarrow> EntrySet \<Rightarrow> Snapshot \<Rightarrow> Snapshot \<Rightarrow> bytes list" where
  "ChangedUnder tx s local base =
     (if es_entries s = [] then []
      else let localData = covered_data tx s local; baseData = covered_data tx s base in
        sort (filter (\<lambda>p. baseData p \<noteq> localData p) (covered_keys tx s local) @
              filter (\<lambda>p. localData p = None) (covered_keys tx s base)))"

definition Pin :: "text_lib \<Rightarrow> EntrySet \<Rightarrow> Snapshot \<Rightarrow> Snapshot \<Rightarrow> Snapshot" where
  "Pin tx s local base =
     (if es_entries s = [] then local
      else sort_key f_Path
        (filter (\<lambda>f. \<not> Covers tx s (f_Path f)) local @ filter (\<lambda>f. Covers tx s (f_Path f)) base))"

section \<open>Policies\<close>

record PathPolicy =
  pp_readOnly :: EntrySet
  pp_writable :: EntrySet

definition first_overlap :: "entryItem list \<Rightarrow> entryItem list \<Rightarrow> policy_error option" where
  "first_overlap ro wr =
     (case [(r, w). r \<leftarrow> ro, w \<leftarrow> wr, ei_folded r = ei_folded w] of
        [] \<Rightarrow> None | (r, w) # _ \<Rightarrow> Some (OverlapError (ei_raw r) (ei_raw w)))"

definition NewPolicy :: "text_lib \<Rightarrow> bytes list \<Rightarrow> bytes list \<Rightarrow> policy_error + PathPolicy" where
  "NewPolicy tx readOnly writable =
     bindR (validateEntries tx KindReadOnly readOnly) (\<lambda>ro.
     bindR (validateEntries tx KindWritable writable) (\<lambda>wr.
     case first_overlap ro wr of
       Some e \<Rightarrow> Inl e
     | None \<Rightarrow> Inr \<lparr>pp_readOnly = collapseEntries ro wr, pp_writable = collapseEntries wr ro\<rparr>))"

definition Configured :: "PathPolicy \<Rightarrow> bool" where
  "Configured p \<longleftrightarrow> length (es_entries (pp_readOnly p)) > 0 \<or> length (es_entries (pp_writable p)) > 0"

definition ReadOnly :: "PathPolicy \<Rightarrow> bytes list" where
  "ReadOnly p = Entries (pp_readOnly p)"

definition Writable :: "PathPolicy \<Rightarrow> bytes list" where
  "Writable p = Entries (pp_writable p)"

definition Protects :: "text_lib \<Rightarrow> PathPolicy \<Rightarrow> bytes \<Rightarrow> bool" where
  "Protects tx p path =
     (if \<not> Configured p then False
      else case (covering tx (pp_readOnly p) path, covering tx (pp_writable p) path) of
        (Some (_, roFolded), Some (_, wrFolded)) \<Rightarrow> length roFolded > length wrFolded
      | (Some _, None) \<Rightarrow> True
      | (None, Some _) \<Rightarrow> False
      | (None, None) \<Rightarrow> length (es_entries (pp_writable p)) > 0)"

definition namedOrUnder :: "bytes \<Rightarrow> bytes list \<Rightarrow> bool" where
  "namedOrUnder path names \<longleftrightarrow> list_ex (\<lambda>name. path = name \<or> HasPrefix path (name @ ''/'')) names"

section \<open>Ancestors\<close>

lemma isEntryAncestor_iff: "isEntryAncestor a p \<longleftrightarrow> prefix (a @ ''/'') p"
proof
  assume "isEntryAncestor a p"
  then have l: "length a < length p" and p: "take (length a) p = a" and c: "p ! length a = CHR ''/''"
    by (simp_all add: isEntryAncestor_def HasPrefix_def)
  have "p = (a @ ''/'') @ drop (Suc (length a)) p"
    using id_take_nth_drop [OF l] p c by simp
  then show "prefix (a @ ''/'') p" by (rule prefixI)
qed (auto simp: prefix_def isEntryAncestor_def HasPrefix_def)

lemma ancestor_length: "isEntryAncestor a p \<Longrightarrow> length a < length p"
  by (simp add: isEntryAncestor_def)

lemma ancestor_irrefl [simp]: "\<not> isEntryAncestor a a"
  by (simp add: isEntryAncestor_def)

lemma ancestor_trans: "isEntryAncestor a b \<Longrightarrow> isEntryAncestor b c \<Longrightarrow> isEntryAncestor a c"
  unfolding isEntryAncestor_iff by (auto simp: prefix_def)

lemma ancestor_matches: "isEntryAncestor a b \<Longrightarrow> entry_matches b p \<Longrightarrow> entry_matches a p"
  using ancestor_trans by (auto simp: entry_matches_def)

text \<open>The entries that match one path form a chain.\<close>

lemma matches_chain:
  assumes "entry_matches a p" "entry_matches b p" "length a \<le> length b"
  shows "a = b \<or> isEntryAncestor a b"
proof (cases "a = b")
  case False
  have pre: "prefix a p" "prefix b p"
    using assms(1,2) by (auto simp: entry_matches_def isEntryAncestor_iff prefix_def)
  then have ab: "prefix a b" using assms(3) prefix_length_prefix by blast
  with False have less: "length a < length b" by (metis prefix_length_less strict_prefix_def)
  then have "a \<noteq> p" using prefix_length_le [OF pre(2)] by auto
  then have "p ! length a = CHR ''/''" using assms(1) by (simp add: entry_matches_def isEntryAncestor_def)
  moreover have "b ! length a = p ! length a" using pre(2) less by (auto simp: prefix_def nth_append)
  ultimately have "isEntryAncestor a b"
    using less ab by (simp add: isEntryAncestor_def HasPrefix_iff)
  then show ?thesis by simp
qed simp

section \<open>Longest match as a specification\<close>

text \<open>
  \<open>outranks R W p\<close>: some entry of \<open>R\<close> matches \<open>p\<close> and is longer than every match in \<open>W\<close>.
  \<open>resolves\<close> is the documented resolution: the longest matching entry decides, and an unmatched path
  is protected exactly when there is a writable set.
\<close>

definition outranks :: "bytes set \<Rightarrow> bytes set \<Rightarrow> bytes \<Rightarrow> bool" where
  "outranks R W p \<longleftrightarrow> (\<exists>r \<in> R. entry_matches r p \<and> (\<forall>w \<in> W. entry_matches w p \<longrightarrow> length w < length r))"

definition resolves :: "bytes set \<Rightarrow> bytes set \<Rightarrow> bytes \<Rightarrow> bool" where
  "resolves R W p \<longleftrightarrow> outranks R W p \<or> W \<noteq> {} \<and> (\<forall>e \<in> R \<union> W. \<not> entry_matches e p)"

definition kept_entries :: "bytes set \<Rightarrow> bytes set \<Rightarrow> bytes set" where
  "kept_entries R W =
     {r \<in> R. \<not> (\<exists>a \<in> R. isEntryAncestor a r \<and> \<not> (\<exists>e \<in> W. isEntryAncestor a e \<and> isEntryAncestor e r))}"

lemma kept_subset: "kept_entries R W \<subseteq> R"
  by (auto simp: kept_entries_def)

lemma kept_below:
  assumes "R \<inter> W = {}"
  shows "r \<in> R \<Longrightarrow> \<exists>k \<in> kept_entries R W. (k = r \<or> isEntryAncestor k r) \<and>
    \<not> (\<exists>e \<in> W. isEntryAncestor k e \<and> isEntryAncestor e r)"
proof (induction "length r" arbitrary: r rule: less_induct)
  case less
  show ?case
  proof (cases "r \<in> kept_entries R W")
    case True
    have "\<not> (isEntryAncestor r e \<and> isEntryAncestor e r)" for e
      using ancestor_length [of r e] ancestor_length [of e r] by auto
    then show ?thesis using True by blast
  next
    case False
    then obtain a where a: "a \<in> R" "isEntryAncestor a r"
      and none: "\<not> (\<exists>e \<in> W. isEntryAncestor a e \<and> isEntryAncestor e r)"
      using less.prems by (auto simp: kept_entries_def)
    from less.hyps [OF ancestor_length [OF a(2)] a(1)] obtain k where
      k: "k \<in> kept_entries R W" "k = a \<or> isEntryAncestor k a"
      and none': "\<not> (\<exists>e \<in> W. isEntryAncestor k e \<and> isEntryAncestor e a)" by blast
    have "\<not> (isEntryAncestor k e \<and> isEntryAncestor e r)" if "e \<in> W" for e
    proof
      assume e: "isEntryAncestor k e \<and> isEntryAncestor e r"
      have m: "entry_matches e r" "entry_matches a r" using e a(2) by (simp_all add: entry_matches_def)
      consider "e = a" | "isEntryAncestor e a" | "isEntryAncestor a e"
        using matches_chain [OF m] matches_chain [OF m(2,1)] nat_le_linear [of "length e" "length a"] by blast
      then show False
        using \<open>e \<in> W\<close> assms a(1) none none' e by cases blast+
    qed
    moreover have "isEntryAncestor k r" using k(2) a(2) ancestor_trans by blast
    ultimately show ?thesis using k(1) by blast
  qed
qed

lemma outranks_kept:
  assumes disj: "R \<inter> W = {}" and "outranks R W p"
  shows "outranks (kept_entries R W) (kept_entries W R) p"
proof -
  obtain r where r: "r \<in> R" "entry_matches r p" and top: "\<And>w. w \<in> W \<Longrightarrow> entry_matches w p \<Longrightarrow> length w < length r"
    using assms(2) by (auto simp: outranks_def)
  obtain k where k: "k \<in> kept_entries R W" "k = r \<or> isEntryAncestor k r"
    and none: "\<not> (\<exists>e \<in> W. isEntryAncestor k e \<and> isEntryAncestor e r)"
    using kept_below [OF disj r(1)] by blast
  have kp: "entry_matches k p" using k(2) r(2) ancestor_matches by blast
  have "length w < length k" if w: "w \<in> kept_entries W R" "entry_matches w p" for w
  proof (rule ccontr)
    assume "\<not> length w < length k"
    then have "k = w \<or> isEntryAncestor k w" using matches_chain [OF kp w(2)] by simp
    moreover have "w \<in> W" "k \<in> R" using w(1) k(1) kept_subset by blast+
    moreover have "isEntryAncestor w r"
      using matches_chain [OF w(2) r(2)] top [OF \<open>w \<in> W\<close> w(2)] by auto
    ultimately show False using none disj by blast
  qed
  then show ?thesis using k(1) kp by (auto simp: outranks_def)
qed

lemma outranks_exclusive: "outranks R W p \<Longrightarrow> \<not> outranks W R p"
  by (fastforce simp: outranks_def)

lemma some_side_outranks:
  assumes "finite R" "finite W" "R \<inter> W = {}" "e \<in> R \<union> W" "entry_matches e p"
  shows "outranks R W p \<or> outranks W R p"
proof -
  let ?M = "{e \<in> R \<union> W. entry_matches e p}"
  have "finite ?M" "?M \<noteq> {}" using assms by auto
  then have "Max (length ` ?M) \<in> length ` ?M" and ge: "\<And>e. e \<in> ?M \<Longrightarrow> length e \<le> Max (length ` ?M)"
    by (intro Max_in, auto)
  then obtain m where m: "m \<in> ?M" "Max (length ` ?M) = length m" by (elim imageE)
  have top: "\<And>e. e \<in> ?M \<Longrightarrow> length e \<le> length m" using ge unfolding m(2) .
  have uniq: "length e < length m" if "e \<in> ?M" "e \<noteq> m" for e
    using matches_chain [of e p m] that m(1) top [OF that(1)] ancestor_length [of e m] by auto
  have "outranks R W p" if "m \<in> R"
    unfolding outranks_def using that m(1) uniq assms(3) by (intro bexI [of _ m]) auto
  moreover have "outranks W R p" if "m \<in> W"
    unfolding outranks_def using that m(1) uniq assms(3) by (intro bexI [of _ m]) auto
  ultimately show ?thesis using m(1) by blast
qed

text \<open>Collapsing each set against the other leaves every resolution as it was.\<close>

lemma collapse_resolution:
  assumes "finite R" "finite W" "R \<inter> W = {}"
  shows "resolves (kept_entries R W) (kept_entries W R) p \<longleftrightarrow> resolves R W p"
proof -
  have disj': "W \<inter> R = {}" using assms(3) by blast
  have fwd: "outranks R W p \<Longrightarrow> outranks (kept_entries R W) (kept_entries W R) p"
    "outranks W R p \<Longrightarrow> outranks (kept_entries W R) (kept_entries R W) p"
    using outranks_kept assms(3) disj' by blast+
  have ne: "kept_entries W R = {} \<longleftrightarrow> W = {}"
    using kept_below [OF disj'] kept_subset [of W R] by blast
  show ?thesis
  proof (cases "\<exists>e \<in> R \<union> W. entry_matches e p")
    case True
    then have side: "outranks R W p \<or> outranks W R p" using some_side_outranks assms by blast
    then have "\<exists>e \<in> kept_entries R W \<union> kept_entries W R. entry_matches e p"
      using fwd by (auto simp: outranks_def)
    then show ?thesis
      using True side fwd outranks_exclusive unfolding resolves_def by blast
  next
    case False
    then have "\<not> (\<exists>e \<in> kept_entries R W \<union> kept_entries W R. entry_matches e p)"
      using kept_subset by blast
    then show ?thesis using False ne by (auto simp: resolves_def outranks_def)
  qed
qed

section \<open>The code implements the specification\<close>

lemma already_kept:
  "list_ex (\<lambda>k. ei_folded k = ei_folded it) kept \<longleftrightarrow> ei_folded it \<in> ei_folded ` set kept"
  by (auto simp: list_ex_iff image_iff) metis+

lemma collapse_loop_folded:
  "ei_folded ` set (collapse_loop items other kept its) =
   ei_folded ` set kept \<union> ei_folded ` {it \<in> set its. \<not> entry_covered items other it}"
proof (induction items other kept its rule: collapse_loop.induct)
  case (2 items other kept it its)
  have "{x \<in> set (it # its). \<not> entry_covered items other x} =
      (if entry_covered items other it then {} else {it}) \<union> {x \<in> set its. \<not> entry_covered items other x}"
    by auto
  then show ?case using 2 by (simp add: already_kept insert_absorb image_Un)
qed simp

lemma collapse_loop_subset: "set (collapse_loop items other kept its) \<subseteq> set kept \<union> set its"
  by (induction items other kept its rule: collapse_loop.induct) auto

lemma collapse_loop_distinct:
  "distinct (map ei_folded kept) \<Longrightarrow> distinct (map ei_folded (collapse_loop items other kept its))"
  by (induction items other kept its rule: collapse_loop.induct) (simp_all add: already_kept)

lemma entry_covered_iff:
  "entry_covered items other it \<longleftrightarrow>
   (\<exists>a \<in> ei_folded ` set items. isEntryAncestor a (ei_folded it) \<and>
     \<not> (\<exists>e \<in> ei_folded ` set other. isEntryAncestor a e \<and> isEntryAncestor e (ei_folded it)))"
  unfolding entry_covered_def entryBetween_def list_ex_iff bex_simps by (metis ancestor_irrefl)

lemma collapseEntries_folded:
  "set (es_folded (collapseEntries items other)) = kept_entries (ei_folded ` set items) (ei_folded ` set other)"
  by (auto simp: collapseEntries_def Let_def collapse_loop_folded kept_entries_def entry_covered_iff)

lemma collapseEntries_raw: "set (es_entries (collapseEntries items other)) \<subseteq> ei_raw ` set items"
  using collapse_loop_subset [of items other "[]" items] by (auto simp: collapseEntries_def Let_def)

lemma collapseEntries_length [simp]:
  "length (es_entries (collapseEntries items other)) = length (es_folded (collapseEntries items other))"
  by (simp add: collapseEntries_def Let_def)

definition longest_of :: "bytes \<Rightarrow> (bytes \<times> bytes) option \<Rightarrow> (bytes \<times> bytes) list \<Rightarrow> (bytes \<times> bytes) option \<Rightarrow> bool" where
  "longest_of p acc es res \<longleftrightarrow>
     (res = None \<longrightarrow> acc = None \<and> (\<forall>e \<in> snd ` set es. \<not> entry_matches e p)) \<and>
     (\<forall>rf. res = Some rf \<longrightarrow>
        (acc = Some rf \<or> rf \<in> set es \<and> entry_matches (snd rf) p) \<and>
        (\<forall>e \<in> snd ` set es. entry_matches e p \<longrightarrow> length e \<le> length (snd rf)) \<and>
        (\<forall>rg. acc = Some rg \<longrightarrow> length (snd rg) \<le> length (snd rf)))"

lemma covering_loop_spec: "longest_of p acc es (covering_loop p acc es)"
proof (induction es arbitrary: acc)
  case Nil
  then show ?case by (auto simp: longest_of_def)
next
  case (Cons re rest)
  obtain raw e where re: "re = (raw, e)" by (cases re)
  show ?case
  proof (cases "entry_matches e p \<and> (\<forall>rf. acc = Some rf \<longrightarrow> length (snd rf) < length e)")
    case True
    then have "covering_loop p acc (re # rest) = covering_loop p (Some (raw, e)) rest"
      by (auto simp: re split: option.splits)
    then show ?thesis
      using Cons [of "Some (raw, e)"] True by (auto simp: longest_of_def re)
  next
    case False
    then have "covering_loop p acc (re # rest) = covering_loop p acc rest"
      by (auto simp: re split: option.splits)
    then show ?thesis
      using Cons [of acc] False by (auto simp: longest_of_def re)
  qed
qed

lemma covering_None:
  assumes "length (es_entries s) = length (es_folded s)"
  shows "covering tx s path = None \<longleftrightarrow> (\<forall>e \<in> set (es_folded s). \<not> entry_matches e (case_Fold tx path))"
proof -
  have "snd ` set (zip (es_entries s) (es_folded s)) = set (es_folded s)"
    using assms by (metis map_snd_zip set_map)
  then show ?thesis
    using covering_loop_spec [of "case_Fold tx path" None "zip (es_entries s) (es_folded s)"]
    by (cases "covering tx s path") (auto simp: longest_of_def covering_def, meson set_zip_rightD)
qed

lemma covering_Some:
  assumes "length (es_entries s) = length (es_folded s)" "covering tx s path = Some (raw, f)"
  shows "(raw, f) \<in> set (zip (es_entries s) (es_folded s))" "f \<in> set (es_folded s)"
    "entry_matches f (case_Fold tx path)"
    "\<And>e. e \<in> set (es_folded s) \<Longrightarrow> entry_matches e (case_Fold tx path) \<Longrightarrow> length e \<le> length f"
proof -
  have "snd ` set (zip (es_entries s) (es_folded s)) = set (es_folded s)"
    using assms(1) by (metis map_snd_zip set_map)
  then show "(raw, f) \<in> set (zip (es_entries s) (es_folded s))" "f \<in> set (es_folded s)"
    "entry_matches f (case_Fold tx path)"
    "\<And>e. e \<in> set (es_folded s) \<Longrightarrow> entry_matches e (case_Fold tx path) \<Longrightarrow> length e \<le> length f"
    using covering_loop_spec [of "case_Fold tx path" None "zip (es_entries s) (es_folded s)"] assms(2)
    by (auto simp: longest_of_def covering_def dest: set_zip_rightD)
qed

lemma Covers_iff:
  "length (es_entries s) = length (es_folded s) \<Longrightarrow>
   Covers tx s path \<longleftrightarrow> (\<exists>e \<in> set (es_folded s). entry_matches e (case_Fold tx path))"
  using covering_None [of s tx path] by (auto simp: Covers_def CoveringEntry_def)

definition wf_policy :: "PathPolicy \<Rightarrow> bool" where
  "wf_policy p \<longleftrightarrow>
     length (es_entries (pp_readOnly p)) = length (es_folded (pp_readOnly p)) \<and>
     length (es_entries (pp_writable p)) = length (es_folded (pp_writable p))"

lemma Protects_resolves:
  assumes "wf_policy p"
  shows "Protects tx p path \<longleftrightarrow>
    resolves (set (es_folded (pp_readOnly p))) (set (es_folded (pp_writable p))) (case_Fold tx path)"
proof -
  let ?R = "set (es_folded (pp_readOnly p))" and ?W = "set (es_folded (pp_writable p))"
  let ?q = "case_Fold tx path"
  have len: "length (es_entries (pp_readOnly p)) = length (es_folded (pp_readOnly p))"
    "length (es_entries (pp_writable p)) = length (es_folded (pp_writable p))"
    using assms by (simp_all add: wf_policy_def)
  have conf: "Configured p \<longleftrightarrow> ?R \<noteq> {} \<or> ?W \<noteq> {}"
    using len by (simp add: Configured_def)
  show ?thesis
  proof (cases "covering tx (pp_readOnly p) path")
    case None
    note noR = None [unfolded covering_None [OF len(1)]]
    show ?thesis
    proof (cases "covering tx (pp_writable p) path")
      case W: None
      note noW = W [unfolded covering_None [OF len(2)]]
      show ?thesis using None W noR noW conf len
        by (auto simp: Protects_def resolves_def outranks_def)
    next
      case (Some w)
      then obtain raw f where w: "covering tx (pp_writable p) path = Some (raw, f)" by (cases w) auto
      note c = covering_Some [OF len(2) w]
      show ?thesis using None w c noR by (auto simp: Protects_def resolves_def outranks_def)
    qed
  next
    case (Some r)
    then obtain rawr fr where r: "covering tx (pp_readOnly p) path = Some (rawr, fr)" by (cases r) auto
    note cr = covering_Some [OF len(1) r]
    have conf': "Configured p" using conf cr(2) by auto
    have match: "\<not> (?W \<noteq> {} \<and> (\<forall>e \<in> ?R \<union> ?W. \<not> entry_matches e ?q))" using cr by blast
    show ?thesis
    proof (cases "covering tx (pp_writable p) path")
      case W: None
      note noW = W [unfolded covering_None [OF len(2)]]
      show ?thesis using r W noW cr conf' by (auto simp: Protects_def resolves_def outranks_def)
    next
      case (Some w)
      then obtain raww fw where w: "covering tx (pp_writable p) path = Some (raww, fw)" by (cases w) auto
      note cw = covering_Some [OF len(2) w]
      have "outranks ?R ?W ?q \<longleftrightarrow> length fw < length fr"
        using cr cw unfolding outranks_def by (meson order_le_less_trans order_less_le_trans)
      then have "resolves ?R ?W ?q \<longleftrightarrow> length fw < length fr" using match unfolding resolves_def by blast
      then show ?thesis using r w conf' by (simp add: Protects_def)
    qed
  qed
qed

section \<open>The policy an operator wrote\<close>

text \<open>The folded entries as written, before any entry is dropped.\<close>

definition written :: "text_lib \<Rightarrow> bytes list \<Rightarrow> bytes set" where
  "written tx entries = (\<lambda>raw. case_Fold tx (TrimSuffix raw ''/'')) ` set entries"

lemma validateEntries_Inr:
  "validateEntries tx kind entries = Inr items \<longleftrightarrow>
   (\<forall>raw \<in> set entries. ValidatePath tx (TrimSuffix raw ''/'') = Inr ()) \<and>
   items = map (\<lambda>raw. \<lparr>ei_raw = TrimSuffix raw ''/'', ei_folded = case_Fold tx (TrimSuffix raw ''/'')\<rparr>) entries"
  unfolding validateEntries_def Let_def
  by (induction entries arbitrary: items) (auto simp: bindR_eq_Inr)

lemma first_overlap_None: "first_overlap ro wr = None \<longleftrightarrow> ei_folded ` set ro \<inter> ei_folded ` set wr = {}"
proof -
  have "(case L of [] \<Rightarrow> None | (r, w) # _ \<Rightarrow> Some (OverlapError (ei_raw r) (ei_raw w))) = None \<longleftrightarrow> set L = {}"
    for L :: "(entryItem \<times> entryItem) list" by (cases L) auto
  then have "first_overlap ro wr = None \<longleftrightarrow> set [(r, w). r \<leftarrow> ro, w \<leftarrow> wr, ei_folded r = ei_folded w] = {}"
    unfolding first_overlap_def by blast
  also have "\<dots> \<longleftrightarrow> (\<forall>r \<in> set ro. \<forall>w \<in> set wr. ei_folded r \<noteq> ei_folded w)" by auto
  finally show ?thesis by blast
qed

lemma NewPolicy_Inr:
  assumes "NewPolicy tx ro wr = Inr p"
  shows "wf_policy p" "written tx ro \<inter> written tx wr = {}"
    "set (es_folded (pp_readOnly p)) = kept_entries (written tx ro) (written tx wr)"
    "set (es_folded (pp_writable p)) = kept_entries (written tx wr) (written tx ro)"
    "\<forall>raw \<in> set (ReadOnly p) \<union> set (Writable p). ValidatePath tx raw = Inr ()"
    "es_folded (pp_readOnly p) = map (case_Fold tx) (ReadOnly p)"
    "es_folded (pp_writable p) = map (case_Fold tx) (Writable p)"
proof -
  define mk where "mk raw = \<lparr>ei_raw = TrimSuffix raw ''/'', ei_folded = case_Fold tx (TrimSuffix raw ''/'')\<rparr>" for raw
  have p: "p = \<lparr>pp_readOnly = collapseEntries (map mk ro) (map mk wr),
      pp_writable = collapseEntries (map mk wr) (map mk ro)\<rparr>"
    and none: "first_overlap (map mk ro) (map mk wr) = None"
    and ok: "\<forall>raw \<in> set ro \<union> set wr. ValidatePath tx (TrimSuffix raw ''/'') = Inr ()"
    using assms unfolding mk_def
    by (auto simp: NewPolicy_def bindR_eq_Inr validateEntries_Inr split: option.splits)
  have img: "ei_folded ` set (map mk es) = written tx es" for es
    by (simp add: written_def mk_def image_image)
  show "wf_policy p" by (simp add: p wf_policy_def)
  show "written tx ro \<inter> written tx wr = {}" using none unfolding first_overlap_None img .
  show "set (es_folded (pp_readOnly p)) = kept_entries (written tx ro) (written tx wr)"
    "set (es_folded (pp_writable p)) = kept_entries (written tx wr) (written tx ro)"
    unfolding p PathPolicy.simps collapseEntries_folded img by (rule refl)+
  have raws: "set (es_entries (collapseEntries (map mk a) b)) \<subseteq> (\<lambda>raw. TrimSuffix raw ''/'') ` set a" for a b
    using collapseEntries_raw [of "map mk a" b] by (auto simp: mk_def image_image)
  show "\<forall>raw \<in> set (ReadOnly p) \<union> set (Writable p). ValidatePath tx raw = Inr ()"
    using ok raws [of ro "map mk wr"] raws [of wr "map mk ro"]
    by (auto simp: p ReadOnly_def Writable_def Entries_def)
  have fold: "es_folded (collapseEntries (map mk a) b) = map (case_Fold tx) (es_entries (collapseEntries (map mk a) b))" for a b
    using collapse_loop_subset [of "map mk a" b "[]" "map mk a"]
    by (auto simp: collapseEntries_def Let_def mk_def)
  show "es_folded (pp_readOnly p) = map (case_Fold tx) (ReadOnly p)"
    "es_folded (pp_writable p) = map (case_Fold tx) (Writable p)"
    using fold by (simp_all add: p ReadOnly_def Writable_def Entries_def)
qed

lemma finite_written [simp]: "finite (written tx es)"
  by (simp add: written_def)

lemma NewPolicy_Protects:
  "NewPolicy tx ro wr = Inr p \<Longrightarrow>
   Protects tx p path \<longleftrightarrow> resolves (written tx ro) (written tx wr) (case_Fold tx path)"
  using NewPolicy_Inr(1-4) [of tx ro wr p] collapse_resolution [of "written tx ro" "written tx wr"]
  by (simp add: Protects_resolves)

text \<open>A valid path has no trailing slash, so trimming it again changes nothing.\<close>

lemma ValidatePath_trimmed: "ValidatePath tx raw = Inr () \<Longrightarrow> TrimSuffix raw ''/'' = raw"
  by (auto simp: ValidatePath_def TrimSuffix_def split: if_splits)

lemma written_valid:
  "\<forall>raw \<in> set es. ValidatePath tx raw = Inr () \<Longrightarrow> written tx es = case_Fold tx ` set es"
  unfolding written_def using ValidatePath_trimmed [of tx] by (intro image_cong) simp_all

lemma NewPolicy_rebuild:
  assumes "NewPolicy tx ro wr = Inr p"
  obtains p' where "NewPolicy tx (ReadOnly p) (Writable p) = Inr p'"
    "\<And>path. Protects tx p' path = Protects tx p path"
proof -
  note N = NewPolicy_Inr [OF assms]
  have wrR: "written tx (ReadOnly p) = set (es_folded (pp_readOnly p))"
    and wrW: "written tx (Writable p) = set (es_folded (pp_writable p))"
    using N(5-7) by (simp_all add: written_valid)
  let ?mk = "\<lambda>raw. \<lparr>ei_raw = TrimSuffix raw ''/'', ei_folded = case_Fold tx (TrimSuffix raw ''/'')\<rparr>"
  have vR: "validateEntries tx KindReadOnly (ReadOnly p) = Inr (map ?mk (ReadOnly p))"
    and vW: "validateEntries tx KindWritable (Writable p) = Inr (map ?mk (Writable p))"
    unfolding validateEntries_Inr using N(5) ValidatePath_trimmed [of tx] by auto
  have img: "ei_folded ` set (map ?mk es) = written tx es" for es
    by (simp add: written_def image_image)
  have "written tx (ReadOnly p) \<inter> written tx (Writable p) = {}"
    using N(2-4) kept_subset unfolding wrR wrW by blast
  then have none: "first_overlap (map ?mk (ReadOnly p)) (map ?mk (Writable p)) = None"
    unfolding first_overlap_None img .
  then obtain p' where p': "NewPolicy tx (ReadOnly p) (Writable p) = Inr p'"
    by (simp add: NewPolicy_def vR vW)
  moreover have "Protects tx p' path = Protects tx p path" for path
    unfolding NewPolicy_Protects [OF p'] Protects_resolves [OF N(1)] wrR wrW ..
  ultimately show thesis by (rule that)
qed

section \<open>Pinning\<close>

definition snap_lookup :: "Snapshot \<Rightarrow> (bytes \<rightharpoonup> bytes)" where
  "snap_lookup snap = map_of (map (\<lambda>f. (f_Path f, f_Data f)) snap)"

lemma snap_lookup_None: "snap_lookup snap q = None \<longleftrightarrow> q \<notin> f_Path ` set snap"
  by (auto simp: snap_lookup_def map_of_eq_None_iff image_image)

lemma snap_lookup_Some:
  "distinct (map f_Path snap) \<Longrightarrow>
   snap_lookup snap q = Some d \<longleftrightarrow> (\<exists>f \<in> set snap. f_Path f = q \<and> f_Data f = d)"
  by (auto simp: snap_lookup_def comp_def)

lemma snap_lookup_mset:
  assumes "distinct (map f_Path a)" "mset a = mset b" shows "snap_lookup a = snap_lookup b"
proof
  fix q
  have "distinct (map f_Path b)" "set a = set b"
    using assms by (metis mset_eq_imp_distinct_iff mset_map, metis mset_eq_setD)
  then have "snap_lookup a q = Some d \<longleftrightarrow> snap_lookup b q = Some d" for d
    using assms(1) by (simp add: snap_lookup_Some)
  then show "snap_lookup a q = snap_lookup b q" by (metis not_Some_eq)
qed

lemma snap_lookup_filter:
  "snap_lookup (filter (\<lambda>f. P (f_Path f)) snap) q = (if P q then snap_lookup snap q else None)"
  by (induction snap) (auto simp: snap_lookup_def)

lemma snap_lookup_append:
  "snap_lookup (a @ b) q = (case snap_lookup a q of None \<Rightarrow> snap_lookup b q | Some d \<Rightarrow> Some d)"
  by (simp add: snap_lookup_def map_add_def split: option.splits)

lemma covered_data_lookup:
  assumes "distinct (map f_Path snap)"
  shows "covered_data tx s snap q = (if Covers tx s q then snap_lookup snap q else None)"
proof -
  let ?fs = "filter (\<lambda>f. Covers tx s (f_Path f)) snap"
  have "distinct (map fst (map (\<lambda>f. (f_Path f, f_Data f)) ?fs))"
    using assms by (simp add: comp_def distinct_map_filter)
  then have "covered_data tx s snap = snap_lookup ?fs"
    by (simp add: covered_data_def foldl_upd map_of_rev snap_lookup_def)
  then show ?thesis by (simp add: snap_lookup_filter)
qed

lemma Covers_empty: "es_entries s = [] \<Longrightarrow> \<not> Covers tx s q"
  by (simp add: Covers_def CoveringEntry_def covering_def)

lemma ChangedUnder_iff:
  assumes "distinct (map f_Path local)" "distinct (map f_Path base)"
  shows "q \<in> set (ChangedUnder tx s local base) \<longleftrightarrow>
    Covers tx s q \<and> snap_lookup local q \<noteq> snap_lookup base q"
proof (cases "es_entries s = []")
  case False
  have keys: "p \<in> set (covered_keys tx s snap) \<longleftrightarrow> Covers tx s p \<and> snap_lookup snap p \<noteq> None" for p snap
    by (auto simp: covered_keys_def snap_lookup_None)
  show ?thesis
    using False by (auto simp: ChangedUnder_def Let_def covered_data_lookup [OF assms(1)]
        covered_data_lookup [OF assms(2)] keys)
qed (simp add: ChangedUnder_def Covers_empty)

lemma Pin_lookup:
  assumes "distinct (map f_Path local)" "distinct (map f_Path base)"
  shows "snap_lookup (Pin tx s local base) q = (if Covers tx s q then snap_lookup base q else snap_lookup local q)"
proof (cases "es_entries s = []")
  case False
  let ?fs = "filter (\<lambda>f. \<not> Covers tx s (f_Path f)) local @ filter (\<lambda>f. Covers tx s (f_Path f)) base"
  have "distinct (map f_Path ?fs)"
    using assms by (auto simp: distinct_map_filter)
  then have "snap_lookup (sort_key f_Path ?fs) = snap_lookup ?fs"
    by (intro snap_lookup_mset [symmetric]) simp_all
  then show ?thesis
    using False by (simp add: Pin_def snap_lookup_append snap_lookup_filter [where P = "\<lambda>p. \<not> Covers tx s p"]
        snap_lookup_filter split: option.splits)
qed (simp add: Pin_def Covers_empty)

lemma distinct_Pin:
  assumes "distinct (map f_Path local)" "distinct (map f_Path base)"
  shows "distinct (map f_Path (Pin tx s local base))"
proof -
  let ?fs = "filter (\<lambda>f. \<not> Covers tx s (f_Path f)) local @ filter (\<lambda>f. Covers tx s (f_Path f)) base"
  have "distinct (map f_Path ?fs)" using assms by (auto simp: distinct_map_filter)
  then have "distinct (map f_Path (sort_key f_Path ?fs))"
    by (metis mset_eq_imp_distinct_iff mset_map mset_sort)
  then show ?thesis using assms(1) by (simp add: Pin_def)
qed

section \<open>Properties\<close>

text \<open>C28: the policy built from two entry lists resolves every path as the entries were written: the
  longest entry that is the path or a directory of it, in either list, decides, and an unmatched
  path is protected exactly when a writable entry was given. Dropping covered entries changes no
  answer.\<close>

theorem policy_resolution:
  assumes "NewPolicy tx ro wr = Inr p"
  shows "Protects tx p path \<longleftrightarrow> resolves (written tx ro) (written tx wr) (case_Fold tx path)"
  using assms by (rule NewPolicy_Protects)

text \<open>A policy with a writable directory inside a read-only one and a read-only file below it.\<close>

definition sample_policy :: PathPolicy where
  "sample_policy = \<lparr>pp_readOnly = \<lparr>es_entries = [''docs'', ''docs/a/b''], es_folded = [''docs'', ''docs/a/b'']\<rparr>,
     pp_writable = \<lparr>es_entries = [''docs/a''], es_folded = [''docs/a'']\<rparr>\<rparr>"

definition sample_item :: "bytes \<Rightarrow> entryItem" where
  "sample_item p = \<lparr>ei_raw = p, ei_folded = p\<rparr>"

lemma sample_policy_built:
  "NewPolicy ascii_text [''docs/'', ''docs/a/b'', ''docs/x''] [''docs/a''] = Inr sample_policy"
proof -
  let ?ro = "[sample_item ''docs'', sample_item ''docs/a/b'', sample_item ''docs/x'']" and ?wr = "[sample_item ''docs/a'']"
  have "validateEntries ascii_text KindReadOnly [''docs/'', ''docs/a/b'', ''docs/x''] = Inr ?ro"
    "validateEntries ascii_text KindWritable [''docs/a''] = Inr ?wr"
    by (simp_all add: validateEntries_def Let_def sample_item_def path_eval sample_segments)
  moreover have "first_overlap ?ro ?wr = None" by (simp add: first_overlap_def sample_item_def)
  moreover have "collapseEntries ?ro ?wr = pp_readOnly sample_policy" "collapseEntries ?wr ?ro = pp_writable sample_policy"
    by (simp_all add: collapseEntries_def Let_def entry_covered_def entryBetween_def isEntryAncestor_def HasPrefix_def
        sample_item_def sample_policy_def)
  ultimately show ?thesis by (simp add: NewPolicy_def)
qed

theorem policy_resolution_witness:
  "NewPolicy ascii_text [''docs/'', ''docs/a/b'', ''docs/x''] [''docs/a''] = Inr sample_policy \<and>
   Protects ascii_text sample_policy ''docs/a/b/x'' \<and> \<not> Protects ascii_text sample_policy ''docs/a/c'' \<and>
   resolves (written ascii_text [''docs/'', ''docs/a/b'', ''docs/x'']) (written ascii_text [''docs/a''])
     (case_Fold ascii_text ''docs/a/b/x'')"
proof -
  have "Protects ascii_text sample_policy ''docs/a/b/x''" "\<not> Protects ascii_text sample_policy ''docs/a/c''"
    by (simp_all add: Protects_def Configured_def covering_def sample_policy_def entry_matches_def isEntryAncestor_def
        HasPrefix_def ascii_text_def ascii_lower_def)
  then show ?thesis
    using sample_policy_built policy_resolution [OF sample_policy_built, of "''docs/a/b/x''"] by blast
qed

text \<open>A policy rebuilt from the entries its accessors return protects exactly the same paths.\<close>

theorem policy_rebuild:
  assumes "NewPolicy tx ro wr = Inr p"
  shows "\<exists>p'. NewPolicy tx (ReadOnly p) (Writable p) = Inr p' \<and> (\<forall>path. Protects tx p' path = Protects tx p path)"
  using NewPolicy_rebuild [OF assms] by metis

theorem policy_rebuild_witness:
  "\<exists>p'. NewPolicy ascii_text (ReadOnly sample_policy) (Writable sample_policy) = Inr p' \<and>
     (\<forall>path. Protects ascii_text p' path = Protects ascii_text sample_policy path)"
  by (rule policy_rebuild [OF sample_policy_built])

text \<open>Pinning replaces exactly the covered files: a covered path then has the base content, every
  other path keeps the local content, and no covered path is reported as changed.\<close>

theorem pin_restores:
  assumes "distinct (map f_Path local)" "distinct (map f_Path base)"
  shows "snap_lookup (Pin tx s local base) q = (if Covers tx s q then snap_lookup base q else snap_lookup local q)
    \<and> ChangedUnder tx s (Pin tx s local base) base = []"
proof
  show look: "snap_lookup (Pin tx s local base) q = (if Covers tx s q then snap_lookup base q else snap_lookup local q)"
    for q using Pin_lookup [OF assms] .
  have none: "\<forall>p. p \<notin> set (ChangedUnder tx s (Pin tx s local base) base)"
    using ChangedUnder_iff [OF distinct_Pin [OF assms] assms(2)] look by auto
  show "ChangedUnder tx s (Pin tx s local base) base = []"
    using none by (cases "ChangedUnder tx s (Pin tx s local base) base") auto
qed

theorem pin_restores_witness:
  "ChangedUnder ascii_text \<lparr>es_entries = [''ro''], es_folded = [''ro'']\<rparr>
     (Pin ascii_text \<lparr>es_entries = [''ro''], es_folded = [''ro'']\<rparr>
        [\<lparr>f_Path = ''a'', f_Data = ''1''\<rparr>, \<lparr>f_Path = ''ro/x'', f_Data = ''2''\<rparr>] [\<lparr>f_Path = ''ro/y'', f_Data = ''3''\<rparr>])
     [\<lparr>f_Path = ''ro/y'', f_Data = ''3''\<rparr>] = []"
  using pin_restores [of "[\<lparr>f_Path = ''a'', f_Data = ''1''\<rparr>, \<lparr>f_Path = ''ro/x'', f_Data = ''2''\<rparr>]"
      "[\<lparr>f_Path = ''ro/y'', f_Data = ''3''\<rparr>]"] by simp

end
