(* ===== verification/TreePolicy.thy ===== *)
theory TreePolicy
  imports PathPolicy GitTree
begin

text \<open>
  The tree walks of the path policy (\<open>internal/git/policy.go\<close>, \<open>internal/git/readonly.go\<close>):
  detection of changed protected paths by comparing object IDs, restoration of protected paths from
  the base tree, and the read of covered files only. The reference for all of them is the complete
  walk of a tree; the fuel of every walk is the directory depth, as in \<open>GitTree\<close>.
\<close>

section \<open>Detection\<close>

definition readTreeAt :: "'r Repository \<Rightarrow> 'r \<Rightarrow> oid \<Rightarrow> git_error + TreeEntry list" where
  "readTreeAt R r tree = ReadTree R r tree"

definition appendUnique :: "bytes list \<Rightarrow> bytes \<Rightarrow> bytes list" where
  "appendUnique paths path = (if path \<in> set paths then paths else paths @ [path])"

definition collectSide ::
  "(oid \<Rightarrow> bytes \<Rightarrow> bytes list \<Rightarrow> git_error + bytes list) \<Rightarrow> text_lib \<Rightarrow> PathPolicy \<Rightarrow> bytes \<Rightarrow> TreeEntry \<Rightarrow>
   bytes list \<Rightarrow> git_error + bytes list" where
  "collectSide walk tx p pre e out =
     (let path = pre @ te_Name e in
      if te_Mode e = ModeBlob then
        (if Protects tx p path then Inr (appendUnique out path) else Inr out)
      else if te_Mode e = ModeTree then walk (te_ID e) (path @ ''/'') out
      else Inl (UnsupportedModeError path (te_Mode e)))"

fun collectTree ::
  "text_lib \<Rightarrow> PathPolicy \<Rightarrow> 'r Repository \<Rightarrow> 'r \<Rightarrow> nat \<Rightarrow> oid \<Rightarrow> bytes \<Rightarrow> bytes list \<Rightarrow> git_error + bytes list" where
  "collectTree tx p R r 0 tree pre out = Inl WalkTooDeep"
| "collectTree tx p R r (Suc n) tree pre out =
     bindR (readTreeAt R r tree) (\<lambda>es.
     foldR (collectSide (\<lambda>t q s. collectTree tx p R r n t q s) tx p pre) es out)"

definition diffEntry ::
  "(oid \<Rightarrow> oid \<Rightarrow> bytes \<Rightarrow> bytes list \<Rightarrow> git_error + bytes list) \<Rightarrow> (TreeEntry \<Rightarrow> bytes list \<Rightarrow> git_error + bytes list) \<Rightarrow>
   bytes \<Rightarrow> TreeEntry \<Rightarrow> (bytes \<rightharpoonup> TreeEntry) \<times> bytes list \<Rightarrow> git_error + (bytes \<rightharpoonup> TreeEntry) \<times> bytes list" where
  "diffEntry diff side pre le st =
     (case st of (baseByName, out) \<Rightarrow>
      case baseByName (te_Name le) of
        None \<Rightarrow> bindR (side le out) (\<lambda>out'. Inr (baseByName, out'))
      | Some be \<Rightarrow>
          let rest = baseByName(te_Name le := None) in
          if te_Mode le = te_Mode be \<and> te_ID le = te_ID be then Inr (rest, out)
          else if te_Mode le = ModeTree \<and> te_Mode be = ModeTree then
            bindR (diff (te_ID le) (te_ID be) (pre @ te_Name le @ ''/'') out) (\<lambda>out'. Inr (rest, out'))
          else
            bindR (side le out) (\<lambda>out1. bindR (side be out1) (\<lambda>out2. Inr (rest, out2))))"

text \<open>The names left in the map after the local entries, in sorted order.\<close>

definition left_names :: "(bytes \<rightharpoonup> TreeEntry) \<Rightarrow> TreeEntry list \<Rightarrow> bytes list" where
  "left_names rest es = sort (remdups (filter (\<lambda>name. rest name \<noteq> None) (map te_Name es)))"

fun diffTrees ::
  "text_lib \<Rightarrow> PathPolicy \<Rightarrow> 'r Repository \<Rightarrow> 'r \<Rightarrow> nat \<Rightarrow> oid \<Rightarrow> oid \<Rightarrow> bytes \<Rightarrow> bytes list \<Rightarrow> git_error + bytes list" where
  "diffTrees tx p R r 0 local base pre out = Inl WalkTooDeep"
| "diffTrees tx p R r (Suc n) local base pre out =
     bindR (readTreeAt R r local) (\<lambda>localEntries.
     bindR (readTreeAt R r base) (\<lambda>baseEntries.
     let side = collectSide (\<lambda>t q s. collectTree tx p R r n t q s) tx p pre;
         byName = foldl (\<lambda>m e. m(te_Name e \<mapsto> e)) Map.empty baseEntries in
     bindR (foldR (diffEntry (\<lambda>l b q s. diffTrees tx p R r n l b q s) side pre) localEntries (byName, out))
       (\<lambda>(rest, out').
        foldR (\<lambda>name s. case rest name of None \<Rightarrow> Inr s | Some e \<Rightarrow> side e s) (left_names rest baseEntries) out')))"

definition ChangedProtected ::
  "text_lib \<Rightarrow> PathPolicy \<Rightarrow> 'r Repository \<Rightarrow> 'r \<Rightarrow> nat \<Rightarrow> oid \<Rightarrow> oid \<Rightarrow> git_error + bytes list" where
  "ChangedProtected tx p R r depth local base =
     (if \<not> Configured p \<or> local = base then Inr []
      else bindR (diffTrees tx p R r depth local base [] []) (\<lambda>changed. Inr (sort changed)))"

section \<open>Restoration\<close>

definition findEntry :: "TreeEntry list \<Rightarrow> bytes \<Rightarrow> TreeEntry option" where
  "findEntry entries name = find (\<lambda>e. te_Name e = name) entries"

fun readBlobSegs :: "'r Repository \<Rightarrow> 'r \<Rightarrow> oid \<Rightarrow> bytes list \<Rightarrow> git_error + bytes option" where
  "readBlobSegs R r tree [] = Inr None"
| "readBlobSegs R r tree (seg # segs) =
     bindR (readTreeAt R r tree) (\<lambda>entries.
     case findEntry entries seg of
       None \<Rightarrow> Inr None
     | Some e \<Rightarrow>
         if segs = [] \<and> te_Mode e = ModeBlob then bindR (ReadBlob R r (te_ID e)) (\<lambda>d. Inr (Some d))
         else if segs \<noteq> [] \<and> te_Mode e = ModeTree then readBlobSegs R r (te_ID e) segs
         else Inr None)"

definition readBlobAt :: "'r Repository \<Rightarrow> 'r \<Rightarrow> oid \<Rightarrow> bytes \<Rightarrow> git_error + bytes option" where
  "readBlobAt R r tree path = readBlobSegs R r tree (SplitOn (CHR ''/'') path)"

definition restoredFiles :: "'r Repository \<Rightarrow> 'r \<Rightarrow> oid \<Rightarrow> bytes list \<Rightarrow> git_error + Snapshot" where
  "restoredFiles R r base changed =
     bindR (mapR (\<lambda>path. bindR (readBlobAt R r base path) (\<lambda>d.
        Inr (case d of None \<Rightarrow> [] | Some data \<Rightarrow> [\<lparr>f_Path = path, f_Data = data\<rparr>]))) changed)
     (\<lambda>fss. Inr (concat fss))"

definition RestoreProtected ::
  "text_lib \<Rightarrow> 'r Repository \<Rightarrow> 'r \<Rightarrow> oid \<Rightarrow> Snapshot \<Rightarrow> bytes list \<Rightarrow> git_error + Snapshot" where
  "RestoreProtected tx R r base local changed =
     (if changed = [] then Inr local
      else bindR (restoredFiles R r base changed) (\<lambda>restored.
        let snap = sort_key f_Path (filter (\<lambda>f. \<not> namedOrUnder (f_Path f) changed) local @ restored) in
        bindR (mapErr SnapshotInvalid (ValidateSnapshot tx snap)) (\<lambda>_. Inr snap)))"

section \<open>Covered reads\<close>

definition walkCoveredEntry ::
  "(oid \<Rightarrow> bytes \<Rightarrow> bool \<Rightarrow> git_error + Snapshot) \<Rightarrow> text_lib \<Rightarrow> EntrySet \<Rightarrow> 'r Repository \<Rightarrow> 'r \<Rightarrow> bytes \<Rightarrow> bool \<Rightarrow>
   TreeEntry \<Rightarrow> git_error + Snapshot" where
  "walkCoveredEntry walk tx s R r pre inside e =
     (let path = pre @ te_Name e; covered = (inside \<or> Covers tx s path) in
      if te_Mode e = ModeTree then
        (if \<not> covered \<and> \<not> hasEntryBelow tx s path then Inr [] else walk (te_ID e) (path @ ''/'') covered)
      else if te_Mode e = ModeBlob then
        (if \<not> covered then Inr []
         else bindR (ReadBlob R r (te_ID e)) (\<lambda>d. Inr [\<lparr>f_Path = path, f_Data = d\<rparr>]))
      else Inl (UnsupportedModeError path (te_Mode e)))"

fun walkCovered ::
  "text_lib \<Rightarrow> EntrySet \<Rightarrow> 'r Repository \<Rightarrow> 'r \<Rightarrow> nat \<Rightarrow> oid \<Rightarrow> bytes \<Rightarrow> bool \<Rightarrow> git_error + Snapshot" where
  "walkCovered tx s R r 0 tree pre inside = Inl WalkTooDeep"
| "walkCovered tx s R r (Suc n) tree pre inside =
     bindR (ReadTree R r tree) (\<lambda>es.
     bindR (mapR (walkCoveredEntry (\<lambda>t q b. walkCovered tx s R r n t q b) tx s R r pre inside) es) (\<lambda>fss.
     Inr (concat fss)))"

definition ReadCovered :: "text_lib \<Rightarrow> EntrySet \<Rightarrow> 'r Repository \<Rightarrow> 'r \<Rightarrow> nat \<Rightarrow> oid \<Rightarrow> git_error + Snapshot" where
  "ReadCovered tx s R r depth tree =
     (if es_entries s = [] then Inr []
      else bindR (walkCovered tx s R r depth tree [] False) (\<lambda>files.
        let snap = sort_key f_Path files in
        bindR (mapErr SnapshotInvalid (ValidateSnapshot tx snap)) (\<lambda>_. Inr snap)))"

section \<open>The files of a tree by object ID\<close>

definition entryIDs :: "(oid \<Rightarrow> bytes \<Rightarrow> git_error + (bytes \<times> oid) list) \<Rightarrow> bytes \<Rightarrow> TreeEntry \<Rightarrow> git_error + (bytes \<times> oid) list" where
  "entryIDs walk pre e =
     (if te_Mode e = ModeTree then walk (te_ID e) (pre @ te_Name e @ ''/'')
      else if te_Mode e = ModeBlob then Inr [(pre @ te_Name e, te_ID e)]
      else Inl (UnsupportedModeError (pre @ te_Name e) (te_Mode e)))"

fun walkIDs :: "'r Repository \<Rightarrow> 'r \<Rightarrow> nat \<Rightarrow> oid \<Rightarrow> bytes \<Rightarrow> git_error + (bytes \<times> oid) list" where
  "walkIDs R r 0 tree pre = Inl WalkTooDeep"
| "walkIDs R r (Suc n) tree pre =
     bindR (ReadTree R r tree) (\<lambda>es.
     bindR (mapR (entryIDs (\<lambda>t q. walkIDs R r n t q) pre) es) (\<lambda>fss. Inr (concat fss)))"

text \<open>Stored trees have distinct entry names, none of which contains a slash.\<close>

fun wf_walk :: "'r Repository \<Rightarrow> 'r \<Rightarrow> nat \<Rightarrow> oid \<Rightarrow> bool" where
  "wf_walk R r 0 tree \<longleftrightarrow> True"
| "wf_walk R r (Suc n) tree \<longleftrightarrow>
     (case ReadTree R r tree of
        Inl _ \<Rightarrow> True
      | Inr es \<Rightarrow> distinct (map te_Name es) \<and>
          (\<forall>e \<in> set es. CHR ''/'' \<notin> set (te_Name e) \<and> (te_Mode e = ModeTree \<longrightarrow> wf_walk R r n (te_ID e))))"

definition protected_paths :: "text_lib \<Rightarrow> PathPolicy \<Rightarrow> (bytes \<times> oid) list \<Rightarrow> bytes set" where
  "protected_paths tx p fs = {q. Protects tx p q \<and> q \<in> fst ` set fs}"

definition protected_diff :: "text_lib \<Rightarrow> PathPolicy \<Rightarrow> (bytes \<times> oid) set \<Rightarrow> (bytes \<times> oid) set \<Rightarrow> bytes set" where
  "protected_diff tx p L B = {q. Protects tx p q \<and> (\<exists>i. ((q, i) \<in> L) \<noteq> ((q, i) \<in> B))}"

lemma mapR_pick: "mapR f xs = Inr ys \<Longrightarrow> x \<in> set xs \<Longrightarrow> \<exists>y. f x = Inr y \<and> y \<in> set ys"
  by (induction xs arbitrary: ys) (auto simp: bindR_eq_Inr)

lemma mapR_origin: "mapR f xs = Inr ys \<Longrightarrow> y \<in> set ys \<Longrightarrow> \<exists>x \<in> set xs. f x = Inr y"
  by (induction xs arbitrary: ys) (auto simp: bindR_eq_Inr)

lemma walkIDs_prefix: "walkIDs R r n tree pre = Inr fs \<Longrightarrow> (q, i) \<in> set fs \<Longrightarrow> prefix pre q"
proof (induction n arbitrary: tree pre fs)
  case (Suc n)
  then obtain es fss where m: "mapR (entryIDs (walkIDs R r n) pre) es = Inr fss" "fs = concat fss"
    by (auto simp: bindR_eq_Inr)
  then obtain e gs where e: "entryIDs (walkIDs R r n) pre e = Inr gs" "(q, i) \<in> set gs"
    using Suc.prems(2) mapR_origin [OF m(1)] by fastforce
  then show ?case
    using Suc.IH [of "te_ID e" "pre @ te_Name e @ ''/''" gs] prefix_order.trans [of pre "pre @ te_Name e @ ''/''" q]
    by (auto simp: entryIDs_def split: if_splits)
qed simp

definition under :: "bytes \<Rightarrow> bytes \<Rightarrow> bool" where
  "under d q \<longleftrightarrow> q = d \<or> prefix (d @ ''/'') q"

lemma entryIDs_under:
  assumes "entryIDs (walkIDs R r n) pre e = Inr fs" "(q, i) \<in> set fs"
  shows "te_Mode e = ModeBlob \<and> q = pre @ te_Name e \<and> i = te_ID e \<or>
    te_Mode e = ModeTree \<and> prefix ((pre @ te_Name e) @ ''/'') q"
  using assms walkIDs_prefix [of R r n "te_ID e" "pre @ te_Name e @ ''/''" fs q i]
  by (auto simp: entryIDs_def split: if_splits)

lemma under_name_unique:
  assumes "under (pre @ a) q" "under (pre @ b) q" "CHR ''/'' \<notin> set a" "CHR ''/'' \<notin> set b"
  shows "a = b"
proof -
  obtain x where x: "q = pre @ x" "x = a \<or> (\<exists>y. x = a @ CHR ''/'' # y)"
    using assms(1) by (auto simp: under_def prefix_def)
  then have y: "x = b \<or> (\<exists>y. x = b @ CHR ''/'' # y)"
    using assms(2) by (auto simp: under_def prefix_def)
  have "takeWhile (\<lambda>c. c \<noteq> CHR ''/'') x = n" if "x = n \<or> (\<exists>y. x = n @ CHR ''/'' # y)" "CHR ''/'' \<notin> set n" for n
  proof -
    have "\<And>c. c \<in> set n \<Longrightarrow> c \<noteq> CHR ''/''" using that(2) by auto
    then show ?thesis using that(1) by (auto simp: takeWhile_append2)
  qed
  then show ?thesis using x(2) y assms(3,4) by metis
qed

section \<open>Detection is exact\<close>

lemma foldR_collect:
  assumes "mapR g es = Inr fss"
    "\<And>e fs s. e \<in> set es \<Longrightarrow> g e = Inr fs \<Longrightarrow> \<exists>s'. f e s = Inr s' \<and> set s' = set s \<union> protected_paths tx p fs"
  shows "\<exists>s'. foldR f es s = Inr s' \<and> set s' = set s \<union> protected_paths tx p (concat fss)"
  using assms
proof (induction es arbitrary: fss s)
  case (Cons e es)
  obtain fs rest where fs: "g e = Inr fs" "mapR g es = Inr rest" "fss = fs # rest"
    using Cons.prems(1) by (auto simp: bindR_eq_Inr)
  obtain s1 where s1: "f e s = Inr s1" "set s1 = set s \<union> protected_paths tx p fs"
    using Cons.prems(2) fs(1) by (meson list.set_intros(1))
  obtain s2 where "foldR f es s1 = Inr s2" "set s2 = set s1 \<union> protected_paths tx p (concat rest)"
    using Cons.IH [OF fs(2)] Cons.prems(2) by (meson list.set_intros(2))
  then show ?case using s1 fs(3) by (auto simp: protected_paths_def)
qed (simp add: protected_paths_def)

lemma collectSide_walk:
  assumes "\<And>t q fs s. walkIDs R r n t q = Inr fs \<Longrightarrow>
      \<exists>s'. collectTree tx p R r n t q s = Inr s' \<and> set s' = set s \<union> protected_paths tx p fs"
    "entryIDs (walkIDs R r n) pre e = Inr fs"
  shows "\<exists>s'. collectSide (collectTree tx p R r n) tx p pre e s = Inr s' \<and> set s' = set s \<union> protected_paths tx p fs"
proof (cases "te_Mode e = ModeTree")
  case True
  then show ?thesis using assms by (simp add: collectSide_def entryIDs_def)
next
  case False
  then have "te_Mode e = ModeBlob" "fs = [(pre @ te_Name e, te_ID e)]"
    using assms(2) by (auto simp: entryIDs_def split: if_splits)
  then show ?thesis
    by (cases "Protects tx p (pre @ te_Name e)")
      (auto simp: collectSide_def Let_def appendUnique_def protected_paths_def)
qed

lemma collectTree_walk:
  "walkIDs R r n tree pre = Inr fs \<Longrightarrow>
   \<exists>s'. collectTree tx p R r n tree pre s = Inr s' \<and> set s' = set s \<union> protected_paths tx p fs"
proof (induction n arbitrary: tree pre fs s)
  case (Suc n)
  then obtain es fss where m: "ReadTree R r tree = Inr es" "mapR (entryIDs (walkIDs R r n) pre) es = Inr fss" "fs = concat fss"
    by (auto simp: bindR_eq_Inr)
  have "\<exists>s'. foldR (collectSide (collectTree tx p R r n) tx p pre) es s = Inr s' \<and>
      set s' = set s \<union> protected_paths tx p (concat fss)"
    using m(2) by (rule foldR_collect) (rule collectSide_walk [OF Suc.IH])
  then show ?case using m by (simp add: readTreeAt_def)
qed simp

lemma collectSide_ids:
  "entryIDs (walkIDs R r n) pre e = Inr fs \<Longrightarrow>
   \<exists>s'. collectSide (collectTree tx p R r n) tx p pre e s = Inr s' \<and> set s' = set s \<union> protected_paths tx p fs"
  by (rule collectSide_walk [OF collectTree_walk])

text \<open>The IDs below one entry, as a set; an absent entry has none.\<close>

definition ids_of :: "'r Repository \<Rightarrow> 'r \<Rightarrow> nat \<Rightarrow> bytes \<Rightarrow> TreeEntry option \<Rightarrow> (bytes \<times> oid) set" where
  "ids_of R r n pre e = (case e of None \<Rightarrow> {} | Some e \<Rightarrow>
     (case entryIDs (walkIDs R r n) pre e of Inl _ \<Rightarrow> {} | Inr fs \<Rightarrow> set fs))"

lemma ids_of_None [simp]: "ids_of R r n pre None = {}"
  by (simp add: ids_of_def)

lemma ids_of_Some: "x \<in> ids_of R r n pre (Some e) \<longleftrightarrow> (\<exists>fs. entryIDs (walkIDs R r n) pre e = Inr fs \<and> x \<in> set fs)"
  by (auto simp: ids_of_def split: sum.splits)

lemma walkIDs_entries:
  assumes "walkIDs R r (Suc n) tree pre = Inr fs"
  obtains es where "ReadTree R r tree = Inr es"
    "\<And>e. e \<in> set es \<Longrightarrow> \<exists>gs. entryIDs (walkIDs R r n) pre e = Inr gs"
    "set fs = (\<Union>e \<in> set es. ids_of R r n pre (Some e))"
proof -
  obtain es fss where m: "ReadTree R r tree = Inr es" "mapR (entryIDs (walkIDs R r n) pre) es = Inr fss" "fs = concat fss"
    using assms by (auto simp: bindR_eq_Inr)
  have pick: "\<exists>gs. entryIDs (walkIDs R r n) pre e = Inr gs \<and> gs \<in> set fss" if "e \<in> set es" for e
    using mapR_pick [OF m(2) that] .
  have eq: "x \<in> set fs \<longleftrightarrow> (\<exists>e \<in> set es. x \<in> ids_of R r n pre (Some e))" for x
  proof
    assume "x \<in> set fs"
    then obtain gs where gs: "gs \<in> set fss" "x \<in> set gs" using m(3) by auto
    then obtain e where "e \<in> set es" "entryIDs (walkIDs R r n) pre e = Inr gs" using mapR_origin [OF m(2)] by blast
    then show "\<exists>e \<in> set es. x \<in> ids_of R r n pre (Some e)" using gs(2) by (auto simp: ids_of_Some)
  next
    assume "\<exists>e \<in> set es. x \<in> ids_of R r n pre (Some e)"
    then obtain e gs where "e \<in> set es" "entryIDs (walkIDs R r n) pre e = Inr gs" "x \<in> set gs"
      unfolding ids_of_Some by blast
    then show "x \<in> set fs" using pick [of e] m(3) by auto
  qed
  have "set fs = (\<Union>e \<in> set es. ids_of R r n pre (Some e))"
    by (rule set_eqI) (simp only: eq UN_iff)
  moreover have "\<exists>gs. entryIDs (walkIDs R r n) pre e = Inr gs" if "e \<in> set es" for e using pick [OF that] by blast
  ultimately show thesis using m(1) by (intro that)
qed

lemma ids_of_under:
  assumes "(q, i) \<in> ids_of R r n pre (Some e)" shows "under (pre @ te_Name e) q"
proof -
  obtain fs where "entryIDs (walkIDs R r n) pre e = Inr fs" "(q, i) \<in> set fs"
    using assms unfolding ids_of_Some by blast
  then show ?thesis using entryIDs_under [of R r n pre e fs q i] by (auto simp: under_def)
qed

definition by_name :: "TreeEntry list \<Rightarrow> (bytes \<rightharpoonup> TreeEntry)" where
  "by_name es = foldl (\<lambda>m e. m(te_Name e \<mapsto> e)) Map.empty es"

lemma by_name_Some:
  assumes "distinct (map te_Name es)"
  shows "by_name es name = Some e \<longleftrightarrow> e \<in> set es \<and> te_Name e = name"
proof -
  have "distinct (map fst (map (\<lambda>e. (te_Name e, e)) es))" using assms by (simp add: comp_def)
  then show ?thesis
    by (auto simp: by_name_def foldl_upd map_of_rev map_of_eq_Some_iff)
qed

lemma by_name_None: "distinct (map te_Name es) \<Longrightarrow> by_name es name = None \<longleftrightarrow> name \<notin> te_Name ` set es"
  using by_name_Some by (metis (no_types, lifting) imageE imageI not_Some_eq)

text \<open>Entries of different names have no path in common, so the difference is taken name by name.\<close>

lemma protected_diff_by_name:
  assumes "\<And>nm q i. (q, i) \<in> A nm \<union> B nm \<Longrightarrow> T nm q" "\<And>a b q. T a q \<Longrightarrow> T b q \<Longrightarrow> a = b"
  shows "protected_diff tx p (\<Union>nm. A nm) (\<Union>nm. B nm) = (\<Union>nm. protected_diff tx p (A nm) (B nm))"
proof -
  have eB: "(q, i) \<in> (\<Union>nm. B nm) \<longleftrightarrow> (q, i) \<in> B a" if "(q, j) \<in> A a \<union> B a" for q i j a
    using assms that by blast
  have eA: "(q, i) \<in> (\<Union>nm. A nm) \<longleftrightarrow> (q, i) \<in> A a" if "(q, j) \<in> A a \<union> B a" for q i j a
    using assms that by blast
  have key: "q \<in> protected_diff tx p (\<Union>nm. A nm) (\<Union>nm. B nm) \<longleftrightarrow> q \<in> protected_diff tx p (A a) (B a)"
    if "(q, j) \<in> A a \<union> B a" for q j a
    by (simp only: protected_diff_def mem_Collect_eq eA [OF that] eB [OF that])
  have some: "\<exists>a j. (q, j) \<in> A a \<union> B a" if "q \<in> protected_diff tx p (\<Union>nm. A nm) (\<Union>nm. B nm)" for q
    using that unfolding protected_diff_def by blast
  have some': "\<exists>j. (q, j) \<in> A a \<union> B a" if "q \<in> protected_diff tx p (A a) (B a)" for q a
    using that unfolding protected_diff_def by blast
  show ?thesis
  proof (rule set_eqI)
    fix q
    show "q \<in> protected_diff tx p (\<Union>nm. A nm) (\<Union>nm. B nm) \<longleftrightarrow> q \<in> (\<Union>nm. protected_diff tx p (A nm) (B nm))"
    proof
      assume l: "q \<in> protected_diff tx p (\<Union>nm. A nm) (\<Union>nm. B nm)"
      obtain a j where "(q, j) \<in> A a \<union> B a" using some [OF l] by blast
      then show "q \<in> (\<Union>nm. protected_diff tx p (A nm) (B nm))" using key l by blast
    next
      assume "q \<in> (\<Union>nm. protected_diff tx p (A nm) (B nm))"
      then obtain a where a: "q \<in> protected_diff tx p (A a) (B a)" by (rule UN_E)
      obtain j where "(q, j) \<in> A a \<union> B a" using some' [OF a] by blast
      then show "q \<in> protected_diff tx p (\<Union>nm. A nm) (\<Union>nm. B nm)" using key a by blast
    qed
  qed
qed

lemma ids_by_name:
  "distinct (map te_Name es) \<Longrightarrow> (\<Union>e \<in> set es. ids_of R r n pre (Some e)) = (\<Union>nm. ids_of R r n pre (by_name es nm))"
proof (rule set_eqI)
  fix x assume d: "distinct (map te_Name es)"
  show "x \<in> (\<Union>e \<in> set es. ids_of R r n pre (Some e)) \<longleftrightarrow> x \<in> (\<Union>nm. ids_of R r n pre (by_name es nm))"
  proof
    assume "x \<in> (\<Union>e \<in> set es. ids_of R r n pre (Some e))"
    then obtain e where "e \<in> set es" "x \<in> ids_of R r n pre (by_name es (te_Name e))"
      using by_name_Some [OF d] by (metis UN_E)
    then show "x \<in> (\<Union>nm. ids_of R r n pre (by_name es nm))" by blast
  next
    assume "x \<in> (\<Union>nm. ids_of R r n pre (by_name es nm))"
    then obtain nm where nm: "x \<in> ids_of R r n pre (by_name es nm)" by blast
    then obtain e where e: "by_name es nm = Some e" by (cases "by_name es nm") auto
    have "e \<in> set es" using e by_name_Some [OF d] by simp
    moreover have "x \<in> ids_of R r n pre (Some e)" using nm unfolding e .
    ultimately show "x \<in> (\<Union>e \<in> set es. ids_of R r n pre (Some e))" by blast
  qed
qed

lemma protected_diff_empty [simp]: "protected_diff tx p A A = {}"
  by (simp add: protected_diff_def)

lemma ids_of_collect:
  assumes "entryIDs (walkIDs R r n) pre e = Inr fs"
  shows "protected_diff tx p (ids_of R r n pre (Some e)) {} = protected_paths tx p fs"
    "protected_diff tx p {} (ids_of R r n pre (Some e)) = protected_paths tx p fs"
  using assms by (force simp: protected_diff_def protected_paths_def ids_of_def)+

lemma protected_diff_disjoint:
  "A \<inter> B = {} \<Longrightarrow> protected_diff tx p A B = protected_diff tx p A {} \<union> protected_diff tx p {} B"
  unfolding protected_diff_def by blast

lemma ids_of_disjoint:
  assumes "te_Name a = te_Name b" "\<not> (te_Mode a = te_Mode b \<and> te_ID a = te_ID b)"
    "\<not> (te_Mode a = ModeTree \<and> te_Mode b = ModeTree)"
  shows "ids_of R r n pre (Some a) \<inter> ids_of R r n pre (Some b) = {}"
proof -
  have False if qa: "(q, i) \<in> ids_of R r n pre (Some a)" and qb: "(q, i) \<in> ids_of R r n pre (Some b)" for q i
  proof -
    obtain fa fb where "entryIDs (walkIDs R r n) pre a = Inr fa" "(q, i) \<in> set fa"
      "entryIDs (walkIDs R r n) pre b = Inr fb" "(q, i) \<in> set fb"
      using qa qb unfolding ids_of_Some by blast
    then show False
      using entryIDs_under [of R r n pre a fa q i] entryIDs_under [of R r n pre b fb q i] assms
      by (auto simp: prefix_def)
  qed
  then show ?thesis by (metis disjoint_iff surj_pair)
qed

lemma diffEntry_step:
  assumes diff: "\<And>l b q L B s. walkIDs R r n l q = Inr L \<Longrightarrow> walkIDs R r n b q = Inr B \<Longrightarrow> wf_walk R r n l \<Longrightarrow> wf_walk R r n b \<Longrightarrow>
      \<exists>s'. diffTrees tx p R r n l b q s = Inr s' \<and> set s' = set s \<union> protected_diff tx p (set L) (set B)"
    and le: "entryIDs (walkIDs R r n) pre le = Inr fl" "te_Mode le = ModeTree \<Longrightarrow> wf_walk R r n (te_ID le)"
    and be: "\<And>be. m (te_Name le) = Some be \<Longrightarrow> te_Name be = te_Name le \<and>
      (\<exists>fb. entryIDs (walkIDs R r n) pre be = Inr fb) \<and> (te_Mode be = ModeTree \<longrightarrow> wf_walk R r n (te_ID be))"
  shows "\<exists>s'. diffEntry (diffTrees tx p R r n) (collectSide (collectTree tx p R r n) tx p pre) pre le (m, s) =
      Inr (m(te_Name le := None), s') \<and>
      set s' = set s \<union> protected_diff tx p (ids_of R r n pre (Some le)) (ids_of R r n pre (m (te_Name le)))"
proof (cases "m (te_Name le)")
  case None
  then have "m(te_Name le := None) = m" by auto
  then show ?thesis
    using None collectSide_ids [OF le(1), of tx p s] ids_of_collect [OF le(1)] by (auto simp: diffEntry_def ids_of_def)
next
  case (Some be)
  obtain fb where fb: "te_Name be = te_Name le" "entryIDs (walkIDs R r n) pre be = Inr fb"
    "te_Mode be = ModeTree \<Longrightarrow> wf_walk R r n (te_ID be)"
    using be [OF Some] by blast
  show ?thesis
  proof (cases "te_Mode le = te_Mode be \<and> te_ID le = te_ID be")
    case True
    then have "ids_of R r n pre (Some le) = ids_of R r n pre (Some be)"
      using fb(1) by (simp add: ids_of_def entryIDs_def)
    then show ?thesis using True Some by (simp add: diffEntry_def)
  next
    case differ: False
    show ?thesis
    proof (cases "te_Mode le = ModeTree \<and> te_Mode be = ModeTree")
      case True
      then have "walkIDs R r n (te_ID le) (pre @ te_Name le @ ''/'') = Inr fl" "walkIDs R r n (te_ID be) (pre @ te_Name le @ ''/'') = Inr fb"
        using le(1) fb by (simp_all add: entryIDs_def)
      then obtain s' where "diffTrees tx p R r n (te_ID le) (te_ID be) (pre @ te_Name le @ ''/'') s = Inr s'"
        "set s' = set s \<union> protected_diff tx p (set fl) (set fb)"
        using diff le(2) fb(3) True by blast
      then show ?thesis using True differ Some le(1) fb(2) by (simp add: diffEntry_def ids_of_def Let_def)
    next
      case False
      obtain s1 where s1: "collectSide (collectTree tx p R r n) tx p pre le s = Inr s1" "set s1 = set s \<union> protected_paths tx p fl"
        using collectSide_ids [OF le(1)] by blast
      obtain s2 where s2: "collectSide (collectTree tx p R r n) tx p pre be s1 = Inr s2" "set s2 = set s1 \<union> protected_paths tx p fb"
        using collectSide_ids [OF fb(2)] by blast
      have "ids_of R r n pre (Some le) \<inter> ids_of R r n pre (Some be) = {}"
        using ids_of_disjoint [OF fb(1) [symmetric] differ False] .
      then have "protected_diff tx p (ids_of R r n pre (Some le)) (ids_of R r n pre (Some be)) =
          protected_paths tx p fl \<union> protected_paths tx p fb"
        using protected_diff_disjoint ids_of_collect [OF le(1)] ids_of_collect [OF fb(2)] by metis
      then show ?thesis using s1 s2 differ False Some by (auto simp: diffEntry_def Let_def)
    qed
  qed
qed

lemma wf_walk_entries:
  assumes "wf_walk R r (Suc n) tree" "ReadTree R r tree = Inr es"
  shows "distinct (map te_Name es)" "\<And>e. e \<in> set es \<Longrightarrow> CHR ''/'' \<notin> set (te_Name e)"
    "\<And>e. e \<in> set es \<Longrightarrow> te_Mode e = ModeTree \<Longrightarrow> wf_walk R r n (te_ID e)"
  using assms by auto

lemma left_names_set: "set (left_names rest es) = {nm \<in> te_Name ` set es. rest nm \<noteq> None}"
  by (auto simp: left_names_def)

text \<open>The leftover base entries.\<close>

lemma foldR_leftover:
  assumes "\<And>nm e. nm \<in> set nms \<Longrightarrow> rest nm = Some e \<Longrightarrow> \<exists>fs. entryIDs (walkIDs R r n) pre e = Inr fs"
  shows "\<exists>s'. foldR (\<lambda>nm s. case rest nm of None \<Rightarrow> Inr s | Some e \<Rightarrow> collectSide (collectTree tx p R r n) tx p pre e s) nms s = Inr s' \<and>
    set s' = set s \<union> (\<Union>nm \<in> set nms. protected_diff tx p {} (ids_of R r n pre (rest nm)))"
  using assms
proof (induction nms arbitrary: s)
  case (Cons nm nms)
  have "\<exists>s1. (case rest nm of None \<Rightarrow> Inr s | Some e \<Rightarrow> collectSide (collectTree tx p R r n) tx p pre e s) = Inr s1 \<and>
      set s1 = set s \<union> protected_diff tx p {} (ids_of R r n pre (rest nm))"
  proof (cases "rest nm")
    case (Some e)
    then obtain fs where fs: "entryIDs (walkIDs R r n) pre e = Inr fs" using Cons.prems by (meson list.set_intros(1))
    then show ?thesis using Some collectSide_ids [OF fs] ids_of_collect(2) [OF fs] by simp
  qed simp
  then obtain s1 where s1: "(case rest nm of None \<Rightarrow> Inr s | Some e \<Rightarrow> collectSide (collectTree tx p R r n) tx p pre e s) = Inr s1"
    "set s1 = set s \<union> protected_diff tx p {} (ids_of R r n pre (rest nm))" by blast
  obtain s2 where "foldR (\<lambda>nm s. case rest nm of None \<Rightarrow> Inr s | Some e \<Rightarrow> collectSide (collectTree tx p R r n) tx p pre e s) nms s1 = Inr s2"
    "set s2 = set s1 \<union> (\<Union>nm \<in> set nms. protected_diff tx p {} (ids_of R r n pre (rest nm)))"
    using Cons.IH [of s1] Cons.prems by (meson list.set_intros(2))
  then show ?case using s1 by auto
qed simp

lemma diffTrees_ids:
  "walkIDs R r n local pre = Inr L \<Longrightarrow> walkIDs R r n base pre = Inr B \<Longrightarrow> wf_walk R r n local \<Longrightarrow> wf_walk R r n base \<Longrightarrow>
   \<exists>s'. diffTrees tx p R r n local base pre s = Inr s' \<and> set s' = set s \<union> protected_diff tx p (set L) (set B)"
proof (induction n arbitrary: local base pre L B s)
  case (Suc n)
  let ?ids = "ids_of R r n pre" and ?pd = "protected_diff tx p"
  obtain les where les: "ReadTree R r local = Inr les" "\<And>e. e \<in> set les \<Longrightarrow> \<exists>gs. entryIDs (walkIDs R r n) pre e = Inr gs"
    "set L = (\<Union>e \<in> set les. ?ids (Some e))" using Suc.prems(1) by (rule walkIDs_entries) blast
  obtain bes where bes: "ReadTree R r base = Inr bes" "\<And>e. e \<in> set bes \<Longrightarrow> \<exists>gs. entryIDs (walkIDs R r n) pre e = Inr gs"
    "set B = (\<Union>e \<in> set bes. ?ids (Some e))" using Suc.prems(2) by (rule walkIDs_entries) blast
  note wl = wf_walk_entries [OF Suc.prems(3) les(1)] and wb = wf_walk_entries [OF Suc.prems(4) bes(1)]
  let ?side = "collectSide (collectTree tx p R r n) tx p pre" and ?f = "by_name bes"
  define I where "I past st \<longleftrightarrow> fst st = (\<lambda>nm. if nm \<in> te_Name ` set past then None else ?f nm) \<and>
      set (snd st) = set s \<union> (\<Union>le \<in> set past. ?pd (?ids (Some le)) (?ids (?f (te_Name le))))" for past :: "TreeEntry list" and st
  have "\<exists>st. foldR (diffEntry (diffTrees tx p R r n) ?side pre) les (?f, s) = Inr st \<and> I les st"
  proof (rule foldR_invariant)
    show "I [] (?f, s)" by (simp add: I_def)
    fix past le todo st assume split: "les = past @ le # todo" and inv: "I past st"
    obtain m t where st: "st = (m, t)" by (cases st)
    have mem: "le \<in> set les" using split by simp
    have fresh: "te_Name le \<notin> te_Name ` set past" using wl(1) split by auto
    then have m: "m (te_Name le) = ?f (te_Name le)" using inv st by (simp add: I_def)
    obtain fl where fl: "entryIDs (walkIDs R r n) pre le = Inr fl" using les(2) mem by blast
    have "\<exists>t'. diffEntry (diffTrees tx p R r n) ?side pre le (m, t) = Inr (m(te_Name le := None), t') \<and>
        set t' = set t \<union> ?pd (?ids (Some le)) (?ids (m (te_Name le)))"
    proof (rule diffEntry_step [OF Suc.IH fl wl(3) [OF mem]])
      fix be assume "m (te_Name le) = Some be"
      then have "be \<in> set bes" "te_Name be = te_Name le" using by_name_Some [OF wb(1)] m by auto
      then show "te_Name be = te_Name le \<and> (\<exists>fb. entryIDs (walkIDs R r n) pre be = Inr fb) \<and>
          (te_Mode be = ModeTree \<longrightarrow> wf_walk R r n (te_ID be))" using bes(2) wb(3) by blast
    qed
    then obtain t' where t': "diffEntry (diffTrees tx p R r n) ?side pre le st = Inr (m(te_Name le := None), t')"
      "set t' = set t \<union> ?pd (?ids (Some le)) (?ids (?f (te_Name le)))" using st m by auto
    have "I (past @ [le]) (m(te_Name le := None), t')"
      using inv st t'(2) by (auto simp: I_def fun_eq_iff)
    then show "\<exists>st'. diffEntry (diffTrees tx p R r n) ?side pre le st = Inr st' \<and> I (past @ [le]) st'"
      using t'(1) by blast
  qed
  then obtain rest t where loop: "foldR (diffEntry (diffTrees tx p R r n) ?side pre) les (?f, s) = Inr (rest, t)"
    and inv: "I les (rest, t)" by (metis surj_pair)
  have rest: "rest = (\<lambda>nm. if nm \<in> te_Name ` set les then None else ?f nm)"
    and t: "set t = set s \<union> (\<Union>le \<in> set les. ?pd (?ids (Some le)) (?ids (?f (te_Name le))))"
    using inv by (simp_all add: I_def)
  have "\<exists>t'. foldR (\<lambda>nm s. case rest nm of None \<Rightarrow> Inr s | Some e \<Rightarrow> ?side e s) (left_names rest bes) t = Inr t' \<and>
      set t' = set t \<union> (\<Union>nm \<in> set (left_names rest bes). ?pd {} (?ids (rest nm)))"
  proof (rule foldR_leftover)
    fix nm e assume "nm \<in> set (left_names rest bes)" "rest nm = Some e"
    then have "?f nm = Some e" by (auto simp: rest split: if_splits)
    then show "\<exists>fs. entryIDs (walkIDs R r n) pre e = Inr fs" using by_name_Some [OF wb(1)] bes(2) by blast
  qed
  then obtain t' where t': "foldR (\<lambda>nm s. case rest nm of None \<Rightarrow> Inr s | Some e \<Rightarrow> ?side e s) (left_names rest bes) t = Inr t'"
    "set t' = set t \<union> (\<Union>nm \<in> set (left_names rest bes). ?pd {} (?ids (rest nm)))" by blast
  have run: "diffTrees tx p R r (Suc n) local base pre s = Inr t'"
    using les(1) bes(1) loop t'(1) by (simp add: readTreeAt_def by_name_def [symmetric] Let_def)
  let ?g = "by_name les"
  have "?pd (set L) (set B) = (\<Union>nm. ?pd (?ids (?g nm)) (?ids (?f nm)))"
    unfolding les(3) bes(3) ids_by_name [OF wl(1)] ids_by_name [OF wb(1)]
  proof (rule protected_diff_by_name [where T = "\<lambda>nm q. under (pre @ nm) q \<and> CHR ''/'' \<notin> set nm"])
    fix nm q i assume "(q, i) \<in> ?ids (?g nm) \<union> ?ids (?f nm)"
    then obtain e where e: "?g nm = Some e \<or> ?f nm = Some e" "(q, i) \<in> ?ids (Some e)"
      by (cases "?g nm"; cases "?f nm") auto
    then have "te_Name e = nm" "CHR ''/'' \<notin> set (te_Name e)"
      using by_name_Some [OF wl(1)] by_name_Some [OF wb(1)] wl(2) wb(2) by blast+
    then show "under (pre @ nm) q \<and> CHR ''/'' \<notin> set nm" using ids_of_under [OF e(2)] by simp
  qed (use under_name_unique in blast)
  also have "\<dots> = (\<Union>nm \<in> te_Name ` set les. ?pd (?ids (?g nm)) (?ids (?f nm))) \<union>
      (\<Union>nm \<in> - te_Name ` set les. ?pd (?ids (?g nm)) (?ids (?f nm)))" by blast
  also have "(\<Union>nm \<in> te_Name ` set les. ?pd (?ids (?g nm)) (?ids (?f nm))) =
      (\<Union>le \<in> set les. ?pd (?ids (Some le)) (?ids (?f (te_Name le))))"
  proof -
    have "?g (te_Name le) = Some le" if "le \<in> set les" for le using by_name_Some [OF wl(1)] that by simp
    then show ?thesis by simp
  qed
  also have "(\<Union>nm \<in> - te_Name ` set les. ?pd (?ids (?g nm)) (?ids (?f nm))) =
      (\<Union>nm \<in> set (left_names rest bes). ?pd {} (?ids (rest nm)))"
  proof -
    have val: "?pd (?ids (?g nm)) (?ids (?f nm)) = (if nm \<in> set (left_names rest bes) then ?pd {} (?ids (rest nm)) else {})"
      if "nm \<notin> te_Name ` set les" for nm
    proof -
      have "?g nm = None" using by_name_None [OF wl(1)] that by simp
      moreover have "rest nm = ?f nm" using that by (simp add: rest)
      moreover have "?f nm = None" if "nm \<notin> set (left_names rest bes)"
        using that \<open>rest nm = ?f nm\<close> by_name_None [OF wb(1)] by (auto simp: left_names_set)
      ultimately show ?thesis by auto
    qed
    have sub: "set (left_names rest bes) \<subseteq> - te_Name ` set les" by (auto simp: left_names_set rest)
    have "(\<Union>nm \<in> - te_Name ` set les. ?pd (?ids (?g nm)) (?ids (?f nm))) =
        (\<Union>nm \<in> - te_Name ` set les. if nm \<in> set (left_names rest bes) then ?pd {} (?ids (rest nm)) else {})"
      by (intro SUP_cong refl) (simp add: val)
    also have "\<dots> = (\<Union>nm \<in> set (left_names rest bes). ?pd {} (?ids (rest nm)))" using sub by auto
    finally show ?thesis .
  qed
  finally have total: "?pd (set L) (set B) = (\<Union>le \<in> set les. ?pd (?ids (Some le)) (?ids (?f (te_Name le)))) \<union>
      (\<Union>nm \<in> set (left_names rest bes). ?pd {} (?ids (rest nm)))" .
  have "set t' = set s \<union> ?pd (set L) (set B)" unfolding total t'(2) t by (rule Un_assoc)
  with run show ?case by (intro exI conjI)
qed simp

lemma ChangedProtected_ids:
  assumes "walkIDs R r n local [] = Inr L" "walkIDs R r n base [] = Inr B" "wf_walk R r n local" "wf_walk R r n base"
  shows "\<exists>changed. ChangedProtected tx p R r n local base = Inr changed \<and>
    set changed = (if Configured p then protected_diff tx p (set L) (set B) else {})"
proof -
  obtain s' where "diffTrees tx p R r n local base [] [] = Inr s'" "set s' = protected_diff tx p (set L) (set B)"
    using diffTrees_ids [OF assms, of tx p "[]"] by auto
  moreover have "L = B" if "local = base" using that assms(1,2) by simp
  ultimately show ?thesis by (cases "local = base") (auto simp: ChangedProtected_def)
qed

section \<open>Covered reads are exact\<close>

text \<open>Case folding works rune by rune and leaves the separator alone.\<close>

locale path_folding =
  fixes tx :: text_lib
  assumes fold_slash: "case_Fold tx (a @ CHR ''/'' # b) = case_Fold tx a @ CHR ''/'' # case_Fold tx b"
begin

lemma fold_ancestor: "isEntryAncestor (case_Fold tx d) (case_Fold tx (d @ ''/'' @ x))"
  by (simp add: isEntryAncestor_iff fold_slash)

lemma Covers_below:
  assumes "length (es_entries s) = length (es_folded s)" "Covers tx s d"
  shows "Covers tx s (d @ ''/'' @ x)"
proof -
  obtain e where e: "e \<in> set (es_folded s)" "entry_matches e (case_Fold tx d)"
    using assms(2) unfolding Covers_iff [OF assms(1)] by blast
  have "entry_matches (case_Fold tx d) (case_Fold tx (d @ ''/'' @ x))" using fold_ancestor by (simp add: entry_matches_def)
  then have "entry_matches e (case_Fold tx (d @ ''/'' @ x))"
    using e(2) ancestor_matches by (auto simp: entry_matches_def [of e "case_Fold tx d"])
  then show ?thesis using e(1) unfolding Covers_iff [OF assms(1)] by blast
qed

lemma not_Covers_below:
  assumes len: "length (es_entries s) = length (es_folded s)" and "\<not> Covers tx s d" "\<not> hasEntryBelow tx s d"
  shows "\<not> Covers tx s (d @ ''/'' @ x)"
proof
  assume "Covers tx s (d @ ''/'' @ x)"
  then obtain e where e: "e \<in> set (es_folded s)" "entry_matches e (case_Fold tx (d @ ''/'' @ x))"
    unfolding Covers_iff [OF len] by blast
  have d: "entry_matches (case_Fold tx d) (case_Fold tx (d @ ''/'' @ x))" using fold_ancestor by (simp add: entry_matches_def)
  have "e = case_Fold tx d \<or> isEntryAncestor e (case_Fold tx d) \<or> isEntryAncestor (case_Fold tx d) e"
    using matches_chain [OF e(2) d] matches_chain [OF d e(2)] nat_le_linear by blast
  then show False
    using assms(2,3) e(1) unfolding Covers_iff [OF len] hasEntryBelow_def list_ex_iff entry_matches_def by blast
qed

end

lemma walkTree_prefix: "walkTree R r n tree pre = Inr fs \<Longrightarrow> f \<in> set fs \<Longrightarrow> prefix pre (f_Path f)"
proof (induction n arbitrary: tree pre fs)
  case (Suc n)
  then obtain es fss where m: "mapR (walkEntry (walkTree R r n) R r pre) es = Inr fss" "fs = concat fss"
    by (auto simp: bindR_eq_Inr)
  then obtain e gs where e: "walkEntry (walkTree R r n) R r pre e = Inr gs" "f \<in> set gs"
    using Suc.prems(2) mapR_origin [OF m(1)] by fastforce
  then show ?case
    using Suc.IH [of "te_ID e" "pre @ te_Name e @ ''/''" gs] prefix_order.trans [of pre "pre @ te_Name e @ ''/''" "f_Path f"]
    by (auto simp: walkEntry_def Let_def bindR_eq_Inr split: if_splits)
qed simp

lemma mapR_filter:
  assumes "mapR f xs = Inr yss" "\<And>x ys. x \<in> set xs \<Longrightarrow> f x = Inr ys \<Longrightarrow> g x = Inr (filter P ys)"
  shows "\<exists>zss. mapR g xs = Inr zss \<and> concat zss = filter P (concat yss)"
  using assms
proof (induction xs arbitrary: yss)
  case (Cons x xs)
  then obtain ys rest where "f x = Inr ys" "mapR f xs = Inr rest" "yss = ys # rest" by (auto simp: bindR_eq_Inr)
  moreover then obtain zss where "mapR g xs = Inr zss" "concat zss = filter P (concat rest)"
    using Cons.IH Cons.prems(2) by (meson list.set_intros(2))
  ultimately show ?case using Cons.prems(2) [of x ys] by simp
qed simp

context path_folding
begin

lemma walkCovered_filter:
  assumes len: "length (es_entries s) = length (es_folded s)"
  shows "walkTree R r n tree pre = Inr fs \<Longrightarrow> (inside \<Longrightarrow> \<forall>x. Covers tx s (pre @ x)) \<Longrightarrow>
    walkCovered tx s R r n tree pre inside = Inr (filter (\<lambda>f. Covers tx s (f_Path f)) fs)"
proof (induction n arbitrary: tree pre fs inside)
  case (Suc n)
  then obtain es fss where m: "ReadTree R r tree = Inr es" "mapR (walkEntry (walkTree R r n) R r pre) es = Inr fss" "fs = concat fss"
    by (auto simp: bindR_eq_Inr unreadable_def)
  have "walkCoveredEntry (walkCovered tx s R r n) tx s R r pre inside e = Inr (filter (\<lambda>f. Covers tx s (f_Path f)) gs)"
    if we: "walkEntry (walkTree R r n) R r pre e = Inr gs" for e gs
  proof (cases "te_Mode e = ModeTree")
    case True
    let ?path = "pre @ te_Name e"
    have sub: "walkTree R r n (te_ID e) (?path @ ''/'') = Inr gs" using we True by (simp add: walkEntry_def)
    have cov: "inside \<or> Covers tx s ?path \<longleftrightarrow> Covers tx s ?path" using Suc.prems(2) by blast
    show ?thesis
    proof (cases "\<not> Covers tx s ?path \<and> \<not> hasEntryBelow tx s ?path")
      case skip: True
      have "\<not> Covers tx s (f_Path f)" if f: "f \<in> set gs" for f
      proof -
        obtain x where "f_Path f = ?path @ ''/'' @ x"
          using walkTree_prefix [OF sub f] by (auto simp: prefix_def)
        then show ?thesis using not_Covers_below [OF len, of ?path x] skip by simp
      qed
      then show ?thesis using True skip cov by (simp add: walkCoveredEntry_def)
    next
      case False
      have "\<forall>x. Covers tx s ((?path @ ''/'') @ x)" if "Covers tx s ?path"
        using Covers_below [OF len that] by simp
      then show ?thesis
        using True False cov Suc.IH [OF sub, of "Covers tx s ?path"] by (auto simp: walkCoveredEntry_def Let_def)
    qed
  next
    case False
    then obtain d where "te_Mode e = ModeBlob" "ReadBlob R r (te_ID e) = Inr d" "gs = [\<lparr>f_Path = pre @ te_Name e, f_Data = d\<rparr>]"
      using we by (auto simp: walkEntry_def Let_def bindR_eq_Inr unreadable_def split: if_splits)
    then show ?thesis using Suc.prems(2) by (auto simp: walkCoveredEntry_def Let_def)
  qed
  then obtain zss where "mapR (walkCoveredEntry (walkCovered tx s R r n) tx s R r pre inside) es = Inr zss"
    "concat zss = filter (\<lambda>f. Covers tx s (f_Path f)) (concat fss)"
    using mapR_filter [OF m(2), of "walkCoveredEntry (walkCovered tx s R r n) tx s R r pre inside"] by blast
  then show ?case using m by simp
qed simp

lemma valid_snapshot_filter: "valid_snapshot tx snap \<Longrightarrow> valid_snapshot tx (filter P snap)"
  by (auto simp: valid_snapshot_def distinct_map_filter)

lemma ReadCovered_filter:
  assumes "length (es_entries s) = length (es_folded s)" "ReadSnapshot tx R r n tree = Inr snap"
  shows "ReadCovered tx s R r n tree = Inr (filter (\<lambda>f. Covers tx s (f_Path f)) snap)"
proof (cases "es_entries s = []")
  case True
  then show ?thesis by (simp add: ReadCovered_def Covers_empty)
next
  case False
  obtain fs where fs: "walkTree R r n tree [] = Inr fs" "snap = sort_key f_Path fs" "valid_snapshot tx snap"
    using assms(2) by (auto simp: ReadSnapshot_def bindR_eq_Inr Let_def ValidateSnapshot_iff)
  have "walkCovered tx s R r n tree [] False = Inr (filter (\<lambda>f. Covers tx s (f_Path f)) fs)"
    by (rule walkCovered_filter [OF assms(1) fs(1)]) simp
  moreover have "sort_key f_Path (filter (\<lambda>f. Covers tx s (f_Path f)) fs) = filter (\<lambda>f. Covers tx s (f_Path f)) snap"
    by (simp add: fs(2) filter_sort)
  moreover have "ValidateSnapshot tx (filter (\<lambda>f. Covers tx s (f_Path f)) snap) = Inr ()"
    unfolding ValidateSnapshot_iff using fs(3) by (rule valid_snapshot_filter)
  ultimately show ?thesis using False by (simp add: ReadCovered_def Let_def)
qed

end

interpretation ascii_folding: path_folding ascii_text
  by unfold_locales (simp add: ascii_text_def ascii_lower_def)

end
