(* ===== verification/TreeRestore.thy ===== *)
theory TreeRestore
  imports TreePolicy
begin

text \<open>
  What restoring protected paths achieves: the paths \<open>ChangedProtected\<close> reports, put back by
  \<open>RestoreProtected\<close>, give a snapshot that agrees with the base on every protected path and with
  the local snapshot on every path outside the reported ones (\<open>restore_agrees\<close>).
\<close>

section \<open>Walks by content and by ID\<close>

definition blob_pairs :: "'r Repository \<Rightarrow> 'r \<Rightarrow> Snapshot \<Rightarrow> (bytes \<times> oid) list \<Rightarrow> bool" where
  "blob_pairs R r fs ids \<longleftrightarrow> list_all2 (\<lambda>f (q, i). f_Path f = q \<and> ReadBlob R r i = Inr (f_Data f)) fs ids"

lemma mapR_blob_pairs:
  assumes "mapR f es = Inr fss" "\<And>e fs. e \<in> set es \<Longrightarrow> f e = Inr fs \<Longrightarrow> \<exists>ids. g e = Inr ids \<and> blob_pairs R r fs ids"
  shows "\<exists>idss. mapR g es = Inr idss \<and> blob_pairs R r (concat fss) (concat idss)"
  using assms
proof (induction es arbitrary: fss)
  case (Cons e es)
  then obtain fs rest where fs: "f e = Inr fs" "mapR f es = Inr rest" "fss = fs # rest" by (auto simp: bindR_eq_Inr)
  obtain ids where "g e = Inr ids" "blob_pairs R r fs ids" using Cons.prems(2) fs(1) by (meson list.set_intros(1))
  moreover obtain idss where "mapR g es = Inr idss" "blob_pairs R r (concat rest) (concat idss)"
    using Cons.IH [OF fs(2)] Cons.prems(2) by (meson list.set_intros(2))
  ultimately show ?case using fs(3) by (simp add: blob_pairs_def list_all2_appendI)
qed (simp add: blob_pairs_def)

lemma walkTree_walkIDs:
  "walkTree R r n tree pre = Inr fs \<Longrightarrow> \<exists>ids. walkIDs R r n tree pre = Inr ids \<and> blob_pairs R r fs ids"
proof (induction n arbitrary: tree pre fs)
  case (Suc n)
  then obtain es fss where m: "ReadTree R r tree = Inr es" "mapR (walkEntry (walkTree R r n) R r pre) es = Inr fss" "fs = concat fss"
    by (auto simp: bindR_eq_Inr unreadable_def)
  have "\<exists>ids. entryIDs (walkIDs R r n) pre e = Inr ids \<and> blob_pairs R r gs ids"
    if "walkEntry (walkTree R r n) R r pre e = Inr gs" for e gs
    using that Suc.IH [of "te_ID e" "pre @ te_Name e @ ''/''" gs]
    by (auto simp: walkEntry_def entryIDs_def Let_def bindR_eq_Inr unreadable_def blob_pairs_def split: if_splits)
  then obtain idss where "mapR (entryIDs (walkIDs R r n) pre) es = Inr idss" "blob_pairs R r (concat fss) (concat idss)"
    using mapR_blob_pairs [OF m(2), of "entryIDs (walkIDs R r n) pre" R r] by blast
  then show ?case using m by simp
qed simp

lemma blob_pairs_set:
  assumes "blob_pairs R r fs ids"
  shows "f \<in> set fs \<Longrightarrow> \<exists>i. (f_Path f, i) \<in> set ids \<and> ReadBlob R r i = Inr (f_Data f)"
    "(q, i) \<in> set ids \<Longrightarrow> \<exists>f \<in> set fs. f_Path f = q \<and> ReadBlob R r i = Inr (f_Data f)"
  using assms unfolding blob_pairs_def
  by (induction fs ids rule: list_all2_induct) auto

text \<open>Equal IDs at a path mean equal content there.\<close>

lemma same_ids_same_content:
  assumes "blob_pairs R r fl L" "blob_pairs R r fb B" "distinct (map f_Path fl)" "distinct (map f_Path fb)"
    "\<And>i. (q, i) \<in> set L \<longleftrightarrow> (q, i) \<in> set B"
  shows "snap_lookup fl q = snap_lookup fb q"
proof -
  have one: "snap_lookup b q = Some d"
    if h: "blob_pairs R r a A" "blob_pairs R r b B'" "distinct (map f_Path a)" "distinct (map f_Path b)"
      "\<And>i. (q, i) \<in> set A \<Longrightarrow> (q, i) \<in> set B'" "snap_lookup a q = Some d" for a b A B' d
  proof -
    obtain f where f: "f \<in> set a" "f_Path f = q" "f_Data f = d"
      using h(3,6) by (auto simp: snap_lookup_Some)
    obtain i where i: "(q, i) \<in> set A" "ReadBlob R r i = Inr d" using blob_pairs_set(1) [OF h(1) f(1)] f by auto
    obtain g where "g \<in> set b" "f_Path g = q" "ReadBlob R r i = Inr (f_Data g)"
      using blob_pairs_set(2) [OF h(2)] h(5) [OF i(1)] by blast
    then show ?thesis using i(2) h(4) by (auto simp: snap_lookup_Some)
  qed
  show ?thesis
  proof (cases "snap_lookup fl q")
    case (Some d)
    then show ?thesis using one [OF assms(1-4)] assms(5) by simp
  next
    case None
    then show ?thesis
      using one [OF assms(2,1,4,3)] assms(5) by (cases "snap_lookup fb q") auto
  qed
qed

section \<open>Reading one path\<close>

definition entry_files :: "'r Repository \<Rightarrow> 'r \<Rightarrow> nat \<Rightarrow> bytes \<Rightarrow> TreeEntry \<Rightarrow> Snapshot" where
  "entry_files R r n pre e = (case walkEntry (walkTree R r n) R r pre e of Inl _ \<Rightarrow> [] | Inr fs \<Rightarrow> fs)"

lemma walkTree_entries:
  assumes "walkTree R r (Suc n) tree pre = Inr fs"
  obtains es where "ReadTree R r tree = Inr es" "fs = concat (map (entry_files R r n pre) es)"
    "\<And>e. e \<in> set es \<Longrightarrow> walkEntry (walkTree R r n) R r pre e = Inr (entry_files R r n pre e)"
proof -
  obtain es fss where m: "ReadTree R r tree = Inr es" "mapR (walkEntry (walkTree R r n) R r pre) es = Inr fss" "fs = concat fss"
    using assms by (auto simp: bindR_eq_Inr unreadable_def)
  have ok: "walkEntry (walkTree R r n) R r pre e = Inr (entry_files R r n pre e)" if "e \<in> set es" for e
    using mapR_pick [OF m(2) that] by (auto simp: entry_files_def)
  then have "fss = map (entry_files R r n pre) es"
    using mapR_all_Inr [of es "walkEntry (walkTree R r n) R r pre" "entry_files R r n pre"] m(2) by simp
  then show thesis using that m ok by simp
qed

lemma entry_files_under:
  assumes "walkEntry (walkTree R r n) R r pre e = Inr fs" "f \<in> set fs"
  shows "te_Mode e = ModeBlob \<and> f_Path f = pre @ te_Name e \<or>
    te_Mode e = ModeTree \<and> prefix ((pre @ te_Name e) @ ''/'') (f_Path f)"
  using assms walkTree_prefix [of R r n "te_ID e" "pre @ te_Name e @ ''/''" fs f]
  by (auto simp: walkEntry_def Let_def bindR_eq_Inr split: if_splits)

lemma snap_lookup_concat_None:
  "(\<And>x. x \<in> set xs \<Longrightarrow> snap_lookup (g x) q = None) \<Longrightarrow> snap_lookup (concat (map g xs)) q = None"
  by (induction xs) (auto simp: snap_lookup_append, simp add: snap_lookup_def)

lemma snap_lookup_concat_one:
  "distinct xs \<Longrightarrow> x \<in> set xs \<Longrightarrow> (\<And>y. y \<in> set xs \<Longrightarrow> y \<noteq> x \<Longrightarrow> snap_lookup (g y) q = None) \<Longrightarrow>
   snap_lookup (concat (map g xs)) q = snap_lookup (g x) q"
proof (induction xs)
  case (Cons y ys)
  show ?case
  proof (cases "y = x")
    case True
    then have "snap_lookup (concat (map g ys)) q = None"
      using Cons.prems by (intro snap_lookup_concat_None) auto
    then show ?thesis using True by (auto simp: snap_lookup_append split: option.splits)
  next
    case False
    then show ?thesis using Cons by (auto simp: snap_lookup_append)
  qed
qed simp

lemma SplitOn_cases:
  obtains "SplitOn c q = [q]" "c \<notin> set q"
  | seg rest where "q = seg @ c # rest" "c \<notin> set seg" "SplitOn c q = seg # SplitOn c rest"
proof (cases "c \<in> set q")
  case True
  then obtain seg rest where "q = seg @ c # rest" "c \<notin> set seg" by (meson split_list_first)
  then show thesis using that(2) SplitOn_append by metis
next
  case False
  then show thesis using that(1) SplitOn_single by metis
qed

lemma findEntry_Some:
  "distinct (map te_Name es) \<Longrightarrow> findEntry es nm = Some e \<longleftrightarrow> e \<in> set es \<and> te_Name e = nm"
  unfolding findEntry_def by (induction es) (auto simp: image_iff)

lemma findEntry_None: "findEntry es nm = None \<longleftrightarrow> nm \<notin> te_Name ` set es"
  by (auto simp: findEntry_def find_None_iff)

lemma other_entry_None:
  assumes "walkEntry (walkTree R r n) R r pre e = Inr fs" "CHR ''/'' \<notin> set (te_Name e)" "CHR ''/'' \<notin> set seg"
    "te_Name e \<noteq> seg" "under (pre @ seg) q"
  shows "snap_lookup fs q = None"
proof -
  have "f_Path f \<noteq> q" if f: "f \<in> set fs" for f
  proof
    assume "f_Path f = q"
    then have "under (pre @ te_Name e) q" using entry_files_under [OF assms(1) f] by (auto simp: under_def)
    then show False using under_name_unique [OF _ assms(5)] assms(2-4) by blast
  qed
  then show ?thesis by (auto simp: snap_lookup_None)
qed

text \<open>Following the segments of a path finds what the complete walk finds.\<close>

lemma readBlobSegs_lookup:
  "walkTree R r n tree pre = Inr fs \<Longrightarrow> wf_walk R r n tree \<Longrightarrow>
   readBlobSegs R r tree (SplitOn (CHR ''/'') q) = Inr (snap_lookup fs (pre @ q))"
proof (induction n arbitrary: tree pre fs q)
  case (Suc n)
  obtain es where es: "ReadTree R r tree = Inr es" "fs = concat (map (entry_files R r n pre) es)"
    and ok: "\<And>e. e \<in> set es \<Longrightarrow> walkEntry (walkTree R r n) R r pre e = Inr (entry_files R r n pre e)"
    using Suc.prems(1) by (rule walkTree_entries) blast
  note wf = wf_walk_entries [OF Suc.prems(2) es(1)]
  define seg where "seg = hd (SplitOn (CHR ''/'') q)"
  have und: "under (pre @ seg) (pre @ q)" and noslash: "CHR ''/'' \<notin> set seg"
    by (rule SplitOn_cases [of "CHR ''/''" q]; simp add: seg_def under_def)+
  have other: "snap_lookup (entry_files R r n pre e) (pre @ q) = None" if "e \<in> set es" "te_Name e \<noteq> seg" for e
    using other_entry_None [OF ok [OF that(1)] wf(2) [OF that(1)] noslash that(2) und] .
  show ?case
  proof (cases "findEntry es seg")
    case None
    then have "\<And>e. e \<in> set es \<Longrightarrow> te_Name e \<noteq> seg" by (auto simp: findEntry_None)
    then have "snap_lookup fs (pre @ q) = None" unfolding es(2) using other by (intro snap_lookup_concat_None) blast
    then show ?thesis using None es(1) by (cases "SplitOn (CHR ''/'') q") (simp_all add: seg_def readTreeAt_def)
  next
    case (Some e)
    then have e: "e \<in> set es" "te_Name e = seg" using findEntry_Some [OF wf(1)] by auto
    have "te_Name x \<noteq> seg" if "x \<in> set es" "x \<noteq> e" for x
      using that e wf(1) by (auto simp: distinct_map inj_on_def)
    then have look: "snap_lookup fs (pre @ q) = snap_lookup (entry_files R r n pre e) (pre @ q)"
      unfolding es(2) using other e wf(1) by (intro snap_lookup_concat_one) (auto simp: distinct_map)
    note oke = ok [OF e(1)]
    show ?thesis
    proof (rule SplitOn_cases [of "CHR ''/''" q])
      assume q: "SplitOn (CHR ''/'') q = [q]" "CHR ''/'' \<notin> set q"
      then have sq: "seg = q" by (simp add: seg_def)
      show ?thesis
      proof (cases "te_Mode e = ModeBlob")
        case True
        then obtain d where "ReadBlob R r (te_ID e) = Inr d" "entry_files R r n pre e = [\<lparr>f_Path = pre @ q, f_Data = d\<rparr>]"
          using oke e(2) sq by (auto simp: walkEntry_def Let_def bindR_eq_Inr unreadable_def)
        then show ?thesis using True Some es(1) q sq look by (simp add: readTreeAt_def snap_lookup_def)
      next
        case False
        then have "snap_lookup (entry_files R r n pre e) (pre @ q) = None"
          using entry_files_under [OF oke] e(2) sq by (fastforce simp: snap_lookup_None prefix_def)
        then show ?thesis using False Some es(1) q sq look by (simp add: readTreeAt_def)
      qed
    next
      fix s rest assume q: "q = s @ CHR ''/'' # rest" "CHR ''/'' \<notin> set s" "SplitOn (CHR ''/'') q = s # SplitOn (CHR ''/'') rest"
      then have sq: "s = seg" by (simp add: seg_def)
      show ?thesis
      proof (cases "te_Mode e = ModeTree")
        case True
        then have "walkTree R r n (te_ID e) (pre @ seg @ ''/'') = Inr (entry_files R r n pre e)"
          using oke e(2) by (simp add: walkEntry_def)
        then have "readBlobSegs R r (te_ID e) (SplitOn (CHR ''/'') rest) = Inr (snap_lookup fs (pre @ q))"
          using Suc.IH [of "te_ID e" "pre @ seg @ ''/''" _ rest] wf(3) [OF e(1) True] look q(1) sq by simp
        then show ?thesis using True Some es(1) q(3) sq by (simp add: readTreeAt_def)
      next
        case False
        then have "snap_lookup (entry_files R r n pre e) (pre @ q) = None"
          using entry_files_under [OF oke] e(2) sq q(1) by (fastforce simp: snap_lookup_None)
        then show ?thesis using False Some es(1) q(3) sq look by (simp add: readTreeAt_def)
      qed
    qed
  qed
qed simp

section \<open>Restoration agrees with the base\<close>

lemma ReadSnapshot_walk:
  assumes "ReadSnapshot tx R r n tree = Inr snap"
  obtains fs where "walkTree R r n tree [] = Inr fs" "mset fs = mset snap" "valid_snapshot tx snap"
    "distinct (map f_Path fs)" "snap_lookup fs = snap_lookup snap"
proof -
  obtain fs where fs: "walkTree R r n tree [] = Inr fs" "snap = sort_key f_Path fs" "valid_snapshot tx snap"
    using assms by (auto simp: ReadSnapshot_def bindR_eq_Inr Let_def ValidateSnapshot_iff)
  have m: "mset fs = mset snap" by (simp add: fs(2))
  have d: "distinct (map f_Path fs)"
    using valid_snapshot_distinct_paths [OF fs(3)] m by (metis mset_eq_imp_distinct_iff mset_map)
  show thesis using that [OF fs(1) m fs(3) d snap_lookup_mset [OF d m]] .
qed

definition restored_list :: "(bytes \<rightharpoonup> bytes) \<Rightarrow> bytes list \<Rightarrow> Snapshot" where
  "restored_list B changed =
     concat (map (\<lambda>q. case B q of None \<Rightarrow> [] | Some d \<Rightarrow> [\<lparr>f_Path = q, f_Data = d\<rparr>]) changed)"

lemma restored_list_lookup: "snap_lookup (restored_list B changed) q = (if q \<in> set changed then B q else None)"
proof (induction changed)
  case (Cons c cs)
  have "restored_list B (c # cs) = (case B c of None \<Rightarrow> [] | Some d \<Rightarrow> [\<lparr>f_Path = c, f_Data = d\<rparr>]) @ restored_list B cs"
    by (simp add: restored_list_def)
  then show ?case using Cons
    by (auto simp: snap_lookup_append snap_lookup_def [of "[]"] snap_lookup_def [of "[_]"] split: option.splits)
qed (simp add: restored_list_def snap_lookup_def)

lemma restoredFiles_list:
  assumes "\<And>q. readBlobAt R r base q = Inr (B q)"
  shows "restoredFiles R r base changed = Inr (restored_list B changed)"
proof -
  have "mapR (\<lambda>path. bindR (readBlobAt R r base path) (\<lambda>d.
      Inr (case d of None \<Rightarrow> [] | Some data \<Rightarrow> [\<lparr>f_Path = path, f_Data = data\<rparr>]))) changed =
    Inr (map (\<lambda>q. case B q of None \<Rightarrow> [] | Some d \<Rightarrow> [\<lparr>f_Path = q, f_Data = d\<rparr>]) changed)"
    by (rule mapR_all_Inr) (simp add: assms)
  then show ?thesis by (simp add: restoredFiles_def restored_list_def)
qed

lemma namedOrUnder_iff: "namedOrUnder q names \<longleftrightarrow> (\<exists>c \<in> set names. under c q)"
  by (simp add: namedOrUnder_def list_ex_iff under_def HasPrefix_iff)

lemma RestoreProtected_lookup:
  assumes "\<And>q. readBlobAt R r base q = Inr (B q)" "distinct (map f_Path local)"
    "RestoreProtected tx R r base local changed = Inr S"
  shows "snap_lookup S q =
    (if q \<in> set changed then B q else if namedOrUnder q changed then None else snap_lookup local q)"
proof (cases "changed = []")
  case True
  then show ?thesis using assms(3) by (simp add: RestoreProtected_def namedOrUnder_def)
next
  case False
  let ?fs = "filter (\<lambda>f. \<not> namedOrUnder (f_Path f) changed) local @ restored_list B changed"
  have S: "S = sort_key f_Path ?fs" "valid_snapshot tx S"
    using assms(3) False by (auto simp: RestoreProtected_def restoredFiles_list [OF assms(1)] Let_def bindR_eq_Inr ValidateSnapshot_iff)
  have m: "mset S = mset ?fs" by (simp add: S(1))
  have "snap_lookup S = snap_lookup ?fs"
    by (rule snap_lookup_mset [OF valid_snapshot_distinct_paths [OF S(2)] m])
  moreover have "namedOrUnder q changed" if "q \<in> set changed" using that by (auto simp: namedOrUnder_iff under_def)
  ultimately show ?thesis
    by (auto simp: snap_lookup_append restored_list_lookup
        snap_lookup_filter [where P = "\<lambda>p. \<not> namedOrUnder p changed"] split: option.splits)
qed

lemma valid_snapshot_no_dir:
  "valid_snapshot tx snap \<Longrightarrow> a \<in> f_Path ` set snap \<Longrightarrow> b \<in> f_Path ` set snap \<Longrightarrow> \<not> prefix (a @ ''/'') b"
  by (auto simp: valid_snapshot_def)

lemma restore_agrees:
  assumes L: "ReadSnapshot tx R r n local = Inr ls" "wf_walk R r n local"
    and B: "ReadSnapshot tx R r n base = Inr bs" "wf_walk R r n base"
    and ch: "ChangedProtected tx p R r n local base = Inr changed"
    and re: "RestoreProtected tx R r base ls changed = Inr S"
  shows "Protects tx p q \<Longrightarrow> snap_lookup S q = snap_lookup bs q"
    "\<not> namedOrUnder q changed \<Longrightarrow> snap_lookup S q = snap_lookup ls q"
proof -
  obtain fl where fl: "walkTree R r n local [] = Inr fl" "mset fl = mset ls" "valid_snapshot tx ls"
    "distinct (map f_Path fl)" "snap_lookup fl = snap_lookup ls" using ReadSnapshot_walk [OF L(1)] .
  obtain fb where fb: "walkTree R r n base [] = Inr fb" "mset fb = mset bs" "valid_snapshot tx bs"
    "distinct (map f_Path fb)" "snap_lookup fb = snap_lookup bs" using ReadSnapshot_walk [OF B(1)] .
  obtain li where li: "walkIDs R r n local [] = Inr li" "blob_pairs R r fl li" using walkTree_walkIDs [OF fl(1)] by blast
  obtain bi where bi: "walkIDs R r n base [] = Inr bi" "blob_pairs R r fb bi" using walkTree_walkIDs [OF fb(1)] by blast
  have changed: "set changed = (if Configured p then protected_diff tx p (set li) (set bi) else {})"
    using ChangedProtected_ids [OF li(1) bi(1) L(2) B(2), of tx p] ch by simp
  have read: "readBlobAt R r base q = Inr (snap_lookup bs q)" for q
    using readBlobSegs_lookup [OF fb(1) B(2), of q] fb(5) by (simp add: readBlobAt_def)
  note look = RestoreProtected_lookup [OF read valid_snapshot_distinct_paths [OF fl(3)] re]
  have files: "c \<in> f_Path ` set ls \<or> c \<in> f_Path ` set bs" if mem: "c \<in> set changed" for c
  proof -
    obtain i where "(c, i) \<in> set li \<or> (c, i) \<in> set bi"
      using mem unfolding changed by (auto simp: protected_diff_def split: if_splits)
    then have "c \<in> f_Path ` set fl \<or> c \<in> f_Path ` set fb"
      using blob_pairs_set(2) [OF li(2)] blob_pairs_set(2) [OF bi(2)] by blast
    then show ?thesis using mset_eq_setD [OF fl(2)] mset_eq_setD [OF fb(2)] by simp
  qed
  show "snap_lookup S q = snap_lookup ls q" if "\<not> namedOrUnder q changed"
    using look [of q] that by (auto simp: namedOrUnder_iff under_def)
  show "snap_lookup S q = snap_lookup bs q" if prot: "Protects tx p q"
  proof (cases "q \<in> set changed")
    case True
    then show ?thesis by (simp add: look)
  next
    case False
    have "Configured p" using prot unfolding Protects_def by (meson if_splits(1))
    then have "\<And>i. (q, i) \<in> set li \<longleftrightarrow> (q, i) \<in> set bi" using False prot unfolding changed by (auto simp: protected_diff_def)
    then have same: "snap_lookup ls q = snap_lookup bs q"
      using same_ids_same_content [OF li(2) bi(2) fl(4) fb(4)] fl(5) fb(5) by simp
    have "snap_lookup bs q = None" if under: "namedOrUnder q changed"
    proof (rule ccontr)
      assume some: "snap_lookup bs q \<noteq> None"
      then have both: "q \<in> f_Path ` set bs" "q \<in> f_Path ` set ls" using same by (metis snap_lookup_None)+
      obtain c where c: "c \<in> set changed" "prefix (c @ ''/'') q"
        using under False by (auto simp: namedOrUnder_iff under_def)
      show False
        using files [OF c(1)] both c(2) valid_snapshot_no_dir [OF fl(3)] valid_snapshot_no_dir [OF fb(3)] by blast
    qed
    then show ?thesis using False same by (simp add: look)
  qed
qed

section \<open>A stored pair of trees\<close>

text \<open>Two trees that differ in the protected file \<open>docs/x\<close>, for concrete inputs.\<close>

definition pair_store :: "gobject list" where
  "pair_store = [GBlob ''old'', GBlob ''new'',
     GTree [\<lparr>te_Name = ''x'', te_Mode = ModeBlob, te_ID = []\<rparr>],
     GTree [\<lparr>te_Name = ''x'', te_Mode = ModeBlob, te_ID = [1]\<rparr>],
     GTree [\<lparr>te_Name = ''docs'', te_Mode = ModeTree, te_ID = [1, 1]\<rparr>],
     GTree [\<lparr>te_Name = ''docs'', te_Mode = ModeTree, te_ID = [1, 1, 1]\<rparr>]]"

abbreviation pair_base :: oid where "pair_base \<equiv> [1, 1, 1, 1]"
abbreviation pair_local :: oid where "pair_local \<equiv> [1, 1, 1, 1, 1]"

lemma pair_reads:
  "ReadTree mem_repository pair_store pair_base = Inr [\<lparr>te_Name = ''docs'', te_Mode = ModeTree, te_ID = [1, 1]\<rparr>]"
  "ReadTree mem_repository pair_store pair_local = Inr [\<lparr>te_Name = ''docs'', te_Mode = ModeTree, te_ID = [1, 1, 1]\<rparr>]"
  "ReadTree mem_repository pair_store [1, 1] = Inr [\<lparr>te_Name = ''x'', te_Mode = ModeBlob, te_ID = []\<rparr>]"
  "ReadTree mem_repository pair_store [1, 1, 1] = Inr [\<lparr>te_Name = ''x'', te_Mode = ModeBlob, te_ID = [1]\<rparr>]"
  "ReadBlob mem_repository pair_store [] = Inr ''old''" "ReadBlob mem_repository pair_store [1] = Inr ''new''"
  by (simp_all add: mem_repository_def mem_get_def pair_store_def)

lemma pair_snapshots:
  "ReadSnapshot ascii_text mem_repository pair_store (Suc (Suc 0)) pair_base = Inr [\<lparr>f_Path = ''docs/x'', f_Data = ''old''\<rparr>]"
  "ReadSnapshot ascii_text mem_repository pair_store (Suc (Suc 0)) pair_local = Inr [\<lparr>f_Path = ''docs/x'', f_Data = ''new''\<rparr>]"
proof -
  have "ValidateSnapshot ascii_text [\<lparr>f_Path = ''docs/x'', f_Data = ''old''\<rparr>] = Inr ()"
    "ValidateSnapshot ascii_text [\<lparr>f_Path = ''docs/x'', f_Data = ''new''\<rparr>] = Inr ()"
    unfolding ValidateSnapshot_iff valid_snapshot_def valid_file_def by (simp_all add: path_eval sample_segments)
  then show
    "ReadSnapshot ascii_text mem_repository pair_store (Suc (Suc 0)) pair_base = Inr [\<lparr>f_Path = ''docs/x'', f_Data = ''old''\<rparr>]"
    "ReadSnapshot ascii_text mem_repository pair_store (Suc (Suc 0)) pair_local = Inr [\<lparr>f_Path = ''docs/x'', f_Data = ''new''\<rparr>]"
    by (simp_all add: ReadSnapshot_def pair_reads walkEntry_def unreadable_def)
qed

lemma pair_wf: "wf_walk mem_repository pair_store (Suc (Suc 0)) pair_base" "wf_walk mem_repository pair_store (Suc (Suc 0)) pair_local"
  by (simp_all add: pair_reads)

lemma pair_ids:
  "walkIDs mem_repository pair_store (Suc (Suc 0)) pair_base [] = Inr [(''docs/x'', [])]"
  "walkIDs mem_repository pair_store (Suc (Suc 0)) pair_local [] = Inr [(''docs/x'', [1])]"
  by (simp_all add: pair_reads entryIDs_def)

lemma pair_protects: "Protects ascii_text sample_policy ''docs/x''" "Configured sample_policy"
  by (simp_all add: Protects_def Configured_def covering_def sample_policy_def entry_matches_def isEntryAncestor_def
      HasPrefix_def ascii_text_def ascii_lower_def)

lemma pair_changed:
  "ChangedProtected ascii_text sample_policy mem_repository pair_store (Suc (Suc 0)) pair_local pair_base = Inr [''docs/x'']"
  by (simp add: ChangedProtected_def readTreeAt_def pair_reads pair_protects diffEntry_def collectSide_def appendUnique_def
      left_names_def)

lemma pair_restored:
  "RestoreProtected ascii_text mem_repository pair_store pair_base [\<lparr>f_Path = ''docs/x'', f_Data = ''new''\<rparr>] [''docs/x''] =
   Inr [\<lparr>f_Path = ''docs/x'', f_Data = ''old''\<rparr>]"
proof -
  have "ValidateSnapshot ascii_text [\<lparr>f_Path = ''docs/x'', f_Data = ''old''\<rparr>] = Inr ()"
    unfolding ValidateSnapshot_iff valid_snapshot_def valid_file_def by (simp add: path_eval sample_segments)
  then show ?thesis
    by (simp add: RestoreProtected_def restoredFiles_def readBlobAt_def readTreeAt_def pair_reads findEntry_def namedOrUnder_def)
qed

section \<open>Properties\<close>

text \<open>Detection is exact: for two stored trees, \<open>ChangedProtected\<close> reports a path exactly when it is
  protected and the trees hold different objects there, an added or removed file included.\<close>

theorem changed_protected_exact:
  assumes "walkIDs R r n local [] = Inr L" "walkIDs R r n base [] = Inr B" "wf_walk R r n local" "wf_walk R r n base"
    "Configured p"
  shows "\<exists>changed. ChangedProtected tx p R r n local base = Inr changed \<and>
    (\<forall>q. q \<in> set changed \<longleftrightarrow> Protects tx p q \<and> (\<exists>i. ((q, i) \<in> set L) \<noteq> ((q, i) \<in> set B)))"
  using ChangedProtected_ids [OF assms(1-4), of tx p] assms(5) by (auto simp: protected_diff_def)

theorem changed_protected_exact_witness:
  "\<exists>changed. ChangedProtected ascii_text sample_policy mem_repository pair_store (Suc (Suc 0)) pair_local pair_base = Inr changed \<and>
     ''docs/x'' \<in> set changed"
  using changed_protected_exact [OF pair_ids(2,1) pair_wf(2,1) pair_protects(2), of ascii_text] pair_protects(1) by auto

text \<open>C33: restoring the reported paths enforces the policy: the restored snapshot agrees with the base on
  every protected path and with the local snapshot everywhere outside the reported paths.\<close>

theorem restore_enforces_policy:
  assumes "ReadSnapshot tx R r n local = Inr ls" "wf_walk R r n local"
    "ReadSnapshot tx R r n base = Inr bs" "wf_walk R r n base"
    "ChangedProtected tx p R r n local base = Inr changed"
    "RestoreProtected tx R r base ls changed = Inr S"
  shows "(\<forall>q. Protects tx p q \<longrightarrow> snap_lookup S q = snap_lookup bs q) \<and>
    (\<forall>q. \<not> namedOrUnder q changed \<longrightarrow> snap_lookup S q = snap_lookup ls q)"
  using restore_agrees [OF assms] by blast

theorem restore_enforces_policy_witness:
  "Protects ascii_text sample_policy ''docs/x'' \<and>
   snap_lookup [\<lparr>f_Path = ''docs/x'', f_Data = ''old''\<rparr>] ''docs/x'' = Some ''old'' \<and>
   (\<exists>S. RestoreProtected ascii_text mem_repository pair_store pair_base [\<lparr>f_Path = ''docs/x'', f_Data = ''new''\<rparr>] [''docs/x''] = Inr S \<and>
     snap_lookup S ''docs/x'' = Some ''old'')"
proof -
  have old: "snap_lookup [\<lparr>f_Path = ''docs/x'', f_Data = ''old''\<rparr>] ''docs/x'' = Some ''old''" by (simp add: snap_lookup_def)
  then show ?thesis
    using restore_enforces_policy [OF pair_snapshots(2) pair_wf(2) pair_snapshots(1) pair_wf(1) pair_changed pair_restored]
      pair_protects(1) pair_restored by fastforce
qed

text \<open>Reading only the covered files of a tree gives exactly the covered files of its complete
  snapshot, although uncovered directories are never opened.\<close>

theorem covered_read_exact:
  assumes "path_folding tx" "length (es_entries s) = length (es_folded s)" "ReadSnapshot tx R r n tree = Inr snap"
  shows "ReadCovered tx s R r n tree = Inr (filter (\<lambda>f. Covers tx s (f_Path f)) snap)"
  using path_folding.ReadCovered_filter [OF assms] .

theorem covered_read_exact_witness:
  "ReadCovered ascii_text (pp_readOnly sample_policy) mem_repository pair_store (Suc (Suc 0)) pair_base =
   Inr [\<lparr>f_Path = ''docs/x'', f_Data = ''old''\<rparr>]"
proof -
  have "Covers ascii_text (pp_readOnly sample_policy) ''docs/x''"
    by (simp add: Covers_def CoveringEntry_def covering_def sample_policy_def entry_matches_def isEntryAncestor_def
        HasPrefix_def ascii_text_def ascii_lower_def)
  moreover have "length (es_entries (pp_readOnly sample_policy)) = length (es_folded (pp_readOnly sample_policy))"
    by (simp add: sample_policy_def)
  ultimately show ?thesis
    using covered_read_exact [OF ascii_folding.path_folding_axioms _ pair_snapshots(1), of "pp_readOnly sample_policy"] by simp
qed

end
