(* ===== verification/Remote.thy ===== *)
theory Remote
  imports NotebookErrors CurrentWrapper JsonText DiffStat TreeRestore
begin

text \<open>
  The notebook's state and the reading side of it (\<open>internal/notebook/remote.go\<close>, \<open>notebook.go\<close>, \<open>metrics.go\<close>): the
  manifest read, the import of packs through the byte cache, the validation of the accepted state, and the
  generic recovery.

  A call is an action over \<open>nbst\<close>: the workspace, the object store, the pack cache, the counters of drawn IDs
  and of host calls, and the metrics. The configuration, with the interfaces the package consumes, is the
  record \<open>Notebook\<close>; \<open>Workspace\<close> is the Go interface of that name, whose \<open>Repo()\<close> is a handle on a state inside the
  workspace, read by \<open>ws_Repo\<close> and written by \<open>ws_setRepo\<close>. Contexts, logging and locks are left out: a
  cancelled context shows as the error of the call that meets it.

  \<open>prefetchPacks\<close> overlaps downloads and delivers them in order; here each pack is fetched when the
  import asks for it.
\<close>

section \<open>The notebook\<close>

record ('w, 'r) Workspace =
  ws_Hold :: "(ws_error, unit, 'w) act"
  ws_Snapshot :: "(ws_error, Snapshot, 'w) act"
  ws_Baseline :: "'w \<Rightarrow> Baseline"
  ws_Repo :: "'w \<Rightarrow> 'r"
  ws_setRepo :: "'r \<Rightarrow> 'w \<Rightarrow> 'w"
  ws_Accept :: "Baseline \<Rightarrow> (ws_error, unit, 'w) act"
  ws_Materialize :: "Baseline \<Rightarrow> oid \<Rightarrow> (ws_error, unit, 'w) act"
  ws_WithoutIgnored :: "'w \<Rightarrow> Snapshot \<Rightarrow> Snapshot"
  ws_Recover :: "Baseline \<Rightarrow> (ws_error, unit, 'w) act"
  ws_RecoveryRequired :: "'w \<Rightarrow> bool"
  ws_Pulled :: "'w \<Rightarrow> bool"
  ws_MarkPulled :: "(ws_error, unit, 'w) act"

record Metrics =
  m_TailCount :: u64
  m_TailBytes :: u64
  m_CheckpointRuns :: u64
  m_CheckpointFailures :: u64
  m_CheckpointCASAttempts :: u64
  m_CheckpointSize :: u64
  m_CheckpointDurationNanos :: int
  m_CleanupRuns :: u64
  m_CleanupCandidates :: u64
  m_CleanupDeleted :: u64
  m_CleanupErrors :: u64

definition zeroMetrics :: Metrics where
  "zeroMetrics = \<lparr>m_TailCount = 0, m_TailBytes = 0, m_CheckpointRuns = 0, m_CheckpointFailures = 0, m_CheckpointCASAttempts = 0,
     m_CheckpointSize = 0, m_CheckpointDurationNanos = 0, m_CleanupRuns = 0, m_CleanupCandidates = 0, m_CleanupDeleted = 0,
     m_CleanupErrors = 0\<rparr>"

text \<open>
  Beside the fields of the Go struct, the libraries it calls (\<open>n_lib\<close>, \<open>n_tx\<close>, \<open>n_sha\<close>, \<open>n_json\<close>), the repository operations,
  the outcomes of host calls and the clock, both read by the number of the call, and the fuel of the tree and
  history walks.
\<close>

record ('w, 'r, 's) Notebook =
  n_ws :: "('w, 'r) Workspace"
  n_store :: "'s ObjectStore"
  n_retryLimit :: nat
  n_checkpointPacks :: nat
  n_retainedCheckpoints :: nat
  n_policy :: PathPolicy
  n_readOnly :: EntrySet
  n_newID :: "nat \<Rightarrow> uuid option"
  n_now :: "nat \<Rightarrow> int"
  n_waiter :: "nat \<Rightarrow> bool"
  n_failCAS :: bool
  n_lib :: uuid_lib
  n_tx :: text_lib
  n_sha :: hash_lib
  n_json :: json_lib
  n_repo :: "'r Repository"
  n_host :: "nat \<Rightarrow> bool"
  n_depth :: nat
  n_fuel :: nat

record ('w, 's) nbst =
  nb_ws :: 'w
  nb_store :: 's
  nb_cache :: "sha256 \<rightharpoonup> bytes"
  nb_ids :: nat
  nb_calls :: nat
  nb_metrics :: Metrics

type_synonym ('a, 'w, 's) nb = "(nb_error, 'a, ('w, 's) nbst) act"

section \<open>Calls on the parts\<close>

definition onStore :: "('e, 'a, 's) act \<Rightarrow> ('e, 'a, ('w, 's) nbst) act" where
  "onStore m = (\<lambda>\<sigma>. case m (nb_store \<sigma>) of (r, s) \<Rightarrow> (r, \<sigma>\<lparr>nb_store := s\<rparr>))"

definition onWs :: "('e, 'a, 'w) act \<Rightarrow> ('e, 'a, ('w, 's) nbst) act" where
  "onWs m = (\<lambda>\<sigma>. case m (nb_ws \<sigma>) of (r, w) \<Rightarrow> (r, \<sigma>\<lparr>nb_ws := w\<rparr>))"

definition getS :: "('s \<Rightarrow> 'a) \<Rightarrow> ('e, 'a, 's) act" where
  "getS f = (\<lambda>\<sigma>. (Inr (f \<sigma>), \<sigma>))"

definition modS :: "('s \<Rightarrow> 's) \<Rightarrow> ('e, unit, 's) act" where
  "modS f = (\<lambda>\<sigma>. (Inr (), f \<sigma>))"

abbreviation repo_of :: "('w, 'r, 's) Notebook \<Rightarrow> ('w, 's) nbst \<Rightarrow> 'r" where
  "repo_of n \<sigma> \<equiv> ws_Repo (n_ws n) (nb_ws \<sigma>)"

abbreviation baseline_of :: "('w, 'r, 's) Notebook \<Rightarrow> ('w, 's) nbst \<Rightarrow> Baseline" where
  "baseline_of n \<sigma> \<equiv> ws_Baseline (n_ws n) (nb_ws \<sigma>)"

text \<open>A read of the repository, and a call that leaves another repository state when it succeeds.\<close>

definition askRepo :: "('w, 'r, 's) Notebook \<Rightarrow> ('r \<Rightarrow> 'e + 'a) \<Rightarrow> ('e, 'a, ('w, 's) nbst) act" where
  "askRepo n f = (\<lambda>\<sigma>. (f (repo_of n \<sigma>), \<sigma>))"

definition onRepo :: "('w, 'r, 's) Notebook \<Rightarrow> ('r \<Rightarrow> 'e + 'a \<times> 'r) \<Rightarrow> ('e, 'a, ('w, 's) nbst) act" where
  "onRepo n f = (\<lambda>\<sigma>. case f (repo_of n \<sigma>) of
     Inl e \<Rightarrow> (Inl e, \<sigma>) | Inr (x, r) \<Rightarrow> (Inr x, \<sigma>\<lparr>nb_ws := ws_setRepo (n_ws n) r (nb_ws \<sigma>)\<rparr>))"

text \<open>One call on the host (a file operation): whether it succeeded.\<close>

definition host :: "('w, 'r, 's) Notebook \<Rightarrow> ('e, bool, ('w, 's) nbst) act" where
  "host n = (\<lambda>\<sigma>. (Inr (n_host n (nb_calls \<sigma>)), \<sigma>\<lparr>nb_calls := Suc (nb_calls \<sigma>)\<rparr>))"

definition readClock :: "('w, 'r, 's) Notebook \<Rightarrow> ('e, int, ('w, 's) nbst) act" where
  "readClock n = (\<lambda>\<sigma>. (Inr (n_now n (nb_calls \<sigma>)), \<sigma>\<lparr>nb_calls := Suc (nb_calls \<sigma>)\<rparr>))"

definition newID :: "('w, 'r, 's) Notebook \<Rightarrow> (uuid, 'w, 's) nb" where
  "newID n = (\<lambda>\<sigma>. (ofOption IDErr (n_newID n (nb_ids \<sigma>)), \<sigma>\<lparr>nb_ids := Suc (nb_ids \<sigma>)\<rparr>))"

definition onMetrics :: "(Metrics \<Rightarrow> Metrics) \<Rightarrow> ('e, unit, ('w, 's) nbst) act" where
  "onMetrics f = modS (\<lambda>\<sigma>. \<sigma>\<lparr>nb_metrics := f (nb_metrics \<sigma>)\<rparr>)"

fun host_all :: "('w, 'r, 's) Notebook \<Rightarrow> nat \<Rightarrow> ('e, bool, ('w, 's) nbst) act" where
  "host_all n 0 = retS True"
| "host_all n (Suc k) = bindS (host n) (\<lambda>ok. if ok then host_all n k else retS False)"

definition recordTail :: "Manifest \<Rightarrow> ('e, unit, ('w, 's) nbst) act" where
  "recordTail m = onMetrics (\<lambda>x. x\<lparr>m_TailCount := of_nat (length (mf_Increments m)),
     m_TailBytes := foldl (\<lambda>size inc. size + inc_Size inc) 0 (mf_Increments m)\<rparr>)"

section \<open>The remote state\<close>

record remoteState =
  rs_manifest :: Manifest
  rs_etag :: etag
  rs_present :: bool
  rs_generation :: u64
  rs_head :: oid
  rs_tree :: oid

definition zeroManifest :: Manifest where
  "zeroManifest = \<lparr>mf_Version = 0, mf_Generation = 0, mf_Head = zeroOID,
     mf_Checkpoint = \<lparr>cp_ID = zeroUUID, cp_Publication = zeroUUID, cp_ThroughGeneration = 0, cp_Head = zeroOID,
       cp_Key = \<lparr>key_Kind = [], key_Generation = 0, key_ID = zeroUUID\<rparr>, cp_SHA256 = replicate 32 0, cp_Size = 0\<rparr>,
     mf_Increments = [], mf_Retained = []\<rparr>"

definition acceptedState :: "Manifest \<Rightarrow> etag \<Rightarrow> oid \<Rightarrow> remoteState" where
  "acceptedState m etag tree = \<lparr>rs_manifest = m, rs_etag = etag, rs_present = True, rs_generation = mf_Generation m,
     rs_head = mf_Head m, rs_tree = tree\<rparr>"

definition remote_baseline :: "remoteState \<Rightarrow> Baseline" where
  "remote_baseline r = \<lparr>bl_RemoteGeneration = rs_generation r, bl_Head = rs_head r, bl_Tree = rs_tree r\<rparr>"

definition emptyRemote :: remoteState where
  "emptyRemote = \<lparr>rs_manifest = zeroManifest, rs_etag = [], rs_present = False, rs_generation = 0, rs_head = zeroOID,
     rs_tree = EmptyTreeID\<rparr>"

datatype importMode = importMissing | importAll
datatype loadMode = loadReusing | loadStrict
datatype reuseVerdict = reuseMiss | reuseHit
datatype validationVerdict = validationOK | validationObjectsMissing | validationContentInvalid

record packSpec =
  ps_key :: bytes
  ps_sha :: sha256
  ps_size :: u64
  ps_head :: oid

definition readCurrent :: "('w, 'r, 's) Notebook \<Rightarrow> ((bytes \<times> etag) option, 'w, 's) nb" where
  "readCurrent n =
     tryS (onStore (ReadObject (n_store n) CurrentKey)) (\<lambda>r.
     case r of
       Inl err \<Rightarrow>
         (case keyMaterialError (StoreErr err) of
            Some keyErr \<Rightarrow> failS keyErr
          | None \<Rightarrow>
              if store_is ErrNotFound err then retS None
              else if store_is ErrIntegrity err \<or> store_is ErrUpgradeRequired err then failS (manifestError (StoreErr err))
              else failS (storageFailure ReasonManifestRead (Some (StoreErr err))))
     | Inr (None, _) \<Rightarrow> failS (storageFailure ReasonManifestRead (Some BodyErr))
     | Inr (Some data, info) \<Rightarrow> retS (Some (data, oi_ETag info)))"

definition decodeCurrent :: "('w, 'r, 's) Notebook \<Rightarrow> bytes \<Rightarrow> decode_error + Manifest" where
  "decodeCurrent n data = DecodeManifest (n_lib n) (jl_tokens (n_json n) data)"

section \<open>Packs\<close>

definition pack_matches :: "('w, 'r, 's) Notebook \<Rightarrow> packSpec \<Rightarrow> bytes \<Rightarrow> bool" where
  "pack_matches n spec data \<longleftrightarrow> of_nat (length data) = ps_size spec \<and> n_sha n data = ps_sha spec"

definition cacheRead :: "('w, 'r, 's) Notebook \<Rightarrow> packSpec \<Rightarrow> ('e, bytes option, ('w, 's) nbst) act" where
  "cacheRead n spec =
     bindS (host n) (\<lambda>ok.
     bindS (getS (\<lambda>\<sigma>. nb_cache \<sigma> (ps_sha spec))) (\<lambda>entry.
     case (if ok then entry else None) of
       None \<Rightarrow> retS None
     | Some data \<Rightarrow>
         if \<not> pack_matches n spec data then
           bindS (host n) (\<lambda>removed.
           bindS (modS (\<lambda>\<sigma>. if removed then \<sigma>\<lparr>nb_cache := (nb_cache \<sigma>)(ps_sha spec := None)\<rparr> else \<sigma>)) (\<lambda>_. retS None))
         else retS (Some data)))"

text \<open>
  The six calls of \<open>cacheWrite\<close> that can fail: the directory, the temporary file, its write, sync and close, and
  the rename that makes the entry visible. What a failed one leaves is never read.
\<close>

definition cacheWrite :: "('w, 'r, 's) Notebook \<Rightarrow> sha256 \<Rightarrow> bytes \<Rightarrow> ('e, unit, ('w, 's) nbst) act" where
  "cacheWrite n sha data =
     bindS (host_all n 6) (\<lambda>ok. modS (\<lambda>\<sigma>. if ok then \<sigma>\<lparr>nb_cache := (nb_cache \<sigma>)(sha \<mapsto> data)\<rparr> else \<sigma>))"

definition ensurePack :: "('w, 'r, 's) Notebook \<Rightarrow> packSpec \<Rightarrow> (bytes, 'w, 's) nb" where
  "ensurePack n spec =
     bindS (cacheRead n spec) (\<lambda>hit.
     case hit of
       Some data \<Rightarrow> retS data
     | None \<Rightarrow>
         tryS (onStore (ReadObject (n_store n) (ps_key spec))) (\<lambda>r.
         case r of
           Inl err \<Rightarrow>
             (case keyMaterialError (StoreErr err) of
                Some keyErr \<Rightarrow> failS keyErr
              | None \<Rightarrow>
                  if store_is ErrNotFound err then failS (Wrapped [ErrStaleManifest])
                  else if store_is ErrIntegrity err then failS (storageIntegrity ReasonEnvelopeInvalid (Some (StoreErr err)))
                  else failS (storageFailure ReasonPackDownload (Some (StoreErr err))))
         | Inr (None, _) \<Rightarrow> failS (storageFailure ReasonPackDownload (Some BodyErr))
         | Inr (Some data, _) \<Rightarrow>
             if \<not> pack_matches n spec data then failS (storageIntegrity ReasonPackInvalid None)
             else bindS (cacheWrite n (ps_sha spec) data) (\<lambda>_. retS data)))"

definition manifest_specs :: "('w, 'r, 's) Notebook \<Rightarrow> Manifest \<Rightarrow> packSpec list" where
  "manifest_specs n m =
     \<lparr>ps_key = Key_String (n_lib n) (cp_Key (mf_Checkpoint m)), ps_sha = cp_SHA256 (mf_Checkpoint m),
      ps_size = cp_Size (mf_Checkpoint m), ps_head = cp_Head (mf_Checkpoint m)\<rparr> #
     map (\<lambda>inc. \<lparr>ps_key = Key_String (n_lib n) (inc_Key inc), ps_sha = inc_SHA256 inc, ps_size = inc_Size inc,
       ps_head = inc_Head inc\<rparr>) (mf_Increments m)"

fun wanted_specs :: "('w, 'r, 's) Notebook \<Rightarrow> importMode \<Rightarrow> packSpec list \<Rightarrow> ((packSpec \<times> bool) list, 'w, 's) nb" where
  "wanted_specs n mode [] = retS []"
| "wanted_specs n mode (spec # specs) =
     bindS (if mode = importMissing then
              mapErrS (\<lambda>e. storageIntegrity ReasonEngineFailed (Some (GitErr e))) (askRepo n (\<lambda>r. HasObject (n_repo n) r (ps_head spec)))
            else retS False) (\<lambda>present.
     bindS (wanted_specs n mode specs) (\<lambda>rest. retS ((spec, \<not> present) # rest)))"

fun import_specs :: "('w, 'r, 's) Notebook \<Rightarrow> oid \<Rightarrow> nat \<Rightarrow> (packSpec \<times> bool) list \<Rightarrow> (unit, 'w, 's) nb" where
  "import_specs n shallow i [] = retS ()"
| "import_specs n shallow i ((spec, wanted) # specs) =
     bindS (if wanted then
              bindS (ensurePack n spec) (\<lambda>data.
              mapErrS (\<lambda>e. storageIntegrity ReasonPackInvalid (Some (GitErr e)))
                (onRepo n (\<lambda>r. bindR (ImportPack (n_repo n) r data) (\<lambda>r'. Inr ((), r')))))
            else retS ()) (\<lambda>_.
     bindS (if i = 0 then
              mapErrS (\<lambda>e. storageIntegrity ReasonEngineFailed (Some (GitErr e)))
                (onRepo n (\<lambda>r. bindR (git_MarkShallow (n_repo n) r shallow) (\<lambda>r'. Inr ((), r'))))
            else retS ()) (\<lambda>_.
     import_specs n shallow (Suc i) specs))"

definition importRemote :: "('w, 'r, 's) Notebook \<Rightarrow> Manifest \<Rightarrow> importMode \<Rightarrow> (unit, 'w, 's) nb" where
  "importRemote n m mode =
     bindS (wanted_specs n mode (manifest_specs n m)) (\<lambda>specs. import_specs n (cp_Head (mf_Checkpoint m)) 0 specs)"

section \<open>Loading the accepted state\<close>

fun all_present :: "('w, 'r, 's) Notebook \<Rightarrow> 'r \<Rightarrow> oid list \<Rightarrow> bool" where
  "all_present n r [] = True"
| "all_present n r (h # hs) = (HasObject (n_repo n) r h = Inr True \<and> all_present n r hs)"

definition reuseAccepted :: "('w, 'r, 's) Notebook \<Rightarrow> Manifest \<Rightarrow> etag \<Rightarrow> ('e, remoteState option, ('w, 's) nbst) act" where
  "reuseAccepted n m etag =
     bindS (getS (\<lambda>\<sigma>. (baseline_of n \<sigma>, repo_of n \<sigma>))) (\<lambda>(base, r).
     if OID_IsZero (bl_Head base) \<or> bl_Head base \<noteq> mf_Head m then retS None
     else if \<not> all_present n r (cp_Head (mf_Checkpoint m) # map inc_Head (mf_Increments m)) then retS None
     else (case ReadCommit (n_repo n) r (mf_Head m) of
             Inl _ \<Rightarrow> retS None
           | Inr commit \<Rightarrow>
               if c_Tree commit \<noteq> bl_Tree base then retS None
               else bindS (recordTail m) (\<lambda>_. retS (Some (acceptedState m etag (c_Tree commit))))))"

definition verdictFor :: "git_error \<Rightarrow> validationVerdict" where
  "verdictFor err = (if err = ErrObjectMissing then validationObjectsMissing else validationContentInvalid)"

text \<open>The verdict comes with the failure, as the caller needs both.\<close>

definition validateRemote ::
  "('w, 'r, 's) Notebook \<Rightarrow> Manifest \<Rightarrow> etag \<Rightarrow> (validationVerdict \<times> nb_error, remoteState, ('w, 's) nbst) act" where
  "validateRemote n m etag =
     bindS (getS (repo_of n)) (\<lambda>r.
     case ValidateHistory (n_repo n) r (n_fuel n) (mf_Head m) (cp_Head (mf_Checkpoint m)) of
       Inl e \<Rightarrow> failS (verdictFor e, storageIntegrity ReasonHistoryInvalid (Some (GitErr e)))
     | Inr _ \<Rightarrow>
     (case ReadCommit (n_repo n) r (mf_Head m) of
       Inl e \<Rightarrow> failS (validationObjectsMissing, storageIntegrity ReasonHistoryInvalid (Some (GitErr e)))
     | Inr commit \<Rightarrow>
     (case ReadSnapshot (n_tx n) (n_repo n) r (n_depth n) (c_Tree commit) of
       Inl e \<Rightarrow> failS (verdictFor e, storageIntegrity ReasonHistoryInvalid (Some (GitErr e)))
     | Inr _ \<Rightarrow> bindS (recordTail m) (\<lambda>_. retS (acceptedState m etag (c_Tree commit))))))"

definition loadRemote :: "('w, 'r, 's) Notebook \<Rightarrow> Manifest \<Rightarrow> etag \<Rightarrow> loadMode \<Rightarrow> (remoteState, 'w, 's) nb" where
  "loadRemote n m etag mode =
     bindS (if mode = loadReusing then reuseAccepted n m etag else retS None) (\<lambda>reused.
     case reused of
       Some st \<Rightarrow> retS st
     | None \<Rightarrow>
         bindS (importRemote n m importMissing) (\<lambda>_.
         tryS (validateRemote n m etag) (\<lambda>r.
         case r of
           Inr st \<Rightarrow> retS st
         | Inl (verdict, err) \<Rightarrow>
             if verdict \<noteq> validationObjectsMissing then failS err
             else bindS (importRemote n m importAll) (\<lambda>_. mapErrS snd (validateRemote n m etag)))))"

definition is_stale :: "nb_error \<Rightarrow> bool" where
  "is_stale err = err_is (\<lambda>e. e = ErrStaleManifest) err"

text \<open>One round of the loop of \<open>readRemoteMode\<close>; \<open>final\<close> holds when no restart is left and \<open>again\<close> is the rest of the loop.\<close>

definition read_round :: "('w, 'r, 's) Notebook \<Rightarrow> loadMode \<Rightarrow> bool \<Rightarrow> (remoteState, 'w, 's) nb \<Rightarrow> (remoteState, 'w, 's) nb" where
  "read_round n mode final again =
     bindS (readCurrent n) (\<lambda>cur.
     case cur of
       None \<Rightarrow> retS emptyRemote
     | Some (data, etag) \<Rightarrow>
         (case decodeCurrent n data of
            Inl err \<Rightarrow> failS (manifestError (DecodeErr err))
          | Inr m \<Rightarrow>
              bindS (getS (baseline_of n)) (\<lambda>base.
              case CheckManifestRollback m (bl_RemoteGeneration base) of
                Inl _ \<Rightarrow> failS (storageIntegrity ReasonHistoryInvalid (Some (StoreErr ErrIntegrity)))
              | Inr _ \<Rightarrow>
                  tryS (loadRemote n m etag mode) (\<lambda>r.
                  case r of
                    Inr st \<Rightarrow> retS st
                  | Inl err \<Rightarrow>
                      if \<not> is_stale err then failS err
                      else if final then failS (storageIntegrity ReasonPackInvalid None)
                      else bindS (readCurrent n) (\<lambda>cur'.
                        case cur' of
                          None \<Rightarrow> failS (storageIntegrity ReasonPackInvalid None)
                        | Some (_, newETag) \<Rightarrow>
                            if newETag = etag then failS (storageIntegrity ReasonPackInvalid None) else again)))))"

fun read_loop :: "('w, 'r, 's) Notebook \<Rightarrow> loadMode \<Rightarrow> nat \<Rightarrow> (remoteState, 'w, 's) nb" where
  "read_loop n mode 0 = read_round n mode True (failS Panic)"
| "read_loop n mode (Suc restarts) = read_round n mode False (read_loop n mode restarts)"

definition readRemoteMode :: "('w, 'r, 's) Notebook \<Rightarrow> loadMode \<Rightarrow> (remoteState, 'w, 's) nb" where
  "readRemoteMode n mode = read_loop n mode (n_retryLimit n)"

definition readRemote :: "('w, 'r, 's) Notebook \<Rightarrow> (remoteState, 'w, 's) nb" where
  "readRemote n = readRemoteMode n loadReusing"

definition readRemoteStrict :: "('w, 'r, 's) Notebook \<Rightarrow> (remoteState, 'w, 's) nb" where
  "readRemoteStrict n = readRemoteMode n loadStrict"

section \<open>Looking a publication up\<close>

text \<open>
  \<open>Keyring.Open\<close> is an argument here, the failures it can report being the three kinds \<open>encryptionOpenError\<close> tells
  apart. A notebook operation passes none.
\<close>

datatype open_error = ErrKeyRejected | ErrUnsupportedFormat | EnvelopeBroken

type_synonym keyring = "bytes \<Rightarrow> open_error + bytes"

definition encryptionOpenError :: "open_error \<Rightarrow> nb_error" where
  "encryptionOpenError err =
     (case err of
        ErrKeyRejected \<Rightarrow> storageFailure ReasonKeyRejected None
      | ErrUnsupportedFormat \<Rightarrow> storageFailure ReasonUpgradeRequired (Some EnvelopeErr)
      | EnvelopeBroken \<Rightarrow> storageIntegrity ReasonEnvelopeInvalid (Some EnvelopeErr))"

definition decodeStoredCurrent :: "('w, 'r, 's) Notebook \<Rightarrow> keyring option \<Rightarrow> bytes \<Rightarrow> nb_error + Manifest" where
  "decodeStoredCurrent n open_key data =
     bindR (mapErr (\<lambda>e. manifestError (DecodeErr e)) (ClassifyCurrent (jl_tokens (n_json n) data))) (\<lambda>(encoding, envelope).
     if encoding = CurrentPlaintext then mapErr (\<lambda>e. manifestError (DecodeErr e)) (decodeCurrent n data)
     else (case open_key of
             None \<Rightarrow> Inl (storageFailure ReasonKeyRequired None)
           | Some key \<Rightarrow>
               bindR (mapErr encryptionOpenError (key envelope)) (\<lambda>plaintext.
               mapErr (\<lambda>e. manifestError (DecodeErr e)) (decodeCurrent n plaintext))))"

definition lookupPublication :: "('w, 'r, 's) Notebook \<Rightarrow> keyring option \<Rightarrow> uuid \<Rightarrow> (bool, 'w, 's) nb" where
  "lookupPublication n open_key ident =
     bindS (readCurrent n) (\<lambda>cur.
     case cur of
       None \<Rightarrow> retS False
     | Some (data, _) \<Rightarrow> bindS (liftS (decodeStoredCurrent n open_key data)) (\<lambda>m. retS (publicationIn m ident)))"

section \<open>Recovery\<close>

text \<open>\<open>recoverState\<close> returns its report also when it fails, so both are its value.\<close>

definition recoverState ::
  "('w, 'r, 's) Notebook \<Rightarrow> bytes \<Rightarrow> RemoteAccepted \<Rightarrow> ('e, RecoveryReport \<times> nb_error option, ('w, 's) nbst) act" where
  "recoverState n stage accepted =
     (let report = \<lparr>rr_Stage = stage, rr_RemoteAccepted = accepted, rr_Resynchronized = False\<rparr> in
      tryS (readRemoteStrict n) (\<lambda>r.
      case r of
        Inl err \<Rightarrow> retS (report, Some err)
      | Inr remote \<Rightarrow>
          tryS (onWs (ws_Recover (n_ws n) (remote_baseline remote))) (\<lambda>r'.
          case r' of
            Inl err \<Rightarrow> retS (report, Some (Wrapped [WsErr err]))
          | Inr _ \<Rightarrow> retS (report\<lparr>rr_Resynchronized := True\<rparr>, None))))"

definition entryRecovery :: "('w, 'r, 's) Notebook \<Rightarrow> (unit, 'w, 's) nb" where
  "entryRecovery n =
     bindS (recoverState n ''entry'' RemoteAcceptedUnknown) (\<lambda>(report, err).
     case err of
       Some e \<Rightarrow> failS (recoveryFailure report None (Some e))
     | None \<Rightarrow> failS (entryRecovered report ErrEntryRecovered))"

definition applyLocal :: "('w, 'r, 's) Notebook \<Rightarrow> bytes \<Rightarrow> RemoteAccepted \<Rightarrow> (ws_error, unit, 'w) act \<Rightarrow> (unit, 'w, 's) nb" where
  "applyLocal n stage accepted fn =
     tryS (onWs fn) (\<lambda>r.
     case r of
       Inr _ \<Rightarrow> retS ()
     | Inl err \<Rightarrow>
         bindS (getS (\<lambda>\<sigma>. ws_RecoveryRequired (n_ws n) (nb_ws \<sigma>))) (\<lambda>required.
         if \<not> required then
           (case err of
              IgnoredConflictError path \<Rightarrow>
                failS (invalidRequest ReasonIgnoredConflict (Some (WsErr err))
                  [\<lparr>ef_Path = path, ef_Reason = FileReasonPathConflict, ef_Ranges = []\<rparr>])
            | _ \<Rightarrow> failS (WsErr err))
         else
           bindS (recoverState n stage accepted) (\<lambda>(report, rerr). failS (recoveryFailure report (Some (WsErr err)) rerr))))"

definition failAfterAccept :: "('w, 'r, 's) Notebook \<Rightarrow> bytes \<Rightarrow> nb_error \<Rightarrow> ('e, nb_error, ('w, 's) nbst) act" where
  "failAfterAccept n stage cause =
     bindS (recoverState n stage RemoteAcceptedYes) (\<lambda>(report, rerr). retS (recoveryFailure report (Some cause) rerr))"

end
