(* ===== verification/NotebookCommit.thy ===== *)
theory NotebookCommit
  imports Remote
begin

text \<open>
  The publishing side of the notebook: \<open>Commit\<close> and its parts (\<open>internal/notebook/commit.go\<close>), the opportunistic
  checkpoint with the cleanup that follows it (\<open>checkpoint.go\<close>), the request checks and the constructor
  (\<open>notebook.go\<close>), the change summary (\<open>result.go\<close>) and the wait between retries (\<open>backoff.go\<close>).

  The retry loops run once per attempt and the number of attempts is bounded by the configuration, so they
  are structural in the attempts that are left. Message texts are left out.
\<close>

section \<open>Requests\<close>

definition engine_error :: "git_error \<Rightarrow> nb_error" where
  "engine_error e = storageIntegrity ReasonEngineFailed (Some (GitErr e))"

definition content_error :: "git_error \<Rightarrow> nb_error" where
  "content_error e = invalidRequest ReasonInvalidContent (Some (GitErr e)) []"

definition MaxMessageBytes :: nat where "MaxMessageBytes = 16384"

text \<open>\<open>strings.TrimSpace(message) == ""\<close>.\<close>

definition blank :: "bytes \<Rightarrow> bool" where
  "blank message \<longleftrightarrow> list_all (\<lambda>(r, w). IsSpace r) (Runes message)"

definition ValidateMessage :: "bytes \<Rightarrow> nb_error + unit" where
  "ValidateMessage message =
     (if length message > MaxMessageBytes then Inl (invalidRequest ReasonMessageTooLong None [])
      else if blank message then Inl (invalidRequest ReasonMessageBlank None [])
      else mapErr (\<lambda>e. invalidRequest ReasonMessageInvalid (Some (GitErr e)) []) (ValidateCommitMessage message))"

definition rejectMarkers :: "Snapshot \<Rightarrow> ErrorFile list" where
  "rejectMarkers snap =
     concat (map (\<lambda>f. case FindConflictBlocks (f_Data f) of
         [] \<Rightarrow> []
       | ranges \<Rightarrow> [\<lparr>ef_Path = f_Path f, ef_Reason = FileReasonUnresolvedMarkers, ef_Ranges = ranges\<rparr>]) snap)"

definition holdWorkspace :: "('w, 'r, 's) Notebook \<Rightarrow> (unit, 'w, 's) nb" where
  "holdWorkspace n = mapErrS mapLocalError (onWs (ws_Hold (n_ws n)))"

definition takeSnapshot :: "('w, 'r, 's) Notebook \<Rightarrow> (Snapshot, 'w, 's) nb" where
  "takeSnapshot n = mapErrS mapLocalError (onWs (ws_Snapshot (n_ws n)))"

definition buildVisible :: "('w, 'r, 's) Notebook \<Rightarrow> Snapshot \<Rightarrow> (oid, 'w, 's) nb" where
  "buildVisible n snap = mapErrS content_error (onRepo n (\<lambda>r. BuildTree (n_tx n) (n_repo n) r snap))"

definition readTree :: "('w, 'r, 's) Notebook \<Rightarrow> oid \<Rightarrow> (Snapshot, 'w, 's) nb" where
  "readTree n tree = mapErrS engine_error (askRepo n (\<lambda>r. ReadSnapshot (n_tx n) (n_repo n) r (n_depth n) tree))"

definition mergeTrees :: "('w, 'r, 's) Notebook \<Rightarrow> oid \<Rightarrow> oid \<Rightarrow> oid \<Rightarrow> (MergeResult, 'w, 's) nb" where
  "mergeTrees n base local remote =
     mapErrS engine_error (onRepo n (\<lambda>r. git_Merge (n_tx n) (n_repo n) r (n_depth n) base local remote))"

definition materializeTree :: "('w, 'r, 's) Notebook \<Rightarrow> MergeResult \<Rightarrow> oid \<Rightarrow> (oid, 'w, 's) nb" where
  "materializeTree n merged local =
     mapErrS engine_error (onRepo n (\<lambda>r.
       bindR (MaterializeTree (n_tx n) (n_repo n) r (n_depth n) merged local) (\<lambda>snap. BuildTree (n_tx n) (n_repo n) r snap)))"

section \<open>Results\<close>

record Result =
  res_Generation :: u64
  res_Stat :: DiffStat
  res_Contents :: "FileLines list"

definition emptyStat :: DiffStat where
  "emptyStat = \<lparr>ds_Files = [], ds_Insertions = 0, ds_Deletions = 0\<rparr>"

definition summarySnapshots :: "('w, 'r, 's) Notebook \<Rightarrow> oid \<Rightarrow> oid \<Rightarrow> (Snapshot \<times> Snapshot, 'w, 's) nb" where
  "summarySnapshots n base result =
     bindS (readTree n base) (\<lambda>baseSnap. bindS (readTree n result) (\<lambda>resultSnap. retS (baseSnap, resultSnap)))"

definition diffStat :: "('w, 'r, 's) Notebook \<Rightarrow> oid \<Rightarrow> oid \<Rightarrow> (DiffStat, 'w, 's) nb" where
  "diffStat n base result =
     bindS (summarySnapshots n base result) (\<lambda>(baseSnap, resultSnap). liftS (ofOption Panic (DiffSnapshots baseSnap resultSnap)))"

section \<open>The path policy\<close>

definition policyRefusal :: "bytes list \<Rightarrow> nb_error" where
  "policyRefusal changed =
     invalidRequest ReasonReadOnlyPath None (map (\<lambda>path. \<lparr>ef_Path = path, ef_Reason = FileReasonReadOnly, ef_Ranges = []\<rparr>) changed)"

definition violatedEntries :: "text_lib \<Rightarrow> EntrySet \<Rightarrow> bytes list \<Rightarrow> bytes list" where
  "violatedEntries tx es changed = sort (remdups (List.map_filter (CoveringEntry tx es) changed))"

text \<open>
  \<open>readErrorRepo\<close> tells a failed read from a snapshot that does not validate: \<open>RestoreProtected\<close> passes every read error
  on, so the reader has recorded one exactly when reading the restored files fails.
\<close>

definition restoreProtected :: "('w, 'r, 's) Notebook \<Rightarrow> oid \<Rightarrow> Snapshot \<Rightarrow> bytes list \<Rightarrow> (Snapshot, 'w, 's) nb" where
  "restoreProtected n baseTree local changed =
     askRepo n (\<lambda>r.
       mapErr (\<lambda>e. if isOk (restoredFiles (n_repo n) r baseTree changed) then content_error e else engine_error e)
         (RestoreProtected (n_tx n) (n_repo n) r baseTree local changed))"

definition changedProtected :: "('w, 'r, 's) Notebook \<Rightarrow> oid \<Rightarrow> oid \<Rightarrow> (bytes list, 'w, 's) nb" where
  "changedProtected n localTree baseTree =
     mapErrS engine_error (askRepo n (\<lambda>r. ChangedProtected (n_tx n) (n_policy n) (n_repo n) r (n_depth n) localTree baseTree))"

definition enforcePolicy :: "('w, 'r, 's) Notebook \<Rightarrow> Snapshot \<Rightarrow> oid \<Rightarrow> (unit, 'w, 's) nb" where
  "enforcePolicy n local localTree =
     (if \<not> Configured (n_policy n) then retS ()
      else
        bindS (getS (baseline_of n)) (\<lambda>baseline.
        bindS (changedProtected n localTree (bl_Tree baseline)) (\<lambda>changed.
        if changed = [] then retS ()
        else
          bindS (restoreProtected n (bl_Tree baseline) local changed) (\<lambda>restored.
          bindS (buildVisible n restored) (\<lambda>tree.
          bindS (applyLocal n ''commit.readonly'' RemoteAcceptedNo (ws_Materialize (n_ws n) baseline tree)) (\<lambda>_.
          failS (policyRefusal changed)))))))"

definition newFoldedPairFiles :: "text_lib \<Rightarrow> Snapshot \<Rightarrow> Snapshot \<Rightarrow> ErrorFile list" where
  "newFoldedPairFiles tx merged remote =
     (let held = (\<lambda>p. p \<in> f_Path ` set remote);
          pairs = filter (\<lambda>pair. \<not> (held (pce_First pair) \<and> held (pce_Path pair))) (FoldedDirectoryPairs tx merged);
          named = remdups (concat (map (\<lambda>pair. [pce_First pair, pce_Path pair]) pairs)) in
      map (\<lambda>path. \<lparr>ef_Path = path, ef_Reason = FileReasonInvalidContent, ef_Ranges = []\<rparr>) (sort named))"

definition rejectNewFoldedPairs :: "('w, 'r, 's) Notebook \<Rightarrow> oid \<Rightarrow> oid \<Rightarrow> (unit, 'w, 's) nb" where
  "rejectNewFoldedPairs n remoteTree mergedTree =
     bindS (readTree n mergedTree) (\<lambda>merged.
     if FoldedDirectoryPairs (n_tx n) merged = [] then retS ()
     else
       bindS (readTree n remoteTree) (\<lambda>remote.
       case newFoldedPairFiles (n_tx n) merged remote of
         [] \<Rightarrow> retS ()
       | files \<Rightarrow> failS (invalidRequest ReasonInvalidContent None files)))"

section \<open>Proposals\<close>

definition drawID :: "('w, 'r, 's) Notebook \<Rightarrow> (uuid, 'w, 's) nb" where
  "drawID n = mapErrS (\<lambda>e. storageFailure ReasonInternal (Some e)) (newID n)"

definition makeCommit :: "('w, 'r, 's) Notebook \<Rightarrow> CommitSpec \<Rightarrow> (oid, 'w, 's) nb" where
  "makeCommit n spec = mapErrS engine_error (onRepo n (\<lambda>r. CreateCommit (n_repo n) r spec))"

definition exportCheckpoint :: "('w, 'r, 's) Notebook \<Rightarrow> oid \<Rightarrow> (Pack, 'w, 's) nb" where
  "exportCheckpoint n head = mapErrS engine_error (askRepo n (\<lambda>r. ExportCheckpoint (n_sha n) (n_repo n) r (n_fuel n) head))"

definition markShallow :: "('w, 'r, 's) Notebook \<Rightarrow> oid \<Rightarrow> (unit, 'w, 's) nb" where
  "markShallow n head =
     mapErrS engine_error (onRepo n (\<lambda>r. bindR (git_MarkShallow (n_repo n) r head) (\<lambda>r'. Inr ((), r'))))"

definition buildFirstProposal :: "('w, 'r, 's) Notebook \<Rightarrow> oid \<Rightarrow> bytes \<Rightarrow> int \<Rightarrow> uuid \<Rightarrow> (proposal, 'w, 's) nb" where
  "buildFirstProposal n mergedTree message attemptStart pubID =
     bindS (makeCommit n \<lparr>cs_Message = message, cs_Tree = mergedTree, cs_Parents = [], cs_Time = attemptStart\<rparr>) (\<lambda>head.
     bindS (exportCheckpoint n head) (\<lambda>pack.
     bindS (markShallow n head) (\<lambda>_.
     bindS (drawID n) (\<lambda>cpID.
     retS (first_proposal head mergedTree pack pubID cpID)))))"

definition buildIncrementProposal ::
  "('w, 'r, 's) Notebook \<Rightarrow> remoteState \<Rightarrow> oid \<Rightarrow> bytes \<Rightarrow> int \<Rightarrow> uuid \<Rightarrow> (proposal, 'w, 's) nb" where
  "buildIncrementProposal n remote mergedTree message attemptStart pubID =
     bindS (makeCommit n \<lparr>cs_Message = message, cs_Tree = mergedTree, cs_Parents = [rs_head remote], cs_Time = attemptStart\<rparr>) (\<lambda>head.
     bindS (mapErrS engine_error (askRepo n (\<lambda>r. ExportIncrement (n_sha n) (n_repo n) r (n_fuel n) head (rs_head remote)))) (\<lambda>pack.
     retS (increment_proposal (rs_manifest remote) (rs_generation remote) (rs_head remote) head mergedTree pack pubID)))"

definition buildProposal :: "('w, 'r, 's) Notebook \<Rightarrow> remoteState \<Rightarrow> oid \<Rightarrow> bytes \<Rightarrow> int \<Rightarrow> (proposal, 'w, 's) nb" where
  "buildProposal n remote mergedTree message attemptStart =
     bindS (drawID n) (\<lambda>pubID.
     if rs_generation remote = 0 then buildFirstProposal n mergedTree message attemptStart pubID
     else buildIncrementProposal n remote mergedTree message attemptStart pubID)"

definition buildCompactingProposal :: "('w, 'r, 's) Notebook \<Rightarrow> remoteState \<Rightarrow> proposal \<Rightarrow> (proposal option, 'w, 's) nb" where
  "buildCompactingProposal n remote inc =
     bindS (exportCheckpoint n (mf_Head (pr_manifest inc))) (\<lambda>pack.
     if pack_size pack \<ge> referenced_size (rs_manifest remote) then retS None
     else bindS (drawID n) (\<lambda>cpID. retS (Some (compacting_proposal inc pack cpID))))"

definition mapUploadError :: "store_error \<Rightarrow> nb_error" where
  "mapUploadError err =
     (if store_is ErrIntegrity err then storageIntegrity ReasonPackInvalid (Some (StoreErr err))
      else storageFailure ReasonPackUpload (Some (StoreErr err)))"

definition pack_meta :: "Key \<Rightarrow> Pack \<Rightarrow> Metadata" where
  "pack_meta key pack = \<lparr>md_SHA256 = pk_SHA256 pack, md_Size = pack_size pack, md_Kind = key_Kind key,
     md_Generation = key_Generation key\<rparr>"

definition uploadProposal :: "('w, 'r, 's) Notebook \<Rightarrow> proposal \<Rightarrow> (unit, 'w, 's) nb" where
  "uploadProposal n p =
     mapErrS mapUploadError (onStore (UploadUnique (n_sha n) (n_lib n) (n_store n) (pr_key p) (Some (pk_Data (pr_pack p)))
       (pack_meta (pr_key p) (pr_pack p))))"

text \<open>The upload of \<open>attemptPublication\<close>, which falls back to a compacting proposal when the space is full.\<close>

definition uploadOrCompact :: "('w, 'r, 's) Notebook \<Rightarrow> remoteState \<Rightarrow> proposal \<Rightarrow> (proposal, 'w, 's) nb" where
  "uploadOrCompact n remote p =
     tryS (uploadProposal n p) (\<lambda>r.
     case r of
       Inr _ \<Rightarrow> retS p
     | Inl err \<Rightarrow>
         if \<not> errors_Is (Some err) ErrQuotaExceeded \<or> pr_checkpointID p \<noteq> zeroUUID then failS err
         else
           bindS (buildCompactingProposal n remote p) (\<lambda>c.
           case c of
             None \<Rightarrow> failS err
           | Some compacted \<Rightarrow> bindS (uploadProposal n compacted) (\<lambda>_. retS compacted)))"

definition publish :: "('w, 'r, 's) Notebook \<Rightarrow> remoteState \<Rightarrow> proposal \<Rightarrow> (unit, 'w, 's) nb" where
  "publish n remote p =
     bindS (liftS (mapErr (\<lambda>e. storageIntegrity ReasonEngineFailed (Some (DecodeErr e))) (EncodeManifest (n_lib n) (pr_manifest p)))) (\<lambda>stream.
     let manifestBytes = jl_text (n_json n) stream in
     tryS (onStore (if rs_generation remote = 0 then CreateObject (n_store n) CurrentKey manifestBytes
                    else ReplaceObject (n_store n) CurrentKey (rs_etag remote) manifestBytes)) (\<lambda>r.
     case r of
       Inr _ \<Rightarrow> retS ()
     | Inl err \<Rightarrow>
         if store_is ErrPreconditionFailed err then failS ErrCASLost
         else if store_is ErrTransport err then
           bindS (lookupPublication n None (pr_publicationID p)) (\<lambda>found.
           if found then retS () else failS (storageFailure ReasonPublicationUnproven (Some (StoreErr err))))
         else failS (storageFailure ReasonManifestWrite (Some (Wrapped [ErrManifestRefused, StoreErr err])))))"

definition is_cas_lost :: "nb_error \<Rightarrow> bool" where "is_cas_lost err = err_is (\<lambda>e. e = ErrCASLost) err"
definition is_refused :: "nb_error \<Rightarrow> bool" where "is_refused err = err_is (\<lambda>e. e = ErrManifestRefused) err"

section \<open>Cleanup\<close>

definition failCleanup :: "(unit, 'w, 's) nb" where
  "failCleanup = onMetrics (\<lambda>x. x\<lparr>m_CleanupErrors := m_CleanupErrors x + 1\<rparr>)"

definition failCheckpoint :: "(unit, 'w, 's) nb" where
  "failCheckpoint = onMetrics (\<lambda>x. x\<lparr>m_CheckpointFailures := m_CheckpointFailures x + 1\<rparr>)"

definition cleanupRoots :: "('w, 'r, 's) Notebook \<Rightarrow> (bytes list, 'w, 's) nb" where
  "cleanupRoots n =
     bindS (readCurrent n) (\<lambda>cur.
     case cur of
       None \<Rightarrow> failS (Wrapped [])
     | Some (data, _) \<Rightarrow> liftS (mapErr (\<lambda>e. Wrapped [DecodeErr e]) (bindR (decodeCurrent n data) (\<lambda>m. Inr (manifestRoots (n_lib n) m)))))"

definition cleanupBatchSize :: nat where "cleanupBatchSize = 1000"

definition is_candidate :: "uuid_lib \<Rightarrow> u64 \<Rightarrow> bytes \<Rightarrow> bool" where
  "is_candidate lib cutoff key = (case ParseKey lib key of Inl _ \<Rightarrow> False | Inr k \<Rightarrow> key_Generation k \<le> cutoff)"

fun list_candidates :: "('w, 'r, 's) Notebook \<Rightarrow> u64 \<Rightarrow> bytes list \<Rightarrow> (bytes list, 'w, 's) nb" where
  "list_candidates n cutoff [] = retS []"
| "list_candidates n cutoff (ns # nss) =
     bindS (mapErrS StoreErr (onStore (ListObjects (n_store n) ns))) (\<lambda>keys.
     bindS (list_candidates n cutoff nss) (\<lambda>rest. retS (filter (is_candidate (n_lib n) cutoff) keys @ rest)))"

function cleanup_batches :: "('w, 'r, 's) Notebook \<Rightarrow> (bytes list, 'w, 's) nb \<Rightarrow> bytes list \<Rightarrow> (unit, 'w, 's) nb" where
  "cleanup_batches n roots candidates =
     (if candidates = [] then retS ()
      else
        tryS roots (\<lambda>r.
        case r of
          Inl _ \<Rightarrow> failCleanup
        | Inr active \<Rightarrow>
            let doomed = filter (\<lambda>key. key \<notin> set active) (take cleanupBatchSize candidates);
                next = cleanup_batches n roots (drop cleanupBatchSize candidates) in
            if doomed = [] then next
            else
              tryS (onStore (DeleteObjects (n_store n) doomed)) (\<lambda>d.
              case d of
                Inl _ \<Rightarrow> bindS failCleanup (\<lambda>_. next)
              | Inr _ \<Rightarrow> bindS (onMetrics (\<lambda>x. x\<lparr>m_CleanupDeleted := m_CleanupDeleted x + of_nat (length doomed)\<rparr>)) (\<lambda>_. next))))"
  by pat_completeness auto
termination
  by (relation "measure (\<lambda>(n, roots, candidates). length candidates)") (auto simp: cleanupBatchSize_def)

declare cleanup_batches.simps [simp del]

definition cleanupPacks :: "('w, 'r, 's) Notebook \<Rightarrow> u64 \<Rightarrow> (bytes list, 'w, 's) nb \<Rightarrow> (unit, 'w, 's) nb" where
  "cleanupPacks n cutoff roots =
     bindS (onMetrics (\<lambda>x. x\<lparr>m_CleanupRuns := m_CleanupRuns x + 1\<rparr>)) (\<lambda>_.
     tryS (list_candidates n cutoff [''packs/checkpoints/'', ''packs/increments/'']) (\<lambda>r.
     case r of
       Inl _ \<Rightarrow> failCleanup
     | Inr candidates \<Rightarrow>
         bindS (onMetrics (\<lambda>x. x\<lparr>m_CleanupCandidates := m_CleanupCandidates x + of_nat (length candidates)\<rparr>)) (\<lambda>_.
         cleanup_batches n roots candidates)))"

definition cleanup :: "('w, 'r, 's) Notebook \<Rightarrow> u64 \<Rightarrow> (unit, 'w, 's) nb" where
  "cleanup n cutoff = cleanupPacks n cutoff (cleanupRoots n)"

section \<open>Checkpoints\<close>

definition checkpointAccepted :: "('w, 'r, 's) Notebook \<Rightarrow> uuid \<Rightarrow> (bool, 'w, 's) nb" where
  "checkpointAccepted n cpID =
     tryS (readCurrent n) (\<lambda>r.
     case r of
       Inr (Some (data, _)) \<Rightarrow> (case decodeCurrent n data of Inl _ \<Rightarrow> retS False | Inr m \<Rightarrow> retS (checkpointIn m cpID))
     | _ \<Rightarrow> retS False)"

definition acceptCheckpoint :: "('w, 'r, 's) Notebook \<Rightarrow> Manifest \<Rightarrow> Pack \<Rightarrow> int \<Rightarrow> u64 \<Rightarrow> (unit, 'w, 's) nb" where
  "acceptCheckpoint n next pack start cutoff =
     bindS (recordTail next) (\<lambda>_.
     bindS (readClock n) (\<lambda>now.
     bindS (onMetrics (\<lambda>x. x\<lparr>m_CheckpointSize := pack_size pack, m_CheckpointDurationNanos := now - start\<rparr>)) (\<lambda>_.
     cleanup n cutoff)))"

fun checkpoint_loop ::
  "('w, 'r, 's) Notebook \<Rightarrow> checkpointPlan \<Rightarrow> uuid \<Rightarrow> Key \<Rightarrow> Pack \<Rightarrow> int \<Rightarrow> nat \<Rightarrow> (unit, 'w, 's) nb" where
  "checkpoint_loop n plan cpID key pack start k =
     tryS (readRemote n) (\<lambda>r.
     case r of
       Inl _ \<Rightarrow> failCheckpoint
     | Inr latest \<Rightarrow>
         if \<not> prefixPresent plan (rs_manifest latest) then retS ()
         else
           (let next = compactManifest (n_retainedCheckpoints n) (rs_manifest latest) plan cpID key pack in
            case EncodeManifest (n_lib n) next of
              Inl _ \<Rightarrow> failCheckpoint
            | Inr stream \<Rightarrow>
                bindS (onMetrics (\<lambda>x. x\<lparr>m_CheckpointCASAttempts := m_CheckpointCASAttempts x + 1\<rparr>)) (\<lambda>_.
                tryS (onStore (ReplaceObject (n_store n) CurrentKey (rs_etag latest) (jl_text (n_json n) stream))) (\<lambda>w.
                case w of
                  Inr _ \<Rightarrow>
                    tryS (markShallow n (pl_head plan)) (\<lambda>m.
                    case m of
                      Inl _ \<Rightarrow> failCheckpoint
                    | Inr _ \<Rightarrow> acceptCheckpoint n next pack start (pl_cutoff plan))
                | Inl err \<Rightarrow>
                    if store_is ErrPreconditionFailed err then
                      (case k of
                         0 \<Rightarrow> failCheckpoint
                       | Suc k' \<Rightarrow>
                           if n_waiter n (Suc (n_retryLimit n) - k) then checkpoint_loop n plan cpID key pack start k' else failCheckpoint)
                    else if store_is ErrTransport err then
                      bindS (checkpointAccepted n cpID) (\<lambda>ok.
                      if ok then acceptCheckpoint n next pack start (pl_cutoff plan) else failCheckpoint)
                    else failCheckpoint))))"

declare checkpoint_loop.simps [simp del]

definition runCheckpoint :: "('w, 'r, 's) Notebook \<Rightarrow> Manifest \<Rightarrow> (unit, 'w, 's) nb" where
  "runCheckpoint n observed =
     bindS (readClock n) (\<lambda>start.
     bindS (onMetrics (\<lambda>x. x\<lparr>m_CheckpointRuns := m_CheckpointRuns x + 1\<rparr>)) (\<lambda>_.
     let plan = planCheckpoint observed (n_checkpointPacks n) in
     tryS (exportCheckpoint n (pl_head plan)) (\<lambda>r.
     case r of
       Inl _ \<Rightarrow> failCheckpoint
     | Inr pack \<Rightarrow>
         tryS (newID n) (\<lambda>i.
         case i of
           Inl _ \<Rightarrow> failCheckpoint
         | Inr cpID \<Rightarrow>
             (let key = \<lparr>key_Kind = KindCheckpoint, key_Generation = pl_cutoff plan, key_ID = cpID\<rparr> in
              tryS (onStore (UploadUnique (n_sha n) (n_lib n) (n_store n) key (Some (pk_Data pack)) (pack_meta key pack))) (\<lambda>u.
              case u of
                Inl _ \<Rightarrow> failCheckpoint
              | Inr _ \<Rightarrow> checkpoint_loop n plan cpID key pack start (n_retryLimit n)))))))"

section \<open>Commit\<close>

definition failAfterPublish :: "('w, 'r, 's) Notebook \<Rightarrow> bytes \<Rightarrow> proposal \<Rightarrow> nb_error \<Rightarrow> ('a, 'w, 's) nb" where
  "failAfterPublish n stage p cause =
     bindS (failAfterAccept n stage cause) (\<lambda>err.
     bindS (if pr_compacting p then cleanup n (key_Generation (pr_key p)) else retS ()) (\<lambda>_. failS err))"

definition acceptCompaction :: "('w, 'r, 's) Notebook \<Rightarrow> proposal \<Rightarrow> (unit, 'w, 's) nb" where
  "acceptCompaction n p =
     bindS (onMetrics (\<lambda>x. x\<lparr>m_CheckpointRuns := m_CheckpointRuns x + 1, m_CheckpointSize := pack_size (pr_pack p)\<rparr>)) (\<lambda>_.
     bindS (tryS (markShallow n (mf_Head (pr_manifest p))) (\<lambda>r. case r of Inl _ \<Rightarrow> failCheckpoint | Inr _ \<Rightarrow> retS ())) (\<lambda>_.
     cleanup n (key_Generation (pr_key p))))"

definition discardCompaction :: "('w, 'r, 's) Notebook \<Rightarrow> proposal \<Rightarrow> nb_error \<Rightarrow> (unit, 'w, 's) nb" where
  "discardCompaction n p cause =
     (if \<not> is_cas_lost cause \<and> \<not> is_refused cause then retS ()
      else tryS (onStore (DeleteObjects (n_store n) [Key_String (n_lib n) (pr_key p)])) (\<lambda>r.
        case r of Inl _ \<Rightarrow> failCleanup | Inr _ \<Rightarrow> retS ()))"

definition conflictResult ::
  "('w, 'r, 's) Notebook \<Rightarrow> Baseline \<Rightarrow> MergeResult \<Rightarrow> oid \<Rightarrow> (unit, 'w, 's) nb \<Rightarrow> ('a, 'w, 's) nb" where
  "conflictResult n baseline merged local after =
     bindS (materializeTree n merged local) (\<lambda>tree.
     bindS (applyLocal n ''merge.materialize'' RemoteAcceptedNo (ws_Materialize (n_ws n) baseline tree)) (\<lambda>_.
     bindS after (\<lambda>_.
     failS (contentConflict ReasonMergeConflict (contentConflictFiles (mres_Conflicts merged))))))"

text \<open>After the conditional write was proved to be accepted.\<close>

definition acceptPublished :: "('w, 'r, 's) Notebook \<Rightarrow> proposal \<Rightarrow> DiffStat \<Rightarrow> (Result, 'w, 's) nb" where
  "acceptPublished n p stat =
     (if n_failCAS n then failAfterPublish n ''commit.cas'' p FailpointErr
      else
        tryS (onWs (ws_Accept (n_ws n) (pr_baseline p))) (\<lambda>r.
        case r of
          Inl err \<Rightarrow> failAfterPublish n ''commit.accept'' p (WsErr err)
        | Inr _ \<Rightarrow>
            bindS (recordTail (pr_manifest p)) (\<lambda>_.
            bindS (if pr_compacting p then acceptCompaction n p else retS ()) (\<lambda>_.
            bindS (if n_checkpointPacks n \<le> length (mf_Increments (pr_manifest p)) then runCheckpoint n (pr_manifest p) else retS ()) (\<lambda>_.
            retS \<lparr>res_Generation = bl_RemoteGeneration (pr_baseline p), res_Stat = stat, res_Contents = []\<rparr>)))))"

text \<open>The result is \<open>None\<close> when the conditional write lost the race.\<close>

definition attemptPublication ::
  "('w, 'r, 's) Notebook \<Rightarrow> bytes \<Rightarrow> oid \<Rightarrow> oid \<Rightarrow> int \<Rightarrow> loadMode \<Rightarrow> (Result option, 'w, 's) nb" where
  "attemptPublication n message baseTree localTree attemptStart mode =
     bindS (readRemoteMode n mode) (\<lambda>remote.
     bindS (mergeTrees n baseTree localTree (rs_tree remote)) (\<lambda>merged.
     if mres_Conflicts merged \<noteq> [] then conflictResult n (remote_baseline remote) merged localTree (retS ())
     else if mres_Tree merged = rs_tree remote then
       bindS (applyLocal n ''commit.accept'' RemoteAcceptedNo (ws_Accept (n_ws n) (remote_baseline remote))) (\<lambda>_.
       retS (Some \<lparr>res_Generation = rs_generation remote, res_Stat = emptyStat, res_Contents = []\<rparr>))
     else
       bindS (diffStat n (rs_tree remote) (mres_Tree merged)) (\<lambda>stat.
       bindS (rejectNewFoldedPairs n (rs_tree remote) (mres_Tree merged)) (\<lambda>_.
       bindS (buildProposal n remote (mres_Tree merged) message attemptStart) (\<lambda>built.
       bindS (uploadOrCompact n remote built) (\<lambda>p.
       tryS (publish n remote p) (\<lambda>r.
       case r of
         Inl err \<Rightarrow>
           bindS (if pr_compacting p then discardCompaction n p err else retS ()) (\<lambda>_.
           if is_cas_lost err then retS None else failS err)
       | Inr _ \<Rightarrow> bindS (acceptPublished n p stat) (\<lambda>res. retS (Some res)))))))))"

text \<open>\<open>k\<close> is the number of retries that are left, so that attempt \<open>k\<close> counts from the limit down.\<close>

function commit_loop :: "('w, 'r, 's) Notebook \<Rightarrow> bytes \<Rightarrow> oid \<Rightarrow> oid \<Rightarrow> int \<Rightarrow> loadMode \<Rightarrow> nat \<Rightarrow> (Result, 'w, 's) nb" where
  "commit_loop n message baseTree localTree attemptStart mode k =
     tryS (attemptPublication n message baseTree localTree attemptStart mode) (\<lambda>r.
     case r of
       Inl err \<Rightarrow>
         if mode = loadReusing \<and> engineFailed err then commit_loop n message baseTree localTree attemptStart loadStrict k
         else failS err
     | Inr (Some result) \<Rightarrow> retS result
     | Inr None \<Rightarrow>
         (case k of
            0 \<Rightarrow> failS remoteBusy
          | Suc k' \<Rightarrow>
              if n_waiter n (Suc (n_retryLimit n) - k) then commit_loop n message baseTree localTree attemptStart mode k'
              else failS CtxErr))"
  by pat_completeness auto
termination
  by (relation "measure (\<lambda>(n, message, baseTree, localTree, attemptStart, mode, k). 2 * k + (if mode = loadReusing then 1 else 0))")
    auto

declare commit_loop.simps [simp del]

definition commit :: "('w, 'r, 's) Notebook \<Rightarrow> bytes \<Rightarrow> (Result, 'w, 's) nb" where
  "commit n message =
     bindS (getS (\<lambda>\<sigma>. ws_RecoveryRequired (n_ws n) (nb_ws \<sigma>))) (\<lambda>required.
     bindS (if required then entryRecovery n else retS ()) (\<lambda>_.
     bindS (liftS (ValidateMessage message)) (\<lambda>_.
     bindS (getS (\<lambda>\<sigma>. ws_Pulled (n_ws n) (nb_ws \<sigma>))) (\<lambda>pulled.
     if \<not> pulled then failS (invalidRequest ReasonPullRequired None [])
     else
       bindS (takeSnapshot n) (\<lambda>local.
       if rejectMarkers local \<noteq> [] then failS (contentConflict ReasonUnresolvedMarkers (rejectMarkers local))
       else
         bindS (buildVisible n local) (\<lambda>localTree.
         bindS (enforcePolicy n local localTree) (\<lambda>_.
         bindS (getS (\<lambda>\<sigma>. bl_Tree (baseline_of n \<sigma>))) (\<lambda>baseTree.
         bindS (readClock n) (\<lambda>attemptStart.
         commit_loop n message baseTree localTree attemptStart loadReusing (n_retryLimit n))))))))))"

definition notebook_Commit :: "('w, 'r, 's) Notebook \<Rightarrow> bytes \<Rightarrow> (Result, 'w, 's) nb" where
  "notebook_Commit n message = bindS (holdWorkspace n) (\<lambda>_. commit n message)"

end
