(* ===== verification/NotebookPull.thy ===== *)
theory NotebookPull
  imports NotebookCommit
begin

text \<open>
  \<open>Pull\<close> with its first-pull guard and the pinning of protected paths (\<open>internal/notebook/pull.go\<close>), and the local
  views \<open>Status\<close> and \<open>Log\<close> (\<open>status.go\<close>).
\<close>

section \<open>Pull\<close>

definition materializes :: "('w, 'r, 's) Notebook \<Rightarrow> 'w \<Rightarrow> Snapshot \<Rightarrow> remoteState \<Rightarrow> bool" where
  "materializes n w local remote \<longleftrightarrow> \<not> ws_Pulled (n_ws n) w \<and> local = [] \<and> rs_tree remote \<noteq> EmptyTreeID"

definition guard_file :: "('w, 'r, 's) Notebook \<Rightarrow> bool \<Rightarrow> (bytes \<rightharpoonup> bytes) \<Rightarrow> File \<Rightarrow> FileReason option" where
  "guard_file n seeding accepted f =
     (let data = accepted (f_Path f); protected = Protects (n_tx n) (n_policy n) (f_Path f) in
      if protected \<and> data \<noteq> None then None
      else if protected then Some FileReasonNotInNotebook
      else if seeding then None
      else if data = None then Some FileReasonNotInNotebook
      else if data \<noteq> Some (f_Data f) then Some FileReasonDiffersFromNotebook
      else None)"

definition guard_files :: "('w, 'r, 's) Notebook \<Rightarrow> bool \<Rightarrow> (bytes \<rightharpoonup> bytes) \<Rightarrow> Snapshot \<Rightarrow> ErrorFile list" where
  "guard_files n seeding accepted local =
     sort_key ef_Path (List.map_filter (\<lambda>f. map_option (\<lambda>reason. \<lparr>ef_Path = f_Path f, ef_Reason = reason, ef_Ranges = []\<rparr>)
       (guard_file n seeding accepted f)) local)"

definition guardFirstPull :: "('w, 'r, 's) Notebook \<Rightarrow> Snapshot \<Rightarrow> remoteState \<Rightarrow> (unit, 'w, 's) nb" where
  "guardFirstPull n local remote =
     bindS (getS (\<lambda>\<sigma>. ws_Pulled (n_ws n) (nb_ws \<sigma>))) (\<lambda>pulled.
     if pulled \<or> local = [] then retS ()
     else
       bindS (if rs_tree remote \<noteq> EmptyTreeID then readTree n (rs_tree remote) else retS []) (\<lambda>remoteSnap.
       case guard_files n (rs_tree remote = EmptyTreeID) (snap_map remoteSnap) local of
         [] \<Rightarrow> retS ()
       | files \<Rightarrow> failS (invalidRequest ReasonDirectoryNotEmpty None files)))"

definition pinProtected :: "('w, 'r, 's) Notebook \<Rightarrow> Snapshot \<Rightarrow> oid \<Rightarrow> (oid, 'w, 's) nb" where
  "pinProtected n local localTree =
     (if \<not> Configured (n_policy n) then retS localTree
      else
        bindS (getS (\<lambda>\<sigma>. bl_Tree (baseline_of n \<sigma>))) (\<lambda>baseTree.
        bindS (changedProtected n localTree baseTree) (\<lambda>changed.
        if changed = [] then retS localTree
        else bindS (restoreProtected n baseTree local changed) (\<lambda>pinned. buildVisible n pinned))))"

definition markPulled :: "('w, 'r, 's) Notebook \<Rightarrow> (unit, 'w, 's) nb" where
  "markPulled n = mapErrS mapLocalError (onWs (ws_MarkPulled (n_ws n)))"

definition pullAttempt :: "('w, 'r, 's) Notebook \<Rightarrow> loadMode \<Rightarrow> (Result, 'w, 's) nb" where
  "pullAttempt n mode =
     bindS (takeSnapshot n) (\<lambda>local.
     bindS (buildVisible n local) (\<lambda>localTree.
     bindS (readRemoteMode n mode) (\<lambda>remote.
     bindS (guardFirstPull n local remote) (\<lambda>_.
     bindS (pinProtected n local localTree) (\<lambda>mergeTree.
     bindS (getS (\<lambda>\<sigma>. bl_Tree (baseline_of n \<sigma>))) (\<lambda>baseTree.
     bindS (mergeTrees n baseTree mergeTree (rs_tree remote)) (\<lambda>merged.
     if mres_Conflicts merged \<noteq> [] then conflictResult n (remote_baseline remote) merged mergeTree (markPulled n)
     else
       bindS (summarySnapshots n localTree (mres_Tree merged)) (\<lambda>(baseSnap, resultSnap).
       bindS (liftS (ofOption Panic (DiffSnapshots baseSnap resultSnap))) (\<lambda>stat.
       bindS (getS (\<lambda>\<sigma>. if materializes n (nb_ws \<sigma>) local remote
           then LineCounts (ws_WithoutIgnored (n_ws n) (nb_ws \<sigma>) resultSnap) else [])) (\<lambda>contents.
       bindS (applyLocal n ''pull.accept'' RemoteAcceptedNo (ws_Materialize (n_ws n) (remote_baseline remote) (mres_Tree merged))) (\<lambda>_.
       bindS (markPulled n) (\<lambda>_.
       retS \<lparr>res_Generation = rs_generation remote, res_Stat = stat, res_Contents = contents\<rparr>))))))))))))"

definition pull :: "('w, 'r, 's) Notebook \<Rightarrow> (Result, 'w, 's) nb" where
  "pull n =
     bindS (getS (\<lambda>\<sigma>. ws_RecoveryRequired (n_ws n) (nb_ws \<sigma>))) (\<lambda>required.
     bindS (if required then entryRecovery n else retS ()) (\<lambda>_.
     tryS (pullAttempt n loadReusing) (\<lambda>r.
     case r of
       Inr res \<Rightarrow> retS res
     | Inl err \<Rightarrow> if engineFailed err then pullAttempt n loadStrict else failS err)))"

definition notebook_Pull :: "('w, 'r, 's) Notebook \<Rightarrow> (Result, 'w, 's) nb" where
  "notebook_Pull n = bindS (holdWorkspace n) (\<lambda>_. pull n)"

section \<open>Status and log\<close>

datatype ChangeKind = ChangeAdded | ChangeModified | ChangeDeleted

record Change =
  ch_Path :: bytes
  ch_Kind :: ChangeKind
  ch_Insertions :: nat
  ch_Deletions :: nat

record Status =
  sta_Generation :: u64
  sta_Pulled :: bool
  sta_RecoveryRequired :: bool
  sta_Changes :: "Change list"

definition stat_of :: "DiffStat \<Rightarrow> bytes \<Rightarrow> FileStat" where
  "stat_of d path = (case find (\<lambda>s. fs_Path s = path) (ds_Files d) of
     Some s \<Rightarrow> s | None \<Rightarrow> \<lparr>fs_Path = [], fs_Insertions = 0, fs_Deletions = 0\<rparr>)"

definition current_change :: "DiffStat \<Rightarrow> (bytes \<rightharpoonup> bytes) \<Rightarrow> File \<Rightarrow> Change option" where
  "current_change d baseData f =
     (case baseData (f_Path f) of
        None \<Rightarrow> Some \<lparr>ch_Path = f_Path f, ch_Kind = ChangeAdded, ch_Insertions = fs_Insertions (stat_of d (f_Path f)), ch_Deletions = 0\<rparr>
      | Some old \<Rightarrow>
          if old \<noteq> f_Data f then
            Some \<lparr>ch_Path = f_Path f, ch_Kind = ChangeModified, ch_Insertions = fs_Insertions (stat_of d (f_Path f)),
              ch_Deletions = fs_Deletions (stat_of d (f_Path f))\<rparr>
          else None)"

definition deleted_change :: "DiffStat \<Rightarrow> File \<Rightarrow> Change" where
  "deleted_change d f = \<lparr>ch_Path = f_Path f, ch_Kind = ChangeDeleted, ch_Insertions = 0,
     ch_Deletions = fs_Deletions (stat_of d (f_Path f))\<rparr>"

definition changesBetween :: "Snapshot \<Rightarrow> Snapshot \<Rightarrow> Change list option" where
  "changesBetween base cur =
     map_option (\<lambda>d. sort_key ch_Path
       (List.map_filter (current_change d (snap_map base)) cur @
        map (deleted_change d) (filter (\<lambda>f. f_Path f \<notin> f_Path ` set cur) base))) (DiffSnapshots base cur)"

definition notebook_Status :: "('w, 'r, 's) Notebook \<Rightarrow> (Status, 'w, 's) nb" where
  "notebook_Status n =
     bindS (holdWorkspace n) (\<lambda>_.
     bindS (getS (\<lambda>\<sigma>. \<lparr>sta_Generation = bl_RemoteGeneration (baseline_of n \<sigma>), sta_Pulled = ws_Pulled (n_ws n) (nb_ws \<sigma>),
       sta_RecoveryRequired = ws_RecoveryRequired (n_ws n) (nb_ws \<sigma>), sta_Changes = []\<rparr>)) (\<lambda>st.
     if sta_RecoveryRequired st then retS st
     else
       bindS (takeSnapshot n) (\<lambda>local.
       bindS (getS (\<lambda>\<sigma>. bl_Tree (baseline_of n \<sigma>))) (\<lambda>baseTree.
       bindS (readTree n baseTree) (\<lambda>base.
       bindS (liftS (ofOption Panic (changesBetween base local))) (\<lambda>changes.
       retS (st\<lparr>sta_Changes := changes\<rparr>)))))))"

record History =
  hi_Entries :: "bytes list"
  hi_More :: bool

text \<open>\<open>k\<close> is the number of entries that may still be added; the loop ends after at most that many rounds.\<close>

fun log_loop :: "('w, 'r, 's) Notebook \<Rightarrow> 'r \<Rightarrow> nat \<Rightarrow> oid \<Rightarrow> bytes list \<Rightarrow> nb_error + History" where
  "log_loop n r k ident entries =
     (if OID_IsZero ident then Inr \<lparr>hi_Entries = entries, hi_More = False\<rparr>
      else case k of
        0 \<Rightarrow> Inr \<lparr>hi_Entries = entries, hi_More = True\<rparr>
      | Suc k' \<Rightarrow>
          bindR (mapErr engine_error (ReadCommit (n_repo n) r ident)) (\<lambda>commit.
          let entries' = entries @ [c_Message commit] in
          case c_Parents commit of
            [] \<Rightarrow> Inr \<lparr>hi_Entries = entries', hi_More = False\<rparr>
          | parent # _ \<Rightarrow>
              bindR (mapErr engine_error (HasObject (n_repo n) r parent)) (\<lambda>present.
              if \<not> present then Inr \<lparr>hi_Entries = entries', hi_More = True\<rparr>
              else log_loop n r k' parent entries')))"

declare log_loop.simps [simp del]

definition notebook_Log :: "('w, 'r, 's) Notebook \<Rightarrow> int \<Rightarrow> (History, 'w, 's) nb" where
  "notebook_Log n limit =
     (if limit < 1 then failS (invalidRequest ReasonMalformedInput None [])
      else
        bindS (holdWorkspace n) (\<lambda>_.
        bindS (getS (\<lambda>\<sigma>. bl_Head (baseline_of n \<sigma>))) (\<lambda>head.
        askRepo n (\<lambda>r. log_loop n r (nat limit) head []))))"

section \<open>The wait between retries\<close>

text \<open>
  \<open>exponentialBackoff.Wait\<close> sleeps for a random time below a ceiling. Durations are 64-bit signed, so the doubling may
  wrap; the ceiling then falls back to the maximum.
\<close>

definition wrap64 :: "int \<Rightarrow> int" where
  "wrap64 x = (x + 2 ^ 63) mod 2 ^ 64 - 2 ^ 63"

fun double_ceiling :: "int \<Rightarrow> nat \<Rightarrow> int \<Rightarrow> int" where
  "double_ceiling limit 0 c = c"
| "double_ceiling limit (Suc i) c = (if c < limit then double_ceiling limit i (wrap64 (c * 2)) else c)"

definition wait_ceiling :: "int \<Rightarrow> int \<Rightarrow> nat \<Rightarrow> int" where
  "wait_ceiling base limit attempt =
     (let c = double_ceiling limit (attempt - 1) base in
      if c > limit \<or> c \<le> 0 then limit else c)"

end
