(* ===== verification/NotebookStore.thy ===== *)
theory NotebookStore
  imports NotebookPull
begin

text \<open>
  What the notebook's operations do to the object store. \<open>still h m\<close> says that an action leaves the part \<open>h\<close> of the
  store state as it was; the rules in \<open>still_rules\<close> follow the combinators, so that reading operations are settled by
  their structure. \<open>store_client\<close> is the contract a notebook relies on: a store that honours conditional
  writes, a JSON library that reads its own text back, and canonical UUID text.
\<close>

section \<open>Actions that leave part of the store alone\<close>

definition still :: "('s \<Rightarrow> 'v) \<Rightarrow> ('e, 'a, ('w, 's) nbst) act \<Rightarrow> bool" where
  "still h m \<longleftrightarrow> (\<forall>\<sigma> r \<sigma>'. m \<sigma> = (r, \<sigma>') \<longrightarrow> h (nb_store \<sigma>') = h (nb_store \<sigma>))"

named_theorems still_rules "structural rules for actions that leave part of the store alone"

lemma stillD: "still h m \<Longrightarrow> m \<sigma> = (r, \<sigma>') \<Longrightarrow> h (nb_store \<sigma>') = h (nb_store \<sigma>)"
  by (simp add: still_def)

lemma still_weaken: "still h m \<Longrightarrow> still (\<lambda>s. g (h s)) m"
  by (simp add: still_def)

lemma still_basic [still_rules]:
  "still h (retS x)" "still h (failS e)" "still h (liftS y)" "still h (getS f)" "still h (askRepo n q)" "still h (onRepo n u)"
  "still h (onWs a)" "still h (host n)" "still h (readClock n)" "still h (newID n)" "still h (onMetrics g)" "still h (recordTail m)"
  by (auto simp: still_def getS_def askRepo_def onRepo_def onWs_def host_def readClock_def newID_def onMetrics_def recordTail_def
      modS_def split: sum.splits prod.splits)

lemma still_tryS [still_rules]:
  assumes "still h m" "\<And>r. still h (f r)" shows "still h (tryS m f)"
  unfolding still_def
proof (intro allI impI)
  fix \<sigma> r \<sigma>' assume run: "tryS m f \<sigma> = (r, \<sigma>')"
  obtain q \<sigma>1 where m: "m \<sigma> = (q, \<sigma>1)" by fastforce
  show "h (nb_store \<sigma>') = h (nb_store \<sigma>)"
    using stillD [OF assms(1) m] stillD [OF assms(2) [of q], of \<sigma>1 r \<sigma>'] run m by (simp add: tryS_def)
qed

lemma still_bindS [still_rules]:
  assumes "still h m" "\<And>x. still h (f x)" shows "still h (bindS m f)"
  unfolding bindS_def by (rule still_tryS [OF assms(1)]) (simp add: assms(2) still_basic split: sum.split)

lemma still_mapErrS [still_rules]: "still h m \<Longrightarrow> still h (mapErrS g m)"
  unfolding mapErrS_def by (intro still_rules)

lemma still_cases [still_rules]:
  "still h a \<Longrightarrow> still h b \<Longrightarrow> still h (if c then a else b)"
  "(\<And>e. still h (fl e)) \<Longrightarrow> (\<And>x. still h (fr x)) \<Longrightarrow> still h (case y of Inl e \<Rightarrow> fl e | Inr x \<Rightarrow> fr x)"
  "still h a \<Longrightarrow> (\<And>x. still h (fs x)) \<Longrightarrow> still h (case opt of None \<Rightarrow> a | Some x \<Rightarrow> fs x)"
  "(\<And>x z. still h (fp x z)) \<Longrightarrow> still h (case pr of (x, z) \<Rightarrow> fp x z)"
  "still h a \<Longrightarrow> (\<And>x xs. still h (fc x xs)) \<Longrightarrow> still h (case l of [] \<Rightarrow> a | x # xs \<Rightarrow> fc x xs)"
  "still h (ft t) \<Longrightarrow> still h (let x = t in ft x)"
  by (simp_all split: sum.splits option.splits prod.splits list.splits)

lemma still_modS: "(\<And>\<sigma>. nb_store (f \<sigma>) = nb_store \<sigma>) \<Longrightarrow> still h (modS f)"
  by (simp add: still_def modS_def)

lemma still_onStore:
  assumes "\<And>s r s'. a s = (r, s') \<Longrightarrow> h s' = h s" shows "still h (onStore a)"
  using assms by (auto simp: still_def onStore_def split: prod.splits)

lemma still_host_all [still_rules]: "still h (host_all n k)"
  unfolding host_all.simps by (induction k) (simp only: host_all.simps, intro still_rules, assumption?)+

lemma still_cache [still_rules]: "still h (cacheRead n spec)" "still h (cacheWrite n sha data)"
  unfolding cacheRead_def cacheWrite_def by (intro still_rules still_modS, simp)+

section \<open>What an action returns\<close>

definition yields :: "('e, 'a, 't) act \<Rightarrow> ('a \<Rightarrow> bool) \<Rightarrow> bool" where
  "yields m Q \<longleftrightarrow> (\<forall>\<sigma> x \<sigma>'. m \<sigma> = (Inr x, \<sigma>') \<longrightarrow> Q x)"

named_theorems yields_rules "structural rules for the values an action returns"

lemma yieldsD: "yields m Q \<Longrightarrow> m \<sigma> = (Inr x, \<sigma>') \<Longrightarrow> Q x"
  by (auto simp: yields_def)

lemma yields_basic [yields_rules]: "Q x \<Longrightarrow> yields (retS x) Q" "yields (failS e) Q"
  by (simp_all add: yields_def)

lemma yields_bindS [yields_rules]: "(\<And>x. yields (f x) Q) \<Longrightarrow> yields (bindS m f) Q"
  unfolding yields_def bindS_Inr by blast

lemma yields_bindS_with: "yields m P \<Longrightarrow> (\<And>x. P x \<Longrightarrow> yields (f x) Q) \<Longrightarrow> yields (bindS m f) Q"
  unfolding yields_def bindS_Inr by blast

lemma yields_tryS [yields_rules]: "(\<And>r. yields (f r) Q) \<Longrightarrow> yields (tryS m f) Q"
  unfolding yields_def tryS_apply by blast

lemma yields_tryS_with:
  assumes "yields m P" "\<And>x. P x \<Longrightarrow> yields (f (Inr x)) Q" "\<And>e. yields (f (Inl e)) Q" shows "yields (tryS m f) Q"
  unfolding yields_def
proof (intro allI impI)
  fix \<sigma> y \<sigma>' assume run: "tryS m f \<sigma> = (Inr y, \<sigma>')"
  obtain r \<sigma>1 where m: "m \<sigma> = (r, \<sigma>1)" by fastforce
  then have "f r \<sigma>1 = (Inr y, \<sigma>')" using run by (simp add: tryS_def)
  moreover have "yields (f r) Q" using assms m by (cases r) (auto dest: yieldsD)
  ultimately show "Q y" by (rule yieldsD [rotated])
qed

lemma yields_mapErrS [yields_rules]: "yields m Q \<Longrightarrow> yields (mapErrS g m) Q"
  unfolding yields_def mapErrS_Inr .

lemma yields_cases [yields_rules]:
  "yields a Q \<Longrightarrow> yields b Q \<Longrightarrow> yields (if c then a else b) Q"
  "(\<And>e. yields (fl e) Q) \<Longrightarrow> (\<And>x. yields (fr x) Q) \<Longrightarrow> yields (case y of Inl e \<Rightarrow> fl e | Inr x \<Rightarrow> fr x) Q"
  "yields a Q \<Longrightarrow> (\<And>x. yields (fs x) Q) \<Longrightarrow> yields (case opt of None \<Rightarrow> a | Some x \<Rightarrow> fs x) Q"
  "(\<And>x z. yields (fp x z) Q) \<Longrightarrow> yields (case pr of (x, z) \<Rightarrow> fp x z) Q"
  "yields (ft t) Q \<Longrightarrow> yields (let x = t in ft x) Q"
  by (simp_all split: sum.splits option.splits prod.splits)

section \<open>Reading the remote state\<close>

text \<open>Everything that only reads objects leaves whatever a read leaves.\<close>

locale store_reader =
  fixes n :: "('w, 'r, 's) Notebook" and h :: "'s \<Rightarrow> 'v"
  assumes reads: "ReadObject (n_store n) key s = (r, s') \<Longrightarrow> h s' = h s"
begin

lemma still_read [still_rules]: "still h (onStore (ReadObject (n_store n) key))"
  by (rule still_onStore) (rule reads)

lemma still_readCurrent [still_rules]: "still h (readCurrent n)"
  unfolding readCurrent_def by (intro still_rules)

lemma still_ensurePack [still_rules]: "still h (ensurePack n spec)"
  unfolding ensurePack_def by (intro still_rules)

lemma still_wanted [still_rules]: "still h (wanted_specs n mode specs)"
  by (induction specs) (simp_all only: wanted_specs.simps, (intro still_rules | assumption)+)

lemma still_import [still_rules]: "still h (import_specs n shallow i specs)"
  by (induction specs arbitrary: i) (simp_all only: import_specs.simps split_paired_all, (intro still_rules | assumption)+)

lemma still_importRemote [still_rules]: "still h (importRemote n m mode)"
  unfolding importRemote_def by (intro still_rules)

lemma still_loadRemote [still_rules]: "still h (loadRemote n m etag mode)"
  unfolding loadRemote_def reuseAccepted_def validateRemote_def by (intro still_rules)

lemma still_round: "still h again \<Longrightarrow> still h (read_round n mode final again)"
  unfolding read_round_def by (intro still_rules | assumption)+

lemma still_read_loop [still_rules]: "still h (read_loop n mode k)"
  by (induction k) (simp_all only: read_loop.simps still_round still_basic)

lemma still_readRemote [still_rules]: "still h (readRemoteMode n mode)" "still h (readRemote n)" "still h (readRemoteStrict n)"
  unfolding readRemote_def readRemoteStrict_def readRemoteMode_def by (intro still_rules)+

lemma still_recoverState [still_rules]: "still h (recoverState n stage accepted)"
  unfolding recoverState_def by (intro still_rules)

lemma still_recovery [still_rules]: "still h (entryRecovery n)" "still h (failAfterAccept n stage cause)"
  unfolding entryRecovery_def failAfterAccept_def by (intro still_rules)+

lemma still_applyLocal [still_rules]: "still h (applyLocal n stage accepted fn)"
proof -
  have "still h (case err of IgnoredConflictError path \<Rightarrow> failS (g path) | _ \<Rightarrow> failS e)" for err g and e :: nb_error
    by (cases err) (simp_all only: ws_error.case still_basic)
  then show ?thesis unfolding applyLocal_def by (intro still_rules)
qed

text \<open>Local requests and the building of proposals.\<close>

lemma still_local [still_rules]:
  "still h (holdWorkspace n)" "still h (takeSnapshot n)" "still h (buildVisible n snap)" "still h (readTree n tree)"
  "still h (mergeTrees n base local remote)" "still h (materializeTree n merged local)" "still h (restoreProtected n tree snap changed)"
  "still h (changedProtected n localTree tree)" "still h (drawID n)" "still h (makeCommit n spec)" "still h (exportCheckpoint n head)"
  "still h (markShallow n head)" "still h (markPulled n)"
  unfolding holdWorkspace_def takeSnapshot_def buildVisible_def readTree_def mergeTrees_def materializeTree_def restoreProtected_def
    changedProtected_def drawID_def makeCommit_def exportCheckpoint_def markShallow_def markPulled_def
  by (intro still_rules)+

lemma still_summary [still_rules]: "still h (summarySnapshots n base result)" "still h (diffStat n base result)"
  unfolding diffStat_def summarySnapshots_def by (intro still_rules)+

lemma still_checks [still_rules]:
  "still h (enforcePolicy n local localTree)" "still h (rejectNewFoldedPairs n remoteTree mergedTree)"
  unfolding enforcePolicy_def rejectNewFoldedPairs_def by (intro still_rules)+

lemma still_build [still_rules]:
  "still h (buildProposal n remote tree message time)" "still h (buildCompactingProposal n remote p)"
  unfolding buildProposal_def buildFirstProposal_def buildIncrementProposal_def buildCompactingProposal_def by (intro still_rules)+

lemma still_lookup [still_rules]: "still h (lookupPublication n k ident)" "still h (checkpointAccepted n cpID)" "still h (cleanupRoots n)"
  unfolding lookupPublication_def checkpointAccepted_def cleanupRoots_def by (intro still_rules)+

lemma still_metrics [still_rules]: "still h failCleanup" "still h failCheckpoint"
  unfolding failCleanup_def failCheckpoint_def by (intro still_rules)+

lemma still_conflict: "still h after \<Longrightarrow> still h (conflictResult n baseline merged local after)"
  unfolding conflictResult_def by (intro still_rules | assumption)+

text \<open>A pull, a status and a log write nothing.\<close>

lemma still_pullAttempt [still_rules]: "still h (pullAttempt n mode)"
proof -
  have "still h (guardFirstPull n local remote)" "still h (pinProtected n local localTree)" for local remote localTree
    unfolding guardFirstPull_def pinProtected_def by (intro still_rules)+
  moreover have "still h (conflictResult n baseline merged local (markPulled n))" for baseline merged local
    by (rule still_conflict) (rule still_local)
  ultimately show ?thesis unfolding pullAttempt_def by (intro still_rules)
qed

lemma still_views: "still h (notebook_Pull n)" "still h (notebook_Status n)" "still h (notebook_Log n limit)"
  unfolding notebook_Pull_def pull_def notebook_Status_def notebook_Log_def by (intro still_rules)+

end

section \<open>The contract of a notebook's store\<close>

context conditional_store
begin

lemma only_put: "only key (PutObject S key rd meta)"
  unfolding only_def
proof (intro allI impI)
  fix s r s' k assume p: "PutObject S key rd meta s = (r, s')" and "k \<noteq> key"
  then show "look s' k = look s k" using put_ok [of key rd meta s s'] put_err [of key rd meta s _ s'] by (cases r) (auto simp: landed_def)
qed

lemma UploadUnique_only: "only (Key_String lib key) (UploadUnique sha lib S key rd meta)"
  unfolding UploadUnique_def VerifyObject_def
  by (auto intro!: only_bind only_try only_put only_read split: sum.splits prod.splits option.splits)

lemma delete_other:
  assumes "DeleteObjects S keys s = (r, s')" "k \<notin> set keys" shows "look s' k = look s k"
proof (cases r)
  case (Inl e)
  then obtain gone where "gone \<subseteq> set keys" "look s' = look s |` (- gone)" using delete_err [of keys s e s'] assms(1) by auto
  then show ?thesis using assms(2) by (auto simp: restrict_map_def)
next
  case (Inr u)
  then show ?thesis using delete_ok [of keys s s'] assms by (simp add: restrict_map_def)
qed

end

text \<open>
  IDs, digests and object IDs have the lengths their Go types give them, and the checkpoint threshold is
  positive, which the constructor checks.
\<close>

definition well_made :: "('w, 'r, 's) Notebook \<Rightarrow> bool" where
  "well_made n \<longleftrightarrow> 0 < n_checkpointPacks n \<and>
     (\<forall>i u. n_newID n i = Some u \<longrightarrow> uuid7 (n_lib n) u) \<and> (\<forall>d. length (n_sha n d) = 32) \<and>
     (\<forall>r spec x r'. repo_CreateCommit (n_repo n) r spec = Inr (x, r') \<longrightarrow> length x = 20)"

locale store_client = conditional_store "n_store n" look + json_text "n_json n" + uuid_text "n_lib n"
  for n :: "('w, 'r, 's) Notebook" and look
begin

lemma reader: "store_reader n look"
  by unfold_locales (rule read_view)

lemma reader_at: "store_reader n (\<lambda>s. look s k)"
  by unfold_locales (simp add: read_view)

lemma Key_String_not_current: "Key_String (n_lib n) key \<noteq> CurrentKey"
  by (simp add: Key_String_def key_text_def CurrentKey_def)

lemma still_upload_key:
  "k \<noteq> Key_String (n_lib n) (pr_key p) \<Longrightarrow> still (\<lambda>s. look s k) (uploadProposal n p)"
  unfolding uploadProposal_def using UploadUnique_only
  by (intro still_mapErrS still_onStore) (auto simp: only_def)

abbreviation cur :: "'s \<Rightarrow> (bytes \<times> etag) option" where "cur s \<equiv> look s CurrentKey"

lemma still_upload: "still cur (uploadProposal n p)"
  by (rule still_upload_key) (rule Key_String_not_current [symmetric])

lemma still_uploadOrCompact: "still cur (uploadOrCompact n remote p)"
  unfolding uploadOrCompact_def
  by (intro still_rules still_upload store_reader.still_build [OF reader_at])

text \<open>The store holds manifest \<open>m\<close> as the accepted state.\<close>

definition accepted :: "(bytes \<times> etag) option \<Rightarrow> Manifest \<Rightarrow> bool" where
  "accepted c m \<longleftrightarrow> (\<exists>d t. c = Some (d, t) \<and> decodeCurrent n d = Inr m)"

lemma accepted_unique: "accepted c m \<Longrightarrow> accepted c m' \<Longrightarrow> m = m'"
  by (auto simp: accepted_def)

lemma accepted_ok: "accepted c m \<Longrightarrow> typed_manifest (n_lib n) m \<and> valid_manifest (n_lib n) m"
  using DecodeManifest_Inr by (auto simp: accepted_def decodeCurrent_def)

lemma accepted_written:
  assumes "typed_manifest (n_lib n) m" "EncodeManifest (n_lib n) m = Inr stream"
  shows "accepted (Some (jl_text (n_json n) stream, t)) m"
  using assms DecodeManifest_Encode read_back [OF valid_texts_ascii [OF ascii_manifest [OF uuid_text_axioms assms(1)]]]
  by (auto simp: accepted_def decodeCurrent_def EncodeManifest_Inr)

text \<open>The accepted state \<open>c\<close> was replaced by one with a larger generation.\<close>

definition advanced :: "(bytes \<times> etag) option \<Rightarrow> (bytes \<times> etag) option \<Rightarrow> bool" where
  "advanced c c' \<longleftrightarrow> (\<exists>m'. accepted c' m' \<and> (\<forall>m. accepted c m \<longrightarrow> mf_Generation m < mf_Generation m'))"

lemma advanced_trans: "advanced a b \<Longrightarrow> advanced b c \<Longrightarrow> advanced a c"
  unfolding advanced_def by (meson order.strict_trans)

section \<open>Reading the accepted state\<close>

lemma readCurrent_ok:
  assumes "readCurrent n \<sigma> = (Inr (Some (d, t)), \<sigma>')" shows "cur (nb_store \<sigma>) = Some (d, t)"
proof -
  obtain r s' where rd: "ReadObject (n_store n) CurrentKey (nb_store \<sigma>) = (r, s')" by fastforce
  then obtain info where "r = Inr (Some d, info)" "t = oi_ETag info"
    using assms by (auto simp: readCurrent_def tryS_def onStore_def split: sum.splits option.splits if_splits)
  then show ?thesis using read_ok [of CurrentKey "nb_store \<sigma>" d info s'] rd by simp
qed

lemma validateRemote_ok: "yields (validateRemote n m etag) (\<lambda>st. \<exists>tree. st = acceptedState m etag tree)"
  unfolding validateRemote_def by (intro yields_rules) blast

lemma reuseAccepted_ok: "yields (reuseAccepted n m etag) (\<lambda>opt. \<forall>st. opt = Some st \<longrightarrow> (\<exists>tree. st = acceptedState m etag tree))"
  unfolding reuseAccepted_def by (intro yields_rules) auto

lemma loadRemote_ok:
  assumes "loadRemote n m etag mode \<sigma> = (Inr st, \<sigma>')" shows "\<exists>tree. st = acceptedState m etag tree"
proof -
  have reused: "yields (if mode = loadReusing then reuseAccepted n m etag else retS None)
      (\<lambda>opt. \<forall>st. opt = Some st \<longrightarrow> (\<exists>tree. st = acceptedState m etag tree))"
    by (intro yields_rules reuseAccepted_ok) simp
  have "yields (loadRemote n m etag mode) (\<lambda>st. \<exists>tree. st = acceptedState m etag tree)"
    unfolding loadRemote_def
  proof (rule yields_bindS_with [OF reused])
    fix opt :: "remoteState option" assume o: "\<forall>st. opt = Some st \<longrightarrow> (\<exists>tree. st = acceptedState m etag tree)"
    show "yields (case opt of Some st \<Rightarrow> retS st | None \<Rightarrow>
        bindS (importRemote n m importMissing) (\<lambda>_. tryS (validateRemote n m etag) (\<lambda>r. case r of Inr st \<Rightarrow> retS st
          | Inl (verdict, err) \<Rightarrow> if verdict \<noteq> validationObjectsMissing then failS err
             else bindS (importRemote n m importAll) (\<lambda>_. mapErrS snd (validateRemote n m etag)))))
        (\<lambda>st. \<exists>tree. st = acceptedState m etag tree)"
    proof (cases opt)
      case None
      show ?thesis unfolding None option.case
        by (rule yields_bindS, rule yields_tryS_with [OF validateRemote_ok])
          (simp_all only: sum.case, (intro yields_rules validateRemote_ok, assumption?)+)
    next
      case (Some st)
      then show ?thesis using o by (simp only: option.case) (intro yields_basic, simp)
    qed
  qed
  then show ?thesis using assms by (rule yieldsD)
qed

text \<open>A remote state that was read is the empty one or the accepted manifest under its ETag.\<close>

definition observed :: "(bytes \<times> etag) option \<Rightarrow> remoteState \<Rightarrow> bool" where
  "observed c st \<longleftrightarrow> st = emptyRemote \<or>
     (\<exists>d m t tree. c = Some (d, t) \<and> decodeCurrent n d = Inr m \<and> st = acceptedState m t tree)"

lemma read_round_ok:
  assumes run: "read_round n mode final again \<sigma> = (Inr st, \<sigma>')"
    and again: "\<And>\<sigma>1 \<sigma>1'. again \<sigma>1 = (Inr st, \<sigma>1') \<Longrightarrow> observed (cur (nb_store \<sigma>1)) st"
  shows "observed (cur (nb_store \<sigma>)) st"
proof -
  from run obtain c \<sigma>1 where rc: "readCurrent n \<sigma> = (Inr c, \<sigma>1)"
    by (auto simp: read_round_def bindS_Inr)
  have same: "cur (nb_store \<sigma>1) = cur (nb_store \<sigma>)"
    by (rule stillD [OF store_reader.still_readCurrent [OF reader_at] rc])
  show ?thesis
  proof (cases c)
    case None
    then show ?thesis using run rc by (simp add: read_round_def bindS_apply observed_def)
  next
    case (Some dt)
    obtain d t where dt: "dt = (d, t)" by fastforce
    have c: "cur (nb_store \<sigma>) = Some (d, t)" using readCurrent_ok rc Some dt by simp
    obtain m where m: "decodeCurrent n d = Inr m" and load: "tryS (loadRemote n m t mode) (\<lambda>r.
        case r of Inr st \<Rightarrow> retS st
        | Inl err \<Rightarrow> if \<not> is_stale err then failS err else if final then failS (storageIntegrity ReasonPackInvalid None)
            else bindS (readCurrent n) (\<lambda>cur'. case cur' of None \<Rightarrow> failS (storageIntegrity ReasonPackInvalid None)
              | Some (_, newETag) \<Rightarrow> if newETag = t then failS (storageIntegrity ReasonPackInvalid None) else again)) \<sigma>1 = (Inr st, \<sigma>')"
      using run rc Some dt by (auto simp: read_round_def bindS_apply getS_def split: sum.splits)
    obtain r \<sigma>2 where l: "loadRemote n m t mode \<sigma>1 = (r, \<sigma>2)" by fastforce
    have same2: "cur (nb_store \<sigma>2) = cur (nb_store \<sigma>)"
      using stillD [OF store_reader.still_loadRemote [OF reader_at] l] same by simp
    show ?thesis
    proof (cases r)
      case (Inr st')
      then have "st' = st" using load l by (simp add: tryS_def)
      then show ?thesis using loadRemote_ok [of m t mode \<sigma>1 st' \<sigma>2] l Inr c m by (auto simp: observed_def)
    next
      case (Inl err)
      then obtain c' \<sigma>3 where r2: "readCurrent n \<sigma>2 = (Inr c', \<sigma>3)" and ag: "again \<sigma>3 = (Inr st, \<sigma>')"
        using load l by (auto simp: tryS_def bindS_apply split: if_splits sum.splits prod.splits option.splits)
      have "cur (nb_store \<sigma>3) = cur (nb_store \<sigma>)"
        using stillD [OF store_reader.still_readCurrent [OF reader_at] r2] same2 by simp
      then show ?thesis using again [OF ag] by simp
    qed
  qed
qed

lemma read_loop_ok: "read_loop n mode k \<sigma> = (Inr st, \<sigma>') \<Longrightarrow> observed (cur (nb_store \<sigma>)) st"
  by (induction k arbitrary: \<sigma> \<sigma>') (simp_all only: read_loop.simps, (erule read_round_ok, simp)+)

lemma readRemote_ok:
  "readRemoteMode n mode \<sigma> = (Inr st, \<sigma>') \<Longrightarrow> observed (cur (nb_store \<sigma>)) st"
  "readRemote n \<sigma> = (Inr st, \<sigma>') \<Longrightarrow> observed (cur (nb_store \<sigma>)) st"
  by (simp_all add: readRemote_def readRemoteMode_def read_loop_ok)

lemma observed_generation: "observed c st \<Longrightarrow> rs_generation st = mf_Generation (rs_manifest st) \<and> rs_head st = mf_Head (rs_manifest st)"
  by (auto simp: observed_def emptyRemote_def acceptedState_def zeroManifest_def)

lemma observed_accepted: "observed c st \<Longrightarrow> rs_generation st \<noteq> 0 \<Longrightarrow> accepted c (rs_manifest st) \<and> (\<exists>d. c = Some (d, rs_etag st))"
  by (auto simp: observed_def emptyRemote_def acceptedState_def accepted_def)

section \<open>Cleanup\<close>

text \<open>What cleanup must not touch: an object that is no candidate, and one the accepted manifest references.\<close>

definition protected :: "u64 \<Rightarrow> (bytes \<times> etag) option \<Rightarrow> bytes \<Rightarrow> bool" where
  "protected cutoff c k \<longleftrightarrow> \<not> is_candidate (n_lib n) cutoff k \<or> (\<forall>m. accepted c m \<longrightarrow> k \<in> set (manifestRoots (n_lib n) m))"

lemma current_protected: "protected cutoff c CurrentKey"
proof -
  have "\<not> is_candidate (n_lib n) cutoff CurrentKey"
    using Key_String_not_current [symmetric] by (auto simp: is_candidate_def ParseKey_iff split: sum.splits)
  then show ?thesis by (simp add: protected_def)
qed

lemma cleanupRoots_ok:
  assumes "cleanupRoots n \<sigma> = (Inr active, \<sigma>')"
  shows "\<exists>m. accepted (cur (nb_store \<sigma>)) m \<and> active = manifestRoots (n_lib n) m"
proof -
  from assms obtain d t \<sigma>1 m where "readCurrent n \<sigma> = (Inr (Some (d, t)), \<sigma>1)" "decodeCurrent n d = Inr m"
      "active = manifestRoots (n_lib n) m"
    by (auto simp: cleanupRoots_def bindS_Inr bindR_eq_Inr split: option.splits)
  then show ?thesis using readCurrent_ok [of \<sigma> d t \<sigma>1] by (auto simp: accepted_def)
qed

lemma cleanup_batches_keep:
  assumes "\<forall>x \<in> set cands. is_candidate (n_lib n) cutoff x" "cleanup_batches n (cleanupRoots n) cands \<sigma> = (r, \<sigma>')"
    "protected cutoff (cur (nb_store \<sigma>)) k"
  shows "look (nb_store \<sigma>') k = look (nb_store \<sigma>) k"
  using assms
proof (induction cands arbitrary: \<sigma> k r rule: length_induct)
  case (1 cands)
  show ?case
  proof (cases "cands = []")
    case True
    then show ?thesis using "1.prems"(2) by (simp add: cleanup_batches.simps)
  next
    case False
    let ?rest = "drop cleanupBatchSize cands"
    have shorter: "length ?rest < length cands" using False by (simp add: cleanupBatchSize_def)
    have rest: "\<forall>x \<in> set ?rest. is_candidate (n_lib n) cutoff x" using "1.prems"(1) by (meson in_set_dropD)
    obtain q \<sigma>1 where roots: "cleanupRoots n \<sigma> = (q, \<sigma>1)" by fastforce
    have s1: "look (nb_store \<sigma>1) x = look (nb_store \<sigma>) x" for x
      using stillD [OF store_reader.still_lookup(3) [OF reader] roots] by simp
    show ?thesis
    proof (cases q)
      case (Inl e)
      then show ?thesis using "1.prems"(2) roots s1 False
        by (auto simp: cleanup_batches.simps [of n _ cands] tryS_def failCleanup_def onMetrics_def modS_def)
    next
      case (Inr active)
      let ?doomed = "filter (\<lambda>key. key \<notin> set active) (take cleanupBatchSize cands)"
      obtain m where m: "accepted (cur (nb_store \<sigma>)) m" "active = manifestRoots (n_lib n) m"
        using cleanupRoots_ok roots Inr by blast
      have spared: "x \<notin> set ?doomed" if "protected cutoff (cur (nb_store \<sigma>)) x" for x
        using that m "1.prems"(1) by (auto simp: protected_def dest: in_set_takeD)
      obtain \<sigma>2 r2 where next_run: "cleanup_batches n (cleanupRoots n) ?rest \<sigma>2 = (r2, \<sigma>')"
        and s2: "\<And>x. x \<notin> set ?doomed \<Longrightarrow> look (nb_store \<sigma>2) x = look (nb_store \<sigma>) x"
      proof (cases "?doomed = []")
        case True
        then have "cleanup_batches n (cleanupRoots n) ?rest \<sigma>1 = (r, \<sigma>')"
          using "1.prems"(2) roots Inr False by (simp add: cleanup_batches.simps [of n _ cands] tryS_def Let_def)
        then show ?thesis using that s1 by blast
      next
        case dne: False
        obtain dr s2 where del: "DeleteObjects (n_store n) ?doomed (nb_store \<sigma>1) = (dr, s2)" by fastforce
        obtain \<sigma>2 where "cleanup_batches n (cleanupRoots n) ?rest \<sigma>2 = (r, \<sigma>')" "nb_store \<sigma>2 = s2"
          using "1.prems"(2) roots Inr False dne del
          by (cases dr) (auto simp: cleanup_batches.simps [of n _ cands] tryS_def Let_def onStore_def bindS_apply failCleanup_def
              onMetrics_def modS_def)
        then show ?thesis using that delete_other [OF del] s1 by metis
      qed
      have "cur (nb_store \<sigma>2) = cur (nb_store \<sigma>)" by (rule s2 [OF spared [OF current_protected]])
      then have "look (nb_store \<sigma>') k = look (nb_store \<sigma>2) k"
        using "1.IH" [rule_format, OF shorter _ next_run] rest "1.prems"(3) by simp
      then show ?thesis using s2 [OF spared [OF "1.prems"(3)]] by simp
    qed
  qed
qed

lemma list_candidates_ok:
  "list_candidates n cutoff nss \<sigma> = (r, \<sigma>') \<Longrightarrow>
     look (nb_store \<sigma>') = look (nb_store \<sigma>) \<and> (\<forall>cands. r = Inr cands \<longrightarrow> (\<forall>x \<in> set cands. is_candidate (n_lib n) cutoff x))"
proof (induction nss arbitrary: \<sigma> r \<sigma>')
  case Nil
  then show ?case by auto
next
  case (Cons ns nss)
  obtain l s1 where li: "ListObjects (n_store n) ns (nb_store \<sigma>) = (l, s1)" by fastforce
  have v: "look s1 = look (nb_store \<sigma>)" by (rule list_view [OF li])
  show ?case
  proof (cases l)
    case (Inl e)
    then show ?thesis using Cons.prems li v by (auto simp: bindS_apply mapErrS_apply onStore_def)
  next
    case (Inr keys)
    obtain r2 \<sigma>2 where rest: "list_candidates n cutoff nss (\<sigma>\<lparr>nb_store := s1\<rparr>) = (r2, \<sigma>2)" by fastforce
    then show ?thesis using Cons.IH [OF rest] Cons.prems li v Inr
      by (cases r2) (auto simp: bindS_apply mapErrS_apply onStore_def)
  qed
qed

lemma cleanup_keeps:
  assumes "cleanup n cutoff \<sigma> = (r, \<sigma>')" "protected cutoff (cur (nb_store \<sigma>)) k"
  shows "look (nb_store \<sigma>') k = look (nb_store \<sigma>) k"
proof -
  let ?\<sigma>0 = "\<sigma>\<lparr>nb_metrics := (nb_metrics \<sigma>)\<lparr>m_CleanupRuns := m_CleanupRuns (nb_metrics \<sigma>) + 1\<rparr>\<rparr>"
  obtain l \<sigma>1 where li: "list_candidates n cutoff [''packs/checkpoints/'', ''packs/increments/''] ?\<sigma>0 = (l, \<sigma>1)" by fastforce
  have v: "look (nb_store \<sigma>1) = look (nb_store \<sigma>)" and c: "\<And>cands. l = Inr cands \<Longrightarrow> \<forall>x \<in> set cands. is_candidate (n_lib n) cutoff x"
    using list_candidates_ok [OF li] by auto
  show ?thesis
  proof (cases l)
    case (Inl e)
    then show ?thesis using assms(1) li v
      by (auto simp: cleanup_def cleanupPacks_def bindS_apply tryS_def onMetrics_def modS_def failCleanup_def simp del: list_candidates.simps)
  next
    case (Inr cands)
    then obtain \<sigma>2 where "cleanup_batches n (cleanupRoots n) cands \<sigma>2 = (r, \<sigma>')" "nb_store \<sigma>2 = nb_store \<sigma>1"
      using assms(1) li by (auto simp: cleanup_def cleanupPacks_def bindS_apply tryS_def onMetrics_def modS_def simp del: list_candidates.simps)
    then show ?thesis using cleanup_batches_keep [OF c [OF Inr], of \<sigma>2 r \<sigma>' k] assms(2) v by simp
  qed
qed

lemma still_cleanup: "still cur (cleanup n cutoff)"
  unfolding still_def using cleanup_keeps current_protected by blast

end

text \<open>
  A notebook on the in-memory store keeps the contract, with the numbering of token streams as its JSON
  library and canonical UUID text.
\<close>

interpretation fake_reader: store_reader "n\<lparr>n_store := fake_store md5\<rparr>" fake_look for n md5
  by unfold_locales (simp add: fake.read_view)

interpretation fake_nb: store_client "n\<lparr>n_store := fake_store md5, n_json := numbering_json, n_lib := canonical_uuid\<rparr>" fake_look for n md5
  by (simp add: store_client_def fake.conditional_store_axioms numbering.json_text_axioms cuuid.uuid_text_axioms)

end
