(* ===== verification/NotebookAccept.thy ===== *)
theory NotebookAccept
  imports NotebookStore
begin

text \<open>
  What \<open>publish\<close>, the checkpoint worker and \<open>Commit\<close> do to the accepted state, on a store that honours conditional
  writes. A publication that reports success is recorded in the manifest the store holds (\<open>publish_proved\<close>). A
  commit leaves the accepted manifest alone or replaces it by one with a larger generation
  (\<open>commit_moves_forward\<close>); when it reports a refusal, it has left it alone (\<open>commit_refusals_clean\<close>).
\<close>

section \<open>Errors of a lookup\<close>

definition has_code :: "nb_error \<Rightarrow> Code \<Rightarrow> bool" where
  "has_code e c \<longleftrightarrow> (\<exists>r a fs rep cs. e = Error c r a fs rep cs)"

text \<open>The error leaves open what the store holds.\<close>

definition undecided :: "nb_error \<Rightarrow> bool" where
  "undecided e \<longleftrightarrow> \<not> engineFailed e \<and> (has_code e CodeStorageFailure \<or> has_code e CodeStorageIntegrity \<or> has_code e CodeRecoveryFailure)"

lemma has_code_simps [simp]:
  "has_code (storageFailure reason cause) c \<longleftrightarrow> c = CodeStorageFailure"
  "has_code (storageIntegrity reason cause) c \<longleftrightarrow> c = CodeStorageIntegrity"
  "has_code (recoveryFailure report cause resync) c \<longleftrightarrow> c = CodeRecoveryFailure"
  by (auto simp: has_code_def storageFailure_def storageIntegrity_def recoveryFailure_def Let_def)

lemma plain_cause [simp]:
  "\<not> is_cas_lost (storageFailure reason None)" "\<not> is_refused (storageFailure reason None)"
  "\<not> is_cas_lost (storageFailure reason (Some (StoreErr e)))" "\<not> is_refused (storageFailure reason (Some (StoreErr e)))"
  "\<not> is_cas_lost (storageFailure reason (Some (DecodeErr d)))" "\<not> is_refused (storageFailure reason (Some (DecodeErr d)))"
  "\<not> is_cas_lost (storageFailure reason (Some BodyErr))" "\<not> is_refused (storageFailure reason (Some BodyErr))"
  "\<not> is_cas_lost (storageFailure reason (Some EnvelopeErr))" "\<not> is_refused (storageFailure reason (Some EnvelopeErr))"
  "\<not> is_cas_lost (storageIntegrity reason None)" "\<not> is_refused (storageIntegrity reason None)"
  "\<not> is_cas_lost (storageIntegrity reason (Some (StoreErr e)))" "\<not> is_refused (storageIntegrity reason (Some (StoreErr e)))"
  "\<not> is_cas_lost (storageIntegrity reason (Some (DecodeErr d)))" "\<not> is_refused (storageIntegrity reason (Some (DecodeErr d)))"
  "\<not> is_cas_lost (storageIntegrity reason (Some EnvelopeErr))" "\<not> is_refused (storageIntegrity reason (Some EnvelopeErr))"
  by (simp_all add: is_cas_lost_def is_refused_def storageFailure_def storageIntegrity_def Let_def)

definition lookup_error :: "nb_error \<Rightarrow> bool" where
  "lookup_error e \<longleftrightarrow> undecided e \<and> \<not> is_cas_lost e \<and> \<not> is_refused e"

lemma lookup_error_simps [simp]:
  "lookup_error (storageFailure reason None)" "lookup_error (storageFailure reason (Some (StoreErr e)))"
  "lookup_error (storageFailure reason (Some BodyErr))" "lookup_error (storageFailure reason (Some EnvelopeErr))"
  "lookup_error (storageFailure reason (Some (DecodeErr d)))"
  "lookup_error (manifestError (StoreErr e))" "lookup_error (manifestError (DecodeErr d))"
  "lookup_error (storageIntegrity ReasonEnvelopeInvalid (Some EnvelopeErr))"
  by (simp_all add: lookup_error_def undecided_def manifestError_def)

lemma readCurrent_error: "readCurrent n \<sigma> = (Inl e, \<sigma>') \<Longrightarrow> lookup_error e"
  by (auto simp: readCurrent_def tryS_def onStore_def keyMaterialError_def split: prod.splits sum.splits option.splits if_splits)

lemma decodeStored_error: "decodeStoredCurrent n k data = Inl e \<Longrightarrow> lookup_error e"
  by (auto simp: decodeStoredCurrent_def encryptionOpenError_def bindR_def mapErr_def split: sum.splits prod.splits option.splits if_splits
      open_error.splits)

lemma lookup_fails: "lookupPublication n k ident \<sigma> = (Inl e, \<sigma>') \<Longrightarrow> lookup_error e"
  by (auto simp: lookupPublication_def bindS_Inl dest: readCurrent_error decodeStored_error split: option.splits)

section \<open>Publishing\<close>

context store_client
begin

lemma write_current:
  assumes "(if first then CreateObject (n_store n) CurrentKey d else ReplaceObject (n_store n) CurrentKey t d) s = (w, s')"
  shows "look s' = look s \<and> (\<exists>e. w = Inl e) \<or>
    landed (look s) CurrentKey d (look s') \<and> (first \<longrightarrow> cur s = None) \<and> (\<not> first \<longrightarrow> (\<exists>d0. cur s = Some (d0, t))) \<and>
    (\<forall>e. w = Inl e \<longrightarrow> e = ErrTransport)"
proof (cases first)
  case True
  then have c: "CreateObject (n_store n) CurrentKey d s = (w, s')" using assms by simp
  show ?thesis
  proof (cases w)
    case (Inl e)
    then show ?thesis using create_err [of CurrentKey d s e s'] c True by auto
  next
    case (Inr u)
    then show ?thesis using create_ok [of CurrentKey d s u s'] c True by (auto simp: landed_def)
  qed
next
  case False
  then have c: "ReplaceObject (n_store n) CurrentKey t d s = (w, s')" using assms by simp
  show ?thesis
  proof (cases w)
    case (Inl e)
    then show ?thesis using replace_err [of CurrentKey t d s e s'] c False by auto
  next
    case (Inr u)
    then show ?thesis using replace_ok [of CurrentKey t d s u s'] c False by (auto simp: landed_def)
  qed
qed

text \<open>A manifest written under the ETag of the state it was built from moves that state forward.\<close>

lemma landed_advances:
  assumes "landed (look s) CurrentKey (jl_text (n_json n) stream) (look s')" "EncodeManifest (n_lib n) m' = Inr stream"
    "typed_manifest (n_lib n) m'" "observed (cur s) remote" "mf_Generation m' = rs_generation remote + 1"
    "rs_generation remote = 0 \<longrightarrow> cur s = None" "rs_generation remote \<noteq> 0 \<longrightarrow> (\<exists>d0. cur s = Some (d0, rs_etag remote))"
  shows "accepted (cur s') m'" "advanced (cur s) (cur s')" "k \<noteq> CurrentKey \<Longrightarrow> look s' k = look s k"
proof -
  obtain t where l: "look s' = (look s)(CurrentKey \<mapsto> (jl_text (n_json n) stream, t))" using assms(1) by (auto simp: landed_def)
  then show acc: "accepted (cur s') m'" using accepted_written [OF assms(3,2)] by simp
  show "k \<noteq> CurrentKey \<Longrightarrow> look s' k = look s k" using l by simp
  have "mf_Generation m' \<noteq> 0" using assms(2) by (simp add: EncodeManifest_Inr valid_manifest_def)
  then have "rs_generation remote < mf_Generation m'" unfolding assms(5)
    using unatSuc [of "rs_generation remote"] by (simp add: word_less_nat_alt add.commute)
  moreover have "mf_Generation m = rs_generation remote" if "accepted (cur s) m" for m
  proof (cases "rs_generation remote = 0")
    case True
    then show ?thesis using assms(6) that by (auto simp: accepted_def)
  next
    case False
    then show ?thesis using observed_accepted [OF assms(4)] observed_generation [OF assms(4)] accepted_unique that by metis
  qed
  ultimately show "advanced (cur s) (cur s')" using acc by (auto simp: advanced_def)
qed

lemma publish_effect:
  assumes run: "publish n remote p \<sigma> = (r, \<sigma>')" and typed: "typed_manifest (n_lib n) (pr_manifest p)"
    and obs: "observed (cur (nb_store \<sigma>)) remote" and gen: "mf_Generation (pr_manifest p) = rs_generation remote + 1"
  shows "look (nb_store \<sigma>') = look (nb_store \<sigma>) \<or>
    accepted (cur (nb_store \<sigma>')) (pr_manifest p) \<and> advanced (cur (nb_store \<sigma>)) (cur (nb_store \<sigma>')) \<and>
    (\<forall>k. k \<noteq> CurrentKey \<longrightarrow> look (nb_store \<sigma>') k = look (nb_store \<sigma>) k) \<and> (\<forall>e. r = Inl e \<longrightarrow> lookup_error e)"
proof (cases "EncodeManifest (n_lib n) (pr_manifest p)")
  case (Inl e)
  then show ?thesis using run by (auto simp: publish_def bindS_apply)
next
  case (Inr stream)
  let ?d = "jl_text (n_json n) stream"
  let ?W = "if rs_generation remote = 0 then CreateObject (n_store n) CurrentKey ?d else ReplaceObject (n_store n) CurrentKey (rs_etag remote) ?d"
  obtain w s1 where w: "?W (nb_store \<sigma>) = (w, s1)" by fastforce
  let ?\<sigma>1 = "\<sigma>\<lparr>nb_store := s1\<rparr>"
  have after: "look (nb_store \<sigma>') = look s1 \<and> ((\<exists>u. w = Inr u) \<or> w = Inl ErrTransport \<longrightarrow> (\<forall>e. r = Inl e \<longrightarrow> lookup_error e))"
  proof (cases w)
    case (Inr u)
    then show ?thesis using run w \<open>EncodeManifest (n_lib n) (pr_manifest p) = Inr stream\<close>
      by (auto simp: publish_def bindS_apply Let_def tryS_def onStore_def)
  next
    case (Inl err)
    obtain f \<sigma>2 where lk: "lookupPublication n None (pr_publicationID p) ?\<sigma>1 = (f, \<sigma>2)" by fastforce
    have v: "look (nb_store \<sigma>2) = look s1" using stillD [OF store_reader.still_lookup(1) [OF reader] lk] by simp
    show ?thesis
    proof (cases f)
      case (Inl e)
      then show ?thesis using run w \<open>EncodeManifest (n_lib n) (pr_manifest p) = Inr stream\<close> \<open>w = Inl err\<close> lk v lookup_fails [of n None _ ?\<sigma>1 e]
        by (auto simp: publish_def bindS_apply Let_def tryS_def onStore_def split: if_splits)
    next
      case (Inr found)
      then show ?thesis using run w \<open>EncodeManifest (n_lib n) (pr_manifest p) = Inr stream\<close> \<open>w = Inl err\<close> lk v
        by (auto simp: publish_def bindS_apply Let_def tryS_def onStore_def split: if_splits)
    qed
  qed
  from write_current [OF w] show ?thesis
  proof
    assume "look s1 = look (nb_store \<sigma>) \<and> (\<exists>e. w = Inl e)"
    then show ?thesis using after by simp
  next
    assume l: "landed (look (nb_store \<sigma>)) CurrentKey ?d (look s1) \<and> (rs_generation remote = 0 \<longrightarrow> cur (nb_store \<sigma>) = None) \<and>
      (rs_generation remote \<noteq> 0 \<longrightarrow> (\<exists>d0. cur (nb_store \<sigma>) = Some (d0, rs_etag remote))) \<and> (\<forall>e. w = Inl e \<longrightarrow> e = ErrTransport)"
    note adv = landed_advances [OF conjunct1 [OF l] Inr typed obs gen]
    have "accepted (cur s1) (pr_manifest p)" "advanced (cur (nb_store \<sigma>)) (cur s1)"
      "\<And>k. k \<noteq> CurrentKey \<Longrightarrow> look s1 k = look (nb_store \<sigma>) k" using adv l by blast+
    moreover have "\<forall>e. r = Inl e \<longrightarrow> lookup_error e" using after l by (cases w) auto
    ultimately show ?thesis using after by simp
  qed
qed

lemma publish_recorded:
  assumes run: "publish n remote p \<sigma> = (Inr u, \<sigma>')" and typed: "typed_manifest (n_lib n) (pr_manifest p)"
    and own: "publicationIn (pr_manifest p) (pr_publicationID p)"
  shows "\<exists>m. accepted (cur (nb_store \<sigma>')) m \<and> publicationIn m (pr_publicationID p)"
proof -
  obtain stream where enc: "EncodeManifest (n_lib n) (pr_manifest p) = Inr stream" using run by (auto simp: publish_def bindS_Inr)
  let ?d = "jl_text (n_json n) stream"
  let ?W = "if rs_generation remote = 0 then CreateObject (n_store n) CurrentKey ?d else ReplaceObject (n_store n) CurrentKey (rs_etag remote) ?d"
  obtain w s1 where w: "?W (nb_store \<sigma>) = (w, s1)" by fastforce
  show ?thesis
  proof (cases w)
    case (Inr v)
    then obtain t where "cur s1 = Some (?d, t)" using write_current [OF w] by (auto simp: landed_def)
    moreover have "nb_store \<sigma>' = s1" using run enc w Inr by (auto simp: publish_def bindS_apply Let_def tryS_def onStore_def)
    ultimately show ?thesis using accepted_written [OF typed enc] own by auto
  next
    case (Inl err)
    then have "lookupPublication n None (pr_publicationID p) (\<sigma>\<lparr>nb_store := s1\<rparr>) = (Inr True, \<sigma>')"
      using run enc w by (auto simp: publish_def bindS_apply Let_def tryS_def onStore_def split: if_splits prod.splits sum.splits)
    then obtain d t where rc: "readCurrent n (\<sigma>\<lparr>nb_store := s1\<rparr>) = (Inr (Some (d, t)), \<sigma>')"
        and m: "\<exists>m. decodeStoredCurrent n None d = Inr m \<and> publicationIn m (pr_publicationID p)"
      by (auto simp: lookupPublication_def bindS_Inr split: option.splits)
    have "cur (nb_store \<sigma>') = Some (d, t)"
      using readCurrent_ok [OF rc] stillD [OF store_reader.still_readCurrent [OF reader_at] rc] by simp
    moreover have "\<exists>m. decodeCurrent n d = Inr m \<and> publicationIn m (pr_publicationID p)"
      using m by (auto simp: decodeStoredCurrent_def bindR_eq_Inr split: if_splits)
    ultimately show ?thesis by (auto simp: accepted_def)
  qed
qed

end

section \<open>Typed proposals\<close>

lemma typed_first:
  "\<lbrakk>uuid7 lib pubID; uuid7 lib cpID; length head = 20; length (pk_SHA256 pack) = 32\<rbrakk> \<Longrightarrow>
     typed_manifest lib (pr_manifest (first_proposal head tree pack pubID cpID))"
  by (simp add: first_proposal_def Let_def typed_manifest_def typed_checkpoint_def wf_key_def PackKind_Valid_def ManifestVersion_def)

lemma typed_increment_proposal:
  "\<lbrakk>typed_manifest lib m; uuid7 lib pubID; length parent = 20; length head = 20; length (pk_SHA256 pack) = 32\<rbrakk> \<Longrightarrow>
     typed_manifest lib (pr_manifest (increment_proposal m g parent head tree pack pubID))"
  by (simp add: increment_proposal_def Let_def typed_manifest_def typed_increment_def wf_key_def PackKind_Valid_def)

lemma typed_compacting:
  "\<lbrakk>typed_manifest lib (pr_manifest inc); uuid7 lib (pr_publicationID inc); uuid7 lib cpID; length (pk_SHA256 pack) = 32\<rbrakk> \<Longrightarrow>
     typed_manifest lib (pr_manifest (compacting_proposal inc pack cpID))"
  by (simp add: compacting_proposal_def Let_def typed_manifest_def typed_checkpoint_def wf_key_def PackKind_Valid_def)

lemma typed_compact:
  assumes "typed_manifest lib m" "plan = planCheckpoint obs th" "0 < th" "th \<le> length (mf_Increments obs)" "prefixPresent plan m"
    "uuid7 lib cpID" "length (pk_SHA256 pack) = 32"
  shows "typed_manifest lib (compactManifest rc m plan cpID \<lparr>key_Kind = KindCheckpoint, key_Generation = g, key_ID = cpID\<rparr> pack)"
proof -
  obtain l where l: "take th (mf_Increments m) \<noteq> []" "last (take th (mf_Increments m)) = l" "l \<in> set (mf_Increments m)"
    "pl_count plan = th" "pl_cutoff plan = inc_Generation l" "pl_head plan = inc_Head l" "pl_publication plan = inc_Publication l"
    "th \<le> length (mf_Increments m)" by (rule plan_last [OF assms(2-5)])
  have incs: "\<And>x. x \<in> set (mf_Increments m) \<Longrightarrow> typed_increment lib x" and rets: "\<And>x. x \<in> set (mf_Retained m) \<Longrightarrow> typed_retained lib x"
    and cp: "typed_checkpoint lib (mf_Checkpoint m)" and v: "mf_Version m = ManifestVersion"
    using assms(1) by (auto simp: typed_manifest_def list_all_iff)
  let ?r = "\<lparr>ret_RetiredAtGeneration = mf_Generation m + 1, ret_Head = pl_head plan, ret_Checkpoint = mf_Checkpoint m,
    ret_Increments = take th (mf_Increments m)\<rparr>"
  have lt: "uuid7 lib (inc_Publication l)" "length (inc_Head l) = 20" using incs [OF l(3)] by (auto simp: typed_increment_def)
  have r: "typed_retained lib ?r" using cp incs lt(2) by (auto simp: typed_retained_def list_all_iff l(6) dest: in_set_takeD)
  have "\<forall>x \<in> set (take rc (?r # mf_Retained m)). typed_retained lib x" using r rets by (auto dest!: in_set_takeD)
  moreover have "\<forall>x \<in> set (drop th (mf_Increments m)). typed_increment lib x" using incs by (auto dest: in_set_dropD)
  moreover have "drop th (mf_Increments m) \<noteq> [] \<Longrightarrow> length (inc_Head (last (drop th (mf_Increments m)))) = 20"
    using incs [OF in_set_dropD [OF last_in_set]] by (auto simp: typed_increment_def)
  ultimately show ?thesis
    using v lt assms(6,7)
    by (simp add: compactManifest_def Let_def typed_manifest_def list_all_iff l(4,6,7) typed_checkpoint_def wf_key_def PackKind_Valid_def)
qed

section \<open>What the building steps return\<close>

lemma yields_repo:
  "(\<And>r x. q r = Inr x \<Longrightarrow> Q x) \<Longrightarrow> yields (askRepo n q) Q"
  "(\<And>r x r'. u r = Inr (x, r') \<Longrightarrow> Q x) \<Longrightarrow> yields (onRepo n u) Q"
  by (auto simp: yields_def askRepo_def onRepo_def split: sum.splits prod.splits)

lemma writePack_sha: "writePack sha R r objects = Inr pack \<Longrightarrow> pk_SHA256 pack = sha (pk_Data pack)"
  by (auto simp: writePack_def bindR_eq_Inr)

lemma export_sha:
  "ExportCheckpoint sha R r fuel head = Inr pack \<Longrightarrow> pk_SHA256 pack = sha (pk_Data pack)"
  "ExportIncrement sha R r fuel head base = Inr pack \<Longrightarrow> pk_SHA256 pack = sha (pk_Data pack)"
  by (auto simp: ExportCheckpoint_def ExportIncrement_def bindR_eq_Inr Let_def dest: writePack_sha split: if_splits)

definition good_proposal :: "('w, 'r, 's) Notebook \<Rightarrow> remoteState \<Rightarrow> proposal \<Rightarrow> bool" where
  "good_proposal n remote p \<longleftrightarrow> typed_manifest (n_lib n) (pr_manifest p) \<and> mf_Generation (pr_manifest p) = rs_generation remote + 1 \<and>
     publicationIn (pr_manifest p) (pr_publicationID p) \<and> uuid7 (n_lib n) (pr_publicationID p)"

lemma good_first:
  "\<lbrakk>uuid7 (n_lib n) pubID; uuid7 (n_lib n) cpID; length head = 20; length (pk_SHA256 pack) = 32; rs_generation remote = 0\<rbrakk> \<Longrightarrow>
     good_proposal n remote (first_proposal head tree pack pubID cpID)"
  using typed_first [of "n_lib n" pubID cpID head pack tree]
  by (simp add: good_proposal_def) (simp add: first_proposal_def Let_def publicationIn_def)

lemma good_increment:
  "\<lbrakk>typed_manifest (n_lib n) (rs_manifest remote); uuid7 (n_lib n) pubID; length (rs_head remote) = 20; length head = 20;
    length (pk_SHA256 pack) = 32\<rbrakk> \<Longrightarrow>
     good_proposal n remote (increment_proposal (rs_manifest remote) (rs_generation remote) (rs_head remote) head tree pack pubID)"
  using typed_increment_proposal [of "n_lib n" "rs_manifest remote" pubID "rs_head remote" head pack "rs_generation remote" tree]
  by (simp add: good_proposal_def) (simp add: increment_proposal_def Let_def publicationIn_def)

lemma good_compacting:
  "\<lbrakk>good_proposal n remote inc; uuid7 (n_lib n) cpID; length (pk_SHA256 pack) = 32\<rbrakk> \<Longrightarrow>
     good_proposal n remote (compacting_proposal inc pack cpID)"
  using typed_compacting [of "n_lib n" inc cpID pack]
  by (simp add: good_proposal_def) (simp add: compacting_proposal_def Let_def publicationIn_def)

lemma yields_drawID: "well_made n \<Longrightarrow> yields (drawID n) (uuid7 (n_lib n))"
  by (auto simp: drawID_def newID_def well_made_def yields_def mapErrS_Inr ofOption_def split: option.splits)

lemma yields_makeCommit: "well_made n \<Longrightarrow> yields (makeCommit n spec) (\<lambda>x. length x = 20)"
  unfolding makeCommit_def
proof (intro yields_mapErrS yields_repo)
  fix r x r' assume "well_made n" "CreateCommit (n_repo n) r spec = Inr (x, r')"
  then show "length x = 20" unfolding well_made_def by (simp add: CreateCommit_def bindR_eq_Inr split: if_splits) blast
qed

lemma yields_exportCheckpoint: "well_made n \<Longrightarrow> yields (exportCheckpoint n head) (\<lambda>pack. length (pk_SHA256 pack) = 32)"
  unfolding exportCheckpoint_def by (intro yields_mapErrS yields_repo) (auto simp: well_made_def dest: export_sha)

lemma yields_buildProposal:
  assumes w: "well_made n" and typed: "rs_generation remote \<noteq> 0 \<Longrightarrow> typed_manifest (n_lib n) (rs_manifest remote) \<and> length (rs_head remote) = 20"
  shows "yields (buildProposal n remote tree message start) (good_proposal n remote)"
  unfolding buildProposal_def
proof (rule yields_bindS_with [OF yields_drawID [OF w]])
  fix pubID assume p: "uuid7 (n_lib n) pubID"
  have inc: "yields (mapErrS engine_error (askRepo n (\<lambda>r. ExportIncrement (n_sha n) (n_repo n) r (n_fuel n) head base)))
      (\<lambda>pack. length (pk_SHA256 pack) = 32)" for head base
    using w by (intro yields_mapErrS yields_repo) (auto simp: well_made_def dest: export_sha)
  have "yields (buildFirstProposal n tree message start pubID) (good_proposal n remote)" if "rs_generation remote = 0"
    unfolding buildFirstProposal_def
    by (rule yields_bindS_with [OF yields_makeCommit [OF w]], rule yields_bindS_with [OF yields_exportCheckpoint [OF w]],
        rule yields_bindS, rule yields_bindS_with [OF yields_drawID [OF w]], rule yields_basic) (rule good_first [OF p _ _ _ that])
  moreover have "yields (buildIncrementProposal n remote tree message start pubID) (good_proposal n remote)" if "rs_generation remote \<noteq> 0"
    unfolding buildIncrementProposal_def
    by (rule yields_bindS_with [OF yields_makeCommit [OF w]], rule yields_bindS_with [OF inc], rule yields_basic)
      (rule good_increment [OF conjunct1 [OF typed [OF that]] p conjunct2 [OF typed [OF that]]])
  ultimately show "yields (if rs_generation remote = 0 then buildFirstProposal n tree message start pubID
      else buildIncrementProposal n remote tree message start pubID) (good_proposal n remote)" by simp
qed

lemma yields_buildCompacting:
  assumes w: "well_made n" and p: "good_proposal n remote p"
  shows "yields (buildCompactingProposal n remote p) (\<lambda>c. \<forall>q. c = Some q \<longrightarrow> good_proposal n remote q)"
  unfolding buildCompactingProposal_def
  by (rule yields_bindS_with [OF yields_exportCheckpoint [OF w]], rule yields_cases, rule yields_basic, simp,
      rule yields_bindS_with [OF yields_drawID [OF w]], rule yields_basic) (simp add: good_compacting [OF p])

lemma yields_uploadOrCompact:
  assumes w: "well_made n" and p: "good_proposal n remote p"
  shows "yields (uploadOrCompact n remote p) (good_proposal n remote)"
proof -
  have "yields (case c of None \<Rightarrow> failS err | Some q \<Rightarrow> bindS (uploadProposal n q) (\<lambda>_. retS q)) (good_proposal n remote)"
    if "\<forall>q. c = Some q \<longrightarrow> good_proposal n remote q" for c err
    using that by (cases c) (simp_all only: option.case, (intro yields_rules, simp?)+)
  then have "yields (bindS (buildCompactingProposal n remote p) (\<lambda>c. case c of None \<Rightarrow> failS err
      | Some q \<Rightarrow> bindS (uploadProposal n q) (\<lambda>_. retS q))) (good_proposal n remote)" for err
    by (rule yields_bindS_with [OF yields_buildCompacting [OF w p]])
  then show ?thesis unfolding uploadOrCompact_def by (rule yields_tryS [OF yields_cases(2) [OF yields_cases(1) [OF yields_basic(2)] yields_basic(1) [of _ p]]]) (rule p)
qed

section \<open>How the accepted state moves\<close>

text \<open>Every error of the action satisfies \<open>E\<close>.\<close>

definition fails_with :: "('e, 'a, 't) act \<Rightarrow> ('e \<Rightarrow> bool) \<Rightarrow> bool" where
  "fails_with m E \<longleftrightarrow> (\<forall>\<sigma> e \<sigma>'. m \<sigma> = (Inl e, \<sigma>') \<longrightarrow> E e)"

named_theorems fails_rules "structural rules for the errors of an action"

lemma fails_basic [fails_rules]:
  "fails_with (retS x) E" "E e \<Longrightarrow> fails_with (failS e) E" "fails_with (getS f) E" "fails_with (onMetrics g) E"
  "fails_with (readClock n) E" "fails_with (recordTail m) E"
  by (auto simp: fails_with_def getS_def onMetrics_def modS_def readClock_def recordTail_def)

lemma fails_counted [fails_rules]: "fails_with failCheckpoint E" "fails_with failCleanup E"
  unfolding failCheckpoint_def failCleanup_def by (rule fails_basic)+

lemma fails_bindS [fails_rules]: "fails_with m E \<Longrightarrow> (\<And>x. fails_with (f x) E) \<Longrightarrow> fails_with (bindS m f) E"
  unfolding fails_with_def bindS_Inl by blast

lemma fails_bindS_with: "fails_with m E \<Longrightarrow> yields m P \<Longrightarrow> (\<And>x. P x \<Longrightarrow> fails_with (f x) E) \<Longrightarrow> fails_with (bindS m f) E"
  unfolding fails_with_def yields_def bindS_Inl by blast

lemma fails_tryS [fails_rules]: "(\<And>r. fails_with (f r) E) \<Longrightarrow> fails_with (tryS m f) E"
  unfolding fails_with_def tryS_apply by blast

lemma fails_cases [fails_rules]:
  "fails_with a E \<Longrightarrow> fails_with b E \<Longrightarrow> fails_with (if c then a else b) E"
  "(\<And>e. fails_with (fl e) E) \<Longrightarrow> (\<And>x. fails_with (fr x) E) \<Longrightarrow> fails_with (case y of Inl e \<Rightarrow> fl e | Inr x \<Rightarrow> fr x) E"
  "fails_with a E \<Longrightarrow> (\<And>x. fails_with (fs x) E) \<Longrightarrow> fails_with (case opt of None \<Rightarrow> a | Some x \<Rightarrow> fs x) E"
  "(\<And>x z. fails_with (fp x z) E) \<Longrightarrow> fails_with (case pr of (x, z) \<Rightarrow> fp x z) E"
  "fails_with (ft t) E \<Longrightarrow> fails_with (let x = t in ft x) E"
  by (simp_all split: sum.splits option.splits prod.splits)

lemma fails_cleanup [fails_rules]: "fails_with (cleanup n cutoff) E"
proof -
  have "fails_with (cleanup_batches n roots cands) E" for roots cands
  proof (induction cands rule: length_induct)
    case (1 cands)
    have rest: "fails_with (cleanup_batches n roots (drop cleanupBatchSize cands)) E" if "cands \<noteq> []"
      using 1 that by (simp add: cleanupBatchSize_def)
    show ?case
    proof (cases "cands = []")
      case False
      then show ?thesis unfolding cleanup_batches.simps [of n _ cands] by (simp only: if_False) (intro fails_rules rest)
    qed (simp add: cleanup_batches.simps fails_basic del: retS_apply)
  qed
  then show ?thesis unfolding cleanup_def cleanupPacks_def by (intro fails_rules)
qed

lemma fails_accepted [fails_rules]: "fails_with (checkpointAccepted n cpID) E"
  unfolding checkpointAccepted_def by (intro fails_tryS) (auto intro: fails_basic split: sum.splits option.splits prod.splits simp del: retS_apply)

lemma fails_acceptCheckpoint [fails_rules]: "fails_with (acceptCheckpoint n next pack start cutoff) E"
  unfolding acceptCheckpoint_def by (intro fails_rules)

lemma fails_checkpoint_loop [fails_rules]: "fails_with (checkpoint_loop n plan cpID key pack start k) E"
proof (induction k)
  case 0
  show ?case unfolding checkpoint_loop.simps [of n plan cpID key pack start 0] nat.case by (intro fails_rules)
next
  case (Suc k)
  show ?case unfolding checkpoint_loop.simps [of n plan cpID key pack start "Suc k"] nat.case by (intro fails_rules Suc.IH)
qed

lemma fails_runCheckpoint [fails_rules]: "fails_with (runCheckpoint n m) E" "fails_with (acceptCompaction n p) E"
  unfolding runCheckpoint_def acceptCompaction_def by (intro fails_rules)+

lemma undecided_recovery: "undecided (recoveryFailure report cause resync)"
  unfolding undecided_def by (simp add: recoveryFailure_def engineFailed_def Let_def has_code_def)

lemma fails_acceptPublished: "fails_with (acceptPublished n p stat) undecided"
proof -
  have "fails_with (failAfterAccept n stage cause) undecided" for stage cause
    unfolding failAfterAccept_def recoverState_def by (intro fails_rules)
  moreover have "yields (failAfterAccept n stage cause) undecided" for stage cause
    unfolding failAfterAccept_def by (intro yields_rules undecided_recovery)
  ultimately have "fails_with (failAfterPublish n stage p cause) undecided" for stage cause
    unfolding failAfterPublish_def by (rule fails_bindS_with) (intro fails_rules)
  then show ?thesis unfolding acceptPublished_def by (intro fails_rules)
qed

context store_client
begin

definition moved :: "(bytes \<times> etag) option \<Rightarrow> (bytes \<times> etag) option \<Rightarrow> bool" where
  "moved c c' \<longleftrightarrow> c' = c \<or> advanced c c'"

lemma moved_trans: "moved a b \<Longrightarrow> moved b c \<Longrightarrow> moved a c"
  using advanced_trans by (auto simp: moved_def)

definition forward :: "('e, 'a, ('w, 's) nbst) act \<Rightarrow> bool" where
  "forward m \<longleftrightarrow> (\<forall>\<sigma> r \<sigma>'. m \<sigma> = (r, \<sigma>') \<longrightarrow> moved (cur (nb_store \<sigma>)) (cur (nb_store \<sigma>')))"

lemma forwardD: "forward m \<Longrightarrow> m \<sigma> = (r, \<sigma>') \<Longrightarrow> moved (cur (nb_store \<sigma>)) (cur (nb_store \<sigma>'))"
  by (simp add: forward_def)

lemma still_forward: "still cur m \<Longrightarrow> forward m"
  by (simp add: forward_def still_def moved_def)

lemma forward_after:
  assumes "moved c (cur (nb_store \<sigma>1))" "m \<sigma>1 = (q, \<sigma>2)" "moved (cur (nb_store \<sigma>1)) (cur (nb_store \<sigma>2))" "\<And>r. forward (f r)"
    "tryS m f \<sigma>1 = (r, \<sigma>')"
  shows "moved c (cur (nb_store \<sigma>'))"
  using assms forwardD [OF assms(4) [of q], of \<sigma>2 r \<sigma>'] by (auto simp: tryS_def intro: moved_trans)

lemma forward_tryS: "forward m \<Longrightarrow> (\<And>r. forward (f r)) \<Longrightarrow> forward (tryS m f)"
proof -
  assume m: "forward m" and f: "\<And>r. forward (f r)"
  have "moved (cur (nb_store \<sigma>)) (cur (nb_store \<sigma>'))" if run: "tryS m f \<sigma> = (r, \<sigma>')" for \<sigma> r \<sigma>'
  proof -
    obtain q \<sigma>1 where q: "m \<sigma> = (q, \<sigma>1)" by fastforce
    show ?thesis using forwardD [OF m q] forwardD [OF f [of q], of \<sigma>1 r \<sigma>'] run q by (auto simp: tryS_def intro: moved_trans)
  qed
  then show ?thesis by (simp add: forward_def)
qed

lemma forward_bindS: "forward m \<Longrightarrow> (\<And>x. forward (f x)) \<Longrightarrow> forward (bindS m f)"
  unfolding bindS_def by (rule forward_tryS) (auto intro: still_forward still_basic split: sum.split simp del: retS_apply failS_apply)

lemma forward_cases:
  "(c \<Longrightarrow> forward a) \<Longrightarrow> (\<not> c \<Longrightarrow> forward b) \<Longrightarrow> forward (if c then a else b)"
  "(\<And>e. forward (fl e)) \<Longrightarrow> (\<And>x. forward (fr x)) \<Longrightarrow> forward (case y of Inl e \<Rightarrow> fl e | Inr x \<Rightarrow> fr x)"
  by (simp_all split: sum.splits)

lemmas still_readers = store_reader.still_readRemote [OF reader_at] store_reader.still_recovery [OF reader_at]
  store_reader.still_local [OF reader_at] store_reader.still_lookup [OF reader_at] store_reader.still_metrics [OF reader_at]
  store_reader.still_applyLocal [OF reader_at] store_reader.still_summary [OF reader_at] store_reader.still_checks [OF reader_at]
  store_reader.still_build [OF reader_at]

lemma still_acceptCheckpoint: "still cur (acceptCheckpoint n m pack start cutoff)"
  unfolding acceptCheckpoint_def by (intro still_rules still_cleanup)

lemma still_acceptCompaction: "still cur (acceptCompaction n p)"
  unfolding acceptCompaction_def by (intro still_rules still_cleanup still_readers)

lemma still_failAfterPublish: "still cur (failAfterPublish n stage p cause)"
  unfolding failAfterPublish_def by (intro still_rules still_cleanup still_readers)

lemma still_discard: "still cur (discardCompaction n p cause)"
proof -
  have "still cur (onStore (DeleteObjects (n_store n) [Key_String (n_lib n) (pr_key p)]))"
    by (rule still_onStore) (rule delete_other, assumption, simp add: Key_String_not_current [symmetric])
  then show ?thesis unfolding discardCompaction_def by (intro still_rules still_readers)
qed

lemma still_uploadUnique: "still cur (onStore (UploadUnique sha (n_lib n) (n_store n) key rd meta))"
proof (rule still_onStore)
  fix s r s' assume "UploadUnique sha (n_lib n) (n_store n) key rd meta s = (r, s')"
  then show "cur s' = cur s" using UploadUnique_only [of "n_lib n" key sha rd meta] Key_String_not_current [of key] unfolding only_def by metis
qed

lemmas still_failCheckpoint = store_reader.still_metrics(2) [OF reader_at]
lemmas still_exportCheckpoint = store_reader.still_local(11) [OF reader_at]

lemma forward_tryS_with:
  assumes "still cur m" "yields m P" "\<And>x. P x \<Longrightarrow> forward (f (Inr x))" "\<And>e. forward (f (Inl e))" shows "forward (tryS m f)"
  unfolding forward_def
proof (intro allI impI)
  fix \<sigma> r \<sigma>' assume run: "tryS m f \<sigma> = (r, \<sigma>')"
  obtain q \<sigma>1 where q: "m \<sigma> = (q, \<sigma>1)" by fastforce
  have "forward (f q)" using assms(2-4) q by (cases q) (auto dest: yieldsD)
  then show "moved (cur (nb_store \<sigma>)) (cur (nb_store \<sigma>'))"
    using stillD [OF assms(1) q] forwardD [of "f q" \<sigma>1 r \<sigma>'] run q by (simp add: tryS_def)
qed

text \<open>The conditional write of the checkpoint worker, from the state it has just read.\<close>

lemma checkpoint_write:
  assumes obs: "observed (cur (nb_store \<sigma>)) latest" and pre: "prefixPresent plan (rs_manifest latest)"
    and plan: "plan = planCheckpoint seen_m th" "0 < th" "th \<le> length (mf_Increments seen_m)"
    and ids: "uuid7 (n_lib n) cpID" "length (pk_SHA256 pack) = 32"
      "key = \<lparr>key_Kind = KindCheckpoint, key_Generation = pl_cutoff plan, key_ID = cpID\<rparr>"
    and enc: "EncodeManifest (n_lib n) (compactManifest (n_retainedCheckpoints n) (rs_manifest latest) plan cpID key pack) = Inr stream"
    and w: "onStore (ReplaceObject (n_store n) CurrentKey (rs_etag latest) (jl_text (n_json n) stream)) \<sigma> = (w, \<sigma>')"
  shows "moved (cur (nb_store \<sigma>)) (cur (nb_store \<sigma>'))"
proof -
  let ?next = "compactManifest (n_retainedCheckpoints n) (rs_manifest latest) plan cpID key pack"
  have "th \<le> length (mf_Increments (rs_manifest latest))" using plan pre by (simp add: prefixPresent_def planCheckpoint_def Let_def)
  then have "latest \<noteq> emptyRemote" using plan(2) by (auto simp: emptyRemote_def zeroManifest_def)
  then have acc: "accepted (cur (nb_store \<sigma>)) (rs_manifest latest)" using obs by (auto simp: observed_def accepted_def acceptedState_def)
  note ok = accepted_ok [OF acc] and g = observed_generation [OF obs]
  have gen: "mf_Generation ?next = rs_generation latest + 1" using g by (simp add: compactManifest_def Let_def)
  have nz: "rs_generation latest \<noteq> 0" using ok g by (simp add: valid_manifest_def)
  have typed: "typed_manifest (n_lib n) ?next"
    unfolding ids(3) using typed_compact [OF conjunct1 [OF ok] plan pre ids(1,2)] by blast
  obtain s' where s': "ReplaceObject (n_store n) CurrentKey (rs_etag latest) (jl_text (n_json n) stream) (nb_store \<sigma>) = (w, s')"
    "nb_store \<sigma>' = s'" using w by (auto simp: onStore_def split: prod.splits)
  from write_current [where first = False and t = "rs_etag latest" and d = "jl_text (n_json n) stream" and s = "nb_store \<sigma>" and w = w and s' = s'] s'(1)
  consider "look s' = look (nb_store \<sigma>)" | "landed (look (nb_store \<sigma>)) CurrentKey (jl_text (n_json n) stream) (look s')"
      "\<exists>d0. cur (nb_store \<sigma>) = Some (d0, rs_etag latest)" by auto
  then show ?thesis
  proof cases
    case 1
    then show ?thesis using s' by (simp add: moved_def)
  next
    case 2
    then show ?thesis using landed_advances(2) [OF 2(1) enc typed obs gen] nz s' by (auto simp: moved_def)
  qed
qed

text \<open>One round of the loop after its read; \<open>K\<close> is what follows the conditional write.\<close>

lemma checkpoint_round:
  assumes obs: "observed (cur (nb_store \<sigma>)) latest"
    and plan: "plan = planCheckpoint seen_m th" "0 < th" "th \<le> length (mf_Increments seen_m)"
    and ids: "uuid7 (n_lib n) cpID" "length (pk_SHA256 pack) = 32"
      "key = \<lparr>key_Kind = KindCheckpoint, key_Generation = pl_cutoff plan, key_ID = cpID\<rparr>"
    and K: "\<And>m w. forward (K m w)"
    and run: "(if \<not> prefixPresent plan (rs_manifest latest) then retS ()
       else let next = compactManifest (n_retainedCheckpoints n) (rs_manifest latest) plan cpID key pack in
         case EncodeManifest (n_lib n) next of Inl _ \<Rightarrow> failCheckpoint
         | Inr stream \<Rightarrow> bindS (onMetrics g) (\<lambda>_.
             tryS (onStore (ReplaceObject (n_store n) CurrentKey (rs_etag latest) (jl_text (n_json n) stream))) (K next))) \<sigma> = (r, \<sigma>')"
  shows "moved (cur (nb_store \<sigma>)) (cur (nb_store \<sigma>'))"
proof (cases "prefixPresent plan (rs_manifest latest)")
  case False
  then show ?thesis using run by (simp add: moved_def)
next
  case True
  let ?next = "compactManifest (n_retainedCheckpoints n) (rs_manifest latest) plan cpID key pack"
  show ?thesis
  proof (cases "EncodeManifest (n_lib n) ?next")
    case (Inl e)
    then show ?thesis using run True by (auto simp: Let_def failCheckpoint_def onMetrics_def modS_def moved_def)
  next
    case (Inr stream)
    let ?W = "onStore (ReplaceObject (n_store n) CurrentKey (rs_etag latest) (jl_text (n_json n) stream))"
    let ?\<sigma>2 = "\<sigma>\<lparr>nb_metrics := g (nb_metrics \<sigma>)\<rparr>"
    obtain w \<sigma>3 where w: "?W ?\<sigma>2 = (w, \<sigma>3)" by fastforce
    have "tryS ?W (K ?next) ?\<sigma>2 = (r, \<sigma>')" using run True Inr by (simp add: Let_def bindS_apply onMetrics_def modS_def)
    moreover have "moved (cur (nb_store ?\<sigma>2)) (cur (nb_store \<sigma>3))"
      using obs by (intro checkpoint_write [OF _ True plan ids Inr w]) simp
    ultimately have "moved (cur (nb_store ?\<sigma>2)) (cur (nb_store \<sigma>'))"
      using forwardD [OF K, of ?next w \<sigma>3 r \<sigma>'] w by (auto simp: tryS_def intro: moved_trans)
    then show ?thesis by simp
  qed
qed

lemma forward_checkpoint_loop:
  assumes plan: "plan = planCheckpoint seen_m th" "0 < th" "th \<le> length (mf_Increments seen_m)"
    and ids: "uuid7 (n_lib n) cpID" "length (pk_SHA256 pack) = 32"
      "key = \<lparr>key_Kind = KindCheckpoint, key_Generation = pl_cutoff plan, key_ID = cpID\<rparr>"
  shows "forward (checkpoint_loop n plan cpID key pack start k)"
proof (induction k rule: less_induct)
  case (less k)
  let ?again = "case k of 0 \<Rightarrow> failCheckpoint | Suc k' \<Rightarrow>
    if n_waiter n (Suc (n_retryLimit n) - k) then checkpoint_loop n plan cpID key pack start k' else failCheckpoint"
  let ?K = "\<lambda>m w. case w of
      Inr _ \<Rightarrow> tryS (markShallow n (pl_head plan)) (\<lambda>m'. case m' of
          Inl _ \<Rightarrow> failCheckpoint | Inr _ \<Rightarrow> acceptCheckpoint n m pack start (pl_cutoff plan))
    | Inl err \<Rightarrow> if store_is ErrPreconditionFailed err then ?again
        else if store_is ErrTransport err then bindS (checkpointAccepted n cpID) (\<lambda>ok.
          if ok then acceptCheckpoint n m pack start (pl_cutoff plan) else failCheckpoint)
        else failCheckpoint"
  have again: "forward ?again"
    using less.IH by (cases k) (auto intro: still_forward still_readers)
  have K: "forward (?K m w)" for m w
    by (intro forward_cases again still_forward still_rules still_readers still_acceptCheckpoint)
  have "moved (cur (nb_store \<sigma>)) (cur (nb_store \<sigma>'))" if run: "checkpoint_loop n plan cpID key pack start k \<sigma> = (r, \<sigma>')" for \<sigma> r \<sigma>'
  proof -
    obtain q \<sigma>1 where q: "readRemote n \<sigma> = (q, \<sigma>1)" by fastforce
    have s1: "cur (nb_store \<sigma>1) = cur (nb_store \<sigma>)" by (rule stillD [OF still_readers(2) q])
    note body = run [unfolded checkpoint_loop.simps [of n plan cpID key pack start k] tryS_apply [of "readRemote n"] q fst_conv snd_conv]
    show ?thesis
    proof (cases q)
      case (Inl e)
      then show ?thesis using body s1 by (auto simp: failCheckpoint_def onMetrics_def modS_def moved_def)
    next
      case (Inr latest)
      have "observed (cur (nb_store \<sigma>1)) latest" using readRemote_ok(2) q Inr s1 by simp
      then show ?thesis
        using checkpoint_round [where K = ?K, OF _ plan ids K body [unfolded Inr sum.case]] s1 by simp
    qed
  qed
  then show ?case by (simp add: forward_def)
qed

lemma forward_runCheckpoint:
  assumes w: "well_made n" and th: "n_checkpointPacks n \<le> length (mf_Increments m)"
  shows "forward (runCheckpoint n m)"
proof -
  let ?plan = "planCheckpoint m (n_checkpointPacks n)"
  let ?key = "\<lambda>cpID. \<lparr>key_Kind = KindCheckpoint, key_Generation = pl_cutoff ?plan, key_ID = cpID\<rparr>"
  let ?rest = "\<lambda>start pack cpID. tryS (onStore (UploadUnique (n_sha n) (n_lib n) (n_store n) (?key cpID) (Some (pk_Data pack)) (pack_meta (?key cpID) pack)))
    (\<lambda>u. case u of Inl _ \<Rightarrow> failCheckpoint | Inr _ \<Rightarrow> checkpoint_loop n ?plan cpID (?key cpID) pack start (n_retryLimit n))"
  have pos: "0 < n_checkpointPacks n" using w by (simp add: well_made_def)
  have rest: "forward (?rest start pack cpID)" if "uuid7 (n_lib n) cpID" "length (pk_SHA256 pack) = 32" for start pack cpID
    by (intro forward_tryS still_forward [OF still_uploadUnique] forward_cases still_forward [OF still_failCheckpoint]
        forward_checkpoint_loop [OF refl pos th that refl])
  have ids: "yields (newID n) (uuid7 (n_lib n))" using w by (auto simp: yields_def newID_def well_made_def ofOption_def split: option.splits)
  have "forward (tryS (newID n) (\<lambda>i. case i of Inl _ \<Rightarrow> failCheckpoint | Inr cpID \<Rightarrow> ?rest start pack cpID))"
    if "length (pk_SHA256 pack) = 32" for start pack
    by (rule forward_tryS_with [OF still_basic(10) ids]) (simp_all only: sum.case, auto intro: rest that still_forward still_failCheckpoint)
  then have "forward (tryS (exportCheckpoint n (pl_head ?plan)) (\<lambda>r. case r of Inl _ \<Rightarrow> failCheckpoint
      | Inr pack \<Rightarrow> tryS (newID n) (\<lambda>i. case i of Inl _ \<Rightarrow> failCheckpoint | Inr cpID \<Rightarrow> ?rest start pack cpID)))" for start
    by (intro forward_tryS_with [OF still_exportCheckpoint yields_exportCheckpoint [OF w]]) (simp_all only: sum.case, auto intro: still_forward still_failCheckpoint)
  then show ?thesis unfolding runCheckpoint_def Let_def by (intro forward_bindS still_forward [OF still_basic(9)] still_forward [OF still_basic(11)])
qed

lemma forward_acceptPublished: "well_made n \<Longrightarrow> forward (acceptPublished n p stat)"
  unfolding acceptPublished_def
  by (intro forward_cases forward_tryS forward_bindS still_forward [OF still_failAfterPublish] still_forward [OF still_basic(1)]
      still_forward [OF still_basic(7)] still_forward [OF still_basic(12)] still_forward [OF still_acceptCompaction] forward_runCheckpoint)

text \<open>From the accepted state \<open>c\<close>, the action leaves it, or replaces it by a later one and then its outcome satisfies \<open>Q\<close>.\<close>

definition settles :: "(bytes \<times> etag) option \<Rightarrow> ('e, 'a, ('w, 's) nbst) act \<Rightarrow> ('e + 'a \<Rightarrow> bool) \<Rightarrow> bool" where
  "settles c m Q \<longleftrightarrow> (\<forall>\<sigma> r \<sigma>'. cur (nb_store \<sigma>) = c \<longrightarrow> m \<sigma> = (r, \<sigma>') \<longrightarrow>
     cur (nb_store \<sigma>') = c \<or> advanced c (cur (nb_store \<sigma>')) \<and> Q r)"

lemma settlesD: "settles c m Q \<Longrightarrow> cur (nb_store \<sigma>) = c \<Longrightarrow> m \<sigma> = (r, \<sigma>') \<Longrightarrow>
    cur (nb_store \<sigma>') = c \<or> advanced c (cur (nb_store \<sigma>')) \<and> Q r"
  by (simp add: settles_def)

lemma still_settles: "still cur m \<Longrightarrow> settles c m Q"
  by (simp add: settles_def still_def)

lemma settles_bindS:
  assumes "still cur m" "\<And>\<sigma> x \<sigma>'. cur (nb_store \<sigma>) = c \<Longrightarrow> m \<sigma> = (Inr x, \<sigma>') \<Longrightarrow> settles c (f x) Q"
  shows "settles c (bindS m f) Q"
  unfolding settles_def
proof (intro allI impI)
  fix \<sigma> r \<sigma>' assume c: "cur (nb_store \<sigma>) = c" and run: "bindS m f \<sigma> = (r, \<sigma>')"
  obtain q \<sigma>1 where q: "m \<sigma> = (q, \<sigma>1)" by fastforce
  have c1: "cur (nb_store \<sigma>1) = c" using stillD [OF assms(1) q] c by simp
  show "cur (nb_store \<sigma>') = c \<or> advanced c (cur (nb_store \<sigma>')) \<and> Q r"
  proof (cases q)
    case (Inl e)
    then show ?thesis using run q c1 by (simp add: bindS_apply)
  next
    case (Inr x)
    then show ?thesis using settlesD [OF assms(2) [OF c] c1] run q by (simp add: bindS_apply)
  qed
qed

lemma settles_if: "(b \<Longrightarrow> settles c x Q) \<Longrightarrow> (\<not> b \<Longrightarrow> settles c y Q) \<Longrightarrow> settles c (if b then x else y) Q"
  by simp

text \<open>An attempt that moved the accepted state did not lose the race, and its error leaves the state open.\<close>

definition landed_outcome :: "nb_error + Result option \<Rightarrow> bool" where
  "landed_outcome r \<longleftrightarrow> (case r of Inl e \<Rightarrow> undecided e | Inr x \<Rightarrow> x \<noteq> None)"

lemma settles_publication:
  assumes w: "well_made n" and obs: "observed c remote" and p: "good_proposal n remote p"
  shows "settles c (tryS (publish n remote p) (\<lambda>r. case r of
      Inl err \<Rightarrow> bindS (if pr_compacting p then discardCompaction n p err else retS ()) (\<lambda>_. if is_cas_lost err then retS None else failS err)
    | Inr _ \<Rightarrow> bindS (acceptPublished n p stat) (\<lambda>res. retS (Some res)))) landed_outcome" (is "settles c (tryS _ ?K) _")
  unfolding settles_def
proof (intro allI impI)
  fix \<sigma> r \<sigma>' assume c: "cur (nb_store \<sigma>) = c" and run: "tryS (publish n remote p) ?K \<sigma> = (r, \<sigma>')"
  obtain q \<sigma>1 where q: "publish n remote p \<sigma> = (q, \<sigma>1)" by fastforce
  have pub: "cur (nb_store \<sigma>1) = c \<or> advanced c (cur (nb_store \<sigma>1)) \<and> (\<forall>e. q = Inl e \<longrightarrow> lookup_error e)"
    using publish_effect [OF q] p obs c by (auto simp: good_proposal_def)
  have K: "?K q \<sigma>1 = (r, \<sigma>')" using run q by (simp add: tryS_def)
  show "cur (nb_store \<sigma>') = c \<or> advanced c (cur (nb_store \<sigma>')) \<and> landed_outcome r"
  proof (cases q)
    case (Inl err)
    let ?D = "if pr_compacting p then discardCompaction n p err else retS ()"
    have "still cur (?K q)" unfolding Inl sum.case by (intro still_rules still_discard)
    then have same: "cur (nb_store \<sigma>') = cur (nb_store \<sigma>1)" using K by (rule stillD)
    have "fails_with ?D (\<lambda>_. False)" unfolding discardCompaction_def by (intro fails_rules)
    then obtain u \<sigma>2 where D: "?D \<sigma>1 = (Inr u, \<sigma>2)" unfolding fails_with_def by (metis old.sum.exhaust surj_pair)
    have "lookup_error err \<Longrightarrow> r = Inl err" using K Inl D by (simp add: bindS_apply lookup_error_def)
    then show ?thesis using pub same Inl by (auto simp: landed_outcome_def lookup_error_def)
  next
    case (Inr u)
    have "forward (?K q)" unfolding Inr sum.case by (intro forward_bindS forward_acceptPublished [OF w] still_forward [OF still_basic(1)])
    then have "moved (cur (nb_store \<sigma>1)) (cur (nb_store \<sigma>'))" using K by (rule forwardD)
    moreover have "landed_outcome r"
    proof (cases r)
      case (Inl e)
      have "fails_with (?K q) undecided" unfolding Inr sum.case by (intro fails_rules fails_acceptPublished)
      then show ?thesis using K Inl by (auto simp: fails_with_def landed_outcome_def)
    next
      case ok: (Inr x)
      have "yields (?K q) (\<lambda>x. x \<noteq> None)" unfolding Inr sum.case by (intro yields_rules) simp
      then show ?thesis using K ok by (auto simp: yields_def landed_outcome_def)
    qed
    ultimately show ?thesis using pub by (auto simp: moved_def intro: advanced_trans)
  qed
qed

lemma observed_typed:
  assumes "observed c remote" "rs_generation remote \<noteq> 0"
  shows "typed_manifest (n_lib n) (rs_manifest remote) \<and> length (rs_head remote) = 20"
  using accepted_ok [OF conjunct1 [OF observed_accepted [OF assms]]] observed_generation [OF assms(1)] by (simp add: typed_manifest_def)

lemma settles_attempt:
  assumes w: "well_made n"
  shows "settles c (attemptPublication n message baseTree localTree start mode) landed_outcome"
  unfolding attemptPublication_def
proof (rule settles_bindS [OF still_readers(1)])
  fix \<sigma> remote \<sigma>' assume "cur (nb_store \<sigma>) = c" "readRemoteMode n mode \<sigma> = (Inr remote, \<sigma>')"
  then have obs: "observed c remote" using readRemote_ok(1) by blast
  have build: "settles c (bindS (buildProposal n remote tree message start) (\<lambda>built. bindS (uploadOrCompact n remote built) (\<lambda>p.
      tryS (publish n remote p) (\<lambda>r. case r of
        Inl err \<Rightarrow> bindS (if pr_compacting p then discardCompaction n p err else retS ()) (\<lambda>_. if is_cas_lost err then retS None else failS err)
      | Inr _ \<Rightarrow> bindS (acceptPublished n p stat) (\<lambda>res. retS (Some res)))))) landed_outcome" for tree stat
    by (intro settles_bindS still_readers still_uploadOrCompact settles_publication [OF w obs])
      (blast intro: yieldsD [OF yields_uploadOrCompact [OF w]] yieldsD [OF yields_buildProposal [OF w observed_typed [OF obs]]])
  show "settles c (bindS (mergeTrees n baseTree localTree (rs_tree remote)) (\<lambda>merged.
      if mres_Conflicts merged \<noteq> [] then conflictResult n (remote_baseline remote) merged localTree (retS ())
      else if mres_Tree merged = rs_tree remote then
        bindS (applyLocal n ''commit.accept'' RemoteAcceptedNo (ws_Accept (n_ws n) (remote_baseline remote))) (\<lambda>_.
        retS (Some \<lparr>res_Generation = rs_generation remote, res_Stat = emptyStat, res_Contents = []\<rparr>))
      else bindS (diffStat n (rs_tree remote) (mres_Tree merged)) (\<lambda>stat.
        bindS (rejectNewFoldedPairs n (rs_tree remote) (mres_Tree merged)) (\<lambda>_.
        bindS (buildProposal n remote (mres_Tree merged) message start) (\<lambda>built. bindS (uploadOrCompact n remote built) (\<lambda>p.
        tryS (publish n remote p) (\<lambda>r. case r of
          Inl err \<Rightarrow> bindS (if pr_compacting p then discardCompaction n p err else retS ()) (\<lambda>_. if is_cas_lost err then retS None else failS err)
        | Inr _ \<Rightarrow> bindS (acceptPublished n p stat) (\<lambda>res. retS (Some res))))))))) landed_outcome"
    by (rule settles_bindS [OF still_readers(10)],
        intro settles_if still_settles [OF store_reader.still_conflict [OF reader_at still_basic(1)]]
          settles_bindS [OF still_readers(26)] settles_bindS [OF still_readers(28)] build)
      (intro still_settles still_rules still_readers)
qed

lemma settles_loop:
  assumes w: "well_made n"
  shows "settles c (commit_loop n message baseTree localTree start mode k) (\<lambda>r. case r of Inl e \<Rightarrow> undecided e | Inr _ \<Rightarrow> True)"
proof (induction "2 * k + (if mode = loadReusing then 1 else 0)" arbitrary: mode k c rule: less_induct)
  case less
  let ?Q = "\<lambda>r. case r of Inl e \<Rightarrow> undecided e | Inr (_ :: Result) \<Rightarrow> True"
  let ?K = "\<lambda>r. case r of
      Inl err \<Rightarrow> if mode = loadReusing \<and> engineFailed err then commit_loop n message baseTree localTree start loadStrict k else failS err
    | Inr (Some result) \<Rightarrow> retS result
    | Inr None \<Rightarrow> (case k of 0 \<Rightarrow> failS remoteBusy
        | Suc k' \<Rightarrow> if n_waiter n (Suc (n_retryLimit n) - k) then commit_loop n message baseTree localTree start mode k' else failS CtxErr)"
  have next_round: "settles c (?K q) ?Q" for q c
    using less.hyps
    by (cases q) (auto intro!: still_settles still_basic split: option.split nat.split simp del: retS_apply failS_apply)
  show ?case unfolding settles_def
  proof (intro allI impI)
    fix \<sigma> r \<sigma>' assume c: "cur (nb_store \<sigma>) = c" and run: "commit_loop n message baseTree localTree start mode k \<sigma> = (r, \<sigma>')"
    obtain q \<sigma>1 where q: "attemptPublication n message baseTree localTree start mode \<sigma> = (q, \<sigma>1)" by fastforce
    have K: "?K q \<sigma>1 = (r, \<sigma>')" using run q unfolding commit_loop.simps [of n _ _ _ _ mode k] by (simp add: tryS_def)
    from settlesD [OF settles_attempt [OF w] c q] show "cur (nb_store \<sigma>') = c \<or> advanced c (cur (nb_store \<sigma>')) \<and> ?Q r"
    proof
      assume "cur (nb_store \<sigma>1) = c"
      then show ?thesis by (rule settlesD [OF next_round _ K])
    next
      assume a: "advanced c (cur (nb_store \<sigma>1)) \<and> landed_outcome q"
      then show ?thesis using K by (cases q) (auto simp: landed_outcome_def undecided_def split: option.splits)
    qed
  qed
qed

lemma settles_commit:
  assumes w: "well_made n"
  shows "settles c (notebook_Commit n message) (\<lambda>r. case r of Inl e \<Rightarrow> undecided e | Inr _ \<Rightarrow> True)"
  unfolding notebook_Commit_def commit_def
  by (intro settles_bindS settles_if settles_loop [OF w] still_readers still_rules still_settles [OF still_basic(2)])

end

end
