(* ===== verification/NotebookSafety.thy ===== *)
theory NotebookSafety
  imports NotebookAccept
begin

text \<open>
  What a notebook promises about the object store, for every store that keeps the conditional-write contract:
  \<open>Pull\<close>, \<open>Status\<close> and \<open>Log\<close> only read; a publication that reports success is recorded in the manifest the store
  holds; a commit moves the accepted manifest forward or leaves it alone, and leaves it alone when it reports a
  refusal; cleanup keeps every object it must not touch.
\<close>

section \<open>A small notebook\<close>

text \<open>The notebook of the witnesses: an empty workspace over the in-memory repository and store.\<close>

definition sized_repository :: "gobject list Repository" where
  "sized_repository = mem_repository\<lparr>repo_CreateCommit := (\<lambda>st spec. Inr (sample_oid 1, st))\<rparr>"

definition small_workspace :: "(gobject list, gobject list) Workspace" where
  "small_workspace = \<lparr>ws_Hold = retS (), ws_Snapshot = retS [], ws_Baseline = (\<lambda>_. remote_baseline emptyRemote),
     ws_Repo = (\<lambda>w. w), ws_setRepo = (\<lambda>r w. r), ws_Accept = (\<lambda>_. retS ()), ws_Materialize = (\<lambda>_ _. retS ()),
     ws_WithoutIgnored = (\<lambda>_ snap. snap), ws_Recover = (\<lambda>_. retS ()), ws_RecoveryRequired = (\<lambda>_. False),
     ws_Pulled = (\<lambda>_. True), ws_MarkPulled = retS ()\<rparr>"

definition no_policy :: PathPolicy where
  "no_policy = \<lparr>pp_readOnly = \<lparr>es_entries = [], es_folded = []\<rparr>, pp_writable = \<lparr>es_entries = [], es_folded = []\<rparr>\<rparr>"

definition small_notebook :: "(gobject list, gobject list, Store) Notebook" where
  "small_notebook = \<lparr>n_ws = small_workspace, n_store = fake_store (\<lambda>_. []), n_retryLimit = 1, n_checkpointPacks = 2,
     n_retainedCheckpoints = 1, n_policy = no_policy, n_readOnly = pp_readOnly no_policy, n_newID = (\<lambda>_. Some (sample_uuid 30)),
     n_now = (\<lambda>_. 0), n_waiter = (\<lambda>_. True), n_failCAS = False, n_lib = canonical_uuid, n_tx = ascii_text,
     n_sha = (\<lambda>_. replicate 32 0), n_json = numbering_json, n_repo = sized_repository, n_host = (\<lambda>_. True),
     n_depth = 1, n_fuel = 1\<rparr>"

definition small_state :: "(gobject list, Store) nbst" where
  "small_state = \<lparr>nb_ws = [], nb_store = fake_New [], nb_cache = (\<lambda>_. None), nb_ids = 0, nb_calls = 0, nb_metrics = zeroMetrics\<rparr>"

lemma small_contract:
  "conditional_store (n_store small_notebook) fake_look" "json_text (n_json small_notebook)" "uuid_text (n_lib small_notebook)"
  by (simp_all add: small_notebook_def fake.conditional_store_axioms numbering.json_text_axioms cuuid.uuid_text_axioms)

lemma small_well_made: "well_made small_notebook"
  using sample_fresh(1) by (simp add: well_made_def small_notebook_def sized_repository_def fresh_pub_def sample_oid_def)

lemmas small_defs = small_notebook_def small_workspace_def small_state_def

section \<open>Properties\<close>

text \<open>The store holds manifest \<open>m\<close> as the accepted state.\<close>

definition holds_manifest :: "('w, 'r, 's) Notebook \<Rightarrow> view \<Rightarrow> Manifest \<Rightarrow> bool" where
  "holds_manifest n v m \<longleftrightarrow> (\<exists>d t. v CurrentKey = Some (d, t) \<and> decodeCurrent n d = Inr m)"

lemma client:
  assumes "conditional_store (n_store n) look" "json_text (n_json n)" "uuid_text (n_lib n)"
  shows "store_client n look"
  using assms by (simp add: store_client_def)

lemma accepted_iff: "store_client n look \<Longrightarrow> store_client.accepted n (v CurrentKey) m \<longleftrightarrow> holds_manifest n v m"
  by (simp add: store_client.accepted_def holds_manifest_def)

text \<open>C8: a pull, a status and a log leave alone every part of the store that a read leaves alone, on every path
  through them, errors and recovery included.\<close>

theorem views_read_only:
  assumes "\<And>key s r s'. ReadObject (n_store n) key s = (r, s') \<Longrightarrow> h s' = h s"
  shows "h (nb_store (snd (notebook_Pull n \<sigma>))) = h (nb_store \<sigma>) \<and> h (nb_store (snd (notebook_Status n \<sigma>))) = h (nb_store \<sigma>) \<and>
    h (nb_store (snd (notebook_Log n limit \<sigma>))) = h (nb_store \<sigma>)"
proof -
  have "store_reader n h" using assms by (rule store_reader.intro)
  note v = store_reader.still_views [OF this]
  show ?thesis using stillD [OF v(1) surjective_pairing] stillD [OF v(2) surjective_pairing] stillD [OF v(3) surjective_pairing] by simp
qed

theorem views_read_only_witness:
  "fake_look (nb_store (snd (notebook_Pull small_notebook small_state))) = fake_look (nb_store small_state) \<and>
   fake_look (nb_store (snd (notebook_Status small_notebook small_state))) = fake_look (nb_store small_state) \<and>
   fake_look (nb_store (snd (notebook_Log small_notebook 3 small_state))) = fake_look (nb_store small_state)"
  by (rule views_read_only) (simp add: small_notebook_def fake.read_view)

text \<open>C4: a commit leaves the accepted manifest alone or replaces it by one with a larger generation, and it does so
  whatever faults the store reports; the checkpoint and the cleanup that follow are part of it.\<close>

theorem commit_moves_forward:
  assumes "conditional_store (n_store n) look" "json_text (n_json n)" "uuid_text (n_lib n)" "well_made n"
    "notebook_Commit n message \<sigma> = (r, \<sigma>')"
  shows "look (nb_store \<sigma>') CurrentKey = look (nb_store \<sigma>) CurrentKey \<or>
    (\<exists>m'. holds_manifest n (look (nb_store \<sigma>')) m' \<and>
      (\<forall>m. holds_manifest n (look (nb_store \<sigma>)) m \<longrightarrow> mf_Generation m < mf_Generation m'))"
proof -
  note sc = client [OF assms(1-3)]
  show ?thesis
    using store_client.settlesD [OF sc store_client.settles_commit [OF sc assms(4)] refl assms(5)]
    by (auto simp: store_client.advanced_def [OF sc] accepted_iff [OF sc])
qed

theorem commit_moves_forward_witness:
  "let \<sigma>' = snd (notebook_Commit small_notebook ''first'' small_state) in
   fake_look (nb_store \<sigma>') CurrentKey = fake_look (nb_store small_state) CurrentKey \<or>
   (\<exists>m'. holds_manifest small_notebook (fake_look (nb_store \<sigma>')) m' \<and>
      (\<forall>m. holds_manifest small_notebook (fake_look (nb_store small_state)) m \<longrightarrow> mf_Generation m < mf_Generation m'))"
  unfolding Let_def by (rule commit_moves_forward [OF small_contract small_well_made surjective_pairing])

text \<open>C5: when a commit fails, its error says whether the outcome is open: an error that is no storage failure, no
  integrity failure and no recovery failure, or that is an engine failure, is a refusal, and a refusal has left
  the accepted manifest as it was.\<close>

theorem commit_refusals_clean:
  assumes "conditional_store (n_store n) look" "json_text (n_json n)" "uuid_text (n_lib n)" "well_made n"
    "notebook_Commit n message \<sigma> = (Inl e, \<sigma>')" "\<not> undecided e"
  shows "look (nb_store \<sigma>') CurrentKey = look (nb_store \<sigma>) CurrentKey"
proof -
  note sc = client [OF assms(1-3)]
  show ?thesis
    using store_client.settlesD [OF sc store_client.settles_commit [OF sc assms(4)] refl assms(5)] assms(6) by simp
qed

theorem commit_refusals_clean_witness:
  "\<exists>e \<sigma>'. notebook_Commit small_notebook [] small_state = (Inl e, \<sigma>') \<and> \<not> undecided e \<and>
     fake_look (nb_store \<sigma>') CurrentKey = fake_look (nb_store small_state) CurrentKey"
proof -
  let ?e = "invalidRequest ReasonMessageBlank None []"
  have v: "ValidateMessage [] = Inl ?e"
    by (simp add: ValidateMessage_def MaxMessageBytes_def blank_def Runes.simps)
  have run: "notebook_Commit small_notebook [] small_state = (Inl ?e, small_state)"
    by (simp add: notebook_Commit_def commit_def bindS_apply holdWorkspace_def mapErrS_apply onWs_def small_defs getS_def v)
  have "\<not> undecided ?e" by (simp add: undecided_def has_code_def invalidRequest_def)
  then show ?thesis using commit_refusals_clean [OF small_contract small_well_made run] run by blast
qed

text \<open>C6: a publication that reports success, a lost response included, is recorded in the manifest the store
  holds.\<close>

theorem publish_proved:
  assumes "conditional_store (n_store n) look" "json_text (n_json n)" "uuid_text (n_lib n)" "good_proposal n remote p"
    "publish n remote p \<sigma> = (Inr u, \<sigma>')"
  shows "\<exists>m. holds_manifest n (look (nb_store \<sigma>')) m \<and> publicationIn m (pr_publicationID p)"
proof -
  note sc = client [OF assms(1-3)]
  show ?thesis
    using store_client.publish_recorded [OF sc assms(5)] assms(4) by (simp add: good_proposal_def accepted_iff [OF sc])
qed

text \<open>The witness loses the response of the write, so success rests on the lookup.\<close>

definition small_proposal :: proposal where
  "small_proposal = first_proposal (sample_oid 1) (sample_oid 2) sample_pack (sample_uuid 30) (sample_uuid 31)"

definition lossy_state :: "(gobject list, Store) nbst" where
  "lossy_state = small_state\<lparr>nb_store := (fake_New [])\<lparr>st_faults := AmbiguousNextOp OpCreate NewInjector\<rparr>\<rparr>"

lemma small_good: "good_proposal small_notebook emptyRemote small_proposal"
  using sample_fresh unfolding small_proposal_def
  by (intro good_first) (simp_all add: small_notebook_def fresh_pub_def fresh_cp_def sample_oid_def sample_pack_def emptyRemote_def)

lemma small_grounded: "grounded canonical_uuid (pr_manifest small_proposal)"
  using sample_fresh sample_pack_real unfolding small_proposal_def
  by (intro cuuid.first_grounded) (simp_all add: fresh_pub_def fresh_cp_def sample_oid_def)

lemma small_decodes:
  "EncodeManifest canonical_uuid (pr_manifest small_proposal) = Inr (Encode (encodeManifestValue canonical_uuid (pr_manifest small_proposal)))"
  "DecodeManifest canonical_uuid (Encode (encodeManifestValue canonical_uuid (pr_manifest small_proposal))) = Inr (pr_manifest small_proposal)"
  using small_grounded cuuid.DecodeManifest_Encode by (simp_all add: grounded_def EncodeManifest_Inr)

lemma lossy_write:
  "\<exists>s. fake_CreateObject (\<lambda>_. []) CurrentKey d (nb_store lossy_state) = (Inl ErrTransport, s) \<and>
     (\<exists>s' info. fake_ReadObject CurrentKey s = (Inr (Some d, info), s'))"
  by (simp add: lossy_state_def fake_CreateObject_def fake_ReadObject_def fake_enter_def ConsumeFail_def AmbiguousNextOp_def NewInjector_def
      fake_New_def prefix_fault_def sortedOpKeys_def fake_landed_def ConsumeAmbiguous_def put_object_def fake_full_def Let_def OpCreate_def OpGet_def)

lemma lossy_publish: "\<exists>\<sigma>'. publish small_notebook emptyRemote small_proposal lossy_state = (Inr (), \<sigma>')"
proof -
  let ?d = "jl_text numbering_json (Encode (encodeManifestValue canonical_uuid (pr_manifest small_proposal)))"
  obtain s s' info where w: "fake_CreateObject (\<lambda>_. []) CurrentKey ?d (nb_store lossy_state) = (Inl ErrTransport, s)"
    "fake_ReadObject CurrentKey s = (Inr (Some ?d, info), s')" using lossy_write [of ?d] by blast
  have n: "n_store small_notebook = fake_store (\<lambda>_. [])" "n_json small_notebook = numbering_json" "n_lib small_notebook = canonical_uuid"
    by (simp_all add: small_notebook_def)
  have "typed_manifest canonical_uuid (pr_manifest small_proposal)" using cuuid.DecodeManifest_Inr [OF small_decodes(2)] by blast
  then have b: "jl_tokens numbering_json ?d = Encode (encodeManifestValue canonical_uuid (pr_manifest small_proposal))"
    by (intro numbering.read_back valid_texts_ascii ascii_manifest cuuid.uuid_text_axioms)
  have "decodeStoredCurrent small_notebook None ?d = Inr (pr_manifest small_proposal)"
    using small_decodes(2) DecodeManifest_plaintext [OF small_decodes(2)]
    by (simp add: decodeStoredCurrent_def decodeCurrent_def n b)
  moreover have "publicationIn (pr_manifest small_proposal) (pr_publicationID small_proposal)"
    using small_good by (simp add: good_proposal_def)
  ultimately show ?thesis
    using w by (simp add: publish_def bindS_apply n small_decodes(1) Let_def tryS_def onStore_def fake_store_def emptyRemote_def
        store_is.simps lookupPublication_def readCurrent_def)
qed

theorem publish_proved_witness:
  "\<exists>\<sigma>' m. publish small_notebook emptyRemote small_proposal lossy_state = (Inr (), \<sigma>') \<and>
     holds_manifest small_notebook (fake_look (nb_store \<sigma>')) m \<and> publicationIn m (pr_publicationID small_proposal)"
  using lossy_publish publish_proved [OF small_contract small_good] by blast

text \<open>C7: cleanup keeps every object that is no pack at or below the cutoff, and every object the accepted manifest
  references; without a readable manifest it keeps everything.\<close>

theorem cleanup_safe:
  assumes "conditional_store (n_store n) look" "json_text (n_json n)" "uuid_text (n_lib n)"
    "is_candidate (n_lib n) cutoff k \<Longrightarrow> \<forall>m. holds_manifest n (look (nb_store \<sigma>)) m \<longrightarrow> k \<in> set (manifestRoots (n_lib n) m)"
    "cleanup n cutoff \<sigma> = (r, \<sigma>')"
  shows "look (nb_store \<sigma>') k = look (nb_store \<sigma>) k"
proof -
  note sc = client [OF assms(1-3)]
  have "store_client.protected n cutoff (look (nb_store \<sigma>) CurrentKey) k"
    using assms(4) by (auto simp: store_client.protected_def [OF sc] accepted_iff [OF sc])
  then show ?thesis by (rule store_client.cleanup_keeps [OF sc assms(5)])
qed

theorem cleanup_safe_witness:
  "\<not> is_candidate canonical_uuid 7 ''current'' \<and>
   fake_look (nb_store (snd (cleanup small_notebook 7 small_state))) ''current'' = fake_look (nb_store small_state) ''current''"
proof -
  have c: "\<not> is_candidate canonical_uuid 7 ''current''" by code_simp
  then have "fake_look (nb_store (snd (cleanup small_notebook 7 small_state))) ''current'' = fake_look (nb_store small_state) ''current''"
    by (intro cleanup_safe [OF small_contract _ surjective_pairing [of "cleanup small_notebook 7 small_state"]]) (simp add: small_notebook_def)
  then show ?thesis using c by blast
qed

end
