(* ===== verification/Ignore.thy ===== *)
theory Ignore
  imports PathRules
begin

text \<open>
  Ignored paths (\<open>internal/workspace/ignore.go\<close>) with the pattern language they are written in, Go's \<open>path.Match\<close>:
  \<open>*\<close> and \<open>?\<close> within a segment, character classes, and backslash escapes. Unicode normalization (\<open>norm.NFC\<close>) is an
  argument.
\<close>

section \<open>Patterns\<close>

datatype match_error = ErrBadPattern

definition getEsc :: "bytes \<Rightarrow> match_error + nat \<times> bytes" where
  "getEsc chunk =
     (if chunk = [] \<or> hd chunk = CHR ''-'' \<or> hd chunk = CHR '']'' then Inl ErrBadPattern
      else
        let chunk' = (if hd chunk = CHR 0x5C then tl chunk else chunk) in
        if chunk' = [] then Inl ErrBadPattern
        else case DecodeRune chunk' of (r, w) \<Rightarrow>
          let rest = drop w chunk' in
          if r = 0xFFFD \<and> w = 1 \<or> rest = [] then Inl ErrBadPattern else Inr (r, rest))"

lemma getEsc_shorter: "getEsc chunk = Inr (r, rest) \<Longrightarrow> length rest < length chunk"
  using DecodeRune_width [of chunk] DecodeRune_width [of "tl chunk"]
  by (cases chunk) (auto simp: getEsc_def Let_def split: if_splits prod.splits)

text \<open>The ranges of a character class: whether the rune is in one of them, and what follows the class.\<close>

function class_ranges :: "nat \<Rightarrow> bool \<Rightarrow> bool \<Rightarrow> bytes \<Rightarrow> match_error + bool \<times> bytes" where
  "class_ranges r matched started chunk =
     (if chunk \<noteq> [] \<and> hd chunk = CHR '']'' \<and> started then Inr (matched, tl chunk)
      else case getEsc chunk of
        Inl e \<Rightarrow> Inl e
      | Inr (lo, rest) \<Rightarrow>
          (if hd rest = CHR ''-'' then
             (case getEsc (tl rest) of
                Inl e \<Rightarrow> Inl e
              | Inr (hi, rest') \<Rightarrow> class_ranges r (matched \<or> lo \<le> r \<and> r \<le> hi) True rest')
           else class_ranges r (matched \<or> lo \<le> r \<and> r \<le> lo) True rest))"
  by pat_completeness auto
termination
proof (relation "measure (\<lambda>(r, matched, started, chunk). length chunk)")
  fix r matched started chunk p lo rest q hi rest'
  assume "getEsc chunk = Inr p" "(lo, rest) = p" "getEsc (tl rest) = Inr q" "(hi, rest') = q"
  then show "((r, matched \<or> lo \<le> r \<and> r \<le> hi, True, rest'), r, matched, started, chunk) \<in>
      measure (\<lambda>(r, matched, started, chunk). length chunk)"
    using getEsc_shorter [of chunk lo rest] getEsc_shorter [of "tl rest" hi rest'] by auto
qed (auto dest: getEsc_shorter)

declare class_ranges.simps [simp del]

lemma class_ranges_shorter: "class_ranges r m b chunk = Inr (m', rest) \<Longrightarrow> length rest < length chunk"
proof (induction r m b chunk rule: class_ranges.induct)
  case (1 r m b chunk)
  show ?case
  proof (cases "chunk \<noteq> [] \<and> hd chunk = CHR '']'' \<and> b")
    case True
    then have "rest = tl chunk" using "1.prems" by (simp add: class_ranges.simps [of r m True chunk])
    then show ?thesis using True by (cases chunk) auto
  next
    case False
    then obtain lo rest1 where e: "getEsc chunk = Inr (lo, rest1)" using "1.prems" by (auto simp: class_ranges.simps [of r m b chunk] split: sum.splits)
    note short = getEsc_shorter [OF e]
    show ?thesis
    proof (cases "hd rest1 = CHR ''-''")
      case True
      then obtain hi rest2 where e2: "getEsc (tl rest1) = Inr (hi, rest2)"
        using "1.prems" False e by (auto simp: class_ranges.simps [of r m b chunk] split: sum.splits)
      have "length rest < length rest2" using "1.IH"(1) [OF False e refl True e2 refl] "1.prems" False e True e2
        by (simp add: class_ranges.simps [of r m b chunk])
      then show ?thesis using getEsc_shorter [OF e2] short by simp
    next
      case dash: False
      have "length rest < length rest1" using "1.IH"(2) [OF False e refl dash] "1.prems" False e dash
        by (simp add: class_ranges.simps [of r m b chunk])
      then show ?thesis using short by simp
    qed
  qed
qed

text \<open>\<open>None\<close>: the chunk is well formed and does not match; \<open>Some rest\<close>: it matches a prefix of the name.\<close>

function matchChunk :: "bool \<Rightarrow> bytes \<Rightarrow> bytes \<Rightarrow> match_error + bytes option" where
  "matchChunk failed0 chunk s =
     (case chunk of
        [] \<Rightarrow> Inr (if failed0 then None else Some s)
      | c # chunk1 \<Rightarrow>
          let failed = (failed0 \<or> s = []) in
          if c = CHR ''['' then
            let (r, w) = (if failed then (0, 0) else DecodeRune s);
                negated = (chunk1 \<noteq> [] \<and> hd chunk1 = CHR ''^'');
                chunk2 = (if negated then tl chunk1 else chunk1) in
            (case class_ranges r False False chunk2 of
               Inl e \<Rightarrow> Inl e
             | Inr (matched, rest) \<Rightarrow> matchChunk (failed \<or> matched = negated) rest (drop w s))
          else if c = CHR ''?'' then
            matchChunk (failed \<or> hd s = CHR ''/'') chunk1 (if failed then s else drop (snd (DecodeRune s)) s)
          else if c = CHR 0x5C then
            (case chunk1 of
               [] \<Rightarrow> Inl ErrBadPattern
             | d # chunk2 \<Rightarrow> matchChunk (failed \<or> d \<noteq> hd s) chunk2 (if failed then s else tl s))
          else matchChunk (failed \<or> c \<noteq> hd s) chunk1 (if failed then s else tl s))"
  by pat_completeness auto
termination
proof (relation "measure (\<lambda>(failed, chunk, s). length chunk)")
  fix failed0 s chunk1 failed rw r w negated chunk2 p matched rest and chunk :: bytes and c :: char
  assume "chunk = c # chunk1" "chunk2 = (if negated then tl chunk1 else chunk1)"
    "class_ranges r False False chunk2 = Inr p" "(matched, rest) = p"
  then show "((failed \<or> matched = negated, rest, drop w s), failed0, chunk, s) \<in> measure (\<lambda>(failed, chunk, s). length chunk)"
    using class_ranges_shorter [of r False False chunk2 matched rest] by (auto split: if_splits)
qed auto

declare matchChunk.simps [simp del]

definition scanChunk_star :: "bytes \<Rightarrow> bool \<times> bytes" where
  "scanChunk_star pattern = (pattern \<noteq> [] \<and> hd pattern = CHR ''*'', dropWhile (\<lambda>c. c = CHR ''*'') pattern)"

fun scan_length :: "bool \<Rightarrow> bytes \<Rightarrow> nat" where
  "scan_length inrange [] = 0"
| "scan_length inrange (c # cs) =
     (if c = CHR 0x5C then (case cs of [] \<Rightarrow> 1 | _ # cs' \<Rightarrow> 2 + scan_length inrange cs')
      else if c = CHR ''['' then 1 + scan_length True cs
      else if c = CHR '']'' then 1 + scan_length False cs
      else if c = CHR ''*'' \<and> \<not> inrange then 0
      else 1 + scan_length inrange cs)"

definition scanChunk :: "bytes \<Rightarrow> bool \<times> bytes \<times> bytes" where
  "scanChunk pattern =
     (case scanChunk_star pattern of (star, p) \<Rightarrow> (star, take (scan_length False p) p, drop (scan_length False p) p))"

lemma scan_length_pos: "p \<noteq> [] \<Longrightarrow> hd p \<noteq> CHR ''*'' \<Longrightarrow> 0 < scan_length False p"
  by (cases p) (auto split: list.splits)

lemma scanChunk_shorter: "pattern \<noteq> [] \<Longrightarrow> scanChunk pattern = (star, chunk, rest) \<Longrightarrow> length rest < length pattern"
proof -
  assume p: "pattern \<noteq> []" and s: "scanChunk pattern = (star, chunk, rest)"
  let ?q = "dropWhile (\<lambda>c. c = CHR ''*'') pattern"
  have rest: "rest = drop (scan_length False ?q) ?q" using s by (simp add: scanChunk_def scanChunk_star_def)
  show ?thesis
  proof (cases "hd pattern = CHR ''*''")
    case True
    then have "length ?q < length pattern" using p length_dropWhile_le [of "\<lambda>c. c = CHR ''*''" "tl pattern"] by (cases pattern) auto
    then show ?thesis using rest by simp
  next
    case False
    then have "?q = pattern" using p by (cases pattern) auto
    then show ?thesis using rest scan_length_pos [of pattern] p False by simp
  qed
qed

text \<open>A star skips bytes of the name up to the next slash.\<close>

fun skip_match :: "bytes \<Rightarrow> bool \<Rightarrow> bytes \<Rightarrow> match_error + bytes option" where
  "skip_match chunk final [] = Inr None"
| "skip_match chunk final (c # name) =
     (if c = CHR ''/'' then Inr None
      else case matchChunk False chunk name of
        Inl e \<Rightarrow> Inl e
      | Inr None \<Rightarrow> skip_match chunk final name
      | Inr (Some t) \<Rightarrow> if final \<and> t \<noteq> [] then skip_match chunk final name else Inr (Some t))"

text \<open>Before a mismatch is reported the rest of the pattern is checked for its form.\<close>

function check_rest :: "bytes \<Rightarrow> match_error + bool" where
  "check_rest pattern =
     (if pattern = [] then Inr False
      else case scanChunk pattern of (star, chunk, rest) \<Rightarrow>
        bindR (matchChunk False chunk []) (\<lambda>_. check_rest rest))"
  by pat_completeness auto
termination
  by (relation "measure length") (auto dest: scanChunk_shorter [OF _ sym])

declare check_rest.simps [simp del]

function path_Match :: "bytes \<Rightarrow> bytes \<Rightarrow> match_error + bool" where
  "path_Match pattern name =
     (if pattern = [] then Inr (name = [])
      else case scanChunk pattern of (star, chunk, rest) \<Rightarrow>
        if star \<and> chunk = [] then Inr (CHR ''/'' \<notin> set name)
        else
          bindR (matchChunk False chunk name) (\<lambda>here.
          if here \<noteq> None \<and> (the here = [] \<or> rest \<noteq> []) then path_Match rest (the here)
          else if star then
            bindR (skip_match chunk (rest = []) name) (\<lambda>later. case later of None \<Rightarrow> check_rest rest | Some t \<Rightarrow> path_Match rest t)
          else check_rest rest))"
  by pat_completeness auto
termination
  by (relation "measure (\<lambda>(pattern, name). length pattern)") (auto dest: scanChunk_shorter [OF _ sym])

declare path_Match.simps [simp del]


section \<open>Ignored paths\<close>

type_synonym nfc_lib = "bytes \<Rightarrow> bytes"

text \<open>\<open>strings.TrimSpace\<close> and \<open>strings.Trim(s, "/")\<close>.\<close>

definition TrimSpace :: "bytes \<Rightarrow> bytes" where
  "TrimSpace s =
     (let rs = Runes s; pre = takeWhile (\<lambda>(r, w). IsSpace r) rs; post = takeWhile (\<lambda>(r, w). IsSpace r) (rev rs) in
      take (length s - sum_list (map snd pre) - sum_list (map snd post)) (drop (sum_list (map snd pre)) s))"

definition TrimSlash :: "bytes \<Rightarrow> bytes" where
  "TrimSlash s = rev (dropWhile (\<lambda>c. c = CHR ''/'') (rev (dropWhile (\<lambda>c. c = CHR ''/'') s)))"

record Ignore =
  ig_names :: "bytes list"
  ig_anchors :: "bytes list"

datatype ignore_error = IgnoreEmpty | IgnoreSegment | IgnorePattern

definition add_pattern :: "nfc_lib \<Rightarrow> bytes \<Rightarrow> Ignore \<Rightarrow> ignore_error + Ignore" where
  "add_pattern nfc raw ig =
     (let p = nfc (TrimSlash (TrimSpace raw)) in
      if p = [] then Inl IgnoreEmpty
      else if list_ex (\<lambda>seg. seg = ''.'' \<or> seg = ''..'' \<or> seg = []) (SplitOn (CHR ''/'') p) then Inl IgnoreSegment
      else bindR (mapErr (\<lambda>_. IgnorePattern) (path_Match p [])) (\<lambda>_.
        Inr (if CHR ''/'' \<in> set p then ig\<lparr>ig_anchors := ig_anchors ig @ [p]\<rparr> else ig\<lparr>ig_names := ig_names ig @ [p]\<rparr>)))"

definition NewIgnore :: "nfc_lib \<Rightarrow> bytes list \<Rightarrow> ignore_error + Ignore" where
  "NewIgnore nfc patterns = foldR (add_pattern nfc) patterns \<lparr>ig_names = [], ig_anchors = []\<rparr>"

definition ig_Configured :: "Ignore \<Rightarrow> bool" where
  "ig_Configured ig \<longleftrightarrow> length (ig_names ig) + length (ig_anchors ig) > 0"

definition matches :: "bytes \<Rightarrow> bytes \<Rightarrow> bool" where
  "matches pattern name \<longleftrightarrow> path_Match pattern name = Inr True"

definition ignored_at :: "Ignore \<Rightarrow> bytes list \<Rightarrow> nat \<Rightarrow> bool" where
  "ignored_at ig segs i \<longleftrightarrow>
     list_ex (\<lambda>pattern. matches pattern (segs ! i)) (ig_names ig) \<or>
     list_ex (\<lambda>pattern. matches pattern (JoinOn (CHR ''/'') (take (Suc i) segs))) (ig_anchors ig)"

definition Ignored :: "Ignore \<Rightarrow> bytes \<Rightarrow> bool" where
  "Ignored ig p \<longleftrightarrow> ig_Configured ig \<and> (let segs = SplitOn (CHR ''/'') p in list_ex (ignored_at ig segs) [0..<length segs])"

definition DefaultIgnore :: "bytes list" where
  "DefaultIgnore = [''.DS_Store'', ''._*'', ''.AppleDouble'', ''.Spotlight-V100'', ''.Trashes'', ''.fseventsd'', ''.TemporaryItems'',
     ''Thumbs.db'', ''desktop.ini'', ''*.swp'', ''*.swo'', ''.git'', ''*.slivingdoc-tmp-*'']"

section \<open>Lemmas\<close>

lemma SplitOn_slash: "SplitOn c (a @ c # b) = SplitOn c a @ SplitOn c b"
  by (induction a) (auto split: list.splits simp: Cons_eq_append_conv)

text \<open>A path below an ignored one is ignored.\<close>

lemma Ignored_below: "Ignored ig p \<Longrightarrow> Ignored ig (p @ CHR ''/'' # q)"
proof -
  assume ig: "Ignored ig p"
  let ?s = "SplitOn (CHR ''/'') p" let ?t = "SplitOn (CHR ''/'') q"
  obtain i where i: "i < length ?s" "ignored_at ig ?s i" using ig by (auto simp: Ignored_def Let_def list_ex_iff)
  have "ignored_at ig (?s @ ?t) i" using i by (simp add: ignored_at_def nth_append)
  moreover have "i < length (?s @ ?t)" using i(1) by simp
  ultimately show ?thesis using ig unfolding Ignored_def Let_def SplitOn_slash list_ex_iff by fastforce
qed

end
