(* ===== verification/VisibleTree.thy ===== *)
theory VisibleTree
  imports Ignore WorkspaceState
begin

text \<open>
  The visible directory and the walks over it (\<open>internal/workspace/scan.go\<close>).

  A directory tree is an association list from paths relative to the visible directory to entries; the
  directory itself is the empty path. Paths are the slash-separated strings of the code. \<open>walk\<close> tells which reads
  of a walk fail: a path that cannot be read, or the request that was cancelled when the walk came to it.
\<close>

section \<open>Paths\<close>

definition parentRel :: "bytes \<Rightarrow> bytes" where
  "parentRel path = (if CHR ''/'' \<in> set path then rev (tl (dropWhile (\<lambda>c. c \<noteq> CHR ''/'') (rev path))) else [])"

definition baseName :: "bytes \<Rightarrow> bytes" where
  "baseName path = rev (takeWhile (\<lambda>c. c \<noteq> CHR ''/'') (rev path))"

definition joinRel :: "bytes \<Rightarrow> bytes \<Rightarrow> bytes" where
  "joinRel a b = (if a = [] \<or> a = ''.'' then b else a @ ''/'' @ b)"

definition childRel :: "bytes \<Rightarrow> bytes \<Rightarrow> bytes" where
  "childRel dir name = (if dir = [] then name else dir @ ''/'' @ name)"

lemma baseName_slash [simp]: "CHR ''/'' \<notin> set (baseName p)"
  by (auto simp: baseName_def dest: set_takeWhileD)

lemma path_split: "CHR ''/'' \<in> set p \<Longrightarrow> p = parentRel p @ CHR ''/'' # baseName p"
proof -
  assume s: "CHR ''/'' \<in> set p"
  let ?P = "\<lambda>c. c \<noteq> CHR ''/''"
  have ne: "dropWhile ?P (rev p) \<noteq> []" using s by (auto simp: dropWhile_eq_Nil_conv)
  then have "dropWhile ?P (rev p) = CHR ''/'' # tl (dropWhile ?P (rev p))" using hd_dropWhile [OF ne] by (metis list.collapse)
  then have "rev p = takeWhile ?P (rev p) @ CHR ''/'' # tl (dropWhile ?P (rev p))" by (metis takeWhile_dropWhile_id)
  then have "p = rev (takeWhile ?P (rev p) @ CHR ''/'' # tl (dropWhile ?P (rev p)))" by (metis rev_rev_ident)
  then show ?thesis using s by (simp add: parentRel_def baseName_def)
qed

lemma path_top: "CHR ''/'' \<notin> set p \<Longrightarrow> parentRel p = [] \<and> baseName p = p"
proof -
  assume "CHR ''/'' \<notin> set p"
  then have "takeWhile (\<lambda>c. c \<noteq> CHR ''/'') (rev p) = rev p" by (subst takeWhile_eq_all_conv) auto
  then have "baseName p = rev (rev p)" unfolding baseName_def by (rule arg_cong)
  then show ?thesis using \<open>CHR ''/'' \<notin> set p\<close> by (simp add: parentRel_def)
qed

lemma path_parts [simp]:
  assumes "CHR ''/'' \<notin> set b" shows "parentRel (a @ CHR ''/'' # b) = a" "baseName (a @ CHR ''/'' # b) = b"
proof -
  let ?p = "a @ CHR ''/'' # b" let ?P = "\<lambda>c. c \<noteq> CHR ''/''"
  have d: "dropWhile ?P (rev ?p) = CHR ''/'' # rev a" and t: "takeWhile ?P (rev ?p) = rev b"
    using assms by (auto simp: dropWhile_append takeWhile_append)
  show "baseName ?p = b" unfolding baseName_def t by simp
  show "parentRel ?p = a" unfolding parentRel_def d by simp
qed

lemma parentRel_shorter: "parentRel path \<noteq> [] \<or> path \<noteq> [] \<Longrightarrow> length (parentRel path) < length path"
proof (cases "CHR ''/'' \<in> set path")
  case True
  from arg_cong [OF path_split [OF this], of length] show ?thesis by simp
next
  case False
  then show "parentRel path \<noteq> [] \<or> path \<noteq> [] \<Longrightarrow> ?thesis" using path_top by auto
qed

text \<open>The directories above a path, innermost first: the loop over \<open>parentRel\<close>.\<close>

function parents :: "bytes \<Rightarrow> bytes list" where
  "parents path = (if parentRel path = [] then [] else parentRel path # parents (parentRel path))"
  by pat_completeness auto
termination
  by (relation "measure length") (auto simp: parentRel_shorter)

declare parents.simps [simp del]

section \<open>Entries\<close>

datatype fs_entry = FDir | FFile bytes | FSymlink | FSpecial

type_synonym fs = "(bytes \<times> fs_entry) list"

text \<open>\<open>readDir\<close>: the names in a directory, sorted.\<close>

definition names_in :: "fs \<Rightarrow> bytes \<Rightarrow> bytes list" where
  "names_in fs dir =
     sort (remdups (map baseName (filter (\<lambda>k. k \<noteq> [] \<and> parentRel k = dir \<and> baseName k \<noteq> []) (map fst fs))))"

datatype walk_fault = Unreadable | Cancelled

type_synonym walk = "bytes \<Rightarrow> walk_fault option"

definition readDir :: "walk \<Rightarrow> fs \<Rightarrow> bytes \<Rightarrow> ws_error + bytes list" where
  "readDir walk fs dir =
     (if walk dir = Some Unreadable \<or> map_of fs dir \<noteq> Some FDir then Inl WsHost else Inr (names_in fs dir))"

definition depth_left :: "fs \<Rightarrow> bytes \<Rightarrow> nat" where
  "depth_left fs dir = Suc (sum_list (map (length \<circ> fst) fs)) - length dir"

lemma names_in_nonempty: "name \<in> set (names_in fs dir) \<Longrightarrow> name \<noteq> []"
  by (auto simp: names_in_def)

lemma depth_left_child:
  assumes "name \<in> set (names_in fs dir)" "map_of fs (childRel dir name) = Some e"
  shows "depth_left fs (childRel dir name) < depth_left fs dir"
proof -
  have "length (childRel dir name) \<in> set (map (length \<circ> fst) fs)" using map_of_SomeD [OF assms(2)] by force
  then have "length (childRel dir name) \<le> sum_list (map (length \<circ> fst) fs)" by (intro member_le_sum_list) auto
  moreover have "length dir < length (childRel dir name)" using names_in_nonempty [OF assms(1)] by (auto simp: childRel_def)
  ultimately show ?thesis by (simp add: depth_left_def)
qed

text \<open>Folding a fallible step, for the termination of walks that recurse inside it.\<close>

lemma foldR_cong [fundef_cong]:
  "xs = ys \<Longrightarrow> a = b \<Longrightarrow> (\<And>x acc. x \<in> set ys \<Longrightarrow> f x acc = g x acc) \<Longrightarrow> foldR f xs a = foldR g ys b"
proof (induction ys arbitrary: xs a b)
  case (Cons y ys)
  have "foldR f ys = foldR g ys" using Cons.IH [OF refl refl] Cons.prems(3) by (intro ext) simp
  then show ?case using Cons.prems by simp
qed simp

lemma bindR_cong [fundef_cong]: "r = r' \<Longrightarrow> (\<And>x. r' = Inr x \<Longrightarrow> f x = g x) \<Longrightarrow> bindR r f = bindR r' g"
  by (cases r') auto

section \<open>Collecting what a materialization may touch\<close>

record visibleEntries =
  ve_files :: "bytes list"
  ve_dirs :: "bytes list"
  ve_keep :: "bytes list"

definition no_entries :: visibleEntries where
  "no_entries = \<lparr>ve_files = [], ve_dirs = [], ve_keep = []\<rparr>"

definition join_entries :: "visibleEntries \<Rightarrow> visibleEntries \<Rightarrow> visibleEntries" where
  "join_entries a b = \<lparr>ve_files = ve_files a @ ve_files b, ve_dirs = ve_dirs a @ ve_dirs b, ve_keep = ve_keep a @ ve_keep b\<rparr>"

function collectVisible :: "Ignore \<Rightarrow> nfc_lib \<Rightarrow> walk \<Rightarrow> fs \<Rightarrow> bytes \<Rightarrow> ws_error + visibleEntries" where
  "collectVisible ig nfc walk fs dir =
     bindR (readDir walk fs dir) (\<lambda>names.
     foldR (\<lambda>name out.
       let path = childRel dir name in
       if walk path = Some Cancelled then Inl WsHost
       else if Ignored ig (nfc path) then Inr (out\<lparr>ve_keep := ve_keep out @ parents path\<rparr>)
       else if map_of fs path = Some FDir then
         bindR (collectVisible ig nfc walk fs path) (\<lambda>sub. Inr (join_entries (out\<lparr>ve_dirs := ve_dirs out @ [path]\<rparr>) sub))
       else Inr (out\<lparr>ve_files := ve_files out @ [path]\<rparr>)) names no_entries)"
  by pat_completeness auto
termination
proof (relation "measure (\<lambda>(ig, nfc, walk, fs, dir). depth_left fs dir)")
  fix ig nfc walk fs dir names name and out :: visibleEntries and path :: bytes
  assume "readDir walk fs dir = Inr names" "name \<in> set names" "path = childRel dir name" "map_of fs path = Some FDir"
  then show "((ig, nfc, walk, fs, path), ig, nfc, walk, fs, dir) \<in> measure (\<lambda>(ig, nfc, walk, fs, dir). depth_left fs dir)"
    using depth_left_child [of name fs dir FDir] by (auto simp: readDir_def split: if_splits)
qed simp

declare collectVisible.simps [simp del]

section \<open>Scanning\<close>

text \<open>
  The scan keeps, per directory, the normalized paths it has met as directories and as files. Names on disk are
  raw, paths of the notebook are normalized; a rejection names one of the two, as the code does.
\<close>

record scan_acc =
  sa_dirs :: "bytes list"
  sa_files :: "bytes list"
  sa_found :: "File list"

definition scan_error :: "bytes \<Rightarrow> scan_kind \<Rightarrow> ws_error + 'a" where
  "scan_error path k = Inl (ScanError path [] k)"

definition readVisibleFile :: "walk \<Rightarrow> bytes \<Rightarrow> bytes \<Rightarrow> bytes \<Rightarrow> ws_error + bytes" where
  "readVisibleFile walk raw path data =
     (if walk raw = Some Unreadable then scan_error path ScanIO
      else case ValidateContent data of Inl _ \<Rightarrow> scan_error path ErrInvalidContent | Inr _ \<Rightarrow> Inr data)"

function scanWalk :: "text_lib \<Rightarrow> Ignore \<Rightarrow> nfc_lib \<Rightarrow> bytes \<Rightarrow> walk \<Rightarrow> fs \<Rightarrow> bytes \<Rightarrow> bytes \<Rightarrow> ws_error + File list" where
  "scanWalk tx ig nfc rel walk fs dir pre =
     bindR (mapErr (\<lambda>_. ScanError (joinRel rel dir) [] ScanIO) (readDir walk fs dir)) (\<lambda>names.
     bindR (foldR (\<lambda>name acc.
       let raw = childRel dir name; path = pre @ nfc name; rawPath = joinRel rel dir @ ''/'' @ name in
       if walk raw = Some Cancelled then Inl WsHost
       else if Ignored ig path then Inr acc
       else if \<not> utf8_Valid name then scan_error rawPath ErrInvalidPath
       else if \<not> isOk (ValidatePath tx path) then scan_error path ErrInvalidPath
       else case map_of fs raw of
         None \<Rightarrow> scan_error path ScanIO
       | Some FSymlink \<Rightarrow> scan_error path ErrSymlink
       | Some FDir \<Rightarrow>
           if path \<in> set (sa_files acc) then scan_error path ErrInvalidPath
           else if path \<in> set (sa_dirs acc) then scan_error path ErrPathCollision
           else bindR (scanWalk tx ig nfc rel walk fs raw (path @ ''/'')) (\<lambda>sub.
             Inr (acc\<lparr>sa_dirs := sa_dirs acc @ [path], sa_found := sa_found acc @ sub\<rparr>))
       | Some (FFile data) \<Rightarrow>
           if path \<in> set (sa_dirs acc) then scan_error path ErrInvalidPath
           else if path \<in> set (sa_files acc) then scan_error path ErrPathCollision
           else bindR (readVisibleFile walk raw path data) (\<lambda>d.
             Inr (acc\<lparr>sa_files := sa_files acc @ [path], sa_found := sa_found acc @ [\<lparr>f_Path = path, f_Data = d\<rparr>]\<rparr>))
       | Some FSpecial \<Rightarrow> scan_error path ErrUnsupportedFile) names \<lparr>sa_dirs = [], sa_files = [], sa_found = []\<rparr>)
     (\<lambda>acc. Inr (sa_found acc)))"
  by pat_completeness auto
termination
proof (relation "measure (\<lambda>(tx, ig, nfc, rel, walk, fs, dir, pre). depth_left fs dir)")
  fix tx ig nfc rel walk fs dir pre names name and acc :: scan_acc and raw path rawPath e
  assume "mapErr (\<lambda>_. ScanError (joinRel rel dir) [] ScanIO) (readDir walk fs dir) = Inr names" "name \<in> set names"
    "raw = childRel dir name" "map_of fs raw = Some e" "e = FDir"
  then show "((tx, ig, nfc, rel, walk, fs, raw, path @ ''/''), tx, ig, nfc, rel, walk, fs, dir, pre)
      \<in> measure (\<lambda>(tx, ig, nfc, rel, walk, fs, dir, pre). depth_left fs dir)"
    using depth_left_child [of name fs dir FDir] by (auto simp: readDir_def split: if_splits)
qed simp

declare scanWalk.simps [simp del]

end
