(* ===== verification/WorkspaceOps.thy ===== *)
theory WorkspaceOps
  imports VisibleTree Remote
begin

text \<open>
  A managed directory (\<open>internal/workspace/workspace.go\<close>, \<open>materialize.go\<close>, \<open>scan.go\<close>, \<open>state.go\<close>): the lock and the state
  record, the scan, the rewriting of the visible directory, and recovery.

  The state is what is on disk (the visible directory, the state record and its temporary file, the pulled
  marker, the repository) and what the process holds (the record in memory, whether it was closed). Every call
  on the host has a number and the configuration says which of them fail. A failed call on the visible
  directory leaves whatever the configuration says (\<open>wc_damage\<close>); a failed call on the private directory leaves
  what the code relies on: a rename happens or does not. The staging directory is written and removed and never
  read, so only the outcome of those calls is kept. A process that dies at a call leaves what a failed call
  leaves, as no error path writes anything more.
\<close>

section \<open>State\<close>

record 'r wsm =
  wm_visible :: fs
  wm_stateFile :: "bytes option"
  wm_stateTmp :: bool
  wm_marker :: bool
  wm_repoDir :: bool
  wm_repo :: 'r
  wm_state :: state
  wm_closed :: bool
  wm_calls :: nat

record 'r wcfg =
  wc_rel :: bytes
  wc_derivedKey :: bytes
  wc_ignore :: Ignore
  wc_nfc :: nfc_lib
  wc_tx :: text_lib
  wc_json :: json_lib
  wc_repo :: "'r Repository"
  wc_newRepo :: 'r
  wc_depth :: nat
  wc_host :: "nat \<Rightarrow> bool"
  wc_damage :: "nat \<Rightarrow> fs \<Rightarrow> fs"
  wc_walk :: "nat \<Rightarrow> walk"
  wc_rand :: "nat \<Rightarrow> u8 list option"
  wc_failScan :: bool
  wc_failStage :: bool
  wc_failReplace :: bool
  wc_failBaseline :: bool
  wc_failRecover :: bool

type_synonym ('a, 'r) wact = "(ws_error, 'a, 'r wsm) act"

definition getW :: "('r wsm \<Rightarrow> 'a) \<Rightarrow> ('a, 'r) wact" where
  "getW f = (\<lambda>w. (Inr (f w), w))"

definition modW :: "('r wsm \<Rightarrow> 'r wsm) \<Rightarrow> (unit, 'r) wact" where
  "modW f = (\<lambda>w. (Inr (), f w))"

fun eachS :: "('a \<Rightarrow> ('e, unit, 's) act) \<Rightarrow> 'a list \<Rightarrow> ('e, unit, 's) act" where
  "eachS f [] = retS ()"
| "eachS f (x # xs) = bindS (f x) (\<lambda>_. eachS f xs)"

section \<open>Calls on the host\<close>

text \<open>A call that leaves the modelled state alone when it fails.\<close>

definition hostW :: "'r wcfg \<Rightarrow> ws_error \<Rightarrow> (unit, 'r) wact" where
  "hostW c err = (\<lambda>w. (if wc_host c (wm_calls w) then Inr () else Inl err, w\<lparr>wm_calls := Suc (wm_calls w)\<rparr>))"

text \<open>A call on the visible directory: \<open>f\<close> gives its effect, or nothing when the file system refuses it.\<close>

definition visibleW :: "'r wcfg \<Rightarrow> ws_error \<Rightarrow> (fs \<Rightarrow> fs option) \<Rightarrow> (unit, 'r) wact" where
  "visibleW c err f = (\<lambda>w.
     let i = wm_calls w; w1 = w\<lparr>wm_calls := Suc i\<rparr> in
     if wc_host c i then
       (case f (wm_visible w) of None \<Rightarrow> (Inl err, w1) | Some fs \<Rightarrow> (Inr (), w1\<lparr>wm_visible := fs\<rparr>))
     else (Inl err, w1\<lparr>wm_visible := wc_damage c i (wm_visible w)\<rparr>))"

text \<open>The file system's side of those calls.\<close>

definition is_below :: "bytes \<Rightarrow> bytes \<Rightarrow> bool" where
  "is_below dir p \<longleftrightarrow> dir = [] \<or> p = dir \<or> HasPrefix p (dir @ ''/'')"

definition fs_RemoveAll :: "bytes \<Rightarrow> fs \<Rightarrow> fs option" where
  "fs_RemoveAll p fs =
     (if map_of fs p = None \<and> list_ex (\<lambda>d. map_of fs d \<noteq> None \<and> map_of fs d \<noteq> Some FDir) (parents p) then None
      else Some (filter (\<lambda>(k, e). \<not> is_below p k) fs))"

definition fs_Remove :: "bytes \<Rightarrow> fs \<Rightarrow> fs option" where
  "fs_Remove p fs =
     (case map_of fs p of
        None \<Rightarrow> None
      | Some FDir \<Rightarrow> if list_ex (\<lambda>(k, e). k \<noteq> p \<and> is_below p k) fs then None else Some (alist_del p fs)
      | Some _ \<Rightarrow> Some (alist_del p fs))"

fun mkdirs :: "bytes list \<Rightarrow> fs \<Rightarrow> fs option" where
  "mkdirs [] fs = Some fs"
| "mkdirs (d # ds) fs =
     (case map_of fs d of
        None \<Rightarrow> mkdirs ds (alist_set d FDir fs)
      | Some FDir \<Rightarrow> mkdirs ds fs
      | Some _ \<Rightarrow> None)"

text \<open>\<open>MkdirAll\<close> of a directory below the visible one, outermost first; the visible directory comes before all.\<close>

definition fs_MkdirAll :: "bytes \<Rightarrow> fs \<Rightarrow> fs option" where
  "fs_MkdirAll dir fs = mkdirs ([] # (if dir = [] then [] else rev (parents dir) @ [dir])) fs"

definition fs_Create :: "bytes \<Rightarrow> fs \<Rightarrow> fs option" where
  "fs_Create p fs = (if map_of fs p \<noteq> None \<or> map_of fs (parentRel p) \<noteq> Some FDir then None else Some (alist_set p (FFile []) fs))"

definition fs_Write :: "bytes \<Rightarrow> bytes \<Rightarrow> fs \<Rightarrow> fs option" where
  "fs_Write p data fs = Some (alist_set p (FFile data) fs)"

definition fs_Rename :: "bytes \<Rightarrow> bytes \<Rightarrow> fs \<Rightarrow> fs option" where
  "fs_Rename old new fs =
     (case map_of fs old of
        None \<Rightarrow> None
      | Some e \<Rightarrow> if map_of fs new = Some FDir then None else Some (alist_set new e (alist_del old fs)))"

section \<open>The state record\<close>

definition persistState :: "'r wcfg \<Rightarrow> state \<Rightarrow> (state, 'r) wact" where
  "persistState c st0 =
     (let st = st0\<lparr>st_Identity := wc_derivedKey c\<rparr> in
      bindS (liftS (mapErr WsState (encodeState st))) (\<lambda>stream.
      bindS (hostW c WsHost) (\<lambda>_.
      bindS (modW (\<lambda>w. w\<lparr>wm_stateTmp := True\<rparr>)) (\<lambda>_.
      bindS (hostW c WsHost) (\<lambda>_.
      bindS (hostW c WsHost) (\<lambda>_.
      bindS (hostW c WsHost) (\<lambda>_.
      bindS (hostW c WsHost) (\<lambda>_.
      bindS (modW (\<lambda>w. w\<lparr>wm_stateTmp := False, wm_stateFile := Some (jl_text (wc_json c) stream)\<rparr>)) (\<lambda>_.
      retS st)))))))))"

definition readStateFile :: "'r wcfg \<Rightarrow> (state, 'r) wact" where
  "readStateFile c =
     bindS (hostW c WsHost) (\<lambda>_.
     bindS (getW wm_stateFile) (\<lambda>file.
     case file of None \<Rightarrow> failS WsHost | Some data \<Rightarrow> liftS (mapErr WsState (decodeState (jl_tokens (wc_json c) data)))))"

text \<open>\<open>loadDurableState\<close>: the record and whether it demands recovery; no record when it cannot be read. \<open>os.Stat\<close> of the
  temporary file counts it as present unless the host says that it does not exist.\<close>

definition loadDurableState :: "'r wcfg \<Rightarrow> (state option \<times> bool, 'r) wact" where
  "loadDurableState c =
     tryS (bindS (hostW c WsHost) (\<lambda>_. getW wm_stateTmp)) (\<lambda>tmp.
     tryS (readStateFile c) (\<lambda>r.
     case r of
       Inl _ \<Rightarrow> retS (None, True)
     | Inr st \<Rightarrow> retS (Some st, st_RecoveryRequired st \<or> st_Identity st \<noteq> wc_derivedKey c \<or> tmp \<noteq> Inr False)))"

definition refreshState :: "'r wcfg \<Rightarrow> (unit, 'r) wact" where
  "refreshState c =
     bindS (loadDurableState c) (\<lambda>(rec, recovery).
     modW (\<lambda>w. w\<lparr>wm_state := (case rec of Some st \<Rightarrow> st | None \<Rightarrow> wm_state w)\<lparr>st_RecoveryRequired := recovery\<rparr>\<rparr>))"

definition markRecoveryRequired :: "'r wcfg \<Rightarrow> (unit, 'r) wact" where
  "markRecoveryRequired c =
     bindS (getW wm_state) (\<lambda>st.
     if st_RecoveryRequired st then retS ()
     else bindS (persistState c (st\<lparr>st_RecoveryRequired := True\<rparr>)) (\<lambda>st'. modW (\<lambda>w. w\<lparr>wm_state := st'\<rparr>)))"

section \<open>The operation lock\<close>

definition acquire :: "'r wcfg \<Rightarrow> (unit, 'r) wact" where
  "acquire c =
     bindS (hostW c WsHost) (\<lambda>_.
     bindS (getW wm_closed) (\<lambda>closed.
     if closed then failS WsClosed else bindS (hostW c WsHost) (\<lambda>_. refreshState c)))"

text \<open>\<open>Hold\<close> acquires the lock, unless the request holds it; \<open>held\<close> is what the context of the request says.\<close>

definition Hold :: "'r wcfg \<Rightarrow> bool \<Rightarrow> (unit, 'r) wact" where
  "Hold c held = (if held then retS () else acquire c)"

definition withOpLock :: "'r wcfg \<Rightarrow> bool \<Rightarrow> bool \<Rightarrow> ('a, 'r) wact \<Rightarrow> ('a, 'r) wact" where
  "withOpLock c held allowRecovery fn =
     bindS (if held then retS () else acquire c) (\<lambda>_.
     bindS (getW (\<lambda>w. (wm_closed w, st_RecoveryRequired (wm_state w)))) (\<lambda>(closed, recovery).
     if closed then failS WsClosed
     else if \<not> allowRecovery \<and> recovery then failS ErrRecoveryRequired
     else fn))"

section \<open>Scanning\<close>

definition pinIgnored :: "'r wcfg \<Rightarrow> 'r wsm \<Rightarrow> File list \<Rightarrow> File list" where
  "pinIgnored c w files =
     (if \<not> ig_Configured (wc_ignore c) then files
      else case state_baseline (wm_state w) of
        Inl _ \<Rightarrow> files
      | Inr base \<Rightarrow>
          if bl_Tree base = EmptyTreeID then files
          else case ReadSnapshot (wc_tx c) (wc_repo c) (wm_repo w) (wc_depth c) (bl_Tree base) of
            Inl _ \<Rightarrow> files
          | Inr snap \<Rightarrow> files @ filter (\<lambda>f. Ignored (wc_ignore c) (f_Path f)) snap)"

definition snapshot_rejection :: "snapshot_error \<Rightarrow> ws_error" where
  "snapshot_rejection e =
     (case e of
        PathCollision pc \<Rightarrow> ScanError (pce_Path pc) (if pce_First pc \<noteq> pce_Path pc then pce_First pc else []) ErrPathCollision
      | _ \<Rightarrow> SnapshotRejected e)"

definition scanLocked :: "'r wcfg \<Rightarrow> (Snapshot, 'r) wact" where
  "scanLocked c =
     (if wc_failScan c then failS WsInjected
      else
        bindS (getW (\<lambda>w. map_of (wm_visible w) [])) (\<lambda>root.
        if root = None then bindS (visibleW c WsHost (fs_MkdirAll [])) (\<lambda>_. retS [])
        else
          bindS (getW (\<lambda>w. scanWalk (wc_tx c) (wc_ignore c) (wc_nfc c) (wc_rel c) (wc_walk c (wm_calls w)) (wm_visible w) [] [])) (\<lambda>r.
          bindS (modW (\<lambda>w. w\<lparr>wm_calls := Suc (wm_calls w)\<rparr>)) (\<lambda>_.
          bindS (liftS r) (\<lambda>files.
          bindS (getW (\<lambda>w. pinIgnored c w files)) (\<lambda>snap.
          bindS (liftS (mapErr snapshot_rejection
            (bindR (ValidateSnapshot (wc_tx c) snap) (\<lambda>_. ValidateFoldedDirectories (wc_tx c) snap)))) (\<lambda>_.
          retS snap)))))))"

definition ws_Snapshot_op :: "'r wcfg \<Rightarrow> bool \<Rightarrow> (Snapshot, 'r) wact" where
  "ws_Snapshot_op c held = withOpLock c held False (scanLocked c)"

section \<open>Rewriting the visible directory\<close>

definition WithoutIgnored :: "Ignore \<Rightarrow> Snapshot \<Rightarrow> Snapshot" where
  "WithoutIgnored ig target = (if \<not> ig_Configured ig then target else filter (\<lambda>f. \<not> Ignored ig (f_Path f)) target)"

definition collect :: "'r wcfg \<Rightarrow> (visibleEntries, 'r) wact" where
  "collect c =
     bindS (getW (\<lambda>w. collectVisible (wc_ignore c) (wc_nfc c) (wc_walk c (wm_calls w)) (wm_visible w) [])) (\<lambda>r.
     bindS (modW (\<lambda>w. w\<lparr>wm_calls := Suc (wm_calls w)\<rparr>)) (\<lambda>_. liftS r))"

definition refuseIgnoredConflict :: "'r wcfg \<Rightarrow> Snapshot \<Rightarrow> (unit, 'r) wact" where
  "refuseIgnoredConflict c target =
     (if \<not> ig_Configured (wc_ignore c) then retS ()
      else
        bindS (collect c) (\<lambda>existing.
        case find (\<lambda>f. f_Path f \<in> set (ve_keep existing)) target of
          None \<Rightarrow> retS ()
        | Some f \<Rightarrow> failS (IgnoredConflictError (f_Path f))))"

text \<open>The calls of \<open>writeStage\<close>: the staging directory, and for each file the request check, its directory and the write.\<close>

definition writeStage :: "'r wcfg \<Rightarrow> Snapshot \<Rightarrow> (unit, 'r) wact" where
  "writeStage c snap =
     bindS (hostW c WsHost) (\<lambda>_.
     eachS (\<lambda>f. bindS (hostW c WsHost) (\<lambda>_. bindS (hostW c WsHost) (\<lambda>_. hostW c WsHost))) snap)"

definition targetDirSet :: "Snapshot \<Rightarrow> bytes list" where
  "targetDirSet target = concat (map (\<lambda>f. parents (f_Path f)) target)"

definition tempSuffix :: "'r wcfg \<Rightarrow> nat \<Rightarrow> bytes" where
  "tempSuffix c i = (case wc_rand c i of None \<Rightarrow> ''.slivingdoc-tmp'' | Some b \<Rightarrow> ''.slivingdoc-tmp-'' @ hex_text b)"

definition placeFile :: "'r wcfg \<Rightarrow> File \<Rightarrow> (unit, 'r) wact" where
  "placeFile c f =
     bindS (hostW c WsHost) (\<lambda>_.
     bindS (if parentRel (f_Path f) \<noteq> [] then visibleW c WsHost (fs_MkdirAll (parentRel (f_Path f))) else retS ()) (\<lambda>_.
     bindS (getW (\<lambda>w. f_Path f @ tempSuffix c (wm_calls w))) (\<lambda>tmp.
     bindS (visibleW c ErrPartial (fs_Create tmp)) (\<lambda>_.
     bindS (visibleW c ErrPartial (fs_Write tmp (f_Data f))) (\<lambda>_.
     bindS (visibleW c ErrPartial Some) (\<lambda>_.
     visibleW c ErrPartial (fs_Rename tmp (f_Path f))))))))"

definition applyInPlace :: "'r wcfg \<Rightarrow> Snapshot \<Rightarrow> (unit, 'r) wact" where
  "applyInPlace c target =
     bindS (visibleW c ErrPartial (fs_MkdirAll [])) (\<lambda>_.
     bindS (collect c) (\<lambda>existing.
     let targetFiles = map f_Path target; targetDirs = targetDirSet target in
     bindS (eachS (\<lambda>p. if p \<in> set targetFiles then visibleW c ErrPartial (fs_RemoveAll p) else retS ()) (ve_dirs existing)) (\<lambda>_.
     bindS (eachS (\<lambda>p. if p \<in> set targetDirs then visibleW c ErrPartial (fs_Remove p) else retS ()) (ve_files existing)) (\<lambda>_.
     bindS (eachS (placeFile c) target) (\<lambda>_.
     bindS (eachS (\<lambda>p. if p \<notin> set targetFiles \<and> p \<notin> set targetDirs then visibleW c ErrPartial (fs_Remove p) else retS ())
       (ve_files existing)) (\<lambda>_.
     bindS (eachS (\<lambda>p. if p \<notin> set targetDirs \<and> p \<notin> set (ve_keep existing) then visibleW c ErrPartial (fs_RemoveAll p) else retS ())
       (rev (sort (ve_dirs existing)))) (\<lambda>_.
     hostW c WsHost)))))))"

definition advance_state :: "Baseline option \<Rightarrow> state \<Rightarrow> state" where
  "advance_state newBaseline st =
     (case newBaseline of
        None \<Rightarrow> st
      | Some b \<Rightarrow> st\<lparr>st_RemoteGeneration := bl_RemoteGeneration b,
          st_BaselineHead := (if OID_IsZero (bl_Head b) then [] else OID_String (bl_Head b)),
          st_BaselineTree := OID_String (bl_Tree b)\<rparr>)\<lparr>st_RecoveryRequired := False\<rparr>"

definition applyLocked :: "'r wcfg \<Rightarrow> oid \<Rightarrow> Baseline option \<Rightarrow> (unit, 'r) wact" where
  "applyLocked c targetTree newBaseline =
     bindS (getW (\<lambda>w. ReadSnapshot (wc_tx c) (wc_repo c) (wm_repo w) (wc_depth c) targetTree)) (\<lambda>r.
     bindS (liftS (mapErr WsGit r)) (\<lambda>full.
     let snap = WithoutIgnored (wc_ignore c) full in
     bindS (refuseIgnoredConflict c snap) (\<lambda>_.
     bindS (hostW c WsHost) (\<lambda>_.
     bindS (hostW c WsHost) (\<lambda>_.
     bindS (if wc_failStage c then failS WsInjected else retS ()) (\<lambda>_.
     bindS (writeStage c snap) (\<lambda>_.
     bindS (markRecoveryRequired c) (\<lambda>_.
     bindS (if wc_failReplace c then failS ErrPartial else retS ()) (\<lambda>_.
     bindS (applyInPlace c snap) (\<lambda>_.
     bindS (getW (\<lambda>w. advance_state newBaseline (wm_state w))) (\<lambda>st.
     bindS (if wc_failBaseline c then failS ErrPartial else retS ()) (\<lambda>_.
     bindS (persistState c st) (\<lambda>st'.
     modW (\<lambda>w. w\<lparr>wm_state := st'\<rparr>))))))))))))))"

definition ws_Accept_op :: "'r wcfg \<Rightarrow> bool \<Rightarrow> Baseline \<Rightarrow> (unit, 'r) wact" where
  "ws_Accept_op c held b = withOpLock c held False (applyLocked c (bl_Tree b) (Some b))"

definition ws_Replace_op :: "'r wcfg \<Rightarrow> bool \<Rightarrow> oid \<Rightarrow> (unit, 'r) wact" where
  "ws_Replace_op c held tree = withOpLock c held False (applyLocked c tree None)"

definition ws_Materialize_op :: "'r wcfg \<Rightarrow> bool \<Rightarrow> Baseline \<Rightarrow> oid \<Rightarrow> (unit, 'r) wact" where
  "ws_Materialize_op c held b tree = withOpLock c held False (applyLocked c tree (Some b))"

definition ws_Recover_op :: "'r wcfg \<Rightarrow> bool \<Rightarrow> Baseline \<Rightarrow> (unit, 'r) wact" where
  "ws_Recover_op c held b =
     withOpLock c held True
       (bindS (markRecoveryRequired c) (\<lambda>_.
        if wc_failRecover c then failS WsInjected else applyLocked c (bl_Tree b) (Some b)))"

definition ws_MarkPulled_op :: "'r wcfg \<Rightarrow> bool \<Rightarrow> (unit, 'r) wact" where
  "ws_MarkPulled_op c held =
     withOpLock c held False
       (bindS (hostW c WsHost) (\<lambda>_.
        bindS (hostW c WsHost) (\<lambda>_.
        bindS (hostW c WsHost) (\<lambda>_.
        bindS (hostW c WsHost) (\<lambda>_. modW (\<lambda>w. w\<lparr>wm_marker := True\<rparr>))))))"

section \<open>Opening\<close>

text \<open>Whether \<open>os.Stat\<close> reports anything but that the file does not exist.\<close>

definition statW :: "'r wcfg \<Rightarrow> ('r wsm \<Rightarrow> bool) \<Rightarrow> (bool, 'r) wact" where
  "statW c there = tryS (hostW c WsHost) (\<lambda>r. case r of Inl _ \<Rightarrow> retS True | Inr _ \<Rightarrow> getW there)"

definition createRepo :: "'r wcfg \<Rightarrow> (unit, 'r) wact" where
  "createRepo c = bindS (hostW c WsHost) (\<lambda>_. modW (\<lambda>w. w\<lparr>wm_repo := wc_newRepo c, wm_repoDir := True\<rparr>))"

definition openRepo :: "'r wcfg \<Rightarrow> (unit, 'r) wact" where
  "openRepo c = bindS (hostW c WsHost) (\<lambda>_. bindS (getW wm_repoDir) (\<lambda>there. if there then retS () else failS WsHost))"

definition writeEmptyTree :: "'r wcfg \<Rightarrow> (unit, 'r) wact" where
  "writeEmptyTree c = (\<lambda>w. case EmptyTree (wc_repo c) (wm_repo w) of
     Inl e \<Rightarrow> (Inl (WsGit e), w) | Inr (_, r) \<Rightarrow> (Inr (), w\<lparr>wm_repo := r\<rparr>))"

definition setState :: "state \<Rightarrow> bool \<Rightarrow> (unit, 'r) wact" where
  "setState st recovery = modW (\<lambda>w. w\<lparr>wm_state := (if recovery then st\<lparr>st_RecoveryRequired := True\<rparr> else st)\<rparr>)"

text \<open>\<open>openPrivateState\<close> with the assignment of its result to the workspace in \<open>Open\<close>.\<close>

definition openPrivateState :: "'r wcfg \<Rightarrow> (unit, 'r) wact" where
  "openPrivateState c =
     bindS (statW c (\<lambda>w. wm_stateFile w \<noteq> None)) (\<lambda>stateThere.
     bindS (statW c wm_repoDir) (\<lambda>repoThere.
     bindS (statW c wm_stateTmp) (\<lambda>tmpPresent.
     if \<not> stateThere \<and> \<not> repoThere \<and> \<not> tmpPresent then
       bindS (createRepo c) (\<lambda>_.
       bindS (writeEmptyTree c) (\<lambda>_.
       bindS (persistState c (newWorkspaceState (wc_derivedKey c))) (\<lambda>st. setState st False)))
     else
       bindS (tryS (openRepo c) (\<lambda>r.
         case r of
           Inr _ \<Rightarrow> retS False
         | Inl _ \<Rightarrow>
             bindS (if repoThere then tryS (hostW c WsHost) (\<lambda>_. retS ()) else retS ()) (\<lambda>_.
             bindS (createRepo c) (\<lambda>_. retS True)))) (\<lambda>rebuilt.
       bindS (writeEmptyTree c) (\<lambda>_.
       if \<not> stateThere then setState zero_state True
       else
         tryS (readStateFile c) (\<lambda>r.
         case r of
           Inl _ \<Rightarrow> setState zero_state True
         | Inr st \<Rightarrow>
             if st_Identity st \<noteq> wc_derivedKey c \<or> tmpPresent then setState st True
             else if rebuilt \<and> \<not> st_RecoveryRequired st then
               bindS (persistState c (st\<lparr>st_RecoveryRequired := True\<rparr>)) (\<lambda>st'. setState st' True)
             else setState st rebuilt))))))"

text \<open>\<open>Baseline()\<close> drops the error of a record that was validated when it was read or written.\<close>

definition ws_Baseline_op :: "'r wsm \<Rightarrow> Baseline" where
  "ws_Baseline_op w =
     (case state_baseline (wm_state w) of Inr b \<Rightarrow> b | Inl _ \<Rightarrow> \<lparr>bl_RemoteGeneration = 0, bl_Head = zeroOID, bl_Tree = zeroOID\<rparr>)"

section \<open>Views\<close>

definition BaselineSnapshot :: "'r wcfg \<Rightarrow> (Snapshot, 'r) wact" where
  "BaselineSnapshot c =
     bindS (getW (\<lambda>w. w)) (\<lambda>w.
     if wm_closed w then failS WsClosed
     else if st_RecoveryRequired (wm_state w) then failS ErrRecoveryRequired
     else bindS (liftS (mapErr WsState (state_baseline (wm_state w)))) (\<lambda>b.
       liftS (mapErr WsGit (ReadSnapshot (wc_tx c) (wc_repo c) (wm_repo w) (wc_depth c) (bl_Tree b)))))"

record Diff =
  df_Added :: "bytes list"
  df_Modified :: "bytes list"
  df_Deleted :: "bytes list"

definition diffSnapshots :: "Snapshot \<Rightarrow> Snapshot \<Rightarrow> Diff" where
  "diffSnapshots base cur =
     (let baseData = snap_map base; curData = snap_map cur;
        curPaths = remdups (map f_Path cur); basePaths = remdups (map f_Path base) in
      \<lparr>df_Added = sort (filter (\<lambda>p. baseData p = None) curPaths),
       df_Modified = sort (filter (\<lambda>p. baseData p \<noteq> None \<and> baseData p \<noteq> curData p) curPaths),
       df_Deleted = sort (filter (\<lambda>p. curData p = None) basePaths)\<rparr>)"

definition ws_Diff_op :: "'r wcfg \<Rightarrow> bool \<Rightarrow> (Diff, 'r) wact" where
  "ws_Diff_op c held =
     withOpLock c held False
       (bindS (scanLocked c) (\<lambda>cur.
        bindS (getW (\<lambda>w. (state_baseline (wm_state w), wm_repo w))) (\<lambda>(r, repo).
        bindS (liftS (mapErr WsState r)) (\<lambda>b.
        bindS (liftS (mapErr WsGit (ReadSnapshot (wc_tx c) (wc_repo c) repo (wc_depth c) (bl_Tree b)))) (\<lambda>base.
        retS (diffSnapshots base cur))))))"

text \<open>\<open>Close\<close>: closing the repository and the root are host calls, whose first error is returned; the workspace counts as closed.\<close>

definition ws_Close :: "'r wcfg \<Rightarrow> (unit, 'r) wact" where
  "ws_Close c =
     bindS (getW wm_closed) (\<lambda>closed.
     if closed then retS ()
     else
       bindS (modW (\<lambda>w. w\<lparr>wm_closed := True\<rparr>)) (\<lambda>_.
       tryS (hostW c WsHost) (\<lambda>r1.
       tryS (hostW c WsHost) (\<lambda>r2.
       bindS (liftS r1) (\<lambda>_. liftS r2)))))"

text \<open>The workspace a notebook works on, every call of which comes with the lock held by \<open>Hold\<close>.\<close>

definition workspace_of :: "'r wcfg \<Rightarrow> ('r wsm, 'r) Workspace" where
  "workspace_of c = \<lparr>ws_Hold = Hold c False, ws_Snapshot = ws_Snapshot_op c True, ws_Baseline = ws_Baseline_op,
     ws_Repo = wm_repo, ws_setRepo = (\<lambda>r w. w\<lparr>wm_repo := r\<rparr>), ws_Accept = ws_Accept_op c True,
     ws_Materialize = ws_Materialize_op c True, ws_WithoutIgnored = (\<lambda>_. WithoutIgnored (wc_ignore c)),
     ws_Recover = ws_Recover_op c True, ws_RecoveryRequired = (\<lambda>w. st_RecoveryRequired (wm_state w)),
     ws_Pulled = wm_marker, ws_MarkPulled = ws_MarkPulled_op c True\<rparr>"

end
