(* ===== verification/WorkspaceSafety.thy ===== *)
theory WorkspaceSafety
  imports WorkspaceOps
begin

text \<open>
  Failure atomicity of a workspace. \<open>demands\<close> is the durable side of the recovery flag: what a process that takes the
  lock concludes from the private directory. The visible directory is touched only while it holds, so work that
  was interrupted is never mistaken for the caller's edits; it is cleared only by the write that also records
  the new baseline.
\<close>

section \<open>What an action preserves\<close>

definition preserves :: "('t \<Rightarrow> bool) \<Rightarrow> ('e, 'a, 't) act \<Rightarrow> bool" where
  "preserves P m \<longleftrightarrow> (\<forall>w r w'. m w = (r, w') \<longrightarrow> P w \<longrightarrow> P w')"

named_theorems preserves_rules "structural rules for predicates an action preserves"

lemma preservesD: "preserves P m \<Longrightarrow> m w = (r, w') \<Longrightarrow> P w \<Longrightarrow> P w'"
  by (simp add: preserves_def)

lemma preserves_basic [preserves_rules]: "preserves P (retS x)" "preserves P (failS e)" "preserves P (liftS y)"
  by (auto simp: preserves_def)

lemma preserves_tryS [preserves_rules]: "preserves P m \<Longrightarrow> (\<And>r. preserves P (f r)) \<Longrightarrow> preserves P (tryS m f)"
  unfolding preserves_def tryS_apply by (metis prod.collapse)

lemma preserves_bindS [preserves_rules]: "preserves P m \<Longrightarrow> (\<And>x. preserves P (f x)) \<Longrightarrow> preserves P (bindS m f)"
  unfolding bindS_def by (rule preserves_tryS) (auto intro: preserves_basic split: sum.split)

lemma preserves_cases [preserves_rules]:
  "preserves P a \<Longrightarrow> preserves P b \<Longrightarrow> preserves P (if c then a else b)"
  "(\<And>e. preserves P (fl e)) \<Longrightarrow> (\<And>x. preserves P (fr x)) \<Longrightarrow> preserves P (case y of Inl e \<Rightarrow> fl e | Inr x \<Rightarrow> fr x)"
  "preserves P a \<Longrightarrow> (\<And>x. preserves P (fs x)) \<Longrightarrow> preserves P (case opt of None \<Rightarrow> a | Some x \<Rightarrow> fs x)"
  "(\<And>x z. preserves P (fp x z)) \<Longrightarrow> preserves P (case pr of (x, z) \<Rightarrow> fp x z)"
  "preserves P (ft t) \<Longrightarrow> preserves P (let x = t in ft x)"
  by (simp_all split: sum.splits option.splits prod.splits)

lemma preserves_eachS [preserves_rules]: "(\<And>x. preserves P (f x)) \<Longrightarrow> preserves P (eachS f xs)"
  by (induction xs) (auto intro: preserves_bindS preserves_basic simp del: retS_apply)

lemma preserves_getW [preserves_rules]: "preserves P (getW f)"
  by (simp add: preserves_def getW_def)

lemma preserves_modW: "(\<And>w. P w \<Longrightarrow> P (f w)) \<Longrightarrow> preserves P (modW f)"
  by (simp add: preserves_def modW_def)

lemma preserves_hostW: "(\<And>w. P w \<Longrightarrow> P (w\<lparr>wm_calls := Suc (wm_calls w)\<rparr>)) \<Longrightarrow> preserves P (hostW c err)"
  by (simp add: preserves_def hostW_def)

lemma preserves_visibleW:
  "(\<And>w i fs. P w \<Longrightarrow> P (w\<lparr>wm_calls := i, wm_visible := fs\<rparr>)) \<Longrightarrow> (\<And>w i. P w \<Longrightarrow> P (w\<lparr>wm_calls := i\<rparr>)) \<Longrightarrow> preserves P (visibleW c err f)"
  by (auto simp: preserves_def visibleW_def Let_def split: if_splits option.splits)

section \<open>The durable flag\<close>

definition demands :: "'r wcfg \<Rightarrow> 'r wsm \<Rightarrow> bool" where
  "demands c w \<longleftrightarrow>
     (case wm_stateFile w of
        None \<Rightarrow> True
      | Some d \<Rightarrow>
          (case decodeState (jl_tokens (wc_json c) d) of
             Inl _ \<Rightarrow> True
           | Inr st \<Rightarrow> st_RecoveryRequired st \<or> st_Identity st \<noteq> wc_derivedKey c \<or> wm_stateTmp w))"

lemma demands_disk: "wm_stateFile w' = wm_stateFile w \<Longrightarrow> wm_stateTmp w' = wm_stateTmp w \<Longrightarrow> demands c w' = demands c w"
  by (simp add: demands_def split: option.split sum.split)

lemma demands_tmp: "demands c w \<Longrightarrow> demands c (w\<lparr>wm_stateTmp := True\<rparr>)"
  by (auto simp: demands_def split: option.splits sum.splits)

text \<open>What the process holds in memory is backed by the disk.\<close>

definition synced :: "'r wcfg \<Rightarrow> 'r wsm \<Rightarrow> bool" where
  "synced c w \<longleftrightarrow> (st_RecoveryRequired (wm_state w) \<longrightarrow> demands c w)"

lemma demands_calls [simp]: "demands c (w\<lparr>wm_calls := i\<rparr>) = demands c w" "demands c (w\<lparr>wm_visible := fs\<rparr>) = demands c w"
  "demands c (w\<lparr>wm_state := st\<rparr>) = demands c w" "demands c (w\<lparr>wm_calls := i, wm_visible := fs\<rparr>) = demands c w"
  by (simp_all add: demands_def split: option.split sum.split)

lemma keeps_demands [preserves_rules]: "preserves (demands c) (hostW c' err)" "preserves (demands c) (visibleW c' err f)"
  by (auto intro: preserves_hostW preserves_visibleW)

text \<open>Writing a record: until the rename the old record stands and the temporary file is there.\<close>

lemma persist_cases:
  assumes "persistState c st w = (r, w')"
  shows "(\<exists>e. r = Inl e) \<and> wm_stateFile w' = wm_stateFile w \<and> (wm_stateTmp w' = wm_stateTmp w \<or> wm_stateTmp w') \<and>
       wm_state w' = wm_state w \<and> wm_visible w' = wm_visible w \<or>
    (\<exists>out. let st' = st\<lparr>st_Identity := wc_derivedKey c\<rparr> in
       r = Inr st' \<and> encodeState st' = Inr out \<and> wm_stateFile w' = Some (jl_text (wc_json c) out) \<and> \<not> wm_stateTmp w' \<and>
       wm_state w' = wm_state w \<and> wm_visible w' = wm_visible w)"
  using assms
  by (cases "encodeState (st\<lparr>st_Identity := wc_derivedKey c\<rparr>)")
    (auto simp: persistState_def Let_def bindS_apply hostW_def modW_def split: if_splits)

lemma ascii_state: "validateState st = Inr u \<Longrightarrow> valid_texts (state_value st)"
proof (rule valid_texts_ascii)
  have digit: "(CHR ''0'' \<le> c \<and> c \<le> CHR ''9'' \<or> CHR ''a'' \<le> c \<and> c \<le> CHR ''f'') \<Longrightarrow> of_char c < (0x80 :: nat)" for c
    by (auto simp: less_eq_char_def)
  assume v: "validateState st = Inr u"
  then have "validHex64 (st_Identity st)" by (auto simp: validateState_def split: if_splits)
  then have "ascii (st_Identity st)" using digit unfolding validHex64_def ascii_def list_all_iff by blast
  moreover have "ascii (st_BaselineHead st)" "ascii (st_BaselineTree st)"
    using v by (auto simp: validateState_def bindR_eq_Inr ParseOID_iff split: if_splits)
  ultimately show "ascii_texts (state_value st)" by (simp add: state_value_def)
qed

lemma encoded_record:
  assumes "json_text (wc_json c)" "encodeState st = Inr out" "wm_stateFile w = Some (jl_text (wc_json c) out)"
  shows "decodeState (jl_tokens (wc_json c) (jl_text (wc_json c) out)) = Inr st"
  using assms decodeState_Encode [of st] json_text.read_back [OF assms(1) ascii_state] by (auto simp: encodeState_def bindR_eq_Inr)

lemma persist_demands:
  assumes "json_text (wc_json c)" "persistState c st w = (r, w')"
  shows "r = Inl e \<Longrightarrow> demands c w \<Longrightarrow> demands c w'"
    "r = Inr st' \<Longrightarrow> demands c w' = st_RecoveryRequired st \<and> st' = st\<lparr>st_Identity := wc_derivedKey c\<rparr>"
proof -
  show "r = Inl e \<Longrightarrow> demands c w \<Longrightarrow> demands c w'"
    using persist_cases [OF assms(2)] by (auto simp: demands_def Let_def split: option.splits sum.splits)
  assume "r = Inr st'"
  then obtain out where o: "st' = st\<lparr>st_Identity := wc_derivedKey c\<rparr>" "encodeState st' = Inr out"
      "wm_stateFile w' = Some (jl_text (wc_json c) out)" "\<not> wm_stateTmp w'"
    using persist_cases [OF assms(2)] by (auto simp: Let_def)
  then show "demands c w' = st_RecoveryRequired st \<and> st' = st\<lparr>st_Identity := wc_derivedKey c\<rparr>"
    using encoded_record [OF assms(1) o(2,3)] by (simp add: demands_def)
qed

section \<open>Before and after the flag\<close>

text \<open>Actions that only count calls.\<close>

definition idle :: "(ws_error, 'a, 'r wsm) act \<Rightarrow> bool" where
  "idle m \<longleftrightarrow> (\<forall>w0. preserves (\<lambda>w. w\<lparr>wm_calls := 0\<rparr> = w0) m)"

lemma idleD: "idle m \<Longrightarrow> m w = (r, w') \<Longrightarrow> w'\<lparr>wm_calls := 0\<rparr> = w\<lparr>wm_calls := 0\<rparr>"
  unfolding idle_def preserves_def by blast

lemma idle_basic: "idle (retS x)" "idle (failS e)" "idle (liftS y)" "idle (getW q)" "idle (hostW c err)"
  "idle (modW (\<lambda>w. w\<lparr>wm_calls := Suc (wm_calls w)\<rparr>))"
  by (simp_all add: idle_def preserves_def getW_def hostW_def modW_def)

lemma idle_bindS: "idle m \<Longrightarrow> (\<And>x. idle (f x)) \<Longrightarrow> idle (bindS m f)"
  unfolding idle_def by (intro allI preserves_bindS) blast+

lemma idle_cases:
  "idle a \<Longrightarrow> idle b \<Longrightarrow> idle (if t then a else b)" "idle a \<Longrightarrow> (\<And>x. idle (fs x)) \<Longrightarrow> idle (case opt of None \<Rightarrow> a | Some x \<Rightarrow> fs x)"
  by (simp_all split: option.split)

lemma idle_eachS: "(\<And>x. idle (h x)) \<Longrightarrow> idle (eachS h xs)"
  unfolding idle_def by (intro allI preserves_eachS) blast

lemmas idle_rules = idle_basic idle_bindS idle_cases idle_eachS

lemma idle_prepare: "idle (collect c)" "idle (refuseIgnoredConflict c target)" "idle (writeStage c snap)"
  unfolding refuseIgnoredConflict_def collect_def writeStage_def by (intro idle_rules)+

text \<open>From a state in step with the disk, the action leaves one; if it fails it has left the visible directory alone or the
  disk demands recovery.\<close>

definition atomic :: "'r wcfg \<Rightarrow> (ws_error, 'a, 'r wsm) act \<Rightarrow> bool" where
  "atomic c m \<longleftrightarrow> (\<forall>w r w'. synced c w \<longrightarrow> m w = (r, w') \<longrightarrow>
     synced c w' \<and> (wm_visible w' = wm_visible w \<or> demands c w' \<or> (\<exists>x. r = Inr x)))"

text \<open>The same once the disk demands recovery, which a failure must not end.\<close>

definition guarded :: "'r wcfg \<Rightarrow> (ws_error, 'a, 'r wsm) act \<Rightarrow> bool" where
  "guarded c m \<longleftrightarrow> (\<forall>w r w'. demands c w \<longrightarrow> m w = (r, w') \<longrightarrow>
     (\<exists>e. r = Inl e) \<and> demands c w' \<or> (\<exists>x. r = Inr x) \<and> synced c w')"

lemma bindS_cases:
  assumes "bindS m f w = (r, w')"
  obtains (fail) e where "m w = (Inl e, w')" "r = Inl e" | (ok) x w1 where "m w = (Inr x, w1)" "f x w1 = (r, w')"
  using assms by (cases "m w"; cases "fst (m w)") (auto simp: bindS_apply)

lemma idle_same:
  assumes "idle m" "m w = (r, w')"
  shows "wm_visible w' = wm_visible w" "demands c w' = demands c w" "synced c w' = synced c w" "wm_state w' = wm_state w"
proof -
  have e: "w'\<lparr>wm_calls := 0\<rparr> = w\<lparr>wm_calls := 0\<rparr>" by (rule idleD [OF assms])
  show v: "wm_visible w' = wm_visible w" using arg_cong [OF e, of wm_visible] by simp
  show st: "wm_state w' = wm_state w" using arg_cong [OF e, of wm_state] by simp
  show d: "demands c w' = demands c w" using arg_cong [OF e, of "demands c"] by simp
  show "synced c w' = synced c w" by (simp add: synced_def st d)
qed

lemma atomic_idle: "idle m \<Longrightarrow> atomic c m"
  unfolding atomic_def using idle_same by blast

lemma atomic_bind: "idle m \<Longrightarrow> (\<And>x. atomic c (f x)) \<Longrightarrow> atomic c (bindS m f)"
  unfolding atomic_def
proof (intro allI impI)
  fix w r w' assume m: "idle m" and f: "\<And>x. \<forall>w r w'. synced c w \<longrightarrow> f x w = (r, w') \<longrightarrow>
      synced c w' \<and> (wm_visible w' = wm_visible w \<or> demands c w' \<or> (\<exists>y. r = Inr y))"
    and s: "synced c w" and run: "bindS m f w = (r, w')"
  from run show "synced c w' \<and> (wm_visible w' = wm_visible w \<or> demands c w' \<or> (\<exists>y. r = Inr y))"
  proof (cases rule: bindS_cases)
    case (fail e)
    then show ?thesis using idle_same [OF m] s by blast
  next
    case (ok x w1)
    then show ?thesis using idle_same [OF m ok(1)] f [of x] s by metis
  qed
qed

lemma atomic_if: "atomic c a \<Longrightarrow> atomic c b \<Longrightarrow> atomic c (if t then a else b)"
  by simp

lemma guarded_bind:
  assumes "preserves (demands c) m" "\<And>x. guarded c (f x)" shows "guarded c (bindS m f)"
  unfolding guarded_def
proof (intro allI impI)
  fix w r w' assume d: "demands c w" and run: "bindS m f w = (r, w')"
  from run show "(\<exists>e. r = Inl e) \<and> demands c w' \<or> (\<exists>x. r = Inr x) \<and> synced c w'"
  proof (cases rule: bindS_cases)
    case (fail e)
    then show ?thesis using preservesD [OF assms(1) fail(1) d] by blast
  next
    case (ok x w1)
    then show ?thesis using preservesD [OF assms(1) ok(1) d] assms(2) [of x] unfolding guarded_def by blast
  qed
qed

lemma guarded_getW: "(\<And>w. guarded c (f (q w))) \<Longrightarrow> guarded c (bindS (getW q) f)"
  by (simp add: guarded_def bindS_apply getW_def)

lemma demands_idle: "idle m \<Longrightarrow> preserves (demands c) m"
  unfolding preserves_def using idle_same by blast

lemma demands_applyInPlace: "preserves (demands c) (applyInPlace c snap)"
  unfolding applyInPlace_def placeFile_def Let_def
  by (intro preserves_rules demands_idle [OF idle_prepare(1)])

lemma guarded_record:
  assumes "json_text (wc_json c)"
  shows "guarded c (bindS (persistState c (advance_state b st)) (\<lambda>st'. modW (\<lambda>w. w\<lparr>wm_state := st'\<rparr>)))"
  unfolding guarded_def
proof (intro allI impI)
  fix w r w' assume d: "demands c w" and run: "bindS (persistState c (advance_state b st)) (\<lambda>st'. modW (\<lambda>w. w\<lparr>wm_state := st'\<rparr>)) w = (r, w')"
  from run show "(\<exists>e. r = Inl e) \<and> demands c w' \<or> (\<exists>x. r = Inr x) \<and> synced c w'"
  proof (cases rule: bindS_cases)
    case (fail e)
    then show ?thesis using persist_demands(1) [OF assms fail(1) refl d] by blast
  next
    case (ok st' w1)
    have "\<not> st_RecoveryRequired st'"
      using persist_demands(2) [OF assms ok(1) refl] by (auto simp: advance_state_def split: option.splits)
    then show ?thesis using ok(2) by (auto simp: modW_def synced_def)
  qed
qed

text \<open>Raising the flag, then doing guarded work.\<close>

lemma atomic_marked:
  assumes json: "json_text (wc_json c)" and g: "guarded c (m)"
  shows "atomic c (bindS (markRecoveryRequired c) (\<lambda>_. m))"
  unfolding atomic_def
proof (intro allI impI)
  fix w r w' assume s: "synced c w" and run: "bindS (markRecoveryRequired c) (\<lambda>_. m) w = (r, w')"
  from run show "synced c w' \<and> (wm_visible w' = wm_visible w \<or> demands c w' \<or> (\<exists>x. r = Inr x))"
  proof (cases rule: bindS_cases)
    case (fail e)
    then have p: "\<not> st_RecoveryRequired (wm_state w)" "persistState c ((wm_state w)\<lparr>st_RecoveryRequired := True\<rparr>) w = (Inl e, w')"
      by (auto simp: markRecoveryRequired_def bindS_apply getW_def modW_def split: if_splits prod.splits sum.splits)
    then show ?thesis using persist_cases [OF p(2)] by (auto simp: synced_def Let_def)
  next
    case (ok x w1)
    have "demands c w1"
    proof (cases "st_RecoveryRequired (wm_state w)")
      case True
      then show ?thesis using ok(1) s by (simp add: markRecoveryRequired_def bindS_apply getW_def synced_def)
    next
      case False
      then obtain st' w2 where p: "persistState c ((wm_state w)\<lparr>st_RecoveryRequired := True\<rparr>) w = (Inr st', w2)" "w1 = w2\<lparr>wm_state := st'\<rparr>"
        using ok(1) by (auto simp: markRecoveryRequired_def bindS_apply getW_def modW_def split: prod.splits sum.splits)
      then show ?thesis using persist_demands(2) [OF json p(1) refl] by simp
    qed
    then have "(\<exists>e. r = Inl e) \<and> demands c w' \<or> (\<exists>x. r = Inr x) \<and> synced c w'" using g ok(2) unfolding guarded_def by blast
    then show ?thesis by (auto simp: synced_def)
  qed
qed

lemma demands_mark:
  assumes "json_text (wc_json c)" shows "preserves (demands c) (markRecoveryRequired c)"
  unfolding preserves_def
proof (intro allI impI)
  fix w r w' assume run: "markRecoveryRequired c w = (r, w')" and d: "demands c w"
  show "demands c w'"
  proof (cases "st_RecoveryRequired (wm_state w)")
    case True
    then show ?thesis using run d by (simp add: markRecoveryRequired_def bindS_apply getW_def)
  next
    case False
    then obtain r1 w1 where p: "persistState c ((wm_state w)\<lparr>st_RecoveryRequired := True\<rparr>) w = (r1, w1)"
      "wm_stateFile w' = wm_stateFile w1" "wm_stateTmp w' = wm_stateTmp w1"
      using run by (auto simp: markRecoveryRequired_def bindS_apply getW_def modW_def split: prod.splits sum.splits)
    have "demands c w1"
      using persist_demands(1) [OF assms p(1) _ d] persist_demands(2) [OF assms p(1)] by (cases r1) auto
    then show ?thesis using demands_disk [OF p(2,3)] by simp
  qed
qed

text \<open>\<open>applyLocked\<close> in three parts: what it does before the flag, the flag, and what it does under it.\<close>

definition before_flag :: "'r wcfg \<Rightarrow> oid \<Rightarrow> (Snapshot, 'r) wact" where
  "before_flag c tree =
     bindS (getW (\<lambda>w. ReadSnapshot (wc_tx c) (wc_repo c) (wm_repo w) (wc_depth c) tree)) (\<lambda>r.
     bindS (liftS (mapErr WsGit r)) (\<lambda>full.
     bindS (refuseIgnoredConflict c (WithoutIgnored (wc_ignore c) full)) (\<lambda>_.
     bindS (hostW c WsHost) (\<lambda>_.
     bindS (hostW c WsHost) (\<lambda>_.
     bindS (if wc_failStage c then failS WsInjected else retS ()) (\<lambda>_.
     bindS (writeStage c (WithoutIgnored (wc_ignore c) full)) (\<lambda>_. retS (WithoutIgnored (wc_ignore c) full))))))))"

definition under_flag :: "'r wcfg \<Rightarrow> Baseline option \<Rightarrow> Snapshot \<Rightarrow> (unit, 'r) wact" where
  "under_flag c b snap =
     bindS (if wc_failReplace c then failS ErrPartial else retS ()) (\<lambda>_.
     bindS (applyInPlace c snap) (\<lambda>_.
     bindS (getW (\<lambda>w. advance_state b (wm_state w))) (\<lambda>st.
     bindS (if wc_failBaseline c then failS ErrPartial else retS ()) (\<lambda>_.
     bindS (persistState c st) (\<lambda>st'. modW (\<lambda>w. w\<lparr>wm_state := st'\<rparr>))))))"

lemma bindS_retS: "bindS (retS x) f = f x"
  by (rule ext) (simp add: bindS_apply)

lemma bindS_assoc: "bindS (bindS m f) g = bindS m (\<lambda>x. bindS (f x) g)"
  by (rule ext) (simp add: bindS_apply split: prod.split sum.split)

lemma applyLocked_parts:
  "applyLocked c tree b = bindS (before_flag c tree) (\<lambda>snap. bindS (markRecoveryRequired c) (\<lambda>_. under_flag c b snap))"
  unfolding before_flag_def under_flag_def applyLocked_def Let_def bindS_assoc bindS_retS ..

lemma idle_before_flag: "idle (before_flag c tree)"
  unfolding before_flag_def by (intro idle_rules idle_prepare)

lemma guarded_under_flag:
  assumes json: "json_text (wc_json c)" shows "guarded c (under_flag c b snap)"
  unfolding under_flag_def
  by (intro guarded_bind guarded_getW guarded_record [OF json] preserves_rules demands_applyInPlace)

lemma atomic_apply:
  assumes json: "json_text (wc_json c)" shows "atomic c (applyLocked c tree b)"
  unfolding applyLocked_parts
  by (intro atomic_bind idle_before_flag atomic_marked [OF json] guarded_under_flag [OF json])

lemma guarded_apply:
  assumes json: "json_text (wc_json c)" shows "guarded c (applyLocked c tree b)"
  unfolding applyLocked_parts
  by (intro guarded_bind guarded_under_flag [OF json] demands_mark [OF json] demands_idle idle_before_flag)

section \<open>Operations\<close>

lemma atomic_locked: "atomic c m \<Longrightarrow> atomic c (withOpLock c True allow m)"
  unfolding withOpLock_def by (auto simp: atomic_def bindS_apply getW_def)

lemma atomic_operations:
  assumes json: "json_text (wc_json c)"
  shows "atomic c (ws_Accept_op c True b)" "atomic c (ws_Replace_op c True tree)" "atomic c (ws_Materialize_op c True b tree)"
    "atomic c (ws_Recover_op c True b)"
proof -
  show "atomic c (ws_Accept_op c True b)" "atomic c (ws_Replace_op c True tree)" "atomic c (ws_Materialize_op c True b tree)"
    unfolding ws_Accept_op_def ws_Replace_op_def ws_Materialize_op_def by (intro atomic_locked atomic_apply [OF json])+
  have "guarded c (if wc_failRecover c then failS WsInjected else applyLocked c (bl_Tree b) (Some b))"
    using guarded_apply [OF json] by (simp add: guarded_def)
  then show "atomic c (ws_Recover_op c True b)"
    unfolding ws_Recover_op_def by (intro atomic_locked atomic_marked [OF json])
qed

text \<open>Acquiring the lock: the process concludes at least what the disk demands, and exactly that when its reads succeed.\<close>

definition concluded :: "'r wcfg \<Rightarrow> nat \<Rightarrow> 'r wsm \<Rightarrow> state" where
  "concluded c i w =
     (case (if wc_host c (Suc i) then wm_stateFile w else None) of
        None \<Rightarrow> (wm_state w)\<lparr>st_RecoveryRequired := True\<rparr>
      | Some d \<Rightarrow>
          (case decodeState (jl_tokens (wc_json c) d) of
             Inl _ \<Rightarrow> (wm_state w)\<lparr>st_RecoveryRequired := True\<rparr>
           | Inr st \<Rightarrow> st\<lparr>st_RecoveryRequired :=
               st_RecoveryRequired st \<or> st_Identity st \<noteq> wc_derivedKey c \<or> wm_stateTmp w \<or> \<not> wc_host c i\<rparr>))"

lemma refreshState_run:
  "refreshState c w = (Inr (), w\<lparr>wm_calls := Suc (Suc (wm_calls w)), wm_state := concluded c (wm_calls w) w\<rparr>)"
  by (cases "wm_stateFile w"; cases "decodeState (jl_tokens (wc_json c) (the (wm_stateFile w)))")
    (simp_all add: refreshState_def loadDurableState_def readStateFile_def tryS_apply bindS_apply hostW_def getW_def modW_def concluded_def)

lemma acquire_run:
  "acquire c w = (let i = wm_calls w in
     if \<not> wc_host c i then (Inl WsHost, w\<lparr>wm_calls := Suc i\<rparr>)
     else if wm_closed w then (Inl WsClosed, w\<lparr>wm_calls := Suc i\<rparr>)
     else if \<not> wc_host c (Suc i) then (Inl WsHost, w\<lparr>wm_calls := Suc (Suc i)\<rparr>)
     else (Inr (), w\<lparr>wm_calls := Suc (Suc (Suc (Suc i))), wm_state := concluded c (Suc (Suc i)) w\<rparr>))"
  by (simp add: acquire_def bindS_apply hostW_def getW_def refreshState_run Let_def concluded_def split: option.split sum.split)

lemma concluded_demands:
  "demands c w \<Longrightarrow> st_RecoveryRequired (concluded c i w)"
  "wc_host c i \<Longrightarrow> wc_host c (Suc i) \<Longrightarrow> st_RecoveryRequired (concluded c i w) = demands c w"
  by (auto simp: concluded_def demands_def split: option.splits sum.splits)

lemma operations_acquire:
  "ws_Accept_op c False b = bindS (acquire c) (\<lambda>_. ws_Accept_op c True b)"
  "ws_Replace_op c False tree = bindS (acquire c) (\<lambda>_. ws_Replace_op c True tree)"
  "ws_Materialize_op c False b tree = bindS (acquire c) (\<lambda>_. ws_Materialize_op c True b tree)"
  "ws_Recover_op c False b = bindS (acquire c) (\<lambda>_. ws_Recover_op c True b)"
  by (simp_all add: ws_Accept_op_def ws_Replace_op_def ws_Materialize_op_def ws_Recover_op_def withOpLock_def bindS_retS)

section \<open>A small workspace\<close>

text \<open>The workspace of the witnesses: one stored tree with the file \<open>a\<close>, over the in-memory repository.\<close>

definition small_objects :: "gobject list" where
  "small_objects = GBlob ''new'' # replicate 19 (GBlob []) @ [GTree [\<lparr>te_Name = ''a'', te_Mode = ModeBlob, te_ID = []\<rparr>]]"

definition small_tree :: oid where
  "small_tree = replicate 20 1"

definition small_baseline :: Baseline where
  "small_baseline = \<lparr>bl_RemoteGeneration = 1, bl_Head = small_tree, bl_Tree = small_tree\<rparr>"

definition small_config :: "(nat \<Rightarrow> bool) \<Rightarrow> gobject list wcfg" where
  "small_config alive = \<lparr>wc_rel = ''docs'', wc_derivedKey = replicate 64 (CHR ''a''), wc_ignore = \<lparr>ig_names = [], ig_anchors = []\<rparr>,
     wc_nfc = (\<lambda>p. p), wc_tx = ascii_text, wc_json = numbering_json, wc_repo = mem_repository, wc_newRepo = [], wc_depth = Suc (Suc 0),
     wc_host = alive, wc_damage = (\<lambda>_ fs. fs), wc_walk = (\<lambda>_ _. None), wc_rand = (\<lambda>_. None),
     wc_failScan = False, wc_failStage = False, wc_failReplace = False, wc_failBaseline = False, wc_failRecover = False\<rparr>"

definition small_record :: state where
  "small_record = newWorkspaceState (replicate 64 (CHR ''a''))"

definition small_wsm :: "gobject list wsm" where
  "small_wsm = \<lparr>wm_visible = [([], FDir), (''b'', FFile ''old'')],
     wm_stateFile = Some (jl_text numbering_json (Encode (state_value small_record))), wm_stateTmp = False, wm_marker = True,
     wm_repoDir = True, wm_repo = small_objects, wm_state = small_record, wm_closed = False, wm_calls = 0\<rparr>"

lemma persist_ok:
  assumes "encodeState (st\<lparr>st_Identity := wc_derivedKey c\<rparr>) = Inr out" "list_all (\<lambda>j. wc_host c (wm_calls w + j)) [0, 1, 2, 3, 4]"
  shows "persistState c st w = (Inr (st\<lparr>st_Identity := wc_derivedKey c\<rparr>),
    w\<lparr>wm_stateTmp := False, wm_stateFile := Some (jl_text (wc_json c) out), wm_calls := wm_calls w + 5\<rparr>)"
  using assms by (simp add: persistState_def Let_def bindS_apply hostW_def modW_def numeral_eq_Suc)

lemma small_record_valid: "validateState small_record = Inr ()" "validateState (small_record\<lparr>st_RecoveryRequired := True\<rparr>) = Inr ()"
  by (simp_all add: small_record_def newWorkspaceState_def validateState_def validHex64_def EmptyTreeID_def list_all_iff less_eq_char_def)

lemma small_json: "json_text (wc_json (small_config alive))"
  by (simp add: small_config_def numbering.json_text_axioms)

lemma small_fields:
  "wc_tx (small_config alive) = ascii_text" "wc_repo (small_config alive) = mem_repository" "wc_depth (small_config alive) = Suc (Suc 0)"
  "wc_ignore (small_config alive) = \<lparr>ig_names = [], ig_anchors = []\<rparr>" "wc_nfc (small_config alive) = (\<lambda>p. p)"
  "wc_walk (small_config alive) = (\<lambda>_ _. None)" "wc_host (small_config alive) = alive" "wc_rand (small_config alive) = (\<lambda>_. None)"
  "wc_damage (small_config alive) = (\<lambda>_ fs. fs)" "wc_derivedKey (small_config alive) = st_Identity small_record"
  "wc_failStage (small_config alive) = False" "wc_failReplace (small_config alive) = False" "wc_failBaseline (small_config alive) = False"
  "wc_failRecover (small_config alive) = False" "wc_json (small_config alive) = numbering_json"
  by (simp_all add: small_config_def small_record_def newWorkspaceState_def)

lemma small_snapshot: "ReadSnapshot ascii_text mem_repository small_objects (Suc (Suc 0)) small_tree = Inr [\<lparr>f_Path = ''a'', f_Data = ''new''\<rparr>]"
proof -
  have "ValidateSnapshot ascii_text [\<lparr>f_Path = ''a'', f_Data = ''new''\<rparr>] = Inr ()"
    unfolding ValidateSnapshot_iff valid_snapshot_def valid_file_def by (simp add: path_eval sample_segments)
  moreover have "ReadTree mem_repository small_objects small_tree = Inr [\<lparr>te_Name = ''a'', te_Mode = ModeBlob, te_ID = []\<rparr>]"
    "ReadBlob mem_repository small_objects [] = Inr ''new''"
    by (simp_all add: mem_repository_def mem_get_def small_objects_def small_tree_def nth_append)
  ultimately show ?thesis by (simp add: ReadSnapshot_def walkEntry_def unreadable_def)
qed

lemma small_collect:
  "collectVisible \<lparr>ig_names = [], ig_anchors = []\<rparr> (\<lambda>p. p) (\<lambda>_. None) [([], FDir), (''b'', FFile ''old'')] [] =
     Inr \<lparr>ve_files = [''b''], ve_dirs = [], ve_keep = []\<rparr>"
  by code_simp

text \<open>Accepting the tree up to the removal of the obsolete file \<open>b\<close>, call 18.\<close>

definition small_marked :: state where
  "small_marked = small_record\<lparr>st_RecoveryRequired := True\<rparr>"

definition small_rewritten :: "gobject list wsm" where
  "small_rewritten = small_wsm\<lparr>wm_visible := [(''a'', FFile ''new''), ([], FDir), (''b'', FFile ''old'')],
     wm_stateFile := Some (jl_text numbering_json (Encode (state_value small_marked))), wm_state := small_marked\<rparr>"

lemma small_read:
  "jl_tokens numbering_json (jl_text numbering_json (Encode (state_value small_record))) = Encode (state_value small_record)"
  "jl_tokens numbering_json (jl_text numbering_json (Encode (state_value small_marked))) = Encode (state_value small_marked)"
  unfolding small_marked_def by (rule numbering.read_back [OF ascii_state], rule small_record_valid)+

lemma small_mark:
  assumes "wm_state w = small_record" "list_all (\<lambda>j. alive (wm_calls w + j)) [0, 1, 2, 3, 4]"
  shows "markRecoveryRequired (small_config alive) w =
     (Inr (), w\<lparr>wm_stateTmp := False, wm_stateFile := Some (jl_text numbering_json (Encode (state_value small_marked))),
       wm_calls := wm_calls w + 5, wm_state := small_marked\<rparr>)"
proof -
  have stamp: "small_marked\<lparr>st_Identity := st_Identity small_record\<rparr> = small_marked"
    by (simp add: small_marked_def small_fields)
  have "encodeState small_marked = Inr (Encode (state_value small_marked))"
    using small_record_valid(2) by (simp add: encodeState_def small_marked_def)
  then have "persistState (small_config alive) small_marked w = (Inr small_marked,
      w\<lparr>wm_stateTmp := False, wm_stateFile := Some (jl_text numbering_json (Encode (state_value small_marked))), wm_calls := wm_calls w + 5\<rparr>)"
    using persist_ok [of "small_config alive" small_marked "Encode (state_value small_marked)" w] assms(2)
    by (simp add: stamp small_fields)
  then show ?thesis
    using assms(1) by (simp add: markRecoveryRequired_def bindS_apply getW_def modW_def small_marked_def [symmetric])
      (simp add: small_record_def newWorkspaceState_def)
qed

lemma small_place:
  assumes "wm_visible w = [([], FDir), (''b'', FFile ''old'')]" "list_all (\<lambda>j. alive (wm_calls w + j)) [0, 1, 2, 3, 4, 5, 6]"
  shows "applyInPlace (small_config alive) [\<lparr>f_Path = ''a'', f_Data = ''new''\<rparr>] w =
    (if \<not> alive (wm_calls w + 7) then (Inl ErrPartial, w\<lparr>wm_visible := [(''a'', FFile ''new''), ([], FDir), (''b'', FFile ''old'')], wm_calls := wm_calls w + 8\<rparr>)
     else (if alive (wm_calls w + 8) then Inr () else Inl WsHost, w\<lparr>wm_visible := [(''a'', FFile ''new''), ([], FDir)], wm_calls := wm_calls w + 9\<rparr>))"
  using assms
  by (simp add: applyInPlace_def bindS_apply visibleW_def small_fields fs_MkdirAll_def Let_def collect_def getW_def modW_def
    small_collect placeFile_def hostW_def parentRel_def fs_Create_def fs_Write_def fs_Rename_def fs_Remove_def tempSuffix_def alist_set_def alist_del_def targetDirSet_def
    parents.simps is_below_def numeral_eq_Suc)

lemma small_before:
  assumes "wm_repo w = small_objects" "list_all (\<lambda>j. alive (wm_calls w + j)) [0, 1, 2, 3, 4, 5]"
  shows "before_flag (small_config alive) small_tree w = (Inr [\<lparr>f_Path = ''a'', f_Data = ''new''\<rparr>], w\<lparr>wm_calls := wm_calls w + 6\<rparr>)"
  using assms by (simp add: before_flag_def bindS_apply getW_def small_snapshot small_fields
      refuseIgnoredConflict_def ig_Configured_def WithoutIgnored_def hostW_def writeStage_def numeral_eq_Suc)

lemma small_failure:
  "ws_Accept_op (small_config (\<lambda>i. i \<noteq> 18)) True small_baseline small_wsm = (Inl ErrPartial, small_rewritten\<lparr>wm_calls := 19\<rparr>)"
proof -
  have "applyLocked (small_config (\<lambda>i. i \<noteq> 18)) small_tree (Some small_baseline) small_wsm = (Inl ErrPartial, small_rewritten\<lparr>wm_calls := 19\<rparr>)"
    by (simp add: applyLocked_parts under_flag_def bindS_apply small_before small_mark small_place small_fields small_wsm_def small_rewritten_def)
  then show ?thesis
    by (simp add: ws_Accept_op_def withOpLock_def bindS_apply getW_def small_wsm_def small_record_def newWorkspaceState_def small_baseline_def)
qed

section \<open>Properties\<close>



lemma withOpLock_refused:
  "\<not> wm_closed w \<Longrightarrow> st_RecoveryRequired (wm_state w) \<Longrightarrow> withOpLock c True False m w = (Inl ErrRecoveryRequired, w)"
  by (simp add: withOpLock_def bindS_apply getW_def)



section \<open>Recovery without a record\<close>

text \<open>A process that could not read a record holds the zero value of it.\<close>

definition unreadable_record :: "'r wcfg \<Rightarrow> bytes option \<Rightarrow> bool" where
  "unreadable_record c old \<longleftrightarrow> (case old of None \<Rightarrow> True | Some d \<Rightarrow> \<not> isOk (decodeState (jl_tokens (wc_json c) d)))"

definition recordless :: "'r wcfg \<Rightarrow> bytes option \<Rightarrow> 'r wsm \<Rightarrow> bool" where
  "recordless c old w \<longleftrightarrow> wm_stateFile w = old \<and> st_Version (wm_state w) \<noteq> 1 \<and> unreadable_record c old"

lemma recordless_persist: "st_Version st \<noteq> 1 \<Longrightarrow> persistState c st w = (Inl (WsState StUnsupportedVersion), w)"
  by (simp add: persistState_def Let_def bindS_apply encodeState_def validateState_def)

lemma recordless_steps [preserves_rules]:
  "preserves (recordless c old) (hostW c' err)" "preserves (recordless c old) (visibleW c' err f)"
  by (auto intro!: preserves_hostW preserves_visibleW simp: recordless_def)

lemma recordless_idle: "idle m \<Longrightarrow> preserves (recordless c old) m"
  unfolding preserves_def
proof (intro allI impI)
  fix w r w' assume m: "idle m" "m w = (r, w')" and w: "recordless c old w"
  have "wm_stateFile w' = wm_stateFile w" using arg_cong [OF idleD [OF m], of wm_stateFile] by simp
  then show "recordless c old w'" using w idle_same(4) [OF m] by (simp add: recordless_def)
qed

lemma recordless_applyInPlace: "preserves (recordless c old) (applyInPlace c snap)"
  unfolding applyInPlace_def placeFile_def Let_def
  by (intro preserves_rules recordless_idle [OF idle_prepare(1)])

lemma recordless_mark: "preserves (recordless c old) (markRecoveryRequired c)"
  by (auto simp: preserves_def markRecoveryRequired_def bindS_apply getW_def recordless_persist recordless_def)

text \<open>Actions that fail without a record, and leave none.\<close>

definition stuck :: "'r wcfg \<Rightarrow> bytes option \<Rightarrow> (unit, 'r) wact \<Rightarrow> bool" where
  "stuck c old m \<longleftrightarrow> (\<forall>w r w'. recordless c old w \<longrightarrow> m w = (r, w') \<longrightarrow> (\<exists>e. r = Inl e) \<and> recordless c old w')"

lemma stuck_bind: "preserves (recordless c old) m \<Longrightarrow> (\<And>x. stuck c old (f x)) \<Longrightarrow> stuck c old (bindS m f)"
  unfolding stuck_def
proof (intro allI impI)
  fix w r w' assume m: "preserves (recordless c old) m" and w: "recordless c old w" and run: "bindS m f w = (r, w')"
    and f: "\<And>x. \<forall>w r w'. recordless c old w \<longrightarrow> f x w = (r, w') \<longrightarrow> (\<exists>e. r = Inl e) \<and> recordless c old w'"
  from run show "(\<exists>e. r = Inl e) \<and> recordless c old w'"
    using preservesD [OF m _ w] f by (cases rule: bindS_cases) blast+
qed

lemma stuck_under_flag: "stuck c old (under_flag c b snap)"
proof -
  have "stuck c old (bindS (getW (\<lambda>w. advance_state b (wm_state w))) (\<lambda>st.
      bindS (if wc_failBaseline c then failS ErrPartial else retS ()) (\<lambda>_.
      bindS (persistState c st) (\<lambda>st'. modW (\<lambda>w. w\<lparr>wm_state := st'\<rparr>)))))"
    by (auto simp: stuck_def bindS_apply getW_def recordless_persist recordless_def advance_state_def split: option.splits)
  then show ?thesis
    unfolding under_flag_def by (intro stuck_bind [OF _ stuck_bind [OF recordless_applyInPlace]] preserves_rules)
qed

lemma stuck_recover: "stuck c old (ws_Recover_op c True b)"
proof -
  have "stuck c old (applyLocked c (bl_Tree b) (Some b))"
    unfolding applyLocked_parts by (intro stuck_bind stuck_under_flag recordless_mark recordless_idle idle_before_flag)
  then have "stuck c old (if wc_failRecover c then failS WsInjected else applyLocked c (bl_Tree b) (Some b))"
    by (simp add: stuck_def)
  then have "stuck c old (bindS (markRecoveryRequired c) (\<lambda>_. if wc_failRecover c then failS WsInjected else applyLocked c (bl_Tree b) (Some b)))"
    by (intro stuck_bind recordless_mark)
  then show ?thesis by (auto simp: ws_Recover_op_def withOpLock_def stuck_def bindS_apply getW_def)
qed

lemma recordless_acquire: "preserves (recordless c old) (acquire c)"
  by (auto simp: preserves_def acquire_run Let_def recordless_def unreadable_record_def concluded_def split: if_splits option.splits sum.splits)

lemma statW_run:
  "statW c there w = (Inr (\<not> wc_host c (wm_calls w) \<or> there w), w\<lparr>wm_calls := Suc (wm_calls w)\<rparr>)"
  if "\<And>v i. there (v\<lparr>wm_calls := i\<rparr>) = there v"
  using that by (simp add: statW_def tryS_apply hostW_def getW_def)

text \<open>Opening a workspace that is not new, with no readable record.\<close>

lemma open_recordless:
  assumes "openPrivateState c w = (Inr (), w')" "unreadable_record c (wm_stateFile w)"
    "wm_stateFile w \<noteq> None \<or> wm_repoDir w \<or> wm_stateTmp w"
  shows "recordless c (wm_stateFile w) w'"
  using assms
  by (auto simp: openPrivateState_def statW_run bindS_apply tryS_apply hostW_def getW_def readStateFile_def createRepo_def openRepo_def
      writeEmptyTree_def setState_def modW_def recordless_def unreadable_record_def zero_state_def split: if_splits sum.splits prod.splits option.splits)

text \<open>A process that opens a workspace whose record is gone or cannot be read holds a zero record, of version 0, and no
  recovery it attempts succeeds: what it would record is refused for that version, and what it holds stays as it
  is for the next attempt.\<close>

theorem recovery_needs_record:
  assumes "openPrivateState c w0 = (Inr (), w)" "unreadable_record c (wm_stateFile w0)"
    "wm_stateFile w0 \<noteq> None \<or> wm_repoDir w0 \<or> wm_stateTmp w0"
  shows "recordless c (wm_stateFile w0) w \<and>
    (\<forall>w1 r w2. recordless c (wm_stateFile w0) w1 \<and> ws_Recover_op c held b w1 = (r, w2) \<longrightarrow>
      (\<exists>e. r = Inl e) \<and> recordless c (wm_stateFile w0) w2)"
proof -
  have "stuck c old (ws_Recover_op c held b)" for old
    by (cases held) (auto simp: stuck_recover operations_acquire intro!: stuck_bind recordless_acquire)
  then show ?thesis using open_recordless [OF assms] unfolding stuck_def by blast
qed

theorem recovery_needs_record_witness:
  "\<exists>w1 e w2. openPrivateState (small_config (\<lambda>_. True)) (small_wsm\<lparr>wm_stateFile := None\<rparr>) = (Inr (), w1) \<and>
     ws_Recover_op (small_config (\<lambda>_. True)) False small_baseline w1 = (Inl e, w2)"
proof -
  let ?c = "small_config (\<lambda>_. True)" and ?w = "small_wsm\<lparr>wm_stateFile := None\<rparr>"
  obtain w1 where w1: "openPrivateState ?c ?w = (Inr (), w1)"
    by (simp add: openPrivateState_def statW_run bindS_apply tryS_apply hostW_def getW_def openRepo_def writeEmptyTree_def setState_def modW_def
        EmptyTree_def mem_repository_def mem_put_def CheckUniqueNames_def SortTreeEntries_def small_wsm_def small_fields)
  then have "recordless ?c None w1 \<and> (\<forall>w1 r w2. recordless ?c None w1 \<and> ws_Recover_op ?c False small_baseline w1 = (r, w2) \<longrightarrow>
      (\<exists>e. r = Inl e) \<and> recordless ?c None w2)"
    using recovery_needs_record [of ?c ?w w1 False small_baseline] by (simp add: unreadable_record_def small_wsm_def)
  then show ?thesis using w1 by (metis prod.collapse)
qed

section \<open>Recovery on an unread flag\<close>


section \<open>A file where a directory was\<close>


end
