(* ===== verification/WorkspaceExact.thy ===== *)
theory WorkspaceExact
  imports WorkspaceSafety
begin

text \<open>
  What a successful rewrite leaves in the visible directory: the files of the target, the directories above
  them, and what the machine ignores with the directories that hold it; nothing else. The walk that collects
  the existing entries is described by the entries it can meet (\<open>met\<close>), and every call by its effect on the
  entry at a path.
\<close>

section \<open>Paths\<close>

lemma parents_unfold: "set (parents p) = (if parentRel p = [] then {} else insert (parentRel p) (set (parents (parentRel p))))"
  by (subst parents.simps) simp

lemma parents_Nil [simp]: "parents [] = []"
  by (simp add: parents.simps parentRel_def)

lemma parents_cases: "q \<in> set (parents p) \<longleftrightarrow> parentRel p \<noteq> [] \<and> (q = parentRel p \<or> q \<in> set (parents (parentRel p)))"
  by (subst parents_unfold) simp

lemma parents_shorter: "q \<in> set (parents p) \<Longrightarrow> length q < length p \<and> q \<noteq> []"
proof (induction p rule: parents.induct)
  case (1 p)
  from 1(2) have "parentRel p \<noteq> []" "q = parentRel p \<or> q \<in> set (parents (parentRel p))" using parents_cases [of q p] by blast+
  then show ?case using 1(1) parentRel_shorter [of p] by fastforce
qed

lemma parents_trans: "q \<in> set (parents p) \<Longrightarrow> r \<in> set (parents q) \<Longrightarrow> r \<in> set (parents p)"
proof (induction p rule: parents.induct)
  case (1 p)
  from 1(2) have "parentRel p \<noteq> []" "q = parentRel p \<or> q \<in> set (parents (parentRel p))" using parents_cases [of q p] by blast+
  then show ?case using 1(1,3) by (subst parents_cases) blast
qed

text \<open>The directories above a path are its proper prefixes that end before a slash.\<close>

lemma parentRel_extends:
  assumes "q \<noteq> []"
  shows "\<exists>r. parentRel (q @ CHR ''/'' # rest) = q \<or> parentRel (q @ CHR ''/'' # rest) = q @ CHR ''/'' # r"
proof (cases "CHR ''/'' \<in> set rest")
  case True
  have "q @ CHR ''/'' # rest = (q @ CHR ''/'' # parentRel rest) @ CHR ''/'' # baseName rest" using path_split [OF True] by simp
  then show ?thesis using path_parts(1) [OF baseName_slash] by metis
qed simp

lemma parents_prefix: "q \<in> set (parents p) \<longleftrightarrow> q \<noteq> [] \<and> (\<exists>rest. p = q @ CHR ''/'' # rest)"
proof (induction p rule: parents.induct)
  case (1 p)
  show ?case
  proof
    assume "q \<in> set (parents p)"
    then have q: "parentRel p \<noteq> []" "q = parentRel p \<or> q \<in> set (parents (parentRel p))" using parents_cases [of q p] by blast+
    then have p: "p = parentRel p @ CHR ''/'' # baseName p" by (metis path_split path_top)
    from q show "q \<noteq> [] \<and> (\<exists>rest. p = q @ CHR ''/'' # rest)"
      using 1 p by (metis append.assoc append_Cons)
  next
    assume "q \<noteq> [] \<and> (\<exists>rest. p = q @ CHR ''/'' # rest)"
    then obtain rest where q: "q \<noteq> []" "p = q @ CHR ''/'' # rest" by blast
    obtain r where "parentRel p = q \<or> parentRel p = q @ CHR ''/'' # r" using parentRel_extends [OF q(1)] q(2) by blast
    then show "q \<in> set (parents p)" using 1 q(1) by (subst parents_cases) auto
  qed
qed

lemma childRel_parts [simp]:
  assumes "CHR ''/'' \<notin> set name" shows "parentRel (childRel dir name) = dir" "baseName (childRel dir name) = name"
  using assms path_top [OF assms] by (auto simp: childRel_def)

lemma childRel_nonempty: "name \<noteq> [] \<Longrightarrow> childRel dir name \<noteq> []"
  by (simp add: childRel_def)

lemma parents_child: "CHR ''/'' \<notin> set name \<Longrightarrow> set (parents (childRel dir name)) = (if dir = [] then {} else insert dir (set (parents dir)))"
  by (subst parents_unfold) simp

section \<open>Well-formed directories\<close>

definition sound_path :: "bytes \<Rightarrow> bool" where
  "sound_path p \<longleftrightarrow> baseName p \<noteq> [] \<and> p = childRel (parentRel p) (baseName p)"

definition sound_tree :: "fs \<Rightarrow> bool" where
  "sound_tree fs \<longleftrightarrow> map_of fs [] \<in> {None, Some FDir} \<and>
     (\<forall>p \<in> set (map fst fs). p \<noteq> [] \<longrightarrow> sound_path p \<and> map_of fs (parentRel p) = Some FDir)"

lemma names_in_iff:
  assumes "sound_tree fs"
  shows "name \<in> set (names_in fs dir) \<longleftrightarrow> name \<noteq> [] \<and> CHR ''/'' \<notin> set name \<and> map_of fs (childRel dir name) \<noteq> None"
proof
  assume "name \<in> set (names_in fs dir)"
  then obtain k where k: "k \<in> set (map fst fs)" "k \<noteq> []" "parentRel k = dir" "baseName k = name" "name \<noteq> []"
    by (auto simp: names_in_def)
  then have "childRel dir name = k" using assms by (force simp: sound_tree_def sound_path_def)
  then show "name \<noteq> [] \<and> CHR ''/'' \<notin> set name \<and> map_of fs (childRel dir name) \<noteq> None"
    using k by (auto simp: map_of_eq_None_iff image_iff)
next
  assume n: "name \<noteq> [] \<and> CHR ''/'' \<notin> set name \<and> map_of fs (childRel dir name) \<noteq> None"
  then have "childRel dir name \<in> set (map fst fs)" "childRel dir name \<noteq> []" by (auto simp: map_of_eq_None_iff childRel_def)
  then show "name \<in> set (names_in fs dir)"
    using n by (force simp: names_in_def image_iff)
qed

lemma sound_parents: "sound_tree fs \<Longrightarrow> map_of fs p \<noteq> None \<Longrightarrow> q \<in> set (parents p) \<Longrightarrow> map_of fs q = Some FDir"
proof (induction p rule: parents.induct)
  case (1 p)
  from 1(4) have q: "parentRel p \<noteq> []" "q = parentRel p \<or> q \<in> set (parents (parentRel p))" using parents_cases [of q p] by blast+
  then have "p \<noteq> []" by (auto simp: parentRel_def)
  then have "map_of fs (parentRel p) = Some FDir"
    using 1(2,3) by (auto simp: sound_tree_def map_of_eq_None_iff)
  then show ?case using q 1(1,2) by auto
qed

section \<open>What the walk meets\<close>

inductive met :: "(bytes \<Rightarrow> bool) \<Rightarrow> fs \<Rightarrow> bytes \<Rightarrow> bytes \<Rightarrow> bool" for ign fs where
  here: "name \<in> set (names_in fs dir) \<Longrightarrow> met ign fs dir (childRel dir name)"
| down: "name \<in> set (names_in fs dir) \<Longrightarrow> \<not> ign (childRel dir name) \<Longrightarrow> map_of fs (childRel dir name) = Some FDir \<Longrightarrow>
    met ign fs (childRel dir name) p \<Longrightarrow> met ign fs dir p"

inductive_simps met_iff: "met ign fs dir p"

definition walked :: "(bytes \<Rightarrow> bool) \<Rightarrow> fs \<Rightarrow> bytes \<Rightarrow> visibleEntries \<Rightarrow> bool" where
  "walked ign fs dir E \<longleftrightarrow>
     set (ve_files E) = {p. met ign fs dir p \<and> \<not> ign p \<and> map_of fs p \<noteq> Some FDir} \<and>
     set (ve_dirs E) = {p. met ign fs dir p \<and> \<not> ign p \<and> map_of fs p = Some FDir} \<and>
     set (ve_keep E) = (\<Union>p \<in> {p. met ign fs dir p \<and> ign p}. set (parents p))"

text \<open>What one name adds.\<close>

definition piece :: "(bytes \<Rightarrow> bool) \<Rightarrow> fs \<Rightarrow> bytes \<Rightarrow> (bytes \<Rightarrow> bool) \<Rightarrow> bytes \<Rightarrow> bytes set" where
  "piece ign fs dir P name = {p. P p \<and> (p = childRel dir name \<or>
     \<not> ign (childRel dir name) \<and> map_of fs (childRel dir name) = Some FDir \<and> met ign fs (childRel dir name) p)}"

lemma met_pieces: "{p. met ign fs dir p \<and> P p} = (\<Union>name \<in> set (names_in fs dir). piece ign fs dir P name)"
  by (subst met_iff) (auto simp: piece_def)

lemma foldR_union:
  assumes "foldR f names out = Inr E" "\<And>name out out'. name \<in> set names \<Longrightarrow> f name out = Inr out' \<Longrightarrow> sel out' = sel out \<union> S name"
  shows "sel E = sel out \<union> (\<Union>name \<in> set names. S name)"
  using assms
proof (induction names arbitrary: out)
  case (Cons name names)
  then obtain out1 where o: "f name out = Inr out1" "foldR f names out1 = Inr E" by (auto simp: bindR_eq_Inr)
  then have "sel out1 = sel out \<union> S name" using Cons.prems(2) by simp
  then show ?case using Cons.IH [OF o(2)] Cons.prems(2) by auto
qed simp

definition collect_step :: "Ignore \<Rightarrow> nfc_lib \<Rightarrow> walk \<Rightarrow> fs \<Rightarrow> bytes \<Rightarrow> bytes \<Rightarrow> visibleEntries \<Rightarrow> ws_error + visibleEntries" where
  "collect_step ig nfc walk fs dir = (\<lambda>name out.
     let path = childRel dir name in
     if walk path = Some Cancelled then Inl WsHost
     else if Ignored ig (nfc path) then Inr (out\<lparr>ve_keep := ve_keep out @ parents path\<rparr>)
     else if map_of fs path = Some FDir then
       bindR (collectVisible ig nfc walk fs path) (\<lambda>sub. Inr (join_entries (out\<lparr>ve_dirs := ve_dirs out @ [path]\<rparr>) sub))
     else Inr (out\<lparr>ve_files := ve_files out @ [path]\<rparr>))"

lemma collectVisible_fold:
  "collectVisible ig nfc walk fs dir = bindR (readDir walk fs dir) (\<lambda>names. foldR (collect_step ig nfc walk fs dir) names no_entries)"
  unfolding collect_step_def by (rule collectVisible.simps)

lemma collect_step_adds:
  fixes ig nfc walk fs dir name
  defines "ign \<equiv> \<lambda>p. Ignored ig (nfc p)" and "q \<equiv> childRel dir name"
  assumes "collect_step ig nfc walk fs dir name out = Inr out'"
    "\<And>sub. \<not> ign q \<Longrightarrow> map_of fs q = Some FDir \<Longrightarrow> collectVisible ig nfc walk fs q = Inr sub \<Longrightarrow> walked ign fs q sub"
  shows "set (ve_files out') = set (ve_files out) \<union> piece ign fs dir (\<lambda>p. \<not> ign p \<and> map_of fs p \<noteq> Some FDir) name \<and>
    set (ve_dirs out') = set (ve_dirs out) \<union> piece ign fs dir (\<lambda>p. \<not> ign p \<and> map_of fs p = Some FDir) name \<and>
    set (ve_keep out') = set (ve_keep out) \<union> (\<Union>p \<in> piece ign fs dir ign name. set (parents p))"
proof -
  consider (skip) "ign q" | (deep) "\<not> ign q" "map_of fs q = Some FDir" | (leaf) "\<not> ign q" "map_of fs q \<noteq> Some FDir" by blast
  then show ?thesis
  proof cases
    case skip
    have "piece ign fs dir P name = {p. P p \<and> p = q}" for P using skip by (auto simp: piece_def q_def)
    moreover have "out' = out\<lparr>ve_keep := ve_keep out @ parents q\<rparr>"
      using assms(3) skip by (simp add: collect_step_def Let_def ign_def q_def split: if_splits)
    ultimately show ?thesis using skip by auto
  next
    case deep
    have "piece ign fs dir P name = {p. P p \<and> (p = q \<or> met ign fs q p)}" for P using deep by (auto simp: piece_def q_def)
    moreover obtain sub where "collectVisible ig nfc walk fs q = Inr sub" "out' = join_entries (out\<lparr>ve_dirs := ve_dirs out @ [q]\<rparr>) sub"
      using assms(3) deep by (auto simp: collect_step_def Let_def ign_def q_def bindR_eq_Inr split: if_splits)
    moreover have "walked ign fs q sub" using assms(4) deep calculation(2) by blast
    ultimately show ?thesis using deep by (auto simp: join_entries_def walked_def)
  next
    case leaf
    have "piece ign fs dir P name = {p. P p \<and> p = q}" for P using leaf by (auto simp: piece_def q_def)
    moreover have "out' = out\<lparr>ve_files := ve_files out @ [q]\<rparr>"
      using assms(3) leaf by (simp add: collect_step_def Let_def ign_def q_def split: if_splits)
    ultimately show ?thesis using leaf by auto
  qed
qed

lemma collectVisible_walked:
  "collectVisible ig nfc walk fs dir = Inr E \<Longrightarrow> walked (\<lambda>p. Ignored ig (nfc p)) fs dir E"
proof (induction "depth_left fs dir" arbitrary: dir E rule: less_induct)
  case less
  let ?ign = "\<lambda>p. Ignored ig (nfc p)" and ?step = "collect_step ig nfc walk fs dir"
  from less(2) obtain names where n: "readDir walk fs dir = Inr names" and f: "foldR ?step names no_entries = Inr E"
    by (auto simp: collectVisible_fold bindR_eq_Inr)
  have names: "names = names_in fs dir" using n by (auto simp: readDir_def split: if_splits)
  have step: "set (ve_files out') = set (ve_files out) \<union> piece ?ign fs dir (\<lambda>p. \<not> ?ign p \<and> map_of fs p \<noteq> Some FDir) name \<and>
      set (ve_dirs out') = set (ve_dirs out) \<union> piece ?ign fs dir (\<lambda>p. \<not> ?ign p \<and> map_of fs p = Some FDir) name \<and>
      set (ve_keep out') = set (ve_keep out) \<union> (\<Union>p \<in> piece ?ign fs dir ?ign name. set (parents p))"
    if "name \<in> set names" "?step name out = Inr out'" for name out out'
    using collect_step_adds [OF that(2)] less(1) depth_left_child [of name fs dir FDir] that(1) names by blast
  have "set (ve_files E) = set (ve_files no_entries) \<union> (\<Union>n \<in> set names. piece ?ign fs dir (\<lambda>p. \<not> ?ign p \<and> map_of fs p \<noteq> Some FDir) n)"
    "set (ve_dirs E) = set (ve_dirs no_entries) \<union> (\<Union>n \<in> set names. piece ?ign fs dir (\<lambda>p. \<not> ?ign p \<and> map_of fs p = Some FDir) n)"
    "set (ve_keep E) = set (ve_keep no_entries) \<union> (\<Union>n \<in> set names. \<Union>p \<in> piece ?ign fs dir ?ign n. set (parents p))"
    using step by (intro foldR_union [OF f]; blast)+
  then show ?case
    unfolding walked_def met_pieces names by (auto simp: no_entries_def)
qed

section \<open>Hidden entries\<close>

definition hidden :: "(bytes \<Rightarrow> bool) \<Rightarrow> bytes \<Rightarrow> bool" where
  "hidden ign p \<longleftrightarrow> list_ex ign (p # parents p)"

lemma met_deeper:
  "met ign fs dir p \<Longrightarrow> \<not> ign p \<Longrightarrow> map_of fs p = Some FDir \<Longrightarrow> name \<in> set (names_in fs p) \<Longrightarrow> met ign fs dir (childRel p name)"
  by (induction rule: met.induct) (auto intro: met.intros)

lemma met_inside:
  assumes "sound_tree fs" "met ign fs dir p"
  shows "p \<noteq> [] \<and> map_of fs p \<noteq> None \<and> (\<forall>q \<in> set (parents p). q = dir \<or> q \<in> set (parents dir) \<or> \<not> ign q)"
  using assms(2)
proof (induction rule: met.induct)
  case (here name dir)
  then show ?case by (auto simp: names_in_iff [OF assms(1)] parents_child childRel_nonempty split: if_splits)
next
  case (down name dir p)
  then show ?case by (auto simp: names_in_iff [OF assms(1)] parents_child split: if_splits)
qed

lemma met_root:
  assumes "sound_tree fs"
  shows "met ign fs [] p \<longleftrightarrow> p \<noteq> [] \<and> map_of fs p \<noteq> None \<and> (\<forall>q \<in> set (parents p). \<not> ign q)"
proof
  assume "met ign fs [] p"
  then show "p \<noteq> [] \<and> map_of fs p \<noteq> None \<and> (\<forall>q \<in> set (parents p). \<not> ign q)"
    using met_inside [OF assms] parents_shorter by fastforce
next
  show "p \<noteq> [] \<and> map_of fs p \<noteq> None \<and> (\<forall>q \<in> set (parents p). \<not> ign q) \<Longrightarrow> met ign fs [] p"
  proof (induction p rule: parents.induct)
    case (1 p)
    then have p: "sound_path p" "map_of fs (parentRel p) = Some FDir"
      using assms by (auto simp: sound_tree_def map_of_eq_None_iff)
    then have eq: "childRel (parentRel p) (baseName p) = p" by (simp add: sound_path_def)
    have name: "baseName p \<in> set (names_in fs (parentRel p))"
      using p(1) 1(2) eq by (simp add: names_in_iff [OF assms] sound_path_def)
    show ?case
    proof (cases "parentRel p = []")
      case True
      then show ?thesis using met.here [OF name] eq by simp
    next
      case False
      have ps: "set (parents p) = insert (parentRel p) (set (parents (parentRel p)))" using False parents_cases by blast
      then have "met ign fs [] (parentRel p)" using 1 False p(2) by simp
      then show ?thesis using met_deeper [OF _ _ p(2) name] 1(2) eq ps by simp
    qed
  qed
qed

lemma chain_linear:
  assumes "x \<in> set (p # parents p)" "y \<in> set (p # parents p)"
  shows "x = y \<or> x \<in> set (parents y) \<or> y \<in> set (parents x)"
proof (cases "x = p \<or> y = p")
  case True
  then show ?thesis using assms by auto
next
  case False
  then have ne: "x \<noteq> []" "y \<noteq> []" and "\<exists>r s. x @ CHR ''/'' # r = p \<and> y @ CHR ''/'' # s = p"
    using assms parents_prefix [of x p] parents_prefix [of y p] by auto
  then obtain r s where "x @ CHR ''/'' # r = y @ CHR ''/'' # s" by metis
  then show ?thesis
    using ne by (auto simp: append_eq_append_conv2 Cons_eq_append_conv append_eq_Cons_conv parents_prefix)
qed

text \<open>An entry that is hidden lies at or below one that the walk meets and skips, and what is above both is above that one.\<close>

lemma hidden_top:
  assumes "sound_tree fs" "map_of fs k \<noteq> None" "k \<noteq> []" "hidden ign k"
  shows "\<exists>h. met ign fs [] h \<and> ign h \<and> (\<forall>p \<in> set (k # parents k). \<not> hidden ign p \<longrightarrow> p \<in> set (parents h))"
proof -
  obtain h where h: "h \<in> set (k # parents k)" "ign h" and least: "\<And>q. q \<in> set (k # parents k) \<and> ign q \<Longrightarrow> length h \<le> length q"
    using assms(4) ex_has_least_nat [of "\<lambda>q. q \<in> set (k # parents k) \<and> ign q" _ length]
    unfolding hidden_def list_ex_iff by blast
  have above: "\<not> ign q" if "q \<in> set (parents h)" for q
    using least [of q] parents_shorter [OF that] parents_trans [of h k q] h(1) that by auto
  have "h \<noteq> []" "map_of fs h \<noteq> None"
    using h(1) assms(2,3) parents_shorter sound_parents [OF assms(1,2)] by auto
  then have "met ign fs [] h" using above by (simp add: met_root [OF assms(1)])
  moreover have "p \<in> set (parents h)" if "p \<in> set (k # parents k)" "\<not> hidden ign p" for p
    using chain_linear [OF that(1) h(1)] that(2) h(2) by (auto simp: hidden_def list_ex_iff)
  ultimately show ?thesis using h(2) by blast
qed

section \<open>Effects of the calls\<close>

abbreviation entry :: "'r wsm \<Rightarrow> bytes \<Rightarrow> fs_entry option" where
  "entry w \<equiv> map_of (wm_visible w)"

lemma visibleW_ok: "visibleW c err f w = (Inr u, w') \<Longrightarrow> f (wm_visible w) = Some (wm_visible w')"
  by (auto simp: visibleW_def Let_def split: if_splits option.splits)

lemma fs_effects:
  "fs_Remove p fs = Some fs' \<Longrightarrow> map_of fs' = (map_of fs)(p := None)"
  "fs_RemoveAll p fs = Some fs' \<Longrightarrow> map_of fs' = (\<lambda>k. if is_below p k then None else map_of fs k)"
  "mkdirs ds fs = Some fs' \<Longrightarrow> map_of fs' = (\<lambda>k. if k \<in> set ds then Some FDir else map_of fs k)"
proof -
  show "fs_Remove p fs = Some fs' \<Longrightarrow> map_of fs' = (map_of fs)(p := None)"
    by (auto simp: fs_Remove_def split: option.splits fs_entry.splits if_splits)
  show "fs_RemoveAll p fs = Some fs' \<Longrightarrow> map_of fs' = (\<lambda>k. if is_below p k then None else map_of fs k)"
    by (auto simp: fs_RemoveAll_def case_prod_beta' map_of_filter_key [where P = "\<lambda>k. \<not> is_below p k"] split: if_splits)
  show "mkdirs ds fs = Some fs' \<Longrightarrow> map_of fs' = (\<lambda>k. if k \<in> set ds then Some FDir else map_of fs k)"
    by (induction ds arbitrary: fs) (auto split: option.splits fs_entry.splits)
qed

lemma file_effects:
  "fs_Create p fs = Some fs' \<Longrightarrow> map_of fs p = None \<and> map_of fs' = (map_of fs)(p \<mapsto> FFile [])"
  "fs_Write p data fs = Some fs' \<Longrightarrow> map_of fs' = (map_of fs)(p \<mapsto> FFile data)"
  "fs_Rename old new fs = Some fs' \<Longrightarrow> \<exists>e. map_of fs old = Some e \<and> map_of fs' = ((map_of fs)(old := None))(new \<mapsto> e)"
  by (auto simp: fs_Create_def fs_Write_def fs_Rename_def split: if_splits option.splits)

lemma remove_effect:
  assumes "visibleW c err (fs_Remove p) w = (Inr u, w')" shows "entry w' = (\<lambda>k. if k = p then None else entry w k)"
  using fs_effects(1) [OF visibleW_ok [OF assms]] by (auto simp: fun_eq_iff)

lemma removeAll_effect:
  assumes "visibleW c err (fs_RemoveAll p) w = (Inr u, w')" shows "entry w' = (\<lambda>k. if is_below p k then None else entry w k)"
  by (rule fs_effects(2) [OF visibleW_ok [OF assms]])

lemma mkdirAll_effect:
  assumes "visibleW c err (fs_MkdirAll dir) w = (Inr u, w')"
  shows "entry w' = (\<lambda>k. if k = [] \<or> dir \<noteq> [] \<and> (k = dir \<or> k \<in> set (parents dir)) then Some FDir else entry w k)"
  using fs_effects(3) [OF visibleW_ok [OF assms, unfolded fs_MkdirAll_def]] by (auto simp: fun_eq_iff)

lemma each_effect:
  assumes "eachS f xs w = (Inr u, w')" "\<And>x w w'. f x w = (Inr (), w') \<Longrightarrow> entry w' = (\<lambda>k. if P x k then None else entry w k)"
  shows "entry w' = (\<lambda>k. if \<exists>x \<in> set xs. P x k then None else entry w k)"
  using assms(1)
proof (induction xs arbitrary: w)
  case (Cons x xs)
  then obtain w1 where "f x w = (Inr (), w1)" "eachS f xs w1 = (Inr u, w')" by (auto elim: bindS_cases)
  then show ?case using Cons.IH assms(2) by (auto simp: fun_eq_iff)
qed simp

lemma tempSuffix_nonempty: "tempSuffix c i \<noteq> []"
  by (simp add: tempSuffix_def split: option.split)

lemma place_effect:
  assumes "placeFile c f w = (Inr u, w')" "entry w [] = Some FDir"
  shows "entry w' = (\<lambda>k. if k = f_Path f then Some (FFile (f_Data f)) else if k \<in> set (parents (f_Path f)) then Some FDir else entry w k)"
proof -
  let ?p = "f_Path f"
  obtain w1 w2 w3 w4 where
    w1: "(if parentRel ?p \<noteq> [] then visibleW c WsHost (fs_MkdirAll (parentRel ?p)) else retS ()) (w\<lparr>wm_calls := Suc (wm_calls w)\<rparr>) = (Inr (), w1)"
    and w2: "visibleW c ErrPartial (fs_Create (?p @ tempSuffix c (wm_calls w1))) w1 = (Inr (), w2)"
    and w3: "visibleW c ErrPartial (fs_Write (?p @ tempSuffix c (wm_calls w1)) (f_Data f)) w2 = (Inr (), w3)"
    and w4: "visibleW c ErrPartial Some w3 = (Inr (), w4)"
    and w5: "visibleW c ErrPartial (fs_Rename (?p @ tempSuffix c (wm_calls w1)) ?p) w4 = (Inr u, w')"
    using assms(1) unfolding placeFile_def by (auto elim!: bindS_cases simp: hostW_def getW_def split: if_splits)
  let ?t = "?p @ tempSuffix c (wm_calls w1)"
  have t: "?t \<noteq> ?p" "?t \<notin> set (parents ?p)" using tempSuffix_nonempty parents_shorter [of ?t ?p] by auto
  have e1: "entry w1 = (\<lambda>k. if k \<in> set (parents ?p) then Some FDir else entry w k)"
  proof (cases "parentRel ?p = []")
    case True
    then show ?thesis using w1 parents_unfold [of ?p] by (auto simp: fun_eq_iff)
  next
    case False
    then show ?thesis using mkdirAll_effect [of c WsHost "parentRel ?p"] w1 parents_unfold [of ?p] assms(2) by (auto simp: fun_eq_iff)
  qed
  note e2 = file_effects(1) [OF visibleW_ok [OF w2]] and e3 = file_effects(2) [OF visibleW_ok [OF w3]]
  have "entry w4 = entry w3" using visibleW_ok [OF w4] by simp
  then have "entry w' = ((entry w3)(?t := None))(?p \<mapsto> FFile (f_Data f))"
    using file_effects(3) [OF visibleW_ok [OF w5]] e3 by auto
  then show ?thesis using e1 e2 e3 t by (auto simp: fun_eq_iff)
qed

section \<open>Placing the target\<close>

definition target_map :: "Snapshot \<Rightarrow> bytes \<Rightarrow> fs_entry option" where
  "target_map target k =
     (case map_of (map (\<lambda>f. (f_Path f, f_Data f)) target) k of
        Some d \<Rightarrow> Some (FFile d)
      | None \<Rightarrow> if k \<in> set (targetDirSet target) then Some FDir else None)"

definition clean_target :: "Snapshot \<Rightarrow> bool" where
  "clean_target target \<longleftrightarrow> distinct (map f_Path target) \<and> [] \<notin> set (map f_Path target) \<and>
     set (map f_Path target) \<inter> set (targetDirSet target) = {}"

lemma path_data_None: "map_of (map (\<lambda>f. (f_Path f, f_Data f)) target) k = None \<longleftrightarrow> k \<notin> set (map f_Path target)"
  by (induction target) auto

lemma target_map_None: "target_map target k = None \<longleftrightarrow> k \<notin> set (map f_Path target) \<and> k \<notin> set (targetDirSet target)"
  unfolding target_map_def path_data_None [symmetric] by (auto split: option.splits)

lemma target_map_Cons:
  assumes "clean_target (f # target)"
  shows "target_map (f # target) k = (case target_map target k of Some x \<Rightarrow> Some x | None \<Rightarrow> target_map [f] k)"
proof (cases "map_of (map (\<lambda>f. (f_Path f, f_Data f)) target) k")
  case (Some d)
  then have "k \<in> set (map f_Path target)" using path_data_None [of target k] by simp
  then have "k \<noteq> f_Path f" using assms unfolding clean_target_def by (metis distinct.simps(2) list.simps(9))
  then show ?thesis using Some by (simp add: target_map_def)
next
  case None
  have "k \<in> set (targetDirSet target) \<Longrightarrow> k \<noteq> f_Path f" using assms by (auto simp: clean_target_def targetDirSet_def)
  then show ?thesis using None by (auto simp: target_map_def targetDirSet_def)
qed

lemma places_effect:
  assumes "eachS (placeFile c) target w = (Inr u, w')" "entry w [] = Some FDir" "clean_target target"
  shows "entry w' = entry w ++ target_map target"
  using assms
proof (induction target arbitrary: w)
  case Nil
  then show ?case by (simp add: target_map_def targetDirSet_def map_add_def)
next
  case (Cons f target)
  then obtain w1 where w1: "placeFile c f w = (Inr (), w1)" "eachS (placeFile c) target w1 = (Inr u, w')" by (auto elim: bindS_cases)
  note e1 = place_effect [OF w1(1) Cons.prems(2)]
  have "f_Path f \<noteq> []" "clean_target target" using Cons.prems(3) by (auto simp: clean_target_def targetDirSet_def)
  then have "entry w' = entry w1 ++ target_map target"
    using Cons.IH [OF w1(2)] e1 Cons.prems(2) by auto
  moreover have "(if k = f_Path f then Some (FFile (f_Data f)) else if k \<in> set (parents (f_Path f)) then Some FDir else e) = 
      (case target_map [f] k of Some x \<Rightarrow> Some x | None \<Rightarrow> e)" for k e
    by (auto simp: target_map_def targetDirSet_def)
  ultimately show ?case using e1 by (auto simp: map_add_def fun_eq_iff target_map_Cons [OF Cons.prems(3)] split: option.splits)
qed

section \<open>The whole rewrite\<close>

definition stays :: "(bytes \<Rightarrow> bool) \<Rightarrow> fs \<Rightarrow> bytes \<Rightarrow> bool" where
  "stays ign fs k \<longleftrightarrow> hidden ign k \<or> list_ex (\<lambda>(h, e). hidden ign h \<and> k \<in> set (parents h)) fs"

definition rewritten :: "(bytes \<Rightarrow> bool) \<Rightarrow> fs \<Rightarrow> Snapshot \<Rightarrow> bytes \<Rightarrow> fs_entry option" where
  "rewritten ign fs target k =
     (if k = [] then Some FDir
      else case target_map target k of Some e \<Rightarrow> Some e | None \<Rightarrow> if stays ign fs k then map_of fs k else None)"

text \<open>What the passes of \<open>applyInPlace\<close> do to an entry, given the entries the walk collected.\<close>

definition passes :: "visibleEntries \<Rightarrow> Snapshot \<Rightarrow> (bytes \<Rightarrow> fs_entry option) \<Rightarrow> bytes \<Rightarrow> fs_entry option" where
  "passes E target m k =
     (if \<exists>p \<in> set (ve_dirs E). p \<notin> set (targetDirSet target) \<and> p \<notin> set (ve_keep E) \<and> is_below p k then None
      else if k \<in> set (ve_files E) \<and> k \<notin> set (map f_Path target) \<and> k \<notin> set (targetDirSet target) then None
      else case target_map target k of Some e \<Rightarrow> Some e | None \<Rightarrow> m k)"

lemma collect_effect:
  assumes "collect c w = (Inr E, w')"
  shows "wm_visible w' = wm_visible w \<and> walked (\<lambda>p. Ignored (wc_ignore c) (wc_nfc c p)) (wm_visible w) [] E"
  using assms collectVisible_walked unfolding collect_def
  by (cases "collectVisible (wc_ignore c) (wc_nfc c) (wc_walk c (wm_calls w)) (wm_visible w) []")
    (auto simp: bindS_apply getW_def modW_def)

lemma remove_when_effect:
  "(if C then visibleW c err (fs_Remove p) else retS ()) w = (Inr u, w') \<Longrightarrow> entry w' = (\<lambda>k. if C \<and> k = p then None else entry w k)"
  "(if C then visibleW c err (fs_RemoveAll p) else retS ()) w = (Inr u, w') \<Longrightarrow> entry w' = (\<lambda>k. if C \<and> is_below p k then None else entry w k)"
  by (cases C; auto dest: remove_effect removeAll_effect)+

lemma sound_tree_iff:
  "sound_tree fs \<longleftrightarrow> map_of fs [] \<in> {None, Some FDir} \<and>
     (\<forall>p. map_of fs p \<noteq> None \<longrightarrow> p \<noteq> [] \<longrightarrow> sound_path p \<and> map_of fs (parentRel p) = Some FDir)"
  unfolding sound_tree_def map_of_eq_None_iff by (simp add: Ball_def)

lemma sound_root: "sound_tree fs \<Longrightarrow> map_of fs' = (map_of fs)([] \<mapsto> FDir) \<Longrightarrow> sound_tree fs'"
  unfolding sound_tree_iff by auto

lemma applyInPlace_passes:
  assumes run: "applyInPlace c target w = (Inr u, w')" and clean: "clean_target target"
    and free: "\<And>f. f \<in> set target \<Longrightarrow> entry w (f_Path f) \<noteq> Some FDir" and sound: "sound_tree (wm_visible w)"
  shows "\<exists>fs E. map_of fs = (entry w)([] \<mapsto> FDir) \<and> sound_tree fs \<and> walked (\<lambda>p. Ignored (wc_ignore c) (wc_nfc c p)) fs [] E \<and>
    entry w' = passes E target (map_of fs)"
proof -
  let ?tf = "set (map f_Path target)" and ?td = "set (targetDirSet target)"
  obtain w1 w2 w3 w4 w5 w6 w7 E where
    w1: "visibleW c ErrPartial (fs_MkdirAll []) w = (Inr (), w1)" and w2: "collect c w1 = (Inr E, w2)"
    and w3: "eachS (\<lambda>p. if p \<in> ?tf then visibleW c ErrPartial (fs_RemoveAll p) else retS ()) (ve_dirs E) w2 = (Inr (), w3)"
    and w4: "eachS (\<lambda>p. if p \<in> ?td then visibleW c ErrPartial (fs_Remove p) else retS ()) (ve_files E) w3 = (Inr (), w4)"
    and w5: "eachS (placeFile c) target w4 = (Inr (), w5)"
    and w6: "eachS (\<lambda>p. if p \<notin> ?tf \<and> p \<notin> ?td then visibleW c ErrPartial (fs_Remove p) else retS ()) (ve_files E) w5 = (Inr (), w6)"
    and w7: "eachS (\<lambda>p. if p \<notin> ?td \<and> p \<notin> set (ve_keep E) then visibleW c ErrPartial (fs_RemoveAll p) else retS ()) (rev (sort (ve_dirs E))) w6 = (Inr (), w7)"
    and w8: "hostW c WsHost w7 = (Inr u, w')"
    using run unfolding applyInPlace_def Let_def by (auto elim!: bindS_cases)
  have e1: "entry w1 = (entry w)([] \<mapsto> FDir)" using mkdirAll_effect [OF w1] by (auto simp: fun_eq_iff)
  have e2: "wm_visible w2 = wm_visible w1" and E: "walked (\<lambda>p. Ignored (wc_ignore c) (wc_nfc c p)) (wm_visible w1) [] E"
    using collect_effect [OF w2] by auto
  have s1: "sound_tree (wm_visible w1)" by (rule sound_root [OF sound e1])
  have members: "p \<in> set (ve_dirs E) \<Longrightarrow> p \<noteq> [] \<and> entry w1 p = Some FDir" "p \<in> set (ve_files E) \<Longrightarrow> p \<noteq> []" for p
    using E met_root [OF s1] by (auto simp: walked_def)
  have none: "p \<notin> ?tf" if "p \<in> set (ve_dirs E)" for p
    using members(1) [OF that] free e1 by auto
  have e3: "entry w3 = entry w1"
    using each_effect [OF w3 remove_when_effect(2)] none e2 by (auto simp: fun_eq_iff)
  have e4: "entry w4 = (\<lambda>k. if k \<in> set (ve_files E) \<and> k \<in> ?td then None else entry w1 k)"
    using each_effect [OF w4 remove_when_effect(1)] e3 by (auto simp: fun_eq_iff)
  have "entry w4 [] = Some FDir" using e4 members(2) [of "[]"] e1 by auto
  then have e5: "entry w5 = entry w4 ++ target_map target" by (rule places_effect [OF w5 _ clean])
  have e6: "entry w6 = (\<lambda>k. if k \<in> set (ve_files E) \<and> k \<notin> ?tf \<and> k \<notin> ?td then None else entry w5 k)"
    using each_effect [OF w6 remove_when_effect(1)] by (auto simp: fun_eq_iff)
  have e7: "entry w7 = (\<lambda>k. if \<exists>p \<in> set (ve_dirs E). p \<notin> ?td \<and> p \<notin> set (ve_keep E) \<and> is_below p k then None else entry w6 k)"
    using each_effect [OF w7 remove_when_effect(2)] by (auto simp: fun_eq_iff)
  have "entry w' = entry w7" using w8 by (auto simp: hostW_def split: if_splits)
  moreover have "target_map target k = None \<Longrightarrow> k \<notin> ?td" for k by (simp add: target_map_None)
  ultimately have "entry w' = passes E target (entry w1)"
    unfolding e7 e6 e5 e4 by (auto simp: passes_def fun_eq_iff map_add_def split: option.splits)
  then show ?thesis using e1 s1 E by blast
qed

lemma is_below_iff: "p \<noteq> [] \<Longrightarrow> is_below p k \<longleftrightarrow> p \<in> set (k # parents k)"
  by (auto simp: is_below_def HasPrefix_iff prefix_def parents_prefix)

text \<open>Which directories the walk keeps, and which entries it lists.\<close>

lemma walked_members:
  assumes sound: "sound_tree fs" and E: "walked ign fs [] E" and k: "map_of fs k \<noteq> None" "k \<noteq> []"
  shows "k \<in> set (ve_files E) \<longleftrightarrow> \<not> hidden ign k \<and> map_of fs k \<noteq> Some FDir"
    "k \<in> set (ve_dirs E) \<longleftrightarrow> \<not> hidden ign k \<and> map_of fs k = Some FDir"
  using assms met_root [OF sound] by (auto simp: walked_def hidden_def list_ex_iff)

lemma walked_keep:
  assumes sound: "sound_tree fs" and E: "walked ign fs [] E"
  shows "\<not> hidden ign k \<Longrightarrow> k \<in> set (ve_keep E) \<longleftrightarrow> list_ex (\<lambda>(h, e). hidden ign h \<and> k \<in> set (parents h)) fs"
    "h \<noteq> [] \<Longrightarrow> map_of fs h \<noteq> None \<Longrightarrow> hidden ign h \<Longrightarrow> p \<in> set (parents h) \<Longrightarrow> \<not> hidden ign p \<Longrightarrow> p \<in> set (ve_keep E)"
proof -
  show top: "p \<in> set (ve_keep E)" if "h \<noteq> []" "map_of fs h \<noteq> None" "hidden ign h" "p \<in> set (parents h)" "\<not> hidden ign p" for h p
    using hidden_top [OF sound that(2,1,3)] that(4,5) E unfolding walked_def by fastforce
  assume n: "\<not> hidden ign k"
  show "k \<in> set (ve_keep E) \<longleftrightarrow> list_ex (\<lambda>(h, e). hidden ign h \<and> k \<in> set (parents h)) fs"
  proof
    assume "k \<in> set (ve_keep E)"
    then obtain h where h: "met ign fs [] h" "ign h" "k \<in> set (parents h)" using E by (auto simp: walked_def)
    then have "h \<in> fst ` set fs" using met_root [OF sound] by (simp add: map_of_eq_None_iff)
    then show "list_ex (\<lambda>(h, e). hidden ign h \<and> k \<in> set (parents h)) fs"
      using h by (force simp: list_ex_iff hidden_def)
  next
    assume "list_ex (\<lambda>(h, e). hidden ign h \<and> k \<in> set (parents h)) fs"
    then obtain h where h: "h \<in> fst ` set fs" "hidden ign h" "k \<in> set (parents h)" by (force simp: list_ex_iff)
    then have "h \<noteq> []" by auto
    then show "k \<in> set (ve_keep E)" using top [of h k] h n by (simp add: map_of_eq_None_iff)
  qed
qed

lemma passes_rewritten:
  assumes sound: "sound_tree fs" and root: "map_of fs [] = Some FDir" and walked: "walked ign fs [] E" and clean: "clean_target target"
    and free: "\<And>f. f \<in> set target \<Longrightarrow> map_of fs (f_Path f) \<noteq> Some FDir"
  shows "passes E target (map_of fs) k = rewritten ign fs target k"
proof -
  let ?td = "set (targetDirSet target)" and ?tf = "set (map f_Path target)"
  let ?gone = "\<exists>p \<in> set (ve_dirs E). p \<notin> ?td \<and> p \<notin> set (ve_keep E) \<and> is_below p k"
  have listed: "p \<in> set (ve_dirs E) \<Longrightarrow> p \<noteq> [] \<and> map_of fs p = Some FDir \<and> \<not> hidden ign p"
    "p \<in> set (ve_files E) \<Longrightarrow> p \<noteq> [] \<and> map_of fs p \<noteq> None" for p
    using walked met_root [OF sound] by (auto simp: walked_def hidden_def list_ex_iff)
  consider (root) "k = []" | (target) "k \<noteq> []" "target_map target k \<noteq> None" | (absent) "k \<noteq> []" "target_map target k = None" "map_of fs k = None"
    | (present) "k \<noteq> []" "target_map target k = None" "map_of fs k \<noteq> None" by blast
  then show ?thesis
  proof cases
    case root
    have "\<not> ?gone" using listed(1) root by (auto simp: is_below_iff)
    moreover have "target_map target [] = None"
      using clean parents_shorter by (auto simp: target_map_None clean_target_def targetDirSet_def)
    ultimately show ?thesis using listed(2) [of "[]"] assms(2) root by (auto simp: passes_def rewritten_def)
  next
    case target
    have kt: "k \<in> ?tf \<or> k \<in> ?td" using target(2) by (auto simp: target_map_None)
    have "p \<in> ?td" if "p \<in> set (ve_dirs E)" "is_below p k" for p
    proof -
      have "p = k \<or> p \<in> set (parents k)" using that listed(1) by (auto simp: is_below_iff)
      then show ?thesis
        using kt listed(1) [OF that(1)] free parents_trans by (auto simp: targetDirSet_def) blast+
    qed
    then have "\<not> ?gone" by blast
    then show ?thesis using kt target by (auto simp: passes_def rewritten_def)
  next
    case absent
    then show ?thesis using listed(2) by (auto simp: passes_def rewritten_def)
  next
    case present
    then have k: "k \<notin> ?tf" "k \<notin> ?td" by (simp_all add: target_map_None)
    note files = walked_members [OF sound walked present(3,1)]
    have keep: "\<not> hidden ign k \<Longrightarrow> stays ign fs k \<longleftrightarrow> k \<in> set (ve_keep E)" using walked_keep(1) [OF sound walked] by (simp add: stays_def)
    consider (hid) "hidden ign k" | (leaf) "\<not> hidden ign k" "map_of fs k \<noteq> Some FDir"
      | (kept) "\<not> hidden ign k" "map_of fs k = Some FDir" "k \<in> set (ve_keep E)"
      | (old) "\<not> hidden ign k" "map_of fs k = Some FDir" "k \<notin> set (ve_keep E)" by blast
    then show ?thesis
    proof cases
      case hid
      have "\<not> ?gone" using listed(1) walked_keep(2) [OF sound walked present(1,3) hid] hid by (auto simp: is_below_iff)
      then show ?thesis using hid present files by (auto simp: passes_def rewritten_def stays_def)
    next
      case leaf
      have "\<not> stays ign fs k"
        using leaf sound_parents [OF sound, of _ k] by (force simp: stays_def list_ex_iff map_of_eq_None_iff)
      then show ?thesis using leaf present files k by (simp add: passes_def rewritten_def)
    next
      case kept
      then obtain h where h: "met ign fs [] h" "ign h" "k \<in> set (parents h)" using walked by (auto simp: walked_def)
      have "\<not> ?gone"
      proof
        assume ?gone
        then obtain p where p: "p \<in> set (ve_dirs E)" "p \<notin> set (ve_keep E)" "is_below p k" by blast
        then have "p \<in> set (parents h)" using listed(1) kept(3) parents_trans [OF h(3)] by (auto simp: is_below_iff)
        then show False using p(2) h walked by (auto simp: walked_def)
      qed
      then show ?thesis using kept keep present files by (auto simp: passes_def rewritten_def)
    next
      case old
      then have ?gone using files k present(1) by (intro bexI [of _ k]) (auto simp: is_below_iff)
      then show ?thesis using old keep present by (simp add: passes_def rewritten_def)
    qed
  qed
qed

section \<open>Accepting a tree\<close>

lemma rewritten_root:
  assumes "map_of fs' = (map_of fs)([] \<mapsto> FDir)" shows "rewritten ign fs' target = rewritten ign fs target"
proof -
  have "fst ` set fs' = insert [] (fst ` set fs)" using arg_cong [OF assms, of dom] by (simp add: dom_map_of_conv_image_fst)
  moreover have "stays ign fs k \<longleftrightarrow> hidden ign k \<or> (\<exists>h \<in> fst ` set fs. hidden ign h \<and> k \<in> set (parents h))" for fs k
    by (force simp: stays_def list_ex_iff)
  ultimately have "stays ign fs' k = stays ign fs k" for k by (simp only: bex_simps(5)) simp
  then show ?thesis using assms by (auto simp: rewritten_def fun_eq_iff split: option.split)
qed

lemma clean_valid:
  assumes "ReadSnapshot tx R r d tree = Inr full" shows "clean_target (WithoutIgnored ig full)"
proof -
  have v: "valid_snapshot tx full"
    using assms by (auto simp: ReadSnapshot_def Let_def bindR_eq_Inr ValidateSnapshot_iff)
  have "distinct (map f_Path full)" "[] \<notin> f_Path ` set full"
    using valid_snapshot_distinct_paths [OF v] v by (auto simp: valid_snapshot_def valid_file_def ValidatePath_def)
  moreover have "f_Path ` set full \<inter> set (targetDirSet full) = {}"
    using v by (auto simp: valid_snapshot_def targetDirSet_def parents_prefix prefix_def)
  ultimately show ?thesis
    by (auto simp: clean_target_def WithoutIgnored_def targetDirSet_def distinct_map_filter)
qed

lemma keeps_state: "preserves (\<lambda>w. wm_state w = st) (applyInPlace c snap)"
  unfolding applyInPlace_def placeFile_def collect_def Let_def
  by (intro preserves_rules preserves_hostW preserves_visibleW preserves_modW) simp_all

lemma under_flag_ok:
  assumes "under_flag c b snap w = (Inr u, w')"
  shows "\<exists>w1 w2. applyInPlace c snap w = (Inr (), w1) \<and> persistState c (advance_state b (wm_state w)) w1 = (Inr (wm_state w'), w2) \<and>
    w' = w2\<lparr>wm_state := wm_state w'\<rparr>"
proof -
  obtain w1 w2 st where "applyInPlace c snap w = (Inr (), w1)" "persistState c (advance_state b (wm_state w1)) w1 = (Inr st, w2)"
    "w' = w2\<lparr>wm_state := st\<rparr>"
    using assms unfolding under_flag_def by (auto elim!: bindS_cases simp: getW_def modW_def split: if_splits)
  moreover have "wm_state w1 = wm_state w" using preservesD [OF keeps_state calculation(1)] by blast
  ultimately show ?thesis by auto
qed

text \<open>A successful \<open>applyLocked\<close> came through the three parts.\<close>

lemma apply_ok:
  assumes "applyLocked c tree b w = (Inr u, w')" "ReadSnapshot (wc_tx c) (wc_repo c) (wm_repo w) (wc_depth c) tree = Inr full"
  shows "\<exists>w1. wm_visible w1 = wm_visible w \<and> under_flag c b (WithoutIgnored (wc_ignore c) full) w1 = (Inr u, w')"
proof -
  obtain snap w1 w2 where p: "before_flag c tree w = (Inr snap, w1)" "markRecoveryRequired c w1 = (Inr (), w2)" "under_flag c b snap w2 = (Inr u, w')"
    using assms(1) unfolding applyLocked_parts by (auto elim!: bindS_cases)
  have "snap = WithoutIgnored (wc_ignore c) full"
    using p(1) assms(2) unfolding before_flag_def by (auto elim!: bindS_cases simp: getW_def split: if_splits)
  moreover have "wm_visible w2 = wm_visible w1"
    using p(2) by (auto simp: markRecoveryRequired_def getW_def modW_def Let_def elim!: bindS_cases dest!: persist_cases split: if_splits)
  ultimately show ?thesis using p(3) idle_same(1) [OF idle_before_flag p(1)] by auto
qed

lemma accept_ok:
  assumes "ws_Accept_op c held b w = (Inr u, w')"
  shows "\<exists>w1. wm_visible w1 = wm_visible w \<and> wm_repo w1 = wm_repo w \<and> applyLocked c (bl_Tree b) (Some b) w1 = (Inr u, w')"
proof (cases held)
  case True
  then show ?thesis using assms by (auto simp: ws_Accept_op_def withOpLock_def bindS_retS getW_def elim!: bindS_cases split: if_splits)
next
  case False
  let ?w = "w\<lparr>wm_calls := Suc (Suc (Suc (Suc (wm_calls w)))), wm_state := concluded c (Suc (Suc (wm_calls w))) w\<rparr>"
  have "applyLocked c (bl_Tree b) (Some b) ?w = (Inr u, w')"
    using assms False by (auto simp: ws_Accept_op_def withOpLock_def getW_def acquire_run Let_def elim!: bindS_cases split: if_splits)
  then show ?thesis by (intro exI [of _ ?w]) simp
qed

text \<open>The record a rewrite leaves.\<close>

definition records :: "'r wcfg \<Rightarrow> 'r wsm \<Rightarrow> Baseline \<Rightarrow> bool" where
  "records c w b \<longleftrightarrow> \<not> demands c w \<and> ws_Baseline_op w = b \<and>
     (\<exists>d. wm_stateFile w = Some d \<and> decodeState (jl_tokens (wc_json c) d) = Inr (wm_state w))"

lemma under_flag_records:
  assumes json: "json_text (wc_json c)" and run: "under_flag c (Some b) snap w = (Inr u, w')"
    and b: "length (bl_Head b) = 20" "length (bl_Tree b) = 20"
  shows "records c w' b"
proof -
  obtain w1 w2 where p: "persistState c (advance_state (Some b) (wm_state w)) w1 = (Inr (wm_state w'), w2)" and w': "w' = w2\<lparr>wm_state := wm_state w'\<rparr>"
    using under_flag_ok [OF run] by blast
  let ?st = "(advance_state (Some b) (wm_state w))\<lparr>st_Identity := wc_derivedKey c\<rparr>"
  obtain out where o: "wm_state w' = ?st" "encodeState ?st = Inr out" "wm_stateFile w2 = Some (jl_text (wc_json c) out)"
    using persist_cases [OF p] by (auto simp: Let_def)
  have "OID_String (bl_Head b) \<noteq> []" using ParseOID_String [OF b(1)] by (auto simp: ParseOID_def)
  then have "state_baseline ?st = Inr b"
    using b by (auto simp: state_baseline_def advance_state_def OID_IsZero_def)
  then have "ws_Baseline_op w' = b" by (simp add: ws_Baseline_op_def o(1))
  moreover have "\<not> demands c w2" using persist_demands(2) [OF json p refl] by (simp add: advance_state_def)
  then have "\<not> demands c w'" by (subst w') simp
  moreover have "wm_stateFile w' = wm_stateFile w2" by (subst w') simp
  ultimately show ?thesis using encoded_record [OF json o(2,3)] o(1,3) by (simp add: records_def)
qed


text \<open>The witness accepts the tree of the small workspace: \<open>b\<close> is removed and \<open>a\<close> placed.\<close>

definition small_accepted :: state where
  "small_accepted = advance_state (Some small_baseline) small_marked"

lemma small_accepted_valid: "validateState small_accepted = Inr ()" "small_accepted\<lparr>st_Identity := st_Identity small_record\<rparr> = small_accepted"
proof -
  have "\<not> OID_IsZero small_tree" by (simp add: OID_IsZero_def small_tree_def zeroOID_def)
  moreover have l: "length small_tree = 20" by (simp add: small_tree_def)
  have "OID_String small_tree \<noteq> []" using ParseOID_String [OF l] by (auto simp: ParseOID_def)
  ultimately show "validateState small_accepted = Inr ()"
    using l small_record_valid(1)
    by (simp add: small_accepted_def advance_state_def small_marked_def small_baseline_def validateState_def bindR_eq_Inr split: if_splits)
  show "small_accepted\<lparr>st_Identity := st_Identity small_record\<rparr> = small_accepted"
    by (simp add: small_accepted_def advance_state_def small_marked_def)
qed

lemma small_success:
  "\<exists>w'. ws_Accept_op (small_config (\<lambda>_. True)) True small_baseline small_wsm = (Inr (), w') \<and> wm_visible w' = [(''a'', FFile ''new''), ([], FDir)]"
proof -
  let ?c = "small_config (\<lambda>_. True)"
  have p: "persistState ?c small_accepted w = (Inr small_accepted,
      w\<lparr>wm_stateTmp := False, wm_stateFile := Some (jl_text numbering_json (Encode (state_value small_accepted))), wm_calls := wm_calls w + 5\<rparr>)" for w
    using persist_ok [of ?c small_accepted "Encode (state_value small_accepted)" w] small_accepted_valid
    by (simp add: small_fields encodeState_def)
  have "\<exists>w'. applyLocked ?c small_tree (Some small_baseline) small_wsm = (Inr (), w') \<and> wm_visible w' = [(''a'', FFile ''new''), ([], FDir)]"
    by (simp add: applyLocked_parts under_flag_def bindS_apply small_before small_mark small_place small_fields small_wsm_def getW_def
        small_accepted_def [symmetric] p modW_def)
  then show ?thesis
    by (simp add: ws_Accept_op_def withOpLock_def bindS_apply getW_def small_wsm_def small_record_def newWorkspaceState_def small_baseline_def)
qed


end
