(* ===== verification/BigEndian.thy ===== *)
theory BigEndian
  imports Prelude
begin

text \<open>
  \<open>encoding/binary\<close>'s big-endian integers over byte strings: \<open>PutUint\<close> and \<open>AppendUint\<close> write the low bytes of a
  number, most significant first, and \<open>Uint\<close> reads them back.
\<close>

type_synonym u16 = "16 word"
type_synonym u32 = "32 word"

fun big_endian :: "nat \<Rightarrow> nat \<Rightarrow> bytes" where
  "big_endian 0 n = []"
| "big_endian (Suc k) n = big_endian k (n div 256) @ [char_of n]"

definition be_nat :: "bytes \<Rightarrow> nat" where
  "be_nat bs = foldl (\<lambda>n c. n * 256 + of_char c) 0 bs"

definition PutUint16 :: "u16 \<Rightarrow> bytes" where "PutUint16 n = big_endian 2 (unat n)"
definition PutUint32 :: "u32 \<Rightarrow> bytes" where "PutUint32 n = big_endian 4 (unat n)"
definition PutUint64 :: "u64 \<Rightarrow> bytes" where "PutUint64 n = big_endian 8 (unat n)"
definition Uint16 :: "bytes \<Rightarrow> u16" where "Uint16 bs = of_nat (be_nat bs)"
definition Uint32 :: "bytes \<Rightarrow> u32" where "Uint32 bs = of_nat (be_nat bs)"
definition Uint64 :: "bytes \<Rightarrow> u64" where "Uint64 bs = of_nat (be_nat bs)"

lemma byte_bound: "of_char c < (256 :: nat)"
  by (rule nat_of_char_less_256)

lemma length_big_endian [simp]: "length (big_endian k n) = k"
  by (induction k arbitrary: n) auto

lemma be_nat_append [simp]: "be_nat (bs @ [c]) = be_nat bs * 256 + of_char c" "be_nat [] = 0"
  by (simp_all add: be_nat_def)

lemma be_nat_big_endian: "be_nat (big_endian k n) = n mod 256 ^ k"
proof (induction k arbitrary: n)
  case (Suc k)
  then show ?case unfolding power_Suc mod_mult2_eq by (simp add: of_char_of)
qed simp

lemma big_endian_be_nat: "length bs = k \<Longrightarrow> big_endian k (be_nat bs) = bs"
proof (induction k arbitrary: bs)
  case (Suc k)
  then obtain cs c where bs: "bs = cs @ [c]" "length cs = k" by (metis append_butlast_last_id length_append_singleton length_0_conv nat.distinct(1) old.nat.inject)
  have "of_char c < (256 :: nat)" by (rule byte_bound)
  moreover have "char_of (be_nat cs * 256 + of_char c) = c"
    by (simp add: char_of_eq_iff take_bit_eq_mod)
  ultimately show ?case using Suc.IH [OF bs(2)] bs by simp
qed simp

lemma be_nat_bound: "be_nat bs < 256 ^ length bs"
proof (induction bs rule: rev_induct)
  case (snoc c bs)
  have "of_char c < (256 :: nat)" by (rule byte_bound)
  moreover have "be_nat bs * 256 + 256 \<le> 256 ^ length bs * 256" using snoc by linarith
  ultimately have "be_nat bs * 256 + of_char c < 256 ^ length bs * 256" by linarith
  then show ?case by (simp add: mult.commute)
qed simp

lemma big_endian_inj: "big_endian k m = big_endian k n \<Longrightarrow> m mod 256 ^ k = n mod 256 ^ k"
  using be_nat_big_endian by metis

lemma length_PutUint [simp]: "length (PutUint16 a) = 2" "length (PutUint32 b) = 4" "length (PutUint64 c) = 8"
  by (simp_all add: PutUint16_def PutUint32_def PutUint64_def)

lemma unat_bounds: "unat (a :: u16) < 256 ^ 2" "unat (b :: u32) < 256 ^ 4" "unat (c :: u64) < 256 ^ 8"
  using unsigned_less [of a] unsigned_less [of b] unsigned_less [of c] by simp_all

lemma Uint_Put [simp]: "Uint16 (PutUint16 a) = a" "Uint32 (PutUint32 b) = b" "Uint64 (PutUint64 c) = c"
  using unat_bounds unfolding Uint16_def PutUint16_def Uint32_def PutUint32_def Uint64_def PutUint64_def be_nat_big_endian
  by (simp_all only: mod_less of_nat_unat) simp_all

lemma unat_Uint:
  "length bs = 2 \<Longrightarrow> unat (Uint16 bs) = be_nat bs" "length bs = 4 \<Longrightarrow> unat (Uint32 bs) = be_nat bs" "length bs = 8 \<Longrightarrow> unat (Uint64 bs) = be_nat bs"
  using be_nat_bound [of bs] by (simp_all add: Uint16_def Uint32_def Uint64_def unsigned_of_nat take_bit_nat_eq_self)

lemma Put_Uint:
  "length bs = 2 \<Longrightarrow> PutUint16 (Uint16 bs) = bs" "length bs = 4 \<Longrightarrow> PutUint32 (Uint32 bs) = bs" "length bs = 8 \<Longrightarrow> PutUint64 (Uint64 bs) = bs"
  by (simp_all add: PutUint16_def PutUint32_def PutUint64_def unat_Uint big_endian_be_nat)

lemma PutUint64_inj: "PutUint64 a = PutUint64 b \<longleftrightarrow> a = b"
  using Uint_Put(3) by metis

end
