(* ===== verification/WorkspaceIdentity.thy ===== *)
theory WorkspaceIdentity
  imports WorkspaceOps BigEndian
begin

text \<open>
  Where a workspace lives: the digest that binds a private directory to a visible path and a notebook
  (\<open>internal/workspace/identity.go\<close>), the containment of the visible path (\<open>path.go\<close>), and the checks of \<open>Open\<close>
  before it touches the disk.

  SHA-256 is a parameter. \<open>filepath.Clean\<close>, \<open>filepath.Rel\<close> and \<open>filepath.Join\<close> are those of a system with slashes, on
  absolute paths: every use comes after the check that the paths are absolute.
\<close>

section \<open>Identity\<close>

record Identity =
  id_Endpoint :: bytes
  id_Region :: bytes
  id_Bucket :: bytes
  id_Prefix :: bytes
  id_ManifestVersion :: u64
  id_SpaceID :: bytes

type_synonym sha_lib = "bytes \<Rightarrow> u8 list"

definition writeLengthPrefixed :: "bytes \<Rightarrow> bytes" where
  "writeLengthPrefixed s = PutUint64 (of_nat (length s)) @ s"

definition writeIdentity :: "Identity \<Rightarrow> bytes" where
  "writeIdentity ident =
     writeLengthPrefixed (id_Endpoint ident) @ writeLengthPrefixed (id_Region ident) @ writeLengthPrefixed (id_Bucket ident) @
     writeLengthPrefixed (id_Prefix ident) @ PutUint64 (id_ManifestVersion ident) @
     (if id_SpaceID ident \<noteq> [] then writeLengthPrefixed (id_SpaceID ident) else [])"

definition DerivedKey :: "sha_lib \<Rightarrow> bytes \<Rightarrow> Identity \<Rightarrow> bytes" where
  "DerivedKey sha canonicalPath ident = hex_text (sha (writeLengthPrefixed canonicalPath @ writeIdentity ident))"

definition IdentityDigest :: "sha_lib \<Rightarrow> Identity \<Rightarrow> bytes" where
  "IdentityDigest sha ident = hex_text (sha (writeIdentity ident))"

section \<open>Shared cache directory\<close>

definition sharedCacheDigestLen :: nat where
  "sharedCacheDigestLen = 16"

definition sanitizeCacheComponentMax :: nat where
  "sanitizeCacheComponentMax = 32"

text \<open>The runes \<open>strings.ToLower\<close> maps into ASCII: the capitals, the Kelvin sign and the capital dotted I.\<close>

definition lower_rune :: "nat \<Rightarrow> nat" where
  "lower_rune r = (if 65 \<le> r \<and> r \<le> 90 then r + 32 else if r = 0x212A then 107 else if r = 0x130 then 105 else r)"

definition cache_rune :: "nat \<Rightarrow> char" where
  "cache_rune r = (let l = lower_rune r in if 97 \<le> l \<and> l \<le> 122 \<or> 48 \<le> l \<and> l \<le> 57 then char_of l else CHR ''-'')"

definition sanitizeCacheComponent :: "bytes \<Rightarrow> bytes" where
  "sanitizeCacheComponent s = map (\<lambda>(r, width). cache_rune r) (take sanitizeCacheComponentMax (Runes s))"

definition SharedCacheDirName :: "sha_lib \<Rightarrow> Identity \<Rightarrow> bytes" where
  "SharedCacheDirName sha ident =
     sanitizeCacheComponent (id_Bucket ident) @ ''-'' @ sanitizeCacheComponent (id_Prefix ident) @ ''-'' @
     take sharedCacheDigestLen (IdentityDigest sha ident)"

section \<open>Absolute paths\<close>

definition IsAbs :: "bytes \<Rightarrow> bool" where
  "IsAbs path \<longleftrightarrow> HasPrefix path ''/''"

fun clean_segs :: "bytes list \<Rightarrow> bytes list \<Rightarrow> bytes list" where
  "clean_segs acc [] = rev acc"
| "clean_segs acc (s # ss) =
     (if s = [] \<or> s = ''.'' then clean_segs acc ss
      else if s = ''..'' then clean_segs (tl acc) ss
      else clean_segs (s # acc) ss)"

definition abs_segs :: "bytes \<Rightarrow> bytes list" where
  "abs_segs path = clean_segs [] (SplitOn (CHR ''/'') path)"

definition filepath_Clean :: "bytes \<Rightarrow> bytes" where
  "filepath_Clean path = CHR ''/'' # JoinOn (CHR ''/'') (abs_segs path)"

fun strip_common :: "bytes list \<Rightarrow> bytes list \<Rightarrow> bytes list \<times> bytes list" where
  "strip_common (b # bs) (t # ts) = (if b = t then strip_common bs ts else (b # bs, t # ts))"
| "strip_common bs ts = (bs, ts)"

definition filepath_Rel :: "bytes \<Rightarrow> bytes \<Rightarrow> bytes" where
  "filepath_Rel base targ =
     (case strip_common (abs_segs base) (abs_segs targ) of
        ([], []) \<Rightarrow> ''.''
      | (bs, ts) \<Rightarrow> JoinOn (CHR ''/'') (replicate (length bs) ''..'' @ ts))"

definition filepath_Join :: "bytes \<Rightarrow> bytes \<Rightarrow> bytes" where
  "filepath_Join a b = filepath_Clean (a @ ''/'' @ b)"

definition escapes :: "bytes \<Rightarrow> bool" where
  "escapes rel \<longleftrightarrow> rel = ''..'' \<or> HasPrefix rel ''../''"

datatype path_refusal = RootNotAbsolute | PathNotAbsolute | PathEscapeError bytes bytes | PrivateNotAbsolute | PrivateInside | CacheNotAbsolute | CacheInside

definition canonicalize :: "bytes \<Rightarrow> bytes \<Rightarrow> path_refusal + bytes \<times> bytes" where
  "canonicalize root path =
     (if \<not> IsAbs root then Inl RootNotAbsolute
      else if \<not> IsAbs path then Inl PathNotAbsolute
      else
        let canonical = filepath_Clean path; rel = filepath_Rel root canonical in
        if escapes rel then Inl (PathEscapeError path root) else Inr (canonical, rel))"

definition RootsOverlap :: "bytes \<Rightarrow> bytes \<Rightarrow> bool" where
  "RootsOverlap privateRoot workspaceRoot \<longleftrightarrow> \<not> escapes (filepath_Rel workspaceRoot privateRoot)"

section \<open>Opening\<close>

record Config =
  cg_WorkspaceRoot :: bytes
  cg_Path :: bytes
  cg_PrivateRoot :: bytes
  cg_PackCacheRoot :: bytes
  cg_Identity :: Identity

record layout =
  lo_canonical :: bytes
  lo_rel :: bytes
  lo_derivedKey :: bytes
  lo_privDir :: bytes
  lo_cacheDir :: bytes

text \<open>\<open>Open\<close> up to the first call that touches the disk. No cache directory is the empty string.\<close>

definition open_layout :: "sha_lib \<Rightarrow> Config \<Rightarrow> path_refusal + layout" where
  "open_layout sha cfg =
     bindR (canonicalize (cg_WorkspaceRoot cfg) (cg_Path cfg)) (\<lambda>(canonical, rel).
     if cg_PrivateRoot cfg = [] \<or> \<not> IsAbs (cg_PrivateRoot cfg) then Inl PrivateNotAbsolute
     else if RootsOverlap (cg_PrivateRoot cfg) (cg_WorkspaceRoot cfg) then Inl PrivateInside
     else if cg_PackCacheRoot cfg \<noteq> [] \<and> \<not> IsAbs (cg_PackCacheRoot cfg) then Inl CacheNotAbsolute
     else if cg_PackCacheRoot cfg \<noteq> [] \<and> RootsOverlap (cg_PackCacheRoot cfg) (cg_WorkspaceRoot cfg) then Inl CacheInside
     else
       let key = DerivedKey sha canonical (cg_Identity cfg) in
       Inr \<lparr>lo_canonical = canonical, lo_rel = rel, lo_derivedKey = key, lo_privDir = filepath_Join (cg_PrivateRoot cfg) key,
         lo_cacheDir = (if cg_PackCacheRoot cfg = [] then []
           else filepath_Join (cg_PackCacheRoot cfg) (SharedCacheDirName sha (cg_Identity cfg)))\<rparr>)"

definition splitRel :: "bytes \<Rightarrow> bytes list" where
  "splitRel rel = (if rel = ''.'' then [] else filter (\<lambda>s. s \<noteq> []) (SplitOn (CHR ''/'') rel))"

datatype lstat = NotThere | StatFails | There fs_entry

datatype component_error = ComponentSymlink bytes | ComponentHost

fun reject_walk :: "(bytes \<Rightarrow> lstat) \<Rightarrow> bytes \<Rightarrow> bytes list \<Rightarrow> component_error + unit" where
  "reject_walk lst cur [] = Inr ()"
| "reject_walk lst cur (seg # segs) =
     (let next = joinRel cur seg in
      case lst next of
        NotThere \<Rightarrow> Inr ()
      | StatFails \<Rightarrow> Inl ComponentHost
      | There e \<Rightarrow> if e = FSymlink then Inl (ComponentSymlink next) else reject_walk lst next segs)"

definition rejectSymlinkComponents :: "(bytes \<Rightarrow> lstat) \<Rightarrow> bytes \<Rightarrow> component_error + unit" where
  "rejectSymlinkComponents lst rel = reject_walk lst [] (splitRel rel)"

section \<open>Encoding\<close>

lemma prefixed_append:
  assumes "length a < 2 ^ 64" "length b < 2 ^ 64"
  shows "writeLengthPrefixed a @ x = writeLengthPrefixed b @ y \<longleftrightarrow> a = b \<and> x = y"
proof
  assume "writeLengthPrefixed a @ x = writeLengthPrefixed b @ y"
  then have n: "PutUint64 (of_nat (length a)) = PutUint64 (of_nat (length b))" "a @ x = b @ y"
    by (auto simp: writeLengthPrefixed_def)
  then have "(of_nat (length a) :: u64) = of_nat (length b)" by (simp add: PutUint64_inj)
  then have "length a = length b" using assms by (simp add: word_of_nat_eq_iff take_bit_nat_eq_self)
  then show "a = b \<and> x = y" using n(2) by simp
qed simp

definition short_identity :: "Identity \<Rightarrow> bool" where
  "short_identity ident \<longleftrightarrow> list_all (\<lambda>s. length s < 2 ^ 64)
     [id_Endpoint ident, id_Region ident, id_Bucket ident, id_Prefix ident, id_SpaceID ident]"

lemma writeIdentity_inj:
  assumes "short_identity i" "short_identity j" "writeIdentity i = writeIdentity j" shows "i = (j :: Identity)"
proof -
  let ?space = "\<lambda>k :: Identity. if id_SpaceID k \<noteq> [] then writeLengthPrefixed (id_SpaceID k) else []"
  have "id_Endpoint i = id_Endpoint j" "id_Region i = id_Region j" "id_Bucket i = id_Bucket j" "id_Prefix i = id_Prefix j"
    and "PutUint64 (id_ManifestVersion i) @ ?space i = PutUint64 (id_ManifestVersion j) @ ?space j"
    using assms by (auto simp: short_identity_def writeIdentity_def prefixed_append)
  moreover have "id_ManifestVersion i = id_ManifestVersion j" "?space i = ?space j"
    using calculation(5) by (auto simp: PutUint64_inj)
  moreover have "id_SpaceID i = id_SpaceID j"
    using calculation(7) assms prefixed_append [of "id_SpaceID i" "id_SpaceID j" "[]" "[]"]
    by (auto simp: short_identity_def writeLengthPrefixed_def split: if_splits)
  ultimately show ?thesis by simp
qed

lemma hex_text_inj: "hex_text a = hex_text b \<Longrightarrow> a = b"
proof -
  assume e: "hex_text a = hex_text b"
  have "length a = length b" using arg_cong [OF e, of length] unfolding length_hex_text by simp
  then show "a = b" using hex_loop_text [of "[]" 0 a] hex_loop_text [of "[]" 0 b] e by simp
qed

text \<open>Two bindings of a visible path to a notebook have the same private directory only if they are the same binding, or
  SHA-256 collides on the very bytes they hash: no choice of paths, names or prefixes is confused by where one
  component ends and the next begins.\<close>

theorem derived_key_binds:
  assumes "short_identity i" "short_identity j" "length p < 2 ^ 64" "length q < 2 ^ 64" "DerivedKey sha p i = DerivedKey sha q j"
  shows "p = q \<and> i = j \<or>
    (let x = writeLengthPrefixed p @ writeIdentity i; y = writeLengthPrefixed q @ writeIdentity j in x \<noteq> y \<and> sha x = sha y)"
  using assms prefixed_append [OF assms(3,4)] writeIdentity_inj [OF assms(1,2)] hex_text_inj unfolding DerivedKey_def Let_def by metis

definition small_identity :: Identity where
  "small_identity = \<lparr>id_Endpoint = ''https://s3.example'', id_Region = [], id_Bucket = ''notes'', id_Prefix = ''team'', id_ManifestVersion = 1,
     id_SpaceID = []\<rparr>"

theorem derived_key_binds_witness:
  "let x = writeLengthPrefixed ''/ws/a'' @ writeIdentity small_identity; y = writeLengthPrefixed ''/ws/b'' @ writeIdentity small_identity in
   DerivedKey (\<lambda>_. replicate 32 0) ''/ws/a'' small_identity = DerivedKey (\<lambda>_. replicate 32 0) ''/ws/b'' small_identity \<and> x \<noteq> y"
proof -
  have "short_identity small_identity" by (simp add: short_identity_def small_identity_def)
  then show ?thesis
    using derived_key_binds [of small_identity small_identity "''/ws/a''" "''/ws/b''" "\<lambda>_. replicate 32 0"]
    by (simp add: DerivedKey_def Let_def)
qed

text \<open>The name of a shared cache directory has at most 82 bytes, all of them lowercase letters, digits or hyphens.\<close>

theorem cache_name_bounded:
  "length (SharedCacheDirName sha ident) \<le> 82 \<and>
   list_all (\<lambda>c. CHR ''a'' \<le> c \<and> c \<le> CHR ''z'' \<or> CHR ''0'' \<le> c \<and> c \<le> CHR ''9'' \<or> c = CHR ''-'') (SharedCacheDirName sha ident)"
proof -
  let ?P = "\<lambda>c. CHR ''a'' \<le> c \<and> c \<le> CHR ''z'' \<or> CHR ''0'' \<le> c \<and> c \<le> CHR ''9'' \<or> c = CHR ''-''"
  have r: "?P (cache_rune r)" for r
    by (auto simp: cache_rune_def Let_def less_eq_char_def of_char_of)
  then have p: "list_all ?P (sanitizeCacheComponent s)" "length (sanitizeCacheComponent s) \<le> 32" for s
    by (auto simp: sanitizeCacheComponent_def sanitizeCacheComponentMax_def list_all_iff split: prod.split)
  have "list_all ?P ''0123456789abcdef''" by (simp add: less_eq_char_def)
  then have "list_all ?P (take n (hex_text bs))" for n bs
    using set_hex_text [of bs] set_take_subset [of n "hex_text bs"] unfolding list_all_iff by blast
  then show ?thesis
    using p(1) p(2) [of "id_Bucket ident"] p(2) [of "id_Prefix ident"]
    by (simp add: SharedCacheDirName_def sharedCacheDigestLen_def IdentityDigest_def)
qed

section \<open>Containment\<close>

definition good_seg :: "bytes \<Rightarrow> bool" where
  "good_seg s \<longleftrightarrow> s \<noteq> [] \<and> s \<noteq> ''.'' \<and> s \<noteq> ''..'' \<and> CHR ''/'' \<notin> set s"

lemma clean_segs_good: "list_all good_seg acc \<Longrightarrow> list_all (\<lambda>s. CHR ''/'' \<notin> set s) ss \<Longrightarrow> list_all good_seg (clean_segs acc ss)"
proof (induction acc ss rule: clean_segs.induct)
  case (2 acc s ss)
  then show ?case by (cases acc) (auto simp: good_seg_def)
qed (simp add: list_all_iff)

lemma abs_segs_good: "list_all good_seg (abs_segs path)"
  unfolding abs_segs_def by (rule clean_segs_good) (auto simp: list_all_iff SplitOn_segments)

lemma clean_segs_id: "list_all good_seg ss \<Longrightarrow> clean_segs acc ss = rev acc @ ss"
  by (induction ss arbitrary: acc) (auto simp: good_seg_def)

lemma SplitOn_JoinOn: "list_all (\<lambda>s. c \<notin> set s) ss \<Longrightarrow> ss \<noteq> [] \<Longrightarrow> SplitOn c (JoinOn c ss) = ss"
  by (induction c ss rule: JoinOn.induct) (auto simp: SplitOn_single SplitOn_append)

lemma abs_segs_text:
  assumes "list_all good_seg ss" shows "abs_segs (CHR ''/'' # JoinOn (CHR ''/'') ss) = ss"
proof (cases "ss = []")
  case False
  have "list_all (\<lambda>s. CHR ''/'' \<notin> set s) ss" using assms by (auto simp: list_all_iff good_seg_def)
  then show ?thesis using False clean_segs_id [OF assms, of "[]"] by (simp add: abs_segs_def SplitOn_JoinOn)
qed (simp add: abs_segs_def)

lemma abs_segs_Clean [simp]: "abs_segs (filepath_Clean path) = abs_segs path"
  unfolding filepath_Clean_def by (rule abs_segs_text [OF abs_segs_good])

lemma strip_common_parts: "strip_common bs ts = (b, t) \<Longrightarrow> \<exists>p. bs = p @ b \<and> ts = p @ t \<and> (b = [] \<or> t = [] \<or> hd b \<noteq> hd t)"
proof (induction bs ts rule: strip_common.induct)
  case (1 x bs y ts)
  then show ?case by (auto split: if_splits)
qed auto

lemma strip_common_prefix: "strip_common bs (bs @ ts) = ([], ts)"
  by (induction bs) (cases ts; simp)+

lemma escapes_join: "list_all good_seg ts \<Longrightarrow> escapes (JoinOn (CHR ''/'') (replicate n ''..'' @ ts)) \<longleftrightarrow> 0 < n"
proof (cases n)
  case 0
  assume "list_all good_seg ts"
  then show ?thesis
    unfolding 0 escapes_def HasPrefix_iff prefix_def
    by (cases "(CHR ''/'', ts)" rule: JoinOn.cases) (auto simp: good_seg_def Cons_eq_append_conv append_eq_Cons_conv)
next
  case (Suc m)
  show ?thesis unfolding Suc escapes_def HasPrefix_iff prefix_def by (cases "replicate m ''..'' @ ts") auto
qed

text \<open>The directory \<open>d\<close> is the path, or above it.\<close>

definition at_or_above :: "bytes \<Rightarrow> bytes \<Rightarrow> bool" where
  "at_or_above d path \<longleftrightarrow> prefix (abs_segs d) (abs_segs path)"

lemma Rel_cases:
  "filepath_Rel base targ =
     (let (b, t) = strip_common (abs_segs base) (abs_segs targ) in
      if b = [] \<and> t = [] then ''.'' else JoinOn (CHR ''/'') (replicate (length b) ''..'' @ t))"
  by (simp add: filepath_Rel_def split: prod.split list.split)

lemma Rel_inside: "escapes (filepath_Rel base targ) \<longleftrightarrow> \<not> at_or_above base targ"
proof -
  obtain b t where bt: "strip_common (abs_segs base) (abs_segs targ) = (b, t)" by fastforce
  obtain p where p: "abs_segs base = p @ b" "abs_segs targ = p @ t" "b = [] \<or> t = [] \<or> hd b \<noteq> hd t"
    using strip_common_parts [OF bt] by blast
  have "list_all good_seg t" using abs_segs_good [of targ] p(2) by simp
  then have "escapes (filepath_Rel base targ) \<longleftrightarrow> b \<noteq> []"
    using escapes_join [of t "length b"] by (auto simp: Rel_cases bt escapes_def HasPrefix_def)
  moreover have "at_or_above base targ \<longleftrightarrow> b = []"
    using p by (cases b; cases t) (auto simp: at_or_above_def)
  ultimately show ?thesis by simp
qed

text \<open>\<open>canonicalize\<close> accepts exactly the absolute paths at or below an absolute root. What it returns is the cleaned
  path and the segments it has below the root, none of which is empty, \<open>.\<close> or \<open>..\<close>.\<close>

theorem canonicalize_exact:
  "canonicalize root path = Inr (canonical, rel) \<longleftrightarrow>
     IsAbs root \<and> IsAbs path \<and>
     (\<exists>ts. abs_segs path = abs_segs root @ ts \<and> list_all good_seg ts \<and> canonical = CHR ''/'' # JoinOn (CHR ''/'') (abs_segs root @ ts) \<and>
       rel = (if ts = [] then ''.'' else JoinOn (CHR ''/'') ts))"
proof -
  have iff: "canonicalize root path = Inr (canonical, rel) \<longleftrightarrow>
      IsAbs root \<and> IsAbs path \<and> at_or_above root path \<and> canonical = filepath_Clean path \<and> rel = filepath_Rel root (filepath_Clean path)"
    using Rel_inside [of root "filepath_Clean path"] by (auto simp: canonicalize_def Let_def at_or_above_def)
  have rel: "filepath_Rel root (filepath_Clean path) = (if ts = [] then ''.'' else JoinOn (CHR ''/'') ts)" if "abs_segs path = abs_segs root @ ts" for ts
    using that by (simp add: Rel_cases strip_common_prefix)
  have good: "list_all good_seg ts" if "abs_segs path = abs_segs root @ ts" for ts
    using abs_segs_good [of path] that by simp
  show ?thesis
  proof
    assume "canonicalize root path = Inr (canonical, rel)"
    then obtain ts where ts: "abs_segs path = abs_segs root @ ts" and "IsAbs root" "IsAbs path" "canonical = filepath_Clean path"
      "rel = filepath_Rel root (filepath_Clean path)" unfolding iff at_or_above_def prefix_def by blast
    then show "IsAbs root \<and> IsAbs path \<and> (\<exists>ts. abs_segs path = abs_segs root @ ts \<and> list_all good_seg ts \<and>
        canonical = CHR ''/'' # JoinOn (CHR ''/'') (abs_segs root @ ts) \<and> rel = (if ts = [] then ''.'' else JoinOn (CHR ''/'') ts))"
      using rel [OF ts] good [OF ts] by (intro conjI exI [of _ ts]) (simp_all add: filepath_Clean_def)
  next
    assume r: "IsAbs root \<and> IsAbs path \<and> (\<exists>ts. abs_segs path = abs_segs root @ ts \<and> list_all good_seg ts \<and>
        canonical = CHR ''/'' # JoinOn (CHR ''/'') (abs_segs root @ ts) \<and> rel = (if ts = [] then ''.'' else JoinOn (CHR ''/'') ts))"
    then obtain ts where ts: "abs_segs path = abs_segs root @ ts" "canonical = CHR ''/'' # JoinOn (CHR ''/'') (abs_segs root @ ts)"
      "rel = (if ts = [] then ''.'' else JoinOn (CHR ''/'') ts)" by blast
    then show "canonicalize root path = Inr (canonical, rel)"
      unfolding iff using r rel [OF ts(1)] by (simp add: at_or_above_def filepath_Clean_def)
  qed
qed

lemma clean_segs_append: "clean_segs acc (xs @ ys) = clean_segs (rev (clean_segs acc xs)) ys"
  by (induction acc xs rule: clean_segs.induct) auto

lemma abs_segs_Join: "good_seg key \<Longrightarrow> abs_segs (filepath_Join dir key) = abs_segs dir @ [key]"
  unfolding filepath_Join_def abs_segs_Clean
  by (simp add: abs_segs_def SplitOn_slash SplitOn_single clean_segs_append) (auto simp: good_seg_def SplitOn_single)

lemma derived_key_good: "(\<And>x. length (sha x) = 32) \<Longrightarrow> good_seg (DerivedKey sha p ident)"
proof -
  assume l: "\<And>x. length (sha x) = 32"
  have n: "length (DerivedKey sha p ident) = 64" by (simp add: DerivedKey_def l)
  have "CHR ''/'' \<notin> set (hex_text bs)" for bs using set_hex_text [of bs] by auto
  then show ?thesis using n by (auto simp: good_seg_def) (auto simp: DerivedKey_def)
qed

text \<open>Where \<open>Open\<close> goes on, the private directory and the shared cache are outside the visible directory: one of them can
  be in it only as that very directory, whose own name would be a digest of its path.\<close>

theorem private_outside_visible:
  assumes "\<And>x. length (sha x) = 32" "open_layout sha cfg = Inr lay" "at_or_above (lo_canonical lay) (lo_privDir lay)"
  shows "abs_segs (lo_privDir lay) = abs_segs (lo_canonical lay) \<and>
    abs_segs (lo_canonical lay) = abs_segs (cg_PrivateRoot cfg) @ [DerivedKey sha (lo_canonical lay) (cg_Identity cfg)]"
proof -
  let ?priv = "abs_segs (cg_PrivateRoot cfg)" and ?key = "DerivedKey sha (lo_canonical lay) (cg_Identity cfg)"
  obtain rel where c: "canonicalize (cg_WorkspaceRoot cfg) (cg_Path cfg) = Inr (lo_canonical lay, rel)"
    and out: "\<not> at_or_above (cg_WorkspaceRoot cfg) (cg_PrivateRoot cfg)" and d: "lo_privDir lay = filepath_Join (cg_PrivateRoot cfg) ?key"
    using assms(2) by (auto simp: open_layout_def bindR_eq_Inr Let_def RootsOverlap_def Rel_inside split: if_splits)
  obtain ts where ts: "abs_segs (lo_canonical lay) = abs_segs (cg_WorkspaceRoot cfg) @ ts"
    using c unfolding canonicalize_def Let_def
    by (auto simp: Rel_inside at_or_above_def prefix_def split: if_splits) (metis abs_segs_Clean)
  have "abs_segs (lo_privDir lay) = ?priv @ [?key]"
    using abs_segs_Join [OF derived_key_good [OF assms(1)]] by (simp add: d)
  then show ?thesis
    using assms(3) ts out by (auto simp: at_or_above_def dest: append_prefixD)
qed

theorem private_outside_visible_witness:
  "\<exists>lay. open_layout (\<lambda>_. replicate 32 0) \<lparr>cg_WorkspaceRoot = ''/p/'' @ replicate 64 (CHR ''0''), cg_Path = ''/p/'' @ replicate 64 (CHR ''0''),
      cg_PrivateRoot = ''/p'', cg_PackCacheRoot = [], cg_Identity = small_identity\<rparr> = Inr lay \<and>
    abs_segs (lo_privDir lay) = abs_segs (lo_canonical lay)"
proof -
  let ?sha = "\<lambda>_ :: bytes. replicate 32 (0 :: u8)" and ?ws = "''/p/'' @ replicate 64 (CHR ''0'')"
  let ?cfg = "\<lparr>cg_WorkspaceRoot = ?ws, cg_Path = ?ws, cg_PrivateRoot = ''/p'', cg_PackCacheRoot = [], cg_Identity = small_identity\<rparr>"
  have k: "DerivedKey ?sha p small_identity = replicate 64 (CHR ''0'')" for p
    unfolding DerivedKey_def by code_simp
  have s: "abs_segs ?ws = [''p'', replicate 64 (CHR ''0'')]" "abs_segs ''/p'' = [''p'']" by code_simp+
  have e: "\<not> escapes (filepath_Rel ?ws (filepath_Clean ?ws))" "escapes (filepath_Rel ?ws ''/p'')"
    by (simp_all only: Rel_inside at_or_above_def abs_segs_Clean s) simp_all
  obtain lay where lay: "open_layout ?sha ?cfg = Inr lay" "lo_canonical lay = filepath_Clean ?ws" "lo_privDir lay = filepath_Join ''/p'' (replicate 64 (CHR ''0''))"
    using e by (simp add: open_layout_def canonicalize_def RootsOverlap_def IsAbs_def HasPrefix_def Let_def k)
  have "abs_segs (lo_privDir lay) = [''p'', replicate 64 (CHR ''0'')]"
    unfolding lay(3) filepath_Join_def abs_segs_Clean by code_simp
  then have "at_or_above (lo_canonical lay) (lo_privDir lay)" by (simp only: at_or_above_def lay(2) abs_segs_Clean s prefix_order.refl)
  then show ?thesis using private_outside_visible [OF _ lay(1)] lay(1) by (metis length_replicate)
qed

end
