(* ===== verification/Envelope.thy ===== *)
theory Envelope
  imports BigEndian CurrentWrapper
begin

text \<open>
  The envelope of an encrypted object (\<open>internal/crypt/envelope.go\<close> and the encodings of \<open>header.go\<close>): preamble, header
  with doors and extensions, commitment, and the payload in authenticated records.

  The primitives are the parameter \<open>crypt_lib\<close>: XChaCha20-Poly1305, HKDF-SHA-256, HMAC-SHA-256 and Argon2id, on keys and
  nonces of their fixed sizes. The header reader of the code keeps its first error and returns zeros after it;
  every value it returned is used only after the error was checked, or was read where the length was checked,
  so here a failed read ends the decoding.

  A slice outside its array is the error \<open>CryptPanic\<close>.
\<close>

section \<open>Layout\<close>

datatype crypt_error =
    ErrMalformedEnvelope
  | ErrUnsupportedFormat
  | ErrAuthentication
  | ErrEnvelopeTooLarge
  | ErrKeyRejected
  | ErrKeyringLocked
  | ErrCandidateLimit
  | ErrKDFParams
  | ErrSecretBounds
  | ErrKDFGate
  | CryptCancelled
  | CryptRandom
  | CryptDerive
  | CryptPanic

definition magicSize :: nat where "magicSize = 8"
definition preambleSize :: nat where "preambleSize = magicSize + 2 + 1 + 4"
definition coreSize :: nat where "coreSize = 4 + 8 + 16"
definition commitmentSize :: nat where "commitmentSize = 32"
definition tagSize :: nat where "tagSize = 16"
definition doorBodySize :: nat where "doorBodySize = 16 + 4 + 4 + 1 + 24 + 48"
definition magic :: bytes where "magic = ''SLIVENC'' @ [CHR 0x00]"
definition formatVersion :: u16 where "formatVersion = 1"
definition DefaultChunkSize :: u32 where "DefaultChunkSize = push_bit 10 64"
definition MaxHeaderLength :: nat where "MaxHeaderLength = 2 ^ 20"

lemmas sizes = magicSize_def preambleSize_def coreSize_def commitmentSize_def tagSize_def doorBodySize_def

type_synonym ObjectKind = u8
type_synonym DoorType = u8

definition KindCurrent :: ObjectKind where "KindCurrent = 1"
definition KindPack :: ObjectKind where "KindPack = 2"
definition DoorPassphrase :: DoorType where "DoorPassphrase = 1"
definition DoorRecovery :: DoorType where "DoorRecovery = 2"
definition kdfIDArgon2id :: u8 where "kdfIDArgon2id = 1"

definition kind_supported :: "ObjectKind \<Rightarrow> bool" where
  "kind_supported k \<longleftrightarrow> k = KindCurrent \<or> k = KindPack"

definition byte_of :: "u8 \<Rightarrow> bytes" where "byte_of b = [char_of (unat b)]"
definition u8_of :: "char \<Rightarrow> u8" where "u8_of c = of_nat (of_char c)"

record KDFParams =
  kp_MemoryKiB :: u32
  kp_Iterations :: u32
  kp_Parallelism :: u8

record Door =
  dr_Type :: DoorType
  dr_KDFID :: u8
  dr_Salt :: bytes
  dr_Params :: KDFParams
  dr_Nonce :: bytes
  dr_WrappedKey :: bytes

record Extension =
  ex_Type :: u16
  ex_Value :: bytes

record Header =
  hd_FormatVersion :: u16
  hd_Kind :: ObjectKind
  hd_ChunkSize :: u32
  hd_PlaintextSize :: u64
  hd_NoncePrefix :: bytes
  hd_Doors :: "Door list"
  hd_Extensions :: "Extension list"
  hd_Commitment :: bytes

record parsed =
  ps_header :: Header
  ps_body :: bytes
  ps_knownDoors :: "Door list"
  ps_unknownDoors :: "bytes list"
  ps_payload :: bytes

definition Header_core :: "Header \<Rightarrow> bytes" where
  "Header_core h = PutUint32 (hd_ChunkSize h) @ PutUint64 (hd_PlaintextSize h) @ hd_NoncePrefix h"

section \<open>Reading\<close>

definition rd_take :: "nat \<Rightarrow> bytes \<Rightarrow> crypt_error + bytes \<times> bytes" where
  "rd_take n b = (if n \<le> length b then Inr (take n b, drop n b) else Inl ErrMalformedEnvelope)"

definition rd_u8 :: "bytes \<Rightarrow> crypt_error + u8 \<times> bytes" where
  "rd_u8 b = (case b of [] \<Rightarrow> Inl ErrMalformedEnvelope | c # cs \<Rightarrow> Inr (u8_of c, cs))"

definition rd_u16 :: "bytes \<Rightarrow> crypt_error + u16 \<times> bytes" where
  "rd_u16 b = bindR (rd_take 2 b) (\<lambda>(x, r). Inr (Uint16 x, r))"

definition rd_u32 :: "bytes \<Rightarrow> crypt_error + u32 \<times> bytes" where
  "rd_u32 b = bindR (rd_take 4 b) (\<lambda>(x, r). Inr (Uint32 x, r))"

definition rd_u64 :: "bytes \<Rightarrow> crypt_error + u64 \<times> bytes" where
  "rd_u64 b = bindR (rd_take 8 b) (\<lambda>(x, r). Inr (Uint64 x, r))"

definition decodeDoorBody :: "DoorType \<Rightarrow> u8 \<Rightarrow> bytes \<Rightarrow> Door" where
  "decodeDoorBody doorType kdfID body =
     \<lparr>dr_Type = doorType, dr_KDFID = kdfID, dr_Salt = take 16 body,
      dr_Params = \<lparr>kp_MemoryKiB = Uint32 (take 4 (drop 16 body)), kp_Iterations = Uint32 (take 4 (drop 20 body)),
        kp_Parallelism = u8_of (body ! 24)\<rparr>,
      dr_Nonce = take 24 (drop 25 body), dr_WrappedKey = take 48 (drop 49 body)\<rparr>"

text \<open>The doors of known types, the records of the others, and what follows.\<close>

fun decodeDoors :: "nat \<Rightarrow> bytes \<Rightarrow> crypt_error + Door list \<times> bytes list \<times> bytes" where
  "decodeDoors 0 b = Inr ([], [], b)"
| "decodeDoors (Suc n) b =
     bindR (rd_u8 b) (\<lambda>(doorType, b1).
     bindR (rd_u8 b1) (\<lambda>(kdfID, b2).
     bindR (rd_u16 b2) (\<lambda>(l, b3).
     bindR (rd_take (unat l) b3) (\<lambda>(body, b4).
     if doorType \<noteq> DoorPassphrase \<and> doorType \<noteq> DoorRecovery then
       bindR (decodeDoors n b4) (\<lambda>(ds, us, rest). Inr (ds, take (length b - length b4) b # us, rest))
     else if kdfID \<noteq> kdfIDArgon2id then Inl ErrUnsupportedFormat
     else if length body \<noteq> doorBodySize then Inl ErrMalformedEnvelope
     else bindR (decodeDoors n b4) (\<lambda>(ds, us, rest). Inr (decodeDoorBody doorType kdfID body # ds, us, rest))))))"

fun decodeExtensions :: "nat \<Rightarrow> u16 list \<Rightarrow> bytes \<Rightarrow> crypt_error + Extension list \<times> bytes" where
  "decodeExtensions 0 met_types b = Inr ([], b)"
| "decodeExtensions (Suc n) met_types b =
     bindR (rd_u16 b) (\<lambda>(extensionType, b1).
     bindR (rd_u16 b1) (\<lambda>(l, b2).
     bindR (rd_take (unat l) b2) (\<lambda>(v, b3).
     if extensionType \<in> set met_types then Inl ErrMalformedEnvelope
     else bindR (decodeExtensions n (extensionType # met_types) b3) (\<lambda>(es, rest).
       Inr (\<lparr>ex_Type = extensionType, ex_Value = v\<rparr> # es, rest)))))"

text \<open>\<open>decodeHeader\<close> fills everything but the payload.\<close>

definition decodeHeader :: "bytes \<Rightarrow> ObjectKind \<Rightarrow> bytes \<Rightarrow> crypt_error + parsed" where
  "decodeHeader hdr kind payload =
     (if length hdr < coreSize + 2 + commitmentSize then Inl ErrMalformedEnvelope
      else
        bindR (rd_u32 hdr) (\<lambda>(chunkSize, b1).
        if chunkSize \<noteq> DefaultChunkSize then Inl ErrUnsupportedFormat
        else
          bindR (rd_u64 b1) (\<lambda>(plaintextSize, b2).
          bindR (rd_take 16 b2) (\<lambda>(noncePrefix, b3).
          bindR (rd_u8 b3) (\<lambda>(doors, b4).
          bindR (decodeDoors (unat doors) b4) (\<lambda>(known, unknown, b5).
          bindR (rd_u8 b5) (\<lambda>(extensions, b6).
          bindR (decodeExtensions (unat extensions) [] b6) (\<lambda>(exts, rest).
          if length rest \<noteq> commitmentSize then Inl ErrMalformedEnvelope
          else Inr \<lparr>ps_header = \<lparr>hd_FormatVersion = formatVersion, hd_Kind = kind, hd_ChunkSize = chunkSize,
                 hd_PlaintextSize = plaintextSize, hd_NoncePrefix = noncePrefix, hd_Doors = known, hd_Extensions = exts,
                 hd_Commitment = rest\<rparr>,
               ps_body = take (length hdr - commitmentSize) hdr, ps_knownDoors = known, ps_unknownDoors = unknown,
               ps_payload = payload\<rparr>))))))))"

definition data_records :: "u64 \<Rightarrow> u32 \<Rightarrow> u64" where
  "data_records plaintextSize chunkSize = (plaintextSize + ucast chunkSize - 1) div ucast chunkSize"

definition checkPayloadLength :: "u64 \<Rightarrow> u32 \<Rightarrow> nat \<Rightarrow> crypt_error + unit" where
  "checkPayloadLength plaintextSize chunkSize payloadLength =
     (if plaintextSize > of_nat payloadLength then Inl ErrMalformedEnvelope
      else if plaintextSize + (data_records plaintextSize chunkSize + 1) * of_nat tagSize \<noteq> of_nat payloadLength
        then Inl ErrMalformedEnvelope
      else Inr ())"

definition decodeEnvelope :: "bytes \<Rightarrow> crypt_error + parsed" where
  "decodeEnvelope raw =
     (if length raw < preambleSize then Inl ErrMalformedEnvelope
      else if take magicSize raw \<noteq> magic then Inl ErrMalformedEnvelope
      else if Uint16 (take 2 (drop magicSize raw)) \<noteq> formatVersion then Inl ErrUnsupportedFormat
      else
        let kind = u8_of (raw ! (magicSize + 2)); headerLength = unat (Uint32 (take 4 (drop (magicSize + 3) raw))) in
        if \<not> kind_supported kind then Inl ErrUnsupportedFormat
        else if headerLength > MaxHeaderLength then Inl ErrMalformedEnvelope
        else if preambleSize + headerLength > length raw then Inl ErrMalformedEnvelope
        else
          bindR (decodeHeader (take headerLength (drop preambleSize raw)) kind (drop (preambleSize + headerLength) raw)) (\<lambda>p.
          bindR (checkPayloadLength (hd_PlaintextSize (ps_header p)) (hd_ChunkSize (ps_header p)) (length (ps_payload p))) (\<lambda>_.
          Inr p)))"

section \<open>Writing\<close>

definition encodeDoorBody :: "Door \<Rightarrow> bytes" where
  "encodeDoorBody d = dr_Salt d @ PutUint32 (kp_MemoryKiB (dr_Params d)) @ PutUint32 (kp_Iterations (dr_Params d)) @
     byte_of (kp_Parallelism (dr_Params d)) @ dr_Nonce d @ dr_WrappedKey d"

definition encodeDoorRecord :: "Door \<Rightarrow> crypt_error + bytes" where
  "encodeDoorRecord d =
     (if dr_Type d \<noteq> DoorPassphrase \<and> dr_Type d \<noteq> DoorRecovery then Inl ErrUnsupportedFormat
      else if dr_KDFID d \<noteq> kdfIDArgon2id then Inl ErrUnsupportedFormat
      else
        let body = encodeDoorBody d in
        Inr (byte_of (dr_Type d) @ byte_of (dr_KDFID d) @ PutUint16 (of_nat (length body)) @ body))"

fun encodeDoorRecords :: "Door list \<Rightarrow> crypt_error + bytes list" where
  "encodeDoorRecords [] = Inr []"
| "encodeDoorRecords (d # ds) = bindR (encodeDoorRecord d) (\<lambda>r. bindR (encodeDoorRecords ds) (\<lambda>rs. Inr (r # rs)))"

definition encodeDoorSection :: "bytes list \<Rightarrow> crypt_error + bytes" where
  "encodeDoorSection records =
     (if length records > 0xFF then Inl ErrUnsupportedFormat
      else Inr (byte_of (of_nat (length records)) @ concat records))"

fun encodeExtensions :: "Extension list \<Rightarrow> crypt_error + bytes" where
  "encodeExtensions [] = Inr []"
| "encodeExtensions (e # es) =
     (if length (ex_Value e) > 0xFFFF then Inl ErrMalformedEnvelope
      else bindR (encodeExtensions es) (\<lambda>rest.
        Inr (PutUint16 (ex_Type e) @ PutUint16 (of_nat (length (ex_Value e))) @ ex_Value e @ rest)))"

definition encodeExtensionSection :: "Extension list \<Rightarrow> crypt_error + bytes" where
  "encodeExtensionSection extensions =
     (if length extensions > 0xFF then Inl ErrUnsupportedFormat
      else bindR (encodeExtensions extensions) (\<lambda>out. Inr (byte_of (of_nat (length extensions)) @ out)))"

record crypt_lib =
  cl_Seal :: "bytes \<Rightarrow> bytes \<Rightarrow> bytes \<Rightarrow> bytes \<Rightarrow> bytes"
  cl_Open :: "bytes \<Rightarrow> bytes \<Rightarrow> bytes \<Rightarrow> bytes \<Rightarrow> bytes option"
  cl_MAC :: "bytes \<Rightarrow> bytes \<Rightarrow> bytes"
  cl_HKDF :: "bytes \<Rightarrow> bytes \<Rightarrow> bytes option"
  cl_Argon2id :: "bytes \<Rightarrow> bytes \<Rightarrow> u32 \<Rightarrow> u32 \<Rightarrow> u8 \<Rightarrow> bytes"

definition encodeObjectKey :: "bytes \<Rightarrow> crypt_error + bytes" where
  "encodeObjectKey objectKey =
     (if objectKey = [] then Inl ErrMalformedEnvelope
      else if length objectKey > 0xFFFF then Inl ErrMalformedEnvelope
      else if list_ex (\<lambda>c. (of_char c :: nat) \<ge> 0x80) objectKey then Inl ErrMalformedEnvelope
      else Inr (PutUint16 (of_nat (length objectKey)) @ objectKey))"

definition deriveKey :: "crypt_lib \<Rightarrow> bytes \<Rightarrow> bytes \<Rightarrow> bytes \<Rightarrow> crypt_error + bytes" where
  "deriveKey L key purpose encodedKey =
     ofOption CryptDerive (cl_HKDF L key (''slivingdoc/envelope/v1/'' @ purpose @ [CHR 0x00] @ encodedKey))"

definition headerPurpose :: bytes where "headerPurpose = ''header-mac''"
definition payloadPurpose :: bytes where "payloadPurpose = ''payload-aead''"

definition headerCommitment :: "crypt_lib \<Rightarrow> bytes \<Rightarrow> ObjectKind \<Rightarrow> bytes \<Rightarrow> bytes \<Rightarrow> bytes" where
  "headerCommitment L macKey kind encodedKey body =
     cl_MAC L macKey (''slivingdoc/envelope/header/v1'' @ [CHR 0x00] @ PutUint16 formatVersion @ byte_of kind @ encodedKey @ body)"

definition encodeHeader :: "crypt_lib \<Rightarrow> ObjectKind \<Rightarrow> bytes \<Rightarrow> bytes \<Rightarrow> bytes \<Rightarrow> bytes \<Rightarrow> bytes \<Rightarrow> crypt_error + bytes" where
  "encodeHeader L kind core doorSection extensionSection macKey encodedKey =
     (let body = core @ doorSection @ extensionSection in
      if length body + commitmentSize > MaxHeaderLength then Inl ErrMalformedEnvelope
      else Inr (body @ headerCommitment L macKey kind encodedKey body))"

definition assembleEnvelope :: "ObjectKind \<Rightarrow> bytes \<Rightarrow> bytes \<Rightarrow> bytes" where
  "assembleEnvelope kind header payload =
     magic @ PutUint16 formatVersion @ byte_of kind @ PutUint32 (of_nat (length header)) @ header @ payload"

definition checkCurrentSize :: "nat \<Rightarrow> crypt_error + unit" where
  "checkCurrentSize n = (if WrappedCurrentSize n > CurrentEnvelopeLimit then Inl ErrEnvelopeTooLarge else Inr ())"

section \<open>Payload\<close>

definition recordData :: u8 where "recordData = 1"
definition recordFinal :: u8 where "recordFinal = 2"

definition payloadAD :: "ObjectKind \<Rightarrow> bytes \<Rightarrow> bytes \<Rightarrow> u8 \<Rightarrow> u64 \<Rightarrow> u32 \<Rightarrow> bytes" where
  "payloadAD kind encodedKey core recordType counter plaintextLength =
     ''slivingdoc/envelope/payload/v1'' @ [CHR 0x00] @ PutUint16 formatVersion @ byte_of kind @ encodedKey @ core @
     byte_of recordType @ PutUint64 counter @ PutUint32 plaintextLength"

text \<open>Record \<open>i\<close> of a plaintext: its bounds, its nonce.\<close>

definition chunk :: "nat \<Rightarrow> bytes \<Rightarrow> nat \<Rightarrow> bytes" where
  "chunk n plaintext i = take n (drop (i * n) plaintext)"

definition record_nonce :: "bytes \<Rightarrow> nat \<Rightarrow> bytes" where
  "record_nonce noncePrefix i = noncePrefix @ PutUint64 (of_nat i)"

definition sealPayload :: "crypt_lib \<Rightarrow> bytes \<Rightarrow> ObjectKind \<Rightarrow> bytes \<Rightarrow> bytes \<Rightarrow> bytes \<Rightarrow> u32 \<Rightarrow> bytes \<Rightarrow> bytes" where
  "sealPayload L aeadKey kind encodedKey core noncePrefix chunkSize plaintext =
     (let n = unat (data_records (of_nat (length plaintext)) chunkSize) in
      concat (map (\<lambda>i. let c = chunk (unat chunkSize) plaintext i in
        cl_Seal L aeadKey (record_nonce noncePrefix i) (payloadAD kind encodedKey core recordData (of_nat i) (of_nat (length c))) c) [0..<n]) @
      cl_Seal L aeadKey (record_nonce noncePrefix n) (payloadAD kind encodedKey core recordFinal (of_nat n) 0) [])"

definition slice :: "nat \<Rightarrow> nat \<Rightarrow> bytes \<Rightarrow> crypt_error + bytes" where
  "slice i j b = (if i \<le> j \<and> j \<le> length b then Inr (take (j - i) (drop i b)) else Inl CryptPanic)"

definition openPayload :: "crypt_lib \<Rightarrow> bytes \<Rightarrow> ObjectKind \<Rightarrow> bytes \<Rightarrow> bytes \<Rightarrow> bytes \<Rightarrow> u64 \<Rightarrow> bytes \<Rightarrow> u32 \<Rightarrow> crypt_error + bytes" where
  "openPayload L aeadKey kind encodedKey core payload plaintextSize noncePrefix chunkSize =
     (let n = unat (data_records plaintextSize chunkSize) in
      bindR (foldR (\<lambda>i (plaintext, offset).
        let len = (if Suc i = n then unat (plaintextSize - of_nat i * ucast chunkSize) else unat chunkSize) in
        bindR (slice offset (offset + len + tagSize) payload) (\<lambda>rec.
        case cl_Open L aeadKey (record_nonce noncePrefix i) (payloadAD kind encodedKey core recordData (of_nat i) (of_nat len)) rec of
          None \<Rightarrow> Inl ErrAuthentication
        | Some p \<Rightarrow> Inr (plaintext @ p, offset + len + tagSize))) [0..<n] ([], 0)) (\<lambda>(plaintext, offset).
      bindR (slice offset (length payload) payload) (\<lambda>rec.
      case cl_Open L aeadKey (record_nonce noncePrefix n) (payloadAD kind encodedKey core recordFinal (of_nat n) 0) rec of
        None \<Rightarrow> Inl ErrAuthentication
      | Some _ \<Rightarrow> Inr plaintext)))"

section \<open>The primitives\<close>

text \<open>A ciphertext opens exactly when it is the sealing of what it opens to: the cipher is a stream cipher under a
  deterministic tag. HKDF gives 32 bytes from a 32-byte key.\<close>

locale primitives =
  fixes L :: crypt_lib
  assumes open_seal: "length k = 32 \<Longrightarrow> length nonce = 24 \<Longrightarrow> cl_Open L k nonce ad c = Some p \<longleftrightarrow> c = cl_Seal L k nonce ad p"
    and seal_length: "length (cl_Seal L k nonce ad p) = length p + 16"
    and mac_length: "length (cl_MAC L k m) = 32"
    and hkdf: "length k = 32 \<Longrightarrow> \<exists>d. cl_HKDF L k info = Some d \<and> length d = 32"
    and argon: "length (cl_Argon2id L secret salt iterations memory lanes) = 32"

text \<open>An instance whose tags and keys are byte sums, which shows that the laws can hold together.\<close>

definition byte_sum :: "bytes \<Rightarrow> nat" where "byte_sum m = sum_list (map of_char m)"

definition checksum_seal :: "bytes \<Rightarrow> bytes \<Rightarrow> bytes \<Rightarrow> bytes \<Rightarrow> bytes" where
  "checksum_seal k nonce ad p = p @ big_endian 16 (byte_sum (k @ nonce @ ad @ p))"

definition checksum_crypt :: crypt_lib where
  "checksum_crypt = \<lparr>cl_Seal = checksum_seal,
     cl_Open = (\<lambda>k nonce ad c. let p = take (length c - 16) c in if c = checksum_seal k nonce ad p then Some p else None),
     cl_MAC = (\<lambda>k m. big_endian 32 (byte_sum (k @ m))),
     cl_HKDF = (\<lambda>k info. Some (big_endian 32 (byte_sum (k @ info)))),
     cl_Argon2id = (\<lambda>secret salt i m l. big_endian 32 (byte_sum (secret @ salt) + unat i + unat m + unat l))\<rparr>"

interpretation checksum: primitives checksum_crypt
  by unfold_locales (auto simp: checksum_crypt_def checksum_seal_def Let_def)

section \<open>Reading what was written\<close>

lemma u8_of_char [simp]: "u8_of (char_of (unat b)) = b"
proof -
  have "unat b < 256" using unsigned_less [of b] by simp
  then have "unat b mod 256 = unat b" by simp
  then show ?thesis unfolding u8_of_def of_char_of by (simp only: of_nat_unat) simp
qed

lemma length_byte_of [simp]: "length (byte_of b) = 1"
  by (simp add: byte_of_def)

lemma reads [simp]:
  "rd_u8 (byte_of b @ r) = Inr (b, r)" "rd_take (length x) (x @ r) = Inr (x, r)"
  "rd_u16 (PutUint16 v @ r) = Inr (v, r)" "rd_u32 (PutUint32 w @ r) = Inr (w, r)" "rd_u64 (PutUint64 z @ r) = Inr (z, r)"
  by (simp_all add: rd_u8_def byte_of_def rd_take_def rd_u16_def rd_u32_def rd_u64_def)

lemma reads_cons [simp]: "rd_u8 (char_of (unat b) # r) = Inr (b, r)"
  by (simp add: rd_u8_def)

definition door_typed :: "Door \<Rightarrow> bool" where
  "door_typed d \<longleftrightarrow> length (dr_Salt d) = 16 \<and> length (dr_Nonce d) = 24 \<and> length (dr_WrappedKey d) = 48"

lemma decodeDoorBody_encode:
  assumes "door_typed d" shows "decodeDoorBody (dr_Type d) (dr_KDFID d) (encodeDoorBody d) = d"
  using assms by (cases d; cases "dr_Params d") (simp add: door_typed_def decodeDoorBody_def encodeDoorBody_def byte_of_def nth_append)

lemma length_encodeDoorBody: "door_typed d \<Longrightarrow> length (encodeDoorBody d) = doorBodySize"
  by (simp add: door_typed_def encodeDoorBody_def doorBodySize_def)

lemma unat_of_nat_u16: "n < 2 ^ 16 \<Longrightarrow> unat (of_nat n :: u16) = n"
  by (simp add: unsigned_of_nat take_bit_nat_eq_self)

text \<open>A door record of a type this build does not know.\<close>

definition opaque_record :: "bytes \<Rightarrow> bool" where
  "opaque_record u \<longleftrightarrow> (\<exists>t k body. u = byte_of t @ byte_of k @ PutUint16 (of_nat (length body)) @ body \<and> length body < 2 ^ 16 \<and>
     t \<noteq> DoorPassphrase \<and> t \<noteq> DoorRecovery)"

lemma decodeDoors_opaque:
  assumes "opaque_record u" "decodeDoors n rest = Inr (ds, us, r)"
  shows "decodeDoors (Suc n) (u @ rest) = Inr (ds, u # us, r)"
proof -
  obtain t k body where u: "u = byte_of t @ byte_of k @ PutUint16 (of_nat (length body)) @ body" "length body < 2 ^ 16"
    "t \<noteq> DoorPassphrase" "t \<noteq> DoorRecovery" using assms(1) by (auto simp: opaque_record_def)
  then show ?thesis using assms(2) by (simp add: unat_of_nat_u16)
qed

lemma decodeDoors_known:
  assumes "door_typed d" "encodeDoorRecord d = Inr u" "decodeDoors n rest = Inr (ds, us, r)"
  shows "decodeDoors (Suc n) (u @ rest) = Inr (d # ds, us, r)"
proof -
  have t: "dr_Type d = DoorPassphrase \<or> dr_Type d = DoorRecovery" "dr_KDFID d = kdfIDArgon2id"
    and u: "u = byte_of (dr_Type d) @ byte_of (dr_KDFID d) @ PutUint16 (of_nat (length (encodeDoorBody d))) @ encodeDoorBody d"
    using assms(2) by (auto simp: encodeDoorRecord_def Let_def split: if_splits)
  note l = length_encodeDoorBody [OF assms(1)]
  have "unat (of_nat (length (encodeDoorBody d)) :: u16) = length (encodeDoorBody d)"
    by (rule unat_of_nat_u16) (simp add: l doorBodySize_def)
  moreover have "decodeDoorBody (dr_Type d) kdfIDArgon2id (encodeDoorBody d) = d" using decodeDoorBody_encode [OF assms(1)] t(2) by simp
  moreover have "rd_take doorBodySize (encodeDoorBody d @ rest) = Inr (encodeDoorBody d, rest)" using reads(2) [of "encodeDoorBody d" rest] l by simp
  ultimately show ?thesis using t l assms(3) by (auto simp: u)
qed

lemma decodeDoors_section:
  assumes "encodeDoorRecords ds = Inr rs" "list_all door_typed ds" "list_all opaque_record us"
  shows "decodeDoors (length (rs @ us)) (concat (rs @ us) @ rest) = Inr (ds, us, rest)"
  using assms
proof (induction ds arbitrary: rs)
  case Nil
  then have "rs = []" by simp
  moreover have "decodeDoors (length us) (concat us @ rest) = Inr ([], us, rest)"
    using Nil.prems(3)
  proof (induction us)
    case (Cons u us)
    then show ?case using decodeDoors_opaque [of u "length us" "concat us @ rest"] by simp
  qed simp
  ultimately show ?case by simp
next
  case (Cons d ds)
  then obtain r rs' where r: "encodeDoorRecord d = Inr r" "encodeDoorRecords ds = Inr rs'" "rs = r # rs'" by (auto simp: bindR_eq_Inr)
  have "decodeDoors (length (rs' @ us)) (concat (rs' @ us) @ rest) = Inr (ds, us, rest)" using Cons r by simp
  from decodeDoors_known [OF _ r(1) this] Cons.prems(2) show ?case by (simp add: r(3))
qed

lemma decodeExtensions_section:
  assumes "encodeExtensions es = Inr out" "distinct (map ex_Type es)" "set (map ex_Type es) \<inter> set met = {}"
  shows "decodeExtensions (length es) met (out @ rest) = Inr (es, rest)"
  using assms
proof (induction es arbitrary: out met)
  case (Cons e es)
  then obtain out' where o: "encodeExtensions es = Inr out'" "length (ex_Value e) \<le> 0xFFFF"
    "out = PutUint16 (ex_Type e) @ PutUint16 (of_nat (length (ex_Value e))) @ ex_Value e @ out'" by (auto simp: bindR_eq_Inr split: if_splits)
  have "decodeExtensions (length es) (ex_Type e # met) (out' @ rest) = Inr (es, rest)"
    using Cons.prems o by (intro Cons.IH) auto
  moreover have "unat (of_nat (length (ex_Value e)) :: u16) = length (ex_Value e)" using o(2) by (intro unat_of_nat_u16) simp
  ultimately show ?case using Cons.prems(3) o(3) by simp
qed simp

section \<open>Lengths of a payload\<close>

lemma DefaultChunkSize_nat: "DefaultChunkSize = 65536" "(ucast DefaultChunkSize :: u64) = 65536" "unat DefaultChunkSize = 65536"
  by (simp_all add: DefaultChunkSize_def push_bit_eq_mult unsigned_ucast_eq)

definition records_of :: "nat \<Rightarrow> nat" where
  "records_of n = (n + 65535) div 65536"

lemma data_records_nat:
  assumes "unat z < 2 ^ 63" shows "unat (data_records z DefaultChunkSize) = records_of (unat z)"
proof -
  have "unat (65535 + z) = unat z + 65535"
    using assms by (subst unat_add_lem [THEN iffD1]) simp_all
  then show ?thesis by (simp add: data_records_def DefaultChunkSize_nat records_of_def unat_div)
qed

text \<open>\<open>checkPayloadLength\<close> computes in 64 bits; on payloads that fit a Go slice nothing wraps.\<close>

lemma checkPayloadLength_nat:
  assumes "len < 2 ^ 63"
  shows "checkPayloadLength z DefaultChunkSize len = Inr () \<longleftrightarrow> len = unat z + (records_of (unat z) + 1) * 16"
proof -
  have l: "unat (of_nat len :: u64) = len" using assms by (simp add: unsigned_of_nat take_bit_nat_eq_self)
  show ?thesis
  proof (cases "unat z \<le> len")
    case False
    then have "z > of_nat len" using l by (simp add: word_less_nat_alt)
    then show ?thesis using False by (simp add: checkPayloadLength_def)
  next
    case True
    then have z: "\<not> z > of_nat len" "unat z < 2 ^ 63" using l assms by (simp_all add: word_less_nat_alt)
    let ?n = "data_records z DefaultChunkSize"
    have n: "unat ?n = records_of (unat z)" by (rule data_records_nat [OF z(2)])
    have small: "records_of (unat z) < 2 ^ 48" using z(2) by (simp add: records_of_def div_less_iff_less_mult)
    have "unat (?n + 1) = records_of (unat z) + 1" using n small by (subst unat_add_lem [THEN iffD1]) simp_all
    then have "unat ((?n + 1) * 16) = (records_of (unat z) + 1) * 16" using small by (subst unat_mult_lem [THEN iffD1]) simp_all
    then have "unat (z + (?n + 1) * 16) = unat z + (records_of (unat z) + 1) * 16"
      using small z(2) by (subst unat_add_lem [THEN iffD1]) simp_all
    then have "z + (?n + 1) * 16 = of_nat len \<longleftrightarrow> len = unat z + (records_of (unat z) + 1) * 16"
      using l by (metis word_unat_eq_iff)
    then show ?thesis using z(1) by (simp add: checkPayloadLength_def tagSize_def)
  qed
qed

section \<open>Envelopes\<close>

text \<open>What a writer puts into an envelope.\<close>

definition header_body :: "Header \<Rightarrow> bytes list \<Rightarrow> bytes \<Rightarrow> bool" where
  "header_body h us body \<longleftrightarrow> (\<exists>rs exts. encodeDoorRecords (hd_Doors h) = Inr rs \<and> encodeExtensions (hd_Extensions h) = Inr exts \<and>
     length (rs @ us) \<le> 255 \<and> length (hd_Extensions h) \<le> 255 \<and>
     body = Header_core h @ byte_of (of_nat (length (rs @ us))) @ concat (rs @ us) @ byte_of (of_nat (length (hd_Extensions h))) @ exts)"

definition header_typed :: "Header \<Rightarrow> bool" where
  "header_typed h \<longleftrightarrow> hd_FormatVersion h = formatVersion \<and> kind_supported (hd_Kind h) \<and> hd_ChunkSize h = DefaultChunkSize \<and>
     length (hd_NoncePrefix h) = 16 \<and> list_all door_typed (hd_Doors h) \<and> distinct (map ex_Type (hd_Extensions h)) \<and>
     length (hd_Commitment h) = 32"

lemma unat_of_nat_u8: "n \<le> 255 \<Longrightarrow> unat (of_nat n :: u8) = n"
  by (simp add: unsigned_of_nat take_bit_nat_eq_self)

lemma decodeHeader_written:
  assumes "header_typed h" "header_body h us body" "list_all opaque_record us"
  shows "decodeHeader (body @ hd_Commitment h) (hd_Kind h) payload =
    Inr \<lparr>ps_header = h, ps_body = body, ps_knownDoors = hd_Doors h, ps_unknownDoors = us, ps_payload = payload\<rparr>"
proof -
  obtain rs exts where b: "encodeDoorRecords (hd_Doors h) = Inr rs" "encodeExtensions (hd_Extensions h) = Inr exts"
     "length (rs @ us) \<le> 255" "length (hd_Extensions h) \<le> 255"
     "body = Header_core h @ byte_of (of_nat (length (rs @ us))) @ concat (rs @ us) @ byte_of (of_nat (length (hd_Extensions h))) @ exts"
    using assms(2) unfolding header_body_def by blast
  note t = assms(1) [unfolded header_typed_def]
  let ?r3 = "byte_of (of_nat (length (hd_Extensions h))) @ exts @ hd_Commitment h"
  let ?r2 = "byte_of (of_nat (length (rs @ us))) @ concat (rs @ us) @ ?r3"
  have full: "body @ hd_Commitment h = PutUint32 (hd_ChunkSize h) @ PutUint64 (hd_PlaintextSize h) @ hd_NoncePrefix h @ ?r2"
    by (simp add: b(5) Header_core_def)
  have long: "\<not> length (body @ hd_Commitment h) < coreSize + 2 + commitmentSize"
    using t by (simp add: full sizes)
  have n: "rd_take 16 (hd_NoncePrefix h @ ?r2) = Inr (hd_NoncePrefix h, ?r2)" using reads(2) [of "hd_NoncePrefix h" ?r2] t by simp
  have d: "decodeDoors (unat (of_nat (length (rs @ us)) :: u8)) (concat (rs @ us) @ ?r3) = Inr (hd_Doors h, us, ?r3)"
    using decodeDoors_section [OF b(1) _ assms(3), of ?r3] t unat_of_nat_u8 [OF b(3)] by simp
  have e: "decodeExtensions (unat (of_nat (length (hd_Extensions h)) :: u8)) [] (exts @ hd_Commitment h) = Inr (hd_Extensions h, hd_Commitment h)"
    using decodeExtensions_section [OF b(2), of "[]" "hd_Commitment h"] t unat_of_nat_u8 [OF b(4)] by simp
  have body: "take (length (body @ hd_Commitment h) - commitmentSize) (body @ hd_Commitment h) = body"
    using t by (simp add: sizes)
  have "h = \<lparr>hd_FormatVersion = formatVersion, hd_Kind = hd_Kind h, hd_ChunkSize = hd_ChunkSize h, hd_PlaintextSize = hd_PlaintextSize h,
      hd_NoncePrefix = hd_NoncePrefix h, hd_Doors = hd_Doors h, hd_Extensions = hd_Extensions h, hd_Commitment = hd_Commitment h\<rparr>"
    using t by simp
  then show ?thesis
    unfolding decodeHeader_def body using long t n d e
    by (simp only: full reads bindR_simps prod.case if_False simp_thms) (simp add: sizes)
qed

lemma preamble_parts:
  fixes header payload :: bytes and kind
  defines "raw \<equiv> assembleEnvelope kind header payload"
  shows "take magicSize raw = magic" "take 2 (drop magicSize raw) = PutUint16 formatVersion" "raw ! (magicSize + 2) = char_of (unat kind)"
    "take 4 (drop (magicSize + 3) raw) = PutUint32 (of_nat (length header))" "drop preambleSize raw = header @ payload"
    "length raw = preambleSize + length header + length payload"
proof -
  have m: "length magic = 8" by (simp add: magic_def)
  show "take magicSize raw = magic" "take 2 (drop magicSize raw) = PutUint16 formatVersion"
    "take 4 (drop (magicSize + 3) raw) = PutUint32 (of_nat (length header))" "drop preambleSize raw = header @ payload"
    "length raw = preambleSize + length header + length payload"
    using m by (simp_all add: raw_def assembleEnvelope_def sizes)
  show "raw ! (magicSize + 2) = char_of (unat kind)"
    using m by (simp add: raw_def assembleEnvelope_def magicSize_def nth_append byte_of_def)
qed

lemma header_length_u32: "n \<le> MaxHeaderLength \<Longrightarrow> unat (of_nat n :: u32) = n"
  by (simp add: unsigned_of_nat take_bit_nat_eq_self MaxHeaderLength_def)

lemma drop_preamble: "drop (preambleSize + n) b = drop n (drop preambleSize b)"
  by (simp add: add.commute)

lemma decodeEnvelope_assemble:
  assumes "header_typed h" "header_body h us body" "list_all opaque_record us"
    "length body + commitmentSize \<le> MaxHeaderLength" "length payload < 2 ^ 63"
    "length payload = unat (hd_PlaintextSize h) + (records_of (unat (hd_PlaintextSize h)) + 1) * 16"
  shows "decodeEnvelope (assembleEnvelope (hd_Kind h) (body @ hd_Commitment h) payload) =
    Inr \<lparr>ps_header = h, ps_body = body, ps_knownDoors = hd_Doors h, ps_unknownDoors = us, ps_payload = payload\<rparr>"
proof -
  define hdr where "hdr = body @ hd_Commitment h"
  have l: "length hdr \<le> MaxHeaderLength" using assms(1,4) by (simp add: hdr_def header_typed_def commitmentSize_def)
  then have u: "unat (of_nat (length hdr) :: u32) = length hdr" by (rule header_length_u32)
  have c: "checkPayloadLength (hd_PlaintextSize h) (hd_ChunkSize h) (length payload) = Inr ()"
    using checkPayloadLength_nat [OF assms(5), of "hd_PlaintextSize h"] assms(1,6) by (simp add: header_typed_def)
  have k: "kind_supported (hd_Kind h)" using assms(1) by (simp add: header_typed_def)
  show ?thesis
    unfolding decodeEnvelope_def hdr_def [symmetric] preamble_parts Let_def drop_preamble Uint_Put u8_of_char u
    using l c k decodeHeader_written [OF assms(1-3), of payload] by (simp add: hdr_def [symmetric])
qed

section \<open>Sealing and opening a payload\<close>

definition one_record :: "crypt_lib \<Rightarrow> bytes \<Rightarrow> ObjectKind \<Rightarrow> bytes \<Rightarrow> bytes \<Rightarrow> bytes \<Rightarrow> nat \<Rightarrow> bytes \<Rightarrow> bytes" where
  "one_record L key kind ekey core np i c =
     cl_Seal L key (record_nonce np i) (payloadAD kind ekey core recordData (of_nat i) (of_nat (length c))) c"

definition open_step :: "crypt_lib \<Rightarrow> bytes \<Rightarrow> ObjectKind \<Rightarrow> bytes \<Rightarrow> bytes \<Rightarrow> bytes \<Rightarrow> bytes \<Rightarrow> (nat \<Rightarrow> nat) \<Rightarrow> nat \<Rightarrow> bytes \<times> nat \<Rightarrow>
    crypt_error + bytes \<times> nat" where
  "open_step L key kind ekey core np payload len = (\<lambda>i (plaintext, offset).
     bindR (slice offset (offset + len i + tagSize) payload) (\<lambda>rec.
     case cl_Open L key (record_nonce np i) (payloadAD kind ekey core recordData (of_nat i) (of_nat (len i))) rec of
       None \<Rightarrow> Inl ErrAuthentication
     | Some p \<Rightarrow> Inr (plaintext @ p, offset + len i + tagSize)))"

text \<open>The length the opener expects of record \<open>i\<close> of \<open>n\<close>.\<close>

definition record_length :: "nat \<Rightarrow> nat \<Rightarrow> nat" where
  "record_length n i = (if Suc i = records_of n then n - i * 65536 else 65536)"

lemma chunk_length: "i < records_of n \<Longrightarrow> length plaintext = n \<Longrightarrow> length (chunk 65536 plaintext i) = record_length n i"
  by (auto simp: chunk_def record_length_def records_of_def min_def)

lemma records_cover: "n \<le> records_of n * 65536"
  by (simp add: records_of_def)

lemma chunks_concat: "concat (map (chunk n p) [0..<k]) = take (k * n) p"
proof (induction k)
  case (Suc k)
  have "take (Suc k * n) p = take (k * n + n) p" by (simp add: add.commute)
  then show ?case using Suc by (simp only: upt_Suc_append le0 map_append concat_append take_add) (simp add: chunk_def)
qed simp

lemma zip_same_lengths: "map length xs = map length ys \<Longrightarrow> \<forall>(x, y) \<in> set (zip xs ys). length x = length y"
proof (induction xs arbitrary: ys)
  case (Cons x xs)
  then show ?case by (cases ys) simp_all
qed simp

text \<open>Chunks of the expected lengths are the chunks of their concatenation.\<close>

lemma chunks_determined:
  assumes "map length cs = map (record_length n) [0..<records_of n]"
  shows "length (concat cs) = n" "cs = map (chunk 65536 (concat cs)) [0..<records_of n]"
proof -
  let ?cs = "\<lambda>p. map (chunk 65536 p) [0..<records_of n]"
  have lens: "length p = n \<Longrightarrow> map length (?cs p) = map length cs" for p using chunk_length [of _ n p] assms by simp
  have cover: "length p = n \<Longrightarrow> concat (?cs p) = p" for p :: bytes using records_cover [of n] by (simp add: chunks_concat)
  let ?r = "replicate n CHR ''a''"
  have "length (concat (?cs ?r)) = length (concat cs)" using lens [of ?r] by (simp add: length_concat)
  then show l: "length (concat cs) = n" using cover [of ?r] by simp
  have "length cs = length (?cs (concat cs))" using arg_cong [OF lens [OF l], of length] by simp
  moreover have "\<forall>(x, y) \<in> set (zip cs (?cs (concat cs))). length x = length y"
    using lens [OF l, symmetric] by (rule zip_same_lengths)
  ultimately show "cs = ?cs (concat cs)" using concat_eq_concat_iff [of cs "?cs (concat cs)"] cover [OF l] by metis
qed

lemma sealPayload_records:
  assumes "length plaintext < 2 ^ 63"
  shows "sealPayload L key kind ekey core np DefaultChunkSize plaintext =
    concat (map (\<lambda>i. one_record L key kind ekey core np i (chunk 65536 plaintext i)) [0..<records_of (length plaintext)]) @
    cl_Seal L key (record_nonce np (records_of (length plaintext))) (payloadAD kind ekey core recordFinal (of_nat (records_of (length plaintext))) 0) []"
proof -
  have "unat (of_nat (length plaintext) :: u64) = length plaintext" using assms by (simp add: unsigned_of_nat take_bit_nat_eq_self)
  then have "unat (data_records (of_nat (length plaintext)) DefaultChunkSize) = records_of (length plaintext)"
    using data_records_nat [of "of_nat (length plaintext)"] assms by simp
  then show ?thesis by (simp add: sealPayload_def Let_def DefaultChunkSize_nat one_record_def)
qed

lemma foldR_same: "(\<And>x acc. x \<in> set xs \<Longrightarrow> f x acc = g x acc) \<Longrightarrow> foldR f xs a = foldR g xs a"
proof (induction xs arbitrary: a)
  case (Cons x xs)
  then have "foldR f xs = foldR g xs" by (intro ext) simp
  then show ?case using Cons.prems by simp
qed simp

lemma last_length:
  fixes z :: u64
  assumes "unat z < 2 ^ 63" "Suc i = records_of (unat z)"
  shows "unat (z - of_nat i * 65536) = unat z - i * 65536"
proof -
  have i: "i * 65536 \<le> unat z" "i < 2 ^ 47" using assms by (auto simp: records_of_def)
  then have m: "unat (of_nat i * 65536 :: u64) = i * 65536"
    by (subst unat_mult_lem [THEN iffD1]) (simp_all add: unsigned_of_nat take_bit_nat_eq_self)
  have "of_nat i * 65536 \<le> z" using i(1) m by (simp only: word_le_nat_alt)
  then show ?thesis using m by (simp only: unat_sub)
qed

lemma openPayload_steps:
  assumes "unat z < 2 ^ 63"
  shows "openPayload L key kind ekey core payload z np DefaultChunkSize =
    bindR (foldR (open_step L key kind ekey core np payload (record_length (unat z))) [0..<records_of (unat z)] ([], 0)) (\<lambda>(plaintext, offset).
    bindR (slice offset (length payload) payload) (\<lambda>rec.
    case cl_Open L key (record_nonce np (records_of (unat z))) (payloadAD kind ekey core recordFinal (of_nat (records_of (unat z))) 0) rec of
      None \<Rightarrow> Inl ErrAuthentication
    | Some _ \<Rightarrow> Inr plaintext))"
proof -
  have len: "(if Suc i = records_of (unat z) then unat (z - of_nat i * ucast DefaultChunkSize) else unat DefaultChunkSize) = record_length (unat z) i" for i
    using last_length [OF assms] by (simp add: record_length_def DefaultChunkSize_def)
  show ?thesis
    unfolding openPayload_def Let_def data_records_nat [OF assms] len open_step_def ..
qed

context primitives begin

lemma length_one_record: "length (one_record L key kind ekey core np i c) = length c + 16"
  by (simp add: one_record_def seal_length)

lemma open_step_iff:
  assumes "length key = 32" "length np = 16" "off \<le> length payload"
  shows "open_step L key kind ekey core np payload len i (acc, off) = Inr (acc', off') \<longleftrightarrow>
    (\<exists>c rest. length c = len i \<and> drop off payload = one_record L key kind ekey core np i c @ rest \<and> acc' = acc @ c \<and> off' = off + len i + 16)"
  (is "?l \<longleftrightarrow> ?r")
proof
  assume ?l
  then obtain p where s: "off + len i + 16 \<le> length payload" "acc' = acc @ p" "off' = off + len i + 16"
    and o: "cl_Open L key (record_nonce np i) (payloadAD kind ekey core recordData (of_nat i) (of_nat (len i))) (take (len i + 16) (drop off payload)) = Some p"
    by (auto simp: open_step_def bindR_eq_Inr slice_def tagSize_def add.assoc split: option.splits if_splits)
  have e: "take (len i + 16) (drop off payload) = cl_Seal L key (record_nonce np i) (payloadAD kind ekey core recordData (of_nat i) (of_nat (len i))) p"
    using o open_seal [OF assms(1)] assms(2) by (simp add: record_nonce_def)
  have "length p = len i" using arg_cong [OF e, of length] s(1) by (simp add: seal_length)
  then show ?r using s e append_take_drop_id [of "len i + 16" "drop off payload"] unfolding one_record_def by metis
next
  assume ?r
  then obtain c rest where c: "length c = len i" "drop off payload = one_record L key kind ekey core np i c @ rest" "acc' = acc @ c" "off' = off + len i + 16"
    by blast
  have l: "length payload = off + (len i + 16) + length rest" using arg_cong [OF c(2), of length] assms(3) c(1) by (simp add: length_one_record)
  have "take (len i + 16) (drop off payload) = one_record L key kind ekey core np i c" using c(1,2) by (simp add: length_one_record)
  moreover have "cl_Open L key (record_nonce np i) (payloadAD kind ekey core recordData (of_nat i) (of_nat (len i))) (one_record L key kind ekey core np i c) = Some c"
    using open_seal [OF assms(1)] assms(2) c(1) by (simp add: record_nonce_def one_record_def)
  ultimately show ?l using l c(3,4) by (simp add: open_step_def slice_def tagSize_def add.assoc)
qed

lemma length_records: "length is = length cs \<Longrightarrow> length (concat (map2 (one_record L key kind ekey core np) is cs)) = length (concat cs) + 16 * length is"
  by (induction "is" cs rule: list_induct2) (simp_all add: length_one_record)

text \<open>A run of steps accepts exactly the records of its chunks.\<close>

lemma open_steps_iff:
  assumes "length key = 32" "length np = 16" "off \<le> length payload"
  shows "foldR (open_step L key kind ekey core np payload len) is (acc, off) = Inr (acc', off') \<longleftrightarrow>
    (\<exists>cs rest. map length cs = map len is \<and> drop off payload = concat (map2 (one_record L key kind ekey core np) is cs) @ rest \<and>
      acc' = acc @ concat cs \<and> off' = off + length (concat cs) + 16 * length is)"
  using assms(3)
proof (induction "is" arbitrary: acc off)
  case Nil
  then show ?case by auto
next
  case (Cons i js)
  show ?case
  proof
    assume "foldR (open_step L key kind ekey core np payload len) (i # js) (acc, off) = Inr (acc', off')"
    then obtain acc1 off1 where st: "open_step L key kind ekey core np payload len i (acc, off) = Inr (acc1, off1)"
      and go: "foldR (open_step L key kind ekey core np payload len) js (acc1, off1) = Inr (acc', off')" by (auto simp: bindR_eq_Inr)
    obtain c rest where c: "length c = len i" "drop off payload = one_record L key kind ekey core np i c @ rest" "acc1 = acc @ c" "off1 = off + len i + 16"
      using st open_step_iff [OF assms(1,2) Cons.prems] by blast
    have l: "length payload = off + (len i + 16) + length rest" using arg_cong [OF c(2), of length] Cons.prems c(1) by (simp add: length_one_record)
    have "drop off1 payload = drop (len i + 16) (drop off payload)" using c(4) by (simp only: drop_drop ac_simps)
    then have rest: "drop off1 payload = rest" using c(1,2) by (simp add: length_one_record)
    obtain cs rest' where cs: "map length cs = map len js" "rest = concat (map2 (one_record L key kind ekey core np) js cs) @ rest'"
      "acc' = acc1 @ concat cs" "off' = off1 + length (concat cs) + 16 * length js"
      using go Cons.IH [of off1 acc1] l c(4) rest by auto
    then show "\<exists>cs rest. map length cs = map len (i # js) \<and> drop off payload = concat (map2 (one_record L key kind ekey core np) (i # js) cs) @ rest \<and>
        acc' = acc @ concat cs \<and> off' = off + length (concat cs) + 16 * length (i # js)"
      using c by (intro exI [of _ "c # cs"] exI [of _ rest']) simp
  next
    assume "\<exists>cs rest. map length cs = map len (i # js) \<and> drop off payload = concat (map2 (one_record L key kind ekey core np) (i # js) cs) @ rest \<and>
        acc' = acc @ concat cs \<and> off' = off + length (concat cs) + 16 * length (i # js)"
    then obtain c cs rest where c: "length c = len i" "map length cs = map len js"
        "drop off payload = one_record L key kind ekey core np i c @ (concat (map2 (one_record L key kind ekey core np) js cs) @ rest)"
        "acc' = acc @ c @ concat cs" "off' = off + length c + length (concat cs) + 16 * Suc (length js)"
      by (auto simp: map_eq_Cons_conv)
    let ?off1 = "off + len i + 16" and ?rest = "concat (map2 (one_record L key kind ekey core np) js cs) @ rest"
    have st: "open_step L key kind ekey core np payload len i (acc, off) = Inr (acc @ c, ?off1)"
      using open_step_iff [OF assms(1,2) Cons.prems] c(1,3) by blast
    have l: "length payload = off + (len i + 16) + length ?rest" using arg_cong [OF c(3), of length] Cons.prems c(1) by (simp add: length_one_record)
    have "drop ?off1 payload = drop (len i + 16) (drop off payload)" by (simp only: drop_drop ac_simps)
    then have "drop ?off1 payload = ?rest" using c(1,3) by (simp add: length_one_record)
    then have "foldR (open_step L key kind ekey core np payload len) js (acc @ c, ?off1) = Inr (acc', off')"
      using Cons.IH [of ?off1 "acc @ c"] l c by (auto intro!: exI [of _ cs])
    then show "foldR (open_step L key kind ekey core np payload len) (i # js) (acc, off) = Inr (acc', off')" using st by simp
  qed
qed

text \<open>A payload opens exactly when it is the sealing of what it opens to.\<close>

lemma openPayload_iff:
  assumes "length key = 32" "length np = 16" "unat z < 2 ^ 63" "length payload = unat z + (records_of (unat z) + 1) * 16"
  shows "openPayload L key kind ekey core payload z np DefaultChunkSize = Inr plaintext \<longleftrightarrow>
    length plaintext = unat z \<and> payload = sealPayload L key kind ekey core np DefaultChunkSize plaintext"
proof -
  let ?n = "records_of (unat z)" and ?p = "one_record L key kind ekey core np" and ?len = "record_length (unat z)"
  let ?fin = "\<lambda>q. cl_Seal L key (record_nonce np ?n) (payloadAD kind ekey core recordFinal (of_nat ?n) 0) q"
  have last: "cl_Open L key (record_nonce np ?n) ad r = Some q \<longleftrightarrow> r = cl_Seal L key (record_nonce np ?n) ad q" for ad r q
    using open_seal [OF assms(1)] assms(2) by (simp add: record_nonce_def)
  have small: "length p = unat z \<Longrightarrow> length p < 2 ^ 63" for p :: bytes using assms(3) by simp
  show ?thesis
  proof
    assume "openPayload L key kind ekey core payload z np DefaultChunkSize = Inr plaintext"
    then obtain off q where st: "foldR (open_step L key kind ekey core np payload ?len) [0..<?n] ([], 0) = Inr (plaintext, off)"
      and q: "off \<le> length payload" "drop off payload = ?fin q"
      unfolding openPayload_steps [OF assms(3)] by (auto simp: bindR_eq_Inr slice_def last split: option.splits if_splits)
    obtain cs rest where c: "map length cs = map ?len [0..<?n]" "payload = concat (map2 ?p [0..<?n] cs) @ rest" "plaintext = concat cs"
        "off = length (concat cs) + 16 * ?n"
      using st open_steps_iff [OF assms(1,2), of 0 payload kind ekey core ?len "[0..<?n]" "[]" plaintext off] by auto
    have cl: "length cs = ?n" using arg_cong [OF c(1), of length] by simp
    have z: "length plaintext = unat z" "cs = map (chunk 65536 plaintext) [0..<?n]"
      using chunks_determined [OF c(1)] c(3) by simp_all
    have "length (?fin q) = 16" using q c(4) assms(4) z(1) c(3) by (simp add: q(2) [symmetric])
    then have "q = []" by (simp add: seal_length)
    have "length (concat (map2 ?p [0..<?n] cs)) = off" using c(4) cl by (simp add: length_records)
    then have "rest = ?fin []" using q(2) c(2) \<open>q = []\<close> by simp
    then have "payload = concat (map (\<lambda>i. ?p i (chunk 65536 plaintext i)) [0..<?n]) @ ?fin []"
      using c(2) z(2) by (simp add: zip_map2 zip_same_conv_map comp_def case_prod_beta)
    then show "length plaintext = unat z \<and> payload = sealPayload L key kind ekey core np DefaultChunkSize plaintext"
      using sealPayload_records [OF small [OF z(1)], of L key kind ekey core np] z(1) by simp
  next
    assume a: "length plaintext = unat z \<and> payload = sealPayload L key kind ekey core np DefaultChunkSize plaintext"
    let ?cs = "map (chunk 65536 plaintext) [0..<?n]"
    have p: "payload = concat (map2 ?p [0..<?n] ?cs) @ ?fin []"
      using sealPayload_records [OF small, of plaintext L key kind ekey core np] a
      by (simp add: zip_map2 zip_same_conv_map comp_def case_prod_beta)
    have lens: "map length ?cs = map ?len [0..<?n]" using chunk_length [of _ "unat z" plaintext] a by simp
    have cc: "concat ?cs = plaintext" using records_cover [of "unat z"] a by (simp add: chunks_concat)
    have off: "length (concat (map2 ?p [0..<?n] ?cs)) = length plaintext + 16 * ?n" using length_records [of "[0..<?n]" ?cs] cc by simp
    have "foldR (open_step L key kind ekey core np payload ?len) [0..<?n] ([], 0) = Inr (plaintext, length plaintext + 16 * ?n)"
      using open_steps_iff [OF assms(1,2), of 0 payload kind ekey core ?len "[0..<?n]" "[]" plaintext "length plaintext + 16 * ?n"] p lens cc
      by (auto intro!: exI [of _ ?cs])
    moreover have "drop (length plaintext + 16 * ?n) payload = ?fin []" "length plaintext + 16 * ?n \<le> length payload"
      using p off by simp_all
    moreover have "take (length payload - (length plaintext + 16 * ?n)) (?fin []) = ?fin []" using p off by simp
    moreover have "cl_Open L key (record_nonce np ?n) (payloadAD kind ekey core recordFinal (of_nat ?n) 0) (?fin []) = Some []"
      by (simp only: last)
    ultimately show "openPayload L key kind ekey core payload z np DefaultChunkSize = Inr plaintext"
      unfolding openPayload_steps [OF assms(3)] by (simp add: slice_def del: take_all_iff)
  qed
qed

end

end
