(* ===== verification/EnvelopeSound.thy ===== *)
theory EnvelopeSound
  imports Envelope
begin

text \<open>
  What the envelope decoder guarantees: an envelope that decodes is the preamble, the body, the commitment and the payload it
  was split into (\<open>decodeEnvelope_assembled\<close>), its header is well typed and its opaque doors are exact records
  (\<open>decodeEnvelope_typed\<close>), and the payload has the length the opener cuts, so no slice is out of range
  (\<open>openPayload_no_panic\<close>).
\<close>

section \<open>Readers\<close>

lemma byte_of_u8 [simp]: "char_of (unat (u8_of c)) = c"
proof -
  have "of_char c < (256 :: nat)" by (rule byte_bound)
  then show ?thesis by (simp add: u8_of_def unsigned_of_nat take_bit_nat_eq_self)
qed

lemma rd_u8_Inr: "rd_u8 b = Inr (v, r) \<longleftrightarrow> b = byte_of v @ r"
  by (auto simp: rd_u8_def byte_of_def split: list.splits)

lemma rd_take_Inr: "rd_take n b = Inr (x, r) \<longleftrightarrow> length x = n \<and> b = x @ r"
  by (auto simp: rd_take_def)

lemma rd_u16_Inr: "rd_u16 b = Inr (v, r) \<longleftrightarrow> b = PutUint16 v @ r"
  by (auto simp: rd_u16_def bindR_eq_Inr rd_take_Inr Put_Uint)

lemma rd_u32_Inr: "rd_u32 b = Inr (v, r) \<longleftrightarrow> b = PutUint32 v @ r"
  by (auto simp: rd_u32_def bindR_eq_Inr rd_take_Inr Put_Uint)

lemma rd_u64_Inr: "rd_u64 b = Inr (v, r) \<longleftrightarrow> b = PutUint64 v @ r"
  by (auto simp: rd_u64_def bindR_eq_Inr rd_take_Inr Put_Uint)

lemmas rd_Inr = rd_u8_Inr rd_take_Inr rd_u16_Inr rd_u32_Inr rd_u64_Inr

lemma u16_bound: "unat (l :: u16) < 65536" using unsigned_less [of l] by simp

lemma u8_bound: "unat (l :: u8) < 256" using unsigned_less [of l] by simp

section \<open>Doors and extensions\<close>

lemma door_decoded: "length body = doorBodySize \<Longrightarrow> door_typed (decodeDoorBody t k body)"
  by (simp add: door_typed_def decodeDoorBody_def doorBodySize_def)

lemma decodeDoors_sound:
  "decodeDoors n b = Inr (ds, us, r) \<Longrightarrow>
    list_all door_typed ds \<and> list_all (\<lambda>d. (dr_Type d = DoorPassphrase \<or> dr_Type d = DoorRecovery) \<and> dr_KDFID d = kdfIDArgon2id) ds \<and>
    list_all opaque_record us \<and> length ds + length us = n \<and> (\<exists>front. b = front @ r)"
proof (induction n arbitrary: b ds us r)
  case (Suc n)
  then obtain t k l body b4 where b: "b = byte_of t @ byte_of k @ PutUint16 l @ body @ b4" and len: "length body = unat l"
    and go: "if t \<noteq> DoorPassphrase \<and> t \<noteq> DoorRecovery then
       bindR (decodeDoors n b4) (\<lambda>(ds, us, rest). Inr (ds, take (length b - length b4) b # us, rest)) = Inr (ds, us, r)
     else if k \<noteq> kdfIDArgon2id then False
     else if length body \<noteq> doorBodySize then False
     else bindR (decodeDoors n b4) (\<lambda>(ds, us, rest). Inr (decodeDoorBody t k body # ds, us, rest)) = Inr (ds, us, r)"
    by (auto simp: bindR_eq_Inr rd_Inr split: if_splits)
  have l: "PutUint16 l = PutUint16 (of_nat (length body))" "length body < 2 ^ 16" using len unsigned_less [of l] by simp_all
  show ?case
  proof (cases "t \<noteq> DoorPassphrase \<and> t \<noteq> DoorRecovery")
    case True
    then obtain us' where us: "decodeDoors n b4 = Inr (ds, us', r)" "us = take (length b - length b4) b # us'"
      using go by (auto simp: bindR_eq_Inr)
    have "take (length b - length b4) b = byte_of t @ byte_of k @ PutUint16 (of_nat (length body)) @ body" by (simp add: b l(1) [symmetric])
    then have "opaque_record (take (length b - length b4) b)" using True l(2) unfolding opaque_record_def by metis
    then show ?thesis using Suc.IH [OF us(1)] us(2) b by auto
  next
    case False
    then obtain ds' where ds: "decodeDoors n b4 = Inr (ds', us, r)" "ds = decodeDoorBody t k body # ds'" "k = kdfIDArgon2id"
      "length body = doorBodySize" using go by (auto simp: bindR_eq_Inr split: if_splits)
    have "dr_Type (decodeDoorBody t k body) = t" "dr_KDFID (decodeDoorBody t k body) = k" by (simp_all add: decodeDoorBody_def)
    then show ?thesis using Suc.IH [OF ds(1)] ds False b door_decoded [OF ds(4)] by auto
  qed
qed simp

lemma decodeExtensions_sound:
  "decodeExtensions n met b = Inr (es, r) \<Longrightarrow>
    length es = n \<and> distinct (map ex_Type es) \<and> set (map ex_Type es) \<inter> set met = {} \<and> list_all (\<lambda>e. length (ex_Value e) \<le> 0xFFFF) es \<and>
    (\<exists>front. b = front @ r)"
proof (induction n arbitrary: met b es r)
  case (Suc n)
  then obtain t l v b3 es' where b: "b = PutUint16 t @ PutUint16 l @ v @ b3" "length v = unat l" "t \<notin> set met"
    and es: "decodeExtensions n (t # met) b3 = Inr (es', r)" "es = \<lparr>ex_Type = t, ex_Value = v\<rparr> # es'"
    by (auto simp: bindR_eq_Inr rd_Inr split: if_splits)
  have "length v \<le> 0xFFFF" using b(2) u16_bound [of l] by simp
  then show ?case using Suc.IH [OF es(1)] es(2) b by auto
qed simp

lemma encodeExtensions_ok: "list_all (\<lambda>e. length (ex_Value e) \<le> 0xFFFF) es \<Longrightarrow> \<exists>out. encodeExtensions es = Inr out"
  by (induction es) auto

section \<open>Headers and envelopes\<close>

lemma decodeHeader_sound:
  assumes "decodeHeader hdr kind payload = Inr p" "kind_supported kind"
  shows "header_typed (ps_header p)" "list_all opaque_record (ps_unknownDoors p)" "ps_knownDoors p = hd_Doors (ps_header p)"
    "hdr = ps_body p @ hd_Commitment (ps_header p)" "hd_Kind (ps_header p) = kind" "ps_payload p = payload"
    "take coreSize (ps_body p) = Header_core (ps_header p)" "coreSize \<le> length (ps_body p)"
    "list_all (\<lambda>e. length (ex_Value e) \<le> 0xFFFF) (hd_Extensions (ps_header p))" "length (hd_Extensions (ps_header p)) \<le> 255"
    "length (hd_Doors (ps_header p)) + length (ps_unknownDoors p) \<le> 255"
proof -
  obtain b1 z b2 np b3 nd b4 known unknown b5 ne b6 exts rest where
    long: "\<not> length hdr < coreSize + 2 + commitmentSize" and
    rd: "rd_u32 hdr = Inr (DefaultChunkSize, b1)" "rd_u64 b1 = Inr (z, b2)" "rd_take 16 b2 = Inr (np, b3)" "rd_u8 b3 = Inr (nd, b4)"
      and d: "decodeDoors (unat nd) b4 = Inr (known, unknown, b5)" and re: "rd_u8 b5 = Inr (ne, b6)"
      and e: "decodeExtensions (unat ne) [] b6 = Inr (exts, rest)" and c: "length rest = commitmentSize"
      and p: "p = \<lparr>ps_header = \<lparr>hd_FormatVersion = formatVersion, hd_Kind = kind, hd_ChunkSize = DefaultChunkSize, hd_PlaintextSize = z, hd_NoncePrefix = np,
          hd_Doors = known, hd_Extensions = exts, hd_Commitment = rest\<rparr>,
        ps_body = take (length hdr - commitmentSize) hdr, ps_knownDoors = known, ps_unknownDoors = unknown, ps_payload = payload\<rparr>"
    using assms(1) unfolding decodeHeader_def by (auto simp: bindR_eq_Inr split: if_splits)
  note ds = decodeDoors_sound [OF d] and es = decodeExtensions_sound [OF e]
  obtain front efront where fr: "b4 = front @ b5" "b6 = efront @ rest" using ds es by blast
  have f: "hdr = PutUint32 DefaultChunkSize @ PutUint64 z @ np @ byte_of nd @ front @ byte_of ne @ efront @ rest" "length np = 16"
    using rd re fr by (simp_all add: rd_Inr)
  show "header_typed (ps_header p)" using assms(2) f(2) ds es c by (simp add: p header_typed_def commitmentSize_def)
  show "list_all opaque_record (ps_unknownDoors p)" "ps_knownDoors p = hd_Doors (ps_header p)" "hd_Kind (ps_header p) = kind" "ps_payload p = payload"
    using ds by (simp_all add: p)
  have "hdr = take (length hdr - commitmentSize) hdr @ rest" using f(1) c by simp
  then show "hdr = ps_body p @ hd_Commitment (ps_header p)" by (simp add: p)
  show "take coreSize (ps_body p) = Header_core (ps_header p)" "coreSize \<le> length (ps_body p)"
    using long f(2) c by (simp_all add: p Header_core_def sizes f(1))
  show "list_all (\<lambda>e. length (ex_Value e) \<le> 0xFFFF) (hd_Extensions (ps_header p))" "length (hd_Extensions (ps_header p)) \<le> 255"
    using es u8_bound [of ne] by (simp_all add: p)
  show "length (hd_Doors (ps_header p)) + length (ps_unknownDoors p) \<le> 255" using ds u8_bound [of nd] by (simp add: p)
qed

lemma split_preamble:
  assumes "15 \<le> length raw"
  shows "take preambleSize raw = take magicSize raw @ take 2 (drop magicSize raw) @ [raw ! (magicSize + 2)] @ take 4 (drop (magicSize + 3) raw)"
proof -
  have "take (8 + (2 + (1 + 4))) raw = take 8 raw @ take 2 (drop 8 raw) @ take 1 (drop 10 raw) @ take 4 (drop 11 raw)"
    by (simp only: take_add drop_drop) simp
  moreover have "take 1 (drop 10 raw) = [raw ! 10]" using assms by (simp add: take_Suc_conv_app_nth)
  ultimately show ?thesis by (simp add: sizes)
qed

lemma decodeEnvelope_sound:
  assumes "decodeEnvelope raw = Inr p"
  shows "header_typed (ps_header p)" "list_all opaque_record (ps_unknownDoors p)" "ps_knownDoors p = hd_Doors (ps_header p)"
    "raw = assembleEnvelope (hd_Kind (ps_header p)) (ps_body p @ hd_Commitment (ps_header p)) (ps_payload p)"
    "take coreSize (ps_body p) = Header_core (ps_header p)" "coreSize \<le> length (ps_body p)"
    "list_all (\<lambda>e. length (ex_Value e) \<le> 0xFFFF) (hd_Extensions (ps_header p))" "length (hd_Extensions (ps_header p)) \<le> 255"
    "length (hd_Doors (ps_header p)) + length (ps_unknownDoors p) \<le> 255"
    "checkPayloadLength (hd_PlaintextSize (ps_header p)) (hd_ChunkSize (ps_header p)) (length (ps_payload p)) = Inr ()"
proof -
  let ?kind = "u8_of (raw ! (magicSize + 2))" and ?n = "unat (Uint32 (take 4 (drop (magicSize + 3) raw)))"
  have a: "preambleSize \<le> length raw" "take magicSize raw = magic" "Uint16 (take 2 (drop magicSize raw)) = formatVersion"
      "kind_supported ?kind" "preambleSize + ?n \<le> length raw"
    and h: "decodeHeader (take ?n (drop preambleSize raw)) ?kind (drop (preambleSize + ?n) raw) = Inr p"
    and c: "checkPayloadLength (hd_PlaintextSize (ps_header p)) (hd_ChunkSize (ps_header p)) (length (ps_payload p)) = Inr ()"
    using assms by (auto simp: decodeEnvelope_def Let_def bindR_eq_Inr split: if_splits)
  note s = decodeHeader_sound [OF h a(4)]
  show "header_typed (ps_header p)" "list_all opaque_record (ps_unknownDoors p)" "ps_knownDoors p = hd_Doors (ps_header p)"
    "take coreSize (ps_body p) = Header_core (ps_header p)" "coreSize \<le> length (ps_body p)"
    "list_all (\<lambda>e. length (ex_Value e) \<le> 0xFFFF) (hd_Extensions (ps_header p))" "length (hd_Extensions (ps_header p)) \<le> 255"
    "length (hd_Doors (ps_header p)) + length (ps_unknownDoors p) \<le> 255" using s by simp_all
  show "checkPayloadLength (hd_PlaintextSize (ps_header p)) (hd_ChunkSize (ps_header p)) (length (ps_payload p)) = Inr ()" by (rule c)
  have v: "take 2 (drop magicSize raw) = PutUint16 formatVersion"
    unfolding a(3) [symmetric] using a(1) by (intro Put_Uint(1) [symmetric]) (simp add: sizes)
  have k: "[raw ! (magicSize + 2)] = byte_of ?kind" by (simp add: byte_of_def)
  have l: "take 4 (drop (magicSize + 3) raw) = PutUint32 (of_nat ?n)"
    using a(1) by (simp add: Put_Uint sizes)
  have "length (take ?n (drop preambleSize raw)) = ?n" using a(5) by simp
  then have n: "length (ps_body p @ hd_Commitment (ps_header p)) = ?n" using s(4) by metis
  have pre: "take preambleSize raw = magic @ PutUint16 formatVersion @ byte_of ?kind @ PutUint32 (of_nat ?n)"
    unfolding a(2) [symmetric] v [symmetric] k [symmetric] l [symmetric]
    using a(1) by (intro split_preamble) (simp add: sizes)
  have "raw = take preambleSize raw @ take ?n (drop preambleSize raw) @ drop (preambleSize + ?n) raw"
    by (metis append_take_drop_id drop_preamble)
  then show "raw = assembleEnvelope (hd_Kind (ps_header p)) (ps_body p @ hd_Commitment (ps_header p)) (ps_payload p)"
    unfolding assembleEnvelope_def n using pre s(4-6) by simp
qed

section \<open>The opener stays inside the payload\<close>

lemma sum_record_length: "sum_list (map (record_length n) [0..<records_of n]) = n"
proof -
  let ?p = "replicate n (CHR ''a'')"
  have "map length (map (chunk 65536 ?p) [0..<records_of n]) = map (record_length n) [0..<records_of n]"
    using chunk_length [of _ n ?p] by simp
  moreover have "length (concat (map (chunk 65536 ?p) [0..<records_of n])) = n" using records_cover [of n] by (simp add: chunks_concat)
  ultimately show ?thesis by (metis length_concat)
qed

lemma open_steps_inside:
  assumes "off + sum_list (map len is) + 16 * length is \<le> length payload"
  shows "foldR (open_step L key kind ekey core np payload len) is (acc, off) \<noteq> Inl CryptPanic"
    "foldR (open_step L key kind ekey core np payload len) is (acc, off) = Inr (acc', off') \<Longrightarrow> off' = off + sum_list (map len is) + 16 * length is"
proof -
  let ?s = "open_step L key kind ekey core np payload len"
  have "foldR ?s is (acc, off) \<noteq> Inl CryptPanic \<and>
    (\<forall>acc' off'. foldR ?s is (acc, off) = Inr (acc', off') \<longrightarrow> off' = off + sum_list (map len is) + 16 * length is)"
    using assms
  proof (induction "is" arbitrary: acc off)
    case (Cons i js)
    have sl: "slice off (off + len i + tagSize) payload = Inr (take (len i + tagSize) (drop off payload))"
      using Cons.prems by (simp add: slice_def tagSize_def)
    have st: "?s i (acc, off) = Inl ErrAuthentication \<or> (\<exists>p. ?s i (acc, off) = Inr (acc @ p, off + len i + tagSize))"
      using sl by (auto simp: open_step_def split: option.splits)
    have ih: "off + len i + tagSize + sum_list (map len js) + 16 * length js \<le> length payload" using Cons.prems by (simp add: tagSize_def)
    from st show ?case
    proof
      assume "\<exists>p. ?s i (acc, off) = Inr (acc @ p, off + len i + tagSize)"
      then obtain p where "?s i (acc, off) = Inr (acc @ p, off + len i + tagSize)" by blast
      then show ?case using Cons.IH [OF ih, of "acc @ p"] by (auto simp: tagSize_def)
    qed simp
  qed simp
  then show "foldR ?s is (acc, off) \<noteq> Inl CryptPanic"
    "foldR ?s is (acc, off) = Inr (acc', off') \<Longrightarrow> off' = off + sum_list (map len is) + 16 * length is" by blast+
qed

lemma openPayload_no_panic:
  assumes "unat z < 2 ^ 63" "length payload = unat z + (records_of (unat z) + 1) * 16"
  shows "openPayload L key kind ekey core payload z np DefaultChunkSize \<noteq> Inl CryptPanic"
proof -
  have "0 + sum_list (map (record_length (unat z)) [0..<records_of (unat z)]) + 16 * length [0..<records_of (unat z)] \<le> length payload"
    using assms(2) by (simp add: sum_record_length)
  note inside = open_steps_inside [OF this, of L key kind ekey core np "[]"]
  let ?run = "foldR (open_step L key kind ekey core np payload (record_length (unat z))) [0..<records_of (unat z)] ([], 0)"
  show ?thesis
  proof (cases ?run)
    case (Inl e)
    then show ?thesis unfolding openPayload_steps [OF assms(1)] using inside(1) by simp
  next
    case (Inr r)
    obtain p off where r: "r = (p, off)" by (cases r)
    then have "off \<le> length payload" using inside(2) [of p off] Inr assms(2) by (simp add: sum_record_length)
    then show ?thesis unfolding openPayload_steps [OF assms(1)] using Inr r by (auto simp: slice_def split: option.splits)
  qed
qed

end
