(* ===== verification/Keyring.thy ===== *)
theory Keyring
  imports EnvelopeSound PathRules
begin

text \<open>
  The key derivation and the keyring of an encrypted notebook (\<open>internal/crypt/kdf.go\<close>, \<open>keyring.go\<close> and the wrapping of
  \<open>header.go\<close>).

  Random bytes are arguments: \<open>None\<close> where the source fails. Waiting for a slot of the gate is a function from the
  number of the derivation to whether the context ended first. A keyring is a record that its operations
  return updated; its mutex is held for single reads and writes of its fields.
\<close>

section \<open>Key derivation\<close>

definition minMemoryKiB :: u32 where "minMemoryKiB = push_bit 10 64"
definition maxMemoryKiB :: u32 where "maxMemoryKiB = push_bit 10 256"
definition minIterations :: u32 where "minIterations = 1"
definition maxIterations :: u32 where "maxIterations = 3"
definition minParallelism :: u8 where "minParallelism = 1"
definition maxParallelism :: u8 where "maxParallelism = 4"
definition maxSecretBytes :: nat where "maxSecretBytes = 2 ^ 10"

definition DefaultKDFParams :: KDFParams where
  "DefaultKDFParams = \<lparr>kp_MemoryKiB = push_bit 10 256, kp_Iterations = 3, kp_Parallelism = 4\<rparr>"

record kdfWindow =
  kw_minMemoryKiB :: u32
  kw_maxMemoryKiB :: u32
  kw_minIterations :: u32
  kw_maxIterations :: u32
  kw_minParallelism :: u8
  kw_maxParallelism :: u8

definition canonicalWindow :: kdfWindow where
  "canonicalWindow = \<lparr>kw_minMemoryKiB = minMemoryKiB, kw_maxMemoryKiB = maxMemoryKiB, kw_minIterations = minIterations,
     kw_maxIterations = maxIterations, kw_minParallelism = minParallelism, kw_maxParallelism = maxParallelism\<rparr>"

definition kdfWindow_validate :: "kdfWindow \<Rightarrow> KDFParams \<Rightarrow> crypt_error + unit" where
  "kdfWindow_validate w p =
     (if kp_MemoryKiB p < kw_minMemoryKiB w \<or> kp_MemoryKiB p > kw_maxMemoryKiB w then Inl ErrKDFParams
      else if kp_Iterations p < kw_minIterations w \<or> kp_Iterations p > kw_maxIterations w then Inl ErrKDFParams
      else if kp_Parallelism p < kw_minParallelism w \<or> kp_Parallelism p > kw_maxParallelism w then Inl ErrKDFParams
      else Inr ())"

definition KDFParams_Validate :: "KDFParams \<Rightarrow> crypt_error + unit" where
  "KDFParams_Validate p = kdfWindow_validate canonicalWindow p"

record KDFGate =
  kg_slots :: int
  kg_window :: kdfWindow

definition newKDFGate :: "int \<Rightarrow> kdfWindow \<Rightarrow> crypt_error + KDFGate" where
  "newKDFGate maxJobs window = (if maxJobs < 1 then Inl ErrKDFGate else Inr \<lparr>kg_slots = maxJobs, kg_window = window\<rparr>)"

definition NewKDFGate :: "int \<Rightarrow> crypt_error + KDFGate" where
  "NewKDFGate maxJobs = newKDFGate maxJobs canonicalWindow"

definition NewKDFGateForCost :: "int \<Rightarrow> KDFParams \<Rightarrow> crypt_error + KDFGate" where
  "NewKDFGateForCost maxJobs cost =
     (if kp_MemoryKiB cost < 8 * ucast (kp_Parallelism cost) \<or> kp_MemoryKiB cost > maxMemoryKiB then Inl ErrKDFParams
      else
        let window = (if kp_MemoryKiB cost < kw_minMemoryKiB canonicalWindow then canonicalWindow\<lparr>kw_minMemoryKiB := kp_MemoryKiB cost\<rparr>
                      else canonicalWindow) in
        bindR (kdfWindow_validate window cost) (\<lambda>_. newKDFGate maxJobs window))"

definition validateSecret :: "bytes \<Rightarrow> crypt_error + unit" where
  "validateSecret secret =
     (if length secret = 0 then Inl ErrSecretBounds
      else if length secret > maxSecretBytes then Inl ErrSecretBounds
      else if \<not> utf8_Valid secret then Inl ErrSecretBounds
      else Inr ())"

definition DeriveKEK :: "crypt_lib \<Rightarrow> bool \<Rightarrow> KDFGate option \<Rightarrow> bytes \<Rightarrow> bytes \<Rightarrow> KDFParams \<Rightarrow> crypt_error + bytes" where
  "DeriveKEK L cancelled gate secret salt params =
     (case gate of
        None \<Rightarrow> Inl ErrKDFGate
      | Some g \<Rightarrow>
          bindR (validateSecret secret) (\<lambda>_.
          bindR (kdfWindow_validate (kg_window g) params) (\<lambda>_.
          if cancelled then Inl CryptCancelled
          else Inr (cl_Argon2id L secret salt (kp_Iterations params) (kp_MemoryKiB params) (kp_Parallelism params)))))"

section \<open>Wrapping the notebook key\<close>

definition wrapAD :: "bytes \<Rightarrow> Door \<Rightarrow> bytes" where
  "wrapAD encodedKey door =
     ''slivingdoc/envelope/wrap/v1'' @ [CHR 0x00] @ PutUint16 formatVersion @ encodedKey @ byte_of (dr_Type door) @
     byte_of (dr_KDFID door) @ dr_Salt door @ PutUint32 (kp_MemoryKiB (dr_Params door)) @
     PutUint32 (kp_Iterations (dr_Params door)) @ byte_of (kp_Parallelism (dr_Params door))"

definition WrapKey ::
  "crypt_lib \<Rightarrow> bool \<Rightarrow> bytes option \<Rightarrow> bytes option \<Rightarrow> KDFGate option \<Rightarrow> bytes \<Rightarrow> bytes \<Rightarrow> bytes \<Rightarrow> DoorType \<Rightarrow> KDFParams \<Rightarrow> crypt_error + Door" where
  "WrapKey L cancelled salt nonce gate key secret objectKey kind params =
     (if kind \<noteq> DoorPassphrase \<and> kind \<noteq> DoorRecovery then Inl ErrUnsupportedFormat
      else
        bindR (encodeObjectKey objectKey) (\<lambda>encodedKey.
        bindR (ofOption CryptRandom salt) (\<lambda>salt.
        bindR (DeriveKEK L cancelled gate secret salt params) (\<lambda>kek.
        bindR (ofOption CryptRandom nonce) (\<lambda>nonce.
        let door = \<lparr>dr_Type = kind, dr_KDFID = kdfIDArgon2id, dr_Salt = salt, dr_Params = params, dr_Nonce = nonce, dr_WrappedKey = []\<rparr> in
        Inr (door\<lparr>dr_WrappedKey := cl_Seal L kek nonce (wrapAD encodedKey door) key\<rparr>))))))"

definition UnwrapKey :: "crypt_lib \<Rightarrow> bool \<Rightarrow> KDFGate option \<Rightarrow> Door \<Rightarrow> bytes \<Rightarrow> bytes \<Rightarrow> crypt_error + bytes" where
  "UnwrapKey L cancelled gate door secret objectKey =
     (if dr_Type door \<noteq> DoorPassphrase \<and> dr_Type door \<noteq> DoorRecovery then Inl ErrUnsupportedFormat
      else if dr_KDFID door \<noteq> kdfIDArgon2id then Inl ErrUnsupportedFormat
      else
        bindR (encodeObjectKey objectKey) (\<lambda>encodedKey.
        bindR (DeriveKEK L cancelled gate secret (dr_Salt door) (dr_Params door)) (\<lambda>kek.
        case cl_Open L kek (dr_Nonce door) (wrapAD encodedKey door) (dr_WrappedKey door) of
          None \<Rightarrow> Inl ErrKeyRejected
        | Some plaintext \<Rightarrow> Inr plaintext)))"

section \<open>The keyring\<close>

type_synonym CandidateSource = u8

definition SourceUnknown :: CandidateSource where "SourceUnknown = 0"
definition SourcePrompt :: CandidateSource where "SourcePrompt = 1"
definition SourceEnvironment :: CandidateSource where "SourceEnvironment = 2"
definition SourceEnvironmentFile :: CandidateSource where "SourceEnvironmentFile = 3"
definition SourceKeyRecord :: CandidateSource where "SourceKeyRecord = 4"
definition maxCandidateSources :: nat where "maxCandidateSources = 4"

record Candidate =
  cd_Source :: CandidateSource
  cd_Secret :: bytes

record Keyring =
  kr_key :: bytes
  kr_unlocked :: bool
  kr_source :: CandidateSource
  kr_candidates :: "Candidate list"
  kr_gate :: KDFGate

definition validate_candidate :: "Candidate \<Rightarrow> CandidateSource set \<Rightarrow> crypt_error + CandidateSource set" where
  "validate_candidate c met =
     (if cd_Source c < SourcePrompt \<or> cd_Source c > SourceKeyRecord then Inl ErrCandidateLimit
      else if cd_Source c \<in> met then Inl ErrCandidateLimit
      else bindR (validateSecret (cd_Secret c)) (\<lambda>_. Inr (insert (cd_Source c) met)))"

definition validateCandidates :: "Candidate list \<Rightarrow> crypt_error + unit" where
  "validateCandidates candidates =
     (if length candidates > maxCandidateSources then Inl ErrCandidateLimit
      else bindR (foldR validate_candidate candidates {}) (\<lambda>_. Inr ()))"

definition NewKeyring :: "Candidate list \<Rightarrow> KDFGate option \<Rightarrow> crypt_error + Keyring" where
  "NewKeyring candidates gate =
     bindR (validateCandidates candidates) (\<lambda>_.
     case gate of
       None \<Rightarrow> Inl ErrKDFGate
     | Some g \<Rightarrow> Inr \<lparr>kr_key = replicate 32 (CHR 0x00), kr_unlocked = False, kr_source = SourceUnknown, kr_candidates = candidates, kr_gate = g\<rparr>)"

definition NewUnlockedKeyring :: "bytes \<Rightarrow> Candidate list \<Rightarrow> KDFGate option \<Rightarrow> crypt_error + Keyring" where
  "NewUnlockedKeyring key candidates gate =
     bindR (validateCandidates candidates) (\<lambda>_.
     case gate of
       None \<Rightarrow> Inl ErrKDFGate
     | Some g \<Rightarrow> Inr \<lparr>kr_key = key, kr_unlocked = True, kr_source = SourceUnknown, kr_candidates = [], kr_gate = g\<rparr>)"

definition ResolvedSecret :: "Keyring \<Rightarrow> bytes option" where
  "ResolvedSecret k =
     (if \<not> kr_unlocked k then None else map_option cd_Secret (find (\<lambda>c. cd_Source c = kr_source k) (kr_candidates k)))"

definition HasCandidates :: "Keyring \<Rightarrow> bool" where "HasCandidates k \<longleftrightarrow> length (kr_candidates k) > 0"

definition AddCandidate :: "Candidate \<Rightarrow> Keyring \<Rightarrow> (crypt_error + unit) \<times> Keyring" where
  "AddCandidate c k =
     (if kr_unlocked k then (Inr (), k)
      else case validateCandidates (kr_candidates k @ [c]) of
        Inl e \<Rightarrow> (Inl e, k)
      | Inr _ \<Rightarrow> (Inr (), k\<lparr>kr_candidates := kr_candidates k @ [c]\<rparr>))"

text \<open>The search of \<open>resolve\<close>, candidate by candidate and door by door; the number counts the derivations.\<close>

fun search :: "crypt_lib \<Rightarrow> (nat \<Rightarrow> bool) \<Rightarrow> nat \<Rightarrow> KDFGate \<Rightarrow> bytes \<Rightarrow> (Candidate \<times> Door) list \<Rightarrow> crypt_error + bytes \<times> CandidateSource" where
  "search L cancelled n gate objectKey [] = Inl ErrKeyRejected"
| "search L cancelled n gate objectKey ((c, d) # rest) =
     (case UnwrapKey L (cancelled n) (Some gate) d (cd_Secret c) objectKey of
        Inr key \<Rightarrow> Inr (key, cd_Source c)
      | Inl e \<Rightarrow> if e \<noteq> ErrKeyRejected then Inl e else search L cancelled (Suc n) gate objectKey rest)"

definition resolve :: "crypt_lib \<Rightarrow> (nat \<Rightarrow> bool) \<Rightarrow> bytes \<Rightarrow> Door list \<Rightarrow> Keyring \<Rightarrow> (crypt_error + bytes) \<times> Keyring" where
  "resolve L cancelled objectKey doors k =
     (if kr_unlocked k then (Inr (kr_key k), k)
      else case search L cancelled 0 (kr_gate k) objectKey (List.product (kr_candidates k) doors) of
        Inl e \<Rightarrow> (Inl e, k)
      | Inr (key, source) \<Rightarrow> (Inr key, k\<lparr>kr_key := key, kr_unlocked := True, kr_source := source\<rparr>))"

definition unlockedKey :: "Keyring \<Rightarrow> crypt_error + bytes" where
  "unlockedKey k = (if \<not> kr_unlocked k then Inl ErrKeyringLocked else Inr (kr_key k))"

text \<open>The part of \<open>Open\<close> after the key was resolved.\<close>

definition open_with :: "crypt_lib \<Rightarrow> bytes \<Rightarrow> bytes \<Rightarrow> parsed \<Rightarrow> crypt_error + bytes \<times> Header" where
  "open_with L key encodedKey p =
     bindR (deriveKey L key headerPurpose encodedKey) (\<lambda>macKey.
     if hd_Commitment (ps_header p) \<noteq> headerCommitment L macKey (hd_Kind (ps_header p)) encodedKey (ps_body p) then Inl ErrAuthentication
     else
       bindR (deriveKey L key payloadPurpose encodedKey) (\<lambda>aeadKey.
       bindR (slice 0 coreSize (ps_body p)) (\<lambda>core.
       bindR (openPayload L aeadKey (hd_Kind (ps_header p)) encodedKey core (ps_payload p) (hd_PlaintextSize (ps_header p))
         (hd_NoncePrefix (ps_header p)) (hd_ChunkSize (ps_header p))) (\<lambda>plaintext.
       Inr (plaintext, ps_header p)))))"

definition Keyring_Open :: "crypt_lib \<Rightarrow> (nat \<Rightarrow> bool) \<Rightarrow> bytes \<Rightarrow> bytes \<Rightarrow> Keyring \<Rightarrow> (crypt_error + bytes \<times> Header) \<times> Keyring" where
  "Keyring_Open L cancelled objectKey envelope k =
     (case decodeEnvelope envelope of
        Inl e \<Rightarrow> (Inl e, k)
      | Inr p \<Rightarrow>
          (case encodeObjectKey objectKey of
             Inl e \<Rightarrow> (Inl e, k)
           | Inr encodedKey \<Rightarrow>
               (case resolve L cancelled objectKey (ps_knownDoors p) k of
                  (Inl e, k') \<Rightarrow> (Inl e, k')
                | (Inr key, k') \<Rightarrow> (open_with L key encodedKey p, k'))))"

definition seal_extended :: "crypt_lib \<Rightarrow> bytes option \<Rightarrow> bytes \<Rightarrow> ObjectKind \<Rightarrow> bytes \<Rightarrow> Door list \<Rightarrow> Extension list \<Rightarrow> Keyring \<Rightarrow> crypt_error + bytes" where
  "seal_extended L random objectKey kind plaintext doors extensions k =
     (if \<not> kind_supported kind then Inl ErrUnsupportedFormat
      else
        bindR (encodeObjectKey objectKey) (\<lambda>encodedKey.
        bindR (unlockedKey k) (\<lambda>key.
        bindR (deriveKey L key headerPurpose encodedKey) (\<lambda>macKey.
        bindR (deriveKey L key payloadPurpose encodedKey) (\<lambda>aeadKey.
        bindR (ofOption CryptRandom random) (\<lambda>noncePrefix.
        let h = \<lparr>hd_FormatVersion = formatVersion, hd_Kind = kind, hd_ChunkSize = DefaultChunkSize,
              hd_PlaintextSize = of_nat (length plaintext), hd_NoncePrefix = noncePrefix, hd_Doors = [], hd_Extensions = [],
              hd_Commitment = replicate 32 (CHR 0x00)\<rparr>;
            core = Header_core h in
        bindR (encodeDoorRecords doors) (\<lambda>records.
        bindR (encodeDoorSection records) (\<lambda>doorSection.
        bindR (encodeExtensionSection extensions) (\<lambda>extensionSection.
        bindR (encodeHeader L kind core doorSection extensionSection macKey encodedKey) (\<lambda>header.
        let envelope = assembleEnvelope kind header (sealPayload L aeadKey kind encodedKey core noncePrefix (hd_ChunkSize h) plaintext) in
        if kind = KindCurrent then bindR (checkCurrentSize (length envelope)) (\<lambda>_. Inr envelope)
        else Inr envelope))))))))))"

definition Keyring_Seal :: "crypt_lib \<Rightarrow> bytes option \<Rightarrow> bytes \<Rightarrow> ObjectKind \<Rightarrow> bytes \<Rightarrow> Door list \<Rightarrow> Keyring \<Rightarrow> crypt_error + bytes" where
  "Keyring_Seal L random objectKey kind plaintext doors k = seal_extended L random objectKey kind plaintext doors [] k"

definition WrapDoor ::
  "crypt_lib \<Rightarrow> bool \<Rightarrow> bytes option \<Rightarrow> bytes option \<Rightarrow> bytes \<Rightarrow> bytes \<Rightarrow> DoorType \<Rightarrow> KDFParams \<Rightarrow> Keyring \<Rightarrow> crypt_error + Door" where
  "WrapDoor L cancelled salt nonce objectKey secret kind params k =
     bindR (unlockedKey k) (\<lambda>key. WrapKey L cancelled salt nonce (Some (kr_gate k)) key secret objectKey kind params)"

definition Rewrap :: "crypt_lib \<Rightarrow> bytes \<Rightarrow> bytes \<Rightarrow> Door list \<Rightarrow> Keyring \<Rightarrow> crypt_error + bytes" where
  "Rewrap L objectKey envelope doors k =
     bindR (decodeEnvelope envelope) (\<lambda>p.
     bindR (encodeObjectKey objectKey) (\<lambda>encodedKey.
     bindR (unlockedKey k) (\<lambda>key.
     bindR (deriveKey L key headerPurpose encodedKey) (\<lambda>macKey.
     if hd_Commitment (ps_header p) \<noteq> headerCommitment L macKey (hd_Kind (ps_header p)) encodedKey (ps_body p) then Inl ErrAuthentication
     else
       bindR (encodeDoorRecords doors) (\<lambda>records.
       bindR (encodeDoorSection (records @ ps_unknownDoors p)) (\<lambda>doorSection.
       bindR (encodeExtensionSection (hd_Extensions (ps_header p))) (\<lambda>extensionSection.
       bindR (slice 0 coreSize (ps_body p)) (\<lambda>core.
       bindR (encodeHeader L (hd_Kind (ps_header p)) core doorSection extensionSection macKey encodedKey) (\<lambda>header.
       let rewritten = assembleEnvelope (hd_Kind (ps_header p)) header (ps_payload p) in
       if hd_Kind (ps_header p) = KindCurrent then bindR (checkCurrentSize (length rewritten)) (\<lambda>_. Inr rewritten)
       else Inr rewritten)))))))))"

section \<open>Lemmas\<close>

lemma encodeObjectKey_not_panic: "encodeObjectKey x \<noteq> Inl CryptPanic"
  by (simp add: encodeObjectKey_def)

lemma DeriveKEK_not: "DeriveKEK L c g s salt ps \<noteq> Inl CryptPanic" "DeriveKEK L c g s salt ps \<noteq> Inl ErrKeyRejected"
  by (auto simp: DeriveKEK_def bindR_def validateSecret_def kdfWindow_validate_def split: option.splits sum.splits if_splits)

lemma UnwrapKey_no_panic: "UnwrapKey L c g d secret objectKey \<noteq> Inl CryptPanic"
  using encodeObjectKey_not_panic DeriveKEK_not by (auto simp: UnwrapKey_def bindR_def split: option.splits sum.splits if_splits)

lemma search_no_panic: "search L c n g objectKey xs \<noteq> Inl CryptPanic"
  by (induction L c n g objectKey xs rule: search.induct) (auto simp: UnwrapKey_no_panic split: sum.splits)

lemma resolve_unlocked: "kr_unlocked k \<Longrightarrow> resolve L c objectKey doors k = (Inr (kr_key k), k)"
  by (simp add: resolve_def)

lemma resolve_Inr: "resolve L c objectKey doors k = (Inr key, k') \<Longrightarrow> kr_unlocked k' \<and> kr_key k' = key"
  by (auto simp: resolve_def split: if_splits sum.splits)

lemma resolve_no_panic: "fst (resolve L c objectKey doors k) \<noteq> Inl CryptPanic"
  using search_no_panic by (auto simp: resolve_def split: sum.splits)

text \<open>A key a door gave up has 32 bytes.\<close>

definition key_sized :: "Keyring \<Rightarrow> bool" where
  "key_sized k \<longleftrightarrow> (kr_unlocked k \<longrightarrow> length (kr_key k) = 32)"

lemma checked_size:
  assumes "checkPayloadLength z DefaultChunkSize n = Inr ()" "n < 2 ^ 63"
  shows "unat z < 2 ^ 63" "n = unat z + (records_of (unat z) + 1) * 16"
proof -
  show "n = unat z + (records_of (unat z) + 1) * 16" using checkPayloadLength_nat [OF assms(2)] assms(1) by simp
  then show "unat z < 2 ^ 63" using assms(2) by linarith
qed

lemma payload_length: "decodeEnvelope raw = Inr p \<Longrightarrow> length (ps_payload p) \<le> length raw"
  using preamble_parts(6) decodeEnvelope_sound(4) by (metis le_add2)

lemma core_slice: "decodeEnvelope raw = Inr p \<Longrightarrow> slice 0 coreSize (ps_body p) = Inr (Header_core (ps_header p))"
  using decodeEnvelope_sound(5,6) by (simp add: slice_def)

lemma decoded_chunkSize: "decodeEnvelope raw = Inr p \<Longrightarrow> hd_ChunkSize (ps_header p) = DefaultChunkSize"
  using decodeEnvelope_sound(1) by (auto simp: header_typed_def)

context primitives begin

lemma derived: "length key = 32 \<Longrightarrow> \<exists>d. deriveKey L key purpose ekey = Inr d \<and> length d = 32"
  using hkdf by (fastforce simp: deriveKey_def)

lemma deriveKey_length: "length key = 32 \<Longrightarrow> deriveKey L key purpose ekey = Inr d \<Longrightarrow> length d = 32"
  using derived [of key purpose ekey] by force

lemma length_sealPayload:
  assumes "length plaintext < 2 ^ 63"
  shows "length (sealPayload L key kind ekey core np DefaultChunkSize plaintext) =
    length plaintext + (records_of (length plaintext) + 1) * 16"
proof -
  let ?n = "records_of (length plaintext)"
  let ?cs = "map (chunk 65536 plaintext) [0..<?n]"
  have "length (concat (map2 (one_record L key kind ekey core np) [0..<?n] ?cs)) = length plaintext + 16 * ?n"
    using length_records [of "[0..<?n]" ?cs] records_cover [of "length plaintext"] by (simp add: chunks_concat)
  then show ?thesis
    unfolding sealPayload_records [OF assms] by (simp add: seal_length zip_map2 zip_same_conv_map comp_def case_prod_beta)
qed

end

text \<open>What a successful sealing wrote.\<close>

lemma seal_parts:
  assumes "seal_extended L (Some np) objectKey kind plaintext doors exts k = Inr env"
  obtains ekey mac aead h body where
    "encodeObjectKey objectKey = Inr ekey" "kr_unlocked k" "deriveKey L (kr_key k) headerPurpose ekey = Inr mac"
    "deriveKey L (kr_key k) payloadPurpose ekey = Inr aead" "kind_supported kind"
    "h = \<lparr>hd_FormatVersion = formatVersion, hd_Kind = kind, hd_ChunkSize = DefaultChunkSize, hd_PlaintextSize = of_nat (length plaintext),
       hd_NoncePrefix = np, hd_Doors = doors, hd_Extensions = exts, hd_Commitment = headerCommitment L mac kind ekey body\<rparr>"
    "header_body h [] body" "length body + commitmentSize \<le> MaxHeaderLength"
    "env = assembleEnvelope kind (body @ hd_Commitment h) (sealPayload L aead kind ekey (Header_core h) np DefaultChunkSize plaintext)"
proof -
  obtain ekey mac aead rs ds es header where s: "kind_supported kind" "encodeObjectKey objectKey = Inr ekey" "kr_unlocked k"
      "deriveKey L (kr_key k) headerPurpose ekey = Inr mac" "deriveKey L (kr_key k) payloadPurpose ekey = Inr aead"
      "encodeDoorRecords doors = Inr rs" "encodeDoorSection rs = Inr ds" "encodeExtensionSection exts = Inr es"
    and hd: "encodeHeader L kind (PutUint32 DefaultChunkSize @ PutUint64 (of_nat (length plaintext)) @ np) ds es mac ekey = Inr header"
    and env: "env = assembleEnvelope kind header
      (sealPayload L aead kind ekey (PutUint32 DefaultChunkSize @ PutUint64 (of_nat (length plaintext)) @ np) np DefaultChunkSize plaintext)"
    using assms by (auto simp: seal_extended_def Let_def bindR_eq_Inr unlockedKey_def Header_core_def split: if_splits)
  let ?core = "PutUint32 DefaultChunkSize @ PutUint64 (of_nat (length plaintext)) @ np"
  obtain eo where sec: "length rs \<le> 255" "ds = byte_of (of_nat (length rs)) @ concat rs" "length exts \<le> 255" "encodeExtensions exts = Inr eo"
      "es = byte_of (of_nat (length exts)) @ eo"
    using s(7,8) by (auto simp: encodeDoorSection_def encodeExtensionSection_def bindR_eq_Inr split: if_splits)
  let ?body = "?core @ ds @ es"
  have hdr: "header = ?body @ headerCommitment L mac kind ekey ?body" "length ?body + commitmentSize \<le> MaxHeaderLength"
    using hd by (auto simp: encodeHeader_def Let_def split: if_splits)
  let ?h = "\<lparr>hd_FormatVersion = formatVersion, hd_Kind = kind, hd_ChunkSize = DefaultChunkSize, hd_PlaintextSize = of_nat (length plaintext),
       hd_NoncePrefix = np, hd_Doors = doors, hd_Extensions = exts, hd_Commitment = headerCommitment L mac kind ekey ?body\<rparr>"
  have "header_body ?h [] ?body" using s(6) sec by (simp add: header_body_def Header_core_def)
  then show thesis using that [OF s(2,3,4,5,1) refl _ hdr(2)] hdr(1) env by (simp add: Header_core_def)
qed

lemma open_parts:
  "Keyring_Open L c objectKey env k = (Inr (plaintext, h), k') \<longleftrightarrow>
    (\<exists>p ekey key. decodeEnvelope env = Inr p \<and> encodeObjectKey objectKey = Inr ekey \<and>
      resolve L c objectKey (ps_knownDoors p) k = (Inr key, k') \<and> open_with L key ekey p = Inr (plaintext, h))"
  by (fastforce simp: Keyring_Open_def split: sum.splits prod.splits)

lemma open_with_Inr:
  assumes "decodeEnvelope env = Inr p"
  shows "open_with L key ekey p = Inr (plaintext, h) \<longleftrightarrow>
    (\<exists>mac aead. deriveKey L key headerPurpose ekey = Inr mac \<and> deriveKey L key payloadPurpose ekey = Inr aead \<and> h = ps_header p \<and>
      hd_Commitment h = headerCommitment L mac (hd_Kind h) ekey (ps_body p) \<and>
      openPayload L aead (hd_Kind h) ekey (Header_core h) (ps_payload p) (hd_PlaintextSize h) (hd_NoncePrefix h) DefaultChunkSize = Inr plaintext)"
  using core_slice [OF assms] decoded_chunkSize [OF assms] by (auto simp: open_with_def bindR_eq_Inr)

text \<open>Results that are no panic.\<close>

definition sane :: "crypt_error + 'a \<Rightarrow> bool" where
  "sane r \<longleftrightarrow> r \<noteq> Inl CryptPanic"

lemma sane_simps [simp]: "sane (Inr x)" "sane (Inl e) \<longleftrightarrow> e \<noteq> CryptPanic"
  by (simp_all add: sane_def)

lemma sane_bind [intro!]: "sane r \<Longrightarrow> (\<And>x. r = Inr x \<Longrightarrow> sane (f x)) \<Longrightarrow> sane (bindR r f)"
  by (cases r) auto

lemma sane_reads [simp]: "sane (rd_take n b)" "sane (rd_u8 b)" "sane (rd_u16 b)" "sane (rd_u32 b)" "sane (rd_u64 b)"
  by (auto simp: rd_take_def rd_u8_def rd_u16_def rd_u32_def rd_u64_def split: list.splits)

lemma sane_decodeDoors [simp]: "sane (decodeDoors n b)"
  by (induction n arbitrary: b) (auto simp: case_prod_beta)

lemma sane_decodeExtensions [simp]: "sane (decodeExtensions n met b)"
  by (induction n arbitrary: met b) (auto simp: case_prod_beta)

lemma sane_decodeEnvelope: "sane (decodeEnvelope raw)"
  unfolding decodeEnvelope_def decodeHeader_def checkPayloadLength_def Let_def case_prod_beta by auto

lemma decodeEnvelope_no_panic: "decodeEnvelope raw \<noteq> Inl CryptPanic"
  using sane_decodeEnvelope [of raw] by (simp add: sane_def)

lemma open_with_no_panic:
  assumes "decodeEnvelope env = Inr p" "length (ps_payload p) < 2 ^ 63"
  shows "open_with L key ekey p \<noteq> Inl CryptPanic"
proof -
  note z = checked_size [OF decodeEnvelope_sound(10) [OF assms(1), unfolded decoded_chunkSize [OF assms(1)]] assms(2)]
  have d: "sane (deriveKey L key purpose ekey)" for purpose by (simp add: deriveKey_def ofOption_def split: option.splits)
  have o: "sane (openPayload L aead (hd_Kind (ps_header p)) ekey core (ps_payload p) (hd_PlaintextSize (ps_header p)) np DefaultChunkSize)"
    for aead core np using openPayload_no_panic [OF z] by (simp add: sane_def)
  have "sane (open_with L key ekey p)"
    unfolding open_with_def core_slice [OF assms(1)] decoded_chunkSize [OF assms(1)] using d o by auto
  then show ?thesis by (simp add: sane_def)
qed

text \<open>Opening what was sealed, and what an envelope that opens is made of.\<close>

context primitives begin

lemma sealed_decodes:
  assumes "length np = 16" "list_all door_typed doors" "length plaintext < 2 ^ 62" "distinct (map ex_Type exts)"
    and seal: "seal_extended L (Some np) objectKey kind plaintext doors exts k = Inr env"
  obtains ekey mac aead h body where
    "encodeObjectKey objectKey = Inr ekey" "kr_unlocked k" "deriveKey L (kr_key k) headerPurpose ekey = Inr mac"
    "deriveKey L (kr_key k) payloadPurpose ekey = Inr aead" "hd_Kind h = kind" "hd_Doors h = doors" "hd_Extensions h = exts"
    "hd_NoncePrefix h = np" "unat (hd_PlaintextSize h) = length plaintext" "hd_Commitment h = headerCommitment L mac kind ekey body"
    "decodeEnvelope env = Inr \<lparr>ps_header = h, ps_body = body, ps_knownDoors = doors, ps_unknownDoors = [],
       ps_payload = sealPayload L aead kind ekey (Header_core h) np DefaultChunkSize plaintext\<rparr>"
    "length (sealPayload L aead kind ekey (Header_core h) np DefaultChunkSize plaintext) < 2 ^ 63"
  using seal
proof (rule seal_parts)
  fix ekey mac aead h body
  let ?payload = "sealPayload L aead kind ekey (Header_core h) np DefaultChunkSize plaintext"
  assume s: "encodeObjectKey objectKey = Inr ekey" "kr_unlocked k" "deriveKey L (kr_key k) headerPurpose ekey = Inr mac"
    "deriveKey L (kr_key k) payloadPurpose ekey = Inr aead" "kind_supported kind"
    and h: "h = \<lparr>hd_FormatVersion = formatVersion, hd_Kind = kind, hd_ChunkSize = DefaultChunkSize, hd_PlaintextSize = of_nat (length plaintext),
       hd_NoncePrefix = np, hd_Doors = doors, hd_Extensions = exts, hd_Commitment = headerCommitment L mac kind ekey body\<rparr>"
    and b: "header_body h [] body" "length body + commitmentSize \<le> MaxHeaderLength" "env = assembleEnvelope kind (body @ hd_Commitment h) ?payload"
  have t: "header_typed h" using assms(1,2,4) s(5) by (simp add: h header_typed_def headerCommitment_def mac_length)
  have u: "unat (hd_PlaintextSize h) = length plaintext" using assms(3) by (simp add: h unsigned_of_nat take_bit_nat_eq_self)
  have l: "length ?payload = unat (hd_PlaintextSize h) + (records_of (unat (hd_PlaintextSize h)) + 1) * 16"
    using length_sealPayload [of plaintext] assms(3) u by simp
  have "records_of (length plaintext) \<le> 2 ^ 47" using assms(3) by (simp add: records_of_def)
  then have n: "length ?payload < 2 ^ 63" using l u assms(3) by simp
  then have "decodeEnvelope env = Inr \<lparr>ps_header = h, ps_body = body, ps_knownDoors = hd_Doors h, ps_unknownDoors = [], ps_payload = ?payload\<rparr>"
    using decodeEnvelope_assemble [OF t b(1) _ b(2) _ l] b(3) h by simp
  then show thesis using that [OF s(1-4), of h body] u h n by simp
qed

lemma open_with_iff:
  assumes "length key = 32" "decodeEnvelope env = Inr p" "length (ps_payload p) < 2 ^ 63"
  shows "open_with L key ekey p = Inr (plaintext, h) \<longleftrightarrow>
    (\<exists>mac aead. deriveKey L key headerPurpose ekey = Inr mac \<and> deriveKey L key payloadPurpose ekey = Inr aead \<and> h = ps_header p \<and>
      hd_Commitment h = headerCommitment L mac (hd_Kind h) ekey (ps_body p) \<and> length plaintext = unat (hd_PlaintextSize h) \<and>
      ps_payload p = sealPayload L aead (hd_Kind h) ekey (Header_core h) (hd_NoncePrefix h) DefaultChunkSize plaintext)"
proof -
  note z = checked_size [OF decodeEnvelope_sound(10) [OF assms(2), unfolded decoded_chunkSize [OF assms(2)]] assms(3)]
  have np: "length (hd_NoncePrefix (ps_header p)) = 16" using decodeEnvelope_sound(1) [OF assms(2)] by (simp add: header_typed_def)
  have "openPayload L aead (hd_Kind (ps_header p)) ekey (Header_core (ps_header p)) (ps_payload p) (hd_PlaintextSize (ps_header p))
      (hd_NoncePrefix (ps_header p)) DefaultChunkSize = Inr plaintext \<longleftrightarrow>
    length plaintext = unat (hd_PlaintextSize (ps_header p)) \<and>
    ps_payload p = sealPayload L aead (hd_Kind (ps_header p)) ekey (Header_core (ps_header p)) (hd_NoncePrefix (ps_header p)) DefaultChunkSize plaintext"
    if "length aead = 32" for aead
    using openPayload_iff [OF that np z] .
  then show ?thesis unfolding open_with_Inr [OF assms(2)] using deriveKey_length [OF assms(1)] by blast
qed

lemma UnwrapKey_length:
  assumes "UnwrapKey L c (Some g) d secret objectKey = Inr key" "door_typed d" shows "length key = 32"
proof -
  obtain kek ad where kek: "DeriveKEK L c (Some g) secret (dr_Salt d) (dr_Params d) = Inr kek" "cl_Open L kek (dr_Nonce d) ad (dr_WrappedKey d) = Some key"
    using assms(1) by (auto simp: UnwrapKey_def bindR_eq_Inr split: if_splits option.splits)
  have "length kek = 32" using kek(1) argon by (auto simp: DeriveKEK_def bindR_eq_Inr split: if_splits)
  then have "dr_WrappedKey d = cl_Seal L kek (dr_Nonce d) ad key" using open_seal kek(2) assms(2) by (simp add: door_typed_def)
  then show ?thesis using assms(2) by (simp add: door_typed_def seal_length)
qed

lemma search_length: "search L c n g objectKey xs = Inr (key, src) \<Longrightarrow> \<forall>x \<in> set xs. door_typed (snd x) \<Longrightarrow> length key = 32"
proof (induction xs arbitrary: n)
  case (Cons x xs)
  obtain cand d where x: "x = (cand, d)" by (cases x)
  show ?case
  proof (cases "UnwrapKey L (c n) (Some g) d (cd_Secret cand) objectKey")
    case (Inl e)
    then show ?thesis using Cons by (simp add: x split: if_splits)
  next
    case (Inr key')
    then show ?thesis using Cons.prems UnwrapKey_length [OF Inr] by (simp add: x)
  qed
qed simp

lemma resolve_length:
  assumes "resolve L c objectKey doors k = (Inr key, k')" "key_sized k" "list_all door_typed doors" shows "length key = 32"
  using assms search_length [of c 0 "kr_gate k" objectKey "List.product (kr_candidates k) doors" key]
  by (auto simp: resolve_def key_sized_def list_all_iff split: if_splits sum.splits)

lemma sealed_length:
  assumes "length np = 16" "length plaintext < 2 ^ 62" and seal: "seal_extended L (Some np) objectKey kind plaintext doors exts k = Inr env"
  shows "length env < 2 ^ 63"
  using seal
proof (rule seal_parts)
  fix ekey mac aead h body
  assume h: "h = \<lparr>hd_FormatVersion = formatVersion, hd_Kind = kind, hd_ChunkSize = DefaultChunkSize, hd_PlaintextSize = of_nat (length plaintext),
       hd_NoncePrefix = np, hd_Doors = doors, hd_Extensions = exts, hd_Commitment = headerCommitment L mac kind ekey body\<rparr>"
    and b: "length body + commitmentSize \<le> MaxHeaderLength"
      "env = assembleEnvelope kind (body @ hd_Commitment h) (sealPayload L aead kind ekey (Header_core h) np DefaultChunkSize plaintext)"
  have "length (hd_Commitment h) = 32" by (simp add: h headerCommitment_def mac_length)
  moreover have "records_of (length plaintext) \<le> 2 ^ 47" using assms(2) by (simp add: records_of_def)
  ultimately show "length env < 2 ^ 63"
    using b(1) assms(2) length_sealPayload [of plaintext] unfolding b(2) preamble_parts(6) by (simp add: sizes MaxHeaderLength_def)
qed

lemma open_sealed:
  assumes "length (kr_key k) = 32" "length np = 16" "list_all door_typed doors" "length plaintext < 2 ^ 62"
    and seal: "Keyring_Seal L (Some np) objectKey kind plaintext doors k = Inr env"
    and key: "resolve L cancelled objectKey doors k2 = (Inr (kr_key k), k2')"
  shows "\<exists>h. Keyring_Open L cancelled objectKey env k2 = (Inr (plaintext, h), k2') \<and> hd_Kind h = kind \<and> hd_Doors h = doors \<and> hd_Extensions h = []"
proof -
  note P = sealed_decodes [OF assms(2,3,4) _ seal [unfolded Keyring_Seal_def]]
  obtain ekey mac aead h body where p: "encodeObjectKey objectKey = Inr ekey" "deriveKey L (kr_key k) headerPurpose ekey = Inr mac"
    "deriveKey L (kr_key k) payloadPurpose ekey = Inr aead" "hd_Kind h = kind" "hd_Doors h = doors" "hd_Extensions h = []"
    "hd_NoncePrefix h = np" "unat (hd_PlaintextSize h) = length plaintext" "hd_Commitment h = headerCommitment L mac kind ekey body"
    and d: "decodeEnvelope env = Inr \<lparr>ps_header = h, ps_body = body, ps_knownDoors = doors, ps_unknownDoors = [],
       ps_payload = sealPayload L aead kind ekey (Header_core h) np DefaultChunkSize plaintext\<rparr>"
    and n: "length (sealPayload L aead kind ekey (Header_core h) np DefaultChunkSize plaintext) < 2 ^ 63"
    by (rule P) (simp, blast)
  have "open_with L (kr_key k) ekey \<lparr>ps_header = h, ps_body = body, ps_knownDoors = doors, ps_unknownDoors = [],
       ps_payload = sealPayload L aead kind ekey (Header_core h) np DefaultChunkSize plaintext\<rparr> = Inr (plaintext, h)"
    using open_with_iff [OF assms(1) d] n p by simp
  then show ?thesis using d p(1,4-6) key by (intro exI [of _ h]) (simp add: open_parts)
qed

end

section \<open>A sealed object\<close>

definition sample_door :: Door where
  "sample_door = \<lparr>dr_Type = DoorPassphrase, dr_KDFID = kdfIDArgon2id, dr_Salt = replicate 16 (CHR ''s''), dr_Params = DefaultKDFParams,
     dr_Nonce = replicate 24 (CHR ''n''), dr_WrappedKey = replicate 48 (CHR ''w'')\<rparr>"

definition sample_keyring :: Keyring where
  "sample_keyring = \<lparr>kr_key = replicate 32 (CHR ''k''), kr_unlocked = True, kr_source = SourceUnknown, kr_candidates = [],
     kr_gate = \<lparr>kg_slots = 1, kg_window = canonicalWindow\<rparr>\<rparr>"

definition sample_prefix :: bytes where "sample_prefix = replicate 16 (CHR ''r'')"

lemma sample_typed: "length (kr_key sample_keyring) = 32" "kr_unlocked sample_keyring" "length sample_prefix = 16" "list_all door_typed [sample_door]"
  by (simp_all add: sample_keyring_def sample_prefix_def sample_door_def door_typed_def)

lemma sample_seals: "\<exists>env. Keyring_Seal checksum_crypt (Some sample_prefix) ''current'' KindPack ''note'' [sample_door] sample_keyring = Inr env"
proof -
  have "length (encodeDoorBody sample_door) = 97" by (simp add: encodeDoorBody_def sample_door_def)
  then show ?thesis
    by (simp add: Keyring_Seal_def seal_extended_def kind_supported_def KindPack_def KindCurrent_def encodeObjectKey_def unlockedKey_def sample_typed
      deriveKey_def checksum_crypt_def Let_def encodeDoorRecord_def sample_door_def encodeDoorSection_def encodeExtensionSection_def
      encodeHeader_def Header_core_def commitmentSize_def MaxHeaderLength_def)
qed

lemma sample_opens:
  obtains env h where "Keyring_Seal checksum_crypt (Some sample_prefix) ''current'' KindPack ''note'' [sample_door] sample_keyring = Inr env"
    "Keyring_Open checksum_crypt (\<lambda>_. False) ''current'' env sample_keyring = (Inr (''note'', h), sample_keyring)" "length env < 2 ^ 63"
proof -
  obtain env where e: "Keyring_Seal checksum_crypt (Some sample_prefix) ''current'' KindPack ''note'' [sample_door] sample_keyring = Inr env"
    using sample_seals by blast
  have r: "resolve checksum_crypt (\<lambda>_. False) ''current'' [sample_door] sample_keyring = (Inr (kr_key sample_keyring), sample_keyring)"
    by (simp add: resolve_unlocked sample_typed)
  show thesis
    using checksum.open_sealed [OF sample_typed(1,3,4) _ e r] checksum.sealed_length [OF sample_typed(3) _ e [unfolded Keyring_Seal_def]] that e by fastforce
qed

lemma sample_rewraps:
  assumes "Keyring_Seal checksum_crypt (Some sample_prefix) ''current'' KindPack ''note'' [sample_door] sample_keyring = Inr env"
  shows "\<exists>env'. Rewrap checksum_crypt ''current'' env [sample_door, sample_door] sample_keyring = Inr env'"
proof (rule checksum.sealed_decodes [OF sample_typed(3,4) _ _ assms [unfolded Keyring_Seal_def]])
  fix ekey mac aead h body
  assume a: "encodeObjectKey ''current'' = Inr ekey" "deriveKey checksum_crypt (kr_key sample_keyring) headerPurpose ekey = Inr mac"
    "hd_Kind h = KindPack" "hd_Extensions h = []" "hd_Commitment h = headerCommitment checksum_crypt mac KindPack ekey body"
    and d: "decodeEnvelope env = Inr \<lparr>ps_header = h, ps_body = body, ps_knownDoors = [sample_door], ps_unknownDoors = [],
       ps_payload = sealPayload checksum_crypt aead KindPack ekey (Header_core h) sample_prefix DefaultChunkSize ''note''\<rparr>"
  have "length (encodeDoorBody sample_door) = 97" by (simp add: encodeDoorBody_def sample_door_def)
  moreover have "length (Header_core h) = 28" using decodeEnvelope_sound(1) [OF d] by (simp add: Header_core_def header_typed_def)
  ultimately show ?thesis
    using a d core_slice [OF d]
    by (simp add: Rewrap_def unlockedKey_def sample_typed Let_def encodeDoorRecord_def sample_door_def encodeDoorSection_def encodeExtensionSection_def
      encodeHeader_def commitmentSize_def MaxHeaderLength_def KindPack_def KindCurrent_def)
qed simp_all

lemma sample_derives:
  "DeriveKEK checksum_crypt False (Some (kr_gate sample_keyring)) ''secret'' salt DefaultKDFParams =
    Inr (cl_Argon2id checksum_crypt ''secret'' salt 3 (push_bit 10 256) 4)"
  by (simp add: DeriveKEK_def sample_keyring_def validateSecret_def path_eval maxSecretBytes_def kdfWindow_validate_def canonicalWindow_def DefaultKDFParams_def
    minMemoryKiB_def maxMemoryKiB_def minIterations_def maxIterations_def minParallelism_def maxParallelism_def)

text \<open>A rewritten envelope: its parts, and the plaintext it opens to.\<close>

lemma Rewrap_opens:
  assumes "primitives L" "length (kr_key k) = 32" "list_all door_typed doors" "length env < 2 ^ 63"
    and rewrap: "Rewrap L objectKey env doors k = Inr env'"
  shows "\<exists>p p'. decodeEnvelope env = Inr p \<and> decodeEnvelope env' = Inr p' \<and> ps_payload p' = ps_payload p \<and>
    ps_unknownDoors p' = ps_unknownDoors p \<and> hd_Extensions (ps_header p') = hd_Extensions (ps_header p) \<and> hd_Doors (ps_header p') = doors \<and>
    map_sum id fst (fst (Keyring_Open L cancelled objectKey env' k)) = map_sum id fst (fst (Keyring_Open L cancelled objectKey env k))"
proof -
  obtain p ekey mac rs ds es header where r: "decodeEnvelope env = Inr p" "encodeObjectKey objectKey = Inr ekey" "kr_unlocked k"
      "deriveKey L (kr_key k) headerPurpose ekey = Inr mac" "hd_Commitment (ps_header p) = headerCommitment L mac (hd_Kind (ps_header p)) ekey (ps_body p)"
      "encodeDoorRecords doors = Inr rs" "encodeDoorSection (rs @ ps_unknownDoors p) = Inr ds"
      "encodeExtensionSection (hd_Extensions (ps_header p)) = Inr es"
    and hd: "encodeHeader L (hd_Kind (ps_header p)) (Header_core (ps_header p)) ds es mac ekey = Inr header"
    and env': "env' = assembleEnvelope (hd_Kind (ps_header p)) header (ps_payload p)"
    using rewrap core_slice by (auto simp: Rewrap_def Let_def bindR_eq_Inr unlockedKey_def split: if_splits)
  let ?h = "ps_header p" and ?body = "Header_core (ps_header p) @ ds @ es"
  let ?h' = "?h\<lparr>hd_Doors := doors, hd_Commitment := headerCommitment L mac (hd_Kind ?h) ekey ?body\<rparr>"
  note so = decodeEnvelope_sound [OF r(1)]
  obtain eo where sec: "length (rs @ ps_unknownDoors p) \<le> 255" "ds = byte_of (of_nat (length (rs @ ps_unknownDoors p))) @ concat (rs @ ps_unknownDoors p)"
      "length (hd_Extensions ?h) \<le> 255" "encodeExtensions (hd_Extensions ?h) = Inr eo" "es = byte_of (of_nat (length (hd_Extensions ?h))) @ eo"
    using r(7,8) by (auto simp: encodeDoorSection_def encodeExtensionSection_def bindR_eq_Inr split: if_splits)
  have hdr: "header = ?body @ hd_Commitment ?h'" "length ?body + commitmentSize \<le> MaxHeaderLength"
    using hd by (auto simp: encodeHeader_def Let_def split: if_splits)
  have t: "header_typed ?h'" using so(1) assms(3) by (simp add: header_typed_def headerCommitment_def primitives.mac_length [OF assms(1)])
  have b: "header_body ?h' (ps_unknownDoors p) ?body" using r(6) sec by (simp add: header_body_def Header_core_def)
  have n: "length (ps_payload p) < 2 ^ 63" using payload_length [OF r(1)] assms(4) by linarith
  note z = checked_size [OF so(10) [unfolded decoded_chunkSize [OF r(1)]] n]
  let ?p' = "\<lparr>ps_header = ?h', ps_body = ?body, ps_knownDoors = doors, ps_unknownDoors = ps_unknownDoors p, ps_payload = ps_payload p\<rparr>"
  have d: "decodeEnvelope env' = Inr ?p'"
    using decodeEnvelope_assemble [OF t b so(2) hdr(2) n] z(2) env' hdr(1) by simp
  have c: "Header_core ?h' = Header_core ?h" by (simp add: Header_core_def)
  have "map_sum id fst (open_with L (kr_key k) ekey ?p') = map_sum id fst (open_with L (kr_key k) ekey p)"
    unfolding open_with_def using core_slice [OF r(1)] core_slice [OF d] r(4,5) c by (auto simp: bindR_def split: sum.splits)
  then have "map_sum id fst (fst (Keyring_Open L cancelled objectKey env' k)) = map_sum id fst (fst (Keyring_Open L cancelled objectKey env k))"
    using r(1-3) d by (simp add: Keyring_Open_def resolve_unlocked)
  then show ?thesis using r(1) d by (intro exI [of _ p] exI [of _ ?p']) simp
qed

section \<open>Properties\<close>

text \<open>Whoever holds the notebook key opens a sealed envelope under its object key and gets back the plaintext, the kind and
  the doors it was sealed with.\<close>

theorem sealed_opens:
  assumes "primitives L" "length (kr_key k) = 32" "length np = 16" "list_all door_typed doors" "length plaintext < 2 ^ 62"
    and seal: "Keyring_Seal L (Some np) objectKey kind plaintext doors k = Inr env"
    and key: "resolve L cancelled objectKey doors k2 = (Inr (kr_key k), k2')"
  shows "\<exists>h. Keyring_Open L cancelled objectKey env k2 = (Inr (plaintext, h), k2') \<and> hd_Kind h = kind \<and> hd_Doors h = doors \<and> hd_Extensions h = []"
  using primitives.open_sealed [OF assms(1-5) seal key] .

theorem sealed_opens_witness:
  "\<exists>env h. Keyring_Seal checksum_crypt (Some sample_prefix) ''current'' KindPack ''note'' [sample_door] sample_keyring = Inr env \<and>
    Keyring_Open checksum_crypt (\<lambda>_. False) ''current'' env sample_keyring = (Inr (''note'', h), sample_keyring) \<and> hd_Doors h = [sample_door]"
proof -
  obtain env where e: "Keyring_Seal checksum_crypt (Some sample_prefix) ''current'' KindPack ''note'' [sample_door] sample_keyring = Inr env"
    using sample_seals by blast
  show ?thesis
    using sealed_opens [OF checksum.primitives_axioms sample_typed(1,3,4) _ e, of "\<lambda>_. False" sample_keyring sample_keyring] e
    by (auto simp: resolve_unlocked sample_typed)
qed

text \<open>C18: an envelope that opens is, byte for byte, the preamble, a body, its commitment under the key the keyring now holds and
  the sealing of the returned plaintext, both bound to the object key and the kind; nothing else opens.\<close>

theorem opened_exact:
  assumes "primitives L" "key_sized k" "length env < 2 ^ 63"
    and opened: "Keyring_Open L cancelled objectKey env k = (Inr (plaintext, h), k')"
  shows "kr_unlocked k' \<and> length plaintext = unat (hd_PlaintextSize h) \<and>
    (\<exists>ekey mac aead body. encodeObjectKey objectKey = Inr ekey \<and> deriveKey L (kr_key k') headerPurpose ekey = Inr mac \<and>
      deriveKey L (kr_key k') payloadPurpose ekey = Inr aead \<and>
      env = assembleEnvelope (hd_Kind h) (body @ headerCommitment L mac (hd_Kind h) ekey body)
        (sealPayload L aead (hd_Kind h) ekey (Header_core h) (hd_NoncePrefix h) DefaultChunkSize plaintext))"
proof -
  obtain p ekey key where o: "decodeEnvelope env = Inr p" "encodeObjectKey objectKey = Inr ekey"
    "resolve L cancelled objectKey (ps_knownDoors p) k = (Inr key, k')" "open_with L key ekey p = Inr (plaintext, h)"
    using opened by (auto simp: open_parts)
  note so = decodeEnvelope_sound [OF o(1)]
  have n: "length (ps_payload p) < 2 ^ 63" using payload_length [OF o(1)] assms(3) by linarith
  have "list_all door_typed (ps_knownDoors p)" using so(1,3) by (simp add: header_typed_def)
  then have "length key = 32" using primitives.resolve_length [OF assms(1) o(3) assms(2)] by blast
  from primitives.open_with_iff [OF assms(1) this o(1) n] o(4) obtain mac aead where
    "deriveKey L key headerPurpose ekey = Inr mac" "deriveKey L key payloadPurpose ekey = Inr aead" "h = ps_header p"
    "hd_Commitment h = headerCommitment L mac (hd_Kind h) ekey (ps_body p)" "length plaintext = unat (hd_PlaintextSize h)"
    "ps_payload p = sealPayload L aead (hd_Kind h) ekey (Header_core h) (hd_NoncePrefix h) DefaultChunkSize plaintext" by blast
  then show ?thesis using resolve_Inr [OF o(3)] so(4) o(2) by auto
qed

theorem opened_exact_witness:
  "\<exists>env h ekey mac aead body. Keyring_Open checksum_crypt (\<lambda>_. False) ''current'' env sample_keyring = (Inr (''note'', h), sample_keyring) \<and>
    env = assembleEnvelope (hd_Kind h) (body @ headerCommitment checksum_crypt mac (hd_Kind h) ekey body)
        (sealPayload checksum_crypt aead (hd_Kind h) ekey (Header_core h) (hd_NoncePrefix h) DefaultChunkSize ''note'')"
proof (rule sample_opens)
  fix env h
  assume o: "Keyring_Open checksum_crypt (\<lambda>_. False) ''current'' env sample_keyring = (Inr (''note'', h), sample_keyring)" "length env < 2 ^ 63"
  have "key_sized sample_keyring" by (simp add: key_sized_def sample_typed)
  from opened_exact [OF checksum.primitives_axioms this o(2,1)] o(1) show ?thesis by blast
qed



text \<open>A door change keeps the payload, the extensions and the doors of unknown types byte for byte, and the rewritten
  envelope opens to the same plaintext under the same key, with the doors given.\<close>

theorem rewrap_keeps:
  assumes "primitives L" "length (kr_key k) = 32" "list_all door_typed doors" "length env < 2 ^ 63"
    and rewrap: "Rewrap L objectKey env doors k = Inr env'"
  shows "\<exists>p p'. decodeEnvelope env = Inr p \<and> decodeEnvelope env' = Inr p' \<and> ps_payload p' = ps_payload p \<and>
    ps_unknownDoors p' = ps_unknownDoors p \<and> hd_Extensions (ps_header p') = hd_Extensions (ps_header p) \<and> hd_Doors (ps_header p') = doors \<and>
    map_sum id fst (fst (Keyring_Open L cancelled objectKey env' k)) = map_sum id fst (fst (Keyring_Open L cancelled objectKey env k))"
  using Rewrap_opens [OF assms] .

theorem rewrap_keeps_witness:
  "\<exists>env env' p p'. Rewrap checksum_crypt ''current'' env [sample_door, sample_door] sample_keyring = Inr env' \<and> decodeEnvelope env = Inr p \<and>
    decodeEnvelope env' = Inr p' \<and> ps_payload p' = ps_payload p \<and> hd_Doors (ps_header p') = [sample_door, sample_door]"
proof (rule sample_opens)
  fix env h
  assume o: "Keyring_Seal checksum_crypt (Some sample_prefix) ''current'' KindPack ''note'' [sample_door] sample_keyring = Inr env" "length env < 2 ^ 63"
  obtain env' where r: "Rewrap checksum_crypt ''current'' env [sample_door, sample_door] sample_keyring = Inr env'" using sample_rewraps [OF o(1)] by blast
  have "list_all door_typed [sample_door, sample_door]" using sample_typed(4) by simp
  from rewrap_keeps [OF checksum.primitives_axioms sample_typed(1) this o(2) r] r show ?thesis by blast
qed

text \<open>A secret opens the door it was wrapped into, under the same object key, and gives the notebook key back.\<close>

theorem unwrap_wrap:
  assumes "primitives L" "length nonce = 24"
    and wrap: "WrapKey L cancelled (Some salt) (Some nonce) gate key secret objectKey kind params = Inr door"
  shows "UnwrapKey L False gate door secret objectKey = Inr key"
proof -
  obtain ekey kek where w: "kind = DoorPassphrase \<or> kind = DoorRecovery" "encodeObjectKey objectKey = Inr ekey"
      "DeriveKEK L cancelled gate secret salt params = Inr kek"
    and door: "door = \<lparr>dr_Type = kind, dr_KDFID = kdfIDArgon2id, dr_Salt = salt, dr_Params = params, dr_Nonce = nonce,
      dr_WrappedKey = cl_Seal L kek nonce (wrapAD ekey \<lparr>dr_Type = kind, dr_KDFID = kdfIDArgon2id, dr_Salt = salt, dr_Params = params,
        dr_Nonce = nonce, dr_WrappedKey = []\<rparr>) key\<rparr>"
    using wrap by (auto simp: WrapKey_def bindR_eq_Inr Let_def split: if_splits)
  have kek: "length kek = 32" "DeriveKEK L False gate secret salt params = Inr kek"
    using w(3) primitives.argon [OF assms(1)] by (auto simp: DeriveKEK_def bindR_eq_Inr split: if_splits option.splits)
  have "wrapAD ekey door = wrapAD ekey \<lparr>dr_Type = kind, dr_KDFID = kdfIDArgon2id, dr_Salt = salt, dr_Params = params,
        dr_Nonce = nonce, dr_WrappedKey = []\<rparr>" by (simp add: wrapAD_def door)
  then have "cl_Open L kek nonce (wrapAD ekey door) (dr_WrappedKey door) = Some key"
    using primitives.open_seal [OF assms(1) kek(1) assms(2)] by (simp add: door)
  then show ?thesis using w(1,2) kek(2) by (auto simp: UnwrapKey_def door)
qed

theorem unwrap_wrap_witness:
  "\<exists>door. WrapKey checksum_crypt False (Some (replicate 16 (CHR ''s''))) (Some (replicate 24 (CHR ''n''))) (Some (kr_gate sample_keyring))
      (kr_key sample_keyring) ''secret'' ''current'' DoorPassphrase DefaultKDFParams = Inr door \<and>
    UnwrapKey checksum_crypt False (Some (kr_gate sample_keyring)) door ''secret'' ''current'' = Inr (kr_key sample_keyring)"
proof -
  obtain door where w: "WrapKey checksum_crypt False (Some (replicate 16 (CHR ''s''))) (Some (replicate 24 (CHR ''n''))) (Some (kr_gate sample_keyring))
      (kr_key sample_keyring) ''secret'' ''current'' DoorPassphrase DefaultKDFParams = Inr door"
    using sample_derives by (auto simp: WrapKey_def encodeObjectKey_def Let_def)
  from unwrap_wrap [OF checksum.primitives_axioms _ w] w show ?thesis by simp
qed

text \<open>A gate never lets a derivation run above 256 MiB, three passes or four lanes, nor with zero passes or lanes, whatever cost it was made for.\<close>

theorem derivations_bounded:
  assumes "NewKDFGateForCost jobs cost = Inr g \<or> NewKDFGate jobs = Inr g" "DeriveKEK L cancelled (Some g) secret salt params = Inr kek"
  shows "unat (kp_MemoryKiB params) \<le> 2 ^ 18 \<and> unat (kp_Iterations params) \<in> {1..3} \<and> unat (kp_Parallelism params) \<in> {1..4} \<and>
    length secret \<in> {1..1024} \<and> 0 < kg_slots g"
proof -
  note b = minIterations_def maxIterations_def minParallelism_def maxParallelism_def maxMemoryKiB_def
  have w: "kw_maxMemoryKiB (kg_window g) = maxMemoryKiB" "kw_minIterations (kg_window g) = minIterations" "kw_maxIterations (kg_window g) = maxIterations"
      "kw_minParallelism (kg_window g) = minParallelism" "kw_maxParallelism (kg_window g) = maxParallelism" "0 < kg_slots g"
    using assms(1) by (auto simp: NewKDFGateForCost_def NewKDFGate_def newKDFGate_def canonicalWindow_def Let_def bindR_eq_Inr split: if_splits)
  have p: "kp_MemoryKiB params \<le> maxMemoryKiB" "minIterations \<le> kp_Iterations params" "kp_Iterations params \<le> maxIterations"
      "minParallelism \<le> kp_Parallelism params" "kp_Parallelism params \<le> maxParallelism" and s: "0 < length secret" "length secret \<le> maxSecretBytes"
    using assms(2) w by (auto simp: DeriveKEK_def kdfWindow_validate_def validateSecret_def bindR_eq_Inr split: if_splits)
  have "unat (kp_MemoryKiB params) \<le> 2 ^ 18" using p(1) by (simp add: word_le_nat_alt maxMemoryKiB_def push_bit_eq_mult)
  moreover have "unat (kp_Iterations params) \<in> {1..3}" "unat (kp_Parallelism params) \<in> {1..4}"
    using p(2-5) by (simp_all add: word_le_nat_alt b)
  ultimately show ?thesis using s w(6) by (simp add: maxSecretBytes_def Suc_le_eq)
qed

theorem derivations_bounded_witness:
  "NewKDFGate 1 = Inr (kr_gate sample_keyring) \<and> unat (kp_MemoryKiB DefaultKDFParams) \<le> 2 ^ 18 \<and> unat (kp_Parallelism DefaultKDFParams) \<in> {1..4}"
proof -
  have g: "NewKDFGate 1 = Inr (kr_gate sample_keyring)" by (simp add: NewKDFGate_def newKDFGate_def sample_keyring_def)
  from derivations_bounded [OF disjI2 [OF g] sample_derives [of "replicate 16 (CHR ''s'')"]] g show ?thesis by simp
qed

end
