(* ===== verification/EncryptedStore.thy ===== *)
theory EncryptedStore
  imports Keyring ObjectStore JsonText
begin

text \<open>
  The encrypting decorator of an object store (\<open>internal/storage/encrypted.go\<close>). It is an \<open>ObjectStore\<close> over the pair of the raw
  store's state and its own: the resolved mode, the doors of the encrypted \<open>current\<close> opened last, and the keyring.
  What a call draws from outside, random bytes and the end of its context, is the environment's answer to the
  number of the keyring call, so a call is a function of the state.

  \<open>encrypted_contract\<close>: while the mode is encrypted, the decorated store changes the decrypted view of the raw store
  the way the contract of a conditional store says, so a notebook above it runs on plaintext.
\<close>

section \<open>State\<close>

datatype storeMode = modeUnresolved | modePlaintext | modeEncrypted

record encryptedStore =
  es_keyring :: Keyring
  es_mode :: storeMode
  es_doors :: "Door list"
  es_calls :: nat

record enc_env =
  ee_crypt :: crypt_lib
  ee_json :: json_lib
  ee_sha :: hash_lib
  ee_random :: "nat \<Rightarrow> bytes option"
  ee_cancelled :: "nat \<Rightarrow> nat \<Rightarrow> bool"

definition Encrypted_New :: "Keyring \<Rightarrow> encryptedStore" where
  "Encrypted_New keyring = \<lparr>es_keyring = keyring, es_mode = modeUnresolved, es_doors = [], es_calls = 0\<rparr>"

type_synonym ('a, 's) enc_act = "(store_error, 'a, 's \<times> encryptedStore) act"

definition rawS :: "(store_error, 'a, 's) act \<Rightarrow> ('a, 's) enc_act" where
  "rawS m = (\<lambda>(s, e). case m s of (r, s') \<Rightarrow> (r, (s', e)))"

definition withE :: "(encryptedStore \<Rightarrow> ('a, 's) enc_act) \<Rightarrow> ('a, 's) enc_act" where
  "withE f = (\<lambda>(s, e). f e (s, e))"

definition cacheMode :: "storeMode \<Rightarrow> Door list \<Rightarrow> (unit, 's) enc_act" where
  "cacheMode mode doors = (\<lambda>(s, e). (Inr (), (s, e\<lparr>es_mode := mode, es_doors := doors\<rparr>)))"

definition invalidateMode :: "(unit, 's) enc_act" where
  "invalidateMode = cacheMode modeUnresolved []"

section \<open>Operations\<close>

text \<open>The flag of a key-material error tells a missing secret from one that opened no door.\<close>

definition envelopeError :: "Keyring \<Rightarrow> crypt_error \<Rightarrow> store_error" where
  "envelopeError k err =
     (if err = ErrKeyRejected \<and> \<not> HasCandidates k then ErrKeyMaterial False
      else if err = ErrKeyRejected then ErrKeyMaterial True
      else if err = ErrUnsupportedFormat then ErrUpgradeRequired
      else ErrIntegrity)"

definition wrapper_error :: "decode_error \<Rightarrow> store_error" where
  "wrapper_error e = (case e of UpgradeRequired _ \<Rightarrow> ErrUpgradeRequired | Integrity _ \<Rightarrow> ErrIntegrity)"

definition openS :: "enc_env \<Rightarrow> bytes \<Rightarrow> bytes \<Rightarrow> (bytes \<times> Header, 's) enc_act" where
  "openS E key envelope = (\<lambda>(s, e).
     case Keyring_Open (ee_crypt E) (ee_cancelled E (es_calls e)) key envelope (es_keyring e) of
       (r, k) \<Rightarrow> (mapErr (envelopeError k) r, (s, e\<lparr>es_keyring := k, es_calls := Suc (es_calls e)\<rparr>)))"

definition sealS :: "enc_env \<Rightarrow> bytes \<Rightarrow> ObjectKind \<Rightarrow> bytes \<Rightarrow> Door list \<Rightarrow> (bytes, 's) enc_act" where
  "sealS E key kind body doors = (\<lambda>(s, e).
     (mapErr (envelopeError (es_keyring e)) (Keyring_Seal (ee_crypt E) (ee_random E (es_calls e)) key kind body doors (es_keyring e)),
      (s, e\<lparr>es_calls := Suc (es_calls e)\<rparr>)))"

definition readAllClose :: "reader \<Rightarrow> store_error + bytes" where
  "readAllClose rc = ofOption ErrTransport rc"

definition classify :: "enc_env \<Rightarrow> bytes \<Rightarrow> store_error + CurrentEncoding \<times> bytes" where
  "classify E data = mapErr wrapper_error (ClassifyCurrent (jl_tokens (ee_json E) data))"

definition ensureMode :: "enc_env \<Rightarrow> 's ObjectStore \<Rightarrow> (storeMode, 's) enc_act" where
  "ensureMode E S = withE (\<lambda>e.
     if es_mode e \<noteq> modeUnresolved then retS (es_mode e)
     else if kr_unlocked (es_keyring e) then bindS (cacheMode modeEncrypted []) (\<lambda>_. retS modeEncrypted)
     else
       tryS (rawS (ReadObject S CurrentKey)) (\<lambda>r.
       case r of
         Inl err \<Rightarrow> if err = ErrNotFound then bindS (cacheMode modePlaintext []) (\<lambda>_. retS modePlaintext) else failS err
       | Inr (rc, _) \<Rightarrow>
           bindS (liftS (readAllClose rc)) (\<lambda>data.
           bindS (liftS (classify E data)) (\<lambda>(encoding, envelope).
           if encoding = CurrentPlaintext then bindS (cacheMode modePlaintext []) (\<lambda>_. retS modePlaintext)
           else
             bindS (openS E CurrentKey envelope) (\<lambda>(_, header).
             bindS (cacheMode modeEncrypted (hd_Doors header)) (\<lambda>_. retS modeEncrypted))))))"

definition readCurrent_enc :: "enc_env \<Rightarrow> 's ObjectStore \<Rightarrow> bytes \<Rightarrow> (reader \<times> ObjectInfo, 's) enc_act" where
  "readCurrent_enc E S key =
     bindS (rawS (ReadObject S key)) (\<lambda>(rc, info).
     bindS (liftS (readAllClose rc)) (\<lambda>data.
     bindS (liftS (classify E data)) (\<lambda>(encoding, envelope).
     if encoding = CurrentPlaintext then bindS (cacheMode modePlaintext []) (\<lambda>_. retS (Some data, info))
     else
       bindS (openS E key envelope) (\<lambda>(plaintext, header).
       bindS (cacheMode modeEncrypted (hd_Doors header)) (\<lambda>_.
       retS (Some plaintext, info\<lparr>oi_Size := length plaintext\<rparr>))))))"

definition open_enc :: "enc_env \<Rightarrow> bytes \<Rightarrow> reader \<Rightarrow> ObjectInfo \<Rightarrow> (reader \<times> ObjectInfo, 's) enc_act" where
  "open_enc E key rc info =
     bindS (liftS (readAllClose rc)) (\<lambda>data.
     bindS (openS E key data) (\<lambda>(plaintext, _).
     retS (Some plaintext, info\<lparr>oi_Size := length plaintext,
       oi_Meta := (oi_Meta info)\<lparr>md_SHA256 := ee_sha E plaintext, md_Size := of_nat (length plaintext)\<rparr>\<rparr>)))"

definition enc_ReadObject :: "enc_env \<Rightarrow> 's ObjectStore \<Rightarrow> bytes \<Rightarrow> (reader \<times> ObjectInfo, 's) enc_act" where
  "enc_ReadObject E S key =
     (if key = CurrentKey then readCurrent_enc E S key
      else
        bindS (ensureMode E S) (\<lambda>mode.
        bindS (rawS (ReadObject S key)) (\<lambda>(rc, info).
        if mode \<noteq> modeEncrypted then retS (rc, info) else open_enc E key rc info)))"

definition ciphertextMeta :: "enc_env \<Rightarrow> Metadata \<Rightarrow> bytes \<Rightarrow> Metadata" where
  "ciphertextMeta E meta envelope = meta\<lparr>md_SHA256 := ee_sha E envelope, md_Size := of_nat (length envelope)\<rparr>"

definition enc_PutObject :: "enc_env \<Rightarrow> 's ObjectStore \<Rightarrow> bytes \<Rightarrow> reader \<Rightarrow> Metadata \<Rightarrow> (unit, 's) enc_act" where
  "enc_PutObject E S key r meta =
     (if key = CurrentKey then failS ErrIntegrity
      else
        bindS (ensureMode E S) (\<lambda>mode.
        if mode \<noteq> modeEncrypted then rawS (PutObject S key r meta)
        else
          bindS (liftS (readAllClose r)) (\<lambda>body.
          bindS (sealS E key KindPack body []) (\<lambda>envelope.
          rawS (PutObject S key (Some envelope) (ciphertextMeta E meta envelope))))))"

definition sealSet :: "encryptedStore \<Rightarrow> Door list" where "sealSet e = es_doors e"

definition writeCurrent :: "enc_env \<Rightarrow> 's ObjectStore \<Rightarrow> bytes \<Rightarrow> (bytes \<Rightarrow> (store_error, etag, 's) act) \<Rightarrow> (etag, 's) enc_act" where
  "writeCurrent E S data write =
     bindS (liftS (classify E data)) (\<lambda>(encoding, _).
     if encoding = CurrentEncrypted then
       bindS (rawS (write data)) (\<lambda>t. bindS invalidateMode (\<lambda>_. retS t))
     else
       bindS (ensureMode E S) (\<lambda>mode.
       if mode \<noteq> modeEncrypted then rawS (write data)
       else withE (\<lambda>e.
         if length (sealSet e) = 0 then failS ErrIntegrity
         else
           bindS (sealS E CurrentKey KindCurrent data (sealSet e)) (\<lambda>envelope.
           bindS (liftS (mapErr wrapper_error (WrapCurrentEnvelope envelope))) (\<lambda>wrapped.
           rawS (write (jl_text (ee_json E) wrapped)))))))"

definition writeObject :: "enc_env \<Rightarrow> 's ObjectStore \<Rightarrow> bytes \<Rightarrow> bytes \<Rightarrow> (bytes \<Rightarrow> (store_error, etag, 's) act) \<Rightarrow> (etag, 's) enc_act" where
  "writeObject E S key data write =
     (if key = CurrentKey then writeCurrent E S data write
      else
        bindS (ensureMode E S) (\<lambda>mode.
        if mode \<noteq> modeEncrypted then rawS (write data)
        else bindS (sealS E key KindPack data []) (\<lambda>envelope. rawS (write envelope))))"

definition Encrypted :: "enc_env \<Rightarrow> 's ObjectStore \<Rightarrow> ('s \<times> encryptedStore) ObjectStore" where
  "Encrypted E S =
     \<lparr>ReadObject = enc_ReadObject E S,
      PutObject = enc_PutObject E S,
      CreateObject = (\<lambda>key data. writeObject E S key data (CreateObject S key)),
      ReplaceObject = (\<lambda>key t data. writeObject E S key data (ReplaceObject S key t)),
      ListObjects = (\<lambda>pre. rawS (ListObjects S pre)),
      DeleteObjects = (\<lambda>keys. rawS (DeleteObjects S keys))\<rparr>"

section \<open>The decrypted view\<close>

text \<open>What a stored body holds for whoever has the key, and the raw store's view through it.\<close>

definition decrypted :: "enc_env \<Rightarrow> Keyring \<Rightarrow> bytes \<Rightarrow> bytes \<Rightarrow> bytes option" where
  "decrypted E k key body =
     (case (if key = CurrentKey then
              (case classify E body of Inr (CurrentEncrypted, envelope) \<Rightarrow> Some envelope | _ \<Rightarrow> None)
            else Some body) of
        None \<Rightarrow> None
      | Some envelope \<Rightarrow>
          (case fst (Keyring_Open (ee_crypt E) (\<lambda>_. False) key envelope k) of Inl _ \<Rightarrow> None | Inr (d, _) \<Rightarrow> Some d))"

definition plain_view :: "enc_env \<Rightarrow> ('s \<Rightarrow> view) \<Rightarrow> 's \<times> encryptedStore \<Rightarrow> view" where
  "plain_view E look = (\<lambda>(s, e) key. Option.bind (look s key) (\<lambda>(body, t). map_option (\<lambda>d. (d, t)) (decrypted E (es_keyring e) key body)))"

text \<open>The mode is resolved to encrypted and the key is held.\<close>

definition encrypting :: "encryptedStore \<Rightarrow> bool" where
  "encrypting e \<longleftrightarrow> es_mode e = modeEncrypted \<and> kr_unlocked (es_keyring e) \<and> length (kr_key (es_keyring e)) = 32 \<and> list_all door_typed (es_doors e)"

text \<open>A body the notebook writes: a plain manifest at \<open>current\<close>, anything at another key.\<close>

definition plain_body :: "enc_env \<Rightarrow> bytes \<Rightarrow> bytes \<Rightarrow> bool" where
  "plain_body E key d \<longleftrightarrow> length d < 2 ^ 62 \<and> (key = CurrentKey \<longrightarrow> (\<exists>x. classify E d = Inr (CurrentPlaintext, x)))"

definition nonces_sized :: "enc_env \<Rightarrow> bool" where
  "nonces_sized E \<longleftrightarrow> (\<forall>n. case ee_random E n of None \<Rightarrow> True | Some np \<Rightarrow> length np = 16)"

lemma Keyring_Open_unlocked:
  assumes "kr_unlocked k"
  shows "Keyring_Open L c key env k = (fst (Keyring_Open L (\<lambda>_. False) key env k), k)"
  using assms by (simp add: Keyring_Open_def resolve_unlocked split: sum.splits)

lemma openS_encrypting:
  assumes "encrypting e"
  shows "openS E key env (s, e) =
    (mapErr (envelopeError (es_keyring e)) (fst (Keyring_Open (ee_crypt E) (\<lambda>_. False) key env (es_keyring e))), (s, e\<lparr>es_calls := Suc (es_calls e)\<rparr>))"
proof -
  have "kr_unlocked (es_keyring e)" using assms by (simp add: encrypting_def)
  from Keyring_Open_unlocked [OF this, of "ee_crypt E" "ee_cancelled E (es_calls e)" key env] show ?thesis by (simp add: openS_def)
qed

lemma ensureMode_encrypting: "encrypting e \<Longrightarrow> ensureMode E S (s, e) = (Inr modeEncrypted, (s, e))"
  by (simp add: ensureMode_def withE_def encrypting_def)

lemma encrypting_calls [simp]: "encrypting (e\<lparr>es_calls := n\<rparr>) = encrypting e"
  by (simp add: encrypting_def)

lemma plain_view_keyring: "es_keyring e' = es_keyring e \<Longrightarrow> look s' = look s \<Longrightarrow> plain_view E look (s', e') = plain_view E look (s, e)"
  by (simp add: plain_view_def)

lemma plain_view_write:
  assumes "es_keyring e' = es_keyring e" "look s' = (look s)(key \<mapsto> (body, t))" "decrypted E (es_keyring e) key body = Some d"
  shows "plain_view E look (s', e') = (plain_view E look (s, e))(key \<mapsto> (d, t))"
  using assms by (auto simp: plain_view_def)

lemma sealed_decrypts:
  assumes "primitives (ee_crypt E)" "nonces_sized E" "encrypting e" "list_all door_typed doors" "length d < 2 ^ 62"
    "Keyring_Seal (ee_crypt E) (ee_random E n) key kind d doors (es_keyring e) = Inr env"
  shows "\<exists>h. fst (Keyring_Open (ee_crypt E) (\<lambda>_. False) key env (es_keyring e)) = Inr (d, h)"
proof (cases "ee_random E n")
  case None
  then show ?thesis using assms(6) by (auto simp: Keyring_Seal_def seal_extended_def bindR_eq_Inr split: if_splits)
next
  case (Some np)
  then have "length np = 16" using assms(2) [unfolded nonces_sized_def, rule_format, of n] by simp
  moreover have k: "kr_unlocked (es_keyring e)" "length (kr_key (es_keyring e)) = 32" using assms(3) by (auto simp: encrypting_def)
  ultimately show ?thesis
    using primitives.open_sealed [OF assms(1) k(2) _ assms(4,5) assms(6) [unfolded Some] resolve_unlocked [OF k(1)], of "\<lambda>_. False"] by auto
qed

lemma error_not_transport: "envelopeError k err \<noteq> ErrTransport" "wrapper_error de \<noteq> ErrTransport"
  by (auto simp: envelopeError_def wrapper_error_def split: decode_error.splits)

lemma valid_wrapper: "valid_texts (currentWrapper env)"
  using ascii_EncodeToString by (intro valid_texts_ascii) (simp add: currentWrapper_def)

lemma wrapped_classified:
  assumes "json_text (ee_json E)" "WrapCurrentEnvelope env = Inr data"
  shows "classify E (jl_text (ee_json E) data) = Inr (CurrentEncrypted, env)"
proof -
  have "ClassifyCurrent (Encode (currentWrapper env)) = Inr (CurrentEncrypted, env)" by (rule ClassifyCurrent_wrapper)
  moreover have "data = Encode (currentWrapper env)" using assms(2) by (simp add: WrapCurrentEnvelope_def split: if_splits)
  ultimately show ?thesis by (simp add: classify_def json_text.read_back [OF assms(1) valid_wrapper])
qed

text \<open>A write in the encrypted mode refuses and leaves the raw store alone, or hands the raw store a body that decrypts to the data.\<close>

lemma writeObject_encrypting:
  assumes "primitives (ee_crypt E)" "json_text (ee_json E)" "nonces_sized E" "encrypting e" "plain_body E key d"
    and run: "writeObject E S key d write (s, e) = (r, (s', e'))"
  shows "encrypting e' \<and> es_keyring e' = es_keyring e \<and> es_doors e' = es_doors e \<and>
    ((s' = s \<and> (\<exists>err. r = Inl err \<and> err \<noteq> ErrTransport)) \<or> (\<exists>body. decrypted E (es_keyring e) key body = Some d \<and> write body s = (r, s')))"
proof -
  let ?seal = "\<lambda>kind doors. Keyring_Seal (ee_crypt E) (ee_random E (es_calls e)) key kind d doors (es_keyring e)"
  let ?e1 = "e\<lparr>es_calls := Suc (es_calls e)\<rparr>"
  have sized: "length d < 2 ^ 62" and plain: "key = CurrentKey \<Longrightarrow> \<exists>x. classify E d = Inr (CurrentPlaintext, x)"
    using assms(5) by (auto simp: plain_body_def)
  note opens = sealed_decrypts [OF assms(1,3,4) _ sized]
  show ?thesis
  proof (cases "key = CurrentKey")
    case False
    show ?thesis
    proof (cases "?seal KindPack []")
      case (Inl err)
      then have "r = Inl (envelopeError (es_keyring e) err)" "s' = s" "e' = ?e1"
        using run False assms(4) by (auto simp: writeObject_def bindS_apply ensureMode_encrypting sealS_def)
      then show ?thesis using assms(4) error_not_transport(1) by simp
    next
      case (Inr env)
      then have "e' = ?e1" "write env s = (r, s')"
        using run False assms(4) by (auto simp: writeObject_def bindS_apply ensureMode_encrypting sealS_def rawS_def split: prod.splits)
      moreover have "decrypted E (es_keyring e) key env = Some d" using opens [OF _ Inr] False by (auto simp: decrypted_def)
      ultimately show ?thesis using assms(4) by auto
    qed
  next
    case True
    obtain x where x: "classify E d = Inr (CurrentPlaintext, x)" using plain [OF True] by blast
    note go = run [unfolded writeObject_def writeCurrent_def bindS_apply] True x assms(4)
    show ?thesis
    proof (cases "es_doors e = []")
      case True': True
      then have "r = Inl ErrIntegrity" "s' = s" "e' = e"
        using go by (simp_all add: bindS_apply ensureMode_encrypting withE_def sealSet_def)
      then show ?thesis using assms(4) by simp
    next
      case doors: False
      show ?thesis
      proof (cases "?seal KindCurrent (es_doors e)")
        case (Inl err)
        then have "r = Inl (envelopeError (es_keyring e) err)" "s' = s" "e' = ?e1"
          using go doors by (simp_all add: bindS_apply ensureMode_encrypting withE_def sealSet_def sealS_def)
        then show ?thesis using assms(4) error_not_transport(1) by simp
      next
        case env: (Inr env)
        show ?thesis
        proof (cases "WrapCurrentEnvelope env")
          case (Inl err)
          then have "r = Inl (wrapper_error err)" "s' = s" "e' = ?e1"
            using go doors env by (simp_all add: bindS_apply ensureMode_encrypting withE_def sealSet_def sealS_def)
          then show ?thesis using assms(4) error_not_transport(2) by simp
        next
          case (Inr data)
          then have w: "e' = ?e1" "write (jl_text (ee_json E) data) s = (r, s')"
            using go doors env by (auto simp: bindS_apply ensureMode_encrypting withE_def sealSet_def sealS_def rawS_def split: prod.splits)
          have "list_all door_typed (es_doors e)" using assms(4) by (simp add: encrypting_def)
          then have "decrypted E (es_keyring e) key (jl_text (ee_json E) data) = Some d"
            using opens [OF _ env] True wrapped_classified [OF assms(2) Inr] by (auto simp: decrypted_def)
          then show ?thesis using w assms(4) by auto
        qed
      qed
    qed
  qed
qed

text \<open>A conditional write through the decorator, judged by a precondition on the raw view and the change of the decrypted one.\<close>

definition write_contract :: "bool \<Rightarrow> view \<Rightarrow> bytes \<Rightarrow> bytes \<Rightarrow> store_error + etag \<Rightarrow> view \<Rightarrow> bool" where
  "write_contract pre v key d r v' \<longleftrightarrow>
     (case r of
        Inr t \<Rightarrow> pre \<and> v' = v(key \<mapsto> (d, t))
      | Inl err \<Rightarrow> v' = v \<or> err = ErrTransport \<and> pre \<and> landed v key d v')"

lemma write_viewed:
  assumes "conditional_store S look" "primitives (ee_crypt E)" "json_text (ee_json E)" "nonces_sized E" "encrypting e" "plain_body E key d"
    and raw: "\<And>body r s1. write body s = (r, s1) \<Longrightarrow> write_contract pre (look s) key body r (look s1)"
    and run: "writeObject E S key d write (s, e) = (r, (s', e'))"
  shows "encrypting e' \<and> write_contract pre (plain_view E look (s, e)) key d r (plain_view E look (s', e'))"
proof -
  note w = writeObject_encrypting [OF assms(2-6) run]
  from w have k: "encrypting e'" "es_keyring e' = es_keyring e" by blast+
  from w consider (refused) err where "s' = s" "r = Inl err"
    | (passed) body where "decrypted E (es_keyring e) key body = Some d" "write body s = (r, s')" by blast
  then show ?thesis
  proof cases
    case refused
    then show ?thesis using k plain_view_keyring [OF k(2), of look s s] by (simp add: write_contract_def)
  next
    case passed
    note v = plain_view_write [where look = look and s = s and s' = s', OF k(2) _ passed(1)]
    have "write_contract pre (look s) key body r (look s')" by (rule raw [OF passed(2)])
    then show ?thesis
      using k v plain_view_keyring [OF k(2), of look s' s] by (auto simp: write_contract_def landed_def split: sum.splits)
  qed
qed

lemma put_viewed:
  assumes "conditional_store S look" "primitives (ee_crypt E)" "nonces_sized E" "encrypting e" "length d < 2 ^ 62" "key \<noteq> CurrentKey"
    and run: "enc_PutObject E S key (Some d) meta (s, e) = (r, (s', e'))"
  shows "encrypting e' \<and> (case r of
      Inr _ \<Rightarrow> landed (plain_view E look (s, e)) key d (plain_view E look (s', e'))
    | Inl err \<Rightarrow> plain_view E look (s', e') = plain_view E look (s, e) \<or>
        err = ErrTransport \<and> landed (plain_view E look (s, e)) key d (plain_view E look (s', e')))"
proof -
  let ?seal = "Keyring_Seal (ee_crypt E) (ee_random E (es_calls e)) key KindPack d [] (es_keyring e)"
  let ?e1 = "e\<lparr>es_calls := Suc (es_calls e)\<rparr>"
  note go = run [unfolded enc_PutObject_def] assms(4,6)
  show ?thesis
  proof (cases ?seal)
    case (Inl err)
    then have "r = Inl (envelopeError (es_keyring e) err)" "s' = s" "e' = ?e1"
      using go by (simp_all add: bindS_apply ensureMode_encrypting sealS_def readAllClose_def)
    then show ?thesis using assms(4) plain_view_keyring [of ?e1 e look s s] by simp
  next
    case (Inr env)
    then have w: "e' = ?e1" "PutObject S key (Some env) (ciphertextMeta E meta env) s = (r, s')"
      using go by (auto simp: bindS_apply ensureMode_encrypting sealS_def readAllClose_def rawS_def split: prod.splits)
    have "decrypted E (es_keyring e) key env = Some d" using sealed_decrypts [OF assms(2-4) _ assms(5) Inr] assms(6) by (auto simp: decrypted_def)
    note v = plain_view_write [where look = look and s = s and s' = s' and e' = ?e1, OF _ _ this]
    have k: "es_keyring ?e1 = es_keyring e" by simp
    show ?thesis
    proof (cases r)
      case (Inl err)
      then show ?thesis using conditional_store.put_err [OF assms(1) w(2) [unfolded Inl]] v [OF k] plain_view_keyring [OF k, of look s' s] assms(4) w(1)
        by (auto simp: landed_def)
    next
      case (Inr u)
      then show ?thesis using conditional_store.put_ok [OF assms(1), of key "Some env" "ciphertextMeta E meta env" s s'] w(2) v [OF k] assms(4) w(1)
        by (fastforce simp: landed_def)
    qed
  qed
qed

section \<open>Sequences of calls\<close>

datatype store_call =
    CallRead bytes
  | CallPut bytes reader Metadata
  | CallCreate bytes bytes
  | CallReplace bytes etag bytes
  | CallList bytes
  | CallDelete "bytes list"

definition call_state :: "'s ObjectStore \<Rightarrow> store_call \<Rightarrow> 's \<Rightarrow> 's" where
  "call_state S c s =
     (case c of
        CallRead key \<Rightarrow> snd (ReadObject S key s)
      | CallPut key rd meta \<Rightarrow> snd (PutObject S key rd meta s)
      | CallCreate key d \<Rightarrow> snd (CreateObject S key d s)
      | CallReplace key t d \<Rightarrow> snd (ReplaceObject S key t d s)
      | CallList pre \<Rightarrow> snd (ListObjects S pre s)
      | CallDelete keys \<Rightarrow> snd (DeleteObjects S keys s))"

definition calls_state :: "'s ObjectStore \<Rightarrow> store_call list \<Rightarrow> 's \<Rightarrow> 's" where
  "calls_state S cs s = fold (call_state S) cs s"

text \<open>A body the decorator lets through: a wrapped envelope at \<open>current\<close>, a sealed pack elsewhere.\<close>

definition ciphertext :: "enc_env \<Rightarrow> Keyring \<Rightarrow> bytes \<Rightarrow> bytes \<Rightarrow> bool" where
  "ciphertext E k key body \<longleftrightarrow>
     (if key = CurrentKey then \<exists>x. classify E body = Inr (CurrentEncrypted, x)
      else \<exists>n d. Keyring_Seal (ee_crypt E) (ee_random E n) key KindPack d [] k = Inr body)"

definition all_ciphertext :: "enc_env \<Rightarrow> Keyring \<Rightarrow> view \<Rightarrow> bool" where
  "all_ciphertext E k v \<longleftrightarrow> (\<forall>key body t. v key = Some (body, t) \<longrightarrow> ciphertext E k key body)"

definition key_held :: "Keyring \<Rightarrow> encryptedStore \<Rightarrow> bool" where
  "key_held k e \<longleftrightarrow> es_keyring e = k \<and> kr_unlocked k \<and> es_mode e \<noteq> modePlaintext"

lemma ensureMode_held: "key_held k e \<Longrightarrow> \<exists>e1. ensureMode E S (s, e) = (Inr modeEncrypted, (s, e1)) \<and> key_held k e1"
  by (cases "es_mode e") (auto simp: ensureMode_def withE_def key_held_def bindS_apply cacheMode_def)

lemma openS_held:
  assumes "key_held k e" obtains r e1 where "openS E key env (s, e) = (r, (s, e1))" "key_held k e1"
proof -
  have "kr_unlocked (es_keyring e)" using assms by (auto simp: key_held_def)
  from Keyring_Open_unlocked [OF this, of "ee_crypt E" "ee_cancelled E (es_calls e)" key env] that assms show thesis
    by (auto simp: openS_def key_held_def)
qed

lemma sealS_held:
  assumes "key_held k e" obtains r e1 where "sealS E key kind d doors (s, e) = (r, (s, e1))" "key_held k e1"
    "r = mapErr (envelopeError k) (Keyring_Seal (ee_crypt E) (ee_random E (es_calls e)) key kind d doors k)"
  using assms that by (auto simp: sealS_def key_held_def)

lemma held_mode: "key_held k e \<Longrightarrow> mode \<noteq> modePlaintext \<Longrightarrow> key_held k (e\<lparr>es_mode := mode, es_doors := ds\<rparr>)"
  by (simp add: key_held_def)

lemma all_ciphertext_write: "all_ciphertext E k v \<Longrightarrow> ciphertext E k key body \<Longrightarrow> all_ciphertext E k (v(key \<mapsto> (body, t)))"
  by (simp add: all_ciphertext_def)

lemma all_ciphertext_delete: "all_ciphertext E k v \<Longrightarrow> all_ciphertext E k (v |` A)"
  by (auto simp: all_ciphertext_def restrict_map_def)

lemma ciphertext_pack:
  assumes "Inr env = mapErr f (Keyring_Seal (ee_crypt E) (ee_random E n) key KindPack d [] k)" "key \<noteq> CurrentKey"
  shows "ciphertext E k key env"
  using assms mapErr_eq_Inr [of f "Keyring_Seal (ee_crypt E) (ee_random E n) key KindPack d [] k" env] by (auto simp: ciphertext_def)

text \<open>What a call of the decorator did to the raw store while the key is held.\<close>

lemma writeObject_held:
  assumes "json_text (ee_json E)" "key_held k e" and run: "writeObject E S key d write (s, e) = (r, (s', e'))"
  shows "key_held k e' \<and> (s' = s \<or> (\<exists>body. ciphertext E k key body \<and> s' = snd (write body s)))"
proof (cases "key = CurrentKey")
  case False
  obtain e1 where m: "ensureMode E S (s, e) = (Inr modeEncrypted, (s, e1))" "key_held k e1" using ensureMode_held [OF assms(2), of E S s] by blast
  obtain q e2 where q: "sealS E key KindPack d [] (s, e1) = (q, (s, e2))" "key_held k e2"
    "q = mapErr (envelopeError k) (Keyring_Seal (ee_crypt E) (ee_random E (es_calls e1)) key KindPack d [] k)"
    by (rule sealS_held [OF m(2)])
  show ?thesis
  proof (cases q)
    case (Inl err)
    then show ?thesis using run False m q(1,2) by (auto simp: writeObject_def bindS_apply)
  next
    case (Inr env)
    then have "e' = e2" "s' = snd (write env s)"
      using run False m q(1) by (auto simp: writeObject_def bindS_apply rawS_def split: prod.splits)
    moreover have "ciphertext E k key env" by (rule ciphertext_pack [OF q(3) [unfolded Inr]]) (use False in simp)
    ultimately show ?thesis using q(2) by blast
  qed
next
  case True
  then have run': "writeCurrent E S d write (s, e) = (r, (s', e'))" using run by (simp add: writeObject_def)
  show ?thesis
  proof (cases "classify E d")
    case (Inl err)
    then show ?thesis using run' assms(2) by (simp add: writeCurrent_def bindS_apply)
  next
    case (Inr x)
    obtain enc y where x: "x = (enc, y)" by (cases x)
    show ?thesis
    proof (cases "enc = CurrentEncrypted")
      case enc: True
      have "key_held k e' \<and> s' = snd (write d s)"
        using run' Inr x enc assms(2) held_mode [OF assms(2), of modeUnresolved "[]"]
        by (auto simp: writeCurrent_def bindS_apply rawS_def invalidateMode_def cacheMode_def split: prod.splits sum.splits)
      then show ?thesis using Inr x enc True by (auto simp: ciphertext_def)
    next
      case plain: False
      obtain e1 where m: "ensureMode E S (s, e) = (Inr modeEncrypted, (s, e1))" "key_held k e1" using ensureMode_held [OF assms(2), of E S s] by blast
      obtain q e2 where q: "sealS E CurrentKey KindCurrent d (sealSet e1) (s, e1) = (q, (s, e2))" "key_held k e2"
        "q = mapErr (envelopeError k) (Keyring_Seal (ee_crypt E) (ee_random E (es_calls e1)) CurrentKey KindCurrent d (sealSet e1) k)"
        by (rule sealS_held [OF m(2)])
      note go = run' [unfolded writeCurrent_def bindS_apply] Inr x plain m(1) q(1)
      consider "sealSet e1 = []" | err where "sealSet e1 \<noteq> []" "q = Inl err" | env err where "sealSet e1 \<noteq> []" "q = Inr env" "WrapCurrentEnvelope env = Inl err"
        | env data where "sealSet e1 \<noteq> []" "q = Inr env" "WrapCurrentEnvelope env = Inr data"
        by (metis sum.exhaust)
      then show ?thesis
      proof cases
        case 1
        then show ?thesis using go m(2) by (simp add: bindS_apply withE_def)
      next
        case 2
        then show ?thesis using go q(2) by (simp add: bindS_apply withE_def)
      next
        case 3
        then show ?thesis using go q(2) by (simp add: bindS_apply withE_def)
      next
        case 4
        then have "e' = e2" "s' = snd (write (jl_text (ee_json E) data) s)"
          using go by (auto simp: bindS_apply withE_def rawS_def split: prod.splits)
        moreover have "ciphertext E k key (jl_text (ee_json E) data)"
          using wrapped_classified [OF assms(1) 4(3)] True by (auto simp: ciphertext_def)
        ultimately show ?thesis using q(2) by blast
      qed
    qed
  qed
qed

lemma put_held:
  assumes "key_held k e" and run: "enc_PutObject E S key rd meta (s, e) = (r, (s', e'))"
  shows "key_held k e' \<and> (s' = s \<or> (\<exists>body meta'. ciphertext E k key body \<and> s' = snd (PutObject S key (Some body) meta' s)))"
proof (cases "key = CurrentKey \<or> rd = None")
  case True
  obtain e1 where "ensureMode E S (s, e) = (Inr modeEncrypted, (s, e1))" "key_held k e1" using ensureMode_held [OF assms(1), of E S s] by blast
  then show ?thesis using True run assms(1) by (auto simp: enc_PutObject_def bindS_apply readAllClose_def split: if_splits)
next
  case False
  then obtain d where d: "rd = Some d" by blast
  obtain e1 where m: "ensureMode E S (s, e) = (Inr modeEncrypted, (s, e1))" "key_held k e1" using ensureMode_held [OF assms(1), of E S s] by blast
  obtain q e2 where q: "sealS E key KindPack d [] (s, e1) = (q, (s, e2))" "key_held k e2"
    "q = mapErr (envelopeError k) (Keyring_Seal (ee_crypt E) (ee_random E (es_calls e1)) key KindPack d [] k)"
    by (rule sealS_held [OF m(2)])
  show ?thesis
  proof (cases q)
    case (Inl err)
    then show ?thesis using run False d m q(1,2) by (auto simp: enc_PutObject_def bindS_apply readAllClose_def)
  next
    case (Inr env)
    then have "e' = e2" "s' = snd (PutObject S key (Some env) (ciphertextMeta E meta env) s)"
      using run False d m q(1) by (auto simp: enc_PutObject_def bindS_apply readAllClose_def rawS_def split: prod.splits)
    moreover have "ciphertext E k key env" by (rule ciphertext_pack [OF q(3) [unfolded Inr]]) (use False in simp)
    ultimately show ?thesis using q(2) by blast
  qed
qed

lemma read_held:
  assumes "conditional_store S look" "key_held k e" "all_ciphertext E k (look s)" and run: "enc_ReadObject E S key (s, e) = (r, (s', e'))"
  shows "key_held k e' \<and> look s' = look s"
proof -
  obtain q s1 where rd: "ReadObject S key s = (q, s1)" by fastforce
  have v: "look s1 = look s" by (rule conditional_store.read_view [OF assms(1) rd])
  show ?thesis
  proof (cases "key = CurrentKey")
    case True
    then have run': "readCurrent_enc E S key (s, e) = (r, (s', e'))" using run by (simp add: enc_ReadObject_def)
    show ?thesis
    proof (cases "\<exists>data info. q = Inr (Some data, info)")
      case False
      then show ?thesis using run' rd v assms(2)
        by (auto simp: readCurrent_enc_def bindS_apply rawS_def readAllClose_def ofOption_def split: sum.splits prod.splits option.splits)
    next
      case ok: True
      then obtain data info where q: "q = Inr (Some data, info)" by blast
      have "look s key = Some (data, oi_ETag info)" using conditional_store.read_ok [OF assms(1)] rd q by blast
      then obtain env where c: "classify E data = Inr (CurrentEncrypted, env)"
        using assms(3) True by (fastforce simp: all_ciphertext_def ciphertext_def)
      obtain o1 e1 where o: "openS E key env (s1, e) = (o1, (s1, e1))" "key_held k e1" by (rule openS_held [OF assms(2)])
      have "key_held k e' \<and> s' = s1"
        using run' rd q c o held_mode [OF o(2), of modeEncrypted]
        by (auto simp: readCurrent_enc_def bindS_apply rawS_def readAllClose_def cacheMode_def split: sum.splits prod.splits)
      then show ?thesis using v by simp
    qed
  next
    case False
    obtain e1 where m: "ensureMode E S (s, e) = (Inr modeEncrypted, (s, e1))" "key_held k e1" using ensureMode_held [OF assms(2), of E S s] by blast
    show ?thesis
    proof (cases "\<exists>data info. q = Inr (Some data, info)")
      case no: False
      then show ?thesis using run False m rd v
        by (auto simp: enc_ReadObject_def bindS_apply rawS_def open_enc_def readAllClose_def ofOption_def split: sum.splits prod.splits option.splits)
    next
      case ok: True
      then obtain data info where q: "q = Inr (Some data, info)" by blast
      obtain o1 e2 where o: "openS E key data (s1, e1) = (o1, (s1, e2))" "key_held k e2" by (rule openS_held [OF m(2)])
      have "key_held k e' \<and> s' = s1"
        using run False m rd q o by (auto simp: enc_ReadObject_def bindS_apply rawS_def open_enc_def readAllClose_def split: sum.splits prod.splits)
      then show ?thesis using v by simp
    qed
  qed
qed

text \<open>On a store that keeps the contract, a write changes at most its own key.\<close>

lemma raw_writes:
  assumes "conditional_store S look"
  shows "look (snd (PutObject S key (Some body) meta s)) = look s \<or> landed (look s) key body (look (snd (PutObject S key (Some body) meta s)))"
    "look (snd (CreateObject S key body s)) = look s \<or> landed (look s) key body (look (snd (CreateObject S key body s)))"
    "look (snd (ReplaceObject S key t body s)) = look s \<or> landed (look s) key body (look (snd (ReplaceObject S key t body s)))"
proof -
  obtain rp sp rc sc rr sr where c: "PutObject S key (Some body) meta s = (rp, sp)" "CreateObject S key body s = (rc, sc)"
    "ReplaceObject S key t body s = (rr, sr)" by (metis surj_pair)
  show "look (snd (PutObject S key (Some body) meta s)) = look s \<or> landed (look s) key body (look (snd (PutObject S key (Some body) meta s)))"
    using c(1) conditional_store.put_ok [OF assms, of key "Some body" meta s sp] conditional_store.put_err [OF assms, of key "Some body" meta s _ sp]
    by (cases rp) auto
  show "look (snd (CreateObject S key body s)) = look s \<or> landed (look s) key body (look (snd (CreateObject S key body s)))"
    using c(2) conditional_store.create_ok [OF assms, of key body s _ sc] conditional_store.create_err [OF assms, of key body s _ sc]
    by (cases rc) (auto simp: landed_def)
  show "look (snd (ReplaceObject S key t body s)) = look s \<or> landed (look s) key body (look (snd (ReplaceObject S key t body s)))"
    using c(3) conditional_store.replace_ok [OF assms, of key t body s _ sr] conditional_store.replace_err [OF assms, of key t body s _ sr]
    by (cases rr) (auto simp: landed_def)
qed

lemma call_ciphertext:
  assumes "conditional_store S look" "json_text (ee_json E)" "key_held k e" "all_ciphertext E k (look s)"
    and run: "call_state (Encrypted E S) c (s, e) = (s', e')"
  shows "all_ciphertext E k (look s') \<and> key_held k e'"
proof -
  have wrote: "all_ciphertext E k (look s1)" if "ciphertext E k key body" "look s1 = look s \<or> landed (look s) key body (look s1)" for s1 key body
    using that assms(4) all_ciphertext_write by (auto simp: landed_def)
  note raw = raw_writes [OF assms(1)]
  show ?thesis
  proof (cases c)
    case (CallRead key)
    then obtain r where "enc_ReadObject E S key (s, e) = (r, (s', e'))" using run by (cases "enc_ReadObject E S key (s, e)") (auto simp: call_state_def Encrypted_def)
    from read_held [OF assms(1,3,4) this] show ?thesis using assms(4) by simp
  next
    case (CallPut key rd meta)
    then obtain r where "enc_PutObject E S key rd meta (s, e) = (r, (s', e'))"
      using run by (cases "enc_PutObject E S key rd meta (s, e)") (auto simp: call_state_def Encrypted_def)
    from put_held [OF assms(3) this] show ?thesis using assms(4) wrote raw(1) by blast
  next
    case (CallCreate key d)
    then obtain r where "writeObject E S key d (CreateObject S key) (s, e) = (r, (s', e'))"
      using run by (cases "writeObject E S key d (CreateObject S key) (s, e)") (auto simp: call_state_def Encrypted_def)
    from writeObject_held [OF assms(2,3) this] show ?thesis using assms(4) wrote raw(2) by blast
  next
    case (CallReplace key t d)
    then obtain r where "writeObject E S key d (ReplaceObject S key t) (s, e) = (r, (s', e'))"
      using run by (cases "writeObject E S key d (ReplaceObject S key t) (s, e)") (auto simp: call_state_def Encrypted_def)
    from writeObject_held [OF assms(2,3) this] show ?thesis using assms(4) wrote raw(3) by blast
  next
    case (CallList pre)
    obtain r s1 where l: "ListObjects S pre s = (r, s1)" by fastforce
    then show ?thesis using CallList run assms(3,4) conditional_store.list_view [OF assms(1) l] by (simp add: call_state_def Encrypted_def rawS_def)
  next
    case (CallDelete keys)
    obtain r s1 where l: "DeleteObjects S keys s = (r, s1)" by fastforce
    have "\<exists>A. look s1 = look s |` A"
      using l conditional_store.delete_ok [OF assms(1), of keys s s1] conditional_store.delete_err [OF assms(1), of keys s _ s1] by (cases r) auto
    then have "all_ciphertext E k (look s1)" using all_ciphertext_delete [OF assms(4)] by auto
    then show ?thesis using CallDelete run assms(3) l by (simp add: call_state_def Encrypted_def rawS_def)
  qed
qed

section \<open>A decorated store\<close>

definition sample_env :: enc_env where
  "sample_env = \<lparr>ee_crypt = checksum_crypt, ee_json = numbering_json, ee_sha = (\<lambda>d. [of_nat (length d)]),
     ee_random = (\<lambda>_. Some sample_prefix), ee_cancelled = (\<lambda>_ _. False)\<rparr>"

definition sample_encrypting :: encryptedStore where
  "sample_encrypting = \<lparr>es_keyring = sample_keyring, es_mode = modeEncrypted, es_doors = [sample_door], es_calls = 0\<rparr>"

lemma sample_env_laws:
  "primitives (ee_crypt sample_env)" "json_text (ee_json sample_env)" "nonces_sized sample_env" "encrypting sample_encrypting"
  "key_held sample_keyring sample_encrypting"
  using checksum.primitives_axioms numbering.json_text_axioms sample_typed
  by (simp_all add: sample_env_def nonces_sized_def sample_encrypting_def encrypting_def key_held_def)

lemma sample_key: "''packs/p'' \<noteq> CurrentKey"
  by (simp add: CurrentKey_def)

lemma sample_seal_pack: "\<exists>env. Keyring_Seal checksum_crypt (Some sample_prefix) ''packs/p'' KindPack ''note'' [] sample_keyring = Inr env"
  by (simp add: Keyring_Seal_def seal_extended_def kind_supported_def KindPack_def KindCurrent_def encodeObjectKey_def unlockedKey_def sample_typed
      deriveKey_def checksum_crypt_def Let_def encodeDoorSection_def encodeExtensionSection_def
      encodeHeader_def Header_core_def commitmentSize_def MaxHeaderLength_def)

lemma sample_raw_create:
  "\<exists>s'. CreateObject (fake_store md5) ''packs/p'' d (fake_New []) = (Inr (etagFor md5 d), s') \<and>
    fst (ReadObject (fake_store md5) ''packs/p'' s') = Inr (Some d, \<lparr>oi_Size = length d, oi_ETag = etagFor md5 d, oi_Meta = zeroMetadata\<rparr>)"
  by (simp add: fake_store_def fake_CreateObject_def fake_ReadObject_def fake_enter_def ConsumeFail_def NewInjector_def fake_New_def prefix_fault_def
      sortedOpKeys_def fake_landed_def ConsumeAmbiguous_def put_object_def fake_full_def Let_def)

lemma sample_raw_replace: "\<exists>t s t' s'. ReplaceObject (fake_store (\<lambda>_. [])) CurrentKey t d s = (Inr t', s')"
proof -
  let ?s = "(fake_New [])\<lparr>st_objects := [(JoinKey [] CurrentKey, \<lparr>so_data = [], so_etag = ''1'', so_meta = zeroMetadata\<rparr>)]\<rparr>"
  have "fst (ReplaceObject (fake_store (\<lambda>_. [])) CurrentKey ''1'' d ?s) = Inr (etagFor (\<lambda>_. []) d)"
    by (simp add: fake_store_def fake_ReplaceObject_def fake_enter_def ConsumeFail_def NewInjector_def fake_New_def prefix_fault_def
      sortedOpKeys_def fake_landed_def ConsumeAmbiguous_def put_object_def fake_full_def Let_def)
  then show ?thesis by (metis prod.collapse)
qed

lemma sample_create:
  obtains env s' e' where "Keyring_Seal checksum_crypt (Some sample_prefix) ''packs/p'' KindPack ''note'' [] sample_keyring = Inr env"
    "CreateObject (Encrypted sample_env (fake_store (\<lambda>_. []))) ''packs/p'' ''note'' (fake_New [], sample_encrypting) = (Inr (etagFor (\<lambda>_. []) env), (s', e'))"
    "encrypting e'" "es_keyring e' = sample_keyring"
    "fst (ReadObject (fake_store (\<lambda>_. [])) ''packs/p'' s') =
      Inr (Some env, \<lparr>oi_Size = length env, oi_ETag = etagFor (\<lambda>_. []) env, oi_Meta = zeroMetadata\<rparr>)"
proof -
  obtain env where env: "Keyring_Seal checksum_crypt (Some sample_prefix) ''packs/p'' KindPack ''note'' [] sample_keyring = Inr env"
    using sample_seal_pack by blast
  obtain s' where s': "CreateObject (fake_store (\<lambda>_. [])) ''packs/p'' env (fake_New []) = (Inr (etagFor (\<lambda>_. []) env), s')"
      "fst (ReadObject (fake_store (\<lambda>_. [])) ''packs/p'' s') =
        Inr (Some env, \<lparr>oi_Size = length env, oi_ETag = etagFor (\<lambda>_. []) env, oi_Meta = zeroMetadata\<rparr>)"
    using sample_raw_create [of "\<lambda>_. []" env] by blast
  have seal: "sealS sample_env ''packs/p'' KindPack ''note'' [] (s, sample_encrypting) =
      (Inr env, (s, sample_encrypting\<lparr>es_calls := Suc (es_calls sample_encrypting)\<rparr>))" for s :: Store
    using env by (simp add: sealS_def sample_env_def sample_encrypting_def)
  have "CreateObject (Encrypted sample_env (fake_store (\<lambda>_. []))) ''packs/p'' ''note'' (fake_New [], sample_encrypting) =
      (Inr (etagFor (\<lambda>_. []) env), (s', sample_encrypting\<lparr>es_calls := Suc (es_calls sample_encrypting)\<rparr>))"
    using s'(1) sample_key seal
    by (simp add: Encrypted_def writeObject_def bindS_apply ensureMode_encrypting [OF sample_env_laws(4)] rawS_def)
  then show thesis
    by (rule that [OF env _ _ _ s'(2)]) (use sample_env_laws(4) in simp_all, simp add: sample_encrypting_def)
qed

section \<open>Properties\<close>

text \<open>C19: while the mode is encrypted, a write through the decorator changes the decrypted view as the contract of a conditional
  store says: on success exactly its key holds the data under the returned tag, a refusal changes nothing, and only
  a lost response leaves it open.\<close>

theorem encrypted_writes:
  assumes "conditional_store S look" "primitives (ee_crypt E)" "json_text (ee_json E)" "nonces_sized E" "encrypting e" "plain_body E key d"
  shows "(\<forall>r s' e'. CreateObject (Encrypted E S) key d (s, e) = (r, (s', e')) \<longrightarrow>
      encrypting e' \<and> write_contract (look s key = None) (plain_view E look (s, e)) key d r (plain_view E look (s', e'))) \<and>
    (\<forall>t r s' e'. ReplaceObject (Encrypted E S) key t d (s, e) = (r, (s', e')) \<longrightarrow>
      encrypting e' \<and> write_contract (\<exists>d0. look s key = Some (d0, t)) (plain_view E look (s, e)) key d r (plain_view E look (s', e'))) \<and>
    (\<forall>meta s' e'. key \<noteq> CurrentKey \<and> PutObject (Encrypted E S) key (Some d) meta (s, e) = (Inr (), (s', e')) \<longrightarrow>
      encrypting e' \<and> landed (plain_view E look (s, e)) key d (plain_view E look (s', e')))"
proof (intro conjI allI impI)
  have c: "CreateObject S key body s = (q, s1) \<Longrightarrow> write_contract (look s key = None) (look s) key body q (look s1)" for body q s1
    using conditional_store.create_ok [OF assms(1)] conditional_store.create_err [OF assms(1)] by (auto simp: write_contract_def split: sum.splits)
  have p: "ReplaceObject S key t body s = (q, s1) \<Longrightarrow> write_contract (\<exists>d0. look s key = Some (d0, t)) (look s) key body q (look s1)" for t body q s1
    using conditional_store.replace_ok [OF assms(1)] conditional_store.replace_err [OF assms(1)] by (auto simp: write_contract_def split: sum.splits)
  note cv = write_viewed [OF assms c] and pv = write_viewed [OF assms p]
  show "encrypting e'" "write_contract (look s key = None) (plain_view E look (s, e)) key d r (plain_view E look (s', e'))"
    if "CreateObject (Encrypted E S) key d (s, e) = (r, (s', e'))" for r s' e' using cv that by (simp_all add: Encrypted_def)
  show "encrypting e'" "write_contract (\<exists>d0. look s key = Some (d0, t)) (plain_view E look (s, e)) key d r (plain_view E look (s', e'))"
    if "ReplaceObject (Encrypted E S) key t d (s, e) = (r, (s', e'))" for t r s' e' using pv that by (simp_all add: Encrypted_def)
  have z: "length d < 2 ^ 62" using assms(6) by (simp add: plain_body_def)
  show "encrypting e'" "landed (plain_view E look (s, e)) key d (plain_view E look (s', e'))"
    if "key \<noteq> CurrentKey \<and> PutObject (Encrypted E S) key (Some d) meta (s, e) = (Inr (), (s', e'))" for meta s' e'
    using put_viewed [OF assms(1,2,4,5) z, of key meta s "Inr ()" s' e'] that by (auto simp: Encrypted_def)
qed

theorem encrypted_writes_witness:
  "\<exists>t s' e'. CreateObject (Encrypted sample_env (fake_store (\<lambda>_. []))) ''packs/p'' ''note'' (fake_New [], sample_encrypting) = (Inr t, (s', e')) \<and>
    plain_view sample_env fake_look (s', e') ''packs/p'' = Some (''note'', t)"
proof (rule sample_create)
  fix env s' e'
  assume c: "CreateObject (Encrypted sample_env (fake_store (\<lambda>_. []))) ''packs/p'' ''note'' (fake_New [], sample_encrypting) =
    (Inr (etagFor (\<lambda>_. []) env), (s', e'))"
  have p: "plain_body sample_env ''packs/p'' ''note''" by (simp add: plain_body_def sample_key)
  from encrypted_writes [OF fake.conditional_store_axioms sample_env_laws(1-4) p] c show ?thesis
    by (fastforce simp: write_contract_def)
qed

text \<open>A read in the encrypted mode leaves the raw view alone and returns what the decrypted view holds, with the plaintext's
  size and, for a pack, its digest.\<close>

theorem encrypted_reads:
  assumes "conditional_store S look" "encrypting e"
    "ReadObject (Encrypted E S) key (s, e) = (Inr (rc, info), (s', e'))" "es_mode e' = modeEncrypted"
  shows "look s' = look s \<and> (\<exists>d. rc = Some d \<and> plain_view E look (s, e) key = Some (d, oi_ETag info) \<and> oi_Size info = length d \<and>
    (key \<noteq> CurrentKey \<longrightarrow> md_SHA256 (oi_Meta info) = ee_sha E d \<and> md_Size (oi_Meta info) = of_nat (length d)))"
proof -
  obtain q s1 where rd: "ReadObject S key s = (q, s1)" by fastforce
  have v: "look s1 = look s" by (rule conditional_store.read_view [OF assms(1) rd])
  note ok = conditional_store.read_ok [OF assms(1)]
  have run: "enc_ReadObject E S key (s, e) = (Inr (rc, info), (s', e'))" using assms(3) by (simp add: Encrypted_def)
  obtain body info0 where q: "q = Inr (Some body, info0)"
  proof -
    have "\<exists>body info0. q = Inr (Some body, info0)"
    proof (rule ccontr)
      assume "\<nexists>body info0. q = Inr (Some body, info0)"
      then show False using run rd assms(2)
        by (auto simp: enc_ReadObject_def readCurrent_enc_def bindS_apply rawS_def open_enc_def readAllClose_def ofOption_def ensureMode_encrypting
            split: sum.splits prod.splits option.splits if_splits)
    qed
    then show thesis using that by blast
  qed
  have look: "look s key = Some (body, oi_ETag info0)" using ok rd q by blast
  show ?thesis
  proof (cases "key = CurrentKey")
    case True
    then have run': "readCurrent_enc E S key (s, e) = (Inr (rc, info), (s', e'))" using run by (simp add: enc_ReadObject_def)
    obtain x where c: "classify E body = Inr x"
      using run' rd q by (auto simp: readCurrent_enc_def bindS_apply rawS_def readAllClose_def split: sum.splits)
    obtain enc envelope where x: "x = (enc, envelope)" by (cases x)
    have "enc = CurrentEncrypted"
      using run' rd q c x assms(4) by (cases enc) (auto simp: readCurrent_enc_def bindS_apply rawS_def readAllClose_def cacheMode_def)
    then show ?thesis
      using run' rd q c x assms(2) v look True
      by (auto simp: readCurrent_enc_def bindS_apply rawS_def readAllClose_def cacheMode_def openS_encrypting plain_view_def decrypted_def
          split: sum.splits prod.splits)
  next
    case False
    then show ?thesis
      using run rd q assms(2) v look
      by (auto simp: enc_ReadObject_def bindS_apply rawS_def open_enc_def readAllClose_def ensureMode_encrypting openS_encrypting plain_view_def decrypted_def
          split: sum.splits prod.splits)
  qed
qed

theorem encrypted_reads_witness:
  "\<exists>s e info s' e'. ReadObject (Encrypted sample_env (fake_store (\<lambda>_. []))) ''packs/p'' (s, e) = (Inr (Some ''note'', info), (s', e')) \<and>
    oi_Size info = 4 \<and> plain_view sample_env fake_look (s, e) ''packs/p'' = Some (''note'', oi_ETag info)"
proof (rule sample_create)
  fix env s e
  assume env: "Keyring_Seal checksum_crypt (Some sample_prefix) ''packs/p'' KindPack ''note'' [] sample_keyring = Inr env"
    and e: "encrypting e" "es_keyring e = sample_keyring"
    and rd: "fst (ReadObject (fake_store (\<lambda>_. [])) ''packs/p'' s) =
      Inr (Some env, \<lparr>oi_Size = length env, oi_ETag = etagFor (\<lambda>_. []) env, oi_Meta = zeroMetadata\<rparr>)"
  obtain s1 where s1: "ReadObject (fake_store (\<lambda>_. [])) ''packs/p'' s =
      (Inr (Some env, \<lparr>oi_Size = length env, oi_ETag = etagFor (\<lambda>_. []) env, oi_Meta = zeroMetadata\<rparr>), s1)"
    using rd by (metis prod.collapse)
  have "Keyring_Seal (ee_crypt sample_env) (ee_random sample_env 0) ''packs/p'' KindPack ''note'' [] (es_keyring e) = Inr env"
    using env e(2) by (simp add: sample_env_def)
  from sealed_decrypts [OF sample_env_laws(1,3) e(1) _ _ this] obtain h where
    "fst (Keyring_Open (ee_crypt sample_env) (\<lambda>_. False) ''packs/p'' env (es_keyring e)) = Inr (''note'', h)" by auto
  then have "openS sample_env ''packs/p'' env (s1, e) = (Inr (''note'', h), (s1, e\<lparr>es_calls := Suc (es_calls e)\<rparr>))"
    by (simp add: openS_encrypting [OF e(1)])
  then obtain info e' where r: "ReadObject (Encrypted sample_env (fake_store (\<lambda>_. []))) ''packs/p'' (s, e) = (Inr (Some ''note'', info), (s1, e'))"
      "es_mode e' = modeEncrypted"
    using s1 sample_key e(1)
    by (simp add: Encrypted_def enc_ReadObject_def bindS_apply ensureMode_encrypting [OF e(1)] rawS_def open_enc_def readAllClose_def encrypting_def)
  have "oi_Size info = 4" "plain_view sample_env fake_look (s, e) ''packs/p'' = Some (''note'', oi_ETag info)"
    using encrypted_reads [OF fake.conditional_store_axioms e(1) r] by simp_all
  with r(1) show ?thesis by blast
qed



text \<open>After a caller's own encrypted \<open>current\<close> was written through, the next manifest is refused for want of doors: a keyring
  that holds the key resolves the mode without reading \<open>current\<close>, so the new door set is not learned before a read of it.\<close>

theorem doors_not_relearned:
  assumes "kr_unlocked (es_keyring e)" "classify E wrapped = Inr (CurrentEncrypted, envelope)" "classify E manifest = Inr (CurrentPlaintext, x)"
    and "ReplaceObject (Encrypted E S) CurrentKey t wrapped (s, e) = (Inr t', (s', e'))"
  shows "fst (ReplaceObject (Encrypted E S) CurrentKey t' manifest (s', e')) = Inl ErrIntegrity"
proof -
  have "e' = e\<lparr>es_mode := modeUnresolved, es_doors := []\<rparr>"
    using assms(2,4) by (auto simp: Encrypted_def writeObject_def writeCurrent_def bindS_apply rawS_def invalidateMode_def cacheMode_def split: prod.splits sum.splits)
  then show ?thesis
    using assms(1,3) by (simp add: Encrypted_def writeObject_def writeCurrent_def bindS_apply ensureMode_def withE_def cacheMode_def sealSet_def)
qed

theorem doors_not_relearned_witness:
  "\<exists>wrapped manifest t s t' s' e'.
    ReplaceObject (Encrypted sample_env (fake_store (\<lambda>_. []))) CurrentKey t wrapped (s, sample_encrypting) = (Inr t', (s', e')) \<and>
    fst (ReplaceObject (Encrypted sample_env (fake_store (\<lambda>_. []))) CurrentKey t' manifest (s', e')) = Inl ErrIntegrity"
proof -
  let ?wrapped = "jl_text (ee_json sample_env) (Encode (currentWrapper ''sealed''))"
  let ?manifest = "jl_text (ee_json sample_env) (Encode (JObject [(''version'', JNumber 1)]))"
  have w: "classify sample_env ?wrapped = Inr (CurrentEncrypted, ''sealed'')"
    by (simp add: classify_def json_text.read_back [OF sample_env_laws(2) valid_wrapper] ClassifyCurrent_wrapper)
  have "Parse (Encode (JObject [(''version'', JNumber 1)])) = Inr (JObject [(''version'', JNumber 1)])" by (rule Parse_Encode) simp
  then have m: "classify sample_env ?manifest = Inr (CurrentPlaintext, [])"
    by (simp add: classify_def json_text.read_back [OF sample_env_laws(2)] utf8_Valid_ascii ClassifyCurrent_def Value_Field_def ManifestWrapperVersion_def)
  obtain s t t' s' where "ReplaceObject (fake_store (\<lambda>_. [])) CurrentKey t ?wrapped s = (Inr t', s')"
    using sample_raw_replace by blast
  then obtain e' where r: "ReplaceObject (Encrypted sample_env (fake_store (\<lambda>_. []))) CurrentKey t ?wrapped (s, sample_encrypting) = (Inr t', (s', e'))"
    using w by (simp add: Encrypted_def writeObject_def writeCurrent_def bindS_apply rawS_def invalidateMode_def cacheMode_def)
  have "kr_unlocked (es_keyring sample_encrypting)" by (simp add: sample_encrypting_def sample_typed)
  from doors_not_relearned [OF this w m r] r show ?thesis by blast
qed

end
