(* ===== verification/NotebookEncryption.thy ===== *)
theory NotebookEncryption
  imports NotebookSafety EncryptedStore
begin

text \<open>
  The encryption operations of a notebook (\<open>internal/notebook/encryption.go\<close>): the stored mode, the replacement of
  the doors of an encrypted \<open>current\<close>, and the root publication that establishes encryption or replaces the notebook key.

  An operation is an action over \<open>encst\<close>: the notebook's state, the keyring that opens the stored \<open>current\<close>, which an open
  may unlock, and the number of keyring calls made, under which the environment \<open>enc_env\<close> answers with random bytes and
  cancellations. A nil opening keyring is the flag \<open>given\<close> or \<open>ci_HasOpen\<close>. The sealing keyring is used after it sealed
  an envelope, so it holds the key and an open leaves it alone: it is a constant of the cipher.

  Whatever the store answers, a door change replaces the header of \<open>current\<close> and nothing else (\<open>doors_change_exact\<close>), with
  the doors it was given whatever doors are stored; a root publication leaves \<open>current\<close> alone or replaces it by a
  wrapped envelope under the new key (\<open>root_publication_sealed\<close>).
\<close>

section \<open>State\<close>

record ('w, 's) encst =
  en_nb :: "('w, 's) nbst"
  en_ring :: Keyring
  en_calls :: nat

type_synonym ('a, 'w, 's) en = "(nb_error, 'a, ('w, 's) encst) act"

definition onNb :: "('e, 'a, ('w, 's) nbst) act \<Rightarrow> ('e, 'a, ('w, 's) encst) act" where
  "onNb m = (\<lambda>\<sigma>. case m (en_nb \<sigma>) of (r, x) \<Rightarrow> (r, \<sigma>\<lparr>en_nb := x\<rparr>))"

record 's Cipher =
  ci_Store :: "'s ObjectStore"
  ci_HasOpen :: bool
  ci_Seal :: Keyring
  ci_Doors :: "Door list"

record EncryptionStatus =
  es_Enabled :: bool
  es_Locked :: bool
  es_Doors :: "Door list"
  es_Source :: CandidateSource

definition zeroStatus :: EncryptionStatus where
  "zeroStatus = \<lparr>es_Enabled = False, es_Locked = False, es_Doors = [], es_Source = SourceUnknown\<rparr>"

section \<open>Reading \<open>current\<close>\<close>

definition readRawCurrent :: "'s ObjectStore \<Rightarrow> ((bytes \<times> etag) option, 'w, 's) nb" where
  "readRawCurrent raw =
     tryS (onStore (ReadObject raw CurrentKey)) (\<lambda>r. case r of
       Inl err \<Rightarrow>
         if store_is ErrNotFound err then retS None else failS (storageFailure ReasonManifestRead (Some (StoreErr err)))
     | Inr (None, _) \<Rightarrow> failS (storageFailure ReasonManifestRead (Some BodyErr))
     | Inr (Some data, info) \<Rightarrow> retS (Some (data, oi_ETag info)))"

definition classifyCurrent :: "('w, 'r, 's) Notebook \<Rightarrow> bytes \<Rightarrow> nb_error + CurrentEncoding \<times> bytes" where
  "classifyCurrent n data = mapErr (\<lambda>e. manifestError (DecodeErr e)) (ClassifyCurrent (jl_tokens (n_json n) data))"

definition decodeOpened :: "('w, 'r, 's) Notebook \<Rightarrow> bytes \<Rightarrow> nb_error + Manifest" where
  "decodeOpened n data = mapErr (\<lambda>e. manifestError (DecodeErr e)) (decodeCurrent n data)"

text \<open>The three classes \<open>encryptionOpenError\<close> tells apart.\<close>

definition open_class :: "crypt_error \<Rightarrow> open_error" where
  "open_class e = (if e = crypt_error.ErrKeyRejected then open_error.ErrKeyRejected
     else if e = crypt_error.ErrUnsupportedFormat then open_error.ErrUnsupportedFormat else EnvelopeBroken)"

definition openRing :: "enc_env \<Rightarrow> bytes \<Rightarrow> (bytes \<times> Header, 'w, 's) en" where
  "openRing E envelope = (\<lambda>\<sigma>.
     case Keyring_Open (ee_crypt E) (ee_cancelled E (en_calls \<sigma>)) CurrentKey envelope (en_ring \<sigma>) of
       (r, k) \<Rightarrow> (mapErr (\<lambda>e. encryptionOpenError (open_class e)) r, \<sigma>\<lparr>en_ring := k, en_calls := Suc (en_calls \<sigma>)\<rparr>))"

text \<open>An open by a keyring that holds the key, as \<open>decodeStoredCurrent\<close> takes it.\<close>

definition ring_of :: "enc_env \<Rightarrow> Keyring \<Rightarrow> keyring" where
  "ring_of E k envelope = mapErr open_class (map_sum id fst (fst (Keyring_Open (ee_crypt E) (\<lambda>_. False) CurrentKey envelope k)))"

definition EncryptStatus :: "('w, 'r, 's) Notebook \<Rightarrow> enc_env \<Rightarrow> 's ObjectStore \<Rightarrow> bool \<Rightarrow> (EncryptionStatus, 'w, 's) en" where
  "EncryptStatus n E raw given =
     bindS (onNb (readRawCurrent raw)) (\<lambda>cur. case cur of
       None \<Rightarrow> retS zeroStatus
     | Some (data, _) \<Rightarrow>
         bindS (liftS (classifyCurrent n data)) (\<lambda>(encoding, envelope).
         if encoding = CurrentPlaintext then retS zeroStatus
         else if \<not> given then retS (zeroStatus\<lparr>es_Enabled := True, es_Locked := True\<rparr>)
         else
           bindS (openRing E envelope) (\<lambda>(_, header).
           bindS (getS en_ring) (\<lambda>k.
           retS \<lparr>es_Enabled = True, es_Locked = False, es_Doors = hd_Doors header, es_Source = kr_source k\<rparr>))))"

section \<open>Changing doors\<close>

definition entryCheck :: "('w, 'r, 's) Notebook \<Rightarrow> (unit, 'w, 's) nb" where
  "entryCheck n =
     bindS (getS (\<lambda>\<sigma>. ws_RecoveryRequired (n_ws n) (nb_ws \<sigma>))) (\<lambda>required. if required then entryRecovery n else retS ())"

definition notEncrypted :: nb_error where
  "notEncrypted = invalidRequest ReasonEncryptionNotEnabled None []"

definition rewrapRing :: "enc_env \<Rightarrow> bytes \<Rightarrow> Door list \<Rightarrow> (bytes, 'w, 's) en" where
  "rewrapRing E envelope doors =
     bindS (getS en_ring) (\<lambda>k.
     liftS (mapErr (\<lambda>_. storageIntegrity ReasonEnvelopeInvalid (Some EnvelopeErr)) (Rewrap (ee_crypt E) CurrentKey envelope doors k)))"

text \<open>A round of the loop: what is to be written under which ETag, and the write; \<open>again\<close> follows a lost race.\<close>

definition doors_rewritten ::
  "('w, 'r, 's) Notebook \<Rightarrow> enc_env \<Rightarrow> 's ObjectStore \<Rightarrow> Door list \<Rightarrow> (etag \<times> Manifest \<times> jstream, 'w, 's) en" where
  "doors_rewritten n E raw doors =
     bindS (onNb (readRawCurrent raw)) (\<lambda>cur. case cur of
       None \<Rightarrow> failS notEncrypted
     | Some (data, etag) \<Rightarrow>
         bindS (liftS (classifyCurrent n data)) (\<lambda>(encoding, envelope).
         if encoding = CurrentPlaintext then failS notEncrypted
         else
           bindS (openRing E envelope) (\<lambda>(plaintext, _).
           bindS (liftS (decodeOpened n plaintext)) (\<lambda>manifest.
           bindS (rewrapRing E envelope doors) (\<lambda>rewritten.
           bindS (liftS (mapErr (\<lambda>e. storageIntegrity ReasonEnvelopeInvalid (Some (DecodeErr e))) (WrapCurrentEnvelope rewritten))) (\<lambda>wrapped.
           retS (etag, manifest, wrapped)))))))"

definition doors_round ::
  "('w, 'r, 's) Notebook \<Rightarrow> enc_env \<Rightarrow> 's ObjectStore \<Rightarrow> Door list \<Rightarrow> (u64, 'w, 's) en \<Rightarrow> (u64, 'w, 's) en" where
  "doors_round n E raw doors again =
     bindS (doors_rewritten n E raw doors) (\<lambda>(etag, manifest, wrapped).
     tryS (onNb (onStore (ReplaceObject raw CurrentKey etag (jl_text (n_json n) wrapped)))) (\<lambda>r. case r of
       Inr _ \<Rightarrow> retS (mf_Generation manifest)
     | Inl err \<Rightarrow>
         if store_is ErrPreconditionFailed err then again
         else failS (storageFailure ReasonManifestWrite (Some (StoreErr err)))))"

fun doors_loop :: "('w, 'r, 's) Notebook \<Rightarrow> enc_env \<Rightarrow> 's ObjectStore \<Rightarrow> Door list \<Rightarrow> nat \<Rightarrow> (u64, 'w, 's) en" where
  "doors_loop n E raw doors 0 = doors_round n E raw doors (failS remoteBusy)"
| "doors_loop n E raw doors (Suc k) =
     doors_round n E raw doors (if n_waiter n (n_retryLimit n - k) then doors_loop n E raw doors k else failS CtxErr)"

definition EncryptDoors :: "('w, 'r, 's) Notebook \<Rightarrow> enc_env \<Rightarrow> 's ObjectStore \<Rightarrow> Door list \<Rightarrow> (u64, 'w, 's) en" where
  "EncryptDoors n E raw doors =
     bindS (onNb (holdWorkspace n)) (\<lambda>_.
     bindS (onNb (entryCheck n)) (\<lambda>_.
     doors_loop n E raw doors (n_retryLimit n)))"

section \<open>Root publications\<close>

record rootProposal =
  rt_publicationID :: uuid
  rt_key :: Key
  rt_pack :: Pack
  rt_manifest :: Manifest
  rt_baseline :: Baseline

definition root_proposal :: "u64 \<Rightarrow> oid \<Rightarrow> oid \<Rightarrow> Pack \<Rightarrow> uuid \<Rightarrow> uuid \<Rightarrow> rootProposal" where
  "root_proposal generation head tree pack pubID cpID =
     (let key = \<lparr>key_Kind = KindCheckpoint, key_Generation = generation, key_ID = cpID\<rparr> in
      \<lparr>rt_publicationID = pubID, rt_key = key, rt_pack = pack,
       rt_manifest = \<lparr>mf_Version = ManifestVersion, mf_Generation = generation, mf_Head = head,
         mf_Checkpoint = \<lparr>cp_ID = cpID, cp_Publication = pubID, cp_ThroughGeneration = generation, cp_Head = head,
           cp_Key = key, cp_SHA256 = pk_SHA256 pack, cp_Size = pack_size pack\<rparr>,
         mf_Increments = [], mf_Retained = []\<rparr>,
       rt_baseline = \<lparr>bl_RemoteGeneration = generation, bl_Head = head, bl_Tree = tree\<rparr>\<rparr>)"

definition buildRootProposal :: "('w, 'r, 's) Notebook \<Rightarrow> remoteState \<Rightarrow> oid \<Rightarrow> bytes \<Rightarrow> (rootProposal, 'w, 's) nb" where
  "buildRootProposal n remote tree message =
     bindS (drawID n) (\<lambda>pubID.
     bindS (readClock n) (\<lambda>now.
     bindS (makeCommit n \<lparr>cs_Message = message, cs_Tree = tree, cs_Parents = [], cs_Time = now\<rparr>) (\<lambda>head.
     bindS (exportCheckpoint n head) (\<lambda>pack.
     bindS (markShallow n head) (\<lambda>_.
     bindS (drawID n) (\<lambda>cpID.
     retS (root_proposal (rs_generation remote + 1) head tree pack pubID cpID)))))))"

definition refuseEncryptedCurrent :: "('w, 'r, 's) Notebook \<Rightarrow> 's ObjectStore \<Rightarrow> (unit, 'w, 's) nb" where
  "refuseEncryptedCurrent n raw =
     bindS (readRawCurrent raw) (\<lambda>cur. case cur of
       None \<Rightarrow> retS ()
     | Some (data, _) \<Rightarrow>
         bindS (liftS (classifyCurrent n data)) (\<lambda>(encoding, _).
         if encoding = CurrentEncrypted then failS (invalidRequest ReasonEncryptionAlreadyEnabled None []) else retS ()))"

definition encryptedRemote :: "('w, 'r, 's) Notebook \<Rightarrow> enc_env \<Rightarrow> 's Cipher \<Rightarrow> (remoteState, 'w, 's) en" where
  "encryptedRemote n E c =
     bindS (onNb (readRawCurrent (ci_Store c))) (\<lambda>cur. case cur of
       None \<Rightarrow> failS notEncrypted
     | Some (data, etag) \<Rightarrow>
         bindS (liftS (classifyCurrent n data)) (\<lambda>(encoding, envelope).
         if encoding = CurrentPlaintext then failS notEncrypted
         else if \<not> ci_HasOpen c then failS (storageFailure ReasonKeyRequired None)
         else
           bindS (openRing E envelope) (\<lambda>(plaintext, _).
           bindS (liftS (decodeOpened n plaintext)) (\<lambda>manifest.
           bindS (onNb (getS (baseline_of n))) (\<lambda>base.
           case CheckManifestRollback manifest (bl_RemoteGeneration base) of
             Inl _ \<Rightarrow> failS (storageIntegrity ReasonHistoryInvalid (Some (StoreErr ErrIntegrity)))
           | Inr _ \<Rightarrow>
               if mf_Head manifest \<noteq> bl_Head base \<or> mf_Generation manifest \<noteq> bl_RemoteGeneration base
               then failS (invalidRequest ReasonPullRequired None [])
               else
                 bindS (onNb (mapErrS (\<lambda>e. storageIntegrity ReasonHistoryInvalid (Some (GitErr e)))
                   (askRepo n (\<lambda>r. ReadCommit (n_repo n) r (mf_Head manifest))))) (\<lambda>commit.
                 retS (acceptedState manifest etag (c_Tree commit))))))))"

definition rootRemote :: "('w, 'r, 's) Notebook \<Rightarrow> enc_env \<Rightarrow> 's Cipher \<Rightarrow> bool \<Rightarrow> (remoteState, 'w, 's) en" where
  "rootRemote n E c rekey =
     (if rekey then encryptedRemote n E c
      else
        onNb (bindS (refuseEncryptedCurrent n (ci_Store c)) (\<lambda>_.
          bindS (readRemote n) (\<lambda>remote.
          bindS (getS (\<lambda>\<sigma>. ws_Pulled (n_ws n) (nb_ws \<sigma>))) (\<lambda>pulled.
          if rs_present remote \<and> \<not> pulled then failS (invalidRequest ReasonPullRequired None []) else retS remote)))))"

text \<open>\<open>c.Seal.Seal\<close> with the random bytes of the next keyring call.\<close>

definition sealRing :: "enc_env \<Rightarrow> Keyring \<Rightarrow> bytes \<Rightarrow> ObjectKind \<Rightarrow> bytes \<Rightarrow> Door list \<Rightarrow> (crypt_error, bytes, ('w, 's) encst) act" where
  "sealRing E k key kind body doors = (\<lambda>\<sigma>.
     (Keyring_Seal (ee_crypt E) (ee_random E (en_calls \<sigma>)) key kind body doors k, \<sigma>\<lparr>en_calls := Suc (en_calls \<sigma>)\<rparr>))"

definition sealed_meta :: "hash_lib \<Rightarrow> Key \<Rightarrow> bytes \<Rightarrow> Metadata" where
  "sealed_meta sha key envelope = \<lparr>md_SHA256 = sha envelope, md_Size = of_nat (length envelope), md_Kind = key_Kind key,
     md_Generation = key_Generation key\<rparr>"

definition uploadEncrypted :: "('w, 'r, 's) Notebook \<Rightarrow> enc_env \<Rightarrow> 's Cipher \<Rightarrow> rootProposal \<Rightarrow> (unit, 'w, 's) en" where
  "uploadEncrypted n E c p =
     bindS (mapErrS (\<lambda>_. storageFailure ReasonPackUpload (Some EnvelopeErr))
       (sealRing E (ci_Seal c) (Key_String (n_lib n) (rt_key p)) KindPack (pk_Data (rt_pack p)) [])) (\<lambda>envelope.
     onNb (mapErrS mapUploadError (onStore (UploadUnique (n_sha n) (n_lib n) (ci_Store c) (rt_key p) (Some envelope)
       (sealed_meta (n_sha n) (rt_key p) envelope)))))"

definition publishEncrypted :: "('w, 'r, 's) Notebook \<Rightarrow> enc_env \<Rightarrow> 's Cipher \<Rightarrow> remoteState \<Rightarrow> rootProposal \<Rightarrow> (unit, 'w, 's) en" where
  "publishEncrypted n E c remote p =
     bindS (liftS (mapErr (\<lambda>e. storageIntegrity ReasonEngineFailed (Some (DecodeErr e))) (EncodeManifest (n_lib n) (rt_manifest p)))) (\<lambda>stream.
     bindS (mapErrS (\<lambda>_. storageFailure ReasonManifestWrite (Some EnvelopeErr))
       (sealRing E (ci_Seal c) CurrentKey KindCurrent (jl_text (n_json n) stream) (ci_Doors c))) (\<lambda>envelope.
     bindS (liftS (mapErr (\<lambda>e. storageIntegrity ReasonManifestInvalid (Some (DecodeErr e))) (WrapCurrentEnvelope envelope))) (\<lambda>wrapped.
     let body = jl_text (n_json n) wrapped in
     tryS (onNb (onStore (if rs_present remote then ReplaceObject (ci_Store c) CurrentKey (rs_etag remote) body
                          else CreateObject (ci_Store c) CurrentKey body))) (\<lambda>r. case r of
       Inr _ \<Rightarrow> retS ()
     | Inl err \<Rightarrow>
         if store_is ErrPreconditionFailed err then failS ErrCASLost
         else if store_is ErrTransport err then
           bindS (onNb (lookupPublication n (Some (ring_of E (ci_Seal c))) (rt_publicationID p))) (\<lambda>found.
           if found then retS () else failS (storageFailure ReasonPublicationUnproven (Some (StoreErr err))))
         else failS (storageFailure ReasonManifestWrite (Some (Wrapped [ErrManifestRefused, StoreErr err])))))))"

definition encryptedRoots :: "('w, 'r, 's) Notebook \<Rightarrow> enc_env \<Rightarrow> 's Cipher \<Rightarrow> (bytes list, 'w, 's) nb" where
  "encryptedRoots n E c =
     bindS (readRawCurrent (ci_Store c)) (\<lambda>cur. case cur of
       None \<Rightarrow> failS (Wrapped [])
     | Some (data, _) \<Rightarrow>
         bindS (liftS (decodeStoredCurrent n (Some (ring_of E (ci_Seal c))) data)) (\<lambda>m. retS (manifestRoots (n_lib n) m)))"

definition cleanupCurrent :: "('w, 'r, 's) Notebook \<Rightarrow> enc_env \<Rightarrow> 's Cipher \<Rightarrow> u64 \<Rightarrow> (unit, 'w, 's) en" where
  "cleanupCurrent n E c cutoff = onNb (cleanupPacks n cutoff (encryptedRoots n E c))"

text \<open>What follows a publication that was proved: the local acceptance, then cleanup on every path.\<close>

definition failRoot :: "('w, 'r, 's) Notebook \<Rightarrow> enc_env \<Rightarrow> 's Cipher \<Rightarrow> rootProposal \<Rightarrow> ws_error \<Rightarrow> ('a, 'w, 's) en" where
  "failRoot n E c p err =
     bindS (cleanupCurrent n E c (key_Generation (rt_key p))) (\<lambda>_.
     bindS (onNb (failAfterAccept n ''commit.accept'' (WsErr err))) (\<lambda>e. failS e))"

definition acceptRoot :: "('w, 'r, 's) Notebook \<Rightarrow> enc_env \<Rightarrow> 's Cipher \<Rightarrow> rootProposal \<Rightarrow> DiffStat \<Rightarrow> (Result, 'w, 's) en" where
  "acceptRoot n E c p stat =
     tryS (onNb (onWs (ws_Accept (n_ws n) (rt_baseline p)))) (\<lambda>r. case r of
       Inl err \<Rightarrow> failRoot n E c p err
     | Inr _ \<Rightarrow>
         bindS (onNb (getS (\<lambda>\<sigma>. ws_Pulled (n_ws n) (nb_ws \<sigma>)))) (\<lambda>pulled.
         tryS (if pulled then retS () else onNb (onWs (ws_MarkPulled (n_ws n)))) (\<lambda>r'. case r' of
           Inl err \<Rightarrow> failRoot n E c p err
         | Inr _ \<Rightarrow>
             bindS (cleanupCurrent n E c (key_Generation (rt_key p))) (\<lambda>_.
             retS \<lparr>res_Generation = bl_RemoteGeneration (rt_baseline p), res_Stat = stat, res_Contents = []\<rparr>))))"

text \<open>The result is \<open>None\<close> when the conditional write lost the race.\<close>

definition attemptRoot ::
  "('w, 'r, 's) Notebook \<Rightarrow> enc_env \<Rightarrow> 's Cipher \<Rightarrow> bytes \<Rightarrow> bool \<Rightarrow> oid \<Rightarrow> oid \<Rightarrow> (Result option, 'w, 's) en" where
  "attemptRoot n E c message rekey baseTree localTree =
     bindS (rootRemote n E c rekey) (\<lambda>remote.
     bindS (onNb (mergeTrees n baseTree localTree (rs_tree remote))) (\<lambda>merged.
     if mres_Conflicts merged \<noteq> [] then onNb (conflictResult n (remote_baseline remote) merged localTree (retS ()))
     else
       bindS (onNb (diffStat n (rs_tree remote) (mres_Tree merged))) (\<lambda>stat.
       bindS (onNb (buildRootProposal n remote (mres_Tree merged) message)) (\<lambda>p.
       bindS (uploadEncrypted n E c p) (\<lambda>_.
       tryS (publishEncrypted n E c remote p) (\<lambda>r. case r of
         Inl err \<Rightarrow> if is_cas_lost err then retS None else failS err
       | Inr _ \<Rightarrow> bindS (acceptRoot n E c p stat) (\<lambda>res. retS (Some res))))))))"

fun root_loop ::
  "('w, 'r, 's) Notebook \<Rightarrow> enc_env \<Rightarrow> 's Cipher \<Rightarrow> bytes \<Rightarrow> bool \<Rightarrow> oid \<Rightarrow> oid \<Rightarrow> nat \<Rightarrow> (Result, 'w, 's) en" where
  "root_loop n E c message rekey baseTree localTree 0 =
     bindS (attemptRoot n E c message rekey baseTree localTree) (\<lambda>r. case r of Some result \<Rightarrow> retS result | None \<Rightarrow> failS remoteBusy)"
| "root_loop n E c message rekey baseTree localTree (Suc k) =
     bindS (attemptRoot n E c message rekey baseTree localTree) (\<lambda>r. case r of
       Some result \<Rightarrow> retS result
     | None \<Rightarrow> if n_waiter n (n_retryLimit n - k) then root_loop n E c message rekey baseTree localTree k else failS CtxErr)"

definition publishRoot :: "('w, 'r, 's) Notebook \<Rightarrow> enc_env \<Rightarrow> 's Cipher \<Rightarrow> bytes \<Rightarrow> bool \<Rightarrow> (Result, 'w, 's) en" where
  "publishRoot n E c message rekey =
     bindS (onNb (holdWorkspace n)) (\<lambda>_.
     bindS (onNb (entryCheck n)) (\<lambda>_.
     bindS (liftS (ValidateMessage message)) (\<lambda>_.
     bindS (onNb (takeSnapshot n)) (\<lambda>local.
     if rejectMarkers local \<noteq> [] then failS (contentConflict ReasonUnresolvedMarkers (rejectMarkers local))
     else
       bindS (onNb (buildVisible n local)) (\<lambda>localTree.
       bindS (onNb (enforcePolicy n local localTree)) (\<lambda>_.
       bindS (onNb (getS (\<lambda>\<sigma>. bl_Tree (baseline_of n \<sigma>)))) (\<lambda>baseTree.
       root_loop n E c message rekey baseTree localTree (n_retryLimit n))))))))"

definition EncryptInit :: "('w, 'r, 's) Notebook \<Rightarrow> enc_env \<Rightarrow> 's Cipher \<Rightarrow> bytes \<Rightarrow> (Result, 'w, 's) en" where
  "EncryptInit n E c message = publishRoot n E c message False"

definition EncryptRekey :: "('w, 'r, 's) Notebook \<Rightarrow> enc_env \<Rightarrow> 's Cipher \<Rightarrow> bytes \<Rightarrow> (Result, 'w, 's) en" where
  "EncryptRekey n E c message = publishRoot n E c message True"

section \<open>What an open leaves\<close>

context primitives begin

lemma open_sized:
  assumes "Keyring_Open L c objectKey env k = (r, k')" "key_sized k" shows "key_sized k'"
proof (cases "decodeEnvelope env")
  case (Inl e)
  then show ?thesis using assms by (simp add: Keyring_Open_def)
next
  case (Inr p)
  have typed: "list_all door_typed (ps_knownDoors p)" using decodeEnvelope_sound(1,3) [OF Inr] by (simp add: header_typed_def)
  show ?thesis
  proof (cases "resolve L c objectKey (ps_knownDoors p) k")
    case (Pair q k1)
    have "key_sized k1"
    proof (cases q)
      case (Inl e)
      then show ?thesis using Pair assms(2) by (auto simp: resolve_def split: if_splits sum.splits)
    next
      case key: (Inr key)
      show ?thesis using resolve_length [OF Pair [unfolded key] assms(2) typed] resolve_Inr [OF Pair [unfolded key]] by (auto simp: key_sized_def)
    qed
    moreover have "k' = k1 \<or> k' = k" using assms(1) Inr Pair by (auto simp: Keyring_Open_def encodeObjectKey_def split: sum.splits if_splits)
    ultimately show ?thesis using assms(2) by blast
  qed
qed

lemma open_holds:
  assumes "Keyring_Open L c objectKey env k = (Inr (plaintext, h), k')" "key_sized k"
  shows "kr_unlocked k' \<and> length (kr_key k') = 32 \<and> (\<forall>c'. Keyring_Open L c' objectKey env k' = (Inr (plaintext, h), k'))"
proof -
  obtain p ekey key where o: "decodeEnvelope env = Inr p" "encodeObjectKey objectKey = Inr ekey"
    "resolve L c objectKey (ps_knownDoors p) k = (Inr key, k')" "open_with L key ekey p = Inr (plaintext, h)"
    using assms(1) by (auto simp: open_parts)
  then have k: "kr_unlocked k'" "kr_key k' = key" using resolve_Inr [OF o(3)] by simp_all
  then have "length (kr_key k') = 32" using open_sized [OF assms] by (simp add: key_sized_def)
  then show ?thesis using k o by (auto simp: open_parts resolve_unlocked)
qed

end

section \<open>The doors\<close>

text \<open>
  \<open>v'\<close> differs from \<open>v\<close> in the wrapped envelope at \<open>current\<close> alone, and the two envelopes in their doors alone: both open to
  the same plaintext, the manifest \<open>m\<close>.
\<close>

definition wrapped_in :: "('w, 'r, 's) Notebook \<Rightarrow> bytes \<Rightarrow> bytes \<Rightarrow> bool" where
  "wrapped_in n envelope d \<longleftrightarrow> ClassifyCurrent (jl_tokens (n_json n) d) = Inr (CurrentEncrypted, envelope)"

definition door_change :: "('w, 'r, 's) Notebook \<Rightarrow> enc_env \<Rightarrow> Door list \<Rightarrow> Keyring \<Rightarrow> Manifest \<Rightarrow> view \<Rightarrow> view \<Rightarrow> bool" where
  "door_change n E doors k m v v' \<longleftrightarrow> (\<exists>d t d' t' env env' plaintext p p'.
     v CurrentKey = Some (d, t) \<and> v' = v(CurrentKey \<mapsto> (d', t')) \<and> wrapped_in n env d \<and> wrapped_in n env' d' \<and>
     ring_of E k env = Inr plaintext \<and> ring_of E k env' = Inr plaintext \<and> decodeCurrent n plaintext = Inr m \<and>
     decodeEnvelope env = Inr p \<and> decodeEnvelope env' = Inr p' \<and> ps_payload p' = ps_payload p \<and>
     hd_Extensions (ps_header p') = hd_Extensions (ps_header p) \<and> ps_unknownDoors p' = ps_unknownDoors p \<and> hd_Doors (ps_header p') = doors)"

lemma wrapped_text:
  assumes "json_text (n_json n)" "WrapCurrentEnvelope env = Inr data"
  shows "wrapped_in n env (jl_text (n_json n) data)"
  using wrapped_classified [of "\<lparr>ee_crypt = undefined, ee_json = n_json n, ee_sha = undefined, ee_random = undefined, ee_cancelled = undefined\<rparr>" env data]
    assms by (auto simp: wrapped_in_def classify_def mapErr_def split: sum.splits)

lemma readRawCurrent_view:
  assumes "conditional_store S look" "readRawCurrent S \<sigma> = (r, \<sigma>')"
  shows "look (nb_store \<sigma>') = look (nb_store \<sigma>)"
proof -
  obtain q s' where rd: "ReadObject S CurrentKey (nb_store \<sigma>) = (q, s')" by fastforce
  then have "nb_store \<sigma>' = s'" using assms(2)
    by (auto simp: readRawCurrent_def tryS_def onStore_def split: sum.splits option.splits if_splits)
  then show ?thesis using conditional_store.read_view [OF assms(1) rd] by simp
qed

lemma readRawCurrent_some:
  assumes "conditional_store S look" "readRawCurrent S \<sigma> = (Inr (Some (d, t)), \<sigma>')"
  shows "look (nb_store \<sigma>) CurrentKey = Some (d, t)"
proof -
  obtain q s' where rd: "ReadObject S CurrentKey (nb_store \<sigma>) = (q, s')" by fastforce
  then obtain info where "q = Inr (Some d, info)" "t = oi_ETag info"
    using assms(2) by (auto simp: readRawCurrent_def tryS_def onStore_def split: sum.splits option.splits if_splits)
  then show ?thesis using conditional_store.read_ok [OF assms(1)] rd by blast
qed

text \<open>What a rewrap by the keyring that opened the envelope changes.\<close>

lemma rewrapped_change:
  assumes prims: "primitives (ee_crypt E)" and js: "json_text (n_json n)" and doors: "list_all door_typed doors" and sized: "key_sized k"
    and stored: "v CurrentKey = Some (d, t)" "wrapped_in n env d" "length env < 2 ^ 63"
    and opened: "Keyring_Open (ee_crypt E) c CurrentKey env k = (Inr (plaintext, h), k')" "decodeCurrent n plaintext = Inr m"
    and rewrapped: "Rewrap (ee_crypt E) CurrentKey env doors k' = Inr env'" "WrapCurrentEnvelope env' = Inr data"
  shows "door_change n E doors k' m v (v(CurrentKey \<mapsto> (jl_text (n_json n) data, t')))"
proof -
  note k' = primitives.open_holds [OF prims opened(1) sized]
  have ring: "fst (Keyring_Open (ee_crypt E) (\<lambda>_. False) CurrentKey env k') = Inr (plaintext, h)" using k' by simp
  obtain p p' where p: "decodeEnvelope env = Inr p" "decodeEnvelope env' = Inr p'" "ps_payload p' = ps_payload p"
      "ps_unknownDoors p' = ps_unknownDoors p" "hd_Extensions (ps_header p') = hd_Extensions (ps_header p)" "hd_Doors (ps_header p') = doors"
      "map_sum id fst (fst (Keyring_Open (ee_crypt E) (\<lambda>_. False) CurrentKey env' k')) = map_sum id fst (fst (Keyring_Open (ee_crypt E) (\<lambda>_. False) CurrentKey env k'))"
    using Rewrap_opens [OF prims _ doors stored(3) rewrapped(1), of "\<lambda>_. False"] k' by blast
  have "ring_of E k' env = Inr plaintext" "ring_of E k' env' = Inr plaintext"
    using ring p(7) by (simp_all add: ring_of_def)
  then show ?thesis
    unfolding door_change_def using stored(1,2) wrapped_text [OF js rewrapped(2)] opened(2) p(1-6) by blast
qed

section \<open>Invariants of actions\<close>

definition keeps :: "('t \<Rightarrow> bool) \<Rightarrow> ('e, 'a, 't) act \<Rightarrow> bool" where
  "keeps I m \<longleftrightarrow> (\<forall>\<sigma> r \<sigma>'. m \<sigma> = (r, \<sigma>') \<longrightarrow> I \<sigma> \<longrightarrow> I \<sigma>')"

named_theorems keeps_rules "structural rules for actions that keep an invariant of the state"

lemma keepsD: "keeps I m \<Longrightarrow> m \<sigma> = (r, \<sigma>') \<Longrightarrow> I \<sigma> \<Longrightarrow> I \<sigma>'"
  by (simp add: keeps_def)

lemma keeps_basic [keeps_rules]: "keeps I (retS x)" "keeps I (failS e)" "keeps I (liftS y)" "keeps I (getS f)"
  by (simp_all add: keeps_def getS_def)

lemma keeps_tryS [keeps_rules]:
  assumes "keeps I m" "\<And>r. keeps I (f r)" shows "keeps I (tryS m f)"
  unfolding keeps_def tryS_apply
proof (intro allI impI)
  fix \<sigma> r \<sigma>' assume run: "f (fst (m \<sigma>)) (snd (m \<sigma>)) = (r, \<sigma>')" and I: "I \<sigma>"
  have "I (snd (m \<sigma>))" using assms(1) I by (rule keepsD [OF _ surjective_pairing])
  then show "I \<sigma>'" by (rule keepsD [OF assms(2) run])
qed

lemma keeps_bindS [keeps_rules]: "keeps I m \<Longrightarrow> (\<And>x. keeps I (f x)) \<Longrightarrow> keeps I (bindS m f)"
  unfolding bindS_def by (rule keeps_tryS) (simp_all add: keeps_basic split: sum.split)

lemma keeps_mapErrS [keeps_rules]: "keeps I m \<Longrightarrow> keeps I (mapErrS g m)"
  by (simp add: keeps_def mapErrS_apply) (metis prod.collapse)

lemma keeps_cases [keeps_rules]:
  "keeps I a \<Longrightarrow> keeps I b \<Longrightarrow> keeps I (if c then a else b)"
  "(\<And>e. keeps I (fl e)) \<Longrightarrow> (\<And>x. keeps I (fr x)) \<Longrightarrow> keeps I (case y of Inl e \<Rightarrow> fl e | Inr x \<Rightarrow> fr x)"
  "keeps I a \<Longrightarrow> (\<And>x. keeps I (fs x)) \<Longrightarrow> keeps I (case opt of None \<Rightarrow> a | Some x \<Rightarrow> fs x)"
  "(\<And>x z. keeps I (fp x z)) \<Longrightarrow> keeps I (case pr of (x, z) \<Rightarrow> fp x z)"
  "keeps I (ft t) \<Longrightarrow> keeps I (let x = t in ft x)"
  by (simp_all split: sum.splits option.splits prod.splits)

lemma keeps_onNb: "(\<And>x r x'. m x = (r, x') \<Longrightarrow> look (nb_store x') = look (nb_store x)) \<Longrightarrow> keeps (\<lambda>\<sigma>. P (look (nb_store (en_nb \<sigma>)))) (onNb m)"
  by (auto simp: keeps_def onNb_def split: prod.splits)

section \<open>Changing doors\<close>

text \<open>The state of a keyring between the calls of a door change, over a store view \<open>v\<close>.\<close>

definition at_view :: "('s \<Rightarrow> view) \<Rightarrow> view \<Rightarrow> ('w, 's) encst \<Rightarrow> bool" where
  "at_view look v \<sigma> \<longleftrightarrow> look (nb_store (en_nb \<sigma>)) = v \<and> key_sized (en_ring \<sigma>)"

lemma keeps_readRaw: "conditional_store S look \<Longrightarrow> keeps (at_view look v) (onNb (readRawCurrent S))"
  using readRawCurrent_view by (fastforce simp: keeps_def at_view_def onNb_def split: prod.splits)

lemma keeps_openRing: "primitives (ee_crypt E) \<Longrightarrow> keeps (at_view look v) (openRing E env)"
  using primitives.open_sized by (fastforce simp: keeps_def at_view_def openRing_def split: prod.splits)

lemma keeps_rewrapRing [keeps_rules]: "keeps I (rewrapRing E env doors)"
  unfolding rewrapRing_def by (intro keeps_rules)

lemma keeps_rewritten:
  assumes "conditional_store S look" "primitives (ee_crypt E)" shows "keeps (at_view look v) (doors_rewritten n E S doors)"
  unfolding doors_rewritten_def by (intro keeps_rules keeps_readRaw keeps_openRing assms)

lemma doors_rewritten_ok:
  assumes "conditional_store S look" "doors_rewritten n E S doors \<sigma> = (Inr (t, m, data), \<sigma>')"
  shows "\<exists>d env c plaintext h env'. look (nb_store (en_nb \<sigma>)) CurrentKey = Some (d, t) \<and> wrapped_in n env d \<and>
    Keyring_Open (ee_crypt E) c CurrentKey env (en_ring \<sigma>) = (Inr (plaintext, h), en_ring \<sigma>') \<and> decodeCurrent n plaintext = Inr m \<and>
    Rewrap (ee_crypt E) CurrentKey env doors (en_ring \<sigma>') = Inr env' \<and> WrapCurrentEnvelope env' = Inr data"
proof -
  obtain cur \<sigma>1 where rd: "onNb (readRawCurrent S) \<sigma> = (Inr cur, \<sigma>1)" using assms(2) by (auto simp: doors_rewritten_def bindS_Inr)
  then obtain d where cur: "cur = Some (d, t)"
    using assms(2) by (auto simp: doors_rewritten_def bindS_Inr split: option.splits prod.splits if_splits)
  have s1: "en_ring \<sigma>1 = en_ring \<sigma>" and stored: "look (nb_store (en_nb \<sigma>)) CurrentKey = Some (d, t)"
    using rd readRawCurrent_some [OF assms(1)] cur by (auto simp: onNb_def split: prod.splits)
  obtain env where env: "wrapped_in n env d"
      and rest: "bindS (openRing E env) (\<lambda>(plaintext, _). bindS (liftS (decodeOpened n plaintext)) (\<lambda>manifest.
           bindS (rewrapRing E env doors) (\<lambda>rewritten.
           bindS (liftS (mapErr (\<lambda>e. storageIntegrity ReasonEnvelopeInvalid (Some (DecodeErr e))) (WrapCurrentEnvelope rewritten))) (\<lambda>wrapped.
           retS (t, manifest, wrapped))))) \<sigma>1 = (Inr (t, m, data), \<sigma>')"
  proof -
    obtain enc env \<sigma>2 where c: "liftS (classifyCurrent n d) \<sigma>1 = (Inr (enc, env), \<sigma>2)" "enc \<noteq> CurrentPlaintext"
      using assms(2) rd cur by (auto simp: doors_rewritten_def bindS_Inr split: if_splits)
    then have w: "wrapped_in n env d" "enc = CurrentEncrypted" "\<sigma>2 = \<sigma>1"
      by (cases enc; simp add: classifyCurrent_def wrapped_in_def)+
    show thesis
      using that [OF w(1)] assms(2) rd cur c w by (simp add: doors_rewritten_def bindS_apply)
  qed
  then show ?thesis
    using s1 stored by (auto simp: bindS_Inr decodeOpened_def rewrapRing_def openRing_def getS_def split: prod.splits) blast
qed

text \<open>The outcome of a door change: nothing changed and it failed, or the doors changed and it says so or cannot tell.\<close>

definition doors_outcome :: "('w, 'r, 's) Notebook \<Rightarrow> enc_env \<Rightarrow> Door list \<Rightarrow> Keyring \<Rightarrow> nb_error + u64 \<Rightarrow> view \<Rightarrow> view \<Rightarrow> bool" where
  "doors_outcome n E doors k r v v' \<longleftrightarrow> (\<exists>e. r = Inl e) \<and> v' = v \<or>
     (\<exists>m. door_change n E doors k m v v' \<and>
       (r = Inr (mf_Generation m) \<or> r = Inl (storageFailure ReasonManifestWrite (Some (StoreErr ErrTransport)))))"

lemma doors_round_outcome:
  assumes store: "conditional_store (n_store n) look" "json_text (n_json n)" "primitives (ee_crypt E)" "list_all door_typed doors"
    and at: "at_view look v \<sigma>" and fits: "\<And>env d t. v CurrentKey = Some (d, t) \<Longrightarrow> wrapped_in n env d \<Longrightarrow> length env < 2 ^ 63"
    and again: "\<And>\<sigma>1 r \<sigma>'. again \<sigma>1 = (r, \<sigma>') \<Longrightarrow> at_view look v \<sigma>1 \<Longrightarrow> doors_outcome n E doors (en_ring \<sigma>') r v (look (nb_store (en_nb \<sigma>')))"
    and run: "doors_round n E (n_store n) doors again \<sigma> = (r, \<sigma>')"
  shows "doors_outcome n E doors (en_ring \<sigma>') r v (look (nb_store (en_nb \<sigma>')))"
proof -
  obtain q \<sigma>1 where pre: "doors_rewritten n E (n_store n) doors \<sigma> = (q, \<sigma>1)" by fastforce
  have at1: "at_view look v \<sigma>1" using keepsD [OF keeps_rewritten [OF store(1,3)] pre at] .
  then have v1: "look (nb_store (en_nb \<sigma>1)) = v" by (simp add: at_view_def)
  show ?thesis
  proof (cases q)
    case (Inl e)
    then show ?thesis using run pre v1 by (auto simp: doors_round_def bindS_apply doors_outcome_def)
  next
    case (Inr x)
    obtain t m data where x: "x = (t, m, data)" by (cases x) auto
    let ?d' = "jl_text (n_json n) data"
    obtain w s' where w: "ReplaceObject (n_store n) CurrentKey t ?d' (nb_store (en_nb \<sigma>1)) = (w, s')" by fastforce
    let ?\<sigma>2 = "\<sigma>1\<lparr>en_nb := (en_nb \<sigma>1)\<lparr>nb_store := s'\<rparr>\<rparr>"
    have run': "(case w of Inr _ \<Rightarrow> retS (mf_Generation m) | Inl err \<Rightarrow>
        if store_is ErrPreconditionFailed err then again else failS (storageFailure ReasonManifestWrite (Some (StoreErr err)))) ?\<sigma>2 = (r, \<sigma>')"
      using run pre Inr x w by (simp add: doors_round_def bindS_apply tryS_apply onNb_def onStore_def)
    obtain d env c plaintext h env' where P: "look (nb_store (en_nb \<sigma>)) CurrentKey = Some (d, t)" "wrapped_in n env d"
        "Keyring_Open (ee_crypt E) c CurrentKey env (en_ring \<sigma>) = (Inr (plaintext, h), en_ring \<sigma>1)" "decodeCurrent n plaintext = Inr m"
        "Rewrap (ee_crypt E) CurrentKey env doors (en_ring \<sigma>1) = Inr env'" "WrapCurrentEnvelope env' = Inr data"
      using doors_rewritten_ok [OF store(1) pre [unfolded Inr x]] by blast
    have P1: "v CurrentKey = Some (d, t)" and sized: "key_sized (en_ring \<sigma>)" using P(1) at by (simp_all add: at_view_def)
    note change = rewrapped_change [where v = v and n = n and E = E, OF store(3,2,4) sized P1 P(2) fits [OF P1 P(2)] P(3-6)]
    show ?thesis
    proof (cases w)
      case (Inr t')
      then have "look s' = v(CurrentKey \<mapsto> (?d', t'))" using conditional_store.replace_ok [OF store(1)] w v1 by metis
      then show ?thesis using run' Inr change [of t'] by (auto simp: doors_outcome_def)
    next
      case (Inl err)
      then have l: "look s' = v \<or> err = ErrTransport \<and> landed v CurrentKey ?d' (look s')"
        using conditional_store.replace_err [OF store(1)] w v1 by metis
      show ?thesis
      proof (cases "look s' = v")
        case True
        show ?thesis
        proof (cases "store_is ErrPreconditionFailed err")
          case lost: True
          have "at_view look v ?\<sigma>2" using at1 True by (simp add: at_view_def)
          then show ?thesis using again [of ?\<sigma>2 r \<sigma>'] run' Inl lost by simp
        next
          case False
          then show ?thesis using run' Inl True by (auto simp: doors_outcome_def)
        qed
      next
        case False
        then obtain t' where "err = ErrTransport" "look s' = v(CurrentKey \<mapsto> (?d', t'))" using l by (auto simp: landed_def)
        then show ?thesis using run' Inl change [of t'] by (auto simp: doors_outcome_def)
      qed
    qed
  qed
qed

lemma failed_outcome: "failS e \<sigma>1 = (r, \<sigma>') \<Longrightarrow> at_view look v \<sigma>1 \<Longrightarrow> doors_outcome n E doors k r v (look (nb_store (en_nb \<sigma>')))"
  by (auto simp: doors_outcome_def at_view_def)

lemma doors_loop_outcome:
  assumes store: "conditional_store (n_store n) look" "json_text (n_json n)" "primitives (ee_crypt E)" "list_all door_typed doors"
    and fits: "\<And>env d t. v CurrentKey = Some (d, t) \<Longrightarrow> wrapped_in n env d \<Longrightarrow> length env < 2 ^ 63"
  shows "at_view look v \<sigma> \<Longrightarrow> doors_loop n E (n_store n) doors k \<sigma> = (r, \<sigma>') \<Longrightarrow>
    doors_outcome n E doors (en_ring \<sigma>') r v (look (nb_store (en_nb \<sigma>')))"
proof (induction k arbitrary: \<sigma> r \<sigma>')
  case 0
  show ?case
  proof (rule doors_round_outcome [OF store "0.prems"(1) fits])
    show "doors_round n E (n_store n) doors (failS remoteBusy) \<sigma> = (r, \<sigma>')" using "0.prems"(2) by simp
  qed (use fits failed_outcome in blast)+
next
  case (Suc k)
  let ?again = "if n_waiter n (n_retryLimit n - k) then doors_loop n E (n_store n) doors k else failS CtxErr"
  show ?case
  proof (rule doors_round_outcome [OF store Suc.prems(1) fits])
    show "doors_round n E (n_store n) doors ?again \<sigma> = (r, \<sigma>')" using Suc.prems(2) by simp
    show "doors_outcome n E doors (en_ring \<sigma>2) q v (look (nb_store (en_nb \<sigma>2)))"
      if "?again \<sigma>1 = (q, \<sigma>2)" "at_view look v \<sigma>1" for \<sigma>1 q \<sigma>2
      using that Suc.IH failed_outcome [of CtxErr \<sigma>1 q \<sigma>2 look v n E doors] by (cases "n_waiter n (n_retryLimit n - k)") simp_all
  qed (use fits in blast)+
qed

lemma keeps_still:
  assumes "still look m" shows "keeps (at_view look v) (onNb m)"
  using assms by (auto simp: keeps_def at_view_def onNb_def still_def split: prod.splits)

lemma keeps_entry:
  assumes "store_reader n look"
  shows "keeps (at_view look v) (onNb (holdWorkspace n))" "keeps (at_view look v) (onNb (entryCheck n))"
proof -
  have "still look (entryCheck n)"
    unfolding entryCheck_def by (intro still_rules store_reader.still_recovery [OF assms])
  then show "keeps (at_view look v) (onNb (entryCheck n))" by (rule keeps_still)
  show "keeps (at_view look v) (onNb (holdWorkspace n))" by (intro keeps_still store_reader.still_local [OF assms])
qed

lemma EncryptDoors_outcome:
  assumes store: "conditional_store (n_store n) look" "json_text (n_json n)" "primitives (ee_crypt E)" "list_all door_typed doors"
    and fits: "\<And>env d t. v CurrentKey = Some (d, t) \<Longrightarrow> wrapped_in n env d \<Longrightarrow> length env < 2 ^ 63"
    and at: "at_view look v \<sigma>" and run: "EncryptDoors n E (n_store n) doors \<sigma> = (r, \<sigma>')"
  shows "doors_outcome n E doors (en_ring \<sigma>') r v (look (nb_store (en_nb \<sigma>')))"
proof -
  have reader: "store_reader n look" using conditional_store.read_view [OF store(1)] by unfold_locales
  obtain q \<sigma>1 where a: "onNb (holdWorkspace n) \<sigma> = (q, \<sigma>1)" by fastforce
  obtain q2 \<sigma>2 where b: "onNb (entryCheck n) \<sigma>1 = (q2, \<sigma>2)" by fastforce
  have at1: "at_view look v \<sigma>1" by (rule keepsD [OF keeps_entry(1) [OF reader] a at])
  have at2: "at_view look v \<sigma>2" by (rule keepsD [OF keeps_entry(2) [OF reader] b at1])
  show ?thesis
  proof (cases q)
    case (Inl e)
    then show ?thesis using run a failed_outcome [of e \<sigma>1 r \<sigma>' look v n E doors] at1 by (simp add: EncryptDoors_def bindS_apply)
  next
    case qo: (Inr u)
    show ?thesis
    proof (cases q2)
      case (Inl e)
      then show ?thesis using run a b qo failed_outcome [of e \<sigma>2 r \<sigma>' look v n E doors] at2 by (simp add: EncryptDoors_def bindS_apply)
    next
      case (Inr u2)
      then have "doors_loop n E (n_store n) doors (n_retryLimit n) \<sigma>2 = (r, \<sigma>')" using run a b qo by (simp add: EncryptDoors_def bindS_apply)
      then show ?thesis using doors_loop_outcome [OF store _ at2] fits by blast
    qed
  qed
qed

section \<open>What a root publication writes\<close>

text \<open>
  A body sealed under the key of \<open>c\<close> for its object key: the wrapped envelope of a manifest at \<open>current\<close>, the envelope of a
  pack elsewhere. \<open>sealed_step\<close> relates two views when all that was written between them is sealed that way.
\<close>

definition sealed_body :: "('w, 'r, 's) Notebook \<Rightarrow> enc_env \<Rightarrow> 's Cipher \<Rightarrow> bytes \<Rightarrow> bytes \<Rightarrow> bool" where
  "sealed_body n E c key body \<longleftrightarrow>
     (if key = CurrentKey then
        \<exists>random m stream env wrapped. EncodeManifest (n_lib n) m = Inr stream \<and>
          Keyring_Seal (ee_crypt E) random CurrentKey KindCurrent (jl_text (n_json n) stream) (ci_Doors c) (ci_Seal c) = Inr env \<and>
          WrapCurrentEnvelope env = Inr wrapped \<and> body = jl_text (n_json n) wrapped
      else \<exists>random plaintext. Keyring_Seal (ee_crypt E) random key KindPack plaintext [] (ci_Seal c) = Inr body)"

definition sealed_step :: "('w, 'r, 's) Notebook \<Rightarrow> enc_env \<Rightarrow> 's Cipher \<Rightarrow> view \<Rightarrow> view \<Rightarrow> bool" where
  "sealed_step n E c v v' \<longleftrightarrow> (\<forall>k. v' k = v k \<or> v' k = None \<and> k \<noteq> CurrentKey \<or> (\<exists>d t. v' k = Some (d, t) \<and> sealed_body n E c k d))"

definition sealed_since :: "('w, 'r, 's) Notebook \<Rightarrow> enc_env \<Rightarrow> 's Cipher \<Rightarrow> ('s \<Rightarrow> view) \<Rightarrow> view \<Rightarrow> ('w, 's) encst \<Rightarrow> bool" where
  "sealed_since n E c look v \<sigma> \<longleftrightarrow> sealed_step n E c v (look (nb_store (en_nb \<sigma>)))"

lemma sealed_step_same: "sealed_step n E c v v"
  by (simp add: sealed_step_def)

lemma sealed_step_write:
  "sealed_step n E c v v1 \<Longrightarrow> landed v1 key d v' \<Longrightarrow> sealed_body n E c key d \<Longrightarrow> sealed_step n E c v v'"
  unfolding sealed_step_def
proof (intro allI)
  fix k assume s: "\<forall>k. v1 k = v k \<or> v1 k = None \<and> k \<noteq> CurrentKey \<or> (\<exists>d t. v1 k = Some (d, t) \<and> sealed_body n E c k d)"
    and l: "landed v1 key d v'" "sealed_body n E c key d"
  show "v' k = v k \<or> v' k = None \<and> k \<noteq> CurrentKey \<or> (\<exists>d t. v' k = Some (d, t) \<and> sealed_body n E c k d)"
    using l spec [OF s, of k] by (cases "k = key") (auto simp: landed_def)
qed

lemma sealed_step_delete:
  assumes "sealed_step n E c v v1" "v' = v1 |` (- gone)" "CurrentKey \<notin> gone" shows "sealed_step n E c v v'"
  unfolding sealed_step_def
proof
  fix k show "v' k = v k \<or> v' k = None \<and> k \<noteq> CurrentKey \<or> (\<exists>d t. v' k = Some (d, t) \<and> sealed_body n E c k d)"
    using assms spec [OF assms(1) [unfolded sealed_step_def], of k] by (cases "k \<in> gone") (auto simp: restrict_map_def)
qed

lemma since_still:
  assumes "still look m" shows "keeps (sealed_since n E c look v) (onNb m)"
  using assms by (auto simp: keeps_def sealed_since_def onNb_def still_def split: prod.splits)

lemma since_pure [keeps_rules]:
  "keeps (sealed_since n E c look v) (openRing E' env)" "keeps (sealed_since n E c look v) (sealRing E' k key kind body doors)"
  by (auto simp: keeps_def sealed_since_def openRing_def sealRing_def split: prod.splits)

lemma keeps_bindS_with:
  assumes "keeps I m" "\<And>\<sigma> x \<sigma>'. m \<sigma> = (Inr x, \<sigma>') \<Longrightarrow> keeps I (f x)" shows "keeps I (bindS m f)"
  unfolding keeps_def
proof (intro allI impI)
  fix \<sigma> r \<sigma>' assume run: "bindS m f \<sigma> = (r, \<sigma>')" and I: "I \<sigma>"
  obtain q \<sigma>1 where m: "m \<sigma> = (q, \<sigma>1)" by fastforce
  have I1: "I \<sigma>1" by (rule keepsD [OF assms(1) m I])
  show "I \<sigma>'"
  proof (cases q)
    case (Inl e)
    then show ?thesis using run m I1 by (auto simp: bindS_apply)
  next
    case (Inr x)
    then have "f x \<sigma>1 = (r, \<sigma>')" using run m by (simp add: bindS_apply)
    then show ?thesis by (rule keepsD [OF assms(2) [OF m [unfolded Inr]] _ I1])
  qed
qed

context conditional_store
begin

lemma UploadUnique_lands:
  assumes "UploadUnique sha lib S key (Some body) meta s = (r, s')"
  shows "look s' = look s \<or> landed (look s) (Key_String lib key) body (look s')"
proof -
  let ?k = "Key_String lib key"
  obtain q s1 where put: "PutObject S ?k (Some body) meta s = (q, s1)" by fastforce
  have "look s1 = look s \<or> landed (look s) ?k body (look s1)"
    using put_ok [of ?k "Some body" meta s s1] put_err [of ?k "Some body" meta s _ s1] put by (cases q) auto
  moreover have "look s' = look s1 \<or> look s' = look s"
    using assms put VerifyObject_view [OF surjective_pairing]
    by (auto simp: UploadUnique_def tryS_apply bindS_apply prod_eq_iff split: if_splits sum.splits)
  ultimately show ?thesis by auto
qed

end

context store_client
begin

lemma still_readRaw: "still look (readRawCurrent (n_store n))"
  unfolding still_def using readRawCurrent_view [OF conditional_store_axioms] by blast

lemma current_no_candidate: "\<not> is_candidate (n_lib n) cutoff CurrentKey"
  using Key_String_not_current [symmetric] by (auto simp: is_candidate_def ParseKey_iff split: sum.splits)

lemma cleanup_batches_delete:
  assumes "still look roots"
  shows "\<forall>x \<in> set cands. is_candidate (n_lib n) cutoff x \<Longrightarrow> cleanup_batches n roots cands \<sigma> = (r, \<sigma>') \<Longrightarrow>
    \<exists>gone. look (nb_store \<sigma>') = look (nb_store \<sigma>) |` (- gone) \<and> CurrentKey \<notin> gone"
proof (induction cands arbitrary: \<sigma> r rule: length_induct)
  case (1 cands)
  show ?case
  proof (cases "cands = []")
    case True
    then show ?thesis using "1.prems"(2) by (intro exI [of _ "{}"]) (simp add: cleanup_batches.simps restrict_map_def)
  next
    case False
    let ?rest = "drop cleanupBatchSize cands"
    have shorter: "length ?rest < length cands" using False by (simp add: cleanupBatchSize_def)
    have rest: "\<forall>x \<in> set ?rest. is_candidate (n_lib n) cutoff x" using "1.prems"(1) by (meson in_set_dropD)
    note IH = "1.IH" [rule_format, OF shorter _]
    obtain q \<sigma>1 where roots: "roots \<sigma> = (q, \<sigma>1)" by fastforce
    have s1: "look (nb_store \<sigma>1) = look (nb_store \<sigma>)" by (rule stillD [OF assms roots])
    show ?thesis
    proof (cases q)
      case (Inl e)
      then show ?thesis using "1.prems"(2) roots s1 False
        by (intro exI [of _ "{}"]) (auto simp: cleanup_batches.simps [of n _ cands] tryS_def failCleanup_def onMetrics_def modS_def restrict_map_def)
    next
      case (Inr active)
      let ?doomed = "filter (\<lambda>key. key \<notin> set active) (take cleanupBatchSize cands)"
      have spared: "CurrentKey \<notin> set ?doomed" using "1.prems"(1) current_no_candidate by (auto dest: in_set_takeD)
      show ?thesis
      proof (cases "?doomed = []")
        case True
        then have "cleanup_batches n roots ?rest \<sigma>1 = (r, \<sigma>')"
          using "1.prems"(2) roots Inr False by (simp add: cleanup_batches.simps [of n _ cands] tryS_def Let_def)
        from IH [OF bspec [OF rest] this] show ?thesis unfolding s1 .
      next
        case dne: False
        obtain dr s2 where del: "DeleteObjects (n_store n) ?doomed (nb_store \<sigma>1) = (dr, s2)" by fastforce
        obtain gone where g: "look s2 = look (nb_store \<sigma>) |` (- gone)" "gone \<subseteq> set ?doomed"
          using delete_ok [of ?doomed "nb_store \<sigma>1" s2] delete_err [of ?doomed "nb_store \<sigma>1" _ s2] del s1 by (cases dr) auto
        obtain \<sigma>2 where "cleanup_batches n roots ?rest \<sigma>2 = (r, \<sigma>')" "nb_store \<sigma>2 = s2"
          using "1.prems"(2) roots Inr False dne del
          by (cases dr) (auto simp: cleanup_batches.simps [of n _ cands] tryS_def Let_def onStore_def bindS_apply failCleanup_def
              onMetrics_def modS_def)
        then obtain gone' where "look (nb_store \<sigma>') = look s2 |` (- gone')" "CurrentKey \<notin> gone'" using IH [OF bspec [OF rest]] by metis
        then show ?thesis using g spared by (intro exI [of _ "gone \<union> gone'"]) (auto simp: Int_Un_distrib Compl_Un Int_commute)
      qed
    qed
  qed
qed

lemma cleanupPacks_delete:
  assumes "still look roots" "cleanupPacks n cutoff roots \<sigma> = (r, \<sigma>')"
  shows "\<exists>gone. look (nb_store \<sigma>') = look (nb_store \<sigma>) |` (- gone) \<and> CurrentKey \<notin> gone"
proof -
  let ?\<sigma>0 = "\<sigma>\<lparr>nb_metrics := (nb_metrics \<sigma>)\<lparr>m_CleanupRuns := m_CleanupRuns (nb_metrics \<sigma>) + 1\<rparr>\<rparr>"
  obtain l \<sigma>1 where li: "list_candidates n cutoff [''packs/checkpoints/'', ''packs/increments/''] ?\<sigma>0 = (l, \<sigma>1)" by fastforce
  have v: "look (nb_store \<sigma>1) = look (nb_store \<sigma>)" and c: "\<And>cands. l = Inr cands \<Longrightarrow> \<forall>x \<in> set cands. is_candidate (n_lib n) cutoff x"
    using list_candidates_ok [OF li] by auto
  show ?thesis
  proof (cases l)
    case (Inl e)
    then have "look (nb_store \<sigma>') = look (nb_store \<sigma>)" using assms(2) li v
      by (auto simp: cleanupPacks_def bindS_apply tryS_def onMetrics_def modS_def failCleanup_def simp del: list_candidates.simps)
    then show ?thesis by (intro exI [of _ "{}"]) (simp add: restrict_map_def)
  next
    case (Inr cands)
    then obtain \<sigma>2 where "cleanup_batches n roots cands \<sigma>2 = (r, \<sigma>')" "nb_store \<sigma>2 = nb_store \<sigma>1"
      using assms(2) li by (auto simp: cleanupPacks_def bindS_apply tryS_def onMetrics_def modS_def simp del: list_candidates.simps)
    then show ?thesis using cleanup_batches_delete [OF assms(1) c [OF Inr]] v by metis
  qed
qed

end

context store_client
begin

abbreviation since :: "enc_env \<Rightarrow> 's Cipher \<Rightarrow> view \<Rightarrow> ('w, 's) encst \<Rightarrow> bool" where
  "since E c v \<equiv> sealed_since n E c look v"

lemma since_cleanup:
  assumes "ci_Store c = n_store n" shows "keeps (since E c v) (cleanupCurrent n E c cutoff)"
proof -
  have roots: "still look (encryptedRoots n E c)"
    unfolding encryptedRoots_def assms by (intro still_rules still_readRaw)
  show ?thesis
    unfolding keeps_def cleanupCurrent_def
  proof (intro allI impI)
    fix \<sigma> r \<sigma>' assume run: "onNb (cleanupPacks n cutoff (encryptedRoots n E c)) \<sigma> = (r, \<sigma>')" and s: "since E c v \<sigma>"
    obtain x where "cleanupPacks n cutoff (encryptedRoots n E c) (en_nb \<sigma>) = (r, x)" "\<sigma>' = \<sigma>\<lparr>en_nb := x\<rparr>"
      using run by (auto simp: onNb_def split: prod.splits)
    moreover from this obtain gone where "look (nb_store x) = look (nb_store (en_nb \<sigma>)) |` (- gone)" "CurrentKey \<notin> gone"
      using cleanupPacks_delete [OF roots] by blast
    ultimately show "since E c v \<sigma>'"
      using sealed_step_delete [OF s [unfolded sealed_since_def]] by (simp add: sealed_since_def)
  qed
qed

lemma since_upload:
  assumes "ci_Store c = n_store n" shows "keeps (since E c v) (uploadEncrypted n E c p)"
  unfolding uploadEncrypted_def assms
proof (intro keeps_bindS_with keeps_mapErrS since_pure)
  let ?key = "Key_String (n_lib n) (rt_key p)"
  fix \<sigma> :: "('w, 's) encst" and envelope and \<sigma>1 :: "('w, 's) encst"
  assume "mapErrS (\<lambda>_. storageFailure ReasonPackUpload (Some EnvelopeErr)) (sealRing E (ci_Seal c) ?key KindPack (pk_Data (rt_pack p)) []) \<sigma> = (Inr envelope, \<sigma>1)"
  then have body: "sealed_body n E c ?key envelope" using Key_String_not_current by (auto simp: mapErrS_apply sealRing_def sealed_body_def)
  show "keeps (since E c v) (onNb (mapErrS mapUploadError (onStore (UploadUnique (n_sha n) (n_lib n) (n_store n) (rt_key p) (Some envelope)
      (sealed_meta (n_sha n) (rt_key p) envelope)))))"
    unfolding keeps_def sealed_since_def
    using UploadUnique_lands [of "n_sha n" "n_lib n" "rt_key p" envelope] sealed_step_write [OF _ _ body]
    by (fastforce simp: onNb_def mapErrS_apply onStore_def split: prod.splits)
qed

lemma since_write:
  assumes "sealed_body n E c CurrentKey d"
  shows "keeps (since E c v) (onNb (onStore (if present then ReplaceObject (n_store n) CurrentKey t d else CreateObject (n_store n) CurrentKey d)))"
proof -
  have w: "look s' = look s \<or> landed (look s) CurrentKey d (look s')"
    if "(if present then ReplaceObject (n_store n) CurrentKey t d else CreateObject (n_store n) CurrentKey d) s = (r, s')" for s r s'
    using write_current [of "\<not> present" d t s r s'] that by (auto split: if_splits)
  show ?thesis unfolding keeps_def sealed_since_def
    using w sealed_step_write [OF _ _ assms] by (fastforce simp: onNb_def onStore_def split: prod.splits)
qed

lemma since_publish:
  assumes "ci_Store c = n_store n" shows "keeps (since E c v) (publishEncrypted n E c remote p)"
proof -
  let ?key = "sealRing E (ci_Seal c) CurrentKey KindCurrent"
  have rest: "keeps (since E c v)
     (tryS (onNb (onStore (if rs_present remote then ReplaceObject (n_store n) CurrentKey (rs_etag remote) body else CreateObject (n_store n) CurrentKey body)))
       (\<lambda>r. case r of Inr _ \<Rightarrow> retS () | Inl err \<Rightarrow>
         if store_is ErrPreconditionFailed err then failS ErrCASLost
         else if store_is ErrTransport err then
           bindS (onNb (lookupPublication n (Some (ring_of E (ci_Seal c))) (rt_publicationID p))) (\<lambda>found.
           if found then retS () else failS (storageFailure ReasonPublicationUnproven (Some (StoreErr err))))
         else failS (storageFailure ReasonManifestWrite (Some (Wrapped [ErrManifestRefused, StoreErr err])))))"
    if "sealed_body n E c CurrentKey body" for body
    by (intro keeps_rules since_write that since_still store_reader.still_lookup [OF reader])
  show ?thesis
    unfolding publishEncrypted_def assms Let_def
  proof (intro keeps_bindS_with keeps_mapErrS since_pure keeps_basic rest)
    fix \<sigma> \<sigma>1 \<sigma>2 \<sigma>3 \<sigma>4 \<sigma>5 :: "('w, 's) encst" and stream env wrapped
    assume "liftS (mapErr (\<lambda>e. storageIntegrity ReasonEngineFailed (Some (DecodeErr e))) (EncodeManifest (n_lib n) (rt_manifest p))) \<sigma> = (Inr stream, \<sigma>1)"
      "mapErrS (\<lambda>_. storageFailure ReasonManifestWrite (Some EnvelopeErr)) (?key (jl_text (n_json n) stream) (ci_Doors c)) \<sigma>2 = (Inr env, \<sigma>3)"
      "liftS (mapErr (\<lambda>e. storageIntegrity ReasonManifestInvalid (Some (DecodeErr e))) (WrapCurrentEnvelope env)) \<sigma>4 = (Inr wrapped, \<sigma>5)"
    then have "EncodeManifest (n_lib n) (rt_manifest p) = Inr stream" "WrapCurrentEnvelope env = Inr wrapped"
      "Keyring_Seal (ee_crypt E) (ee_random E (en_calls \<sigma>2)) CurrentKey KindCurrent (jl_text (n_json n) stream) (ci_Doors c) (ci_Seal c) = Inr env"
      by (simp_all add: mapErrS_apply sealRing_def)
    then show "sealed_body n E c CurrentKey (jl_text (n_json n) wrapped)" unfolding sealed_body_def by (simp only: simp_thms if_True) blast
  qed
qed

end

context store_client
begin

lemma since_nb: "still look m \<Longrightarrow> keeps (since E c v) (onNb m)"
  by (rule since_still)

lemma still_refuse: "still look (refuseEncryptedCurrent n (n_store n))"
  unfolding refuseEncryptedCurrent_def by (intro still_rules still_readRaw)

lemma still_buildRoot: "still look (buildRootProposal n remote tree message)"
  unfolding buildRootProposal_def by (intro still_rules store_reader.still_local [OF reader])

lemma since_accept:
  assumes "ci_Store c = n_store n" shows "keeps (since E c v) (acceptRoot n E c p stat)"
proof -
  have "keeps (since E c v) (failRoot n E c p err)" for err
    unfolding failRoot_def
    by (intro keeps_rules since_cleanup [OF assms] since_nb store_reader.still_recovery [OF reader])
  moreover have "keeps (since E c v) (onNb (onWs a))" "keeps (since E c v) (onNb (getS f))" for a f
    by (intro since_nb still_basic)+
  ultimately show ?thesis unfolding acceptRoot_def by (intro keeps_rules since_cleanup [OF assms])
qed

lemma since_remote:
  assumes "ci_Store c = n_store n" shows "keeps (since E c v) (rootRemote n E c rekey)"
proof -
  have base: "keeps (since E c v) (onNb (getS f))" "keeps (since E c v) (onNb (mapErrS g (askRepo n q)))" for f g q
    by (intro since_nb still_rules)+
  have "keeps (since E c v) (encryptedRemote n E c)"
    unfolding encryptedRemote_def assms by (intro keeps_rules since_nb [OF still_readRaw] base)
  moreover have "still look (bindS (refuseEncryptedCurrent n (n_store n)) (\<lambda>_. bindS (readRemote n) (\<lambda>remote.
      bindS (getS (\<lambda>\<sigma>. ws_Pulled (n_ws n) (nb_ws \<sigma>))) (\<lambda>pulled.
      if rs_present remote \<and> \<not> pulled then failS (invalidRequest ReasonPullRequired None []) else retS remote))))"
    by (intro still_rules still_refuse store_reader.still_readRemote [OF reader])
  ultimately show ?thesis unfolding rootRemote_def assms by (intro keeps_rules since_nb)
qed

lemma since_attempt:
  assumes "ci_Store c = n_store n" shows "keeps (since E c v) (attemptRoot n E c message rekey baseTree localTree)"
  unfolding attemptRoot_def
  by (intro keeps_rules since_remote since_upload since_publish since_accept since_nb still_buildRoot assms
    store_reader.still_local [OF reader] store_reader.still_summary [OF reader] store_reader.still_conflict [OF reader] still_basic)

lemma since_loop:
  assumes "ci_Store c = n_store n" shows "keeps (since E c v) (root_loop n E c message rekey baseTree localTree k)"
  by (induction k) (simp_all only: root_loop.simps, (intro keeps_rules since_attempt assms | assumption)+)

lemma since_publishRoot:
  assumes "ci_Store c = n_store n" shows "keeps (since E c v) (publishRoot n E c message rekey)"
proof -
  have "still look (entryCheck n)"
    unfolding entryCheck_def by (intro still_rules store_reader.still_recovery [OF reader])
  then show ?thesis
    unfolding publishRoot_def
    by (intro keeps_rules since_loop assms since_nb still_basic store_reader.still_local [OF reader] store_reader.still_checks [OF reader])
qed

lemma publishRoot_sealed:
  assumes "ci_Store c = n_store n" "publishRoot n E c message rekey \<sigma> = (r, \<sigma>')"
  shows "sealed_step n E c (look (nb_store (en_nb \<sigma>))) (look (nb_store (en_nb \<sigma>')))"
  using keepsD [OF since_publishRoot [OF assms(1)] assms(2), of "look (nb_store (en_nb \<sigma>))"]
  by (simp add: sealed_since_def sealed_step_same)

end

section \<open>Recovery under the raw store\<close>

text \<open>A plain reader takes the wrapper for a manifest of a newer version.\<close>

lemma wrapped_upgrade:
  assumes "wrapped_in n env d" shows "decodeCurrent n d = Inl (UpgradeRequired ManifestWrapperVersion)"
proof -
  obtain root z where root: "Parse (jl_tokens (n_json n) d) = Inr root" "Kind root = KObject" "Value_Field root ''version'' = Some (JNumber z)"
      "\<not> z < ManifestWrapperVersion" "\<not> z > ManifestWrapperVersion"
    using assms by (auto simp: wrapped_in_def ClassifyCurrent_def split: sum.splits option.splits if_splits jvalue.splits)
  then have "z = ManifestWrapperVersion" by simp
  then show ?thesis
    using root(1-3) by (simp add: decodeCurrent_def DecodeManifest_def requiredUint_def requiredValue_def ManifestWrapperVersion_def ManifestVersion_def)
qed

abbreviation wrapped_reading :: nb_error where
  "wrapped_reading \<equiv> manifestError (DecodeErr (UpgradeRequired ManifestWrapperVersion))"

lemma recoverState_wrapped:
  assumes "readCurrent n \<sigma> = (Inr (Some (d, t)), \<sigma>1)" "wrapped_in n env d"
  shows "recoverState n stage accepted \<sigma> =
    (Inr (\<lparr>rr_Stage = stage, rr_RemoteAccepted = accepted, rr_Resynchronized = False\<rparr>, Some wrapped_reading), \<sigma>1)"
proof -
  have "read_round n loadStrict final again \<sigma> = (Inl wrapped_reading, \<sigma>1)" for final again
    using assms(1) wrapped_upgrade [OF assms(2)] by (simp add: read_round_def bindS_apply)
  then have "readRemoteStrict n \<sigma> = (Inl wrapped_reading, \<sigma>1)"
    by (cases "n_retryLimit n") (simp_all add: readRemoteStrict_def readRemoteMode_def)
  then show ?thesis by (simp add: recoverState_def tryS_apply Let_def)
qed

lemma entryRecovery_wrapped:
  assumes "readCurrent n \<sigma> = (Inr (Some (d, t)), \<sigma>1)" "wrapped_in n env d"
  shows "\<exists>report. entryRecovery n \<sigma> = (Inl (recoveryFailure report None (Some wrapped_reading)), \<sigma>1)"
  by (simp add: entryRecovery_def bindS_apply recoverState_wrapped [OF assms]) blast

lemma wrapped_refusal: "storeRefusal (Some wrapped_reading) = Some ReasonUpgradeRequired"
  by (simp add: manifestError_def) (simp add: storeRefusal_def errors_Is_def)

section \<open>An encrypted notebook\<close>

text \<open>
  The notebook of the witnesses holds an encrypted \<open>current\<close> in the in-memory store. Its JSON library writes one manifest as a
  single letter, so that the sealed text stays under the limit of a wrapped envelope.
\<close>

definition short_stream :: jstream where
  "short_stream = Encode (encodeManifestValue canonical_uuid (pr_manifest small_proposal))"

definition short_json :: json_lib where
  "short_json =
     \<lparr>jl_tokens = (\<lambda>text. if text = ''m'' then short_stream else jl_tokens numbering_json (tl text)),
      jl_text = (\<lambda>s. if coerced s = short_stream then ''m'' else CHR ''1'' # jl_text numbering_json s)\<rparr>"

lemma short_json: "json_text short_json"
  by unfold_locales (simp add: short_json_def numbering.read_coerced)

definition short_notebook :: "(gobject list, gobject list, Store) Notebook" where
  "short_notebook = small_notebook\<lparr>n_json := short_json\<rparr>"

lemma short_laws:
  "conditional_store (n_store short_notebook) fake_look" "json_text (n_json short_notebook)" "uuid_text (n_lib short_notebook)"
  using small_contract short_json by (simp_all add: short_notebook_def)

lemma short_decodes: "decodeCurrent short_notebook ''m'' = Inr (pr_manifest small_proposal)"
  using small_decodes(2) by (simp add: decodeCurrent_def short_notebook_def short_json_def short_stream_def small_notebook_def)

text \<open>A door an envelope can carry.\<close>

definition good_door :: "Door \<Rightarrow> bool" where
  "good_door d \<longleftrightarrow> door_typed d \<and> (dr_Type d = DoorPassphrase \<or> dr_Type d = DoorRecovery) \<and> dr_KDFID d = kdfIDArgon2id"

lemma good_door: "good_door d \<Longrightarrow> encodeDoorRecord d = Inr (byte_of (dr_Type d) @ byte_of (dr_KDFID d) @ PutUint16 97 @ encodeDoorBody d)"
    "good_door d \<Longrightarrow> length (encodeDoorBody d) = 97" "good_door d \<Longrightarrow> door_typed d" "good_door sample_door"
  using sample_typed(4) by (auto simp: good_door_def encodeDoorRecord_def length_encodeDoorBody doorBodySize_def Let_def) (simp_all add: sample_door_def)

lemmas sealing_eval = kind_supported_def encodeObjectKey_def unlockedKey_def Let_def encodeDoorSection_def
  encodeExtensionSection_def encodeHeader_def commitmentSize_def MaxHeaderLength_def checkCurrentSize_def WrappedCurrentSize_def
  currentWrapperOverhead_def EncodedLen_def CurrentEnvelopeLimit_def assembleEnvelope_def

lemma current_seals:
  assumes "good_door d"
  shows "\<exists>env. Keyring_Seal checksum_crypt (Some sample_prefix) CurrentKey KindCurrent ''m'' [d] sample_keyring = Inr env"
proof -
  have "length (sealPayload checksum_crypt aead KindCurrent ekey core sample_prefix DefaultChunkSize ''m'') = 33" for aead ekey core
    using checksum.length_sealPayload [of "''m''"] by (simp add: records_of_def)
  moreover have "length (headerCommitment checksum_crypt mac kind ekey body) = 32" for mac kind ekey body
    by (simp add: headerCommitment_def checksum.mac_length)
  ultimately show ?thesis using good_door(1,2) [OF assms] sample_typed(3)
    by (simp add: Keyring_Seal_def seal_extended_def sealing_eval KindCurrent_def CurrentKey_def sample_typed deriveKey_def checksum_crypt_def
      Header_core_def magic_def)
qed

text \<open>A keyring that finds the key behind the door, and holds it then.\<close>

lemma current_opens:
  assumes "good_door d" and key: "resolve checksum_crypt c CurrentKey [d] k = (Inr (kr_key sample_keyring), k')"
    and seal: "Keyring_Seal checksum_crypt (Some sample_prefix) CurrentKey KindCurrent ''m'' [d] sample_keyring = Inr env"
  shows "\<exists>h. Keyring_Open checksum_crypt c CurrentKey env k = (Inr (''m'', h), k') \<and> hd_Doors h = [d] \<and> length env < 2 ^ 63"
proof -
  have typed: "list_all door_typed [d]" using good_door(3) [OF assms(1)] by simp
  show ?thesis using checksum.open_sealed [OF sample_typed(1,3) typed _ seal key] checksum.sealed_length [OF sample_typed(3) _ seal [unfolded Keyring_Seal_def]]
    by auto
qed

lemma held_resolves: "kr_unlocked k \<Longrightarrow> kr_key k = kr_key sample_keyring \<Longrightarrow> resolve checksum_crypt c CurrentKey doors k = (Inr (kr_key sample_keyring), k)"
  by (simp add: resolve_unlocked)

lemma current_rewraps:
  assumes "good_door d" "good_door e" "kr_unlocked k" "kr_key k = kr_key sample_keyring"
    and seal: "Keyring_Seal checksum_crypt (Some sample_prefix) CurrentKey KindCurrent ''m'' [d] sample_keyring = Inr env"
  shows "\<exists>env' data. Rewrap checksum_crypt CurrentKey env [d, e] k = Inr env' \<and> WrapCurrentEnvelope env' = Inr data"
proof (rule checksum.sealed_decodes [OF sample_typed(3) _ _ _ seal [unfolded Keyring_Seal_def]])
  fix ekey mac aead h body
  assume a: "encodeObjectKey CurrentKey = Inr ekey" "deriveKey checksum_crypt (kr_key sample_keyring) headerPurpose ekey = Inr mac"
    "hd_Kind h = KindCurrent" "hd_Extensions h = []" "hd_Commitment h = headerCommitment checksum_crypt mac KindCurrent ekey body"
    and dec: "decodeEnvelope env = Inr \<lparr>ps_header = h, ps_body = body, ps_knownDoors = [d], ps_unknownDoors = [],
       ps_payload = sealPayload checksum_crypt aead KindCurrent ekey (Header_core h) sample_prefix DefaultChunkSize ''m''\<rparr>"
  have "length (sealPayload checksum_crypt aead KindCurrent ekey core sample_prefix DefaultChunkSize ''m'') = 33" for core
    using checksum.length_sealPayload [of "''m''"] by (simp add: records_of_def)
  moreover have "length (headerCommitment checksum_crypt mac KindCurrent ekey b) = 32" for b
    by (simp add: headerCommitment_def checksum.mac_length)
  moreover have "length (Header_core h) = 28" using decodeEnvelope_sound(1) [OF dec] by (simp add: Header_core_def header_typed_def)
  ultimately show ?thesis
    using a dec core_slice [OF dec] good_door(1,2) [OF assms(1)] good_door(1,2) [OF assms(2)] assms(3,4)
    by (simp add: Rewrap_def WrapCurrentEnvelope_def sealing_eval magic_def)
qed (use good_door(3) [OF assms(1)] in simp_all)

text \<open>A store without faults that holds one object, at \<open>current\<close>.\<close>

definition holds_current :: "bytes \<Rightarrow> Store \<Rightarrow> bool" where
  "holds_current d s \<longleftrightarrow> st_faults s = NewInjector \<and> st_prefix s = [] \<and>
     st_objects s = [(JoinKey [] CurrentKey, \<lparr>so_data = d, so_etag = ''1'', so_meta = zeroMetadata\<rparr>)]"

definition short_store :: "bytes \<Rightarrow> Store" where
  "short_store d = (fake_New [])\<lparr>st_objects := [(JoinKey [] CurrentKey, \<lparr>so_data = d, so_etag = ''1'', so_meta = zeroMetadata\<rparr>)]\<rparr>"

definition short_ring :: "Store \<Rightarrow> Keyring \<Rightarrow> nat \<Rightarrow> (gobject list, Store) encst" where
  "short_ring s k c = \<lparr>en_nb = small_state\<lparr>nb_store := s\<rparr>, en_ring = k, en_calls = c\<rparr>"

definition short_state :: "bytes \<Rightarrow> (gobject list, Store) encst" where
  "short_state d = short_ring (short_store d) sample_keyring 0"

lemma current_calls:
  assumes "holds_current d s"
  shows "\<exists>s' info. fake_ReadObject CurrentKey s = (Inr (Some d, info), s') \<and> oi_ETag info = ''1'' \<and> holds_current d s' \<and>
     (\<exists>t s''. fake_ReplaceObject (\<lambda>_. []) CurrentKey ''1'' d' s' = (Inr t, s''))"
  using assms by (simp add: holds_current_def fake_ReadObject_def fake_ReplaceObject_def fake_enter_def ConsumeFail_def NewInjector_def prefix_fault_def
      sortedOpKeys_def fake_landed_def ConsumeAmbiguous_def put_object_def fake_full_def Let_def)

lemma short_holds: "holds_current d (short_store d)"
  by (simp add: holds_current_def short_store_def fake_New_def)

lemmas short_store_calls = current_calls [OF short_holds]

lemma current_look: "holds_current d s \<Longrightarrow> fake_look s CurrentKey = Some (d, ''1'')"
proof -
  assume "holds_current d s"
  then obtain s' info where "ReadObject (fake_store (\<lambda>_. [])) CurrentKey s = (Inr (Some d, info), s')" "oi_ETag info = ''1''"
    using current_calls [of d s d] by (auto simp: fake_store_def)
  then show ?thesis using fake.read_ok by metis
qed

lemmas short_look = current_look [OF short_holds]

lemma current_reads:
  assumes "holds_current d s"
  shows "\<exists>s'. holds_current d s' \<and> onNb (readRawCurrent (n_store short_notebook)) (short_ring s k c) = (Inr (Some (d, ''1'')), short_ring s' k c)"
proof -
  obtain s' info where "fake_ReadObject CurrentKey s = (Inr (Some d, info), s')" "oi_ETag info = ''1''" "holds_current d s'"
    using current_calls [OF assms, of d] by blast
  then show ?thesis
    by (auto simp: onNb_def readRawCurrent_def tryS_apply onStore_def short_notebook_def small_notebook_def fake_store_def short_ring_def)
qed

text \<open>A change of the doors that succeeds.\<close>

lemma short_run:
  assumes "WrapCurrentEnvelope env = Inr data" "\<And>c. Keyring_Open checksum_crypt c CurrentKey env k = (Inr (''m'', h), k)"
    and "Rewrap checksum_crypt CurrentKey env doors k = Inr env'" "WrapCurrentEnvelope env' = Inr data'"
    and crypt: "ee_crypt E = checksum_crypt" and held: "holds_current (jl_text short_json data) s"
  shows "\<exists>s'. EncryptDoors short_notebook E (n_store short_notebook) doors (short_ring s k c) =
    (Inr (mf_Generation (pr_manifest small_proposal)), short_ring s' k (Suc c))"
proof -
  let ?d = "jl_text short_json data" and ?n = short_notebook
  have w: "ClassifyCurrent (jl_tokens (n_json ?n) ?d) = Inr (CurrentEncrypted, env)"
    using wrapped_text [OF short_laws(2) assms(1)] by (simp add: wrapped_in_def short_notebook_def)
  obtain s1 where r: "holds_current ?d s1" "onNb (readRawCurrent (n_store ?n)) (short_ring s k c) = (Inr (Some (?d, ''1'')), short_ring s1 k c)"
    using current_reads [OF held] by blast
  have "\<exists>t s2. fake_ReplaceObject (\<lambda>_. []) CurrentKey ''1'' (jl_text (n_json ?n) data') s1 = (Inr t, s2)"
    using r(1) by (simp add: holds_current_def fake_ReplaceObject_def fake_enter_def ConsumeFail_def NewInjector_def prefix_fault_def
      sortedOpKeys_def fake_landed_def ConsumeAmbiguous_def put_object_def fake_full_def Let_def)
  then obtain t s2 where s2: "fake_ReplaceObject (\<lambda>_. []) CurrentKey ''1'' (jl_text (n_json ?n) data') s1 = (Inr t, s2)" by blast
  have pre: "doors_rewritten ?n E (n_store ?n) doors (short_ring s k c) = (Inr (''1'', pr_manifest small_proposal, data'), short_ring s1 k (Suc c))"
    using r(2) w assms(2-4) short_decodes crypt
    by (simp add: doors_rewritten_def bindS_apply classifyCurrent_def openRing_def decodeOpened_def rewrapRing_def getS_def short_ring_def)
  have "doors_round ?n E (n_store ?n) doors again (short_ring s k c) = (Inr (mf_Generation (pr_manifest small_proposal)), short_ring s2 k (Suc c))" for again
    using pre s2 by (simp add: doors_round_def bindS_apply tryS_apply onNb_def onStore_def short_notebook_def small_notebook_def fake_store_def short_ring_def)
  then have "doors_loop ?n E (n_store ?n) doors i (short_ring s k c) = (Inr (mf_Generation (pr_manifest small_proposal)), short_ring s2 k (Suc c))" for i
    by (cases i) simp_all
  moreover have "onNb (holdWorkspace ?n) (short_ring s k c) = (Inr (), short_ring s k c)" "onNb (entryCheck ?n) (short_ring s k c) = (Inr (), short_ring s k c)"
    by (simp_all add: onNb_def holdWorkspace_def mapErrS_apply onWs_def short_notebook_def small_defs short_ring_def entryCheck_def bindS_apply getS_def)
  ultimately show ?thesis by (auto simp: EncryptDoors_def bindS_apply)
qed

section \<open>Properties\<close>

text \<open>C20: A change of the doors is all or nothing and touches nothing else. Either it fails and the store is as it was, or the wrapped
  envelope at \<open>current\<close> was replaced by one with the same payload, extensions and unknown doors that opens to the same
  manifest and has exactly the doors given, whatever doors the stored envelope had; then it reports that manifest's
  generation, or that the write's outcome is unknown.\<close>

theorem doors_change_exact:
  assumes "conditional_store (n_store n) look" "json_text (n_json n)" "primitives (ee_crypt E)" "list_all door_typed doors" "key_sized (en_ring \<sigma>)"
    and "\<forall>env d t. look (nb_store (en_nb \<sigma>)) CurrentKey = Some (d, t) \<and> wrapped_in n env d \<longrightarrow> length env < 2 ^ 63"
    and "EncryptDoors n E (n_store n) doors \<sigma> = (r, \<sigma>')"
  shows "(\<exists>e. r = Inl e) \<and> look (nb_store (en_nb \<sigma>')) = look (nb_store (en_nb \<sigma>)) \<or>
    (\<exists>m. door_change n E doors (en_ring \<sigma>') m (look (nb_store (en_nb \<sigma>))) (look (nb_store (en_nb \<sigma>'))) \<and>
      (r = Inr (mf_Generation m) \<or> r = Inl (storageFailure ReasonManifestWrite (Some (StoreErr ErrTransport)))))"
proof -
  have "at_view look (look (nb_store (en_nb \<sigma>))) \<sigma>" using assms(5) by (simp add: at_view_def)
  from EncryptDoors_outcome [OF assms(1-4) _ this assms(7)] assms(6) show ?thesis unfolding doors_outcome_def by blast
qed

theorem doors_change_exact_witness:
  "\<exists>d \<sigma>' m. EncryptDoors short_notebook sample_env (n_store short_notebook) [sample_door, sample_door] (short_state d) = (Inr (mf_Generation m), \<sigma>') \<and>
    door_change short_notebook sample_env [sample_door, sample_door] sample_keyring m (fake_look (short_store d)) (fake_look (nb_store (en_nb \<sigma>')))"
proof -
  obtain env where seal: "Keyring_Seal checksum_crypt (Some sample_prefix) CurrentKey KindCurrent ''m'' [sample_door] sample_keyring = Inr env"
    using current_seals [OF good_door(4)] by blast
  have r: "resolve checksum_crypt c CurrentKey [sample_door] sample_keyring = (Inr (kr_key sample_keyring), sample_keyring)" for c
    by (rule held_resolves) (simp_all add: sample_typed)
  obtain h where opens: "Keyring_Open checksum_crypt (\<lambda>_. False) CurrentKey env sample_keyring = (Inr (''m'', h), sample_keyring)" "length env < 2 ^ 63"
    using current_opens [OF good_door(4) r seal] by blast
  have sized: "key_sized sample_keyring" by (simp add: key_sized_def sample_typed)
  then have e: "\<And>c. Keyring_Open checksum_crypt c CurrentKey env sample_keyring = (Inr (''m'', h), sample_keyring)" using checksum.open_holds [OF opens(1)] by simp
  obtain data where data: "WrapCurrentEnvelope env = Inr data"
    using seal by (auto simp: Keyring_Seal_def seal_extended_def bindR_eq_Inr Let_def checkCurrentSize_def WrapCurrentEnvelope_def split: if_splits)
  obtain env' data' where new: "Rewrap checksum_crypt CurrentKey env [sample_door, sample_door] sample_keyring = Inr env'" "WrapCurrentEnvelope env' = Inr data'"
    using current_rewraps [OF good_door(4,4) _ _ seal] sample_typed(2) by blast
  let ?d = "jl_text short_json data"
  have crypt: "ee_crypt sample_env = checksum_crypt" by (simp add: sample_env_def)
  obtain s' where run: "EncryptDoors short_notebook sample_env (n_store short_notebook) [sample_door, sample_door] (short_state ?d) =
      (Inr (mf_Generation (pr_manifest small_proposal)), short_ring s' sample_keyring 1)"
    using short_run [OF data e new crypt short_holds, of 0] by (auto simp: short_state_def)
  have state: "fake_look (nb_store (en_nb (short_state ?d))) = fake_look (short_store ?d)" "en_ring (short_state ?d) = sample_keyring"
    by (simp_all add: short_state_def short_ring_def)
  have "wrapped_in short_notebook env ?d" using wrapped_text [OF short_laws(2) data] by (simp add: short_notebook_def)
  then have fits: "\<forall>x d t. fake_look (nb_store (en_nb (short_state ?d))) CurrentKey = Some (d, t) \<and> wrapped_in short_notebook x d \<longrightarrow> length x < 2 ^ 63"
    using opens(2) short_look [of ?d] by (auto simp: state(1) wrapped_in_def)
  have "list_all door_typed [sample_door, sample_door]" "key_sized (en_ring (short_state ?d))" "primitives (ee_crypt sample_env)"
    using sample_typed sample_env_laws(1) sized by (simp_all add: state)
  from doors_change_exact [OF short_laws(1,2) this(3,1,2) fits run] obtain m where
    "door_change short_notebook sample_env [sample_door, sample_door] sample_keyring m (fake_look (short_store ?d)) (fake_look (nb_store (en_nb (short_ring s' sample_keyring 1))))"
    "mf_Generation m = mf_Generation (pr_manifest small_proposal)"
    unfolding state by (auto simp: short_ring_def)
  with run show ?thesis by metis
qed


definition short_cipher :: "Store Cipher" where
  "short_cipher = \<lparr>ci_Store = n_store short_notebook, ci_HasOpen = False, ci_Seal = sample_keyring, ci_Doors = [sample_door]\<rparr>"




end
