(* ===== verification/PrivateFile.thy ===== *)
theory PrivateFile
  imports ObjectStore
begin

unbundle bit_operations_syntax

text \<open>
  The hardened handling of one private configuration file (\<open>internal/credentials/privatefile.go\<close>, with the constants of
  \<open>platform_unix.go\<close> and \<open>platform_other.go\<close> as fields). The state is the part of the disk the code touches: the
  directory, the file, the temporary files left in it and the lock. Every system call first lets other processes change the
  disk (\<open>pf_meanwhile\<close>) and then either works or fails (\<open>pf_alive\<close>). An open file is the inode it was opened on, as
  it was then.
\<close>

section \<open>The disk\<close>

datatype fkind = Regular | Directory | Special

record inode =
  in_kind :: fkind
  in_owner :: nat
  in_mode :: nat
  in_data :: bytes

text \<open>A directory entry: an inode, or a symbolic link and what it leads to.\<close>

datatype dirent = Plain inode | Symlink "inode option"

record disk =
  dk_dir :: "inode option"
  dk_file :: "dirent option"
  dk_temps :: nat
  dk_locked :: bool
  dk_calls :: nat

datatype os_error = NotExist | OsFailed

datatype pf_error = PfFail bytes | PfNotPrivate | PfOversized

record PrivateFile =
  pf_UID :: nat
  pf_Private :: bool
  pf_MaxBytes :: nat
  pf_nofollow :: bool
  pf_hasOwners :: bool
  pf_alive :: "nat \<Rightarrow> bool"
  pf_meanwhile :: "nat \<Rightarrow> disk \<Rightarrow> disk"

definition FileMode :: nat where "FileMode = 0x180"
definition DirMode :: nat where "DirMode = 0x1C0"

type_synonym 'a dact = "(pf_error, 'a, disk) act"

section \<open>System calls\<close>

definition osD :: "PrivateFile \<Rightarrow> (disk \<Rightarrow> (os_error + 'a) \<times> disk) \<Rightarrow> (os_error, 'a, disk) act" where
  "osD p f = (\<lambda>d.
     let i = dk_calls d; d1 = (pf_meanwhile p i d)\<lparr>dk_calls := Suc i\<rparr> in
     if pf_alive p i then f d1 else (Inl OsFailed, d1))"

definition lookD :: "PrivateFile \<Rightarrow> (disk \<Rightarrow> os_error + 'a) \<Rightarrow> (os_error, 'a, disk) act" where
  "lookD p f = osD p (\<lambda>d. (f d, d))"

definition doD :: "PrivateFile \<Rightarrow> (disk \<Rightarrow> disk) \<Rightarrow> (os_error, unit, disk) act" where
  "doD p f = osD p (\<lambda>d. (Inr (), f d))"

definition os_open :: "bool \<Rightarrow> disk \<Rightarrow> os_error + inode" where
  "os_open nofollow d =
     (case dk_file d of
        None \<Rightarrow> Inl NotExist
      | Some (Plain n) \<Rightarrow> Inr n
      | Some (Symlink t) \<Rightarrow> if nofollow then Inl OsFailed else ofOption NotExist t)"

definition os_mkdirAll :: "nat \<Rightarrow> disk \<Rightarrow> (os_error + unit) \<times> disk" where
  "os_mkdirAll uid d =
     (case dk_dir d of
        None \<Rightarrow> (Inr (), d\<lparr>dk_dir := Some \<lparr>in_kind = Directory, in_owner = uid, in_mode = DirMode, in_data = []\<rparr>\<rparr>)
      | Some n \<Rightarrow> (if in_kind n = Directory then Inr () else Inl OsFailed, d))"

definition os_createTemp :: "nat \<Rightarrow> disk \<Rightarrow> (os_error + inode) \<times> disk" where
  "os_createTemp uid d =
     (case dk_dir d of
        None \<Rightarrow> (Inl NotExist, d)
      | Some n \<Rightarrow>
          if in_kind n = Directory
          then (Inr \<lparr>in_kind = Regular, in_owner = uid, in_mode = FileMode, in_data = []\<rparr>, d\<lparr>dk_temps := Suc (dk_temps d)\<rparr>)
          else (Inl OsFailed, d))"

definition is_directory :: "dirent option \<Rightarrow> bool" where
  "is_directory e = (case e of Some (Plain n) \<Rightarrow> in_kind n = Directory | _ \<Rightarrow> False)"

definition os_rename :: "inode \<Rightarrow> disk \<Rightarrow> (os_error + unit) \<times> disk" where
  "os_rename n d =
     (if is_directory (dk_file d) then (Inl OsFailed, d)
      else (Inr (), d\<lparr>dk_file := Some (Plain n), dk_temps := dk_temps d - 1\<rparr>))"

text \<open>A failure of a call under the wording of the package (\<open>fail\<close>).\<close>

definition failing :: "bytes \<Rightarrow> (os_error, 'a, disk) act \<Rightarrow> 'a dact" where
  "failing op m = mapErrS (\<lambda>_. PfFail op) m"

section \<open>Checks\<close>

definition fileOwner :: "PrivateFile \<Rightarrow> inode \<Rightarrow> (os_error, nat, disk) act" where
  "fileOwner p n = (if pf_hasOwners p then lookD p (\<lambda>d. Inr (in_owner n)) else failS OsFailed)"

definition pathOwner :: "PrivateFile \<Rightarrow> (os_error, nat, disk) act" where
  "pathOwner p = (if pf_hasOwners p then lookD p (\<lambda>d. map_sum id in_owner (ofOption NotExist (dk_dir d))) else failS OsFailed)"

definition checkOwner :: "PrivateFile \<Rightarrow> (os_error, nat, disk) act \<Rightarrow> unit dact" where
  "checkOwner p ownerOf =
     bindS (failing ''owner of'' ownerOf) (\<lambda>owner. if owner \<noteq> pf_UID p then failS PfNotPrivate else retS ())"

definition checkFile :: "PrivateFile \<Rightarrow> inode \<Rightarrow> unit dact" where
  "checkFile p info =
     (if in_kind info \<noteq> Regular then failS PfNotPrivate
      else if \<not> pf_Private p then retS ()
      else bindS (checkOwner p (fileOwner p info)) (\<lambda>_.
        if in_mode info AND 0x3F \<noteq> 0 then failS PfNotPrivate else retS ()))"

definition CheckDir :: "PrivateFile \<Rightarrow> unit dact" where
  "CheckDir p =
     tryS (lookD p (\<lambda>d. ofOption NotExist (dk_dir d))) (\<lambda>r. case r of
       Inl NotExist \<Rightarrow> retS ()
     | Inl OsFailed \<Rightarrow> failS (PfFail ''stat'')
     | Inr info \<Rightarrow>
         if in_kind info \<noteq> Directory then failS PfNotPrivate
         else if \<not> pf_Private p then retS ()
         else bindS (checkOwner p (pathOwner p)) (\<lambda>_.
           if in_mode info AND 0x12 \<noteq> 0 then failS PfNotPrivate else retS ()))"

section \<open>Reading and writing\<close>

text \<open>The file's bytes, or \<open>None\<close> when nobody has stored anything yet.\<close>

definition pf_Read :: "PrivateFile \<Rightarrow> bytes option dact" where
  "pf_Read p =
     tryS (lookD p (\<lambda>d. ofOption NotExist (dk_file d))) (\<lambda>r. case r of
       Inl NotExist \<Rightarrow> retS None
     | Inl OsFailed \<Rightarrow> failS (PfFail ''read'')
     | Inr (Symlink _) \<Rightarrow> failS PfNotPrivate
     | Inr (Plain _) \<Rightarrow>
         tryS (lookD p (os_open (pf_nofollow p))) (\<lambda>r. case r of
           Inl NotExist \<Rightarrow> retS None
         | Inl OsFailed \<Rightarrow> failS (PfFail ''open'')
         | Inr n \<Rightarrow>
             bindS (failing ''stat'' (lookD p (\<lambda>d. Inr n))) (\<lambda>info.
             bindS (CheckDir p) (\<lambda>_.
             bindS (checkFile p info) (\<lambda>_.
             bindS (failing ''read'' (lookD p (\<lambda>d. Inr (take (pf_MaxBytes p + 1) (in_data n))))) (\<lambda>data.
             if length data > pf_MaxBytes p then failS PfOversized else retS (Some data)))))))"

definition writeSynced :: "PrivateFile \<Rightarrow> inode \<Rightarrow> bytes \<Rightarrow> (os_error, inode, disk) act" where
  "writeSynced p tmp data =
     bindS (doD p (\<lambda>d. d)) (\<lambda>_.
     bindS (doD p (\<lambda>d. d)) (\<lambda>_.
     bindS (doD p (\<lambda>d. d)) (\<lambda>_.
     bindS (doD p (\<lambda>d. d)) (\<lambda>_. retS (tmp\<lparr>in_mode := FileMode, in_data := data\<rparr>)))))"

text \<open>\<open>os.Remove(name)\<close> of the temporary file, whose own error is dropped.\<close>

definition dropTemp :: "PrivateFile \<Rightarrow> pf_error \<Rightarrow> unit dact" where
  "dropTemp p err = tryS (doD p (\<lambda>d. d\<lparr>dk_temps := dk_temps d - 1\<rparr>)) (\<lambda>_. failS err)"

definition pf_Write :: "PrivateFile \<Rightarrow> bytes \<Rightarrow> unit dact" where
  "pf_Write p data =
     (if length data > pf_MaxBytes p then failS PfOversized
      else
        bindS (failing ''create'' (osD p (os_mkdirAll (pf_UID p)))) (\<lambda>_.
        bindS (CheckDir p) (\<lambda>_.
        bindS (failing ''create temporary file'' (osD p (os_createTemp (pf_UID p)))) (\<lambda>tmp.
        tryS (writeSynced p tmp data) (\<lambda>r. case r of
          Inl _ \<Rightarrow> dropTemp p (PfFail ''write temporary file'')
        | Inr n \<Rightarrow>
            tryS (osD p (os_rename n)) (\<lambda>r. case r of
              Inl _ \<Rightarrow> dropTemp p (PfFail ''replace'')
            | Inr u \<Rightarrow> retS u))))))"

section \<open>The lock\<close>

text \<open>
  A package's \<open>File.Lock\<close>: the directory is created and checked, then the advisory lock is taken. It waits while another
  process holds it, until its context ends: a lock still held then is the failure.
\<close>

definition File_Lock :: "PrivateFile \<Rightarrow> unit dact" where
  "File_Lock p =
     bindS (failing ''create'' (osD p (os_mkdirAll (pf_UID p)))) (\<lambda>_.
     bindS (CheckDir p) (\<lambda>_.
     failing ''lock'' (osD p (\<lambda>d. if dk_locked d then (Inl OsFailed, d) else (Inr (), d\<lparr>dk_locked := True\<rparr>)))))"

definition Unlock :: "PrivateFile \<Rightarrow> unit dact" where
  "Unlock p = failing ''unlock'' (doD p (\<lambda>d. d\<lparr>dk_locked := False\<rparr>))"

section \<open>What a read trusts\<close>

text \<open>The disk as the second system call of a read, the open, finds it.\<close>

definition at_call :: "PrivateFile \<Rightarrow> disk \<Rightarrow> disk" where
  "at_call p d = (pf_meanwhile p (dk_calls d) d)\<lparr>dk_calls := Suc (dk_calls d)\<rparr>"

lemma osD_Inr: "osD p f d = (Inr x, d') \<longleftrightarrow> pf_alive p (dk_calls d) \<and> f (at_call p d) = (Inr x, d')"
  by (auto simp: osD_def at_call_def Let_def)

lemma lookD_Inr: "lookD p f d = (Inr x, d') \<longleftrightarrow> pf_alive p (dk_calls d) \<and> f (at_call p d) = Inr x \<and> d' = at_call p d"
  by (auto simp: lookD_def osD_Inr)

lemma failing_Inr [simp]: "failing op m d = (Inr x, d') \<longleftrightarrow> m d = (Inr x, d')"
  by (simp add: failing_def mapErrS_Inr)

lemma checkOwner_Inr: "checkOwner p m d = (Inr u, d') \<longleftrightarrow> m d = (Inr (pf_UID p), d')"
  by (auto simp: checkOwner_def bindS_Inr split: if_splits)

lemma checkFile_Inr:
  assumes "checkFile p n d = (Inr u, d')"
  shows "in_kind n = Regular" "pf_Private p \<Longrightarrow> in_owner n = pf_UID p \<and> in_mode n AND 0x3F = 0"
  using assms
  by (auto simp: checkFile_def bindS_Inr checkOwner_Inr fileOwner_def lookD_Inr split: if_splits)

lemma read_steps:
  assumes "pf_Read p d = (Inr (Some data), d')"
  obtains n d2 d3 d4 where "os_open (pf_nofollow p) (at_call p (at_call p d)) = Inr n"
    "CheckDir p d2 = (Inr (), d3)" "checkFile p n d3 = (Inr (), d4)" "data = in_data n" "length data \<le> pf_MaxBytes p"
proof -
  obtain r1 where l: "lookD p (\<lambda>d. ofOption NotExist (dk_file d)) d = (r1, at_call p d)"
    by (cases "pf_alive p (dk_calls d)") (simp_all add: lookD_def osD_def Let_def at_call_def)
  obtain r2 where o: "lookD p (os_open (pf_nofollow p)) (at_call p d) = (r2, at_call p (at_call p d))"
    by (cases "pf_alive p (dk_calls (at_call p d))") (simp_all add: lookD_def osD_def Let_def at_call_def)
  obtain i where "r1 = Inr (Plain i)"
    using assms l by (auto simp: pf_Read_def tryS_apply split: sum.splits os_error.splits dirent.splits)
  moreover from this obtain n where "r2 = Inr n"
    using assms l o by (auto simp: pf_Read_def tryS_apply split: sum.splits os_error.splits)
  ultimately have "bindS (failing ''stat'' (lookD p (\<lambda>d. Inr n))) (\<lambda>info.
             bindS (CheckDir p) (\<lambda>_. bindS (checkFile p info) (\<lambda>_.
             bindS (failing ''read'' (lookD p (\<lambda>d. Inr (take (pf_MaxBytes p + 1) (in_data n))))) (\<lambda>data.
             if length data > pf_MaxBytes p then failS PfOversized else retS (Some data))))) (at_call p (at_call p d)) = (Inr (Some data), d')"
    and "os_open (pf_nofollow p) (at_call p (at_call p d)) = Inr n"
    using assms l o by (simp_all add: pf_Read_def tryS_apply lookD_Inr)
  then show ?thesis
    using that by (auto simp: bindS_Inr lookD_Inr min_def split: if_splits)
qed


section \<open>With nobody else at the disk\<close>

definition quiet :: "PrivateFile \<Rightarrow> bool" where
  "quiet p \<longleftrightarrow> (\<forall>i d. pf_meanwhile p i d = d)"

definition sound_calls :: "PrivateFile \<Rightarrow> bool" where
  "sound_calls p \<longleftrightarrow> quiet p \<and> (\<forall>i. pf_alive p i) \<and> (pf_Private p \<longrightarrow> pf_hasOwners p)"

text \<open>A private directory and a private file, or none yet.\<close>

definition private_dir :: "PrivateFile \<Rightarrow> disk \<Rightarrow> bool" where
  "private_dir p d \<longleftrightarrow> (case dk_dir d of None \<Rightarrow> True
     | Some n \<Rightarrow> in_kind n = Directory \<and> (pf_Private p \<longrightarrow> in_owner n = pf_UID p \<and> in_mode n AND 0x12 = 0))"

definition stored_file :: "PrivateFile \<Rightarrow> bytes \<Rightarrow> inode" where
  "stored_file p data = \<lparr>in_kind = Regular, in_owner = pf_UID p, in_mode = FileMode, in_data = data\<rparr>"

lemma osD_quiet: "quiet p \<Longrightarrow> osD p f d = (if pf_alive p (dk_calls d) then f (d\<lparr>dk_calls := Suc (dk_calls d)\<rparr>) else (Inl OsFailed, d\<lparr>dk_calls := Suc (dk_calls d)\<rparr>))"
  by (simp add: osD_def quiet_def Let_def)

lemma calls_sound:
  assumes "sound_calls p"
  shows "osD p f d = f (d\<lparr>dk_calls := Suc (dk_calls d)\<rparr>)" "lookD p g d = (g (d\<lparr>dk_calls := Suc (dk_calls d)\<rparr>), d\<lparr>dk_calls := Suc (dk_calls d)\<rparr>)"
    "doD p h d = (Inr (), h (d\<lparr>dk_calls := Suc (dk_calls d)\<rparr>))"
  using assms by (simp_all add: sound_calls_def lookD_def doD_def osD_quiet)

text \<open>The parts of the disk a call leaves alone.\<close>

definition same_disk :: "disk \<Rightarrow> disk \<Rightarrow> bool" where
  "same_disk d d' \<longleftrightarrow> dk_dir d' = dk_dir d \<and> dk_file d' = dk_file d \<and> dk_temps d' = dk_temps d \<and> dk_locked d' = dk_locked d"

lemma same_disk_simps [simp]: "same_disk d d" "same_disk d (d'\<lparr>dk_calls := n\<rparr>) = same_disk d d'" "same_disk (d\<lparr>dk_calls := n\<rparr>) d' = same_disk d d'"
  by (simp_all add: same_disk_def)

lemma same_disk_trans [trans]: "same_disk a b \<Longrightarrow> same_disk b c \<Longrightarrow> same_disk a c"
  by (simp add: same_disk_def)

definition leaves :: "(disk \<Rightarrow> ('e + 'a) \<times> disk) \<Rightarrow> bool" where
  "leaves m \<longleftrightarrow> (\<forall>d. same_disk d (snd (m d)))"

lemma leavesD: "leaves m \<Longrightarrow> m d = (r, d') \<Longrightarrow> same_disk d d'"
  unfolding leaves_def by (metis snd_conv)

lemma leaves_ret: "leaves (retS x)" "leaves (failS e)" "leaves (liftS r)"
  by (simp_all add: leaves_def)

lemma leaves_try: "leaves m \<Longrightarrow> (\<And>r. leaves (f r)) \<Longrightarrow> leaves (tryS m f)"
  unfolding leaves_def tryS_apply by (metis same_disk_trans)

lemma leaves_bind: "leaves m \<Longrightarrow> (\<And>x. leaves (f x)) \<Longrightarrow> leaves (bindS m f)"
  unfolding bindS_def by (rule leaves_try) (auto intro: leaves_ret split: sum.splits)

lemma leaves_failing: "leaves m \<Longrightarrow> leaves (failing op m)"
  unfolding failing_def mapErrS_def by (intro leaves_try leaves_ret)

lemma leaves_look: "quiet p \<Longrightarrow> leaves (lookD p f)"
  by (auto simp: leaves_def lookD_def osD_quiet)

lemmas leaves_intros = leaves_ret leaves_bind leaves_try leaves_failing leaves_look

lemma checks_leave:
  assumes "quiet p"
  shows "leaves (CheckDir p)" "leaves (checkFile p n)"
  using assms unfolding CheckDir_def checkFile_def checkOwner_def pathOwner_def fileOwner_def
  by (auto intro!: leaves_intros split: sum.splits os_error.splits)

lemma read_leaves: "quiet p \<Longrightarrow> leaves (pf_Read p)"
  unfolding pf_Read_def by (auto intro!: leaves_intros checks_leave split: sum.splits os_error.splits dirent.splits)

lemmas CheckDir_same = leavesD [OF checks_leave(1)] and read_same = leavesD [OF read_leaves]

lemma owner_sound:
  assumes "sound_calls p" "pf_Private p" "dk_dir d = Some n" "in_owner n = pf_UID p"
  shows "checkOwner p (pathOwner p) d = (Inr (), d\<lparr>dk_calls := Suc (dk_calls d)\<rparr>)"
proof -
  have "pf_hasOwners p" using assms(1,2) by (simp add: sound_calls_def)
  then show ?thesis
    using assms(3,4) by (simp add: checkOwner_def bindS_apply failing_def mapErrS_apply pathOwner_def calls_sound(2) [OF assms(1)])
qed

lemma CheckDir_private:
  assumes s: "sound_calls p" and d: "private_dir p d"
  shows "\<exists>n. CheckDir p d = (Inr (), d\<lparr>dk_calls := n\<rparr>)"
proof (cases "dk_dir d")
  case None
  then show ?thesis by (auto simp: CheckDir_def tryS_apply calls_sound [OF s])
next
  case (Some n)
  then have n: "in_kind n = Directory" "pf_Private p \<longrightarrow> in_owner n = pf_UID p \<and> in_mode n AND 0x12 = 0" using d by (simp_all add: private_dir_def)
  show ?thesis
  proof (cases "pf_Private p")
    case True
    then have "checkOwner p (pathOwner p) (d\<lparr>dk_calls := Suc (dk_calls d)\<rparr>) = (Inr (), d\<lparr>dk_calls := Suc (Suc (dk_calls d))\<rparr>)"
      using owner_sound [OF s True, of "d\<lparr>dk_calls := Suc (dk_calls d)\<rparr>" n] Some n by simp
    then show ?thesis using n True Some by (auto simp: CheckDir_def tryS_apply bindS_apply calls_sound [OF s])
  qed (use n Some in \<open>auto simp: CheckDir_def tryS_apply calls_sound [OF s]\<close>)
qed

lemma CheckDir_dir:
  assumes "quiet p" "CheckDir p d = (Inr (), d')"
  shows "private_dir p d"
proof (cases "dk_dir d")
  case (Some n)
  show ?thesis using assms
    by (auto simp: CheckDir_def tryS_apply bindS_Inr lookD_def osD_quiet Some checkOwner_Inr pathOwner_def private_dir_def split: if_splits sum.splits os_error.splits)
qed (simp add: private_dir_def)

lemma CheckDir_sound: "sound_calls p \<Longrightarrow> (\<exists>n. CheckDir p d = (Inr (), d\<lparr>dk_calls := n\<rparr>)) \<longleftrightarrow> private_dir p d"
  using CheckDir_private CheckDir_dir by (auto simp: sound_calls_def)

lemma write_effect:
  assumes "quiet p" "pf_Write p data d = (r, d')"
  shows "(r = Inr () \<longrightarrow> dk_file d' = Some (Plain (stored_file p data)) \<and> dk_temps d' = dk_temps d \<and> length data \<le> pf_MaxBytes p \<and> private_dir p d') \<and>
    (r \<noteq> Inr () \<longrightarrow> dk_file d' = dk_file d) \<and> (length data > pf_MaxBytes p \<longrightarrow> r = Inl PfOversized \<and> d' = d)"
proof (cases "length data > pf_MaxBytes p")
  case True
  then show ?thesis using assms(2) by (simp add: pf_Write_def) auto
next
  case False
  obtain r1 d1 where m: "osD p (os_mkdirAll (pf_UID p)) d = (r1, d1)" by fastforce
  have m1: "dk_file d1 = dk_file d" "dk_temps d1 = dk_temps d"
    using m by (auto simp: osD_quiet [OF assms(1)] os_mkdirAll_def split: if_splits option.splits)
  obtain r2 d2 where c: "CheckDir p d1 = (r2, d2)" by fastforce
  have c2: "same_disk d1 d2" by (rule CheckDir_same [OF assms(1) c])
  obtain r3 d3 where t: "osD p (os_createTemp (pf_UID p)) d2 = (r3, d3)" by fastforce
  have t3: "dk_file d3 = dk_file d2" "dk_dir d3 = dk_dir d2"
    "\<And>x. r3 = Inr x \<Longrightarrow> dk_temps d3 = Suc (dk_temps d2) \<and> x\<lparr>in_mode := FileMode, in_data := data\<rparr> = stored_file p data"
    using t by (auto simp: osD_quiet [OF assms(1)] os_createTemp_def stored_file_def split: if_splits option.splits)
  show ?thesis
  proof (cases r1)
    case (Inl e)
    then show ?thesis using assms(2) False m m1 by (auto simp: pf_Write_def bindS_apply failing_def mapErrS_apply)
  next
    case r1: (Inr u)
    show ?thesis
    proof (cases r2)
      case (Inl e)
      then show ?thesis using assms(2) False m m1 c c2 r1 by (auto simp: pf_Write_def bindS_apply failing_def mapErrS_apply same_disk_def)
    next
      case r2: (Inr u)
      have pd: "private_dir p d1" using CheckDir_dir [OF assms(1)] c r2 by simp
      show ?thesis
      proof (cases r3)
        case (Inl e)
        then show ?thesis using assms(2) False m m1 c c2 r1 r2 t t3 by (auto simp: pf_Write_def bindS_apply failing_def mapErrS_apply same_disk_def)
      next
        case r3: (Inr tmp)
        obtain r4 d4 where w: "writeSynced p tmp data d3 = (r4, d4)" by fastforce
        have w4: "same_disk d3 d4" "\<And>n. r4 = Inr n \<Longrightarrow> n = stored_file p data"
          using w t3(3) [OF r3] by (auto simp: writeSynced_def bindS_apply doD_def osD_quiet [OF assms(1)] split: if_splits)
        have run: "tryS (writeSynced p tmp data) (\<lambda>r. case r of Inl _ \<Rightarrow> dropTemp p (PfFail ''write temporary file'')
            | Inr n \<Rightarrow> tryS (osD p (os_rename n)) (\<lambda>r. case r of Inl _ \<Rightarrow> dropTemp p (PfFail ''replace'') | Inr u \<Rightarrow> retS u)) d3 = (r, d')"
          using assms(2) False m c t r1 r2 r3 by (simp add: pf_Write_def bindS_apply failing_def mapErrS_apply)
        have drop: "dropTemp p err x = (r', x') \<Longrightarrow> r' = Inl err \<and> dk_file x' = dk_file x" for err x r' x'
          by (auto simp: dropTemp_def tryS_apply doD_def osD_quiet [OF assms(1)] split: if_splits)
        have fl: "dk_file d3 = dk_file d" "dk_temps d4 = Suc (dk_temps d)" "dk_file d4 = dk_file d" "dk_dir d4 = dk_dir d1"
          using m1 c2 t3 r3 w4(1) by (auto simp: same_disk_def)
        show ?thesis
        proof (cases r4)
          case (Inl e)
          then show ?thesis using run w fl drop False by (auto simp: tryS_apply)
        next
          case r4: (Inr n)
          obtain r5 d5 where mv: "osD p (os_rename n) d4 = (r5, d5)" by fastforce
          have "case r5 of Inl _ \<Rightarrow> dk_file d5 = dk_file d4 | Inr _ \<Rightarrow> dk_file d5 = Some (Plain n) \<and> dk_temps d5 = dk_temps d4 - 1 \<and> dk_dir d5 = dk_dir d4"
            using mv by (auto simp: osD_quiet [OF assms(1)] os_rename_def split: if_splits sum.splits)
          then show ?thesis using run w r4 mv fl drop False w4(2) pd by (auto simp: tryS_apply private_dir_def split: sum.splits)
        qed
      qed
    qed
  qed
qed

text \<open>What was written is what the next read returns.\<close>

definition trusted :: "PrivateFile \<Rightarrow> inode \<Rightarrow> bool" where
  "trusted p n \<longleftrightarrow> in_kind n = Regular \<and> (pf_Private p \<longrightarrow> in_owner n = pf_UID p \<and> in_mode n AND 0x3F = 0) \<and> length (in_data n) \<le> pf_MaxBytes p"

lemma read_trusted:
  assumes s: "sound_calls p" and d: "private_dir p d" and n: "dk_file d = Some (Plain n)" "trusted p n"
  shows "\<exists>k. pf_Read p d = (Inr (Some (in_data n)), d\<lparr>dk_calls := k\<rparr>)"
proof -
  let ?d = "d\<lparr>dk_calls := Suc (Suc (Suc (dk_calls d)))\<rparr>"
  have "private_dir p ?d" using d by (simp add: private_dir_def)
  then obtain j where c: "CheckDir p ?d = (Inr (), ?d\<lparr>dk_calls := j\<rparr>)" using CheckDir_private [OF s] by blast
  obtain k where f: "checkFile p n (?d\<lparr>dk_calls := j\<rparr>) = (Inr (), ?d\<lparr>dk_calls := k\<rparr>)"
    using s n(2)
    by (cases "pf_Private p") (auto simp: checkFile_def bindS_apply checkOwner_def failing_def mapErrS_apply fileOwner_def calls_sound trusted_def sound_calls_def lookD_def osD_quiet)
  show ?thesis
    using n c f by (auto simp: pf_Read_def tryS_apply bindS_apply failing_def mapErrS_apply calls_sound [OF s] os_open_def trusted_def)
qed

lemma stored_trusted: "length data \<le> pf_MaxBytes p \<Longrightarrow> trusted p (stored_file p data)" "in_data (stored_file p data) = data"
  by (simp_all add: trusted_def stored_file_def FileMode_def)

lemma read_private:
  assumes "sound_calls p" "private_dir p d" "dk_file d = Some (Plain (stored_file p data))" "length data \<le> pf_MaxBytes p"
  shows "\<exists>n. pf_Read p d = (Inr (Some data), d\<lparr>dk_calls := n\<rparr>)"
  using read_trusted [OF assms(1-3) stored_trusted(1) [OF assms(4)]] by (simp add: stored_trusted)

text \<open>Conversely, a read that succeeds with nobody else at the disk found no file, or a trusted one.\<close>

lemma read_found:
  assumes q: "quiet p" and r: "pf_Read p d = (Inr found, d')"
  shows "dk_file d = None \<and> found = None \<or> (\<exists>n. dk_file d = Some (Plain n) \<and> trusted p n \<and> found = Some (in_data n))"
proof (cases "dk_file d")
  case None
  then show ?thesis
    using r by (auto simp: pf_Read_def tryS_apply lookD_def osD_quiet [OF q] split: if_splits)
next
  case (Some e)
  show ?thesis
  proof (cases e)
    case (Symlink t)
    then show ?thesis using r Some by (auto simp: pf_Read_def tryS_apply lookD_def osD_quiet [OF q] split: if_splits)
  next
    case (Plain n)
    obtain d1 where l: "lookD p (\<lambda>d. ofOption NotExist (dk_file d)) d = (Inr e, d1)" "same_disk d d1"
      using r Some by (auto simp: pf_Read_def tryS_apply lookD_def osD_quiet [OF q] split: if_splits)
    then have "dk_file d1 = Some (Plain n)" using Some Plain by (simp add: same_disk_def)
    then obtain d2 where o: "lookD p (os_open (pf_nofollow p)) d1 = (Inr n, d2)"
      using r l Plain by (auto simp: pf_Read_def tryS_apply lookD_def osD_quiet [OF q] os_open_def split: if_splits)
    obtain x y z where "checkFile p n x = (Inr (), y)" "found = Some (in_data n)" "length (in_data n) \<le> pf_MaxBytes p"
      using r l(1) o Plain by (auto simp: pf_Read_def tryS_apply bindS_Inr lookD_Inr min_def split: if_splits)
    then show ?thesis using checkFile_Inr Some Plain by (auto simp: trusted_def)
  qed
qed

lemma read_missing: "sound_calls p \<Longrightarrow> dk_file d = None \<Longrightarrow> \<exists>n. pf_Read p d = (Inr None, d\<lparr>dk_calls := n\<rparr>)"
  by (auto simp: pf_Read_def tryS_apply calls_sound)

text \<open>C13: A write either stores exactly the given bytes as a file only its owner can read and write, leaving no temporary
  file, or leaves the stored file as it was; it never leaves a part of the bytes under the file's name, and it refuses more
  than the bound before it touches the disk.\<close>

theorem write_all_or_nothing:
  assumes "quiet p" "pf_Write p data d = (r, d')"
  shows "(r = Inr () \<longrightarrow> dk_file d' = Some (Plain (stored_file p data)) \<and> dk_temps d' = dk_temps d \<and> length data \<le> pf_MaxBytes p \<and> private_dir p d') \<and>
    (r \<noteq> Inr () \<longrightarrow> dk_file d' = dk_file d) \<and> (length data > pf_MaxBytes p \<longrightarrow> r = Inl PfOversized \<and> d' = d)"
  using assms by (rule write_effect)

text \<open>A write into a private directory, or none yet, succeeds when every system call does.\<close>

lemma mkdir_private: "private_dir p d \<Longrightarrow> \<exists>n. os_mkdirAll (pf_UID p) d = (Inr (), d\<lparr>dk_dir := Some n\<rparr>) \<and> in_kind n = Directory \<and> private_dir p (d\<lparr>dk_dir := Some n\<rparr>)"
  by (cases "dk_dir d") (auto simp: os_mkdirAll_def private_dir_def DirMode_def intro!: exI)

lemma write_sound:
  assumes s: "sound_calls p" and "private_dir p d" "\<not> is_directory (dk_file d)" "length data \<le> pf_MaxBytes p"
  shows "\<exists>d'. pf_Write p data d = (Inr (), d') \<and> dk_locked d' = dk_locked d"
proof -
  let ?d = "d\<lparr>dk_calls := Suc (dk_calls d)\<rparr>"
  have "private_dir p ?d" using assms(2) by (simp add: private_dir_def)
  then obtain n where m: "os_mkdirAll (pf_UID p) ?d = (Inr (), ?d\<lparr>dk_dir := Some n\<rparr>)" "in_kind n = Directory" "private_dir p (?d\<lparr>dk_dir := Some n\<rparr>)"
    using mkdir_private by blast
  obtain k where c: "CheckDir p (?d\<lparr>dk_dir := Some n\<rparr>) = (Inr (), ?d\<lparr>dk_dir := Some n, dk_calls := k\<rparr>)"
    using CheckDir_private [OF s m(3)] by auto
  show ?thesis
    using assms(3,4) m(2)
    by (simp add: pf_Write_def bindS_apply tryS_apply failing_def mapErrS_apply calls_sound [OF s] m(1) c os_createTemp_def writeSynced_def os_rename_def)
qed

section \<open>A small disk\<close>

definition small_file :: PrivateFile where
  "small_file = \<lparr>pf_UID = 1000, pf_Private = True, pf_MaxBytes = 1048576, pf_nofollow = True, pf_hasOwners = True,
     pf_alive = (\<lambda>_. True), pf_meanwhile = (\<lambda>_ d. d)\<rparr>"

definition empty_disk :: disk where
  "empty_disk = \<lparr>dk_dir = None, dk_file = None, dk_temps = 0, dk_locked = False, dk_calls = 0\<rparr>"

lemma small_sound: "sound_calls small_file" "quiet small_file" "private_dir small_file empty_disk" "\<not> is_directory (dk_file empty_disk)"
  by (simp_all add: small_file_def empty_disk_def sound_calls_def quiet_def private_dir_def is_directory_def)

lemma small_write: "\<exists>d'. pf_Write small_file ''data'' empty_disk = (Inr (), d') \<and> dk_file d' = Some (Plain (stored_file small_file ''data''))"
proof -
  obtain d' where w: "pf_Write small_file ''data'' empty_disk = (Inr (), d')"
    using write_sound [OF small_sound(1,3,4), of "''data''"] by (auto simp: small_file_def)
  then show ?thesis using write_effect [OF small_sound(2) w] by simp
qed

lemma write_all_or_nothing_witness:
  "\<exists>d'. pf_Write small_file ''data'' empty_disk = (Inr (), d') \<and> dk_file d' = Some (Plain (stored_file small_file ''data''))"
proof -
  obtain d' where w: "pf_Write small_file ''data'' empty_disk = (Inr (), d')" using small_write by blast
  then show ?thesis using write_all_or_nothing [OF small_sound(2) w] by simp
qed


end
