(* ===== verification/ConfigFiles.thy ===== *)
theory ConfigFiles
  imports PrivateFile WorkspaceIdentity
begin

text \<open>
  What the packages with a configuration file share: where the directory of those files is (\<open>ConfigDir\<close> of
  \<open>internal/credentials/privatefile.go\<close> and \<open>userConfigDir\<close> of \<open>credentials.go\<close>), the expansion of a leading tilde
  (\<open>internal/pathutil/home.go\<close>), and the load, save and locked change of one strict record kept in a private file, which
  \<open>internal/keyrecord/file.go\<close> and \<open>internal/settings/settings.go\<close> both write out. The environment and the operating
  system's name are arguments, as in the code; paths are POSIX paths.
\<close>

section \<open>Locating the directory\<close>

text \<open>\<open>filepath.Clean\<close> and \<open>filepath.Join\<close> of two parts, for relative paths too: those keep the \<open>..\<close> they cannot resolve.\<close>

fun clean_rel :: "bytes list \<Rightarrow> bytes list \<Rightarrow> bytes list" where
  "clean_rel acc [] = rev acc"
| "clean_rel acc (s # ss) =
     (if s = [] \<or> s = ''.'' then clean_rel acc ss
      else if s = ''..'' \<and> acc \<noteq> [] \<and> hd acc \<noteq> ''..'' then clean_rel (tl acc) ss
      else clean_rel (s # acc) ss)"

definition clean_path :: "bytes \<Rightarrow> bytes" where
  "clean_path p =
     (if IsAbs p then filepath_Clean p
      else let segs = clean_rel [] (SplitOn (CHR ''/'') p) in if segs = [] then ''.'' else JoinOn (CHR ''/'') segs)"

definition join_path :: "bytes \<Rightarrow> bytes \<Rightarrow> bytes" where
  "join_path a b = clean_path (if a = [] then b else if b = [] then a else a @ ''/'' @ b)"

definition DirEnv :: bytes where "DirEnv = ''SLIVINGDOC_CONFIG_DIR''"

datatype no_config_dir = EnvNotAbsolute | NoHome

definition userConfigDir :: "(bytes \<Rightarrow> bytes) \<Rightarrow> bytes \<Rightarrow> no_config_dir + bytes" where
  "userConfigDir getenv goos =
     (let dir =
        (if goos = ''windows'' then getenv ''AppData''
         else if goos = ''darwin'' \<or> goos = ''ios'' then
           (if getenv ''HOME'' \<noteq> '''' then join_path (join_path (getenv ''HOME'') ''Library'') ''Application Support'' else '''')
         else if goos = ''plan9'' then (if getenv ''home'' \<noteq> '''' then join_path (getenv ''home'') ''lib'' else '''')
         else
           let xdg = getenv ''XDG_CONFIG_HOME''; dir = (if xdg \<noteq> '''' \<and> \<not> IsAbs xdg then '''' else xdg) in
           if dir = '''' then (if getenv ''HOME'' \<noteq> '''' then join_path (getenv ''HOME'') ''.config'' else '''') else dir)
      in if dir = '''' \<or> \<not> IsAbs dir then Inl NoHome else Inr dir)"

definition ConfigDir :: "(bytes \<Rightarrow> bytes) \<Rightarrow> bytes \<Rightarrow> no_config_dir + bytes" where
  "ConfigDir getenv goos =
     (let dir = getenv DirEnv in
      if dir \<noteq> '''' then (if \<not> IsAbs dir then Inl EnvNotAbsolute else Inr (clean_path dir))
      else bindR (userConfigDir getenv goos) (\<lambda>base. Inr (join_path base ''slivingdoc'')))"

definition ChecksOwners :: "bool \<Rightarrow> bytes \<Rightarrow> bool" where
  "ChecksOwners hasOwners goos \<longleftrightarrow> hasOwners \<and> goos \<noteq> ''windows''"

text \<open>\<open>home\<close> is \<open>os.UserHomeDir\<close>.\<close>

definition ExpandHome :: "bytes option \<Rightarrow> bytes \<Rightarrow> bytes option" where
  "ExpandHome home path =
     (if path \<noteq> ''~'' \<and> \<not> HasPrefix path ''~/'' then Some path
      else case home of
        None \<Rightarrow> None
      | Some h \<Rightarrow> if path = ''~'' then Some h else Some (join_path h (drop 2 path)))"

section \<open>A record in a private file\<close>

datatype 'e file_error = FilePrivate pf_error | FileDecode 'e

definition record_Load :: "(bytes \<Rightarrow> 'e + 's) \<Rightarrow> 's \<Rightarrow> PrivateFile \<Rightarrow> ('e file_error, 's, disk) act" where
  "record_Load dec none p =
     bindS (mapErrS FilePrivate (pf_Read p)) (\<lambda>found. case found of
       None \<Rightarrow> retS none
     | Some data \<Rightarrow> liftS (mapErr FileDecode (dec data)))"

definition record_Save :: "('s \<Rightarrow> bytes) \<Rightarrow> PrivateFile \<Rightarrow> 's \<Rightarrow> ('e file_error, unit, disk) act" where
  "record_Save enc p s = mapErrS FilePrivate (pf_Write p (enc s))"

text \<open>A body under the file's lock; \<open>after\<close> is the deferred unlock, which sees the result and may replace it.\<close>

definition under_lock :: "PrivateFile \<Rightarrow> ('e file_error, unit, disk) act \<Rightarrow> (pf_error + unit \<Rightarrow> 'e file_error + unit \<Rightarrow> 'e file_error + unit) \<Rightarrow> ('e file_error, unit, disk) act" where
  "under_lock p body after =
     bindS (mapErrS FilePrivate (File_Lock p)) (\<lambda>_. tryS body (\<lambda>r. tryS (Unlock p) (\<lambda>u. liftS (after u r))))"

text \<open>The change made under the lock: the record is loaded, and \<open>f\<close> gives the one to store, if any.\<close>

definition record_change :: "(bytes \<Rightarrow> 'e + 's) \<Rightarrow> ('s \<Rightarrow> bytes) \<Rightarrow> 's \<Rightarrow> PrivateFile \<Rightarrow> ('s \<Rightarrow> 's option) \<Rightarrow> ('e file_error, unit, disk) act" where
  "record_change dec enc none p f =
     bindS (record_Load dec none p) (\<lambda>s. case f s of None \<Rightarrow> retS () | Some s' \<Rightarrow> record_Save enc p s')"

lemma lock_sound:
  assumes s: "sound_calls p" and d: "private_dir p d" "\<not> dk_locked d"
  shows "\<exists>n k. File_Lock p d = (Inr (), d\<lparr>dk_dir := Some n, dk_locked := True, dk_calls := k\<rparr>) \<and> in_kind n = Directory \<and> private_dir p (d\<lparr>dk_dir := Some n\<rparr>)"
proof -
  let ?d = "d\<lparr>dk_calls := Suc (dk_calls d)\<rparr>"
  have "private_dir p ?d" using d(1) by (simp add: private_dir_def)
  then obtain n where m: "os_mkdirAll (pf_UID p) ?d = (Inr (), ?d\<lparr>dk_dir := Some n\<rparr>)" "in_kind n = Directory" "private_dir p (?d\<lparr>dk_dir := Some n\<rparr>)"
    using mkdir_private by blast
  obtain k where c: "CheckDir p (?d\<lparr>dk_dir := Some n\<rparr>) = (Inr (), ?d\<lparr>dk_dir := Some n, dk_calls := k\<rparr>)"
    using CheckDir_private [OF s m(3)] by auto
  have "private_dir p (d\<lparr>dk_dir := Some n\<rparr>)" using m(3) by (simp add: private_dir_def)
  moreover have "File_Lock p d = (Inr (), d\<lparr>dk_dir := Some n, dk_locked := True, dk_calls := Suc k\<rparr>)"
    using d(2) by (simp add: File_Lock_def bindS_apply failing_def mapErrS_apply calls_sound [OF s] m(1) c)
  ultimately show ?thesis using m(2) by blast
qed

lemma lock_leaves_file: "quiet p \<Longrightarrow> File_Lock p d = (r, d') \<Longrightarrow> dk_file d' = dk_file d"
proof -
  assume q: "quiet p" and r: "File_Lock p d = (r, d')"
  obtain r1 d1 where m: "osD p (os_mkdirAll (pf_UID p)) d = (r1, d1)" by fastforce
  then have m1: "dk_file d1 = dk_file d" by (auto simp: osD_quiet [OF q] os_mkdirAll_def split: if_splits option.splits)
  obtain r2 d2 where c: "CheckDir p d1 = (r2, d2)" by fastforce
  then have c2: "dk_file d2 = dk_file d1" using CheckDir_same [OF q c] by (simp add: same_disk_def)
  show "dk_file d' = dk_file d"
    using r m m1 c c2 by (auto simp: File_Lock_def bindS_apply failing_def mapErrS_apply osD_quiet [OF q] split: sum.splits if_splits)
qed

text \<open>A change that reports a failure has not touched the stored record, whatever system calls failed.\<close>

lemma change_failed:
  assumes q: "quiet p" and run: "under_lock p (record_change dec enc none p f) (\<lambda>u r. r) d = (Inl e, d')"
  shows "dk_file d' = dk_file d"
proof -
  obtain r1 d1 where l: "File_Lock p d = (r1, d1)" by fastforce
  have l1: "dk_file d1 = dk_file d" by (rule lock_leaves_file [OF q l])
  obtain r2 d2 where b: "record_change dec enc none p f d1 = (r2, d2)" by fastforce
  have unlock: "dk_file (snd (Unlock p x)) = dk_file x" for x
    by (simp add: Unlock_def failing_def mapErrS_apply doD_def osD_quiet [OF q])
  have "dk_file d2 = dk_file d1" if "r2 = Inl e"
  proof -
    obtain r3 d3 where rd: "pf_Read p d1 = (r3, d3)" by fastforce
    have same: "dk_file d3 = dk_file d1" using read_same [OF q rd] by (simp add: same_disk_def)
    have "snd (record_Load dec none p d1) = d3"
      using rd by (auto simp: record_Load_def bindS_apply mapErrS_apply split: sum.splits option.splits)
    then obtain r4 where ld: "record_Load dec none p d1 = (r4, d3)" by (metis prod.collapse)
    show ?thesis
    proof (cases r4)
      case (Inl y)
      then show ?thesis using b ld same by (simp add: record_change_def bindS_apply)
    next
      case r4: (Inr t)
      show ?thesis
      proof (cases "f t")
        case None
        then show ?thesis using b ld same r4 by (simp add: record_change_def bindS_apply)
      next
        case (Some t')
        obtain r5 d5 where w: "pf_Write p (enc t') d3 = (r5, d5)" by fastforce
        then have "mapErr FilePrivate r5 = Inl e" "d2 = d5" using b ld r4 Some that by (simp_all add: record_change_def bindS_apply record_Save_def mapErrS_apply)
        then have "r5 \<noteq> Inr ()" "d2 = d5" by auto
        then show ?thesis using write_effect [OF q w] same by simp
      qed
    qed
  qed
  then show ?thesis
    using run l l1 b unlock by (auto simp: under_lock_def bindS_apply tryS_apply mapErrS_apply split: sum.splits)
qed

text \<open>What the disk stores: no file for the empty record, or a trusted file that decodes.\<close>

definition record_stored :: "(bytes \<Rightarrow> 'e + 's) \<Rightarrow> 's \<Rightarrow> PrivateFile \<Rightarrow> disk \<Rightarrow> 's \<Rightarrow> bool" where
  "record_stored dec none p d s \<longleftrightarrow>
     dk_file d = None \<and> s = none \<or> (\<exists>n. dk_file d = Some (Plain n) \<and> trusted p n \<and> dec (in_data n) = Inr s)"

lemma record_stored_calls [simp]: "record_stored dec none p (d\<lparr>dk_calls := k\<rparr>) s = record_stored dec none p d s"
  by (simp add: record_stored_def)

lemma loaded_stored: "quiet p \<Longrightarrow> record_Load dec none p d = (Inr s, d') \<Longrightarrow> record_stored dec none p d s"
  by (auto simp: record_Load_def bindS_Inr mapErrS_Inr record_stored_def dest!: read_found split: option.splits)

text \<open>A load that succeeds leaves the disk as it is and returns what is stored.\<close>

lemma load_stored:
  assumes "sound_calls p" "private_dir p d" "record_stored dec none p d s"
  shows "\<exists>n. record_Load dec none p d = (Inr s, d\<lparr>dk_calls := n\<rparr>)"
proof (cases "dk_file d")
  case None
  then show ?thesis using read_missing [OF assms(1) None] assms(3) by (auto simp: record_Load_def bindS_apply mapErrS_apply record_stored_def)
next
  case (Some f)
  then obtain n where n: "dk_file d = Some (Plain n)" "trusted p n" "dec (in_data n) = Inr s" using assms(3) by (auto simp: record_stored_def)
  then show ?thesis using read_trusted [OF assms(1,2) n(1,2)] by (auto simp: record_Load_def bindS_apply mapErrS_apply)
qed

text \<open>A file that does not decode fails the load.\<close>

lemma load_fails:
  assumes "sound_calls p" "private_dir p d" "dk_file d = Some (Plain n)" "trusted p n" "dec (in_data n) = Inl e"
  shows "\<exists>k. record_Load dec none p d = (Inl (FileDecode e), d\<lparr>dk_calls := k\<rparr>)"
  using read_trusted [OF assms(1-4)] assms(5) by (auto simp: record_Load_def bindS_apply mapErrS_apply)

lemma change_runs:
  assumes s: "sound_calls p" and h: "private_dir p d" "\<not> dk_locked d" "record_stored dec none p d s"
    and f: "case f s of None \<Rightarrow> True | Some s' \<Rightarrow> length (enc s') \<le> pf_MaxBytes p"
    and after: "after (Inr ()) (Inr ()) = Inr ()"
  shows "\<exists>d'. under_lock p (record_change dec enc none p f) after d = (Inr (), d') \<and> private_dir p d' \<and> \<not> dk_locked d' \<and>
    (case f s of None \<Rightarrow> dk_file d' = dk_file d | Some s' \<Rightarrow> dk_file d' = Some (Plain (stored_file p (enc s'))))"
proof -
  have q: "quiet p" using s by (simp add: sound_calls_def)
  obtain n k where l: "File_Lock p d = (Inr (), d\<lparr>dk_dir := Some n, dk_locked := True, dk_calls := k\<rparr>)" "in_kind n = Directory"
    "private_dir p (d\<lparr>dk_dir := Some n\<rparr>)"
    using lock_sound [OF s h(1,2)] by blast
  let ?d = "d\<lparr>dk_dir := Some n, dk_locked := True, dk_calls := k\<rparr>"
  have pd: "private_dir p ?d" and st: "record_stored dec none p ?d s" using l(3) h(3) by (simp_all add: private_dir_def record_stored_def)
  then obtain j where ld: "record_Load dec none p ?d = (Inr s, ?d\<lparr>dk_calls := j\<rparr>)" using load_stored [OF s pd st] by blast
  have unlock: "Unlock p x = (Inr (), x\<lparr>dk_locked := False, dk_calls := Suc (dk_calls x)\<rparr>)" for x
    by (simp add: Unlock_def failing_def mapErrS_apply calls_sound [OF s])
  show ?thesis
  proof (cases "f s")
    case None
    have "private_dir p (d\<lparr>dk_dir := Some n, dk_locked := False, dk_calls := Suc j\<rparr>)" using l(3) by (simp add: private_dir_def)
    then show ?thesis using None l(1) ld after unlock by (simp add: under_lock_def record_change_def bindS_apply tryS_apply mapErrS_apply)
  next
    case (Some s')
    have "private_dir p (?d\<lparr>dk_calls := j\<rparr>)" "\<not> is_directory (dk_file (?d\<lparr>dk_calls := j\<rparr>))" "length (enc s') \<le> pf_MaxBytes p"
      using pd st f Some by (auto simp: private_dir_def record_stored_def is_directory_def trusted_def)
    then obtain d' where w: "pf_Write p (enc s') (?d\<lparr>dk_calls := j\<rparr>) = (Inr (), d')" using write_sound [OF s] by blast
    have fl: "dk_file d' = Some (Plain (stored_file p (enc s')))" "private_dir p d'" using write_effect [OF q w] by simp_all
    then have "private_dir p (d'\<lparr>dk_locked := False, dk_calls := Suc (dk_calls d')\<rparr>)" by (simp add: private_dir_def)
    then show ?thesis using Some l(1) ld w(1) after unlock fl(1)
      by (simp add: under_lock_def record_change_def record_Save_def bindS_apply tryS_apply mapErrS_apply)
  qed
qed

locale record_file =
  fixes dec :: "bytes \<Rightarrow> 'e + 's" and enc :: "'s \<Rightarrow> bytes" and none :: 's and good :: "'s \<Rightarrow> bool" and norm :: "'s \<Rightarrow> 's"
  assumes reads_back: "good s \<Longrightarrow> dec (enc s) = Inr (norm s)"
begin

lemma save_stored:
  assumes "sound_calls p" "private_dir p d" "\<not> is_directory (dk_file d)" "good s" "length (enc s) \<le> pf_MaxBytes p"
  shows "\<exists>d'. (record_Save enc p s :: ('e file_error, unit, disk) act) d = (Inr (), d') \<and> dk_locked d' = dk_locked d \<and> private_dir p d' \<and>
    record_stored dec none p d' (norm s)"
proof -
  obtain d' where w: "pf_Write p (enc s) d = (Inr (), d')" "dk_locked d' = dk_locked d" using write_sound [OF assms(1-3,5)] by blast
  have "quiet p" using assms(1) by (simp add: sound_calls_def)
  from write_effect [OF this w(1)] have "dk_file d' = Some (Plain (stored_file p (enc s)))" "private_dir p d'" by simp_all
  then show ?thesis using w stored_trusted(1) [OF assms(5)] stored_trusted(2) reads_back [OF assms(4)] by (auto simp: record_Save_def mapErrS_apply record_stored_def)
qed

lemma change_stored:
  assumes s: "sound_calls p" and h: "private_dir p d" "\<not> dk_locked d" "record_stored dec none p d s"
    and f: "case f s of None \<Rightarrow> True | Some s' \<Rightarrow> good s' \<and> length (enc s') \<le> pf_MaxBytes p"
    and after: "after (Inr ()) (Inr ()) = Inr ()"
  shows "\<exists>d'. under_lock p (record_change dec enc none p f) after d = (Inr (), d') \<and> private_dir p d' \<and> \<not> dk_locked d' \<and>
    record_stored dec none p d' (case f s of None \<Rightarrow> s | Some s' \<Rightarrow> norm s') \<and> (f s = None \<longrightarrow> dk_file d' = dk_file d)"
proof -
  have "case f s of None \<Rightarrow> True | Some s' \<Rightarrow> length (enc s') \<le> pf_MaxBytes p" using f by (auto split: option.splits)
  from change_runs [where enc = enc and f = f and after = after, OF s h this after]
  obtain d' where d': "under_lock p (record_change dec enc none p f) after d = (Inr (), d')" "private_dir p d'" "\<not> dk_locked d'"
    "case f s of None \<Rightarrow> dk_file d' = dk_file d | Some s' \<Rightarrow> dk_file d' = Some (Plain (stored_file p (enc s')))" by blast
  have "record_stored dec none p d' (case f s of None \<Rightarrow> s | Some s' \<Rightarrow> norm s')"
  proof (cases "f s")
    case None
    then show ?thesis using d'(4) h(3) by (simp add: record_stored_def)
  next
    case (Some s')
    then show ?thesis using d'(4) f stored_trusted reads_back by (simp add: record_stored_def)
  qed
  then show ?thesis using d' by (intro exI [of _ d']) (auto split: option.splits)
qed

end

end
