(* ===== verification/KeyRecord.thy ===== *)
theory KeyRecord
  imports ConfigFiles Keyring JsonText
begin

text \<open>
  The stored key material of encrypted notebooks (\<open>internal/keyrecord\<close>): the strict record \<open>notebooks.json\<close>, one passphrase
  or passphrase file per notebook digest (\<open>codec.go\<close>), its locked change (\<open>file.go\<close>), and the resolver that turns the
  environment, its passphrase file and the record into the secrets a keyring tries (\<open>resolve.go\<close>). The disk is one
  \<open>disk\<close> per path of a private file.
\<close>

section \<open>Entries and sets\<close>

definition FileName_keys :: bytes where "FileName_keys = ''notebooks.json''"
definition PassphraseEnv :: bytes where "PassphraseEnv = ''SLIVINGDOC_PASSPHRASE''"
definition PassphraseFileEnv :: bytes where "PassphraseFileEnv = ''SLIVINGDOC_PASSPHRASE_FILE''"
definition fieldPassphraseFile :: bytes where "fieldPassphraseFile = ''passphraseFile''"
definition digestLength :: nat where "digestLength = 64"
definition keys_FormatVersion :: u64 where "keys_FormatVersion = 1"
definition MaxFileSize :: nat where "MaxFileSize = 1048576"

datatype MaterialKind = KindEmpty | KindPassphrase | KindPassphraseFile

record KeyEntry =
  ke_digest :: bytes
  ke_kind :: MaterialKind
  ke_value :: bytes

definition zeroKeyEntry :: KeyEntry where
  "zeroKeyEntry = \<lparr>ke_digest = '''', ke_kind = KindEmpty, ke_value = ''''\<rparr>"

datatype entry_refusal = EntryDigest | EntryEmpty | EntryNoHome

definition canonicalDigest :: "bytes \<Rightarrow> bool" where
  "canonicalDigest s \<longleftrightarrow> length s = digestLength \<and>
     list_all (\<lambda>c. \<not> ((c < CHR ''0'' \<or> c > CHR ''9'') \<and> (c < CHR ''a'' \<or> c > CHR ''f''))) s"

definition newEntry :: "bytes \<Rightarrow> MaterialKind \<Rightarrow> bytes \<Rightarrow> entry_refusal + KeyEntry" where
  "newEntry digest kind v =
     (if \<not> canonicalDigest digest then Inl EntryDigest
      else if v = '''' then Inl EntryEmpty
      else Inr \<lparr>ke_digest = digest, ke_kind = kind, ke_value = v\<rparr>)"

definition Passphrase :: "bytes \<Rightarrow> bytes \<Rightarrow> entry_refusal + KeyEntry" where
  "Passphrase digest secret = newEntry digest KindPassphrase secret"

definition PassphraseFile :: "bytes option \<Rightarrow> bytes \<Rightarrow> bytes \<Rightarrow> entry_refusal + KeyEntry" where
  "PassphraseFile home digest path =
     bindR (ofOption EntryNoHome (ExpandHome home path)) (\<lambda>expanded. newEntry digest KindPassphraseFile expanded)"

type_synonym keyset = "KeyEntry list"

definition keys_Lookup :: "keyset \<Rightarrow> bytes \<Rightarrow> KeyEntry option" where
  "keys_Lookup s digest = find (\<lambda>e. ke_digest e = digest) s"

definition keys_Put :: "keyset \<Rightarrow> KeyEntry \<Rightarrow> keyset" where
  "keys_Put s e =
     (let i = length (takeWhile (\<lambda>x. ke_digest x \<noteq> ke_digest e) s) in if i < length s then s[i := e] else s @ [e])"

definition keys_Remove :: "keyset \<Rightarrow> bytes \<Rightarrow> keyset" where
  "keys_Remove s digest = filter (\<lambda>e. ke_digest e \<noteq> digest) s"

section \<open>The file's text\<close>

text \<open>An entry as \<open>materialJSON\<close> writes it, an empty field left out, and the map of them; \<open>encoding/json\<close> sorts its keys.\<close>

definition material_value :: "bytes \<Rightarrow> bytes \<Rightarrow> jvalue" where
  "material_value name v = JObject (if v = '''' then [] else [(name, JString v)])"

definition materials :: "keyset \<Rightarrow> (bytes \<rightharpoonup> jvalue)" where
  "materials s = foldl (\<lambda>m e. case ke_kind e of
       KindEmpty \<Rightarrow> m
     | KindPassphrase \<Rightarrow> m(ke_digest e \<mapsto> material_value ''passphrase'' (ke_value e))
     | KindPassphraseFile \<Rightarrow> m(ke_digest e \<mapsto> material_value ''passphraseFile'' (ke_value e))) Map.empty s"

definition keys_value :: "keyset \<Rightarrow> jvalue" where
  "keys_value s = JObject
     [(''version'', JNumber keys_FormatVersion),
      (''notebooks'', JObject (map (\<lambda>d. (d, the (materials s d)))
         (filter (\<lambda>d. materials s d \<noteq> None) (sort (remdups (map ke_digest s))))))]"

definition encode_keys :: "json_lib \<Rightarrow> keyset \<Rightarrow> bytes" where
  "encode_keys J s = jl_text J (Encode (keys_value s))"

datatype keys_error =
    KeysJson json_error | KeysNotObject | KeysNoVersion | KeysVersion u64 | KeysNoNotebooks | KeysNotDigest nat
  | KeysEntryNotObject nat | KeysEntryJson nat json_error | KeysBoth nat | KeysNeither nat | KeysNotString nat bytes | KeysEmpty nat bytes

definition decode_material :: "nat \<Rightarrow> jvalue \<Rightarrow> bytes \<Rightarrow> keys_error + KeyEntry" where
  "decode_material i v digest =
     (if Kind v \<noteq> KObject then Inl (KeysEntryNotObject i)
      else bindR (mapErr (KeysEntryJson i) (RejectUnknown v [''passphrase'', ''passphraseFile''])) (\<lambda>_.
        case (Value_Field v ''passphrase'', Value_Field v ''passphraseFile'') of
          (Some _, Some _) \<Rightarrow> Inl (KeysBoth i)
        | (None, None) \<Rightarrow> Inl (KeysNeither i)
        | (Some f, None) \<Rightarrow> (case f of
              JString s \<Rightarrow> if s = '''' then Inl (KeysEmpty i ''passphrase'') else Inr \<lparr>ke_digest = digest, ke_kind = KindPassphrase, ke_value = s\<rparr>
            | _ \<Rightarrow> Inl (KeysNotString i ''passphrase''))
        | (None, Some f) \<Rightarrow> (case f of
              JString s \<Rightarrow> if s = '''' then Inl (KeysEmpty i ''passphraseFile'') else Inr \<lparr>ke_digest = digest, ke_kind = KindPassphraseFile, ke_value = s\<rparr>
            | _ \<Rightarrow> Inl (KeysNotString i ''passphraseFile''))))"

fun decode_notebooks :: "nat \<Rightarrow> (bytes \<times> jvalue) list \<Rightarrow> keys_error + keyset" where
  "decode_notebooks i [] = Inr []"
| "decode_notebooks i ((name, v) # rest) =
     (if \<not> canonicalDigest name then Inl (KeysNotDigest i)
      else bindR (decode_material i v name) (\<lambda>e. bindR (decode_notebooks (Suc i) rest) (\<lambda>es. Inr (e # es))))"

definition decode_keys_value :: "jvalue \<Rightarrow> keys_error + keyset" where
  "decode_keys_value root =
     (if Kind root \<noteq> KObject then Inl KeysNotObject
      else case Value_Field root ''version'' of
        Some (JNumber n) \<Rightarrow>
          if n \<noteq> keys_FormatVersion then Inl (KeysVersion n)
          else bindR (mapErr KeysJson (RejectUnknown root [''version'', ''notebooks''])) (\<lambda>_.
            case Value_Field root ''notebooks'' of
              Some (JObject fs) \<Rightarrow> decode_notebooks 0 fs
            | _ \<Rightarrow> Inl KeysNoNotebooks)
      | _ \<Rightarrow> Inl KeysNoVersion)"

definition decode_keys :: "json_lib \<Rightarrow> bytes \<Rightarrow> keys_error + keyset" where
  "decode_keys J data = bindR (mapErr KeysJson (Parse (jl_tokens J data))) decode_keys_value"

section \<open>The file\<close>

definition keys_Load :: "json_lib \<Rightarrow> PrivateFile \<Rightarrow> (keys_error file_error, keyset, disk) act" where
  "keys_Load J p = record_Load (decode_keys J) [] p"

definition keys_Save :: "json_lib \<Rightarrow> PrivateFile \<Rightarrow> keyset \<Rightarrow> (keys_error file_error, unit, disk) act" where
  "keys_Save J p s = record_Save (encode_keys J) p s"

text \<open>The deferred unlock's own error is dropped.\<close>

definition Update :: "json_lib \<Rightarrow> PrivateFile \<Rightarrow> KeyEntry \<Rightarrow> (keys_error file_error, unit, disk) act" where
  "Update J p e = under_lock p (record_change (decode_keys J) (encode_keys J) [] p (\<lambda>s. Some (keys_Put s e))) (\<lambda>u r. r)"

definition Forget :: "json_lib \<Rightarrow> PrivateFile \<Rightarrow> bytes \<Rightarrow> (keys_error file_error, unit, disk) act" where
  "Forget J p digest = under_lock p (record_change (decode_keys J) (encode_keys J) [] p (\<lambda>s. Some (keys_Remove s digest))) (\<lambda>u r. r)"

section \<open>Resolving candidates\<close>

record resolver =
  rv_getenv :: "bytes \<Rightarrow> bytes"
  rv_goos :: bytes
  rv_home :: "bytes option"
  rv_file :: PrivateFile
  rv_json :: json_lib
  rv_sha :: sha_lib

type_synonym files = "bytes \<Rightarrow> disk"

definition at_path :: "bytes \<Rightarrow> ('e, 'a, disk) act \<Rightarrow> ('e, 'a, files) act" where
  "at_path path m = (\<lambda>fs. case m (fs path) of (r, d) \<Rightarrow> (r, fs(path := d)))"

definition hardened :: "resolver \<Rightarrow> PrivateFile" where
  "hardened R = (rv_file R)\<lparr>pf_Private := ChecksOwners (pf_hasOwners (rv_file R)) (rv_goos R), pf_MaxBytes := MaxFileSize\<rparr>"

datatype envfile_refusal =
    EfNoHome | EfNotPrivate | EfTooLarge | EfUnreadable | EfNoFile | EfNotAssignment nat | EfQuote char | EfEmpty | EfNoPassphrase

text \<open>A refusal names the setting or field the path came from, never the path.\<close>

datatype resolve_error = ErrEnvfile bytes envfile_refusal | ErrKeyFile "keys_error file_error"

definition unquote :: "bytes \<Rightarrow> envfile_refusal + bytes" where
  "unquote v =
     (if v = '''' then Inr ''''
      else let quote = hd v in
        if quote = CHR 0x22 \<or> quote = CHR 0x27 then
          (if length v < 2 \<or> last v \<noteq> quote then Inl (EfQuote quote) else Inr (butlast (tl v)))
        else Inr v)"

definition envfile_line :: "bytes \<Rightarrow> bytes" where
  "envfile_line raw =
     (let line = TrimSpace raw in
      if HasPrefix line ''export'' \<and> (HasPrefix (drop 6 line) '' '' \<or> HasPrefix (drop 6 line) [CHR 0x09]) then TrimSpace (drop 6 line) else line)"

fun envfile_lines :: "bytes option \<Rightarrow> nat \<Rightarrow> bytes list \<Rightarrow> envfile_refusal + bytes" where
  "envfile_lines home i [] = Inl EfNoPassphrase"
| "envfile_lines home i (raw # rest) =
     (if TrimSpace raw = '''' \<or> HasPrefix (TrimSpace raw) ''#'' then envfile_lines home (Suc i) rest
      else case CutAt (CHR ''='') (envfile_line raw) of
        None \<Rightarrow> Inl (EfNotAssignment (i + 1))
      | Some (name, v) \<Rightarrow>
          if TrimSpace name \<noteq> PassphraseEnv then envfile_lines home (Suc i) rest
          else bindR (unquote (TrimSpace v)) (\<lambda>secret.
            if secret = '''' then Inl EfEmpty else ofOption EfNoHome (ExpandHome home secret)))"

definition envfilePassphrase :: "bytes option \<Rightarrow> bytes \<Rightarrow> envfile_refusal + bytes" where
  "envfilePassphrase home data = envfile_lines home 0 (SplitOn (CHR 0x0A) data)"

definition envfileRefusal :: "pf_error \<Rightarrow> envfile_refusal" where
  "envfileRefusal e = (case e of PfNotPrivate \<Rightarrow> EfNotPrivate | PfOversized \<Rightarrow> EfTooLarge | PfFail _ \<Rightarrow> EfUnreadable)"

definition readPassphraseFile :: "resolver \<Rightarrow> bytes \<Rightarrow> bytes \<Rightarrow> (resolve_error, bytes, files) act" where
  "readPassphraseFile R label path =
     (case ExpandHome (rv_home R) path of
        None \<Rightarrow> failS (ErrEnvfile label EfNoHome)
      | Some expanded \<Rightarrow>
          tryS (at_path expanded (pf_Read (hardened R))) (\<lambda>r. case r of
            Inl e \<Rightarrow> failS (ErrEnvfile label (envfileRefusal e))
          | Inr None \<Rightarrow> failS (ErrEnvfile label EfNoFile)
          | Inr (Some data) \<Rightarrow> liftS (mapErr (ErrEnvfile label) (envfilePassphrase (rv_home R) data))))"

definition lookupEntry :: "resolver \<Rightarrow> Identity \<Rightarrow> (resolve_error, KeyEntry, files) act" where
  "lookupEntry R ident =
     (case ConfigDir (rv_getenv R) (rv_goos R) of
        Inl _ \<Rightarrow> retS zeroKeyEntry
      | Inr dir \<Rightarrow>
          bindS (mapErrS ErrKeyFile (at_path (join_path dir FileName_keys) (keys_Load (rv_json R) (hardened R)))) (\<lambda>s.
            retS (case keys_Lookup s (IdentityDigest (rv_sha R) ident) of None \<Rightarrow> zeroKeyEntry | Some e \<Rightarrow> e)))"

definition Resolve :: "resolver \<Rightarrow> Identity \<Rightarrow> (resolve_error, Candidate list, files) act" where
  "Resolve R ident =
     (let secret = rv_getenv R PassphraseEnv; path = rv_getenv R PassphraseFileEnv;
          c1 = (if secret \<noteq> '''' then [\<lparr>cd_Source = SourceEnvironment, cd_Secret = secret\<rparr>] else []) in
      bindS (if path \<noteq> ''''
             then bindS (readPassphraseFile R PassphraseFileEnv path) (\<lambda>secret. retS (c1 @ [\<lparr>cd_Source = SourceEnvironmentFile, cd_Secret = secret\<rparr>]))
             else retS c1) (\<lambda>c2.
      bindS (lookupEntry R ident) (\<lambda>e.
        case ke_kind e of
          KindPassphrase \<Rightarrow> retS (c2 @ [\<lparr>cd_Source = SourceKeyRecord, cd_Secret = ke_value e\<rparr>])
        | KindPassphraseFile \<Rightarrow>
            bindS (readPassphraseFile R fieldPassphraseFile (ke_value e)) (\<lambda>secret. retS (c2 @ [\<lparr>cd_Source = SourceKeyRecord, cd_Secret = secret\<rparr>]))
        | KindEmpty \<Rightarrow> retS c2)))"

section \<open>What the file says of a set\<close>

definition wf_entry :: "KeyEntry \<Rightarrow> bool" where
  "wf_entry e \<longleftrightarrow> canonicalDigest (ke_digest e) \<and> ke_kind e \<noteq> KindEmpty \<and> ke_value e \<noteq> ''''"

definition wf_keys :: "keyset \<Rightarrow> bool" where
  "wf_keys s \<longleftrightarrow> distinct (map ke_digest s) \<and> list_all wf_entry s"

text \<open>A set the encoder writes without loss: its secrets and paths are UTF-8.\<close>

definition good_keys :: "keyset \<Rightarrow> bool" where
  "good_keys s \<longleftrightarrow> wf_keys s \<and> list_all (\<lambda>e. utf8_Valid (ke_value e)) s"

definition sorted_keys :: "keyset \<Rightarrow> keyset" where
  "sorted_keys s = sort_key ke_digest s"

definition entry_value :: "KeyEntry \<Rightarrow> jvalue" where
  "entry_value e = JObject [(if ke_kind e = KindPassphrase then ''passphrase'' else ''passphraseFile'', JString (ke_value e))]"

lemma materials_wf:
  assumes "wf_keys s"
  shows "materials s = map_of (map (\<lambda>e. (ke_digest e, entry_value e)) s)"
proof -
  have step: "(case ke_kind e of KindEmpty \<Rightarrow> m
     | KindPassphrase \<Rightarrow> m(ke_digest e \<mapsto> material_value ''passphrase'' (ke_value e))
     | KindPassphraseFile \<Rightarrow> m(ke_digest e \<mapsto> material_value ''passphraseFile'' (ke_value e))) = m(ke_digest e \<mapsto> entry_value e)"
    if "e \<in> set s" for e m
  proof -
    have "ke_kind e \<noteq> KindEmpty" "ke_value e \<noteq> ''''" using assms that by (auto simp: wf_keys_def wf_entry_def list_all_iff)
    then show ?thesis by (cases "ke_kind e") (simp_all add: material_value_def entry_value_def)
  qed
  have "materials s = foldl (\<lambda>m e. m(ke_digest e \<mapsto> entry_value e)) Map.empty s"
    unfolding materials_def by (rule foldl_cong) (simp_all only: step)
  also have "\<dots> = map_of (rev (map (\<lambda>e. (ke_digest e, entry_value e)) s))" by (simp add: foldl_upd)
  also have "\<dots> = map_of (map (\<lambda>e. (ke_digest e, entry_value e)) s)"
    by (rule map_of_rev) (use assms in \<open>simp add: wf_keys_def comp_def\<close>)
  finally show ?thesis .
qed

lemma sorted_keys_set [simp]: "set (sorted_keys s) = set s" "mset (sorted_keys s) = mset s"
  by (simp_all add: sorted_keys_def)

lemma sorted_keys_wf: "wf_keys s \<Longrightarrow> wf_keys (sorted_keys s)" "good_keys s \<Longrightarrow> good_keys (sorted_keys s)"
proof -
  have "distinct (map ke_digest s) \<Longrightarrow> distinct (map ke_digest (sorted_keys s))"
    by (metis sorted_keys_set(2) mset_map mset_eq_imp_distinct_iff)
  then show "wf_keys s \<Longrightarrow> wf_keys (sorted_keys s)" "good_keys s \<Longrightarrow> good_keys (sorted_keys s)"
    by (auto simp: good_keys_def wf_keys_def list_all_iff)
qed

lemma keys_value_wf:
  assumes "wf_keys s"
  shows "keys_value s = JObject [(''version'', JNumber keys_FormatVersion),
    (''notebooks'', JObject (map (\<lambda>e. (ke_digest e, entry_value e)) (sorted_keys s)))]"
proof -
  have d: "distinct (map ke_digest s)" using assms by (simp add: wf_keys_def)
  have "sort (map ke_digest s) = map ke_digest (sorted_keys s)"
    by (rule properties_for_sort) (simp_all add: sorted_keys_def)
  then have k: "filter (\<lambda>d. materials s d \<noteq> None) (sort (remdups (map ke_digest s))) = map ke_digest (sorted_keys s)"
    using d by (simp add: distinct_remdups_id materials_wf [OF assms] map_of_eq_None_iff filter_id_conv image_image)
  have "the (materials s (ke_digest e)) = entry_value e" if "e \<in> set s" for e
  proof -
    have "map_of (map (\<lambda>e. (ke_digest e, entry_value e)) s) (ke_digest e) = Some (entry_value e)"
      by (rule map_of_is_SomeI) (use that d in \<open>auto simp: comp_def\<close>)
    then show ?thesis by (simp add: materials_wf [OF assms])
  qed
  then show ?thesis unfolding keys_value_def k by (simp add: comp_def)
qed

lemma decode_entry: "wf_entry e \<Longrightarrow> decode_material i (entry_value e) (ke_digest e) = Inr e"
  by (cases "ke_kind e") (simp_all add: wf_entry_def decode_material_def entry_value_def RejectUnknown_def Value_Field_def)

lemma decode_entries: "list_all wf_entry s \<Longrightarrow> decode_notebooks i (map (\<lambda>e. (ke_digest e, entry_value e)) s) = Inr s"
  by (induction s arbitrary: i) (simp_all add: decode_entry, simp add: wf_entry_def)

lemma digest_ascii: "canonicalDigest s \<Longrightarrow> ascii s"
  by (auto simp: canonicalDigest_def ascii_def list_all_iff not_less less_eq_char_def)

lemma keys_back:
  assumes "json_text J" "good_keys s"
  shows "decode_keys J (encode_keys J s) = Inr (sorted_keys s)"
proof -
  have wf: "wf_keys s" and wfs: "wf_keys (sorted_keys s)" using assms(2) sorted_keys_wf by (auto simp: good_keys_def)
  note v = keys_value_wf [OF wf]
  have "valid_texts (keys_value s)"
    using assms(2) unfolding v
    by (auto simp: good_keys_def wf_keys_def wf_entry_def list_all_iff entry_value_def utf8_Valid_ascii digest_ascii)
  then have "jl_tokens J (encode_keys J s) = Encode (keys_value s)" by (simp add: encode_keys_def json_text.read_back [OF assms(1)])
  moreover have "unique_names (keys_value s)" using wfs unfolding v by (auto simp: wf_keys_def comp_def entry_value_def)
  moreover have "decode_keys_value (keys_value s) = Inr (sorted_keys s)"
    using wfs unfolding v by (simp add: decode_keys_value_def Value_Field_def RejectUnknown_def wf_keys_def decode_entries)
  ultimately show ?thesis by (simp add: decode_keys_def Parse_Encode)
qed

lemma key_file: "json_text J \<Longrightarrow> record_file (decode_keys J) (encode_keys J) good_keys sorted_keys"
  by unfold_locales (rule keys_back)

interpretation numbered_keys: record_file "decode_keys numbering_json" "encode_keys numbering_json" "[]" good_keys sorted_keys
  by (rule key_file [OF numbering.json_text_axioms])

section \<open>Sets\<close>

lemma find_filter: "find P (filter Q xs) = find (\<lambda>x. Q x \<and> P x) xs"
  by (induction xs) auto

lemma put_split:
  assumes "e \<in> set s" "ke_digest e = ke_digest e'"
  obtains a x b where "s = a @ x # b" "ke_digest x = ke_digest e'" "\<forall>y \<in> set a. ke_digest y \<noteq> ke_digest e'" "keys_Put s e' = a @ e' # b"
proof -
  let ?P = "\<lambda>x. ke_digest x \<noteq> ke_digest e'"
  obtain a x b where s: "s = a @ x # b" "\<forall>y \<in> set a. ?P y" "\<not> ?P x"
    using split_list_first_prop [of s "\<lambda>x. \<not> ?P x"] assms by auto
  then have "takeWhile ?P s = a" by (simp add: takeWhile_append2)
  then have "keys_Put s e' = a @ e' # b" using s(1) by (simp add: keys_Put_def)
  then show ?thesis using that [of a x b] s by blast
qed

lemma put_new: "\<forall>x \<in> set s. ke_digest x \<noteq> ke_digest e \<Longrightarrow> keys_Put s e = s @ [e]"
  by (simp add: keys_Put_def takeWhile_eq_all_conv [THEN iffD2])

lemma find_append: "find P (xs @ ys) = (case find P xs of None \<Rightarrow> find P ys | Some x \<Rightarrow> Some x)"
  by (induction xs) simp_all

lemma keys_Put_Lookup: "keys_Lookup (keys_Put s e) d = (if d = ke_digest e then Some e else keys_Lookup s d)"
proof (cases "\<exists>x \<in> set s. ke_digest x = ke_digest e")
  case True
  then obtain y where "y \<in> set s" "ke_digest y = ke_digest e" by blast
  then obtain a x b where s: "s = a @ x # b" "ke_digest x = ke_digest e" "\<forall>y \<in> set a. ke_digest y \<noteq> ke_digest e" "keys_Put s e = a @ e # b"
    using put_split by blast
  have "find (\<lambda>y. ke_digest y = ke_digest e) a = None" using s(3) by (auto simp: find_None_iff)
  then show ?thesis unfolding keys_Lookup_def s(4) using s(1,2) by (auto simp: find_append split: option.splits)
next
  case False
  then have "find (\<lambda>x. ke_digest x = ke_digest e) s = None" by (auto simp: find_None_iff)
  moreover have "keys_Put s e = s @ [e]" using False by (simp add: put_new)
  ultimately show ?thesis by (cases "find (\<lambda>x. ke_digest x = d) s") (auto simp: keys_Lookup_def find_append)
qed

lemma keys_Remove_Lookup: "keys_Lookup (keys_Remove s d) d' = (if d' = d then None else keys_Lookup s d')"
  unfolding keys_Lookup_def keys_Remove_def find_filter
  by (auto simp: find_None_iff intro!: arg_cong [where f = "\<lambda>P. find P s"])

lemma keys_Put_wf:
  assumes "wf_keys s" "wf_entry e"
  shows "wf_keys (keys_Put s e)"
proof (cases "\<exists>x \<in> set s. ke_digest x = ke_digest e")
  case True
  then obtain y where "y \<in> set s" "ke_digest y = ke_digest e" by blast
  then obtain a x b where s: "s = a @ x # b" "ke_digest x = ke_digest e" "keys_Put s e = a @ e # b" using put_split by blast
  then show ?thesis using assms by (simp add: wf_keys_def)
next
  case False
  then show ?thesis using assms by (auto simp: put_new wf_keys_def)
qed

lemma keys_Put_good: "good_keys s \<Longrightarrow> wf_entry e \<Longrightarrow> utf8_Valid (ke_value e) \<Longrightarrow> good_keys (keys_Put s e)"
proof -
  assume a: "good_keys s" "wf_entry e" "utf8_Valid (ke_value e)"
  have "set (keys_Put s e) \<subseteq> insert e (set s)" by (auto simp: keys_Put_def Let_def dest: set_update_subset_insert [THEN subsetD])
  then show "good_keys (keys_Put s e)" using a keys_Put_wf by (auto simp: good_keys_def list_all_iff)
qed

lemma keys_Remove_good: "good_keys s \<Longrightarrow> good_keys (keys_Remove s d)"
  by (auto simp: good_keys_def wf_keys_def keys_Remove_def list_all_iff distinct_map_filter)

lemma Lookup_iff: "wf_keys s \<Longrightarrow> keys_Lookup s d = Some e \<longleftrightarrow> e \<in> set s \<and> ke_digest e = d"
proof (induction s)
  case (Cons x s)
  then show ?case by (force simp: keys_Lookup_def wf_keys_def)
qed (simp add: keys_Lookup_def)

lemma Lookup_sorted:
  assumes "wf_keys s"
  shows "keys_Lookup (sorted_keys s) d = keys_Lookup s d"
proof -
  have "keys_Lookup (sorted_keys s) d = Some e \<longleftrightarrow> keys_Lookup s d = Some e" for e
    using Lookup_iff [OF assms] Lookup_iff [OF sorted_keys_wf(1) [OF assms]] by simp
  then show ?thesis by (metis option.exhaust)
qed

lemma newEntry_wf: "newEntry digest kind v = Inr e \<Longrightarrow> kind \<noteq> KindEmpty \<Longrightarrow> wf_entry e \<and> ke_digest e = digest \<and> ke_value e = v \<and> ke_kind e = kind"
  by (auto simp: newEntry_def wf_entry_def split: if_splits)

section \<open>What is read is well formed\<close>

lemma decode_material_wf: "decode_material i v g = Inr e \<Longrightarrow> canonicalDigest g \<Longrightarrow> wf_entry e \<and> ke_digest e = g"
  by (auto simp: decode_material_def wf_entry_def bindR_eq_Inr split: if_splits option.splits jvalue.splits)

lemma decode_notebooks_wf: "decode_notebooks i fs = Inr s \<Longrightarrow> list_all wf_entry s \<and> map ke_digest s = map fst fs"
proof (induction fs arbitrary: i s)
  case (Cons f fs)
  obtain name v where f: "f = (name, v)" by fastforce
  then show ?case using Cons.IH Cons.prems decode_material_wf by (fastforce simp: bindR_eq_Inr split: if_splits)
qed simp

lemma decode_keys_wf:
  assumes "decode_keys J data = Inr s"
  shows "wf_keys s"
proof -
  obtain root where r: "Parse (jl_tokens J data) = Inr root" "decode_keys_value root = Inr s" using assms by (auto simp: decode_keys_def bindR_eq_Inr)
  then obtain fs where fs: "Value_Field root ''notebooks'' = Some (JObject fs)" "decode_notebooks 0 fs = Inr s"
    by (auto simp: decode_keys_value_def bindR_eq_Inr split: if_splits option.splits jvalue.splits)
  have "unique_names root" by (rule Parse_unique [OF r(1)])
  then have "distinct (map fst fs)" using fs(1) by (auto simp: Value_Field_def split: jvalue.splits dest!: map_of_SomeD)
  then show ?thesis using decode_notebooks_wf [OF fs(2)] by (simp add: wf_keys_def)
qed

lemma stored_keys_wf: "record_stored (decode_keys J) [] p d s \<Longrightarrow> wf_keys s"
  by (auto simp: record_stored_def wf_keys_def dest: decode_keys_wf [unfolded wf_keys_def])

section \<open>Changing the record\<close>

lemma keys_change:
  assumes "json_text J" "sound_calls p" "private_dir p d" "\<not> dk_locked d" "record_stored (decode_keys J) [] p d s"
    and "good_keys (f s)" "length (encode_keys J (f s)) \<le> pf_MaxBytes p"
  shows "\<exists>d' d''. under_lock p (record_change (decode_keys J) (encode_keys J) [] p (\<lambda>s. Some (f s))) (\<lambda>u r. r) d = (Inr (), d') \<and>
    keys_Load J p d' = (Inr (sorted_keys (f s)), d'')"
proof -
  note rf = key_file [OF assms(1)]
  obtain d' where d': "under_lock p (record_change (decode_keys J) (encode_keys J) [] p (\<lambda>s. Some (f s))) (\<lambda>u r. r) d = (Inr (), d')"
    "private_dir p d'" "record_stored (decode_keys J) [] p d' (sorted_keys (f s))"
    using record_file.change_stored [OF rf assms(2-5), of "\<lambda>s. Some (f s)" "\<lambda>u r. r"] assms(6,7) by auto
  obtain k where "record_Load (decode_keys J) [] p d' = (Inr (sorted_keys (f s)), d'\<lparr>dk_calls := k\<rparr>)"
    using load_stored [OF assms(2) d'(2,3)] by blast
  then show ?thesis using d'(1) by (auto simp: keys_Load_def)
qed

text \<open>C14: Storing an entry under the lock changes the key material of its own notebook and of no other: on a private directory whose
  record is readable, when every system call works, the change succeeds and the record then loads with the new entry under
  its digest and every other digest as it was; forgetting a digest removes that entry alone.\<close>

theorem keys_change_exact:
  assumes "json_text J" "sound_calls p" "private_dir p d" "\<not> dk_locked d" "keys_Load J p d = (Inr s, d1)"
    and "\<forall>x \<in> set s. utf8_Valid (ke_value x)" "newEntry digest kind v = Inr e" "kind \<noteq> KindEmpty" "utf8_Valid v"
    and "length (encode_keys J (keys_Put s e)) \<le> pf_MaxBytes p" "length (encode_keys J (keys_Remove s digest)) \<le> pf_MaxBytes p"
  shows "(\<exists>d' s' d''. Update J p e d = (Inr (), d') \<and> keys_Load J p d' = (Inr s', d'') \<and>
      (\<forall>g. keys_Lookup s' g = (if g = digest then Some e else keys_Lookup s g))) \<and>
    (\<exists>d' s' d''. Forget J p digest d = (Inr (), d') \<and> keys_Load J p d' = (Inr s', d'') \<and>
      (\<forall>g. keys_Lookup s' g = (if g = digest then None else keys_Lookup s g)))"
proof -
  have st: "record_stored (decode_keys J) [] p d s"
    using loaded_stored [of p] assms(2,5) by (simp add: keys_Load_def sound_calls_def)
  have good: "good_keys s" using stored_keys_wf [OF st] assms(6) by (simp add: good_keys_def list_all_iff)
  have e: "wf_entry e" "ke_digest e = digest" "utf8_Valid (ke_value e)" using newEntry_wf [OF assms(7,8)] assms(9) by auto
  have put: "good_keys (keys_Put s e)" by (rule keys_Put_good [OF good e(1,3)])
  have rem: "good_keys (keys_Remove s digest)" by (rule keys_Remove_good [OF good])
  have wf: "wf_keys (keys_Put s e)" "wf_keys (keys_Remove s digest)" using put rem by (simp_all add: good_keys_def)
  note lookups = Lookup_sorted [OF wf(1)] Lookup_sorted [OF wf(2)] keys_Put_Lookup keys_Remove_Lookup e(2)
  obtain a a' where a: "Update J p e d = (Inr (), a)" "keys_Load J p a = (Inr (sorted_keys (keys_Put s e)), a')"
    using keys_change [OF assms(1-4) st, of "\<lambda>s. keys_Put s e", OF put assms(10)] unfolding Update_def by blast
  obtain b b' where b: "Forget J p digest d = (Inr (), b)" "keys_Load J p b = (Inr (sorted_keys (keys_Remove s digest)), b')"
    using keys_change [OF assms(1-4) st, of "\<lambda>s. keys_Remove s digest", OF rem assms(11)] unfolding Forget_def by blast
  have "\<forall>g. keys_Lookup (sorted_keys (keys_Put s e)) g = (if g = digest then Some e else keys_Lookup s g)"
    "\<forall>g. keys_Lookup (sorted_keys (keys_Remove s digest)) g = (if g = digest then None else keys_Lookup s g)"
    by (simp_all add: lookups)
  then show ?thesis using a b by blast
qed

text \<open>C15: A change of the key record that reports a failure has not touched the stored file, whichever system call failed; and a file
  this build cannot read, of another version or edited by hand, is never rewritten.\<close>

theorem keys_never_rewritten:
  assumes "quiet p" "m = Update J p e \<or> m = Forget J p digest" "m d = (r, d')"
    and "r \<noteq> Inr () \<or> (\<exists>n err. dk_file d = Some (Plain n) \<and> decode_keys J (in_data n) = Inl err)"
  shows "dk_file d' = dk_file d"
proof -
  obtain f where m: "under_lock p (record_change (decode_keys J) (encode_keys J) [] p (\<lambda>s. Some (f s))) (\<lambda>u r. r) d = (r, d')"
    using assms(2,3) that [of "\<lambda>s. keys_Put s e"] that [of "\<lambda>s. keys_Remove s digest"] unfolding Update_def Forget_def by blast
  have "r \<noteq> Inr ()"
  proof
    assume r: "r = Inr ()"
    then obtain n err where n: "dk_file d = Some (Plain n)" "decode_keys J (in_data n) = Inl err" using assms(4) by blast
    obtain d1 where l: "File_Lock p d = (Inr (), d1)" "\<exists>u r. tryS (record_change (decode_keys J) (encode_keys J) [] p (\<lambda>s. Some (f s))) (\<lambda>r. tryS (Unlock p) (\<lambda>u. liftS r)) d1 = (Inr (), d')"
      using m r by (auto simp: under_lock_def bindS_Inr mapErrS_Inr)
    then have "dk_file d1 = Some (Plain n)" using lock_leaves_file [OF assms(1)] n(1) by simp
    moreover have "\<exists>s d2. record_Load (decode_keys J) [] p d1 = (Inr s, d2)"
      using l(2) by (auto simp: tryS_apply record_change_def bindS_apply split: prod.splits sum.splits)
    ultimately show False using loaded_stored [OF assms(1)] n(2) by (fastforce simp: record_stored_def)
  qed
  then obtain err where r: "r = Inl err" by (cases r) auto
  show ?thesis by (rule change_failed [OF assms(1) m [unfolded r]])
qed

definition small_entry :: KeyEntry where
  "small_entry = \<lparr>ke_digest = replicate 64 (CHR ''a''), ke_kind = KindPassphrase, ke_value = ''correct horse''\<rparr>"

definition roomy_file :: "nat \<Rightarrow> PrivateFile" where
  "roomy_file n = small_file\<lparr>pf_MaxBytes := n\<rparr>"

lemma roomy_sound: "sound_calls (roomy_file n)" "private_dir (roomy_file n) empty_disk"
  by (simp_all add: roomy_file_def small_file_def sound_calls_def quiet_def private_dir_def empty_disk_def)

lemma small_entry_new: "newEntry (replicate 64 (CHR ''a'')) KindPassphrase ''correct horse'' = Inr small_entry"
  by (simp add: newEntry_def canonicalDigest_def digestLength_def small_entry_def list_all_iff)

lemma keys_change_exact_witness:
  "\<exists>n d' s' d''. Update numbering_json (roomy_file n) small_entry empty_disk = (Inr (), d') \<and>
     keys_Load numbering_json (roomy_file n) d' = (Inr s', d'') \<and> keys_Lookup s' (replicate 64 (CHR ''a'')) = Some small_entry"
proof -
  let ?n = "length (encode_keys numbering_json (keys_Put [] small_entry)) + length (encode_keys numbering_json (keys_Remove [] (replicate 64 (CHR ''a''))))"
  have st: "record_stored (decode_keys numbering_json) [] (roomy_file ?n) empty_disk []" by (simp add: record_stored_def empty_disk_def)
  obtain d1 where "keys_Load numbering_json (roomy_file ?n) empty_disk = (Inr [], d1)"
    using load_stored [OF roomy_sound st] unfolding keys_Load_def by blast
  moreover have "\<not> dk_locked empty_disk" "utf8_Valid ''correct horse''" by (simp_all add: empty_disk_def utf8_Valid_ascii)
  ultimately show ?thesis
    using keys_change_exact [OF numbering.json_text_axioms roomy_sound, of ?n "[]" d1 "replicate 64 (CHR ''a'')" KindPassphrase "''correct horse''" small_entry]
      small_entry_new by (fastforce simp: roomy_file_def)
qed

text \<open>A file of another version stays.\<close>

definition newer_disk :: disk where
  "newer_disk = empty_disk\<lparr>dk_file := Some (Plain (stored_file small_file (jl_text numbering_json (Encode (JObject [(''version'', JNumber 2)])))))\<rparr>"

lemma newer_refused: "decode_keys numbering_json (jl_text numbering_json (Encode (JObject [(''version'', JNumber 2)]))) = Inl (KeysVersion 2)"
proof -
  have "jl_tokens numbering_json (jl_text numbering_json (Encode (JObject [(''version'', JNumber 2)]))) = Encode (JObject [(''version'', JNumber 2)])"
    by (rule numbering.read_back) (simp add: utf8_Valid_ascii)
  moreover have "Parse (Encode (JObject [(''version'', JNumber 2)])) = Inr (JObject [(''version'', JNumber 2)])" by (rule Parse_Encode) simp
  ultimately show ?thesis by (simp add: decode_keys_def decode_keys_value_def Value_Field_def keys_FormatVersion_def)
qed

lemma keys_never_rewritten_witness:
  "dk_file (snd (Update numbering_json small_file small_entry newer_disk)) = dk_file newer_disk"
proof -
  obtain r d' where run: "Update numbering_json small_file small_entry newer_disk = (r, d')" by fastforce
  have "\<exists>n err. dk_file newer_disk = Some (Plain n) \<and> decode_keys numbering_json (in_data n) = Inl err"
    using newer_refused by (auto simp: newer_disk_def stored_file_def)
  then have "dk_file d' = dk_file newer_disk"
    using keys_never_rewritten [of small_file "Update numbering_json small_file small_entry" numbering_json small_entry "[]" newer_disk r d', OF small_sound(2) _ run] by blast
  then show ?thesis by (simp add: run)
qed

section \<open>The candidates\<close>

definition untouched :: "files \<Rightarrow> files \<Rightarrow> bool" where
  "untouched fs fs' \<longleftrightarrow> (\<forall>path. same_disk (fs path) (fs' path))"

lemma untouched_simps [simp]: "untouched fs fs"
  by (simp add: untouched_def)

lemma untouched_trans: "untouched a b \<Longrightarrow> untouched b c \<Longrightarrow> untouched a c"
  unfolding untouched_def by (meson same_disk_trans)

lemma at_path_reads: "leaves m \<Longrightarrow> at_path path m fs = (r, fs') \<Longrightarrow> untouched fs fs'"
  by (auto simp: at_path_def untouched_def dest: leavesD split: prod.splits)

lemma passphrase_file_reads:
  assumes "quiet (rv_file R)" "readPassphraseFile R label path fs = (r, fs')"
  shows "untouched fs fs'"
proof -
  have "quiet (hardened R)" using assms(1) by (simp add: hardened_def quiet_def)
  then have l: "leaves (pf_Read (hardened R))" by (rule read_leaves)
  show ?thesis
  proof (cases "ExpandHome (rv_home R) path")
    case None
    then show ?thesis using assms(2) by (simp add: readPassphraseFile_def)
  next
    case (Some e)
    obtain r1 fs1 where a: "at_path e (pf_Read (hardened R)) fs = (r1, fs1)" by fastforce
    then have "untouched fs fs1" by (rule at_path_reads [OF l])
    then show ?thesis using assms(2) Some a by (auto simp: readPassphraseFile_def tryS_apply split: sum.splits option.splits)
  qed
qed

lemma lookup_reads:
  assumes "quiet (rv_file R)" "lookupEntry R ident fs = (r, fs')"
  shows "untouched fs fs'"
proof -
  have "quiet (hardened R)" using assms(1) by (simp add: hardened_def quiet_def)
  then have l: "leaves (pf_Read (hardened R))" by (rule read_leaves)
  have load: "leaves (keys_Load (rv_json R) (hardened R))"
    unfolding keys_Load_def record_Load_def mapErrS_def
    by (intro leaves_bind leaves_try l) (auto intro: leaves_ret split: option.splits)
  show ?thesis
  proof (cases "ConfigDir (rv_getenv R) (rv_goos R)")
    case (Inl e)
    then show ?thesis using assms(2) by (simp add: lookupEntry_def)
  next
    case (Inr dir)
    obtain r1 fs1 where a: "at_path (join_path dir FileName_keys) (keys_Load (rv_json R) (hardened R)) fs = (r1, fs1)" by fastforce
    then have "untouched fs fs1" by (rule at_path_reads [OF load])
    then show ?thesis using assms(2) Inr a by (auto simp: lookupEntry_def bindS_apply mapErrS_apply split: sum.splits)
  qed
qed

definition candidate_order :: "CandidateSource list" where
  "candidate_order = [SourceEnvironment, SourceEnvironmentFile, SourceKeyRecord]"

text \<open>The resolver only reads, and what it returns a keyring accepts: at most one secret per source, the environment's before its
  file's before the record's, so that with valid secrets the list, also with a prompted secret in front, is a valid candidate
  list of the keyring.\<close>

theorem resolved_candidates:
  assumes "quiet (rv_file R)" "Resolve R ident fs = (Inr cs, fs')"
  shows "untouched fs fs' \<and> subseq (map cd_Source cs) candidate_order \<and>
    (\<forall>secret. validateSecret secret = Inr () \<and> (\<forall>c \<in> set cs. validateSecret (cd_Secret c) = Inr ()) \<longrightarrow>
      validateCandidates (\<lparr>cd_Source = SourcePrompt, cd_Secret = secret\<rparr> # cs) = Inr ())"
proof -
  let ?secret = "rv_getenv R PassphraseEnv" and ?path = "rv_getenv R PassphraseFileEnv"
  let ?c1 = "if ?secret \<noteq> '''' then [\<lparr>cd_Source = SourceEnvironment, cd_Secret = ?secret\<rparr>] else []"
  obtain c2 fs1 where two: "(if ?path \<noteq> ''''
             then bindS (readPassphraseFile R PassphraseFileEnv ?path) (\<lambda>secret. retS (?c1 @ [\<lparr>cd_Source = SourceEnvironmentFile, cd_Secret = secret\<rparr>]))
             else retS ?c1) fs = (Inr c2, fs1)"
    and rest: "bindS (lookupEntry R ident) (\<lambda>e.
        case ke_kind e of
          KindPassphrase \<Rightarrow> retS (c2 @ [\<lparr>cd_Source = SourceKeyRecord, cd_Secret = ke_value e\<rparr>])
        | KindPassphraseFile \<Rightarrow>
            bindS (readPassphraseFile R fieldPassphraseFile (ke_value e)) (\<lambda>secret. retS (c2 @ [\<lparr>cd_Source = SourceKeyRecord, cd_Secret = secret\<rparr>]))
        | KindEmpty \<Rightarrow> retS c2) fs1 = (Inr cs, fs')"
    using assms(2) unfolding Resolve_def Let_def by (elim bindS_Inr [THEN iffD1, elim_format]) blast
  have u1: "untouched fs fs1"
    using two passphrase_file_reads [OF assms(1)] by (auto simp: bindS_Inr split: if_splits)
  obtain e fs2 where e: "lookupEntry R ident fs1 = (Inr e, fs2)" using rest by (auto simp: bindS_Inr)
  have u2: "untouched fs1 fs2" by (rule lookup_reads [OF assms(1) e])
  have u3: "untouched fs2 fs'"
    using rest e passphrase_file_reads [OF assms(1)] by (auto simp: bindS_apply split: MaterialKind.splits prod.splits sum.splits)
  have c2: "map cd_Source c2 \<in> {[], [SourceEnvironment], [SourceEnvironmentFile], [SourceEnvironment, SourceEnvironmentFile]}"
    using two by (auto simp: bindS_Inr split: if_splits)
  have "\<exists>tail. map cd_Source cs = map cd_Source c2 @ tail \<and> (tail = [] \<or> tail = [SourceKeyRecord])"
    using rest e by (auto simp: bindS_apply split: MaterialKind.splits prod.splits sum.splits)
  then have m: "map cd_Source cs \<in> {[], [SourceEnvironment], [SourceEnvironmentFile], [SourceEnvironment, SourceEnvironmentFile],
      [SourceKeyRecord], [SourceEnvironment, SourceKeyRecord], [SourceEnvironmentFile, SourceKeyRecord], candidate_order}"
    using c2 by (auto simp: candidate_order_def)
  then have "subseq (map cd_Source cs) candidate_order" by (auto simp: candidate_order_def)
  moreover have "validateCandidates (\<lparr>cd_Source = SourcePrompt, cd_Secret = secret\<rparr> # cs) = Inr ()"
    if "validateSecret secret = Inr ()" "\<forall>c \<in> set cs. validateSecret (cd_Secret c) = Inr ()" for secret
    using m that by (auto simp: candidate_order_def map_eq_Cons_conv validateCandidates_def validate_candidate_def maxCandidateSources_def
      SourcePrompt_def SourceEnvironment_def SourceEnvironmentFile_def SourceKeyRecord_def)
  ultimately show ?thesis using u1 u2 u3 untouched_trans by blast
qed

definition small_resolver :: resolver where
  "small_resolver = \<lparr>rv_getenv = (\<lambda>name. if name = PassphraseEnv then ''secret'' else ''''), rv_goos = ''linux'', rv_home = None,
     rv_file = small_file, rv_json = numbering_json, rv_sha = (\<lambda>_. [])\<rparr>"

lemma small_resolved: "Resolve small_resolver ident fs = (Inr [\<lparr>cd_Source = SourceEnvironment, cd_Secret = ''secret''\<rparr>], fs)"
proof -
  have "ConfigDir (rv_getenv small_resolver) (rv_goos small_resolver) = Inl NoHome"
    by (simp add: small_resolver_def ConfigDir_def userConfigDir_def DirEnv_def PassphraseEnv_def)
  then have "lookupEntry small_resolver ident fs = (Inr zeroKeyEntry, fs)" by (simp add: lookupEntry_def)
  then show ?thesis
    by (simp add: Resolve_def bindS_apply zeroKeyEntry_def Let_def) (simp add: small_resolver_def PassphraseEnv_def PassphraseFileEnv_def)
qed

lemma resolved_candidates_witness:
  "validateCandidates [\<lparr>cd_Source = SourcePrompt, cd_Secret = ''typed''\<rparr>, \<lparr>cd_Source = SourceEnvironment, cd_Secret = ''secret''\<rparr>] = Inr ()"
proof -
  have "quiet (rv_file small_resolver)" by (simp add: small_resolver_def small_sound)
  moreover have "validateSecret ''typed'' = Inr ()" "validateSecret ''secret'' = Inr ()"
    by (simp_all add: validateSecret_def maxSecretBytes_def utf8_Valid_ascii)
  ultimately show ?thesis using resolved_candidates [OF _ small_resolved] by (metis (no_types, lifting) Candidate.select_convs(2) empty_iff list.set(1) set_ConsD)
qed

end
