(* ===== verification/Wordlist.thy ===== *)
theory Wordlist
  imports Prelude
begin

text \<open>
  The word list of recovery codes (\<open>internal/recovery/wordlist.go\<close>): 2048 words in strictly ascending byte order, so the
  position of a word is its eleven bits and a binary search finds it. The array is written in sixteen parts.
\<close>

definition words_0 :: "bytes list" where
  "words_0 = [
    ''abandon'', ''ability'', ''able'', ''about'', ''above'', ''absent'', ''absorb'', ''abstract'', ''absurd'',
    ''abuse'', ''access'', ''accident'', ''account'', ''accuse'', ''achieve'', ''acid'', ''acoustic'', ''acquire'',
    ''across'', ''act'', ''action'', ''actor'', ''actress'', ''actual'', ''adapt'', ''add'', ''addict'', ''address'',
    ''adjust'', ''admit'', ''adult'', ''advance'', ''advice'', ''aerobic'', ''affair'', ''afford'', ''afraid'',
    ''again'', ''age'', ''agent'', ''agree'', ''ahead'', ''aim'', ''air'', ''airport'', ''aisle'', ''alarm'',
    ''album'', ''alcohol'', ''alert'', ''alien'', ''all'', ''alley'', ''allow'', ''almost'', ''alone'', ''alpha'',
    ''already'', ''also'', ''alter'', ''always'', ''amateur'', ''amazing'', ''among'', ''amount'', ''amused'',
    ''analyst'', ''anchor'', ''ancient'', ''anger'', ''angle'', ''angry'', ''animal'', ''ankle'', ''announce'',
    ''annual'', ''another'', ''answer'', ''antenna'', ''antique'', ''anxiety'', ''any'', ''apart'', ''apology'',
    ''appear'', ''apple'', ''approve'', ''april'', ''arch'', ''arctic'', ''area'', ''arena'', ''argue'', ''arm'',
    ''armed'', ''armor'', ''army'', ''around'', ''arrange'', ''arrest'', ''arrive'', ''arrow'', ''art'',
    ''artefact'', ''artist'', ''artwork'', ''ask'', ''aspect'', ''assault'', ''asset'', ''assist'', ''assume'',
    ''asthma'', ''athlete'', ''atom'', ''attack'', ''attend'', ''attitude'', ''attract'', ''auction'', ''audit'',
    ''august'', ''aunt'', ''author'', ''auto'', ''autumn'', ''average'', ''avocado'']"

definition words_1 :: "bytes list" where
  "words_1 = [
    ''avoid'', ''awake'', ''aware'', ''away'', ''awesome'', ''awful'', ''awkward'', ''axis'', ''baby'', ''bachelor'',
    ''bacon'', ''badge'', ''bag'', ''balance'', ''balcony'', ''ball'', ''bamboo'', ''banana'', ''banner'', ''bar'',
    ''barely'', ''bargain'', ''barrel'', ''base'', ''basic'', ''basket'', ''battle'', ''beach'', ''bean'',
    ''beauty'', ''because'', ''become'', ''beef'', ''before'', ''begin'', ''behave'', ''behind'', ''believe'',
    ''below'', ''belt'', ''bench'', ''benefit'', ''best'', ''betray'', ''better'', ''between'', ''beyond'',
    ''bicycle'', ''bid'', ''bike'', ''bind'', ''biology'', ''bird'', ''birth'', ''bitter'', ''black'', ''blade'',
    ''blame'', ''blanket'', ''blast'', ''bleak'', ''bless'', ''blind'', ''blood'', ''blossom'', ''blouse'', ''blue'',
    ''blur'', ''blush'', ''board'', ''boat'', ''body'', ''boil'', ''bomb'', ''bone'', ''bonus'', ''book'', ''boost'',
    ''border'', ''boring'', ''borrow'', ''boss'', ''bottom'', ''bounce'', ''box'', ''boy'', ''bracket'', ''brain'',
    ''brand'', ''brass'', ''brave'', ''bread'', ''breeze'', ''brick'', ''bridge'', ''brief'', ''bright'', ''bring'',
    ''brisk'', ''broccoli'', ''broken'', ''bronze'', ''broom'', ''brother'', ''brown'', ''brush'', ''bubble'',
    ''buddy'', ''budget'', ''buffalo'', ''build'', ''bulb'', ''bulk'', ''bullet'', ''bundle'', ''bunker'',
    ''burden'', ''burger'', ''burst'', ''bus'', ''business'', ''busy'', ''butter'', ''buyer'', ''buzz'', ''cabbage'',
    ''cabin'', ''cable'']"

definition words_2 :: "bytes list" where
  "words_2 = [
    ''cactus'', ''cage'', ''cake'', ''call'', ''calm'', ''camera'', ''camp'', ''can'', ''canal'', ''cancel'',
    ''candy'', ''cannon'', ''canoe'', ''canvas'', ''canyon'', ''capable'', ''capital'', ''captain'', ''car'',
    ''carbon'', ''card'', ''cargo'', ''carpet'', ''carry'', ''cart'', ''case'', ''cash'', ''casino'', ''castle'',
    ''casual'', ''cat'', ''catalog'', ''catch'', ''category'', ''cattle'', ''caught'', ''cause'', ''caution'',
    ''cave'', ''ceiling'', ''celery'', ''cement'', ''census'', ''century'', ''cereal'', ''certain'', ''chair'',
    ''chalk'', ''champion'', ''change'', ''chaos'', ''chapter'', ''charge'', ''chase'', ''chat'', ''cheap'',
    ''check'', ''cheese'', ''chef'', ''cherry'', ''chest'', ''chicken'', ''chief'', ''child'', ''chimney'',
    ''choice'', ''choose'', ''chronic'', ''chuckle'', ''chunk'', ''churn'', ''cigar'', ''cinnamon'', ''circle'',
    ''citizen'', ''city'', ''civil'', ''claim'', ''clap'', ''clarify'', ''claw'', ''clay'', ''clean'', ''clerk'',
    ''clever'', ''click'', ''client'', ''cliff'', ''climb'', ''clinic'', ''clip'', ''clock'', ''clog'', ''close'',
    ''cloth'', ''cloud'', ''clown'', ''club'', ''clump'', ''cluster'', ''clutch'', ''coach'', ''coast'', ''coconut'',
    ''code'', ''coffee'', ''coil'', ''coin'', ''collect'', ''color'', ''column'', ''combine'', ''come'', ''comfort'',
    ''comic'', ''common'', ''company'', ''concert'', ''conduct'', ''confirm'', ''congress'', ''connect'',
    ''consider'', ''control'', ''convince'', ''cook'', ''cool'', ''copper'']"

definition words_3 :: "bytes list" where
  "words_3 = [
    ''copy'', ''coral'', ''core'', ''corn'', ''correct'', ''cost'', ''cotton'', ''couch'', ''country'', ''couple'',
    ''course'', ''cousin'', ''cover'', ''coyote'', ''crack'', ''cradle'', ''craft'', ''cram'', ''crane'', ''crash'',
    ''crater'', ''crawl'', ''crazy'', ''cream'', ''credit'', ''creek'', ''crew'', ''cricket'', ''crime'', ''crisp'',
    ''critic'', ''crop'', ''cross'', ''crouch'', ''crowd'', ''crucial'', ''cruel'', ''cruise'', ''crumble'',
    ''crunch'', ''crush'', ''cry'', ''crystal'', ''cube'', ''culture'', ''cup'', ''cupboard'', ''curious'',
    ''current'', ''curtain'', ''curve'', ''cushion'', ''custom'', ''cute'', ''cycle'', ''dad'', ''damage'', ''damp'',
    ''dance'', ''danger'', ''daring'', ''dash'', ''daughter'', ''dawn'', ''day'', ''deal'', ''debate'', ''debris'',
    ''decade'', ''december'', ''decide'', ''decline'', ''decorate'', ''decrease'', ''deer'', ''defense'', ''define'',
    ''defy'', ''degree'', ''delay'', ''deliver'', ''demand'', ''demise'', ''denial'', ''dentist'', ''deny'',
    ''depart'', ''depend'', ''deposit'', ''depth'', ''deputy'', ''derive'', ''describe'', ''desert'', ''design'',
    ''desk'', ''despair'', ''destroy'', ''detail'', ''detect'', ''develop'', ''device'', ''devote'', ''diagram'',
    ''dial'', ''diamond'', ''diary'', ''dice'', ''diesel'', ''diet'', ''differ'', ''digital'', ''dignity'',
    ''dilemma'', ''dinner'', ''dinosaur'', ''direct'', ''dirt'', ''disagree'', ''discover'', ''disease'', ''dish'',
    ''dismiss'', ''disorder'', ''display'', ''distance'', ''divert'', ''divide'']"

definition words_4 :: "bytes list" where
  "words_4 = [
    ''divorce'', ''dizzy'', ''doctor'', ''document'', ''dog'', ''doll'', ''dolphin'', ''domain'', ''donate'',
    ''donkey'', ''donor'', ''door'', ''dose'', ''double'', ''dove'', ''draft'', ''dragon'', ''drama'', ''drastic'',
    ''draw'', ''dream'', ''dress'', ''drift'', ''drill'', ''drink'', ''drip'', ''drive'', ''drop'', ''drum'',
    ''dry'', ''duck'', ''dumb'', ''dune'', ''during'', ''dust'', ''dutch'', ''duty'', ''dwarf'', ''dynamic'',
    ''eager'', ''eagle'', ''early'', ''earn'', ''earth'', ''easily'', ''east'', ''easy'', ''echo'', ''ecology'',
    ''economy'', ''edge'', ''edit'', ''educate'', ''effort'', ''egg'', ''eight'', ''either'', ''elbow'', ''elder'',
    ''electric'', ''elegant'', ''element'', ''elephant'', ''elevator'', ''elite'', ''else'', ''embark'', ''embody'',
    ''embrace'', ''emerge'', ''emotion'', ''employ'', ''empower'', ''empty'', ''enable'', ''enact'', ''end'',
    ''endless'', ''endorse'', ''enemy'', ''energy'', ''enforce'', ''engage'', ''engine'', ''enhance'', ''enjoy'',
    ''enlist'', ''enough'', ''enrich'', ''enroll'', ''ensure'', ''enter'', ''entire'', ''entry'', ''envelope'',
    ''episode'', ''equal'', ''equip'', ''era'', ''erase'', ''erode'', ''erosion'', ''error'', ''erupt'', ''escape'',
    ''essay'', ''essence'', ''estate'', ''eternal'', ''ethics'', ''evidence'', ''evil'', ''evoke'', ''evolve'',
    ''exact'', ''example'', ''excess'', ''exchange'', ''excite'', ''exclude'', ''excuse'', ''execute'', ''exercise'',
    ''exhaust'', ''exhibit'', ''exile'', ''exist'', ''exit'']"

definition words_5 :: "bytes list" where
  "words_5 = [
    ''exotic'', ''expand'', ''expect'', ''expire'', ''explain'', ''expose'', ''express'', ''extend'', ''extra'',
    ''eye'', ''eyebrow'', ''fabric'', ''face'', ''faculty'', ''fade'', ''faint'', ''faith'', ''fall'', ''false'',
    ''fame'', ''family'', ''famous'', ''fan'', ''fancy'', ''fantasy'', ''farm'', ''fashion'', ''fat'', ''fatal'',
    ''father'', ''fatigue'', ''fault'', ''favorite'', ''feature'', ''february'', ''federal'', ''fee'', ''feed'',
    ''feel'', ''female'', ''fence'', ''festival'', ''fetch'', ''fever'', ''few'', ''fiber'', ''fiction'', ''field'',
    ''figure'', ''file'', ''film'', ''filter'', ''final'', ''find'', ''fine'', ''finger'', ''finish'', ''fire'',
    ''firm'', ''first'', ''fiscal'', ''fish'', ''fit'', ''fitness'', ''fix'', ''flag'', ''flame'', ''flash'',
    ''flat'', ''flavor'', ''flee'', ''flight'', ''flip'', ''float'', ''flock'', ''floor'', ''flower'', ''fluid'',
    ''flush'', ''fly'', ''foam'', ''focus'', ''fog'', ''foil'', ''fold'', ''follow'', ''food'', ''foot'', ''force'',
    ''forest'', ''forget'', ''fork'', ''fortune'', ''forum'', ''forward'', ''fossil'', ''foster'', ''found'',
    ''fox'', ''fragile'', ''frame'', ''frequent'', ''fresh'', ''friend'', ''fringe'', ''frog'', ''front'', ''frost'',
    ''frown'', ''frozen'', ''fruit'', ''fuel'', ''fun'', ''funny'', ''furnace'', ''fury'', ''future'', ''gadget'',
    ''gain'', ''galaxy'', ''gallery'', ''game'', ''gap'', ''garage'', ''garbage'', ''garden'', ''garlic'',
    ''garment'']"

definition words_6 :: "bytes list" where
  "words_6 = [
    ''gas'', ''gasp'', ''gate'', ''gather'', ''gauge'', ''gaze'', ''general'', ''genius'', ''genre'', ''gentle'',
    ''genuine'', ''gesture'', ''ghost'', ''giant'', ''gift'', ''giggle'', ''ginger'', ''giraffe'', ''girl'',
    ''give'', ''glad'', ''glance'', ''glare'', ''glass'', ''glide'', ''glimpse'', ''globe'', ''gloom'', ''glory'',
    ''glove'', ''glow'', ''glue'', ''goat'', ''goddess'', ''gold'', ''good'', ''goose'', ''gorilla'', ''gospel'',
    ''gossip'', ''govern'', ''gown'', ''grab'', ''grace'', ''grain'', ''grant'', ''grape'', ''grass'', ''gravity'',
    ''great'', ''green'', ''grid'', ''grief'', ''grit'', ''grocery'', ''group'', ''grow'', ''grunt'', ''guard'',
    ''guess'', ''guide'', ''guilt'', ''guitar'', ''gun'', ''gym'', ''habit'', ''hair'', ''half'', ''hammer'',
    ''hamster'', ''hand'', ''happy'', ''harbor'', ''hard'', ''harsh'', ''harvest'', ''hat'', ''have'', ''hawk'',
    ''hazard'', ''head'', ''health'', ''heart'', ''heavy'', ''hedgehog'', ''height'', ''hello'', ''helmet'',
    ''help'', ''hen'', ''hero'', ''hidden'', ''high'', ''hill'', ''hint'', ''hip'', ''hire'', ''history'', ''hobby'',
    ''hockey'', ''hold'', ''hole'', ''holiday'', ''hollow'', ''home'', ''honey'', ''hood'', ''hope'', ''horn'',
    ''horror'', ''horse'', ''hospital'', ''host'', ''hotel'', ''hour'', ''hover'', ''hub'', ''huge'', ''human'',
    ''humble'', ''humor'', ''hundred'', ''hungry'', ''hunt'', ''hurdle'', ''hurry'', ''hurt'', ''husband'']"

definition words_7 :: "bytes list" where
  "words_7 = [
    ''hybrid'', ''ice'', ''icon'', ''idea'', ''identify'', ''idle'', ''ignore'', ''ill'', ''illegal'', ''illness'',
    ''image'', ''imitate'', ''immense'', ''immune'', ''impact'', ''impose'', ''improve'', ''impulse'', ''inch'',
    ''include'', ''income'', ''increase'', ''index'', ''indicate'', ''indoor'', ''industry'', ''infant'',
    ''inflict'', ''inform'', ''inhale'', ''inherit'', ''initial'', ''inject'', ''injury'', ''inmate'', ''inner'',
    ''innocent'', ''input'', ''inquiry'', ''insane'', ''insect'', ''inside'', ''inspire'', ''install'', ''intact'',
    ''interest'', ''into'', ''invest'', ''invite'', ''involve'', ''iron'', ''island'', ''isolate'', ''issue'',
    ''item'', ''ivory'', ''jacket'', ''jaguar'', ''jar'', ''jazz'', ''jealous'', ''jeans'', ''jelly'', ''jewel'',
    ''job'', ''join'', ''joke'', ''journey'', ''joy'', ''judge'', ''juice'', ''jump'', ''jungle'', ''junior'',
    ''junk'', ''just'', ''kangaroo'', ''keen'', ''keep'', ''ketchup'', ''key'', ''kick'', ''kid'', ''kidney'',
    ''kind'', ''kingdom'', ''kiss'', ''kit'', ''kitchen'', ''kite'', ''kitten'', ''kiwi'', ''knee'', ''knife'',
    ''knock'', ''know'', ''lab'', ''label'', ''labor'', ''ladder'', ''lady'', ''lake'', ''lamp'', ''language'',
    ''laptop'', ''large'', ''later'', ''latin'', ''laugh'', ''laundry'', ''lava'', ''law'', ''lawn'', ''lawsuit'',
    ''layer'', ''lazy'', ''leader'', ''leaf'', ''learn'', ''leave'', ''lecture'', ''left'', ''leg'', ''legal'',
    ''legend'', ''leisure'', ''lemon'', ''lend'']"

definition words_8 :: "bytes list" where
  "words_8 = [
    ''length'', ''lens'', ''leopard'', ''lesson'', ''letter'', ''level'', ''liar'', ''liberty'', ''library'',
    ''license'', ''life'', ''lift'', ''light'', ''like'', ''limb'', ''limit'', ''link'', ''lion'', ''liquid'',
    ''list'', ''little'', ''live'', ''lizard'', ''load'', ''loan'', ''lobster'', ''local'', ''lock'', ''logic'',
    ''lonely'', ''long'', ''loop'', ''lottery'', ''loud'', ''lounge'', ''love'', ''loyal'', ''lucky'', ''luggage'',
    ''lumber'', ''lunar'', ''lunch'', ''luxury'', ''lyrics'', ''machine'', ''mad'', ''magic'', ''magnet'', ''maid'',
    ''mail'', ''main'', ''major'', ''make'', ''mammal'', ''man'', ''manage'', ''mandate'', ''mango'', ''mansion'',
    ''manual'', ''maple'', ''marble'', ''march'', ''margin'', ''marine'', ''market'', ''marriage'', ''mask'',
    ''mass'', ''master'', ''match'', ''material'', ''math'', ''matrix'', ''matter'', ''maximum'', ''maze'',
    ''meadow'', ''mean'', ''measure'', ''meat'', ''mechanic'', ''medal'', ''media'', ''melody'', ''melt'',
    ''member'', ''memory'', ''mention'', ''menu'', ''mercy'', ''merge'', ''merit'', ''merry'', ''mesh'', ''message'',
    ''metal'', ''method'', ''middle'', ''midnight'', ''milk'', ''million'', ''mimic'', ''mind'', ''minimum'',
    ''minor'', ''minute'', ''miracle'', ''mirror'', ''misery'', ''miss'', ''mistake'', ''mix'', ''mixed'',
    ''mixture'', ''mobile'', ''model'', ''modify'', ''mom'', ''moment'', ''monitor'', ''monkey'', ''monster'',
    ''month'', ''moon'', ''moral'', ''more'', ''morning'']"

definition words_9 :: "bytes list" where
  "words_9 = [
    ''mosquito'', ''mother'', ''motion'', ''motor'', ''mountain'', ''mouse'', ''move'', ''movie'', ''much'',
    ''muffin'', ''mule'', ''multiply'', ''muscle'', ''museum'', ''mushroom'', ''music'', ''must'', ''mutual'',
    ''myself'', ''mystery'', ''myth'', ''naive'', ''name'', ''napkin'', ''narrow'', ''nasty'', ''nation'',
    ''nature'', ''near'', ''neck'', ''need'', ''negative'', ''neglect'', ''neither'', ''nephew'', ''nerve'',
    ''nest'', ''net'', ''network'', ''neutral'', ''never'', ''news'', ''next'', ''nice'', ''night'', ''noble'',
    ''noise'', ''nominee'', ''noodle'', ''normal'', ''north'', ''nose'', ''notable'', ''note'', ''nothing'',
    ''notice'', ''novel'', ''now'', ''nuclear'', ''number'', ''nurse'', ''nut'', ''oak'', ''obey'', ''object'',
    ''oblige'', ''obscure'', ''observe'', ''obtain'', ''obvious'', ''occur'', ''ocean'', ''october'', ''odor'',
    ''off'', ''offer'', ''office'', ''often'', ''oil'', ''okay'', ''old'', ''olive'', ''olympic'', ''omit'',
    ''once'', ''one'', ''onion'', ''online'', ''only'', ''open'', ''opera'', ''opinion'', ''oppose'', ''option'',
    ''orange'', ''orbit'', ''orchard'', ''order'', ''ordinary'', ''organ'', ''orient'', ''original'', ''orphan'',
    ''ostrich'', ''other'', ''outdoor'', ''outer'', ''output'', ''outside'', ''oval'', ''oven'', ''over'', ''own'',
    ''owner'', ''oxygen'', ''oyster'', ''ozone'', ''pact'', ''paddle'', ''page'', ''pair'', ''palace'', ''palm'',
    ''panda'', ''panel'', ''panic'', ''panther'', ''paper'']"

definition words_10 :: "bytes list" where
  "words_10 = [
    ''parade'', ''parent'', ''park'', ''parrot'', ''party'', ''pass'', ''patch'', ''path'', ''patient'', ''patrol'',
    ''pattern'', ''pause'', ''pave'', ''payment'', ''peace'', ''peanut'', ''pear'', ''peasant'', ''pelican'',
    ''pen'', ''penalty'', ''pencil'', ''people'', ''pepper'', ''perfect'', ''permit'', ''person'', ''pet'',
    ''phone'', ''photo'', ''phrase'', ''physical'', ''piano'', ''picnic'', ''picture'', ''piece'', ''pig'',
    ''pigeon'', ''pill'', ''pilot'', ''pink'', ''pioneer'', ''pipe'', ''pistol'', ''pitch'', ''pizza'', ''place'',
    ''planet'', ''plastic'', ''plate'', ''play'', ''please'', ''pledge'', ''pluck'', ''plug'', ''plunge'', ''poem'',
    ''poet'', ''point'', ''polar'', ''pole'', ''police'', ''pond'', ''pony'', ''pool'', ''popular'', ''portion'',
    ''position'', ''possible'', ''post'', ''potato'', ''pottery'', ''poverty'', ''powder'', ''power'', ''practice'',
    ''praise'', ''predict'', ''prefer'', ''prepare'', ''present'', ''pretty'', ''prevent'', ''price'', ''pride'',
    ''primary'', ''print'', ''priority'', ''prison'', ''private'', ''prize'', ''problem'', ''process'', ''produce'',
    ''profit'', ''program'', ''project'', ''promote'', ''proof'', ''property'', ''prosper'', ''protect'', ''proud'',
    ''provide'', ''public'', ''pudding'', ''pull'', ''pulp'', ''pulse'', ''pumpkin'', ''punch'', ''pupil'',
    ''puppy'', ''purchase'', ''purity'', ''purpose'', ''purse'', ''push'', ''put'', ''puzzle'', ''pyramid'',
    ''quality'', ''quantum'', ''quarter'', ''question'', ''quick'', ''quit'', ''quiz'']"

definition words_11 :: "bytes list" where
  "words_11 = [
    ''quote'', ''rabbit'', ''raccoon'', ''race'', ''rack'', ''radar'', ''radio'', ''rail'', ''rain'', ''raise'',
    ''rally'', ''ramp'', ''ranch'', ''random'', ''range'', ''rapid'', ''rare'', ''rate'', ''rather'', ''raven'',
    ''raw'', ''razor'', ''ready'', ''real'', ''reason'', ''rebel'', ''rebuild'', ''recall'', ''receive'', ''recipe'',
    ''record'', ''recycle'', ''reduce'', ''reflect'', ''reform'', ''refuse'', ''region'', ''regret'', ''regular'',
    ''reject'', ''relax'', ''release'', ''relief'', ''rely'', ''remain'', ''remember'', ''remind'', ''remove'',
    ''render'', ''renew'', ''rent'', ''reopen'', ''repair'', ''repeat'', ''replace'', ''report'', ''require'',
    ''rescue'', ''resemble'', ''resist'', ''resource'', ''response'', ''result'', ''retire'', ''retreat'',
    ''return'', ''reunion'', ''reveal'', ''review'', ''reward'', ''rhythm'', ''rib'', ''ribbon'', ''rice'', ''rich'',
    ''ride'', ''ridge'', ''rifle'', ''right'', ''rigid'', ''ring'', ''riot'', ''ripple'', ''risk'', ''ritual'',
    ''rival'', ''river'', ''road'', ''roast'', ''robot'', ''robust'', ''rocket'', ''romance'', ''roof'', ''rookie'',
    ''room'', ''rose'', ''rotate'', ''rough'', ''round'', ''route'', ''royal'', ''rubber'', ''rude'', ''rug'',
    ''rule'', ''run'', ''runway'', ''rural'', ''sad'', ''saddle'', ''sadness'', ''safe'', ''sail'', ''salad'',
    ''salmon'', ''salon'', ''salt'', ''salute'', ''same'', ''sample'', ''sand'', ''satisfy'', ''satoshi'', ''sauce'',
    ''sausage'', ''save'', ''say'']"

definition words_12 :: "bytes list" where
  "words_12 = [
    ''scale'', ''scan'', ''scare'', ''scatter'', ''scene'', ''scheme'', ''school'', ''science'', ''scissors'',
    ''scorpion'', ''scout'', ''scrap'', ''screen'', ''script'', ''scrub'', ''sea'', ''search'', ''season'', ''seat'',
    ''second'', ''secret'', ''section'', ''security'', ''seed'', ''seek'', ''segment'', ''select'', ''sell'',
    ''seminar'', ''senior'', ''sense'', ''sentence'', ''series'', ''service'', ''session'', ''settle'', ''setup'',
    ''seven'', ''shadow'', ''shaft'', ''shallow'', ''share'', ''shed'', ''shell'', ''sheriff'', ''shield'',
    ''shift'', ''shine'', ''ship'', ''shiver'', ''shock'', ''shoe'', ''shoot'', ''shop'', ''short'', ''shoulder'',
    ''shove'', ''shrimp'', ''shrug'', ''shuffle'', ''shy'', ''sibling'', ''sick'', ''side'', ''siege'', ''sight'',
    ''sign'', ''silent'', ''silk'', ''silly'', ''silver'', ''similar'', ''simple'', ''since'', ''sing'', ''siren'',
    ''sister'', ''situate'', ''six'', ''size'', ''skate'', ''sketch'', ''ski'', ''skill'', ''skin'', ''skirt'',
    ''skull'', ''slab'', ''slam'', ''sleep'', ''slender'', ''slice'', ''slide'', ''slight'', ''slim'', ''slogan'',
    ''slot'', ''slow'', ''slush'', ''small'', ''smart'', ''smile'', ''smoke'', ''smooth'', ''snack'', ''snake'',
    ''snap'', ''sniff'', ''snow'', ''soap'', ''soccer'', ''social'', ''sock'', ''soda'', ''soft'', ''solar'',
    ''soldier'', ''solid'', ''solution'', ''solve'', ''someone'', ''song'', ''soon'', ''sorry'', ''sort'', ''soul'',
    ''sound'', ''soup'']"

definition words_13 :: "bytes list" where
  "words_13 = [
    ''source'', ''south'', ''space'', ''spare'', ''spatial'', ''spawn'', ''speak'', ''special'', ''speed'',
    ''spell'', ''spend'', ''sphere'', ''spice'', ''spider'', ''spike'', ''spin'', ''spirit'', ''split'', ''spoil'',
    ''sponsor'', ''spoon'', ''sport'', ''spot'', ''spray'', ''spread'', ''spring'', ''spy'', ''square'', ''squeeze'',
    ''squirrel'', ''stable'', ''stadium'', ''staff'', ''stage'', ''stairs'', ''stamp'', ''stand'', ''start'',
    ''state'', ''stay'', ''steak'', ''steel'', ''stem'', ''step'', ''stereo'', ''stick'', ''still'', ''sting'',
    ''stock'', ''stomach'', ''stone'', ''stool'', ''story'', ''stove'', ''strategy'', ''street'', ''strike'',
    ''strong'', ''struggle'', ''student'', ''stuff'', ''stumble'', ''style'', ''subject'', ''submit'', ''subway'',
    ''success'', ''such'', ''sudden'', ''suffer'', ''sugar'', ''suggest'', ''suit'', ''summer'', ''sun'', ''sunny'',
    ''sunset'', ''super'', ''supply'', ''supreme'', ''sure'', ''surface'', ''surge'', ''surprise'', ''surround'',
    ''survey'', ''suspect'', ''sustain'', ''swallow'', ''swamp'', ''swap'', ''swarm'', ''swear'', ''sweet'',
    ''swift'', ''swim'', ''swing'', ''switch'', ''sword'', ''symbol'', ''symptom'', ''syrup'', ''system'', ''table'',
    ''tackle'', ''tag'', ''tail'', ''talent'', ''talk'', ''tank'', ''tape'', ''target'', ''task'', ''taste'',
    ''tattoo'', ''taxi'', ''teach'', ''team'', ''tell'', ''ten'', ''tenant'', ''tennis'', ''tent'', ''term'',
    ''test'', ''text'', ''thank'', ''that'']"

definition words_14 :: "bytes list" where
  "words_14 = [
    ''theme'', ''then'', ''theory'', ''there'', ''they'', ''thing'', ''this'', ''thought'', ''three'', ''thrive'',
    ''throw'', ''thumb'', ''thunder'', ''ticket'', ''tide'', ''tiger'', ''tilt'', ''timber'', ''time'', ''tiny'',
    ''tip'', ''tired'', ''tissue'', ''title'', ''toast'', ''tobacco'', ''today'', ''toddler'', ''toe'', ''together'',
    ''toilet'', ''token'', ''tomato'', ''tomorrow'', ''tone'', ''tongue'', ''tonight'', ''tool'', ''tooth'', ''top'',
    ''topic'', ''topple'', ''torch'', ''tornado'', ''tortoise'', ''toss'', ''total'', ''tourist'', ''toward'',
    ''tower'', ''town'', ''toy'', ''track'', ''trade'', ''traffic'', ''tragic'', ''train'', ''transfer'', ''trap'',
    ''trash'', ''travel'', ''tray'', ''treat'', ''tree'', ''trend'', ''trial'', ''tribe'', ''trick'', ''trigger'',
    ''trim'', ''trip'', ''trophy'', ''trouble'', ''truck'', ''true'', ''truly'', ''trumpet'', ''trust'', ''truth'',
    ''try'', ''tube'', ''tuition'', ''tumble'', ''tuna'', ''tunnel'', ''turkey'', ''turn'', ''turtle'', ''twelve'',
    ''twenty'', ''twice'', ''twin'', ''twist'', ''two'', ''type'', ''typical'', ''ugly'', ''umbrella'', ''unable'',
    ''unaware'', ''uncle'', ''uncover'', ''under'', ''undo'', ''unfair'', ''unfold'', ''unhappy'', ''uniform'',
    ''unique'', ''unit'', ''universe'', ''unknown'', ''unlock'', ''until'', ''unusual'', ''unveil'', ''update'',
    ''upgrade'', ''uphold'', ''upon'', ''upper'', ''upset'', ''urban'', ''urge'', ''usage'', ''use'', ''used'',
    ''useful'']"

definition words_15 :: "bytes list" where
  "words_15 = [
    ''useless'', ''usual'', ''utility'', ''vacant'', ''vacuum'', ''vague'', ''valid'', ''valley'', ''valve'',
    ''van'', ''vanish'', ''vapor'', ''various'', ''vast'', ''vault'', ''vehicle'', ''velvet'', ''vendor'',
    ''venture'', ''venue'', ''verb'', ''verify'', ''version'', ''very'', ''vessel'', ''veteran'', ''viable'',
    ''vibrant'', ''vicious'', ''victory'', ''video'', ''view'', ''village'', ''vintage'', ''violin'', ''virtual'',
    ''virus'', ''visa'', ''visit'', ''visual'', ''vital'', ''vivid'', ''vocal'', ''voice'', ''void'', ''volcano'',
    ''volume'', ''vote'', ''voyage'', ''wage'', ''wagon'', ''wait'', ''walk'', ''wall'', ''walnut'', ''want'',
    ''warfare'', ''warm'', ''warrior'', ''wash'', ''wasp'', ''waste'', ''water'', ''wave'', ''way'', ''wealth'',
    ''weapon'', ''wear'', ''weasel'', ''weather'', ''web'', ''wedding'', ''weekend'', ''weird'', ''welcome'',
    ''west'', ''wet'', ''whale'', ''what'', ''wheat'', ''wheel'', ''when'', ''where'', ''whip'', ''whisper'',
    ''wide'', ''width'', ''wife'', ''wild'', ''will'', ''win'', ''window'', ''wine'', ''wing'', ''wink'', ''winner'',
    ''winter'', ''wire'', ''wisdom'', ''wise'', ''wish'', ''witness'', ''wolf'', ''woman'', ''wonder'', ''wood'',
    ''wool'', ''word'', ''work'', ''world'', ''worry'', ''worth'', ''wrap'', ''wreck'', ''wrestle'', ''wrist'',
    ''write'', ''wrong'', ''yard'', ''year'', ''yellow'', ''you'', ''young'', ''youth'', ''zebra'', ''zero'',
    ''zone'', ''zoo'']"

definition wordlist :: "bytes list" where
  "wordlist = concat [words_0, words_1, words_2, words_3, words_4, words_5, words_6, words_7, words_8, words_9, words_10, words_11, words_12, words_13, words_14, words_15]"

section \<open>Order\<close>

text \<open>The order of two bytes, and of two words by their first differing byte.\<close>

fun byte_less :: "char \<Rightarrow> char \<Rightarrow> bool" where
  "byte_less (Char a0 a1 a2 a3 a4 a5 a6 a7) (Char b0 b1 b2 b3 b4 b5 b6 b7) =
     (if a7 \<noteq> b7 then b7 else if a6 \<noteq> b6 then b6 else if a5 \<noteq> b5 then b5 else if a4 \<noteq> b4 then b4 else if a3 \<noteq> b3 then b3
      else if a2 \<noteq> b2 then b2 else if a1 \<noteq> b1 then b1 else \<not> a0 \<and> b0)"

lemma digit_less:
  fixes m n k :: nat
  assumes "m < k" "n < k" "a \<noteq> b \<longrightarrow> b" "a = b \<longrightarrow> m < n"
  shows "m + k * of_bool a < n + k * of_bool b"
  using assms by (cases a; cases b) simp_all

lemma digit_bound: "m < k \<Longrightarrow> m + k * of_bool a < 2 * (k::nat)"
  by (cases a) simp_all

lemma byte_value: "(of_char (Char a0 a1 a2 a3 a4 a5 a6 a7) :: nat) =
   (((((((of_bool a0 + 2 * of_bool a1) + 4 * of_bool a2) + 8 * of_bool a3) + 16 * of_bool a4) + 32 * of_bool a5) + 64 * of_bool a6) + 128 * of_bool a7)"
  by (simp add: of_char_Char algebra_simps)

lemma byte_bounds:
  "(of_bool a0::nat) < 2"
  "(of_bool a0 + 2 * of_bool a1::nat) < 4"
  "(of_bool a0 + 2 * of_bool a1 + 4 * of_bool a2::nat) < 8"
  "(of_bool a0 + 2 * of_bool a1 + 4 * of_bool a2 + 8 * of_bool a3::nat) < 16"
  "(of_bool a0 + 2 * of_bool a1 + 4 * of_bool a2 + 8 * of_bool a3 + 16 * of_bool a4::nat) < 32"
  "(of_bool a0 + 2 * of_bool a1 + 4 * of_bool a2 + 8 * of_bool a3 + 16 * of_bool a4 + 32 * of_bool a5::nat) < 64"
  "(of_bool a0 + 2 * of_bool a1 + 4 * of_bool a2 + 8 * of_bool a3 + 16 * of_bool a4 + 32 * of_bool a5 + 64 * of_bool a6::nat) < 128"
proof -
  show 0: "(of_bool a0::nat) < 2" by simp
  show 1: "(of_bool a0 + 2 * of_bool a1::nat) < 4" using digit_bound [OF 0] by simp
  show 2: "(of_bool a0 + 2 * of_bool a1 + 4 * of_bool a2::nat) < 8" using digit_bound [OF 1] by simp
  show 3: "(of_bool a0 + 2 * of_bool a1 + 4 * of_bool a2 + 8 * of_bool a3::nat) < 16" using digit_bound [OF 2] by simp
  show 4: "(of_bool a0 + 2 * of_bool a1 + 4 * of_bool a2 + 8 * of_bool a3 + 16 * of_bool a4::nat) < 32" using digit_bound [OF 3] by simp
  show 5: "(of_bool a0 + 2 * of_bool a1 + 4 * of_bool a2 + 8 * of_bool a3 + 16 * of_bool a4 + 32 * of_bool a5::nat) < 64" using digit_bound [OF 4] by simp
  show "(of_bool a0 + 2 * of_bool a1 + 4 * of_bool a2 + 8 * of_bool a3 + 16 * of_bool a4 + 32 * of_bool a5 + 64 * of_bool a6::nat) < 128" using digit_bound [OF 5] by simp
qed

lemma byte_less: "byte_less a b \<Longrightarrow> a < b"
proof (cases a; cases b)
  fix a0 a1 a2 a3 a4 a5 a6 a7 b0 b1 b2 b3 b4 b5 b6 b7
  assume ab: "a = Char a0 a1 a2 a3 a4 a5 a6 a7" "b = Char b0 b1 b2 b3 b4 b5 b6 b7" and "byte_less a b"
  then have l: "if a7 \<noteq> b7 then b7 else if a6 \<noteq> b6 then b6 else if a5 \<noteq> b5 then b5 else if a4 \<noteq> b4 then b4 else if a3 \<noteq> b3 then b3
     else if a2 \<noteq> b2 then b2 else if a1 \<noteq> b1 then b1 else \<not> a0 \<and> b0" by simp
  have "(of_char a :: nat) < of_char b"
    unfolding ab byte_value
  proof (intro digit_less byte_bounds impI)
  qed (use l in \<open>simp_all split: if_splits\<close>)
  then show "a < b" by (simp add: less_char_def)
qed

text \<open>The lower-case letters lie in the upper quarter of ASCII, so no byte of a word is white space or part of a longer rune.\<close>

fun letter :: "char \<Rightarrow> bool" where
  "letter (Char a0 a1 a2 a3 a4 a5 a6 a7) = (\<not> a7 \<and> a6 \<and> a5)"

definition plain_word :: "bytes \<Rightarrow> bool" where
  "plain_word w = (w \<noteq> [] \<and> list_all letter w)"

fun ascends :: "bytes \<Rightarrow> bytes \<Rightarrow> bool" where
  "ascends [] (y # ys) = True"
| "ascends (x # xs) (y # ys) = (if byte_less x y then True else x = y \<and> ascends xs ys)"
| "ascends xs [] = False"

lemma ascends_less: "ascends xs ys \<Longrightarrow> xs < ys"
  by (induction xs ys rule: ascends.induct) (auto dest: byte_less split: if_splits)

lemmas ascent_simps = successively.simps ascends.simps byte_less.simps last.simps list.distinct simp_thms if_True if_False

lemma words_0_ok: "successively ascends words_0" "last words_0 = ''avocado''" "length words_0 = 128"
    "list_all plain_word words_0" "hd words_0 = ''abandon''"
  by (simp_all only: words_0_def ascent_simps) (simp_all add: plain_word_def)

lemma words_1_ok: "successively ascends words_1" "last words_1 = ''cable''" "length words_1 = 128"
    "list_all plain_word words_1" "hd words_1 = ''avoid''"
  by (simp_all only: words_1_def ascent_simps) (simp_all add: plain_word_def)

lemma words_2_ok: "successively ascends words_2" "last words_2 = ''copper''" "length words_2 = 128"
    "list_all plain_word words_2" "hd words_2 = ''cactus''"
  by (simp_all only: words_2_def ascent_simps) (simp_all add: plain_word_def)

lemma words_3_ok: "successively ascends words_3" "last words_3 = ''divide''" "length words_3 = 128"
    "list_all plain_word words_3" "hd words_3 = ''copy''"
  by (simp_all only: words_3_def ascent_simps) (simp_all add: plain_word_def)

lemma words_4_ok: "successively ascends words_4" "last words_4 = ''exit''" "length words_4 = 128"
    "list_all plain_word words_4" "hd words_4 = ''divorce''"
  by (simp_all only: words_4_def ascent_simps) (simp_all add: plain_word_def)

lemma words_5_ok: "successively ascends words_5" "last words_5 = ''garment''" "length words_5 = 128"
    "list_all plain_word words_5" "hd words_5 = ''exotic''"
  by (simp_all only: words_5_def ascent_simps) (simp_all add: plain_word_def)

lemma words_6_ok: "successively ascends words_6" "last words_6 = ''husband''" "length words_6 = 128"
    "list_all plain_word words_6" "hd words_6 = ''gas''"
  by (simp_all only: words_6_def ascent_simps) (simp_all add: plain_word_def)

lemma words_7_ok: "successively ascends words_7" "last words_7 = ''lend''" "length words_7 = 128"
    "list_all plain_word words_7" "hd words_7 = ''hybrid''"
  by (simp_all only: words_7_def ascent_simps) (simp_all add: plain_word_def)

lemma words_8_ok: "successively ascends words_8" "last words_8 = ''morning''" "length words_8 = 128"
    "list_all plain_word words_8" "hd words_8 = ''length''"
  by (simp_all only: words_8_def ascent_simps) (simp_all add: plain_word_def)

lemma words_9_ok: "successively ascends words_9" "last words_9 = ''paper''" "length words_9 = 128"
    "list_all plain_word words_9" "hd words_9 = ''mosquito''"
  by (simp_all only: words_9_def ascent_simps) (simp_all add: plain_word_def)

lemma words_10_ok: "successively ascends words_10" "last words_10 = ''quiz''" "length words_10 = 128"
    "list_all plain_word words_10" "hd words_10 = ''parade''"
  by (simp_all only: words_10_def ascent_simps) (simp_all add: plain_word_def)

lemma words_11_ok: "successively ascends words_11" "last words_11 = ''say''" "length words_11 = 128"
    "list_all plain_word words_11" "hd words_11 = ''quote''"
  by (simp_all only: words_11_def ascent_simps) (simp_all add: plain_word_def)

lemma words_12_ok: "successively ascends words_12" "last words_12 = ''soup''" "length words_12 = 128"
    "list_all plain_word words_12" "hd words_12 = ''scale''"
  by (simp_all only: words_12_def ascent_simps) (simp_all add: plain_word_def)

lemma words_13_ok: "successively ascends words_13" "last words_13 = ''that''" "length words_13 = 128"
    "list_all plain_word words_13" "hd words_13 = ''source''"
  by (simp_all only: words_13_def ascent_simps) (simp_all add: plain_word_def)

lemma words_14_ok: "successively ascends words_14" "last words_14 = ''useful''" "length words_14 = 128"
    "list_all plain_word words_14" "hd words_14 = ''theme''"
  by (simp_all only: words_14_def ascent_simps) (simp_all add: plain_word_def)

lemma words_15_ok: "successively ascends words_15" "last words_15 = ''zoo''" "length words_15 = 128"
    "list_all plain_word words_15" "hd words_15 = ''useless''"
  by (simp_all only: words_15_def ascent_simps) (simp_all add: plain_word_def)

lemmas words_ok = words_0_ok words_1_ok words_2_ok words_3_ok words_4_ok words_5_ok words_6_ok words_7_ok words_8_ok words_9_ok words_10_ok words_11_ok words_12_ok words_13_ok words_14_ok words_15_ok

lemma length_wordlist: "length wordlist = 2048"
  by (simp add: wordlist_def words_ok)

lemma joined:
  "successively P xs \<Longrightarrow> length xs = 128 \<Longrightarrow> successively P ys \<Longrightarrow> P (last xs) (hd ys) \<Longrightarrow> successively P (xs @ ys)"
  by (auto simp: successively_append_iff)

lemma hd_joined: "length xs = 128 \<Longrightarrow> hd (xs @ ys) = hd xs"
  by (cases xs) simp_all

lemma wordlist_ascends: "successively ascends wordlist"
  unfolding wordlist_def concat.simps append_Nil2
  by (intro joined words_ok) (simp_all add: words_ok hd_joined)

lemma wordlist_plain: "list_all plain_word wordlist"
  by (simp add: wordlist_def words_ok)

lemma wordlist_sorted: "sorted_wrt (<) wordlist"
proof -
  have "successively (<) wordlist" using wordlist_ascends by (rule successively_mono) (auto intro: ascends_less)
  then show ?thesis by (simp add: successively_conv_sorted_wrt)
qed

end
