(* ===== verification/RecoveryCode.thy ===== *)
theory RecoveryCode
  imports Wordlist EnvelopeSound PathRules Identifiers
begin

unbundle bit_operations_syntax

text \<open>
  Recovery codes (\<open>internal/recovery/code.go\<close>): 128 bits of entropy and four bits of their SHA-256, written as
  twelve words of the list, and the parser that accepts exactly those phrases. A bit slice is a list of bytes, each 0 or 1,
  as the code has it; SHA-256 and the random source are parameters.
\<close>

section \<open>Codes\<close>

definition EntropyBytes :: nat where "EntropyBytes = 16"
definition WordCount :: nat where "WordCount = 12"
definition bitsPerWord :: nat where "bitsPerWord = 11"
definition checksumBits :: nat where "checksumBits = EntropyBytes * 8 div 32"

datatype code_error = ErrCodeShape | ErrUnknownWord bytes | ErrChecksum | ErrEntropyLength nat | ErrRandom

text \<open>\<open>strings.Fields\<close>: the maximal runs of runes that are not white space.\<close>

fun fields_of :: "bytes \<Rightarrow> bytes \<Rightarrow> (nat \<times> nat) list \<Rightarrow> bytes list" where
  "fields_of cur s [] = (if cur = [] then [] else [cur])"
| "fields_of cur s ((r, w) # rs) =
     (if IsSpace r then (if cur = [] then [] else [cur]) @ fields_of [] (drop w s) rs
      else fields_of (cur @ take w s) (drop w s) rs)"

definition Fields :: "bytes \<Rightarrow> bytes list" where
  "Fields s = fields_of [] s (Runes s)"

text \<open>The binary search of a word between \<open>lo\<close> and \<open>hi\<close>, both included.\<close>

function index_between :: "bytes \<Rightarrow> int \<Rightarrow> int \<Rightarrow> nat option" where
  "index_between word lo hi =
     (if lo \<le> hi then
        let mid = (lo + hi) div 2 in
        if wordlist ! nat mid = word then Some (nat mid)
        else if wordlist ! nat mid < word then index_between word (mid + 1) hi
        else index_between word lo (mid - 1)
      else None)"
  by pat_completeness auto
termination by (relation "measure (\<lambda>(word, lo, hi). nat (hi - lo + 1))") auto

declare index_between.simps [simp del]

definition index :: "bytes \<Rightarrow> nat option" where
  "index word = index_between word 0 (int (length wordlist) - 1)"

definition appendBits :: "u8 list \<Rightarrow> u32 \<Rightarrow> nat \<Rightarrow> u8 list" where
  "appendBits bits v n = foldl (\<lambda>bits i. bits @ [ucast (drop_bit i v) AND 1]) bits (rev [0..<n])"

definition bitsOfByte :: "u8 \<Rightarrow> nat \<Rightarrow> u8 list" where
  "bitsOfByte b n = foldl (\<lambda>out i. out @ [drop_bit (7 - i) b AND 1]) [] [0..<n]"

definition bitsToBytes :: "u8 list \<Rightarrow> u8 list" where
  "bitsToBytes bits =
     foldl (\<lambda>out i. out[i div 8 := out ! (i div 8) OR push_bit (7 - i mod 8) (bits ! i)])
       (replicate (length bits div 8) 0) [0..<length bits]"

definition bitsToUint :: "u8 list \<Rightarrow> nat" where
  "bitsToUint bits = foldl (\<lambda>v b. push_bit 1 v OR unat b) 0 bits"

definition raw_bytes :: "u8 list \<Rightarrow> bytes" where
  "raw_bytes bs = map (\<lambda>b. char_of (unat b)) bs"

definition encode_code :: "(bytes \<Rightarrow> sha256) \<Rightarrow> u8 list \<Rightarrow> code_error + bytes" where
  "encode_code sha entropy =
     (if length entropy \<noteq> EntropyBytes then Inl (ErrEntropyLength (length entropy))
      else
        let bits = foldl (\<lambda>bits b. appendBits bits (ucast b) 8) [] entropy;
            sum = sha (raw_bytes entropy);
            bits = appendBits bits (drop_bit (8 - checksumBits) (ucast (sum ! 0))) checksumBits
        in Inr (JoinOn (CHR '' '')
             (map (\<lambda>i. wordlist ! bitsToUint (take bitsPerWord (drop (i * bitsPerWord) bits))) [0..<WordCount])))"

definition verifyChecksum :: "(bytes \<Rightarrow> sha256) \<Rightarrow> u8 list \<Rightarrow> u8 list \<Rightarrow> code_error + unit" where
  "verifyChecksum sha entropy checksum =
     (let want = bitsOfByte (sha (raw_bytes entropy) ! 0) checksumBits in
      guardR (list_all (\<lambda>i. checksum ! i = want ! i) [0..<length checksum]) ErrChecksum)"

definition Parse_code :: "(bytes \<Rightarrow> sha256) \<Rightarrow> bytes \<Rightarrow> code_error + bytes" where
  "Parse_code sha s =
     (let words = Fields s in
      if length words \<noteq> WordCount then Inl ErrCodeShape
      else
        bindR (foldR (\<lambda>w bits. bindR (ofOption (ErrUnknownWord w) (index w)) (\<lambda>i. Inr (appendBits bits (of_nat i) bitsPerWord))) words [])
          (\<lambda>bits. let entropy = bitsToBytes (take (EntropyBytes * 8) bits) in
            bindR (verifyChecksum sha entropy (drop (EntropyBytes * 8) bits)) (\<lambda>_. Inr (JoinOn (CHR '' '') words))))"

definition Generate :: "(bytes \<Rightarrow> sha256) \<Rightarrow> u8 list option \<Rightarrow> code_error + bytes" where
  "Generate sha rand = bindR (ofOption ErrRandom rand) (encode_code sha)"

section \<open>The binary search\<close>

lemma index_between_found:
  "0 \<le> lo \<Longrightarrow> hi < 2048 \<Longrightarrow> index_between word lo hi = Some i \<Longrightarrow> i < 2048 \<and> wordlist ! i = word"
proof (induction word lo hi rule: index_between.induct)
  case (1 word lo hi)
  let ?m = "(lo + hi) div 2"
  have le: "lo \<le> hi" using "1.prems"(3) by (subst (asm) index_between.simps) (simp split: if_splits)
  then have m: "0 \<le> ?m" "lo \<le> ?m" "?m \<le> hi" using "1.prems"(1) by auto
  consider "wordlist ! nat ?m = word" | "wordlist ! nat ?m \<noteq> word" "wordlist ! nat ?m < word"
    | "wordlist ! nat ?m \<noteq> word" "\<not> wordlist ! nat ?m < word" by blast
  then show ?case
  proof cases
    case 1
    then show ?thesis using "1.prems" le m by (subst (asm) index_between.simps) (auto simp: Let_def)
  next
    case 2
    then have "index_between word (?m + 1) hi = Some i" using "1.prems"(3) le by (subst (asm) index_between.simps) (simp add: Let_def)
    then show ?thesis using "1.IH"(1) [OF le refl 2] "1.prems" m by simp
  next
    case 3
    then have "index_between word lo (?m - 1) = Some i" using "1.prems"(3) le by (subst (asm) index_between.simps) (simp add: Let_def)
    then show ?thesis using "1.IH"(2) [OF le refl 3] "1.prems" m by simp
  qed
qed

lemma wordlist_order: "i < j \<Longrightarrow> j < 2048 \<Longrightarrow> wordlist ! i < wordlist ! j"
  using wordlist_sorted by (simp add: sorted_wrt_nth_less length_wordlist)

lemma index_between_finds:
  "0 \<le> lo \<Longrightarrow> hi < 2048 \<Longrightarrow> lo \<le> int i \<Longrightarrow> int i \<le> hi \<Longrightarrow> index_between (wordlist ! i) lo hi = Some i"
proof (induction "wordlist ! i" lo hi rule: index_between.induct)
  case (1 lo hi)
  let ?m = "(lo + hi) div 2"
  have le: "lo \<le> hi" using "1.prems" by simp
  then have m: "0 \<le> ?m" "lo \<le> ?m" "?m \<le> hi" "nat ?m < 2048" using "1.prems"(1,2) by auto
  have i: "i < 2048" using "1.prems" by linarith
  consider "nat ?m = i" | "nat ?m < i" | "i < nat ?m" by linarith
  then show ?case
  proof cases
    case 1
    then show ?thesis using le by (subst index_between.simps) (simp add: Let_def)
  next
    case 2
    then have lt: "wordlist ! nat ?m < wordlist ! i" using wordlist_order i by blast
    then have "index_between (wordlist ! i) (?m + 1) hi = Some i" using "1.hyps"(1) [OF le refl _ lt] "1.prems" m 2 by fastforce
    then show ?thesis using le lt less_imp_neq [OF lt] by (subst index_between.simps) (simp add: Let_def)
  next
    case 3
    then have lt: "wordlist ! i < wordlist ! nat ?m" using wordlist_order m(4) by blast
    then have "index_between (wordlist ! i) lo (?m - 1) = Some i" using "1.hyps"(2) [OF le refl] "1.prems" m 3 by fastforce
    then show ?thesis using le lt by (subst index_between.simps) (auto simp add: Let_def)
  qed
qed

lemma index_iff: "index w = Some i \<longleftrightarrow> i < 2048 \<and> wordlist ! i = w"
proof
  show "index w = Some i \<Longrightarrow> i < 2048 \<and> wordlist ! i = w"
    unfolding index_def length_wordlist by (erule index_between_found [rotated 2]) simp_all
  assume "i < 2048 \<and> wordlist ! i = w"
  then show "index w = Some i" using index_between_finds [of 0 2047 i] by (auto simp: index_def length_wordlist)
qed

section \<open>Bits\<close>

text \<open>The low \<open>n\<close> bits of a word, the highest first, each as a byte.\<close>

definition bits_of :: "'a::len word \<Rightarrow> nat \<Rightarrow> u8 list" where
  "bits_of v n = map (\<lambda>i. of_bool (bit v i)) (rev [0..<n])"

definition zeros_ones :: "u8 list \<Rightarrow> bool" where
  "zeros_ones bits = list_all (\<lambda>b. b = 0 \<or> b = 1) bits"

lemma foldl_snoc: "foldl (\<lambda>acc x. acc @ [f x]) acc xs = acc @ map f xs"
  by (induction xs arbitrary: acc) simp_all

lemma length_bits_of [simp]: "length (bits_of v n) = n"
  by (simp add: bits_of_def)

lemma zeros_ones_simps [simp]: "zeros_ones (bits_of v n)" "zeros_ones []" "zeros_ones (b # bs) \<longleftrightarrow> (b = 0 \<or> b = 1) \<and> zeros_ones bs"
  "zeros_ones (xs @ ys) \<longleftrightarrow> zeros_ones xs \<and> zeros_ones ys" "zeros_ones (rev xs) = zeros_ones xs"
  by (auto simp: zeros_ones_def bits_of_def list_all_iff)

lemma low_bit: "(ucast (drop_bit i (v :: u32)) :: u8) AND 1 = of_bool (bit v i)" "drop_bit i (b :: u8) AND 1 = of_bool (bit b i)"
  by (rule bit_eqI, auto simp: bit_simps bit_1_iff intro: gr0I)+

lemma appendBits_eq: "appendBits bits v n = bits @ bits_of v n"
  by (simp add: appendBits_def foldl_snoc bits_of_def low_bit)

lemma bitsOfByte_eq: "bitsOfByte b 4 = bits_of (drop_bit 4 b) 4"
  by (simp add: bitsOfByte_def bits_of_def foldl_snoc low_bit upt_rec bit_drop_bit_eq)

lemma ucast_bits: "n \<le> 8 \<Longrightarrow> bits_of (ucast (b :: u8) :: u32) n = bits_of b n"
  by (auto simp: bits_of_def bit_ucast_iff)

lemma checksum_bits: "bits_of (drop_bit 4 (ucast (b :: u8) :: u32)) 4 = bitsOfByte b 4"
  unfolding bitsOfByte_eq by (auto simp: bits_of_def bit_simps)

lemma bitsToUint_horner: "zeros_ones bits \<Longrightarrow> bitsToUint bits = horner_sum of_bool 2 (map (\<lambda>b. b = 1) (rev bits))"
proof (induction bits rule: rev_induct)
  case (snoc b bits)
  have "push_bit 1 v OR unat b = of_bool (b = 1) + 2 * v" for v :: nat
    using snoc.prems by (auto simp: push_bit_eq_mult mult.commute or_Suc_0_eq)
  then show ?case using snoc by (simp add: bitsToUint_def)
qed (simp add: bitsToUint_def)

lemma bitsToUint_bits_of: "bitsToUint (bits_of (v :: u32) n) = take_bit n (unat v)"
proof -
  have "map (\<lambda>b. b = 1) (rev (bits_of v n)) = map (bit (unat v)) [0..<n]"
    by (auto simp: bits_of_def rev_map bit_unsigned_iff dest: bit_imp_le_length)
  then show ?thesis by (simp add: bitsToUint_horner horner_sum_bit_eq_take_bit)
qed

lemma bitsToUint_bound: "zeros_ones bits \<Longrightarrow> bitsToUint bits < 2 ^ length bits"
  using horner_sum_of_bool_2_less [of "map (\<lambda>b. b = 1) (rev bits)"] by (simp add: bitsToUint_horner)

lemma bit_of_nat_u32: "bit (of_nat m :: u32) n \<longleftrightarrow> n < 32 \<and> bit m n"
proof -
  have "bit (unat (of_nat m :: u32)) n = bit (take_bit 32 m) n" by (simp add: unsigned_of_nat)
  then show ?thesis by (auto simp: bit_unsigned_iff bit_take_bit_iff dest: bit_imp_le_length)
qed

lemma nth_bits_of: "i < n \<Longrightarrow> bits_of v n ! i = of_bool (bit v (n - Suc i))"
  by (simp add: bits_of_def rev_nth)

lemma bits_of_bitsToUint:
  assumes "zeros_ones bits" "length bits \<le> 32"
  shows "bits_of (of_nat (bitsToUint bits) :: u32) (length bits) = bits"
proof (rule nth_equalityI)
  fix i assume "i < length (bits_of (of_nat (bitsToUint bits) :: u32) (length bits))"
  then have i: "i < length bits" by simp
  then have v: "bits ! i = 0 \<or> bits ! i = 1" using assms(1) by (simp add: zeros_ones_def list_all_length)
  have e: "length bits - Suc i < length bits" "length bits - Suc (length bits - Suc i) = i" "length bits - Suc i < 32" using i assms(2) by linarith+
  have "bit (of_nat (bitsToUint bits) :: u32) (length bits - Suc i) = (bits ! i = 1)"
    using e assms(1) by (simp add: bitsToUint_horner bit_of_nat_u32 bit_horner_sum_bit_iff rev_nth)
  then show "bits_of (of_nat (bitsToUint bits) :: u32) (length bits) ! i = bits ! i"
    using i v by (auto simp: nth_bits_of)
qed simp

lemma bits_of_byte_inj: "bits_of (a :: u8) 8 = bits_of b 8 \<Longrightarrow> a = b"
proof (rule bit_word_eqI)
  fix n assume e: "bits_of a 8 = bits_of b 8" and "n < LENGTH(8)"
  then have "bits_of a 8 ! (7 - n) = bits_of b 8 ! (7 - n)" "n < 8" by simp_all
  then show "bit a n = bit b n" by (cases "bit a n"; cases "bit b n") (simp_all add: nth_bits_of)
qed

section \<open>Chunks of a bit string\<close>

lemma concat_chunks: "length bits = n * k \<Longrightarrow> concat (map (\<lambda>i. take n (drop (i * n) bits)) [0..<k]) = bits"
proof (induction k arbitrary: bits)
  case (Suc k)
  have "concat (map (\<lambda>i. take n (drop (i * n) (drop n bits))) [0..<k]) = drop n bits"
    using Suc.prems by (intro Suc.IH) simp
  moreover have "map (\<lambda>i. take n (drop (i * n) bits)) [0..<Suc k] =
      take n bits # map (\<lambda>i. take n (drop (i * n) (drop n bits))) [0..<k]"
    by (simp add: upt_conv_Cons map_Suc_upt [symmetric] add.commute del: upt_Suc)
  ultimately show ?case by (simp add: append_take_drop_id)
qed simp

lemma chunk_concat:
  "\<forall>x \<in> set xss. length x = n \<Longrightarrow> i < length xss \<Longrightarrow> take n (drop (i * n) (concat xss)) = xss ! i"
proof (induction xss arbitrary: i)
  case (Cons x xss)
  then show ?case by (cases i) simp_all
qed simp

lemma length_concat_const: "\<forall>x \<in> set xss. length x = n \<Longrightarrow> length (concat xss) = n * length xss"
  by (induction xss) simp_all

section \<open>Packing\<close>

text \<open>After \<open>m\<close> bits, bit \<open>k\<close> of byte \<open>j\<close> is the bit \<open>8 * j + 7 - k\<close> of the slice if it was read, and 0 otherwise.\<close>

lemma pack_prefix:
  assumes "zeros_ones bits" "length bits = 8 * l"
  shows "m \<le> length bits \<Longrightarrow>
    let out = foldl (\<lambda>out i. out[i div 8 := out ! (i div 8) OR push_bit (7 - i mod 8) (bits ! i)]) (replicate (length bits div 8) 0) [0..<m]
    in length out = l \<and> (\<forall>j < l. \<forall>k < 8. bit (out ! j) k = (8 * j + 7 - k < m \<and> bits ! (8 * j + 7 - k) = 1))"
proof (induction m)
  case 0
  then show ?case using assms(2) by (simp add: Let_def)
next
  case (Suc m)
  define out where "out = foldl (\<lambda>out i. out[i div 8 := out ! (i div 8) OR push_bit (7 - i mod 8) (bits ! i)]) (replicate (length bits div 8) 0) [0..<m]"
  have o: "length out = l" "\<And>j k. j < l \<Longrightarrow> k < 8 \<Longrightarrow> bit (out ! j) k = (8 * j + 7 - k < m \<and> bits ! (8 * j + 7 - k) = 1)"
    using Suc by (simp_all add: Let_def out_def)
  have m: "m < 8 * l" using Suc.prems assms(2) by simp
  then have q: "m div 8 < l" by (simp add: less_mult_imp_div_less mult.commute)
  have v: "bits ! m = 0 \<or> bits ! m = 1" using assms Suc.prems by (simp add: zeros_ones_def list_all_length)
  have "bit (out[m div 8 := out ! (m div 8) OR push_bit (7 - m mod 8) (bits ! m)] ! j) k =
      (8 * j + 7 - k < Suc m \<and> bits ! (8 * j + 7 - k) = 1)" if jk: "j < l" "k < 8" for j k
  proof (cases "8 * j + 7 - k = m")
    case True
    then have m8: "m = 8 * j + (7 - k)" using jk(2) by simp
    have "m div 8 = j" "m mod 8 = 7 - k" unfolding m8 by simp_all
    then have "j = m div 8" "7 - m mod 8 = k" using jk(2) by simp_all
    then show ?thesis using True o jk v q by (auto simp: bit_or_iff bit_push_bit_iff bit_1_iff)
  next
    case False
    then have "bit (out[m div 8 := out ! (m div 8) OR push_bit (7 - m mod 8) (bits ! m)] ! j) k = bit (out ! j) k"
    proof (cases "j = m div 8")
      case True
      have "8 * (m div 8) + m mod 8 = m" "m mod 8 < 8" by simp_all
      then have "7 - m mod 8 \<noteq> k" using False jk(2) True by linarith
      then show ?thesis using True o(1) q v by (auto simp: bit_or_iff bit_push_bit_iff bit_1_iff)
    qed (use o(1) in simp)
    then show ?thesis using o(2) [OF jk] False by auto
  qed
  then show ?case using o(1) by (simp add: Let_def out_def [symmetric])
qed

lemma bitsToBytes_bits:
  assumes "zeros_ones bits" "length bits = 8 * l"
  shows "length (bitsToBytes bits) = l" "concat (map (\<lambda>b. bits_of b 8) (bitsToBytes bits)) = bits"
proof -
  have p: "length (bitsToBytes bits) = l"
    "\<And>j k. j < l \<Longrightarrow> k < 8 \<Longrightarrow> bit (bitsToBytes bits ! j) k = (8 * j + 7 - k < length bits \<and> bits ! (8 * j + 7 - k) = 1)"
    using pack_prefix [OF assms order.refl] unfolding bitsToBytes_def Let_def by simp_all
  show "length (bitsToBytes bits) = l" by (rule p(1))
  have "bits_of (bitsToBytes bits ! j) 8 = take 8 (drop (j * 8) bits)" if j: "j < l" for j
  proof (rule nth_equalityI)
    show "length (bits_of (bitsToBytes bits ! j) 8) = length (take 8 (drop (j * 8) bits))" using j assms(2) by simp
    fix i assume "i < length (bits_of (bitsToBytes bits ! j) 8)"
    then have i: "i < 8" by simp
    then have "8 * j + i < length bits" using j assms(2) by linarith
    moreover from this have "bits ! (8 * j + i) = 0 \<or> bits ! (8 * j + i) = 1" using assms(1) by (simp add: zeros_ones_def list_all_length)
    moreover have "8 * j + 7 - (7 - i) = 8 * j + i" using i by simp
    ultimately show "bits_of (bitsToBytes bits ! j) 8 ! i = take 8 (drop (j * 8) bits) ! i"
      using p(2) [OF j, of "7 - i"] i by (auto simp: bits_of_def rev_nth mult.commute)
  qed
  then have "map (\<lambda>b. bits_of b 8) (bitsToBytes bits) = map (\<lambda>j. take 8 (drop (j * 8) bits)) [0..<l]"
    using p(1) by (intro nth_equalityI) simp_all
  then show "concat (map (\<lambda>b. bits_of b 8) (bitsToBytes bits)) = bits" using concat_chunks [OF assms(2)] by simp
qed

lemma bytes_of_bits_inj:
  "concat (map (\<lambda>b. bits_of (b :: u8) 8) xs) = concat (map (\<lambda>b. bits_of b 8) ys) \<Longrightarrow> length xs = length ys \<Longrightarrow> xs = ys"
proof (induction xs arbitrary: ys)
  case (Cons x xs)
  then show ?case by (cases ys) (auto dest: bits_of_byte_inj)
qed simp

lemma take_exact: "length xs = n \<Longrightarrow> take n (xs @ ys) = xs"
  by simp

lemma length_bytes_bits: "length (concat (map (\<lambda>b. bits_of (b :: u8) 8) e)) = 8 * length e"
  using length_concat_const [of "map (\<lambda>b. bits_of b 8) e" 8] by simp

lemma bitsToBytes_of_bits: "bitsToBytes (concat (map (\<lambda>b. bits_of b 8) bs)) = bs"
proof (rule bytes_of_bits_inj)
  let ?bits = "concat (map (\<lambda>b. bits_of b 8) bs)"
  have "zeros_ones ?bits" by (induction bs) simp_all
  moreover have "length ?bits = 8 * length bs" by (rule length_bytes_bits)
  ultimately show "concat (map (\<lambda>b. bits_of b 8) (bitsToBytes ?bits)) = ?bits" "length (bitsToBytes ?bits) = length bs"
    by (rule bitsToBytes_bits(2), rule bitsToBytes_bits(1))
qed

section \<open>White space\<close>

lemma letter_rune: "letter c \<Longrightarrow> (of_char c :: nat) < 0x80 \<and> \<not> IsSpace (of_char c)"
proof (cases c)
  fix a0 a1 a2 a3 a4 a5 a6 a7
  assume l: "letter c" and c: "c = Char a0 a1 a2 a3 a4 a5 a6 a7"
  then have a: "\<not> a7" "a6" "a5" by simp_all
  have "(of_char c :: nat) = of_bool a0 + 2 * of_bool a1 + 4 * of_bool a2 + 8 * of_bool a3 + 16 * of_bool a4 + 96"
    unfolding c byte_value using a by simp
  then have "0x60 \<le> (of_char c :: nat)" "(of_char c :: nat) < 0x80" using byte_bounds(5) [of a0 a1 a2 a3 a4] by linarith+
  then show ?thesis by (auto simp: IsSpace_def)
qed

lemma fields_of_word: "list_all letter w \<Longrightarrow> fields_of cur (w @ s) (Runes (w @ s)) = fields_of (cur @ w) s (Runes s)"
proof (induction w arbitrary: cur)
  case (Cons c w)
  then show ?case using letter_rune [of c] by (simp add: Runes_ascii_Cons)
qed simp

lemma fields_of_space: "fields_of cur (CHR '' '' # s) (Runes (CHR '' '' # s)) = (if cur = [] then [] else [cur]) @ Fields s"
  by (simp add: Runes_ascii_Cons Fields_def IsSpace_def)

lemma Fields_join: "list_all plain_word ws \<Longrightarrow> Fields (JoinOn (CHR '' '') ws) = ws"
proof (induction ws)
  case Nil
  then show ?case by (simp add: Fields_def Runes_Nil)
next
  case (Cons w ws)
  then have w: "w \<noteq> []" "list_all letter w" by (simp_all add: plain_word_def)
  show ?case
  proof (cases ws)
    case Nil
    then show ?thesis using w fields_of_word [OF w(2), of "[]" "[]"] by (simp add: Fields_def Runes_Nil)
  next
    case (Cons v vs)
    then show ?thesis using w Cons.IH Cons.prems fields_of_word [OF w(2), of "[]"]
      by (simp add: Fields_def [of "w @ _"] fields_of_space)
  qed
qed

section \<open>What the parser accepts\<close>

text \<open>The 132 bits of a code: its entropy, then the high four bits of the entropy's digest.\<close>

definition code_bits :: "(bytes \<Rightarrow> sha256) \<Rightarrow> u8 list \<Rightarrow> u8 list" where
  "code_bits sha entropy = concat (map (\<lambda>b. bits_of b 8) entropy) @ bitsOfByte (sha (raw_bytes entropy) ! 0) 4"

definition words_of :: "u8 list \<Rightarrow> bytes list" where
  "words_of bits = map (\<lambda>i. wordlist ! bitsToUint (take 11 (drop (i * 11) bits))) [0..<12]"

lemmas code_sizes = EntropyBytes_def WordCount_def bitsPerWord_def checksumBits_def

lemma foldl_append: "foldl (\<lambda>acc x. acc @ f x) acc xs = acc @ concat (map f xs)"
  by (induction xs arbitrary: acc) simp_all

lemma encode_code_words:
  "encode_code sha e = (if length e \<noteq> 16 then Inl (ErrEntropyLength (length e)) else Inr (JoinOn (CHR '' '') (words_of (code_bits sha e))))"
  by (simp add: encode_code_def code_sizes words_of_def code_bits_def appendBits_eq foldl_append ucast_bits checksum_bits Let_def del: upt_Suc)

lemma code_bits_ok: "length e = 16 \<Longrightarrow> length (code_bits sha e) = 132 \<and> zeros_ones (code_bits sha e)"
proof -
  have "zeros_ones (concat (map (\<lambda>b. bits_of (b :: u8) 8) e))" by (induction e) simp_all
  then show "length e = 16 \<Longrightarrow> ?thesis"
    using length_bytes_bits [of e] by (simp add: code_bits_def bitsOfByte_eq)
qed

text \<open>The bits that a list of words spells, and back.\<close>

definition spelt :: "bytes list \<Rightarrow> u8 list" where
  "spelt ws = concat (map (\<lambda>w. bits_of (of_nat (the (index w)) :: u32) 11) ws)"

lemma words_read:
  "foldR (\<lambda>w bits. bindR (ofOption (ErrUnknownWord w) (index w)) (\<lambda>i. Inr (appendBits bits (of_nat i) 11))) ws bits = Inr r \<longleftrightarrow>
     (\<forall>w \<in> set ws. index w \<noteq> None) \<and> r = bits @ spelt ws"
proof (induction ws arbitrary: bits)
  case (Cons w ws)
  then show ?case by (cases "index w") (auto simp: spelt_def appendBits_eq)
qed (auto simp: spelt_def)

lemma word_bound: "zeros_ones bits \<Longrightarrow> length bits = 11 \<Longrightarrow> bitsToUint bits < 2048"
  using bitsToUint_bound [of bits] by simp

lemma spelt_words_of:
  assumes "zeros_ones bits" "length bits = 132"
  shows "spelt (words_of bits) = bits" "\<forall>w \<in> set (words_of bits). index w \<noteq> None" "list_all plain_word (words_of bits)"
proof -
  have c: "zeros_ones (take 11 (drop (i * 11) bits))" "length (take 11 (drop (i * 11) bits)) = 11" if "i < 12" for i
    using assms that by (auto simp: zeros_ones_def list_all_iff dest: in_set_takeD in_set_dropD)
  have ix: "index (wordlist ! bitsToUint (take 11 (drop (i * 11) bits))) = Some (bitsToUint (take 11 (drop (i * 11) bits)))" if "i < 12" for i
    using word_bound [OF c [OF that]] by (simp add: index_iff)
  have "map (\<lambda>w. bits_of (of_nat (the (index w)) :: u32) 11) (words_of bits) = map (\<lambda>i. take 11 (drop (i * 11) bits)) [0..<12]"
    unfolding words_of_def map_map comp_def
  proof (rule map_cong [OF refl])
    fix i assume "i \<in> set [0..<12]"
    then have i: "i < 12" by simp
    show "bits_of (of_nat (the (index (wordlist ! bitsToUint (take 11 (drop (i * 11) bits))))) :: u32) 11 = take 11 (drop (i * 11) bits)"
      using bits_of_bitsToUint [OF c(1) [OF i]] c(2) [OF i] unfolding ix [OF i] by simp
  qed
  then show "spelt (words_of bits) = bits" using concat_chunks [of bits 11 12] assms(2) by (simp add: spelt_def del: upt_Suc upt_rec_numeral)
  show "\<forall>w \<in> set (words_of bits). index w \<noteq> None" using ix by (auto simp: words_of_def simp del: upt_rec_numeral)
  show "list_all plain_word (words_of bits)"
    using ix wordlist_plain by (auto simp: words_of_def list_all_iff index_iff length_wordlist simp del: upt_rec_numeral dest!: spec)
qed

lemma words_of_spelt:
  assumes "length ws = 12" "\<forall>w \<in> set ws. index w \<noteq> None"
  shows "words_of (spelt ws) = ws" "length (spelt ws) = 132" "zeros_ones (spelt ws)"
proof -
  let ?f = "\<lambda>w. bits_of (of_nat (the (index w)) :: u32) 11"
  have "wordlist ! bitsToUint (take 11 (drop (i * 11) (spelt ws))) = ws ! i" if i: "i < 12" for i
  proof -
    obtain n where n: "index (ws ! i) = Some n" using assms i by (metis nth_mem option.exhaust)
    then have "n < 2048" "wordlist ! n = ws ! i" by (simp_all add: index_iff)
    then show ?thesis using n i assms(1) chunk_concat [of "map ?f ws" 11 i]
      by (simp add: spelt_def bitsToUint_bits_of unsigned_of_nat take_bit_nat_eq_self)
  qed
  then show "words_of (spelt ws) = ws" using assms(1) by (intro nth_equalityI) (simp_all add: words_of_def del: upt_rec_numeral)
  show "length (spelt ws) = 132" using length_concat_const [of "map ?f ws" 11] assms(1) by (simp add: spelt_def)
  show "zeros_ones (spelt ws)" unfolding spelt_def by (induction ws) simp_all
qed

lemma verifyChecksum_iff: "length cs = 4 \<Longrightarrow> verifyChecksum sha e cs = Inr u \<longleftrightarrow> cs = bitsOfByte (sha (raw_bytes e) ! 0) 4"
  by (auto simp: verifyChecksum_def code_sizes Let_def list_all_iff bitsOfByte_eq list_eq_iff_nth_eq simp del: upt_rec_numeral)

text \<open>Parsing in one line: the words spell the bits of some entropy.\<close>

lemma Parse_code_iff:
  "Parse_code sha s = Inr c \<longleftrightarrow>
     (\<exists>e. length e = 16 \<and> Fields s = words_of (code_bits sha e) \<and> c = JoinOn (CHR '' '') (words_of (code_bits sha e)))"
proof
  assume "Parse_code sha s = Inr c"
  then have len: "length (Fields s) = 12" and ix: "\<forall>w \<in> set (Fields s). index w \<noteq> None" and c: "c = JoinOn (CHR '' '') (Fields s)"
    and v: "verifyChecksum sha (bitsToBytes (take 128 (spelt (Fields s)))) (drop 128 (spelt (Fields s))) = Inr ()"
    by (auto simp: Parse_code_def code_sizes Let_def bindR_eq_Inr words_read split: if_splits)
  note w = words_of_spelt [OF len ix]
  let ?e = "bitsToBytes (take 128 (spelt (Fields s)))"
  have t: "zeros_ones (take 128 (spelt (Fields s)))" "length (take 128 (spelt (Fields s))) = 8 * 16"
    using w(2,3) by (auto simp: zeros_ones_def list_all_iff dest: in_set_takeD)
  have "drop 128 (spelt (Fields s)) = bitsOfByte (sha (raw_bytes ?e) ! 0) 4" using v w(2) by (simp add: verifyChecksum_iff)
  then have "code_bits sha ?e = spelt (Fields s)"
    using bitsToBytes_bits(2) [OF t] by (metis append_take_drop_id code_bits_def)
  then show "\<exists>e. length e = 16 \<and> Fields s = words_of (code_bits sha e) \<and> c = JoinOn (CHR '' '') (words_of (code_bits sha e))"
    using w(1) c bitsToBytes_bits(1) [OF t] by auto
next
  assume "\<exists>e. length e = 16 \<and> Fields s = words_of (code_bits sha e) \<and> c = JoinOn (CHR '' '') (words_of (code_bits sha e))"
  then obtain e where e: "length e = 16" "Fields s = words_of (code_bits sha e)" "c = JoinOn (CHR '' '') (words_of (code_bits sha e))" by blast
  have b: "length (code_bits sha e) = 132" "zeros_ones (code_bits sha e)" using code_bits_ok [OF e(1)] by blast+
  have "length (concat (map (\<lambda>b. bits_of (b :: u8) 8) e)) = 128" using length_bytes_bits [of e] e(1) by simp
  then have "bitsToBytes (take 128 (code_bits sha e)) = e" "drop 128 (code_bits sha e) = bitsOfByte (sha (raw_bytes e) ! 0) 4"
    by (simp_all add: code_bits_def bitsToBytes_of_bits)
  then have "verifyChecksum sha (bitsToBytes (take 128 (code_bits sha e))) (drop 128 (code_bits sha e)) = Inr ()"
    by (simp add: verifyChecksum_iff bitsOfByte_eq)
  moreover have "length (words_of (code_bits sha e)) = 12" by (simp add: words_of_def)
  ultimately show "Parse_code sha s = Inr c"
    using e spelt_words_of [OF b(2,1)] words_read [of "words_of (code_bits sha e)" "[]" "code_bits sha e"]
    by (simp add: Parse_code_def code_sizes Let_def)
qed

lemma Fields_code: "length e = 16 \<Longrightarrow> Fields (JoinOn (CHR '' '') (words_of (code_bits sha e))) = words_of (code_bits sha e)"
  using code_bits_ok [of e sha] by (intro Fields_join spelt_words_of(3)) auto

lemma take_code_bits: "length e = 16 \<Longrightarrow> take 128 (code_bits sha e) = concat (map (\<lambda>b. bits_of b 8) e)"
  unfolding code_bits_def by (rule take_exact) (simp only: length_bytes_bits)

lemma code_bits_inj: "length e = 16 \<Longrightarrow> length e' = 16 \<Longrightarrow> words_of (code_bits sha e) = words_of (code_bits sha e') \<Longrightarrow> e = e'"
proof -
  assume l: "length e = 16" "length e' = 16" and w: "words_of (code_bits sha e) = words_of (code_bits sha e')"
  have "code_bits sha e = code_bits sha e'"
    using arg_cong [OF w, of spelt] spelt_words_of(1) [of "code_bits sha e"] spelt_words_of(1) [of "code_bits sha e'"]
      code_bits_ok [OF l(1), of sha] code_bits_ok [OF l(2), of sha] by (elim conjE) (simp only: )
  then have "take 128 (code_bits sha e) = take 128 (code_bits sha e')" by simp
  then have "concat (map (\<lambda>b. bits_of b 8) e) = concat (map (\<lambda>b. bits_of b 8) e')"
    unfolding take_code_bits [OF l(1)] take_code_bits [OF l(2)] .
  then show "e = e'" by (rule bytes_of_bits_inj) (simp only: l)
qed

text \<open>C24: The parser of recovery codes accepts exactly the codes the generator can print: a text parses to a code exactly when it is
  that code up to the white space around its words, and the code is the one of some sixteen bytes of entropy. The code
  determines its entropy, so notebooks with different entropy have different codes, and every generated code parses to itself.\<close>

theorem codes_exact:
  "(Parse_code sha s = Inr c \<longleftrightarrow> (\<exists>e. Generate sha (Some e) = Inr c \<and> Fields s = Fields c)) \<and>
   (Generate sha (Some e) = Inr c \<and> Generate sha (Some e') = Inr c \<longrightarrow> e = e') \<and>
   (Generate sha (Some e) = Inr c \<longrightarrow> Parse_code sha c = Inr c)"
proof (intro conjI impI)
  have g: "Generate sha (Some e) = Inr c \<longleftrightarrow> length e = 16 \<and> c = JoinOn (CHR '' '') (words_of (code_bits sha e))" for e c
    by (auto simp: Generate_def encode_code_words)
  show "Parse_code sha s = Inr c \<longleftrightarrow> (\<exists>e. Generate sha (Some e) = Inr c \<and> Fields s = Fields c)"
    unfolding Parse_code_iff g using Fields_code by metis
  show "Generate sha (Some e) = Inr c \<Longrightarrow> Parse_code sha c = Inr c"
    unfolding Parse_code_iff g using Fields_code by metis
  assume "Generate sha (Some e) = Inr c \<and> Generate sha (Some e') = Inr c"
  then have l: "length e = 16" "length e' = 16" and c: "c = JoinOn (CHR '' '') (words_of (code_bits sha e))" "c = JoinOn (CHR '' '') (words_of (code_bits sha e'))"
    unfolding g by blast+
  have "words_of (code_bits sha e) = words_of (code_bits sha e')" using Fields_code [OF l(1), of sha] Fields_code [OF l(2), of sha] c by metis
  then show "e = e'" by (rule code_bits_inj [OF l])
qed

lemma zero_code: "Generate (\<lambda>_. replicate 32 0) (Some (replicate 16 0)) = Inr (JoinOn (CHR '' '') (replicate 12 ''abandon''))"
proof -
  have z: "bitsToUint (replicate n 0) = 0" for n by (induction n) (simp_all add: bitsToUint_def)
  have b: "bits_of (0 :: u8) n = replicate n 0" for n by (rule nth_equalityI) (simp_all add: nth_bits_of)
  have c: "code_bits (\<lambda>_. replicate 32 0) (replicate 16 0) = replicate 132 0"
  proof -
    have "concat (map (\<lambda>b. bits_of b 8) (replicate k (0 :: u8))) = replicate (8 * k) 0" for k
      by (induction k) (simp_all add: b flip: replicate_add)
    then show ?thesis unfolding code_bits_def bitsOfByte_eq by (simp add: b flip: replicate_add)
  qed
  have w: "wordlist ! 0 = ''abandon''" by (simp add: wordlist_def nth_append words_ok words_0_def)
  have "words_of (replicate 132 0) = map (\<lambda>i. ''abandon'') [0..<12]"
    unfolding words_of_def by (rule map_cong [OF refl]) (simp add: w z del: upt_rec_numeral)
  also have "\<dots> = replicate 12 ''abandon''" by (simp only: map_replicate_const) simp
  finally show ?thesis by (simp add: Generate_def encode_code_words c)
qed

theorem codes_exact_witness:
  "Parse_code (\<lambda>_. replicate 32 0) (JoinOn (CHR '' '') (replicate 12 ''abandon'')) = Inr (JoinOn (CHR '' '') (replicate 12 ''abandon''))"
  using codes_exact [of "\<lambda>_. replicate 32 0" "[]" "JoinOn (CHR '' '') (replicate 12 ''abandon'')" "replicate 16 0"] zero_code by blast

end
