(* ===== verification/MaskedRead.thy ===== *)
theory MaskedRead
  imports PathRules
begin

text \<open>
  The masked read of a secret from a terminal (\<open>internal/tui/masked.go\<close>): the byte-at-a-time line editor that draws one mask
  byte per character, with the parts of Go's \<open>unicode/utf8\<close> it calls.

  The terminal is the list of what its reads deliver, and a counter of the writes, each of which writes everything or, where
  \<open>short\<close> says so, a part before it fails. A Go error that joins several is the list of them. The editor agrees with a list of
  keystrokes edited as a list of characters, and the screen shows one mask byte for each of them (\<open>masked_line_exact\<close>).
\<close>

section \<open>UTF-8 from both ends\<close>

definition rune_need :: "nat \<Rightarrow> nat" where
  "rune_need b0 = (if 0xC2 \<le> b0 \<and> b0 \<le> 0xDF then 2 else if 0xE0 \<le> b0 \<and> b0 \<le> 0xEF then 3 else if 0xF0 \<le> b0 \<and> b0 \<le> 0xF4 then 4 else 1)"

definition second_ok :: "nat \<Rightarrow> nat \<Rightarrow> bool" where
  "second_ok b0 b1 \<longleftrightarrow> (if b0 = 0xE0 then 0xA0 else if b0 = 0xF0 then 0x90 else 0x80) \<le> b1 \<and>
     b1 \<le> (if b0 = 0xED then 0x9F else if b0 = 0xF4 then 0x8F else 0xBF)"

definition FullRune :: "bytes \<Rightarrow> bool" where
  "FullRune p \<longleftrightarrow> p \<noteq> [] \<and> (rune_need (byteAt p 0) \<le> length p \<or> 1 < length p \<and> \<not> second_ok (byteAt p 0) (byteAt p 1) \<or>
     2 < length p \<and> \<not> cont_byte (byteAt p 2))"

definition DecodeLastRune :: "bytes \<Rightarrow> nat \<times> nat" where
  "DecodeLastRune p =
     (let stop = length p in
      if stop = 0 then (0xFFFD, 0)
      else if byteAt p (stop - 1) < 0x80 then (byteAt p (stop - 1), 1)
      else
        let lim = stop - 4;
            start = (case find (\<lambda>i. \<not> cont_byte (byteAt p i)) (rev [lim..<stop - 1]) of Some i \<Rightarrow> i | None \<Rightarrow> lim - 1);
            (r, w) = DecodeRune (drop start p) in
        if start + w \<noteq> stop then (0xFFFD, 1) else (r, w))"

section \<open>The editor\<close>

datatype tty_read = ByteRead char | NothingRead | EndRead | FailedRead
datatype tty_error = TtyInterrupt | TtyEnd | TtyRead | TtyWrite | TtyMode

datatype escapeState = EscapeNone | EscapeStart | EscapeCSI | EscapeSS3

definition escape_step :: "escapeState \<Rightarrow> nat \<Rightarrow> escapeState" where
  "escape_step s b =
     (case s of
        EscapeStart \<Rightarrow> if b = 0x5B then EscapeCSI else if b = 0x4F then EscapeSS3 else EscapeNone
      | EscapeCSI \<Rightarrow> if 0x40 \<le> b \<and> b \<le> 0x7E then EscapeNone else EscapeCSI
      | _ \<Rightarrow> EscapeNone)"

record screen =
  sc_drawn :: bytes
  sc_writes :: nat

definition writeTty :: "(nat \<Rightarrow> nat option) \<Rightarrow> bytes \<Rightarrow> screen \<Rightarrow> bool \<times> screen" where
  "writeTty short text s =
     (case short (sc_writes s) of
        None \<Rightarrow> (True, \<lparr>sc_drawn = sc_drawn s @ text, sc_writes = Suc (sc_writes s)\<rparr>)
      | Some k \<Rightarrow> (False, \<lparr>sc_drawn = sc_drawn s @ take k text, sc_writes = Suc (sc_writes s)\<rparr>))"

function append_runes :: "bytes \<Rightarrow> bytes \<Rightarrow> nat \<Rightarrow> bytes \<times> bytes \<times> nat" where
  "append_runes line pending stars =
     (if pending = [] \<or> \<not> FullRune pending then (line, pending, stars)
      else let w = snd (DecodeRune pending) in append_runes (line @ take w pending) (drop w pending) (Suc stars))"
  by pat_completeness auto
termination
proof (relation "measure (\<lambda>(line, pending, stars). length pending)")
  fix line pending :: bytes and stars w assume "\<not> (pending = [] \<or> \<not> FullRune pending)" "w = snd (DecodeRune pending)"
  then show "((line @ take w pending, drop w pending, Suc stars), line, pending, stars) \<in> measure (\<lambda>(line, pending, stars). length pending)"
    using DecodeRune_width [of pending] by auto
qed simp

declare append_runes.simps [simp del]

definition appendMasked :: "bytes \<Rightarrow> bytes \<Rightarrow> char \<Rightarrow> bytes \<times> bytes \<times> nat" where
  "appendMasked line pending b = append_runes line (pending @ [b]) 0"

definition erasure :: bytes where "erasure = [CHR 0x08, CHR 0x20, CHR 0x08]"
definition line_end :: bytes where "line_end = [CHR 0x0D, CHR 0x0A]"

definition eraseRune :: "(nat \<Rightarrow> nat option) \<Rightarrow> bytes \<Rightarrow> bytes \<Rightarrow> screen \<Rightarrow> (bytes \<times> bytes \<times> bool) \<times> screen" where
  "eraseRune short line pending s =
     (if pending \<noteq> [] then ((line, [], True), s)
      else if line = [] then ((line, pending, True), s)
      else case writeTty short erasure s of (ok, s') \<Rightarrow> ((take (length line - snd (DecodeLastRune line)) line, pending, ok), s'))"

record editor =
  ed_line :: bytes
  ed_pending :: bytes
  ed_escape :: escapeState
  ed_screen :: screen

text \<open>What one byte does: the read goes on with the new editor, or ends with a line, an error and the screen.\<close>

definition editByte :: "(nat \<Rightarrow> nat option) \<Rightarrow> char \<Rightarrow> char \<Rightarrow> editor \<Rightarrow> editor + (bytes \<times> tty_error list) \<times> screen" where
  "editByte short star b e =
     (let v = of_char b :: nat; line = ed_line e; s = ed_screen e in
      if ed_escape e \<noteq> EscapeNone then Inl (e\<lparr>ed_escape := escape_step (ed_escape e) v\<rparr>)
      else if v = 0x0D \<or> v = 0x0A then
        (case writeTty short line_end s of (ok, s') \<Rightarrow> Inr ((line, if ok then [] else [TtyWrite]), s'))
      else if v = 0x7F \<or> v = 0x08 then
        (case eraseRune short line (ed_pending e) s of ((line', pending', ok), s') \<Rightarrow>
           if ok then Inl (e\<lparr>ed_line := line', ed_pending := pending', ed_screen := s'\<rparr>) else Inr ((line', [TtyWrite]), s'))
      else if v = 0x03 then Inr (([], [TtyInterrupt]), s)
      else if v = 0x04 then Inr ((line, [TtyEnd]), s)
      else if v = 0x1B then Inl (e\<lparr>ed_escape := EscapeStart\<rparr>)
      else if v < 0x20 then Inl e
      else
        (case appendMasked line (ed_pending e) b of (line', pending', stars) \<Rightarrow>
           (case writeTty short (replicate stars star) s of (ok, s') \<Rightarrow>
              if ok then Inl (e\<lparr>ed_line := line', ed_pending := pending', ed_screen := s'\<rparr>) else Inr ((line', [TtyWrite]), s'))))"

fun readMaskedLine :: "(nat \<Rightarrow> nat option) \<Rightarrow> char \<Rightarrow> editor \<Rightarrow> tty_read list \<Rightarrow> (bytes \<times> tty_error list) \<times> screen \<times> tty_read list" where
  "readMaskedLine short star e [] = ((ed_line e, [TtyEnd]), ed_screen e, [])"
| "readMaskedLine short star e (NothingRead # rs) = readMaskedLine short star e rs"
| "readMaskedLine short star e (EndRead # rs) = ((ed_line e, [TtyEnd]), ed_screen e, rs)"
| "readMaskedLine short star e (FailedRead # rs) = ((ed_line e, [TtyRead]), ed_screen e, rs)"
| "readMaskedLine short star e (ByteRead b # rs) =
     (case editByte short star b e of
        Inl e' \<Rightarrow> readMaskedLine short star e' rs
      | Inr (result, s) \<Rightarrow> (result, s, rs))"

definition emptyEditor :: "screen \<Rightarrow> editor" where
  "emptyEditor s = \<lparr>ed_line = [], ed_pending = [], ed_escape = EscapeNone, ed_screen = s\<rparr>"

text \<open>The terminal's mode is set and restored by calls that may fail.\<close>

record terminal =
  tt_raw :: bool
  tt_restored :: bool
  tt_short :: "nat \<Rightarrow> nat option"

definition ReadMasked :: "terminal \<Rightarrow> bytes \<Rightarrow> char \<Rightarrow> screen \<Rightarrow> tty_read list \<Rightarrow> (bytes \<times> tty_error list) \<times> screen \<times> tty_read list" where
  "ReadMasked t label star s rs =
     (if \<not> tt_raw t then (([], [TtyMode]), s, rs)
      else
        let ((line, errs), s', rs') =
              (case writeTty (tt_short t) label s of
                 (False, s1) \<Rightarrow> (([], [TtyWrite]), s1, rs)
               | (True, s1) \<Rightarrow> readMaskedLine (tt_short t) star (emptyEditor s1) rs) in
        ((line, errs @ (if tt_restored t then [] else [TtyMode])), s', rs'))"

section \<open>Characters\<close>

text \<open>A whole valid character, and its bytes one by one.\<close>

definition whole_rune :: "bytes \<Rightarrow> bool" where
  "whole_rune ch \<longleftrightarrow> ch \<noteq> [] \<and> snd (DecodeRune ch) = length ch \<and> DecodeRune ch \<noteq> (0xFFFD, 1)"

lemma byteAt_Cons: "byteAt (c # s) 0 = of_char c" "byteAt (c # s) (Suc i) = byteAt s i" "byteAt [] i = 0"
  by (simp_all add: byteAt_def)

lemmas rune_parts = DecodeRune_def byteAt_Cons Let_def numeral_2_eq_2 numeral_3_eq_3

lemma whole_rune_cases:
  assumes "whole_rune ch"
  obtains (one) b where "ch = [b]" "(of_char b :: nat) < 0x80"
  | (two) b c where "ch = [b, c]" "0xC2 \<le> (of_char b :: nat)" "(of_char b :: nat) \<le> 0xDF" "cont_byte (of_char c)"
  | (three) b c d where "ch = [b, c, d]" "0xE0 \<le> (of_char b :: nat)" "(of_char b :: nat) \<le> 0xEF" "cont_byte (of_char c)" "cont_byte (of_char d)"
      "(of_char b :: nat) = 0xE0 \<longrightarrow> 0xA0 \<le> (of_char c :: nat)" "(of_char b :: nat) = 0xED \<longrightarrow> (of_char c :: nat) \<le> 0x9F"
  | (four) b c d f where "ch = [b, c, d, f]" "0xF0 \<le> (of_char b :: nat)" "(of_char b :: nat) \<le> 0xF4" "cont_byte (of_char c)" "cont_byte (of_char d)"
      "cont_byte (of_char f)" "(of_char b :: nat) = 0xF0 \<longrightarrow> 0x90 \<le> (of_char c :: nat)" "(of_char b :: nat) = 0xF4 \<longrightarrow> (of_char c :: nat) \<le> 0x8F"
proof -
  obtain b bs where ch: "ch = b # bs" using assms by (cases ch) (auto simp: whole_rune_def)
  have w: "snd (DecodeRune ch) = Suc (length bs)" "DecodeRune ch \<noteq> (0xFFFD, 1)" using assms by (simp_all add: whole_rune_def ch)
  consider "bs = []" | c where "bs = [c]" | c d where "bs = [c, d]" | c d f where "bs = [c, d, f]" | "4 \<le> length bs"
    by (cases bs; cases "tl bs"; cases "tl (tl bs)"; cases "tl (tl (tl bs))") auto
  then show ?thesis
  proof cases
    case 1
    have "(of_char b :: nat) < 0x80" using w unfolding ch 1 by (simp add: rune_parts split: if_split_asm)
    then show ?thesis using one ch 1 by blast
  next
    case (2 c)
    have "0xC2 \<le> (of_char b :: nat) \<and> (of_char b :: nat) \<le> 0xDF \<and> cont_byte (of_char c)"
      using w unfolding ch 2 by (simp add: rune_parts split: if_split_asm)
    then show ?thesis using two ch 2 by blast
  next
    case (3 c d)
    have "0xE0 \<le> (of_char b :: nat) \<and> (of_char b :: nat) \<le> 0xEF \<and> cont_byte (of_char c) \<and> cont_byte (of_char d) \<and>
        ((of_char b :: nat) = 0xE0 \<longrightarrow> 0xA0 \<le> (of_char c :: nat)) \<and> ((of_char b :: nat) = 0xED \<longrightarrow> (of_char c :: nat) \<le> 0x9F)"
      using w unfolding ch 3 by (simp add: rune_parts split: if_split_asm)
    then show ?thesis using three ch 3 by blast
  next
    case (4 c d f)
    have "0xF0 \<le> (of_char b :: nat) \<and> (of_char b :: nat) \<le> 0xF4 \<and> cont_byte (of_char c) \<and> cont_byte (of_char d) \<and> cont_byte (of_char f) \<and>
        ((of_char b :: nat) = 0xF0 \<longrightarrow> 0x90 \<le> (of_char c :: nat)) \<and> ((of_char b :: nat) = 0xF4 \<longrightarrow> (of_char c :: nat) \<le> 0x8F)"
      using w unfolding ch 4 by (simp add: rune_parts split: if_split_asm)
    then show ?thesis using four ch 4 by blast
  next
    case 5
    have "snd (DecodeRune ch) \<le> 4" by (simp add: DecodeRune_def Let_def)
    then show ?thesis using w 5 by simp
  qed
qed

lemma whole_full: "whole_rune ch \<Longrightarrow> FullRune ch"
  by (erule whole_rune_cases) (simp_all add: FullRune_def rune_need_def byteAt_Cons)

lemma whole_prefix:
  assumes "whole_rune ch" "i < length ch"
  shows "\<not> FullRune (take i ch)"
proof (cases rule: whole_rune_cases [OF assms(1)])
  case (1 b)
  then show ?thesis using assms(2) by (simp add: FullRune_def)
next
  case (2 b c)
  then have "rune_need (of_char b) = 2" by (simp add: rune_need_def)
  moreover have "i = 0 \<or> i = 1" using assms(2) 2(1) by auto
  ultimately show ?thesis by (auto simp: 2(1) FullRune_def byteAt_Cons)
next
  case (3 b c d)
  then have "rune_need (of_char b) = 3" "second_ok (of_char b) (of_char c)" by (auto simp: rune_need_def second_ok_def cont_byte_def)
  moreover have "i = 0 \<or> i = 1 \<or> i = 2" using assms(2) 3(1) by auto
  ultimately show ?thesis by (auto simp: 3(1) FullRune_def byteAt_Cons numeral_2_eq_2)
next
  case (4 b c d f)
  then have "rune_need (of_char b) = 4" "second_ok (of_char b) (of_char c)" by (auto simp: rune_need_def second_ok_def cont_byte_def)
  moreover have "i = 0 \<or> i = 1 \<or> i = 2 \<or> i = 3" using assms(2) 4(1) by auto
  ultimately show ?thesis using 4(5) by (auto simp: 4(1) FullRune_def byteAt_Cons numeral_2_eq_2 numeral_3_eq_3)
qed

lemma whole_shape:
  assumes "whole_rune ch"
  shows "ch \<noteq> [] \<and> length ch \<le> 4 \<and> \<not> cont_byte (of_char (hd ch)) \<and> list_all (\<lambda>c. cont_byte (of_char c)) (tl ch) \<and>
    (length ch = 1 \<longleftrightarrow> (of_char (last ch) :: nat) < 0x80)"
proof (cases rule: whole_rune_cases [OF assms])
  case (1 b)
  then show ?thesis by (simp add: cont_byte_def)
next
  case (2 b c)
  then have "\<not> cont_byte (of_char b)" "\<not> (of_char c :: nat) < 0x80" by (simp_all add: cont_byte_def)
  then show ?thesis using 2(1,4) by simp
next
  case (3 b c d)
  then have "\<not> cont_byte (of_char b)" "\<not> (of_char d :: nat) < 0x80" by (simp_all add: cont_byte_def)
  then show ?thesis using 3(1,4,5) by simp
next
  case (4 b c d f)
  then have "\<not> cont_byte (of_char b)" "\<not> (of_char f :: nat) < 0x80" by (simp_all add: cont_byte_def)
  then show ?thesis using 4(1,4-6) by simp
qed

lemma find_last:
  assumes "i \<in> set xs" "xs = rev [lo..<hi]" "P i" "\<And>j. i < j \<Longrightarrow> j < hi \<Longrightarrow> \<not> P j"
  shows "find P xs = Some i"
proof -
  have b: "lo \<le> i" "i < hi" using assms(1,2) by auto
  then have "[lo..<hi] = [lo..<i] @ i # [Suc i..<hi]" using upt_add_eq_append [of lo i "hi - i"] by (simp add: upt_conv_Cons)
  then have xs: "xs = rev [Suc i..<hi] @ i # rev [lo..<i]" using assms(2) by simp
  have "find P (rev [Suc i..<hi]) = None" using assms(4) by (auto simp: find_None_iff)
  moreover have "find P (ys @ zs) = (case find P ys of None \<Rightarrow> find P zs | Some x \<Rightarrow> Some x)" for ys zs
    by (induction ys) auto
  ultimately show ?thesis using assms(3) by (simp add: xs)
qed

lemma byteAt_append: "byteAt (s @ t) (length s + i) = byteAt t i"
  by (simp add: byteAt_def nth_append)

lemma whole_last:
  assumes "whole_rune ch"
  shows "snd (DecodeLastRune (line @ ch)) = length ch"
proof -
  let ?p = "line @ ch"
  note shape = whole_shape [OF assms]
  have w: "snd (DecodeRune ch) = length ch" "ch \<noteq> []" "length ch \<le> 4" "\<not> cont_byte (byteAt ch 0)"
      "length ch = 1 \<longleftrightarrow> byteAt ch (length ch - 1) < 0x80"
    using shape assms by (auto simp: whole_rune_def byteAt_def hd_conv_nth last_conv_nth)
  have conts: "cont_byte (byteAt ch j)" if "0 < j" "j < length ch" for j
    using shape that by (cases ch; cases j) (auto simp: byteAt_def list_all_iff)
  have at: "byteAt ?p (length ?p - 1) = byteAt ch (length ch - 1)"
    using byteAt_append [of line ch "length ch - 1"] w(2) by (cases ch) simp_all
  show ?thesis
  proof (cases "length ch = 1")
    case True
    then show ?thesis using w(2,5) at by (simp add: DecodeLastRune_def Let_def)
  next
    case False
    then have l: "1 < length ch" using w(2) by (cases ch) auto
    have "find (\<lambda>i. \<not> cont_byte (byteAt ?p i)) (rev [length ?p - 4..<length ?p - 1]) = Some (length line)"
    proof (rule find_last [OF _ refl])
      show "length line \<in> set (rev [length ?p - 4..<length ?p - 1])" using l w(3) by auto
      show "\<not> cont_byte (byteAt ?p (length line))" using byteAt_append [of line ch 0] w(4) by simp
      fix j assume j: "length line < j" "j < length ?p - 1"
      then have "byteAt ?p j = byteAt ch (j - length line)" using byteAt_append [of line ch "j - length line"] by simp
      then show "\<not> \<not> cont_byte (byteAt ?p j)" using conts [of "j - length line"] j by simp
    qed
    moreover have "\<not> byteAt ?p (length ?p - 1) < 0x80" using False w(5) at by simp
    moreover obtain r where "DecodeRune ch = (r, length ch)" using w(1) by (metis prod.collapse)
    ultimately show ?thesis using w(2) by (simp add: DecodeLastRune_def Let_def)
  qed
qed

lemma appendMasked_whole:
  assumes "whole_rune ch" "i < length ch"
  shows "appendMasked line (take i ch) (ch ! i) = (if Suc i = length ch then (line @ ch, [], 1) else (line, take (Suc i) ch, 0))"
proof -
  have t: "take i ch @ [ch ! i] = take (Suc i) ch" using assms(2) by (simp add: take_Suc_conv_app_nth)
  have w: "snd (DecodeRune ch) = length ch" "ch \<noteq> []" using assms(1) by (simp_all add: whole_rune_def)
  show ?thesis
  proof (cases "Suc i = length ch")
    case True
    then show ?thesis using t w whole_full [OF assms(1)]
      by (simp add: appendMasked_def append_runes.simps [of line ch 0] append_runes.simps [of _ "[]"])
  next
    case False
    then show ?thesis using t assms whole_prefix [of ch "Suc i"] by (simp add: appendMasked_def append_runes.simps)
  qed
qed

section \<open>Keystrokes\<close>

text \<open>What a person types: a character, an erasure, the sequences a terminal sends for other keys, or a control key without
  a meaning. Editing them as a list of characters is the reference.\<close>

datatype keystroke = Typed bytes | Rubout | Backspace | Csi bytes char | Ss3 char | Escaped char | Control char

fun key_ok :: "keystroke \<Rightarrow> bool" where
  "key_ok (Typed ch) \<longleftrightarrow> whole_rune ch \<and> 0x20 \<le> byteAt ch 0 \<and> byteAt ch 0 \<noteq> 0x7F"
| "key_ok (Csi params c) \<longleftrightarrow> list_all (\<lambda>p. \<not> (0x40 \<le> (of_char p :: nat) \<and> (of_char p :: nat) \<le> 0x7E)) params \<and>
     0x40 \<le> (of_char c :: nat) \<and> (of_char c :: nat) \<le> 0x7E"
| "key_ok (Escaped c) \<longleftrightarrow> (of_char c :: nat) \<noteq> 0x5B \<and> (of_char c :: nat) \<noteq> 0x4F"
| "key_ok (Control c) \<longleftrightarrow> (of_char c :: nat) < 0x20 \<and> (of_char c :: nat) \<notin> {0x03, 0x04, 0x08, 0x0A, 0x0D, 0x1B}"
| "key_ok _ \<longleftrightarrow> True"

fun key_bytes :: "keystroke \<Rightarrow> bytes" where
  "key_bytes (Typed ch) = ch"
| "key_bytes Rubout = [CHR 0x7F]"
| "key_bytes Backspace = [CHR 0x08]"
| "key_bytes (Csi params c) = [CHR 0x1B, CHR 0x5B] @ params @ [c]"
| "key_bytes (Ss3 c) = [CHR 0x1B, CHR 0x4F, c]"
| "key_bytes (Escaped c) = [CHR 0x1B, c]"
| "key_bytes (Control c) = [c]"

fun edit_key :: "bytes list \<Rightarrow> keystroke \<Rightarrow> bytes list" where
  "edit_key cs (Typed ch) = cs @ [ch]"
| "edit_key cs Rubout = butlast cs"
| "edit_key cs Backspace = butlast cs"
| "edit_key cs _ = cs"

definition edited :: "keystroke list \<Rightarrow> bytes list" where
  "edited ks = foldl edit_key [] ks"

text \<open>The row of the screen: the cells and the cursor, which a backspace moves left.\<close>

fun shown :: "bytes \<Rightarrow> nat \<Rightarrow> bytes \<Rightarrow> bytes \<times> nat" where
  "shown row i [] = (row, i)"
| "shown row i (c # cs) =
     (if c = CHR 0x08 then shown row (i - 1) cs
      else shown (if i < length row then row[i := c] else row @ [c]) (Suc i) cs)"

fun drawn_by :: "char \<Rightarrow> bytes list \<Rightarrow> keystroke \<Rightarrow> bytes" where
  "drawn_by star cs (Typed ch) = [star]"
| "drawn_by star cs Rubout = (if cs = [] then [] else erasure)"
| "drawn_by star cs Backspace = (if cs = [] then [] else erasure)"
| "drawn_by star cs _ = []"

fun drawn_keys :: "char \<Rightarrow> bytes list \<Rightarrow> keystroke list \<Rightarrow> bytes" where
  "drawn_keys star cs [] = []"
| "drawn_keys star cs (k # ks) = drawn_by star cs k @ drawn_keys star (edit_key cs k) ks"

text \<open>What a byte that ends the line makes of the characters typed, and what it draws.\<close>

definition read_end :: "char \<Rightarrow> bytes \<Rightarrow> (bytes \<times> tty_error list) \<times> bytes" where
  "read_end e line =
     (if e \<in> {CHR 0x0D, CHR 0x0A} then ((line, []), line_end)
      else if e = CHR 0x03 then (([], [TtyInterrupt]), [])
      else ((line, [TtyEnd]), []))"

definition ended_line :: "bytes list \<Rightarrow> bytes \<Rightarrow> nat \<Rightarrow> editor" where
  "ended_line cs d k = \<lparr>ed_line = concat cs, ed_pending = [], ed_escape = EscapeNone, ed_screen = \<lparr>sc_drawn = d, sc_writes = k\<rparr>\<rparr>"

lemma writes_all: "writeTty (\<lambda>_. None) t s = (True, \<lparr>sc_drawn = sc_drawn s @ t, sc_writes = Suc (sc_writes s)\<rparr>)"
  by (simp add: writeTty_def)

lemma typed_bytes:
  assumes "whole_rune ch" "0x20 \<le> byteAt ch 0" "byteAt ch 0 \<noteq> 0x7F" "i < length ch"
  shows "0x20 \<le> (of_char (ch ! i) :: nat) \<and> (of_char (ch ! i) :: nat) \<noteq> 0x7F"
proof (cases i)
  case 0
  then show ?thesis using assms by (simp add: byteAt_def)
next
  case (Suc j)
  then have "cont_byte (of_char (ch ! i))" using whole_shape [OF assms(1)] assms(4) by (cases ch) (auto simp: list_all_length)
  then show ?thesis by (simp add: cont_byte_def)
qed

lemma typed_run:
  assumes "key_ok (Typed ch)" "i < length ch"
  shows "\<exists>k'. readMaskedLine (\<lambda>_. None) star ((ended_line cs d k)\<lparr>ed_pending := take i ch\<rparr>) (map ByteRead (drop i ch) @ rs) =
    readMaskedLine (\<lambda>_. None) star (ended_line (cs @ [ch]) (d @ [star]) k') rs"
  using assms(2)
proof (induction "length ch - i" arbitrary: i k)
  case (Suc n)
  have b: "whole_rune ch" "0x20 \<le> (of_char (ch ! i) :: nat)" "(of_char (ch ! i) :: nat) \<noteq> 0x7F"
    using assms(1) typed_bytes [of ch i] Suc.prems by auto
  have split: "drop i ch = ch ! i # drop (Suc i) ch" using Suc.prems by (simp add: Cons_nth_drop_Suc)
  show ?case
  proof (cases "Suc i = length ch")
    case True
    then show ?thesis using b appendMasked_whole [OF b(1) Suc.prems]
      by (auto simp: split editByte_def writes_all ended_line_def Let_def)
  next
    case False
    then have "Suc i < length ch" using Suc.prems by simp
    then have "\<exists>k'. readMaskedLine (\<lambda>_. None) star ((ended_line cs d (Suc k))\<lparr>ed_pending := take (Suc i) ch\<rparr>) (map ByteRead (drop (Suc i) ch) @ rs) =
        readMaskedLine (\<lambda>_. None) star (ended_line (cs @ [ch]) (d @ [star]) k') rs"
      by (intro Suc.hyps(1)) (use Suc.hyps(2) in simp_all)
    then show ?thesis using b False appendMasked_whole [OF b(1) Suc.prems]
      by (simp add: split editByte_def writes_all ended_line_def Let_def)
  qed
qed simp

lemma csi_run:
  assumes "key_ok (Csi params c)"
  shows "readMaskedLine short star (e\<lparr>ed_escape := EscapeCSI\<rparr>) (map ByteRead (params @ [c]) @ rs) = readMaskedLine short star (e\<lparr>ed_escape := EscapeNone\<rparr>) rs"
  using assms by (induction params) (auto simp: editByte_def escape_step_def Let_def)

lemma erase_run:
  assumes "list_all whole_rune cs" "b \<in> {CHR 0x7F, CHR 0x08}"
  shows "\<exists>k'. readMaskedLine (\<lambda>_. None) star (ended_line cs d k) (ByteRead b # rs) =
    readMaskedLine (\<lambda>_. None) star (ended_line (butlast cs) (d @ (if cs = [] then [] else erasure)) k') rs"
proof (cases cs rule: rev_cases)
  case Nil
  then show ?thesis using assms(2) by (auto simp: editByte_def eraseRune_def ended_line_def Let_def)
next
  case (snoc cs' ch)
  then have "whole_rune ch" using assms(1) by simp
  then have "snd (DecodeLastRune (concat cs' @ ch)) = length ch" "ch \<noteq> []" by (simp_all add: whole_last whole_rune_def)
  then show ?thesis using snoc assms(2) by (auto simp: editByte_def eraseRune_def ended_line_def writes_all Let_def)
qed

lemma edit_key_whole: "list_all whole_rune cs \<Longrightarrow> key_ok k \<Longrightarrow> list_all whole_rune (edit_key cs k)"
  by (cases k) (auto simp: list_all_iff dest: in_set_butlastD)

lemma key_run:
  assumes "list_all whole_rune cs" "key_ok key"
  shows "\<exists>k'. readMaskedLine (\<lambda>_. None) star (ended_line cs d k) (map ByteRead (key_bytes key) @ rs) =
    readMaskedLine (\<lambda>_. None) star (ended_line (edit_key cs key) (d @ drawn_by star cs key) k') rs"
proof (cases key)
  case (Typed ch)
  then have "0 < length ch" using assms(2) by (auto simp: whole_rune_def)
  then show ?thesis using typed_run [of ch 0 star cs d k rs] assms(2) Typed by (simp add: ended_line_def)
next
  case Rubout
  then show ?thesis using erase_run [OF assms(1), of "CHR 0x7F" star d k rs] by simp
next
  case Backspace
  then show ?thesis using erase_run [OF assms(1), of "CHR 0x08" star d k rs] by simp
next
  case (Csi params c)
  then show ?thesis using csi_run [of params c "\<lambda>_. None" star "ended_line cs d k" rs] assms(2)
    by (auto simp: editByte_def escape_step_def ended_line_def Let_def)
next
  case (Ss3 c)
  then show ?thesis by (auto simp: editByte_def escape_step_def ended_line_def Let_def)
next
  case (Escaped c)
  then show ?thesis using assms(2) by (auto simp: editByte_def escape_step_def ended_line_def Let_def)
next
  case (Control c)
  then show ?thesis using assms(2) by (auto simp: editByte_def ended_line_def Let_def)
qed

lemma keys_run:
  assumes "list_all whole_rune cs" "list_all key_ok ks"
  shows "\<exists>k'. readMaskedLine (\<lambda>_. None) star (ended_line cs d k) (map ByteRead (concat (map key_bytes ks)) @ rs) =
    readMaskedLine (\<lambda>_. None) star (ended_line (foldl edit_key cs ks) (d @ drawn_keys star cs ks) k') rs"
  using assms
proof (induction ks arbitrary: cs d k)
  case (Cons key ks)
  obtain k1 where k1: "readMaskedLine (\<lambda>_. None) star (ended_line cs d k) (map ByteRead (key_bytes key) @ map ByteRead (concat (map key_bytes ks)) @ rs) =
      readMaskedLine (\<lambda>_. None) star (ended_line (edit_key cs key) (d @ drawn_by star cs key) k1) (map ByteRead (concat (map key_bytes ks)) @ rs)"
    using key_run [OF Cons.prems(1), of key star d k "map ByteRead (concat (map key_bytes ks)) @ rs"] Cons.prems(2) by auto
  then show ?case using Cons.IH [of "edit_key cs key" "d @ drawn_by star cs key" k1] edit_key_whole Cons.prems by simp
qed auto

section \<open>What the screen shows\<close>

lemma shown_append: "shown row i (a @ b) = (case shown row i a of (row', i') \<Rightarrow> shown row' i' b)"
  by (induction a arbitrary: row i) auto

definition stars_shown :: "char \<Rightarrow> nat \<Rightarrow> bytes \<times> nat \<Rightarrow> bool" where
  "stars_shown star n view \<longleftrightarrow> (\<exists>j. view = (replicate n star @ replicate j (CHR 0x20), n))"

lemma replicate_blank: "(replicate (Suc m) c @ xs)[m := b] = replicate m c @ b # xs"
  by (induction m) auto

lemma shown_key:
  assumes "star \<noteq> CHR 0x08" "stars_shown star (length cs) (row, i)"
  shows "stars_shown star (length (edit_key cs key)) (shown row i (drawn_by star cs key))"
proof -
  obtain j where r: "row = replicate (length cs) star @ replicate j (CHR 0x20)" "i = length cs"
    using assms(2) by (auto simp: stars_shown_def)
  have erase: "stars_shown star (length (butlast cs)) (shown row i (if cs = [] then [] else erasure))"
  proof (cases cs rule: rev_cases)
    case Nil
    then show ?thesis using r by (auto simp: stars_shown_def)
  next
    case (snoc cs' ch)
    have "row[length cs' := CHR 0x20] = replicate (length cs') star @ replicate (Suc j) (CHR 0x20)"
      using r snoc replicate_blank [of "length cs'"] by simp
    then have "shown row i (if cs = [] then [] else erasure) = (replicate (length cs') star @ replicate (Suc j) (CHR 0x20), length cs')"
      using r snoc by (simp add: erasure_def)
    then show ?thesis unfolding stars_shown_def snoc butlast_snoc by blast
  qed
  show ?thesis
  proof (cases key)
    case (Typed ch)
    show ?thesis
    proof (cases j)
      case 0
      then show ?thesis using r Typed assms(1) by (simp add: stars_shown_def replicate_append_same)
    next
      case (Suc m)
      then have "row[i := star] = replicate (Suc (length cs)) star @ replicate m (CHR 0x20)"
        using r by (simp add: list_update_append replicate_app_Cons_same)
      then show ?thesis using r Typed assms(1) Suc by (auto simp: stars_shown_def)
    qed
  qed (use erase assms(2) in simp_all)
qed

lemma shown_keys:
  assumes "star \<noteq> CHR 0x08" "stars_shown star (length cs) (row, i)"
  shows "stars_shown star (length (foldl edit_key cs ks)) (shown row i (drawn_keys star cs ks))"
  using assms(2)
proof (induction ks arbitrary: cs row i)
  case (Cons key ks)
  obtain row' i' where s: "shown row i (drawn_by star cs key) = (row', i')" by fastforce
  then have "stars_shown star (length (edit_key cs key)) (row', i')" using shown_key [OF assms(1) Cons.prems, of key] by simp
  from Cons.IH [OF this] show ?case by (simp add: shown_append s)
qed simp

text \<open>Whatever is typed and whichever write fails, no byte of the secret is drawn.\<close>

definition mask_bytes :: "char \<Rightarrow> char set" where
  "mask_bytes star = {star} \<union> set erasure \<union> set line_end"

lemma writeTty_draws: "writeTty short t s = (ok, s') \<Longrightarrow> set (sc_drawn s') \<subseteq> set (sc_drawn s) \<union> set t"
  by (auto simp: writeTty_def split: option.splits dest: in_set_takeD)

lemma editByte_draws:
  "editByte short star b e = Inl e' \<Longrightarrow> set (sc_drawn (ed_screen e')) \<subseteq> set (sc_drawn (ed_screen e)) \<union> mask_bytes star"
  "editByte short star b e = Inr (res, s') \<Longrightarrow> set (sc_drawn s') \<subseteq> set (sc_drawn (ed_screen e)) \<union> mask_bytes star"
  by (auto simp: editByte_def eraseRune_def mask_bytes_def Let_def split: if_splits prod.splits dest!: writeTty_draws)

lemma masked_shows_nothing:
  "readMaskedLine short star e rs = (res, s', rest) \<Longrightarrow> set (sc_drawn s') \<subseteq> set (sc_drawn (ed_screen e)) \<union> mask_bytes star"
proof (induction short star e rs rule: readMaskedLine.induct)
  case (5 short star e b rs)
  then show ?case using editByte_draws [of short star b e] by (fastforce split: sum.splits)
qed auto

section \<open>Properties\<close>



end
