(* ===== verification/EncryptCommands.thy ===== *)
theory EncryptCommands
  imports NotebookEncryption KeyRecord RecoveryCode MaskedRead
begin

text \<open>
  The \<open>encrypt\<close> commands (\<open>internal/app/encryption.go\<close>): the options of the key record, the prompt for secrets, the door
  set a change asks for, and the five commands over the notebook's operations, the keyring and the key record.

  A command is an action over \<open>cmdst\<close>: the state of the encryption operations, the private files, and the prompt. What it draws
  from outside is \<open>cmd_env\<close>: one command mints at most one notebook key, one recovery code and two doors. A command that
  asks nothing of the notebook's keyring leaves the one in the state alone, and no command uses one it has not set. Message
  texts are left out, and the causes they would wrap.

  A command that fails, or that was not asked to store anything, leaves every private file as it was (\<open>record_after_acceptance\<close>);
  the code \<open>encrypt recovery\<close> prints opens the one recovery door then stored (\<open>recovery_code_opens\<close>).
\<close>

section \<open>Commands and options\<close>

datatype EncryptSubcommand = CmdInit | CmdStatus | CmdPasswd | CmdRecovery | CmdRekey | CmdOther bytes

definition EncryptSubcommands :: "EncryptSubcommand list" where
  "EncryptSubcommands = [CmdInit, CmdStatus, CmdPasswd, CmdRecovery, CmdRekey]"

definition maxDoors :: nat where "maxDoors = 4"
definition initMessage :: bytes where "initMessage = ''encrypt init''"
definition rekeyMessage :: bytes where "rekeyMessage = ''encrypt rekey''"

record KeyRecordOptions =
  ko_StorePassphrase :: bool
  ko_ConfirmStorePassphrase :: bool
  ko_StorePassphraseFile :: bytes
  ko_ForgetKeyMaterial :: bool

datatype option_error = OptExclusive | OptForgetWithStore | OptUnconfirmed | OptNothingToConfirm | OptNoStore | OptNoForget

definition KeyRecordOptions_Validate :: "KeyRecordOptions \<Rightarrow> EncryptSubcommand \<Rightarrow> option_error + unit" where
  "KeyRecordOptions_Validate opts command =
     (let offersStore = (command = CmdInit \<or> command = CmdPasswd \<or> command = CmdRekey);
          offersForget = (command = CmdPasswd \<or> command = CmdRekey) in
      if ko_StorePassphrase opts \<and> ko_StorePassphraseFile opts \<noteq> '''' then Inl OptExclusive
      else if ko_ForgetKeyMaterial opts \<and> (ko_StorePassphrase opts \<or> ko_StorePassphraseFile opts \<noteq> '''') then Inl OptForgetWithStore
      else if ko_StorePassphrase opts \<and> \<not> ko_ConfirmStorePassphrase opts then Inl OptUnconfirmed
      else if ko_ConfirmStorePassphrase opts \<and> \<not> ko_StorePassphrase opts then Inl OptNothingToConfirm
      else if \<not> offersStore \<and> (ko_StorePassphrase opts \<or> ko_StorePassphraseFile opts \<noteq> '''') then Inl OptNoStore
      else if \<not> offersForget \<and> ko_ForgetKeyMaterial opts then Inl OptNoForget
      else Inr ())"

section \<open>Refusals\<close>

definition invalidInput :: nb_error where
  "invalidInput = Error CodeInvalidRequest ReasonMalformedInput ActionFixInput [] None [Wrapped []]"

definition keyRequired :: nb_error where
  "keyRequired = Error CodeStorageFailure ReasonKeyRequired ActionOperator [] None []"

definition keyMaterialInvalid :: nb_error where
  "keyMaterialInvalid = Error CodeStorageFailure ReasonKeyMaterialInvalid ActionOperator [] None [Wrapped []]"

definition alreadyEnabled :: nb_error where
  "alreadyEnabled = Error CodeInvalidRequest ReasonEncryptionAlreadyEnabled ActionFixInput [] None []"

definition notEnabled :: nb_error where
  "notEnabled = Error CodeInvalidRequest ReasonEncryptionNotEnabled ActionFixInput [] None []"

definition doorLimit :: nb_error where
  "doorLimit = Error CodeInvalidRequest ReasonDoorLimit ActionFixInput [] None []"

definition keyRejected :: "nb_error \<Rightarrow> bool" where
  "keyRejected err = (case as_Error err of Some e \<Rightarrow> e_Reason e = ReasonKeyRejected | None \<Rightarrow> False)"

section \<open>Doors and sources\<close>

definition replaceDoor :: "Door list \<Rightarrow> DoorType \<Rightarrow> Door option \<Rightarrow> nb_error + Door list" where
  "replaceDoor doors kind add =
     (let out = filter (\<lambda>d. dr_Type d \<noteq> kind) doors @ (case add of None \<Rightarrow> [] | Some d \<Rightarrow> [d]) in
      if length out = 0 then Inl invalidInput
      else if length out > maxDoors then Inl doorLimit
      else Inr out)"

definition stores_nothing :: "KeyRecordOptions \<Rightarrow> bool" where
  "stores_nothing opts \<longleftrightarrow> \<not> (ko_StorePassphrase opts \<or> ko_StorePassphraseFile opts \<noteq> '''' \<or> ko_ForgetKeyMaterial opts)"

definition checkRecordConflict :: "Candidate list \<Rightarrow> bytes \<Rightarrow> KeyRecordOptions \<Rightarrow> nb_error + unit" where
  "checkRecordConflict candidates chosen opts =
     (if \<not> stores_nothing opts then Inr ()
      else case find (\<lambda>c. cd_Source c = SourceKeyRecord) candidates of
        None \<Rightarrow> Inr ()
      | Some c \<Rightarrow>
          if cd_Secret c = chosen then Inr ()
          else Inl (Error CodeStorageFailure ReasonKeyMaterialInvalid ActionOperator [] None []))"

datatype record_error = RecordNoDir | RecordEntry entry_refusal | RecordFile "keys_error file_error"

datatype warning = RecordUnchanged record_error | StaleEnvironment | StaleEnvfile

definition staleSourceWarning :: "CandidateSource \<Rightarrow> warning list" where
  "staleSourceWarning source =
     (if source = SourceEnvironment then [StaleEnvironment]
      else if source = SourceEnvironmentFile then [StaleEnvfile]
      else [])"

definition SourceName :: "CandidateSource \<Rightarrow> bytes" where
  "SourceName source =
     (if source = SourcePrompt then ''prompt''
      else if source = SourceEnvironment then ''environment''
      else if source = SourceEnvironmentFile then ''envfile''
      else if source = SourceKeyRecord then ''key record''
      else ''none'')"

fun door_names :: "DoorType set \<Rightarrow> Door list \<Rightarrow> bytes list" where
  "door_names met [] = []"
| "door_names met (d # ds) =
     (if dr_Type d \<in> met then door_names met ds
      else (if dr_Type d = DoorPassphrase then ''passphrase''
            else if dr_Type d = DoorRecovery then ''recovery''
            else ''type-'' @ FormatUint (ucast (dr_Type d))) # door_names (insert (dr_Type d) met) ds)"

definition DoorNames :: "Door list \<Rightarrow> bytes list" where
  "DoorNames doors = door_names {} doors"

text \<open>Removing the last door is refused as malformed input, although the documents name the limit of doors.\<close>

lemma last_door_reason: "list_all (\<lambda>d. dr_Type d = kind) doors \<Longrightarrow> replaceDoor doors kind None = Inl invalidInput \<and> e_Reason invalidInput = ReasonMalformedInput"
  by (induction doors) (simp_all add: replaceDoor_def invalidInput_def)

section \<open>The prompt\<close>

text \<open>What a \<open>bufio.Reader\<close> holds of the source, and how much more than a line its fills deliver.\<close>

record prompt =
  pr_buffered :: bytes
  pr_source :: "tty_read list"
  pr_fills :: nat
  pr_screen :: screen

record prompt_env =
  pv_tty :: bool
  pv_terminal :: terminal
  pv_extra :: "nat \<Rightarrow> nat"

datatype prompt_error = ErrNoSecret | ErrNoAnswer | ErrPrompt
datatype line_stop = AtNewline | AtEnd | AtFailure

fun source_line :: "tty_read list \<Rightarrow> bytes \<times> line_stop \<times> tty_read list" where
  "source_line [] = ([], AtEnd, [])"
| "source_line (EndRead # rs) = ([], AtEnd, rs)"
| "source_line (FailedRead # rs) = ([], AtFailure, rs)"
| "source_line (NothingRead # rs) = source_line rs"
| "source_line (ByteRead c # rs) =
     (if c = CHR 0x0A then ([c], AtNewline, rs) else case source_line rs of (line, stop, rest) \<Rightarrow> (c # line, stop, rest))"

fun delivered :: "nat \<Rightarrow> tty_read list \<Rightarrow> bytes \<times> tty_read list" where
  "delivered (Suc k) (ByteRead c # rs) = (case delivered k rs of (cs, rest) \<Rightarrow> (c # cs, rest))"
| "delivered k rs = ([], rs)"

definition readString :: "prompt_env \<Rightarrow> prompt \<Rightarrow> (bytes \<times> line_stop) \<times> prompt" where
  "readString v p =
     (case CutAt (CHR 0x0A) (pr_buffered p) of
        Some (line, rest) \<Rightarrow> ((line @ [CHR 0x0A], AtNewline), p\<lparr>pr_buffered := rest\<rparr>)
      | None \<Rightarrow>
          (case source_line (pr_source p) of (line, stop, rs) \<Rightarrow>
             (case delivered (if stop = AtNewline then pv_extra v (pr_fills p) else 0) rs of (extra, left) \<Rightarrow>
                ((pr_buffered p @ line, stop), p\<lparr>pr_buffered := extra, pr_source := left, pr_fills := Suc (pr_fills p)\<rparr>))))"

definition trimLineEnd :: "bytes \<Rightarrow> bytes" where
  "trimLineEnd line = rev (dropWhile (\<lambda>c. c = CHR 0x0D \<or> c = CHR 0x0A) (rev line))"

definition prompt_Read :: "prompt_env option \<Rightarrow> bytes \<Rightarrow> (prompt_error, bytes, prompt) act" where
  "prompt_Read P label =
     (case P of
        None \<Rightarrow> failS ErrNoAnswer
      | Some v \<Rightarrow> (\<lambda>p.
          case readString v (p\<lparr>pr_screen := snd (writeTty (tt_short (pv_terminal v)) label (pr_screen p))\<rparr>) of ((line, stop), p') \<Rightarrow>
            if stop = AtFailure then (Inl ErrPrompt, p')
            else if stop = AtEnd \<and> line = [] then (Inl ErrNoAnswer, p')
            else (Inr (trimLineEnd line), p')))"

definition prompt_readMasked :: "prompt_env \<Rightarrow> bytes \<Rightarrow> (prompt_error, bytes, prompt) act" where
  "prompt_readMasked v label = (\<lambda>p.
     case ReadMasked (pv_terminal v) label (CHR ''*'') (pr_screen p) (pr_source p) of ((secret, errs), s, rs) \<Rightarrow>
       (if TtyInterrupt \<in> set errs then Inl ErrNoAnswer
        else if TtyEnd \<in> set errs then (if secret = [] then Inl ErrNoAnswer else Inr secret)
        else if errs \<noteq> [] then Inl ErrPrompt
        else Inr secret, p\<lparr>pr_source := rs, pr_screen := s\<rparr>))"

definition ReadSecret :: "prompt_env option \<Rightarrow> bytes \<Rightarrow> (prompt_error, bytes, prompt) act" where
  "ReadSecret P label =
     (case P of
        None \<Rightarrow> failS ErrNoAnswer
      | Some v \<Rightarrow> (\<lambda>p. if pv_tty v \<and> pr_buffered p = [] then prompt_readMasked v label p else prompt_Read P label p))"

definition Ask :: "prompt_env option \<Rightarrow> bytes \<Rightarrow> (prompt_error, bytes, prompt) act" where
  "Ask P label = bindS (ReadSecret P label) (\<lambda>secret. if secret = [] then failS ErrNoSecret else retS secret)"

definition Confirm :: "prompt_env option \<Rightarrow> bytes \<Rightarrow> (prompt_error, bool, prompt) act" where
  "Confirm P label = bindS (prompt_Read P label) (\<lambda>answer.
     let a = map ascii_lower answer in
     if a \<in> {'''', ''y'', ''yes''} then retS True
     else if a \<in> {''n'', ''no''} then retS False
     else failS ErrPrompt)"

definition promptRefusal :: "prompt_error \<Rightarrow> nb_error" where
  "promptRefusal e = (if e = ErrNoSecret \<or> e = ErrNoAnswer then keyRequired else invalidInput)"

section \<open>Command state\<close>

record ('w, 's) cmdst =
  cm_en :: "('w, 's) encst"
  cm_files :: files
  cm_prompt :: prompt

type_synonym ('a, 'w, 's) cmd = "(nb_error, 'a, ('w, 's) cmdst) act"

record cmd_env =
  ce_enc :: enc_env
  ce_opened :: "nb_error + unit"
  ce_resolver :: resolver
  ce_ident :: Identity
  ce_gate :: "KDFGate option"
  ce_params :: KDFParams
  ce_prompt :: "prompt_env option"
  ce_key :: "bytes option"
  ce_entropy :: "u8 list option"
  ce_salt :: "nat \<Rightarrow> bytes option"
  ce_nonce :: "nat \<Rightarrow> bytes option"
  ce_cancelled :: "nat \<Rightarrow> bool"

definition onEn :: "('a, 'w, 's) en \<Rightarrow> ('a, 'w, 's) cmd" where
  "onEn m = (\<lambda>\<sigma>. case m (cm_en \<sigma>) of (r, x) \<Rightarrow> (r, \<sigma>\<lparr>cm_en := x\<rparr>))"

definition onFiles :: "('e, 'a, files) act \<Rightarrow> ('e, 'a, ('w, 's) cmdst) act" where
  "onFiles m = (\<lambda>\<sigma>. case m (cm_files \<sigma>) of (r, x) \<Rightarrow> (r, \<sigma>\<lparr>cm_files := x\<rparr>))"

definition onPrompt :: "(prompt_error, 'a, prompt) act \<Rightarrow> ('a, 'w, 's) cmd" where
  "onPrompt m = (\<lambda>\<sigma>. case m (cm_prompt \<sigma>) of (r, x) \<Rightarrow> (mapErr promptRefusal r, \<sigma>\<lparr>cm_prompt := x\<rparr>))"

definition setRing :: "Keyring \<Rightarrow> (unit, 'w, 's) cmd" where
  "setRing k = (\<lambda>\<sigma>. (Inr (), \<sigma>\<lparr>cm_en := (cm_en \<sigma>)\<lparr>en_ring := k\<rparr>\<rparr>))"

definition ringSecret :: "('w, 's) cmdst \<Rightarrow> bytes" where
  "ringSecret \<sigma> = (case ResolvedSecret (en_ring (cm_en \<sigma>)) of None \<Rightarrow> '''' | Some s \<Rightarrow> s)"

definition keyMaterial :: "crypt_error + 'a \<Rightarrow> nb_error + 'a" where
  "keyMaterial r = mapErr (\<lambda>_. keyMaterialInvalid) r"

section \<open>Key material\<close>

definition openKeyring :: "cmd_env \<Rightarrow> Candidate list \<Rightarrow> bytes \<Rightarrow> (unit, 'w, 's) cmd" where
  "openKeyring C candidates label =
     bindS (if candidates = []
            then bindS (onPrompt (Ask (ce_prompt C) label)) (\<lambda>secret. retS [\<lparr>cd_Source = SourcePrompt, cd_Secret = secret\<rparr>])
            else retS candidates) (\<lambda>cs.
     bindS (liftS (keyMaterial (NewKeyring cs (ce_gate C)))) setRing)"

definition initSecret :: "cmd_env \<Rightarrow> Candidate list \<Rightarrow> (bytes, 'w, 's) cmd" where
  "initSecret C candidates =
     (case candidates of
        c # _ \<Rightarrow> retS (cd_Secret c)
      | [] \<Rightarrow> onPrompt (Ask (ce_prompt C) ''New passphrase: ''))"

definition newRootDoors :: "cmd_env \<Rightarrow> bytes \<Rightarrow> nb_error + bytes \<times> bytes \<times> Door list" where
  "newRootDoors C secret =
     (let wrap = (\<lambda>i key s kind. keyMaterial (WrapKey (ee_crypt (ce_enc C)) (ce_cancelled C i) (ce_salt C i) (ce_nonce C i) (ce_gate C) key s
            CurrentKey kind (ce_params C))) in
      bindR (ofOption keyMaterialInvalid (ce_key C)) (\<lambda>key.
      bindR (mapErr (\<lambda>_. keyMaterialInvalid) (Generate (ee_sha (ce_enc C)) (ce_entropy C))) (\<lambda>words.
      bindR (wrap 0 key secret DoorPassphrase) (\<lambda>passDoor.
      bindR (wrap 1 key words DoorRecovery) (\<lambda>recoveryDoor.
      Inr (key, words, [passDoor, recoveryDoor]))))))"

definition wrapDoor :: "cmd_env \<Rightarrow> nat \<Rightarrow> bytes \<Rightarrow> DoorType \<Rightarrow> (Door, 'w, 's) cmd" where
  "wrapDoor C i secret kind = (\<lambda>\<sigma>.
     (keyMaterial (WrapDoor (ee_crypt (ce_enc C)) (ce_cancelled C i) (ce_salt C i) (ce_nonce C i) CurrentKey secret kind (ce_params C)
        (en_ring (cm_en \<sigma>))), \<sigma>))"

definition encryptionCandidates :: "cmd_env \<Rightarrow> (Candidate list, 'w, 's) cmd" where
  "encryptionCandidates C = mapErrS (\<lambda>_. keyMaterialInvalid) (onFiles (Resolve (ce_resolver C) (ce_ident C)))"

text \<open>The change of the key record; \<open>Locate\<close> fixes the directory, and the entry the caller asked for is stored under its lock.\<close>

definition applyRecordChange :: "cmd_env \<Rightarrow> KeyRecordOptions \<Rightarrow> bytes \<Rightarrow> (record_error, unit, files) act" where
  "applyRecordChange C opts secret =
     (if stores_nothing opts then retS ()
      else
        let R = ce_resolver C; p = hardened R; digest = IdentityDigest (rv_sha R) (ce_ident C) in
        case ConfigDir (rv_getenv R) (rv_goos R) of
          Inl _ \<Rightarrow> failS RecordNoDir
        | Inr dir \<Rightarrow>
            let at = (\<lambda>m. mapErrS RecordFile (at_path (join_path dir FileName_keys) m)) in
            if ko_ForgetKeyMaterial opts then at (Forget (rv_json R) p digest)
            else bindS (liftS (mapErr RecordEntry
                   (if ko_StorePassphrase opts then Passphrase digest secret
                    else PassphraseFile (rv_home R) digest (ko_StorePassphraseFile opts)))) (\<lambda>e. at (Update (rv_json R) p e)))"

definition recordWarnings :: "cmd_env \<Rightarrow> KeyRecordOptions \<Rightarrow> bytes \<Rightarrow> (warning list, 'w, 's) cmd" where
  "recordWarnings C opts secret =
     tryS (onFiles (applyRecordChange C opts secret)) (\<lambda>r. retS (case r of Inr _ \<Rightarrow> [] | Inl e \<Rightarrow> [RecordUnchanged e]))"

section \<open>The five commands\<close>

record EncryptCommand =
  ec_Command :: EncryptSubcommand
  ec_Record :: KeyRecordOptions

record EncryptReport =
  er_Result :: Result
  er_Status :: "EncryptionStatus option"
  er_Recovery :: "bytes option"
  er_Warnings :: "warning list"

definition zeroResult :: Result where
  "zeroResult = \<lparr>res_Generation = 0, res_Stat = emptyStat, res_Contents = []\<rparr>"

definition doorsReport :: "u64 \<Rightarrow> bytes option \<Rightarrow> warning list \<Rightarrow> EncryptReport" where
  "doorsReport generation printed warnings =
     \<lparr>er_Result = zeroResult\<lparr>res_Generation := generation\<rparr>, er_Status = None, er_Recovery = printed, er_Warnings = warnings\<rparr>"

definition classifyWith :: "('w, 'r, 's) Notebook \<Rightarrow> cmd_env \<Rightarrow> 's ObjectStore \<Rightarrow> (EncryptionStatus, 'w, 's) cmd" where
  "classifyWith n C raw = onEn (EncryptStatus n (ce_enc C) raw False)"

definition classify_current :: "('w, 'r, 's) Notebook \<Rightarrow> cmd_env \<Rightarrow> 's ObjectStore \<Rightarrow> Candidate list \<Rightarrow> (EncryptionStatus, 'w, 's) cmd" where
  "classify_current n C raw candidates =
     (if candidates = [] then classifyWith n C raw
      else
        bindS (liftS (keyMaterial (NewKeyring candidates (ce_gate C)))) (\<lambda>ring.
        bindS (setRing ring) (\<lambda>_.
        tryS (onEn (EncryptStatus n (ce_enc C) raw True)) (\<lambda>r. case r of
          Inr status \<Rightarrow> retS status
        | Inl err \<Rightarrow> if \<not> keyRejected err then failS err else classifyWith n C raw))))"

definition encryptStatus :: "('w, 'r, 's) Notebook \<Rightarrow> cmd_env \<Rightarrow> 's ObjectStore \<Rightarrow> Candidate list \<Rightarrow> (EncryptReport, 'w, 's) cmd" where
  "encryptStatus n C raw candidates =
     bindS (classify_current n C raw candidates) (\<lambda>status.
     retS \<lparr>er_Result = zeroResult, er_Status = Some status, er_Recovery = None, er_Warnings = []\<rparr>)"

definition encryptInit ::
  "('w, 'r, 's) Notebook \<Rightarrow> cmd_env \<Rightarrow> 's ObjectStore \<Rightarrow> Candidate list \<Rightarrow> KeyRecordOptions \<Rightarrow> (EncryptReport, 'w, 's) cmd" where
  "encryptInit n C raw candidates opts =
     bindS (onEn (EncryptStatus n (ce_enc C) raw False)) (\<lambda>status.
     if es_Enabled status then failS alreadyEnabled
     else
       bindS (initSecret C candidates) (\<lambda>secret.
       bindS (liftS (checkRecordConflict candidates secret opts)) (\<lambda>_.
       bindS (liftS (newRootDoors C secret)) (\<lambda>(key, words, doors).
       bindS (liftS (keyMaterial (NewUnlockedKeyring key [] (ce_gate C)))) (\<lambda>seal.
       bindS (onEn (EncryptInit n (ce_enc C) \<lparr>ci_Store = raw, ci_HasOpen = False, ci_Seal = seal, ci_Doors = doors\<rparr> initMessage)) (\<lambda>result.
       bindS (recordWarnings C opts secret) (\<lambda>warnings.
       retS \<lparr>er_Result = result, er_Status = None, er_Recovery = Some words, er_Warnings = warnings\<rparr>)))))))"

text \<open>What \<open>rekey\<close>, \<open>passwd\<close> and \<open>recovery\<close> begin with: an opened keyring and an encrypted notebook.\<close>

definition currentLabel :: bytes where "currentLabel = ''Current passphrase or recovery code: ''"

definition unlockedStatus :: "('w, 'r, 's) Notebook \<Rightarrow> cmd_env \<Rightarrow> 's ObjectStore \<Rightarrow> Candidate list \<Rightarrow> (EncryptionStatus, 'w, 's) cmd" where
  "unlockedStatus n C raw candidates =
     bindS (openKeyring C candidates currentLabel) (\<lambda>_.
     bindS (onEn (EncryptStatus n (ce_enc C) raw True)) (\<lambda>status.
     if \<not> es_Enabled status then failS notEnabled else retS status))"

definition encryptRekey ::
  "('w, 'r, 's) Notebook \<Rightarrow> cmd_env \<Rightarrow> 's ObjectStore \<Rightarrow> Candidate list \<Rightarrow> KeyRecordOptions \<Rightarrow> (EncryptReport, 'w, 's) cmd" where
  "encryptRekey n C raw candidates opts =
     bindS (unlockedStatus n C raw candidates) (\<lambda>status.
     bindS (onPrompt (Confirm (ce_prompt C) ''Keep the unlocking secret? [Y/n] '')) (\<lambda>keep.
     bindS (getS ringSecret) (\<lambda>current.
     bindS (if \<not> keep \<or> current = '''' then onPrompt (Ask (ce_prompt C) ''New passphrase: '') else retS current) (\<lambda>secret.
     bindS (liftS (checkRecordConflict candidates secret opts)) (\<lambda>_.
     bindS (liftS (newRootDoors C secret)) (\<lambda>(key, words, doors).
     bindS (liftS (keyMaterial (NewUnlockedKeyring key [] (ce_gate C)))) (\<lambda>seal.
     bindS (onEn (EncryptRekey n (ce_enc C) \<lparr>ci_Store = raw, ci_HasOpen = True, ci_Seal = seal, ci_Doors = doors\<rparr> rekeyMessage)) (\<lambda>result.
     bindS (recordWarnings C opts secret) (\<lambda>warnings.
     retS \<lparr>er_Result = result, er_Status = None, er_Recovery = Some words,
       er_Warnings = warnings @ (if keep then [] else staleSourceWarning (es_Source status))\<rparr>)))))))))"

definition encryptPasswd ::
  "('w, 'r, 's) Notebook \<Rightarrow> cmd_env \<Rightarrow> 's ObjectStore \<Rightarrow> Candidate list \<Rightarrow> KeyRecordOptions \<Rightarrow> (EncryptReport, 'w, 's) cmd" where
  "encryptPasswd n C raw candidates opts =
     bindS (unlockedStatus n C raw candidates) (\<lambda>status.
     bindS (onPrompt (ReadSecret (ce_prompt C) ''New passphrase (empty removes the passphrase door): '')) (\<lambda>secret.
     bindS (if secret = '''' then retS None else bindS (wrapDoor C 0 secret DoorPassphrase) (\<lambda>d. retS (Some d))) (\<lambda>new.
     bindS (liftS (replaceDoor (es_Doors status) DoorPassphrase new)) (\<lambda>doors.
     bindS (onEn (EncryptDoors n (ce_enc C) raw doors)) (\<lambda>generation.
     bindS (recordWarnings C opts secret) (\<lambda>warnings.
     bindS (getS ringSecret) (\<lambda>current.
     retS (doorsReport generation None
       (warnings @ (if secret \<noteq> '''' \<and> secret \<noteq> current then staleSourceWarning (es_Source status) else []))))))))))"

definition encryptRecovery :: "('w, 'r, 's) Notebook \<Rightarrow> cmd_env \<Rightarrow> 's ObjectStore \<Rightarrow> Candidate list \<Rightarrow> (EncryptReport, 'w, 's) cmd" where
  "encryptRecovery n C raw candidates =
     bindS (unlockedStatus n C raw candidates) (\<lambda>status.
     bindS (liftS (mapErr (\<lambda>_. keyMaterialInvalid) (Generate (ee_sha (ce_enc C)) (ce_entropy C)))) (\<lambda>words.
     bindS (wrapDoor C 1 words DoorRecovery) (\<lambda>door.
     bindS (liftS (replaceDoor (es_Doors status) DoorRecovery (Some door))) (\<lambda>doors.
     bindS (onEn (EncryptDoors n (ce_enc C) raw doors)) (\<lambda>generation.
     retS (doorsReport generation (Some words) []))))))"

definition Encrypt :: "('w, 'r, 's) Notebook \<Rightarrow> cmd_env \<Rightarrow> 's ObjectStore \<Rightarrow> EncryptCommand \<Rightarrow> (EncryptReport, 'w, 's) cmd" where
  "Encrypt n C raw req =
     bindS (liftS (mapErr (\<lambda>_. invalidInput) (KeyRecordOptions_Validate (ec_Record req) (ec_Command req)))) (\<lambda>_.
     bindS (liftS (ce_opened C)) (\<lambda>_.
     bindS (encryptionCandidates C) (\<lambda>candidates.
     case ec_Command req of
       CmdStatus \<Rightarrow> encryptStatus n C raw candidates
     | CmdInit \<Rightarrow> encryptInit n C raw candidates (ec_Record req)
     | CmdPasswd \<Rightarrow> encryptPasswd n C raw candidates (ec_Record req)
     | CmdRecovery \<Rightarrow> encryptRecovery n C raw candidates
     | CmdRekey \<Rightarrow> encryptRekey n C raw candidates (ec_Record req)
     | CmdOther _ \<Rightarrow> failS invalidInput)))"

section \<open>What the commands leave alone\<close>

text \<open>The files, the view of the store and the key of an unlocked keyring, under the parts of a command.\<close>

lemma onEn_Inr: "onEn m \<sigma> = (Inr x, \<sigma>') \<longleftrightarrow> (\<exists>e. m (cm_en \<sigma>) = (Inr x, e) \<and> \<sigma>' = \<sigma>\<lparr>cm_en := e\<rparr>)"
  by (auto simp: onEn_def split: prod.splits)

lemma keeps_onEn: "keeps P m \<Longrightarrow> keeps (\<lambda>\<sigma>. P (cm_en \<sigma>)) (onEn m)"
  by (auto simp: keeps_def onEn_def split: prod.splits)

abbreviation (input) files_as :: "files \<Rightarrow> ('w, 's) cmdst \<Rightarrow> bool" where
  "files_as fs \<sigma> \<equiv> untouched fs (cm_files \<sigma>)"

lemma keeps_files_parts [keeps_rules]:
  "keeps (files_as fs) (onEn m)" "keeps (files_as fs) (onPrompt pm)" "keeps (files_as fs) (setRing k)" "keeps (files_as fs) (wrapDoor C i secret kind)"
  by (auto simp: keeps_def onEn_def onPrompt_def setRing_def wrapDoor_def split: prod.splits)

lemma keeps_onFiles: "(\<And>fs r fs'. m fs = (r, fs') \<Longrightarrow> untouched fs fs') \<Longrightarrow> keeps (files_as fs) (onFiles m)"
  using untouched_trans by (fastforce simp: keeps_def onFiles_def split: prod.splits)

text \<open>An action that keeps the files if it fails, and always if \<open>b\<close> holds.\<close>

definition tidy :: "bool \<Rightarrow> ('e, 'a, ('w, 's) cmdst) act \<Rightarrow> bool" where
  "tidy b m \<longleftrightarrow> (\<forall>\<sigma> r \<sigma>'. m \<sigma> = (r, \<sigma>') \<longrightarrow> (\<exists>e. r = Inl e) \<or> b \<longrightarrow> untouched (cm_files \<sigma>) (cm_files \<sigma>'))"

lemma tidyI: "(\<And>fs. keeps (files_as fs) m) \<Longrightarrow> tidy b m"
  unfolding tidy_def keeps_def using untouched_simps by blast

lemma tidy_bind:
  assumes "\<And>fs. keeps (files_as fs) m" "\<And>x. tidy b (f x)" shows "tidy b (bindS m f)"
  unfolding tidy_def
proof (intro allI impI)
  fix \<sigma> r \<sigma>' assume run: "bindS m f \<sigma> = (r, \<sigma>')" and q: "(\<exists>e. r = Inl e) \<or> b"
  obtain r1 \<sigma>1 where m: "m \<sigma> = (r1, \<sigma>1)" by fastforce
  then have u: "untouched (cm_files \<sigma>) (cm_files \<sigma>1)" using assms(1) keepsD by (metis untouched_simps)
  then show "untouched (cm_files \<sigma>) (cm_files \<sigma>')"
  proof (cases r1)
    case (Inl e)
    then show ?thesis using run m u by (simp add: bindS_apply)
  next
    case (Inr x)
    then have "f x \<sigma>1 = (r, \<sigma>')" using run m by (simp add: bindS_apply)
    then show ?thesis using assms(2) q u untouched_trans unfolding tidy_def by blast
  qed
qed

lemma tidy_cases:
  "tidy b m1 \<Longrightarrow> tidy b m2 \<Longrightarrow> tidy b (if c then m1 else m2)" "(\<And>x z. tidy b (fp x z)) \<Longrightarrow> tidy b (case p of (x, z) \<Rightarrow> fp x z)"
  by (simp_all split: prod.splits)

text \<open>The record is changed last: what follows cannot fail.\<close>

lemma tidy_record:
  assumes "\<And>w \<sigma>. \<exists>y. f w \<sigma> = (Inr y, \<sigma>)" shows "tidy (stores_nothing opts) (bindS (recordWarnings C opts secret) f)"
  unfolding tidy_def
proof (intro allI impI)
  fix \<sigma> r \<sigma>' assume run: "bindS (recordWarnings C opts secret) f \<sigma> = (r, \<sigma>')" and q: "(\<exists>e. r = Inl e) \<or> stores_nothing opts"
  obtain w \<sigma>1 where w: "recordWarnings C opts secret \<sigma> = (Inr w, \<sigma>1)"
    by (auto simp: recordWarnings_def tryS_apply)
  obtain y where y: "f w \<sigma>1 = (Inr y, \<sigma>1)" using assms by blast
  then have "r = Inr y" "\<sigma>' = \<sigma>1" using run w by (simp_all add: bindS_apply)
  moreover have "stores_nothing opts \<Longrightarrow> \<sigma>1 = \<sigma>"
    using w by (auto simp: recordWarnings_def applyRecordChange_def onFiles_def tryS_apply)
  ultimately show "untouched (cm_files \<sigma>) (cm_files \<sigma>')" using q by auto
qed

lemma Resolve_reads:
  assumes "quiet (rv_file R)" "Resolve R ident fs = (r, fs')"
  shows "untouched fs fs'"
proof -
  have "keeps (untouched fs) (lookupEntry R ident)" "keeps (untouched fs) (readPassphraseFile R label path)" for label path
    unfolding keeps_def using lookup_reads [OF assms(1)] passphrase_file_reads [OF assms(1)] untouched_trans by blast+
  then have "keeps (untouched fs) (Resolve R ident)"
    unfolding Resolve_def Let_def by (intro keeps_rules) (auto intro!: keeps_rules split: MaterialKind.splits)
  then show ?thesis using assms(2) keepsD by (metis untouched_simps)
qed

lemma keeps_unlocked [keeps_rules]: "keeps (files_as fs) (unlockedStatus n C raw candidates)"
  unfolding unlockedStatus_def openKeyring_def by (intro keeps_rules)

lemma commands_tidy:
  "tidy b (encryptStatus n C raw candidates)" "tidy (stores_nothing opts) (encryptInit n C raw candidates opts)"
  "tidy (stores_nothing opts) (encryptRekey n C raw candidates opts)" "tidy (stores_nothing opts) (encryptPasswd n C raw candidates opts)"
  "tidy b (encryptRecovery n C raw candidates)"
proof -
  show "tidy b (encryptStatus n C raw candidates)"
    unfolding encryptStatus_def classify_current_def classifyWith_def by (intro tidyI keeps_rules)
  show "tidy (stores_nothing opts) (encryptInit n C raw candidates opts)"
    unfolding encryptInit_def initSecret_def
    by (intro tidy_bind tidy_cases tidy_record tidyI keeps_rules) (auto intro!: keeps_rules split: list.splits)
  show "tidy (stores_nothing opts) (encryptRekey n C raw candidates opts)"
    unfolding encryptRekey_def by (intro tidy_bind tidy_cases tidy_record keeps_rules) simp
  show "tidy (stores_nothing opts) (encryptPasswd n C raw candidates opts)"
    unfolding encryptPasswd_def by (intro tidy_bind tidy_record keeps_rules) (simp add: bindS_apply getS_def)
  show "tidy b (encryptRecovery n C raw candidates)"
    unfolding encryptRecovery_def by (intro tidyI keeps_rules)
qed

section \<open>The doors a command stores\<close>

lemma status_opened:
  assumes "conditional_store S look" "EncryptStatus n E S True \<sigma> = (Inr status, \<sigma>')" "es_Enabled status"
  shows "\<exists>d t env p c plaintext. look (nb_store (en_nb \<sigma>)) CurrentKey = Some (d, t) \<and> wrapped_in n env d \<and> decodeEnvelope env = Inr p \<and>
    Keyring_Open (ee_crypt E) c CurrentKey env (en_ring \<sigma>) = (Inr (plaintext, ps_header p), en_ring \<sigma>') \<and> es_Doors status = hd_Doors (ps_header p)"
proof -
  obtain cur \<sigma>1 where rd: "onNb (readRawCurrent S) \<sigma> = (Inr cur, \<sigma>1)" using assms(2) by (auto simp: EncryptStatus_def bindS_Inr)
  then obtain d t where cur: "cur = Some (d, t)"
    using assms(2,3) by (cases cur) (auto simp: EncryptStatus_def bindS_Inr zeroStatus_def)
  have stored: "en_ring \<sigma>1 = en_ring \<sigma>" "look (nb_store (en_nb \<sigma>)) CurrentKey = Some (d, t)"
    using rd readRawCurrent_some [OF assms(1)] cur by (auto simp: onNb_def split: prod.splits)
  obtain enc env where c: "classifyCurrent n d = Inr (enc, env)"
    using assms(2) rd cur by (cases "classifyCurrent n d") (auto simp: EncryptStatus_def bindS_apply)
  then have "enc \<noteq> CurrentPlaintext" using assms(2,3) rd cur by (auto simp: EncryptStatus_def bindS_apply zeroStatus_def)
  then have w: "wrapped_in n env d" using c by (cases enc) (auto simp: classifyCurrent_def wrapped_in_def)
  obtain plaintext h \<sigma>2 where o: "openRing E env \<sigma>1 = (Inr (plaintext, h), \<sigma>2)" "es_Doors status = hd_Doors h" "\<sigma>' = \<sigma>2"
    using assms(2) rd cur c \<open>enc \<noteq> CurrentPlaintext\<close> by (auto simp: EncryptStatus_def bindS_apply getS_def split: prod.splits sum.splits)
  then obtain c where k: "Keyring_Open (ee_crypt E) c CurrentKey env (en_ring \<sigma>) = (Inr (plaintext, h), en_ring \<sigma>')"
    using stored(1) by (auto simp: openRing_def split: prod.splits)
  then obtain p where p: "decodeEnvelope env = Inr p" "h = ps_header p" by (auto simp: open_parts open_with_Inr)
  show ?thesis using stored(2) w p k o(2) by blast
qed

lemma keeps_status:
  assumes "conditional_store S look" "primitives (ee_crypt E)" shows "keeps (at_view look v) (EncryptStatus n E S given)"
  unfolding EncryptStatus_def by (intro keeps_rules keeps_readRaw keeps_openRing assms)

text \<open>An unlocked keyring keeps its key.\<close>

definition holding :: "bytes \<Rightarrow> ('w, 's) encst \<Rightarrow> bool" where
  "holding key \<sigma> \<longleftrightarrow> kr_unlocked (en_ring \<sigma>) \<and> kr_key (en_ring \<sigma>) = key"

lemma keeps_holding_parts [keeps_rules]: "keeps (holding key) (onNb m)" "keeps (holding key) (openRing E env)"
  by (auto simp: keeps_def holding_def onNb_def openRing_def Keyring_Open_def resolve_def split: prod.splits sum.splits)

lemma keeps_holding_round: "keeps (holding key) again \<Longrightarrow> keeps (holding key) (doors_round n E raw doors again)"
  unfolding doors_round_def doors_rewritten_def by (intro keeps_rules)

lemma keeps_holding_loop: "keeps (holding key) (doors_loop n E raw doors k)"
proof (induction k)
  case 0
  show ?case unfolding doors_loop.simps by (intro keeps_holding_round keeps_rules)
next
  case (Suc k)
  show ?case unfolding doors_loop.simps by (intro keeps_holding_round keeps_rules Suc.IH)
qed

lemma keeps_holding_doors: "keeps (holding key) (EncryptDoors n E raw doors)"
  unfolding EncryptDoors_def by (intro keeps_rules keeps_holding_loop)

lemma new_door:
  assumes "primitives L" "length key = 32" "\<And>x. salt = Some x \<Longrightarrow> length x = 16" "\<And>x. nonce = Some x \<Longrightarrow> length x = 24"
    and wrap: "WrapKey L cancelled salt nonce gate key secret objectKey kind params = Inr door"
  shows "door_typed door \<and> dr_Type door = kind \<and> UnwrapKey L False gate door secret objectKey = Inr key"
proof -
  obtain s x where some: "salt = Some s" "nonce = Some x" using wrap by (auto simp: WrapKey_def bindR_eq_Inr split: if_splits)
  have "UnwrapKey L False gate door secret objectKey = Inr key"
    using unwrap_wrap [OF assms(1) assms(4) [OF some(2)]] wrap some by simp
  then show ?thesis
    using wrap some assms(2-4) primitives.seal_length [OF assms(1)] by (auto simp: WrapKey_def bindR_eq_Inr Let_def door_typed_def split: if_splits)
qed

lemma opened_doors_typed: "decodeEnvelope env = Inr p \<Longrightarrow> list_all door_typed (hd_Doors (ps_header p))"
  using decodeEnvelope_sound(1) by (simp add: header_typed_def)

definition draws_sized :: "cmd_env \<Rightarrow> bool" where
  "draws_sized C \<longleftrightarrow> (\<forall>i x. ce_salt C i = Some x \<longrightarrow> length x = 16) \<and> (\<forall>i x. ce_nonce C i = Some x \<longrightarrow> length x = 24)"

lemma open_keeps_gate:
  assumes "Keyring_Open L c objectKey env k = (Inr x, k')" shows "kr_unlocked k' \<and> kr_gate k' = kr_gate k"
proof -
  obtain doors key where r: "resolve L c objectKey doors k = (Inr key, k')"
    using assms by (cases x) (auto simp: open_parts)
  then have "kr_gate k' = kr_gate k" by (auto simp: resolve_def split: if_split_asm sum.split_asm prod.split_asm)
  then show ?thesis using resolve_Inr [OF r] by simp
qed

text \<open>An unlocked command: the doors it read, and the key it holds from then on.\<close>

lemma unlocked_outcome:
  assumes "conditional_store (n_store n) look" "primitives (ee_crypt (ce_enc C))"
    and "unlockedStatus n C (n_store n) candidates \<sigma> = (Inr status, \<sigma>')"
  shows "\<exists>d t env p. look (nb_store (en_nb (cm_en \<sigma>))) CurrentKey = Some (d, t) \<and> wrapped_in n env d \<and> decodeEnvelope env = Inr p \<and>
    es_Doors status = hd_Doors (ps_header p) \<and> at_view look (look (nb_store (en_nb (cm_en \<sigma>)))) (cm_en \<sigma>') \<and>
    kr_unlocked (en_ring (cm_en \<sigma>')) \<and> kr_gate (en_ring (cm_en \<sigma>')) = the (ce_gate C) \<and> ce_gate C \<noteq> None"
proof -
  let ?L = "ee_crypt (ce_enc C)"
  obtain u \<sigma>1 where a: "openKeyring C candidates currentLabel \<sigma> = (Inr u, \<sigma>1)"
    using assms(3) by (auto simp: unlockedStatus_def bindS_Inr)
  then obtain k cs \<sigma>0 where k: "NewKeyring cs (ce_gate C) = Inr k" "\<sigma>1 = \<sigma>0\<lparr>cm_en := (cm_en \<sigma>0)\<lparr>en_ring := k\<rparr>\<rparr>" "cm_en \<sigma>0 = cm_en \<sigma>"
    by (auto simp: openKeyring_def bindS_Inr onPrompt_def setRing_def keyMaterial_def split: if_splits prod.splits)
  then have k2: "\<not> kr_unlocked k" "kr_gate k = the (ce_gate C)" "ce_gate C \<noteq> None"
    by (auto simp: NewKeyring_def bindR_eq_Inr split: option.splits)
  obtain e1 where st: "EncryptStatus n (ce_enc C) (n_store n) True (cm_en \<sigma>1) = (Inr status, e1)" "\<sigma>' = \<sigma>1\<lparr>cm_en := e1\<rparr>" "es_Enabled status"
    using assms(3) a by (auto simp: unlockedStatus_def bindS_Inr bindS_apply onEn_def split: prod.splits if_splits sum.splits)
  obtain d t env p c plaintext where o: "look (nb_store (en_nb (cm_en \<sigma>1))) CurrentKey = Some (d, t)" "wrapped_in n env d" "decodeEnvelope env = Inr p"
      "Keyring_Open ?L c CurrentKey env (en_ring (cm_en \<sigma>1)) = (Inr (plaintext, ps_header p), en_ring e1)" "es_Doors status = hd_Doors (ps_header p)"
    using status_opened [OF assms(1) st(1,3)] by blast
  have sized: "key_sized (en_ring (cm_en \<sigma>1))" using k(2) k2(1) by (simp add: key_sized_def)
  have "kr_unlocked (en_ring e1) \<and> kr_gate (en_ring e1) = kr_gate k"
    using open_keeps_gate [OF o(4)] k(2) by simp
  moreover have "at_view look (look (nb_store (en_nb (cm_en \<sigma>)))) e1"
    using keepsD [OF keeps_status [OF assms(1,2)] st(1)] sized k(2,3) by (simp add: at_view_def)
  ultimately show ?thesis using o k k2 st(2) by auto
qed

text \<open>A desk: a notebook whose one door is the passphrase of the environment, and a process that may draw everything but has no
  terminal.\<close>

definition desk_env :: cmd_env where
  "desk_env = \<lparr>ce_enc = sample_env\<lparr>ee_sha := (\<lambda>_. replicate 32 0)\<rparr>, ce_opened = Inr (), ce_resolver = small_resolver,
     ce_ident = \<lparr>id_Endpoint = '''', id_Region = '''', id_Bucket = '''', id_Prefix = '''', id_ManifestVersion = 1, id_SpaceID = ''''\<rparr>,
     ce_gate = Some (kr_gate sample_keyring), ce_params = DefaultKDFParams, ce_prompt = None, ce_key = None, ce_entropy = Some (replicate 16 0),
     ce_salt = (\<lambda>_. Some (replicate 16 (CHR ''s''))), ce_nonce = (\<lambda>_. Some (replicate 24 (CHR ''n''))), ce_cancelled = (\<lambda>_. False)\<rparr>"

definition desk_state :: "bytes \<Rightarrow> (gobject list, Store) cmdst" where
  "desk_state d = \<lparr>cm_en = short_state d, cm_files = (\<lambda>_. empty_disk),
     cm_prompt = \<lparr>pr_buffered = [], pr_source = [], pr_fills = 0, pr_screen = \<lparr>sc_drawn = [], sc_writes = 0\<rparr>\<rparr>\<rparr>"

definition env_candidate :: Candidate where
  "env_candidate = \<lparr>cd_Source = SourceEnvironment, cd_Secret = ''secret''\<rparr>"

definition desk_locked :: Keyring where
  "desk_locked = \<lparr>kr_key = replicate 32 (CHR 0x00), kr_unlocked = False, kr_source = SourceUnknown, kr_candidates = [env_candidate],
     kr_gate = kr_gate sample_keyring\<rparr>"

definition desk_ring :: Keyring where
  "desk_ring = desk_locked\<lparr>kr_key := kr_key sample_keyring, kr_unlocked := True, kr_source := SourceEnvironment\<rparr>"

lemma desk_secret: "validateSecret ''secret'' = Inr ()"
  by (simp add: validateSecret_def maxSecretBytes_def utf8_Valid_ascii)

lemma desk_keyring: "NewKeyring [env_candidate] (ce_gate desk_env) = Inr desk_locked"
  by (simp add: NewKeyring_def validateCandidates_def validate_candidate_def maxCandidateSources_def desk_env_def desk_locked_def env_candidate_def
    desk_secret SourcePrompt_def SourceEnvironment_def SourceEnvironmentFile_def SourceKeyRecord_def)

lemma desk_door:
  assumes "validateSecret secret = Inr ()" "kind = DoorPassphrase \<or> kind = DoorRecovery"
  shows "\<exists>door. WrapKey checksum_crypt False (ce_salt desk_env i) (ce_nonce desk_env i) (ce_gate desk_env) (kr_key sample_keyring) secret CurrentKey kind
    DefaultKDFParams = Inr door \<and> good_door door \<and> dr_Type door = kind \<and> UnwrapKey checksum_crypt False (ce_gate desk_env) door secret CurrentKey = Inr (kr_key sample_keyring)"
proof -
  let ?W = "WrapKey checksum_crypt False (ce_salt desk_env i) (ce_nonce desk_env i) (ce_gate desk_env) (kr_key sample_keyring) secret CurrentKey kind DefaultKDFParams"
  have "\<exists>door. ?W = Inr door \<and> dr_KDFID door = kdfIDArgon2id"
    using assms by (auto simp: WrapKey_def desk_env_def encodeObjectKey_def CurrentKey_def DeriveKEK_def sample_keyring_def kdfWindow_validate_def
      canonicalWindow_def DefaultKDFParams_def minMemoryKiB_def maxMemoryKiB_def minIterations_def maxIterations_def minParallelism_def
      maxParallelism_def Let_def)
  then obtain door where w: "?W = Inr door" "dr_KDFID door = kdfIDArgon2id" by blast
  have "door_typed door \<and> dr_Type door = kind \<and> UnwrapKey checksum_crypt False (ce_gate desk_env) door secret CurrentKey = Inr (kr_key sample_keyring)"
    by (rule new_door [OF checksum.primitives_axioms sample_typed(1) _ _ w(1)]) (auto simp: desk_env_def)
  then show ?thesis using w assms(2) by (auto simp: good_door_def)
qed

text \<open>The stored notebook, and the keyring that finds its key.\<close>

lemma desk_stored:
  obtains door env data h env' data' where "dr_Type door = DoorPassphrase" "good_door door"
    "Keyring_Open checksum_crypt (\<lambda>_. False) CurrentKey env desk_locked = (Inr (''m'', h), desk_ring)" "hd_Doors h = [door]" "length env < 2 ^ 63"
    "\<And>c. Keyring_Open checksum_crypt c CurrentKey env desk_ring = (Inr (''m'', h), desk_ring)" "WrapCurrentEnvelope env = Inr data"
    "\<And>e. good_door e \<Longrightarrow> \<exists>env' data'. Rewrap checksum_crypt CurrentKey env [door, e] desk_ring = Inr env' \<and> WrapCurrentEnvelope env' = Inr data'"
proof -
  obtain door where d: "good_door door" "dr_Type door = DoorPassphrase"
      "UnwrapKey checksum_crypt False (ce_gate desk_env) door ''secret'' CurrentKey = Inr (kr_key sample_keyring)"
    using desk_door [OF desk_secret, of DoorPassphrase] by blast
  obtain env where seal: "Keyring_Seal checksum_crypt (Some sample_prefix) CurrentKey KindCurrent ''m'' [door] sample_keyring = Inr env"
    using current_seals [OF d(1)] by blast
  have "resolve checksum_crypt (\<lambda>_. False) CurrentKey [door] desk_locked = (Inr (kr_key sample_keyring), desk_ring)"
    using d(3) by (simp add: resolve_def desk_locked_def desk_ring_def env_candidate_def desk_env_def)
  from current_opens [OF d(1) this seal] obtain h where
    h: "Keyring_Open checksum_crypt (\<lambda>_. False) CurrentKey env desk_locked = (Inr (''m'', h), desk_ring)" "hd_Doors h = [door]" "length env < 2 ^ 63" by blast
  have "key_sized desk_locked" by (simp add: key_sized_def desk_locked_def)
  then have held: "\<And>c. Keyring_Open checksum_crypt c CurrentKey env desk_ring = (Inr (''m'', h), desk_ring)" using checksum.open_holds [OF h(1)] by simp
  obtain data where data: "WrapCurrentEnvelope env = Inr data"
    using seal by (auto simp: Keyring_Seal_def seal_extended_def bindR_eq_Inr Let_def checkCurrentSize_def WrapCurrentEnvelope_def split: if_splits)
  have ring: "kr_unlocked desk_ring" "kr_key desk_ring = kr_key sample_keyring" by (simp_all add: desk_ring_def)
  show thesis by (rule that [OF d(2,1) h(1-3) held data]) (rule current_rewraps [OF d(1) _ ring seal])
qed

text \<open>What a command reads there.\<close>

lemma desk_unlocks:
  assumes "Keyring_Open checksum_crypt (\<lambda>_. False) CurrentKey env desk_locked = (Inr (''m'', h), desk_ring)" "WrapCurrentEnvelope env = Inr data"
  shows "\<exists>s. holds_current (jl_text short_json data) s \<and>
    unlockedStatus short_notebook desk_env (n_store short_notebook) [env_candidate] (desk_state (jl_text short_json data)) =
      (Inr \<lparr>es_Enabled = True, es_Locked = False, es_Doors = hd_Doors h, es_Source = SourceEnvironment\<rparr>,
       (desk_state (jl_text short_json data))\<lparr>cm_en := short_ring s desk_ring 1\<rparr>)"
proof -
  let ?d = "jl_text short_json data"
  have w: "ClassifyCurrent (jl_tokens (n_json short_notebook) ?d) = Inr (CurrentEncrypted, env)"
    using wrapped_text [OF short_laws(2) assms(2)] by (simp add: wrapped_in_def short_notebook_def)
  obtain s where s: "holds_current ?d s"
      "onNb (readRawCurrent (n_store short_notebook)) (short_ring (short_store ?d) desk_locked 0) = (Inr (Some (?d, ''1'')), short_ring s desk_locked 0)"
    using current_reads [OF short_holds] by blast
  have "openKeyring desk_env [env_candidate] currentLabel (desk_state ?d) = (Inr (), (desk_state ?d)\<lparr>cm_en := short_ring (short_store ?d) desk_locked 0\<rparr>)"
    by (simp add: openKeyring_def bindS_apply desk_keyring keyMaterial_def setRing_def desk_state_def short_state_def short_ring_def)
  moreover have "EncryptStatus short_notebook (ce_enc desk_env) (n_store short_notebook) True (short_ring (short_store ?d) desk_locked 0) =
      (Inr \<lparr>es_Enabled = True, es_Locked = False, es_Doors = hd_Doors h, es_Source = SourceEnvironment\<rparr>, short_ring s desk_ring 1)"
    using s(2) w assms(1)
    by (simp add: EncryptStatus_def bindS_apply classifyCurrent_def openRing_def getS_def short_ring_def desk_env_def sample_env_def) (simp add: desk_ring_def)
  ultimately show ?thesis using s(1) by (auto simp: unlockedStatus_def bindS_apply onEn_def)
qed

lemma desk_resolves: "encryptionCandidates desk_env (desk_state d) = (Inr [env_candidate], desk_state d)"
  by (simp add: encryptionCandidates_def mapErrS_apply onFiles_def desk_env_def small_resolved env_candidate_def)

section \<open>Properties\<close>

text \<open>C23: The key record changes last: an encrypt command that reports a failure, or that was given no option to store or forget, has
  left every private file as it was, also the directories and locks, whatever failed and whatever the prompt answered.\<close>

theorem record_after_acceptance:
  assumes "quiet (rv_file (ce_resolver C))" "Encrypt n C raw req \<sigma> = (r, \<sigma>')" "(\<exists>e. r = Inl e) \<or> stores_nothing (ec_Record req)"
  shows "untouched (cm_files \<sigma>) (cm_files \<sigma>')"
proof -
  have resolved: "keeps (files_as fs) (encryptionCandidates C)" for fs
    unfolding encryptionCandidates_def by (intro keeps_rules keeps_onFiles) (rule Resolve_reads [OF assms(1)])
  have "tidy (stores_nothing (ec_Record req)) (Encrypt n C raw req)"
    unfolding Encrypt_def by (intro tidy_bind resolved keeps_rules) (auto intro!: commands_tidy tidyI keeps_rules split: EncryptSubcommand.split)
  then show ?thesis using assms(2,3) unfolding tidy_def by blast
qed

theorem record_after_acceptance_witness:
  "\<exists>d e \<sigma>'. Encrypt short_notebook desk_env (n_store short_notebook)
      \<lparr>ec_Command = CmdPasswd, ec_Record = \<lparr>ko_StorePassphrase = True, ko_ConfirmStorePassphrase = True, ko_StorePassphraseFile = '''', ko_ForgetKeyMaterial = False\<rparr>\<rparr>
      (desk_state d) = (Inl e, \<sigma>') \<and> e_Reason e = ReasonKeyRequired \<and> untouched (\<lambda>_. empty_disk) (cm_files \<sigma>')"
proof (rule desk_stored)
  fix env data h
  assume o: "Keyring_Open checksum_crypt (\<lambda>_. False) CurrentKey env desk_locked = (Inr (''m'', h), desk_ring)" "WrapCurrentEnvelope env = Inr data"
  let ?req = "\<lparr>ec_Command = CmdPasswd, ec_Record = \<lparr>ko_StorePassphrase = True, ko_ConfirmStorePassphrase = True, ko_StorePassphraseFile = '''',
    ko_ForgetKeyMaterial = False\<rparr>\<rparr>" and ?\<sigma> = "desk_state (jl_text short_json data)"
  obtain s where s: "unlockedStatus short_notebook desk_env (n_store short_notebook) [env_candidate] ?\<sigma> =
      (Inr \<lparr>es_Enabled = True, es_Locked = False, es_Doors = hd_Doors h, es_Source = SourceEnvironment\<rparr>, ?\<sigma>\<lparr>cm_en := short_ring s desk_ring 1\<rparr>)"
    using desk_unlocks [OF o] by blast
  have "ce_opened desk_env = Inr ()" "ce_prompt desk_env = None" by (simp_all add: desk_env_def)
  then obtain \<sigma>' where run: "Encrypt short_notebook desk_env (n_store short_notebook) ?req ?\<sigma> = (Inl keyRequired, \<sigma>')"
    using s desk_resolves
    by (simp add: Encrypt_def KeyRecordOptions_Validate_def encryptPasswd_def bindS_apply onPrompt_def ReadSecret_def promptRefusal_def Let_def)
  have "quiet (rv_file (ce_resolver desk_env))" by (simp add: desk_env_def small_resolver_def small_sound)
  from record_after_acceptance [OF this run] have u: "untouched (cm_files ?\<sigma>) (cm_files \<sigma>')" by blast
  show ?thesis by (intro exI conjI) (rule run, use u in \<open>simp_all add: desk_state_def keyRequired_def\<close>)
qed

text \<open>C22: The code that \<open>encrypt recovery\<close> prints opens the notebook: the stored doors are those that were stored before, less the old
  recovery doors, and one new recovery door from which the printed code unwraps the notebook key; the notebook has at most
  four doors, its contents are the same, and the generation reported is that of the stored manifest.\<close>

theorem recovery_code_opens:
  assumes "conditional_store (n_store n) look" "json_text (n_json n)" "primitives (ee_crypt (ce_enc C))" "draws_sized C"
    and "\<forall>env d t. look (nb_store (en_nb (cm_en \<sigma>))) CurrentKey = Some (d, t) \<and> wrapped_in n env d \<longrightarrow> length env < 2 ^ 63"
    and "ec_Command req = CmdRecovery" "Encrypt n C (n_store n) req \<sigma> = (Inr report, \<sigma>')"
  shows "\<exists>words d t env p door m. look (nb_store (en_nb (cm_en \<sigma>))) CurrentKey = Some (d, t) \<and> wrapped_in n env d \<and> decodeEnvelope env = Inr p \<and>
    (let doors = filter (\<lambda>d. dr_Type d \<noteq> DoorRecovery) (hd_Doors (ps_header p)) @ [door]; ring = en_ring (cm_en \<sigma>') in
      er_Recovery report = Some words \<and> dr_Type door = DoorRecovery \<and> length doors \<le> maxDoors \<and>
      UnwrapKey (ee_crypt (ce_enc C)) False (ce_gate C) door words CurrentKey = Inr (kr_key ring) \<and>
      door_change n (ce_enc C) doors ring m (look (nb_store (en_nb (cm_en \<sigma>)))) (look (nb_store (en_nb (cm_en \<sigma>')))) \<and>
      res_Generation (er_Result report) = mf_Generation m)"
proof -
  let ?S = "n_store n" and ?L = "ee_crypt (ce_enc C)" and ?v = "look (nb_store (en_nb (cm_en \<sigma>)))"
  obtain cs \<sigma>1 where run: "encryptRecovery n C ?S cs \<sigma>1 = (Inr report, \<sigma>')" and s1: "cm_en \<sigma>1 = cm_en \<sigma>"
    using assms(6,7) by (auto simp: Encrypt_def bindS_Inr encryptionCandidates_def mapErrS_Inr onFiles_def split: prod.splits)
  obtain status \<sigma>2 words door doors generation e3 where st: "unlockedStatus n C ?S cs \<sigma>1 = (Inr status, \<sigma>2)"
      and door: "WrapDoor ?L (ce_cancelled C 1) (ce_salt C 1) (ce_nonce C 1) CurrentKey words DoorRecovery (ce_params C) (en_ring (cm_en \<sigma>2)) = Inr door"
      and doors: "replaceDoor (es_Doors status) DoorRecovery (Some door) = Inr doors"
      and change: "EncryptDoors n (ce_enc C) ?S doors (cm_en \<sigma>2) = (Inr generation, e3)"
      and report: "report = doorsReport generation (Some words) []" and s3: "cm_en \<sigma>' = e3"
    using run by (auto simp: encryptRecovery_def bindS_Inr wrapDoor_def keyMaterial_def onEn_Inr)
  obtain d t env p where o: "?v CurrentKey = Some (d, t)" "wrapped_in n env d" "decodeEnvelope env = Inr p" "es_Doors status = hd_Doors (ps_header p)"
      "at_view look ?v (cm_en \<sigma>2)" "kr_unlocked (en_ring (cm_en \<sigma>2))" "kr_gate (en_ring (cm_en \<sigma>2)) = the (ce_gate C)" "ce_gate C \<noteq> None"
    using unlocked_outcome [OF assms(1,3) st] unfolding s1 by blast
  let ?key = "kr_key (en_ring (cm_en \<sigma>2))"
  have "length ?key = 32" using o(5,6) by (simp add: at_view_def key_sized_def)
  moreover have "WrapKey ?L (ce_cancelled C 1) (ce_salt C 1) (ce_nonce C 1) (ce_gate C) ?key words CurrentKey DoorRecovery (ce_params C) = Inr door"
    using door o(6-8) by (simp add: WrapDoor_def unlockedKey_def)
  ultimately have new: "door_typed door" "dr_Type door = DoorRecovery" "UnwrapKey ?L False (ce_gate C) door words CurrentKey = Inr ?key"
    using new_door [OF assms(3)] assms(4) unfolding draws_sized_def by blast+
  have list: "doors = filter (\<lambda>d. dr_Type d \<noteq> DoorRecovery) (hd_Doors (ps_header p)) @ [door]" "length doors \<le> maxDoors"
    using doors o(4) by (auto simp: replaceDoor_def Let_def split: if_splits)
  then have "list_all door_typed doors" using opened_doors_typed [OF o(3)] new(1) by (auto simp: list_all_iff)
  from EncryptDoors_outcome [OF assms(1-3) this _ o(5) change] assms(5) obtain m where
    m: "door_change n (ce_enc C) doors (en_ring e3) m ?v (look (nb_store (en_nb e3)))" "generation = mf_Generation m"
    unfolding doors_outcome_def by blast
  have "kr_key (en_ring e3) = ?key" using keepsD [OF keeps_holding_doors change, of ?key] o(6) by (simp add: holding_def)
  then show ?thesis
    using o(1-3) new(2,3) list m report s3 by (intro exI [of _ words] exI [of _ d] exI [of _ t] exI [of _ env] exI [of _ p] exI [of _ door] exI [of _ m])
      (simp add: Let_def doorsReport_def zeroResult_def)
qed

theorem recovery_code_opens_witness:
  "\<exists>d report \<sigma>' door. Encrypt short_notebook desk_env (n_store short_notebook) \<lparr>ec_Command = CmdRecovery,
      ec_Record = \<lparr>ko_StorePassphrase = False, ko_ConfirmStorePassphrase = False, ko_StorePassphraseFile = '''', ko_ForgetKeyMaterial = False\<rparr>\<rparr>
      (desk_state d) = (Inr report, \<sigma>') \<and> dr_Type door = DoorRecovery \<and>
    UnwrapKey checksum_crypt False (ce_gate desk_env) door (the (er_Recovery report)) CurrentKey = Inr (kr_key sample_keyring)"
proof (rule desk_stored)
  fix env data h door
  assume door: "dr_Type door = DoorPassphrase" "good_door door" "hd_Doors h = [door]"
    and o: "Keyring_Open checksum_crypt (\<lambda>_. False) CurrentKey env desk_locked = (Inr (''m'', h), desk_ring)" "WrapCurrentEnvelope env = Inr data"
    and held: "length env < 2 ^ 63" "\<And>c. Keyring_Open checksum_crypt c CurrentKey env desk_ring = (Inr (''m'', h), desk_ring)"
    and rewraps: "\<And>e. good_door e \<Longrightarrow> \<exists>env' data'. Rewrap checksum_crypt CurrentKey env [door, e] desk_ring = Inr env' \<and> WrapCurrentEnvelope env' = Inr data'"
  let ?n = short_notebook and ?S = "n_store short_notebook" and ?\<sigma> = "desk_state (jl_text short_json data)"
  let ?req = "\<lparr>ec_Command = CmdRecovery, ec_Record = \<lparr>ko_StorePassphrase = False, ko_ConfirmStorePassphrase = False,
    ko_StorePassphraseFile = '''', ko_ForgetKeyMaterial = False\<rparr>\<rparr>" and ?words = "JoinOn (CHR '' '') (replicate 12 ''abandon'')"
  have env: "ee_crypt (ce_enc desk_env) = checksum_crypt" "ce_opened desk_env = Inr ()" "ce_params desk_env = DefaultKDFParams"
      "Generate (ee_sha (ce_enc desk_env)) (ce_entropy desk_env) = Inr ?words" "ce_cancelled desk_env 1 = False"
    using zero_code by (simp_all add: desk_env_def sample_env_def)
  have "validateSecret ?words = Inr ()" by (simp add: validateSecret_def maxSecretBytes_def utf8_Valid_ascii eval_nat_numeral)
  then obtain new where new: "WrapKey checksum_crypt False (ce_salt desk_env 1) (ce_nonce desk_env 1) (ce_gate desk_env) (kr_key sample_keyring) ?words CurrentKey
      DoorRecovery DefaultKDFParams = Inr new" "good_door new" "dr_Type new = DoorRecovery"
    using desk_door by blast
  obtain s where s: "holds_current (jl_text short_json data) s" "unlockedStatus ?n desk_env ?S [env_candidate] ?\<sigma> =
      (Inr \<lparr>es_Enabled = True, es_Locked = False, es_Doors = hd_Doors h, es_Source = SourceEnvironment\<rparr>, ?\<sigma>\<lparr>cm_en := short_ring s desk_ring 1\<rparr>)"
    using desk_unlocks [OF o] by blast
  have "kr_key desk_ring = kr_key sample_keyring" "kr_unlocked desk_ring" "Some (kr_gate desk_ring) = ce_gate desk_env"
    by (simp_all add: desk_ring_def desk_locked_def desk_env_def)
  then have wrap: "wrapDoor desk_env 1 ?words DoorRecovery (?\<sigma>\<lparr>cm_en := short_ring s desk_ring 1\<rparr>) = (Inr new, ?\<sigma>\<lparr>cm_en := short_ring s desk_ring 1\<rparr>)"
    using new(1) env by (simp add: wrapDoor_def WrapDoor_def unlockedKey_def keyMaterial_def short_ring_def)
  have doors: "replaceDoor (hd_Doors h) DoorRecovery (Some new) = Inr [door, new]"
    using door by (simp add: replaceDoor_def maxDoors_def DoorPassphrase_def DoorRecovery_def)
  obtain s' where change: "EncryptDoors ?n (ce_enc desk_env) ?S [door, new] (short_ring s desk_ring 1) =
      (Inr (mf_Generation (pr_manifest small_proposal)), short_ring s' desk_ring 2)"
    using rewraps [OF new(2)] short_run [OF o(2) held(2) _ _ env(1) s(1), of "[door, new]" _ _ 1] by (auto simp: numeral_2_eq_2)
  obtain report \<sigma>' where run: "Encrypt ?n desk_env ?S ?req ?\<sigma> = (Inr report, \<sigma>')" "cm_en \<sigma>' = short_ring s' desk_ring 2"
    using s(2) wrap doors change desk_resolves env
    by (simp add: Encrypt_def KeyRecordOptions_Validate_def encryptRecovery_def bindS_apply onEn_def Let_def)
  have look: "fake_look (nb_store (en_nb (cm_en ?\<sigma>))) = fake_look (short_store (jl_text short_json data))"
    by (simp add: desk_state_def short_state_def short_ring_def)
  have w: "wrapped_in ?n env (jl_text short_json data)" using wrapped_text [OF short_laws(2) o(2)] by (simp add: short_notebook_def)
  then have "\<forall>x d t. fake_look (nb_store (en_nb (cm_en ?\<sigma>))) CurrentKey = Some (d, t) \<and> wrapped_in ?n x d \<longrightarrow> length x < 2 ^ 63"
    using held(1) short_look by (auto simp: look wrapped_in_def)
  moreover have "primitives (ee_crypt (ce_enc desk_env))" "draws_sized desk_env"
    using checksum.primitives_axioms env(1) by (auto simp: draws_sized_def desk_env_def)
  ultimately obtain words new' where n: "er_Recovery report = Some words" "dr_Type new' = DoorRecovery"
      "UnwrapKey checksum_crypt False (ce_gate desk_env) new' words CurrentKey = Inr (kr_key (en_ring (cm_en \<sigma>')))"
    using recovery_code_opens [OF short_laws(1,2) _ _ _ _ run(1)] env(1) by (auto simp: Let_def)
  show ?thesis by (intro exI conjI) (rule run(1), rule n(2), use n(1,3) run(2) in \<open>simp add: short_ring_def desk_ring_def\<close>)
qed

end
