(* ===== verification/Settings.thy ===== *)
theory Settings
  imports ConfigFiles JsonText
begin

text \<open>
  The scoped settings (\<open>internal/settings\<close>): which directory remembers which target, and the global S3 default, as one strict
  record \<open>workspaces.json\<close> (\<open>codec.go\<close>, \<open>settings.go\<close>), and its locked change by a successful pull or commit
  (\<open>storeEntry\<close> of \<open>internal/app/association.go\<close>).
\<close>

section \<open>Targets and sets\<close>

definition settings_FileName :: bytes where "settings_FileName = ''workspaces.json''"
definition settings_FormatVersion :: u64 where "settings_FormatVersion = 2"
definition KindHosted :: bytes where "KindHosted = ''hosted''"
definition KindS3 :: bytes where "KindS3 = ''s3''"

record Target =
  tg_Kind :: bytes
  tg_Endpoint :: bytes
  tg_Region :: bytes
  tg_Profile :: bytes
  tg_Name :: bytes
  tg_Prefix :: bytes
  tg_PathStyle :: bool

record StoreKey =
  sk_Kind :: bytes
  sk_Endpoint :: bytes
  sk_Region :: bytes
  sk_Profile :: bytes

definition Target_Key :: "Target \<Rightarrow> StoreKey" where
  "Target_Key t = \<lparr>sk_Kind = tg_Kind t, sk_Endpoint = tg_Endpoint t, sk_Region = tg_Region t, sk_Profile = tg_Profile t\<rparr>"

record PathEntry =
  pe_Path :: bytes
  pe_Target :: Target

record settings =
  ss_entries :: "PathEntry list"
  ss_defaults :: "Target list"

definition no_settings :: settings where "no_settings = \<lparr>ss_entries = [], ss_defaults = []\<rparr>"

definition settings_Lookup :: "settings \<Rightarrow> bytes \<Rightarrow> Target option" where
  "settings_Lookup s path = map_option pe_Target (find (\<lambda>e. pe_Path e = path) (ss_entries s))"

definition settings_Put :: "settings \<Rightarrow> PathEntry \<Rightarrow> settings" where
  "settings_Put s entry =
     (let es = ss_entries s; i = length (takeWhile (\<lambda>e. pe_Path e \<noteq> pe_Path entry) es) in
      s\<lparr>ss_entries := if i < length es then es[i := entry] else es @ [entry]\<rparr>)"

definition S3Default :: "settings \<Rightarrow> Target option" where
  "S3Default s = find (\<lambda>t. tg_Kind t = KindS3) (rev (ss_defaults s))"

definition PutDefault :: "settings \<Rightarrow> Target \<Rightarrow> settings" where
  "PutDefault s t = \<lparr>ss_entries = ss_entries s, ss_defaults = [t]\<rparr>"

definition ClearDefaults :: "settings \<Rightarrow> settings" where
  "ClearDefaults s = \<lparr>ss_entries = ss_entries s, ss_defaults = []\<rparr>"

section \<open>The file's text\<close>

definition encodeTarget :: "Target \<Rightarrow> jvalue" where
  "encodeTarget t = JObject
     [(''kind'', JString (tg_Kind t)),
      (''endpoint'', JString (tg_Endpoint t)),
      (''region'', JString (tg_Region t)),
      (''profile'', JString (tg_Profile t)),
      (''name'', JString (tg_Name t)),
      (''prefix'', JString (tg_Prefix t)),
      (''pathStyle'', JBool (tg_PathStyle t))]"

definition settings_value :: "settings \<Rightarrow> jvalue" where
  "settings_value s = JObject
     [(''version'', JNumber settings_FormatVersion),
      (''entries'', JArray (map (\<lambda>e. JObject [(''path'', JString (pe_Path e)), (''target'', encodeTarget (pe_Target e))]) (ss_entries s))),
      (''defaults'', JArray (map encodeTarget (ss_defaults s)))]"

definition encode_settings :: "json_lib \<Rightarrow> settings \<Rightarrow> bytes" where
  "encode_settings J s = jl_text J (Encode (settings_value s))"

datatype target_error =
    TgNotObject | TgJson json_error | TgMissing bytes | TgNotString bytes | TgNotBool bytes | TgEmpty bytes
  | TgPrefix prefix_error | TgKind | TgHostedFields

datatype settings_error =
    SetJson json_error | SetNotObject | SetNoVersion | SetVersion u64 | SetNoEntries | SetNoDefaults
  | SetEntry nat target_error | SetDuplicate nat | SetDefault nat target_error | SetHostedDefault nat

definition stringField :: "jvalue \<Rightarrow> bytes \<Rightarrow> target_error + bytes" where
  "stringField v name = (case Value_Field v name of
     None \<Rightarrow> Inl (TgMissing name) | Some (JString s) \<Rightarrow> Inr s | Some _ \<Rightarrow> Inl (TgNotString name))"

definition boolField :: "jvalue \<Rightarrow> bytes \<Rightarrow> target_error + bool" where
  "boolField v name = (case Value_Field v name of
     None \<Rightarrow> Inl (TgMissing name) | Some (JBool b) \<Rightarrow> Inr b | Some _ \<Rightarrow> Inl (TgNotBool name))"

definition nonemptyField :: "jvalue \<Rightarrow> bytes \<Rightarrow> target_error + bytes" where
  "nonemptyField v name = bindR (stringField v name) (\<lambda>s. if s = '''' then Inl (TgEmpty name) else Inr s)"

definition decodePrefix :: "jvalue \<Rightarrow> target_error + bytes" where
  "decodePrefix v = bindR (stringField v ''prefix'') (\<lambda>prefix. bindR (mapErr TgPrefix (ValidatePrefix prefix)) (\<lambda>_. Inr prefix))"

definition decodeV1Target :: "jvalue \<Rightarrow> target_error + Target" where
  "decodeV1Target v =
     (if Kind v \<noteq> KObject then Inl TgNotObject
      else bindR (mapErr TgJson (RejectUnknown v [''space'', ''prefix''])) (\<lambda>_.
      bindR (nonemptyField v ''space'') (\<lambda>space.
      bindR (decodePrefix v) (\<lambda>prefix.
        Inr \<lparr>tg_Kind = KindHosted, tg_Endpoint = '''', tg_Region = '''', tg_Profile = '''', tg_Name = space, tg_Prefix = prefix, tg_PathStyle = False\<rparr>))))"

definition decodeTarget :: "jvalue \<Rightarrow> target_error + Target" where
  "decodeTarget v =
     (if Kind v \<noteq> KObject then Inl TgNotObject
      else bindR (mapErr TgJson (RejectUnknown v [''kind'', ''endpoint'', ''region'', ''profile'', ''name'', ''prefix'', ''pathStyle''])) (\<lambda>_.
      bindR (stringField v ''kind'') (\<lambda>kind.
      if kind \<noteq> KindHosted \<and> kind \<noteq> KindS3 then Inl TgKind
      else bindR (nonemptyField v ''name'') (\<lambda>name.
      bindR (decodePrefix v) (\<lambda>prefix.
      bindR (stringField v ''endpoint'') (\<lambda>endpoint.
      bindR (stringField v ''region'') (\<lambda>region.
      bindR (stringField v ''profile'') (\<lambda>profile.
      bindR (boolField v ''pathStyle'') (\<lambda>pathStyle.
      if kind = KindHosted \<and> (region \<noteq> '''' \<or> profile \<noteq> '''' \<or> pathStyle) then Inl TgHostedFields
      else Inr \<lparr>tg_Kind = kind, tg_Endpoint = endpoint, tg_Region = region, tg_Profile = profile, tg_Name = name,
        tg_Prefix = prefix, tg_PathStyle = pathStyle\<rparr>)))))))))"

definition decode_entry :: "(jvalue \<Rightarrow> target_error + Target) \<Rightarrow> jvalue \<Rightarrow> target_error + PathEntry" where
  "decode_entry targetOf v =
     (if Kind v \<noteq> KObject then Inl TgNotObject
      else bindR (mapErr TgJson (RejectUnknown v [''path'', ''target''])) (\<lambda>_.
      bindR (nonemptyField v ''path'') (\<lambda>path.
      bindR (ofOption (TgMissing ''target'') (Value_Field v ''target'')) (\<lambda>t.
      bindR (targetOf t) (\<lambda>target. Inr \<lparr>pe_Path = path, pe_Target = target\<rparr>)))))"

fun decode_list :: "(jvalue \<Rightarrow> target_error + PathEntry) \<Rightarrow> nat \<Rightarrow> settings \<Rightarrow> jvalue list \<Rightarrow> settings_error + settings" where
  "decode_list entryOf i s [] = Inr s"
| "decode_list entryOf i s (item # rest) =
     bindR (mapErr (SetEntry i) (entryOf item)) (\<lambda>e.
       if settings_Lookup s (pe_Path e) \<noteq> None then Inl (SetDuplicate i)
       else decode_list entryOf (Suc i) (s\<lparr>ss_entries := ss_entries s @ [e]\<rparr>) rest)"

definition decodeEntries :: "jvalue \<Rightarrow> (jvalue \<Rightarrow> target_error + PathEntry) \<Rightarrow> settings_error + settings" where
  "decodeEntries root entryOf =
     (case Value_Field root ''entries'' of Some (JArray items) \<Rightarrow> decode_list entryOf 0 no_settings items | _ \<Rightarrow> Inl SetNoEntries)"

fun decode_defaults :: "nat \<Rightarrow> settings \<Rightarrow> jvalue list \<Rightarrow> settings_error + settings" where
  "decode_defaults i s [] = Inr s"
| "decode_defaults i s (item # rest) =
     bindR (mapErr (SetDefault i) (decodeTarget item)) (\<lambda>t.
       if tg_Kind t = KindHosted then Inl (SetHostedDefault i)
       else decode_defaults (Suc i) (s\<lparr>ss_defaults := ss_defaults s @ [t]\<rparr>) rest)"

definition decodeV1 :: "jvalue \<Rightarrow> settings_error + settings" where
  "decodeV1 root =
     bindR (mapErr SetJson (RejectUnknown root [''version'', ''entries''])) (\<lambda>_. decodeEntries root (decode_entry decodeV1Target))"

definition decodeV2 :: "jvalue \<Rightarrow> settings_error + settings" where
  "decodeV2 root =
     bindR (mapErr SetJson (RejectUnknown root [''version'', ''entries'', ''defaults''])) (\<lambda>_.
     bindR (decodeEntries root (decode_entry decodeTarget)) (\<lambda>s.
     case Value_Field root ''defaults'' of Some (JArray items) \<Rightarrow> decode_defaults 0 s items | _ \<Rightarrow> Inl SetNoDefaults))"

definition decode_settings_value :: "jvalue \<Rightarrow> settings_error + settings" where
  "decode_settings_value root =
     (if Kind root \<noteq> KObject then Inl SetNotObject
      else case Value_Field root ''version'' of
        Some (JNumber n) \<Rightarrow> if n = 1 then decodeV1 root else if n = settings_FormatVersion then decodeV2 root else Inl (SetVersion n)
      | _ \<Rightarrow> Inl SetNoVersion)"

definition decode_settings :: "json_lib \<Rightarrow> bytes \<Rightarrow> settings_error + settings" where
  "decode_settings J data = bindR (mapErr SetJson (Parse (jl_tokens J data))) decode_settings_value"

section \<open>The file\<close>

definition settings_Load :: "json_lib \<Rightarrow> PrivateFile \<Rightarrow> (settings_error file_error, settings, disk) act" where
  "settings_Load J p = record_Load (decode_settings J) no_settings p"

definition settings_Save :: "json_lib \<Rightarrow> PrivateFile \<Rightarrow> settings \<Rightarrow> (settings_error file_error, unit, disk) act" where
  "settings_Save J p s = record_Save (encode_settings J) p s"

definition storeEntry :: "json_lib \<Rightarrow> PrivateFile \<Rightarrow> PathEntry \<Rightarrow> (settings_error file_error, unit, disk) act" where
  "storeEntry J p entry =
     under_lock p
       (record_change (decode_settings J) (encode_settings J) no_settings p
         (\<lambda>s. if settings_Lookup s (pe_Path entry) = Some (pe_Target entry) then None else Some (settings_Put s entry)))
       (\<lambda>u r. case (r, u) of (Inr _, Inl e) \<Rightarrow> Inl (FilePrivate e) | _ \<Rightarrow> r)"

text \<open>A machine without a configuration directory has nowhere to remember, which is no failure.\<close>

definition rememberSettings :: "json_lib \<Rightarrow> PrivateFile \<Rightarrow> (bytes \<Rightarrow> bytes) \<Rightarrow> bytes \<Rightarrow> PathEntry \<Rightarrow> (settings_error file_error, unit, disk) act" where
  "rememberSettings J p getenv goos entry =
     (case ConfigDir getenv goos of Inl _ \<Rightarrow> retS () | Inr dir \<Rightarrow> storeEntry J p entry)"

section \<open>Reading back\<close>

definition wf_target :: "Target \<Rightarrow> bool" where
  "wf_target t \<longleftrightarrow> (tg_Kind t = KindHosted \<and> tg_Region t = '''' \<and> tg_Profile t = '''' \<and> \<not> tg_PathStyle t \<or> tg_Kind t = KindS3) \<and>
     tg_Name t \<noteq> '''' \<and> ValidatePrefix (tg_Prefix t) = Inr ()"

definition wf_settings :: "settings \<Rightarrow> bool" where
  "wf_settings s \<longleftrightarrow> distinct (map pe_Path (ss_entries s)) \<and> list_all (\<lambda>e. pe_Path e \<noteq> '''' \<and> wf_target (pe_Target e)) (ss_entries s) \<and>
     list_all (\<lambda>t. wf_target t \<and> tg_Kind t = KindS3) (ss_defaults s)"

definition utf8_target :: "Target \<Rightarrow> bool" where
  "utf8_target t \<longleftrightarrow> utf8_Valid (tg_Kind t) \<and> utf8_Valid (tg_Endpoint t) \<and> utf8_Valid (tg_Region t) \<and> utf8_Valid (tg_Profile t) \<and>
     utf8_Valid (tg_Name t) \<and> utf8_Valid (tg_Prefix t)"

definition good_settings :: "settings \<Rightarrow> bool" where
  "good_settings s \<longleftrightarrow> wf_settings s \<and> list_all (\<lambda>e. utf8_Valid (pe_Path e) \<and> utf8_target (pe_Target e)) (ss_entries s) \<and>
     list_all utf8_target (ss_defaults s)"

lemmas field_simps_json = stringField_def boolField_def nonemptyField_def decodePrefix_def Value_Field_def RejectUnknown_def

lemma decode_encodeTarget: "wf_target t \<Longrightarrow> decodeTarget (encodeTarget t) = Inr t"
  by (auto simp: wf_target_def decodeTarget_def encodeTarget_def field_simps_json KindHosted_def KindS3_def)

lemma decodeTarget_wf: "decodeTarget v = Inr t \<Longrightarrow> wf_target t"
  by (auto simp: decodeTarget_def wf_target_def bindR_eq_Inr nonemptyField_def decodePrefix_def split: if_splits)

lemma decodeV1Target_wf: "decodeV1Target v = Inr t \<Longrightarrow> wf_target t"
  by (auto simp: decodeV1Target_def wf_target_def bindR_eq_Inr nonemptyField_def decodePrefix_def split: if_splits)

lemma Lookup_None: "settings_Lookup s path = None \<longleftrightarrow> path \<notin> pe_Path ` set (ss_entries s)"
  by (auto simp: settings_Lookup_def find_None_iff)

definition entry_json :: "PathEntry \<Rightarrow> jvalue" where
  "entry_json e = JObject [(''path'', JString (pe_Path e)), (''target'', encodeTarget (pe_Target e))]"

lemma decode_entry_json: "pe_Path e \<noteq> '''' \<Longrightarrow> wf_target (pe_Target e) \<Longrightarrow> decode_entry decodeTarget (entry_json e) = Inr e"
  by (simp add: decode_entry_def entry_json_def field_simps_json decode_encodeTarget)

lemma decode_list_json:
  "list_all (\<lambda>e. pe_Path e \<noteq> '''' \<and> wf_target (pe_Target e)) es \<Longrightarrow> distinct (map pe_Path (ss_entries s @ es)) \<Longrightarrow>
   decode_list (decode_entry decodeTarget) i s (map entry_json es) = Inr (s\<lparr>ss_entries := ss_entries s @ es\<rparr>)"
proof (induction es arbitrary: i s)
  case (Cons e es)
  then have "settings_Lookup s (pe_Path e) = None" by (auto simp: Lookup_None)
  then show ?case using Cons by (simp add: decode_entry_json)
qed simp

lemma decode_defaults_json:
  "list_all (\<lambda>t. wf_target t \<and> tg_Kind t = KindS3) ts \<Longrightarrow> decode_defaults i s (map encodeTarget ts) = Inr (s\<lparr>ss_defaults := ss_defaults s @ ts\<rparr>)"
  by (induction ts arbitrary: i s) (simp_all add: decode_encodeTarget, simp add: KindS3_def KindHosted_def)

lemma decode_value:
  assumes "wf_settings s"
  shows "decode_settings_value (settings_value s) = Inr s"
proof -
  have v: "settings_value s = JObject [(''version'', JNumber settings_FormatVersion), (''entries'', JArray (map entry_json (ss_entries s))),
      (''defaults'', JArray (map encodeTarget (ss_defaults s)))]"
    by (simp add: settings_value_def entry_json_def)
  have "decode_list (decode_entry decodeTarget) 0 no_settings (map entry_json (ss_entries s)) = Inr (no_settings\<lparr>ss_entries := ss_entries s\<rparr>)"
    using decode_list_json [of "ss_entries s" no_settings 0] assms by (simp add: wf_settings_def no_settings_def)
  moreover have "decode_defaults 0 (no_settings\<lparr>ss_entries := ss_entries s\<rparr>) (map encodeTarget (ss_defaults s)) = Inr s"
    using decode_defaults_json [of "ss_defaults s" 0 "no_settings\<lparr>ss_entries := ss_entries s\<rparr>"] assms by (simp add: wf_settings_def no_settings_def)
  ultimately show ?thesis unfolding v
    by (simp add: decode_settings_value_def decodeV2_def decodeEntries_def Value_Field_def RejectUnknown_def settings_FormatVersion_def)
qed

lemma settings_names: "unique_names (settings_value s)"
  by (auto simp: settings_value_def encodeTarget_def)

lemma settings_texts: "good_settings s \<Longrightarrow> valid_texts (settings_value s)"
  by (auto simp: good_settings_def settings_value_def encodeTarget_def utf8_target_def list_all_iff utf8_Valid_ascii)

lemma settings_back:
  assumes "json_text J" "good_settings s"
  shows "decode_settings J (encode_settings J s) = Inr s"
  using json_text.read_back [OF assms(1) settings_texts [OF assms(2)]] Parse_Encode [OF settings_names] decode_value assms(2)
  by (simp add: decode_settings_def encode_settings_def good_settings_def)

lemma settings_file: "json_text J \<Longrightarrow> record_file (decode_settings J) (encode_settings J) good_settings (\<lambda>s. s)"
  by unfold_locales (rule settings_back)

interpretation numbered_settings: record_file "decode_settings numbering_json" "encode_settings numbering_json" no_settings good_settings "\<lambda>s. s"
  by (rule settings_file [OF numbering.json_text_axioms])

lemma decode_list_wf:
  assumes "\<And>v t. targetOf v = Inr t \<Longrightarrow> wf_target t"
  shows "decode_list (decode_entry targetOf) i s items = Inr s' \<Longrightarrow> wf_settings s \<Longrightarrow> wf_settings s' \<and> ss_defaults s' = ss_defaults s"
proof (induction items arbitrary: i s)
  case (Cons item items)
  then obtain e where e: "decode_entry targetOf item = Inr e" "settings_Lookup s (pe_Path e) = None"
    "decode_list (decode_entry targetOf) (Suc i) (s\<lparr>ss_entries := ss_entries s @ [e]\<rparr>) items = Inr s'"
    by (auto simp: bindR_eq_Inr split: if_splits)
  have "pe_Path e \<noteq> ''''" "wf_target (pe_Target e)"
    using e(1) assms by (auto simp: decode_entry_def bindR_eq_Inr nonemptyField_def split: if_splits)
  moreover have "pe_Path e \<notin> pe_Path ` set (ss_entries s)" using e(2) by (simp add: Lookup_None)
  ultimately have "wf_settings (s\<lparr>ss_entries := ss_entries s @ [e]\<rparr>)" using Cons.prems(2) by (auto simp: wf_settings_def)
  then show ?case using Cons.IH [OF e(3)] by simp
qed simp

lemma decode_defaults_wf: "decode_defaults i s items = Inr s' \<Longrightarrow> wf_settings s \<Longrightarrow> wf_settings s'"
proof (induction items arbitrary: i s)
  case (Cons item items)
  then obtain t where t: "decodeTarget item = Inr t" "tg_Kind t \<noteq> KindHosted"
    "decode_defaults (Suc i) (s\<lparr>ss_defaults := ss_defaults s @ [t]\<rparr>) items = Inr s'"
    by (auto simp: bindR_eq_Inr split: if_splits)
  have "wf_target t \<and> tg_Kind t = KindS3" using decodeTarget_wf [OF t(1)] t(2) by (auto simp: wf_target_def)
  then have "wf_settings (s\<lparr>ss_defaults := ss_defaults s @ [t]\<rparr>)" using Cons.prems(2) by (auto simp: wf_settings_def)
  then show ?case by (rule Cons.IH [OF t(3)])
qed simp

lemma decode_settings_wf: "decode_settings J data = Inr s \<Longrightarrow> wf_settings s"
proof -
  have none: "wf_settings no_settings" by (simp add: wf_settings_def no_settings_def)
  have one: "decodeEntries root (decode_entry decodeV1Target) = Inr s \<Longrightarrow> wf_settings s" for root s
    using decode_list_wf [OF decodeV1Target_wf] none by (auto simp: decodeEntries_def split: option.splits jvalue.splits)
  have two: "decodeEntries root (decode_entry decodeTarget) = Inr s \<Longrightarrow> wf_settings s" for root s
    using decode_list_wf [OF decodeTarget_wf] none by (auto simp: decodeEntries_def split: option.splits jvalue.splits)
  assume "decode_settings J data = Inr s"
  then obtain root where "decode_settings_value root = Inr s" by (auto simp: decode_settings_def bindR_eq_Inr)
  then consider "decodeV1 root = Inr s" | "decodeV2 root = Inr s"
    by (auto simp: decode_settings_value_def split: if_splits option.splits jvalue.splits)
  then show ?thesis
  proof cases
    case 1
    then show ?thesis using one by (auto simp: decodeV1_def bindR_eq_Inr)
  next
    case 2
    then obtain s0 where "decodeEntries root (decode_entry decodeTarget) = Inr s0"
      "(case Value_Field root ''defaults'' of Some (JArray items) \<Rightarrow> decode_defaults 0 s0 items | _ \<Rightarrow> Inl SetNoDefaults) = Inr s"
      by (auto simp: decodeV2_def bindR_eq_Inr)
    then show ?thesis using two decode_defaults_wf by (auto split: option.splits jvalue.splits)
  qed
qed

lemma stored_settings_wf: "record_stored (decode_settings J) no_settings p d s \<Longrightarrow> wf_settings s"
  by (auto simp: record_stored_def dest: decode_settings_wf) (simp add: wf_settings_def no_settings_def)

section \<open>Remembering a directory\<close>

lemma settings_put_split:
  assumes "e \<in> set (ss_entries s)" "pe_Path e = pe_Path e'"
  obtains a x b where "ss_entries s = a @ x # b" "pe_Path x = pe_Path e'" "\<forall>y \<in> set a. pe_Path y \<noteq> pe_Path e'"
    "settings_Put s e' = s\<lparr>ss_entries := a @ e' # b\<rparr>"
proof -
  let ?P = "\<lambda>x. pe_Path x \<noteq> pe_Path e'"
  obtain a x b where s: "ss_entries s = a @ x # b" "\<forall>y \<in> set a. ?P y" "\<not> ?P x"
    using split_list_first_prop [of "ss_entries s" "\<lambda>x. \<not> ?P x"] assms by auto
  then have "takeWhile ?P (ss_entries s) = a" by (simp add: takeWhile_append2)
  then have "settings_Put s e' = s\<lparr>ss_entries := a @ e' # b\<rparr>" using s(1) by (simp add: settings_Put_def)
  then show ?thesis using that [of a x b] s by blast
qed

lemma settings_put_new:
  assumes "settings_Lookup s (pe_Path e) = None"
  shows "settings_Put s e = s\<lparr>ss_entries := ss_entries s @ [e]\<rparr>"
proof -
  have "pe_Path x \<noteq> pe_Path e" if "x \<in> set (ss_entries s)" for x using assms that by (auto simp: Lookup_None image_iff)
  then have "takeWhile (\<lambda>x. pe_Path x \<noteq> pe_Path e) (ss_entries s) = ss_entries s" by simp
  then show ?thesis by (simp only: settings_Put_def Let_def) simp
qed

lemma find_app: "find P (xs @ ys) = (case find P xs of None \<Rightarrow> find P ys | Some x \<Rightarrow> Some x)"
  by (induction xs) simp_all

lemma settings_Put_cases:
  obtains (new) "settings_Lookup s (pe_Path e) = None" "settings_Put s e = s\<lparr>ss_entries := ss_entries s @ [e]\<rparr>"
  | (old) a x b where "ss_entries s = a @ x # b" "pe_Path x = pe_Path e" "\<forall>y \<in> set a. pe_Path y \<noteq> pe_Path e"
    "settings_Put s e = s\<lparr>ss_entries := a @ e # b\<rparr>"
proof (cases "settings_Lookup s (pe_Path e)")
  case None
  then show ?thesis using new settings_put_new by blast
next
  case (Some t)
  then obtain y where "y \<in> set (ss_entries s)" "pe_Path y = pe_Path e" using Lookup_None [of s "pe_Path e"] by auto
  then show ?thesis using old settings_put_split by metis
qed

lemma settings_Put_Lookup: "settings_Lookup (settings_Put s e) path = (if path = pe_Path e then Some (pe_Target e) else settings_Lookup s path)"
proof (cases rule: settings_Put_cases [of s e])
  case new
  then have "find (\<lambda>x. pe_Path x = pe_Path e) (ss_entries s) = None" by (simp add: settings_Lookup_def)
  then show ?thesis unfolding new(2)
    by (cases "find (\<lambda>x. pe_Path x = path) (ss_entries s)") (auto simp: settings_Lookup_def find_app)
next
  case (old a x b)
  have "find (\<lambda>y. pe_Path y = pe_Path e) a = None" using old(3) by (auto simp: find_None_iff)
  then show ?thesis unfolding old(4) using old(1,2) by (auto simp: settings_Lookup_def find_app split: option.splits)
qed

lemma settings_Put_wf: "wf_settings s \<Longrightarrow> pe_Path e \<noteq> '''' \<Longrightarrow> wf_target (pe_Target e) \<Longrightarrow> wf_settings (settings_Put s e)"
proof (cases rule: settings_Put_cases [of s e])
  case new
  then show "wf_settings s \<Longrightarrow> pe_Path e \<noteq> '''' \<Longrightarrow> wf_target (pe_Target e) \<Longrightarrow> ?thesis"
    using Lookup_None [of s "pe_Path e"] by (auto simp: wf_settings_def)
next
  case (old a x b)
  then show "wf_settings s \<Longrightarrow> pe_Path e \<noteq> '''' \<Longrightarrow> wf_target (pe_Target e) \<Longrightarrow> ?thesis" by (auto simp: wf_settings_def)
qed

lemma settings_Put_utf8:
  "list_all P (ss_entries s) \<Longrightarrow> P e \<Longrightarrow> list_all P (ss_entries (settings_Put s e))" "ss_defaults (settings_Put s e) = ss_defaults s"
  by (cases rule: settings_Put_cases [of s e]; simp)+


definition small_target :: Target where
  "small_target = \<lparr>tg_Kind = KindS3, tg_Endpoint = ''https://s3.example'', tg_Region = ''eu'', tg_Profile = '''', tg_Name = ''notes'',
     tg_Prefix = '''', tg_PathStyle = False\<rparr>"

definition big_file :: "nat \<Rightarrow> PrivateFile" where
  "big_file n = small_file\<lparr>pf_MaxBytes := n\<rparr>"

lemma big_sound: "sound_calls (big_file n)" "private_dir (big_file n) empty_disk" "\<not> dk_locked empty_disk"
  by (simp_all add: big_file_def small_file_def sound_calls_def quiet_def private_dir_def empty_disk_def)

lemma small_target_ok: "wf_target small_target" "utf8_target small_target"
  by (simp_all add: wf_target_def utf8_target_def small_target_def KindS3_def KindHosted_def ValidatePrefix_def utf8_Valid_ascii)


section \<open>A directory whose name is not UTF-8\<close>

text \<open>A path with one byte that is not UTF-8, and what the JSON text keeps of it.\<close>

definition odd_path :: bytes where "odd_path = ''/n/'' @ [CHR 0xE9]"
definition kept_path :: bytes where "kept_path = ''/n/'' @ [CHR 0xEF, CHR 0xBF, CHR 0xBD]"

lemma odd_coerced: "coerced_text odd_path = kept_path" "utf8_Valid kept_path" "kept_path \<noteq> odd_path"
  by (simp_all add: coerced_text_def odd_path_def kept_path_def utf8_Valid_def Runes_Cons Runes_Nil DecodeRune_def byteAt_def cont_byte_def)

lemma coerced_plain: "ascii s \<Longrightarrow> coerced_text s = s"
  by (rule coerced_text_valid) (rule utf8_Valid_ascii)

lemma target_tokens: "utf8_target t \<Longrightarrow> map coerced_token (encode_value (encodeTarget t)) = encode_value (encodeTarget t)"
  by (simp add: encodeTarget_def utf8_target_def coerced_text_valid coerced_plain)

text \<open>An entry as it is after a write and a read.\<close>

definition kept :: "PathEntry \<Rightarrow> PathEntry" where
  "kept e = e\<lparr>pe_Path := coerced_text (pe_Path e)\<rparr>"

lemma coerced_settings:
  assumes "list_all (\<lambda>e. utf8_target (pe_Target e)) es"
  shows "coerced (Encode (settings_value \<lparr>ss_entries = es, ss_defaults = []\<rparr>)) = Encode (settings_value \<lparr>ss_entries = map kept es, ss_defaults = []\<rparr>)"
proof -
  have "map coerced_token (encode_value (entry_json e)) = encode_value (entry_json (kept e))" if "utf8_target (pe_Target e)" for e
    using target_tokens [OF that] by (simp add: entry_json_def kept_def coerced_plain)
  then have "map coerced_token (concat (map (encode_value \<circ> entry_json) es)) = concat (map (encode_value \<circ> entry_json \<circ> kept) es)"
    using assms by (induction es) simp_all
  then show ?thesis by (simp add: coerced_def Encode_def settings_value_def entry_json_def [symmetric] coerced_plain comp_def map_concat)
qed



end
