(* ===== verification/Spec2Isabelle.thy ===== *)
theory Spec2Isabelle
  imports ProtocolProgress NotebookSafety WorkspaceExact WorkspaceIdentity EncryptCommands Settings
begin

text \<open>
  A verification library for slivingdoc, a notebook of files that several machines share through an object store.

  \<^bold>\<open>The program.\<close> A notebook's state is a Git tree. The store holds one mutable object, \<open>current\<close>: a manifest that
  names the accepted head commit, the pack of the last checkpoint and the packs of the commits since then. All
  other objects are immutable packs under unique keys. A pull reads the manifest, imports the packs it lacks,
  merges the accepted tree with the local files and writes the result to the visible directory. A commit merges
  the same way, uploads a pack and replaces \<open>current\<close> under its ETag, which is the one step that publishes anything.
  When enough increments have piled up a checkpoint replaces a prefix of them, and cleanup deletes packs that no
  manifest references any more.

  \<^bold>\<open>The parts\<close>, with the files under \<open>src/internal\<close> each theory models. Each theory imports those it calls.

  \<^item> \<open>Prelude\<close>, \<open>BigEndian\<close>: bytes and words, results (\<open>bindR\<close>, \<open>mapErr\<close>), actions over a state (\<open>bindS\<close>, \<open>tryS\<close>, \<open>liftS\<close>), big-endian
    integers, shared lemmas. A Go \<open>(value, error)\<close> pair is a sum with the error on the left; a method that changes state is a
    function from the state to a result and the new state, and the state a failing method leaves behind is part of it.
  \<^item> \<open>Identifiers\<close>: object IDs, checksums, UUIDs (\<open>git/oid.go\<close>, \<open>storage/sha256.go\<close>, \<open>storage/uuid.go\<close>).
  \<^item> \<open>StrictJson\<close>, \<open>JsonText\<close>: the strict parser over the tokens of \<open>encoding/json\<close> (\<open>strictjson/json.go\<close>).
  \<^item> \<open>PackKey\<close>: pack keys, upload metadata, space names (\<open>storage/key.go\<close>, \<open>metadata.go\<close>, \<open>name.go\<close>).
  \<^item> \<open>Manifest\<close>, \<open>CurrentWrapper\<close>: the manifest and its encrypted wrapper (\<open>storage/manifest.go\<close>).
  \<^item> \<open>ObjectStore\<close>: the store interface, uploads, the probe, the in-memory store (\<open>storage/store.go\<close>, \<open>upload.go\<close>, \<open>probe.go\<close>,
    \<open>fake/\<close>).
  \<^item> \<open>Envelope\<close>, \<open>EnvelopeSound\<close>, \<open>Keyring\<close>: the encrypted envelope, the derivation gate, the keyring and its doors (\<open>crypt/\<close>).
  \<^item> \<open>EncryptedStore\<close>: the decorator that encrypts a store (\<open>storage/encrypted.go\<close>).
  \<^item> \<open>PathRules\<close>, \<open>PathPolicy\<close>, \<open>TreePolicy\<close>, \<open>TreeRestore\<close>: which paths are valid and which are read-only, and the tree walks
    that enforce it (\<open>git/path.go\<close>, \<open>readonly.go\<close>, \<open>policy.go\<close>).
  \<^item> \<open>GitTree\<close>, \<open>Merge\<close>, \<open>PackClosure\<close>, \<open>DiffStat\<close>: trees, merges, packs with their closures, change summaries (\<open>git/tree.go\<close>,
    \<open>merge.go\<close>, \<open>pack.go\<close>, \<open>diffstat.go\<close>).
  \<^item> \<open>Publication\<close>: the manifests the notebook proposes (\<open>notebook/commit.go\<close>, \<open>checkpoint.go\<close>).
  \<^item> \<open>Protocol\<close>, \<open>ProtocolProgress\<close>: several processes over one store, as a step relation whose steps are those proposals.
  \<^item> \<open>WorkspaceState\<close>, \<open>Ignore\<close>, \<open>VisibleTree\<close>, \<open>WorkspaceOps\<close>: the private state record, ignore patterns, the visible directory and
    the locked operations that scan and rewrite it (\<open>workspace/state.go\<close>, \<open>ignore.go\<close>, \<open>scan.go\<close>, \<open>materialize.go\<close>, \<open>workspace.go\<close>).
  \<^item> \<open>WorkspaceIdentity\<close>: which private directory belongs to which visible one (\<open>workspace/identity.go\<close>, \<open>path.go\<close>).
  \<^item> \<open>WorkspaceSafety\<close>, \<open>WorkspaceExact\<close>: what those operations guarantee when they fail and when they succeed.
  \<^item> \<open>NotebookErrors\<close>, \<open>Remote\<close>, \<open>NotebookCommit\<close>, \<open>NotebookPull\<close>: the notebook (\<open>notebook/\<close>), whose state is the record \<open>nbst\<close>.
  \<^item> \<open>NotebookStore\<close>, \<open>NotebookAccept\<close>, \<open>NotebookSafety\<close>: what the notebook's operations do to the store.
  \<^item> \<open>PrivateFile\<close>, \<open>ConfigFiles\<close>: owner-only files and the directory they are in (\<open>credentials/privatefile.go\<close>,
    \<open>pathutil/home.go\<close>); \<open>KeyRecord\<close>: stored key material and the candidates a keyring tries (\<open>keyrecord/\<close>); \<open>Settings\<close>: which directory
    remembers which store (\<open>settings/\<close>, \<open>app/association.go\<close>).
  \<^item> \<open>Wordlist\<close>, \<open>RecoveryCode\<close>: recovery codes (\<open>recovery/\<close>).
  \<^item> \<open>NotebookEncryption\<close>: the change of doors and the root publications of an encrypted notebook (\<open>notebook/encryption.go\<close>), over the
    state \<open>encst\<close>; \<open>MaskedRead\<close>: the terminal line editor for secrets (\<open>tui/masked.go\<close>); \<open>EncryptCommands\<close>: the five commands that put
    the candidates, the prompt, the keyring, the notebook and the key record together (\<open>app/encryption.go\<close>), over the state \<open>cmdst\<close>.

  \<^bold>\<open>What the lemmas show.\<close> The protocol: no interleaving of writers, checkpoint workers, cleaners and crashes loses a referenced
  pack or moves the manifest back, and no reachable state blocks a writer. The notebook: a commit moves the manifest forward or
  leaves it, a refusal leaves it, a reported success is recorded, cleanup deletes nothing referenced, views only read. The
  workspace: a rewrite is exact when it succeeds and demands recovery when it fails. Encryption: only ciphertext reaches the raw
  store, the decorated store is a conditional store again, an envelope opens only if it was sealed for that key, and no input makes
  the decoder index outside a slice; a door change replaces the header of \<open>current\<close> alone, a root publication stores only what is
  sealed under the new key, a printed recovery code opens the door then stored, and a command that fails stores no secret. The codecs: each decodes what it encodes, and whatever it decodes satisfies its invariant.
  Trees, packs and policies: the walks agree with declarative descriptions. Configuration: a private file is read whole or not at
  all and written whole or not at all, and a change of a record touches one entry.

  \<^bold>\<open>Interfaces.\<close> A locale states what a component relies on and is interpreted on the model that provides it:
  \<open>conditional_store\<close> on the in-memory store, \<open>object_db\<close> on a repository held in a map, \<open>json_text\<close> and \<open>uuid_text\<close> on concrete codecs,
  \<open>primitives\<close> on checksum ciphers, \<open>path_folding\<close> on ASCII folding, \<open>record_file\<close> on the key record and the settings,
  \<open>store_reader\<close> and \<open>store_client\<close> on a notebook over the in-memory store. The JSON law is the documented behaviour: the tokens read
  back are those written with every invalid UTF-8 sequence coerced to U+FFFD.

  \<^bold>\<open>Bounds and fuel.\<close> Machine integers are words. The walks of \<open>PackClosure\<close>, \<open>GitTree\<close> and \<open>TreePolicy\<close> take fuel: the
  number of objects the reachable part of a finite repository names (\<open>closure_fuel\<close>), or the depth of the directories, is enough,
  and the theorems that a walk returns are stated with it. Other loops recurse on their data or on a measure. The retry loops of the
  notebook recurse on their remaining attempts, as the code counts them.

  \<^bold>\<open>Not modelled.\<close> libgit2 behind \<open>git2/\<close>, the ciphers and Argon2id, Unicode folding and normalization, SHA-256, randomness and the
  clock are arguments with the laws the code relies on. The network clients (\<open>httpstore/\<close>, \<open>s3store/\<close>, \<open>sitelogin/\<close>) appear as the store
  interface they implement. The other commands, the MCP server and the terminal drawing (\<open>app/\<close>, \<open>cli/\<close>, \<open>mcp/\<close>, \<open>tui/\<close>)
  arrange the modelled operations; message texts are left out. Contexts and time-outs appear as the failure of the call they cut off; goroutines that only
  overlap downloads as the order in which their results are used.
\<close>

end
